(* ===== verification/Prelude.thy ===== *)
theory Prelude
  imports Main "HOL-Library.Word"
begin

text \<open>
  Shared vocabulary of the development: the machine types of the firmware (an ESP32 with a
  32-bit \<open>unsigned long\<close>), C strings held in fixed buffers, decimal and hexadecimal printing as
  \<open>snprintf\<close> does it, and the generic list facts the component theories lean on.  Facts that
  component proofs use as rewrite rules are collected in \<open>cstr_simps\<close>.
\<close>

unbundle bit_operations_syntax

named_theorems cstr_simps \<open>rewrite rules for C strings in fixed buffers\<close>

type_synonym u8 = "8 word"
type_synonym u16 = "16 word"
type_synonym u32 = "32 word"
type_synonym u64 = "64 word"
type_synonym i32 = "32 word"
type_synonym bytes = "8 word list"

lemma unat_u8_less: "unat (w :: u8) < 256"
  using unsigned_less [of w, where ?'a = nat] by simp

lemma unat_u16_less: "unat (w :: u16) < 65536"
  using unsigned_less [of w, where ?'a = nat] by simp

lemma unat_u32_less: "unat (w :: u32) < 4294967296"
  using unsigned_less [of w, where ?'a = nat] by simp

lemma unat_u64_less: "unat (w :: u64) < 18446744073709551616"
  using unsigned_less [of w, where ?'a = nat] by simp

lemma filter_out_one:
  assumes "distinct (as @ x # bs)"
  shows "filter (\<lambda>y. y \<noteq> x) (as @ x # bs) = as @ bs"
proof -
  have "filter (\<lambda>y. y \<noteq> x) as = as" and "filter (\<lambda>y. y \<noteq> x) bs = bs"
    using assms by (auto simp: filter_id_conv)
  then show ?thesis by simp
qed

section \<open>C strings\<close>

abbreviation NUL :: char where
  "NUL \<equiv> CHR 0x00"

text \<open>The string a \<open>char\<close> buffer holds: its characters up to the first NUL.\<close>

definition cstr :: "string \<Rightarrow> string" where
  "cstr s = takeWhile (\<lambda>c. c \<noteq> NUL) s"

definition strnlen :: "string \<Rightarrow> nat \<Rightarrow> nat" where
  "strnlen s n = length (cstr (take n s))"

text \<open>\<open>strcmp a b = 0\<close> and \<open>strncmp a b n = 0\<close>.\<close>

definition str_eq :: "string \<Rightarrow> string \<Rightarrow> bool" where
  "str_eq a b \<longleftrightarrow> cstr a = cstr b"

definition strn_eq :: "string \<Rightarrow> string \<Rightarrow> nat \<Rightarrow> bool" where
  "strn_eq a b n \<longleftrightarrow> cstr (take n a) = cstr (take n b)"

text \<open>\<open>strstr hay needle \<noteq> NULL\<close>.\<close>

fun strstr :: "string \<Rightarrow> string \<Rightarrow> bool" where
  "strstr [] needle = (needle = [])"
| "strstr (c # cs) needle = (take (length needle) (c # cs) = needle \<or> strstr cs needle)"

text \<open>\<open>strncpy\<close> into a buffer: the first \<open>n\<close> characters, zero filled; the rest is kept.\<close>

definition strncpy :: "string \<Rightarrow> string \<Rightarrow> nat \<Rightarrow> string" where
  "strncpy dst src n =
     (let s = cstr (take n src) in s @ replicate (n - length s) NUL @ drop n dst)"

text \<open>\<open>strcpy\<close>: the string and its terminator, the rest of the buffer is kept.\<close>

definition strcpy :: "string \<Rightarrow> string \<Rightarrow> string" where
  "strcpy dst src = cstr src @ [NUL] @ drop (Suc (length (cstr src))) dst"

lemma cstr_Nil [simp]: "cstr [] = []"
  by (simp add: cstr_def)

lemma cstr_Cons: "cstr (c # cs) = (if c = NUL then [] else c # cstr cs)"
  by (simp add: cstr_def)

lemma NUL_notin_cstr [simp]: "NUL \<notin> set (cstr s)"
  by (auto simp: cstr_def dest: set_takeWhileD)

lemma cstr_idem [simp]: "cstr (cstr s) = cstr s"
  by (simp add: cstr_def)

lemma cstr_id: "NUL \<notin> set s \<Longrightarrow> cstr s = s"
  by (auto simp: cstr_def)

lemma cstr_append_NUL: "NUL \<notin> set s \<Longrightarrow> cstr (s @ NUL # t) = s"
  by (induction s) (auto simp: cstr_Cons)

lemma cstr_cstr_NUL [simp]: "cstr (cstr s @ NUL # t) = cstr s"
  by (rule cstr_append_NUL) simp

lemma length_cstr_le: "length (cstr s) \<le> length s"
  by (simp add: cstr_def length_takeWhile_le)

lemma strstr_iff: "strstr hay needle \<longleftrightarrow> (\<exists>a b. hay = a @ needle @ b)"
proof (induction hay)
  case (Cons c cs)
  show ?case
  proof
    assume "strstr (c # cs) needle"
    then consider "take (length needle) (c # cs) = needle" | "strstr cs needle" by auto
    then show "\<exists>a b. c # cs = a @ needle @ b"
    proof cases
      case 1
      then have "c # cs = [] @ needle @ drop (length needle) (c # cs)"
        by (metis append_Nil append_take_drop_id)
      then show ?thesis by blast
    next
      case 2
      with Cons.IH obtain a b where "cs = a @ needle @ b" by blast
      then have "c # cs = (c # a) @ needle @ b" by simp
      then show ?thesis by blast
    qed
  next
    assume "\<exists>a b. c # cs = a @ needle @ b"
    then obtain a b where eq: "c # cs = a @ needle @ b" by blast
    show "strstr (c # cs) needle"
    proof (cases a)
      case Nil
      with eq have "take (length needle) (c # cs) = needle" by simp
      then show ?thesis by simp
    next
      case (Cons a' as)
      with eq have "cs = as @ needle @ b" by simp
      with Cons.IH show ?thesis by auto
    qed
  qed
qed simp

section \<open>Printing numbers\<close>

definition hex_digit :: "nat \<Rightarrow> char" where
  "hex_digit d = ''0123456789ABCDEF'' ! d"

text \<open>The \<open>n\<close> low hexadecimal digits of a number, most significant first.\<close>

fun hex_digits :: "nat \<Rightarrow> nat \<Rightarrow> string" where
  "hex_digits 0 v = []"
| "hex_digits (Suc n) v = hex_digits n (v div 16) @ [hex_digit (v mod 16)]"

definition dec_digit :: "nat \<Rightarrow> char" where
  "dec_digit d = ''0123456789'' ! d"

fun dec_digits :: "nat \<Rightarrow> string" where
  "dec_digits v = (if v < 10 then [dec_digit v] else dec_digits (v div 10) @ [dec_digit (v mod 10)])"

declare dec_digits.simps [simp del]

lemma hex_digit_inj: "a < 16 \<Longrightarrow> b < 16 \<Longrightarrow> hex_digit a = hex_digit b \<Longrightarrow> a = b"
proof -
  have "distinct ''0123456789ABCDEF''" by simp
  moreover assume "a < 16" "b < 16" "hex_digit a = hex_digit b"
  ultimately show "a = b"
    using nth_eq_iff_index_eq [of "''0123456789ABCDEF''" a b] by (simp add: hex_digit_def)
qed

lemma length_hex_digits [simp]: "length (hex_digits n v) = n"
  by (induction n arbitrary: v) auto

lemma hex_digits_inj: "v < 16 ^ n \<Longrightarrow> w < 16 ^ n \<Longrightarrow> hex_digits n v = hex_digits n w \<Longrightarrow> v = w"
proof (induction n arbitrary: v w)
  case (Suc n)
  from Suc.prems have d: "hex_digits n (v div 16) = hex_digits n (w div 16)"
    and m: "hex_digit (v mod 16) = hex_digit (w mod 16)" by auto
  from Suc.prems(1,2) have b: "v div 16 < 16 ^ n" "w div 16 < 16 ^ n"
    by (simp_all add: div_less_iff_less_mult mult.commute)
  have "v div 16 = w div 16" using Suc.IH [OF b d] .
  moreover have "v mod 16 = w mod 16" using m by (rule hex_digit_inj [rotated 2]) simp_all
  ultimately show ?case by (metis div_mod_decomp)
qed simp

end
