(* ===== verification/Timeout.thy ===== *)
theory Timeout
  imports Prelude
begin

text \<open>
  \<open>src/include/timeout.h\<close>: the wrap-around timeouts every component of the firmware uses.
  Timestamps are the 32-bit millisecond counter of the ESP32; the subtraction wraps, so a
  timeout is measured as an elapsed time and never compared with an absolute deadline.
\<close>

definition timeoutElapsed :: "u32 \<Rightarrow> u32 \<Rightarrow> u32 \<Rightarrow> bool" where
  "timeoutElapsed timeoutStart timeoutLength now \<longleftrightarrow> timeoutLength \<le> now - timeoutStart"

definition timeoutRemaining :: "u32 \<Rightarrow> u32 \<Rightarrow> u32 \<Rightarrow> u32" where
  "timeoutRemaining timeoutStart timeoutLength now =
     (let elapsed = now - timeoutStart
      in if timeoutLength \<le> elapsed then 0 else timeoutLength - elapsed)"

text \<open>
  The counter after \<open>t\<close> real milliseconds is \<open>of_nat t\<close>; \<open>s\<close> is the real start time.  For
  less than one full wrap the timeout is exactly real elapsed time.
\<close>

lemma elapsed_exact:
  assumes "s \<le> t" and "t - s < 2 ^ 32"
  shows "unat (of_nat t - of_nat s :: u32) = t - s"
proof -
  have "of_nat t - of_nat s = (of_nat (t - s) :: u32)"
    using assms(1) by (simp add: of_nat_diff)
  then show ?thesis using assms(2) by (simp add: unat_of_nat take_bit_nat_eq_self)
qed

lemma timeoutElapsed_exact:
  assumes "s \<le> t" and "t - s < 2 ^ 32"
  shows "timeoutElapsed (of_nat s) len (of_nat t) \<longleftrightarrow> unat len \<le> t - s"
  using elapsed_exact [OF assms] by (simp add: timeoutElapsed_def word_le_nat_alt)

lemma timeoutElapsed_zero [simp]: "timeoutElapsed s 0 now"
  by (simp add: timeoutElapsed_def)

lemma timeoutRemaining_zero_iff: "timeoutRemaining s len now = 0 \<longleftrightarrow> timeoutElapsed s len now"
  by (auto simp: timeoutRemaining_def timeoutElapsed_def Let_def)

lemma timeoutRemaining_exact:
  assumes "s \<le> t" and "t - s < 2 ^ 32"
  shows "unat (timeoutRemaining (of_nat s) len (of_nat t)) = unat len - (t - s)"
proof (cases "len \<le> of_nat t - of_nat s")
  case True
  then have "unat len \<le> t - s" using elapsed_exact [OF assms] by (simp add: word_le_nat_alt)
  with True show ?thesis by (simp add: timeoutRemaining_def Let_def)
next
  case False
  then have "of_nat t - of_nat s \<le> len" by simp
  then have "unat (len - (of_nat t - of_nat s)) = unat len - unat (of_nat t - of_nat s :: u32)"
    by (simp add: unat_sub)
  with False show ?thesis using elapsed_exact [OF assms] by (simp add: timeoutRemaining_def Let_def)
qed

end
