(* ===== verification/Timer.thy ===== *)
theory Timer
  imports Timeout
begin

text \<open>
  The timer table, \<open>src/include/timer.h\<close> and \<open>src/src/timer.cpp\<close>: ten slots, one-shot and repeating.
  The action handler is a parameter; it gets the table and the rest of the firmware and returns
  both, since an action may itself schedule or cancel timers while \<open>update\<close> walks the table.
\<close>

definition MAX_TIMERS :: nat where "MAX_TIMERS = 10"
definition MAX_TIMER_PARAMETERS :: nat where "MAX_TIMER_PARAMETERS = 11"
definition LOCK_DEACTIVATE :: u8 where "LOCK_DEACTIVATE = 2"
definition AMBIENT_DEACTIVATE :: u8 where "AMBIENT_DEACTIVATE = 4"
definition NOTIFY_DOOR_CHANGE :: u8 where "NOTIFY_DOOR_CHANGE = 16"
definition PASSWORD_TIMEOUT :: u8 where "PASSWORD_TIMEOUT = 3"

record Timer =
  active :: bool
  startedAt :: u32
  interval :: u32
  repeat :: bool
  action :: u8
  arg :: string

type_synonym TimerManager = "Timer list"

definition emptyTimer :: Timer where
  "emptyTimer = \<lparr>active = False, startedAt = 0, interval = 0, repeat = False, action = 0,
     arg = replicate MAX_TIMER_PARAMETERS NUL\<rparr>"

definition newTimerManager :: TimerManager where
  "newTimerManager = replicate MAX_TIMERS emptyTimer"

text \<open>The first inactive slot; \<open>None\<close> is the source's -1.\<close>

fun findFreeSlot_from :: "nat \<Rightarrow> TimerManager \<Rightarrow> nat option" where
  "findFreeSlot_from i [] = None"
| "findFreeSlot_from i (t # ts) = (if \<not> active t then Some i else findFreeSlot_from (Suc i) ts)"

definition findFreeSlot :: "TimerManager \<Rightarrow> nat option" where
  "findFreeSlot tm = findFreeSlot_from 0 tm"

definition setArg :: "string \<Rightarrow> string option \<Rightarrow> string" where
  "setArg buf a = (case a of Some s \<Rightarrow> strcpy buf s | None \<Rightarrow> buf[0 := NUL])"

definition scheduleOnce :: "TimerManager \<Rightarrow> u32 \<Rightarrow> u32 \<Rightarrow> u8 \<Rightarrow> string option \<Rightarrow> nat option \<times> TimerManager" where
  "scheduleOnce tm millis delayMs act a =
     (case findFreeSlot tm of None \<Rightarrow> (None, tm)
      | Some slot \<Rightarrow>
          if act = 0 then (None, tm)
          else (Some slot, tm[slot := (tm ! slot)\<lparr>active := True, startedAt := millis, interval := delayMs,
                  repeat := False, action := act, arg := setArg (arg (tm ! slot)) a\<rparr>]))"

definition scheduleRepeat :: "TimerManager \<Rightarrow> u32 \<Rightarrow> u32 \<Rightarrow> u8 \<Rightarrow> string option \<Rightarrow> nat option \<times> TimerManager" where
  "scheduleRepeat tm millis intervalMs act a =
     (case findFreeSlot tm of None \<Rightarrow> (None, tm)
      | Some slot \<Rightarrow>
          if act = 0 \<or> intervalMs = 0 then (None, tm)
          else (Some slot, tm[slot := (tm ! slot)\<lparr>active := True, startedAt := millis, interval := intervalMs,
                  repeat := True, arg := setArg (arg (tm ! slot)) a, action := act\<rparr>]))"

definition cancel :: "TimerManager \<Rightarrow> int \<Rightarrow> bool \<times> TimerManager" where
  "cancel tm timerId =
     (if timerId < 0 \<or> int MAX_TIMERS \<le> timerId then (False, tm)
      else if \<not> active (tm ! nat timerId) then (False, tm)
      else (True, tm[nat timerId := (tm ! nat timerId)\<lparr>active := False\<rparr>]))"

text \<open>
  \<open>update\<close>: slot by slot; a due timer calls the handler (if one is set), then restarts or ends.  The
  slot is read again after the handler, as the source does.
\<close>

type_synonym 'w handler = "TimerManager \<times> 'w \<Rightarrow> u8 \<Rightarrow> string \<Rightarrow> TimerManager \<times> 'w"

definition update_slot :: "'w handler option \<Rightarrow> u32 \<Rightarrow> nat \<Rightarrow> TimerManager \<times> 'w \<Rightarrow> TimerManager \<times> 'w" where
  "update_slot h now i s =
     (let t = fst s ! i in
      if \<not> active t then s
      else if timeoutElapsed (startedAt t) (interval t) now then
        let s1 = (case h of None \<Rightarrow> s | Some f \<Rightarrow> f s (action t) (arg t));
            t1 = fst s1 ! i
        in if repeat t1 then ((fst s1)[i := t1\<lparr>startedAt := now\<rparr>], snd s1)
           else ((fst s1)[i := t1\<lparr>active := False\<rparr>], snd s1)
      else s)"

definition update_timers :: "'w handler option \<Rightarrow> u32 \<Rightarrow> TimerManager \<times> 'w \<Rightarrow> TimerManager \<times> 'w" where
  "update_timers h now s = fold (update_slot h now) [0..<MAX_TIMERS] s"

section \<open>Slots\<close>

lemma findFreeSlot_from_Some:
  "findFreeSlot_from i ts = Some j \<Longrightarrow>
     i \<le> j \<and> j < i + length ts \<and> \<not> active (ts ! (j - i)) \<and> (\<forall>k < j - i. active (ts ! k))"
proof (induction ts arbitrary: i)
  case (Cons t ts)
  show ?case
  proof (cases "active t")
    case True
    then have "findFreeSlot_from (Suc i) ts = Some j" using Cons.prems by simp
    from Cons.IH [OF this] True show ?thesis
      by (auto simp: nth_Cons Suc_diff_le less_Suc_eq_0_disj split: nat.splits)
  next
    case False
    then show ?thesis using Cons.prems by auto
  qed
qed simp

lemma findFreeSlot_from_None: "findFreeSlot_from i ts = None \<longleftrightarrow> (\<forall>t \<in> set ts. active t)"
  by (induction ts arbitrary: i) auto

lemma findFreeSlot_Some:
  assumes "findFreeSlot tm = Some j"
  shows "j < length tm" and "\<not> active (tm ! j)"
  using findFreeSlot_from_Some [of 0 tm j] assms by (auto simp: findFreeSlot_def)

lemma findFreeSlot_None: "findFreeSlot tm = None \<longleftrightarrow> (\<forall>t \<in> set tm. active t)"
  by (simp add: findFreeSlot_def findFreeSlot_from_None)

text \<open>The handler that leaves the table alone and records the actions.\<close>

definition logHandler :: "(u8 \<times> string) list handler" where
  "logHandler = (\<lambda>(tm, w) a s. (tm, w @ [(a, s)]))"

definition due :: "u32 \<Rightarrow> Timer \<Rightarrow> bool" where
  "due now t \<longleftrightarrow> active t \<and> timeoutElapsed (startedAt t) (interval t) now"

definition after :: "u32 \<Rightarrow> Timer \<Rightarrow> Timer" where
  "after now t = (if due now t then (if repeat t then t\<lparr>startedAt := now\<rparr> else t\<lparr>active := False\<rparr>) else t)"

lemma update_slot_logHandler:
  assumes "k < length tm"
  shows "update_slot (Some logHandler) now k (tm, w) =
     (tm[k := after now (tm ! k)], if due now (tm ! k) then w @ [(action (tm ! k), arg (tm ! k))] else w)"
  using assms by (simp add: update_slot_def logHandler_def after_def due_def Let_def)

lemma update_prefix:
  assumes "k \<le> length tm"
  shows "fold (update_slot (Some logHandler) now) [0..<k] (tm, w) =
     (map (after now) (take k tm) @ drop k tm, w @ map (\<lambda>t. (action t, arg t)) (filter (due now) (take k tm)))"
  using assms
proof (induction k)
  case (Suc k)
  then have k: "k < length tm" by simp
  let ?tm = "map (after now) (take k tm) @ drop k tm"
  have nth: "?tm ! k = tm ! k" using k by (simp add: nth_append)
  have upd: "?tm[k := x] = map (after now) (take k tm) @ x # drop (Suc k) tm" for x
    using k by (simp add: list_update_append Cons_nth_drop_Suc [symmetric])
  have len: "k < length ?tm" using k by simp
  have step: "fold (update_slot (Some logHandler) now) [0..<Suc k] (tm, w) =
      update_slot (Some logHandler) now k (fold (update_slot (Some logHandler) now) [0..<k] (tm, w))"
    by simp
  show ?case
    unfolding step Suc.IH [OF less_imp_le [OF k]] update_slot_logHandler [OF len] nth upd
    using k by (simp add: take_Suc_conv_app_nth)
qed simp

text \<open>
  One pass of \<open>update\<close> over a full table calls the handler for exactly the active timers whose time has
  elapsed, in the order of the slots and once each; a one-shot timer is then inactive, a repeating
  one restarts at the current time, and every other slot is unchanged.
\<close>

theorem update_timers_fires_due:
  assumes "length tm = MAX_TIMERS"
  shows "update_timers (Some logHandler) now (tm, w) =
     (map (after now) tm, w @ map (\<lambda>t. (action t, arg t)) (filter (due now) tm))"
  using update_prefix [of MAX_TIMERS tm now w] assms by (simp add: update_timers_def)

theorem update_timers_fires_due_witness:
  "update_timers (Some logHandler) 5 (newTimerManager[3 := emptyTimer\<lparr>active := True, action := 2\<rparr>], []) =
     (map (after 5) (newTimerManager[3 := emptyTimer\<lparr>active := True, action := 2\<rparr>]),
      map (\<lambda>t. (action t, arg t)) (filter (due 5) (newTimerManager[3 := emptyTimer\<lparr>active := True, action := 2\<rparr>])))"
  using update_timers_fires_due [of "newTimerManager[3 := emptyTimer\<lparr>active := True, action := 2\<rparr>]" 5 "[]"]
  by (simp add: newTimerManager_def)

end
