(* ===== verification/Pass_Store.thy ===== *)
theory Pass_Store
  imports Prelude
begin

text \<open>
  The credential store, \<open>src/include/pass_store.h\<close> and \<open>src/src/pass_store.cpp\<close>: class
  \<open>CredStorage\<close>, a doubly linked list of credential records kept in the non-volatile storage of
  the ESP32 and a cache of the active ones in RAM.  The records live in the \<open>Preferences\<close> library
  of the Arduino framework, which is not part of the repository: its operations are the fields
  of the record \<open>Preferences\<close>, an argument of every definition, over an unknown state type.
  The enumerations \<open>RecordType\<close> and \<open>CredType\<close> have the underlying type \<open>uint8_t\<close> and are read back
  from storage unchecked, so they are bytes here.  Log calls are left out: they write no state of
  this component.
\<close>

section \<open>Data\<close>

definition FIRST_KEY :: u32 where "FIRST_KEY = 0"
definition LAST_KEY :: u32 where "LAST_KEY = 0xffffffff"
definition ID_LENGTH :: nat where "ID_LENGTH = 8"
definition MAX_PIN_LENGTH :: nat where "MAX_PIN_LENGTH = 8"
definition MAX_NAME_LENGTH :: nat where "MAX_NAME_LENGTH = 10"
definition MIN_PIN_LENGTH :: nat where "MIN_PIN_LENGTH = 6"
definition PACKET_NUMBER_MIN :: nat where "PACKET_NUMBER_MIN = 8"
definition PACKET_NUMBER_MAX :: nat where "PACKET_NUMBER_MAX = 20"
definition PACKET_SCAN_MAX :: nat where "PACKET_SCAN_MAX = 64"
definition DOOR_UNKNOWN :: u8 where "DOOR_UNKNOWN = 255"
definition CRED_GC_MAX_SCAN_ID :: nat where "CRED_GC_MAX_SCAN_ID = 4096"

definition RecordType_CredentialV1 :: u8 where "RecordType_CredentialV1 = 1"
definition CredType_All :: u8 where "CredType_All = 0"
definition CredType_Password :: u8 where "CredType_Password = 1"
definition CredType_PacketNumber :: u8 where "CredType_PacketNumber = 2"

lemmas store_consts = FIRST_KEY_def LAST_KEY_def ID_LENGTH_def MAX_PIN_LENGTH_def
  MAX_NAME_LENGTH_def MIN_PIN_LENGTH_def PACKET_NUMBER_MIN_def PACKET_NUMBER_MAX_def
  PACKET_SCAN_MAX_def DOOR_UNKNOWN_def RecordType_CredentialV1_def CredType_All_def
  CredType_Password_def CredType_PacketNumber_def

text \<open>
  \<open>cred\<close> is the union of \<open>pin\<close> (9 bytes) and \<open>packetNumber\<close> (21 bytes): one buffer of 21 bytes that
  both members start.  \<open>CredRecord\<close> holds the fields of \<open>CacheRecord\<close> and the links, so that the
  templates over both types are functions on \<open>'a CacheRecord_scheme\<close>.
\<close>

record CacheRecord =
  credType :: u8
  credId :: u32
  name :: string
  cred :: string
  doorNum :: u8
  validFrom :: u64
  validTo :: u64
  remaining :: i32

record CredRecord = CacheRecord +
  recordType :: u8
  prevId :: u32
  nextId :: u32

text \<open>\<open>sizeof (CredRecord)\<close> with the alignment rules of the target.\<close>

definition sizeof_CredRecord :: nat where "sizeof_CredRecord = 80"

definition zeroCache :: CacheRecord where
  "zeroCache = \<lparr>credType = CredType_Password, credId = 0,
     name = replicate (MAX_NAME_LENGTH + 1) NUL, cred = replicate (PACKET_NUMBER_MAX + 1) NUL,
     doorNum = 0, validFrom = 0, validTo = 0, remaining = 0\<rparr>"

definition zeroCred :: CredRecord where
  "zeroCred = \<lparr>credType = CredType_Password, credId = 0,
     name = replicate (MAX_NAME_LENGTH + 1) NUL, cred = replicate (PACKET_NUMBER_MAX + 1) NUL,
     doorNum = 0, validFrom = 0, validTo = 0, remaining = 0,
     recordType = RecordType_CredentialV1, prevId = 0, nextId = 0\<rparr>"

text \<open>The calls of the \<open>Preferences\<close> library on blobs of one \<open>CredRecord\<close>.\<close>

record 'n Preferences =
  openNs :: "'n \<Rightarrow> bool \<times> 'n"
  isKey :: "'n \<Rightarrow> string \<Rightarrow> bool"
  getBytesLength :: "'n \<Rightarrow> string \<Rightarrow> nat"
  getBytes :: "'n \<Rightarrow> string \<Rightarrow> CredRecord \<Rightarrow> nat \<times> CredRecord"
  putBytes :: "'n \<Rightarrow> string \<Rightarrow> CredRecord \<Rightarrow> nat \<times> 'n"
  removeKey :: "'n \<Rightarrow> string \<Rightarrow> bool \<times> 'n"
  clearNs :: "'n \<Rightarrow> bool \<times> 'n"

record 'n CredStorage =
  prefs :: 'n
  credsCache :: "CacheRecord list"
  maxCredId :: u32
  nextCredId :: u32
  verifiedCredId :: u32

section \<open>Validation and copying\<close>

definition isCredentialType :: "u8 \<Rightarrow> bool" where
  "isCredentialType type \<longleftrightarrow> type = CredType_Password \<or> type = CredType_PacketNumber"

definition validateCredential :: "string option \<Rightarrow> u8 \<Rightarrow> nat \<Rightarrow> bool" where
  "validateCredential value type maxOverride =
     (case value of None \<Rightarrow> False
      | Some v \<Rightarrow>
          if \<not> isCredentialType type then False
          else
            let minimum = (if type = CredType_Password then MIN_PIN_LENGTH else PACKET_NUMBER_MIN);
                maximum = (if maxOverride \<noteq> 0 then maxOverride
                           else if type = CredType_Password then MAX_PIN_LENGTH
                           else PACKET_NUMBER_MAX);
                len = strnlen v (maximum + 1)
            in if len < minimum \<or> maximum < len then False
               else list_all (\<lambda>c. let ch = (of_char c :: nat) in
                      if type = CredType_Password then \<not> (ch < 48 \<or> 57 < ch)
                      else \<not> (ch < 33 \<or> 126 < ch)) (take len v))"

definition copyCredential :: "'a CacheRecord_scheme \<Rightarrow> 'b CacheRecord_scheme \<Rightarrow> 'a CacheRecord_scheme" where
  "copyCredential destination source =
     (let maximum = (if credType source = CredType_PacketNumber then PACKET_NUMBER_MAX
                     else MAX_PIN_LENGTH);
          len = strnlen (cred source) maximum
      in destination\<lparr>credType := credType source,
           cred := map (\<lambda>i. if i < len then cred source ! i else NUL) [0..<maximum]
                   @ [NUL] @ drop (maximum + 1) (cred destination)\<rparr>)"

definition isRealCredId :: "u32 \<Rightarrow> bool" where
  "isRealCredId i \<longleftrightarrow> i \<noteq> FIRST_KEY \<and> i \<noteq> LAST_KEY"

definition toCacheRecord :: "CredRecord \<Rightarrow> CacheRecord" where
  "toCacheRecord rec =
     (let c = zeroCache\<lparr>credId := credId rec, validFrom := validFrom rec, validTo := validTo rec,
                doorNum := doorNum rec, remaining := remaining rec,
                name := (strncpy (name zeroCache) (name rec) MAX_NAME_LENGTH)[MAX_NAME_LENGTH := NUL]\<rparr>
      in copyCredential c rec)"

definition validateCred :: "'a CacheRecord_scheme \<Rightarrow> bool" where
  "validateCred p =
     (if \<not> validateCredential (Some (cred p)) (credType p) 0 then False
      else
        let nameLength = strnlen (name p) (MAX_NAME_LENGTH + 1)
        in if nameLength = 0 \<or> MAX_NAME_LENGTH < nameLength then False
           else if validFrom p \<noteq> 0 \<and> validTo p \<noteq> 0 \<and> validTo p < validFrom p then False
           else True)"

definition isStoredCredValid :: "CredRecord \<Rightarrow> bool" where
  "isStoredCredValid rec =
     (if \<not> isRealCredId (credId rec) then False
      else if recordType rec \<noteq> RecordType_CredentialV1
         \<or> \<not> validateCredential (Some (cred rec)) (credType rec) 0
         \<or> MAX_NAME_LENGTH < strnlen (name rec) (MAX_NAME_LENGTH + 1) then False
      else validateCred (toCacheRecord rec))"

definition isActive :: "'a CacheRecord_scheme \<Rightarrow> u64 \<Rightarrow> bool" where
  "isActive rec now =
     (if validFrom rec \<noteq> 0 \<and> now < validFrom rec then False
      else if validTo rec \<noteq> 0 \<and> validTo rec < now then False
      else if remaining rec = 0 then False
      else True)"

section \<open>Access to the storage\<close>

definition credKey :: "u32 \<Rightarrow> string" where
  "credKey i = hex_digits ID_LENGTH (unat i)"

definition readData :: "'n Preferences \<Rightarrow> 'n \<Rightarrow> u32 \<Rightarrow> CredRecord option" where
  "readData P n i =
     (let key = credKey i
      in if getBytesLength P n key \<noteq> sizeof_CredRecord then None
         else case getBytes P n key zeroCred of (got, stored) \<Rightarrow>
           if got \<noteq> sizeof_CredRecord then None
           else if recordType stored \<noteq> RecordType_CredentialV1 then None
           else Some stored)"

definition writeData :: "'n Preferences \<Rightarrow> 'n \<Rightarrow> CredRecord \<Rightarrow> bool \<times> 'n" where
  "writeData P n rec =
     (if recordType rec \<noteq> RecordType_CredentialV1 then (False, n)
      else case putBytes P n (credKey (credId rec)) rec of (w, n') \<Rightarrow>
        (w = sizeof_CredRecord, n'))"

definition verifyLocalChain :: "'n Preferences \<Rightarrow> 'n \<Rightarrow> u32 \<Rightarrow> bool" where
  "verifyLocalChain P n i =
     (case readData P n i of None \<Rightarrow> False
      | Some rec \<Rightarrow>
          if credId rec = FIRST_KEY \<or> credId rec = LAST_KEY then True
          else case readData P n (prevId rec) of None \<Rightarrow> False
          | Some prevrec \<Rightarrow>
              (case readData P n (nextId rec) of None \<Rightarrow> False
               | Some nextrec \<Rightarrow> nextId prevrec = credId rec \<and> prevId nextrec = credId rec))"

text \<open>
  \<open>writeCred\<close>: insert a record before TAIL (three writes, in the order of the source) or overwrite
  a stored one.  The result is the identifier of the record, 0 on failure.
\<close>

definition writeCred :: "'n Preferences \<Rightarrow> 'n \<Rightarrow> CredRecord \<Rightarrow> u32 \<times> 'n" where
  "writeCred P n credIn =
     (if credId credIn = 0 \<or> readData P n (credId credIn) = None then
        (case readData P n LAST_KEY of None \<Rightarrow> (0, n)
         | Some lastCred \<Rightarrow>
             (case readData P n (prevId lastCred) of None \<Rightarrow> (0, n)
              | Some prevCred \<Rightarrow>
                  let c = credIn\<lparr>credId := nextId lastCred, nextId := LAST_KEY, prevId := prevId lastCred\<rparr>;
                      n1 = snd (writeData P n (prevCred\<lparr>nextId := credId c\<rparr>));
                      n2 = snd (writeData P n1 c);
                      r3 = writeData P n2 (lastCred\<lparr>nextId := nextId lastCred + 1, prevId := credId c\<rparr>)
                  in (if \<not> fst r3 then 0 else credId c, snd r3)))
      else if \<not> verifyLocalChain P n (credId credIn) then (0, n)
      else
        let r = writeData P n credIn
        in (if \<not> fst r then 0 else credId credIn, snd r))"

section \<open>The operations of \<open>CredStorage\<close>\<close>

definition update :: "'n Preferences \<Rightarrow> 'n CredStorage \<Rightarrow> CacheRecord \<Rightarrow> bool \<times> 'n CredStorage" where
  "update P st cacheRec =
     (case readData P (prefs st) (credId cacheRec) of None \<Rightarrow> (False, st)
      | Some credRec \<Rightarrow>
          if credType credRec \<noteq> credType cacheRec
             \<or> \<not> str_eq (name credRec) (name cacheRec)
             \<or> \<not> str_eq (cred credRec) (cred cacheRec) then (False, st)
          else
            let r = writeCred P (prefs st)
                      (credRec\<lparr>validFrom := validFrom cacheRec, validTo := validTo cacheRec,
                         remaining := remaining cacheRec, doorNum := doorNum cacheRec\<rparr>)
            in (fst r \<noteq> 0, st\<lparr>prefs := snd r\<rparr>))"

text \<open>The loop of \<open>updateCred\<close>: overwrite the first cached record with that id, or append.\<close>

fun cache_put :: "CacheRecord list \<Rightarrow> CacheRecord \<Rightarrow> CacheRecord list" where
  "cache_put [] rec = [rec]"
| "cache_put (c # cs) rec = (if credId c = credId rec then rec # cs else c # cache_put cs rec)"

definition updateCred :: "'n Preferences \<Rightarrow> 'n CredStorage \<Rightarrow> CacheRecord \<Rightarrow> bool \<times> 'n CredStorage" where
  "updateCred P st rec =
     (if \<not> validateCred rec then (False, st)
      else case update P st rec of (ok, st1) \<Rightarrow>
        if \<not> ok then (False, st1)
        else (True, st1\<lparr>credsCache := cache_put (credsCache st1) rec\<rparr>))"

definition addCred :: "'n Preferences \<Rightarrow> 'n CredStorage \<Rightarrow> CacheRecord \<Rightarrow> u32 \<times> 'n CredStorage" where
  "addCred P st rec =
     (if \<not> validateCred rec then (0, st)
      else
        let c0 = zeroCred\<lparr>credId := 0,
                   name := (strncpy (name zeroCred) (name rec) MAX_NAME_LENGTH)[MAX_NAME_LENGTH := NUL]\<rparr>;
            c1 = copyCredential c0 rec;
            c2 = c1\<lparr>validFrom := validFrom rec, validTo := validTo rec,
                    remaining := remaining rec, doorNum := doorNum rec\<rparr>;
            r = writeCred P (prefs st) c2
        in if fst r = 0 then (0, st\<lparr>prefs := snd r\<rparr>)
           else (fst r, st\<lparr>prefs := snd r, credsCache := credsCache st @ [rec\<lparr>credId := fst r\<rparr>]\<rparr>))"

text \<open>\<open>verifyCred\<close>: the first cached record that matches decides; the result is its door.\<close>

definition cred_matches :: "CacheRecord \<Rightarrow> string \<Rightarrow> u8 \<Rightarrow> bool" where
  "cred_matches p credEntered type \<longleftrightarrow>
     credType p = type \<and>
     (if type = CredType_Password then str_eq (cred p) credEntered
      else strstr (cstr credEntered) (cstr (cred p)))"

fun verify_loop :: "CacheRecord list \<Rightarrow> string \<Rightarrow> u8 \<Rightarrow> u64 \<Rightarrow> u8 \<times> u32" where
  "verify_loop [] e type now = (DOOR_UNKNOWN, 0)"
| "verify_loop (p # ps) e type now =
     (if \<not> cred_matches p e type then verify_loop ps e type now
      else if validFrom p \<noteq> 0 \<and> now < validFrom p then (DOOR_UNKNOWN, 0)
      else if validTo p \<noteq> 0 \<and> validTo p < now then (DOOR_UNKNOWN, 0)
      else if remaining p = 0 then (DOOR_UNKNOWN, 0)
      else (doorNum p, credId p))"

definition verifyCred :: "'n CredStorage \<Rightarrow> string option \<Rightarrow> u8 \<Rightarrow> u64 \<Rightarrow> u8 \<times> 'n CredStorage" where
  "verifyCred st credEntered type now =
     (if \<not> validateCredential credEntered type
            (if type = CredType_PacketNumber then PACKET_SCAN_MAX else 0)
      then (DOOR_UNKNOWN, st\<lparr>verifiedCredId := 0\<rparr>)
      else case verify_loop (credsCache st) (the credEntered) type now of (door, i) \<Rightarrow>
        (door, st\<lparr>verifiedCredId := i\<rparr>))"

fun cache_erase :: "CacheRecord list \<Rightarrow> u32 \<Rightarrow> CacheRecord list" where
  "cache_erase [] i = []"
| "cache_erase (c # cs) i = (if credId c = i then cs else c # cache_erase cs i)"

definition removeCred :: "'n Preferences \<Rightarrow> 'n CredStorage \<Rightarrow> CacheRecord \<Rightarrow> u32 \<times> 'n CredStorage" where
  "removeCred P st rec =
     (let n = prefs st in
      case readData P n (credId rec) of None \<Rightarrow> (0, st)
      | Some credRec \<Rightarrow>
          if \<not> verifyLocalChain P n (credId rec) then (0, st)
          else if \<not> validateCredential (Some (cred rec)) (credType rec) 0
             \<or> credType credRec \<noteq> credType rec
             \<or> \<not> strn_eq (name credRec) (name rec) (MAX_NAME_LENGTH + 1)
             \<or> \<not> str_eq (cred credRec) (cred rec) then (0, st)
          else case readData P n (prevId credRec) of None \<Rightarrow> (0, st)
          | Some prevRec \<Rightarrow>
              (case readData P n (nextId credRec) of None \<Rightarrow> (0, st)
               | Some nextRec \<Rightarrow>
                   let n1 = snd (writeData P n (prevRec\<lparr>nextId := nextId credRec\<rparr>));
                       n2 = snd (removeKey P n1 (credKey (credId rec)));
                       n3 = snd (writeData P n2 (nextRec\<lparr>prevId := prevId credRec\<rparr>))
                   in (credId rec,
                       st\<lparr>prefs := n3, credsCache := cache_erase (credsCache st) (credId rec)\<rparr>)))"

text \<open>
  \<open>usedCred\<close>: consume one use of the credential that \<open>verifyCred\<close> accepted.  The loop acts on the
  first cached record with the verified id and the door that opened.
\<close>

definition usedCred :: "'n Preferences \<Rightarrow> 'n CredStorage \<Rightarrow> u8 \<Rightarrow> u64 \<Rightarrow> bool \<times> 'n CredStorage" where
  "usedCred P st door now =
     (if verifiedCredId st = 0 then (False, st)
      else case find (\<lambda>p. credId p = verifiedCredId st \<and> doorNum p = door) (credsCache st) of
        None \<Rightarrow> (False, st\<lparr>verifiedCredId := 0\<rparr>)
      | Some p \<Rightarrow>
          if (validFrom p \<noteq> 0 \<and> now < validFrom p) \<or> (validTo p \<noteq> 0 \<and> validTo p < now)
             \<or> remaining p = 0 then (False, st\<lparr>verifiedCredId := 0\<rparr>)
          else if 1 <s remaining p then
            (case updateCred P st (p\<lparr>remaining := remaining p - 1\<rparr>) of (ok, st1) \<Rightarrow>
               if \<not> ok then (False, st1) else (True, st1\<lparr>verifiedCredId := 0\<rparr>))
          else if remaining p = 1 then
            (case removeCred P st p of (i, st1) \<Rightarrow>
               if i = 0 then (False, st1) else (True, st1\<lparr>verifiedCredId := 0\<rparr>))
          else (True, st\<lparr>verifiedCredId := 0\<rparr>))"

definition getCred :: "'n Preferences \<Rightarrow> 'n CredStorage \<Rightarrow> u32 \<Rightarrow> u8 \<Rightarrow> CacheRecord option" where
  "getCred P st i type =
     (if \<not> isRealCredId i \<or> \<not> isCredentialType type then None
      else case readData P (prefs st) i of None \<Rightarrow> None
      | Some stored \<Rightarrow>
          if credId stored \<noteq> i \<or> credType stored \<noteq> type \<or> \<not> isStoredCredValid stored then None
          else Some (toCacheRecord stored))"

definition getCreds :: "'n CredStorage \<Rightarrow> u32 \<Rightarrow> u32 \<Rightarrow> u8 \<Rightarrow> u64 \<Rightarrow> CacheRecord list" where
  "getCreds st firstCredId numCreds type now =
     (if numCreds = 0 \<or> (type \<noteq> CredType_All \<and> \<not> isCredentialType type) then []
      else take (unat numCreds)
        (filter (\<lambda>c. \<not> ((validFrom c \<noteq> 0 \<and> now < validFrom c) \<or> (validTo c \<noteq> 0 \<and> validTo c < now)
                        \<or> remaining c = 0)
                   \<and> firstCredId \<le> credId c \<and> (type = CredType_All \<or> credType c = type))
           (credsCache st)))"

section \<open>Start-up: the sentinels, the repair of the chain, the cache\<close>

definition resetPool :: "'n Preferences \<Rightarrow> 'n CredStorage \<Rightarrow> 'n CredStorage" where
  "resetPool P st =
     (let n0 = snd (clearNs P (prefs st));
          n1 = snd (writeData P n0 (zeroCred\<lparr>credId := FIRST_KEY, prevId := FIRST_KEY, nextId := LAST_KEY\<rparr>));
          n2 = snd (writeData P n1 (zeroCred\<lparr>credId := LAST_KEY, prevId := FIRST_KEY, nextId := 1\<rparr>))
      in st\<lparr>prefs := n2, credsCache := [], maxCredId := 0, nextCredId := 1\<rparr>)"

definition ensurePool :: "'n Preferences \<Rightarrow> 'n CredStorage \<Rightarrow> bool \<times> 'n CredStorage" where
  "ensurePool P st =
     (case (readData P (prefs st) FIRST_KEY, readData P (prefs st) LAST_KEY) of
        (Some head, Some tail) \<Rightarrow>
          if credId head \<noteq> FIRST_KEY \<or> credId tail \<noteq> LAST_KEY then (False, resetPool P st)
          else (True, st)
      | _ \<Rightarrow> (False, resetPool P st))"

text \<open>
  The loop of \<open>repairCredChain\<close>; the argument of type \<open>nat\<close> is the number of steps left of
  \<open>CRED_GC_MAX_SCAN_ID\<close>, so running out of it is the source's own exit.
\<close>

fun repair_loop :: "'n Preferences \<Rightarrow> CredRecord \<Rightarrow> nat \<Rightarrow> 'n \<Rightarrow> CredRecord \<Rightarrow> bool \<times> 'n" where
  "repair_loop P tail 0 n current = (False, n)"
| "repair_loop P tail (Suc steps) n current =
     (if nextId current = FIRST_KEY \<or> nextId current = credId current then (False, n)
      else case readData P n (nextId current) of
        None \<Rightarrow>
          if credId current = prevId tail
          then (True, snd (writeData P n (current\<lparr>nextId := LAST_KEY\<rparr>)))
          else (False, n)
      | Some next \<Rightarrow>
          if credId next \<noteq> nextId current then (False, n)
          else if isRealCredId (credId next) \<and> \<not> isStoredCredValid next then (False, n)
          else if prevId next \<noteq> credId current then
            (if prevId next = prevId current \<and> credId next = LAST_KEY then
               (True, snd (writeData P n
                  (tail\<lparr>prevId := credId current, nextId := credId current + 1\<rparr>)))
             else
               let n1 = (case readData P n (prevId next) of None \<Rightarrow> n
                         | Some deleted \<Rightarrow>
                             if prevId next = credId deleted
                             then snd (removeKey P n (credKey (credId deleted))) else n)
               in (case readData P n1 (prevId next) of
                     None \<Rightarrow> (True, snd (writeData P n1 (next\<lparr>prevId := credId current\<rparr>)))
                   | Some _ \<Rightarrow> (False, n1)))
          else if credId next = LAST_KEY then (True, n)
          else repair_loop P tail steps n next)"

definition repairCredChain :: "'n Preferences \<Rightarrow> 'n \<Rightarrow> bool \<times> 'n" where
  "repairCredChain P n =
     (case readData P n LAST_KEY of None \<Rightarrow> (False, n)
      | Some tail \<Rightarrow>
          if credId tail \<noteq> LAST_KEY then (False, n)
          else case readData P n FIRST_KEY of None \<Rightarrow> (False, n)
          | Some head \<Rightarrow>
              if credId head \<noteq> FIRST_KEY then (False, n)
              else repair_loop P tail CRED_GC_MAX_SCAN_ID n head)"

definition garbageCollect :: "'n Preferences \<Rightarrow> 'n CredStorage \<Rightarrow> 'n CredStorage" where
  "garbageCollect P st =
     (case ensurePool P st of (ok, st1) \<Rightarrow>
        if \<not> ok then st1
        else case repairCredChain P (prefs st1) of (repaired, n) \<Rightarrow>
          if \<not> repaired then resetPool P (st1\<lparr>prefs := n\<rparr>) else st1\<lparr>prefs := n\<rparr>)"

text \<open>
  The loop of \<open>rebuildCache\<close> follows \<open>nextId\<close> until TAIL and has no bound of its own: \<open>None\<close> is the
  loop that never returns.
\<close>

partial_function (option) rebuild_loop ::
  "'n Preferences \<Rightarrow> 'n \<Rightarrow> u64 \<Rightarrow> u32 \<Rightarrow> CacheRecord list \<Rightarrow> u32 \<Rightarrow> (CacheRecord list \<times> u32) option" where
  "rebuild_loop P n now cur cache mx =
     (if cur = LAST_KEY then Some (cache, mx)
      else case readData P n cur of None \<Rightarrow> Some (cache, mx)
      | Some curCred \<Rightarrow>
          rebuild_loop P n now (nextId curCred)
            (if cur \<noteq> FIRST_KEY \<and> isActive curCred now then cache @ [toCacheRecord curCred] else cache)
            (if cur \<noteq> FIRST_KEY \<and> mx < credId curCred then credId curCred else mx))"

definition rebuildCache :: "'n Preferences \<Rightarrow> 'n CredStorage \<Rightarrow> u64 \<Rightarrow> (bool \<times> 'n CredStorage) option" where
  "rebuildCache P st now =
     (let st0 = st\<lparr>credsCache := [], maxCredId := 0\<rparr>
      in if \<not> isKey P (prefs st0) (credKey FIRST_KEY) then Some (False, st0)
         else case rebuild_loop P (prefs st0) now FIRST_KEY [] 0 of None \<Rightarrow> None
         | Some (cache, mx) \<Rightarrow> Some (True, st0\<lparr>credsCache := cache, maxCredId := mx\<rparr>))"

definition begin_store :: "'n Preferences \<Rightarrow> 'n CredStorage \<Rightarrow> u64 \<Rightarrow> (bool \<times> 'n CredStorage) option" where
  "begin_store P st now =
     (case openNs P (prefs st) of (opened, n) \<Rightarrow>
        let st0 = st\<lparr>prefs := n\<rparr> in
        if \<not> opened then Some (False, st0)
        else
          let legacy = isKey P n (credKey FIRST_KEY)
                 \<and> getBytesLength P n (credKey FIRST_KEY) < sizeof_CredRecord;
              st1 = (if legacy then resetPool P st0 else st0);
              st2 = garbageCollect P st1
          in (case rebuildCache P st2 now of None \<Rightarrow> None | Some (_, st3) \<Rightarrow> Some (True, st3)))"

definition refreshCache :: "'n Preferences \<Rightarrow> 'n CredStorage \<Rightarrow> u64 \<Rightarrow> (bool \<times> 'n CredStorage) option" where
  "refreshCache P st now = rebuildCache P st now"

subsection \<open>Repairs the class keeps but does not call\<close>

definition repairTailInsert :: "'n Preferences \<Rightarrow> 'n \<Rightarrow> bool \<times> 'n" where
  "repairTailInsert P n =
     (case readData P n LAST_KEY of None \<Rightarrow> (False, n)
      | Some tail \<Rightarrow>
          if credId tail \<noteq> LAST_KEY then (False, n)
          else if prevId tail = FIRST_KEY then (True, n)
          else if prevId tail = LAST_KEY then (False, n)
          else case readData P n (prevId tail) of None \<Rightarrow> (False, n)
          | Some tailPrev \<Rightarrow>
              if credId tailPrev \<noteq> prevId tail then (False, n)
              else if nextId tailPrev = LAST_KEY then (True, n)
              else case readData P n (nextId tailPrev) of
                None \<Rightarrow> (True, snd (writeData P n (tailPrev\<lparr>nextId := LAST_KEY\<rparr>)))
              | Some newRec \<Rightarrow>
                  if \<not> isStoredCredValid newRec \<or> nextId newRec \<noteq> LAST_KEY
                     \<or> prevId newRec \<noteq> credId tailPrev then (False, n)
                  else (True, snd (writeData P n (tail\<lparr>prevId := credId newRec\<rparr>))))"

definition repairDeleteGap :: "'n Preferences \<Rightarrow> 'n \<Rightarrow> CredRecord \<Rightarrow> CredRecord \<Rightarrow> (CredRecord option) \<times> 'n" where
  "repairDeleteGap P n prevRec nextRec =
     (let deletedId = prevId nextRec in
      if \<not> isRealCredId deletedId \<or> deletedId = credId prevRec \<or> deletedId = credId nextRec then (None, n)
      else
        let fixed = nextRec\<lparr>prevId := credId prevRec\<rparr> in
        case readData P n deletedId of
          Some deleted \<Rightarrow>
            if credId deleted \<noteq> deletedId \<or> prevId deleted \<noteq> credId prevRec
               \<or> nextId deleted \<noteq> credId nextRec \<or> \<not> isStoredCredValid deleted then (None, n)
            else
              let n1 = snd (removeKey P n (credKey deletedId))
              in (Some fixed, snd (writeData P n1 fixed))
        | None \<Rightarrow> (Some fixed, snd (writeData P n fixed)))"

fun repairDelete_loop :: "'n Preferences \<Rightarrow> nat \<Rightarrow> 'n \<Rightarrow> CredRecord \<Rightarrow> bool \<times> 'n" where
  "repairDelete_loop P 0 n current = (False, n)"
| "repairDelete_loop P (Suc steps) n current =
     (if nextId current = FIRST_KEY \<or> nextId current = credId current then (False, n)
      else case readData P n (nextId current) of None \<Rightarrow> (False, n)
      | Some next \<Rightarrow>
          if credId next \<noteq> nextId current then (False, n)
          else if isRealCredId (credId next) \<and> \<not> isStoredCredValid next then (False, n)
          else if prevId next \<noteq> credId current then
            (case repairDeleteGap P n current next of
               (None, n1) \<Rightarrow> (False, n1)
             | (Some next', n1) \<Rightarrow>
                 if credId next' = LAST_KEY then (True, n1)
                 else repairDelete_loop P steps n1 next')
          else if credId next = LAST_KEY then (True, n)
          else repairDelete_loop P steps n next)"

definition repairInterruptedDelete :: "'n Preferences \<Rightarrow> 'n \<Rightarrow> bool \<times> 'n" where
  "repairInterruptedDelete P n =
     (case readData P n FIRST_KEY of None \<Rightarrow> (False, n)
      | Some current \<Rightarrow>
          if credId current \<noteq> FIRST_KEY then (False, n)
          else repairDelete_loop P CRED_GC_MAX_SCAN_ID n current)"

end
