(* ===== verification/Gpio.thy ===== *)
theory Gpio
  imports Timer Pass_Store
begin

text \<open>
  The door and light hardware, \<open>src/include/gpio_hal.h\<close> and \<open>src/src/gpio_hal.cpp\<close>: locks, contacts and
  ambient light over a table of door mappings.  Pins are their levels, which \<open>digitalWrite\<close> sets and
  \<open>digitalRead\<close> reads, as in \<open>src/test/stubs/Arduino.h\<close>; \<open>pinMode\<close> records the direction.  The contacts
  are inputs whose level the environment changes between two calls.
\<close>

section \<open>Data\<close>

definition DOOR_COUNT :: nat where "DOOR_COUNT = 20"
definition DOOR_DELAY :: u32 where "DOOR_DELAY = 500"
definition DOOR_OPENING_TIMEOUT :: u32 where "DOOR_OPENING_TIMEOUT = 1000"
definition DOOR_OPEN :: u8 where "DOOR_OPEN = 1"
definition DOOR_CLOSED :: u8 where "DOOR_CLOSED = 2"
definition DOOR_MIXED :: u8 where "DOOR_MIXED = 3"
definition AMBIENT_ON :: u8 where "AMBIENT_ON = 1"
definition AMBIENT_OFF :: u8 where "AMBIENT_OFF = 0"
definition INVALID_PIN :: u8 where "INVALID_PIN = 255"
definition DOOR_CONTACT_DEBOUNCE_MS :: u32 where "DOOR_CONTACT_DEBOUNCE_MS = 100"

record DoorMapping =
  logDoorNum :: u8
  gpioPin :: u8
  statePin :: u8
  extenderNum :: u8
  lastState :: bool

datatype PinMode = INPUT | OUTPUT

record GpioHAL =
  activeDoorNum :: nat
  doorMappings :: "DoorMapping list"
  sampledDoorState :: "bool list"
  doorSampleStartedAt :: "u32 list"
  ambientPin :: u8
  pinLevel :: "u8 \<Rightarrow> bool"
  pinDir :: "u8 \<Rightarrow> PinMode"

definition digitalWrite :: "u8 \<Rightarrow> bool \<Rightarrow> GpioHAL \<Rightarrow> GpioHAL" where
  "digitalWrite p v g = g\<lparr>pinLevel := (pinLevel g)(p := v)\<rparr>"

definition digitalRead :: "u8 \<Rightarrow> GpioHAL \<Rightarrow> bool" where
  "digitalRead p g = pinLevel g p"

definition pinMode :: "u8 \<Rightarrow> PinMode \<Rightarrow> GpioHAL \<Rightarrow> GpioHAL" where
  "pinMode p m g = g\<lparr>pinDir := (pinDir g)(p := m)\<rparr>"

definition zeroMapping :: DoorMapping where
  "zeroMapping = \<lparr>logDoorNum = 0, gpioPin = 0, statePin = 0, extenderNum = 0, lastState = False\<rparr>"

definition newGpioHAL :: GpioHAL where
  "newGpioHAL = \<lparr>activeDoorNum = 0, doorMappings = replicate DOOR_COUNT zeroMapping,
     sampledDoorState = replicate DOOR_COUNT False, doorSampleStartedAt = replicate DOOR_COUNT 0,
     ambientPin = 0, pinLevel = (\<lambda>_. False), pinDir = (\<lambda>_. INPUT)\<rparr>"

section \<open>Locks\<close>

text \<open>The mappings in use, with a lock for the logical door.\<close>

definition hasLock :: "u8 \<Rightarrow> DoorMapping \<Rightarrow> bool" where
  "hasLock door m \<longleftrightarrow> logDoorNum m = door \<and> gpioPin m \<noteq> INVALID_PIN"

fun writeLocks :: "DoorMapping list \<Rightarrow> u8 \<Rightarrow> bool \<Rightarrow> bool \<times> GpioHAL \<Rightarrow> bool \<times> GpioHAL" where
  "writeLocks [] door v (f, g) = (f, g)"
| "writeLocks (m # ms) door v (f, g) =
     (if hasLock door m then writeLocks ms door v (True, digitalWrite (gpioPin m) v g)
      else writeLocks ms door v (f, g))"

definition openDoor :: "u8 \<Rightarrow> u32 \<Rightarrow> GpioHAL \<times> TimerManager \<Rightarrow> u8 \<times> GpioHAL \<times> TimerManager" where
  "openDoor door millis s =
     (case s of (g, tm) \<Rightarrow>
      case writeLocks (take (activeDoorNum g) (doorMappings g)) door True (False, g) of (lockActivated, g') \<Rightarrow>
        if lockActivated
        then (door, g', snd (scheduleOnce tm millis DOOR_DELAY LOCK_DEACTIVATE (Some (dec_digits (unat door)))))
        else (DOOR_UNKNOWN, g', tm))"

definition lockDeactivate :: "u8 \<Rightarrow> GpioHAL \<Rightarrow> u8 \<times> GpioHAL" where
  "lockDeactivate door g =
     (case writeLocks (take (activeDoorNum g) (doorMappings g)) door False (False, g) of (lockDeactivated, g') \<Rightarrow>
        if \<not> lockDeactivated then (DOOR_UNKNOWN, g') else (door, g'))"

section \<open>Contacts\<close>

fun readState_loop :: "DoorMapping list \<Rightarrow> u8 \<Rightarrow> u8 \<Rightarrow> u8" where
  "readState_loop [] door doorState = doorState"
| "readState_loop (m # ms) door doorState =
     (if logDoorNum m = door \<and> statePin m \<noteq> INVALID_PIN then
        let readState = (if lastState m then DOOR_OPEN else DOOR_CLOSED) in
        if doorState = DOOR_UNKNOWN then readState_loop ms door readState
        else if doorState \<noteq> readState then DOOR_MIXED
        else readState_loop ms door doorState
      else readState_loop ms door doorState)"

definition readDoorState :: "GpioHAL \<Rightarrow> u8 \<Rightarrow> u8" where
  "readDoorState g door = readState_loop (take (activeDoorNum g) (doorMappings g)) door DOOR_UNKNOWN"

definition setDoorLastState :: "u8 \<Rightarrow> bool \<Rightarrow> GpioHAL \<Rightarrow> GpioHAL" where
  "setDoorLastState door st g =
     g\<lparr>doorMappings := map (\<lambda>m. if logDoorNum m = door then m\<lparr>lastState := st\<rparr> else m)
          (take (activeDoorNum g) (doorMappings g)) @ drop (activeDoorNum g) (doorMappings g)\<rparr>"

definition getOpenDoors :: "GpioHAL \<Rightarrow> nat \<Rightarrow> bool list" where
  "getOpenDoors g arraySize =
     map (\<lambda>i. i < activeDoorNum g \<and> lastState (doorMappings g ! i)) [0..<arraySize]"

definition getLogDoorMapping :: "GpioHAL \<Rightarrow> nat \<Rightarrow> u8" where
  "getLogDoorMapping g index =
     (if index < activeDoorNum g then logDoorNum (doorMappings g ! index) else DOOR_UNKNOWN)"

text \<open>
  One contact: the new sample, its start and the debounced state, and whether that state changed.
\<close>

definition pollContact :: "u32 \<Rightarrow> bool \<Rightarrow> bool \<times> u32 \<times> bool \<Rightarrow> (bool \<times> u32 \<times> bool) \<times> bool" where
  "pollContact now sample c =
     (case c of (sampled, started, lst) \<Rightarrow>
      let started' = (if sample \<noteq> sampled then now else started);
          sampled' = (if sample \<noteq> sampled then sample else sampled) in
      if sample \<noteq> lst \<and> timeoutElapsed started' DOOR_CONTACT_DEBOUNCE_MS now
      then ((sampled', started', sample), True)
      else ((sampled', started', lst), False))"

definition updateDoor :: "u32 \<Rightarrow> nat \<Rightarrow> GpioHAL \<times> (u8 \<Rightarrow> bool) \<Rightarrow> GpioHAL \<times> (u8 \<Rightarrow> bool)" where
  "updateDoor now i s =
     (case s of (g, changed) \<Rightarrow>
      let m = doorMappings g ! i in
      if statePin m = INVALID_PIN then (g, changed)
      else case pollContact now (digitalRead (statePin m) g)
                  (sampledDoorState g ! i, doorSampleStartedAt g ! i, lastState m) of
        ((sampled, started, lst), ch) \<Rightarrow>
          (g\<lparr>sampledDoorState := (sampledDoorState g)[i := sampled],
             doorSampleStartedAt := (doorSampleStartedAt g)[i := started],
             doorMappings := (doorMappings g)[i := m\<lparr>lastState := lst\<rparr>]\<rparr>,
           if ch then changed(logDoorNum m := True) else changed))"

text \<open>The logical doors to report, in ascending order; door 255 is not reported.\<close>

definition updateDoorStates :: "u32 \<Rightarrow> GpioHAL \<Rightarrow> GpioHAL \<times> u8 list" where
  "updateDoorStates now g =
     (case fold (updateDoor now) [0..<activeDoorNum g] (g, \<lambda>_. False) of
        (g', changed) \<Rightarrow> (g', filter changed (map of_nat [0..<255])))"

section \<open>Ambient light\<close>

definition ambientOn :: "GpioHAL \<Rightarrow> u8 \<times> GpioHAL" where
  "ambientOn g = (if ambientPin g = INVALID_PIN then (AMBIENT_OFF, g)
     else (AMBIENT_ON, digitalWrite (ambientPin g) True g))"

definition ambientOff :: "GpioHAL \<Rightarrow> u8 \<times> GpioHAL" where
  "ambientOff g = (if ambientPin g = INVALID_PIN then (AMBIENT_OFF, g)
     else (AMBIENT_OFF, digitalWrite (ambientPin g) False g))"

definition getAmbient :: "GpioHAL \<Rightarrow> u8" where
  "getAmbient g = (if ambientPin g = INVALID_PIN then AMBIENT_OFF
     else if digitalRead (ambientPin g) g then AMBIENT_ON else AMBIENT_OFF)"

definition setAmbientPin :: "u8 \<Rightarrow> GpioHAL \<Rightarrow> GpioHAL" where
  "setAmbientPin pin g =
     (let g1 = g\<lparr>ambientPin := pin\<rparr> in
      if pin = INVALID_PIN then g1 else digitalWrite pin False (pinMode pin OUTPUT g1))"

section \<open>Configuration\<close>

definition setDoorMapping :: "nat \<Rightarrow> u8 \<Rightarrow> u8 \<Rightarrow> u8 \<Rightarrow> u8 \<Rightarrow> GpioHAL \<Rightarrow> GpioHAL" where
  "setDoorMapping index door pin stPin ext g =
     (if index < activeDoorNum g then
        let m1 = (doorMappings g ! index)\<lparr>logDoorNum := door\<rparr>;
            m2 = (if pin \<noteq> INVALID_PIN then m1\<lparr>gpioPin := pin\<rparr> else m1);
            m3 = (if stPin \<noteq> INVALID_PIN then m2\<lparr>statePin := stPin\<rparr> else m2);
            m4 = m3\<lparr>extenderNum := (if ext \<le> 4 then ext else 0)\<rparr>;
            g1 = (if pin \<noteq> INVALID_PIN then digitalWrite pin False (pinMode pin OUTPUT g) else g);
            g2 = (if stPin \<noteq> INVALID_PIN then pinMode stPin INPUT g1 else g1)
        in g2\<lparr>doorMappings := (doorMappings g2)[index := m4]\<rparr>
      else g)"

definition removeDoorMapping :: "nat \<Rightarrow> GpioHAL \<Rightarrow> GpioHAL" where
  "removeDoorMapping index g =
     (if index < activeDoorNum g
      then g\<lparr>doorMappings := (doorMappings g)[index := (doorMappings g ! index)\<lparr>logDoorNum := of_nat index\<rparr>]\<rparr>
      else g)"

definition initDoor :: "DoorMapping list \<Rightarrow> nat \<Rightarrow> GpioHAL \<Rightarrow> GpioHAL" where
  "initDoor initialMappings i g =
     (if i < activeDoorNum g then
        let m = initialMappings ! i;
            g1 = (if gpioPin m \<noteq> INVALID_PIN then digitalWrite (gpioPin m) False (pinMode (gpioPin m) OUTPUT g) else g);
            g2 = (if statePin m \<noteq> INVALID_PIN then pinMode (statePin m) INPUT g1 else g1)
        in g2\<lparr>doorMappings := (doorMappings g2)[i := m]\<rparr>
      else g\<lparr>doorMappings := (doorMappings g)[i := \<lparr>logDoorNum = of_nat i, gpioPin = INVALID_PIN,
               statePin = INVALID_PIN, extenderNum = 0, lastState = False\<rparr>]\<rparr>)"

definition initContact :: "nat \<Rightarrow> GpioHAL \<Rightarrow> GpioHAL" where
  "initContact i g =
     (let m = doorMappings g ! i in
      g\<lparr>doorMappings := (doorMappings g)[i := m\<lparr>lastState :=
           (statePin m \<noteq> INVALID_PIN \<and> digitalRead (statePin m) g)\<rparr>]\<rparr>)"

definition initSample :: "u32 \<Rightarrow> nat \<Rightarrow> GpioHAL \<Rightarrow> GpioHAL" where
  "initSample millis i g =
     g\<lparr>sampledDoorState := (sampledDoorState g)[i := lastState (doorMappings g ! i)],
       doorSampleStartedAt := (doorSampleStartedAt g)[i := millis]\<rparr>"

text \<open>\<open>None\<close> is a null \<open>initialMappings\<close>.\<close>

definition initializeGpioHAL :: "DoorMapping list option \<Rightarrow> u8 \<Rightarrow> u8 \<Rightarrow> u32 \<Rightarrow> GpioHAL \<Rightarrow> GpioHAL" where
  "initializeGpioHAL initialMappings ambient mappingSize millis g =
     (let n = (case initialMappings of Some _ \<Rightarrow> min (unat mappingSize) DOOR_COUNT | None \<Rightarrow> 0);
          ms = (case initialMappings of Some l \<Rightarrow> l | None \<Rightarrow> []);
          g1 = fold (initDoor ms) [0..<DOOR_COUNT] (g\<lparr>activeDoorNum := n\<rparr>);
          g2 = setAmbientPin ambient g1;
          g3 = fold initContact [0..<n] g2
      in fold (initSample millis) [0..<n] g3)"

section \<open>What the lock and light operations change\<close>

definition doorPins :: "GpioHAL \<Rightarrow> u8 \<Rightarrow> u8 set" where
  "doorPins g door = gpioPin ` {m \<in> set (take (activeDoorNum g) (doorMappings g)). hasLock door m}"

lemma digitalWrite_sel [simp]:
  "pinLevel (digitalWrite p v g) = (pinLevel g)(p := v)"
  "doorMappings (digitalWrite p v g) = doorMappings g"
  "activeDoorNum (digitalWrite p v g) = activeDoorNum g"
  "ambientPin (digitalWrite p v g) = ambientPin g"
  "sampledDoorState (digitalWrite p v g) = sampledDoorState g"
  "doorSampleStartedAt (digitalWrite p v g) = doorSampleStartedAt g"
  by (simp_all add: digitalWrite_def)

definition setPins :: "u8 set \<Rightarrow> bool \<Rightarrow> GpioHAL \<Rightarrow> GpioHAL" where
  "setPins P v g = g\<lparr>pinLevel := (\<lambda>p. if p \<in> P then v else pinLevel g p)\<rparr>"

lemma setPins_sel [simp]:
  "pinLevel (setPins P v g) = (\<lambda>p. if p \<in> P then v else pinLevel g p)"
  "doorMappings (setPins P v g) = doorMappings g"
  "activeDoorNum (setPins P v g) = activeDoorNum g"
  "ambientPin (setPins P v g) = ambientPin g"
  by (simp_all add: setPins_def)

lemma readDoorState_pins [simp]:
  "readDoorState (setPins P v g) d = readDoorState g d" "readDoorState (digitalWrite p v g) d = readDoorState g d"
  by (simp_all add: readDoorState_def)

lemma doorPins_pins [simp]:
  "doorPins (setPins P v g) d = doorPins g d" "doorPins (digitalWrite p v g) d = doorPins g d"
  by (simp_all add: doorPins_def)

lemma writeLocks_eq:
  "writeLocks ms door v (f, g) =
     (f \<or> (\<exists>m \<in> set ms. hasLock door m), setPins (gpioPin ` {m \<in> set ms. hasLock door m}) v g)"
proof (induction ms arbitrary: f g)
  case Nil
  then show ?case by (simp add: setPins_def)
next
  case (Cons m ms)
  have eq: "setPins (gpioPin ` {m' \<in> set ms. hasLock door m'}) v (digitalWrite (gpioPin m) v g) =
        setPins (gpioPin ` {m' \<in> set (m # ms). hasLock door m'}) v g" if "hasLock door m"
    using that by (auto simp: setPins_def digitalWrite_def fun_eq_iff intro!: GpioHAL.equality)
  have eq2: "{m' \<in> set (m # ms). hasLock door m'} = {m' \<in> set ms. hasLock door m'}" if "\<not> hasLock door m"
    using that by auto
  show ?case
  proof (cases "hasLock door m")
    case True
    then show ?thesis unfolding eq [OF True, symmetric] by (simp add: Cons.IH)
  next
    case False
    then show ?thesis unfolding eq2 [OF False] by (simp add: Cons.IH)
  qed
qed

lemma setPins_empty [simp]: "setPins {} v g = g"
  by (simp add: setPins_def)

lemma writeLocks_doorPins:
  "writeLocks (take (activeDoorNum g) (doorMappings g)) door v (False, g) =
     (doorPins g door \<noteq> {}, setPins (doorPins g door) v g)"
  by (auto simp: writeLocks_eq doorPins_def)

lemma openDoor_eq:
  "openDoor door t (g, tm) =
     (if doorPins g door = {} then (DOOR_UNKNOWN, g, tm)
      else (door, setPins (doorPins g door) True g,
            snd (scheduleOnce tm t DOOR_DELAY LOCK_DEACTIVATE (Some (dec_digits (unat door))))))"
  by (simp add: openDoor_def writeLocks_doorPins)

lemma lockDeactivate_eq:
  "lockDeactivate door g =
     (if doorPins g door = {} then DOOR_UNKNOWN else door, setPins (doorPins g door) False g)"
  by (simp add: lockDeactivate_def writeLocks_doorPins)

lemma ambient_sel [simp]:
  "doorMappings (snd (ambientOn g)) = doorMappings g" "doorMappings (snd (ambientOff g)) = doorMappings g"
  "activeDoorNum (snd (ambientOn g)) = activeDoorNum g" "activeDoorNum (snd (ambientOff g)) = activeDoorNum g"
  "ambientPin (snd (ambientOn g)) = ambientPin g" "ambientPin (snd (ambientOff g)) = ambientPin g"
  by (simp_all add: ambientOn_def ambientOff_def)

lemma ambient_pins [simp]:
  "doorPins (snd (ambientOn g)) d = doorPins g d" "doorPins (snd (ambientOff g)) d = doorPins g d"
  by (simp_all add: doorPins_def)

lemma ambient_other_pins:
  "p \<noteq> ambientPin g \<Longrightarrow> pinLevel (snd (ambientOn g)) p = pinLevel g p"
  "p \<noteq> ambientPin g \<Longrightarrow> pinLevel (snd (ambientOff g)) p = pinLevel g p"
  by (simp_all add: ambientOn_def ambientOff_def)

lemma ambientOff_lowers: "pinLevel (snd (ambientOff g)) p \<Longrightarrow> pinLevel g p"
  by (auto simp: ambientOff_def split: if_splits)

lemma readState_loop_DOOR:
  "readState_loop ms door s \<in> {s, DOOR_OPEN, DOOR_CLOSED, DOOR_MIXED}"
  by (induction ms door s rule: readState_loop.induct) (auto simp: Let_def)

section \<open>Debouncing\<close>

text \<open>One contact polled at a sequence of times and levels.\<close>

fun pollRun :: "(u32 \<times> bool) list \<Rightarrow> bool \<times> u32 \<times> bool \<Rightarrow> bool \<times> u32 \<times> bool" where
  "pollRun [] c = c"
| "pollRun ((t, l) # ps) c = pollRun ps (fst (pollContact t l c))"

lemma pollRun_append: "pollRun (ps @ qs) c = pollRun qs (pollRun ps c)"
  by (induction ps c rule: pollRun.induct) auto

lemma pollContact_sampled:
  "fst (fst (pollContact t l c)) = l"
  "fst (snd (fst (pollContact t l c))) = (if l \<noteq> fst c then t else fst (snd c))"
  "snd (snd (fst (pollContact t l c))) \<in> {l, snd (snd c)}"
  by (simp_all add: pollContact_def Let_def split: prod.split)

lemma pollContact_report:
  "snd (pollContact now l c) \<longleftrightarrow> l \<noteq> snd (snd c) \<and> l = fst c \<and>
     timeoutElapsed (fst (snd c)) DOOR_CONTACT_DEBOUNCE_MS now"
proof -
  have "\<not> timeoutElapsed now DOOR_CONTACT_DEBOUNCE_MS now"
    by (simp add: timeoutElapsed_def DOOR_CONTACT_DEBOUNCE_MS_def)
  then show ?thesis by (auto simp: pollContact_def Let_def split: prod.split)
qed

text \<open>While every poll reads the settled level, nothing changes.\<close>

lemma pollRun_settled: "\<forall>x \<in> set ps. snd x = l \<Longrightarrow> pollRun ps (l, t, l) = (l, t, l)"
  by (induction ps) (auto simp: pollContact_def Let_def)

text \<open>
  The sample's start is the earlier start, or the poll since which all levels agree.
\<close>

lemma pollRun_sampled:
  "(fst (snd (pollRun ps c)) = fst (snd c) \<and> (\<forall>x \<in> set ps. snd x = fst c)) \<or>
   (\<exists>qs rs. ps = qs @ (fst (snd (pollRun ps c)), fst (pollRun ps c)) # rs \<and> (\<forall>x \<in> set rs. snd x = fst (pollRun ps c)))"
proof (induction ps rule: rev_induct)
  case (snoc p ps)
  obtain tp lp where p: "p = (tp, lp)" by (cases p)
  let ?c1 = "pollRun ps c" and ?c2 = "pollRun (ps @ [p]) c"
  have c2: "fst ?c2 = lp" "fst (snd ?c2) = (if lp \<noteq> fst ?c1 then tp else fst (snd ?c1))"
    by (simp_all add: pollRun_append p pollContact_sampled)
  have c1: "fst ?c1 = fst c" if "\<forall>x \<in> set ps. snd x = fst c"
    using that by (induction ps rule: rev_induct) (auto simp: pollRun_append pollContact_sampled)
  show ?case
  proof (cases "lp = fst ?c1")
    case False
    then have "ps @ [p] = ps @ (fst (snd ?c2), fst ?c2) # []" using c2 p by simp
    then show ?thesis by (metis empty_iff empty_set)
  next
    case True
    from snoc show ?thesis
    proof
      assume *: "fst (snd ?c1) = fst (snd c) \<and> (\<forall>x \<in> set ps. snd x = fst c)"
      then show ?thesis using c2 p True c1 by (intro disjI1) simp
    next
      assume "\<exists>qs rs. ps = qs @ (fst (snd ?c1), fst ?c1) # rs \<and> (\<forall>x \<in> set rs. snd x = fst ?c1)"
      then obtain qs rs where *: "ps = qs @ (fst (snd ?c1), fst ?c1) # rs" "\<forall>x \<in> set rs. snd x = fst ?c1" by blast
      have "ps @ [p] = qs @ (fst (snd ?c2), fst ?c2) # rs @ [p]" using * c2 True by simp
      moreover have "\<forall>x \<in> set (rs @ [p]). snd x = fst ?c2" using * c2 True p by simp
      ultimately show ?thesis by blast
    qed
  qed
qed simp

text \<open>
  C37.  A contact that starts settled (sampled level and debounced state equal) changes its debounced
  state at a poll only if every poll since some earlier one read the new level and at least 100 ms
  passed since that one, by the clock's own wrap-around comparison: no bounce shorter than the
  debounce time is ever reported.
\<close>

theorem debounce_needs_stable_contact:
  assumes "snd (pollContact now level (pollRun ps (l0, t0, l0)))"
  shows "\<exists>qs t rs. ps = qs @ (t, level) # rs \<and> (\<forall>x \<in> set rs. snd x = level)
    \<and> timeoutElapsed t DOOR_CONTACT_DEBOUNCE_MS now"
proof -
  let ?c = "pollRun ps (l0, t0, l0)"
  from assms have r: "level \<noteq> snd (snd ?c)" "level = fst ?c" "timeoutElapsed (fst (snd ?c)) DOOR_CONTACT_DEBOUNCE_MS now"
    unfolding pollContact_report by blast+
  from pollRun_sampled [of ps "(l0, t0, l0)"] show ?thesis
  proof
    assume "fst (snd ?c) = fst (snd (l0, t0, l0)) \<and> (\<forall>x \<in> set ps. snd x = fst (l0, t0, l0))"
    then have "?c = (l0, t0, l0)" by (simp add: pollRun_settled)
    with r show ?thesis by simp
  next
    assume "\<exists>qs rs. ps = qs @ (fst (snd ?c), fst ?c) # rs \<and> (\<forall>x \<in> set rs. snd x = fst ?c)"
    then show ?thesis using r by blast
  qed
qed

theorem debounce_needs_stable_contact_witness:
  "\<exists>qs t rs. [(10, True), (105, True)] = qs @ (t, True) # rs \<and> (\<forall>x \<in> set rs. snd x = True)
    \<and> timeoutElapsed t DOOR_CONTACT_DEBOUNCE_MS 130"
  by (rule debounce_needs_stable_contact [of 130 True "[(10, True), (105, True)]" False 0])
    (simp add: pollContact_def timeoutElapsed_def DOOR_CONTACT_DEBOUNCE_MS_def)

section \<open>Polling all contacts\<close>

definition gpio_wf :: "GpioHAL \<Rightarrow> bool" where
  "gpio_wf g \<longleftrightarrow> length (doorMappings g) = DOOR_COUNT \<and> length (sampledDoorState g) = DOOR_COUNT \<and>
     length (doorSampleStartedAt g) = DOOR_COUNT \<and> activeDoorNum g \<le> DOOR_COUNT"

definition contact :: "GpioHAL \<Rightarrow> nat \<Rightarrow> bool \<times> u32 \<times> bool" where
  "contact g i = (sampledDoorState g ! i, doorSampleStartedAt g ! i, lastState (doorMappings g ! i))"

definition pollDoor :: "u32 \<Rightarrow> GpioHAL \<Rightarrow> nat \<Rightarrow> (bool \<times> u32 \<times> bool) \<times> bool" where
  "pollDoor now g i =
     (if statePin (doorMappings g ! i) = INVALID_PIN then (contact g i, False)
      else pollContact now (digitalRead (statePin (doorMappings g ! i)) g) (contact g i))"

text \<open>Everything of the hardware but the contacts' states and samples.\<close>

definition wiring :: "GpioHAL \<Rightarrow> nat \<times> u8 \<times> (u8 \<Rightarrow> bool) \<times> (u8 \<Rightarrow> PinMode) \<times> DoorMapping list" where
  "wiring g = (activeDoorNum g, ambientPin g, pinLevel g, pinDir g, map (\<lambda>m. m\<lparr>lastState := False\<rparr>) (doorMappings g))"

lemma wiring_nth:
  assumes "wiring g' = wiring g" and "i < length (doorMappings g)"
  shows "statePin (doorMappings g' ! i) = statePin (doorMappings g ! i)"
    and "logDoorNum (doorMappings g' ! i) = logDoorNum (doorMappings g ! i)"
    and "gpioPin (doorMappings g' ! i) = gpioPin (doorMappings g ! i)"
proof -
  from assms have len: "i < length (doorMappings g')"
    and eq: "(doorMappings g' ! i)\<lparr>lastState := False\<rparr> = (doorMappings g ! i)\<lparr>lastState := False\<rparr>"
    unfolding wiring_def by (auto dest: map_eq_imp_length_eq) (metis (no_types, lifting) map_eq_imp_length_eq nth_map)
  then show "statePin (doorMappings g' ! i) = statePin (doorMappings g ! i)"
    and "logDoorNum (doorMappings g' ! i) = logDoorNum (doorMappings g ! i)"
    and "gpioPin (doorMappings g' ! i) = gpioPin (doorMappings g ! i)"
    by (metis DoorMapping.select_convs(1,2,3) DoorMapping.surjective DoorMapping.update_convs(5))+
qed

lemma updateDoor_step:
  assumes "gpio_wf g" and "i < DOOR_COUNT"
  shows "wiring (fst (updateDoor now i (g, ch))) = wiring g"
    and "gpio_wf (fst (updateDoor now i (g, ch)))"
    and "contact (fst (updateDoor now i (g, ch))) j = (if j = i then fst (pollDoor now g i) else contact g j)"
    and "snd (updateDoor now i (g, ch)) d \<longleftrightarrow> ch d \<or> logDoorNum (doorMappings g ! i) = d \<and> snd (pollDoor now g i)"
proof -
  let ?m = "doorMappings g ! i"
  obtain sampled started lst c where pc:
    "pollContact now (digitalRead (statePin ?m) g) (sampledDoorState g ! i, doorSampleStartedAt g ! i, lastState ?m)
       = ((sampled, started, lst), c)" by (metis prod.exhaust)
  have upd: "map (\<lambda>m. m\<lparr>lastState := False\<rparr>) ((doorMappings g)[i := ?m\<lparr>lastState := lst\<rparr>]) =
      map (\<lambda>m. m\<lparr>lastState := False\<rparr>) (doorMappings g)"
    by (simp add: map_update) (metis DoorMapping.update_convs(5) list_update_id map_update nth_map list_update_beyond not_le)
  note defs = updateDoor_def Let_def pc wiring_def gpio_wf_def contact_def pollDoor_def
  show "wiring (fst (updateDoor now i (g, ch))) = wiring g" using upd by (simp add: defs)
  show "gpio_wf (fst (updateDoor now i (g, ch)))" using assms by (simp add: defs)
  show "contact (fst (updateDoor now i (g, ch))) j = (if j = i then fst (pollDoor now g i) else contact g j)"
    using assms by (simp add: defs)
  show "snd (updateDoor now i (g, ch)) d \<longleftrightarrow> ch d \<or> logDoorNum (doorMappings g ! i) = d \<and> snd (pollDoor now g i)"
    by (simp add: defs)
qed

lemma updateDoors_prefix:
  assumes "gpio_wf g" and "k \<le> DOOR_COUNT"
    and "fold (updateDoor now) [0..<k] (g, \<lambda>_. False) = (g', ch)"
  shows "wiring g' = wiring g \<and> gpio_wf g' \<and>
    (\<forall>j. contact g' j = (if j < k then fst (pollDoor now g j) else contact g j)) \<and>
    (\<forall>d. ch d \<longleftrightarrow> (\<exists>i < k. logDoorNum (doorMappings g ! i) = d \<and> snd (pollDoor now g i)))"
  using assms(2,3)
proof (induction k arbitrary: g' ch)
  case (Suc k)
  obtain g1 ch1 where r: "fold (updateDoor now) [0..<k] (g, \<lambda>_. False) = (g1, ch1)" by force
  from Suc.IH [OF _ r] Suc.prems have w: "wiring g1 = wiring g" "gpio_wf g1"
    and con: "\<And>j. contact g1 j = (if j < k then fst (pollDoor now g j) else contact g j)"
    and ch1: "\<And>d. ch1 d \<longleftrightarrow> (\<exists>i < k. logDoorNum (doorMappings g ! i) = d \<and> snd (pollDoor now g i))"
    by auto
  have k: "k < DOOR_COUNT" "k < length (doorMappings g)" using Suc.prems assms(1) by (auto simp: gpio_wf_def)
  have same: "pollDoor now g1 k = pollDoor now g k"
    using wiring_nth [OF w(1) k(2)] con [of k] w(1) by (simp add: pollDoor_def digitalRead_def wiring_def)
  have u: "updateDoor now k (g1, ch1) = (g', ch)" using Suc.prems r by simp
  note st = updateDoor_step [OF w(2) k(1), of now ch1, unfolded u, simplified]
  have "\<forall>d. ch d \<longleftrightarrow> (\<exists>i < Suc k. logDoorNum (doorMappings g ! i) = d \<and> snd (pollDoor now g i))"
    using st(4) ch1 same wiring_nth(2) [OF w(1) k(2)] by (auto simp: less_Suc_eq)
  moreover have "\<forall>j. contact g' j = (if j < Suc k then fst (pollDoor now g j) else contact g j)"
    using st(3) con same by (auto simp: less_Suc_eq)
  ultimately show ?case using st(1,2) w(1) by simp
qed (simp add: assms(1))

text \<open>
  A pass over the contacts reports exactly the logical doors below 255 of which some contact changed
  its debounced state, each once and in ascending order, advances every polled contact by one
  debouncing step and changes nothing else of the hardware.
\<close>

theorem updateDoorStates_reports:
  assumes "gpio_wf g" and "updateDoorStates now g = (g', doors)"
  shows "wiring g' = wiring g \<and> gpio_wf g' \<and>
    (\<forall>j. contact g' j = (if j < activeDoorNum g then fst (pollDoor now g j) else contact g j)) \<and>
    doors = filter (\<lambda>d. \<exists>i < activeDoorNum g. logDoorNum (doorMappings g ! i) = d \<and> snd (pollDoor now g i))
              (map of_nat [0..<255])"
proof -
  obtain ch where r: "fold (updateDoor now) [0..<activeDoorNum g] (g, \<lambda>_. False) = (g', ch)"
    and d: "doors = filter ch (map of_nat [0..<255])"
    using assms(2) by (auto simp: updateDoorStates_def split: prod.splits)
  have n: "activeDoorNum g \<le> DOOR_COUNT" using assms(1) by (simp add: gpio_wf_def)
  note pre = updateDoors_prefix [OF assms(1) n r]
  have "ch = (\<lambda>d. \<exists>i < activeDoorNum g. logDoorNum (doorMappings g ! i) = d \<and> snd (pollDoor now g i))"
    using pre by (simp add: fun_eq_iff)
  then show ?thesis using pre d by simp
qed

definition oneDoor :: GpioHAL where
  "oneDoor = newGpioHAL\<lparr>activeDoorNum := 1,
     doorMappings := (replicate DOOR_COUNT zeroMapping)[0 := \<lparr>logDoorNum = 0, gpioPin = 1, statePin = 39, extenderNum = 0, lastState = False\<rparr>],
     sampledDoorState := (replicate DOOR_COUNT False)[0 := True], ambientPin := 3, pinLevel := (\<lambda>p. p = 39)\<rparr>"

lemma oneDoor_wf: "gpio_wf oneDoor"
  by (simp add: gpio_wf_def oneDoor_def newGpioHAL_def DOOR_COUNT_def)

theorem updateDoorStates_reports_witness:
  "contact (fst (updateDoorStates 200 oneDoor)) 0 = (True, 0, True) \<and> 0 \<in> set (snd (updateDoorStates 200 oneDoor))"
proof -
  have p: "pollDoor 200 oneDoor 0 = ((True, 0, True), True)"
    by (simp add: pollDoor_def oneDoor_def contact_def digitalRead_def pollContact_def newGpioHAL_def INVALID_PIN_def
        DOOR_COUNT_def timeoutElapsed_def DOOR_CONTACT_DEBOUNCE_MS_def)
  have a: "activeDoorNum oneDoor = 1" "logDoorNum (doorMappings oneDoor ! 0) = 0"
    by (simp_all add: oneDoor_def DOOR_COUNT_def)
  have m: "(0 :: u8) \<in> set (map of_nat [0..<255])" by (auto simp: image_iff intro!: bexI [of _ 0])
  note r = updateDoorStates_reports [OF oneDoor_wf, of 200 "fst (updateDoorStates 200 oneDoor)" "snd (updateDoorStates 200 oneDoor)", simplified]
  show ?thesis using r p a m by simp
qed

end
