(* ===== verification/State_Machine.thy ===== *)
theory State_Machine
  imports Gpio
begin

text \<open>
  The box's state machine, \<open>src/include/state_machine.h\<close> and \<open>src/src/state_machine.cpp\<close>.  A \<open>Box\<close> holds
  the machine's context and the global objects it drives: doors and light, timers and credential
  store; calls to the display, the logger and the web UI are recorded in order in \<open>outs\<close>.  \<open>others\<close> stands
  for the rest of the firmware, which only the state-change callback touches.  The readings of the
  clocks and of \<open>rand()\<close> that one call makes are the record \<open>Env\<close>.
\<close>

section \<open>Data\<close>

definition UI_DISABLE_DOOR_CONTROLS :: u8 where "UI_DISABLE_DOOR_CONTROLS = 1"
definition UI_ENABLE_DOOR_CONTROLS :: u8 where "UI_ENABLE_DOOR_CONTROLS = 2"
definition PASS_ERR_DELAY :: u32 where "PASS_ERR_DELAY = 5"
definition PASS_ERR_MAXMULTIPLY :: nat where "PASS_ERR_MAXMULTIPLY = 7"
definition PASS_ENTRY_TIMEOUT :: u32 where "PASS_ENTRY_TIMEOUT = 30"
definition AMBIENT_TIMEOUT :: u32 where "AMBIENT_TIMEOUT = 5000"
definition PRESENCE_CODE_VALIDITY :: u32 where "PRESENCE_CODE_VALIDITY = 30"
definition PRESENCE_CODE_LENGTH :: nat where "PRESENCE_CODE_LENGTH = 6"
definition ACTIONLINE_REFRESH_INTERVAL :: u32 where "ACTIONLINE_REFRESH_INTERVAL = 1000"
definition QR_SCANNER_SCAN_TIMEOUT_MS :: u32 where "QR_SCANNER_SCAN_TIMEOUT_MS = 9000"

datatype BoxState = Home | Password | Presence | Opening | Open | Closed | External | BadPass | Scan

datatype BoxEventType =
    KeyboardKey1 | KeyboardKey2 | KeyboardEnter | KeyboardCancel | KeyboardKey3
  | WebOpenBox
  | DoorOpened | DoorClosed | PasswordTimeout | PresenceTimeout | AmbientTimeout | DoorOpenTimeout | ScanTimeout
  | ScannerCodeReceived | ScannerFailed | ScannerInvalidCode
  | Tick | Invalid

text \<open>The members of the union are separate fields; a handler reads the one of its event type.\<close>

record BoxEventData =
  eventType :: BoxEventType
  keyboardPassword :: string
  scannerCred :: string
  evDoorNum :: u8
  evDoorState :: u8

definition zeroEvent :: BoxEventData where
  "zeroEvent = \<lparr>eventType = Invalid, keyboardPassword = [], scannerCred = [], evDoorNum = 0, evDoorState = 0\<rparr>"

record BoxStateContext =
  state :: BoxState
  doorToOpen :: u8
  credVerified :: bool
  scannedCredVerified :: bool
  retryScanAfterBadCode :: bool
  scanStartedAt :: u32
  badPasswordCount :: u8
  doorOpenStartedAt :: u32
  passwordEntryStartedAt :: u32
  badPasswordStartedAt :: u32
  presenceCodeStartedAt :: u32
  ambientOffStartedAt :: u32
  displayRefreshStartedAt :: u32
  currentPasswordEntryMillis :: u32
  currentBadPasswordMillis :: u32
  doorOpenDuration :: u32
  badPasswordActive :: bool
  presenceCodeActive :: bool
  displayRefreshActive :: bool
  presenceCode :: string

datatype DisplayText =
    INFOLINE_HOME | INFOLINE_PASS | INFOLINE_CANCEL | INFOLINE_EMPTY
  | ACTIONLINE_BADPASS | ACTIONLINE_CLOSE | ACTIONLINE_HOME | ACTIONLINE_CLOSETHX | ACTIONLINE_SCAN
  | RESPONSELINE_OPENING | RESPONSELINE_BADPASS | RESPONSELINE_HOME | RESPONSELINE_EMPTY | RESPONSELINE_BADSCAN

datatype Output =
    LogPrint string
  | WriteInfoLine DisplayText | WriteActionLine DisplayText | WriteResponseLine DisplayText | WriteStatusLine
  | SetOpenDoorList | SetProgressBar u8 | SetPasswordLength u8 | SetVerifyCode string
  | UIUpdate u8

record ('n, 'x) Box =
  ctx :: BoxStateContext
  scannerTestKeepCred :: bool
  uiCallback :: bool
  lastUIAction :: u8
  gpio :: GpioHAL
  timers :: TimerManager
  credStore :: "'n CredStorage"
  outs :: "Output list"
  others :: 'x

record Env =
  eventMillis :: u32
  openingMillis :: u32
  scheduleMillis :: u32
  verifyTime :: u64
  usedTime :: u64
  rands :: "nat list"
  nestedMillis :: u32
  scanMillis :: u32

text \<open>\<open>nestedMillis\<close> and \<open>scanMillis\<close> are read by the state-change callback only.\<close>

type_synonym ('n, 'x) callback = "Env \<Rightarrow> BoxState \<Rightarrow> BoxState \<Rightarrow> u32 \<Rightarrow> ('n, 'x) Box \<Rightarrow> ('n, 'x) Box"

definition zeroContext :: BoxStateContext where
  "zeroContext = \<lparr>state = Home, doorToOpen = 0, credVerified = False, scannedCredVerified = False,
     retryScanAfterBadCode = False, scanStartedAt = 0, badPasswordCount = 0, doorOpenStartedAt = 0,
     passwordEntryStartedAt = 0, badPasswordStartedAt = 0, presenceCodeStartedAt = 0, ambientOffStartedAt = 0,
     displayRefreshStartedAt = 0, currentPasswordEntryMillis = 0, currentBadPasswordMillis = 0,
     doorOpenDuration = 0, badPasswordActive = False, presenceCodeActive = False, displayRefreshActive = False,
     presenceCode = replicate 7 NUL\<rparr>"

definition emit :: "Output \<Rightarrow> ('n, 'x) Box \<Rightarrow> ('n, 'x) Box" where
  "emit out b = b\<lparr>outs := outs b @ [out]\<rparr>"

definition updCtx :: "(BoxStateContext \<Rightarrow> BoxStateContext) \<Rightarrow> ('n, 'x) Box \<Rightarrow> ('n, 'x) Box" where
  "updCtx f b = b\<lparr>ctx := f (ctx b)\<rparr>"

section \<open>Helpers\<close>

definition scheduleNextDisplayRefresh :: "u32 \<Rightarrow> ('n, 'x) Box \<Rightarrow> ('n, 'x) Box" where
  "scheduleNextDisplayRefresh now = updCtx (\<lambda>c. c\<lparr>displayRefreshStartedAt := now, displayRefreshActive := True\<rparr>)"

definition isDisplayRefreshDue :: "u32 \<Rightarrow> ('n, 'x) Box \<Rightarrow> bool" where
  "isDisplayRefreshDue now b \<longleftrightarrow> displayRefreshActive (ctx b) \<and>
     timeoutElapsed (displayRefreshStartedAt (ctx b)) ACTIONLINE_REFRESH_INTERVAL now"

definition enableExternal :: "('n, 'x) Box \<Rightarrow> ('n, 'x) Box" where
  "enableExternal b =
     (if lastUIAction b \<noteq> UI_ENABLE_DOOR_CONTROLS then
        let b1 = b\<lparr>lastUIAction := UI_ENABLE_DOOR_CONTROLS\<rparr> in
        if uiCallback b1 then emit (UIUpdate UI_ENABLE_DOOR_CONTROLS) b1 else b1
      else b)"

definition disableExternal :: "('n, 'x) Box \<Rightarrow> ('n, 'x) Box" where
  "disableExternal b =
     (if lastUIAction b \<noteq> UI_DISABLE_DOOR_CONTROLS then
        let b1 = b\<lparr>lastUIAction := UI_DISABLE_DOOR_CONTROLS\<rparr> in
        if uiCallback b1 then emit (UIUpdate UI_DISABLE_DOOR_CONTROLS) b1 else b1
      else b)"

definition isExternalEnabled :: "('n, 'x) Box \<Rightarrow> bool" where
  "isExternalEnabled b \<longleftrightarrow> lastUIAction b = UI_ENABLE_DOOR_CONTROLS"

definition setUIUpdateCallback :: "bool \<Rightarrow> ('n, 'x) Box \<Rightarrow> ('n, 'x) Box" where
  "setUIUpdateCallback present b =
     (let b1 = b\<lparr>uiCallback := present\<rparr> in
      if present \<and> lastUIAction b1 \<noteq> 0 then emit (UIUpdate (lastUIAction b1)) b1 else b1)"

definition gpioDo :: "(GpioHAL \<Rightarrow> u8 \<times> GpioHAL) \<Rightarrow> ('n, 'x) Box \<Rightarrow> ('n, 'x) Box" where
  "gpioDo f b = b\<lparr>gpio := snd (f (gpio b))\<rparr>"

text \<open>\<open>'0' + rand() % 10\<close> six times, then the terminator.\<close>

definition generatePresenceCode :: "nat list \<Rightarrow> ('n, 'x) Box \<Rightarrow> ('n, 'x) Box" where
  "generatePresenceCode rs =
     updCtx (\<lambda>c. c\<lparr>presenceCode := map (\<lambda>i. dec_digit ((rs ! i) mod 10)) [0..<6] @ [NUL]\<rparr>)"

definition isPresenceCodeValid :: "u32 \<Rightarrow> ('n, 'x) Box \<Rightarrow> bool" where
  "isPresenceCodeValid millis b \<longleftrightarrow> presenceCodeActive (ctx b) \<and>
     \<not> timeoutElapsed (presenceCodeStartedAt (ctx b)) (PRESENCE_CODE_VALIDITY * 1000) millis"

definition isDoorOpen :: "('n, 'x) Box \<Rightarrow> u8 \<Rightarrow> bool" where
  "isDoorOpen b door \<longleftrightarrow> readDoorState (gpio b) door = 1"

definition areAllDoorsClosed :: "('n, 'x) Box \<Rightarrow> bool" where
  "areAllDoorsClosed b \<longleftrightarrow> True \<notin> set (getOpenDoors (gpio b) DOOR_COUNT)"

definition progressOf :: "u32 \<Rightarrow> u32 \<Rightarrow> u32 \<Rightarrow> u8" where
  "progressOf start len now = ucast ((timeoutRemaining start len now * 100) div len)"

definition scanProgress :: "u32 \<Rightarrow> u32 \<Rightarrow> u8" where
  "scanProgress start now =
     ucast ((ucast (timeoutRemaining start QR_SCANNER_SCAN_TIMEOUT_MS now) * 100 :: u64) div ucast QR_SCANNER_SCAN_TIMEOUT_MS)"

definition refreshPeriodicDisplay :: "u32 \<Rightarrow> ('n, 'x) Box \<Rightarrow> bool \<times> ('n, 'x) Box" where
  "refreshPeriodicDisplay now b0 =
     (let b = emit WriteStatusLine (emit SetOpenDoorList b0); c = ctx b in
      case state c of
        Home \<Rightarrow> (True, emit (WriteActionLine ACTIONLINE_HOME) b)
      | Password \<Rightarrow>
          (True, if 0 < currentPasswordEntryMillis c
                 then emit (SetProgressBar (progressOf (passwordEntryStartedAt c) (currentPasswordEntryMillis c) now)) b
                 else b)
      | BadPass \<Rightarrow>
          (let b1 = emit (WriteActionLine ACTIONLINE_BADPASS) b in
           (True, if 0 < currentBadPasswordMillis c \<and> \<not> retryScanAfterBadCode c
                  then emit (SetProgressBar (progressOf (badPasswordStartedAt c) (currentBadPasswordMillis c) now)) b1
                  else b1))
      | Scan \<Rightarrow> (True, emit (SetProgressBar (scanProgress (scanStartedAt c) now)) b)
      | Presence \<Rightarrow>
          (True, emit (SetProgressBar (progressOf (presenceCodeStartedAt c) (PRESENCE_CODE_VALIDITY * 1000) now)) b)
      | _ \<Rightarrow> (False, b))"

section \<open>Entry and exit actions\<close>

definition onEnterHome :: "('n, 'x) Box \<Rightarrow> ('n, 'x) Box" where
  "onEnterHome b =
     (let b1 = gpioDo ambientOff b;
          b2 = updCtx (\<lambda>c. c\<lparr>credVerified := False\<rparr>) b1;
          b3 = enableExternal b2;
          b4 = updCtx (\<lambda>c. c\<lparr>scannedCredVerified := False\<rparr>) b3
      in emit WriteStatusLine (emit (WriteResponseLine RESPONSELINE_HOME)
           (emit (WriteActionLine ACTIONLINE_HOME) (emit (WriteInfoLine INFOLINE_HOME) b4))))"

definition onEnterPassword :: "u32 \<Rightarrow> ('n, 'x) Box \<Rightarrow> ('n, 'x) Box" where
  "onEnterPassword now b =
     (let b1 = disableExternal (emit (LogPrint ''A_PASSWORD_STARTED'') b);
          b2 = updCtx (\<lambda>c. c\<lparr>retryScanAfterBadCode := False\<rparr>) b1;
          b3 = emit (SetPasswordLength 0) (emit (WriteInfoLine INFOLINE_PASS) b2);
          b4 = updCtx (\<lambda>c. c\<lparr>badPasswordStartedAt := 0, currentBadPasswordMillis := 0, badPasswordActive := False,
                 currentPasswordEntryMillis := PASS_ENTRY_TIMEOUT * 1000, passwordEntryStartedAt := now\<rparr>) b3
      in emit (SetProgressBar 100) b4)"

definition onExitPassword :: "('n, 'x) Box \<Rightarrow> ('n, 'x) Box" where
  "onExitPassword = updCtx (\<lambda>c. c\<lparr>passwordEntryStartedAt := 0, currentPasswordEntryMillis := 0\<rparr>)"

definition onEnterScan :: "u32 \<Rightarrow> ('n, 'x) Box \<Rightarrow> ('n, 'x) Box" where
  "onEnterScan now b =
     (let b1 = disableExternal (emit (LogPrint ''A_SCAN_STARTED'') b);
          b2 = updCtx (\<lambda>c. c\<lparr>scanStartedAt := now, credVerified := False, scannedCredVerified := False,
                 badPasswordActive := False, currentBadPasswordMillis := 0\<rparr>) b1
      in emit (SetProgressBar 100) (emit (WriteActionLine ACTIONLINE_SCAN) (emit (WriteInfoLine INFOLINE_CANCEL) b2)))"

definition onExitScan :: "('n, 'x) Box \<Rightarrow> ('n, 'x) Box" where
  "onExitScan = updCtx (\<lambda>c. c\<lparr>scanStartedAt := 0\<rparr>)"

definition onEnterPresence :: "nat list \<Rightarrow> u32 \<Rightarrow> ('n, 'x) Box \<Rightarrow> ('n, 'x) Box" where
  "onEnterPresence rs now b =
     (let b1 = generatePresenceCode rs (emit (LogPrint ''A_PRESENCE_STARTED'') b);
          b2 = updCtx (\<lambda>c. c\<lparr>presenceCodeStartedAt := now, presenceCodeActive := True\<rparr>) b1
      in emit (SetProgressBar 100) (emit (SetVerifyCode (cstr (presenceCode (ctx b2)))) (emit (WriteInfoLine INFOLINE_CANCEL) b2)))"

definition onEnterOpening :: "Env \<Rightarrow> ('n, 'x) Box \<Rightarrow> ('n, 'x) Box" where
  "onEnterOpening e b =
     (let b1 = emit (WriteResponseLine RESPONSELINE_OPENING) (disableExternal b);
          now = openingMillis e;
          door = doorToOpen (ctx b1) in
      if door \<noteq> DOOR_UNKNOWN then
        case openDoor door (scheduleMillis e) (gpio b1, timers b1) of (r, g, tm) \<Rightarrow>
          let b2 = b1\<lparr>gpio := g, timers := tm\<rparr> in
          if r = door
          then gpioDo ambientOn (updCtx (\<lambda>c. c\<lparr>doorOpenStartedAt := now, doorOpenDuration := DOOR_OPENING_TIMEOUT\<rparr>) b2)
          else updCtx (\<lambda>c. c\<lparr>doorOpenStartedAt := now, doorOpenDuration := 0\<rparr>) (emit (LogPrint ''A_DOOR_OPEN_FAILED'') b2)
      else updCtx (\<lambda>c. c\<lparr>doorOpenStartedAt := now, doorOpenDuration := 0\<rparr>) (emit (LogPrint ''A_DOOR_OPEN_FAILED'') b1))"

definition onExitOpening :: "('n, 'x) Box \<Rightarrow> ('n, 'x) Box" where
  "onExitOpening = updCtx (\<lambda>c. c\<lparr>doorOpenStartedAt := 0\<rparr>)"

definition onEnterOpen :: "'n Preferences \<Rightarrow> Env \<Rightarrow> ('n, 'x) Box \<Rightarrow> ('n, 'x) Box" where
  "onEnterOpen p e b0 =
     (let b = emit (LogPrint ''A_DOOR_OPENED'') b0;
          consumeCred = (credVerified (ctx b) \<and> \<not> (scannerTestKeepCred b \<and> scannedCredVerified (ctx b)));
          b1 = (if consumeCred then
                  case usedCred p (credStore b) (doorToOpen (ctx b)) (usedTime e) of (ok, s) \<Rightarrow>
                    let b' = b\<lparr>credStore := s\<rparr> in
                    if \<not> ok then emit (LogPrint ''A_CREDENTIAL_CONSUME_FAILED'') b' else b'
                else b);
          b2 = updCtx (\<lambda>c. c\<lparr>credVerified := False, scannedCredVerified := False\<rparr>) b1
      in emit WriteStatusLine (emit (WriteResponseLine RESPONSELINE_EMPTY)
           (emit (WriteInfoLine INFOLINE_EMPTY) (emit (WriteActionLine ACTIONLINE_CLOSE) b2))))"

definition onEnterClosed :: "u32 \<Rightarrow> ('n, 'x) Box \<Rightarrow> ('n, 'x) Box" where
  "onEnterClosed now b =
     updCtx (\<lambda>c. c\<lparr>ambientOffStartedAt := now, doorToOpen := DOOR_UNKNOWN\<rparr>)
       (emit WriteStatusLine (emit (WriteResponseLine RESPONSELINE_EMPTY)
         (emit (WriteInfoLine INFOLINE_EMPTY) (emit (WriteActionLine ACTIONLINE_CLOSETHX) b))))"

definition onExitClosed :: "('n, 'x) Box \<Rightarrow> ('n, 'x) Box" where
  "onExitClosed = gpioDo ambientOff"

text \<open>\<open>PASS_ERR_DELAY * count * 1000\<close> milliseconds, the count capped at \<open>PASS_ERR_MAXMULTIPLY\<close>.\<close>

definition penaltyMillis :: "u8 \<Rightarrow> u32" where
  "penaltyMillis count =
     (if PASS_ERR_MAXMULTIPLY < unat count then PASS_ERR_DELAY * of_nat PASS_ERR_MAXMULTIPLY * 1000
      else PASS_ERR_DELAY * ucast count * 1000)"

definition onEnterBadPass :: "u32 \<Rightarrow> ('n, 'x) Box \<Rightarrow> ('n, 'x) Box" where
  "onEnterBadPass now b =
     (let b1 = emit (WriteResponseLine (if retryScanAfterBadCode (ctx b) then RESPONSELINE_BADSCAN else RESPONSELINE_BADPASS)) b;
          c = ctx b1;
          b2 = (if \<not> badPasswordActive c \<or> timeoutElapsed (badPasswordStartedAt c) (currentBadPasswordMillis c) now
                then updCtx (\<lambda>c. c\<lparr>currentBadPasswordMillis := penaltyMillis (badPasswordCount c),
                       badPasswordStartedAt := now, badPasswordActive := True\<rparr>) b1
                else b1)
      in emit (WriteActionLine ACTIONLINE_BADPASS) b2)"

definition onExit :: "('n, 'x) Box \<Rightarrow> ('n, 'x) Box" where
  "onExit b = (case state (ctx b) of
       Password \<Rightarrow> onExitPassword b | Scan \<Rightarrow> onExitScan b | Opening \<Rightarrow> onExitOpening b
     | Closed \<Rightarrow> onExitClosed b | _ \<Rightarrow> b)"

definition onEnter :: "'n Preferences \<Rightarrow> Env \<Rightarrow> u32 \<Rightarrow> ('n, 'x) Box \<Rightarrow> ('n, 'x) Box" where
  "onEnter p e now b = (case state (ctx b) of
       Home \<Rightarrow> onEnterHome b
     | Password \<Rightarrow> onEnterPassword now b
     | Scan \<Rightarrow> onEnterScan now b
     | Presence \<Rightarrow> onEnterPresence (rands e) now b
     | Opening \<Rightarrow> onEnterOpening e b
     | Open \<Rightarrow> onEnterOpen p e b
     | Closed \<Rightarrow> onEnterClosed now b
     | External \<Rightarrow> b
     | BadPass \<Rightarrow> onEnterBadPass now b)"

section \<open>Transitions\<close>

definition transitionTo ::
  "'n Preferences \<Rightarrow> ('n, 'x) callback option \<Rightarrow> Env \<Rightarrow> BoxState \<Rightarrow> u32 \<Rightarrow> ('n, 'x) Box \<Rightarrow> ('n, 'x) Box" where
  "transitionTo p cb e newState now b =
     (if newState = state (ctx b) then b
      else
        let b1 = onExit b;
            oldState = state (ctx b1);
            b2 = updCtx (\<lambda>c. c\<lparr>state := newState\<rparr>) (emit (LogPrint ''A_STATE_CHANGED'') b1);
            b3 = scheduleNextDisplayRefresh now (onEnter p e now b2)
        in case cb of None \<Rightarrow> b3 | Some f \<Rightarrow> f e oldState newState now b3)"

section \<open>Event handlers\<close>

definition bumpBad :: "u8 \<Rightarrow> u8" where
  "bumpBad n = (if unat n < 255 then n + 1 else n)"

definition penaltyRunning :: "BoxStateContext \<Rightarrow> u32 \<Rightarrow> bool" where
  "penaltyRunning c now \<longleftrightarrow> badPasswordActive c \<and>
     \<not> timeoutElapsed (badPasswordStartedAt c) (currentBadPasswordMillis c) now"

text \<open>The shared handling of Cancel, into which Password falls through.\<close>

definition handleCancel ::
  "'n Preferences \<Rightarrow> ('n, 'x) callback option \<Rightarrow> Env \<Rightarrow> BoxEventData \<Rightarrow> u32 \<Rightarrow> ('n, 'x) Box \<Rightarrow> ('n, 'x) Box" where
  "handleCancel p cb e ev now b =
     (if eventType ev = KeyboardCancel then
        let c = ctx b;
            b1 = (if state c = Presence then emit (LogPrint ''A_PRESENCE_CANCELED'') b
                  else if state c = Password \<or> (state c = BadPass \<and> \<not> retryScanAfterBadCode c)
                  then emit (LogPrint ''A_PASSWORD_CANCELED'') b else b)
        in transitionTo p cb e Home now b1
      else b)"

definition handleKeyboardEvent ::
  "'n Preferences \<Rightarrow> ('n, 'x) callback option \<Rightarrow> Env \<Rightarrow> BoxEventData \<Rightarrow> u32 \<Rightarrow> ('n, 'x) Box \<Rightarrow> ('n, 'x) Box" where
  "handleKeyboardEvent p cb e ev now b0 =
     (let b = emit (LogPrint ''A_KEYBOARD_EVENT'') b0 in
      case state (ctx b) of
        Home \<Rightarrow>
          (if eventType ev = KeyboardKey1 then
             (if penaltyRunning (ctx b) now
              then transitionTo p cb e BadPass now (updCtx (\<lambda>c. c\<lparr>retryScanAfterBadCode := False\<rparr>) b)
              else transitionTo p cb e Password now b)
           else if eventType ev = KeyboardKey2 then transitionTo p cb e Presence now b
           else if eventType ev = KeyboardKey3 then
             (if penaltyRunning (ctx b) now
              then transitionTo p cb e BadPass now (updCtx (\<lambda>c. c\<lparr>retryScanAfterBadCode := True\<rparr>) b)
              else transitionTo p cb e Scan now b)
           else b)
      | Password \<Rightarrow>
          (if eventType ev = KeyboardEnter then
             case verifyCred (credStore b) (Some (keyboardPassword ev)) CredType_Password (verifyTime e) of (door, s) \<Rightarrow>
               let b1 = updCtx (\<lambda>c. c\<lparr>doorToOpen := door\<rparr>)
                          ((emit (LogPrint ''A_PASSWORD_ENTERED'') b)\<lparr>credStore := s\<rparr>) in
               if door \<noteq> DOOR_UNKNOWN then
                 transitionTo p cb e Opening now
                   (updCtx (\<lambda>c. c\<lparr>credVerified := True, scannedCredVerified := False, badPasswordCount := 0\<rparr>)
                     (emit (LogPrint ''A_PASSWORD_VERIFIED'') b1))
               else
                 transitionTo p cb e BadPass now
                   (updCtx (\<lambda>c. c\<lparr>retryScanAfterBadCode := False, badPasswordCount := bumpBad (badPasswordCount c)\<rparr>)
                     (emit (LogPrint ''A_PASSWORD_BAD'') b1))
           else handleCancel p cb e ev now b)
      | BadPass \<Rightarrow> handleCancel p cb e ev now b
      | Presence \<Rightarrow> handleCancel p cb e ev now b
      | Scan \<Rightarrow> handleCancel p cb e ev now b
      | _ \<Rightarrow> b)"

definition handleScannerEvent ::
  "'n Preferences \<Rightarrow> ('n, 'x) callback option \<Rightarrow> Env \<Rightarrow> BoxEventData \<Rightarrow> u32 \<Rightarrow> ('n, 'x) Box \<Rightarrow> ('n, 'x) Box" where
  "handleScannerEvent p cb e ev now b =
     (if state (ctx b) \<noteq> Scan then b
      else if timeoutElapsed (scanStartedAt (ctx b)) QR_SCANNER_SCAN_TIMEOUT_MS now \<or> eventType ev = ScannerFailed
      then transitionTo p cb e Home now (emit (LogPrint ''A_SCAN_FAILED'') b)
      else
        let b1 = emit (LogPrint ''A_CODE_SCANNED'') b in
        case (if eventType ev = ScannerInvalidCode then (DOOR_UNKNOWN, credStore b1)
              else verifyCred (credStore b1) (Some (scannerCred ev)) CredType_PacketNumber (verifyTime e)) of (door, s) \<Rightarrow>
          let b2 = updCtx (\<lambda>c. c\<lparr>doorToOpen := door\<rparr>) (b1\<lparr>credStore := s\<rparr>) in
          if door = DOOR_UNKNOWN then
            transitionTo p cb e BadPass now
              (updCtx (\<lambda>c. c\<lparr>retryScanAfterBadCode := True, badPasswordCount := bumpBad (badPasswordCount c)\<rparr>)
                (emit (LogPrint ''A_CODE_UNKNOWN'') b2))
          else
            transitionTo p cb e Opening now
              (updCtx (\<lambda>c. c\<lparr>credVerified := True, scannedCredVerified := True, badPasswordCount := 0\<rparr>)
                (emit (LogPrint ''A_CODE_VERIFIED'') b2)))"

definition handleWebEvent ::
  "'n Preferences \<Rightarrow> ('n, 'x) callback option \<Rightarrow> Env \<Rightarrow> BoxEventData \<Rightarrow> u32 \<Rightarrow> ('n, 'x) Box \<Rightarrow> ('n, 'x) Box" where
  "handleWebEvent p cb e ev now b =
     (if eventType ev = WebOpenBox
      then transitionTo p cb e Opening now
             (updCtx (\<lambda>c. c\<lparr>doorToOpen := evDoorNum ev, credVerified := False, scannedCredVerified := False\<rparr>) b)
      else b)"

definition handleSensorEvent ::
  "'n Preferences \<Rightarrow> ('n, 'x) callback option \<Rightarrow> Env \<Rightarrow> BoxEventData \<Rightarrow> u32 \<Rightarrow> ('n, 'x) Box \<Rightarrow> ('n, 'x) Box" where
  "handleSensorEvent p cb e ev now b =
     (let c = ctx b;
          b1 = (if eventType ev = DoorClosed then emit (LogPrint ''A_DOOR_CLOSED'') b
                else if eventType ev = DoorOpened \<and>
                        (evDoorNum ev \<noteq> doorToOpen c \<or> (state c \<noteq> Opening \<and> state c \<noteq> Open))
                then emit (LogPrint ''A_DOOR_OPENED'') b else b);
          b2 = emit (LogPrint ''A_SENSOR_EVENT'') (emit SetOpenDoorList b1) in
      case state c of
        Opening \<Rightarrow> if eventType ev = DoorOpened \<and> evDoorNum ev = doorToOpen c then transitionTo p cb e Open now b2 else b2
      | Open \<Rightarrow> if eventType ev = DoorClosed \<and> evDoorNum ev = doorToOpen c then transitionTo p cb e Closed now b2 else b2
      | _ \<Rightarrow> b2)"

definition handleTimerEvent ::
  "'n Preferences \<Rightarrow> ('n, 'x) callback option \<Rightarrow> Env \<Rightarrow> BoxEventData \<Rightarrow> u32 \<Rightarrow> ('n, 'x) Box \<Rightarrow> ('n, 'x) Box" where
  "handleTimerEvent p cb e ev now b0 =
     (let b = emit (LogPrint ''A_TIMER_EVENT'') b0; st = state (ctx b) in
      case eventType ev of
        PasswordTimeout \<Rightarrow> if st = Password then transitionTo p cb e Home now (emit (LogPrint ''A_PASSWORD_TIMEOUT'') b) else b
      | ScanTimeout \<Rightarrow> if st = Scan then transitionTo p cb e Home now (emit (LogPrint ''A_SCAN_FAILED'') b) else b
      | PresenceTimeout \<Rightarrow> if st = Presence then transitionTo p cb e Home now (emit (LogPrint ''A_PRESENCE_TIMEOUT'') b) else b
      | AmbientTimeout \<Rightarrow> if st = Closed then transitionTo p cb e Home now b else b
      | DoorOpenTimeout \<Rightarrow> if st = Opening then transitionTo p cb e Home now b else b
      | _ \<Rightarrow> b)"

definition processEvent ::
  "'n Preferences \<Rightarrow> ('n, 'x) callback option \<Rightarrow> Env \<Rightarrow> BoxEventData \<Rightarrow> ('n, 'x) Box \<Rightarrow> ('n, 'x) Box" where
  "processEvent p cb e ev b =
     (let now = eventMillis e in
      case eventType ev of
        KeyboardKey1 \<Rightarrow> handleKeyboardEvent p cb e ev now b
      | KeyboardKey2 \<Rightarrow> handleKeyboardEvent p cb e ev now b
      | KeyboardKey3 \<Rightarrow> handleKeyboardEvent p cb e ev now b
      | KeyboardEnter \<Rightarrow> handleKeyboardEvent p cb e ev now b
      | KeyboardCancel \<Rightarrow> handleKeyboardEvent p cb e ev now b
      | WebOpenBox \<Rightarrow> handleWebEvent p cb e ev now b
      | DoorOpened \<Rightarrow> handleSensorEvent p cb e ev now b
      | DoorClosed \<Rightarrow> handleSensorEvent p cb e ev now b
      | PasswordTimeout \<Rightarrow> handleTimerEvent p cb e ev now b
      | PresenceTimeout \<Rightarrow> handleTimerEvent p cb e ev now b
      | AmbientTimeout \<Rightarrow> handleTimerEvent p cb e ev now b
      | DoorOpenTimeout \<Rightarrow> handleTimerEvent p cb e ev now b
      | ScanTimeout \<Rightarrow> handleTimerEvent p cb e ev now b
      | ScannerCodeReceived \<Rightarrow> handleScannerEvent p cb e ev now b
      | ScannerFailed \<Rightarrow> handleScannerEvent p cb e ev now b
      | ScannerInvalidCode \<Rightarrow> handleScannerEvent p cb e ev now b
      | _ \<Rightarrow> b)"

section \<open>The periodic update\<close>

definition updateFlags :: "u32 \<Rightarrow> ('n, 'x) Box \<Rightarrow> ('n, 'x) Box" where
  "updateFlags now b =
     (let b1 = (if badPasswordActive (ctx b) \<and>
                   timeoutElapsed (badPasswordStartedAt (ctx b)) (currentBadPasswordMillis (ctx b)) now
                then updCtx (\<lambda>c. c\<lparr>badPasswordActive := False\<rparr>) b else b);
          b2 = (if presenceCodeActive (ctx b1) \<and>
                   timeoutElapsed (presenceCodeStartedAt (ctx b1)) (PRESENCE_CODE_VALIDITY * 1000) now
                then updCtx (\<lambda>c. c\<lparr>presenceCodeActive := False\<rparr>) b1 else b1)
      in if isDisplayRefreshDue now b2
         then case refreshPeriodicDisplay now b2 of (again, b3) \<Rightarrow>
                if again then scheduleNextDisplayRefresh now b3
                else updCtx (\<lambda>c. c\<lparr>displayRefreshActive := False\<rparr>) b3
         else b2)"

definition updateState ::
  "'n Preferences \<Rightarrow> ('n, 'x) callback option \<Rightarrow> Env \<Rightarrow> u32 \<Rightarrow> ('n, 'x) Box \<Rightarrow> ('n, 'x) Box" where
  "updateState p cb e now b =
     (let c = ctx b in
      case state c of
        Password \<Rightarrow>
          if timeoutElapsed (passwordEntryStartedAt c) (currentPasswordEntryMillis c) now
          then transitionTo p cb e Home now (emit (LogPrint ''A_PASSWORD_TIMEOUT'') b) else b
      | Scan \<Rightarrow>
          if timeoutElapsed (scanStartedAt c) QR_SCANNER_SCAN_TIMEOUT_MS now
          then transitionTo p cb e Home now (emit (LogPrint ''A_SCAN_FAILED'') b) else b
      | BadPass \<Rightarrow>
          if timeoutElapsed (badPasswordStartedAt c) (currentBadPasswordMillis c) now
          then transitionTo p cb e (if retryScanAfterBadCode c then Scan else Password) now b else b
      | Presence \<Rightarrow>
          if timeoutElapsed (presenceCodeStartedAt c) (PRESENCE_CODE_VALIDITY * 1000) now
          then transitionTo p cb e Home now (emit (LogPrint ''A_PRESENCE_TIMEOUT'') b) else b
      | Opening \<Rightarrow>
          if readDoorState (gpio b) (doorToOpen c) = DOOR_OPEN then transitionTo p cb e Open now b
          else if timeoutElapsed (doorOpenStartedAt c) (doorOpenDuration c) now
          then transitionTo p cb e Home now (emit (LogPrint ''A_DOOR_OPEN_TIMEOUT'') b) else b
      | Closed \<Rightarrow>
          if timeoutElapsed (ambientOffStartedAt c) AMBIENT_TIMEOUT now then transitionTo p cb e Home now b else b
      | _ \<Rightarrow> b)"

definition updateMachine ::
  "'n Preferences \<Rightarrow> ('n, 'x) callback option \<Rightarrow> Env \<Rightarrow> u32 \<Rightarrow> ('n, 'x) Box \<Rightarrow> ('n, 'x) Box" where
  "updateMachine p cb e now b = updateState p cb e now (updateFlags now b)"

text \<open>The constructor and \<open>initialize\<close>, which keeps \<open>doorOpenDuration\<close> as it is.\<close>

definition newBox :: "GpioHAL \<Rightarrow> TimerManager \<Rightarrow> 'n CredStorage \<Rightarrow> 'x \<Rightarrow> ('n, 'x) Box" where
  "newBox g tm s x = \<lparr>ctx = zeroContext, scannerTestKeepCred = False, uiCallback = False, lastUIAction = 0,
     gpio = g, timers = tm, credStore = s, outs = [], others = x\<rparr>"

definition initialize :: "u32 \<Rightarrow> ('n, 'x) Box \<Rightarrow> ('n, 'x) Box" where
  "initialize millis b =
     scheduleNextDisplayRefresh millis (onEnterHome
       (updCtx (\<lambda>c. zeroContext\<lparr>doorOpenDuration := doorOpenDuration c\<rparr>) (b\<lparr>lastUIAction := 0\<rparr>)))"

end
