(* ===== verification/Keyboard.thy ===== *)
theory Keyboard
  imports State_Machine
begin

text \<open>
  The keypad, \<open>src/include/keyboard.h\<close> and \<open>src/src/keyboard.cpp\<close>: collecting a PIN, or keeping the last
  command key.  One poll of the keypad controller is the list of bytes the I2C read returns.  How
  the keys become events of the state machine (\<open>handleKeyboard\<close>) is in the theory \<open>Firmware\<close>.
\<close>

definition PASS_MAX :: nat where "PASS_MAX = 8"
definition KEYBOARD_MODE_COMMAND :: u8 where "KEYBOARD_MODE_COMMAND = 1"
definition KEYBOARD_MODE_PASSWORD :: u8 where "KEYBOARD_MODE_PASSWORD = 2"
definition KEYBOARD_KEY_1 :: u8 where "KEYBOARD_KEY_1 = 1"
definition KEYBOARD_KEY_2 :: u8 where "KEYBOARD_KEY_2 = 2"
definition KEYBOARD_KEY_3 :: u8 where "KEYBOARD_KEY_3 = 3"
definition KEYBOARD_KEY_ENTER :: u8 where "KEYBOARD_KEY_ENTER = 0x0D"
definition KEYBOARD_KEY_CANCEL :: u8 where "KEYBOARD_KEY_CANCEL = 0x1B"

record keyboardStatus =
  keyboardMode :: u8
  currentPasswordLen :: nat
  passwordComplete :: bool
  cancelPressed :: bool
  currentPassword :: string
  currentKey :: u8

definition zeroKeyboard :: keyboardStatus where
  "zeroKeyboard = \<lparr>keyboardMode = 0, currentPasswordLen = 0, passwordComplete = False, cancelPressed = False,
     currentPassword = replicate (PASS_MAX + 1) NUL, currentKey = 0\<rparr>"

text \<open>The status and the calls to the display.\<close>

definition handleKey :: "u8 \<Rightarrow> keyboardStatus \<times> Output list \<Rightarrow> keyboardStatus \<times> Output list" where
  "handleKey k s =
     (case s of (ks, out) \<Rightarrow>
      if k \<le> 9 then
        (if currentPasswordLen ks < PASS_MAX then
           (ks\<lparr>currentPassword := (currentPassword ks)[currentPasswordLen ks := dec_digit (unat k)],
               currentPasswordLen := currentPasswordLen ks + 1\<rparr>,
            out @ [SetPasswordLength (of_nat (currentPasswordLen ks + 1))])
         else (ks, out))
      else if k = KEYBOARD_KEY_CANCEL then
        (if 0 < currentPasswordLen ks then
           (ks\<lparr>currentPasswordLen := currentPasswordLen ks - 1\<rparr>,
            out @ [SetPasswordLength (of_nat (currentPasswordLen ks - 1))])
         else (ks\<lparr>cancelPressed := True\<rparr>, out))
      else if k = KEYBOARD_KEY_ENTER then
        (if 0 < currentPasswordLen ks then
           (ks\<lparr>currentPassword := (currentPassword ks)[currentPasswordLen ks := NUL], passwordComplete := True\<rparr>, out)
         else (ks, out))
      else (ks, out))"

text \<open>
  \<open>pollKeypad\<close>: the first byte is the number of keys; the loop stops early when the read ran out.
  \<open>mode\<close> is the keyboard object's own mode.
\<close>

definition pollKeypad :: "u8 \<Rightarrow> bytes \<Rightarrow> keyboardStatus \<times> Output list \<Rightarrow> bool \<times> keyboardStatus \<times> Output list" where
  "pollKeypad mode wire s =
     (case wire of [] \<Rightarrow> (False, s)
      | len # keys \<Rightarrow>
          (True, fold (\<lambda>k (ks, out).
             if mode = KEYBOARD_MODE_COMMAND then (ks\<lparr>currentKey := k\<rparr>, out)
             else if mode = KEYBOARD_MODE_PASSWORD then handleKey k (ks, out)
             else (ks, out)) (take (unat len) keys) s))"

definition pollKeyboard ::
  "bytes \<Rightarrow> u8 \<times> keyboardStatus \<times> Output list \<Rightarrow> bool \<times> u8 \<times> keyboardStatus \<times> Output list" where
  "pollKeyboard wire s =
     (case s of (mode, ks, out) \<Rightarrow>
      if keyboardMode ks = KEYBOARD_MODE_COMMAND then
        (case pollKeypad KEYBOARD_MODE_COMMAND wire (ks, out) of (r, s') \<Rightarrow> (r, KEYBOARD_MODE_COMMAND, s'))
      else if keyboardMode ks = KEYBOARD_MODE_PASSWORD then
        let ks1 = (if mode \<noteq> KEYBOARD_MODE_PASSWORD then ks\<lparr>currentPasswordLen := 0, passwordComplete := False\<rparr> else ks) in
        (case pollKeypad KEYBOARD_MODE_PASSWORD wire (ks1, out) of (r, s') \<Rightarrow> (r, KEYBOARD_MODE_PASSWORD, s'))
      else (False, mode, ks, out @ [LogPrint ''A_INVALID_KEYBOARD_MODE'']))"

definition clearPassword :: "keyboardStatus \<Rightarrow> keyboardStatus" where
  "clearPassword ks = ks\<lparr>currentPassword := replicate PASS_MAX CHR '' '' @ drop PASS_MAX (currentPassword ks)\<rparr>"

definition pollProvisioningPassword :: "bytes \<Rightarrow> u8 \<times> keyboardStatus \<times> Output list \<Rightarrow> u8 \<times> keyboardStatus \<times> Output list" where
  "pollProvisioningPassword wire s =
     (case s of (mode, ks, out) \<Rightarrow> snd (pollKeyboard wire (mode, ks\<lparr>keyboardMode := KEYBOARD_MODE_PASSWORD\<rparr>, out)))"

section \<open>Typing a PIN\<close>

definition kbd_wf :: "keyboardStatus \<Rightarrow> bool" where
  "kbd_wf ks \<longleftrightarrow> length (currentPassword ks) = PASS_MAX + 1 \<and> currentPasswordLen ks \<le> PASS_MAX"

lemma handleKey_wf: "kbd_wf (fst s) \<Longrightarrow> kbd_wf (fst (handleKey k s))"
  by (auto simp: handleKey_def kbd_wf_def split: prod.split)

text \<open>The keys as an editor over the digits typed so far; '*' on an empty entry asks to cancel.\<close>

fun edit :: "u8 list \<Rightarrow> string \<Rightarrow> string" where
  "edit [] typed = typed"
| "edit (k # ks) typed =
     (if k \<le> 9 then edit ks (if length typed < PASS_MAX then typed @ [dec_digit (unat k)] else typed)
      else if k = KEYBOARD_KEY_CANCEL then edit ks (butlast typed)
      else edit ks typed)"

definition typed :: "keyboardStatus \<Rightarrow> string" where
  "typed ks = take (currentPasswordLen ks) (currentPassword ks)"

lemma handleKey_typed:
  assumes "kbd_wf ks" and "k \<noteq> KEYBOARD_KEY_ENTER"
  shows "typed (fst (handleKey k (ks, out))) =
     (if k \<le> 9 then if length (typed ks) < PASS_MAX then typed ks @ [dec_digit (unat k)] else typed ks
      else if k = KEYBOARD_KEY_CANCEL then butlast (typed ks) else typed ks)"
proof -
  have len: "length (typed ks) = currentPasswordLen ks" using assms(1) by (simp add: typed_def kbd_wf_def)
  have snoc: "take (Suc n) (xs[n := c]) = take n xs @ [c]" if "n < length xs" for n and xs :: string and c
    using that by (simp add: take_Suc_conv_app_nth)
  have but: "butlast (take n xs) = take (n - 1) xs" if "n \<le> length xs" for n and xs :: string
    using that by (simp add: butlast_take)
  show ?thesis
    using assms len by (auto simp: handleKey_def typed_def kbd_wf_def snoc but)
qed

lemma keys_typed:
  "kbd_wf ks \<Longrightarrow> KEYBOARD_KEY_ENTER \<notin> set keys \<Longrightarrow>
     typed (fst (fold handleKey keys (ks, out))) = edit keys (typed ks) \<and> kbd_wf (fst (fold handleKey keys (ks, out)))"
proof (induction keys arbitrary: ks out)
  case (Cons k keys)
  obtain ks1 out1 where h: "handleKey k (ks, out) = (ks1, out1)" by (cases "handleKey k (ks, out)")
  have wf1: "kbd_wf ks1" using handleKey_wf [of "(ks, out)" k] Cons.prems(1) h by simp
  have ne: "k \<noteq> KEYBOARD_KEY_ENTER" using Cons.prems(2) by auto
  have "typed ks1 = (if k \<le> 9 then if length (typed ks) < PASS_MAX then typed ks @ [dec_digit (unat k)] else typed ks
      else if k = KEYBOARD_KEY_CANCEL then butlast (typed ks) else typed ks)"
    using handleKey_typed [OF Cons.prems(1) ne, of out] unfolding h by simp
  then show ?case using Cons.IH [OF wf1, of out1] Cons.prems h by simp
qed simp

lemma edit_no_NUL: "NUL \<notin> set t \<Longrightarrow> NUL \<notin> set (edit keys t)"
proof (induction keys t rule: edit.induct)
  case (2 k ks t)
  have "dec_digit (unat k) \<noteq> NUL" if "k \<le> 9"
  proof -
    have "unat k \<in> set [0..<10]" using that by (auto simp: word_le_nat_alt)
    moreover have "\<forall>n \<in> set [0..<10]. dec_digit n \<noteq> NUL" by code_simp
    ultimately show ?thesis by blast
  qed
  moreover have "NUL \<notin> set (butlast t)" using 2(4) by (meson in_set_butlastD)
  ultimately show ?case using 2 by (auto simp: if_split)
qed simp

text \<open>
  C39.  Typing digits and '*' in any order and then '#' on a non-empty entry completes the PIN that an editor
  with a capacity of eight digits holds at that point, terminated for the verifier; no key writes
  outside the nine-byte buffer.
\<close>

theorem typed_pin_submitted:
  assumes "kbd_wf ks" and "typed ks = []" and "KEYBOARD_KEY_ENTER \<notin> set keys" and "edit keys [] \<noteq> []"
  shows "let (ks', out') = fold handleKey (keys @ [KEYBOARD_KEY_ENTER]) (ks, out) in
     kbd_wf ks' \<and> passwordComplete ks' \<and> cstr (currentPassword ks') = edit keys []"
proof -
  obtain ks1 out1 where f: "fold handleKey keys (ks, out) = (ks1, out1)" by (cases "fold handleKey keys (ks, out)")
  have t: "typed ks1 = edit keys []" "kbd_wf ks1"
    using keys_typed [OF assms(1,3), of out] assms(2) f by simp_all
  let ?n = "currentPasswordLen ks1"
  have n: "0 < ?n" "?n < length (currentPassword ks1)" using t assms(4) by (auto simp: typed_def kbd_wf_def intro: ccontr)
  have e: "handleKey KEYBOARD_KEY_ENTER (ks1, out1) =
      (ks1\<lparr>currentPassword := (currentPassword ks1)[?n := NUL], passwordComplete := True\<rparr>, out1)"
    using n(1) by (simp add: handleKey_def KEYBOARD_KEY_ENTER_def KEYBOARD_KEY_CANCEL_def)
  have "(currentPassword ks1)[?n := NUL] = typed ks1 @ NUL # drop (Suc ?n) (currentPassword ks1)"
    using n(2) by (simp add: typed_def upd_conv_take_nth_drop)
  then have "cstr ((currentPassword ks1)[?n := NUL]) = edit keys []"
    using t(1) edit_no_NUL [of "[]" keys] by (simp add: cstr_append_NUL)
  then show ?thesis using f e t(2) by (simp add: kbd_wf_def)
qed

theorem typed_pin_submitted_witness:
  "cstr (currentPassword (fst (fold handleKey ([1, 2, KEYBOARD_KEY_CANCEL, 3] @ [KEYBOARD_KEY_ENTER]) (zeroKeyboard, [])))) = ''13''"
proof -
  have e: "edit [1, 2, KEYBOARD_KEY_CANCEL, 3] [] = ''13''"
    by (simp add: KEYBOARD_KEY_CANCEL_def PASS_MAX_def dec_digit_def)
  have "kbd_wf zeroKeyboard" "typed zeroKeyboard = []" "KEYBOARD_KEY_ENTER \<notin> set [1, 2, KEYBOARD_KEY_CANCEL, 3]"
    "edit [1, 2, KEYBOARD_KEY_CANCEL, 3] [] \<noteq> []"
    by (simp_all add: kbd_wf_def zeroKeyboard_def typed_def KEYBOARD_KEY_ENTER_def KEYBOARD_KEY_CANCEL_def PASS_MAX_def)
  from typed_pin_submitted [OF this, of "[]"] show ?thesis using e by (simp add: split_beta Let_def)
qed

end
