(* ===== verification/Qr_Payload.thy ===== *)
theory Qr_Payload
  imports Prelude
begin

text \<open>
  Scanner commands, \<open>src/include/qr_payload.h\<close>: \<open>parse\<close> reads either text with escapes or, after the prefix
  \<open>hex\<close>, pairs of hex digits.  The input is the C string up to its terminator; \<open>None\<close> is the source's
  false, for which the callers ignore the output buffer.
\<close>

section \<open>The parser\<close>

definition ord_of :: "char \<Rightarrow> nat" where
  "ord_of c = of_char c"

definition hexValue :: "char \<Rightarrow> nat option" where
  "hexValue ch =
     (if ord_of CHR ''0'' \<le> ord_of ch \<and> ord_of ch \<le> ord_of CHR ''9'' then Some (ord_of ch - ord_of CHR ''0'')
      else if ord_of CHR ''a'' \<le> ord_of ch \<and> ord_of ch \<le> ord_of CHR ''f'' then Some (ord_of ch - ord_of CHR ''a'' + 10)
      else if ord_of CHR ''A'' \<le> ord_of ch \<and> ord_of ch \<le> ord_of CHR ''F'' then Some (ord_of ch - ord_of CHR ''A'' + 10)
      else None)"

definition isBlank :: "char \<Rightarrow> bool" where
  "isBlank c \<longleftrightarrow> c = CHR '' '' \<or> c = CHR 0x09"

definition isHexSeparator :: "char \<Rightarrow> bool" where
  "isHexSeparator c \<longleftrightarrow> isBlank c \<or> c = CHR '','' \<or> c = CHR '':'' \<or> c = CHR ''-''"

fun parseHex :: "nat \<Rightarrow> nat option \<Rightarrow> bytes \<Rightarrow> string \<Rightarrow> bytes option" where
  "parseHex capacity high out [] = (if high = None \<and> 0 < length out then Some out else None)"
| "parseHex capacity high out (c # cs) =
     (if isHexSeparator c then parseHex capacity high out cs
      else case hexValue c of
        None \<Rightarrow> None
      | Some digit \<Rightarrow>
          (case high of
             None \<Rightarrow> parseHex capacity (Some digit) out cs
           | Some h \<Rightarrow> if length out = capacity then None
                       else parseHex capacity None (out @ [of_nat (h * 16 + digit)]) cs))"

definition escapeValue :: "char \<Rightarrow> u8" where
  "escapeValue c = (if c = CHR ''r'' then 13 else if c = CHR ''n'' then 10 else if c = CHR ''t'' then 9
     else if c = CHR ''0'' then 0 else of_nat (ord_of c))"

fun parseText :: "nat \<Rightarrow> bytes \<Rightarrow> string \<Rightarrow> bytes option" where
  "parseText capacity out [] = Some out"
| "parseText capacity out [c] = (if length out = capacity then None else Some (out @ [of_nat (ord_of c)]))"
| "parseText capacity out (c # d # cs) =
     (if c \<noteq> CHR 0x5C then
        (if length out = capacity then None else parseText capacity (out @ [of_nat (ord_of c)]) (d # cs))
      else if d = CHR ''x'' then
        (case cs of
           h # l # rest \<Rightarrow>
             (case (hexValue h, hexValue l) of
                (Some high, Some low) \<Rightarrow>
                  if length out = capacity then None
                  else parseText capacity (out @ [of_nat (high * 16 + low)]) rest
              | _ \<Rightarrow> None)
         | _ \<Rightarrow> None)
      else if length out = capacity then None
      else parseText capacity (out @ [escapeValue d]) cs)"

definition parse :: "string option \<Rightarrow> nat \<Rightarrow> bytes option" where
  "parse input capacity =
     (case input of None \<Rightarrow> None
      | Some s \<Rightarrow>
        (let s1 = dropWhile isBlank s in
         if take 3 s1 = ''hex'' \<and> 3 < length s1 \<and> (s1 ! 3 = CHR '':'' \<or> isBlank (s1 ! 3)) then
           let s2 = dropWhile isBlank (drop 3 s1);
               s3 = (if s2 \<noteq> [] \<and> hd s2 = CHR '':'' then tl s2 else s2)
           in parseHex capacity None [] s3
         else parseText capacity [] s1))"

section \<open>Round trips\<close>

text \<open>The textual form of a byte sequence: lower-case pairs separated by blanks, and escapes.\<close>

definition hexText :: "bytes \<Rightarrow> string" where
  "hexText bs = concat (map (\<lambda>b. CHR '' '' # hex_digits 2 (unat b)) bs)"

definition escapeText :: "bytes \<Rightarrow> string" where
  "escapeText bs = concat (map (\<lambda>b. [CHR 0x5C, CHR ''x''] @ hex_digits 2 (unat b)) bs)"

lemma hexValue_hex_digit: "n < 16 \<Longrightarrow> hexValue (hex_digit n) = Some n"
proof -
  assume "n < 16"
  then have "n \<in> set [0..<16]" by simp
  moreover have "\<forall>n \<in> set [0..<16]. hexValue (hex_digit n) = Some n" by code_simp
  ultimately show ?thesis by blast
qed

lemma hex_digit_not_separator: "n < 16 \<Longrightarrow> \<not> isHexSeparator (hex_digit n)"
proof -
  assume "n < 16"
  then have "n \<in> set [0..<16]" by simp
  moreover have "\<forall>n \<in> set [0..<16]. \<not> isHexSeparator (hex_digit n)" by code_simp
  ultimately show ?thesis by blast
qed

lemma hex_digits_2: "hex_digits 2 v = [hex_digit (v div 16 mod 16), hex_digit (v mod 16)]"
  by (simp add: numeral_2_eq_2)

lemma byte_of_nibbles: "of_nat (unat b div 16 mod 16 * 16 + unat b mod 16) = (b :: u8)"
proof -
  have "unat b div 16 mod 16 * 16 + unat b mod 16 = unat b"
    using unat_u8_less [of b] by (simp add: less_mult_imp_div_less)
  then show ?thesis by simp
qed

lemma parseHex_hexText:
  "length out + length bs \<le> capacity \<Longrightarrow> 0 < length out + length bs \<Longrightarrow>
     parseHex capacity None out (hexText bs) = Some (out @ bs)"
proof (induction bs arbitrary: out)
  case Nil
  then show ?case by (simp add: hexText_def)
next
  case (Cons b bs)
  have sep: "isHexSeparator CHR '' ''" by (simp add: isHexSeparator_def isBlank_def)
  have "parseHex capacity None out (hexText (b # bs)) = parseHex capacity None (out @ [b]) (hexText bs)"
    using Cons.prems
    by (simp add: hexText_def hex_digits_2 sep hex_digit_not_separator hexValue_hex_digit del: of_nat_add of_nat_mult)
      (simp only: byte_of_nibbles)
  then show ?case using Cons by simp
qed

lemma parseText_escapeText:
  "length out + length bs \<le> capacity \<Longrightarrow> parseText capacity out (escapeText bs) = Some (out @ bs)"
proof (induction bs arbitrary: out)
  case Nil
  then show ?case by (simp add: escapeText_def)
next
  case (Cons b bs)
  have "parseText capacity out (escapeText (b # bs)) = parseText capacity (out @ [b]) (escapeText bs)"
    using Cons.prems
    by (simp add: escapeText_def hex_digits_2 hexValue_hex_digit del: of_nat_add of_nat_mult)
      (simp only: byte_of_nibbles)
  then show ?case using Cons by simp
qed

text \<open>
  Every command the scanner can need is expressible: a non-empty byte sequence that fits the buffer is
  read back exactly from its \<open>hex:\<close> form, and any byte sequence that fits, from its escaped text.
\<close>

theorem parse_roundtrip:
  assumes "length bs \<le> capacity"
  shows "(bs \<noteq> [] \<longrightarrow> parse (Some (''hex:'' @ hexText bs)) capacity = Some bs) \<and>
         parse (Some (escapeText bs)) capacity = Some bs"
proof
  have "parse (Some (''hex:'' @ hexText bs)) capacity = parseHex capacity None [] (hexText bs)"
    by (simp add: parse_def isBlank_def)
  then show "bs \<noteq> [] \<longrightarrow> parse (Some (''hex:'' @ hexText bs)) capacity = Some bs"
    using parseHex_hexText [of "[]" bs capacity] assms by simp
  have "parse (Some (escapeText bs)) capacity = parseText capacity [] (escapeText bs)"
    by (cases bs) (simp_all add: parse_def escapeText_def isBlank_def)
  then show "parse (Some (escapeText bs)) capacity = Some bs"
    using parseText_escapeText [of "[]" bs capacity] assms by simp
qed

theorem parse_roundtrip_witness:
  "parse (Some (''hex:'' @ hexText [126, 0, 8])) 1024 = Some [126, 0, 8]"
  using parse_roundtrip [of "[126, 0, 8]" 1024] by simp

text \<open>The output never exceeds the buffer.\<close>

lemma parseHex_bound: "parseHex capacity h out s = Some r \<Longrightarrow> length out \<le> capacity \<Longrightarrow> length r \<le> capacity"
  by (induction s arbitrary: h out) (simp_all add: Suc_le_eq le_neq_implies_less split: if_splits option.splits)

end
