(* ===== verification/Qr_Scanner.thy ===== *)
theory Qr_Scanner
  imports Gpio Qr_Payload
begin

text \<open>
  The barcode scanner's driver, \<open>src/include/qr_scanner.h\<close> and \<open>src/src/qr_scanner.cpp\<close>.  The serial line
  is the bytes still to be read and the bytes written; the switch pin is one of the pins of
  \<open>Gpio\<close>.  Frames are kept as the bytes in use of the source's buffers.
\<close>

section \<open>Data\<close>

definition QR_SCANNER_PIN_UNUSED :: u8 where "QR_SCANNER_PIN_UNUSED = 255"
definition QR_SCANNER_MAX_FRAME_LEN :: nat where "QR_SCANNER_MAX_FRAME_LEN = 1024"

datatype QrScannerActivationMode = Manual | Command | SwitchPin | CommandAndSwitch

datatype QrScannerState = Idle | WaitingActivationResponse | WaitingCode | WaitingCommandResponse

datatype QrScannerEventType =
    NoEvent | Activated | ActivationResponse | CommandResponse | CodeReceived | ScanTimedOut
  | CommandResponseTimeout | Deactivated | RxOverflow | UnexpectedFrame

record QrScannerConfig =
  activationMode :: QrScannerActivationMode
  activateCommand :: bytes
  deactivateCommand :: bytes
  switchPin :: u8
  switchActiveHigh :: bool
  frameTerminators :: "string option"
  activationResponseWindowMs :: u32
  commandResponseWindowMs :: u32
  frameIdleMs :: u32
  defaultScanTimeoutMs :: u32
  trimFrames :: bool

definition defaultConfig :: QrScannerConfig where
  "defaultConfig = \<lparr>activationMode = Command, activateCommand = [], deactivateCommand = [],
     switchPin = QR_SCANNER_PIN_UNUSED, switchActiveHigh = True, frameTerminators = Some [CHR 0x0D, CHR 0x0A],
     activationResponseWindowMs = 300, commandResponseWindowMs = 500, frameIdleMs = 40,
     defaultScanTimeoutMs = 10000, trimFrames = True\<rparr>"

text \<open>An event with its frame.\<close>

type_synonym QrScannerEvent = "QrScannerEventType \<times> bytes"

record Stream =
  uin :: bytes
  uout :: bytes

record QrScanner =
  uart :: "Stream option"
  config :: QrScannerConfig
  currentState :: QrScannerState
  scanActive :: bool
  rxFrame :: bytes
  lastByteMillis :: u32
  lastFrame :: bytes
  pendingEvent :: QrScannerEventType
  responseStartedAt :: u32
  responseTimeoutMs :: u32
  scannerStartedAt :: u32
  scanTimeoutMs :: u32

definition newQrScanner :: QrScanner where
  "newQrScanner = \<lparr>uart = None, config = defaultConfig, currentState = Idle, scanActive = False, rxFrame = [],
     lastByteMillis = 0, lastFrame = [], pendingEvent = NoEvent, responseStartedAt = 0, responseTimeoutMs = 0,
     scannerStartedAt = 0, scanTimeoutMs = 0\<rparr>"

section \<open>Hardware\<close>

definition writeCommand :: "bytes \<Rightarrow> QrScanner \<Rightarrow> QrScanner" where
  "writeCommand bs q =
     (case uart q of None \<Rightarrow> q
      | Some u \<Rightarrow> if bs = [] then q else q\<lparr>uart := Some (u\<lparr>uout := uout u @ bs\<rparr>)\<rparr>)"

definition setSwitchActive :: "bool \<Rightarrow> QrScanner \<times> GpioHAL \<Rightarrow> QrScanner \<times> GpioHAL" where
  "setSwitchActive on s =
     (case s of (q, g) \<Rightarrow>
      if switchPin (config q) = QR_SCANNER_PIN_UNUSED then (q, g)
      else (q, digitalWrite (switchPin (config q)) (if on then switchActiveHigh (config q) else \<not> switchActiveHigh (config q)) g))"

definition usesSwitch :: "QrScanner \<Rightarrow> bool" where
  "usesSwitch q \<longleftrightarrow> activationMode (config q) = SwitchPin \<or> activationMode (config q) = CommandAndSwitch"

text \<open>A null command override is the empty list: both are ignored.\<close>

definition activateHardware :: "bytes \<Rightarrow> QrScanner \<times> GpioHAL \<Rightarrow> QrScanner \<times> GpioHAL" where
  "activateHardware override s =
     (case (if usesSwitch (fst s) then setSwitchActive True s else s) of (q, g) \<Rightarrow>
      if override \<noteq> [] then (writeCommand override q, g)
      else if activationMode (config q) = Command \<or> activationMode (config q) = CommandAndSwitch
      then (writeCommand (activateCommand (config q)) q, g)
      else (q, g))"

definition deactivateHardware :: "bytes \<Rightarrow> QrScanner \<times> GpioHAL \<Rightarrow> QrScanner \<times> GpioHAL" where
  "deactivateHardware override s =
     (case s of (q, g) \<Rightarrow>
      let q1 = (if override \<noteq> [] then writeCommand override q else writeCommand (deactivateCommand (config q)) q) in
      if usesSwitch q1 then setSwitchActive False (q1, g) else (q1, g))"

definition resetReceiver :: "QrScanner \<Rightarrow> QrScanner" where
  "resetReceiver q = q\<lparr>rxFrame := [], lastByteMillis := 0, lastFrame := []\<rparr>"

definition deactivateAfterTerminalEvent :: "QrScanner \<times> GpioHAL \<Rightarrow> QrScanner \<times> GpioHAL" where
  "deactivateAfterTerminalEvent s =
     (case deactivateHardware [] s of (q, g) \<Rightarrow>
        (q\<lparr>currentState := Idle, scanActive := False, scanTimeoutMs := 0, responseStartedAt := 0\<rparr>, g))"

section \<open>Commands\<close>

definition beginScanner :: "Stream \<Rightarrow> QrScannerConfig \<Rightarrow> QrScanner \<times> GpioHAL \<Rightarrow> QrScanner \<times> GpioHAL" where
  "beginScanner serial conf s =
     (case s of (q, g) \<Rightarrow>
      let q1 = resetReceiver (q\<lparr>uart := Some serial, config := conf, currentState := Idle, scanActive := False,
                 responseStartedAt := 0, scanTimeoutMs := 0, pendingEvent := NoEvent\<rparr>) in
      if switchPin conf \<noteq> QR_SCANNER_PIN_UNUSED
      then setSwitchActive False (q1, pinMode (switchPin conf) OUTPUT g) else (q1, g))"

definition startScan :: "bytes \<Rightarrow> u32 \<Rightarrow> u32 \<Rightarrow> QrScanner \<times> GpioHAL \<Rightarrow> bool \<times> QrScanner \<times> GpioHAL" where
  "startScan override timeoutMs millis s =
     (case s of (q, g) \<Rightarrow>
      if uart q = None then (False, q, g)
      else
        let timeout = (if timeoutMs = 0 then defaultScanTimeoutMs (config q) else timeoutMs);
            s1 = (if scanActive q then deactivateAfterTerminalEvent (q, g) else (q, g));
            s2 = activateHardware override (resetReceiver (fst s1), snd s1);
            window = activationResponseWindowMs (config (fst s2))
        in (True, (fst s2)\<lparr>scanActive := True, scannerStartedAt := millis, scanTimeoutMs := timeout,
                    responseStartedAt := millis, responseTimeoutMs := window,
                    currentState := (if window = 0 then WaitingCode else WaitingActivationResponse),
                    pendingEvent := Activated\<rparr>, snd s2))"

definition sendCommand :: "bytes \<Rightarrow> u32 \<Rightarrow> u32 \<Rightarrow> QrScanner \<Rightarrow> bool \<times> QrScanner" where
  "sendCommand command responseWindowMs millis q =
     (if uart q = None \<or> command = [] then (False, q)
      else
        let q1 = writeCommand command (resetReceiver q);
            window = (if responseWindowMs = 0 then commandResponseWindowMs (config q1) else responseWindowMs)
        in (True, q1\<lparr>responseStartedAt := millis, responseTimeoutMs := window,
              currentState := (if window = 0 then Idle else WaitingCommandResponse)\<rparr>))"

definition deactivate :: "bytes \<Rightarrow> QrScanner \<times> GpioHAL \<Rightarrow> QrScanner \<times> GpioHAL" where
  "deactivate override s =
     (case deactivateHardware override s of (q, g) \<Rightarrow>
        (q\<lparr>currentState := Idle, scanActive := False, scanTimeoutMs := 0, responseStartedAt := 0,
           pendingEvent := Deactivated\<rparr>, g))"

section \<open>Receiving\<close>

definition isTerminator :: "QrScanner \<Rightarrow> u8 \<Rightarrow> bool" where
  "isTerminator q v \<longleftrightarrow>
     (case frameTerminators (config q) of None \<Rightarrow> False
      | Some ts \<Rightarrow> v \<in> set (map (\<lambda>c. of_nat (ord_of c)) (cstr ts)))"

definition blankByte :: "u8 \<Rightarrow> bool" where
  "blankByte b \<longleftrightarrow> b = 32 \<or> b = 9"

fun trimEnd :: "nat \<Rightarrow> bytes \<Rightarrow> bytes" where
  "trimEnd 0 bs = []"
| "trimEnd (Suc n) bs = (if blankByte (bs ! n) then trimEnd n bs else take (Suc n) bs)"

definition trimFrame :: "QrScanner \<Rightarrow> bytes \<Rightarrow> bytes" where
  "trimFrame q bs =
     (if \<not> trimFrames (config q) then bs
      else let bs1 = dropWhile blankByte bs in trimEnd (length bs1) bs1)"

definition makeFrameEvent :: "QrScannerEventType \<Rightarrow> bytes \<Rightarrow> QrScanner \<Rightarrow> QrScannerEvent \<times> QrScanner" where
  "makeFrameEvent ty bs q =
     (let frame = take QR_SCANNER_MAX_FRAME_LEN bs in ((ty, frame), q\<lparr>lastFrame := frame\<rparr>))"

definition finalizeFrame :: "QrScanner \<times> GpioHAL \<Rightarrow> QrScannerEvent \<times> QrScanner \<times> GpioHAL" where
  "finalizeFrame s =
     (case s of (q, g) \<Rightarrow>
      let bs = trimFrame q (rxFrame q); q1 = q\<lparr>rxFrame := []\<rparr> in
      if length bs = 0 then ((NoEvent, []), q1, g)
      else case currentState q1 of
        WaitingActivationResponse \<Rightarrow> (case makeFrameEvent ActivationResponse bs q1 of (ev, q2) \<Rightarrow> (ev, q2, g))
      | WaitingCommandResponse \<Rightarrow> (case makeFrameEvent CommandResponse bs q1 of (ev, q2) \<Rightarrow> (ev, q2, g))
      | WaitingCode \<Rightarrow> (case makeFrameEvent CodeReceived bs q1 of (ev, q2) \<Rightarrow> (ev, deactivateAfterTerminalEvent (q2, g)))
      | Idle \<Rightarrow> (case makeFrameEvent UnexpectedFrame bs q1 of (ev, q2) \<Rightarrow> (ev, q2, g)))"

definition processByte :: "u8 \<Rightarrow> u32 \<Rightarrow> QrScanner \<times> GpioHAL \<Rightarrow> QrScannerEvent \<times> QrScanner \<times> GpioHAL" where
  "processByte v now s =
     (case s of (q0, g) \<Rightarrow>
      let q = q0\<lparr>lastByteMillis := now\<rparr> in
      if isTerminator q v then
        (if length (rxFrame q) = 0 then ((NoEvent, []), q, g) else finalizeFrame (q, g))
      else if QR_SCANNER_MAX_FRAME_LEN \<le> length (rxFrame q) then ((RxOverflow, []), q\<lparr>rxFrame := []\<rparr>, g)
      else ((NoEvent, []), q\<lparr>rxFrame := rxFrame q @ [v]\<rparr>, g))"

text \<open>\<open>while (uart->available() > 0)\<close>: bytes are taken until one of them produces an event.\<close>

fun receive :: "bytes \<Rightarrow> u32 \<Rightarrow> QrScanner \<times> GpioHAL \<Rightarrow> QrScannerEvent option \<times> bytes \<times> QrScanner \<times> GpioHAL" where
  "receive [] now s = (None, [], s)"
| "receive (v # vs) now s =
     (case processByte v now s of (ev, s1) \<Rightarrow>
        if fst ev \<noteq> NoEvent then (Some ev, vs, s1) else receive vs now s1)"

definition updateScanner :: "u32 \<Rightarrow> QrScanner \<times> GpioHAL \<Rightarrow> QrScannerEvent \<times> QrScanner \<times> GpioHAL" where
  "updateScanner now s =
     (case s of (q, g) \<Rightarrow>
      if pendingEvent q \<noteq> NoEvent then ((pendingEvent q, []), q\<lparr>pendingEvent := NoEvent\<rparr>, g)
      else case uart q of
        None \<Rightarrow> ((NoEvent, []), q, g)
      | Some u \<Rightarrow>
          (case receive (uin u) now (q, g) of (ev, rest, q0, g1) \<Rightarrow>
           let q1 = q0\<lparr>uart := map_option (\<lambda>u. u\<lparr>uin := rest\<rparr>) (uart q0)\<rparr> in
           case ev of
             Some e \<Rightarrow> (e, q1, g1)
           | None \<Rightarrow>
               if 0 < length (rxFrame q1) \<and> 0 < frameIdleMs (config q1) \<and>
                  timeoutElapsed (lastByteMillis q1) (frameIdleMs (config q1)) now
               then finalizeFrame (q1, g1)
               else
                 let q2 = (if currentState q1 = WaitingActivationResponse \<and>
                              timeoutElapsed (responseStartedAt q1) (responseTimeoutMs q1) now
                           then q1\<lparr>currentState := WaitingCode\<rparr> else q1) in
                 if currentState q2 = WaitingCommandResponse \<and>
                    timeoutElapsed (responseStartedAt q2) (responseTimeoutMs q2) now
                 then ((CommandResponseTimeout, []),
                       q2\<lparr>currentState := (if scanActive q2 then WaitingCode else Idle)\<rparr>, g1)
                 else if scanActive q2 \<and> scanTimeoutMs q2 \<noteq> 0 \<and>
                    timeoutElapsed (scannerStartedAt q2) (scanTimeoutMs q2) now
                 then ((ScanTimedOut, []), deactivateAfterTerminalEvent (q2, g1))
                 else ((NoEvent, []), q2, g1)))"

section \<open>Frames\<close>

definition trim :: "bytes \<Rightarrow> bytes" where
  "trim bs = rev (dropWhile blankByte (rev (dropWhile blankByte bs)))"

lemma trimEnd_eq: "n \<le> length bs \<Longrightarrow> trimEnd n bs = rev (dropWhile blankByte (rev (take n bs)))"
  by (induction n) (simp_all add: take_Suc_conv_app_nth)

lemma trimFrame_eq: "trimFrame q bs = (if trimFrames (config q) then trim bs else bs)"
  by (simp add: trimFrame_def trim_def trimEnd_eq Let_def)

lemma length_trim: "length (trim bs) \<le> length bs"
  unfolding trim_def length_rev by (metis length_dropWhile_le length_rev le_trans)

text \<open>Bytes that are no terminators are collected.\<close>

lemma receive_plain:
  assumes "\<forall>v \<in> set fr. \<not> isTerminator q v" and "length (rxFrame q) + length fr \<le> QR_SCANNER_MAX_FRAME_LEN"
  shows "receive (fr @ vs) now (q, g) =
     receive vs now (q\<lparr>rxFrame := rxFrame q @ fr, lastByteMillis := (if fr = [] then lastByteMillis q else now)\<rparr>, g)"
  using assms
proof (induction fr arbitrary: q)
  case (Cons v fr)
  let ?q = "q\<lparr>lastByteMillis := now, rxFrame := rxFrame q @ [v]\<rparr>"
  have "processByte v now (q, g) = ((NoEvent, []), ?q, g)"
    using Cons.prems by (simp add: processByte_def isTerminator_def Let_def)
  moreover have "receive (fr @ vs) now (?q, g) =
      receive vs now (?q\<lparr>rxFrame := rxFrame ?q @ fr, lastByteMillis := (if fr = [] then lastByteMillis ?q else now)\<rparr>, g)"
    using Cons.prems by (intro Cons.IH) (simp_all add: isTerminator_def)
  ultimately show ?case by simp
qed simp

text \<open>The receive buffer is never overrun.\<close>

lemma finalizeFrame_rx: "rxFrame (fst (snd (finalizeFrame s))) = []"
  by (auto simp: finalizeFrame_def deactivateAfterTerminalEvent_def deactivateHardware_def makeFrameEvent_def
      setSwitchActive_def writeCommand_def Let_def split: prod.split option.split QrScannerState.split)

lemma processByte_rx:
  "length (rxFrame (fst s)) \<le> QR_SCANNER_MAX_FRAME_LEN \<Longrightarrow>
     length (rxFrame (fst (snd (processByte v now s)))) \<le> QR_SCANNER_MAX_FRAME_LEN"
  by (auto simp: processByte_def finalizeFrame_rx Let_def split: prod.split)

lemma receive_rx:
  "length (rxFrame (fst s)) \<le> QR_SCANNER_MAX_FRAME_LEN \<Longrightarrow>
     length (rxFrame (fst (snd (snd (receive vs now s))))) \<le> QR_SCANNER_MAX_FRAME_LEN"
proof (induction vs now s rule: receive.induct)
  case (2 v vs now s)
  obtain ev s1 where p: "processByte v now s = (ev, s1)" by (cases "processByte v now s")
  have "length (rxFrame (fst s1)) \<le> QR_SCANNER_MAX_FRAME_LEN" using processByte_rx [OF 2(2), of v now] p by simp
  then show ?case using 2(1) [OF p [symmetric]] p by simp
qed simp

text \<open>
  C38.  A scanned code arrives intact: while the driver waits for a code, a frame of up to 1024 bytes without
  terminators, ended by a carriage return or line feed, is delivered as exactly one code event with
  the surrounding blanks removed; the driver is then idle with an empty buffer, and the bytes after
  the terminator are left on the line.
\<close>

theorem scanned_code_delivered:
  assumes "uart q = Some u" and "uin u = fr @ v # vs" and "\<forall>x \<in> set fr. \<not> isTerminator q x" and "isTerminator q v"
    and "length fr \<le> QR_SCANNER_MAX_FRAME_LEN" and "rxFrame q = []" and "trimFrames (config q)" and "trim fr \<noteq> []"
    and "currentState q = WaitingCode" and "pendingEvent q = NoEvent"
  shows "fst (updateScanner now (q, g)) = (CodeReceived, trim fr) \<and>
    (\<lambda>q'. currentState q' = Idle \<and> \<not> scanActive q' \<and> rxFrame q' = [] \<and> map_option uin (uart q') = Some vs)
           (fst (snd (updateScanner now (q, g))))"
proof -
  let ?q = "q\<lparr>rxFrame := fr, lastByteMillis := now\<rparr>"
  have ne: "fr \<noteq> []" using assms(8) by (auto simp: trim_def)
  have tr: "trimFrame ?q fr = trim fr" using assms(7) by (simp add: trimFrame_eq)
  have short: "take QR_SCANNER_MAX_FRAME_LEN (trim fr) = trim fr" using length_trim [of fr] assms(5) by simp
  have pb: "processByte v now (?q, g) =
      ((CodeReceived, trim fr), deactivateAfterTerminalEvent (?q\<lparr>rxFrame := [], lastFrame := trim fr\<rparr>, g))"
    using assms(4,8,9) ne tr short
    by (simp add: processByte_def isTerminator_def finalizeFrame_def makeFrameEvent_def Let_def)
  have rc: "receive (fr @ v # vs) now (q, g) =
      (Some (CodeReceived, trim fr), vs, deactivateAfterTerminalEvent (?q\<lparr>rxFrame := [], lastFrame := trim fr\<rparr>, g))"
    using receive_plain [of fr q "v # vs" now g] assms(3,5,6) ne pb by simp
  have "fst (updateScanner now (q, g)) = (CodeReceived, trim fr)"
    using assms(1,2,10) rc by (simp add: updateScanner_def split: prod.split)
  moreover have "(\<lambda>q'. currentState q' = Idle \<and> \<not> scanActive q' \<and> rxFrame q' = [] \<and> map_option uin (uart q') = Some vs)
           (fst (snd (updateScanner now (q, g))))"
    using assms(1,2,10) rc
    by (auto simp: updateScanner_def deactivateAfterTerminalEvent_def deactivateHardware_def setSwitchActive_def
        writeCommand_def Let_def split: prod.split option.split)
  ultimately show ?thesis by simp
qed

theorem scanned_code_delivered_witness:
  "fst (updateScanner 5 (newQrScanner\<lparr>uart := Some \<lparr>uin = [32, 49, 50, 13, 51], uout = []\<rparr>, currentState := WaitingCode\<rparr>, newGpioHAL))
     = (CodeReceived, [49, 50])"
  using scanned_code_delivered [of "newQrScanner\<lparr>uart := Some \<lparr>uin = [32, 49, 50, 13, 51], uout = []\<rparr>, currentState := WaitingCode\<rparr>"
      "\<lparr>uin = [32, 49, 50, 13, 51], uout = []\<rparr>" "[32, 49, 50]" 13 "[51]" 5 newGpioHAL]
  by (simp add: newQrScanner_def defaultConfig_def isTerminator_def trim_def blankByte_def ord_of_def cstr_def
      QR_SCANNER_MAX_FRAME_LEN_def)

end
