(* ===== verification/State_Props.thy ===== *)
theory State_Props
  imports State_Machine
begin

text \<open>
  The state machine's laws: which parts each entry and exit action changes, and what follows for
  transitions.  The state-change callback is an interface, the locale \<open>state_callback\<close>: it may leave
  the context alone or bring a machine that just entered Scan back to Home, and it touches neither
  the credential store, nor the timers, nor raises a lock.
\<close>

section \<open>Selectors\<close>

named_theorems box_sel

lemma emit_sel [simp, box_sel]:
  "ctx (emit x b) = ctx b" "gpio (emit x b) = gpio b" "timers (emit x b) = timers b"
  "credStore (emit x b) = credStore b" "others (emit x b) = others b"
  "lastUIAction (emit x b) = lastUIAction b" "uiCallback (emit x b) = uiCallback b"
  "scannerTestKeepCred (emit x b) = scannerTestKeepCred b"
  by (simp_all add: emit_def)

lemma updCtx_sel [simp, box_sel]:
  "ctx (updCtx f b) = f (ctx b)" "gpio (updCtx f b) = gpio b" "timers (updCtx f b) = timers b"
  "credStore (updCtx f b) = credStore b" "others (updCtx f b) = others b"
  "lastUIAction (updCtx f b) = lastUIAction b" "uiCallback (updCtx f b) = uiCallback b"
  "scannerTestKeepCred (updCtx f b) = scannerTestKeepCred b"
  by (simp_all add: updCtx_def)

lemma gpioDo_sel [simp, box_sel]:
  "ctx (gpioDo f b) = ctx b" "gpio (gpioDo f b) = snd (f (gpio b))" "timers (gpioDo f b) = timers b"
  "credStore (gpioDo f b) = credStore b" "others (gpioDo f b) = others b"
  "lastUIAction (gpioDo f b) = lastUIAction b" "uiCallback (gpioDo f b) = uiCallback b"
  "scannerTestKeepCred (gpioDo f b) = scannerTestKeepCred b"
  by (simp_all add: gpioDo_def)

lemma external_sel [simp, box_sel]:
  "ctx (enableExternal b) = ctx b" "gpio (enableExternal b) = gpio b" "timers (enableExternal b) = timers b"
  "credStore (enableExternal b) = credStore b" "others (enableExternal b) = others b"
  "lastUIAction (enableExternal b) = UI_ENABLE_DOOR_CONTROLS"
  "scannerTestKeepCred (enableExternal b) = scannerTestKeepCred b"
  "ctx (disableExternal b) = ctx b" "gpio (disableExternal b) = gpio b" "timers (disableExternal b) = timers b"
  "credStore (disableExternal b) = credStore b" "others (disableExternal b) = others b"
  "lastUIAction (disableExternal b) = UI_DISABLE_DOOR_CONTROLS"
  "scannerTestKeepCred (disableExternal b) = scannerTestKeepCred b"
  by (simp_all add: enableExternal_def disableExternal_def Let_def)

lemmas box_defs = scheduleNextDisplayRefresh_def generatePresenceCode_def onEnterHome_def onEnterPassword_def
  onExitPassword_def onEnterScan_def onExitScan_def onEnterPresence_def onExitOpening_def onEnterClosed_def
  onExitClosed_def onEnterBadPass_def Let_def

section \<open>Exit and entry actions\<close>

text \<open>What a transition keeps whatever its target.\<close>

lemma onExit_sel [simp]:
  "timers (onExit b) = timers b" "credStore (onExit b) = credStore b" "others (onExit b) = others b"
  "lastUIAction (onExit b) = lastUIAction b" "state (ctx (onExit b)) = state (ctx b)"
  "doorToOpen (ctx (onExit b)) = doorToOpen (ctx b)" "credVerified (ctx (onExit b)) = credVerified (ctx b)"
  "scannedCredVerified (ctx (onExit b)) = scannedCredVerified (ctx b)"
  "badPasswordActive (ctx (onExit b)) = badPasswordActive (ctx b)"
  "badPasswordStartedAt (ctx (onExit b)) = badPasswordStartedAt (ctx b)"
  "badPasswordCount (ctx (onExit b)) = badPasswordCount (ctx b)"
  "currentBadPasswordMillis (ctx (onExit b)) = currentBadPasswordMillis (ctx b)"
  "retryScanAfterBadCode (ctx (onExit b)) = retryScanAfterBadCode (ctx b)"
  "scannerTestKeepCred (onExit b) = scannerTestKeepCred b"
  by (simp_all add: onExit_def box_defs split: BoxState.split)

lemma onExit_gpio: "gpio (onExit b) = (if state (ctx b) = Closed then snd (ambientOff (gpio b)) else gpio b)"
  by (simp add: onExit_def box_defs split: BoxState.split)

lemma onEnter_others [simp]: "others (onEnter p e now b) = others b"
  by (simp add: onEnter_def box_defs onEnterOpening_def onEnterOpen_def split: BoxState.split prod.split)

lemma onEnter_state [simp]: "state (ctx (onEnter p e now b)) = state (ctx b)"
  by (simp add: onEnter_def box_defs onEnterOpening_def onEnterOpen_def split: BoxState.split prod.split)

lemma onEnter_credStore:
  "credStore (onEnter p e now b) =
     (if state (ctx b) = Open \<and> credVerified (ctx b) \<and> \<not> (scannerTestKeepCred b \<and> scannedCredVerified (ctx b))
      then snd (usedCred p (credStore b) (doorToOpen (ctx b)) (usedTime e)) else credStore b)"
  by (auto simp: onEnter_def box_defs onEnterOpening_def onEnterOpen_def split: BoxState.split prod.split)

text \<open>The mappings of the doors never change here; the pins do when a door is opened.\<close>

definition sameDoors :: "GpioHAL \<Rightarrow> GpioHAL \<Rightarrow> bool" where
  "sameDoors g g' \<longleftrightarrow> activeDoorNum g' = activeDoorNum g \<and> doorMappings g' = doorMappings g \<and> ambientPin g' = ambientPin g"

lemma sameDoors_refl [simp]: "sameDoors g g"
  by (simp add: sameDoors_def)

lemma sameDoors_trans: "sameDoors a b \<Longrightarrow> sameDoors b c \<Longrightarrow> sameDoors a c"
  by (simp add: sameDoors_def)

lemma sameDoors_read: "sameDoors g g' \<Longrightarrow> readDoorState g' d = readDoorState g d"
  by (simp add: sameDoors_def readDoorState_def)

lemma sameDoors_pins: "sameDoors g g' \<Longrightarrow> doorPins g' d = doorPins g d"
  by (simp add: sameDoors_def doorPins_def)

lemma onEnter_doors: "sameDoors (gpio b) (gpio (onEnter p e now b))"
  by (auto simp: sameDoors_def onEnter_def box_defs onEnterOpening_def onEnterOpen_def openDoor_eq
      split: BoxState.split prod.split if_splits)

lemma onEnter_pins:
  assumes "pinLevel (gpio (onEnter p e now b)) pin" and "\<not> pinLevel (gpio b) pin" and "pin \<noteq> ambientPin (gpio b)"
  shows "state (ctx b) = Opening \<and> doorToOpen (ctx b) \<noteq> DOOR_UNKNOWN \<and> pin \<in> doorPins (gpio b) (doorToOpen (ctx b))"
  using assms
  by (auto simp: onEnter_def box_defs onEnterOpening_def onEnterOpen_def openDoor_eq ambient_other_pins
      split: BoxState.splits prod.splits if_splits)

lemma onExit_pins: "pinLevel (gpio (onExit b)) pin \<Longrightarrow> pinLevel (gpio b) pin"
  by (auto simp: onExit_gpio dest: ambientOff_lowers split: if_splits)

lemma onExit_doors: "sameDoors (gpio b) (gpio (onExit b))"
  by (simp add: onExit_gpio sameDoors_def)

section \<open>Transitions\<close>

text \<open>A transition up to the callback.\<close>

definition moveTo :: "'n Preferences \<Rightarrow> Env \<Rightarrow> BoxState \<Rightarrow> u32 \<Rightarrow> ('n, 'x) Box \<Rightarrow> ('n, 'x) Box" where
  "moveTo p e newState now b = scheduleNextDisplayRefresh now (onEnter p e now
     (updCtx (\<lambda>c. c\<lparr>state := newState\<rparr>) (emit (LogPrint ''A_STATE_CHANGED'') (onExit b))))"

definition runCallback :: "('n, 'x) callback option \<Rightarrow> ('n, 'x) callback" where
  "runCallback cb e oldState newState now b = (case cb of None \<Rightarrow> b | Some f \<Rightarrow> f e oldState newState now b)"

lemma transitionTo_eq:
  "transitionTo p cb e new now b =
     (if new = state (ctx b) then b else runCallback cb e (state (ctx b)) new now (moveTo p e new now b))"
  by (cases cb) (auto simp: transitionTo_def moveTo_def runCallback_def Let_def)

lemma moveTo_sel:
  "state (ctx (moveTo p e new now b)) = new" "others (moveTo p e new now b) = others b"
  by (simp_all add: moveTo_def scheduleNextDisplayRefresh_def)

lemma moveTo_credStore:
  "credStore (moveTo p e new now b) =
     (if new = Open \<and> credVerified (ctx b) \<and> \<not> (scannerTestKeepCred b \<and> scannedCredVerified (ctx b))
      then snd (usedCred p (credStore b) (doorToOpen (ctx b)) (usedTime e)) else credStore b)"
  by (auto simp: moveTo_def scheduleNextDisplayRefresh_def onEnter_credStore)

lemma moveTo_doors: "sameDoors (gpio b) (gpio (moveTo p e new now b))"
  unfolding moveTo_def scheduleNextDisplayRefresh_def
  using onExit_doors [of b] onEnter_doors [of "updCtx (\<lambda>c. c\<lparr>state := new\<rparr>) (emit (LogPrint ''A_STATE_CHANGED'') (onExit b))" p e now]
  by (auto intro: sameDoors_trans)

lemma moveTo_pins:
  assumes "pinLevel (gpio (moveTo p e new now b)) pin" and "\<not> pinLevel (gpio b) pin" and "pin \<noteq> ambientPin (gpio b)"
  shows "new = Opening \<and> doorToOpen (ctx b) \<noteq> DOOR_UNKNOWN \<and> pin \<in> doorPins (gpio b) (doorToOpen (ctx b))"
proof -
  let ?b = "updCtx (\<lambda>c. c\<lparr>state := new\<rparr>) (emit (LogPrint ''A_STATE_CHANGED'') (onExit b))"
  have "\<not> pinLevel (gpio ?b) pin" using assms(2) onExit_pins by auto
  moreover have "pin \<noteq> ambientPin (gpio ?b)" using assms(3) onExit_doors [of b] by (simp add: sameDoors_def)
  moreover have "pinLevel (gpio (onEnter p e now ?b)) pin"
    using assms(1) by (simp add: moveTo_def scheduleNextDisplayRefresh_def)
  ultimately have "state (ctx ?b) = Opening \<and> doorToOpen (ctx ?b) \<noteq> DOOR_UNKNOWN \<and> pin \<in> doorPins (gpio ?b) (doorToOpen (ctx ?b))"
    by (intro onEnter_pins [of p e now])
  then show ?thesis using sameDoors_pins [OF onExit_doors [of b]] by simp
qed

text \<open>The fields of the penalty.\<close>

definition penalty :: "('n, 'x) Box \<Rightarrow> bool \<times> u32 \<times> u32" where
  "penalty b = (badPasswordActive (ctx b), badPasswordStartedAt (ctx b), currentBadPasswordMillis (ctx b))"

lemma moveTo_penalty:
  "new \<notin> {Password, Scan, BadPass} \<Longrightarrow> penalty (moveTo p e new now b) = penalty b"
  "penaltyRunning (ctx b) now \<Longrightarrow> penalty (moveTo p e BadPass now b) = penalty b"
  "\<not> penaltyRunning (ctx b) now \<Longrightarrow> penalty (moveTo p e BadPass now b) = (True, now, penaltyMillis (badPasswordCount (ctx b)))"
  "new \<in> {Password, Scan} \<Longrightarrow> \<not> badPasswordActive (ctx (moveTo p e new now b))"
proof -
  show "penalty (moveTo p e new now b) = penalty b" if "new \<notin> {Password, Scan, BadPass}"
    using that by (cases new) (auto simp: moveTo_def penalty_def onEnter_def box_defs onEnterOpening_def onEnterOpen_def split: prod.split)
qed (auto simp: moveTo_def penalty_def onEnter_def box_defs penaltyRunning_def)

lemma moveTo_credVerified:
  "credVerified (ctx (moveTo p e new now b)) \<longleftrightarrow> credVerified (ctx b) \<and> new \<notin> {Home, Scan, Open}"
  by (cases new) (auto simp: moveTo_def onEnter_def box_defs onEnterOpening_def onEnterOpen_def split: prod.split)

lemma moveTo_ui:
  "lastUIAction (moveTo p e new now b) =
     (if new = Home then UI_ENABLE_DOOR_CONTROLS
      else if new \<in> {Password, Scan, Opening} then UI_DISABLE_DOOR_CONTROLS else lastUIAction b)"
  by (cases new) (auto simp: moveTo_def onEnter_def box_defs onEnterOpening_def onEnterOpen_def split: prod.split)

lemma moveTo_door:
  "doorToOpen (ctx (moveTo p e new now b)) = (if new = Closed then DOOR_UNKNOWN else doorToOpen (ctx b))"
  by (cases new) (auto simp: moveTo_def onEnter_def box_defs onEnterOpening_def onEnterOpen_def split: prod.split)

section \<open>The callback interface\<close>

text \<open>A machine that just entered Scan and went back Home: the rest of its context is as it was.\<close>

definition backHome :: "('n, 'x) Box \<Rightarrow> ('n, 'x) Box \<Rightarrow> bool" where
  "backHome b b' \<longleftrightarrow> state (ctx b) = Scan \<and> lastUIAction b' = UI_ENABLE_DOOR_CONTROLS \<and>
     (\<exists>t. ctx b' = (ctx b)\<lparr>state := Home, scanStartedAt := 0, credVerified := False, scannedCredVerified := False,
       displayRefreshStartedAt := t, displayRefreshActive := True\<rparr>)"

definition quiet :: "('n, 'x) Box \<Rightarrow> ('n, 'x) Box \<Rightarrow> bool" where
  "quiet b b' \<longleftrightarrow> credStore b' = credStore b \<and> timers b' = timers b \<and> sameDoors (gpio b) (gpio b') \<and>
     (\<forall>pin. pinLevel (gpio b') pin \<longrightarrow> pinLevel (gpio b) pin) \<and>
     (ctx b' = ctx b \<and> lastUIAction b' = lastUIAction b \<or> backHome b b')"

lemma quiet_refl [simp]: "quiet b b"
  by (simp add: quiet_def)

locale state_callback =
  fixes cb :: "('n, 'x) callback option" and ok :: "'x \<Rightarrow> bool"
  assumes callback_ok: "ok (others b) \<Longrightarrow> ok (others (runCallback cb e old new now b))"
    and callback_quiet: "ok (others b) \<Longrightarrow> quiet b (runCallback cb e old new now b)"
begin

lemma transition_ok: "ok (others b) \<Longrightarrow> ok (others (transitionTo p cb e new now b))"
  by (simp add: transitionTo_eq callback_ok moveTo_sel)

lemma transition_quiet:
  "ok (others b) \<Longrightarrow> new \<noteq> state (ctx b) \<Longrightarrow> quiet (moveTo p e new now b) (transitionTo p cb e new now b)"
  by (simp add: transitionTo_eq callback_quiet moveTo_sel)

end

end
