(* ===== verification/State_Table.thy ===== *)
theory State_Table
  imports State_Props
begin

text \<open>
  The transition table as an inductive relation, and the refinement of the code by it: every call
  of \<open>processEvent\<close> and \<open>update\<close> either leaves the decisive context alone or makes exactly one move of
  the table.  The properties of the machine are proved on the table.
\<close>

section \<open>The table\<close>

datatype trigger = Event BoxEventData | TimePassed

text \<open>Everything but the context, the outputs and the storage.\<close>

definition sameWorld :: "('n, 'x) Box \<Rightarrow> ('n, 'x) Box \<Rightarrow> bool" where
  "sameWorld b b' \<longleftrightarrow> gpio b' = gpio b \<and> timers b' = timers b \<and> others b' = others b \<and>
     lastUIAction b' = lastUIAction b \<and> scannerTestKeepCred b' = scannerTestKeepCred b"

text \<open>
  \<open>table e now t b s b1\<close>: on trigger \<open>t\<close> in \<open>b\<close> the machine prepares \<open>b1\<close> and moves to \<open>s\<close>.
\<close>

inductive table :: "Env \<Rightarrow> u32 \<Rightarrow> trigger \<Rightarrow> ('n, 'x) Box \<Rightarrow> BoxState \<Rightarrow> ('n, 'x) Box \<Rightarrow> bool"
  for e :: Env and now :: u32 where
  web_open: "eventType ev = WebOpenBox \<Longrightarrow> sameWorld b b1 \<Longrightarrow> credStore b1 = credStore b \<Longrightarrow>
     ctx b1 = (ctx b)\<lparr>doorToOpen := evDoorNum ev, credVerified := False, scannedCredVerified := False\<rparr> \<Longrightarrow>
     table e now (Event ev) b Opening b1"
| pin_good: "state (ctx b) = Password \<Longrightarrow> eventType ev = KeyboardEnter \<Longrightarrow> sameWorld b b1 \<Longrightarrow>
     verifyCred (credStore b) (Some (keyboardPassword ev)) CredType_Password (verifyTime e) = (door, credStore b1) \<Longrightarrow>
     door \<noteq> DOOR_UNKNOWN \<Longrightarrow>
     ctx b1 = (ctx b)\<lparr>doorToOpen := door, credVerified := True, scannedCredVerified := False, badPasswordCount := 0\<rparr> \<Longrightarrow>
     table e now (Event ev) b Opening b1"
| pin_bad: "state (ctx b) = Password \<Longrightarrow> eventType ev = KeyboardEnter \<Longrightarrow> sameWorld b b1 \<Longrightarrow>
     verifyCred (credStore b) (Some (keyboardPassword ev)) CredType_Password (verifyTime e) = (DOOR_UNKNOWN, credStore b1) \<Longrightarrow>
     ctx b1 = (ctx b)\<lparr>doorToOpen := DOOR_UNKNOWN, retryScanAfterBadCode := False,
       badPasswordCount := bumpBad (badPasswordCount (ctx b))\<rparr> \<Longrightarrow>
     table e now (Event ev) b BadPass b1"
| code_good: "state (ctx b) = Scan \<Longrightarrow> eventType ev = ScannerCodeReceived \<Longrightarrow> sameWorld b b1 \<Longrightarrow>
     \<not> timeoutElapsed (scanStartedAt (ctx b)) QR_SCANNER_SCAN_TIMEOUT_MS now \<Longrightarrow>
     verifyCred (credStore b) (Some (scannerCred ev)) CredType_PacketNumber (verifyTime e) = (door, credStore b1) \<Longrightarrow>
     door \<noteq> DOOR_UNKNOWN \<Longrightarrow>
     ctx b1 = (ctx b)\<lparr>doorToOpen := door, credVerified := True, scannedCredVerified := True, badPasswordCount := 0\<rparr> \<Longrightarrow>
     table e now (Event ev) b Opening b1"
| code_bad: "state (ctx b) = Scan \<Longrightarrow> eventType ev \<in> {ScannerCodeReceived, ScannerInvalidCode} \<Longrightarrow> sameWorld b b1 \<Longrightarrow>
     (if eventType ev = ScannerInvalidCode then credStore b1 = credStore b
      else verifyCred (credStore b) (Some (scannerCred ev)) CredType_PacketNumber (verifyTime e) = (DOOR_UNKNOWN, credStore b1)) \<Longrightarrow>
     ctx b1 = (ctx b)\<lparr>doorToOpen := DOOR_UNKNOWN, retryScanAfterBadCode := True,
       badPasswordCount := bumpBad (badPasswordCount (ctx b))\<rparr> \<Longrightarrow>
     table e now (Event ev) b BadPass b1"
| choose: "state (ctx b) = Home \<Longrightarrow> eventType ev \<in> {KeyboardKey1, KeyboardKey3} \<Longrightarrow> sameWorld b b1 \<Longrightarrow>
     credStore b1 = credStore b \<Longrightarrow> \<not> penaltyRunning (ctx b) now \<Longrightarrow> ctx b1 = ctx b \<Longrightarrow>
     table e now (Event ev) b (if eventType ev = KeyboardKey1 then Password else Scan) b1"
| penalised: "state (ctx b) = Home \<Longrightarrow> eventType ev \<in> {KeyboardKey1, KeyboardKey3} \<Longrightarrow> sameWorld b b1 \<Longrightarrow>
     credStore b1 = credStore b \<Longrightarrow> penaltyRunning (ctx b) now \<Longrightarrow>
     ctx b1 = (ctx b)\<lparr>retryScanAfterBadCode := (eventType ev = KeyboardKey3)\<rparr> \<Longrightarrow>
     table e now (Event ev) b BadPass b1"
| presence: "state (ctx b) = Home \<Longrightarrow> eventType ev = KeyboardKey2 \<Longrightarrow> sameWorld b b1 \<Longrightarrow>
     credStore b1 = credStore b \<Longrightarrow> ctx b1 = ctx b \<Longrightarrow> table e now (Event ev) b Presence b1"
| go_home: "state (ctx b) \<notin> {Home, Open, External} \<Longrightarrow> sameWorld b b1 \<Longrightarrow>
     credStore b1 = credStore b \<Longrightarrow> ctx b1 = ctx b \<Longrightarrow> table e now t b Home b1"
| door_opened: "state (ctx b) = Opening \<Longrightarrow> sameWorld b b1 \<Longrightarrow> credStore b1 = credStore b \<Longrightarrow> ctx b1 = ctx b \<Longrightarrow>
     (case t of Event ev \<Rightarrow> eventType ev = DoorOpened \<and> evDoorNum ev = doorToOpen (ctx b)
        | TimePassed \<Rightarrow> readDoorState (gpio b) (doorToOpen (ctx b)) = DOOR_OPEN) \<Longrightarrow>
     table e now t b Open b1"
| door_closed: "state (ctx b) = Open \<Longrightarrow> eventType ev = DoorClosed \<Longrightarrow> evDoorNum ev = doorToOpen (ctx b) \<Longrightarrow> sameWorld b b1 \<Longrightarrow>
     credStore b1 = credStore b \<Longrightarrow> ctx b1 = ctx b \<Longrightarrow> table e now (Event ev) b Closed b1"
| penalty_over: "state (ctx b) = BadPass \<Longrightarrow> sameWorld b b1 \<Longrightarrow> credStore b1 = credStore b \<Longrightarrow> ctx b1 = ctx b \<Longrightarrow>
     timeoutElapsed (badPasswordStartedAt (ctx b)) (currentBadPasswordMillis (ctx b)) now \<Longrightarrow>
     table e now TimePassed b (if retryScanAfterBadCode (ctx b) then Scan else Password) b1"

text \<open>A call that makes no move: the decisive context and the world are as before.\<close>

inductive no_move :: "trigger \<Rightarrow> ('n, 'x) Box \<Rightarrow> ('n, 'x) Box \<Rightarrow> bool" where
  stay: "sameWorld b b' \<Longrightarrow> credStore b' = credStore b \<Longrightarrow> ctx b' = ctx b \<Longrightarrow> no_move t b b'"

section \<open>The code refines the table\<close>

lemma sameWorld_basic [simp]:
  "sameWorld b b" "sameWorld b (emit x c) = sameWorld b c" "sameWorld b (updCtx f c) = sameWorld b c"
  "sameWorld b (c\<lparr>credStore := s\<rparr>) = sameWorld b c"
  by (simp_all add: sameWorld_def)

text \<open>\<open>performs\<close>: the result is a move of the table, followed by the callback, or no move.\<close>

definition performs ::
  "'n Preferences \<Rightarrow> ('n, 'x) callback option \<Rightarrow> Env \<Rightarrow> u32 \<Rightarrow> trigger \<Rightarrow> ('n, 'x) Box \<Rightarrow> ('n, 'x) Box \<Rightarrow> bool" where
  "performs p cb e now t b b' \<longleftrightarrow>
     no_move t b b' \<or> (\<exists>s b1. table e now t b s b1 \<and> b' = transitionTo p cb e s now b1)"

lemma performs_stay: "sameWorld b b' \<Longrightarrow> credStore b' = credStore b \<Longrightarrow> ctx b' = ctx b \<Longrightarrow> performs p cb e now t b b'"
  by (simp add: performs_def no_move.simps)

lemma performs_move: "table e now t b s b1 \<Longrightarrow> performs p cb e now t b (transitionTo p cb e s now b1)"
  by (auto simp: performs_def)

lemma performs_home:
  "state (ctx b) \<notin> {Home, Open, External} \<Longrightarrow> sameWorld b b1 \<Longrightarrow> credStore b1 = credStore b \<Longrightarrow> ctx b1 = ctx b \<Longrightarrow>
     performs p cb e now t b (transitionTo p cb e Home now b1)"
  by (rule performs_move, rule go_home)

lemma handleCancel_performs:
  assumes "state (ctx b) \<in> {Password, BadPass, Presence, Scan}" and "sameWorld b b1" and "credStore b1 = credStore b"
    and "ctx b1 = ctx b"
  shows "performs p cb e now (Event ev) b (handleCancel p cb e ev now b1)"
proof (cases "eventType ev = KeyboardCancel")
  case True
  show ?thesis unfolding handleCancel_def Let_def if_P [OF True]
    using assms by (intro performs_home) auto
next
  case False
  then show ?thesis using assms by (simp add: handleCancel_def performs_stay)
qed

lemma handleWebEvent_performs: "performs p cb e now (Event ev) b (handleWebEvent p cb e ev now b)"
  unfolding handleWebEvent_def by (auto intro!: performs_stay performs_move web_open)

lemma handleTimerEvent_performs: "performs p cb e now (Event ev) b (handleTimerEvent p cb e ev now b)"
  unfolding handleTimerEvent_def Let_def
  by (auto intro!: performs_stay performs_move go_home split: BoxEventType.split)

lemma handleSensorEvent_performs: "performs p cb e now (Event ev) b (handleSensorEvent p cb e ev now b)"
  unfolding handleSensorEvent_def Let_def
  by (auto intro!: performs_stay performs_move door_opened door_closed split: BoxState.split)

lemma handleScannerEvent_performs:
  assumes "eventType ev \<in> {ScannerCodeReceived, ScannerFailed, ScannerInvalidCode}"
  shows "performs p cb e now (Event ev) b (handleScannerEvent p cb e ev now b)"
  using assms unfolding handleScannerEvent_def Let_def
  by (auto intro!: performs_stay go_home performs_move code_good code_bad split: prod.split)

lemma handleKeyboardEvent_performs: "performs p cb e now (Event ev) b (handleKeyboardEvent p cb e ev now b)"
proof (cases "state (ctx b)")
  case Home
  have k1: "table e now (Event ev) b Password b1" if "eventType ev = KeyboardKey1" "\<not> penaltyRunning (ctx b) now"
    "sameWorld b b1" "credStore b1 = credStore b" "ctx b1 = ctx b" for b1
    using choose [of b ev b1 now e] that Home by simp
  have k3: "table e now (Event ev) b Scan b1" if "eventType ev = KeyboardKey3" "\<not> penaltyRunning (ctx b) now"
    "sameWorld b b1" "credStore b1 = credStore b" "ctx b1 = ctx b" for b1
    using choose [of b ev b1 now e] that Home by simp
  show ?thesis unfolding handleKeyboardEvent_def Let_def using Home
    by (auto intro!: performs_stay performs_move k1 k3 penalised presence)
next
  case Password
  show ?thesis unfolding handleKeyboardEvent_def Let_def using Password
    by (auto intro!: performs_move pin_good pin_bad handleCancel_performs split: prod.split)
next
  case Presence
  then show ?thesis unfolding handleKeyboardEvent_def Let_def by (simp add: handleCancel_performs)
next
  case BadPass
  then show ?thesis unfolding handleKeyboardEvent_def Let_def by (simp add: handleCancel_performs)
next
  case Scan
  then show ?thesis unfolding handleKeyboardEvent_def Let_def by (simp add: handleCancel_performs)
qed (simp_all add: handleKeyboardEvent_def performs_stay)

lemma processEvent_performs: "performs p cb e (eventMillis e) (Event ev) b (processEvent p cb e ev b)"
  unfolding processEvent_def Let_def
  by (auto intro!: handleKeyboardEvent_performs handleWebEvent_performs handleSensorEvent_performs
      handleTimerEvent_performs handleScannerEvent_performs performs_stay split: BoxEventType.split)

lemma updateState_performs: "performs p cb e now TimePassed b (updateState p cb e now b)"
proof (cases "state (ctx b)")
  case BadPass
  have "table e now TimePassed b (if retryScanAfterBadCode (ctx b) then Scan else Password) b"
    if "timeoutElapsed (badPasswordStartedAt (ctx b)) (currentBadPasswordMillis (ctx b)) now"
    using BadPass that by (intro penalty_over) simp_all
  then show ?thesis unfolding updateState_def Let_def using BadPass
    by (simp add: performs_stay performs_move)
qed (auto simp: updateState_def Let_def intro!: performs_stay performs_move go_home door_opened)

section \<open>The flags of the periodic update\<close>

lemma refresh_sel [simp]:
  "ctx (snd (refreshPeriodicDisplay now b)) = ctx b" "sameWorld b (snd (refreshPeriodicDisplay now b))"
  "credStore (snd (refreshPeriodicDisplay now b)) = credStore b"
  by (simp_all add: refreshPeriodicDisplay_def Let_def split: BoxState.split)

lemma sameWorld_trans: "sameWorld a b \<Longrightarrow> sameWorld b c \<Longrightarrow> sameWorld a c"
  by (simp add: sameWorld_def)

lemma sameWorld_if: "sameWorld b (if P then x else y) = (if P then sameWorld b x else sameWorld b y)"
  by simp

lemma updateFlags_world [simp]: "sameWorld b (updateFlags now b)" "credStore (updateFlags now b) = credStore b"
  unfolding updateFlags_def Let_def scheduleNextDisplayRefresh_def
  by (auto simp: split_beta intro: sameWorld_trans [OF _ refresh_sel(2)])

text \<open>The fields that decide about transitions, all but those of the display and the presence code.\<close>

definition decisive :: "BoxStateContext \<Rightarrow> BoxState \<times> u8 \<times> bool \<times> bool \<times> bool \<times> u32 \<times> u8 \<times> u32 \<times> u32 \<times> u32 \<times> u32" where
  "decisive c = (state c, doorToOpen c, credVerified c, scannedCredVerified c, retryScanAfterBadCode c, scanStartedAt c,
     badPasswordCount c, doorOpenStartedAt c, badPasswordStartedAt c, currentBadPasswordMillis c, doorOpenDuration c)"

lemma updateFlags_ctx:
  "decisive (ctx (updateFlags now b)) = decisive (ctx b)"
  "badPasswordActive (ctx (updateFlags now b)) = penaltyRunning (ctx b) now"
  unfolding updateFlags_def Let_def scheduleNextDisplayRefresh_def decisive_def penaltyRunning_def
  by (auto simp: split_beta)

lemma updateFlags_timing:
  "passwordEntryStartedAt (ctx (updateFlags now b)) = passwordEntryStartedAt (ctx b)"
  "currentPasswordEntryMillis (ctx (updateFlags now b)) = currentPasswordEntryMillis (ctx b)"
  "presenceCodeStartedAt (ctx (updateFlags now b)) = presenceCodeStartedAt (ctx b)"
  "ambientOffStartedAt (ctx (updateFlags now b)) = ambientOffStartedAt (ctx b)"
  unfolding updateFlags_def Let_def scheduleNextDisplayRefresh_def
  by (auto simp: split_beta)

end
