(* ===== verification/State_Safety.thy ===== *)
theory State_Safety
  imports State_Table
begin

text \<open>
  Safety of the state machine, proved once for every callback that meets the interface: who may
  raise a lock, when the credential store changes, the penalty after a bad attempt, and the
  invariant of all reachable machines.
\<close>

section \<open>What one move does\<close>

text \<open>The trigger that justifies opening \<open>door\<close>.\<close>

definition authorised :: "Env \<Rightarrow> trigger \<Rightarrow> ('n, 'x) Box \<Rightarrow> u8 \<Rightarrow> bool" where
  "authorised e t b door \<longleftrightarrow> door \<noteq> DOOR_UNKNOWN \<and>
     (case t of TimePassed \<Rightarrow> False
      | Event ev \<Rightarrow>
          eventType ev = WebOpenBox \<and> evDoorNum ev = door
        \<or> state (ctx b) = Password \<and> eventType ev = KeyboardEnter \<and>
            fst (verifyCred (credStore b) (Some (keyboardPassword ev)) CredType_Password (verifyTime e)) = door
        \<or> state (ctx b) = Scan \<and> eventType ev = ScannerCodeReceived \<and>
            fst (verifyCred (credStore b) (Some (scannerCred ev)) CredType_PacketNumber (verifyTime e)) = door)"

lemma table_opening:
  "table e now t b s b1 \<Longrightarrow> s = Opening \<Longrightarrow> doorToOpen (ctx b1) \<noteq> DOOR_UNKNOWN \<Longrightarrow> authorised e t b (doorToOpen (ctx b1))"
  by (cases rule: table.cases) (auto simp: authorised_def split: if_splits)

lemma table_world: "table e now t b s b1 \<Longrightarrow> sameWorld b b1"
  by (cases rule: table.cases) auto

lemma table_state: "table e now t b s b1 \<Longrightarrow> state (ctx b1) = state (ctx b)"
  by (cases rule: table.cases) auto

lemma table_verified:
  "table e now t b s b1 \<Longrightarrow> credVerified (ctx b1) \<Longrightarrow> s = Opening \<or> credVerified (ctx b)"
  by (cases rule: table.cases) (auto split: if_splits)

lemma table_store:
  "table e now t b s b1 \<Longrightarrow>
     credStore b1 = credStore b \<or> (\<exists>x ty. credStore b1 = snd (verifyCred (credStore b) (Some x) ty (verifyTime e)))"
  by (cases rule: table.cases) (auto split: if_splits intro: prod.collapse, (metis snd_conv)+)

definition penaltyOf :: "BoxStateContext \<Rightarrow> bool \<times> u32 \<times> u32" where
  "penaltyOf c = (badPasswordActive c, badPasswordStartedAt c, currentBadPasswordMillis c)"

lemma table_penalty:
  "table e now t b s b1 \<Longrightarrow> penaltyRunning (ctx b) now \<Longrightarrow> state (ctx b) \<notin> {Password, Scan} \<Longrightarrow>
     s \<notin> {Password, Scan} \<and> penalty b1 = penalty b"
  by (cases rule: table.cases) (auto simp: penaltyRunning_def penalty_def)

context state_callback
begin

lemma quiet_move:
  assumes "table e now t b s b1" and "ok (others b)" and "s \<noteq> state (ctx b)"
  shows "quiet (moveTo p e s now b1) (transitionTo p cb e s now b1)"
  using assms table_world [OF assms(1)] table_state [OF assms(1)]
  by (intro transition_quiet) (auto simp: sameWorld_def)

lemma same_state_move:
  assumes "table e now t b s b1" and "s = state (ctx b)"
  shows "transitionTo p cb e s now b1 = b1"
  using assms table_state [OF assms(1)] by (simp add: transitionTo_eq)

lemma performs_ok: "performs p cb e now t b b' \<Longrightarrow> ok (others b) \<Longrightarrow> ok (others b')"
  by (auto simp: performs_def no_move.simps sameWorld_def dest!: table_world intro!: transition_ok)

text \<open>A lock is raised only for a door the trigger authorises.\<close>

lemma raise_authorised:
  assumes "performs p cb e now t b b'" and "ok (others b)"
    and "pinLevel (gpio b') pin" and "\<not> pinLevel (gpio b) pin" and "pin \<noteq> ambientPin (gpio b)"
  shows "\<exists>door. pin \<in> doorPins (gpio b) door \<and> authorised e t b door"
proof -
  from assms(1,3,4) obtain s b1 where tb: "table e now t b s b1" and b': "b' = transitionTo p cb e s now b1"
    by (auto simp: performs_def no_move.simps sameWorld_def)
  have w: "gpio b1 = gpio b" using table_world [OF tb] by (simp add: sameWorld_def)
  have ne: "s \<noteq> state (ctx b)" using same_state_move [OF tb] assms(3,4) b' w by auto
  have "pinLevel (gpio (moveTo p e s now b1)) pin"
    using quiet_move [OF tb assms(2) ne] assms(3) by (simp add: quiet_def b')
  from moveTo_pins [OF this] assms(4,5) w
  have "s = Opening \<and> doorToOpen (ctx b1) \<noteq> DOOR_UNKNOWN \<and> pin \<in> doorPins (gpio b) (doorToOpen (ctx b1))" by simp
  then show ?thesis using table_opening [OF tb] by blast
qed

text \<open>The store changes when a verification records its result, or when a verified door opens.\<close>

lemma store_change:
  assumes "performs p cb e now t b b'" and "ok (others b)"
  shows "credStore b' = credStore b
    \<or> (\<exists>x ty. credStore b' = snd (verifyCred (credStore b) (Some x) ty (verifyTime e)))
    \<or> state (ctx b) = Opening \<and> credVerified (ctx b) \<and> state (ctx b') = Open \<and>
        credStore b' = snd (usedCred p (credStore b) (doorToOpen (ctx b)) (usedTime e))"
proof (cases "no_move t b b'")
  case False
  then obtain s b1 where tb: "table e now t b s b1" and b': "b' = transitionTo p cb e s now b1"
    using assms(1) by (auto simp: performs_def)
  show ?thesis
  proof (cases "s = state (ctx b)")
    case True
    then show ?thesis using same_state_move [OF tb True] table_store [OF tb] b' by auto
  next
    case ne: False
    note q = quiet_move [OF tb assms(2) ne, of p]
    have cs: "credStore b' = credStore (moveTo p e s now b1)" using q by (simp add: quiet_def b')
    show ?thesis
    proof (cases "s = Open \<and> credVerified (ctx b1) \<and> \<not> (scannerTestKeepCred b1 \<and> scannedCredVerified (ctx b1))")
      case True
      have b1: "ctx b1 = ctx b" "credStore b1 = credStore b" "state (ctx b) = Opening"
        using tb True by (auto elim: table.cases split: if_splits)
      have "state (ctx b') = Open" using q True by (auto simp: quiet_def backHome_def moveTo_sel b')
      then show ?thesis using cs True b1 by (simp add: moveTo_credStore)
    next
      case False
      then have "credStore b' = credStore b1" using cs by (auto simp: moveTo_credStore)
      then show ?thesis using table_store [OF tb] by auto
    qed
  qed
qed (simp add: no_move.simps)

section \<open>The penalty\<close>

text \<open>While the penalty runs, no move reaches password entry or scanning, and it stays as it is.\<close>

lemma performs_penalty:
  assumes "performs p cb e now t b b'" and "ok (others b)" and "penaltyRunning (ctx b) now"
    and "state (ctx b) \<notin> {Password, Scan}"
  shows "state (ctx b') \<notin> {Password, Scan} \<and> penalty b' = penalty b"
proof (cases "no_move t b b'")
  case True
  then show ?thesis using assms(4) by (simp add: no_move.simps penalty_def)
next
  case False
  then obtain s b1 where tb: "table e now t b s b1" and b': "b' = transitionTo p cb e s now b1"
    using assms(1) by (auto simp: performs_def)
  note tp = table_penalty [OF tb assms(3,4)]
  show ?thesis
  proof (cases "s = state (ctx b)")
    case True
    then show ?thesis using same_state_move [OF tb True] tp table_state [OF tb] assms(4) b' by simp
  next
    case ne: False
    have run: "penaltyRunning (ctx b1) now" using tp assms(3) by (simp add: penaltyRunning_def penalty_def)
    have pm: "penalty (moveTo p e s now b1) = penalty b"
      using tp moveTo_penalty(1) [of s p e now b1] moveTo_penalty(2) [OF run, of p e] by (cases "s = BadPass") auto
    have "ctx b' = ctx (moveTo p e s now b1)"
      using quiet_move [OF tb assms(2) ne, of p] tp by (auto simp: quiet_def backHome_def moveTo_sel b')
    then show ?thesis using pm tp by (simp add: moveTo_sel penalty_def)
  qed
qed

section \<open>The invariant\<close>

lemma performs_inv_move:
  assumes tb: "table e now t b s b1" and "ok (others b)" and ne: "s \<noteq> state (ctx b)"
    and cv: "credVerified (ctx b) \<Longrightarrow> state (ctx b) = Opening"
    and b': "b' = transitionTo p cb e s now b1"
  shows "credVerified (ctx b') \<longrightarrow> state (ctx b') = Opening"
    and "state (ctx b') = s \<or> s = Scan \<and> state (ctx b') = Home"
    and "state (ctx b') \<in> {Password, Scan} \<longrightarrow> \<not> badPasswordActive (ctx b')"
    and "lastUIAction b' = (if state (ctx b') = Home then UI_ENABLE_DOOR_CONTROLS
           else if s \<in> {Password, Scan, Opening} then UI_DISABLE_DOOR_CONTROLS else lastUIAction b)"
proof -
  let ?m = "moveTo p e s now b1"
  note q = quiet_move [OF tb assms(2) ne, of p]
  have ui: "lastUIAction b1 = lastUIAction b" using table_world [OF tb] by (simp add: sameWorld_def)
  have cv1: "credVerified (ctx b1) \<Longrightarrow> s = Opening \<or> s \<in> {Home, Open}"
    using table_verified [OF tb] cv tb by (auto elim: table.cases split: if_splits)
  have "ctx b' = ctx ?m \<and> lastUIAction b' = lastUIAction ?m \<or> backHome ?m b'"
    using q by (auto simp: quiet_def b')
  then consider (keep) "ctx b' = ctx ?m" "lastUIAction b' = lastUIAction ?m" | (returned) "backHome ?m b'"
    by blast
  then have "(credVerified (ctx b') \<longrightarrow> state (ctx b') = Opening) \<and> (state (ctx b') = s \<or> s = Scan \<and> state (ctx b') = Home)
    \<and> (state (ctx b') \<in> {Password, Scan} \<longrightarrow> \<not> badPasswordActive (ctx b'))
    \<and> lastUIAction b' = (if state (ctx b') = Home then UI_ENABLE_DOOR_CONTROLS
           else if s \<in> {Password, Scan, Opening} then UI_DISABLE_DOOR_CONTROLS else lastUIAction b)"
  proof cases
    case keep
    then show ?thesis using cv1 moveTo_penalty(4) [of s p e now b1]
      by (auto simp: moveTo_sel moveTo_credVerified moveTo_ui ui)
  next
    case returned
    then show ?thesis by (auto simp: backHome_def moveTo_sel)
  qed
  then show "credVerified (ctx b') \<longrightarrow> state (ctx b') = Opening"
    and "state (ctx b') = s \<or> s = Scan \<and> state (ctx b') = Home"
    and "state (ctx b') \<in> {Password, Scan} \<longrightarrow> \<not> badPasswordActive (ctx b')"
    and "lastUIAction b' = (if state (ctx b') = Home then UI_ENABLE_DOOR_CONTROLS
           else if s \<in> {Password, Scan, Opening} then UI_DISABLE_DOOR_CONTROLS else lastUIAction b)" by blast+
qed

end

section \<open>Runs\<close>

text \<open>
  One step of the firmware as the machine sees it at real time \<open>T\<close> (in milliseconds; the clock shows it
  modulo \<open>2^32\<close>): an event, a periodic update, or anything else, which leaves the machine's own data
  alone.  This is wider than the firmware on purpose: what holds over these runs holds whatever the code
  around the machine does to hardware, timers and store.
\<close>

inductive box_step ::
  "'n Preferences \<Rightarrow> ('n, 'x) callback option \<Rightarrow> ('x \<Rightarrow> bool) \<Rightarrow> nat \<Rightarrow> ('n, 'x) Box \<Rightarrow> ('n, 'x) Box \<Rightarrow> bool"
  for p cb ok where
  event: "eventMillis e = of_nat T \<Longrightarrow> box_step p cb ok T b (processEvent p cb e ev b)"
| tick: "box_step p cb ok T b (updateMachine p cb e (of_nat T) b)"
| outside: "ctx b' = ctx b \<Longrightarrow> lastUIAction b' = lastUIAction b \<Longrightarrow> (ok (others b) \<Longrightarrow> ok (others b')) \<Longrightarrow> box_step p cb ok T b b'"

text \<open>Runs within a window of real time.\<close>

inductive box_run ::
  "'n Preferences \<Rightarrow> ('n, 'x) callback option \<Rightarrow> ('x \<Rightarrow> bool) \<Rightarrow> nat set \<Rightarrow> ('n, 'x) Box \<Rightarrow> ('n, 'x) Box \<Rightarrow> bool"
  for p cb ok W where
  run_refl: "box_run p cb ok W b b"
| run_step: "box_run p cb ok W b b1 \<Longrightarrow> T \<in> W \<Longrightarrow> box_step p cb ok T b1 b2 \<Longrightarrow> box_run p cb ok W b b2"

definition machine_inv :: "('n, 'x) Box \<Rightarrow> bool" where
  "machine_inv b \<longleftrightarrow>
     (credVerified (ctx b) \<longrightarrow> state (ctx b) = Opening) \<and>
     (state (ctx b) \<in> {Password, Scan} \<longrightarrow> \<not> badPasswordActive (ctx b)) \<and>
     (state (ctx b) \<in> {Home, Presence} \<longrightarrow> lastUIAction b = UI_ENABLE_DOOR_CONTROLS) \<and>
     (state (ctx b) \<in> {Password, Scan, Opening, Open, Closed} \<longrightarrow> lastUIAction b = UI_DISABLE_DOOR_CONTROLS) \<and>
     state (ctx b) \<noteq> External"

lemma machine_inv_initialize: "machine_inv (initialize t b)"
  by (simp add: machine_inv_def initialize_def zeroContext_def box_defs)

lemma machine_inv_ctx:
  "machine_inv b \<Longrightarrow> decisive (ctx b') = decisive (ctx b) \<Longrightarrow> lastUIAction b' = lastUIAction b \<Longrightarrow>
     (badPasswordActive (ctx b') \<longrightarrow> badPasswordActive (ctx b)) \<Longrightarrow> machine_inv b'"
  by (auto simp: machine_inv_def decisive_def)

lemma table_source:
  "table e now t b s b1 \<Longrightarrow>
     (s = Presence \<longrightarrow> state (ctx b) = Home) \<and> (s = Open \<longrightarrow> state (ctx b) = Opening) \<and>
     (s = Closed \<longrightarrow> state (ctx b) = Open) \<and> s \<noteq> External"
  by (cases rule: table.cases) (auto split: if_splits)

lemma table_same_state:
  "table e now t b s b1 \<Longrightarrow> s = state (ctx b) \<Longrightarrow> s = Opening \<and> \<not> credVerified (ctx b1)"
  by (cases rule: table.cases) (auto split: if_splits)

context state_callback
begin

lemma performs_inv:
  assumes "performs p cb e now t b b'" and "ok (others b)" and "machine_inv b"
  shows "machine_inv b'"
proof (cases "no_move t b b'")
  case True
  then show ?thesis using assms(3) by (simp add: no_move.simps machine_inv_def sameWorld_def)
next
  case False
  then obtain s b1 where tb: "table e now t b s b1" and b': "b' = transitionTo p cb e s now b1"
    using assms(1) by (auto simp: performs_def)
  show ?thesis
  proof (cases "s = state (ctx b)")
    case True
    then show ?thesis
      using same_state_move [OF tb True] table_same_state [OF tb True] table_state [OF tb] table_world [OF tb] b' assms(3)
      by (simp add: machine_inv_def sameWorld_def)
  next
    case ne: False
    have cv: "credVerified (ctx b) \<Longrightarrow> state (ctx b) = Opening" using assms(3) by (simp add: machine_inv_def)
    note m = performs_inv_move [OF tb assms(2) ne cv b']
    note src = table_source [OF tb]
    show ?thesis using m src assms(3) unfolding machine_inv_def
      by (cases s) (auto split: if_splits)
  qed
qed

lemma updateMachine_performs:
  "performs p cb e now TimePassed (updateFlags now b) (updateMachine p cb e now b)"
  by (simp add: updateMachine_def updateState_performs)

lemma updateFlags_ok: "ok (others b) \<Longrightarrow> ok (others (updateFlags now b))"
  using updateFlags_world(1) [of b now] by (simp add: sameWorld_def)

lemma step_ok: "box_step p cb ok T b b' \<Longrightarrow> ok (others b) \<Longrightarrow> ok (others b')"
  by (cases rule: box_step.cases)
    (auto intro: performs_ok [OF processEvent_performs] performs_ok [OF updateMachine_performs] updateFlags_ok)

lemma step_inv:
  assumes "box_step p cb ok T b b'" and "ok (others b)" and "machine_inv b"
  shows "machine_inv b'"
  using assms(1)
proof cases
  case (event e ev)
  then show ?thesis using performs_inv [OF processEvent_performs assms(2,3)] by simp
next
  case (tick e)
  have "machine_inv (updateFlags (of_nat T) b)"
    by (rule machine_inv_ctx [OF assms(3)])
      (use updateFlags_world(1) [of b "of_nat T"] in \<open>auto simp: updateFlags_ctx penaltyRunning_def sameWorld_def\<close>)
  then show ?thesis using performs_inv [OF updateMachine_performs updateFlags_ok [OF assms(2)]] tick by simp
next
  case outside
  then show ?thesis using assms(3) by (simp add: machine_inv_def)
qed

lemma run_inv:
  "box_run p cb ok W b b' \<Longrightarrow> ok (others b) \<Longrightarrow> machine_inv b \<Longrightarrow> ok (others b') \<and> machine_inv b'"
  by (induction rule: box_run.induct) (auto intro: step_inv step_ok)

text \<open>The penalty over a run: every step of its window keeps it, and keeps password entry and scanning shut.\<close>

lemma step_penalty:
  assumes "box_step p cb ok T b b'" and "ok (others b)" and "penaltyRunning (ctx b) (of_nat T)"
    and "state (ctx b) \<notin> {Password, Scan}"
  shows "state (ctx b') \<notin> {Password, Scan} \<and> penalty b' = penalty b"
  using assms(1)
proof cases
  case (event e ev)
  then show ?thesis
    using performs_penalty [OF processEvent_performs assms(2) _ assms(4), of e] assms(3) by simp
next
  case (tick e)
  let ?f = "updateFlags (of_nat T) b"
  have f: "penalty ?f = penalty b" "state (ctx ?f) = state (ctx b)" "penaltyRunning (ctx ?f) (of_nat T)"
    using updateFlags_ctx [of "of_nat T" b] assms(3) by (auto simp: penalty_def decisive_def penaltyRunning_def)
  then show ?thesis
    using performs_penalty [OF updateMachine_performs updateFlags_ok [OF assms(2)] f(3)] assms(4) tick by simp
next
  case outside
  then show ?thesis using assms(4) by (simp add: penalty_def)
qed

lemma run_penalty:
  assumes "box_run p cb ok {T0..<T0 + unat d} b b'" and "ok (others b)"
    and "penalty b = (True, of_nat T0, d)" and "state (ctx b) \<notin> {Password, Scan}"
  shows "ok (others b') \<and> state (ctx b') \<notin> {Password, Scan} \<and> penalty b' = (True, of_nat T0, d)"
  using assms
proof (induction rule: box_run.induct)
  case (run_step b b1 T b2)
  then have IH: "ok (others b1)" "state (ctx b1) \<notin> {Password, Scan}" "penalty b1 = (True, of_nat T0, d)" by auto
  have "T - T0 < 2 ^ 32" using run_step.hyps(2) unat_u32_less [of d] by auto
  then have "penaltyRunning (ctx b1) (of_nat T)"
    using IH(3) run_step.hyps(2) timeoutElapsed_exact [of T0 T d] by (auto simp: penalty_def penaltyRunning_def)
  from step_penalty [OF run_step.hyps(3) IH(1) this IH(2)] show ?case
    using IH step_ok [OF run_step.hyps(3)] by simp
qed simp

text \<open>A rejected attempt starts the penalty.\<close>

lemma rejected_starts_penalty:
  assumes tb: "table e now t b BadPass b1" and "state (ctx b) \<in> {Password, Scan}" and "\<not> badPasswordActive (ctx b)"
    and "ok (others b)"
  shows "state (ctx (transitionTo p cb e BadPass now b1)) = BadPass"
    and "penalty (transitionTo p cb e BadPass now b1) = (True, now, penaltyMillis (bumpBad (badPasswordCount (ctx b))))"
proof -
  let ?b' = "transitionTo p cb e BadPass now b1"
  have b1: "badPasswordCount (ctx b1) = bumpBad (badPasswordCount (ctx b))" "\<not> penaltyRunning (ctx b1) now"
    using tb assms(2,3) by (auto elim!: table.cases simp: penaltyRunning_def split: if_splits)
  have "BadPass \<noteq> state (ctx b)" using assms(2) by auto
  from quiet_move [OF tb assms(4) this, of p] have eq: "ctx ?b' = ctx (moveTo p e BadPass now b1)"
    by (auto simp: quiet_def backHome_def moveTo_sel)
  show "state (ctx ?b') = BadPass" by (simp add: eq moveTo_sel)
  show "penalty ?b' = (True, now, penaltyMillis (bumpBad (badPasswordCount (ctx b))))"
    using moveTo_penalty(3) [OF b1(2), of p e] b1(1) by (simp add: penalty_def eq)
qed

end

end
