(* ===== verification/Firmware.thy ===== *)
theory Firmware
  imports Keyboard Qr_Scanner State_Safety
begin

text \<open>
  The firmware around the state machine: the scanner's adapter (\<open>src/src/box_scanner.cpp\<close>), the keypad's
  events (\<open>handleKeyboard\<close> of \<open>src/src/keyboard.cpp\<close>), and from \<open>src/src/main.cpp\<close> the state-change callback,
  the timer actions, the web request to open a door and the part of \<open>loop\<close> that drives them.
\<close>

section \<open>Data\<close>

definition QR_SCANNER_SWITCH_PIN :: u8 where "QR_SCANNER_SWITCH_PIN = 255"
definition QR_SCANNER_SWITCH_ACTIVE_HIGH :: bool where "QR_SCANNER_SWITCH_ACTIVE_HIGH = True"
definition QR_SCANNER_RESPONSE_WINDOW_MS :: u32 where "QR_SCANNER_RESPONSE_WINDOW_MS = 300"
definition QR_SCANNER_COMMAND_RESPONSE_WINDOW_MS :: u32 where "QR_SCANNER_COMMAND_RESPONSE_WINDOW_MS = 500"
definition QR_SCANNER_FRAME_IDLE_MS :: u32 where "QR_SCANNER_FRAME_IDLE_MS = 40"
definition QR_SCANNER_ACTIVATE_COMMAND :: string where "QR_SCANNER_ACTIVATE_COMMAND = ''hex: 7E 00 08 01 00 02 01 AB CD''"
definition QR_SCANNER_DEACTIVATE_COMMAND :: string where "QR_SCANNER_DEACTIVATE_COMMAND = []"

record BoxScanner =
  scanner :: QrScanner
  ready :: bool

text \<open>
  The objects of \<open>main.cpp\<close> beside the state machine: the keypad object's mode, the shared key status, the
  scanner, the queue of requested doors (\<open>None\<close> before \<open>setup\<close> created it) and the door states and
  results sent to the web clients.
\<close>

datatype WebMessage = DoorStateMsg u8 bool | AmbientMsg bool | LastResult string

record Peripherals =
  padMode :: u8
  keyStatus :: keyboardStatus
  boxScanner :: BoxScanner
  webOpenRequests :: "u8 list option"
  webMessages :: "WebMessage list"

type_synonym 'n Firmware = "('n, Peripherals) Box"

definition updOthers :: "('x \<Rightarrow> 'x) \<Rightarrow> ('n, 'x) Box \<Rightarrow> ('n, 'x) Box" where
  "updOthers f b = b\<lparr>others := f (others b)\<rparr>"

definition updKeys :: "(keyboardStatus \<Rightarrow> keyboardStatus) \<Rightarrow> 'n Firmware \<Rightarrow> 'n Firmware" where
  "updKeys f = updOthers (\<lambda>x. x\<lparr>keyStatus := f (keyStatus x)\<rparr>)"

definition sendWeb :: "WebMessage \<Rightarrow> 'n Firmware \<Rightarrow> 'n Firmware" where
  "sendWeb m = updOthers (\<lambda>x. x\<lparr>webMessages := webMessages x @ [m]\<rparr>)"

text \<open>A call of the scanner's driver, with the pins it may write.\<close>

definition withScanner :: "(QrScanner \<times> GpioHAL \<Rightarrow> 'r \<times> QrScanner \<times> GpioHAL) \<Rightarrow> 'n Firmware \<Rightarrow> 'r \<times> 'n Firmware" where
  "withScanner f b =
     (case f (scanner (boxScanner (others b)), gpio b) of (r, q, g) \<Rightarrow>
        (r, b\<lparr>gpio := g, others := (others b)\<lparr>boxScanner := (boxScanner (others b))\<lparr>scanner := q\<rparr>\<rparr>\<rparr>))"

section \<open>The scanner's adapter\<close>

definition isText :: "bytes \<Rightarrow> bool" where
  "isText bs \<longleftrightarrow> bs \<noteq> [] \<and> (\<forall>b \<in> set bs. 33 \<le> unat b \<and> unat b \<le> 126)"

definition scannerConfig :: "bytes \<Rightarrow> bytes \<Rightarrow> QrScannerConfig" where
  "scannerConfig act deact =
     defaultConfig\<lparr>activateCommand := act, deactivateCommand := deact, switchPin := QR_SCANNER_SWITCH_PIN,
       switchActiveHigh := QR_SCANNER_SWITCH_ACTIVE_HIGH, activationResponseWindowMs := QR_SCANNER_RESPONSE_WINDOW_MS,
       commandResponseWindowMs := QR_SCANNER_COMMAND_RESPONSE_WINDOW_MS, frameIdleMs := QR_SCANNER_FRAME_IDLE_MS,
       defaultScanTimeoutMs := QR_SCANNER_SCAN_TIMEOUT_MS,
       activationMode := (let hasSwitch = (QR_SCANNER_SWITCH_PIN \<noteq> QR_SCANNER_PIN_UNUSED) in
         if act \<noteq> [] then (if hasSwitch then CommandAndSwitch else Command)
         else (if hasSwitch then SwitchPin else Manual))\<rparr>"

definition beginBoxScanner :: "Stream \<Rightarrow> 'n Firmware \<Rightarrow> bool \<times> 'n Firmware" where
  "beginBoxScanner serial b =
     (let b0 = updOthers (\<lambda>x. x\<lparr>boxScanner := (boxScanner x)\<lparr>ready := False\<rparr>\<rparr>) b in
      case (parse (Some QR_SCANNER_ACTIVATE_COMMAND) QR_SCANNER_MAX_FRAME_LEN,
            parse (Some QR_SCANNER_DEACTIVATE_COMMAND) QR_SCANNER_MAX_FRAME_LEN) of
        (Some act, Some deact) \<Rightarrow>
          (True, updOthers (\<lambda>x. x\<lparr>boxScanner := (boxScanner x)\<lparr>ready := True\<rparr>\<rparr>)
             (snd (withScanner (\<lambda>s. ((), beginScanner serial (scannerConfig act deact) s)) b0)))
      | _ \<Rightarrow> (False, b0))"

definition eventOf :: "BoxEventType \<Rightarrow> BoxEventData" where
  "eventOf ty = zeroEvent\<lparr>eventType := ty\<rparr>"

text \<open>\<open>while (uart->available() > 0)\<close>: what was left on the line is dropped.\<close>

definition drainUart :: "QrScanner \<Rightarrow> QrScanner" where
  "drainUart q = q\<lparr>uart := map_option (\<lambda>u. u\<lparr>uin := []\<rparr>) (uart q)\<rparr>"

text \<open>\<open>send\<close> stands for \<open>machine.processEvent\<close>, which calls back into this object.\<close>

definition scannerStateChanged ::
  "(BoxEventData \<Rightarrow> 'n Firmware \<Rightarrow> 'n Firmware) \<Rightarrow> u32 \<Rightarrow> BoxState \<Rightarrow> BoxState \<Rightarrow> 'n Firmware \<Rightarrow> 'n Firmware" where
  "scannerStateChanged send millis oldState newState b =
     (let sc = boxScanner (others b);
          b1 = (if oldState = Scan \<and> ready sc \<and> scanActive (scanner sc)
                then snd (withScanner (\<lambda>s. ((), deactivate [] s)) b) else b) in
      if newState \<noteq> Scan then b1
      else if \<not> ready (boxScanner (others b1)) then send (eventOf ScannerFailed) b1
      else case withScanner (\<lambda>(q, g). startScan [] QR_SCANNER_SCAN_TIMEOUT_MS millis (drainUart q, g)) b1 of
        (started, b2) \<Rightarrow> if \<not> started then send (eventOf ScannerFailed) b2 else b2)"

section \<open>The state-change callback\<close>

definition keysStateChanged :: "BoxState \<Rightarrow> 'n Firmware \<Rightarrow> 'n Firmware" where
  "keysStateChanged newState =
     updKeys (\<lambda>ks. if newState = Password
        then clearPassword (ks\<lparr>keyboardMode := KEYBOARD_MODE_PASSWORD, currentPasswordLen := 0, passwordComplete := False,
               cancelPressed := False\<rparr>)
        else ks\<lparr>keyboardMode := KEYBOARD_MODE_COMMAND\<rparr>)"

text \<open>
  The callback and the state machine call each other: a scanner that cannot start sends the machine
  back Home from within the callback.  \<open>depth\<close> bounds the nesting; two levels are enough, since the
  inner call has a target other than Scan (\<open>onStateChanged_depth\<close> below).
\<close>

fun onStateChanged :: "nat \<Rightarrow> 'n Preferences \<Rightarrow> ('n, Peripherals) callback" where
  "onStateChanged 0 p e oldState newState now b = b"
| "onStateChanged (Suc depth) p e oldState newState now b =
     scannerStateChanged
       (processEvent p (Some (onStateChanged depth p)) (e\<lparr>eventMillis := nestedMillis e\<rparr>))
       (scanMillis e) oldState newState (keysStateChanged newState b)"

definition stateCallback :: "'n Preferences \<Rightarrow> ('n, Peripherals) callback option" where
  "stateCallback p = Some (onStateChanged 2 p)"

section \<open>The callback meets the interface\<close>

definition switchUnused :: "Peripherals \<Rightarrow> bool" where
  "switchUnused x \<longleftrightarrow> switchPin (config (scanner (boxScanner x))) = QR_SCANNER_PIN_UNUSED"

lemma updOthers_sel [simp]:
  "ctx (updOthers f b) = ctx b" "gpio (updOthers f b) = gpio b" "timers (updOthers f b) = timers b"
  "credStore (updOthers f b) = credStore b" "lastUIAction (updOthers f b) = lastUIAction b"
  "others (updOthers f b) = f (others b)" "scannerTestKeepCred (updOthers f b) = scannerTestKeepCred b"
  by (simp_all add: updOthers_def)

lemma writeCommand_config [simp]: "config (writeCommand bs q) = config q" "scanActive (writeCommand bs q) = scanActive q"
  by (simp_all add: writeCommand_def split: option.split)

lemma deactivate_switch:
  assumes "switchPin (config q) = QR_SCANNER_PIN_UNUSED"
  shows "snd (deactivateHardware bs (q, g)) = g" "config (fst (deactivateHardware bs (q, g))) = config q"
  using assms by (simp_all add: deactivateHardware_def setSwitchActive_def Let_def)

lemma startScan_switch:
  assumes "switchPin (config q) = QR_SCANNER_PIN_UNUSED"
  shows "snd (snd (startScan bs t m (q, g))) = g"
    and "switchPin (config (fst (snd (startScan bs t m (q, g))))) = QR_SCANNER_PIN_UNUSED"
  using assms deactivate_switch [OF assms, of "[]" g]
  by (auto simp: startScan_def activateHardware_def setSwitchActive_def deactivateAfterTerminalEvent_def resetReceiver_def
      Let_def split_beta)

text \<open>What leaves the machine and its hardware alone.\<close>

definition onlyPeripherals :: "'n Firmware \<Rightarrow> 'n Firmware \<Rightarrow> bool" where
  "onlyPeripherals b b' \<longleftrightarrow> ctx b' = ctx b \<and> gpio b' = gpio b \<and> timers b' = timers b \<and> credStore b' = credStore b \<and>
     lastUIAction b' = lastUIAction b \<and> (switchUnused (others b) \<longrightarrow> switchUnused (others b'))"

lemma onlyPeripherals_quiet: "onlyPeripherals b b' \<Longrightarrow> quiet b b'"
  by (simp add: onlyPeripherals_def quiet_def)

lemma onlyPeripherals_refl: "onlyPeripherals b b"
  by (simp add: onlyPeripherals_def)

lemma onlyPeripherals_trans: "onlyPeripherals a b \<Longrightarrow> onlyPeripherals b c \<Longrightarrow> onlyPeripherals a c"
  by (simp add: onlyPeripherals_def)

lemma keysStateChanged_only: "onlyPeripherals b (keysStateChanged s b)"
  by (simp add: onlyPeripherals_def keysStateChanged_def updKeys_def switchUnused_def)

lemma withScanner_only:
  assumes "switchUnused (others b)"
    and "\<And>q g. switchPin (config q) = QR_SCANNER_PIN_UNUSED \<Longrightarrow>
           snd (snd (f (q, g))) = g \<and> switchPin (config (fst (snd (f (q, g))))) = QR_SCANNER_PIN_UNUSED"
  shows "onlyPeripherals b (snd (withScanner f b))"
  using assms by (auto simp: onlyPeripherals_def withScanner_def switchUnused_def split_beta)

lemma scanner_deactivate_only:
  "switchUnused (others b) \<Longrightarrow> onlyPeripherals b (snd (withScanner (\<lambda>s. ((), deactivate [] s)) b))"
  by (rule withScanner_only) (simp_all add: deactivate_def split_beta deactivate_switch)

lemma scanner_start_only:
  "switchUnused (others b) \<Longrightarrow>
     onlyPeripherals b (snd (withScanner (\<lambda>(q, g). startScan [] t m (drainUart q, g)) b))"
  by (rule withScanner_only) (simp_all add: startScan_switch drainUart_def)

text \<open>The callback on a target other than Scan touches peripherals only, at any depth.\<close>

lemma scannerStateChanged_not_Scan:
  assumes "switchUnused (others b)" and "newState \<noteq> Scan"
  shows "onlyPeripherals b (scannerStateChanged send m oldState newState b)"
  using assms scanner_deactivate_only [of b] by (simp add: scannerStateChanged_def Let_def onlyPeripherals_def)

lemma onStateChanged_not_Scan:
  assumes "switchUnused (others b)" and "newState \<noteq> Scan"
  shows "onlyPeripherals b (onStateChanged n p e oldState newState now b)"
proof (cases n)
  case 0
  then show ?thesis by (simp add: onlyPeripherals_def)
next
  case (Suc d)
  have "switchUnused (others (keysStateChanged newState b))"
    using keysStateChanged_only [of b newState] assms(1) by (simp add: onlyPeripherals_def)
  then show ?thesis
    using Suc keysStateChanged_only scannerStateChanged_not_Scan [OF _ assms(2)] onlyPeripherals_trans by fastforce
qed

text \<open>The nested event: from Scan the machine goes back Home, elsewhere it is ignored.\<close>

lemma moveTo_Home_quiet:
  assumes "state (ctx b) = Scan"
  shows "quiet b (moveTo p e Home now (emit x b))"
proof -
  let ?b' = "moveTo p e Home now (emit x b)"
  have "backHome b ?b'"
    using assms unfolding backHome_def
    by (auto simp: moveTo_def onExit_def onEnter_def box_defs intro!: exI [of _ now] BoxStateContext.equality)
  moreover have "credStore ?b' = credStore b" by (simp add: moveTo_credStore)
  moreover have "timers ?b' = timers b" using assms by (simp add: moveTo_def onExit_def onEnter_def box_defs)
  moreover have "sameDoors (gpio b) (gpio ?b')" using moveTo_doors [of "emit x b" p e Home now] by simp
  moreover have "gpio ?b' = snd (ambientOff (gpio b))" using assms by (simp add: moveTo_def onExit_def onEnter_def box_defs)
  ultimately show ?thesis by (auto simp: quiet_def dest: ambientOff_lowers)
qed

lemma quiet_only_trans: "quiet a b \<Longrightarrow> onlyPeripherals b c \<Longrightarrow> quiet a c"
  by (auto simp: quiet_def onlyPeripherals_def backHome_def)

lemma only_quiet_trans: "onlyPeripherals a b \<Longrightarrow> quiet b c \<Longrightarrow> quiet a c"
  by (auto simp: quiet_def onlyPeripherals_def backHome_def)

lemma scannerFailed_quiet:
  assumes "switchUnused (others b)"
  shows "quiet b (processEvent p (Some (onStateChanged n p)) e (eventOf ScannerFailed) b)
    \<and> switchUnused (others (processEvent p (Some (onStateChanged n p)) e (eventOf ScannerFailed) b))"
proof (cases "state (ctx b) = Scan")
  case True
  let ?now = "eventMillis e" and ?m = "moveTo p e Home (eventMillis e) (emit (LogPrint ''A_SCAN_FAILED'') b)"
  have r: "processEvent p (Some (onStateChanged n p)) e (eventOf ScannerFailed) b = onStateChanged n p e Scan Home ?now ?m"
    using True by (simp add: processEvent_def handleScannerEvent_def eventOf_def Let_def transitionTo_eq runCallback_def)
  have "switchUnused (others ?m)" using assms by (simp add: moveTo_sel)
  from onStateChanged_not_Scan [OF this, of Home n p e Scan ?now] have o: "onlyPeripherals ?m (onStateChanged n p e Scan Home ?now ?m)" by simp
  show ?thesis unfolding r
    using quiet_only_trans [OF moveTo_Home_quiet [OF True] o] o assms by (simp add: onlyPeripherals_def moveTo_sel)
next
  case False
  then show ?thesis using assms by (simp add: processEvent_def handleScannerEvent_def eventOf_def Let_def)
qed

lemma onStateChanged_quiet:
  assumes "switchUnused (others b)"
  shows "quiet b (onStateChanged n p e oldState newState now b) \<and> switchUnused (others (onStateChanged n p e oldState newState now b))"
proof (cases "n = 0 \<or> newState \<noteq> Scan")
  case True
  then show ?thesis using assms onStateChanged_not_Scan [OF assms, of newState n p e oldState now]
    by (cases n) (auto simp: onlyPeripherals_quiet onlyPeripherals_def)
next
  case False
  then obtain d where d: "n = Suc d" "newState = Scan" by (cases n) auto
  let ?send = "processEvent p (Some (onStateChanged d p)) (e\<lparr>eventMillis := nestedMillis e\<rparr>)"
  define b1 where "b1 = keysStateChanged Scan b"
  define b2 where "b2 = (if oldState = Scan \<and> ready (boxScanner (others b1)) \<and> scanActive (scanner (boxScanner (others b1)))
      then snd (withScanner (\<lambda>s. ((), deactivate [] s)) b1) else b1)"
  define r where "r = withScanner (\<lambda>(q, g). startScan [] QR_SCANNER_SCAN_TIMEOUT_MS (scanMillis e) (drainUart q, g)) b2"
  have o1: "onlyPeripherals b b1" unfolding b1_def by (rule keysStateChanged_only)
  then have u1: "switchUnused (others b1)" using assms by (simp add: onlyPeripherals_def)
  have o2: "onlyPeripherals b1 b2" unfolding b2_def using scanner_deactivate_only [OF u1] by (simp add: onlyPeripherals_refl)
  then have u2: "switchUnused (others b2)" using u1 by (simp add: onlyPeripherals_def)
  then have o3: "onlyPeripherals b2 (snd r)" unfolding r_def by (rule scanner_start_only)
  then have u3: "switchUnused (others (snd r))" using u2 by (simp add: onlyPeripherals_def)
  have eq: "onStateChanged n p e oldState newState now b =
      (if \<not> ready (boxScanner (others b2)) then ?send (eventOf ScannerFailed) b2
       else if \<not> fst r then ?send (eventOf ScannerFailed) (snd r) else snd r)"
    unfolding d b1_def b2_def r_def by (simp add: scannerStateChanged_def Let_def split_beta)
  note t = only_quiet_trans [OF onlyPeripherals_trans [OF o1 o2]]
  show ?thesis unfolding eq
    using t [OF conjunct1 [OF scannerFailed_quiet [OF u2]]] t [OF only_quiet_trans [OF o3 conjunct1 [OF scannerFailed_quiet [OF u3]]]]
      t [OF onlyPeripherals_quiet [OF o3]] scannerFailed_quiet [OF u2] scannerFailed_quiet [OF u3] u3 by simp
qed

interpretation box: state_callback "stateCallback p" switchUnused for p :: "'n Preferences"
  by unfold_locales (simp_all add: stateCallback_def runCallback_def onStateChanged_quiet)

text \<open>A machine without a callback, as constructed, meets the interface too.\<close>

interpretation bare: state_callback None "\<lambda>_. True"
  by unfold_locales (simp_all add: runCallback_def)

text \<open>Deeper nesting than two changes nothing.\<close>

lemma onStateChanged_inner: "newState \<noteq> Scan \<Longrightarrow> onStateChanged (Suc m) p e oldState newState now b = onStateChanged (Suc n) p e oldState newState now b"
  by (simp add: scannerStateChanged_def Let_def)

lemma scannerFailed_depth:
  "processEvent p (Some (onStateChanged (Suc m) p)) e (eventOf ScannerFailed) b =
   processEvent p (Some (onStateChanged (Suc n) p)) e (eventOf ScannerFailed) b"
  by (simp add: processEvent_def handleScannerEvent_def eventOf_def Let_def transitionTo_eq runCallback_def
      onStateChanged_inner [of Home m p e _ _ _ n] del: onStateChanged.simps)

lemma onStateChanged_depth: "onStateChanged (Suc (Suc n)) p e oldState newState now b = onStateChanged 2 p e oldState newState now b"
proof -
  have "processEvent p (Some (onStateChanged (Suc n) p)) e' (eventOf ScannerFailed) b' =
      processEvent p (Some (onStateChanged (Suc 0) p)) e' (eventOf ScannerFailed) b'" for e' b'
    by (rule scannerFailed_depth)
  then have "scannerStateChanged (processEvent p (Some (onStateChanged (Suc n) p)) e') t old new b' =
      scannerStateChanged (processEvent p (Some (onStateChanged (Suc 0) p)) e') t old new b'" for e' t old new b'
    unfolding scannerStateChanged_def Let_def by (simp add: split_beta del: onStateChanged.simps)
  then show ?thesis by (simp only: onStateChanged.simps(2) numeral_2_eq_2)
qed

end
