(* ===== verification/Main_Loop.thy ===== *)
theory Main_Loop
  imports Firmware
begin

text \<open>
  The control part of \<open>loop\<close> in \<open>src/src/main.cpp\<close>, with everything it calls up to the libraries: queued web
  requests, contacts, timers, keypad, state machine, scanner and the ambient notification.  Logging,
  the web socket's own upkeep, the VPN and the Wi-Fi watchdog do not touch this state and are left
  out.  Each pass is a run of the state machine, so the machine's safety carries over.
\<close>

section \<open>Keypad events\<close>

definition keyEvent :: "'n Preferences \<Rightarrow> Env \<Rightarrow> BoxEventData \<Rightarrow> 'n Firmware \<Rightarrow> 'n Firmware" where
  "keyEvent p e ev b = processEvent p (stateCallback p) e ev b"

text \<open>\<open>strncpy(event.password, currentPassword, 32)\<close> and the terminator, read as a C string.\<close>

definition enterEvent :: "keyboardStatus \<Rightarrow> BoxEventData" where
  "enterEvent ks = (eventOf KeyboardEnter)\<lparr>keyboardPassword := take 32 (cstr (currentPassword ks))\<rparr>"

definition pollKeys :: "bytes \<Rightarrow> 'n Firmware \<Rightarrow> bool \<times> 'n Firmware" where
  "pollKeys wire b =
     (case pollKeyboard wire (padMode (others b), keyStatus (others b), []) of (r, mode, ks, out) \<Rightarrow>
        (r, b\<lparr>outs := outs b @ out, others := (others b)\<lparr>padMode := mode, keyStatus := ks\<rparr>\<rparr>))"

definition handleKeyboard :: "'n Preferences \<Rightarrow> Env \<Rightarrow> bytes \<Rightarrow> 'n Firmware \<Rightarrow> 'n Firmware" where
  "handleKeyboard p e wire b =
     (let st = state (ctx b);
          b0 = updKeys (\<lambda>ks. ks\<lparr>keyboardMode := (if st = Password then KEYBOARD_MODE_PASSWORD else KEYBOARD_MODE_COMMAND)\<rparr>) b in
      case pollKeys wire b0 of (polled, b1) \<Rightarrow>
        let ks = keyStatus (others b1); blank = updKeys (\<lambda>k. k\<lparr>currentKey := 32\<rparr>) in
        if \<not> polled then b1
        else if st = Home \<and> keyboardMode ks = KEYBOARD_MODE_COMMAND \<and> currentKey ks = KEYBOARD_KEY_1
        then blank (keyEvent p e (eventOf KeyboardKey1) b1)
        else if st = Home \<and> keyboardMode ks = KEYBOARD_MODE_COMMAND \<and> currentKey ks = KEYBOARD_KEY_2
        then blank (keyEvent p e (eventOf KeyboardKey2) b1)
        else if st = Home \<and> keyboardMode ks = KEYBOARD_MODE_COMMAND \<and> currentKey ks = KEYBOARD_KEY_3
        then blank (keyEvent p e (eventOf KeyboardKey3) b1)
        else if st = Password \<and> passwordComplete ks
        then updKeys (\<lambda>k. clearPassword (k\<lparr>passwordComplete := False, currentPasswordLen := 0, cancelPressed := False\<rparr>))
               (keyEvent p e (enterEvent ks) b1)
        else if st = Password \<and> cancelPressed ks
        then updKeys (\<lambda>k. k\<lparr>cancelPressed := False\<rparr>) (keyEvent p e (eventOf KeyboardCancel) b1)
        else if st \<in> {BadPass, Presence, Scan} \<and> (currentKey ks = KEYBOARD_KEY_CANCEL \<or> cancelPressed ks)
        then updKeys (\<lambda>k. k\<lparr>currentKey := 32, cancelPressed := False\<rparr>) (keyEvent p e (eventOf KeyboardCancel) b1)
        else b1)"

section \<open>Scanner events\<close>

definition codeEvent :: "bytes \<Rightarrow> BoxEventData" where
  "codeEvent bs = (eventOf ScannerCodeReceived)\<lparr>scannerCred := map (\<lambda>b. char_of (unat b)) bs\<rparr>"

definition updateBoxScanner :: "'n Preferences \<Rightarrow> Env \<Rightarrow> u32 \<Rightarrow> 'n Firmware \<Rightarrow> 'n Firmware" where
  "updateBoxScanner p e now b =
     (let send = processEvent p (stateCallback p) e in
      if \<not> ready (boxScanner (others b)) then b
      else if state (ctx b) = Scan \<and> timeoutElapsed (scanStartedAt (ctx b)) QR_SCANNER_SCAN_TIMEOUT_MS now
      then send (eventOf ScanTimeout) b
      else case withScanner (updateScanner now) b of ((ty, bs), b1) \<Rightarrow>
        if state (ctx b1) \<noteq> Scan then b1
        else if ty = ScanTimedOut then send (eventOf ScanTimeout) b1
        else if ty = RxOverflow then send (eventOf ScannerInvalidCode) (emit (LogPrint ''A_SCANNER_BUFFER_OVERFLOW'') b1)
        else if ty = CodeReceived \<or> (ty = ActivationResponse \<and> PACKET_NUMBER_MIN \<le> length bs \<and> isText bs) then
          (if length bs < PACKET_NUMBER_MIN \<or> PACKET_SCAN_MAX < length bs \<or> \<not> isText bs
           then send (eventOf ScannerInvalidCode) b1
           else send (codeEvent bs) b1)
        else b1)"

section \<open>Timer actions\<close>

fun atoi_digits :: "int \<Rightarrow> string \<Rightarrow> int" where
  "atoi_digits acc [] = acc"
| "atoi_digits acc (c # cs) =
     (if ord_of CHR ''0'' \<le> ord_of c \<and> ord_of c \<le> ord_of CHR ''9''
      then atoi_digits (acc * 10 + int (ord_of c - ord_of CHR ''0'')) cs else acc)"

definition isspace :: "char \<Rightarrow> bool" where
  "isspace c \<longleftrightarrow> c = CHR '' '' \<or> (9 \<le> ord_of c \<and> ord_of c \<le> 13)"

definition atoi :: "string \<Rightarrow> int" where
  "atoi s =
     (case dropWhile isspace (cstr s) of [] \<Rightarrow> 0
      | c # cs \<Rightarrow> if c = CHR ''-'' then - atoi_digits 0 cs else if c = CHR ''+'' then atoi_digits 0 cs else atoi_digits 0 (c # cs))"

definition sendDoorState :: "u8 \<Rightarrow> u8 \<Rightarrow> 'n Firmware \<Rightarrow> 'n Firmware" where
  "sendDoorState door st b =
     (if st \<noteq> DOOR_OPEN \<and> st \<noteq> DOOR_CLOSED \<and> st \<noteq> DOOR_MIXED then b else sendWeb (DoorStateMsg door (st \<noteq> DOOR_CLOSED)) b)"

definition logDoorNotice :: "u8 \<Rightarrow> 'n Firmware \<Rightarrow> 'n Firmware" where
  "logDoorNotice isOpen b =
     (let b1 = (if isOpen = DOOR_MIXED then emit (LogPrint ''A_DOOR_MIXED_NOTIFICATION'') b else b) in
      if isOpen = DOOR_UNKNOWN then emit (LogPrint ''A_INVALID_DOOR_NUMBER_IN_NOTIFICATION'') b1 else b1)"

definition handleDueActions :: "'n Preferences \<Rightarrow> Env \<Rightarrow> u8 \<Rightarrow> string \<Rightarrow> 'n Firmware \<Rightarrow> 'n Firmware" where
  "handleDueActions p e act a b =
     (if act = NOTIFY_DOOR_CHANGE then
        let door = word_of_int (atoi a) :: u8;
            isOpen = readDoorState (gpio b) door;
            b1 = sendDoorState door isOpen (logDoorNotice isOpen b)
        in if isOpen = DOOR_OPEN \<or> isOpen = DOOR_CLOSED
           then processEvent p (stateCallback p) e
                  ((eventOf (if isOpen = DOOR_OPEN then DoorOpened else DoorClosed))\<lparr>evDoorNum := door, evDoorState := isOpen\<rparr>) b1
           else b1
      else if act = LOCK_DEACTIVATE then
        let lockNum = word_of_int (atoi a) :: u8 in
        case lockDeactivate lockNum (gpio b) of (result, g) \<Rightarrow>
          emit (LogPrint (if result \<noteq> DOOR_UNKNOWN then ''A_LOCK_DEACTIVATED'' else ''A_INVALID_LOCK_NUMBER_IN_TIMER_CALLBACK''))
            ((emit (LogPrint ''A_LOCK_TIMER_PAYLOAD'') b)\<lparr>gpio := g\<rparr>)
      else if act = AMBIENT_DEACTIVATE then gpioDo ambientOff (emit (LogPrint ''A_DEACTIVATING_AMBIENT_LIGHT'') b)
      else if act = PASSWORD_TIMEOUT then
        processEvent p (stateCallback p) e (eventOf PasswordTimeout) (emit (LogPrint ''A_PASSWORD_TIMEOUT_PASSED'') b)
      else emit (LogPrint ''A_UNKNOWN_DUE_ACTION_CALLED'') b)"

text \<open>The timer table lives in the box; the handler sees and returns it.\<close>

definition runTimers :: "'n Preferences \<Rightarrow> (u8 \<Rightarrow> string \<Rightarrow> Env) \<Rightarrow> u32 \<Rightarrow> 'n Firmware \<Rightarrow> 'n Firmware" where
  "runTimers p env now b =
     (case update_timers
             (Some (\<lambda>(tm, b) act a. let b' = handleDueActions p (env act a) act a (b\<lparr>timers := tm\<rparr>) in (timers b', b')))
             now (timers b, b) of (tm, b') \<Rightarrow> b'\<lparr>timers := tm\<rparr>)"

section \<open>Web requests\<close>

text \<open>
  \<open>handleOpenBox\<close>, from the parsed request: the door number if it is an integer in 0..254, the presence
  code, and the \<open>checkbox-presence\<close> flag if present.  It runs on the web server's task and only
  queues the door.
\<close>

definition QUEUE_LENGTH :: nat where "QUEUE_LENGTH = 4"

definition handleOpenBox :: "u32 \<Rightarrow> u8 option \<Rightarrow> string option \<Rightarrow> bool option \<Rightarrow> 'n Firmware \<Rightarrow> 'n Firmware" where
  "handleOpenBox millis lnum presence checkPresence b =
     (case lnum of None \<Rightarrow> sendWeb (LastResult ''invalidDoorNumber'') b
      | Some num \<Rightarrow>
        let code = (case presence of Some s \<Rightarrow> take PRESENCE_CODE_LENGTH (cstr s) | None \<Rightarrow> []) in
        if checkPresence = Some True \<and> code = [] then sendWeb (LastResult ''presenceNotProvided'') b
        else if checkPresence = Some True \<and> (\<not> isPresenceCodeValid millis b \<or> code \<noteq> cstr (presenceCode (ctx b)))
        then sendWeb (LastResult ''presenceInvalid'') b
        else case webOpenRequests (others b) of
          None \<Rightarrow> sendWeb (LastResult ''doorQueueFull'') b
        | Some qs \<Rightarrow>
            if length qs < QUEUE_LENGTH
            then sendWeb (LastResult ''openingDoorNumber'') (updOthers (\<lambda>x. x\<lparr>webOpenRequests := Some (qs @ [num])\<rparr>) b)
            else sendWeb (LastResult ''doorQueueFull'') b)"

definition takeRequest :: "'n Preferences \<Rightarrow> Env \<Rightarrow> 'n Firmware \<Rightarrow> 'n Firmware" where
  "takeRequest p e b =
     (case webOpenRequests (others b) of
        Some (door # qs) \<Rightarrow>
          processEvent p (stateCallback p) e ((eventOf WebOpenBox)\<lparr>evDoorNum := door\<rparr>)
            (updOthers (\<lambda>x. x\<lparr>webOpenRequests := Some qs\<rparr>) b)
      | _ \<Rightarrow> b)"

section \<open>One pass\<close>

record LoopEnv =
  rtcSynced :: bool
  refreshTime :: u64
  webEnv :: Env
  contactMillis :: u32
  contactEnv :: "u8 \<Rightarrow> Env"
  timerMillis :: u32
  timerEnv :: "u8 \<Rightarrow> string \<Rightarrow> Env"
  keyWire :: bytes
  keyEnv :: Env
  machineMillis :: u32
  machineEnv :: Env
  scannerMillis :: u32
  scannerEnv :: Env

definition pollContacts :: "'n Preferences \<Rightarrow> u32 \<Rightarrow> (u8 \<Rightarrow> Env) \<Rightarrow> 'n Firmware \<Rightarrow> 'n Firmware" where
  "pollContacts p now env b =
     (case updateDoorStates now (gpio b) of (g, doors) \<Rightarrow>
        fold (\<lambda>door. handleDueActions p (env door) NOTIFY_DOOR_CHANGE (dec_digits (unat door))) doors (b\<lparr>gpio := g\<rparr>))"

definition notifyAmbientChange :: "u8 \<Rightarrow> 'n Firmware \<Rightarrow> u8 \<times> 'n Firmware" where
  "notifyAmbientChange lastAmb b =
     (let st = getAmbient (gpio b) in
      if st \<noteq> lastAmb then (st, sendWeb (AmbientMsg (st = AMBIENT_ON)) b) else (lastAmb, b))"

text \<open>\<open>None\<close> when the credential cache is being rebuilt from a store whose chain never ends.\<close>

definition loop :: "'n Preferences \<Rightarrow> LoopEnv \<Rightarrow> u8 \<times> 'n Firmware \<Rightarrow> (u8 \<times> 'n Firmware) option" where
  "loop p le s =
     (case s of (lastAmbient, b0) \<Rightarrow>
      map_option (\<lambda>b1.
        let b2 = takeRequest p (webEnv le) b1;
            b3 = pollContacts p (contactMillis le) (contactEnv le) b2;
            b4 = runTimers p (timerEnv le) (timerMillis le) b3;
            b5 = handleKeyboard p (keyEnv le) (keyWire le) b4;
            b6 = updateMachine p (stateCallback p) (machineEnv le) (machineMillis le) b5;
            b7 = updateBoxScanner p (scannerEnv le) (scannerMillis le) b6
        in notifyAmbientChange lastAmbient b7)
      (if rtcSynced le
       then map_option (\<lambda>(ok, st). b0\<lparr>credStore := st\<rparr>) (refreshCache p (credStore b0) (refreshTime le))
       else Some b0))"

section \<open>A pass is a run of the state machine\<close>

text \<open>The clock readings of one pass come from the real times \<open>W\<close>.\<close>

definition envIn :: "nat set \<Rightarrow> Env \<Rightarrow> bool" where
  "envIn W e \<longleftrightarrow> (\<exists>T \<in> W. eventMillis e = of_nat T)"

definition timesIn :: "nat set \<Rightarrow> LoopEnv \<Rightarrow> bool" where
  "timesIn W le \<longleftrightarrow> envIn W (webEnv le) \<and> (\<forall>d. envIn W (contactEnv le d)) \<and> (\<forall>a s. envIn W (timerEnv le a s)) \<and>
     envIn W (keyEnv le) \<and> envIn W (scannerEnv le) \<and> (\<exists>T \<in> W. machineMillis le = of_nat T)"

abbreviation firmware_run :: "'n Preferences \<Rightarrow> nat set \<Rightarrow> 'n Firmware \<Rightarrow> 'n Firmware \<Rightarrow> bool" where
  "firmware_run p W \<equiv> box_run p (stateCallback p) switchUnused W"

lemma run_trans: "box_run p cb ok W b c \<Longrightarrow> box_run p cb ok W a b \<Longrightarrow> box_run p cb ok W a c"
  by (induction rule: box_run.induct) (auto intro: run_step)

lemma run_event:
  "firmware_run p W a b \<Longrightarrow> envIn W e \<Longrightarrow> firmware_run p W a (processEvent p (stateCallback p) e ev b)"
  by (auto simp: envIn_def intro: run_step box_step.event)

lemma run_outside:
  "firmware_run p W a b \<Longrightarrow> W \<noteq> {} \<Longrightarrow> ctx b' = ctx b \<Longrightarrow> lastUIAction b' = lastUIAction b \<Longrightarrow>
     (switchUnused (others b) \<Longrightarrow> switchUnused (others b')) \<Longrightarrow> firmware_run p W a b'"
  by (auto intro: run_step box_step.outside)

lemma envIn_nonempty: "envIn W e \<Longrightarrow> W \<noteq> {}"
  by (auto simp: envIn_def)

lemma run_only: "firmware_run p W a b \<Longrightarrow> W \<noteq> {} \<Longrightarrow> onlyPeripherals b b' \<Longrightarrow> firmware_run p W a b'"
  by (rule run_outside, assumption+) (simp_all add: onlyPeripherals_def)

lemma updKeys_only: "onlyPeripherals b (updKeys f b)"
  by (simp add: updKeys_def onlyPeripherals_def switchUnused_def)

lemma sendWeb_only: "onlyPeripherals b (sendWeb m b)"
  by (simp add: sendWeb_def onlyPeripherals_def switchUnused_def)

lemma emit_only: "onlyPeripherals b (emit x b)"
  by (simp add: onlyPeripherals_def)

lemma sendDoorState_only: "onlyPeripherals b (sendDoorState d st b)"
  by (simp add: sendDoorState_def sendWeb_only onlyPeripherals_refl)

lemma logDoorNotice_only: "onlyPeripherals b (logDoorNotice st b)"
  by (simp add: logDoorNotice_def onlyPeripherals_def Let_def)

lemma pollKeys_only: "onlyPeripherals b (snd (pollKeys wire b))"
  by (simp add: pollKeys_def onlyPeripherals_def switchUnused_def split_beta)

lemma run_due:
  assumes "firmware_run p W a b" and "envIn W e"
  shows "firmware_run p W a (handleDueActions p e act s b)"
proof -
  note ne = envIn_nonempty [OF assms(2)]
  have ev: "firmware_run p W a (processEvent p (stateCallback p) e ev b')" if "onlyPeripherals b b'" for ev b'
    by (rule run_event [OF run_only [OF assms(1) ne that] assms(2)])
  note o3 = onlyPeripherals_trans [OF logDoorNotice_only sendDoorState_only]
  have lock: "firmware_run p W a (emit y ((emit x b)\<lparr>gpio := g\<rparr>))" for x y g
    by (rule run_outside [OF assms(1) ne]) simp_all
  have amb: "firmware_run p W a (gpioDo ambientOff (emit x b))" for x
    by (rule run_outside [OF assms(1) ne]) simp_all
  show ?thesis
    using ev [OF o3] run_only [OF assms(1) ne o3] ev [OF emit_only] run_only [OF assms(1) ne emit_only] lock amb
    unfolding handleDueActions_def Let_def by (simp add: split_beta)
qed

lemma run_web: "firmware_run p W a b \<Longrightarrow> envIn W e \<Longrightarrow> firmware_run p W a (takeRequest p e b)"
proof -
  assume r: "firmware_run p W a b" and e: "envIn W e"
  have "firmware_run p W a (updOthers (\<lambda>x. x\<lparr>webOpenRequests := q\<rparr>) b)" for q
    by (rule run_outside [OF r envIn_nonempty [OF e]]) (simp_all add: switchUnused_def)
  then show ?thesis using r by (auto simp: takeRequest_def intro!: run_event [OF _ e] split: option.split list.split)
qed

lemma run_contacts:
  assumes "firmware_run p W a b" and "\<And>d. envIn W (env d)"
  shows "firmware_run p W a (pollContacts p now env b)"
proof -
  obtain g ds where u: "updateDoorStates now (gpio b) = (g, ds)" by (cases "updateDoorStates now (gpio b)")
  have "firmware_run p W a (b\<lparr>gpio := g\<rparr>)"
    by (rule run_outside [OF assms(1) envIn_nonempty [OF assms(2)]]) simp_all
  then have "firmware_run p W a (fold (\<lambda>d. handleDueActions p (env d) NOTIFY_DOOR_CHANGE (dec_digits (unat d))) ds (b\<lparr>gpio := g\<rparr>))"
    by (induction ds arbitrary: b g rule: rev_induct) (simp_all add: run_due assms(2))
  then show ?thesis by (simp add: pollContacts_def u)
qed

lemma run_timers:
  assumes "firmware_run p W a b" and "\<And>act s. envIn W (env act s)"
  shows "firmware_run p W a (runTimers p env now b)"
proof -
  note ne = envIn_nonempty [OF assms(2)]
  let ?h = "\<lambda>(tm, b) act s. let b' = handleDueActions p (env act s) act s (b\<lparr>timers := tm\<rparr>) in (timers b', b')"
  have slot: "firmware_run p W a (snd (update_slot (Some ?h) now i (tm, c)))" if "firmware_run p W a c" for tm c i
  proof -
    have "firmware_run p W a (c\<lparr>timers := tm\<rparr>)" by (rule run_outside [OF that ne]) simp_all
    then have "firmware_run p W a (handleDueActions p (env act s) act s (c\<lparr>timers := tm\<rparr>))" for act s
      by (rule run_due [OF _ assms(2)])
    then show ?thesis using that by (simp add: update_slot_def Let_def)
  qed
  have "firmware_run p W a (snd (fold (update_slot (Some ?h) now) is (timers b, b)))" for "is"
  proof (induction "is" rule: rev_induct)
    case (snoc i "is")
    obtain tm c where f: "fold (update_slot (Some ?h) now) is (timers b, b) = (tm, c)"
      by (cases "fold (update_slot (Some ?h) now) is (timers b, b)")
    have "firmware_run p W a c" using snoc by (simp only: f snd_conv)
    from slot [OF this, of i tm] show ?case by (simp only: fold_append comp_apply f fold.simps id_apply)
  qed (simp add: assms(1))
  from this [of "[0..<MAX_TIMERS]"] have "firmware_run p W a (snd (update_timers (Some ?h) now (timers b, b)))"
    by (simp add: update_timers_def)
  from run_outside [OF this ne] show ?thesis by (simp add: runTimers_def split_beta)
qed

lemma run_keyboard:
  assumes "firmware_run p W a b" and "envIn W e"
  shows "firmware_run p W a (handleKeyboard p e wire b)"
proof -
  note ne = envIn_nonempty [OF assms(2)]
  define b0 where "b0 = updKeys (\<lambda>ks. ks\<lparr>keyboardMode :=
      (if state (ctx b) = Password then KEYBOARD_MODE_PASSWORD else KEYBOARD_MODE_COMMAND)\<rparr>) b"
  have r1: "firmware_run p W a (snd (pollKeys wire b0))"
    unfolding b0_def by (rule run_only [OF run_only [OF assms(1) ne updKeys_only] ne pollKeys_only])
  have k: "firmware_run p W a (updKeys f (keyEvent p e ev (snd (pollKeys wire b0))))" for f ev
    unfolding keyEvent_def by (rule run_only [OF run_event [OF r1 assms(2)] ne updKeys_only])
  show ?thesis unfolding handleKeyboard_def Let_def b0_def [symmetric]
    using r1 k by (simp add: split_beta)
qed

lemma updateScanner_switch:
  assumes "switchPin (config q) = QR_SCANNER_PIN_UNUSED"
  shows "switchPin (config (fst (snd (updateScanner now (q, g))))) = QR_SCANNER_PIN_UNUSED"
proof -
  have d: "switchPin (config (fst (deactivateAfterTerminalEvent (q, g)))) = QR_SCANNER_PIN_UNUSED"
    if "switchPin (config q) = QR_SCANNER_PIN_UNUSED" for q g
    using deactivate_switch(2) [OF that] that by (simp add: deactivateAfterTerminalEvent_def split_beta)
  have f: "switchPin (config (fst (snd (finalizeFrame (q, g))))) = QR_SCANNER_PIN_UNUSED"
    if "switchPin (config q) = QR_SCANNER_PIN_UNUSED" for q g
    using that d by (auto simp: finalizeFrame_def makeFrameEvent_def Let_def split: QrScannerState.split)
  have b: "switchPin (config (fst (snd (processByte v now (q, g))))) = QR_SCANNER_PIN_UNUSED"
    if "switchPin (config q) = QR_SCANNER_PIN_UNUSED" for q g v
    using that f by (simp add: processByte_def Let_def)
  have r: "switchPin (config (fst (snd (snd (receive vs now (q, g)))))) = QR_SCANNER_PIN_UNUSED"
    if "switchPin (config q) = QR_SCANNER_PIN_UNUSED" for vs q g
    using that
  proof (induction vs arbitrary: q g)
    case (Cons v vs)
    obtain ev q1 g1 where p: "processByte v now (q, g) = (ev, q1, g1)" by (metis prod.exhaust)
    then have "switchPin (config q1) = QR_SCANNER_PIN_UNUSED" using b [OF Cons.prems, of v g] by simp
    then show ?case using Cons.IH [of q1 g1] p by simp
  qed simp
  show ?thesis
    using assms r [OF assms] d f
    by (auto simp: updateScanner_def Let_def split_beta split: option.split)
qed

lemma run_scanner:
  assumes "firmware_run p W a b" and "envIn W e"
  shows "firmware_run p W a (updateBoxScanner p e now b)"
proof -
  note ne = envIn_nonempty [OF assms(2)]
  have w: "firmware_run p W a (snd (withScanner (updateScanner now) b))"
    by (rule run_outside [OF assms(1) ne])
      (auto simp: withScanner_def split_beta switchUnused_def updateScanner_switch)
  have e: "firmware_run p W a (emit x (snd (withScanner (updateScanner now) b)))" for x
    by (rule run_only [OF w ne emit_only])
  show ?thesis unfolding updateBoxScanner_def Let_def
    using assms(1) w run_event [OF assms(1,2)] run_event [OF w assms(2)] run_event [OF e assms(2)] by (simp add: split_beta)
qed

text \<open>
  A pass of the main loop is a run of the state machine: whatever the keypad, the contacts, the scanner,
  the timers and the web clients do, its effect on the machine is a sequence of events, updates and
  steps that leave the machine alone, at the times the clock was read.  This carries the invariant and
  the penalty over to the loop; which events a pass sends is the matter of \<open>Loop_Safety\<close>.
\<close>

theorem loop_refines_machine:
  assumes "loop p le (la, b) = Some (la', b')" and "timesIn W le"
  shows "firmware_run p W b b'"
proof -
  from assms(2) have ne: "W \<noteq> {}" by (auto simp: timesIn_def)
  obtain T where T: "T \<in> W" "machineMillis le = of_nat T" using assms(2) by (auto simp: timesIn_def)
  from assms(1) obtain b1 where b1: "(if rtcSynced le then map_option (\<lambda>(ok, st). b\<lparr>credStore := st\<rparr>) (refreshCache p (credStore b) (refreshTime le)) else Some b) = Some b1"
    by (auto simp: loop_def)
  define b5 where "b5 = handleKeyboard p (keyEnv le) (keyWire le) (runTimers p (timerEnv le) (timerMillis le)
      (pollContacts p (contactMillis le) (contactEnv le) (takeRequest p (webEnv le) b1)))"
  define b7 where "b7 = updateBoxScanner p (scannerEnv le) (scannerMillis le)
      (updateMachine p (stateCallback p) (machineEnv le) (machineMillis le) b5)"
  have "firmware_run p W b b1"
    by (rule run_outside [OF run_refl ne]) (use b1 in \<open>auto split: if_splits\<close>)
  then have "firmware_run p W b b5"
    unfolding b5_def using assms(2) by (auto simp: timesIn_def intro!: run_keyboard run_timers run_contacts run_web)
  then have "firmware_run p W b (updateMachine p (stateCallback p) (machineEnv le) (machineMillis le) b5)"
    unfolding T(2) by (rule run_step [OF _ T(1) box_step.tick])
  then have r: "firmware_run p W b b7"
    unfolding b7_def using assms(2) by (intro run_scanner) (simp_all add: timesIn_def)
  have "b' = snd (notifyAmbientChange la b7)"
    using assms(1) b1 by (auto simp: loop_def Let_def b5_def b7_def)
  moreover have "onlyPeripherals b7 (snd (notifyAmbientChange la b7))"
    by (simp add: notifyAmbientChange_def Let_def sendWeb_only onlyPeripherals_refl)
  ultimately show ?thesis using run_only [OF r ne] by simp
qed

end
