(* ===== verification/Box_Safety.thy ===== *)
theory Box_Safety
  imports Main_Loop
begin

text \<open>
  What the box guarantees: the state machine's laws at the firmware's own callback, over whole runs: who
  raises a lock, the penalty, the invariant, when a credential is used up, and the states that end.
\<close>

section \<open>Locks open only when authorised\<close>

text \<open>
  C1.  No event raises a lock unless it authorises that door: a web request for it, or a PIN or packet number
  that the credential store verifies for it, entered in the state that asks for it.  The passage of
  time never raises one.
\<close>

theorem lock_raised_only_if_authorised:
  fixes b :: "'n Firmware"
  assumes "switchUnused (others b)" and "\<not> pinLevel (gpio b) pin" and "pin \<noteq> ambientPin (gpio b)"
  shows "(pinLevel (gpio (processEvent p (stateCallback p) e ev b)) pin \<longrightarrow>
       (\<exists>door. pin \<in> doorPins (gpio b) door \<and> authorised e (Event ev) b door)) \<and>
     \<not> pinLevel (gpio (updateMachine p (stateCallback p) e now b)) pin"
proof (intro conjI impI notI)
  assume "pinLevel (gpio (processEvent p (stateCallback p) e ev b)) pin"
  then show "\<exists>door. pin \<in> doorPins (gpio b) door \<and> authorised e (Event ev) b door"
    by (rule box.raise_authorised [OF processEvent_performs assms(1) _ assms(2,3)])
next
  assume r: "pinLevel (gpio (updateMachine p (stateCallback p) e now b)) pin"
  have g: "gpio (updateFlags now b) = gpio b" using updateFlags_world(1) [of b now] by (simp add: sameWorld_def)
  have "\<exists>door. pin \<in> doorPins (gpio (updateFlags now b)) door \<and> authorised e TimePassed (updateFlags now b) door"
    by (rule box.raise_authorised [OF box.updateMachine_performs box.updateFlags_ok [OF assms(1)] r])
      (simp_all add: g assms(2,3))
  then show False by (simp add: authorised_def)
qed

section \<open>The penalty\<close>

lemma unat_penaltyMillis: "unat (penaltyMillis n) = 5000 * min 7 (unat n)"
proof (cases "7 < unat n")
  case True
  then show ?thesis by (simp add: penaltyMillis_def PASS_ERR_MAXMULTIPLY_def PASS_ERR_DELAY_def)
next
  case False
  have "unat (ucast n :: u32) = unat n" by transfer simp
  then have "unat (ucast n * 5000 :: u32) = unat n * 5000"
    using unat_u8_less [of n] by (simp add: unat_word_ariths)
  then show ?thesis using False
    by (simp add: penaltyMillis_def PASS_ERR_MAXMULTIPLY_def PASS_ERR_DELAY_def ac_simps)
qed

text \<open>An attempt the machine rejects: a wrong PIN, or a scanned code that is unknown or malformed.\<close>

definition rejected :: "Env \<Rightarrow> BoxEventData \<Rightarrow> 'n Firmware \<Rightarrow> bool" where
  "rejected e ev b \<longleftrightarrow>
     state (ctx b) = Password \<and> eventType ev = KeyboardEnter \<and>
       fst (verifyCred (credStore b) (Some (keyboardPassword ev)) CredType_Password (verifyTime e)) = DOOR_UNKNOWN
   \<or> state (ctx b) = Scan \<and> \<not> timeoutElapsed (scanStartedAt (ctx b)) QR_SCANNER_SCAN_TIMEOUT_MS (eventMillis e) \<and>
       (eventType ev = ScannerInvalidCode \<or> eventType ev = ScannerCodeReceived \<and>
          fst (verifyCred (credStore b) (Some (scannerCred ev)) CredType_PacketNumber (verifyTime e)) = DOOR_UNKNOWN)"

lemma rejected_moves:
  assumes "rejected e ev b"
  shows "\<exists>b1. table e (eventMillis e) (Event ev) b BadPass b1 \<and>
     processEvent p cb e ev b = transitionTo p cb e BadPass (eventMillis e) b1"
proof -
  let ?now = "eventMillis e"
  from assms consider (pin) "state (ctx b) = Password" "eventType ev = KeyboardEnter"
      "fst (verifyCred (credStore b) (Some (keyboardPassword ev)) CredType_Password (verifyTime e)) = DOOR_UNKNOWN"
    | (code) "state (ctx b) = Scan" "\<not> timeoutElapsed (scanStartedAt (ctx b)) QR_SCANNER_SCAN_TIMEOUT_MS ?now"
      "eventType ev = ScannerCodeReceived"
      "fst (verifyCred (credStore b) (Some (scannerCred ev)) CredType_PacketNumber (verifyTime e)) = DOOR_UNKNOWN"
    | (invalid) "state (ctx b) = Scan" "\<not> timeoutElapsed (scanStartedAt (ctx b)) QR_SCANNER_SCAN_TIMEOUT_MS ?now"
      "eventType ev = ScannerInvalidCode"
    unfolding rejected_def by blast
  then show ?thesis
  proof cases
    case pin
    then obtain s where v: "verifyCred (credStore b) (Some (keyboardPassword ev)) CredType_Password (verifyTime e) = (DOOR_UNKNOWN, s)"
      by (metis prod.collapse)
    show ?thesis using pin v
      by (intro exI conjI, intro pin_bad)
        (auto simp: processEvent_def handleKeyboardEvent_def Let_def)
  next
    case code
    then obtain s where v: "verifyCred (credStore b) (Some (scannerCred ev)) CredType_PacketNumber (verifyTime e) = (DOOR_UNKNOWN, s)"
      by (metis prod.collapse)
    show ?thesis using code v
      by (intro exI conjI, intro code_bad)
        (auto simp: processEvent_def handleScannerEvent_def Let_def)
  next
    case invalid
    then show ?thesis
      by (intro exI conjI, intro code_bad)
        (auto simp: processEvent_def handleScannerEvent_def Let_def)
  qed
qed

text \<open>
  C2.  The penalty cannot be evaded.  After a rejected PIN or code at real time \<open>T0\<close>, the machine is in neither
  password entry nor scanning after any run of steps (keys, scans, web requests, door contacts,
  timers, updates) within the next five seconds times the number of consecutive failures, at most
  seven: cancelling, opening a door from the web or choosing the other input does not help, and the
  clock's wrap-around does not matter.
\<close>

theorem penalty_enforced:
  fixes b :: "'n Firmware"
  assumes "machine_inv b" and "switchUnused (others b)" and "rejected e ev b" and "eventMillis e = of_nat T0"
    and "firmware_run p {T0..<T0 + 5000 * min 7 (unat (bumpBad (badPasswordCount (ctx b))))}
           (processEvent p (stateCallback p) e ev b) b'"
  shows "state (ctx b') \<notin> {Password, Scan}"
proof -
  let ?b = "processEvent p (stateCallback p) e ev b" and ?d = "penaltyMillis (bumpBad (badPasswordCount (ctx b)))"
  obtain b1 where tb: "table e (eventMillis e) (Event ev) b BadPass b1"
    and eq: "?b = transitionTo p (stateCallback p) e BadPass (eventMillis e) b1"
    using rejected_moves [OF assms(3)] by blast
  have st: "state (ctx b) \<in> {Password, Scan}" using assms(3) by (auto simp: rejected_def)
  then have act: "\<not> badPasswordActive (ctx b)" using assms(1) by (simp add: machine_inv_def)
  have start: "state (ctx ?b) = BadPass" "penalty ?b = (True, eventMillis e, ?d)"
    unfolding eq by (rule box.rejected_starts_penalty [OF tb st act assms(2)])+
  have run: "firmware_run p {T0..<T0 + unat ?d} ?b b'" using assms(5) by (simp add: unat_penaltyMillis)
  have ok: "switchUnused (others ?b)" by (rule box.performs_ok [OF processEvent_performs assms(2)])
  show ?thesis
    using box.run_penalty [OF run ok] start assms(4) by simp
qed

section \<open>The invariant of reachable machines\<close>

text \<open>
  C14.  Every machine reachable from \<open>initialize\<close> through any run of the firmware keeps the invariant: a verified
  credential is pending only while a door is opening, password entry and scanning exclude a running
  penalty, the web controls are enabled in Home and Presence and disabled while a PIN, a code or a
  door is being handled, and the unused state External is never entered.
\<close>

theorem machine_inv_reachable:
  fixes b :: "'n Firmware"
  assumes "switchUnused (others b)" and "firmware_run p UNIV (initialize t b) b'"
  shows "machine_inv b'"
proof -
  have "switchUnused (others (initialize t b))" using assms(1) by (simp add: initialize_def box_defs)
  then show ?thesis using box.run_inv [OF assms(2)] machine_inv_initialize by blast
qed

section \<open>Credentials are consumed when the door opens\<close>

text \<open>What the arrival in Open does to the store: it uses up a verified credential, unless the scanner test mode keeps a scanned one.\<close>

definition usedUp :: "'n Preferences \<Rightarrow> Env \<Rightarrow> 'n Firmware \<Rightarrow> 'n CredStorage" where
  "usedUp p e b =
     (if credVerified (ctx b) \<and> \<not> (scannerTestKeepCred b \<and> scannedCredVerified (ctx b))
      then snd (usedCred p (credStore b) (doorToOpen (ctx b)) (usedTime e)) else credStore b)"

lemma transition_store:
  fixes c :: "'n Firmware"
  assumes "switchUnused (others c)" and "s \<noteq> state (ctx c)"
  shows "credStore (transitionTo p (stateCallback p) e s now c) =
      (if s = Open \<and> credVerified (ctx c) \<and> \<not> (scannerTestKeepCred c \<and> scannedCredVerified (ctx c))
       then snd (usedCred p (credStore c) (doorToOpen (ctx c)) (usedTime e)) else credStore c)"
  using box.transition_quiet [OF assms, of p e now] by (simp add: quiet_def moveTo_credStore)

lemma transition_store_stays:
  fixes c :: "'n Firmware"
  assumes "switchUnused (others c)" and "s \<noteq> Open"
  shows "credStore (transitionTo p (stateCallback p) e s now c) = credStore c"
  using transition_store [OF assms(1)] assms(2) by (cases "s = state (ctx c)") (simp_all add: transitionTo_eq)

lemma transition_open:
  fixes c :: "'n Firmware"
  assumes "switchUnused (others c)" and "state (ctx c) \<noteq> Open"
  shows "state (ctx (transitionTo p (stateCallback p) e Open now c)) = Open \<and>
     \<not> credVerified (ctx (transitionTo p (stateCallback p) e Open now c))"
proof -
  have "quiet (moveTo p e Open now c) (transitionTo p (stateCallback p) e Open now c)"
    by (rule box.transition_quiet) (use assms in auto)
  then show ?thesis by (auto simp: quiet_def backHome_def moveTo_sel moveTo_credVerified)
qed

text \<open>
  C28.  When the credential store changes, exactly.  An event changes it in three cases and in no other: a PIN
  entered in Password and a code received in Scan in time record the result of their verification,
  and the report that the door being opened is open uses up the credential that opened it.  The
  periodic update changes it in that last case only, when it reads the contact itself.  Either way
  the machine is then in Open with no credential pending, so that none is used twice.
\<close>

theorem credential_used_exactly_at_opening:
  fixes b :: "'n Firmware"
  assumes "switchUnused (others b)"
  shows "(let c = ctx b; cs = credStore b; opens = (state c = Opening \<and> eventType ev = DoorOpened \<and> evDoorNum ev = doorToOpen c);
        b' = processEvent p (stateCallback p) e ev b in
      credStore b' =
        (if opens then usedUp p e b
         else if state c = Password \<and> eventType ev = KeyboardEnter
         then snd (verifyCred cs (Some (keyboardPassword ev)) CredType_Password (verifyTime e))
         else if state c = Scan \<and> eventType ev = ScannerCodeReceived \<and>
           \<not> timeoutElapsed (scanStartedAt c) QR_SCANNER_SCAN_TIMEOUT_MS (eventMillis e)
         then snd (verifyCred cs (Some (scannerCred ev)) CredType_PacketNumber (verifyTime e))
         else cs) \<and>
      (opens \<longrightarrow> state (ctx b') = Open \<and> \<not> credVerified (ctx b')))
    \<and> (let c = ctx b; opens = (state c = Opening \<and> readDoorState (gpio b) (doorToOpen c) = DOOR_OPEN);
        b' = updateMachine p (stateCallback p) e now b in
      credStore b' = (if opens then usedUp p e b else credStore b) \<and>
      (opens \<longrightarrow> state (ctx b') = Open \<and> \<not> credVerified (ctx b')))"
proof -
  let ?f = "updateFlags now b"
  note t = transition_store_stays
  have f: "gpio ?f = gpio b" "others ?f = others b" "state (ctx ?f) = state (ctx b)" "credVerified (ctx ?f) = credVerified (ctx b)"
    "doorToOpen (ctx ?f) = doorToOpen (ctx b)" "scannedCredVerified (ctx ?f) = scannedCredVerified (ctx b)"
    "scannerTestKeepCred ?f = scannerTestKeepCred b" "credStore ?f = credStore b"
    using updateFlags_world(1) [of b now] updateFlags_ctx(1) [of now b] by (simp_all add: sameWorld_def decisive_def)
  have ev: "credStore (processEvent p (stateCallback p) e ev b) =
        (if state (ctx b) = Opening \<and> eventType ev = DoorOpened \<and> evDoorNum ev = doorToOpen (ctx b) then usedUp p e b
         else if state (ctx b) = Password \<and> eventType ev = KeyboardEnter
         then snd (verifyCred (credStore b) (Some (keyboardPassword ev)) CredType_Password (verifyTime e))
         else if state (ctx b) = Scan \<and> eventType ev = ScannerCodeReceived \<and>
           \<not> timeoutElapsed (scanStartedAt (ctx b)) QR_SCANNER_SCAN_TIMEOUT_MS (eventMillis e)
         then snd (verifyCred (credStore b) (Some (scannerCred ev)) CredType_PacketNumber (verifyTime e))
         else credStore b)"
    using assms unfolding processEvent_def
    by (cases "eventType ev"; cases "state (ctx b)")
      (auto simp: handleKeyboardEvent_def handleScannerEvent_def handleSensorEvent_def handleTimerEvent_def
        handleWebEvent_def handleCancel_def Let_def transition_store t usedUp_def split: prod.split)
  have op: "state (ctx (processEvent p (stateCallback p) e ev b)) = Open \<and> \<not> credVerified (ctx (processEvent p (stateCallback p) e ev b))"
    if "state (ctx b) = Opening \<and> eventType ev = DoorOpened \<and> evDoorNum ev = doorToOpen (ctx b)"
    using assms that by (simp add: processEvent_def handleSensorEvent_def Let_def transition_open)
  have up: "credStore (updateMachine p (stateCallback p) e now b) =
      (if state (ctx b) = Opening \<and> readDoorState (gpio b) (doorToOpen (ctx b)) = DOOR_OPEN then usedUp p e b else credStore b)"
    using assms unfolding updateMachine_def updateState_def
    by (cases "state (ctx b)") (auto simp: f Let_def transition_store t usedUp_def)
  have uo: "state (ctx (updateMachine p (stateCallback p) e now b)) = Open \<and> \<not> credVerified (ctx (updateMachine p (stateCallback p) e now b))"
    if "state (ctx b) = Opening \<and> readDoorState (gpio b) (doorToOpen (ctx b)) = DOOR_OPEN"
    using assms that by (simp add: updateMachine_def updateState_def f Let_def transition_open)
  show ?thesis using ev op up uo by (simp add: Let_def)
qed

section \<open>States with a time limit end\<close>

text \<open>
  C36.  No timed state lasts: once its interval has elapsed, the next update leaves it.  Password entry, scanning,
  the presence code and the closed box return Home; the penalty goes back to the input that failed,
  password entry or scanning (or Home, when the scanner cannot start); an opening ends in Open if the
  contact reports the door open, and Home otherwise, whatever the credential store and the callback do.
\<close>

theorem timed_states_end:
  fixes b :: "'n Firmware"
  assumes "switchUnused (others b)"
  shows "(let c = ctx b; st = state (ctx (updateMachine p (stateCallback p) e now b)) in
     (state c = Password \<and> timeoutElapsed (passwordEntryStartedAt c) (currentPasswordEntryMillis c) now \<longrightarrow> st = Home) \<and>
     (state c = Scan \<and> timeoutElapsed (scanStartedAt c) QR_SCANNER_SCAN_TIMEOUT_MS now \<longrightarrow> st = Home) \<and>
     (state c = Presence \<and> timeoutElapsed (presenceCodeStartedAt c) (PRESENCE_CODE_VALIDITY * 1000) now \<longrightarrow> st = Home) \<and>
     (state c = Closed \<and> timeoutElapsed (ambientOffStartedAt c) AMBIENT_TIMEOUT now \<longrightarrow> st = Home) \<and>
     (state c = BadPass \<and> timeoutElapsed (badPasswordStartedAt c) (currentBadPasswordMillis c) now \<longrightarrow>
        (if retryScanAfterBadCode c then st = Scan \<or> st = Home else st = Password)) \<and>
     (state c = Opening \<and> timeoutElapsed (doorOpenStartedAt c) (doorOpenDuration c) now \<longrightarrow>
        st = (if readDoorState (gpio b) (doorToOpen c) = DOOR_OPEN then Open else Home)))"
proof -
  let ?f = "updateFlags now b" and ?cb = "stateCallback p"
  have f: "gpio ?f = gpio b" "others ?f = others b" "state (ctx ?f) = state (ctx b)" "scanStartedAt (ctx ?f) = scanStartedAt (ctx b)"
    "doorToOpen (ctx ?f) = doorToOpen (ctx b)" "doorOpenStartedAt (ctx ?f) = doorOpenStartedAt (ctx b)"
    "doorOpenDuration (ctx ?f) = doorOpenDuration (ctx b)" "badPasswordStartedAt (ctx ?f) = badPasswordStartedAt (ctx b)"
    "currentBadPasswordMillis (ctx ?f) = currentBadPasswordMillis (ctx b)" "retryScanAfterBadCode (ctx ?f) = retryScanAfterBadCode (ctx b)"
    using updateFlags_world(1) [of b now] updateFlags_ctx(1) [of now b] by (simp_all add: sameWorld_def decisive_def)
  have f2: "passwordEntryStartedAt (ctx ?f) = passwordEntryStartedAt (ctx b)"
    "currentPasswordEntryMillis (ctx ?f) = currentPasswordEntryMillis (ctx b)"
    "presenceCodeStartedAt (ctx ?f) = presenceCodeStartedAt (ctx b)" "ambientOffStartedAt (ctx ?f) = ambientOffStartedAt (ctx b)"
    by (simp_all add: updateFlags_timing)
  have go: "state (ctx (transitionTo p ?cb e s now c)) = s \<or> s = Scan \<and> state (ctx (transitionTo p ?cb e s now c)) = Home"
    if "others c = others b" "state (ctx c) \<noteq> s" for s c
  proof -
    have "quiet (moveTo p e s now c) (transitionTo p ?cb e s now c)"
      by (rule box.transition_quiet) (use that assms in auto)
    then show ?thesis by (auto simp: quiet_def backHome_def moveTo_sel)
  qed
  have stay: "state (ctx (transitionTo p ?cb e s now c)) = s"
    if "others c = others b" "state (ctx c) \<noteq> s" "s \<noteq> Scan" for s c
    using go [OF that(1,2)] that(3) by blast
  have scan: "state (ctx (transitionTo p ?cb e Scan now ?f)) = Scan \<or> state (ctx (transitionTo p ?cb e Scan now ?f)) = Home"
    if "state (ctx b) = BadPass"
    using go [of ?f Scan] that by (auto simp: f)
  show ?thesis unfolding updateMachine_def updateState_def Let_def f f2
    by (auto simp: f stay dest: scan split: BoxState.split)
qed

end
