(* ===== verification/Pass_Record.thy ===== *)
theory Pass_Record
  imports Pass_Store
begin

text \<open>
  Facts about single records of the credential store: what \<open>validateCredential\<close> accepts, and that
  copying a record between the cache and the storage keeps its strings and its validity.
\<close>

definition buffers_ok :: "'a CacheRecord_scheme \<Rightarrow> bool" where
  "buffers_ok r \<longleftrightarrow> length (name r) = MAX_NAME_LENGTH + 1 \<and> length (cred r) = PACKET_NUMBER_MAX + 1"

text \<open>Two records describe the same credential: they agree in all but the identifier and the
  bytes behind the terminators.\<close>

definition same_credential :: "'a CacheRecord_scheme \<Rightarrow> 'b CacheRecord_scheme \<Rightarrow> bool" where
  "same_credential a b \<longleftrightarrow>
     credType a = credType b \<and> cstr (name a) = cstr (name b) \<and> cstr (cred a) = cstr (cred b) \<and>
     doorNum a = doorNum b \<and> validFrom a = validFrom b \<and> validTo a = validTo b \<and>
     remaining a = remaining b"

lemma cstr_take:
  assumes "length (cstr (take n v)) < n" and "n \<le> length v"
  shows "cstr (take n v) = cstr v"
proof -
  have "\<exists>c \<in> set (take n v). c = NUL"
  proof (rule ccontr)
    assume "\<not> ?thesis"
    then have "cstr (take n v) = take n v" by (intro cstr_id) auto
    with assms show False by simp
  qed
  then have "takeWhile (\<lambda>c. c \<noteq> NUL) (take n v @ drop n v) = takeWhile (\<lambda>c. c \<noteq> NUL) (take n v)"
    by (intro takeWhile_append1) auto
  then show ?thesis by (simp add: cstr_def)
qed

lemma cstr_eq_take: "cstr v = take (length (cstr v)) v"
  unfolding cstr_def by (rule takeWhile_eq_take)

lemma cstr_of_take: "cstr (take n v) = take n (cstr v)"
  by (induction v arbitrary: n) (auto simp: cstr_Cons take_Cons')

lemma cstr_pad: "NUL \<notin> set s \<Longrightarrow> cstr (s @ replicate k NUL @ NUL # t) = s"
  by (cases k) (simp_all add: cstr_append_NUL)

lemma map_pad:
  assumes "len \<le> n" and "len \<le> length v"
  shows "map (\<lambda>i. if i < len then v ! i else NUL) [0..<n] = take len v @ replicate (n - len) NUL"
  using assms by (intro nth_equalityI) (auto simp: nth_append)

definition min_len :: "u8 \<Rightarrow> nat" where
  "min_len type = (if type = CredType_Password then MIN_PIN_LENGTH else PACKET_NUMBER_MIN)"

definition max_len :: "u8 \<Rightarrow> nat" where
  "max_len type = (if type = CredType_Password then MAX_PIN_LENGTH else PACKET_NUMBER_MAX)"

definition cred_char :: "u8 \<Rightarrow> char \<Rightarrow> bool" where
  "cred_char type c \<longleftrightarrow>
     (if type = CredType_Password then 48 \<le> (of_char c :: nat) \<and> (of_char c :: nat) \<le> 57
      else 33 \<le> (of_char c :: nat) \<and> (of_char c :: nat) \<le> 126)"

text \<open>What the loop over the characters amounts to, on the string the buffer holds.\<close>

lemma validateCredential_iff:
  "validateCredential (Some v) type m \<longleftrightarrow>
     isCredentialType type \<and>
     (let M = (if m \<noteq> 0 then m else max_len type); s = cstr (take (M + 1) v)
      in min_len type \<le> length s \<and> length s \<le> M \<and> list_all (cred_char type) s)"
proof -
  define M where "M = (if m \<noteq> 0 then m else max_len type)"
  define s where "s = cstr (take (M + 1) v)"
  have "take (length s) v = take (M + 1) (take (length (cstr v)) v)"
    by (simp add: s_def cstr_of_take take_take min.commute)
  also have "\<dots> = s" by (simp add: s_def cstr_of_take flip: cstr_eq_take)
  finally have tk: "take (length s) v = s" .
  have len: "strnlen v (M + 1) = length s" by (simp add: strnlen_def s_def)
  have M: "(if m \<noteq> 0 then m else if type = CredType_Password then MAX_PIN_LENGTH else PACKET_NUMBER_MAX) = M"
    by (simp add: M_def max_len_def)
  have "validateCredential (Some v) type m \<longleftrightarrow>
      isCredentialType type \<and> \<not> (length s < min_len type \<or> M < length s) \<and> list_all (cred_char type) s"
    unfolding validateCredential_def option.case M Let_def len tk
    by (auto simp: min_len_def list_all_iff cred_char_def not_less)
  then show ?thesis by (auto simp: M_def s_def Let_def not_less)
qed

lemma valid_cstr:
  assumes "validateCredential (Some v) type 0" and "length v = PACKET_NUMBER_MAX + 1"
  shows "cstr (take (max_len type + 1) v) = cstr v" and "length (cstr v) \<le> max_len type"
    and "type = CredType_Password \<or> type = CredType_PacketNumber"
proof -
  have l: "length (cstr (take (max_len type + 1) v)) < max_len type + 1"
    using assms(1) by (auto simp: validateCredential_iff Let_def)
  have n: "max_len type + 1 \<le> length v"
    using assms(2) by (simp add: max_len_def store_consts)
  show c: "cstr (take (max_len type + 1) v) = cstr v" using cstr_take [OF l n] .
  show "length (cstr v) \<le> max_len type" using l unfolding c by simp
  show "type = CredType_Password \<or> type = CredType_PacketNumber"
    using assms(1) by (auto simp: validateCredential_iff isCredentialType_def)
qed

lemma validateCredential_cong:
  assumes "cstr v = cstr w" and "length v = PACKET_NUMBER_MAX + 1" and "length w = PACKET_NUMBER_MAX + 1"
    and "validateCredential (Some v) type 0"
  shows "validateCredential (Some w) type 0"
proof -
  have len: "length (cstr w) \<le> max_len type" using valid_cstr(2) [OF assms(4,2)] assms(1) by simp
  have "cstr (take (max_len type + 1) w) = cstr w" using len by (simp add: cstr_of_take)
  then show ?thesis using assms(4) valid_cstr(1) [OF assms(4,2)] assms(1)
    by (simp add: validateCredential_iff)
qed

section \<open>Copying\<close>

definition name_copy :: "string \<Rightarrow> string" where
  "name_copy nm = (strncpy (replicate (MAX_NAME_LENGTH + 1) NUL) nm MAX_NAME_LENGTH)[MAX_NAME_LENGTH := NUL]"

lemma name_copy_eq:
  "name_copy nm = (let s = take MAX_NAME_LENGTH (cstr nm)
                   in s @ replicate (MAX_NAME_LENGTH - length s) NUL @ [NUL])"
  by (auto simp: name_copy_def strncpy_def cstr_of_take Let_def list_update_append nth_append
        MAX_NAME_LENGTH_def min_def)

lemma name_copy_props:
  assumes "strnlen nm (MAX_NAME_LENGTH + 1) \<le> MAX_NAME_LENGTH"
  shows "length (name_copy nm) = MAX_NAME_LENGTH + 1" and "cstr (name_copy nm) = cstr nm"
proof -
  have "length (cstr nm) \<le> MAX_NAME_LENGTH"
    using assms by (auto simp: strnlen_def cstr_of_take min_def split: if_splits)
  then have eq: "name_copy nm = cstr nm @ replicate (MAX_NAME_LENGTH - length (cstr nm)) NUL @ [NUL]"
    and len: "length (cstr nm) \<le> MAX_NAME_LENGTH"
    by (simp_all add: name_copy_eq Let_def)
  show "length (name_copy nm) = MAX_NAME_LENGTH + 1" using len by (simp add: eq)
  show "cstr (name_copy nm) = cstr nm" unfolding eq by (rule cstr_pad) simp
qed

lemma copyCredential_fields [simp]:
  "credType (copyCredential d r) = credType r"
  "credId (copyCredential d r) = credId d"
  "name (copyCredential d r) = name d"
  "doorNum (copyCredential d r) = doorNum d"
  "validFrom (copyCredential d r) = validFrom d"
  "validTo (copyCredential d r) = validTo d"
  "remaining (copyCredential d r) = remaining d"
  "CacheRecord.more (copyCredential d r) = CacheRecord.more d"
  by (simp_all add: copyCredential_def Let_def)

lemma copyCredential_cred:
  assumes "validateCredential (Some (cred r)) (credType r) 0"
    and "length (cred r) = PACKET_NUMBER_MAX + 1" and "length (cred d) = PACKET_NUMBER_MAX + 1"
  shows "length (cred (copyCredential d r)) = PACKET_NUMBER_MAX + 1"
    and "cstr (cred (copyCredential d r)) = cstr (cred r)"
proof -
  let ?M = "if credType r = CredType_PacketNumber then PACKET_NUMBER_MAX else MAX_PIN_LENGTH"
  have M: "?M = max_len (credType r)"
    using valid_cstr(3) [OF assms(1,2)] by (auto simp: max_len_def CredType_Password_def CredType_PacketNumber_def)
  have le: "length (cstr (cred r)) \<le> ?M" using valid_cstr(2) [OF assms(1,2)] by (simp only: M)
  have sn: "strnlen (cred r) ?M = length (cstr (cred r))" using le by (simp add: strnlen_def cstr_of_take)
  have eq: "cred (copyCredential d r) =
      cstr (cred r) @ replicate (?M - length (cstr (cred r))) NUL @ NUL # drop (?M + 1) (cred d)"
    unfolding copyCredential_def Let_def sn
    using map_pad [OF le length_cstr_le] by (simp flip: cstr_eq_take)
  show "cstr (cred (copyCredential d r)) = cstr (cred r)" unfolding eq by (rule cstr_pad) simp
  show "length (cred (copyCredential d r)) = PACKET_NUMBER_MAX + 1"
    using le assms(3) by (simp add: eq store_consts split: if_splits)
qed

text \<open>Validity is a matter of the strings and the dates.\<close>

lemma validateCred_same:
  assumes v: "validateCred a" and a: "buffers_ok a" and b: "buffers_ok b" and s: "same_credential b a"
  shows "validateCred b"
proof -
  have "validateCredential (Some (cred b)) (credType b) 0"
    using v a b s by (auto simp: validateCred_def buffers_ok_def same_credential_def
        split: if_splits intro: validateCredential_cong [of "cred a"])
  moreover have "strnlen (name b) (MAX_NAME_LENGTH + 1) = strnlen (name a) (MAX_NAME_LENGTH + 1)"
    using s by (simp add: strnlen_def cstr_of_take same_credential_def)
  ultimately show ?thesis using v s
    by (simp add: validateCred_def same_credential_def Let_def split: if_splits)
qed

lemma toCacheRecord_same:
  assumes "validateCredential (Some (cred r)) (credType r) 0" and "buffers_ok r"
    and "strnlen (name r) (MAX_NAME_LENGTH + 1) \<le> MAX_NAME_LENGTH"
  shows "same_credential (toCacheRecord r) r" and "buffers_ok (toCacheRecord r)"
    and "credId (toCacheRecord r) = credId r"
proof -
  have z: "length (cred zeroCache) = PACKET_NUMBER_MAX + 1"
    "name zeroCache = replicate (MAX_NAME_LENGTH + 1) NUL" by (simp_all add: zeroCache_def)
  note c = copyCredential_cred [OF assms(1), of "zeroCache\<lparr>credId := credId r, validFrom := validFrom r,
      validTo := validTo r, doorNum := doorNum r, remaining := remaining r, name := name_copy (name r)\<rparr>"]
  have eq: "toCacheRecord r = copyCredential (zeroCache\<lparr>credId := credId r, validFrom := validFrom r,
      validTo := validTo r, doorNum := doorNum r, remaining := remaining r, name := name_copy (name r)\<rparr>) r"
    by (simp add: toCacheRecord_def name_copy_def z)
  show "same_credential (toCacheRecord r) r" "buffers_ok (toCacheRecord r)" "credId (toCacheRecord r) = credId r"
    using assms(2) c z name_copy_props [OF assms(3)]
    by (simp_all add: eq same_credential_def buffers_ok_def)
qed

lemma isStoredCredValid_iff:
  assumes "buffers_ok r" and "isRealCredId (credId r)" and "recordType r = RecordType_CredentialV1"
  shows "isStoredCredValid r \<longleftrightarrow> validateCred r"
proof -
  have sym: "same_credential r (toCacheRecord r)" if "same_credential (toCacheRecord r) r"
    using that by (simp add: same_credential_def)
  show ?thesis
  proof
    assume v: "isStoredCredValid r"
    then have "validateCredential (Some (cred r)) (credType r) 0"
      "strnlen (name r) (MAX_NAME_LENGTH + 1) \<le> MAX_NAME_LENGTH" "validateCred (toCacheRecord r)"
      by (auto simp: isStoredCredValid_def split: if_splits)
    then show "validateCred r"
      using validateCred_same toCacheRecord_same assms(1) sym by blast
  next
    assume v: "validateCred r"
    then have "validateCredential (Some (cred r)) (credType r) 0"
      "strnlen (name r) (MAX_NAME_LENGTH + 1) \<le> MAX_NAME_LENGTH"
      by (auto simp: validateCred_def Let_def split: if_splits)
    moreover from this have "validateCred (toCacheRecord r)"
      using validateCred_same [OF v assms(1)] toCacheRecord_same assms(1) by blast
    ultimately show "isStoredCredValid r" using assms by (simp add: isStoredCredValid_def)
  qed
qed

end
