(* ===== verification/Pass_Chain.thy ===== *)
theory Pass_Chain
  imports Pass_Store
begin

text \<open>
  The chain of records in storage: the laws of the \<open>Preferences\<close> library as a locale, the
  well-formed chain, what each operation of \<open>Pass_Store\<close> does to it, and the recovery of a chain
  after a power cut between two writes.  A power cut is the same library behind a switch that
  lets a given number of changes through and drops the rest (\<open>powerCut\<close>): what the flash then
  holds is what the firmware finds at its next start.
\<close>

section \<open>The interface of the storage\<close>

locale preferences =
  fixes P :: "'n Preferences"
    and content :: "'n \<Rightarrow> string \<Rightarrow> (nat \<times> CredRecord) option"
  assumes isKey_content: "isKey P n k \<longleftrightarrow> content n k \<noteq> None"
    and getBytesLength_content:
      "getBytesLength P n k = (case content n k of None \<Rightarrow> 0 | Some (l, _) \<Rightarrow> l)"
    and getBytes_content:
      "content n k = Some (sizeof_CredRecord, r) \<Longrightarrow> getBytes P n k buf = (sizeof_CredRecord, r)"
    and putBytes_content:
      "fst (putBytes P n k r) = sizeof_CredRecord \<Longrightarrow>
       content (snd (putBytes P n k r)) = (content n)(k \<mapsto> (sizeof_CredRecord, r))"
    and removeKey_content: "content (snd (removeKey P n k)) = (content n)(k := None)"
    and clearNs_content: "content (snd (clearNs P n)) = Map.empty"
    and openNs_content: "content (snd (openNs P n)) = content n"

locale reliable_preferences = preferences +
  assumes putBytes_writes: "fst (putBytes P n k r) = sizeof_CredRecord"
    and openNs_opens: "fst (openNs P n)"

lemma credKey_inj: "credKey i = credKey j \<longleftrightarrow> i = j"
proof
  assume "credKey i = credKey j"
  moreover have "unat i < 16 ^ 8" and "unat j < 16 ^ 8"
    using unat_u32_less [of i] unat_u32_less [of j] by simp_all
  ultimately have "unat i = unat j"
    by (intro hex_digits_inj [of _ 8]) (simp_all add: credKey_def ID_LENGTH_def)
  then show "i = j" by (simp add: word_unat_eq_iff)
qed simp

lemma readData_recordType: "readData P n i = Some r \<Longrightarrow> recordType r = RecordType_CredentialV1"
  by (auto simp: readData_def Let_def split: if_splits prod.splits)

context preferences
begin

lemma readData_content:
  "readData P n i =
     (case content n (credKey i) of None \<Rightarrow> None
      | Some (l, r) \<Rightarrow> if l = sizeof_CredRecord \<and> recordType r = RecordType_CredentialV1
                      then Some r else None)"
  by (auto simp: readData_def Let_def getBytesLength_content getBytes_content sizeof_CredRecord_def
           split: option.splits prod.splits)

lemma readData_remove:
  "readData P (snd (removeKey P n (credKey i))) = (readData P n)(i := None)"
  by (rule ext) (simp add: readData_content removeKey_content credKey_inj)

lemma readData_open: "readData P (snd (openNs P n)) = readData P n"
  by (rule ext) (simp add: readData_content openNs_content)

lemma readData_clear: "readData P (snd (clearNs P n)) = Map.empty"
  by (rule ext) (simp add: readData_content clearNs_content)

end

context reliable_preferences
begin

lemma writeData_ok: "recordType r = RecordType_CredentialV1 \<Longrightarrow> fst (writeData P n r)"
  by (simp add: writeData_def putBytes_writes split: prod.splits) (metis fst_conv putBytes_writes)

lemma readData_write:
  assumes "recordType r = RecordType_CredentialV1"
  shows "readData P (snd (writeData P n r)) = (readData P n)(credId r \<mapsto> r)"
proof
  fix i
  have "snd (writeData P n r) = snd (putBytes P n (credKey (credId r)) r)"
    using assms by (simp add: writeData_def split: prod.splits)
  then show "readData P (snd (writeData P n r)) i = ((readData P n)(credId r \<mapsto> r)) i"
    using assms putBytes_writes by (auto simp: readData_content putBytes_content credKey_inj)
qed

end

section \<open>The power cut\<close>

definition powerCut :: "'n Preferences \<Rightarrow> ('n \<times> nat) Preferences" where
  "powerCut P =
     \<lparr>openNs = (\<lambda>(n, k). (True, (n, k))),
      isKey = (\<lambda>(n, k). isKey P n),
      getBytesLength = (\<lambda>(n, k). getBytesLength P n),
      getBytes = (\<lambda>(n, k). getBytes P n),
      putBytes = (\<lambda>(n, k) key r.
        if k = 0 then (sizeof_CredRecord, (n, 0))
        else case putBytes P n key r of (w, n') \<Rightarrow> (w, (n', k - 1))),
      removeKey = (\<lambda>(n, k) key.
        if k = 0 then (True, (n, 0)) else case removeKey P n key of (b, n') \<Rightarrow> (b, (n', k - 1))),
      clearNs = (\<lambda>(n, k).
        if k = 0 then (True, (n, 0)) else case clearNs P n of (b, n') \<Rightarrow> (b, (n', k - 1)))\<rparr>"

lemma readData_cut [simp]: "readData (powerCut P) (n, k) = readData P n"
  by (rule ext) (simp add: readData_def powerCut_def Let_def)

lemma verifyLocalChain_cut [simp]: "verifyLocalChain (powerCut P) (n, k) = verifyLocalChain P n"
  by (rule ext) (simp add: verifyLocalChain_def cong: option.case_cong if_cong)

lemma writeData_cut:
  "snd (writeData (powerCut P) (n, k) r) =
     (if recordType r \<noteq> RecordType_CredentialV1 then (n, k)
      else if k = 0 then (n, 0) else (snd (writeData P n r), k - 1))"
  by (simp add: writeData_def powerCut_def split: prod.splits)

lemma removeKey_cut:
  "snd (removeKey (powerCut P) (n, k) key) =
     (if k = 0 then (n, 0) else (snd (removeKey P n key), k - 1))"
  by (simp add: powerCut_def split: prod.splits)

section \<open>The chain\<close>

text \<open>
  \<open>dseg rd p xs q\<close>: the records of \<open>xs\<close> are linked in this order, the first one back to \<open>p\<close> and the
  last one on to \<open>q\<close>.
\<close>

fun dseg :: "(u32 \<rightharpoonup> CredRecord) \<Rightarrow> u32 \<Rightarrow> u32 list \<Rightarrow> u32 \<Rightarrow> bool" where
  "dseg rd p [] q = True"
| "dseg rd p (x # xs) q =
     ((\<exists>r. rd x = Some r \<and> credId r = x \<and> prevId r = p \<and> nextId r = hd (xs @ [q])) \<and> dseg rd x xs q)"

text \<open>
  The invariant of the storage: HEAD, the credentials \<open>xs\<close> in the order of their insertion, TAIL;
  nothing else is stored; every credential is valid; TAIL knows the next free identifier \<open>nid\<close>.
\<close>

definition store_ok :: "(u32 \<rightharpoonup> CredRecord) \<Rightarrow> u32 list \<Rightarrow> u32 \<Rightarrow> bool" where
  "store_ok rd xs nid \<longleftrightarrow>
     dseg rd FIRST_KEY (FIRST_KEY # xs @ [LAST_KEY]) nid \<and>
     distinct xs \<and> 0 < nid \<and>
     (\<forall>x \<in> set xs. isRealCredId x \<and> x < nid \<and> (\<forall>r. rd x = Some r \<longrightarrow> isStoredCredValid r)) \<and>
     dom rd = insert FIRST_KEY (insert LAST_KEY (set xs)) \<and>
     (\<forall>i r. rd i = Some r \<longrightarrow> recordType r = RecordType_CredentialV1)"

text \<open>What the storage holds, as a list of credentials without links.\<close>

definition entries :: "(u32 \<rightharpoonup> CredRecord) \<Rightarrow> u32 list \<Rightarrow> CacheRecord list" where
  "entries rd xs = map (\<lambda>x. toCacheRecord (the (rd x))) xs"

lemma dseg_append:
  "dseg rd p (xs @ ys) q \<longleftrightarrow> dseg rd p xs (hd (ys @ [q])) \<and> dseg rd (last (p # xs)) ys q"
proof (induction xs arbitrary: p)
  case (Cons x xs)
  have "hd ((xs @ ys) @ [q]) = hd (xs @ [hd (ys @ [q])])" by (cases xs; cases ys) auto
  with Cons show ?case by auto
qed simp

lemma dseg_frame: "x \<notin> set xs \<Longrightarrow> dseg (rd(x := v)) p xs q = dseg rd p xs q"
  by (induction xs arbitrary: p) auto

lemma dseg_Some: "dseg rd p xs q \<Longrightarrow> x \<in> set xs \<Longrightarrow> \<exists>r. rd x = Some r \<and> credId r = x"
  by (induction xs arbitrary: p) auto

lemma FIRST_ne_LAST [simp]: "FIRST_KEY \<noteq> LAST_KEY" "LAST_KEY \<noteq> FIRST_KEY"
  by (simp_all add: FIRST_KEY_def LAST_KEY_def)

lemma real_simps [simp]: "\<not> isRealCredId FIRST_KEY" "\<not> isRealCredId LAST_KEY"
  by (simp_all add: isRealCredId_def)

text \<open>
  The walk of \<open>repair_loop\<close> over records in good order: it reaches the last one with as many steps
  fewer as there are records behind it.
\<close>

lemma repair_walk:
  assumes "dseg rd p (x # ys) q" and "readData P n = rd" and "rd x = Some cur"
    and "distinct (x # ys)"
    and "\<forall>y \<in> set ys. isRealCredId y \<and> (\<forall>r. rd y = Some r \<longrightarrow> isStoredCredValid r)"
  shows "\<exists>cur'. rd (last (x # ys)) = Some cur' \<and>
           repair_loop P tail (length ys + s) n cur = repair_loop P tail s n cur'"
  using assms
proof (induction ys arbitrary: p x cur)
  case (Cons y ys)
  from Cons.prems obtain r where r: "rd y = Some r" "credId r = y" "prevId r = x"
    and cur: "credId cur = x" "nextId cur = y" and seg: "dseg rd x (y # ys) q" by auto
  from Cons.prems r have ok: "isRealCredId y" "isStoredCredValid r" "y \<noteq> x" by auto
  have rdP: "readData P n y = Some r" using Cons.prems(2) r(1) by simp
  have step: "repair_loop P tail (Suc (length ys + s)) n cur = repair_loop P tail (length ys + s) n r"
    using ok by (simp add: cur r rdP) (simp add: isRealCredId_def)
  have "\<exists>cur'. rd (last (y # ys)) = Some cur' \<and>
      repair_loop P tail (length ys + s) n r = repair_loop P tail s n cur'"
    using Cons.prems by (intro Cons.IH [OF seg Cons.prems(2) r(1)]) auto
  with step show ?case by simp
qed simp

section \<open>Insertion and deletion on a good chain\<close>

lemma copyCredential_links [simp]:
  "copyCredential d (r\<lparr>nextId := a\<rparr>) = copyCredential d r"
  "copyCredential d (r\<lparr>prevId := a\<rparr>) = copyCredential d r"
  by (cases r; simp add: copyCredential_def)+

lemma links_irrelevant [simp]:
  "isStoredCredValid (r\<lparr>nextId := a\<rparr>) = isStoredCredValid r"
  "isStoredCredValid (r\<lparr>prevId := a\<rparr>) = isStoredCredValid r"
  "toCacheRecord (r\<lparr>nextId := a\<rparr>) = toCacheRecord r"
  "toCacheRecord (r\<lparr>prevId := a\<rparr>) = toCacheRecord r"
  by (simp_all add: isStoredCredValid_def toCacheRecord_def Let_def)

lemma link_swap: "(r :: CredRecord)\<lparr>prevId := a, nextId := b\<rparr> = r\<lparr>nextId := b, prevId := a\<rparr>"
  by (cases r) simp

lemma store_ok_last:
  assumes "store_ok rd xs nid"
  obtains pr tlr where "rd (last (FIRST_KEY # xs)) = Some pr" "credId pr = last (FIRST_KEY # xs)"
    "nextId pr = LAST_KEY" "rd LAST_KEY = Some tlr" "credId tlr = LAST_KEY"
    "prevId tlr = last (FIRST_KEY # xs)" "nextId tlr = nid"
proof -
  obtain as p where ap: "FIRST_KEY # xs = as @ [p]" by (metis append_butlast_last_id list.distinct(1))
  then have "last (FIRST_KEY # xs) = p" by (metis last_snoc)
  moreover have "dseg rd FIRST_KEY (as @ [p] @ [LAST_KEY]) nid"
    using assms ap unfolding store_ok_def by (metis append_Cons append_assoc)
  ultimately show ?thesis using that by (auto simp: dseg_append)
qed

lemma next_id_less: "i \<noteq> LAST_KEY \<Longrightarrow> i < i + 1"
proof -
  assume "i \<noteq> LAST_KEY"
  then have "unat i \<noteq> 4294967295" by (simp add: LAST_KEY_def word_unat_eq_iff)
  then have "unat i + 1 < 4294967296" using unat_u32_less [of i] by simp
  then have "unat (i + 1) = unat i + 1" by (simp add: unat_word_ariths)
  then show "i < i + 1" by (simp add: word_less_nat_alt)
qed

lemma store_ok_insert:
  assumes ok: "store_ok rd xs nid" and real: "isRealCredId nid"
    and pr: "rd p = Some pr" and tlr: "rd LAST_KEY = Some tlr" and p: "p = last (FIRST_KEY # xs)"
    and c: "credId c = nid" "prevId c = p" "nextId c = LAST_KEY" "isStoredCredValid c"
    and rd': "rd' = rd(p \<mapsto> pr\<lparr>nextId := nid\<rparr>, nid \<mapsto> c,
                      LAST_KEY \<mapsto> tlr\<lparr>nextId := nid + 1, prevId := nid\<rparr>)"
  shows "store_ok rd' (xs @ [nid]) (nid + 1) \<and> entries rd' (xs @ [nid]) = entries rd xs @ [toCacheRecord c]"
proof -
  obtain as where ap: "FIRST_KEY # xs = as @ [p]"
    using p by (metis append_butlast_last_id list.distinct(1))
  have xs: "distinct xs" "\<And>x. x \<in> set xs \<Longrightarrow> isRealCredId x \<and> x < nid"
    and dom: "dom rd = insert FIRST_KEY (insert LAST_KEY (set xs))"
    and pos: "0 < nid" using ok by (auto simp: store_ok_def)
  have nidN: "nid \<notin> set (FIRST_KEY # xs)" "nid \<noteq> LAST_KEY" "LAST_KEY \<notin> set (FIRST_KEY # xs)"
    using xs(2) real by (auto simp: isRealCredId_def)
  have "FIRST_KEY \<notin> set xs" using xs(2) real_simps(1) by blast
  then have dist: "distinct (FIRST_KEY # xs)" using xs(1) by simp
  then have dist': "distinct (as @ [p])" by (simp add: ap)
  have lt: "nid < nid + 1" using nidN(2) by (rule next_id_less)
  have seg: "dseg rd FIRST_KEY (as @ [p] @ [LAST_KEY]) nid"
    using ok ap unfolding store_ok_def by (metis append_Cons append_assoc)
  have out: "nid \<notin> set as" "LAST_KEY \<notin> set as" "p \<notin> set as" "p \<noteq> nid" "p \<noteq> LAST_KEY"
    using nidN dist' unfolding ap by auto
  have "dseg rd' FIRST_KEY (as @ [p] @ [nid] @ [LAST_KEY]) (nid + 1)"
    using seg pr tlr c out nidN(2) unfolding rd' by (auto simp: dseg_append dseg_frame)
  then have seg': "dseg rd' FIRST_KEY (FIRST_KEY # (xs @ [nid]) @ [LAST_KEY]) (nid + 1)"
    using ap by (metis append_Cons append_assoc)
  have same: "toCacheRecord (the (rd' x)) = toCacheRecord (the (rd x))"
    "\<forall>r. rd' x = Some r \<longrightarrow> isStoredCredValid r" if "x \<in> set xs" for x
    using that ok pr nidN unfolding rd' store_ok_def by auto
  have new: "rd' nid = Some c" using nidN(2) by (simp add: rd')
  have "store_ok rd' (xs @ [nid]) (nid + 1)"
    unfolding store_ok_def
  proof (intro conjI ballI)
    show "dseg rd' FIRST_KEY (FIRST_KEY # (xs @ [nid]) @ [LAST_KEY]) (nid + 1)" by (rule seg')
    show "distinct (xs @ [nid])" using xs nidN by auto
    show "0 < nid + 1" using pos lt by (rule order.strict_trans)
    show "dom rd' = insert FIRST_KEY (insert LAST_KEY (set (xs @ [nid])))"
      using dom p unfolding rd' by auto
    show "\<forall>i r. rd' i = Some r \<longrightarrow> recordType r = RecordType_CredentialV1"
      using ok c pr tlr unfolding rd' store_ok_def by (auto simp: isStoredCredValid_def split: if_splits)
    fix x assume "x \<in> set (xs @ [nid])"
    then have x: "x \<in> set xs \<or> x = nid" by auto
    then show "isRealCredId x" using xs real by auto
    show "x < nid + 1" using x xs lt by (auto intro: order.strict_trans)
    show "\<forall>r. rd' x = Some r \<longrightarrow> isStoredCredValid r"
      using x same(2) new c(4) by auto
  qed
  moreover have "entries rd' (xs @ [nid]) = entries rd xs @ [toCacheRecord c]"
    using same nidN(2) by (auto simp: entries_def rd')
  ultimately show ?thesis by simp
qed


lemma store_ok_delete:
  assumes ok: "store_ok rd (as @ x # bs) nid"
    and pr: "rd p = Some pr" and qr: "rd q = Some qr"
    and p: "p = last (FIRST_KEY # as)" and q: "q = hd (bs @ [LAST_KEY])"
    and rd': "rd' = rd(p \<mapsto> pr\<lparr>nextId := q\<rparr>, x := None, q \<mapsto> qr\<lparr>prevId := p\<rparr>)"
  shows "store_ok rd' (as @ bs) nid \<and> entries rd' (as @ bs) = entries rd as @ entries rd bs"
proof -
  obtain as' where ap: "FIRST_KEY # as = as' @ [p]"
    using p by (metis append_butlast_last_id list.distinct(1))
  obtain bs' where bq: "bs @ [LAST_KEY] = q # bs'" using q by (cases bs) auto
  have xs: "distinct (as @ x # bs)" "\<And>y. y \<in> set (as @ x # bs) \<Longrightarrow> isRealCredId y \<and> y < nid"
    and dom: "dom rd = insert FIRST_KEY (insert LAST_KEY (set (as @ x # bs)))"
    and pos: "0 < nid" using ok by (auto simp: store_ok_def)
  have fl: "FIRST_KEY \<notin> set (as @ x # bs)" "LAST_KEY \<notin> set (as @ x # bs)"
    using xs(2) real_simps by blast+
  then have "distinct ((FIRST_KEY # as) @ x # (bs @ [LAST_KEY]))" using xs(1) by auto
  then have dist: "distinct (as' @ [p] @ [x] @ [q] @ bs')" by (simp add: ap bq)
  have "dseg rd FIRST_KEY ((FIRST_KEY # as) @ x # (bs @ [LAST_KEY])) nid"
    using ok by (simp add: store_ok_def)
  then have seg: "dseg rd FIRST_KEY (as' @ [p] @ [x] @ [q] @ bs') nid" by (simp add: ap bq)
  have "dseg rd' FIRST_KEY (as' @ [p] @ [q] @ bs') nid"
    using seg pr qr dist unfolding rd' by (auto simp: dseg_append dseg_frame)
  then have "dseg rd' FIRST_KEY ((FIRST_KEY # as) @ (bs @ [LAST_KEY])) nid" by (simp add: ap bq)
  then have seg': "dseg rd' FIRST_KEY (FIRST_KEY # (as @ bs) @ [LAST_KEY]) nid" by simp
  have pq: "p \<in> insert FIRST_KEY (set as)" "q \<in> insert LAST_KEY (set bs)"
    using ap bq by (metis in_set_conv_decomp list.set(2), metis list.set_intros(1) rotate1.simps(2) set_rotate1 list.set(2))
  have same: "toCacheRecord (the (rd' y)) = toCacheRecord (the (rd y))"
    "\<forall>r. rd' y = Some r \<longrightarrow> isStoredCredValid r" if "y \<in> set (as @ bs)" for y
    using that ok xs(1) pr qr unfolding rd' store_ok_def by auto
  have "store_ok rd' (as @ bs) nid"
    unfolding store_ok_def
  proof (intro conjI ballI)
    show "dseg rd' FIRST_KEY (FIRST_KEY # (as @ bs) @ [LAST_KEY]) nid" by (rule seg')
    show "distinct (as @ bs)" "0 < nid" using xs pos by auto
    show "dom rd' = insert FIRST_KEY (insert LAST_KEY (set (as @ bs)))"
      using dom pq dist fl xs(1) unfolding rd' by auto
    show "\<forall>i r. rd' i = Some r \<longrightarrow> recordType r = RecordType_CredentialV1"
      using ok pr qr unfolding rd' store_ok_def by (auto split: if_splits)
    fix y assume y: "y \<in> set (as @ bs)"
    then show "isRealCredId y" "y < nid" using xs(2) by auto
    show "\<forall>r. rd' y = Some r \<longrightarrow> isStoredCredValid r" using same(2) [OF y] .
  qed
  moreover have "entries rd' (as @ bs) = entries rd as @ entries rd bs"
    using same(1) by (auto simp: entries_def)
  ultimately show ?thesis by simp
qed

section \<open>Recovery\<close>

lemma dseg_relink_last:
  assumes "dseg rd a (x # ys) q" and "distinct (x # ys)" and "rd (last (x # ys)) = Some r"
  shows "dseg (rd(last (x # ys) \<mapsto> r\<lparr>nextId := q'\<rparr>)) a (x # ys) q'"
proof -
  obtain zs z where z: "x # ys = zs @ [z]" by (metis append_butlast_last_id list.distinct(1))
  then have l: "last (x # ys) = z" by (metis last_snoc)
  have "dseg (rd(z \<mapsto> r\<lparr>nextId := q'\<rparr>)) a (zs @ [z]) q'"
    using assms unfolding l unfolding z by (auto simp: dseg_append dseg_frame)
  then show ?thesis by (simp only: l) (simp only: z)
qed

lemma garbageCollect_repaired:
  assumes "readData P (prefs st) FIRST_KEY = Some h" and "credId h = FIRST_KEY"
    and "readData P (prefs st) LAST_KEY = Some t" and "credId t = LAST_KEY"
    and "repair_loop P t CRED_GC_MAX_SCAN_ID (prefs st) h = (True, n')"
  shows "garbageCollect P st = st\<lparr>prefs := n'\<rparr>"
  using assms by (simp add: garbageCollect_def ensurePool_def repairCredChain_def)

text \<open>The start of every recovery: HEAD, then the credentials of \<open>ys\<close> in good order.\<close>

lemma repair_from_head:
  assumes rd: "readData P (prefs st) = rd"
    and seg: "dseg rd FIRST_KEY (FIRST_KEY # ys) q" and dist: "distinct (FIRST_KEY # ys)"
    and good: "\<forall>y \<in> set ys. isRealCredId y \<and> (\<forall>r. rd y = Some r \<longrightarrow> isStoredCredValid r)"
    and t: "rd LAST_KEY = Some t" "credId t = LAST_KEY"
    and len: "length ys < CRED_GC_MAX_SCAN_ID"
    and step: "\<And>s cur. rd (last (FIRST_KEY # ys)) = Some cur \<Longrightarrow>
                 repair_loop P t (Suc s) (prefs st) cur = (True, n')"
  shows "garbageCollect P st = st\<lparr>prefs := n'\<rparr>"
proof -
  obtain s where s: "CRED_GC_MAX_SCAN_ID = length ys + Suc s"
    using len by (metis add_Suc_right less_imp_Suc_add)
  obtain h where h: "rd FIRST_KEY = Some h" "credId h = FIRST_KEY" using seg by auto
  obtain cur where "rd (last (FIRST_KEY # ys)) = Some cur"
    "repair_loop P t (length ys + Suc s) (prefs st) h = repair_loop P t (Suc s) (prefs st) cur"
    using repair_walk [OF seg rd h(1) dist good] by blast
  then have "repair_loop P t CRED_GC_MAX_SCAN_ID (prefs st) h = (True, n')"
    unfolding s by (metis step)
  then show ?thesis
    by (rule garbageCollect_repaired [rotated 4]) (use h t in \<open>simp_all add: rd\<close>)
qed

lemma store_ok_dist: "store_ok rd xs nid \<Longrightarrow> distinct (FIRST_KEY # xs @ [LAST_KEY])"
  by (auto simp: store_ok_def isRealCredId_def)

lemma store_ok_front:
  assumes "store_ok rd xs nid"
  shows "dseg rd FIRST_KEY (FIRST_KEY # xs) LAST_KEY"
proof -
  have "dseg rd FIRST_KEY ((FIRST_KEY # xs) @ [LAST_KEY]) nid"
    using assms unfolding store_ok_def by (simp only: append_Cons)
  then show ?thesis unfolding dseg_append by simp
qed

lemma last_ne_LAST: "distinct (FIRST_KEY # xs @ ys @ [LAST_KEY]) \<Longrightarrow> last (FIRST_KEY # xs) \<noteq> LAST_KEY"
  by (cases xs rule: rev_cases) auto

text \<open>A chain in good order is left alone.\<close>

lemma garbageCollect_intact:
  assumes rd: "readData P (prefs st) = rd" and ok: "store_ok rd xs nid"
    and len: "length xs < CRED_GC_MAX_SCAN_ID"
  shows "garbageCollect P st = st"
proof -
  obtain pr tlr where l: "rd (last (FIRST_KEY # xs)) = Some pr" "credId pr = last (FIRST_KEY # xs)"
    "nextId pr = LAST_KEY" "rd LAST_KEY = Some tlr" "credId tlr = LAST_KEY"
    "prevId tlr = last (FIRST_KEY # xs)" using ok by (rule store_ok_last)
  have ne: "last (FIRST_KEY # xs) \<noteq> LAST_KEY" using last_ne_LAST [of xs "[]"] store_ok_dist [OF ok] by simp
  have seg: "dseg rd FIRST_KEY (FIRST_KEY # xs) LAST_KEY"
    using ok by (rule store_ok_front)
  have "garbageCollect P st = st\<lparr>prefs := prefs st\<rparr>"
  proof (rule repair_from_head [OF rd seg _ _ l(4,5) len])
    show "distinct (FIRST_KEY # xs)" using store_ok_dist [OF ok] by auto
    show "\<forall>y\<in>set xs. isRealCredId y \<and> (\<forall>r. rd y = Some r \<longrightarrow> isStoredCredValid r)"
      using ok by (simp add: store_ok_def)
    fix s cur assume "rd (last (FIRST_KEY # xs)) = Some cur"
    then show "repair_loop P tlr (Suc s) (prefs st) cur = (True, prefs st)"
      using l ne rd by (auto simp: isRealCredId_def)
  qed
  then show ?thesis by simp
qed

context reliable_preferences
begin

lemma recover_insert1:
  assumes rd: "readData P (prefs st) = rd(p \<mapsto> pr\<lparr>nextId := nid\<rparr>)"
    and ok: "store_ok rd xs nid" and real: "isRealCredId nid"
    and p: "p = last (FIRST_KEY # xs)" and pr: "rd p = Some pr"
    and len: "length xs < CRED_GC_MAX_SCAN_ID"
  shows "readData P (prefs (garbageCollect P st)) = rd"
proof -
  let ?rd = "rd(p \<mapsto> pr\<lparr>nextId := nid\<rparr>)"
  obtain tlr where l: "credId pr = p" "nextId pr = LAST_KEY" "rd LAST_KEY = Some tlr"
    "credId tlr = LAST_KEY" "prevId tlr = p" using store_ok_last [OF ok] pr p by (metis option.inject)
  have dist: "distinct (FIRST_KEY # xs @ [LAST_KEY])" using ok by (rule store_ok_dist)
  have ne: "p \<noteq> LAST_KEY" using last_ne_LAST [of xs "[]"] dist p by simp
  have pin: "p \<in> insert FIRST_KEY (set xs)" using p last_in_set [of "FIRST_KEY # xs"] by simp
  have nidN: "rd nid = None" "nid \<noteq> p" "nid \<noteq> FIRST_KEY"
    using ok real pin by (auto simp: store_ok_def isRealCredId_def)
  have seg: "dseg rd FIRST_KEY (FIRST_KEY # xs) LAST_KEY"
    using ok by (rule store_ok_front)
  have seg': "dseg ?rd FIRST_KEY (FIRST_KEY # xs) nid"
    using dseg_relink_last [OF seg] dist pr p by auto
  have v1: "recordType pr = RecordType_CredentialV1" using ok pr by (auto simp: store_ok_def)
  let ?n' = "snd (writeData P (prefs st) (pr\<lparr>nextId := LAST_KEY\<rparr>))"
  have "garbageCollect P st = st\<lparr>prefs := ?n'\<rparr>"
  proof (rule repair_from_head [OF rd seg'])
    show "distinct (FIRST_KEY # xs)" using dist by auto
    show "\<forall>y\<in>set xs. isRealCredId y \<and> (\<forall>r. ?rd y = Some r \<longrightarrow> isStoredCredValid r)"
      using ok pr by (auto simp: store_ok_def)
    show "?rd LAST_KEY = Some tlr" "credId tlr = LAST_KEY" using l ne by auto
    fix s cur assume "?rd (last (FIRST_KEY # xs)) = Some cur"
    then have "cur = pr\<lparr>nextId := nid\<rparr>" using p by simp
    then show "repair_loop P tlr (Suc s) (prefs st) cur = (True, ?n')"
      using l nidN rd by simp
  qed (rule len)
  then have "readData P (prefs (garbageCollect P st)) = ?rd(p \<mapsto> pr\<lparr>nextId := LAST_KEY\<rparr>)"
    using readData_write [of "pr\<lparr>nextId := LAST_KEY\<rparr>" "prefs st"] v1 l rd by simp
  also have "\<dots> = rd" using l(2) pr by (simp add: fun_upd_idem)
  finally show ?thesis .
qed

lemma recover_insert2:
  assumes rd: "readData P (prefs st) = rd(p \<mapsto> pr\<lparr>nextId := nid\<rparr>, nid \<mapsto> c)"
    and ok: "store_ok rd xs nid" and real: "isRealCredId nid"
    and p: "p = last (FIRST_KEY # xs)" and pr: "rd p = Some pr" and t: "rd LAST_KEY = Some tlr"
    and c: "credId c = nid" "prevId c = p" "nextId c = LAST_KEY" "isStoredCredValid c"
    and len: "length xs + 1 < CRED_GC_MAX_SCAN_ID"
  shows "readData P (prefs (garbageCollect P st)) =
     rd(p \<mapsto> pr\<lparr>nextId := nid\<rparr>, nid \<mapsto> c, LAST_KEY \<mapsto> tlr\<lparr>nextId := nid + 1, prevId := nid\<rparr>)"
proof -
  let ?rd = "rd(p \<mapsto> pr\<lparr>nextId := nid\<rparr>, nid \<mapsto> c)"
  have l: "credId pr = p" "nextId pr = LAST_KEY" "credId tlr = LAST_KEY" "prevId tlr = p"
    using store_ok_last [OF ok] pr p t by (metis option.inject)+
  have dist: "distinct (FIRST_KEY # xs @ [LAST_KEY])" using ok by (rule store_ok_dist)
  have ne: "p \<noteq> LAST_KEY" using last_ne_LAST [of xs "[]"] dist p by simp
  have pin: "p \<in> insert FIRST_KEY (set xs)" using p last_in_set [of "FIRST_KEY # xs"] by simp
  have nidN: "nid \<notin> set (FIRST_KEY # xs)" "nid \<noteq> p" "nid \<noteq> FIRST_KEY" "nid \<noteq> LAST_KEY"
    using ok real pin by (auto simp: store_ok_def isRealCredId_def)
  have seg: "dseg rd FIRST_KEY (FIRST_KEY # xs) LAST_KEY"
    using ok by (rule store_ok_front)
  have "dseg (rd(p \<mapsto> pr\<lparr>nextId := nid\<rparr>)) FIRST_KEY (FIRST_KEY # xs) nid"
    using dseg_relink_last [OF seg] dist pr p by auto
  then have "dseg ?rd FIRST_KEY (FIRST_KEY # xs) nid"
    using dseg_frame [OF nidN(1)] by blast
  then have "dseg ?rd FIRST_KEY ((FIRST_KEY # xs) @ [nid]) LAST_KEY"
    unfolding dseg_append using c p by simp
  then have seg': "dseg ?rd FIRST_KEY (FIRST_KEY # xs @ [nid]) LAST_KEY" by (simp only: append_Cons)
  have v1: "recordType tlr = RecordType_CredentialV1" using ok t by (auto simp: store_ok_def)
  let ?t' = "tlr\<lparr>prevId := nid, nextId := nid + 1\<rparr>"
  have "garbageCollect P st = st\<lparr>prefs := snd (writeData P (prefs st) ?t')\<rparr>"
  proof (rule repair_from_head [OF rd seg'])
    show "distinct (FIRST_KEY # xs @ [nid])" using dist nidN(1) by auto
    show "\<forall>y\<in>set (xs @ [nid]). isRealCredId y \<and> (\<forall>r. ?rd y = Some r \<longrightarrow> isStoredCredValid r)"
      using ok pr c real by (auto simp: store_ok_def)
    show "?rd LAST_KEY = Some tlr" "credId tlr = LAST_KEY" using l ne t nidN by auto
    show "length (xs @ [nid]) < CRED_GC_MAX_SCAN_ID" using len by simp
    fix s cur assume "?rd (last (FIRST_KEY # xs @ [nid])) = Some cur"
    then have "cur = c" by simp
    then show "repair_loop P tlr (Suc s) (prefs st) cur = (True, snd (writeData P (prefs st) ?t'))"
      using l nidN rd c t ne by auto
  qed
  then have "readData P (prefs (garbageCollect P st)) = ?rd(LAST_KEY \<mapsto> ?t')"
    using readData_write [of ?t' "prefs st"] v1 l rd by simp
  then show ?thesis by (simp add: link_swap)
qed

text \<open>
  A deletion cut after the first write leaves the deleted record behind (\<open>rest = rd x\<close>), one cut
  after the second does not (\<open>rest = None\<close>); both are completed.
\<close>

lemma recover_delete:
  assumes rd: "readData P (prefs st) = rd(p \<mapsto> pr\<lparr>nextId := q\<rparr>, x := rest)"
    and rest: "rest = rd x \<or> rest = None"
    and ok: "store_ok rd (as @ x # bs) nid"
    and pr: "rd p = Some pr" and qr: "rd q = Some qr"
    and p: "p = last (FIRST_KEY # as)" and q: "q = hd (bs @ [LAST_KEY])"
    and len: "length as < CRED_GC_MAX_SCAN_ID"
  shows "readData P (prefs (garbageCollect P st)) =
     rd(p \<mapsto> pr\<lparr>nextId := q\<rparr>, x := None, q \<mapsto> qr\<lparr>prevId := p\<rparr>)"
proof -
  let ?rd = "rd(p \<mapsto> pr\<lparr>nextId := q\<rparr>, x := rest)"
  obtain as' where ap: "FIRST_KEY # as = as' @ [p]"
    using p by (metis append_butlast_last_id list.distinct(1))
  obtain bs' where bq: "bs @ [LAST_KEY] = q # bs'" using q by (cases bs) auto
  have dist0: "distinct ((FIRST_KEY # as) @ x # (bs @ [LAST_KEY]))" using store_ok_dist [OF ok] by simp
  then have dist: "distinct (as' @ [p] @ [x] @ [q] @ bs')" by (simp add: ap bq)
  have "dseg rd FIRST_KEY ((FIRST_KEY # as) @ x # (bs @ [LAST_KEY])) nid"
    using ok by (simp add: store_ok_def)
  then have seg: "dseg rd FIRST_KEY (as' @ [p] @ [x] @ [q] @ bs') nid" by (simp add: ap bq)
  then have l: "credId pr = p" "credId qr = q" "prevId qr = x" "\<exists>xr. rd x = Some xr \<and> credId xr = x"
    "prevId pr = last (FIRST_KEY # as')"
    using pr qr by (auto simp: dseg_append)
  have "q \<in> set (bs @ [LAST_KEY])" unfolding bq by simp
  then have qF: "q \<noteq> FIRST_KEY" and xF: "x \<noteq> FIRST_KEY" using dist0 by auto
  have xpp: "x \<noteq> prevId pr" using l(5) dist xF by (auto split: if_splits)
  have "dseg ?rd FIRST_KEY (as' @ [p]) q"
    using seg pr dist by (auto simp: dseg_append dseg_frame)
  then have seg': "dseg ?rd FIRST_KEY (FIRST_KEY # as) q" by (simp only: ap)
  have v1: "recordType qr = RecordType_CredentialV1" using ok qr by (auto simp: store_ok_def)
  have qv: "q \<noteq> LAST_KEY \<Longrightarrow> isRealCredId q \<and> isStoredCredValid qr"
    using ok qr q by (cases bs) (auto simp: store_ok_def)
  obtain tlr where t: "rd LAST_KEY = Some tlr" "credId tlr = LAST_KEY" using ok by (rule store_ok_last)
  have pxL: "p \<noteq> LAST_KEY" "x \<noteq> LAST_KEY" "p \<noteq> x" "q \<noteq> p" "q \<noteq> x"
    using dist dist0 p last_ne_LAST [of as "x # bs"] by auto
  define n1 where "n1 = (case rest of None \<Rightarrow> prefs st | Some _ \<Rightarrow> snd (removeKey P (prefs st) (credKey x)))"
  have n1: "readData P n1 = rd(p \<mapsto> pr\<lparr>nextId := q\<rparr>, x := None)"
    using rd by (auto simp: n1_def readData_remove split: option.splits)
  let ?q' = "qr\<lparr>prevId := p\<rparr>"
  have "garbageCollect P st = st\<lparr>prefs := snd (writeData P n1 ?q')\<rparr>"
  proof (rule repair_from_head [OF rd seg'])
    show "distinct (FIRST_KEY # as)" using dist0 by auto
    show "\<forall>y\<in>set as. isRealCredId y \<and> (\<forall>r. ?rd y = Some r \<longrightarrow> isStoredCredValid r)"
      using ok pr dist0 by (auto simp: store_ok_def)
    show "?rd LAST_KEY = Some tlr" "credId tlr = LAST_KEY" using t pxL by auto
    fix s cur assume "?rd (last (FIRST_KEY # as)) = Some cur"
    then have cur: "cur = pr\<lparr>nextId := q\<rparr>" using p pxL by simp
    have nx: "readData P (prefs st) q = Some qr" using rd qr pxL by simp
    have xr: "readData P (prefs st) x = rest" using rd by simp
    have x1: "readData P n1 x = None" using n1 by simp
    have "(case rest of None \<Rightarrow> prefs st
        | Some deleted \<Rightarrow> if x = credId deleted then snd (removeKey P (prefs st) (credKey (credId deleted))) else prefs st) = n1"
      using rest l(4) by (auto simp: n1_def split: option.splits)
    then show "repair_loop P tlr (Suc s) (prefs st) cur = (True, snd (writeData P n1 ?q'))"
      using l(1,2,3) qF qv nx xr x1 xpp pxL unfolding cur by (auto simp: Let_def isRealCredId_def)
  qed (rule len)
  then show ?thesis
    using readData_write [of ?q' n1] v1 l n1 by simp
qed

end

end
