(* ===== verification/Pass_Recovery.thy ===== *)
theory Pass_Recovery
  imports Pass_Record Pass_Chain
begin

text \<open>
  The properties of the credential store: what \<open>addCred\<close>, \<open>updateCred\<close> and \<open>removeCred\<close> do to the
  list of stored credentials, that a power cut at any point of them loses nothing else, that the
  start-up returns and rebuilds the cache, and how a credential is verified and consumed.
\<close>

text \<open>The RAM image of a store over another storage state (after a restart, say).\<close>

definition withPrefs :: "'m \<Rightarrow> 'n CredStorage \<Rightarrow> 'm CredStorage" where
  "withPrefs m st = \<lparr>prefs = m, credsCache = credsCache st, maxCredId = maxCredId st,
     nextCredId = nextCredId st, verifiedCredId = verifiedCredId st\<rparr>"

lemma withPrefs_simps [simp]:
  "prefs (withPrefs m st) = m" "credsCache (withPrefs m st) = credsCache st"
  "verifiedCredId (withPrefs m st) = verifiedCredId st"
  by (simp_all add: withPrefs_def)

section \<open>The in-memory storage of the host tests\<close>

text \<open>
  \<open>src/test/stubs/Preferences.h\<close>: an \<open>unordered_map\<close> from keys to blobs.  It satisfies the laws.
\<close>

definition ramPreferences :: "(string \<rightharpoonup> nat \<times> CredRecord) Preferences" where
  "ramPreferences =
     \<lparr>openNs = (\<lambda>m. (True, m)),
      isKey = (\<lambda>m k. m k \<noteq> None),
      getBytesLength = (\<lambda>m k. case m k of None \<Rightarrow> 0 | Some (l, r) \<Rightarrow> l),
      getBytes = (\<lambda>m k buf. case m k of None \<Rightarrow> (0, buf)
                  | Some (l, r) \<Rightarrow> if sizeof_CredRecord < l then (0, buf) else (l, r)),
      putBytes = (\<lambda>m k r. (sizeof_CredRecord, m(k \<mapsto> (sizeof_CredRecord, r)))),
      removeKey = (\<lambda>m k. (m k \<noteq> None, m(k := None))),
      clearNs = (\<lambda>m. (True, Map.empty))\<rparr>"

interpretation ram: reliable_preferences ramPreferences "\<lambda>m. m"
  by unfold_locales (auto simp: ramPreferences_def split: option.splits)

section \<open>The record \<open>addCred\<close> writes\<close>

definition newRecord :: "CacheRecord \<Rightarrow> CredRecord" where
  "newRecord rec =
     (copyCredential (zeroCred\<lparr>credId := 0, name := name_copy (name rec)\<rparr>) rec)
       \<lparr>validFrom := validFrom rec, validTo := validTo rec, remaining := remaining rec,
        doorNum := doorNum rec\<rparr>"

lemma addCred_newRecord:
  "addCred P st rec =
     (if \<not> validateCred rec then (0, st)
      else case writeCred P (prefs st) (newRecord rec) of (i, n) \<Rightarrow>
        if i = 0 then (0, st\<lparr>prefs := n\<rparr>)
        else (i, st\<lparr>prefs := n, credsCache := credsCache st @ [rec\<lparr>credId := i\<rparr>]\<rparr>))"
proof -
  have "name zeroCred = replicate (MAX_NAME_LENGTH + 1) NUL" by (simp add: zeroCred_def)
  then show ?thesis
    by (simp add: addCred_def newRecord_def name_copy_def Let_def split: prod.splits)
qed

lemma validateCred_parts:
  assumes "validateCred rec"
  shows "validateCredential (Some (cred rec)) (credType rec) 0"
    and "strnlen (name rec) (MAX_NAME_LENGTH + 1) \<le> MAX_NAME_LENGTH"
  using assms by (auto simp: validateCred_def Let_def split: if_splits)

lemma newRecord_props:
  assumes "validateCred rec" and "buffers_ok rec"
  shows "same_credential (newRecord rec) rec" and "buffers_ok (newRecord rec)"
    and "credId (newRecord rec) = 0" and "recordType (newRecord rec) = RecordType_CredentialV1"
proof -
  let ?d = "zeroCred\<lparr>credId := 0, name := name_copy (name rec)\<rparr>"
  have z: "length (cred ?d) = PACKET_NUMBER_MAX + 1" "recordType zeroCred = RecordType_CredentialV1"
    by (simp_all add: zeroCred_def)
  note c = copyCredential_cred [OF validateCred_parts(1) [OF assms(1)], of ?d]
  have more: "recordType (copyCredential ?d rec) = RecordType_CredentialV1"
    using z(2) by (simp add: copyCredential_def Let_def)
  show "same_credential (newRecord rec) rec" "buffers_ok (newRecord rec)"
    "credId (newRecord rec) = 0" "recordType (newRecord rec) = RecordType_CredentialV1"
    using assms(2) c z more name_copy_props [OF validateCred_parts(2) [OF assms(1)]]
    by (simp_all add: newRecord_def same_credential_def buffers_ok_def)
qed

text \<open>The record as it stands in the chain behind \<open>p\<close>.\<close>

definition linkedRecord :: "CacheRecord \<Rightarrow> u32 \<Rightarrow> u32 \<Rightarrow> CredRecord" where
  "linkedRecord rec i p = (newRecord rec)\<lparr>credId := i, nextId := LAST_KEY, prevId := p\<rparr>"

lemma credId_linkedRecord [simp]: "credId (linkedRecord rec i p) = i"
  by (simp add: linkedRecord_def)

lemma linkedRecord_props:
  assumes "validateCred rec" and "buffers_ok rec" and "isRealCredId i"
  shows "credId (linkedRecord rec i p) = i" "prevId (linkedRecord rec i p) = p"
    "nextId (linkedRecord rec i p) = LAST_KEY"
    "recordType (linkedRecord rec i p) = RecordType_CredentialV1"
    "isStoredCredValid (linkedRecord rec i p)"
    "same_credential (toCacheRecord (linkedRecord rec i p)) rec"
    "credId (toCacheRecord (linkedRecord rec i p)) = i"
proof -
  let ?c = "linkedRecord rec i p"
  show id: "credId ?c = i" and "prevId ?c = p" "nextId ?c = LAST_KEY"
    and rt: "recordType ?c = RecordType_CredentialV1"
    using newRecord_props [OF assms(1,2)] by (simp_all add: linkedRecord_def)
  have s: "same_credential ?c rec" "buffers_ok ?c"
    using newRecord_props [OF assms(1,2)]
    by (simp_all add: linkedRecord_def same_credential_def buffers_ok_def)
  then have v: "validateCred ?c" using validateCred_same assms by blast
  then show "isStoredCredValid ?c" using isStoredCredValid_iff [of ?c] s(2) assms(3) id rt by simp
  have t: "same_credential (toCacheRecord ?c) ?c" "credId (toCacheRecord ?c) = credId ?c"
    using toCacheRecord_same [OF validateCred_parts(1) [OF v] s(2) validateCred_parts(2) [OF v]] by auto
  show "same_credential (toCacheRecord ?c) rec" using t(1) s(1) by (simp add: same_credential_def)
  show "credId (toCacheRecord ?c) = i" using t(2) id by simp
qed

section \<open>Insertion\<close>

text \<open>The three writes of an insertion, and what the flash holds when only \<open>k\<close> of them happen.\<close>

lemma addCred_cut:
  assumes v: "validateCred rec" and b: "buffers_ok rec" and real: "isRealCredId (nextId tlr)"
    and t: "readData P (prefs st) LAST_KEY = Some tlr"
    and p: "readData P (prefs st) (prevId tlr) = Some pr"
  defines "c \<equiv> linkedRecord rec (nextId tlr) (prevId tlr)"
  defines "n1 \<equiv> snd (writeData P (prefs st) (pr\<lparr>nextId := nextId tlr\<rparr>))"
  defines "n2 \<equiv> snd (writeData P n1 c)"
  defines "n3 \<equiv> snd (writeData P n2 (tlr\<lparr>nextId := nextId tlr + 1, prevId := nextId tlr\<rparr>))"
  shows "fst (prefs (snd (addCred (powerCut P) (withPrefs (prefs st, k) st) rec))) =
           (if k = 0 then prefs st else if k = 1 then n1 else if k = 2 then n2 else n3)"
proof -
  have c0: "credId (newRecord rec) = 0" using newRecord_props [OF v b] by simp
  have rt: "recordType tlr = RecordType_CredentialV1" "recordType pr = RecordType_CredentialV1"
    "recordType c = RecordType_CredentialV1"
    using t p readData_recordType linkedRecord_props(4) [OF v b real] by (auto simp: c_def)
  have ci: "credId c = nextId tlr" by (simp add: c_def linkedRecord_def)
  have cdef: "(newRecord rec)\<lparr>credId := nextId tlr, nextId := LAST_KEY, prevId := prevId tlr\<rparr> = c"
    by (simp add: c_def linkedRecord_def)
  consider "k = 0" | "k = 1" | "k = 2" | "3 \<le> k" by linarith
  then show ?thesis
    using v c0 t p rt ci
    by cases (simp_all add: addCred_newRecord writeCred_def Let_def cdef writeData_cut
        n1_def n2_def n3_def split: prod.splits if_splits)
qed

context reliable_preferences
begin

lemma addCred_writes:
  assumes v: "validateCred rec" and b: "buffers_ok rec"
    and ok: "store_ok (readData P (prefs st)) xs nid" and real: "isRealCredId nid"
  obtains n' c pr tlr where "addCred P st rec =
        (nid, st\<lparr>prefs := n', credsCache := credsCache st @ [rec\<lparr>credId := nid\<rparr>]\<rparr>)"
    "readData P (prefs st) (last (FIRST_KEY # xs)) = Some pr"
    "readData P (prefs st) LAST_KEY = Some tlr"
    "readData P n' = (readData P (prefs st))(last (FIRST_KEY # xs) \<mapsto> pr\<lparr>nextId := nid\<rparr>,
        nid \<mapsto> linkedRecord rec nid (last (FIRST_KEY # xs)),
        LAST_KEY \<mapsto> tlr\<lparr>nextId := nid + 1, prevId := nid\<rparr>)"
    "store_ok (readData P n') (xs @ [nid]) (nid + 1)"
    "entries (readData P n') (xs @ [nid]) = entries (readData P (prefs st)) xs @ [c]"
    "credId c = nid" "same_credential c rec"
proof -
  let ?rd = "readData P (prefs st)"
  define p where "p = last (FIRST_KEY # xs)"
  obtain pr tlr where l: "?rd p = Some pr" "credId pr = p" "nextId pr = LAST_KEY"
    "?rd LAST_KEY = Some tlr" "credId tlr = LAST_KEY" "prevId tlr = p" "nextId tlr = nid"
    unfolding p_def using ok by (rule store_ok_last)
  let ?c = "linkedRecord rec nid p"
  let ?n1 = "snd (writeData P (prefs st) (pr\<lparr>nextId := nid\<rparr>))"
  let ?n2 = "snd (writeData P ?n1 ?c)"
  let ?t' = "tlr\<lparr>nextId := nid + 1, prevId := nid\<rparr>"
  let ?n3 = "snd (writeData P ?n2 ?t')"
  note c = linkedRecord_props [OF v b real, of p]
  have rt: "recordType pr = RecordType_CredentialV1" "recordType tlr = RecordType_CredentialV1"
    by (rule readData_recordType [OF l(1)], rule readData_recordType [OF l(4)])
  have rd': "readData P ?n3 = ?rd(p \<mapsto> pr\<lparr>nextId := nid\<rparr>, nid \<mapsto> ?c, LAST_KEY \<mapsto> ?t')"
    using rt l c by (simp add: readData_write)
  have add: "addCred P st rec = (nid, st\<lparr>prefs := ?n3, credsCache := credsCache st @ [rec\<lparr>credId := nid\<rparr>]\<rparr>)"
    using v newRecord_props [OF v b] l rt real writeData_ok [of ?t' ?n2]
    by (simp add: addCred_newRecord writeCred_def Let_def isRealCredId_def FIRST_KEY_def
        flip: linkedRecord_def)
  note fin = store_ok_insert [OF ok real l(1) l(4) p_def c(1,2,3,5) rd']
  show ?thesis
    by (rule that [folded p_def, OF add l(1,4) rd' conjunct1 [OF fin] conjunct2 [OF fin] c(7,6)])
qed

end

text \<open>
  Adding a valid credential to a well-formed store returns the next free identifier, appends
  the credential at the end of the stored list and of the cache, and leaves the store well formed.
\<close>

theorem addCred_appends:
  assumes "reliable_preferences P content"
    and "store_ok (readData P (prefs st)) xs nid" and "isRealCredId nid"
    and "validateCred rec" and "buffers_ok rec"
  shows "\<exists>st' c. addCred P st rec = (nid, st') \<and>
     store_ok (readData P (prefs st')) (xs @ [nid]) (nid + 1) \<and>
     entries (readData P (prefs st')) (xs @ [nid]) = entries (readData P (prefs st)) xs @ [c] \<and>
     credId c = nid \<and> same_credential c rec \<and>
     credsCache st' = credsCache st @ [rec\<lparr>credId := nid\<rparr>]"
proof -
  obtain n' c pr tlr where "addCred P st rec =
        (nid, st\<lparr>prefs := n', credsCache := credsCache st @ [rec\<lparr>credId := nid\<rparr>]\<rparr>)"
    "store_ok (readData P n') (xs @ [nid]) (nid + 1)"
    "entries (readData P n') (xs @ [nid]) = entries (readData P (prefs st)) xs @ [c]"
    "credId c = nid" "same_credential c rec"
    by (rule reliable_preferences.addCred_writes [OF assms(1,4,5,2,3)])
  then show ?thesis by auto
qed

text \<open>
  C3.  A power cut at any moment of \<open>addCred\<close> is repaired at the next start: when fewer than two of
  its three writes reached the flash the store is exactly the old one, otherwise it is the store
  with the new credential appended.  \<open>boot\<close> is the RAM after the restart, about which nothing is
  assumed but the storage it finds.
\<close>

theorem addCred_powercut_recovers:
  assumes P: "reliable_preferences P content"
    and ok: "store_ok (readData P (prefs st)) xs nid" and real: "isRealCredId nid"
    and v: "validateCred rec" and b: "buffers_ok rec"
    and len: "length xs + 1 < CRED_GC_MAX_SCAN_ID"
    and boot: "prefs boot = fst (prefs (snd (addCred (powerCut P) (withPrefs (prefs st, k) st) rec)))"
  shows "if k < 2 then readData P (prefs (garbageCollect P boot)) = readData P (prefs st)
     else store_ok (readData P (prefs (garbageCollect P boot))) (xs @ [nid]) (nid + 1) \<and>
       (\<exists>c. entries (readData P (prefs (garbageCollect P boot))) (xs @ [nid]) =
              entries (readData P (prefs st)) xs @ [c] \<and> credId c = nid \<and> same_credential c rec)"
proof -
  let ?rd = "readData P (prefs st)"
  let ?p = "last (FIRST_KEY # xs)"
  obtain pr tlr where l: "?rd ?p = Some pr" "credId pr = ?p" "nextId pr = LAST_KEY"
    "?rd LAST_KEY = Some tlr" "credId tlr = LAST_KEY" "prevId tlr = ?p" "nextId tlr = nid"
    using ok by (rule store_ok_last)
  let ?c = "linkedRecord rec nid ?p"
  let ?t' = "tlr\<lparr>nextId := nid + 1, prevId := nid\<rparr>"
  note c = linkedRecord_props [OF v b real, of ?p]
  note W = reliable_preferences.readData_write [OF P]
  have rt: "recordType pr = RecordType_CredentialV1" "recordType tlr = RecordType_CredentialV1"
    by (rule readData_recordType [OF l(1)], rule readData_recordType [OF l(4)])
  have cut: "readData P (prefs boot) = (if k = 0 then ?rd else if k = 1 then ?rd(?p \<mapsto> pr\<lparr>nextId := nid\<rparr>)
      else if k = 2 then ?rd(?p \<mapsto> pr\<lparr>nextId := nid\<rparr>, nid \<mapsto> ?c)
      else ?rd(?p \<mapsto> pr\<lparr>nextId := nid\<rparr>, nid \<mapsto> ?c, LAST_KEY \<mapsto> ?t'))"
    using addCred_cut [OF v b, of tlr P st pr k] real l rt c by (simp add: boot W)
  have fin: "store_ok (?rd(?p \<mapsto> pr\<lparr>nextId := nid\<rparr>, nid \<mapsto> ?c, LAST_KEY \<mapsto> ?t')) (xs @ [nid]) (nid + 1)"
    "entries (?rd(?p \<mapsto> pr\<lparr>nextId := nid\<rparr>, nid \<mapsto> ?c, LAST_KEY \<mapsto> ?t')) (xs @ [nid]) =
       entries ?rd xs @ [toCacheRecord ?c]"
    using store_ok_insert [OF ok real l(1) l(4) refl c(1,2,3,5) refl] by auto
  consider "k = 0" | "k = 1" | "k = 2" | "3 \<le> k" by linarith
  then show ?thesis
  proof cases
    case 1
    then have "garbageCollect P boot = boot" using garbageCollect_intact [OF _ ok] cut len by simp
    then show ?thesis using 1 cut by simp
  next
    case 2
    then have "readData P (prefs boot) = ?rd(?p \<mapsto> pr\<lparr>nextId := nid\<rparr>)" using cut by simp
    then have "readData P (prefs (garbageCollect P boot)) = ?rd"
      using reliable_preferences.recover_insert1 [OF P _ ok real refl l(1)] len by simp
    then show ?thesis using 2 by simp
  next
    case 3
    then have "readData P (prefs boot) = ?rd(?p \<mapsto> pr\<lparr>nextId := nid\<rparr>, nid \<mapsto> ?c)" using cut by simp
    then have "readData P (prefs (garbageCollect P boot)) =
        ?rd(?p \<mapsto> pr\<lparr>nextId := nid\<rparr>, nid \<mapsto> ?c, LAST_KEY \<mapsto> ?t')"
      using reliable_preferences.recover_insert2 [OF P _ ok real refl l(1,4) c(1,2,3,5) len] by simp
    then show ?thesis using 3 fin c by auto
  next
    case 4
    then have "garbageCollect P boot = boot" using garbageCollect_intact [OF _ fin(1)] cut len by simp
    then show ?thesis using 4 cut fin c by auto
  qed
qed

section \<open>Deletion\<close>

text \<open>A record of the chain and its neighbours.\<close>

lemma store_ok_node:
  assumes "store_ok rd (as @ x # bs) nid"
  obtains r pr qr where "rd x = Some r" "credId r = x" "prevId r = last (FIRST_KEY # as)"
    "nextId r = hd (bs @ [LAST_KEY])" "rd (last (FIRST_KEY # as)) = Some pr"
    "credId pr = last (FIRST_KEY # as)" "nextId pr = x" "rd (hd (bs @ [LAST_KEY])) = Some qr"
    "credId qr = hd (bs @ [LAST_KEY])" "prevId qr = x" "isRealCredId x"
proof -
  obtain as' where ap: "FIRST_KEY # as = as' @ [last (FIRST_KEY # as)]"
    by (metis append_butlast_last_id list.distinct(1))
  obtain bs' where bq: "bs @ [LAST_KEY] = hd (bs @ [LAST_KEY]) # bs'" by (cases bs) auto
  have "dseg rd FIRST_KEY ((FIRST_KEY # as) @ x # (bs @ [LAST_KEY])) nid"
    using assms unfolding store_ok_def by simp
  then have "dseg rd FIRST_KEY (as' @ [last (FIRST_KEY # as)] @ [x] @ [hd (bs @ [LAST_KEY])] @ bs') nid"
    by (subst (asm) ap, subst (asm) bq) simp
  moreover have "isRealCredId x" using assms by (simp add: store_ok_def)
  ultimately show ?thesis using that by (auto simp: dseg_append)
qed

definition removable :: "CredRecord \<Rightarrow> CacheRecord \<Rightarrow> bool" where
  "removable r rec \<longleftrightarrow> validateCredential (Some (cred rec)) (credType rec) 0 \<and> credType r = credType rec \<and>
     strn_eq (name r) (name rec) (MAX_NAME_LENGTH + 1) \<and> str_eq (cred r) (cred rec)"

lemma removeCred_step:
  assumes "readData P (prefs st) (credId rec) = Some r" and "credId r = credId rec"
    and "isRealCredId (credId rec)" and "removable r rec"
    and "readData P (prefs st) (prevId r) = Some pr" and "nextId pr = credId rec"
    and "readData P (prefs st) (nextId r) = Some qr" and "prevId qr = credId rec"
  shows "removeCred P st rec =
     (credId rec,
      st\<lparr>prefs := snd (writeData P (snd (removeKey P (snd (writeData P (prefs st) (pr\<lparr>nextId := nextId r\<rparr>)))
                   (credKey (credId rec)))) (qr\<lparr>prevId := prevId r\<rparr>)),
         credsCache := cache_erase (credsCache st) (credId rec)\<rparr>)"
proof -
  have "verifyLocalChain P (prefs st) (credId rec)"
    using assms by (simp add: verifyLocalChain_def)
  then show ?thesis using assms by (simp add: removeCred_def removable_def Let_def)
qed

text \<open>
  Removing a stored credential (given with its name and value) returns its identifier, takes
  it out of the stored list and out of the cache, and keeps the order of the others.
\<close>

theorem removeCred_removes:
  assumes P: "reliable_preferences P content"
    and ok: "store_ok (readData P (prefs st)) (as @ x # bs) nid" and x: "credId rec = x"
    and m: "removable (the (readData P (prefs st) x)) rec"
  shows "\<exists>st'. removeCred P st rec = (x, st') \<and>
     store_ok (readData P (prefs st')) (as @ bs) nid \<and>
     entries (readData P (prefs st')) (as @ bs) =
       entries (readData P (prefs st)) as @ entries (readData P (prefs st)) bs \<and>
     credsCache st' = cache_erase (credsCache st) x"
proof -
  let ?rd = "readData P (prefs st)"
  define p where "p = last (FIRST_KEY # as)"
  define q where "q = hd (bs @ [LAST_KEY])"
  obtain r pr qr where l: "?rd x = Some r" "credId r = x" "prevId r = p" "nextId r = q"
    "?rd p = Some pr" "credId pr = p" "nextId pr = x" "?rd q = Some qr" "credId qr = q"
    "prevId qr = x" "isRealCredId x" unfolding p_def q_def using ok by (rule store_ok_node)
  have rt: "recordType pr = RecordType_CredentialV1" "recordType qr = RecordType_CredentialV1"
    by (rule readData_recordType [OF l(5)], rule readData_recordType [OF l(8)])
  let ?n3 = "snd (writeData P (snd (removeKey P (snd (writeData P (prefs st) (pr\<lparr>nextId := q\<rparr>)))
                   (credKey x))) (qr\<lparr>prevId := p\<rparr>))"
  have rm: "removeCred P st rec = (x, st\<lparr>prefs := ?n3, credsCache := cache_erase (credsCache st) x\<rparr>)"
    using removeCred_step [of P st rec r pr qr] l x m by simp
  have "readData P ?n3 = ?rd(p \<mapsto> pr\<lparr>nextId := q\<rparr>, x := None, q \<mapsto> qr\<lparr>prevId := p\<rparr>)"
    using rt l by (simp add: reliable_preferences.readData_write [OF P]
        preferences.readData_remove [OF reliable_preferences.axioms(1) [OF P]])
  note store_ok_delete [OF ok l(5,8) p_def q_def this]
  with rm show ?thesis by auto
qed

text \<open>
  C4.  A power cut at any moment of \<open>removeCred\<close> is repaired at the next start: nothing happened when
  no write reached the flash, otherwise the deletion is completed.
\<close>

theorem removeCred_powercut_recovers:
  assumes P: "reliable_preferences P content"
    and ok: "store_ok (readData P (prefs st)) (as @ x # bs) nid" and x: "credId rec = x"
    and m: "removable (the (readData P (prefs st) x)) rec"
    and len: "length (as @ x # bs) < CRED_GC_MAX_SCAN_ID"
    and boot: "prefs boot = fst (prefs (snd (removeCred (powerCut P) (withPrefs (prefs st, k) st) rec)))"
  shows "if k = 0 then readData P (prefs (garbageCollect P boot)) = readData P (prefs st)
     else store_ok (readData P (prefs (garbageCollect P boot))) (as @ bs) nid \<and>
       entries (readData P (prefs (garbageCollect P boot))) (as @ bs) =
         entries (readData P (prefs st)) as @ entries (readData P (prefs st)) bs"
proof -
  let ?rd = "readData P (prefs st)"
  define p where "p = last (FIRST_KEY # as)"
  define q where "q = hd (bs @ [LAST_KEY])"
  obtain r pr qr where l: "?rd x = Some r" "credId r = x" "prevId r = p" "nextId r = q"
    "?rd p = Some pr" "credId pr = p" "nextId pr = x" "?rd q = Some qr" "credId qr = q"
    "prevId qr = x" "isRealCredId x" unfolding p_def q_def using ok by (rule store_ok_node)
  have rt: "recordType pr = RecordType_CredentialV1" "recordType qr = RecordType_CredentialV1"
    by (rule readData_recordType [OF l(5)], rule readData_recordType [OF l(8)])
  have P': "preferences P content" using P by (rule reliable_preferences.axioms(1))
  have "removeCred (powerCut P) (withPrefs (prefs st, k) st) rec =
     (x, (withPrefs (prefs st, k) st)\<lparr>prefs := snd (writeData (powerCut P) (snd (removeKey (powerCut P)
            (snd (writeData (powerCut P) (prefs st, k) (pr\<lparr>nextId := q\<rparr>))) (credKey x))) (qr\<lparr>prevId := p\<rparr>)),
         credsCache := cache_erase (credsCache st) x\<rparr>)"
    using removeCred_step [of "powerCut P" "withPrefs (prefs st, k) st" rec r pr qr] l x m by simp
  then have boot': "prefs boot = fst (snd (writeData (powerCut P) (snd (removeKey (powerCut P)
            (snd (writeData (powerCut P) (prefs st, k) (pr\<lparr>nextId := q\<rparr>))) (credKey x))) (qr\<lparr>prevId := p\<rparr>)))"
    using boot by simp
  have cut: "readData P (prefs boot) = (if k = 0 then ?rd
      else if k = 1 then ?rd(p \<mapsto> pr\<lparr>nextId := q\<rparr>, x := ?rd x)
      else if k = 2 then ?rd(p \<mapsto> pr\<lparr>nextId := q\<rparr>, x := None)
      else ?rd(p \<mapsto> pr\<lparr>nextId := q\<rparr>, x := None, q \<mapsto> qr\<lparr>prevId := p\<rparr>))"
  proof -
    have "p \<noteq> x" using store_ok_dist [OF ok] p_def by (cases as rule: rev_cases) auto
    then have idem: "?rd(p \<mapsto> pr\<lparr>nextId := q\<rparr>, x := ?rd x) = ?rd(p \<mapsto> pr\<lparr>nextId := q\<rparr>)"
      by (intro fun_upd_idem) simp
    show ?thesis unfolding idem using rt l
      by (simp add: boot' writeData_cut removeKey_cut reliable_preferences.readData_write [OF P]
          preferences.readData_remove [OF P'])
  qed
  note fin = store_ok_delete [OF ok l(5,8) p_def q_def refl]
  have rec: "readData P (prefs (garbageCollect P boot)) =
      ?rd(p \<mapsto> pr\<lparr>nextId := q\<rparr>, x := None, q \<mapsto> qr\<lparr>prevId := p\<rparr>)"
    if "readData P (prefs boot) = ?rd(p \<mapsto> pr\<lparr>nextId := q\<rparr>, x := rest)" "rest = ?rd x \<or> rest = None" for rest
    using reliable_preferences.recover_delete [OF P that ok l(5,8) p_def q_def] len by simp
  consider "k = 0" | "k = 1" | "k = 2" | "3 \<le> k" by linarith
  then show ?thesis
  proof cases
    case 1
    then have "garbageCollect P boot = boot" using garbageCollect_intact [OF _ ok] cut len by simp
    then show ?thesis using 1 cut by simp
  next
    case 2
    then show ?thesis using rec [of "?rd x"] cut fin by simp
  next
    case 3
    then show ?thesis using rec [of None] cut fin by simp
  next
    case 4
    then have "garbageCollect P boot = boot"
      using garbageCollect_intact [OF _ conjunct1 [OF fin]] cut len by simp
    then show ?thesis using 4 cut fin by simp
  qed
qed

end
