(* ===== verification/Pass_Invariant.thy ===== *)
theory Pass_Invariant
  imports Pass_Recovery
begin

text \<open>
  The invariant of the whole credential store, the flash and the cache together, and the machine
  of its operations: every state that the calls of the class reach from a good start is good.
\<close>

definition cache_ok :: "(u32 \<rightharpoonup> CredRecord) \<Rightarrow> CacheRecord list \<Rightarrow> u32 list \<Rightarrow> bool" where
  "cache_ok rd cache xs \<longleftrightarrow>
     distinct (map credId cache) \<and>
     (\<forall>c \<in> set cache. credId c \<in> set xs \<and> validateCred c \<and> buffers_ok c \<and>
        same_credential c (the (rd (credId c))))"

text \<open>The records of HEAD and TAIL carry no credential; every record has full buffers.\<close>

definition records_ok :: "(u32 \<rightharpoonup> CredRecord) \<Rightarrow> bool" where
  "records_ok rd \<longleftrightarrow>
     (\<forall>i r. rd i = Some r \<longrightarrow> buffers_ok r) \<and>
     (\<forall>i r. rd i = Some r \<longrightarrow> \<not> isRealCredId i \<longrightarrow> cstr (cred r) = [])"

definition storage_inv :: "'n Preferences \<Rightarrow> 'n CredStorage \<Rightarrow> u32 list \<Rightarrow> u32 \<Rightarrow> bool" where
  "storage_inv P st xs nid \<longleftrightarrow>
     store_ok (readData P (prefs st)) xs nid \<and> records_ok (readData P (prefs st)) \<and>
     cache_ok (readData P (prefs st)) (credsCache st) xs"

lemma same_credential_refl [simp]: "same_credential r r"
  by (simp add: same_credential_def)

lemma same_credential_sym: "same_credential a b \<Longrightarrow> same_credential b a"
  by (simp add: same_credential_def)

lemma same_credential_trans: "same_credential a b \<Longrightarrow> same_credential b c \<Longrightarrow> same_credential a c"
  by (simp add: same_credential_def)

lemma same_credential_links [simp]:
  "same_credential c ((r :: CredRecord)\<lparr>nextId := i\<rparr>) = same_credential c r"
  "same_credential c (r\<lparr>prevId := i\<rparr>) = same_credential c r"
  "same_credential ((d :: CacheRecord)\<lparr>credId := j\<rparr>) r = same_credential d r"
  by (simp_all add: same_credential_def)

lemma buffers_ok_links [simp]:
  "buffers_ok ((r :: CredRecord)\<lparr>nextId := i\<rparr>) = buffers_ok r"
  "buffers_ok (r\<lparr>prevId := i\<rparr>) = buffers_ok r"
  "buffers_ok ((d :: CacheRecord)\<lparr>credId := j\<rparr>) = buffers_ok d"
  by (simp_all add: buffers_ok_def)

lemma validateCred_links [simp]: "validateCred ((d :: CacheRecord)\<lparr>credId := j\<rparr>) = validateCred d"
  by (simp add: validateCred_def)

lemma remaining_irrelevant [simp]:
  "validateCred ((d :: CacheRecord)\<lparr>remaining := v\<rparr>) = validateCred d"
  "buffers_ok (d\<lparr>remaining := v\<rparr>) = buffers_ok d"
  by (simp_all add: validateCred_def buffers_ok_def)

text \<open>A change of the storage that keeps the data of the cached records keeps the cache good.\<close>

lemma cache_ok_mono:
  assumes "cache_ok rd cache xs" and "set xs \<subseteq> set ys"
    and "\<And>x. x \<in> set xs \<Longrightarrow> same_credential (the (rd x)) (the (rd' x))"
  shows "cache_ok rd' cache ys"
  using assms unfolding cache_ok_def by (blast intro: same_credential_trans)

section \<open>Insertion\<close>

lemma same_linkedRecord:
  assumes "validateCred rec" and "buffers_ok rec"
  shows "same_credential rec (linkedRecord rec i p)" and "buffers_ok (linkedRecord rec i p)"
  using newRecord_props [OF assms]
  by (simp_all add: linkedRecord_def same_credential_def buffers_ok_def)

lemma addCred_success:
  assumes P: "reliable_preferences P content" and inv: "storage_inv P st xs nid"
    and real: "isRealCredId nid" and v: "validateCred rec" and b: "buffers_ok rec"
  shows "fst (addCred P st rec) = nid"
    and "storage_inv P (snd (addCred P st rec)) (xs @ [nid]) (nid + 1)"
    and "credsCache (snd (addCred P st rec)) = credsCache st @ [rec\<lparr>credId := nid\<rparr>]"
proof -
  let ?rd = "readData P (prefs st)"
  let ?p = "last (FIRST_KEY # xs)"
  from inv have ok: "store_ok ?rd xs nid" and ro: "records_ok ?rd"
    and co: "cache_ok ?rd (credsCache st) xs" by (auto simp: storage_inv_def)
  obtain n' c pr tlr where add: "addCred P st rec =
      (nid, st\<lparr>prefs := n', credsCache := credsCache st @ [rec\<lparr>credId := nid\<rparr>]\<rparr>)"
    and pr: "?rd ?p = Some pr" and tlr: "?rd LAST_KEY = Some tlr"
    and rd': "readData P n' = ?rd(?p \<mapsto> pr\<lparr>nextId := nid\<rparr>, nid \<mapsto> linkedRecord rec nid ?p,
                LAST_KEY \<mapsto> tlr\<lparr>nextId := nid + 1, prevId := nid\<rparr>)"
    and ok': "store_ok (readData P n') (xs @ [nid]) (nid + 1)"
    by (rule reliable_preferences.addCred_writes [OF P v b ok real])
  show "fst (addCred P st rec) = nid"
    "credsCache (snd (addCred P st rec)) = credsCache st @ [rec\<lparr>credId := nid\<rparr>]" by (simp_all add: add)
  have fresh: "nid \<notin> set xs" "LAST_KEY \<notin> set xs" "nid \<noteq> LAST_KEY" "FIRST_KEY \<notin> set xs"
    using ok real by (auto simp: store_ok_def isRealCredId_def)
  have "records_ok (readData P n')"
    using ro pr tlr real same_linkedRecord [OF v b]
    unfolding rd' records_ok_def by (auto split: if_splits)
  moreover have "cache_ok (readData P n') (credsCache st @ [rec\<lparr>credId := nid\<rparr>]) (xs @ [nid])"
  proof -
    have "cache_ok (readData P n') (credsCache st) (xs @ [nid])"
      by (rule cache_ok_mono [OF co]) (use fresh pr in \<open>auto simp: rd'\<close>)
    moreover have "\<forall>c \<in> set (credsCache st). credId c \<noteq> nid"
      using co fresh by (auto simp: cache_ok_def)
    ultimately show ?thesis
      using v b same_linkedRecord [OF v b] fresh by (auto simp: cache_ok_def rd')
  qed
  ultimately show "storage_inv P (snd (addCred P st rec)) (xs @ [nid]) (nid + 1)"
    using ok' by (simp add: storage_inv_def add)
qed

lemma addCred_inv:
  assumes P: "reliable_preferences P content" and inv: "storage_inv P st xs nid"
    and real: "isRealCredId nid" and b: "buffers_ok rec"
  shows "\<exists>xs' nid'. storage_inv P (snd (addCred P st rec)) xs' nid'"
proof (cases "validateCred rec")
  case True
  then show ?thesis using addCred_success(2) [OF P inv real _ b] by blast
next
  case False
  then show ?thesis using inv by (auto simp: addCred_def)
qed

section \<open>Deletion\<close>

lemma cache_erase_filter:
  "distinct (map credId cs) \<Longrightarrow> cache_erase cs i = filter (\<lambda>c. credId c \<noteq> i) cs"
  by (induction cs) (auto simp: image_iff intro!: filter_True [symmetric])

lemma removeCred_fails:
  assumes "\<not> (\<exists>r. readData P (prefs st) (credId rec) = Some r \<and> removable r rec)"
  shows "removeCred P st rec = (0, st)"
  using assms by (auto simp: removeCred_def removable_def Let_def split: option.splits)

lemma removable_real:
  assumes "records_ok rd" and "rd i = Some r" and "removable r rec"
  shows "isRealCredId i"
proof (rule ccontr)
  assume "\<not> isRealCredId i"
  then have "cstr (cred rec) = []" using assms by (auto simp: records_ok_def removable_def str_eq_def)
  then show False
    using assms(3) by (auto simp: removable_def validateCredential_iff Let_def cstr_of_take min_len_def
        store_consts split: if_splits)
qed

lemma removeCred_success:
  assumes P: "reliable_preferences P content" and inv: "storage_inv P st xs nid"
    and r: "readData P (prefs st) (credId rec) = Some r" and m: "removable r rec"
  shows "fst (removeCred P st rec) = credId rec"
    and "storage_inv P (snd (removeCred P st rec)) (filter (\<lambda>x. x \<noteq> credId rec) xs) nid"
    and "credsCache (snd (removeCred P st rec)) = filter (\<lambda>c. credId c \<noteq> credId rec) (credsCache st)"
    and "isRealCredId (credId rec)"
proof -
  let ?rd = "readData P (prefs st)"
  let ?x = "credId rec"
  from inv have ok: "store_ok ?rd xs nid" and ro: "records_ok ?rd"
    and co: "cache_ok ?rd (credsCache st) xs" by (auto simp: storage_inv_def)
  show real: "isRealCredId ?x" using ro r m by (rule removable_real)
  then have "?x \<in> set xs" using ok r by (auto simp: store_ok_def isRealCredId_def)
  then obtain as bs where xs: "xs = as @ ?x # bs" by (auto simp: in_set_conv_decomp)
  have "distinct xs" using ok by (simp add: store_ok_def)
  then have "distinct (as @ ?x # bs)" using xs by simp
  then have "filter (\<lambda>x. x \<noteq> ?x) (as @ ?x # bs) = as @ bs"
    by (rule filter_out_one)
  then have fil: "filter (\<lambda>x. x \<noteq> ?x) xs = as @ bs" using xs by simp
  define p where "p = last (FIRST_KEY # as)"
  define q where "q = hd (bs @ [LAST_KEY])"
  obtain r' pr qr where l: "?rd ?x = Some r'" "credId r' = ?x" "prevId r' = p" "nextId r' = q"
    "?rd p = Some pr" "credId pr = p" "nextId pr = ?x" "?rd q = Some qr" "credId qr = q" "prevId qr = ?x"
    unfolding p_def q_def using ok unfolding xs by (rule store_ok_node)
  have rt: "recordType pr = RecordType_CredentialV1" "recordType qr = RecordType_CredentialV1"
    by (rule readData_recordType [OF l(5)], rule readData_recordType [OF l(8)])
  let ?n3 = "snd (writeData P (snd (removeKey P (snd (writeData P (prefs st) (pr\<lparr>nextId := q\<rparr>)))
                   (credKey ?x))) (qr\<lparr>prevId := p\<rparr>))"
  have rm: "removeCred P st rec = (?x, st\<lparr>prefs := ?n3, credsCache := cache_erase (credsCache st) ?x\<rparr>)"
    using removeCred_step [of P st rec r' pr qr] l real r m by simp
  have rd': "readData P ?n3 = ?rd(p \<mapsto> pr\<lparr>nextId := q\<rparr>, ?x := None, q \<mapsto> qr\<lparr>prevId := p\<rparr>)"
    using rt l by (simp add: reliable_preferences.readData_write [OF P]
        preferences.readData_remove [OF reliable_preferences.axioms(1) [OF P]])
  show "fst (removeCred P st rec) = ?x" by (simp add: rm)
  have ce: "cache_erase (credsCache st) ?x = filter (\<lambda>c. credId c \<noteq> ?x) (credsCache st)"
    using co by (intro cache_erase_filter) (simp add: cache_ok_def)
  then show "credsCache (snd (removeCred P st rec)) = filter (\<lambda>c. credId c \<noteq> ?x) (credsCache st)"
    by (simp add: rm)
  have pq: "p \<noteq> ?x" "q \<noteq> ?x" "p \<noteq> q"
    using store_ok_dist [OF ok] unfolding xs p_def q_def
    by (cases as rule: rev_cases; cases bs; auto)+
  have "records_ok (readData P ?n3)"
    using ro l unfolding rd' records_ok_def by (auto split: if_splits)
  moreover have "cache_ok (readData P ?n3) (filter (\<lambda>c. credId c \<noteq> ?x) (credsCache st)) (as @ bs)"
    using co l pq unfolding cache_ok_def rd' fil [symmetric] by (auto simp: distinct_map_filter)
  moreover have "store_ok (readData P ?n3) (as @ bs) nid"
    using store_ok_delete [OF _ l(5,8) p_def q_def rd'] ok xs by simp
  ultimately show "storage_inv P (snd (removeCred P st rec)) (filter (\<lambda>x. x \<noteq> ?x) xs) nid"
    by (simp add: storage_inv_def rm fil ce)
qed

section \<open>Update\<close>

definition updatable :: "CredRecord \<Rightarrow> CacheRecord \<Rightarrow> bool" where
  "updatable r rec \<longleftrightarrow> credType r = credType rec \<and> str_eq (name r) (name rec) \<and> str_eq (cred r) (cred rec)"

definition updatedRecord :: "CredRecord \<Rightarrow> CacheRecord \<Rightarrow> CredRecord" where
  "updatedRecord r rec = r\<lparr>validFrom := validFrom rec, validTo := validTo rec,
     remaining := remaining rec, doorNum := doorNum rec\<rparr>"

lemma updatedRecord_fields [simp]:
  "credId (updatedRecord r rec) = credId r" "prevId (updatedRecord r rec) = prevId r"
  "nextId (updatedRecord r rec) = nextId r" "recordType (updatedRecord r rec) = recordType r"
  "cred (updatedRecord r rec) = cred r" "buffers_ok (updatedRecord r rec) = buffers_ok r"
  by (simp_all add: updatedRecord_def buffers_ok_def)

lemma updatedRecord_same: "updatable r rec \<Longrightarrow> same_credential (updatedRecord r rec) rec"
  by (simp add: updatable_def updatedRecord_def same_credential_def str_eq_def)

lemma dseg_data:
  assumes "rd x = Some r" "credId r' = credId r" "prevId r' = prevId r" "nextId r' = nextId r"
  shows "dseg (rd(x \<mapsto> r')) p xs q = dseg rd p xs q"
  using assms by (induction xs arbitrary: p) auto

lemma store_ok_credId:
  assumes "store_ok rd xs nid" and "rd i = Some r"
  shows "credId r = i"
proof -
  have "i \<in> set (FIRST_KEY # xs @ [LAST_KEY])" using assms by (auto simp: store_ok_def)
  then show ?thesis using assms dseg_Some unfolding store_ok_def by fastforce
qed

lemma store_ok_data:
  assumes ok: "store_ok rd xs nid" and r: "rd x = Some r"
    and r': "credId r' = credId r" "prevId r' = prevId r" "nextId r' = nextId r"
      "recordType r' = RecordType_CredentialV1" "isStoredCredValid r'"
  shows "store_ok (rd(x \<mapsto> r')) xs nid"
proof -
  have "x \<in> dom rd" using r by auto
  then have "insert x (dom rd) = dom rd" by auto
  then show ?thesis using ok r r' unfolding store_ok_def dseg_data [of rd, OF r r'(1-3)] by auto
qed

lemma verifyLocalChain_ok:
  assumes "store_ok (readData P n) xs nid" and "x \<in> set xs"
  shows "verifyLocalChain P n x"
proof -
  obtain as bs where "xs = as @ x # bs" using assms(2) by (auto simp: in_set_conv_decomp)
  then have ok: "store_ok (readData P n) (as @ x # bs) nid" using assms(1) by simp
  obtain r pr qr where l: "readData P n x = Some r" "credId r = x" "prevId r = last (FIRST_KEY # as)"
    "nextId r = hd (bs @ [LAST_KEY])" "readData P n (last (FIRST_KEY # as)) = Some pr"
    "credId pr = last (FIRST_KEY # as)" "nextId pr = x" "readData P n (hd (bs @ [LAST_KEY])) = Some qr"
    "credId qr = hd (bs @ [LAST_KEY])" "prevId qr = x" "isRealCredId x" using ok by (rule store_ok_node)
  then show ?thesis by (simp add: verifyLocalChain_def)
qed

lemma updateCred_fails:
  assumes "\<not> (validateCred rec \<and> (\<exists>r. readData P (prefs st) (credId rec) = Some r \<and> updatable r rec))"
  shows "updateCred P st rec = (False, st)"
  using assms by (auto simp: updateCred_def update_def updatable_def Let_def split: option.splits)

lemma cache_put_set:
  "distinct (map credId cs) \<Longrightarrow>
     set (cache_put cs rec) = insert rec {c \<in> set cs. credId c \<noteq> credId rec}"
  by (induction cs) (auto simp: image_iff)

lemma cache_put_distinct: "distinct (map credId cs) \<Longrightarrow> distinct (map credId (cache_put cs rec))"
proof (induction cs)
  case (Cons c cs)
  then show ?case by (auto simp: cache_put_set)
qed simp

lemma updateCred_success:
  assumes P: "reliable_preferences P content" and inv: "storage_inv P st xs nid"
    and v: "validateCred rec" and b: "buffers_ok rec"
    and r: "readData P (prefs st) (credId rec) = Some r" and m: "updatable r rec"
  shows "\<exists>n'. updateCred P st rec = (True, st\<lparr>prefs := n', credsCache := cache_put (credsCache st) rec\<rparr>) \<and>
           readData P n' = (readData P (prefs st))(credId rec \<mapsto> updatedRecord r rec) \<and>
           storage_inv P (snd (updateCred P st rec)) xs nid"
proof -
  let ?rd = "readData P (prefs st)"
  let ?x = "credId rec"
  let ?r' = "updatedRecord r rec"
  from inv have ok: "store_ok ?rd xs nid" and ro: "records_ok ?rd"
    and co: "cache_ok ?rd (credsCache st) xs" by (auto simp: storage_inv_def)
  have rid: "credId r = ?x" using ok r by (rule store_ok_credId)
  have rt: "recordType r = RecordType_CredentialV1" using r by (rule readData_recordType)
  have rem: "cstr (cred rec) \<noteq> []"
    using validateCred_parts(1) [OF v] by (auto simp: validateCredential_iff Let_def cstr_of_take min_len_def
        store_consts split: if_splits)
  then have real: "isRealCredId ?x"
    using ro r m unfolding records_ok_def updatable_def str_eq_def by metis
  then have xin: "?x \<in> set xs" using ok r by (auto simp: store_ok_def isRealCredId_def)
  have br: "buffers_ok ?r'" using ro r by (auto simp: records_ok_def)
  have same: "same_credential ?r' rec" using m by (rule updatedRecord_same)
  then have "validateCred ?r'" using validateCred_same [OF v b br] by blast
  then have val: "isStoredCredValid ?r'" using isStoredCredValid_iff [OF br] real rid rt by simp
  have loc: "verifyLocalChain P (prefs st) ?x" using ok xin by (rule verifyLocalChain_ok)
  let ?n' = "snd (writeData P (prefs st) ?r')"
  have rd': "readData P ?n' = ?rd(?x \<mapsto> ?r')"
    using reliable_preferences.readData_write [OF P, of ?r'] rt rid by simp
  have "fst (writeData P (prefs st) ?r')"
    using reliable_preferences.writeData_ok [OF P, of ?r'] rt by simp
  then have w: "writeCred P (prefs st) ?r' = (?x, ?n')"
    using real rid r loc by (simp add: writeCred_def Let_def isRealCredId_def FIRST_KEY_def)
  have up: "updateCred P st rec = (True, st\<lparr>prefs := ?n', credsCache := cache_put (credsCache st) rec\<rparr>)"
    using v r m w real by (simp add: updateCred_def update_def updatable_def Let_def
        isRealCredId_def FIRST_KEY_def flip: updatedRecord_def)
  have "records_ok (readData P ?n')" using ro br real unfolding rd' records_ok_def by auto
  moreover have "store_ok (readData P ?n') xs nid"
    unfolding rd' using rt val by (intro store_ok_data [OF ok r]) simp_all
  moreover have "cache_ok (readData P ?n') (cache_put (credsCache st) rec) xs"
    using co v b xin same_credential_sym [OF same] unfolding cache_ok_def rd'
    by (auto simp: cache_put_set cache_put_distinct)
  ultimately have "storage_inv P (snd (updateCred P st rec)) xs nid"
    by (simp add: storage_inv_def up)
  with up rd' show ?thesis by blast
qed

lemma updateCred_inv:
  assumes P: "reliable_preferences P content" and inv: "storage_inv P st xs nid" and b: "buffers_ok rec"
  shows "storage_inv P (snd (updateCred P st rec)) xs nid"
proof (cases "validateCred rec \<and> (\<exists>r. readData P (prefs st) (credId rec) = Some r \<and> updatable r rec)")
  case True
  then show ?thesis using updateCred_success [OF P inv _ b] by blast
next
  case False
  then show ?thesis using updateCred_fails inv by (metis snd_conv)
qed

lemma removeCred_inv:
  assumes P: "reliable_preferences P content" and inv: "storage_inv P st xs nid"
  shows "\<exists>xs'. storage_inv P (snd (removeCred P st rec)) xs' nid"
proof (cases "\<exists>r. readData P (prefs st) (credId rec) = Some r \<and> removable r rec")
  case True
  then show ?thesis using removeCred_success(2) [OF P inv] by blast
next
  case False
  then show ?thesis using removeCred_fails inv by (metis snd_conv)
qed

section \<open>Verification and use\<close>

lemma storage_inv_verified [simp]:
  "storage_inv P (st\<lparr>verifiedCredId := i\<rparr>) xs nid = storage_inv P st xs nid"
  by (simp add: storage_inv_def)

lemma verify_loop_find:
  "verify_loop cs e type now =
     (case find (\<lambda>p. cred_matches p e type) cs of None \<Rightarrow> (DOOR_UNKNOWN, 0)
      | Some p \<Rightarrow> if isActive p now then (doorNum p, credId p) else (DOOR_UNKNOWN, 0))"
  by (induction cs) (auto simp: isActive_def)

lemma cache_stored:
  assumes "storage_inv P st xs nid" and "c \<in> set (credsCache st)"
  obtains r where "readData P (prefs st) (credId c) = Some r" "removable r c" "updatable r c"
    "isRealCredId (credId c)" "credId c \<in> set xs" "validateCred c" "buffers_ok c"
proof -
  from assms have co: "cache_ok (readData P (prefs st)) (credsCache st) xs"
    and ok: "store_ok (readData P (prefs st)) xs nid" by (auto simp: storage_inv_def)
  with assms(2) have c: "credId c \<in> set xs" "validateCred c" "buffers_ok c"
    "same_credential c (the (readData P (prefs st) (credId c)))" by (auto simp: cache_ok_def)
  have "credId c \<in> dom (readData P (prefs st))" using ok c(1) by (simp add: store_ok_def)
  then obtain r where r: "readData P (prefs st) (credId c) = Some r" by blast
  have real: "isRealCredId (credId c)" using ok c(1) by (auto simp: store_ok_def)
  have "removable r c" "updatable r c" using c(4) r validateCred_parts(1) [OF c(2)]
    by (auto simp: removable_def updatable_def same_credential_def strn_eq_def str_eq_def cstr_of_take)
  then show ?thesis using that r real c by blast
qed

lemma find_cached:
  assumes "distinct (map credId cs)" and "c \<in> set cs"
  shows "find (\<lambda>p. credId p = credId c \<and> doorNum p = doorNum c) cs = Some c"
  using assms by (induction cs) (auto simp: image_iff)

lemma find_Some_in: "find Q cs = Some p \<Longrightarrow> p \<in> set cs \<and> Q p"
  by (auto simp: find_Some_iff)

lemma verified_in_cache:
  "verifiedCredId (snd (verifyCred st e type now)) = 0 \<or>
   (\<exists>p \<in> set (credsCache st). verifiedCredId (snd (verifyCred st e type now)) = credId p)"
  by (auto simp: verifyCred_def verify_loop_find split: option.splits dest: find_Some_in)

lemma usedCred_inv:
  assumes P: "reliable_preferences P content" and inv: "storage_inv P st xs nid"
  shows "\<exists>xs'. storage_inv P (snd (usedCred P st door now)) xs' nid"
proof (cases "find (\<lambda>p. credId p = verifiedCredId st \<and> doorNum p = door) (credsCache st)")
  case None
  then show ?thesis using inv by (auto simp: usedCred_def)
next
  case (Some p)
  then have "p \<in> set (credsCache st)" using find_Some_in by fastforce
  then have "buffers_ok p" using inv by (auto simp: storage_inv_def cache_ok_def)
  then have b: "buffers_ok (p\<lparr>remaining := remaining p - 1\<rparr>)" by (simp add: buffers_ok_def)
  have u: "storage_inv P (snd (updateCred P st (p\<lparr>remaining := remaining p - 1\<rparr>))) xs nid"
    by (rule updateCred_inv [OF P inv b])
  obtain xs' where m: "storage_inv P (snd (removeCred P st p)) xs' nid" using removeCred_inv [OF P inv] by blast
  show ?thesis using u m inv Some
    by (auto simp: usedCred_def split: prod.splits)
qed

text \<open>
  Verification: a credential opens a door exactly when it passes the check of its characters and
  the first cached record that it matches is active; the door and the remembered identifier are
  those of this record.  Otherwise the answer is \<open>DOOR_UNKNOWN\<close> and nothing is remembered.
\<close>

theorem verifyCred_iff_first_match_active:
  "verifyCred st credEntered type now =
     (case credEntered of
        Some e \<Rightarrow>
          if validateCredential (Some e) type (if type = CredType_PacketNumber then PACKET_SCAN_MAX else 0)
          then (case find (\<lambda>p. cred_matches p e type) (credsCache st) of
                  Some p \<Rightarrow> if isActive p now then (doorNum p, st\<lparr>verifiedCredId := credId p\<rparr>)
                            else (DOOR_UNKNOWN, st\<lparr>verifiedCredId := 0\<rparr>)
                | None \<Rightarrow> (DOOR_UNKNOWN, st\<lparr>verifiedCredId := 0\<rparr>))
          else (DOOR_UNKNOWN, st\<lparr>verifiedCredId := 0\<rparr>)
      | None \<Rightarrow> (DOOR_UNKNOWN, st\<lparr>verifiedCredId := 0\<rparr>))"
  by (auto simp: verifyCred_def verify_loop_find validateCredential_def split: option.splits)

text \<open>A stored packet number matches wherever it stands in the scanned text, not only at its start.\<close>

lemma packet_number_matches_inside:
  assumes "credType p = CredType_PacketNumber" and "NUL \<notin> set (a @ cstr (cred p) @ b)"
  shows "cred_matches p (a @ cstr (cred p) @ b) CredType_PacketNumber"
  using assms by (auto simp: cred_matches_def cstr_id strstr_iff CredType_PacketNumber_def CredType_Password_def)

text \<open>
  C27.  Consumption: using a verified credential with one remaining use deletes it from the storage
  and the cache, so that no later verification accepts it; one with more uses is stored with one
  use less; an unlimited one (negative count) leaves the storage alone.
\<close>

theorem usedCred_consumes:
  assumes P: "reliable_preferences P content" and inv: "storage_inv P st xs nid"
    and c: "c \<in> set (credsCache st)" and vid: "verifiedCredId st = credId c" and act: "isActive c now"
  shows "\<exists>st'. usedCred P st (doorNum c) now = (True, st') \<and> verifiedCredId st' = 0 \<and>
     (if remaining c = 1 then
        storage_inv P st' (filter (\<lambda>x. x \<noteq> credId c) xs) nid \<and>
        (\<forall>e type t. verifiedCredId (snd (verifyCred st' e type t)) \<noteq> credId c)
      else if 1 <s remaining c then
        storage_inv P st' xs nid \<and>
        remaining (the (readData P (prefs st') (credId c))) = remaining c - 1 \<and>
        c\<lparr>remaining := remaining c - 1\<rparr> \<in> set (credsCache st')
      else prefs st' = prefs st \<and> credsCache st' = credsCache st)"
proof -
  obtain r where r: "readData P (prefs st) (credId c) = Some r" "removable r c" "updatable r c"
    and real: "isRealCredId (credId c)" and vb: "validateCred c" "buffers_ok c"
    by (rule cache_stored [OF inv c])
  have dist: "distinct (map credId (credsCache st))" using inv by (simp add: storage_inv_def cache_ok_def)
  have nz: "credId c \<noteq> 0" using real by (simp add: isRealCredId_def FIRST_KEY_def)
  have f: "find (\<lambda>p. credId p = verifiedCredId st \<and> doorNum p = doorNum c) (credsCache st) = Some c"
    using find_cached [OF dist c] vid by simp
  have act': "\<not> ((validFrom c \<noteq> 0 \<and> now < validFrom c) \<or> (validTo c \<noteq> 0 \<and> validTo c < now) \<or> remaining c = 0)"
    using act by (auto simp: isActive_def split: if_splits)
  consider (one) "remaining c = 1" | (more) "1 <s remaining c" "remaining c \<noteq> 1"
    | (unlimited) "\<not> 1 <s remaining c" "remaining c \<noteq> 1" by blast
  then show ?thesis
  proof cases
    case one
    let ?st = "snd (removeCred P st c)"
    note rm = removeCred_success [OF P inv r(1,2)]
    have u: "usedCred P st (doorNum c) now = (True, ?st\<lparr>verifiedCredId := 0\<rparr>)"
      using f act' one nz vid rm(1) unfolding usedCred_def by (cases "removeCred P st c") simp
    have "verifiedCredId (snd (verifyCred (?st\<lparr>verifiedCredId := 0\<rparr>) e type t)) \<noteq> credId c" for e type t
    proof -
      have "\<forall>p \<in> set (credsCache ?st). credId p \<noteq> credId c" unfolding rm(3) by simp
      then show ?thesis using nz verified_in_cache [of "?st\<lparr>verifiedCredId := 0\<rparr>" e type t] by auto
    qed
    then show ?thesis using u one rm(2) by simp
  next
    case more
    let ?c = "c\<lparr>remaining := remaining c - 1\<rparr>"
    have "validateCred ?c" "buffers_ok ?c" "updatable r ?c" using vb r(3)
      by (simp_all add: updatable_def)
    then obtain n' where up: "updateCred P st ?c =
        (True, st\<lparr>prefs := n', credsCache := cache_put (credsCache st) ?c\<rparr>)"
      "readData P n' = (readData P (prefs st))(credId c \<mapsto> updatedRecord r ?c)"
      "storage_inv P (snd (updateCred P st ?c)) xs nid"
      using updateCred_success [OF P inv, of ?c r] r(1) by auto
    have "usedCred P st (doorNum c) now =
        (True, st\<lparr>prefs := n', credsCache := cache_put (credsCache st) ?c, verifiedCredId := 0\<rparr>)"
      using f act' more nz vid up(1) unfolding usedCred_def by simp
    moreover have "storage_inv P (st\<lparr>prefs := n', credsCache := cache_put (credsCache st) ?c\<rparr>) xs nid"
      using up(1,3) by simp
    ultimately show ?thesis using more up(2) cache_put_set [OF dist, of ?c]
      by (simp add: updatedRecord_def)
  next
    case unlimited
    then show ?thesis using f act' nz vid by (simp add: usedCred_def)
  qed
qed

section \<open>Start-up\<close>

lemma toCacheRecord_fields [simp]:
  "credId (toCacheRecord r) = credId r" "isActive (toCacheRecord r) now = isActive r now"
  by (simp_all add: toCacheRecord_def isActive_def Let_def)

lemma rebuild_loop_seg:
  assumes "dseg (readData P n) p (ys @ [LAST_KEY]) nid" and "\<forall>y \<in> set ys. isRealCredId y"
  shows "\<exists>mx'. rebuild_loop P n now (hd (ys @ [LAST_KEY])) cache mx =
     Some (cache @ filter (\<lambda>c. isActive c now) (entries (readData P n) ys), mx')"
  using assms
proof (induction ys arbitrary: p cache mx)
  case Nil
  then show ?case by (simp add: rebuild_loop.simps entries_def)
next
  case (Cons y ys)
  then obtain r where r: "readData P n y = Some r" "nextId r = hd (ys @ [LAST_KEY])"
    and seg: "dseg (readData P n) y (ys @ [LAST_KEY]) nid" by (cases ys) auto
  have y: "y \<noteq> FIRST_KEY" "y \<noteq> LAST_KEY" using Cons.prems by (auto simp: isRealCredId_def)
  show ?case
    using Cons.IH [OF seg, of "if isActive r now then cache @ [toCacheRecord r] else cache"
        "if mx < credId r then credId r else mx"] Cons.prems r y
    by (auto simp: rebuild_loop.simps [of P n now y] entries_def)
qed

lemma cache_ok_entries:
  assumes ok: "store_ok rd xs nid" and ro: "records_ok rd"
  shows "cache_ok rd (filter (\<lambda>c. isActive c now) (entries rd xs)) xs"
proof -
  have one: "credId (toCacheRecord (the (rd x))) = x \<and> validateCred (toCacheRecord (the (rd x))) \<and>
      buffers_ok (toCacheRecord (the (rd x))) \<and> same_credential (toCacheRecord (the (rd x))) (the (rd x))"
    if x: "x \<in> set xs" for x
  proof -
    have "x \<in> dom rd" using ok x by (simp add: store_ok_def)
    then obtain r where r: "rd x = Some r" by blast
    have v: "isStoredCredValid r" using ok x r by (simp add: store_ok_def)
    have b: "buffers_ok r" using ro r unfolding records_ok_def by blast
    have "validateCredential (Some (cred r)) (credType r) 0"
      "strnlen (name r) (MAX_NAME_LENGTH + 1) \<le> MAX_NAME_LENGTH" "validateCred (toCacheRecord r)"
      using v by (auto simp: isStoredCredValid_def split: if_splits)
    then show ?thesis using toCacheRecord_same [of r] b r store_ok_credId [OF ok r] by simp
  qed
  have "map credId (entries rd xs) = xs" using one by (simp add: entries_def map_idI)
  then have "distinct (map credId (entries rd xs))" using ok by (simp add: store_ok_def)
  then show ?thesis using one by (auto simp: cache_ok_def entries_def distinct_map_filter)
qed

lemma rebuildCache_ok:
  assumes P: "reliable_preferences P content"
    and ok: "store_ok (readData P (prefs st)) xs nid" and ro: "records_ok (readData P (prefs st))"
  shows "\<exists>mx. rebuildCache P st now = Some (True, st\<lparr>
      credsCache := filter (\<lambda>c. isActive c now) (entries (readData P (prefs st)) xs), maxCredId := mx\<rparr>)"
proof -
  let ?rd = "readData P (prefs st)"
  have P': "preferences P content" using P by (rule reliable_preferences.axioms(1))
  have "dseg ?rd FIRST_KEY (FIRST_KEY # xs @ [LAST_KEY]) nid" using ok by (simp add: store_ok_def)
  then obtain h where h: "?rd FIRST_KEY = Some h" "nextId h = hd (xs @ [LAST_KEY])"
    and seg: "dseg ?rd FIRST_KEY (xs @ [LAST_KEY]) nid" by (cases xs) auto
  have real: "\<forall>y \<in> set xs. isRealCredId y" using ok by (simp add: store_ok_def)
  have key: "isKey P (prefs st) (credKey FIRST_KEY)"
    using h(1) by (auto simp: preferences.isKey_content [OF P'] preferences.readData_content [OF P']
        split: option.splits)
  obtain mx where "rebuild_loop P (prefs st) now FIRST_KEY [] 0 =
      Some (filter (\<lambda>c. isActive c now) (entries ?rd xs), mx)"
    using rebuild_loop_seg [OF seg real, of now "[]" 0] h by (auto simp: rebuild_loop.simps [of P _ _ FIRST_KEY])
  then show ?thesis using key by (auto simp: rebuildCache_def Let_def)
qed

text \<open>A chain of more credentials than the scan allows is given up: the pool is reset.\<close>

lemma garbageCollect_too_long:
  assumes ok: "store_ok (readData P (prefs st)) xs nid" and len: "CRED_GC_MAX_SCAN_ID \<le> length xs"
  shows "garbageCollect P st = resetPool P st"
proof -
  let ?rd = "readData P (prefs st)"
  let ?ys = "take CRED_GC_MAX_SCAN_ID xs"
  obtain pr tlr where t: "?rd LAST_KEY = Some tlr" "credId tlr = LAST_KEY" using ok by (rule store_ok_last)
  have front: "dseg ?rd FIRST_KEY (FIRST_KEY # xs) LAST_KEY" using ok by (rule store_ok_front)
  then obtain h where h: "?rd FIRST_KEY = Some h" "credId h = FIRST_KEY" by auto
  have "dseg ?rd FIRST_KEY ((FIRST_KEY # ?ys) @ drop CRED_GC_MAX_SCAN_ID xs) LAST_KEY" using front by simp
  then have seg: "dseg ?rd FIRST_KEY (FIRST_KEY # ?ys) (hd (drop CRED_GC_MAX_SCAN_ID xs @ [LAST_KEY]))"
    unfolding dseg_append by blast
  have good: "\<forall>y \<in> set ?ys. isRealCredId y \<and> (\<forall>r. ?rd y = Some r \<longrightarrow> isStoredCredValid r)"
    using ok set_take_subset [of CRED_GC_MAX_SCAN_ID xs] by (auto simp: store_ok_def)
  have "distinct (FIRST_KEY # xs)" using store_ok_dist [OF ok] by auto
  then have dist: "distinct (FIRST_KEY # ?ys)" using set_take_subset [of CRED_GC_MAX_SCAN_ID xs] by auto
  have "repair_loop P tlr (length ?ys + 0) (prefs st) h = (False, prefs st)"
    using repair_walk [OF seg refl h(1) dist good, of tlr 0] by auto
  then have "repair_loop P tlr CRED_GC_MAX_SCAN_ID (prefs st) h = (False, prefs st)" using len by simp
  then show ?thesis using h t by (simp add: garbageCollect_def ensurePool_def repairCredChain_def)
qed

lemma resetPool_inv:
  assumes P: "reliable_preferences P content"
  shows "storage_inv P (resetPool P st) [] 1"
proof -
  have rt: "recordType zeroCred = RecordType_CredentialV1" by (simp add: zeroCred_def)
  have rd: "readData P (prefs (resetPool P st)) =
      [FIRST_KEY \<mapsto> zeroCred\<lparr>credId := FIRST_KEY, prevId := FIRST_KEY, nextId := LAST_KEY\<rparr>,
       LAST_KEY \<mapsto> zeroCred\<lparr>credId := LAST_KEY, prevId := FIRST_KEY, nextId := 1\<rparr>]"
    using rt by (simp add: resetPool_def Let_def reliable_preferences.readData_write [OF P]
        preferences.readData_clear [OF reliable_preferences.axioms(1) [OF P]])
  have z: "cstr (cred zeroCred) = []" "buffers_ok zeroCred"
    by (simp_all add: zeroCred_def cstr_def buffers_ok_def)
  have "store_ok (readData P (prefs (resetPool P st))) [] 1"
    unfolding rd store_ok_def using rt by auto
  moreover have "records_ok (readData P (prefs (resetPool P st)))"
    unfolding rd records_ok_def using z by (auto simp: buffers_ok_def split: if_splits)
  moreover have "credsCache (resetPool P st) = []" by (simp add: resetPool_def Let_def)
  ultimately show ?thesis by (simp add: storage_inv_def cache_ok_def)
qed

lemma begin_store_ok:
  assumes P: "reliable_preferences P content"
    and ok: "store_ok (readData P (prefs st)) xs nid" and ro: "records_ok (readData P (prefs st))"
  obtains st' where "begin_store P st now = Some (True, st')"
    "if length xs < CRED_GC_MAX_SCAN_ID
     then storage_inv P st' xs nid \<and> readData P (prefs st') = readData P (prefs st) \<and>
       credsCache st' = filter (\<lambda>c. isActive c now) (entries (readData P (prefs st)) xs)
     else storage_inv P st' [] 1"
proof -
  let ?rd = "readData P (prefs st)"
  have P': "preferences P content" using P by (rule reliable_preferences.axioms(1))
  define n where "n = snd (openNs P (prefs st))"
  define st0 where "st0 = st\<lparr>prefs := n\<rparr>"
  have op: "openNs P (prefs st) = (True, n)"
    using reliable_preferences.openNs_opens [OF P] by (simp add: n_def prod_eq_iff)
  have rd: "readData P (prefs st0) = ?rd"
    by (simp add: st0_def n_def preferences.readData_open [OF P'])
  obtain h where "?rd FIRST_KEY = Some h" using ok by (auto simp: store_ok_def)
  then have "readData P n FIRST_KEY = Some h" using rd by (simp add: st0_def)
  then have "\<not> getBytesLength P n (credKey FIRST_KEY) < sizeof_CredRecord"
    by (auto simp: readData_def Let_def split: if_splits)
  then have b: "begin_store P st now =
      (case rebuildCache P (garbageCollect P st0) now of None \<Rightarrow> None | Some (_, st3) \<Rightarrow> Some (True, st3))"
    by (simp add: begin_store_def op st0_def Let_def)
  show ?thesis
  proof (cases "length xs < CRED_GC_MAX_SCAN_ID")
    case True
    have gc: "garbageCollect P st0 = st0" using garbageCollect_intact [OF rd ok True] .
    obtain mx where "rebuildCache P st0 now = Some (True, st0\<lparr>
        credsCache := filter (\<lambda>c. isActive c now) (entries ?rd xs), maxCredId := mx\<rparr>)"
      using rebuildCache_ok [OF P, of st0 xs nid now] ok ro rd by auto
    then show ?thesis using that [of "st0\<lparr>credsCache := filter (\<lambda>c. isActive c now) (entries ?rd xs), maxCredId := mx\<rparr>"]
        b gc True ok ro rd cache_ok_entries [OF ok ro] by (simp add: storage_inv_def)
  next
    case False
    have gc: "garbageCollect P st0 = resetPool P st0"
      using garbageCollect_too_long [of P st0 xs nid] ok rd False by simp
    have inv: "storage_inv P (resetPool P st0) [] 1" using P by (rule resetPool_inv)
    then have o0: "store_ok (readData P (prefs (resetPool P st0))) [] 1" "records_ok (readData P (prefs (resetPool P st0)))"
      by (simp_all add: storage_inv_def)
    obtain mx where "rebuildCache P (resetPool P st0) now = Some (True, (resetPool P st0)\<lparr>
        credsCache := [], maxCredId := mx\<rparr>)"
      using rebuildCache_ok [OF P o0, of now] by (auto simp: entries_def)
    then show ?thesis using that [of "(resetPool P st0)\<lparr>credsCache := [], maxCredId := mx\<rparr>"]
        b gc False o0 by (simp add: storage_inv_def cache_ok_def)
  qed
qed

text \<open>
  C33.  The start-up always returns on a well-formed storage of fewer than 4096 credentials: it leaves
  the storage as it is and fills the cache with the active credentials, in the order of the chain.
\<close>

theorem begin_store_rebuilds:
  assumes "reliable_preferences P content"
    and "store_ok (readData P (prefs st)) xs nid" and "records_ok (readData P (prefs st))"
    and "length xs < CRED_GC_MAX_SCAN_ID"
  shows "\<exists>st'. begin_store P st now = Some (True, st') \<and> storage_inv P st' xs nid \<and>
     readData P (prefs st') = readData P (prefs st) \<and>
     credsCache st' = filter (\<lambda>c. isActive c now) (entries (readData P (prefs st)) xs)"
proof -
  obtain st' where "begin_store P st now = Some (True, st')"
    "if length xs < CRED_GC_MAX_SCAN_ID
     then storage_inv P st' xs nid \<and> readData P (prefs st') = readData P (prefs st) \<and>
       credsCache st' = filter (\<lambda>c. isActive c now) (entries (readData P (prefs st)) xs)
     else storage_inv P st' [] 1" by (rule begin_store_ok [OF assms(1,2,3)])
  then show ?thesis using assms(4) by auto
qed

section \<open>The machine of the operations\<close>

inductive store_step :: "'n Preferences \<Rightarrow> 'n CredStorage \<Rightarrow> 'n CredStorage \<Rightarrow> bool" for P where
  step_add: "buffers_ok rec \<Longrightarrow> readData P (prefs st) LAST_KEY = Some t \<Longrightarrow> isRealCredId (nextId t) \<Longrightarrow>
     store_step P st (snd (addCred P st rec))"
| step_update: "buffers_ok rec \<Longrightarrow> store_step P st (snd (updateCred P st rec))"
| step_remove: "store_step P st (snd (removeCred P st rec))"
| step_verify: "store_step P st (snd (verifyCred st e type now))"
| step_used: "store_step P st (snd (usedCred P st door now))"
| step_refresh: "refreshCache P st now = Some (b, st') \<Longrightarrow> store_step P st st'"
| step_restart: "begin_store P st now = Some (b, st') \<Longrightarrow> store_step P st st'"

lemma store_step_inv:
  assumes P: "reliable_preferences P content" and "store_step P st st'" and "storage_inv P st xs nid"
  shows "\<exists>xs' nid'. storage_inv P st' xs' nid'"
  using assms(2,3)
proof cases
  case (step_add rec t)
  have "store_ok (readData P (prefs st)) xs nid" using assms(3) by (simp add: storage_inv_def)
  then have "isRealCredId nid" using step_add store_ok_last by (metis option.inject)
  then show ?thesis using addCred_inv [OF P assms(3) _ step_add(2)] step_add(1) by simp
next
  case (step_update rec)
  then show ?thesis using updateCred_inv [OF P assms(3)] by blast
next
  case (step_remove rec)
  then show ?thesis using removeCred_inv [OF P assms(3)] by blast
next
  case (step_verify e type now)
  then have "storage_inv P st' xs nid" using assms(3) by (simp add: verifyCred_def split: prod.splits)
  then show ?thesis by blast
next
  case (step_used door now)
  then show ?thesis using usedCred_inv [OF P assms(3)] by blast
next
  case (step_refresh now b)
  have ok: "store_ok (readData P (prefs st)) xs nid" "records_ok (readData P (prefs st))"
    using assms(3) by (simp_all add: storage_inv_def)
  then have "storage_inv P st' xs nid"
    using rebuildCache_ok [OF P ok, of now] cache_ok_entries [OF ok, of now] step_refresh
    by (auto simp: refreshCache_def storage_inv_def)
  then show ?thesis by blast
next
  case (step_restart now b)
  have ok: "store_ok (readData P (prefs st)) xs nid" "records_ok (readData P (prefs st))"
    using assms(3) by (simp_all add: storage_inv_def)
  obtain st2 where "begin_store P st now = Some (True, st2)"
    "if length xs < CRED_GC_MAX_SCAN_ID
     then storage_inv P st2 xs nid \<and> readData P (prefs st2) = readData P (prefs st) \<and>
       credsCache st2 = filter (\<lambda>c. isActive c now) (entries (readData P (prefs st)) xs)
     else storage_inv P st2 [] 1" by (rule begin_store_ok [OF P ok])
  then show ?thesis using step_restart by (auto split: if_splits)
qed

text \<open>
  C9.  Whatever sequence of calls (additions, updates, removals, verifications, uses, refreshes and
  restarts, with any arguments) follows a well-formed state, the storage stays a well-formed chain and
  every cached credential is the stored one.  Only the exhaustion of the identifiers is excluded.
\<close>

theorem storage_inv_reachable:
  assumes "reliable_preferences P content" and "storage_inv P st xs nid" and "(store_step P)\<^sup>*\<^sup>* st st'"
  shows "\<exists>xs' nid'. storage_inv P st' xs' nid'"
  using assms(3,2)
proof (induction arbitrary: xs nid rule: converse_rtranclp_induct)
  case base
  then show ?case by blast
next
  case (step y z)
  then show ?case using store_step_inv [OF assms(1)] by blast
qed

end
