(* ===== verification/Lock_Pulse.thy ===== *)
theory Lock_Pulse
  imports Box_Safety Pass_Invariant
begin

text \<open>
  The lock pulse in one pass over the timers: due actions never raise a pin, and a due release lowers
  the locks of its door, whatever else is due.  And what the code does with a web request that
  arrives while a door is opening.
\<close>

section \<open>Timer actions lower pins and keep the table\<close>

lemma moveTo_timers: "new \<noteq> Opening \<Longrightarrow> timers (moveTo p e new now b) = timers b"
  by (cases new) (auto simp: moveTo_def onEnter_def box_defs onEnterOpen_def split: prod.split)

lemma moveTo_no_raise:
  "new \<noteq> Opening \<Longrightarrow> pinLevel (gpio (moveTo p e new now b)) pin \<Longrightarrow> pinLevel (gpio b) pin"
  using onExit_pins [of b pin]
  by (cases new) (auto simp: moveTo_def onEnter_def box_defs onEnterOpen_def dest: ambientOff_lowers split: prod.splits if_splits)

text \<open>\<open>tame\<close>: no pin rises, the door table and the timers are kept.\<close>

definition tame :: "'n Firmware \<Rightarrow> 'n Firmware \<Rightarrow> bool" where
  "tame b b' \<longleftrightarrow> timers b' = timers b \<and> sameDoors (gpio b) (gpio b') \<and>
     (\<forall>pin. pinLevel (gpio b') pin \<longrightarrow> pinLevel (gpio b) pin) \<and> (switchUnused (others b) \<longrightarrow> switchUnused (others b'))"

lemma tame_refl: "tame b b"
  by (simp add: tame_def)

lemma tame_trans: "tame a b \<Longrightarrow> tame b c \<Longrightarrow> tame a c"
  unfolding tame_def using sameDoors_trans by (metis)

lemma tame_only: "onlyPeripherals b b' \<Longrightarrow> tame b b'"
  by (simp add: tame_def onlyPeripherals_def)

lemma table_not_opening:
  "table e now (Event ev) b s b1 \<Longrightarrow> eventType ev \<notin> {WebOpenBox, KeyboardEnter, ScannerCodeReceived} \<Longrightarrow> s \<noteq> Opening"
  by (cases rule: table.cases) (auto split: if_splits)

lemma processEvent_tame:
  assumes "eventType ev \<notin> {WebOpenBox, KeyboardEnter, ScannerCodeReceived}" and "switchUnused (others b)"
  shows "tame b (processEvent p (stateCallback p) e ev b)"
proof (cases "no_move (Event ev) b (processEvent p (stateCallback p) e ev b)")
  case True
  then show ?thesis by (auto simp: no_move.simps sameWorld_def tame_def)
next
  case False
  let ?now = "eventMillis e"
  obtain s b1 where tb: "table e ?now (Event ev) b s b1"
    and eq: "processEvent p (stateCallback p) e ev b = transitionTo p (stateCallback p) e s ?now b1"
    using processEvent_performs [of p "stateCallback p" e ev b] False by (auto simp: performs_def)
  have s: "s \<noteq> Opening" using table_not_opening [OF tb assms(1)] .
  have w: "gpio b1 = gpio b" "timers b1 = timers b" using table_world [OF tb] by (simp_all add: sameWorld_def)
  have ok: "switchUnused (others (processEvent p (stateCallback p) e ev b))"
    by (rule box.performs_ok [OF processEvent_performs assms(2)])
  show ?thesis
  proof (cases "s = state (ctx b)")
    case True
    then show ?thesis using table_same_state [OF tb True] s by simp
  next
    case ne: False
    have q: "quiet (moveTo p e s ?now b1) (processEvent p (stateCallback p) e ev b)"
      unfolding eq by (rule box.quiet_move [OF tb assms(2) ne])
    have "sameDoors (gpio b) (gpio (processEvent p (stateCallback p) e ev b))"
      using q moveTo_doors [of b1 p e s ?now] w by (auto simp: quiet_def intro: sameDoors_trans)
    then show ?thesis
      using q s ok moveTo_timers [OF s, of p e ?now b1] moveTo_no_raise [OF s, of p e ?now b1] w
      by (auto simp: quiet_def tame_def)
  qed
qed

lemma handleDueActions_tame:
  assumes "switchUnused (others b)"
  shows "tame b (handleDueActions p e act a b)"
proof -
  have ev: "tame b (processEvent p (stateCallback p) e ev b')"
    if "onlyPeripherals b b'" "eventType ev \<notin> {WebOpenBox, KeyboardEnter, ScannerCodeReceived}" for ev b'
  proof -
    have "switchUnused (others b')" using that(1) assms by (simp add: onlyPeripherals_def)
    from processEvent_tame [OF that(2) this] show ?thesis by (rule tame_trans [OF tame_only [OF that(1)]])
  qed
  note o3 = onlyPeripherals_trans [OF logDoorNotice_only [of b] sendDoorState_only]
  have lock: "tame b (emit y ((emit x b)\<lparr>gpio := snd (lockDeactivate d (gpio b))\<rparr>))" for x y d
    by (auto simp: tame_def lockDeactivate_eq sameDoors_def split: if_splits)
  have amb: "tame b (gpioDo ambientOff (emit x b))" for x
    by (auto simp: tame_def sameDoors_def dest: ambientOff_lowers)
  have pw: "tame b (processEvent p (stateCallback p) e (eventOf PasswordTimeout) (emit x b))" for x
    by (rule ev [OF emit_only]) (simp add: eventOf_def)
  have door: "tame b (processEvent p (stateCallback p) e ((eventOf ty)\<lparr>evDoorNum := d, evDoorState := st\<rparr>) (sendDoorState d' st' (logDoorNotice st'' b)))"
    if "ty \<in> {DoorOpened, DoorClosed}" for ty d st d' st' st''
    by (rule ev [OF o3]) (use that in \<open>auto simp: eventOf_def\<close>)
  show ?thesis
    using door [of DoorOpened] door [of DoorClosed] tame_only [OF o3] pw tame_only [OF emit_only [of b]] lock amb
    unfolding handleDueActions_def Let_def by (simp add: split_beta)
qed

text \<open>The door number survives the text argument of the timer.\<close>

lemma atoi_door: "word_of_int (atoi (dec_digits (unat d))) = (d :: u8)"
proof -
  have "unat d \<in> set [0..<256]" using unat_u8_less [of d] by simp
  moreover have "\<forall>n \<in> set [0..<256]. atoi (dec_digits n) = int n" by code_simp
  ultimately show ?thesis by (metis uint_nat word_of_int_uint)
qed

lemma door_digits: "length (dec_digits (unat (d :: u8))) \<le> 3 \<and> NUL \<notin> set (dec_digits (unat d))"
proof -
  have "unat d \<in> set [0..<256]" using unat_u8_less [of d] by simp
  moreover have "\<forall>n \<in> set [0..<256]. length (dec_digits n) \<le> 3 \<and> NUL \<notin> set (dec_digits n)" by code_simp
  ultimately show ?thesis by blast
qed

lemma cstr_strcpy_door:
  "length buf = MAX_TIMER_PARAMETERS \<Longrightarrow> cstr (strcpy buf (dec_digits (unat (d :: u8)))) = dec_digits (unat d)"
  using door_digits [of d] by (simp add: strcpy_def cstr_id cstr_append_NUL)

lemma LOCK_DEACTIVATE_lowers:
  assumes "cstr a = dec_digits (unat d)" and "pin \<in> doorPins (gpio b) d"
  shows "\<not> pinLevel (gpio (handleDueActions p e LOCK_DEACTIVATE a b)) pin"
proof -
  have "atoi a = atoi (dec_digits (unat d))" unfolding atoi_def by (metis assms(1) cstr_idem)
  then have "word_of_int (atoi a) = d" by (simp add: atoi_door)
  then show ?thesis using assms(2)
    by (simp add: handleDueActions_def LOCK_DEACTIVATE_def NOTIFY_DOOR_CHANGE_def lockDeactivate_eq)
qed

section \<open>The release is carried out\<close>

definition timerHandler :: "'n Preferences \<Rightarrow> (u8 \<Rightarrow> string \<Rightarrow> Env) \<Rightarrow> 'n Firmware handler" where
  "timerHandler p env =
     (\<lambda>(tm, b) act a. let b' = handleDueActions p (env act a) act a (b\<lparr>timers := tm\<rparr>) in (timers b', b'))"

lemma runTimers_handler:
  "runTimers p env now b =
     (case update_timers (Some (timerHandler p env)) now (timers b, b) of (tm, b') \<Rightarrow> b'\<lparr>timers := tm\<rparr>)"
  by (simp add: runTimers_def timerHandler_def)

text \<open>One slot, given that the hardware is still as \<open>b\<close> left it.\<close>

definition keeps :: "'n Firmware \<Rightarrow> 'n Firmware \<Rightarrow> bool" where
  "keeps b c \<longleftrightarrow> sameDoors (gpio b) (gpio c) \<and> (\<forall>pin. pinLevel (gpio c) pin \<longrightarrow> pinLevel (gpio b) pin) \<and> switchUnused (others c)"

lemma slot_effect:
  assumes "keeps b c" and "update_slot (Some (timerHandler p env)) now k (tm, c) = (tm', c')"
  shows "keeps b c' \<and> keeps c c' \<and> length tm' = length tm \<and> (\<forall>j. j \<noteq> k \<longrightarrow> tm' ! j = tm ! j) \<and>
     (due now (tm ! k) \<longrightarrow> gpio c' = gpio (handleDueActions p (env (action (tm ! k)) (arg (tm ! k))) (action (tm ! k)) (arg (tm ! k)) (c\<lparr>timers := tm\<rparr>)))"
proof (cases "due now (tm ! k)")
  case False
  then show ?thesis using assms by (auto simp: update_slot_def due_def Let_def keeps_def split: if_splits)
next
  case True
  let ?c = "c\<lparr>timers := tm\<rparr>" and ?t = "tm ! k"
  let ?r = "handleDueActions p (env (action ?t) (arg ?t)) (action ?t) (arg ?t) ?c"
  have u: "switchUnused (others ?c)" using assms(1) by (simp add: keeps_def)
  have t: "tame ?c ?r" by (rule handleDueActions_tame [OF u])
  have k: "keeps ?c ?r" using t u by (auto simp: tame_def keeps_def)
  have kb: "keeps b ?r" using k assms(1) by (auto simp: keeps_def intro: sameDoors_trans)
  have tm: "timers ?r = tm" using t by (simp add: tame_def)
  have "tm' = tm[k := (if repeat ?t then ?t\<lparr>startedAt := now\<rparr> else ?t\<lparr>active := False\<rparr>)] \<and> c' = ?r"
    using assms(2) True tm by (auto simp: update_slot_def due_def Let_def timerHandler_def split: if_splits)
  then show ?thesis using kb k by (auto simp: keeps_def)
qed

lemma slots_lower:
  assumes "switchUnused (others b)" and "length (timers b) = MAX_TIMERS" and "due now (timers b ! i)"
    and "action (timers b ! i) = LOCK_DEACTIVATE" and "cstr (arg (timers b ! i)) = dec_digits (unat d)"
    and "fold (update_slot (Some (timerHandler p env)) now) [0..<k] (timers b, b) = (tm, c)"
  shows "keeps b c \<and> length tm = MAX_TIMERS \<and> (\<forall>j \<ge> k. tm ! j = timers b ! j) \<and>
     (i < k \<longrightarrow> (\<forall>pin \<in> doorPins (gpio b) d. \<not> pinLevel (gpio c) pin))"
  using assms(6)
proof (induction k arbitrary: tm c)
  case 0
  then show ?case using assms(1,2) by (auto simp: keeps_def)
next
  case (Suc k)
  obtain tm1 c1 where f: "fold (update_slot (Some (timerHandler p env)) now) [0..<k] (timers b, b) = (tm1, c1)"
    by (cases "fold (update_slot (Some (timerHandler p env)) now) [0..<k] (timers b, b)")
  note IH = Suc.IH [OF f]
  have u: "update_slot (Some (timerHandler p env)) now k (tm1, c1) = (tm, c)" using Suc.prems f by simp
  note e = slot_effect [OF conjunct1 [OF IH] u]
  have low: "\<not> pinLevel (gpio c) pin" if "i < Suc k" "pin \<in> doorPins (gpio b) d" for pin
  proof (cases "i = k")
    case True
    then have tk: "tm1 ! k = timers b ! i" using IH by simp
    have "pin \<in> doorPins (gpio (c1\<lparr>timers := tm1\<rparr>)) d"
      using IH that(2) sameDoors_pins [of "gpio b" "gpio c1" d] by (simp add: keeps_def)
    from LOCK_DEACTIVATE_lowers [OF assms(5) this] show ?thesis using e tk assms(3,4) by simp
  next
    case False
    then have "\<not> pinLevel (gpio c1) pin" using IH that by simp
    then show ?thesis using e by (auto simp: keeps_def)
  qed
  show ?case using e IH low by auto
qed

section \<open>A web request while a door is opening\<close>

text \<open>
  A web request for a door that arrives while another is opening redirects the machine without a new pulse:
  the door under way is forgotten, its verified credential is no longer pending, and when the contact
  of the door that was really unlocked reports it open, nothing happens: the credential is not
  used up.
\<close>

theorem web_request_drops_pending_credential:
  fixes b :: "'n Firmware"
  assumes "state (ctx b) = Opening" and "doorToOpen (ctx b) = d" and "eventType ev = WebOpenBox" and "evDoorNum ev \<noteq> d"
    and "eventType ev' = DoorOpened" and "evDoorNum ev' = d"
  shows "(let b1 = processEvent p (stateCallback p) e ev b; b2 = processEvent p (stateCallback p) e' ev' b1 in
     state (ctx b1) = Opening \<and> \<not> credVerified (ctx b1) \<and> gpio b1 = gpio b \<and> credStore b1 = credStore b \<and>
     state (ctx b2) = Opening \<and> credStore b2 = credStore b)"
  using assms by (simp add: processEvent_def handleWebEvent_def handleSensorEvent_def transitionTo_def Let_def)

section \<open>Witnesses\<close>

definition demoPeripherals :: Peripherals where
  "demoPeripherals = \<lparr>padMode = 0, keyStatus = zeroKeyboard, boxScanner = \<lparr>scanner = newQrScanner, ready = False\<rparr>,
     webOpenRequests = Some [], webMessages = []\<rparr>"

definition emptyCredStorage :: "unit CredStorage" where
  "emptyCredStorage = \<lparr>prefs = (), credsCache = [], maxCredId = 0, nextCredId = 1, verifiedCredId = 0\<rparr>"

definition demoBox :: "BoxState \<Rightarrow> unit Firmware" where
  "demoBox s = (updCtx (\<lambda>c. c\<lparr>state := s\<rparr>) (newBox oneDoor newTimerManager emptyCredStorage demoPeripherals))
     \<lparr>lastUIAction := (if s = Home then UI_ENABLE_DOOR_CONTROLS else UI_DISABLE_DOOR_CONTROLS)\<rparr>"

definition nullPreferences :: "unit Preferences" where
  "nullPreferences = \<lparr>openNs = (\<lambda>n. (False, n)), isKey = (\<lambda>_ _. False), getBytesLength = (\<lambda>_ _. 0),
     getBytes = (\<lambda>_ _ r. (0, r)), putBytes = (\<lambda>n _ _. (0, n)), removeKey = (\<lambda>n _. (False, n)), clearNs = (\<lambda>n. (False, n))\<rparr>"

definition demoEnv :: Env where
  "demoEnv = \<lparr>eventMillis = 7, openingMillis = 7, scheduleMillis = 7, verifyTime = 0, usedTime = 0,
     rands = replicate 6 0, nestedMillis = 7, scanMillis = 7\<rparr>"

lemma demo_switch: "switchUnused (others (demoBox s))"
  by (simp add: demoBox_def newBox_def demoPeripherals_def switchUnused_def newQrScanner_def defaultConfig_def)

lemma demo_inv: "machine_inv (demoBox Password)"
  by (simp add: machine_inv_def demoBox_def newBox_def zeroContext_def)

theorem web_request_drops_pending_credential_witness:
  "credStore (processEvent nullPreferences (stateCallback nullPreferences) demoEnv ((eventOf DoorOpened)\<lparr>evDoorNum := 0\<rparr>)
     (processEvent nullPreferences (stateCallback nullPreferences) demoEnv ((eventOf WebOpenBox)\<lparr>evDoorNum := 1\<rparr>)
        (demoBox Opening))) = credStore (demoBox Opening)"
  using web_request_drops_pending_credential [of "demoBox Opening" 0 "(eventOf WebOpenBox)\<lparr>evDoorNum := 1\<rparr>"
      "(eventOf DoorOpened)\<lparr>evDoorNum := 0\<rparr>" nullPreferences demoEnv demoEnv]
  by (simp add: demoBox_def newBox_def zeroContext_def eventOf_def Let_def)

theorem lock_raised_only_if_authorised_witness:
  "\<not> pinLevel (gpio (updateMachine nullPreferences (stateCallback nullPreferences) demoEnv 9 (demoBox Password))) 1"
  using lock_raised_only_if_authorised [OF demo_switch, of Password 1 nullPreferences demoEnv zeroEvent 9]
  by (simp add: demoBox_def newBox_def oneDoor_def newGpioHAL_def)

theorem penalty_enforced_witness:
  "state (ctx (processEvent nullPreferences (stateCallback nullPreferences) demoEnv
     ((eventOf KeyboardEnter)\<lparr>keyboardPassword := ''123456''\<rparr>) (demoBox Password))) \<notin> {Password, Scan}"
proof -
  have r: "rejected demoEnv ((eventOf KeyboardEnter)\<lparr>keyboardPassword := ''123456''\<rparr>) (demoBox Password)"
    by (simp add: rejected_def demoBox_def newBox_def eventOf_def verifyCred_iff_first_match_active emptyCredStorage_def split: if_split)
  have t: "eventMillis demoEnv = of_nat 7" by (simp add: demoEnv_def)
  show ?thesis by (rule penalty_enforced [OF demo_inv demo_switch r t run_refl])
qed

theorem machine_inv_reachable_witness:
  "machine_inv (initialize 0 (demoBox Home))"
  by (rule machine_inv_reachable [OF demo_switch [of Home] run_refl])

theorem credential_used_exactly_at_opening_witness:
  "state (ctx (processEvent nullPreferences (stateCallback nullPreferences) demoEnv (eventOf DoorOpened) (demoBox Opening))) = Open
   \<and> credStore (updateMachine nullPreferences (stateCallback nullPreferences) demoEnv 9 (demoBox Home)) = emptyCredStorage"
  using credential_used_exactly_at_opening [OF demo_switch [of Opening], of "eventOf DoorOpened" nullPreferences demoEnv 9]
    credential_used_exactly_at_opening [OF demo_switch [of Home], of "eventOf DoorOpened" nullPreferences demoEnv 9]
  by (simp add: demoBox_def newBox_def zeroContext_def eventOf_def zeroEvent_def Let_def)

theorem timed_states_end_witness:
  "state (ctx (updateMachine nullPreferences (stateCallback nullPreferences) demoEnv 40000 (demoBox Closed))) = Home"
  using timed_states_end [OF demo_switch [of Closed], of nullPreferences demoEnv 40000]
  by (simp add: demoBox_def newBox_def zeroContext_def timeoutElapsed_def AMBIENT_TIMEOUT_def Let_def)

definition demoLoopEnv :: LoopEnv where
  "demoLoopEnv = \<lparr>rtcSynced = False, refreshTime = 0, webEnv = demoEnv, contactMillis = 7, contactEnv = (\<lambda>_. demoEnv),
     timerMillis = 7, timerEnv = (\<lambda>_ _. demoEnv), keyWire = [], keyEnv = demoEnv, machineMillis = 7, machineEnv = demoEnv,
     scannerMillis = 7, scannerEnv = demoEnv\<rparr>"

theorem loop_refines_machine_witness:
  "\<exists>la b'. loop nullPreferences demoLoopEnv (0, demoBox Home) = Some (la, b') \<and>
     firmware_run nullPreferences {7} (demoBox Home) b'"
proof -
  obtain la b' where l: "loop nullPreferences demoLoopEnv (0, demoBox Home) = Some (la, b')"
    by (simp add: loop_def demoLoopEnv_def Let_def split_beta) (metis prod.collapse)
  have "timesIn {7} demoLoopEnv" by (simp add: timesIn_def envIn_def demoLoopEnv_def demoEnv_def)
  from loop_refines_machine [OF l this] l show ?thesis by blast
qed

end
