(* ===== verification/Pass_Faults.thy ===== *)
theory Pass_Faults
  imports Pass_Invariant
begin

text \<open>
  What the credential store does when the storage itself fails or fills up: a write that the
  library refuses in the middle of an insertion, and a chain longer than the scan of the start-up.
\<close>

text \<open>
  The storage with one write that fails: the counter says how many writes succeed before it; after
  the failure (\<open>None\<close>) all writes succeed again.  A failed write changes nothing and returns 0.
\<close>

definition failingWrite :: "'n Preferences \<Rightarrow> ('n \<times> nat option) Preferences" where
  "failingWrite P =
     \<lparr>openNs = (\<lambda>(n, k). case openNs P n of (b, n') \<Rightarrow> (b, (n', k))),
      isKey = (\<lambda>(n, k). isKey P n),
      getBytesLength = (\<lambda>(n, k). getBytesLength P n),
      getBytes = (\<lambda>(n, k). getBytes P n),
      putBytes = (\<lambda>(n, k) key r.
        case k of Some 0 \<Rightarrow> (0, (n, None))
        | Some (Suc j) \<Rightarrow> (case putBytes P n key r of (w, n') \<Rightarrow> (w, (n', Some j)))
        | None \<Rightarrow> (case putBytes P n key r of (w, n') \<Rightarrow> (w, (n', None)))),
      removeKey = (\<lambda>(n, k) key. case removeKey P n key of (b, n') \<Rightarrow> (b, (n', k))),
      clearNs = (\<lambda>(n, k). case clearNs P n of (b, n') \<Rightarrow> (b, (n', k)))\<rparr>"

lemma readData_failing [simp]: "readData (failingWrite P) (n, k) = readData P n"
  by (rule ext) (simp add: readData_def failingWrite_def Let_def)

lemma writeData_failing:
  "writeData (failingWrite P) (n, k) r =
     (if recordType r \<noteq> RecordType_CredentialV1 then (False, (n, k))
      else case k of Some 0 \<Rightarrow> (False, (n, None))
      | Some (Suc j) \<Rightarrow> (fst (writeData P n r), (snd (writeData P n r), Some j))
      | None \<Rightarrow> (fst (writeData P n r), (snd (writeData P n r), None)))"
  by (simp add: writeData_def failingWrite_def sizeof_CredRecord_def split: prod.splits option.splits nat.splits)

lemma insertion_with_lost_record:
  assumes P: "reliable_preferences P content"
    and ok: "store_ok (readData P (prefs st)) xs nid" and real: "isRealCredId nid"
    and v: "validateCred rec" and b: "buffers_ok rec"
  obtains st' pr tlr where
    "addCred (failingWrite P) (withPrefs (prefs st, Some 1) st) rec = (nid, st')"
    "readData P (prefs st) (last (FIRST_KEY # xs)) = Some pr"
    "readData P (prefs st) LAST_KEY = Some tlr"
    "readData P (fst (prefs st')) = (readData P (prefs st))
       (last (FIRST_KEY # xs) \<mapsto> pr\<lparr>nextId := nid\<rparr>, LAST_KEY \<mapsto> tlr\<lparr>nextId := nid + 1, prevId := nid\<rparr>)"
proof -
  let ?rd = "readData P (prefs st)"
  define p where "p = last (FIRST_KEY # xs)"
  obtain pr tlr where l: "?rd p = Some pr" "credId pr = p" "nextId pr = LAST_KEY"
    "?rd LAST_KEY = Some tlr" "credId tlr = LAST_KEY" "prevId tlr = p" "nextId tlr = nid"
    unfolding p_def using ok by (rule store_ok_last)
  let ?c = "linkedRecord rec nid p"
  have rt: "recordType pr = RecordType_CredentialV1" "recordType tlr = RecordType_CredentialV1"
    by (rule readData_recordType [OF l(1)], rule readData_recordType [OF l(4)])
  have rtc: "recordType ?c = RecordType_CredentialV1" by (rule linkedRecord_props(4) [OF v b real])
  let ?t' = "tlr\<lparr>nextId := nid + 1, prevId := nid\<rparr>"
  let ?n1 = "snd (writeData P (prefs st) (pr\<lparr>nextId := nid\<rparr>))"
  let ?n3 = "snd (writeData P ?n1 ?t')"
  have w: "fst (writeData P n ?t')" for n using reliable_preferences.writeData_ok [OF P] rt by simp
  have "writeCred (failingWrite P) (prefs st, Some 1) (newRecord rec) = (nid, (?n3, None))"
    using newRecord_props [OF v b] l rt rtc w
    by (simp add: writeCred_def Let_def writeData_failing flip: linkedRecord_def)
  then have add: "addCred (failingWrite P) (withPrefs (prefs st, Some 1) st) rec =
      (nid, (withPrefs (prefs st, Some 1) st)\<lparr>prefs := (?n3, None), credsCache := credsCache st @ [rec\<lparr>credId := nid\<rparr>]\<rparr>)"
    using v real by (simp add: addCred_newRecord isRealCredId_def FIRST_KEY_def)
  have rd3: "readData P ?n3 = ?rd(p \<mapsto> pr\<lparr>nextId := nid\<rparr>, LAST_KEY \<mapsto> ?t')"
    using rt l by (simp add: reliable_preferences.readData_write [OF P])
  show ?thesis by (rule that [folded p_def, OF add l(1,4)]) (simp add: rd3)
qed

text \<open>
  A refused write is not noticed: when the library fails to store the new record (the second of
  the three writes of an insertion), \<open>addCred\<close> still reports success, and the next start finds a chain
  that it cannot repair and resets the whole pool, so that every stored credential is lost.
\<close>

theorem addCred_lost_write_resets_pool:
  assumes P: "reliable_preferences P content"
    and ok: "store_ok (readData P (prefs st)) xs nid" and real: "isRealCredId nid"
    and v: "validateCred rec" and b: "buffers_ok rec"
    and len: "length xs < CRED_GC_MAX_SCAN_ID"
    and boot: "prefs boot =
      fst (prefs (snd (addCred (failingWrite P) (withPrefs (prefs st, Some 1) st) rec)))"
  shows "fst (addCred (failingWrite P) (withPrefs (prefs st, Some 1) st) rec) = nid \<and>
     garbageCollect P boot = resetPool P boot \<and> storage_inv P (garbageCollect P boot) [] 1"
proof -
  let ?rd = "readData P (prefs st)"
  define p where "p = last (FIRST_KEY # xs)"
  obtain st' pr tlr where add: "addCred (failingWrite P) (withPrefs (prefs st, Some 1) st) rec = (nid, st')"
    and pr: "?rd p = Some pr" and t: "?rd LAST_KEY = Some tlr"
    and rd': "readData P (fst (prefs st')) = ?rd(p \<mapsto> pr\<lparr>nextId := nid\<rparr>,
       LAST_KEY \<mapsto> tlr\<lparr>nextId := nid + 1, prevId := nid\<rparr>)"
    unfolding p_def by (rule insertion_with_lost_record [OF P ok real v b])
  let ?t' = "tlr\<lparr>nextId := nid + 1, prevId := nid\<rparr>"
  let ?rd' = "?rd(p \<mapsto> pr\<lparr>nextId := nid\<rparr>, LAST_KEY \<mapsto> ?t')"
  have rdb: "readData P (prefs boot) = ?rd'" using boot add rd' by simp
  have dist: "distinct (FIRST_KEY # xs @ [LAST_KEY])" using ok by (rule store_ok_dist)
  have ne: "p \<noteq> LAST_KEY" using last_ne_LAST [of xs "[]"] dist p_def by simp
  have pin: "p \<in> insert FIRST_KEY (set xs)" using p_def last_in_set [of "FIRST_KEY # xs"] by simp
  have nidN: "?rd nid = None" "nid \<noteq> p" "nid \<noteq> FIRST_KEY" "nid \<noteq> LAST_KEY"
    using ok real pin by (auto simp: store_ok_def isRealCredId_def)
  have cid: "credId tlr = LAST_KEY" "credId pr = p" using store_ok_credId [OF ok] t pr by auto
  have "dseg (?rd(p \<mapsto> pr\<lparr>nextId := nid\<rparr>)) FIRST_KEY (FIRST_KEY # xs) nid"
    using dseg_relink_last [OF store_ok_front [OF ok]] dist pr p_def by auto
  moreover have "LAST_KEY \<notin> set (FIRST_KEY # xs)" using dist by auto
  ultimately have seg: "dseg ?rd' FIRST_KEY (FIRST_KEY # xs) nid" using dseg_frame by blast
  obtain h where h: "?rd' FIRST_KEY = Some h" "credId h = FIRST_KEY" using seg by auto
  have good: "\<forall>y\<in>set xs. isRealCredId y \<and> (\<forall>r. ?rd' y = Some r \<longrightarrow> isStoredCredValid r)"
    using ok pr dist by (auto simp: store_ok_def)
  have d1: "distinct (FIRST_KEY # xs)" using dist by auto
  obtain s where s: "CRED_GC_MAX_SCAN_ID = length xs + Suc s" using len by (metis add_Suc_right less_imp_Suc_add)
  obtain cur where cur: "?rd' p = Some cur" and "repair_loop P ?t' (length xs + Suc s) (prefs boot) h =
      repair_loop P ?t' (Suc s) (prefs boot) cur"
    using repair_walk [OF seg rdb h(1) d1 good, of ?t' "Suc s"] p_def by blast
  moreover have "repair_loop P ?t' (Suc s) (prefs boot) cur = (False, prefs boot)"
    using cur ne nidN rdb cid by auto
  ultimately have "repair_loop P ?t' CRED_GC_MAX_SCAN_ID (prefs boot) h = (False, prefs boot)"
    unfolding s by (simp only:)
  then have "garbageCollect P boot = resetPool P boot"
    using h rdb cid by (simp add: garbageCollect_def ensurePool_def repairCredChain_def)
  then show ?thesis using add resetPool_inv [OF P, of boot] by simp
qed

text \<open>
  The start-up scan is bounded by 4096 steps while \<open>addCred\<close> has no limit: a perfectly good chain of
  4096 credentials or more is taken for damaged at the next start, and all of it is erased.
\<close>

theorem garbageCollect_erases_long_chain:
  assumes "reliable_preferences P content"
    and "store_ok (readData P (prefs st)) xs nid" and "CRED_GC_MAX_SCAN_ID \<le> length xs"
  shows "garbageCollect P st = resetPool P st \<and> storage_inv P (garbageCollect P st) [] 1"
  using garbageCollect_too_long [OF assms(2,3)] resetPool_inv [OF assms(1), of st] by simp

end
