(* ===== verification/Pass_Witness.thy ===== *)
theory Pass_Witness
  imports Pass_Faults
begin

text \<open>
  Concrete stores over the in-memory storage of the host tests, at which the hypotheses of the
  properties of the credential store hold.
\<close>

definition emptyStore :: "(string \<rightharpoonup> nat \<times> CredRecord) CredStorage" where
  "emptyStore = resetPool ramPreferences
     \<lparr>prefs = Map.empty, credsCache = [], maxCredId = 0, nextCredId = 1, verifiedCredId = 0\<rparr>"

text \<open>A PIN with one use and a PIN with five uses.\<close>

definition pinOnce :: CacheRecord where
  "pinOnce = \<lparr>credType = CredType_Password, credId = 0, name = ''Jan'' @ replicate 8 NUL,
     cred = ''123456'' @ replicate 15 NUL, doorNum = 3, validFrom = 0, validTo = 0, remaining = 1\<rparr>"

definition oneStore :: "(string \<rightharpoonup> nat \<times> CredRecord) CredStorage" where
  "oneStore = snd (addCred ramPreferences emptyStore pinOnce)"

lemma emptyStore_inv: "storage_inv ramPreferences emptyStore [] 1"
  unfolding emptyStore_def by (rule resetPool_inv [OF ram.reliable_preferences_axioms])

lemma pinOnce_ok: "validateCred pinOnce" "buffers_ok pinOnce"
  by (simp_all add: pinOnce_def validateCred_def validateCredential_def isCredentialType_def
      strnlen_def cstr_def store_consts buffers_ok_def eval_nat_numeral)

lemma one_real: "isRealCredId 1"
  by (simp add: isRealCredId_def FIRST_KEY_def LAST_KEY_def)

lemma oneStore_inv: "storage_inv ramPreferences oneStore [1] 2"
  and oneStore_cache: "credsCache oneStore = [pinOnce\<lparr>credId := 1\<rparr>]"
  using addCred_success [OF ram.reliable_preferences_axioms emptyStore_inv one_real pinOnce_ok]
  by (simp_all add: oneStore_def) (simp add: emptyStore_def resetPool_def Let_def)

lemma oneStore_removable:
  "removable (the (readData ramPreferences (prefs oneStore) 1)) (pinOnce\<lparr>credId := 1\<rparr>)"
proof -
  have "pinOnce\<lparr>credId := 1\<rparr> \<in> set (credsCache oneStore)" by (simp add: oneStore_cache)
  from cache_stored [OF oneStore_inv this] show ?thesis
    by (metis CacheRecord.select_convs(2) CacheRecord.surjective CacheRecord.update_convs(2) option.sel)
qed

lemma stores_ok:
  "store_ok (readData ramPreferences (prefs emptyStore)) [] 1"
  "store_ok (readData ramPreferences (prefs oneStore)) [1] 2"
  "records_ok (readData ramPreferences (prefs oneStore))"
  using emptyStore_inv oneStore_inv by (simp_all add: storage_inv_def)

theorem addCred_appends_witness:
  "\<exists>st' c. addCred ramPreferences emptyStore pinOnce = (1, st') \<and>
     store_ok (readData ramPreferences (prefs st')) [1] 2 \<and>
     entries (readData ramPreferences (prefs st')) [1] = [c] \<and> credId c = 1 \<and> same_credential c pinOnce"
  using addCred_appends [OF ram.reliable_preferences_axioms stores_ok(1) one_real pinOnce_ok]
  by (auto simp: entries_def)

text \<open>A power cut after the second write of the insertion into the empty store.\<close>

definition cutStore :: "(string \<rightharpoonup> nat \<times> CredRecord) CredStorage" where
  "cutStore = withPrefs
     (fst (prefs (snd (addCred (powerCut ramPreferences) (withPrefs (prefs emptyStore, 2) emptyStore) pinOnce))))
     emptyStore"

theorem addCred_powercut_recovers_witness:
  "store_ok (readData ramPreferences (prefs (garbageCollect ramPreferences cutStore))) [1] 2"
  using addCred_powercut_recovers [OF ram.reliable_preferences_axioms stores_ok(1) one_real pinOnce_ok,
      of cutStore 2] by (simp add: CRED_GC_MAX_SCAN_ID_def cutStore_def)

theorem removeCred_removes_witness:
  "\<exists>st'. removeCred ramPreferences oneStore (pinOnce\<lparr>credId := 1\<rparr>) = (1, st') \<and>
     store_ok (readData ramPreferences (prefs st')) [] 2 \<and> credsCache st' = []"
proof -
  have ok: "store_ok (readData ramPreferences (prefs oneStore)) ([] @ 1 # []) 2" using stores_ok(2) by simp
  show ?thesis
    using removeCred_removes [OF ram.reliable_preferences_axioms ok _ oneStore_removable]
    by (auto simp: oneStore_cache)
qed

definition cutRemoval :: "(string \<rightharpoonup> nat \<times> CredRecord) CredStorage" where
  "cutRemoval = withPrefs
     (fst (prefs (snd (removeCred (powerCut ramPreferences) (withPrefs (prefs oneStore, 1) oneStore)
        (pinOnce\<lparr>credId := 1\<rparr>))))) emptyStore"

theorem removeCred_powercut_recovers_witness:
  "store_ok (readData ramPreferences (prefs (garbageCollect ramPreferences cutRemoval))) [] 2"
proof -
  have ok: "store_ok (readData ramPreferences (prefs oneStore)) ([] @ 1 # []) 2" using stores_ok(2) by simp
  show ?thesis
    using removeCred_powercut_recovers [OF ram.reliable_preferences_axioms ok _ oneStore_removable, of cutRemoval 1]
    by (simp add: CRED_GC_MAX_SCAN_ID_def cutRemoval_def)
qed

theorem usedCred_consumes_witness:
  "\<exists>st'. usedCred ramPreferences (oneStore\<lparr>verifiedCredId := 1\<rparr>) 3 1000 = (True, st') \<and>
     storage_inv ramPreferences st' [] 2"
proof -
  let ?c = "pinOnce\<lparr>credId := 1\<rparr>"
  have inv: "storage_inv ramPreferences (oneStore\<lparr>verifiedCredId := 1\<rparr>) [1] 2" using oneStore_inv by simp
  have c: "?c \<in> set (credsCache (oneStore\<lparr>verifiedCredId := 1\<rparr>))" by (simp add: oneStore_cache)
  have act: "isActive ?c 1000" and f: "doorNum ?c = 3" "remaining ?c = 1" "credId ?c = 1"
    by (simp_all add: isActive_def pinOnce_def)
  show ?thesis
    using usedCred_consumes [OF ram.reliable_preferences_axioms inv c _ act] f by auto
qed

theorem begin_store_rebuilds_witness:
  "\<exists>st'. begin_store ramPreferences oneStore 1000 = Some (True, st') \<and>
     storage_inv ramPreferences st' [1] 2"
  using begin_store_rebuilds [OF ram.reliable_preferences_axioms stores_ok(2,3), of 1000]
  by (auto simp: CRED_GC_MAX_SCAN_ID_def)

theorem storage_inv_reachable_witness:
  "\<exists>xs nid. storage_inv ramPreferences (snd (verifyCred oneStore (Some ''123456'') CredType_Password 1000)) xs nid"
  by (rule storage_inv_reachable [OF ram.reliable_preferences_axioms oneStore_inv])
    (rule r_into_rtranclp, rule step_verify)

definition lostStore :: "(string \<rightharpoonup> nat \<times> CredRecord) CredStorage" where
  "lostStore = withPrefs
     (fst (prefs (snd (addCred (failingWrite ramPreferences) (withPrefs (prefs oneStore, Some 1) oneStore) pinOnce))))
     emptyStore"

theorem addCred_lost_write_resets_pool_witness:
  "fst (addCred (failingWrite ramPreferences) (withPrefs (prefs oneStore, Some 1) oneStore) pinOnce) = 2 \<and>
   garbageCollect ramPreferences lostStore = resetPool ramPreferences lostStore"
proof -
  have "isRealCredId 2" by (simp add: isRealCredId_def FIRST_KEY_def LAST_KEY_def)
  then show ?thesis
    using addCred_lost_write_resets_pool [OF ram.reliable_preferences_axioms stores_ok(2) _ pinOnce_ok, of lostStore]
    by (simp add: CRED_GC_MAX_SCAN_ID_def lostStore_def)
qed

text \<open>Stores of any length that the 32-bit identifiers allow, by repeated insertion.\<close>

lemma long_store:
  "m < 10000 \<Longrightarrow> \<exists>st xs. storage_inv ramPreferences st xs (of_nat (Suc m)) \<and> length xs = m"
proof (induction m)
  case 0
  then show ?case using emptyStore_inv by (auto intro!: exI [of _ emptyStore])
next
  case (Suc m)
  then obtain st xs where inv: "storage_inv ramPreferences st xs (of_nat (Suc m))" "length xs = m" by auto
  have "unat (of_nat (Suc m) :: u32) = Suc m"
    using Suc.prems by (simp only: unat_of_nat) (simp add: take_bit_nat_eq_self)
  then have "isRealCredId (of_nat (Suc m))"
    using Suc.prems by (auto simp: isRealCredId_def FIRST_KEY_def LAST_KEY_def word_unat_eq_iff)
  from addCred_success(2) [OF ram.reliable_preferences_axioms inv(1) this pinOnce_ok] inv(2)
  show ?case by (intro exI [of _ "snd (addCred ramPreferences st pinOnce)"] exI [of _ "xs @ [of_nat (Suc m)]"])
      (simp add: add.commute)
qed

theorem garbageCollect_erases_long_chain_witness:
  "\<exists>st xs nid. store_ok (readData ramPreferences (prefs st)) xs nid \<and> length xs = 4096 \<and>
     garbageCollect ramPreferences st = resetPool ramPreferences st"
proof -
  obtain st xs where "storage_inv ramPreferences st xs (of_nat (Suc 4096))" and len: "length xs = 4096"
    using long_store [of 4096] by auto
  then have ok: "store_ok (readData ramPreferences (prefs st)) xs (of_nat (Suc 4096))"
    by (simp add: storage_inv_def)
  show ?thesis
    using garbageCollect_erases_long_chain [OF ram.reliable_preferences_axioms ok] ok len
    by (auto simp: CRED_GC_MAX_SCAN_ID_def)
qed

end
