(* ===== verification/Cred_Dates.thy ===== *)
theory Cred_Dates
  imports Pass_Store
begin

text \<open>
  The calendar of the credential protocol, in \<open>src/src/cred_protocol.cpp\<close>: UTC dates as seconds since 1970,
  read from and printed as \<open>YYYY-MM-DD\<close>.  Years are at least 1970 wherever the code divides, so its
  truncating division is HOL's.
\<close>

section \<open>The code\<close>

definition leap :: "int \<Rightarrow> bool" where
  "leap year \<longleftrightarrow> year mod 4 = 0 \<and> (year mod 100 \<noteq> 0 \<or> year mod 400 = 0)"

definition month_lengths :: "int list" where
  "month_lengths = [31, 28, 31, 30, 31, 30, 31, 31, 30, 31, 30, 31]"

text \<open>Months are 1 to 12.\<close>

definition monthDays :: "int \<Rightarrow> nat \<Rightarrow> int" where
  "monthDays year month = month_lengths ! (month - 1) + (if month = 2 \<and> leap year then 1 else 0)"

definition yearDays :: "int \<Rightarrow> int" where
  "yearDays year = (let y = year - 1 in y * 365 + y div 4 - y div 100 + y div 400)"

definition isDigit :: "char \<Rightarrow> bool" where
  "isDigit c \<longleftrightarrow> (of_char c :: nat) \<ge> 48 \<and> (of_char c :: nat) \<le> 57"

definition digitValue :: "char \<Rightarrow> int" where
  "digitValue c = of_char c - 48"

text \<open>The days of the months before \<open>month\<close>.\<close>

fun daysBefore :: "int \<Rightarrow> nat \<Rightarrow> int" where
  "daysBefore year 0 = 0"
| "daysBefore year (Suc 0) = 0"
| "daysBefore year (Suc (Suc m)) = daysBefore year (Suc m) + monthDays year (Suc m)"

definition noLimit :: "bool \<Rightarrow> string" where
  "noLimit endOfDay = (if endOfDay then ''9999-12-31'' else ''0001-01-01'')"

text \<open>The text is the C string; \<open>None\<close> as argument is a value that is no string.\<close>

definition parseDate :: "string option \<Rightarrow> bool \<Rightarrow> u64 option" where
  "parseDate value endOfDay =
     (case value of None \<Rightarrow> None
      | Some text \<Rightarrow>
        if text = [] \<or> text = noLimit endOfDay then Some 0
        else if length text \<noteq> 10 \<or> text ! 4 \<noteq> CHR ''-'' \<or> text ! 7 \<noteq> CHR ''-'' then None
        else if \<not> (\<forall>i \<in> set [0..<10]. i \<noteq> 4 \<and> i \<noteq> 7 \<longrightarrow> isDigit (text ! i)) then None
        else
          let d = (\<lambda>i. digitValue (text ! i));
              year = d 0 * 1000 + d 1 * 100 + d 2 * 10 + d 3;
              month = d 5 * 10 + d 6;
              day = d 8 * 10 + d 9
          in if year < 1970 \<or> month < 1 \<or> 12 < month \<or> day < 1 \<or> monthDays year (nat month) < day then None
             else
               let days = yearDays year - yearDays 1970 + day - 1 + daysBefore year (nat month)
               in Some (word_of_int days * 86400 + (if endOfDay then 86399 else 0)))"

lemma leap_count:
  "(B \<Longrightarrow> A) \<Longrightarrow> (C \<Longrightarrow> B) \<Longrightarrow>
     (if A \<and> (\<not> B \<or> C) then 1 else 0 :: int) = (if A then 1 else 0) - (if B then 1 else 0) + (if C then 1 else 0)"
  by auto

lemma year_count:
  "a = a' + p \<Longrightarrow> b = b' + q \<Longrightarrow> c = c' + r \<Longrightarrow>
     y * 365 + a - b + c = ((y - 1) * 365 + a' - b' + c') + 365 + (p - q + r)" for y :: int
  by simp

lemma yearDays_Suc: "yearDays (y + 1) = yearDays y + 365 + (if leap y then 1 else 0)"
proof -
  have q: "y div k - (y - 1) div k = (if y mod k = 0 then 1 else 0)" if "0 < k" for k :: int
  proof (cases "y mod k = 0")
    case True
    then obtain m where "y = k * m" by (auto elim: dvdE simp: mod_0_imp_dvd dest!: mod_0_imp_dvd)
    moreover have "(k * m - 1) div k = m - 1"
      using that by (simp add: int_div_pos_eq [of _ k "m - 1" "k - 1"] algebra_simps)
    ultimately show ?thesis using that by simp
  next
    case False
    have r: "0 \<le> y mod k - 1" "y mod k - 1 < k" using that False pos_mod_bound [of k y] pos_mod_sign [of k y] by linarith+
    have "y - 1 = k * (y div k) + (y mod k - 1)" by simp
    then have "(y - 1) div k = y div k" using r by (intro int_div_pos_eq) auto
    then show ?thesis using False by simp
  qed
  have m: "y mod 100 = 0 \<Longrightarrow> y mod 4 = 0" "y mod 400 = 0 \<Longrightarrow> y mod 100 = 0" by presburger+
  have q4: "y div 4 = (y - 1) div 4 + (if y mod 4 = 0 then 1 else 0)" using q [of 4] by linarith
  have q100: "y div 100 = (y - 1) div 100 + (if y mod 100 = 0 then 1 else 0)" using q [of 100] by linarith
  have q400: "y div 400 = (y - 1) div 400 + (if y mod 400 = 0 then 1 else 0)" using q [of 400] by linarith
  have e: "yearDays (y + 1) = y * 365 + y div 4 - y div 100 + y div 400"
    "yearDays y = (y - 1) * 365 + (y - 1) div 4 - (y - 1) div 100 + (y - 1) div 400"
    by (simp_all add: yearDays_def Let_def)
  have l: "(if leap y then 1 else 0 :: int) =
      (if y mod 4 = 0 then 1 else 0) - (if y mod 100 = 0 then 1 else 0) + (if y mod 400 = 0 then 1 else 0)"
    unfolding leap_def by (rule leap_count [OF m])
  show ?thesis unfolding e l by (rule year_count [OF q4 q100 q400])
qed

text \<open>\<open>while (yearDays(year + 1) - yearDays(1970) <= days) ++year\<close>\<close>

function findYear :: "int \<Rightarrow> int \<Rightarrow> int" where
  "findYear year days = (if yearDays (year + 1) - yearDays 1970 \<le> days then findYear (year + 1) days else year)"
  by auto
termination
  by (relation "measure (\<lambda>(year, days). nat (days + yearDays 1970 - yearDays year))") (auto simp: yearDays_Suc split: if_splits)

declare findYear.simps [simp del]

text \<open>
  \<open>while (days >= monthDays(year, month)) days -= monthDays(year, month++)\<close>; \<open>None\<close> if the table of the
  months were overrun.
\<close>

function findMonth :: "int \<Rightarrow> nat \<Rightarrow> int \<Rightarrow> (nat \<times> int) option" where
  "findMonth year month days =
     (if 12 < month then None
      else if monthDays year month \<le> days then findMonth year (month + 1) (days - monthDays year month)
      else Some (month, days))"
  by auto
termination by (relation "measure (\<lambda>(year, month, days). 13 - month)") auto

declare findMonth.simps [simp del]

definition padDigits :: "nat \<Rightarrow> nat \<Rightarrow> string" where
  "padDigits w n = (let s = dec_digits n in replicate (w - length s) CHR ''0'' @ s)"

definition formatDate :: "u64 \<Rightarrow> bool \<Rightarrow> string option" where
  "formatDate timestamp endOfDay =
     (if timestamp = 0 then Some (noLimit endOfDay)
      else
        let days = uint (timestamp div 86400) in
        if yearDays 10000 - yearDays 1970 \<le> days then Some ''9999-12-31''
        else
          let year = findYear (1970 + days div 366) days in
          map_option (\<lambda>(month, d). padDigits 4 (nat year) @ ''-'' @ padDigits 2 month @ ''-'' @ padDigits 2 (nat (d + 1)))
            (findMonth year 1 (days - (yearDays year - yearDays 1970))))"

section \<open>Counting days\<close>

lemma yearDays_add: "yearDays y + 365 * int n \<le> yearDays (y + int n) \<and> yearDays (y + int n) \<le> yearDays y + 366 * int n"
proof (induction n)
  case (Suc n)
  have "y + int (Suc n) = (y + int n) + 1" by simp
  then have "yearDays (y + int (Suc n)) = yearDays (y + int n) + 365 + (if leap (y + int n) then 1 else 0)"
    by (simp only: yearDays_Suc)
  then show ?case using Suc by auto
qed simp

lemma yearDays_diff:
  assumes "x \<le> y"
  shows "365 * (y - x) \<le> yearDays y - yearDays x" and "yearDays y - yearDays x \<le> 366 * (y - x)"
  using yearDays_add [of x "nat (y - x)"] assms by simp_all

lemma findYear_eq:
  "s \<le> y \<Longrightarrow> yearDays y - yearDays 1970 \<le> d \<Longrightarrow> d < yearDays (y + 1) - yearDays 1970 \<Longrightarrow> findYear s d = y"
proof (induction "nat (y - s)" arbitrary: s)
  case 0
  then show ?case by (subst findYear.simps) simp
next
  case (Suc n)
  then have lt: "s + 1 \<le> y" by simp
  have "0 \<le> 365 * (y - (s + 1))" using lt by simp
  then have "yearDays (s + 1) \<le> yearDays y" using yearDays_diff(1) [OF lt] by linarith
  then have "findYear s d = findYear (s + 1) d" using Suc.prems by (subst findYear.simps) simp
  also have "\<dots> = y" using Suc.prems lt Suc.hyps(2) by (intro Suc.hyps(1)) auto
  finally show ?case .
qed

lemma monthDays_pos: "1 \<le> m \<Longrightarrow> m \<le> 12 \<Longrightarrow> 28 \<le> monthDays y m \<and> monthDays y m \<le> 31"
proof -
  assume "1 \<le> m" "m \<le> 12"
  then have "m \<in> set [1..<13]" by simp
  moreover have "\<forall>m \<in> set [1..<13]. 28 \<le> month_lengths ! (m - 1) \<and> month_lengths ! (m - 1) \<le> 31"
    by code_simp
  moreover have "month_lengths ! 1 = 28" by (simp add: month_lengths_def)
  ultimately show ?thesis by (auto simp: monthDays_def)
qed

lemma daysBefore_Suc: "1 \<le> m \<Longrightarrow> daysBefore y (Suc m) = daysBefore y m + monthDays y m"
  by (cases m) auto

lemma daysBefore_13: "daysBefore y 13 = 365 + (if leap y then 1 else 0)"
  by (simp add: numeral_eq_Suc monthDays_def month_lengths_def)

lemma daysBefore_mono: "1 \<le> m \<Longrightarrow> m \<le> n \<Longrightarrow> n \<le> 13 \<Longrightarrow> daysBefore y m \<le> daysBefore y n"
proof (induction n)
  case (Suc n)
  show ?case
  proof (cases "m = Suc n")
    case False
    then have "daysBefore y m \<le> daysBefore y n" "1 \<le> n" using Suc by auto
    then show ?thesis using Suc.prems monthDays_pos [of n y] by (simp add: daysBefore_Suc)
  qed simp
qed simp

lemma findMonth_eq:
  assumes "1 \<le> k" and "k \<le> m" and "m \<le> 12" and "0 \<le> d" and "d < monthDays y m"
  shows "findMonth y k (daysBefore y m - daysBefore y k + d) = Some (m, d)"
  using assms(1,2)
proof (induction "m - k" arbitrary: k)
  case 0
  then show ?case using assms by (subst findMonth.simps) simp
next
  case (Suc n)
  then have k: "k < m" by simp
  have ge: "monthDays y k \<le> daysBefore y m - daysBefore y k + d"
    using daysBefore_mono [of "Suc k" m y] Suc.prems k assms by (simp add: daysBefore_Suc)
  have "findMonth y k (daysBefore y m - daysBefore y k + d) =
      findMonth y (k + 1) (daysBefore y m - daysBefore y k + d - monthDays y k)"
    using ge k assms by (subst findMonth.simps) simp
  also have "daysBefore y m - daysBefore y k + d - monthDays y k = daysBefore y m - daysBefore y (k + 1) + d"
    using Suc.prems by (simp add: daysBefore_Suc)
  finally show ?case using Suc k by simp
qed

section \<open>Digits\<close>

lemma isDigit_dec_digit: "isDigit c \<Longrightarrow> 0 \<le> digitValue c \<and> digitValue c \<le> 9 \<and> dec_digit (nat (digitValue c)) = c"
proof -
  assume d: "isDigit c"
  have "of_char c \<in> set [48..<58 :: nat]" using d unfolding isDigit_def set_upt atLeastLessThan_iff by linarith
  moreover have "\<forall>n \<in> set [48..<58]. dec_digit (n - 48) = char_of n" by code_simp
  ultimately have "dec_digit ((of_char c :: nat) - 48) = c" by fastforce
  moreover have "digitValue c = int (of_char c) - 48" 
    unfolding digitValue_def by (simp add: of_char_def)
  ultimately show ?thesis using d by (simp add: isDigit_def nat_diff_distrib)
qed

lemma padDigits_2: "a < 10 \<Longrightarrow> b < 10 \<Longrightarrow> padDigits 2 (10 * a + b) = [dec_digit a, dec_digit b]"
proof -
  assume "a < 10" "b < 10"
  then have "a \<in> set [0..<10]" "b \<in> set [0..<10]" by simp_all
  moreover have "\<forall>a \<in> set [0..<10]. \<forall>b \<in> set [0..<10]. padDigits 2 (10 * a + b) = [dec_digit a, dec_digit b]" by code_simp
  ultimately show ?thesis by blast
qed

lemma padDigits_4:
  assumes "a < 10" and "b < 10" and "c < 10" and "d < 10" and "1 \<le> a"
  shows "padDigits 4 (1000 * a + 100 * b + 10 * c + d) = [dec_digit a, dec_digit b, dec_digit c, dec_digit d]"
proof -
  have step: "dec_digits (10 * m + e) = dec_digits m @ [dec_digit e]" if "e < 10" "1 \<le> m" for m e
    using that by (subst dec_digits.simps) simp
  have base: "dec_digits a = [dec_digit a]" using assms by (subst dec_digits.simps) simp
  have p: "1 \<le> 10 * a + b" "1 \<le> 10 * (10 * a + b) + c" using assms(5) by simp_all
  have "1000 * a + 100 * b + 10 * c + d = 10 * (10 * (10 * a + b) + c) + d" by simp
  also have "dec_digits \<dots> = [dec_digit a, dec_digit b, dec_digit c, dec_digit d]"
    unfolding step [OF assms(4) p(2)] step [OF assms(3) p(1)] step [OF assms(2,5)] base by simp
  finally show ?thesis by (simp add: padDigits_def)
qed

text \<open>
  Dates survive the protocol: a date that \<open>parseDate\<close> accepts and stores as a limit is printed back by
  \<open>formatDate\<close> exactly as it was given, for both ends of a validity interval.
\<close>

theorem date_roundtrip:
  assumes "parseDate (Some text) endOfDay = Some ts" and "ts \<noteq> 0"
  shows "formatDate ts endOfDay = Some text"
proof -
  define d where "d = (\<lambda>i. digitValue (text ! i))"
  define year where "year = d 0 * 1000 + d 1 * 100 + d 2 * 10 + d 3"
  define month where "month = d 5 * 10 + d 6"
  define day where "day = d 8 * 10 + d 9"
  define days where "days = yearDays year - yearDays 1970 + day - 1 + daysBefore year (nat month)"
  define k :: int where "k = (if endOfDay then 86399 else 0)"
  have len: "length text = 10" "text ! 4 = CHR ''-''" "text ! 7 = CHR ''-''"
    and dig: "\<forall>i \<in> set [0..<10]. i \<noteq> 4 \<and> i \<noteq> 7 \<longrightarrow> isDigit (text ! i)"
    and rng: "1970 \<le> year" "1 \<le> month" "month \<le> 12" "1 \<le> day" "day \<le> monthDays year (nat month)"
    and ts: "ts = word_of_int days * 86400 + (if endOfDay then 86399 else 0)"
    using assms by (auto simp: parseDate_def Let_def year_def month_def day_def days_def d_def split: if_splits)
  have dd: "0 \<le> d i \<and> d i \<le> 9 \<and> dec_digit (nat (d i)) = text ! i" if "i < 10" "i \<noteq> 4" "i \<noteq> 7" for i
    unfolding d_def by (rule isDigit_dec_digit) (use dig that in auto)
  note D = dd [of 0, simplified] dd [of 1, simplified] dd [of 2, simplified] dd [of 3, simplified] dd [of 5, simplified]
    dd [of 6, simplified] dd [of 8, simplified] dd [of 9, simplified]
  have l: "nat (d i) < 10" if "i < 10" "i \<noteq> 4" "i \<noteq> 7" for i using dd [OF that] by auto
  have m: "1 \<le> nat month" "nat month \<le> 12" using rng by auto
  have y: "year \<le> 9999" using D by (simp add: year_def)
  have b13: "daysBefore year (nat month) + monthDays year (nat month) \<le> 365 + (if leap year then 1 else 0)"
    using daysBefore_mono [of "Suc (nat month)" 13 year] m by (simp add: daysBefore_Suc daysBefore_13)
  have b0: "0 \<le> daysBefore year (nat month)" using daysBefore_mono [of 1 "nat month" year] m by simp
  have lo: "yearDays year - yearDays 1970 \<le> days" using rng b0 by (simp add: days_def)
  have hi: "days < yearDays (year + 1) - yearDays 1970" using rng b13 by (simp add: days_def yearDays_Suc)
  have dpos: "0 \<le> days" using lo yearDays_diff(1) [of 1970 year] rng by simp
  have dmax: "days < yearDays 10000 - yearDays 1970"
    using hi yearDays_diff(1) [of "year + 1" 10000] y by simp
  have num: "yearDays 10000 - yearDays 1970 = 2932897" by (simp add: yearDays_def)
  have kb: "0 \<le> k" "k < 86400" by (simp_all add: k_def)
  have tsi: "ts = word_of_int (days * 86400 + k)" by (simp add: ts k_def)
  have "0 \<le> days * 86400 + k" "days * 86400 + k < 2 ^ 64" using dpos dmax num kb by simp_all
  then have "uint ts = days * 86400 + k"
    unfolding tsi uint_word_of_int by (subst mod_pos_pos_trivial) simp_all
  then have "uint (ts div 86400) = days" using kb by (simp add: uint_div_distrib)
  moreover have "findYear (1970 + days div 366) days = year"
  proof (rule findYear_eq [OF _ lo hi])
    have "days < 366 * (year + 1 - 1970)" using hi yearDays_diff(2) [of 1970 "year + 1"] rng by simp
    then have "days div 366 < year + 1 - 1970" by (simp add: div_less_iff_less_mult mult.commute)
    then show "1970 + days div 366 \<le> year" by simp
  qed
  moreover have "findMonth year 1 (days - (yearDays year - yearDays 1970)) = Some (nat month, day - 1)"
    using findMonth_eq [of 1 "nat month" "day - 1" year] m rng by (simp add: days_def algebra_simps)
  moreover have "padDigits 4 (nat year) = [text ! 0, text ! 1, text ! 2, text ! 3]"
  proof -
    have e: "nat year = 1000 * nat (d 0) + 100 * nat (d 1) + 10 * nat (d 2) + nat (d 3)"
      using D by (simp add: year_def nat_add_distrib nat_mult_distrib)
    have "1 \<le> d 0" using rng(1) D unfolding year_def One_nat_def by linarith
    then have p: "1 \<le> nat (d 0)" by simp
    show ?thesis unfolding e using padDigits_4 [OF l l l l p, of 1 2 3] D by simp
  qed
  moreover have "padDigits 2 (nat month) = [text ! 5, text ! 6]"
  proof -
    have "nat month = 10 * nat (d 5) + nat (d 6)" using D by (simp add: month_def nat_add_distrib nat_mult_distrib)
    then show ?thesis using padDigits_2 [OF l l, of 5 6] D by simp
  qed
  moreover have "padDigits 2 (nat day) = [text ! 8, text ! 9]"
  proof -
    have "nat day = 10 * nat (d 8) + nat (d 9)" using D by (simp add: day_def nat_add_distrib nat_mult_distrib)
    then show ?thesis using padDigits_2 [OF l l, of 8 9] D by simp
  qed
  moreover have "text = [text ! 0, text ! 1, text ! 2, text ! 3] @ ''-'' @ [text ! 5, text ! 6] @ ''-'' @ [text ! 8, text ! 9]"
    using len by (intro nth_equalityI) (auto simp: less_Suc_eq numeral_eq_Suc)
  ultimately show ?thesis using assms(2) dmax by (simp add: formatDate_def Let_def)
qed

theorem date_roundtrip_witness: "formatDate 1709251199 True = Some ''2024-02-29''"
proof (rule date_roundtrip)
  show "parseDate (Some ''2024-02-29'') True = Some 1709251199" by code_simp
  show "(1709251199 :: u64) \<noteq> 0" by simp
qed

section \<open>Printing never leaves its tables\<close>

lemma findYear_spec:
  "yearDays s - yearDays 1970 \<le> d \<Longrightarrow>
     s \<le> findYear s d \<and> yearDays (findYear s d) - yearDays 1970 \<le> d \<and> d < yearDays (findYear s d + 1) - yearDays 1970"
proof (induction s d rule: findYear.induct)
  case (1 s d)
  show ?case
  proof (cases "yearDays (s + 1) - yearDays 1970 \<le> d")
    case True
    have e: "findYear s d = findYear (s + 1) d" using True by (subst findYear.simps) simp
    show ?thesis unfolding e using "1.IH" [OF True True] by simp
  next
    case False
    have e: "findYear s d = s" using False by (subst findYear.simps) simp
    show ?thesis unfolding e using "1.prems" False by simp
  qed
qed

lemma yearDays_start:
  assumes "366 * q \<le> d" and "0 \<le> q"
  shows "yearDays (s + q) - yearDays s \<le> d"
proof -
  have "yearDays (s + q) - yearDays s \<le> 366 * (s + q - s)" using assms(2) by (intro yearDays_diff(2)) simp
  then show ?thesis using assms(1) by simp
qed

lemma findMonth_total:
  assumes "1 \<le> k" and "k \<le> 12" and "0 \<le> d" and "d < daysBefore y 13 - daysBefore y k"
  shows "\<exists>m e. findMonth y k d = Some (m, e) \<and> 1 \<le> m \<and> m \<le> 12 \<and> 0 \<le> e \<and> e < 31"
  using assms
proof (induction y k d rule: findMonth.induct)
  case (1 y k d)
  show ?case
  proof (cases "monthDays y k \<le> d")
    case True
    have "k \<noteq> 12" using "1.prems" True daysBefore_Suc [of 12 y] by auto
    then have "\<exists>m e. findMonth y (k + 1) (d - monthDays y k) = Some (m, e) \<and> 1 \<le> m \<and> m \<le> 12 \<and> 0 \<le> e \<and> e < 31"
      using "1.prems" True daysBefore_Suc [of k y] by (intro "1.IH") auto
    then show ?thesis using True "1.prems"(2) by (subst findMonth.simps) simp
  next
    case False
    then show ?thesis using "1.prems" monthDays_pos [of k y] by (subst findMonth.simps) auto
  qed
qed

lemma length_dec_digits: "n < 10 ^ w \<Longrightarrow> 1 \<le> w \<Longrightarrow> length (dec_digits n) \<le> w"
proof (induction n arbitrary: w rule: dec_digits.induct)
  case (1 n)
  show ?case
  proof (cases "n < 10")
    case False
    then obtain v where v: "w = Suc v" "1 \<le> v" using "1.prems" by (cases w; cases "w = 1") auto
    then have "n div 10 < 10 ^ v" using "1.prems" by (simp add: div_less_iff_less_mult mult.commute)
    then have "length (dec_digits (n div 10)) \<le> v" using "1.IH" False v by blast
    then show ?thesis using False v by (subst dec_digits.simps) simp
  qed (use "1.prems" in \<open>subst dec_digits.simps, simp\<close>)
qed

lemma length_padDigits: "n < 10 ^ w \<Longrightarrow> 1 \<le> w \<Longrightarrow> length (padDigits w n) = w"
  using length_dec_digits by (simp add: padDigits_def Let_def)

text \<open>
  Every stored limit, all 64-bit values included, is printed as ten characters: the search for the year
  and the month ends inside the table of month lengths, and the text fits the buffer of eleven bytes.
\<close>

theorem formatDate_fits: "\<exists>date. formatDate ts endOfDay = Some date \<and> length date = 10"
proof -
  let ?days = "uint (ts div 86400)"
  let ?y = "findYear (1970 + ?days div 366) ?days"
  consider "ts = 0 \<or> yearDays 10000 - yearDays 1970 \<le> ?days" | (cal) "ts \<noteq> 0" "?days < yearDays 10000 - yearDays 1970" by linarith
  then show ?thesis
  proof cases
    case cal
    have d0: "0 \<le> ?days" by simp
    then have q: "0 \<le> ?days div 366" by (simp add: pos_imp_zdiv_nonneg_iff)
    have "366 * (?days div 366) \<le> ?days" by (simp add: mult.commute flip: minus_mod_eq_mult_div)
    then have "yearDays (1970 + ?days div 366) - yearDays 1970 \<le> ?days"
      by (rule yearDays_start [OF _ q])
    note f = findYear_spec [OF this]
    have ylo: "1970 \<le> ?y" using f q by linarith
    have yhi: "?y \<le> 9999"
    proof (rule ccontr)
      assume "\<not> ?y \<le> 9999"
      then have "yearDays 10000 \<le> yearDays ?y" using yearDays_diff(1) [of 10000 ?y] by simp
      then show False using f cal by linarith
    qed
    have r: "0 \<le> ?days - (yearDays ?y - yearDays 1970)" "?days - (yearDays ?y - yearDays 1970) < daysBefore ?y 13 - daysBefore ?y 1"
      using f by (simp_all add: yearDays_Suc daysBefore_13)
    obtain m e where m: "findMonth ?y 1 (?days - (yearDays ?y - yearDays 1970)) = Some (m, e)" "1 \<le> m" "m \<le> 12" "0 \<le> e" "e < 31"
      using findMonth_total [OF _ _ r] by fastforce
    have l: "length (padDigits 4 (nat ?y)) = 4" "length (padDigits 2 m) = 2" "length (padDigits 2 (nat (e + 1))) = 2"
      by (rule length_padDigits; use ylo yhi m(2-5) in simp)+
    have "formatDate ts endOfDay = Some (padDigits 4 (nat ?y) @ ''-'' @ padDigits 2 m @ ''-'' @ padDigits 2 (nat (e + 1)))"
      unfolding formatDate_def Let_def m(1) using cal by simp
    then show ?thesis using l by simp
  qed (auto simp: formatDate_def noLimit_def Let_def)
qed

end
