(* ===== verification/Cred_Protocol.thy ===== *)
theory Cred_Protocol
  imports Cred_Dates Pass_Invariant "HOL-Library.AList"
begin

text \<open>
  The credential requests of the web clients, \<open>src/src/cred_protocol.cpp\<close> and
  \<open>src/include/cred_protocol.h\<close>: validation of a JSON request and its effect on the credential store.
  JSON values belong to the ArduinoJson library, which is not part of the repository: a value of a request is
  the record of the answers of the accessors the code calls.  A response is the association list of the
  assignments to its keys.
\<close>

section \<open>Requests and responses\<close>

record JsonVariant =
  isNull :: bool
  isBool :: bool
  asBool :: bool
  isInt64 :: bool
  asInt64 :: int
  asText :: "string option"

type_synonym JsonRequest = "string \<Rightarrow> JsonVariant"

datatype JsonValue =
    JsonBool bool
  | JsonNumber int
  | JsonText string
  | JsonArray "JsonValue list"
  | JsonObject "(string \<times> JsonValue) list"

type_synonym JsonDocument = "(string \<times> JsonValue) list"

text \<open>\<open>ParamChecks::integer\<close>: \<open>None\<close> is a rejected value.\<close>

definition UINT32_MAX :: int where "UINT32_MAX = 4294967295"
definition INT32_MAX :: int where "INT32_MAX = 2147483647"

fun integer_loop :: "string \<Rightarrow> int \<Rightarrow> int option" where
  "integer_loop [] number = Some number"
| "integer_loop (c # text) number =
     (if \<not> isDigit c then None
      else let number' = number * 10 + digitValue c
           in if UINT32_MAX < number' then None else integer_loop text number')"

definition inRange :: "int \<Rightarrow> int \<Rightarrow> int \<Rightarrow> int option" where
  "inRange minimum maximum result = (if minimum \<le> result \<and> result \<le> maximum then Some result else None)"

definition integer :: "JsonVariant \<Rightarrow> int \<Rightarrow> int \<Rightarrow> int option" where
  "integer value minimum maximum =
     (if isBool value then None
      else if isInt64 value then inRange minimum maximum (asInt64 value)
      else case asText value of None \<Rightarrow> None
      | Some text \<Rightarrow>
          if text = [] then None
          else
            let negative = hd text = CHR ''-'';
                digits = (if negative then tl text else text)
            in if digits = [] then None
               else case integer_loop digits 0 of None \<Rightarrow> None
               | Some number \<Rightarrow> inRange minimum maximum (if negative then - number else number))"

record Fields =
  f_id :: string
  f_name :: string
  f_value :: string
  f_from :: string
  f_to :: string

definition fieldsFor :: "u8 \<Rightarrow> Fields" where
  "fieldsFor type =
     (if type = CredType_Password
      then \<lparr>f_id = ''pinid'', f_name = ''pinname'', f_value = ''pinvalue'', f_from = ''datefrom'', f_to = ''dateto''\<rparr>
      else \<lparr>f_id = ''codeid'', f_name = ''codename'', f_value = ''codevalue'', f_from = ''codefrom'', f_to = ''codeto''\<rparr>)"

definition parseType :: "JsonVariant \<Rightarrow> u8 option" where
  "parseType value =
     (case asText value of None \<Rightarrow> None
      | Some text \<Rightarrow>
          if text = ''ctPin'' then Some CredType_Password
          else if text = ''ctCode'' then Some CredType_PacketNumber
          else None)"

definition fail :: "JsonDocument \<Rightarrow> string \<Rightarrow> string \<Rightarrow> JsonDocument" where
  "fail response reason resultCode =
     AList.update ''lastresult'' (JsonText resultCode)
       (AList.update ''error'' (JsonText reason) (AList.update ''success'' (JsonBool False) response))"

text \<open>\<open>copyText\<close>: the target buffer afterwards, \<open>None\<close> for a refused text.\<close>

definition copyText :: "JsonVariant \<Rightarrow> string \<Rightarrow> nat \<Rightarrow> string option" where
  "copyText value target capacity =
     (case asText value of None \<Rightarrow> None
      | Some text \<Rightarrow> if text = [] \<or> capacity \<le> length text then None else Some (strcpy target text))"

definition credTypeName :: "u8 \<Rightarrow> string" where
  "credTypeName type =
     (if type = CredType_Password then ''ctPin'' else if type = CredType_PacketNumber then ''ctCode'' else ''all'')"

text \<open>\<open>std::to_string\<close>.\<close>

definition showInt :: "int \<Rightarrow> string" where
  "showInt i = (if i < 0 then ''-'' @ dec_digits (nat (- i)) else dec_digits (nat i))"

section \<open>Listing credentials\<close>

definition optionalInteger :: "JsonVariant \<Rightarrow> int \<Rightarrow> int \<Rightarrow> int \<Rightarrow> int option" where
  "optionalInteger value minimum maximum dflt =
     (if isNull value then Some dflt else integer value minimum maximum)"

definition credColumns :: "u8 \<Rightarrow> CacheRecord list \<Rightarrow> JsonDocument" where
  "credColumns type creds =
     (let flds = fieldsFor type in
      [(f_id flds, JsonArray (map (\<lambda>c. JsonNumber (uint (credId c))) creds)),
       (f_name flds, JsonArray (map (\<lambda>c. JsonText (cstr (name c))) creds)),
       (f_value flds, JsonArray (map (\<lambda>c. JsonText (cstr (cred c))) creds)),
       (f_from flds, JsonArray (map (\<lambda>c. JsonText (the (formatDate (validFrom c) False))) creds)),
       (f_to flds, JsonArray (map (\<lambda>c. JsonText (the (formatDate (validTo c) True))) creds))]
      @ (if type = CredType_Password
         then [(''amount'', JsonArray (map (\<lambda>c. JsonText (showInt (sint (remaining c)))) creds))] else []))"

definition buildCredResponse :: "'n CredStorage \<Rightarrow> JsonRequest \<Rightarrow> u64 \<Rightarrow> bool \<times> JsonDocument" where
  "buildCredResponse st request now =
     (case parseType (request ''credType'') of None \<Rightarrow> (False, fail [] ''invalid_cred_type'' ''R31'')
      | Some type \<Rightarrow>
          let response = AList.update ''credType'' (JsonText (credTypeName type)) [] in
          case optionalInteger (request ''credId'') 0 (uint LAST_KEY - 1) 0 of
            None \<Rightarrow> (False, fail response ''invalid_pagination'' ''R32'')
          | Some first \<Rightarrow>
              (case optionalInteger (request ''credCount'') 0 100 15 of
                 None \<Rightarrow> (False, fail response ''invalid_pagination'' ''R32'')
               | Some count \<Rightarrow>
                   let creds = getCreds st (word_of_int first) (word_of_int count) type now
                   in (True, AList.update ''rowCount'' (JsonNumber (int (length creds)))
                         (AList.update ''rows'' (JsonObject (credColumns type creds)) response))))"

section \<open>Changing credentials\<close>

text \<open>
  The checks of \<open>applyCredChangeImpl\<close> up to the call of the store: a refusal with its reason and result code,
  or the record to store.  Each stage is the next block of checks of the function.
\<close>

definition checkDates :: "Fields \<Rightarrow> JsonRequest \<Rightarrow> CacheRecord \<Rightarrow> (string \<times> string) + CacheRecord" where
  "checkDates flds request c0 =
     (let refused = Inl (''invalid_date_range'', ''R38'') in
      case (if isNull (request (f_from flds)) then Some (validFrom c0)
            else parseDate (asText (request (f_from flds))) False) of None \<Rightarrow> refused
      | Some from \<Rightarrow>
          (case (if isNull (request (f_to flds)) then Some (validTo c0)
                 else parseDate (asText (request (f_to flds))) True) of None \<Rightarrow> refused
           | Some to \<Rightarrow>
               if from \<noteq> 0 \<and> to \<noteq> 0 \<and> to < from then refused
               else Inr (c0\<lparr>validFrom := from, validTo := to\<rparr>)))"

definition checkDoor :: "JsonRequest \<Rightarrow> CacheRecord \<Rightarrow> (string \<times> string) + CacheRecord" where
  "checkDoor request c0 =
     (if isNull (request ''doornum'') then Inr c0
      else case integer (request ''doornum'') 0 254 of None \<Rightarrow> Inl (''txt_invalid_door'', ''R39'')
      | Some door \<Rightarrow> Inr (c0\<lparr>doorNum := word_of_int door\<rparr>))"

definition checkAmount :: "JsonRequest \<Rightarrow> CacheRecord \<Rightarrow> (string \<times> string) + CacheRecord" where
  "checkAmount request c0 =
     (let unlimited = request ''checkbox-unlimited''; refused = Inl (''txt_invalid_amount'', ''R41'') in
      if \<not> isNull unlimited \<and> \<not> isBool unlimited then Inl (''txt_invalid_unlimited'', ''R40'')
      else if isBool unlimited \<and> asBool unlimited then Inr (c0\<lparr>remaining := -1\<rparr>)
      else if \<not> isNull (request ''amount'') then
        (case integer (request ''amount'') (- 1) INT32_MAX of None \<Rightarrow> refused
         | Some amount \<Rightarrow>
             if isBool unlimited \<and> amount < 0 then refused
             else Inr (c0\<lparr>remaining := word_of_int amount\<rparr>))
      else if isBool unlimited then refused
      else Inr c0)"

definition checkSave :: "u8 \<Rightarrow> Fields \<Rightarrow> JsonRequest \<Rightarrow> CacheRecord \<Rightarrow> (string \<times> string) + CacheRecord" where
  "checkSave type flds request c0 =
     (case checkDates flds request c0 of Inl e \<Rightarrow> Inl e
      | Inr c1 \<Rightarrow>
          (case checkDoor request c1 of Inl e \<Rightarrow> Inl e
           | Inr c2 \<Rightarrow> if type = CredType_Password then checkAmount request c2 else Inr c2))"

definition checkIdentity :: "u8 \<Rightarrow> Fields \<Rightarrow> JsonRequest \<Rightarrow> CacheRecord \<Rightarrow> (string \<times> string) + CacheRecord" where
  "checkIdentity type flds request c0 =
     (case copyText (request (f_name flds)) (name c0) (MAX_NAME_LENGTH + 1) of
        None \<Rightarrow> Inl (''txt_invalid_cred_name'', ''R36'')
      | Some nm \<Rightarrow>
          (case copyText (request (f_value flds)) (cred c0)
                  (if type = CredType_Password then MAX_PIN_LENGTH + 1 else PACKET_NUMBER_MAX + 1) of
             None \<Rightarrow> Inl (''txt_invalid_cred_value'', ''R37'')
           | Some v \<Rightarrow> Inr (c0\<lparr>name := nm, cred := v\<rparr>)))"

definition newCacheRecord :: "u8 \<Rightarrow> CacheRecord" where
  "newCacheRecord type =
     zeroCache\<lparr>credType := type, credId := 0, remaining := if type = CredType_PacketNumber then 1 else -1\<rparr>"

definition checkChange ::
  "'n Preferences \<Rightarrow> 'n CredStorage \<Rightarrow> u8 \<Rightarrow> JsonRequest \<Rightarrow> (string \<times> string) + (bool \<times> int \<times> CacheRecord)" where
  "checkChange P st type request =
     (let flds = fieldsFor type; action = asText (request ''clicked'') in
      if action \<noteq> Some ''savebutton'' \<and> action \<noteq> Some ''deletebutton''
      then Inl (''txt_invalid_action'', ''R33'')
      else
        let deleting = (action = Some ''deletebutton'') in
        case integer (request (f_id flds)) 0 (uint LAST_KEY - 1) of
          None \<Rightarrow> Inl (''txt_invalid_cred_id'', ''R34'')
        | Some i \<Rightarrow>
            if deleting \<and> i = 0 then Inl (''txt_invalid_cred_id'', ''R34'')
            else
              case (if i = 0 then Some (newCacheRecord type) else getCred P st (word_of_int i) type) of
                None \<Rightarrow> Inl (''txt_cred_not_found'', ''R35'')
              | Some c0 \<Rightarrow>
                  (case checkIdentity type flds request c0 of Inl e \<Rightarrow> Inl e
                   | Inr c1 \<Rightarrow>
                       if deleting then Inr (True, i, c1)
                       else map_sum id (\<lambda>c. (False, i, c)) (checkSave type flds request c1)))"

text \<open>The call of the store: whether it changed, and the identifier the response names.\<close>

definition performChange ::
  "'n Preferences \<Rightarrow> 'n CredStorage \<Rightarrow> bool \<Rightarrow> int \<Rightarrow> CacheRecord \<Rightarrow> (bool \<times> u32) \<times> 'n CredStorage" where
  "performChange P st deleting requested c =
     (if deleting then case removeCred P st c of (i, st') \<Rightarrow> ((i = credId c, credId c), st')
      else if requested \<noteq> 0 then case updateCred P st c of (ok, st') \<Rightarrow> ((ok, credId c), st')
      else case addCred P st c of (i, st') \<Rightarrow> ((i \<noteq> 0, i), st'))"

definition applyCredChangeImpl ::
  "'n Preferences \<Rightarrow> 'n CredStorage \<Rightarrow> JsonRequest \<Rightarrow> (bool \<times> JsonDocument) \<times> 'n CredStorage" where
  "applyCredChangeImpl P st request =
     (case parseType (request ''credType'') of
        None \<Rightarrow> ((False, fail [] ''txt_invalid_cred_type'' ''R31''), st)
      | Some type \<Rightarrow>
          let response = AList.update ''credType'' (JsonText (credTypeName type)) [] in
          case checkChange P st type request of
            Inl (reason, code) \<Rightarrow> ((False, fail response reason code), st)
          | Inr (deleting, requested, c) \<Rightarrow>
              (case performChange P st deleting requested c of ((changed, i), st') \<Rightarrow>
                 if \<not> changed then ((False, fail response ''txt_cred_change_failed'' ''R42''), st')
                 else
                   ((True,
                     AList.update ''lastresult'' (JsonText (if deleting then ''R44'' else ''R43''))
                       (AList.update ''action''
                          (JsonText (if deleting then ''txt_deleted''
                                     else if requested \<noteq> 0 then ''txt_updated'' else ''txt_created''))
                          (AList.update ''credId'' (JsonNumber (uint i))
                             (AList.update ''success'' (JsonBool True) response)))), st')))"

text \<open>The entry of the access log that \<open>applyCredChange\<close> writes, and its result.\<close>

datatype CredLog =
    A_CREDENTIAL_INPUT_INVALID
  | A_CRED_EDIT bool "JsonValue option" "JsonValue option"
  | A_CRED_EDIT_ERROR bool "JsonValue option"

definition applyCredChange ::
  "'n Preferences \<Rightarrow> 'n CredStorage \<Rightarrow> JsonRequest \<Rightarrow> (bool \<times> JsonDocument \<times> CredLog) \<times> 'n CredStorage" where
  "applyCredChange P st request =
     (case applyCredChangeImpl P st request of ((changed, response), st') \<Rightarrow>
        let type = asText (request ''credType'');
            pin = (type = Some ''ctPin'');
            entry = (if type \<noteq> Some ''ctPin'' \<and> type \<noteq> Some ''ctCode'' then A_CREDENTIAL_INPUT_INVALID
                     else if changed
                     then A_CRED_EDIT pin (map_of response ''action'') (map_of response ''credId'')
                     else A_CRED_EDIT_ERROR pin (map_of response ''lastresult''))
        in ((changed, response, entry), st'))"

section \<open>Numbers\<close>

definition decimalValue :: "string \<Rightarrow> int" where
  "decimalValue ds = fold (\<lambda>c n. n * 10 + digitValue c) ds 0"

lemma fold_digits_mono:
  "list_all isDigit ds \<Longrightarrow> 0 \<le> n \<Longrightarrow> n \<le> fold (\<lambda>c n. n * 10 + digitValue c) ds n"
proof (induction ds arbitrary: n)
  case (Cons c ds)
  then have "0 \<le> digitValue c" using isDigit_dec_digit by simp
  then show ?case using Cons.IH [of "n * 10 + digitValue c"] Cons.prems by simp
qed simp

lemma integer_loop_value:
  "0 \<le> n \<Longrightarrow> integer_loop ds n =
     (if list_all isDigit ds \<and> (ds = [] \<or> fold (\<lambda>c n. n * 10 + digitValue c) ds n \<le> UINT32_MAX)
      then Some (fold (\<lambda>c n. n * 10 + digitValue c) ds n) else None)"
proof (induction ds arbitrary: n)
  case (Cons c ds)
  show ?case
  proof (cases "isDigit c")
    case True
    let ?n = "n * 10 + digitValue c"
    have p: "0 \<le> ?n" using isDigit_dec_digit [OF True] Cons.prems by simp
    show ?thesis using True Cons.IH [OF p] fold_digits_mono [OF _ p, of ds] by (auto simp: Let_def)
  qed simp
qed simp

text \<open>
  A numeric field given as text is accepted exactly when it is an optional minus sign and one or more
  decimal digits whose value is at most \<open>UINT32_MAX\<close> and, with the sign, lies in the range of the field; the
  number delivered is that value, however many leading zeros it has.
\<close>

theorem integer_reads_decimal:
  assumes "\<not> isBool v" and "\<not> isInt64 v" and "asText v = Some ((if negative then ''-'' else []) @ digits)"
    and "digits = [] \<or> hd digits \<noteq> CHR ''-''"
  shows "integer v lo hi =
     (let n = decimalValue digits; r = (if negative then - n else n) in
      if digits \<noteq> [] \<and> list_all isDigit digits \<and> n \<le> UINT32_MAX \<and> lo \<le> r \<and> r \<le> hi then Some r else None)"
  using assms by (cases digits) (auto simp: integer_def integer_loop_value decimalValue_def inRange_def Let_def split: if_splits)

theorem integer_reads_decimal_witness:
  "integer \<lparr>isNull = False, isBool = False, asBool = False, isInt64 = False, asInt64 = 0, asText = Some ''-0042''\<rparr>
     (- 100) 100 = Some (- 42)"
  using integer_reads_decimal [of "\<lparr>isNull = False, isBool = False, asBool = False, isInt64 = False, asInt64 = 0,
      asText = Some ''-0042''\<rparr>" True "''0042''" "- 100" 100]
  by (simp add: Let_def decimalValue_def isDigit_def digitValue_def UINT32_MAX_def)

section \<open>Effect on the store\<close>

lemma strcpy_length: "length (cstr s) < length dst \<Longrightarrow> length (strcpy dst s) = length dst"
  by (simp add: strcpy_def)

lemma copyText_length:
  assumes "copyText v target capacity = Some t" and "capacity \<le> length target"
  shows "length t = length target"
proof -
  obtain s where "length s < capacity" "t = strcpy target s"
    using assms(1) by (auto simp: copyText_def not_le split: option.splits if_splits)
  then show ?thesis using strcpy_length [of s target] length_cstr_le [of s] assms(2) by simp
qed

lemma checkIdentity_keeps:
  assumes "checkIdentity type flds request c0 = Inr c" and "buffers_ok c0"
  shows "buffers_ok c \<and> credId c = credId c0"
  using assms
  by (auto simp: checkIdentity_def buffers_ok_def store_consts split: option.splits if_splits dest!: copyText_length)

lemma checkSave_keeps:
  assumes "checkSave type flds request c0 = Inr c" and "buffers_ok c0"
  shows "buffers_ok c \<and> credId c = credId c0"
proof -
  have d: "buffers_ok c1 \<and> credId c1 = credId c0" if "checkDates flds request c0 = Inr c1" for c1
    using that assms(2) by (auto simp: checkDates_def buffers_ok_def Let_def split: option.splits if_splits)
  have k: "buffers_ok c2 \<and> credId c2 = credId c1" if "checkDoor request c1 = Inr c2" "buffers_ok c1" for c1 c2
    using that by (auto simp: checkDoor_def buffers_ok_def split: option.splits if_splits)
  have a: "buffers_ok c3 \<and> credId c3 = credId c2" if "checkAmount request c2 = Inr c3" "buffers_ok c2" for c2 c3
    using that by (auto simp: checkAmount_def buffers_ok_def Let_def split: option.splits if_splits)
  show ?thesis using assms(1) d k a by (auto simp: checkSave_def split: sum.splits if_splits)
qed

lemma getCred_buffers:
  assumes "storage_inv P st xs nid" and "getCred P st i type = Some c"
  shows "buffers_ok c \<and> credId c = i"
proof -
  obtain r where r: "readData P (prefs st) i = Some r" "credId r = i" "isStoredCredValid r" "c = toCacheRecord r"
    using assms(2) by (auto simp: getCred_def split: if_splits option.splits)
  have "buffers_ok r" using assms(1) r(1) by (auto simp: storage_inv_def records_ok_def)
  moreover have "validateCredential (Some (cred r)) (credType r) 0" "strnlen (name r) (MAX_NAME_LENGTH + 1) \<le> MAX_NAME_LENGTH"
    using r(3) by (auto simp: isStoredCredValid_def split: if_splits)
  ultimately show ?thesis using toCacheRecord_same [of r] r by simp
qed

lemma newCacheRecord_buffers: "buffers_ok (newCacheRecord type)"
  by (simp add: newCacheRecord_def zeroCache_def buffers_ok_def)

text \<open>A record that passes the checks fills its buffers and has the requested identifier.\<close>

lemma checkChange_record:
  assumes "storage_inv P st xs nid" and "checkChange P st type request = Inr (deleting, i, c)"
  shows "buffers_ok c" and "credId c = word_of_int i" and "deleting \<Longrightarrow> credId c \<noteq> 0" and "i \<noteq> 0 \<Longrightarrow> credId c \<noteq> 0"
proof -
  let ?flds = "fieldsFor type"
  obtain c0 c1 where i: "integer (request (f_id ?flds)) 0 (uint LAST_KEY - 1) = Some i" "deleting \<longrightarrow> i \<noteq> 0"
    and c0: "(if i = 0 then Some (newCacheRecord type) else getCred P st (word_of_int i) type) = Some c0"
    and c1: "checkIdentity type ?flds request c0 = Inr c1"
    and c: "if deleting then c = c1 else checkSave type ?flds request c1 = Inr c"
    using assms(2) unfolding checkChange_def Let_def
    by (auto split: if_splits option.splits sum.splits simp: map_sum_def)
  have z: "buffers_ok c0 \<and> credId c0 = word_of_int i"
    using c0 getCred_buffers [OF assms(1)] newCacheRecord_buffers by (auto simp: newCacheRecord_def split: if_splits)
  then have y: "buffers_ok c1 \<and> credId c1 = word_of_int i" using checkIdentity_keeps [OF c1] by simp
  have x: "buffers_ok c \<and> credId c = word_of_int i"
    using c y checkSave_keeps [of type ?flds request c1 c] by (auto split: if_splits)
  show "buffers_ok c" "credId c = word_of_int i" using x by auto
  have real: "isRealCredId (word_of_int i)" if "i \<noteq> 0"
    using c0 that by (auto simp: getCred_def split: if_splits)
  show "credId c \<noteq> 0" if "i \<noteq> 0" using x real [OF that] by (auto simp: isRealCredId_def FIRST_KEY_def)
  then show "credId c \<noteq> 0" if deleting using i(2) that by blast
qed

lemma performChange_outcome:
  assumes P: "reliable_preferences P content" and inv: "storage_inv P st xs nid" and real: "isRealCredId nid"
    and b: "buffers_ok c" and d: "deleting \<Longrightarrow> credId c \<noteq> 0"
    and r: "performChange P st deleting i c = ((changed, j), st')"
  shows "(\<not> changed \<longrightarrow> st' = st) \<and> (\<exists>xs' nid'. storage_inv P st' xs' nid')"
proof -
  consider (del) "deleting" | (upd) "\<not> deleting" "i \<noteq> 0" | (new) "\<not> deleting" "i = 0" by blast
  then show ?thesis
  proof cases
    case del
    then have s: "st' = snd (removeCred P st c)" "changed = (fst (removeCred P st c) = credId c)"
      using r by (auto simp: performChange_def split: prod.splits)
    have "\<not> changed \<longrightarrow> st' = st"
      using s removeCred_success(1) [OF P inv] removeCred_fails [of P st c] by fastforce
    then show ?thesis using s removeCred_inv [OF P inv, of c] by auto
  next
    case upd
    then have s: "st' = snd (updateCred P st c)" "changed = fst (updateCred P st c)"
      using r by (auto simp: performChange_def split: prod.splits)
    have "\<not> changed \<longrightarrow> st' = st"
      using s updateCred_success [OF P inv _ b] updateCred_fails [of c P st] by fastforce
    then show ?thesis using s updateCred_inv [OF P inv b] by auto
  next
    case new
    then have s: "st' = snd (addCred P st c)" "changed = (fst (addCred P st c) \<noteq> 0)"
      using r by (auto simp: performChange_def split: prod.splits)
    have "nid \<noteq> 0" using real by (simp add: isRealCredId_def FIRST_KEY_def)
    then have "\<not> changed \<longrightarrow> st' = st"
      using s addCred_success(1) [OF P inv real _ b] by (auto simp: addCred_def split: if_splits)
    then show ?thesis using s addCred_inv [OF P inv real b] by auto
  qed
qed

text \<open>
  C22.  A request to change credentials is all or nothing: with a reliable storage and identifiers left, whatever
  the JSON values are, a request that is answered with a failure leaves the store exactly as it was, and one that
  is answered with success keeps the chain of records and the cache well formed.
\<close>

theorem applyCredChange_safe:
  assumes "reliable_preferences P content" and "storage_inv P st xs nid" and "isRealCredId nid"
    and "applyCredChange P st request = ((changed, response, entry), st')"
  shows "(\<not> changed \<longrightarrow> st' = st) \<and> (\<exists>xs' nid'. storage_inv P st' xs' nid')"
proof -
  obtain resp where impl: "applyCredChangeImpl P st request = ((changed, resp), st')"
    using assms(4) by (auto simp: applyCredChange_def Let_def split: prod.splits)
  show ?thesis
  proof (cases "st' = st")
    case True
    then show ?thesis using assms(2) by blast
  next
    case False
    then obtain type deleting i c j where
      ch: "checkChange P st type request = Inr (deleting, i, c)" and
      pf: "performChange P st deleting i c = ((changed, j), st')"
      using impl by (auto simp: applyCredChangeImpl_def Let_def split: option.splits sum.splits prod.splits if_splits)
    show ?thesis
      using performChange_outcome [OF assms(1-3) _ _ pf] checkChange_record [OF assms(2) ch] by blast
  qed
qed

end
