(* ===== verification/Cred_Witness.thy ===== *)
theory Cred_Witness
  imports Cred_Protocol Pass_Witness
begin

text \<open>A request of the web client that creates a PIN, applied to the empty store of the host tests.\<close>

definition absentValue :: JsonVariant where
  "absentValue = \<lparr>isNull = True, isBool = False, asBool = False, isInt64 = False, asInt64 = 0, asText = None\<rparr>"

definition textValue :: "string \<Rightarrow> JsonVariant" where
  "textValue s = absentValue\<lparr>isNull := False, asText := Some s\<rparr>"

definition createRequest :: JsonRequest where
  "createRequest = (\<lambda>_. absentValue)(''credType'' := textValue ''ctPin'', ''clicked'' := textValue ''savebutton'',
     ''pinid'' := textValue ''0'', ''pinname'' := textValue ''Jan'', ''pinvalue'' := textValue ''123456'',
     ''datefrom'' := textValue ''0001-01-01'', ''dateto'' := textValue ''2030-06-30'', ''amount'' := textValue ''3'')"

theorem applyCredChange_safe_witness:
  "\<exists>xs' nid'. storage_inv ramPreferences (snd (applyCredChange ramPreferences emptyStore createRequest)) xs' nid'"
proof -
  obtain changed response entry st' where
    e: "applyCredChange ramPreferences emptyStore createRequest = ((changed, response, entry), st')"
    by (cases "applyCredChange ramPreferences emptyStore createRequest") auto
  show ?thesis
    using applyCredChange_safe [OF ram.reliable_preferences_axioms emptyStore_inv one_real e] by (simp add: e)
qed

end
