(* ===== verification/Tunnel_Ring.thy ===== *)
theory Tunnel_Ring
  imports Prelude
begin

text \<open>
  The byte queues of the SSH tunnel, \<open>src/experimental_libs/OrangeBoxSshTunnel/src/ring_buffer.h\<close> and
  \<open>prepend_buffer.h\<close>: a FreeRTOS ring of bytes with a small buffer in front of it that takes back what a socket
  did not accept.  The ring belongs to FreeRTOS, which is not part of the repository: its calls are the fields of
  the record \<open>Ringbuf\<close>.  Sizes are bounded by the memory of the device and are natural numbers; the pointers of
  the callers are their own arrays and never null.
\<close>

section \<open>The buffer of returned bytes\<close>

text \<open>\<open>pb_buf\<close> is the bound storage, \<open>None\<close> for a null pointer.\<close>

record PrependBuffer =
  pb_buf :: "bytes option"
  pb_cap :: nat
  pb_len :: nat
  pb_off :: nat

definition newPrepend :: PrependBuffer where
  "newPrepend = \<lparr>pb_buf = None, pb_cap = 0, pb_len = 0, pb_off = 0\<rparr>"

definition resetPrepend :: "bytes option \<Rightarrow> nat \<Rightarrow> PrependBuffer \<Rightarrow> PrependBuffer" where
  "resetPrepend storage capacity pb = pb\<lparr>pb_buf := storage, pb_cap := capacity, pb_len := 0, pb_off := 0\<rparr>"

definition prependWrite :: "bytes \<Rightarrow> PrependBuffer \<Rightarrow> nat \<times> PrependBuffer" where
  "prependWrite data pb =
     (case pb_buf pb of None \<Rightarrow> (0, pb)
      | Some buf \<Rightarrow>
          if length data = 0 \<or> pb_cap pb < length data then (0, pb)
          else if pb_off pb < pb_len pb then (0, pb)
          else (length data,
                pb\<lparr>pb_buf := Some (data @ drop (length data) buf), pb_len := length data, pb_off := 0\<rparr>))"

definition prependRead :: "nat \<Rightarrow> PrependBuffer \<Rightarrow> bytes \<times> PrependBuffer" where
  "prependRead len pb =
     (case pb_buf pb of None \<Rightarrow> ([], pb)
      | Some buf \<Rightarrow>
          if len = 0 \<or> pb_len pb \<le> pb_off pb then ([], pb)
          else
            let avail = pb_len pb - pb_off pb;
                copy = (if avail < len then avail else len);
                off = pb_off pb + copy
            in (take copy (drop (pb_off pb) buf),
                if pb_len pb \<le> off then pb\<lparr>pb_len := 0, pb_off := 0\<rparr> else pb\<lparr>pb_off := off\<rparr>))"

definition prependEmpty :: "PrependBuffer \<Rightarrow> bool" where
  "prependEmpty pb \<longleftrightarrow> pb_len pb \<le> pb_off pb"

definition prependPending :: "PrependBuffer \<Rightarrow> nat" where
  "prependPending pb = (if pb_off pb < pb_len pb then pb_len pb - pb_off pb else 0)"

definition prependClear :: "PrependBuffer \<Rightarrow> PrependBuffer" where
  "prependClear pb = pb\<lparr>pb_len := 0, pb_off := 0\<rparr>"

section \<open>The queue\<close>

text \<open>
  The calls of FreeRTOS: the free size, a send without waiting, and a receive of at most so many bytes
  together with the return of the received item.
\<close>

record 'r Ringbuf =
  rFree :: "'r \<Rightarrow> nat"
  rSend :: "'r \<Rightarrow> bytes \<Rightarrow> bool \<times> 'r"
  rReceiveUpTo :: "'r \<Rightarrow> nat \<Rightarrow> bytes option \<times> 'r"

record 'r DataRingBuffer =
  handle :: "'r option"
  rb_capacity :: nat
  prepend :: PrependBuffer

definition PREPEND_CAP :: nat where "PREPEND_CAP = 8192"

text \<open>
  The constructor; \<open>created\<close> is the ring FreeRTOS made, if its memory was there, and \<open>storage\<close> the memory of the
  prepend buffer.
\<close>

definition newDataRing :: "nat \<Rightarrow> 'r option \<Rightarrow> bytes option \<Rightarrow> 'r DataRingBuffer" where
  "newDataRing n created storage =
     (if created = None \<or> storage = None
      then \<lparr>handle = None, rb_capacity = n, prepend = newPrepend\<rparr>
      else \<lparr>handle = created, rb_capacity = n, prepend = resetPrepend storage PREPEND_CAP newPrepend\<rparr>)"

text \<open>The loop of \<open>write\<close> over the bytes not yet written.\<close>

function write_loop :: "'r Ringbuf \<Rightarrow> bytes \<Rightarrow> 'r \<Rightarrow> nat \<times> 'r" where
  "write_loop R data h =
     (if data = [] then (0, h)
      else
        let freeSpace = rFree R h in
        if freeSpace = 0 then (0, h)
        else
          let chunk = (if freeSpace < length data then freeSpace else length data) in
          case rSend R h (take chunk data) of (sent, h') \<Rightarrow>
            if \<not> sent then (0, h')
            else case write_loop R (drop chunk data) h' of (w, h'') \<Rightarrow> (chunk + w, h''))"
  by auto
termination by (relation "measure (\<lambda>(R, data, h). length data)") (auto split: if_splits)

declare write_loop.simps [simp del]

definition ringWrite :: "'r Ringbuf \<Rightarrow> bytes \<Rightarrow> 'r DataRingBuffer \<Rightarrow> nat \<times> 'r DataRingBuffer" where
  "ringWrite R data q =
     (case handle q of None \<Rightarrow> (0, q)
      | Some h \<Rightarrow>
          if data = [] then (0, q)
          else case write_loop R data h of (w, h') \<Rightarrow> (w, q\<lparr>handle := Some h'\<rparr>))"

definition ringWriteToFront :: "bytes \<Rightarrow> 'r DataRingBuffer \<Rightarrow> nat \<times> 'r DataRingBuffer" where
  "ringWriteToFront data q =
     (case prependWrite data (prepend q) of (n, pb) \<Rightarrow> (n, q\<lparr>prepend := pb\<rparr>))"

definition ringRead :: "'r Ringbuf \<Rightarrow> nat \<Rightarrow> 'r DataRingBuffer \<Rightarrow> bytes \<times> 'r DataRingBuffer" where
  "ringRead R len q =
     (if len = 0 then ([], q)
      else
        case (if prependEmpty (prepend q) then ([], prepend q) else prependRead len (prepend q)) of (front, pb) \<Rightarrow>
          let q1 = q\<lparr>prepend := pb\<rparr> in
          if \<not> prependEmpty (prepend q) \<and> len \<le> length front then (front, q1)
          else case handle q of None \<Rightarrow> (front, q1)
          | Some h \<Rightarrow>
              let remaining = len - length front in
              case rReceiveUpTo R h remaining of (item, h') \<Rightarrow>
                let q2 = q1\<lparr>handle := Some h'\<rparr> in
                (case item of None \<Rightarrow> (front, q2)
                 | Some d \<Rightarrow> (front @ take (if remaining < length d then remaining else length d) d, q2)))"

text \<open>The loop of \<open>clear\<close> has no bound of its own; \<open>None\<close> is the loop that never ends.\<close>

partial_function (option) clear_loop :: "'r Ringbuf \<Rightarrow> nat \<Rightarrow> 'r \<Rightarrow> 'r option" where
  "clear_loop R cap h =
     (case rReceiveUpTo R h cap of (item, h') \<Rightarrow> if item = None then Some h' else clear_loop R cap h')"

definition ringClear :: "'r Ringbuf \<Rightarrow> 'r DataRingBuffer \<Rightarrow> 'r DataRingBuffer option" where
  "ringClear R q =
     (let q1 = q\<lparr>prepend := prependClear (prepend q)\<rparr> in
      case handle q of None \<Rightarrow> Some q1
      | Some h \<Rightarrow> map_option (\<lambda>h'. q1\<lparr>handle := Some h'\<rparr>) (clear_loop R (rb_capacity q) h))"

definition ringSize :: "'r Ringbuf \<Rightarrow> 'r DataRingBuffer \<Rightarrow> nat" where
  "ringSize R q =
     (let prependRemain = prependPending (prepend q) in
      case handle q of None \<Rightarrow> prependRemain
      | Some h \<Rightarrow>
          let freeSpace = rFree R h in
          prependRemain + (if rb_capacity q < freeSpace then 0 else rb_capacity q - freeSpace))"

definition ringAvailable :: "'r Ringbuf \<Rightarrow> 'r DataRingBuffer \<Rightarrow> nat" where
  "ringAvailable R q = (case handle q of None \<Rightarrow> 0 | Some h \<Rightarrow> rFree R h)"

definition ringEmpty :: "'r Ringbuf \<Rightarrow> 'r DataRingBuffer \<Rightarrow> bool" where
  "ringEmpty R q \<longleftrightarrow> ringSize R q = 0"

definition ringFull :: "'r Ringbuf \<Rightarrow> 'r DataRingBuffer \<Rightarrow> bool" where
  "ringFull R q \<longleftrightarrow> ringAvailable R q = 0"

section \<open>What a queue promises its users\<close>

text \<open>
  A stream of bytes: writing appends what fits, reading takes a non-empty prefix of a non-empty stream, and bytes
  can be put back at the front as long as nothing that was put back before is left (\<open>pend\<close>).
\<close>

locale byte_stream =
  fixes ok :: "'q \<Rightarrow> bool" and stream :: "'q \<Rightarrow> bytes" and pend :: "'q \<Rightarrow> nat" and avail :: "'q \<Rightarrow> nat"
    and limit :: nat
    and put :: "bytes \<Rightarrow> 'q \<Rightarrow> nat \<times> 'q" and front :: "bytes \<Rightarrow> 'q \<Rightarrow> nat \<times> 'q"
    and read :: "nat \<Rightarrow> 'q \<Rightarrow> bytes \<times> 'q" and size :: "'q \<Rightarrow> nat"
  assumes size_stream: "ok q \<Longrightarrow> size q = length (stream q)"
    and pend_stream: "ok q \<Longrightarrow> pend q \<le> length (stream q)"
    and write_appends: "ok q \<Longrightarrow> put d q = (w, q') \<Longrightarrow>
      ok q' \<and> stream q' = stream q @ take w d \<and> pend q' = pend q \<and> w = min (length d) (avail q)"
    and read_prefix: "ok q \<Longrightarrow> n \<noteq> 0 \<Longrightarrow> read n q = (d, q') \<Longrightarrow>
      ok q' \<and> stream q = d @ stream q' \<and> length d \<le> n \<and> (stream q \<noteq> [] \<longrightarrow> d \<noteq> []) \<and> pend q' = pend q - n"
    and front_accepts: "ok q \<Longrightarrow> pend q = 0 \<Longrightarrow> d \<noteq> [] \<Longrightarrow> length d \<le> limit \<Longrightarrow> front d q = (w, q') \<Longrightarrow>
      ok q' \<and> w = length d \<and> stream q' = d @ stream q \<and> pend q' = length d"
    and front_rejects: "ok q \<Longrightarrow> 0 < pend q \<or> limit < length d \<Longrightarrow> front d q = (0, q)"
begin

text \<open>
  The way the pump returns what a socket did not take: at the front if possible, else at the end.  In the
  first case the order of the stream is restored.
\<close>

lemma put_back_restores:
  assumes "ok q" and "n \<noteq> 0" and "pend q \<le> n" and "n \<le> limit" and "read n q = (d, q1)" and "k < length d"
    and "front (drop k d) q1 = (w, q2)"
  shows "w \<noteq> 0 \<and> ok q2 \<and> stream q = take k d @ stream q2 \<and> pend q2 \<le> limit"
proof -
  note r = read_prefix [OF assms(1,2,5)]
  have "ok q2 \<and> w = length (drop k d) \<and> stream q2 = drop k d @ stream q1 \<and> pend q2 = length (drop k d)"
    using r assms(3,4,6) by (intro front_accepts [OF _ _ _ _ assms(7)]) auto
  then show ?thesis using r assms(4,6) by auto
qed

end

section \<open>The contract of the FreeRTOS ring\<close>

text \<open>
  What FreeRTOS documents of a byte ring: its free size and its contents add up to its capacity, a send that
  fits is accepted and appended, a refused send changes nothing, and a receive takes some bytes from the
  front (possibly fewer than asked for, where the storage wraps) unless the ring is empty.
\<close>

definition pendingBytes :: "PrependBuffer \<Rightarrow> bytes" where
  "pendingBytes pb = (case pb_buf pb of None \<Rightarrow> [] | Some buf \<Rightarrow> take (pb_len pb - pb_off pb) (drop (pb_off pb) buf))"

definition prepend_ok :: "PrependBuffer \<Rightarrow> bool" where
  "prepend_ok pb \<longleftrightarrow> pb_cap pb = PREPEND_CAP \<and> pb_off pb \<le> pb_len pb \<and> pb_len pb \<le> PREPEND_CAP \<and>
     (\<exists>buf. pb_buf pb = Some buf \<and> length buf = PREPEND_CAP)"

lemma pendingBytes_length: "prepend_ok pb \<Longrightarrow> length (pendingBytes pb) = prependPending pb"
  by (auto simp: prepend_ok_def pendingBytes_def prependPending_def)

lemma prependWrite_accepts:
  assumes "prepend_ok pb" and "prependPending pb = 0" and "d \<noteq> []" and "length d \<le> PREPEND_CAP"
    and "prependWrite d pb = (w, pb')"
  shows "prepend_ok pb' \<and> w = length d \<and> pendingBytes pb' = d \<and> prependPending pb' = length d"
  using assms by (auto simp: prepend_ok_def prependPending_def prependWrite_def pendingBytes_def split: if_splits)

lemma prependWrite_rejects:
  assumes "prepend_ok pb" and "0 < prependPending pb \<or> PREPEND_CAP < length d"
  shows "prependWrite d pb = (0, pb)"
  using assms by (auto simp: prepend_ok_def prependPending_def prependWrite_def split: if_splits)

lemma prependRead_prefix:
  assumes "prepend_ok pb" and "n \<noteq> 0" and "prependRead n pb = (d, pb')"
  shows "prepend_ok pb' \<and> pendingBytes pb = d @ pendingBytes pb' \<and> length d = min n (prependPending pb) \<and>
     prependPending pb' = prependPending pb - n"
proof -
  obtain buf where b: "pb_buf pb = Some buf" "length buf = PREPEND_CAP" and
    l: "pb_cap pb = PREPEND_CAP" "pb_off pb \<le> pb_len pb" "pb_len pb \<le> PREPEND_CAP"
    using assms(1) by (auto simp: prepend_ok_def)
  show ?thesis
  proof (cases "pb_len pb \<le> pb_off pb")
    case True
    then show ?thesis using assms b by (auto simp: prependRead_def prependPending_def pendingBytes_def)
  next
    case False
    define k where "k = min (pb_len pb - pb_off pb) n"
    have d: "d = take k (drop (pb_off pb) buf)"
      and pb': "pb' = (if pb_len pb \<le> pb_off pb + k then pb\<lparr>pb_len := 0, pb_off := 0\<rparr> else pb\<lparr>pb_off := pb_off pb + k\<rparr>)"
      using assms(2,3) b False by (auto simp: prependRead_def Let_def k_def min_def)
    have split: "take m (drop o1 buf) = take k (drop o1 buf) @ take (m - k) (drop (o1 + k) buf)" if "k \<le> m" for m o1
      using that by (metis add.commute drop_drop le_add_diff_inverse take_add)
    have "pendingBytes pb = d @ pendingBytes pb'"
      using split [of "pb_len pb - pb_off pb" "pb_off pb"] by (auto simp: pendingBytes_def b d pb' k_def)
    moreover have "length d = k" using l b by (auto simp: d k_def)
    ultimately show ?thesis using l b False by (auto simp: pb' prepend_ok_def prependPending_def k_def)
  qed
qed

text \<open>The bytes in a queue, and a queue whose memory was allocated.\<close>

definition bytesOf :: "('r \<Rightarrow> bytes) \<Rightarrow> 'r DataRingBuffer \<Rightarrow> bytes" where
  "bytesOf contents q = pendingBytes (prepend q) @ (case handle q of None \<Rightarrow> [] | Some h \<Rightarrow> contents h)"

definition good :: "('r \<Rightarrow> nat) \<Rightarrow> 'r DataRingBuffer \<Rightarrow> bool" where
  "good cap q \<longleftrightarrow> prepend_ok (prepend q) \<and> (\<exists>h. handle q = Some h \<and> cap h = rb_capacity q)"

locale byte_ring =
  fixes R :: "'r Ringbuf" and contents :: "'r \<Rightarrow> bytes" and cap :: "'r \<Rightarrow> nat"
  assumes free_size: "rFree R h + length (contents h) = cap h"
    and send_fits: "d \<noteq> [] \<Longrightarrow> length d \<le> rFree R h \<Longrightarrow> fst (rSend R h d)"
    and send_appends: "rSend R h d = (sent, h') \<Longrightarrow> contents h' = contents h @ (if sent then d else []) \<and> cap h' = cap h"
    and receive_none: "rReceiveUpTo R h n = (None, h') \<Longrightarrow> n \<noteq> 0 \<Longrightarrow> contents h = [] \<and> contents h' = [] \<and> cap h' = cap h"
    and receive_some: "rReceiveUpTo R h n = (Some d, h') \<Longrightarrow> n \<noteq> 0 \<Longrightarrow>
      d \<noteq> [] \<and> length d \<le> n \<and> contents h = d @ contents h' \<and> cap h' = cap h"
begin

lemma write_loop_appends:
  assumes "write_loop R data h = (w, h')"
  shows "contents h' = contents h @ take w data \<and> cap h' = cap h \<and> w = min (length data) (rFree R h)"
proof (cases "data = [] \<or> rFree R h = 0")
  case True
  then have "write_loop R data h = (0, h)" by (subst write_loop.simps) auto
  then show ?thesis using assms True by auto
next
  case False
  define chunk where "chunk = min (length data) (rFree R h)"
  have c: "take chunk data \<noteq> []" "length (take chunk data) \<le> rFree R h" "length (take chunk data) = chunk"
    using False by (auto simp: chunk_def)
  obtain h1 where s: "rSend R h (take chunk data) = (True, h1)" using send_fits [OF c(1,2)] by (metis prod.collapse)
  note a = send_appends [OF s]
  have "drop chunk data = [] \<or> rFree R h1 = 0"
    using free_size [of h1] free_size [of h] a c(3) by (auto simp: chunk_def min_def split: if_splits)
  then have stop: "write_loop R (drop chunk data) h1 = (0, h1)" by (subst write_loop.simps) auto
  have "write_loop R data h = (chunk, h1)"
    using False s stop by (subst write_loop.simps) (auto simp: Let_def chunk_def min_def not_less split: if_splits)
  then show ?thesis using assms a by (simp add: chunk_def)
qed

lemma ringWrite_appends:
  assumes "good cap q" and "ringWrite R d q = (w, q')"
  shows "good cap q' \<and> bytesOf contents q' = bytesOf contents q @ take w d \<and> prepend q' = prepend q \<and> w = min (length d) (ringAvailable R q)"
proof (cases "d = []")
  case False
  obtain h where h: "handle q = Some h" "cap h = rb_capacity q" using assms(1) by (auto simp: good_def)
  obtain h' where w: "write_loop R d h = (w, h')" "q' = q\<lparr>handle := Some h'\<rparr>"
    using assms(2) False h by (auto simp: ringWrite_def split: prod.splits)
  show ?thesis using write_loop_appends [OF w(1)] assms(1) h w(2) by (simp add: good_def bytesOf_def ringAvailable_def)
qed (use assms in \<open>auto simp: ringWrite_def good_def\<close>)

lemma ringSize_bytes: "good cap q \<Longrightarrow> ringSize R q = length (bytesOf contents q)"
proof -
  assume "good cap q"
  then obtain h where "handle q = Some h" "cap h = rb_capacity q" "prepend_ok (prepend q)" by (auto simp: good_def)
  then show ?thesis using free_size [of h] by (simp add: ringSize_def bytesOf_def Let_def pendingBytes_length)
qed

lemma ringRead_prefix:
  assumes "good cap q" and "n \<noteq> 0" and "ringRead R n q = (d, q')"
  shows "good cap q' \<and> bytesOf contents q = d @ bytesOf contents q' \<and> length d \<le> n \<and> (bytesOf contents q \<noteq> [] \<longrightarrow> d \<noteq> []) \<and>
     prependPending (prepend q') = prependPending (prepend q) - n"
proof -
  obtain h where h: "handle q = Some h" "cap h = rb_capacity q" and pok: "prepend_ok (prepend q)"
    using assms(1) by (auto simp: good_def)
  define fp where "fp = (if prependEmpty (prepend q) then ([], prepend q) else prependRead n (prepend q))"
  obtain f pb where fp: "fp = (f, pb)" by (cases fp)
  have pr: "prepend_ok pb \<and> pendingBytes (prepend q) = f @ pendingBytes pb \<and> length f = min n (prependPending (prepend q)) \<and>
      prependPending pb = prependPending (prepend q) - n"
  proof (cases "prependEmpty (prepend q)")
    case True
    then show ?thesis using fp pok pendingBytes_length [OF pok]
      by (auto simp: fp_def prependEmpty_def prependPending_def)
  next
    case False
    then show ?thesis using fp prependRead_prefix [OF pok assms(2)] by (simp add: fp_def)
  qed
  have eq: "ringRead R n q =
     (if \<not> prependEmpty (prepend q) \<and> n \<le> length f then (f, q\<lparr>prepend := pb\<rparr>)
      else case rReceiveUpTo R h (n - length f) of (item, h') \<Rightarrow>
        (case item of None \<Rightarrow> (f, q\<lparr>prepend := pb, handle := Some h'\<rparr>)
         | Some d \<Rightarrow> (f @ take (n - length f) d, q\<lparr>prepend := pb, handle := Some h'\<rparr>)))"
    using assms(2) fp h(1) unfolding ringRead_def fp_def [symmetric]
    by (auto simp: Let_def split: prod.splits option.splits)
  show ?thesis
  proof (cases "\<not> prependEmpty (prepend q) \<and> n \<le> length f")
    case True
    then show ?thesis using assms(2,3) eq pr h by (auto simp: good_def bytesOf_def)
  next
    case False
    have "length f < n \<or> prependPending (prepend q) = 0"
      using False pr by (auto simp: prependEmpty_def prependPending_def)
    then have lf: "n - length f \<noteq> 0" using assms(2) pr by auto
    then have done_front: "pendingBytes pb = []" using pr pendingBytes_length [of pb] by auto
    obtain item h' where rc: "rReceiveUpTo R h (n - length f) = (item, h')" by fastforce
    show ?thesis
    proof (cases item)
      case None
      then have "d = f" "q' = q\<lparr>prepend := pb, handle := Some h'\<rparr>" using eq False assms(3) rc by auto
      then show ?thesis using receive_none [OF rc [unfolded None] lf] pr h done_front by (auto simp: good_def bytesOf_def)
    next
      case (Some e)
      note rs = receive_some [OF rc [unfolded Some] lf]
      have "d = f @ e" "q' = q\<lparr>prepend := pb, handle := Some h'\<rparr>" using eq False assms(3) rc Some rs by auto
      then show ?thesis using rs pr h done_front by (auto simp: good_def bytesOf_def)
    qed
  qed
qed

lemma clear_loop_empties:
  assumes "c \<noteq> 0"
  shows "\<exists>h'. clear_loop R c h = Some h' \<and> contents h' = [] \<and> cap h' = cap h"
proof (induction "length (contents h)" arbitrary: h rule: less_induct)
  case less
  obtain item h' where rc: "rReceiveUpTo R h c = (item, h')" by fastforce
  show ?case
  proof (cases item)
    case None
    then show ?thesis using receive_none [OF rc [unfolded None] assms] rc by (subst clear_loop.simps) simp
  next
    case (Some d)
    note rs = receive_some [OF rc [unfolded Some] assms]
    then have "length (contents h') < length (contents h)" by simp
    from less [OF this] show ?thesis using rc Some rs by (subst clear_loop.simps) simp
  qed
qed

end

sublocale byte_ring \<subseteq> queue: byte_stream "good cap" "bytesOf contents" "\<lambda>q. prependPending (prepend q)" "ringAvailable R" PREPEND_CAP
  "ringWrite R" ringWriteToFront "ringRead R" "ringSize R"
proof
  fix q d w q'
  show "ringSize R q = length (bytesOf contents q)" if "good cap q" by (rule ringSize_bytes [OF that])
  show "prependPending (prepend q) \<le> length (bytesOf contents q)" if "good cap q"
    using that pendingBytes_length [of "prepend q"] by (auto simp: good_def bytesOf_def)
  show "good cap q' \<and> bytesOf contents q' = bytesOf contents q @ take w d \<and> prependPending (prepend q') = prependPending (prepend q) \<and>
      w = min (length d) (ringAvailable R q)" if "good cap q" "ringWrite R d q = (w, q')"
    using ringWrite_appends [OF that] by simp
  show "good cap q' \<and> w = length d \<and> bytesOf contents q' = d @ bytesOf contents q \<and> prependPending (prepend q') = length d"
    if "good cap q" "prependPending (prepend q) = 0" "d \<noteq> []" "length d \<le> PREPEND_CAP" "ringWriteToFront d q = (w, q')"
  proof -
    note a = that
    have e: "pendingBytes (prepend q) = []" using that pendingBytes_length [of "prepend q"] by (simp add: good_def)
    obtain pb where pb: "prependWrite d (prepend q) = (w, pb)" "q' = q\<lparr>prepend := pb\<rparr>"
      using a(5) by (auto simp: ringWriteToFront_def split: prod.splits)
    show ?thesis using prependWrite_accepts [OF _ that(2-4) pb(1)] that(1) pb(2) e by (auto simp: good_def bytesOf_def)
  qed
  show "ringWriteToFront d q = (0, q)" if "good cap q" "0 < prependPending (prepend q) \<or> PREPEND_CAP < length d"
    using prependWrite_rejects [OF _ that(2)] that(1) by (simp add: ringWriteToFront_def good_def)
next
  fix q :: "'r DataRingBuffer" and n d q'
  show "good cap q' \<and> bytesOf contents q = d @ bytesOf contents q' \<and> length d \<le> n \<and> (bytesOf contents q \<noteq> [] \<longrightarrow> d \<noteq> []) \<and>
      prependPending (prepend q') = prependPending (prepend q) - n" if "good cap q" "n \<noteq> 0" "ringRead R n q = (d, q')"
    by (rule ringRead_prefix [OF that])
qed

section \<open>A ring\<close>

text \<open>
  A ring that meets the contract: the position of the next byte to read, the free size and the contents; a
  receive stops at the end of the storage, as the byte rings of FreeRTOS do.
\<close>

type_synonym ring = "nat \<times> nat \<times> bytes"

definition arrayRing :: "ring Ringbuf" where
  "arrayRing = \<lparr>
     rFree = (\<lambda>(pos, free, xs). free),
     rSend = (\<lambda>(pos, free, xs) d. if length d \<le> free then (True, (pos, free - length d, xs @ d)) else (False, (pos, free, xs))),
     rReceiveUpTo = (\<lambda>(pos, free, xs) n.
       if xs = [] then (None, (pos, free, xs))
       else
         let c = free + length xs; k = min n (min (length xs) (c - pos mod c))
         in (Some (take k xs), ((pos + k) mod c, free + k, drop k xs)))\<rparr>"

lemma arrayRing_progress: "min n (min (length xs) (free + length xs - pos mod (free + length xs))) = 0 \<Longrightarrow>
    xs = [] \<or> n = 0" for free :: nat
proof (rule ccontr)
  assume a: "min n (min (length xs) (free + length xs - pos mod (free + length xs))) = 0" "\<not> (xs = [] \<or> n = 0)"
  then have "pos mod (free + length xs) < free + length xs" by (intro mod_less_divisor) simp
  then have "0 < free + length xs - pos mod (free + length xs)" by linarith
  moreover have "0 < n" "0 < length xs" using a(2) by auto
  ultimately show False using a(1) by linarith
qed

interpretation arr: byte_ring arrayRing "\<lambda>(pos, free, xs). xs" "\<lambda>(pos, free, xs). free + length xs"
proof
  show "rReceiveUpTo arrayRing h n = (Some d, h') \<Longrightarrow> n \<noteq> 0 \<Longrightarrow>
      d \<noteq> [] \<and> length d \<le> n \<and> (case h of (pos, free, xs) \<Rightarrow> xs) = d @ (case h' of (pos, free, xs) \<Rightarrow> xs) \<and>
      (case h' of (pos, free, xs) \<Rightarrow> free + length xs) = (case h of (pos, free, xs) \<Rightarrow> free + length xs)" for h n d h'
    by (cases h) (auto simp: arrayRing_def Let_def split: if_splits dest: arrayRing_progress)
qed (auto simp: arrayRing_def Let_def split: prod.splits if_splits)

end
