(* ===== verification/Tunnel_Breaker.thy ===== *)
theory Tunnel_Breaker
  imports Prelude
begin

text \<open>
  The circuit breaker of the SSH tunnel, \<open>src/experimental_libs/OrangeBoxSshTunnel/src/circuit_breaker.h\<close>: after three
  failures in a row to reach a local service, its mapping is left alone for a while that doubles with every
  further failure.  \<open>unsigned long\<close> has 32 bits and wraps; a port is a C \<open>int\<close>, 0 marks an unused entry.
\<close>

section \<open>The code\<close>

definition MAX_MAPPING_HEALTH :: nat where "MAX_MAPPING_HEALTH = 8"
definition FAIL_THRESHOLD :: nat where "FAIL_THRESHOLD = 3"
definition BACKOFF_BASE_MS :: u32 where "BACKOFF_BASE_MS = 1000"
definition BACKOFF_CAP_MS :: u32 where "BACKOFF_CAP_MS = 60000"

record MappingHealth =
  mh_port :: int
  consecutiveFails :: nat
  backoffUntilMs :: u32

record CircuitBreaker =
  health :: "MappingHealth list"
  totalTrips :: u32

definition newBreaker :: CircuitBreaker where
  "newBreaker = \<lparr>health = replicate MAX_MAPPING_HEALTH \<lparr>mh_port = 0, consecutiveFails = 0, backoffUntilMs = 0\<rparr>, totalTrips = 0\<rparr>"

text \<open>The first entry with a port, as an index.\<close>

fun indexOfPort :: "int \<Rightarrow> MappingHealth list \<Rightarrow> nat option" where
  "indexOfPort port [] = None"
| "indexOfPort port (h # hs) = (if mh_port h = port then Some 0 else map_option Suc (indexOfPort port hs))"

definition find_health :: "int \<Rightarrow> CircuitBreaker \<Rightarrow> MappingHealth option" where
  "find_health port cb =
     (if port = 0 then None else map_option (\<lambda>i. health cb ! i) (indexOfPort port (health cb)))"

definition findOrAlloc :: "int \<Rightarrow> CircuitBreaker \<Rightarrow> (nat \<times> CircuitBreaker) option" where
  "findOrAlloc port cb =
     (case indexOfPort port (health cb) of Some i \<Rightarrow> Some (i, cb)
      | None \<Rightarrow>
          (case indexOfPort 0 (health cb) of None \<Rightarrow> None
           | Some i \<Rightarrow> Some (i, cb\<lparr>health := (health cb)[i := \<lparr>mh_port = port, consecutiveFails = 0, backoffUntilMs = 0\<rparr>]\<rparr>)))"

text \<open>\<open>h->backoffUntilMs != 0 && (long)(now - h->backoffUntilMs) < 0\<close>.\<close>

definition openAt :: "u32 \<Rightarrow> MappingHealth \<Rightarrow> bool" where
  "openAt now h \<longleftrightarrow> backoffUntilMs h \<noteq> 0 \<and> sint (now - backoffUntilMs h) < 0"

definition isBackedOff :: "int \<Rightarrow> u32 \<Rightarrow> CircuitBreaker \<Rightarrow> bool" where
  "isBackedOff port now cb = (case find_health port cb of None \<Rightarrow> False | Some h \<Rightarrow> openAt now h)"

definition backoffDelay :: "nat \<Rightarrow> u32" where
  "backoffDelay fails =
     (let e = (if 16 < fails - FAIL_THRESHOLD then 16 else fails - FAIL_THRESHOLD);
          delay = push_bit e BACKOFF_BASE_MS
      in if BACKOFF_CAP_MS < delay then BACKOFF_CAP_MS else delay)"

definition recordFailure :: "int \<Rightarrow> u32 \<Rightarrow> CircuitBreaker \<Rightarrow> bool \<times> CircuitBreaker" where
  "recordFailure port now cb =
     (if port = 0 then (False, cb)
      else case findOrAlloc port cb of None \<Rightarrow> (False, cb)
      | Some (i, cb1) \<Rightarrow>
          let h = health cb1 ! i;
              fails = (if consecutiveFails h < 100 then consecutiveFails h + 1 else consecutiveFails h);
              h1 = h\<lparr>consecutiveFails := fails\<rparr>
          in if FAIL_THRESHOLD \<le> fails then
               let cb2 = cb1\<lparr>health := (health cb1)[i := h1\<lparr>backoffUntilMs := now + backoffDelay fails\<rparr>]\<rparr>
               in if \<not> openAt now h then (True, cb2\<lparr>totalTrips := totalTrips cb2 + 1\<rparr>) else (False, cb2)
             else (False, cb1\<lparr>health := (health cb1)[i := h1]\<rparr>))"

definition recordSuccess :: "int \<Rightarrow> CircuitBreaker \<Rightarrow> CircuitBreaker" where
  "recordSuccess port cb =
     (if port = 0 then cb
      else case findOrAlloc port cb of None \<Rightarrow> cb
      | Some (i, cb1) \<Rightarrow>
          cb1\<lparr>health := (health cb1)[i := (health cb1 ! i)\<lparr>consecutiveFails := 0, backoffUntilMs := 0\<rparr>]\<rparr>)"

section \<open>The table\<close>

lemma indexOfPort_Some:
  "indexOfPort port hs = Some i \<Longrightarrow> i < length hs \<and> mh_port (hs ! i) = port \<and> (\<forall>j < i. mh_port (hs ! j) \<noteq> port)"
proof (induction hs arbitrary: i)
  case (Cons h hs)
  show ?case
  proof (cases "mh_port h = port")
    case False
    then obtain k where "i = Suc k" "indexOfPort port hs = Some k" using Cons.prems by auto
    then show ?thesis using Cons.IH [of k] False by (auto simp: less_Suc_eq_0_disj)
  qed (use Cons.prems in simp)
qed simp

lemma indexOfPort_None: "indexOfPort port hs = None \<longleftrightarrow> (\<forall>h \<in> set hs. mh_port h \<noteq> port)"
  by (induction hs) auto

lemma indexOfPort_update:
  assumes "indexOfPort port hs = Some i" and "mh_port h = port"
  shows "indexOfPort port (hs[i := h]) = Some i"
  using assms by (induction hs arbitrary: i) (auto split: if_splits)

lemma indexOfPort_fresh:
  assumes "indexOfPort port hs = None" and "i < length hs" and "mh_port h = port"
  shows "indexOfPort port (hs[i := h]) = Some i"
  using assms by (induction hs arbitrary: i) (auto split: nat.splits)

lemma findOrAlloc_index:
  assumes "findOrAlloc port cb = Some (i, cb1)"
  shows "i < length (health cb1) \<and> indexOfPort port (health cb1) = Some i"
proof (cases "indexOfPort port (health cb)")
  case None
  then obtain j where j: "indexOfPort 0 (health cb) = Some j" "i = j"
    "cb1 = cb\<lparr>health := (health cb)[j := \<lparr>mh_port = port, consecutiveFails = 0, backoffUntilMs = 0\<rparr>]\<rparr>"
    using assms by (auto simp: findOrAlloc_def split: option.splits)
  then show ?thesis using indexOfPort_Some [OF j(1)] indexOfPort_fresh [OF None] by simp
next
  case (Some j)
  then show ?thesis using assms indexOfPort_Some [OF Some] by (simp add: findOrAlloc_def)
qed

text \<open>
  How far in the future the end of the back-off lies: at most 60 seconds after the failure.
\<close>

lemma backoffDelay_cases: "unat (backoffDelay fails) = min 60000 (1000 * 2 ^ (fails - 3))"
proof -
  show ?thesis
  proof (cases "fails - 3 \<le> 16")
    case True
    let ?d = "1000 * 2 ^ (fails - 3) :: nat"
    have "(2 :: nat) ^ (fails - 3) \<le> 2 ^ 16" using True by (intro power_increasing) simp_all
    then have lt: "?d < 2 ^ 32" by simp
    have w: "push_bit (fails - 3) BACKOFF_BASE_MS = of_nat ?d" by (simp add: BACKOFF_BASE_MS_def push_bit_eq_mult)
    have u: "unat (of_nat ?d :: u32) = ?d" unfolding unat_of_nat using lt by simp
    have "(BACKOFF_CAP_MS < of_nat ?d) = (60000 < ?d)" by (simp only: word_less_nat_alt u) (simp add: BACKOFF_CAP_MS_def)
    then show ?thesis using True u unfolding backoffDelay_def FAIL_THRESHOLD_def Let_def
      by (auto simp: w BACKOFF_CAP_MS_def min_def)
  next
    case False
    have "backoffDelay fails = 60000"
      using False by (simp add: backoffDelay_def FAIL_THRESHOLD_def BACKOFF_CAP_MS_def BACKOFF_BASE_MS_def push_bit_eq_mult)
    moreover have "(2 :: nat) ^ 16 \<le> 2 ^ (fails - 3)" using False by (intro power_increasing) simp_all
    ultimately show ?thesis by (simp add: min_def)
  qed
qed

lemma signed_before: "t < 2 ^ 31 \<Longrightarrow> d < 2 ^ 31 \<Longrightarrow> (sint (of_nat t - of_nat d :: u32) < 0) = (t < d)"
proof -
  assume a: "t < 2 ^ 31" "d < 2 ^ 31"
  have "sint (of_nat t - of_nat d :: u32) = int t - int d"
  proof -
    have "(of_nat t - of_nat d :: u32) = word_of_int (int t - int d)" by simp
    moreover have "- (2 ^ 31) \<le> int t - int d" "int t - int d < 2 ^ 31" using a by simp_all
    ultimately show ?thesis by (simp only: sint_sbintrunc') (simp add: signed_take_bit_int_eq_self)
  qed
  then show ?thesis by simp
qed

text \<open>
  After a failure that reaches the threshold, the mapping is backed off for exactly one second doubled with
  every failure beyond the third, at most sixty seconds: for every later time up to 2^31 milliseconds away,
  across the wrap of the clock, \<open>isBackedOff\<close> holds precisely until the delay has passed.  The one exception is
  an end of the delay at clock value 0, which the code reads as no back-off.
\<close>

theorem backoff_lasts:
  assumes "port \<noteq> 0" and "findOrAlloc port cb = Some (i, cb1)"
    and "fails = min 100 (consecutiveFails (health cb1 ! i) + 1)" and "3 \<le> fails"
    and "recordFailure port now cb = (newly, cb')" and "delay = min 60000 (1000 * 2 ^ (fails - 3))"
    and "t < 2 ^ 31" and "consecutiveFails (health cb1 ! i) \<le> 100"
  shows "isBackedOff port (now + of_nat t) cb' \<longleftrightarrow> t < delay \<and> now + of_nat delay \<noteq> 0"
proof -
  note ix = findOrAlloc_index [OF assms(2)]
  have f: "(if consecutiveFails (health cb1 ! i) < 100 then consecutiveFails (health cb1 ! i) + 1
      else consecutiveFails (health cb1 ! i)) = fails" using assms(3,8) by auto
  define h where "h = (health cb1 ! i)\<lparr>consecutiveFails := fails, backoffUntilMs := now + backoffDelay fails\<rparr>"
  have cb': "health cb' = (health cb1)[i := h]"
    using assms(1,2,4,5) unfolding recordFailure_def Let_def f FAIL_THRESHOLD_def h_def
    by (auto simp: f FAIL_THRESHOLD_def split: if_splits)
  have "indexOfPort port (health cb') = Some i"
    unfolding cb' using ix indexOfPort_Some [of port "health cb1" i] by (intro indexOfPort_update) (auto simp: h_def)
  then have b: "isBackedOff port (now + of_nat t) cb' = openAt (now + of_nat t) h"
    using assms(1) ix by (simp add: isBackedOff_def find_health_def cb')
  have u: "backoffDelay fails = of_nat delay"
    using backoffDelay_cases [of fails] assms(6) by (metis of_nat_unat ucast_id)
  have d: "delay < 2 ^ 31" using assms(6) by simp
  have "now + of_nat t - (now + of_nat delay) = (of_nat t - of_nat delay :: u32)" by simp
  then show ?thesis unfolding b openAt_def using signed_before [OF assms(7) d] by (auto simp: h_def u)
qed

text \<open>A breaker with two failures of one mapping, and the third.\<close>

definition failedTwice :: CircuitBreaker where
  "failedTwice = \<lparr>health = \<lparr>mh_port = 8080, consecutiveFails = 2, backoffUntilMs = 0\<rparr> #
     replicate 7 \<lparr>mh_port = 0, consecutiveFails = 0, backoffUntilMs = 0\<rparr>, totalTrips = 0\<rparr>"

lemma failedTwice_reached: "failedTwice = snd (recordFailure 8080 30 (snd (recordFailure 8080 20 newBreaker)))"
  by (simp add: failedTwice_def recordFailure_def newBreaker_def findOrAlloc_def MAX_MAPPING_HEALTH_def
      FAIL_THRESHOLD_def numeral_eq_Suc)

theorem backoff_lasts_witness:
  "isBackedOff 8080 (5000 + of_nat 999) (snd (recordFailure 8080 5000 failedTwice)) \<and>
   \<not> isBackedOff 8080 (5000 + of_nat 1000) (snd (recordFailure 8080 5000 failedTwice))"
proof -
  have f: "findOrAlloc 8080 failedTwice = Some (0, failedTwice)" by (simp add: findOrAlloc_def failedTwice_def)
  obtain newly cb' where r: "recordFailure 8080 5000 failedTwice = (newly, cb')" by fastforce
  have "isBackedOff 8080 (5000 + of_nat t) cb' \<longleftrightarrow> t < 1000 \<and> (5000 + of_nat 1000 :: u32) \<noteq> 0" if "t < 2 ^ 31" for t
    by (rule backoff_lasts [OF _ f refl _ r _ that]) (simp_all add: failedTwice_def)
  from this [of 999] this [of 1000] show ?thesis by (simp add: r)
qed

end
