(* ===== verification/Tunnel_Channels.thy ===== *)
theory Tunnel_Channels
  imports Tunnel_Ring Tunnel_Breaker
begin

text \<open>
  The channels of the SSH tunnel, \<open>ssh_channel.h\<close>, \<open>ssh_channel.cpp\<close>, \<open>channel_slot_alloc.h\<close> and
  \<open>channel_close_progress.h\<close> under \<open>src/experimental_libs/OrangeBoxSshTunnel/src\<close>: a table of slots, each with two
  queues, and its operations.  Sockets, libssh2, the clock, the heap and the session lock are calls to the outside,
  the fields of the record \<open>Net\<close> over an unknown state; that state is the field \<open>net\<close> of the manager.  A channel
  of libssh2 is known by a number; the array of slots is a list, empty for the null pointer.  Log calls and the
  tags of the queues are left out.
\<close>

section \<open>The outside\<close>

record ('r, 'w) Net =
  millis :: "'w \<Rightarrow> u32 \<times> 'w"
  n_socket :: "'w \<Rightarrow> int \<times> 'w"
  n_inet_pton :: "string \<Rightarrow> bool"
  n_getfl :: "int \<Rightarrow> 'w \<Rightarrow> int \<times> 'w"
  n_setfl :: "int \<Rightarrow> int \<Rightarrow> 'w \<Rightarrow> int \<times> 'w"
  n_connect :: "int \<Rightarrow> string \<Rightarrow> int \<Rightarrow> 'w \<Rightarrow> (int \<times> bool) \<times> 'w"
  n_select :: "int \<Rightarrow> 'w \<Rightarrow> (int \<times> bool) \<times> 'w"
  n_sockerr :: "int \<Rightarrow> 'w \<Rightarrow> (int \<times> int) \<times> 'w"
  n_optimize :: "int \<Rightarrow> 'w \<Rightarrow> 'w"
  n_close :: "int \<Rightarrow> 'w \<Rightarrow> 'w"
  n_send :: "int \<Rightarrow> bytes \<Rightarrow> 'w \<Rightarrow> (int \<times> bool) \<times> 'w"
  n_recv :: "int \<Rightarrow> nat \<Rightarrow> 'w \<Rightarrow> (int \<times> bytes \<times> bool) \<times> 'w"
  n_shutdown :: "int \<Rightarrow> 'w \<Rightarrow> 'w"
  ch_close :: "nat \<Rightarrow> 'w \<Rightarrow> int \<times> 'w"
  ch_free :: "nat \<Rightarrow> 'w \<Rightarrow> int \<times> 'w"
  ch_set_nonblocking :: "nat \<Rightarrow> 'w \<Rightarrow> 'w"
  ch_read :: "nat \<Rightarrow> nat \<Rightarrow> 'w \<Rightarrow> (int \<times> bytes) \<times> 'w"
  ch_write :: "nat \<Rightarrow> bytes \<Rightarrow> 'w \<Rightarrow> int \<times> 'w"
  ch_eof :: "nat \<Rightarrow> 'w \<Rightarrow> bool \<times> 'w"
  ch_send_eof :: "nat \<Rightarrow> 'w \<Rightarrow> int \<times> 'w"
  s_lock :: "nat \<Rightarrow> 'w \<Rightarrow> bool \<times> 'w"
  s_unlock :: "'w \<Rightarrow> 'w"
  h_largest_psram :: "'w \<Rightarrow> nat"
  h_largest_heap :: "'w \<Rightarrow> nat"
  r_create :: "nat \<Rightarrow> 'w \<Rightarrow> ('r option \<times> bytes option) \<times> 'w"

definition LIBSSH2_ERROR_EAGAIN :: int where "LIBSSH2_ERROR_EAGAIN = -37"

section \<open>Closing in steps\<close>

record Progress =
  closeComplete :: bool
  freeComplete :: bool

definition newProgress :: Progress where "newProgress = \<lparr>closeComplete = False, freeComplete = False\<rparr>"

definition recordCloseResult :: "int \<Rightarrow> int \<Rightarrow> Progress \<Rightarrow> bool \<times> Progress" where
  "recordCloseResult rc eagainCode p = (if rc = eagainCode then (False, p) else (True, p\<lparr>closeComplete := True\<rparr>))"

definition readyForFree :: "Progress \<Rightarrow> bool" where "readyForFree p = closeComplete p"

definition recordFreeResult :: "int \<Rightarrow> int \<Rightarrow> Progress \<Rightarrow> bool \<times> Progress" where
  "recordFreeResult rc eagainCode p = (if rc = eagainCode then (False, p) else (True, p\<lparr>freeComplete := True\<rparr>))"

definition readyForFinalize :: "Progress \<Rightarrow> bool" where
  "readyForFinalize p \<longleftrightarrow> closeComplete p \<and> freeComplete p"

section \<open>Slots\<close>

datatype ChannelCloseReason = ReasonUnknown | RemoteClosed | LocalClosed | ReasonError | ReasonTimeout | Manual

datatype SlotState = SlotOpen | Draining | SlotClosed

record ChannelEndpointInfo =
  remoteHost :: string
  remotePort :: int
  localHost :: string
  localPort :: int

record 'r ChannelSlot =
  sshChannel :: "nat option"
  localSocket :: int
  active :: bool
  endpoint :: ChannelEndpointInfo
  toLocal :: "'r DataRingBuffer option"
  toRemote :: "'r DataRingBuffer option"
  slotState :: SlotState
  localEof :: bool
  remoteEof :: bool
  localShutdownSent :: bool
  closeStartMs :: u32
  eofSentMs :: u32
  closeReason :: ChannelCloseReason
  sshCloseProgress :: Progress
  localReadPaused :: bool
  sshReadPaused :: bool
  totalBytesReceived :: u32
  totalBytesSent :: u32
  lastActivity :: u32
  lastSuccessfulWrite :: u32
  lastSuccessfulRead :: u32
  consecutiveErrors :: int
  eagainCount :: int
  firstEagainMs :: u32
  firstLocalSendEagainMs :: u32
  lastFinalizeMs :: u32

definition noEndpoint :: ChannelEndpointInfo where
  "noEndpoint = \<lparr>remoteHost = [], remotePort = 0, localHost = [], localPort = 0\<rparr>"

definition newSlot :: "'r ChannelSlot" where
  "newSlot = \<lparr>sshChannel = None, localSocket = -1, active = False, endpoint = noEndpoint, toLocal = None, toRemote = None,
     slotState = SlotClosed, localEof = False, remoteEof = False, localShutdownSent = False, closeStartMs = 0,
     eofSentMs = 0, closeReason = ReasonUnknown, sshCloseProgress = newProgress, localReadPaused = False,
     sshReadPaused = False, totalBytesReceived = 0, totalBytesSent = 0, lastActivity = 0, lastSuccessfulWrite = 0,
     lastSuccessfulRead = 0, consecutiveErrors = 0, eagainCount = 0, firstEagainMs = 0, firstLocalSendEagainMs = 0,
     lastFinalizeMs = 0\<rparr>"

text \<open>The reset keeps the time of the last teardown.\<close>

definition resetSlot :: "'r ChannelSlot \<Rightarrow> 'r ChannelSlot" where
  "resetSlot slot = newSlot\<lparr>lastFinalizeMs := lastFinalizeMs slot\<rparr>"

definition FINALIZE_COOLDOWN_MS :: u32 where "FINALIZE_COOLDOWN_MS = 50"

fun findFreeChannel :: "'r ChannelSlot list \<Rightarrow> u32 \<Rightarrow> u32 \<Rightarrow> nat option" where
  "findFreeChannel [] now cooldown_ms = None"
| "findFreeChannel (s # ss) now cooldown_ms =
     (if active s \<or> (lastFinalizeMs s \<noteq> 0 \<and> now - lastFinalizeMs s < cooldown_ms)
      then map_option Suc (findFreeChannel ss now cooldown_ms)
      else Some 0)"

section \<open>The manager\<close>

record ('r, 'w) ChannelManager =
  slots :: "'r ChannelSlot list"
  activeCount :: int
  ringBufferSize :: nat
  breaker :: CircuitBreaker
  net :: 'w

record TunnelConfig =
  remoteBindHost :: string
  remoteBindPort :: int
  tc_localHost :: string
  tc_localPort :: int

definition maxSlots :: "('r, 'w) ChannelManager \<Rightarrow> nat" where
  "maxSlots m = length (slots m)"

definition updSlot :: "nat \<Rightarrow> ('r ChannelSlot \<Rightarrow> 'r ChannelSlot) \<Rightarrow> ('r, 'w) ChannelManager \<Rightarrow> ('r, 'w) ChannelManager" where
  "updSlot i f m = m\<lparr>slots := (slots m)[i := f (slots m ! i)]\<rparr>"

definition act :: "('w \<Rightarrow> 'w) \<Rightarrow> ('r, 'w) ChannelManager \<Rightarrow> ('r, 'w) ChannelManager" where
  "act f m = m\<lparr>net := f (net m)\<rparr>"

definition ask :: "('w \<Rightarrow> 'a \<times> 'w) \<Rightarrow> ('r, 'w) ChannelManager \<Rightarrow> 'a \<times> ('r, 'w) ChannelManager" where
  "ask f m = (case f (net m) of (a, w) \<Rightarrow> (a, m\<lparr>net := w\<rparr>))"

text \<open>\<open>destroy\<close>: close the sockets of the active slots and drop the table.\<close>

definition destroyChannels :: "('r, 'w) Net \<Rightarrow> ('r, 'w) ChannelManager \<Rightarrow> ('r, 'w) ChannelManager" where
  "destroyChannels N m =
     m\<lparr>net := fold (\<lambda>s w. if active s \<and> 0 \<le> localSocket s then n_close N (localSocket s) w else w) (slots m) (net m),
       slots := [], activeCount := 0\<rparr>"

definition initChannels ::
  "('r, 'w) Net \<Rightarrow> nat \<Rightarrow> nat \<Rightarrow> bool \<Rightarrow> ('r, 'w) ChannelManager \<Rightarrow> bool \<times> ('r, 'w) ChannelManager" where
  "initChannels N maxChannels bufferSize allocated m =
     (let m0 = (if slots m \<noteq> [] then destroyChannels N m else m);
          m1 = m0\<lparr>ringBufferSize := bufferSize, activeCount := 0\<rparr> in
      if \<not> allocated then (False, m1\<lparr>slots := []\<rparr>)
      else (True, m1\<lparr>slots := replicate maxChannels newSlot\<rparr>))"

definition beginClose :: "('r, 'w) Net \<Rightarrow> nat \<Rightarrow> ChannelCloseReason \<Rightarrow> ('r, 'w) ChannelManager \<Rightarrow> ('r, 'w) ChannelManager" where
  "beginClose N i reason m =
     (if maxSlots m \<le> i then m
      else
        let slot = slots m ! i in
        if \<not> active slot \<or> slotState slot = Draining \<or> slotState slot = SlotClosed then m
        else case ask (millis N) m of (now, m1) \<Rightarrow>
          updSlot i (\<lambda>s. s\<lparr>slotState := Draining, closeStartMs := now, closeReason := reason\<rparr>) m1)"

text \<open>The second pass of \<open>allocateSlot\<close>: the first slot without activity for 30 seconds.\<close>

fun findStale :: "'r ChannelSlot list \<Rightarrow> u32 \<Rightarrow> nat option" where
  "findStale [] now = None"
| "findStale (s # ss) now = (if active s \<and> 30000 < now - lastActivity s then Some 0 else map_option Suc (findStale ss now))"

definition allocateSlot :: "('r, 'w) Net \<Rightarrow> ('r, 'w) ChannelManager \<Rightarrow> nat option \<times> ('r, 'w) ChannelManager" where
  "allocateSlot N m =
     (if slots m = [] then (None, m)
      else case ask (millis N) m of (now, m1) \<Rightarrow>
        (case findFreeChannel (slots m1) now FINALIZE_COOLDOWN_MS of Some i \<Rightarrow> (Some i, m1)
         | None \<Rightarrow>
             (case findStale (slots m1) now of None \<Rightarrow> (None, m1)
              | Some i \<Rightarrow> (None, beginClose N i ReasonTimeout m1))))"

text \<open>
  \<open>connectToLocalEndpoint\<close>: the socket, or a negative number.  \<open>n_connect\<close> answers the result and whether the
  error is \<open>EINPROGRESS\<close>, \<open>n_select\<close> its result and whether the socket is writable, \<open>n_sockerr\<close> the result of
  \<open>getsockopt\<close> and the error of the socket.
\<close>

definition refuse :: "('r, 'w) Net \<Rightarrow> int \<Rightarrow> ('r, 'w) ChannelManager \<Rightarrow> int \<times> ('r, 'w) ChannelManager" where
  "refuse N fd m = (- 1, act (n_close N fd) m)"

definition awaitConnect :: "('r, 'w) Net \<Rightarrow> int \<Rightarrow> ('r, 'w) ChannelManager \<Rightarrow> int \<times> ('r, 'w) ChannelManager" where
  "awaitConnect N fd m =
     (case ask (n_select N fd) m of ((sel, writable), m1) \<Rightarrow>
        if sel < 0 then refuse N fd m1
        else if sel = 0 \<or> \<not> writable then refuse N fd m1
        else case ask (n_sockerr N fd) m1 of ((rc, sockErr), m2) \<Rightarrow>
          if rc \<noteq> 0 then refuse N fd m2
          else if sockErr \<noteq> 0 then refuse N fd m2
          else (fd, m2))"

definition connectToLocalEndpoint :: "('r, 'w) Net \<Rightarrow> TunnelConfig \<Rightarrow> ('r, 'w) ChannelManager \<Rightarrow> int \<times> ('r, 'w) ChannelManager" where
  "connectToLocalEndpoint N mapping m =
     (case ask (n_socket N) m of (fd, m1) \<Rightarrow>
        if fd < 0 then (- 1, m1)
        else if \<not> n_inet_pton N (tc_localHost mapping) then refuse N fd m1
        else case ask (n_getfl N fd) m1 of (flags, m2) \<Rightarrow>
          if flags < 0 then refuse N fd m2
          else case ask (n_setfl N fd flags) m2 of (rc, m3) \<Rightarrow>
            if rc < 0 then refuse N fd m3
            else case ask (n_connect N fd (tc_localHost mapping) (tc_localPort mapping)) m3 of ((cr, inProgress), m4) \<Rightarrow>
              if cr < 0 \<and> \<not> inProgress then refuse N fd m4
              else case (if cr \<noteq> 0 then awaitConnect N fd m4 else (fd, m4)) of (r, m5) \<Rightarrow>
                if r < 0 then (r, m5) else (r, act (n_optimize N r) m5))"

text \<open>\<open>snapshotEndpoint\<close>: names are cut to 63 characters.\<close>

definition snapshotEndpoint :: "TunnelConfig \<Rightarrow> ChannelEndpointInfo" where
  "snapshotEndpoint mapping =
     \<lparr>remoteHost = take 63 (cstr (remoteBindHost mapping)), remotePort = remoteBindPort mapping,
      localHost = take 63 (cstr (tc_localHost mapping)), localPort = tc_localPort mapping\<rparr>"

text \<open>The memory check and the queues of \<open>bindChannel\<close>; a queue is refused only if its capacity is 0.\<close>

definition enoughMemory :: "('r, 'w) Net \<Rightarrow> ('r, 'w) ChannelManager \<Rightarrow> bool" where
  "enoughMemory N m =
     (let required = ringBufferSize m * 2 + 32768; freePsram = h_largest_psram N (net m) in
      if 0 < freePsram then required \<le> freePsram else required \<le> h_largest_heap N (net m))"

definition createRing :: "('r, 'w) Net \<Rightarrow> ('r, 'w) ChannelManager \<Rightarrow> 'r DataRingBuffer \<times> ('r, 'w) ChannelManager" where
  "createRing N m =
     (case ask (r_create N (ringBufferSize m)) m of ((ring, storage), m1) \<Rightarrow>
        (newDataRing (ringBufferSize m) ring storage, m1))"

definition bindChannel ::
  "('r, 'w) Net \<Rightarrow> nat \<Rightarrow> nat \<Rightarrow> TunnelConfig \<Rightarrow> ('r, 'w) ChannelManager \<Rightarrow> bool \<times> ('r, 'w) ChannelManager" where
  "bindChannel N i channel mapping m =
     (if maxSlots m \<le> i then (False, m)
      else if active (slots m ! i) then (False, m)
      else case connectToLocalEndpoint N mapping m of (fd, m1) \<Rightarrow>
        if fd < 0 then
          (case ask (millis N) m1 of (now, m2) \<Rightarrow>
             (False, m2\<lparr>breaker := snd (recordFailure (remoteBindPort mapping) now (breaker m2))\<rparr>))
        else
          let m2 = m1\<lparr>breaker := recordSuccess (remoteBindPort mapping) (breaker m1)\<rparr> in
          if \<not> enoughMemory N m2 then (False, act (n_close N fd) m2)
          else case createRing N m2 of (ql, m3) \<Rightarrow>
            (case createRing N m3 of (qr, m4) \<Rightarrow>
               if rb_capacity ql = 0 \<or> rb_capacity qr = 0 then (False, act (n_close N fd) m4)
               else case ask (millis N) m4 of (now, m5) \<Rightarrow>
                 let m6 = updSlot i (\<lambda>s. (resetSlot s)\<lparr>sshChannel := Some channel, localSocket := fd, active := True,
                            slotState := SlotOpen, toLocal := Some ql, toRemote := Some qr, lastActivity := now,
                            lastSuccessfulWrite := now, lastSuccessfulRead := now,
                            endpoint := snapshotEndpoint mapping\<rparr>) m5
                 in (True, (act (ch_set_nonblocking N channel) m6)\<lparr>activeCount := activeCount m6 + 1\<rparr>)))"

text \<open>
  \<open>finalizeClose\<close>.  The first stage closes and frees the channel of libssh2, which may answer \<open>EAGAIN\<close>; the
  second releases the slot.
\<close>

definition closeSshChannel :: "('r, 'w) Net \<Rightarrow> nat \<Rightarrow> nat \<Rightarrow> ('r, 'w) ChannelManager \<Rightarrow> bool \<times> ('r, 'w) ChannelManager" where
  "closeSshChannel N i channel m =
     (case (if closeComplete (sshCloseProgress (slots m ! i)) then (True, m)
            else case ask (ch_close N channel) m of (rc, m1) \<Rightarrow>
              (case recordCloseResult rc LIBSSH2_ERROR_EAGAIN (sshCloseProgress (slots m1 ! i)) of (ok, p) \<Rightarrow>
                 (ok, updSlot i (\<lambda>s. s\<lparr>sshCloseProgress := p\<rparr>) m1))) of
        (closed, m2) \<Rightarrow>
        if \<not> closed then (False, m2)
        else case (if readyForFree (sshCloseProgress (slots m2 ! i))
                   then (case ask (ch_free N channel) m2 of (rc, m3) \<Rightarrow>
                     (case recordFreeResult rc LIBSSH2_ERROR_EAGAIN (sshCloseProgress (slots m3 ! i)) of (ok, p) \<Rightarrow>
                        (ok, updSlot i (\<lambda>s. s\<lparr>sshCloseProgress := p\<rparr>) m3)))
                   else (True, m2)) of
          (freed, m4) \<Rightarrow>
          if \<not> freed then (False, m4)
          else if \<not> readyForFinalize (sshCloseProgress (slots m4 ! i)) then (False, m4)
          else (True, updSlot i (\<lambda>s. s\<lparr>sshChannel := None\<rparr>) m4))"

definition closeSocket :: "('r, 'w) Net \<Rightarrow> nat \<Rightarrow> ('r, 'w) ChannelManager \<Rightarrow> ('r, 'w) ChannelManager" where
  "closeSocket N i m =
     (let fd = localSocket (slots m ! i) in
      if 0 \<le> fd then updSlot i (\<lambda>s. s\<lparr>localSocket := - 1\<rparr>) (act (n_close N fd) m) else m)"

definition finalizeClose :: "('r, 'w) Net \<Rightarrow> nat \<Rightarrow> ('r, 'w) ChannelManager \<Rightarrow> bool \<times> ('r, 'w) ChannelManager" where
  "finalizeClose N i m =
     (if maxSlots m \<le> i then (True, m)
      else if \<not> active (slots m ! i) then (True, m)
      else case (case sshChannel (slots m ! i) of None \<Rightarrow> (True, m) | Some channel \<Rightarrow> closeSshChannel N i channel m) of
        (closed, m1) \<Rightarrow>
          if \<not> closed then (False, m1)
          else
            let m2 = closeSocket N i m1;
                m3 = updSlot i (\<lambda>s. s\<lparr>toLocal := None, toRemote := None, active := False, slotState := SlotClosed\<rparr>) m2
            in case ask (millis N) m3 of (now, m4) \<Rightarrow>
              (True, (updSlot i (\<lambda>s. s\<lparr>lastFinalizeMs := now\<rparr>) m4)\<lparr>activeCount := activeCount m4 - 1\<rparr>))"

definition abandonSlot :: "('r, 'w) Net \<Rightarrow> nat \<Rightarrow> ('r, 'w) ChannelManager \<Rightarrow> ('r, 'w) ChannelManager" where
  "abandonSlot N i m =
     (if maxSlots m \<le> i then m
      else if \<not> active (slots m ! i) then m
      else
        let m1 = closeSocket N i m;
            m2 = m1\<lparr>activeCount := if 0 < activeCount m1 then activeCount m1 - 1 else activeCount m1\<rparr>
        in updSlot i resetSlot m2)"

definition shouldAcceptNew :: "('r, 'w) ChannelManager \<Rightarrow> bool" where
  "shouldAcceptNew m =
     (if int (maxSlots m) \<le> activeCount m then False
      else if activeCount m \<le> int (maxSlots m) - 2 then True
      else \<not> list_ex (\<lambda>s. active s \<and> 5 < consecutiveErrors s) (slots m))"

definition getTotalBytesReceived :: "('r, 'w) ChannelManager \<Rightarrow> u32" where
  "getTotalBytesReceived m = fold (\<lambda>s total. total + totalBytesReceived s) (slots m) 0"

definition getTotalBytesSent :: "('r, 'w) ChannelManager \<Rightarrow> u32" where
  "getTotalBytesSent m = fold (\<lambda>s total. total + totalBytesSent s) (slots m) 0"

definition isMappingBackedOff :: "int \<Rightarrow> u32 \<Rightarrow> ('r, 'w) ChannelManager \<Rightarrow> bool" where
  "isMappingBackedOff port now m = isBackedOff port now (breaker m)"

end
