(* ===== verification/Tunnel_Pump.thy ===== *)
theory Tunnel_Pump
  imports Tunnel_Channels
begin

text \<open>
  The data pump of the SSH tunnel, \<open>ssh_transport.h\<close> and \<open>ssh_transport.cpp\<close> under
  \<open>src/experimental_libs/OrangeBoxSshTunnel/src\<close>: class \<open>TransportPump\<close>, which moves bytes between the channels of
  libssh2 and the local sockets through the queues of each slot, in four phases.  The session and the channel
  manager are attached and the working buffers are allocated; the optional instrumentation and diagnostics, which
  are compiled out, and log calls are left out.
\<close>

definition BACKPRESSURE_HIGH_PCT :: nat where "BACKPRESSURE_HIGH_PCT = 75"
definition BACKPRESSURE_LOW_PCT :: nat where "BACKPRESSURE_LOW_PCT = 25"
definition MAX_WRITE_PER_CHANNEL :: nat where "MAX_WRITE_PER_CHANNEL = 16384"
definition DRAIN_TIMEOUT_MS :: u32 where "DRAIN_TIMEOUT_MS = 15000"
definition HARD_ABANDON_TIMEOUT_MS :: u32 where "HARD_ABANDON_TIMEOUT_MS = 30000"
definition HALF_CLOSE_TIMEOUT_MS :: u32 where "HALF_CLOSE_TIMEOUT_MS = 5000"
definition EAGAIN_STALL_TIMEOUT_MS :: u32 where "EAGAIN_STALL_TIMEOUT_MS = 3000"
definition LOCAL_SEND_STALL_TIMEOUT_MS :: u32 where "LOCAL_SEND_STALL_TIMEOUT_MS = 8000"
definition EOF_GRACE_MS :: u32 where "EOF_GRACE_MS = 200"
definition MAX_CLOSE_EVENTS :: nat where "MAX_CLOSE_EVENTS = 32"

record ('r, 'w) TransportPump =
  channels :: "('r, 'w) ChannelManager"
  bufSize :: nat
  roundRobinOffset :: u32
  lastBytesMoved :: nat
  pendingCloseEvents :: "(nat \<times> ChannelCloseReason) list"
  sessionDegraded :: bool

text \<open>Access to a slot, and calls to the outside.\<close>

abbreviation slotOf :: "('r, 'w) TransportPump \<Rightarrow> nat \<Rightarrow> 'r ChannelSlot" where
  "slotOf p i \<equiv> slots (channels p) ! i"

definition onMgr :: "(('r, 'w) ChannelManager \<Rightarrow> ('r, 'w) ChannelManager) \<Rightarrow> ('r, 'w) TransportPump \<Rightarrow> ('r, 'w) TransportPump" where
  "onMgr f p = p\<lparr>channels := f (channels p)\<rparr>"

definition onSlot :: "nat \<Rightarrow> ('r ChannelSlot \<Rightarrow> 'r ChannelSlot) \<Rightarrow> ('r, 'w) TransportPump \<Rightarrow> ('r, 'w) TransportPump" where
  "onSlot i f p = onMgr (updSlot i f) p"

definition query :: "('w \<Rightarrow> 'a \<times> 'w) \<Rightarrow> ('r, 'w) TransportPump \<Rightarrow> 'a \<times> ('r, 'w) TransportPump" where
  "query f p = (case ask f (channels p) of (a, m) \<Rightarrow> (a, p\<lparr>channels := m\<rparr>))"

definition moved :: "nat \<Rightarrow> ('r, 'w) TransportPump \<Rightarrow> ('r, 'w) TransportPump" where
  "moved n p = p\<lparr>lastBytesMoved := lastBytesMoved p + n\<rparr>"

text \<open>The order in which a phase visits the slots: \<open>(n + roundRobinOffset_) % maxSlots\<close>, in unsigned arithmetic.\<close>

definition rotation :: "('r, 'w) TransportPump \<Rightarrow> nat list" where
  "rotation p =
     (let n = maxSlots (channels p)
      in map (\<lambda>k. unat ((of_nat k + roundRobinOffset p) mod of_nat n)) [0..<n])"

definition hasAnyBackpressure :: "('r, 'w) TransportPump \<Rightarrow> bool" where
  "hasAnyBackpressure p = list_ex (\<lambda>s. active s \<and> (localReadPaused s \<or> sshReadPaused s)) (slots (channels p))"

definition consumeCloseEvents ::
  "nat \<Rightarrow> ('r, 'w) TransportPump \<Rightarrow> (nat \<times> ChannelCloseReason) list \<times> ('r, 'w) TransportPump" where
  "consumeCloseEvents maxEvents p = (take maxEvents (pendingCloseEvents p), p\<lparr>pendingCloseEvents := []\<rparr>)"

text \<open>An error of libssh2 on a channel: after more than three in a row, the channel is closed.\<close>

definition channelError :: "('r, 'w) Net \<Rightarrow> nat \<Rightarrow> ('r, 'w) TransportPump \<Rightarrow> ('r, 'w) TransportPump" where
  "channelError N i p =
     (let p1 = onSlot i (\<lambda>s. s\<lparr>consecutiveErrors := consecutiveErrors s + 1\<rparr>) p in
      if 3 < consecutiveErrors (slotOf p1 i) \<and> slotState (slotOf p1 i) = SlotOpen
      then onMgr (beginClose N i ReasonError) p1 else p1)"

section \<open>Phase 1: from libssh2 into the queues\<close>

definition readChannel ::
  "('r, 'w) Net \<Rightarrow> nat \<Rightarrow> nat \<Rightarrow> ('r, 'w) TransportPump \<Rightarrow> (int \<times> bytes) \<times> ('r, 'w) TransportPump" where
  "readChannel N channel n p = query (ch_read N channel n) p"

text \<open>Bytes that were read are queued for the local side.\<close>

definition storeReceived ::
  "'r Ringbuf \<Rightarrow> ('r, 'w) Net \<Rightarrow> nat \<Rightarrow> bytes \<Rightarrow> ('r, 'w) TransportPump \<Rightarrow> ('r, 'w) TransportPump" where
  "storeReceived R N i data p =
     (case toLocal (slotOf p i) of None \<Rightarrow> p
      | Some q \<Rightarrow>
          (case ringWrite R data q of (written, q') \<Rightarrow>
             case query (millis N)
                    (moved written
                      (onSlot i (\<lambda>s. s\<lparr>toLocal := Some q', totalBytesReceived := totalBytesReceived s + of_nat written\<rparr>) p)) of
               (now, p1) \<Rightarrow>
                 onSlot i (\<lambda>s. s\<lparr>lastSuccessfulRead := now, lastActivity := now, eagainCount := 0, firstEagainMs := 0,
                                 consecutiveErrors := 0\<rparr>) p1))"

text \<open>The small read of a channel whose local queue is nearly full; the flag tells whether a read was done.\<close>

definition pumpPaused ::
  "'r Ringbuf \<Rightarrow> ('r, 'w) Net \<Rightarrow> nat \<Rightarrow> nat \<Rightarrow> ('r, 'w) TransportPump \<Rightarrow> bool \<times> ('r, 'w) TransportPump" where
  "pumpPaused R N i channel p =
     (case toLocal (slotOf p i) of None \<Rightarrow> (False, p)
      | Some q \<Rightarrow>
          if ringAvailable R q = 0 then (False, p)
          else
            let pumpSize = (if ringAvailable R q < 64 then ringAvailable R q else 64) in
            case readChannel N channel pumpSize p of ((rc, data), p1) \<Rightarrow>
              (True,
               if 0 < rc then storeReceived R N i (take (nat rc) data) p1
               else if rc = 0 then onSlot i (\<lambda>s. s\<lparr>remoteEof := True\<rparr>) p1
               else if rc \<noteq> LIBSSH2_ERROR_EAGAIN then channelError N i p1
               else p1))"

text \<open>The loop of at most four reads.\<close>

fun pumpChunks ::
  "'r Ringbuf \<Rightarrow> ('r, 'w) Net \<Rightarrow> nat \<Rightarrow> nat \<Rightarrow> nat \<Rightarrow> bool \<Rightarrow> ('r, 'w) TransportPump \<Rightarrow> bool \<times> ('r, 'w) TransportPump" where
  "pumpChunks R N i channel 0 read p = (read, p)"
| "pumpChunks R N i channel (Suc attempts) read p =
     (case toLocal (slotOf p i) of None \<Rightarrow> (read, p)
      | Some q \<Rightarrow>
          let freeSpace = ringAvailable R q in
          if freeSpace = 0 then (read, onSlot i (\<lambda>s. s\<lparr>sshReadPaused := True\<rparr>) p)
          else
            let readSize = (if freeSpace < bufSize p then freeSpace else bufSize p) in
            case readChannel N channel readSize p of ((rc, data), p1) \<Rightarrow>
              if 0 < rc then
                let p2 = storeReceived R N i (take (nat rc) data) p1;
                    q2 = the (toLocal (slotOf p2 i))
                in if rb_capacity q2 * BACKPRESSURE_HIGH_PCT div 100 < ringSize R q2
                   then (True, onSlot i (\<lambda>s. s\<lparr>sshReadPaused := True\<rparr>) p2)
                   else pumpChunks R N i channel attempts True p2
              else if rc = LIBSSH2_ERROR_EAGAIN then (True, p1)
              else if rc = 0 then (True, onSlot i (\<lambda>s. s\<lparr>remoteEof := True\<rparr>) p1)
              else (True, channelError N i p1))"

definition checkEofFlag :: "('r, 'w) Net \<Rightarrow> nat \<Rightarrow> nat \<Rightarrow> ('r, 'w) TransportPump \<Rightarrow> ('r, 'w) TransportPump" where
  "checkEofFlag N i channel p =
     (if remoteEof (slotOf p i) \<or> sshChannel (slotOf p i) = None then p
      else case query (ch_eof N channel) p of (eof, p1) \<Rightarrow>
        if eof then onSlot i (\<lambda>s. s\<lparr>remoteEof := True\<rparr>) p1 else p1)"

definition pumpChannel ::
  "'r Ringbuf \<Rightarrow> ('r, 'w) Net \<Rightarrow> nat \<Rightarrow> bool \<times> ('r, 'w) TransportPump \<Rightarrow> bool \<times> ('r, 'w) TransportPump" where
  "pumpChannel R N i st =
     (case st of (anyRead, p) \<Rightarrow>
      case (active (slotOf p i), sshChannel (slotOf p i)) of
        (True, Some channel) \<Rightarrow>
          if remoteEof (slotOf p i) then (True, snd (readChannel N channel 64 p))
          else
            let resume = (case toLocal (slotOf p i) of None \<Rightarrow> False
                          | Some q \<Rightarrow> ringSize R q < rb_capacity q * BACKPRESSURE_LOW_PCT div 100) in
            if sshReadPaused (slotOf p i) \<and> \<not> resume then
              (case pumpPaused R N i channel p of (r, p1) \<Rightarrow> (anyRead \<or> r, p1))
            else
              let p1 = (if sshReadPaused (slotOf p i) then onSlot i (\<lambda>s. s\<lparr>sshReadPaused := False\<rparr>) p else p) in
              if toLocal (slotOf p1 i) = None then (anyRead, p1)
              else case pumpChunks R N i channel 4 anyRead p1 of (r, p2) \<Rightarrow> (r, checkEofFlag N i channel p2)
      | _ \<Rightarrow> (anyRead, p))"

text \<open>
  The read of one byte when no channel was read, to let libssh2 work; the byte is not kept.
\<close>

definition fallbackRead :: "('r, 'w) Net \<Rightarrow> ('r, 'w) TransportPump \<Rightarrow> ('r, 'w) TransportPump" where
  "fallbackRead N p =
     (let live = (\<lambda>s. active s \<and> sshChannel s \<noteq> None) in
      case find (\<lambda>s. live s \<and> remoteEof s) (slots (channels p)) of
        Some s \<Rightarrow> snd (readChannel N (the (sshChannel s)) 1 p)
      | None \<Rightarrow>
          (case find (\<lambda>s. live s \<and> \<not> remoteEof s) (slots (channels p)) of
             Some s \<Rightarrow> snd (readChannel N (the (sshChannel s)) 1 p)
           | None \<Rightarrow> p))"

definition pumpSshTransport :: "'r Ringbuf \<Rightarrow> ('r, 'w) Net \<Rightarrow> ('r, 'w) TransportPump \<Rightarrow> ('r, 'w) TransportPump" where
  "pumpSshTransport R N p =
     (case query (s_lock N 50) p of (locked, p1) \<Rightarrow>
        if \<not> locked then p1
        else
          (case fold (pumpChannel R N) (rotation p1) (False, p1) of (anyRead, p2) \<Rightarrow>
             onMgr (act (s_unlock N)) (if anyRead then p2 else fallbackRead N p2)))"

section \<open>Phase 2: from the queues to the local sockets\<close>

text \<open>What a socket or libssh2 did not take goes back to the front of the queue, or to its end if there is no room.\<close>

definition putBack :: "'r Ringbuf \<Rightarrow> bytes \<Rightarrow> 'r DataRingBuffer \<Rightarrow> 'r DataRingBuffer" where
  "putBack R data q =
     (case ringWriteToFront data q of (n, q') \<Rightarrow> if n = 0 then snd (ringWrite R data q') else q')"

text \<open>The loop of at most four chunks to the local socket.\<close>

fun drainChunks ::
  "'r Ringbuf \<Rightarrow> ('r, 'w) Net \<Rightarrow> nat \<Rightarrow> nat \<Rightarrow> ('r, 'w) TransportPump \<Rightarrow> ('r, 'w) TransportPump" where
  "drainChunks R N i 0 p = p"
| "drainChunks R N i (Suc attempts) p =
     (case toLocal (slotOf p i) of None \<Rightarrow> p
      | Some q \<Rightarrow>
          if ringEmpty R q then p
          else
            let available = ringSize R q;
                toDrain = (if available < bufSize p then available else bufSize p) in
            case ringRead R toDrain q of (data, q1) \<Rightarrow>
              let p1 = onSlot i (\<lambda>s. s\<lparr>toLocal := Some q1\<rparr>) p in
              if data = [] then p1
              else case query (n_send N (localSocket (slotOf p1 i)) data) p1 of ((sent, again), p2) \<Rightarrow>
                if 0 < sent then
                  (case query (millis N) (moved (nat sent) p2) of (now, p3) \<Rightarrow>
                     let p4 = onSlot i (\<lambda>s. s\<lparr>lastActivity := now, firstLocalSendEagainMs := 0\<rparr>) p3 in
                     if nat sent < length data
                     then onSlot i (\<lambda>s. s\<lparr>toLocal := Some (putBack R (drop (nat sent) data) q1)\<rparr>) p4
                     else drainChunks R N i attempts p4)
                else if sent < 0 \<and> \<not> again then onSlot i (\<lambda>s. s\<lparr>localEof := True\<rparr>) p2
                else
                  let p3 = onSlot i (\<lambda>s. s\<lparr>toLocal := Some (putBack R data q1)\<rparr>) p2 in
                  if firstLocalSendEagainMs (slotOf p3 i) = 0
                  then (case query (millis N) p3 of (now, p4) \<Rightarrow> onSlot i (\<lambda>s. s\<lparr>firstLocalSendEagainMs := now\<rparr>) p4)
                  else p3)"

definition checkLocalStall :: "'r Ringbuf \<Rightarrow> ('r, 'w) Net \<Rightarrow> nat \<Rightarrow> ('r, 'w) TransportPump \<Rightarrow> ('r, 'w) TransportPump" where
  "checkLocalStall R N i p =
     (let s = slotOf p i in
      if firstLocalSendEagainMs s = 0 \<or> (case toLocal s of None \<Rightarrow> True | Some q \<Rightarrow> ringEmpty R q) then p
      else case query (millis N) p of (now, p1) \<Rightarrow>
        if now - firstLocalSendEagainMs s \<le> LOCAL_SEND_STALL_TIMEOUT_MS then p1
        else
          let p2 = (if slotState s = SlotOpen then onMgr (beginClose N i ReasonError) p1 else p1) in
          case query (millis N) p2 of (again, p3) \<Rightarrow> onSlot i (\<lambda>s. s\<lparr>firstLocalSendEagainMs := again\<rparr>) p3)"

definition drainSlot :: "'r Ringbuf \<Rightarrow> ('r, 'w) Net \<Rightarrow> nat \<Rightarrow> ('r, 'w) TransportPump \<Rightarrow> ('r, 'w) TransportPump" where
  "drainSlot R N i p =
     (let s = slotOf p i in
      if \<not> active s \<or> localSocket s < 0 \<or> toLocal s = None then p
      else checkLocalStall R N i (drainChunks R N i 4 p))"

definition drainSshToLocal :: "'r Ringbuf \<Rightarrow> ('r, 'w) Net \<Rightarrow> ('r, 'w) TransportPump \<Rightarrow> ('r, 'w) TransportPump" where
  "drainSshToLocal R N p = (if maxSlots (channels p) = 0 then p else fold (drainSlot R N) (rotation p) p)"

section \<open>Phase 3: from the local sockets through the queues to libssh2\<close>

text \<open>
  The loop that writes a queue to libssh2, at most \<open>budget\<close> bytes.  Every further pass has written a byte, so
  the budget bounds it.
\<close>

function writeChunks ::
  "'r Ringbuf \<Rightarrow> ('r, 'w) Net \<Rightarrow> nat \<Rightarrow> nat \<Rightarrow> nat \<Rightarrow> ('r, 'w) TransportPump \<Rightarrow> ('r, 'w) TransportPump" where
  "writeChunks R N i channel budget p =
     (case toRemote (slotOf p i) of None \<Rightarrow> p
      | Some q \<Rightarrow>
          if budget = 0 \<or> ringEmpty R q then p
          else
            let chunkSize = (if budget < bufSize p then budget else bufSize p) in
            case ringRead R chunkSize q of (data, q1) \<Rightarrow>
              let p1 = onSlot i (\<lambda>s. s\<lparr>toRemote := Some q1\<rparr>) p in
              if data = [] then p1
              else case query (ch_write N channel data) p1 of (written, p2) \<Rightarrow>
                if 0 < written then
                  (case query (millis N)
                          (moved (nat written) (onSlot i (\<lambda>s. s\<lparr>totalBytesSent := totalBytesSent s + word_of_int written\<rparr>) p2)) of
                     (now, p3) \<Rightarrow>
                     let p4 = onSlot i (\<lambda>s. s\<lparr>lastSuccessfulWrite := now, lastActivity := now, eagainCount := 0,
                                firstEagainMs := 0, consecutiveErrors := 0\<rparr>) p3 in
                     if nat written < length data
                     then onSlot i (\<lambda>s. s\<lparr>toRemote := Some (putBack R (drop (nat written) data) q1)\<rparr>) p4
                     else writeChunks R N i channel (budget - nat written) p4)
                else
                  let p3 = onSlot i (\<lambda>s. s\<lparr>toRemote := Some (putBack R data q1)\<rparr>) p2 in
                  if written = LIBSSH2_ERROR_EAGAIN then
                    let p4 = onSlot i (\<lambda>s. s\<lparr>eagainCount := eagainCount s + 1\<rparr>) p3 in
                    if firstEagainMs (slotOf p4 i) = 0
                    then (case query (millis N) p4 of (now, p5) \<Rightarrow> onSlot i (\<lambda>s. s\<lparr>firstEagainMs := now\<rparr>) p5)
                    else p4
                  else channelError N i p3)"
  by auto
termination by (relation "measure (\<lambda>(R, N, i, channel, budget, p). budget)") auto

declare writeChunks.simps [simp del]

definition checkWriteStall :: "('r, 'w) Net \<Rightarrow> nat \<Rightarrow> ('r, 'w) TransportPump \<Rightarrow> ('r, 'w) TransportPump" where
  "checkWriteStall N i p =
     (let s = slotOf p i in
      if firstEagainMs s = 0 then p
      else case query (millis N) p of (now, p1) \<Rightarrow>
        if now - firstEagainMs s \<le> EAGAIN_STALL_TIMEOUT_MS then p1
        else
          let p2 = (if slotState s = SlotOpen then onMgr (beginClose N i ReasonError) p1 else p1) in
          case query (millis N) p2 of (again, p3) \<Rightarrow> onSlot i (\<lambda>s. s\<lparr>firstEagainMs := again\<rparr>) p3)"

definition writeQueue ::
  "'r Ringbuf \<Rightarrow> ('r, 'w) Net \<Rightarrow> nat \<Rightarrow> nat \<Rightarrow> ('r, 'w) TransportPump \<Rightarrow> ('r, 'w) TransportPump" where
  "writeQueue R N i channel p =
     (case toRemote (slotOf p i) of None \<Rightarrow> p
      | Some q \<Rightarrow>
          if ringEmpty R q then p
          else case query (s_lock N 20) p of (locked, p1) \<Rightarrow>
            if \<not> locked then p1
            else checkWriteStall N i
                   (onMgr (act (s_unlock N)) (writeChunks R N i channel MAX_WRITE_PER_CHANNEL p1)))"

definition remoteBackpressure :: "'r Ringbuf \<Rightarrow> nat \<Rightarrow> ('r, 'w) TransportPump \<Rightarrow> ('r, 'w) TransportPump" where
  "remoteBackpressure R i p =
     (case toRemote (slotOf p i) of None \<Rightarrow> p
      | Some q \<Rightarrow>
          let used = ringSize R q; cap = rb_capacity q in
          if localReadPaused (slotOf p i) then
            (if used < cap * BACKPRESSURE_LOW_PCT div 100 then onSlot i (\<lambda>s. s\<lparr>localReadPaused := False\<rparr>) p else p)
          else if cap * BACKPRESSURE_HIGH_PCT div 100 < used
          then onSlot i (\<lambda>s. s\<lparr>localReadPaused := True\<rparr>) p else p)"

text \<open>The loop of at most three reads from the local socket.\<close>

fun recvChunks ::
  "'r Ringbuf \<Rightarrow> ('r, 'w) Net \<Rightarrow> nat \<Rightarrow> nat \<Rightarrow> ('r, 'w) TransportPump \<Rightarrow> ('r, 'w) TransportPump" where
  "recvChunks R N i 0 p = p"
| "recvChunks R N i (Suc attempts) p =
     (case toRemote (slotOf p i) of None \<Rightarrow> p
      | Some q \<Rightarrow>
          if localEof (slotOf p i) \<or> localReadPaused (slotOf p i) then p
          else
            let freeSpace = ringAvailable R q in
            if freeSpace = 0 then onSlot i (\<lambda>s. s\<lparr>localReadPaused := True\<rparr>) p
            else
              let readSize = (if freeSpace < bufSize p then freeSpace else bufSize p) in
              case query (n_recv N (localSocket (slotOf p i)) readSize) p of ((recvd, data, again), p1) \<Rightarrow>
                if 0 < recvd then
                  let p2 = onSlot i (\<lambda>s. s\<lparr>toRemote := Some (snd (ringWrite R (take (nat recvd) data) q))\<rparr>) p1 in
                  (case query (millis N) p2 of (now, p3) \<Rightarrow>
                     recvChunks R N i attempts (moved (nat recvd) (onSlot i (\<lambda>s. s\<lparr>lastActivity := now\<rparr>) p3)))
                else if recvd = 0 then onSlot i (\<lambda>s. s\<lparr>localEof := True\<rparr>) p1
                else if \<not> again then onSlot i (\<lambda>s. s\<lparr>localEof := True\<rparr>) p1
                else p1)"

definition serveLocal :: "'r Ringbuf \<Rightarrow> ('r, 'w) Net \<Rightarrow> nat \<Rightarrow> ('r, 'w) TransportPump \<Rightarrow> ('r, 'w) TransportPump" where
  "serveLocal R N i p =
     (case (active (slotOf p i), sshChannel (slotOf p i)) of
        (True, Some channel) \<Rightarrow>
          if 0 < eofSentMs (slotOf p i) then p
          else
            let p1 = remoteBackpressure R i (writeQueue R N i channel p); s = slotOf p1 i in
            if \<not> localEof s \<and> \<not> localReadPaused s \<and> 0 \<le> localSocket s \<and> toRemote s \<noteq> None \<and> eofSentMs s = 0
            then recvChunks R N i 3 p1 else p1
      | _ \<Rightarrow> p)"

definition drainLocalToSsh :: "'r Ringbuf \<Rightarrow> ('r, 'w) Net \<Rightarrow> ('r, 'w) TransportPump \<Rightarrow> ('r, 'w) TransportPump" where
  "drainLocalToSsh R N p =
     (if maxSlots (channels p) = 0 then p
      else
        let p1 = fold (serveLocal R N) (rotation p) p
        in p1\<lparr>roundRobinOffset := roundRobinOffset p1 + 1\<rparr>)"

section \<open>Phase 4: closing\<close>

abbreviation queueEmpty :: "'r Ringbuf \<Rightarrow> 'r DataRingBuffer option \<Rightarrow> bool" where
  "queueEmpty R qo \<equiv> (case qo of None \<Rightarrow> True | Some q \<Rightarrow> ringEmpty R q)"

text \<open>Step 1: an open channel starts draining.  The second stage is what follows the early exits.\<close>

definition idleClose :: "'r Ringbuf \<Rightarrow> ('r, 'w) Net \<Rightarrow> u32 \<Rightarrow> nat \<Rightarrow> ('r, 'w) TransportPump \<Rightarrow> ('r, 'w) TransportPump" where
  "idleClose R N now i p =
     (let s = slotOf p i in
      if remoteEof s \<and> \<not> localEof s \<and> 0 < lastActivity s \<and> HALF_CLOSE_TIMEOUT_MS < now - lastActivity s
         \<and> queueEmpty R (toRemote s)
      then onMgr (beginClose N i RemoteClosed) p
      else if 0 < lastActivity s \<and> 30000 < now - lastActivity s then onMgr (beginClose N i ReasonTimeout) p
      else p)"

definition considerClose :: "'r Ringbuf \<Rightarrow> ('r, 'w) Net \<Rightarrow> u32 \<Rightarrow> nat \<Rightarrow> ('r, 'w) TransportPump \<Rightarrow> ('r, 'w) TransportPump" where
  "considerClose R N now i p =
     (let s = slotOf p i in
      if \<not> active s \<or> slotState s \<noteq> SlotOpen then p
      else if remoteEof s \<and> localEof s then onMgr (beginClose N i RemoteClosed) p
      else if localEof s \<and> \<not> remoteEof s \<and> queueEmpty R (toRemote s) then onMgr (beginClose N i LocalClosed) p
      else if 5 < consecutiveErrors s then onMgr (beginClose N i ReasonError) p
      else
        idleClose R N now i
          (if remoteEof s \<and> \<not> localShutdownSent s \<and> 0 \<le> localSocket s \<and> queueEmpty R (toRemote s)
           then onSlot i (\<lambda>s. s\<lparr>localShutdownSent := True\<rparr>) (onMgr (act (n_shutdown N (localSocket s))) p)
           else p))"

text \<open>Step 2: which draining channels get an end of file, which are closed; a stuck one is abandoned at once.\<close>

definition pushEvent :: "nat \<Rightarrow> ChannelCloseReason \<Rightarrow> ('r, 'w) TransportPump \<Rightarrow> ('r, 'w) TransportPump" where
  "pushEvent i reason p =
     (if length (pendingCloseEvents p) < MAX_CLOSE_EVENTS
      then p\<lparr>pendingCloseEvents := pendingCloseEvents p @ [(i, reason)]\<rparr> else p)"

definition hardAbandon :: "('r, 'w) Net \<Rightarrow> nat \<Rightarrow> ('r, 'w) TransportPump \<Rightarrow> ('r, 'w) TransportPump" where
  "hardAbandon N i p =
     pushEvent i (closeReason (slotOf p i)) ((onMgr (abandonSlot N i) p)\<lparr>sessionDegraded := True\<rparr>)"

definition checkDraining ::
  "'r Ringbuf \<Rightarrow> ('r, 'w) Net \<Rightarrow> u32 \<Rightarrow> nat \<Rightarrow> nat \<Rightarrow> nat list \<times> nat list \<times> ('r, 'w) TransportPump \<Rightarrow>
     nat list \<times> nat list \<times> ('r, 'w) TransportPump" where
  "checkDraining R N now arrSize i st =
     (case st of (toSendEof, toClose, p) \<Rightarrow>
      let s = slotOf p i;
          push = (\<lambda>xs. if length xs < arrSize then xs @ [i] else xs) in
      if \<not> active s \<or> slotState s \<noteq> Draining then st
      else if HARD_ABANDON_TIMEOUT_MS < now - closeStartMs s then (toSendEof, toClose, hardAbandon N i p)
      else if DRAIN_TIMEOUT_MS < now - closeStartMs s then (toSendEof, push toClose, p)
      else if 3 < consecutiveErrors s then (toSendEof, push toClose, p)
      else if queueEmpty R (toLocal s) \<and> queueEmpty R (toRemote s) then
        (if eofSentMs s = 0 then (push toSendEof, toClose, p)
         else if EOF_GRACE_MS \<le> now - eofSentMs s then (toSendEof, push toClose, p)
         else st)
      else st)"

text \<open>Step 2a: the loop of at most four reads that lets libssh2 send, and the end of file.\<close>

fun flushReads :: "'r Ringbuf \<Rightarrow> ('r, 'w) Net \<Rightarrow> nat \<Rightarrow> nat \<Rightarrow> nat \<Rightarrow> ('r, 'w) TransportPump \<Rightarrow> ('r, 'w) TransportPump" where
  "flushReads R N i channel 0 p = p"
| "flushReads R N i channel (Suc n) p =
     (case readChannel N channel 512 p of ((pr, data), p1) \<Rightarrow>
        let p2 = (case toLocal (slotOf p1 i) of None \<Rightarrow> p1
                  | Some q \<Rightarrow>
                      if 0 < pr then onSlot i (\<lambda>s. s\<lparr>toLocal := Some (snd (ringWrite R (take (nat pr) data) q))\<rparr>) p1 else p1)
        in if pr \<le> 0 then p2 else flushReads R N i channel n p2)"

definition sendEof :: "'r Ringbuf \<Rightarrow> ('r, 'w) Net \<Rightarrow> nat \<Rightarrow> ('r, 'w) TransportPump \<Rightarrow> ('r, 'w) TransportPump" where
  "sendEof R N i p =
     (case sshChannel (slotOf p i) of None \<Rightarrow> p
      | Some channel \<Rightarrow>
          (case query (ch_send_eof N channel) p of (rc, p1) \<Rightarrow>
             if rc = LIBSSH2_ERROR_EAGAIN then p1
             else case query (millis N) (flushReads R N i channel 4 p1) of (now, p2) \<Rightarrow>
               onSlot i (\<lambda>s. s\<lparr>eofSentMs := now\<rparr>) p2))"

definition closeSlot :: "('r, 'w) Net \<Rightarrow> nat \<Rightarrow> ('r, 'w) TransportPump \<Rightarrow> ('r, 'w) TransportPump" where
  "closeSlot N i p =
     (let reason = closeReason (slotOf p i) in
      case finalizeClose N i (channels p) of (ok, m) \<Rightarrow>
        if ok then pushEvent i reason (p\<lparr>channels := m\<rparr>) else p\<lparr>channels := m\<rparr>)"

text \<open>A stage of work under the session lock, if there is work.\<close>

definition lockedStage ::
  "('r, 'w) Net \<Rightarrow> nat \<Rightarrow> (nat \<Rightarrow> ('r, 'w) TransportPump \<Rightarrow> ('r, 'w) TransportPump) \<Rightarrow> nat list \<Rightarrow>
     ('r, 'w) TransportPump \<Rightarrow> ('r, 'w) TransportPump" where
  "lockedStage N wait f xs p =
     (if xs = [] then p
      else case query (s_lock N wait) p of (locked, p1) \<Rightarrow>
        if locked then onMgr (act (s_unlock N)) (fold f xs p1) else p1)"

definition checkCloses :: "'r Ringbuf \<Rightarrow> ('r, 'w) Net \<Rightarrow> ('r, 'w) TransportPump \<Rightarrow> ('r, 'w) TransportPump" where
  "checkCloses R N p =
     (let n = maxSlots (channels p) in
      case query (millis N) p of (now, p1) \<Rightarrow>
        let p2 = fold (considerClose R N now) [0..<n] p1 in
        case query (millis N) p2 of (now2, p3) \<Rightarrow>
          (case fold (checkDraining R N now2 (if n < 32 then n else 32)) [0..<n] ([], [], p3) of (toSendEof, toClose, p4) \<Rightarrow>
             lockedStage N 200 (closeSlot N) toClose (lockedStage N 100 (sendEof R N) toSendEof p4)))"

definition pumpAll :: "'r Ringbuf \<Rightarrow> ('r, 'w) Net \<Rightarrow> ('r, 'w) TransportPump \<Rightarrow> bool \<times> ('r, 'w) TransportPump" where
  "pumpAll R N p =
     (let p1 = checkCloses R N (drainLocalToSsh R N (drainSshToLocal R N (pumpSshTransport R N (p\<lparr>lastBytesMoved := 0\<rparr>))))
      in (0 < lastBytesMoved p1, p1))"

end
