(* ===== verification/Tunnel_Inv.thy ===== *)
theory Tunnel_Inv
  imports Tunnel_Pump
begin

text \<open>
  The invariant of the channel table: the count of active channels is right, an active slot has its two queues
  and is open or draining, and an inactive one holds no channel, socket or queue.  Every operation of the
  manager and every phase of the pump keeps it, whatever the outside answers.
\<close>

definition slot_ok :: "'r ChannelSlot \<Rightarrow> bool" where
  "slot_ok s \<longleftrightarrow>
     (if active s then slotState s \<noteq> SlotClosed \<and> toLocal s \<noteq> None \<and> toRemote s \<noteq> None
      else slotState s = SlotClosed \<and> toLocal s = None \<and> toRemote s = None \<and> sshChannel s = None \<and> localSocket s < 0)"

definition channels_ok :: "('r, 'w) ChannelManager \<Rightarrow> bool" where
  "channels_ok m \<longleftrightarrow>
     list_all slot_ok (slots m) \<and> activeCount m = int (length (filter active (slots m)))"

text \<open>What of a slot the invariant sees.\<close>

definition shape :: "'r ChannelSlot \<Rightarrow> bool \<times> SlotState \<times> bool \<times> bool \<times> bool \<times> bool" where
  "shape s = (active s, slotState s, toLocal s = None, toRemote s = None, sshChannel s = None, localSocket s < 0)"

lemma slot_ok_shape: "shape s = shape t \<Longrightarrow> slot_ok s = slot_ok t"
  by (auto simp: shape_def slot_ok_def)

section \<open>Counting\<close>

lemma count_update:
  assumes "i < length ss"
  shows "int (length (filter active (ss[i := s]))) =
     int (length (filter active ss)) - (if active (ss ! i) then 1 else 0) + (if active s then 1 else 0)"
  using assms
proof (induction ss arbitrary: i)
  case (Cons a ss)
  show ?case
  proof (cases i)
    case (Suc k)
    then show ?thesis using Cons.IH [of k] Cons.prems by (auto split: if_splits)
  qed simp
qed simp

lemma channels_ok_update:
  assumes "channels_ok m" and "i < length (slots m)" and "slot_ok (f (slots m ! i))"
    and "c = activeCount m - (if active (slots m ! i) then 1 else 0) + (if active (f (slots m ! i)) then 1 else 0)"
  shows "channels_ok ((updSlot i f m)\<lparr>activeCount := c\<rparr>)"
  using assms count_update [OF assms(2), of "f (slots m ! i)"]
  by (auto simp: channels_ok_def updSlot_def list_all_length nth_list_update)

lemma channels_ok_release:
  assumes "channels_ok m" and "i < length (slots m)" and "active (slots m ! i)"
    and "slots m' = (slots m)[i := s]" and "slot_ok s" and "\<not> active s" and "activeCount m' = activeCount m - 1"
  shows "channels_ok m'"
  using assms count_update [OF assms(2), of s] by (auto simp: channels_ok_def list_all_length nth_list_update)

lemma channels_ok_count: "channels_ok (m\<lparr>activeCount := activeCount m\<rparr>) = channels_ok m"
  by (simp add: channels_ok_def)

lemma channels_ok_shape:
  assumes "i < length (slots m) \<Longrightarrow> shape (f (slots m ! i)) = shape (slots m ! i)"
  shows "channels_ok (updSlot i f m) = channels_ok m"
proof (cases "i < length (slots m)")
  case True
  have a: "active (f (slots m ! i)) = active (slots m ! i)" using assms [OF True] by (simp add: shape_def)
  have s: "slot_ok (f (slots m ! i)) = slot_ok (slots m ! i)" by (rule slot_ok_shape [OF assms [OF True]])
  have "list_all slot_ok ((slots m)[i := f (slots m ! i)]) = list_all slot_ok (slots m)"
    using True s by (auto simp: list_all_length nth_list_update)
  then show ?thesis using count_update [OF True, of "f (slots m ! i)"] a by (simp add: channels_ok_def updSlot_def)
qed (simp add: updSlot_def channels_ok_def list_update_beyond)

lemma channels_ok_simps [simp]:
  "channels_ok (m\<lparr>net := w\<rparr>) = channels_ok m" "channels_ok (m\<lparr>breaker := b\<rparr>) = channels_ok m"
  "channels_ok (act g m) = channels_ok m" "channels_ok (snd (ask h m)) = channels_ok m"
  by (simp_all add: channels_ok_def act_def ask_def case_prod_beta)

lemma slots_simps [simp]:
  "slots (act g m) = slots m" "slots (snd (ask h m)) = slots m" "activeCount (act g m) = activeCount m"
  "activeCount (snd (ask h m)) = activeCount m" "slots (updSlot i f m) = (slots m)[i := f (slots m ! i)]"
  "activeCount (updSlot i f m) = activeCount m" "maxSlots (act g m) = maxSlots m" "maxSlots (snd (ask h m)) = maxSlots m"
  "maxSlots (updSlot i f m) = maxSlots m"
  by (simp_all add: act_def ask_def case_prod_beta updSlot_def maxSlots_def)

section \<open>The manager\<close>

lemma beginClose_ok: "channels_ok m \<Longrightarrow> channels_ok (beginClose N i reason m)"
  and beginClose_length [simp]: "length (slots (beginClose N i reason m)) = length (slots m)"
proof -
  assume ok: "channels_ok m"
  show "channels_ok (beginClose N i reason m)"
  proof (cases "maxSlots m \<le> i \<or> \<not> active (slots m ! i) \<or> slotState (slots m ! i) \<noteq> SlotOpen")
    case True
    then show ?thesis using ok by (cases "slotState (slots m ! i)") (auto simp: beginClose_def)
  next
    case False
    let ?f = "\<lambda>s. s\<lparr>slotState := Draining, closeStartMs := fst (ask (millis N) m), closeReason := reason\<rparr>"
    have eq: "beginClose N i reason m = updSlot i ?f (snd (ask (millis N) m))"
      using False by (auto simp: beginClose_def case_prod_beta)
    have "slot_ok (slots m ! i)" using ok False by (auto simp: channels_ok_def list_all_length maxSlots_def not_le)
    then have "slot_ok (?f (slots m ! i))" using False by (simp add: slot_ok_def)
    then have "channels_ok ((updSlot i ?f (snd (ask (millis N) m)))\<lparr>activeCount := activeCount m\<rparr>)"
      using ok False by (intro channels_ok_update) (auto simp: maxSlots_def)
    then show ?thesis unfolding eq by (simp add: channels_ok_def)
  qed
qed (simp add: beginClose_def Let_def case_prod_beta)

lemma allocateSlot_ok: "channels_ok m \<Longrightarrow> channels_ok (snd (allocateSlot N m))"
  by (auto simp: allocateSlot_def case_prod_beta beginClose_ok split: option.split)

lemma connect_ok [simp]:
  "channels_ok (snd (connectToLocalEndpoint N mapping m)) = channels_ok m"
  "slots (snd (connectToLocalEndpoint N mapping m)) = slots m"
  "activeCount (snd (connectToLocalEndpoint N mapping m)) = activeCount m"
  by (simp_all add: connectToLocalEndpoint_def awaitConnect_def refuse_def case_prod_beta)

lemma createRing_ok [simp]:
  "channels_ok (snd (createRing N m)) = channels_ok m" "slots (snd (createRing N m)) = slots m"
  "activeCount (snd (createRing N m)) = activeCount m"
  by (simp_all add: createRing_def case_prod_beta)

lemma bindChannel_ok:
  assumes "channels_ok m"
  shows "channels_ok (snd (bindChannel N i channel mapping m))"
proof -
  have bound: "channels_ok ((act g (updSlot i f m'))\<lparr>activeCount := c\<rparr>)"
    if "c = activeCount m' + 1" "channels_ok m'" "i < length (slots m')" "\<not> active (slots m' ! i)" "slot_ok (f (slots m' ! i))" "active (f (slots m' ! i))"
    for g f c and m' :: "('a, 'b) ChannelManager"
    using channels_ok_update [of m' i f "activeCount m' + 1"] that by (simp add: channels_ok_def)
  show ?thesis
    using assms unfolding bindChannel_def Let_def case_prod_beta
    by (auto simp: maxSlots_def intro!: bound) (simp_all add: slot_ok_def)
qed

lemma shape_progress [simp]: "shape (s\<lparr>sshCloseProgress := p\<rparr>) = shape s"
  by (simp add: shape_def)

lemma closeSshChannel_keeps:
  assumes "closeSshChannel N i channel m = (ok, m')" and "channels_ok m" and "i < length (slots m)" and "active (slots m ! i)"
  shows "channels_ok m' \<and> length (slots m') = length (slots m) \<and> active (slots m' ! i) \<and> activeCount m' = activeCount m \<and>
     (ok \<longrightarrow> sshChannel (slots m' ! i) = None)"
proof -
  have drop_channel: "channels_ok (updSlot i (\<lambda>s. s\<lparr>sshChannel := None\<rparr>) x)"
    if "channels_ok x" "i < length (slots x)" "active (slots x ! i)" for x :: "('a, 'b) ChannelManager"
  proof -
    have "slot_ok (slots x ! i)" using that by (simp add: channels_ok_def list_all_length)
    then have "slot_ok ((slots x ! i)\<lparr>sshChannel := None\<rparr>)" using that(3) by (simp add: slot_ok_def)
    then show ?thesis using channels_ok_update [of x i "\<lambda>s. s\<lparr>sshChannel := None\<rparr>" "activeCount x"] that
      by (simp add: channels_ok_def)
  qed
  show ?thesis
    using assms unfolding closeSshChannel_def recordCloseResult_def recordFreeResult_def case_prod_beta
    by (auto simp: channels_ok_shape split: if_splits intro!: drop_channel)
qed

lemma closeSocket_keeps:
  assumes "channels_ok m" and "i < length (slots m)" and "active (slots m ! i)"
  shows "channels_ok (closeSocket N i m) \<and> length (slots (closeSocket N i m)) = length (slots m) \<and>
     active (slots (closeSocket N i m) ! i) \<and> localSocket (slots (closeSocket N i m) ! i) < 0 \<and>
     sshChannel (slots (closeSocket N i m) ! i) = sshChannel (slots m ! i) \<and> activeCount (closeSocket N i m) = activeCount m"
proof -
  let ?f = "\<lambda>s. s\<lparr>localSocket := - 1\<rparr>"
  have "slot_ok (slots m ! i)" using assms by (simp add: channels_ok_def list_all_length)
  then have "slot_ok (?f (slots m ! i))" using assms(3) by (simp add: slot_ok_def)
  then have "channels_ok (updSlot i ?f m)"
    using channels_ok_update [of m i ?f "activeCount m"] assms by (simp add: channels_ok_def)
  then show ?thesis using assms by (simp add: closeSocket_def Let_def channels_ok_def)
qed

lemma finalizeClose_ok:
  assumes ok: "channels_ok m"
  shows "channels_ok (snd (finalizeClose N i m))"
proof (cases "maxSlots m \<le> i \<or> \<not> active (slots m ! i)")
  case True
  then show ?thesis using ok by (auto simp: finalizeClose_def)
next
  case False
  then have i: "i < length (slots m)" and a: "active (slots m ! i)" by (auto simp: maxSlots_def)
  define r where "r = (case sshChannel (slots m ! i) of None \<Rightarrow> (True, m) | Some channel \<Rightarrow> closeSshChannel N i channel m)"
  obtain closed m1 where r: "r = (closed, m1)" by (cases r)
  have c: "channels_ok m1 \<and> length (slots m1) = length (slots m) \<and> active (slots m1 ! i) \<and> activeCount m1 = activeCount m \<and>
      (closed \<longrightarrow> sshChannel (slots m1 ! i) = None)"
  proof (cases "sshChannel (slots m ! i)")
    case None
    then show ?thesis using r r_def ok a by auto
  next
    case (Some ch)
    then show ?thesis using closeSshChannel_keeps [of N i ch m closed m1] r r_def ok a i by simp
  qed
  have eq: "finalizeClose N i m =
     (if \<not> closed then (False, m1)
      else
        let m3 = updSlot i (\<lambda>s. s\<lparr>toLocal := None, toRemote := None, active := False, slotState := SlotClosed\<rparr>) (closeSocket N i m1)
        in (True, (updSlot i (\<lambda>s. s\<lparr>lastFinalizeMs := fst (ask (millis N) m3)\<rparr>) (snd (ask (millis N) m3)))
              \<lparr>activeCount := activeCount (snd (ask (millis N) m3)) - 1\<rparr>))"
    using False r unfolding finalizeClose_def r_def [symmetric] by (simp add: Let_def case_prod_beta)
  show ?thesis
  proof (cases closed)
    case True
    have k: "closed \<longrightarrow> sshChannel (slots m1 ! i) = None" "i < length (slots m1)" "active (slots m1 ! i)" "channels_ok m1"
      using c i by auto
    note cs = closeSocket_keeps [OF k(4,2,3), of N]
    let ?m' = "snd (finalizeClose N i m)"
    have s': "slots ?m' = (slots (closeSocket N i m1))[i := slots ?m' ! i]"
      using True cs k by (simp add: eq Let_def)
    show ?thesis
      by (rule channels_ok_release [OF _ _ _ s']) (use True cs k in \<open>auto simp: eq Let_def slot_ok_def\<close>)
  qed (use c eq in simp)
qed

lemma abandonSlot_ok:
  assumes "channels_ok m"
  shows "channels_ok (abandonSlot N i m)"
proof (cases "maxSlots m \<le> i \<or> \<not> active (slots m ! i)")
  case False
  then have i: "i < length (slots m)" and a: "active (slots m ! i)" by (auto simp: maxSlots_def)
  then have "slots m ! i \<in> set (filter active (slots m))" by simp
  then have "filter active (slots m) \<noteq> []" by (metis empty_iff empty_set)
  then have "0 < activeCount m" using assms by (simp add: channels_ok_def)
  moreover note cs = closeSocket_keeps [OF assms i a, of N]
  moreover have "slot_ok (resetSlot s)" "\<not> active (resetSlot s)" for s :: "'a ChannelSlot"
    by (simp_all add: slot_ok_def resetSlot_def newSlot_def)
  ultimately show ?thesis
    using channels_ok_release [of "closeSocket N i m" i "abandonSlot N i m"] False i
    by (simp add: abandonSlot_def Let_def)
qed (use assms in \<open>auto simp: abandonSlot_def\<close>)

lemma abandonSlot_length [simp]: "length (slots (abandonSlot N i m)) = length (slots m)"
  by (simp add: abandonSlot_def closeSocket_def Let_def)

section \<open>The pump\<close>

abbreviation pump_ok :: "('r, 'w) TransportPump \<Rightarrow> bool" where
  "pump_ok p \<equiv> channels_ok (channels p)"

abbreviation slotCount :: "('r, 'w) TransportPump \<Rightarrow> nat" where
  "slotCount p \<equiv> length (slots (channels p))"

lemma pump_simps [simp]:
  "slots (channels (snd (query f p))) = slots (channels p)" "pump_ok (snd (query f p)) = pump_ok p"
  "slots (channels (moved n p)) = slots (channels p)" "pump_ok (moved n p) = pump_ok p"
  "slots (channels (onSlot i g p)) = (slots (channels p))[i := g (slots (channels p) ! i)]"
  "channels (onMgr h p) = h (channels p)" "bufSize (snd (query f p)) = bufSize p" "bufSize (moved n p) = bufSize p"
  "bufSize (onSlot i g p) = bufSize p" "bufSize (onMgr h p) = bufSize p"
  by (simp_all add: query_def ask_def case_prod_beta moved_def onSlot_def onMgr_def)

lemma pump_ok_onSlot:
  assumes "i < slotCount p \<Longrightarrow> shape (f (slotOf p i)) = shape (slotOf p i)"
  shows "pump_ok (onSlot i f p) = pump_ok p"
  using channels_ok_shape [of i "channels p" f] assms by (simp add: onSlot_def onMgr_def)

text \<open>
  A pump with \<open>n\<close> slots that satisfies the invariant; and one whose slot \<open>i\<close> is active as well.  An update of an
  active slot that leaves its state and drops no queue is mild.
\<close>

definition kept :: "nat \<Rightarrow> ('r, 'w) TransportPump \<Rightarrow> bool" where
  "kept n p \<longleftrightarrow> pump_ok p \<and> slotCount p = n"

definition busy :: "nat \<Rightarrow> nat \<Rightarrow> ('r, 'w) TransportPump \<Rightarrow> bool" where
  "busy n i p \<longleftrightarrow> kept n p \<and> i < n \<and> active (slotOf p i)"

definition mild :: "('r ChannelSlot \<Rightarrow> 'r ChannelSlot) \<Rightarrow> bool" where
  "mild f \<longleftrightarrow> (\<forall>s. active (f s) = active s \<and> slotState (f s) = slotState s \<and>
     (toLocal s \<noteq> None \<longrightarrow> toLocal (f s) \<noteq> None) \<and> (toRemote s \<noteq> None \<longrightarrow> toRemote (f s) \<noteq> None))"

lemma kept_simps [simp]:
  "kept n (snd (query f p)) = kept n p" "kept n (moved k p) = kept n p"
  "kept n (onMgr (act g) p) = kept n p" "kept n (p\<lparr>roundRobinOffset := o1\<rparr>) = kept n p"
  "kept n (p\<lparr>lastBytesMoved := k\<rparr>) = kept n p" "kept n (p\<lparr>sessionDegraded := b\<rparr>) = kept n p"
  "kept n (p\<lparr>pendingCloseEvents := es\<rparr>) = kept n p" "kept n (snd (readChannel N c k p)) = kept n p"
  by (simp_all add: kept_def readChannel_def)

lemma readChannel_slots [simp]: "slots (channels (snd (readChannel N c k p))) = slots (channels p)"
  by (simp add: readChannel_def)

lemma busy_simps [simp]:
  "busy n i (snd (query f p)) = busy n i p" "busy n i (moved k p) = busy n i p" "busy n i (onMgr (act g) p) = busy n i p"
  "busy n i (snd (readChannel N c k p)) = busy n i p"
  by (simp_all add: busy_def)

lemma busy_onSlot:
  assumes "mild f" and "busy n i p"
  shows "busy n i (onSlot i f p)"
proof -
  have i: "i < slotCount p" "slot_ok (slotOf p i)" "active (slotOf p i)"
    using assms(2) by (auto simp: busy_def kept_def channels_ok_def list_all_length)
  then have "slot_ok (f (slotOf p i))" "active (f (slotOf p i))" using assms(1) by (auto simp: mild_def slot_ok_def)
  then have "pump_ok (onSlot i f p)"
    using channels_ok_update [of "channels p" i f "activeCount (channels p)"] assms(2) i
    by (simp add: busy_def kept_def onSlot_def onMgr_def channels_ok_def)
  then show ?thesis using assms i by (simp add: busy_def kept_def mild_def)
qed

lemma beginClose_active: "active (slots (beginClose N i reason m) ! j) = active (slots m ! j)"
proof (cases "j < length (slots m)")
  case True
  then show ?thesis by (simp add: beginClose_def Let_def case_prod_beta maxSlots_def nth_list_update)
next
  case False
  then show ?thesis by (auto simp: beginClose_def Let_def case_prod_beta maxSlots_def)
qed

lemma kept_beginClose: "kept n p \<Longrightarrow> kept n (onMgr (beginClose N i reason) p)"
  by (simp add: kept_def beginClose_ok)

lemma busy_beginClose: "busy n i p \<Longrightarrow> busy n i (onMgr (beginClose N j reason) p)"
  by (simp add: busy_def kept_beginClose beginClose_active)

lemmas busy_rules = busy_onSlot busy_beginClose mild_def

lemma channelError_busy: "busy n i p \<Longrightarrow> busy n i (channelError N i p)"
  by (simp add: channelError_def Let_def busy_rules)

lemma storeReceived_busy: "busy n i p \<Longrightarrow> busy n i (storeReceived R N i d p)"
  by (simp add: storeReceived_def case_prod_beta busy_rules split: option.split)

lemma pumpPaused_busy: "busy n i p \<Longrightarrow> busy n i (snd (pumpPaused R N i c p))"
  by (simp add: pumpPaused_def Let_def case_prod_beta storeReceived_busy channelError_busy busy_rules split: option.split)

lemma pumpChunks_busy: "busy n i p \<Longrightarrow> busy n i (snd (pumpChunks R N i c k rd p))"
  by (induction k arbitrary: rd p)
    (simp_all add: Let_def case_prod_beta storeReceived_busy channelError_busy busy_rules split: option.split)

lemma checkEofFlag_busy: "busy n i p \<Longrightarrow> busy n i (checkEofFlag N i c p)"
  by (simp add: checkEofFlag_def case_prod_beta busy_rules)

lemma busy_kept: "busy n i p \<Longrightarrow> kept n p"
  by (simp add: busy_def)

lemma pumpChannel_kept:
  assumes "kept n (snd st)" and "i < n"
  shows "kept n (snd (pumpChannel R N i st))"
proof -
  obtain a p where st: "st = (a, p)" by (cases st)
  show ?thesis
  proof (cases "active (slotOf p i)")
    case True
    then have b: "busy n i p" using assms by (simp add: busy_def st)
    have r: "busy n i (onSlot i (\<lambda>s. s\<lparr>sshReadPaused := False\<rparr>) p)" using b by (simp add: busy_rules)
    have "busy n i (snd (pumpChannel R N i (a, p)))" using b r True
      by (simp add: pumpChannel_def Let_def case_prod_beta checkEofFlag_busy pumpChunks_busy pumpPaused_busy
          split: option.split)
    then show ?thesis by (simp add: st busy_kept)
  qed (use assms in \<open>simp add: st pumpChannel_def\<close>)
qed

lemma fold_kept:
  assumes "\<And>i p. kept n p \<Longrightarrow> i \<in> set xs \<Longrightarrow> kept n (f i p)" and "kept n p"
  shows "kept n (fold f xs p)"
  using assms by (induction xs arbitrary: p) simp_all

lemma fold_snd_kept:
  assumes "\<And>i st. kept n (snd st) \<Longrightarrow> i \<in> set xs \<Longrightarrow> kept n (snd (f i st))" and "kept n (snd st)"
  shows "kept n (snd (fold f xs st))"
  using assms by (induction xs arbitrary: st) simp_all

text \<open>The rotation visits existing slots.\<close>

lemma rotation_bound:
  assumes "kept n p" and "n < 2 ^ 32" and "i \<in> set (rotation p)"
  shows "i < n"
proof -
  have n: "unat (of_nat n :: u32) = n" using assms(2) by (simp add: unat_of_nat)
  obtain k where k: "k < n" "i = unat ((of_nat k + roundRobinOffset p) mod (of_nat n :: u32))"
    using assms(1,3) by (auto simp: rotation_def maxSlots_def Let_def kept_def)
  have "i = unat (of_nat k + roundRobinOffset p) mod n" using k(2) by (simp add: unat_mod n)
  also have "\<dots> < n" using k(1) by (intro mod_less_divisor) simp
  finally show ?thesis .
qed

lemma fallbackRead_kept: "kept n p \<Longrightarrow> kept n (fallbackRead N p)"
  by (simp add: fallbackRead_def Let_def split: option.split)

lemma pumpSshTransport_kept:
  assumes "kept n p" and "n < 2 ^ 32"
  shows "kept n (pumpSshTransport R N p)"
proof -
  let ?p = "snd (query (s_lock N 50) p)"
  have k: "kept n ?p" using assms(1) by simp
  have "kept n (snd (fold (pumpChannel R N) (rotation ?p) (False, ?p)))"
  proof (rule fold_snd_kept)
    show "kept n (snd (pumpChannel R N i st))" if "kept n (snd st)" "i \<in> set (rotation ?p)" for i st
      by (rule pumpChannel_kept [OF that(1) rotation_bound [OF k assms(2) that(2)]])
  qed (use k in simp)
  then show ?thesis using assms(1) by (auto simp: pumpSshTransport_def case_prod_beta fallbackRead_kept)
qed

lemma drainChunks_busy: "busy n i p \<Longrightarrow> busy n i (drainChunks R N i k p)"
  by (induction k arbitrary: p) (simp_all add: Let_def case_prod_beta busy_rules split: option.split)

lemma checkLocalStall_busy: "busy n i p \<Longrightarrow> busy n i (checkLocalStall R N i p)"
  by (simp add: checkLocalStall_def Let_def case_prod_beta busy_rules split: option.split)

lemma busyI: "kept n p \<Longrightarrow> i < n \<Longrightarrow> active (slotOf p i) \<Longrightarrow> busy n i p"
  by (simp add: busy_def)

lemma drainSlot_kept: "kept n p \<Longrightarrow> i < n \<Longrightarrow> kept n (drainSlot R N i p)"
  by (auto simp: drainSlot_def Let_def intro: busy_kept checkLocalStall_busy drainChunks_busy busyI)

lemma drainSshToLocal_kept: "kept n p \<Longrightarrow> n < 2 ^ 32 \<Longrightarrow> kept n (drainSshToLocal R N p)"
  using rotation_bound by (auto simp: drainSshToLocal_def intro!: fold_kept drainSlot_kept)

lemma writeChunks_busy: "busy n i p \<Longrightarrow> busy n i (writeChunks R N i c budget p)"
proof (induction budget arbitrary: p rule: less_induct)
  case (less budget)
  note IH = less.IH
  show ?case using less.prems
    by (subst writeChunks.simps)
      (simp add: Let_def case_prod_beta busy_rules channelError_busy IH split: option.split)
qed

lemma checkWriteStall_busy: "busy n i p \<Longrightarrow> busy n i (checkWriteStall N i p)"
  by (simp add: checkWriteStall_def Let_def case_prod_beta busy_rules)

lemma writeQueue_busy: "busy n i p \<Longrightarrow> busy n i (writeQueue R N i c p)"
  by (simp add: writeQueue_def case_prod_beta writeChunks_busy checkWriteStall_busy split: option.split)

lemma remoteBackpressure_busy: "busy n i p \<Longrightarrow> busy n i (remoteBackpressure R i p)"
  by (simp add: remoteBackpressure_def Let_def busy_rules split: option.split)

lemma recvChunks_busy: "busy n i p \<Longrightarrow> busy n i (recvChunks R N i k p)"
  by (induction k arbitrary: p) (simp_all add: Let_def case_prod_beta busy_rules split: option.split)

lemma serveLocal_kept:
  assumes "kept n p" and "i < n"
  shows "kept n (serveLocal R N i p)"
proof (cases "active (slotOf p i)")
  case True
  then have "busy n i p" using assms by (intro busyI)
  then have "busy n i (serveLocal R N i p)" using True
    by (simp add: serveLocal_def Let_def writeQueue_busy remoteBackpressure_busy recvChunks_busy split: option.split)
  then show ?thesis by (rule busy_kept)
qed (use assms in \<open>simp add: serveLocal_def\<close>)

lemma drainLocalToSsh_kept: "kept n p \<Longrightarrow> n < 2 ^ 32 \<Longrightarrow> kept n (drainLocalToSsh R N p)"
  using rotation_bound by (auto simp: drainLocalToSsh_def Let_def intro!: fold_kept serveLocal_kept)

lemma considerClose_kept:
  assumes "kept n p" and "i < n"
  shows "kept n (considerClose R N now i p)"
proof (cases "active (slotOf p i)")
  case True
  then have b: "busy n i p" using assms by (intro busyI)
  have idle: "busy n i (idleClose R N now i x)" if "busy n i x" for x :: "('a, 'b) TransportPump"
    using that by (simp add: idleClose_def Let_def busy_rules)
  have "busy n i (considerClose R N now i p)" using b True
    by (simp add: considerClose_def Let_def idle busy_rules)
  then show ?thesis by (rule busy_kept)
qed (use assms in \<open>simp add: considerClose_def\<close>)

lemma pushEvent_kept [simp]: "kept n (pushEvent i reason p) = kept n p"
  by (simp add: pushEvent_def)

lemma checkDraining_kept: "kept n (snd (snd st)) \<Longrightarrow> kept n (snd (snd (checkDraining R N now k i st)))"
proof -
  assume "kept n (snd (snd st))"
  moreover have "kept n (hardAbandon N i p)" if "kept n p" for p :: "('a, 'b) TransportPump"
    using that abandonSlot_ok by (auto simp: hardAbandon_def kept_def pushEvent_def)
  ultimately show ?thesis by (cases st) (simp add: checkDraining_def Let_def)
qed

lemma checkDraining_lists:
  assumes "i < n" and "set (fst st) \<union> set (fst (snd st)) \<subseteq> {..<n}"
  shows "set (fst (checkDraining R N now k i st)) \<union> set (fst (snd (checkDraining R N now k i st))) \<subseteq> {..<n}"
  using assms by (cases st) (auto simp: checkDraining_def Let_def)

lemma flushReads_kept: "kept n p \<Longrightarrow> i < n \<Longrightarrow> active (slotOf p i) \<Longrightarrow> busy n i (flushReads R N i c k p)"
proof -
  have "busy n i p \<Longrightarrow> busy n i (flushReads R N i c k p)"
    by (induction k arbitrary: p) (simp_all add: Let_def case_prod_beta busy_rules split: option.split)
  then show "kept n p \<Longrightarrow> i < n \<Longrightarrow> active (slotOf p i) \<Longrightarrow> busy n i (flushReads R N i c k p)" by (simp add: busyI)
qed

text \<open>A slot with a channel is active, so an end of file concerns an active slot.\<close>

lemma sendEof_kept:
  assumes "kept n p" and "i < n"
  shows "kept n (sendEof R N i p)"
proof (cases "sshChannel (slotOf p i)")
  case (Some c)
  have "slot_ok (slotOf p i)" using assms by (auto simp: kept_def channels_ok_def list_all_length)
  then have "active (slotOf p i)" using Some by (auto simp: slot_ok_def split: if_splits)
  then have b: "busy n i (flushReads R N i c 4 (snd (query (ch_send_eof N c) p)))"
    using assms by (intro flushReads_kept) simp_all
  have "kept n (onSlot i (\<lambda>s. s\<lparr>eofSentMs := t\<rparr>) (snd (query g (flushReads R N i c 4 (snd (query (ch_send_eof N c) p))))))" for t g
    using b by (intro busy_kept [of n i] busy_onSlot) (simp_all add: mild_def)
  then show ?thesis using assms(1) Some by (auto simp: sendEof_def case_prod_beta)
qed (use assms in \<open>simp add: sendEof_def\<close>)

lemma finalizeClose_length [simp]: "length (slots (snd (finalizeClose N i m))) = length (slots m)"
  by (simp add: finalizeClose_def closeSshChannel_def closeSocket_def Let_def case_prod_beta split: option.split)

lemma closeSlot_kept: "kept n p \<Longrightarrow> kept n (closeSlot N i p)"
  using finalizeClose_ok [of "channels p" N i] by (simp add: closeSlot_def Let_def case_prod_beta kept_def pushEvent_def)

lemma lockedStage_kept:
  assumes "\<And>i p. kept n p \<Longrightarrow> i \<in> set xs \<Longrightarrow> kept n (f i p)" and "kept n p"
  shows "kept n (lockedStage N wait f xs p)"
  using fold_kept [of n xs f] assms by (simp add: lockedStage_def case_prod_beta)

lemma checkCloses_kept:
  assumes "kept n p"
  shows "kept n (checkCloses R N p)"
proof -
  define p2 where "p2 = fold (considerClose R N (fst (query (millis N) p))) [0..<n] (snd (query (millis N) p))"
  have k2: "kept n p2" unfolding p2_def by (rule fold_kept) (use assms considerClose_kept in auto)
  define st where "st = fold (checkDraining R N (fst (query (millis N) p2)) (if n < 32 then n else 32)) [0..<n]
      ([], [], snd (query (millis N) p2))"
  have inv: "kept n (snd (snd (fold (checkDraining R N t k) xs x))) \<and>
      set (fst (fold (checkDraining R N t k) xs x)) \<union> set (fst (snd (fold (checkDraining R N t k) xs x))) \<subseteq> {..<n}"
    if "kept n (snd (snd x))" "set (fst x) \<union> set (fst (snd x)) \<subseteq> {..<n}" "set xs \<subseteq> {..<n}" for t k xs x
    using that
  proof (induction xs arbitrary: x)
    case (Cons i xs)
    have "kept n (snd (snd (checkDraining R N t k i x)))" by (rule checkDraining_kept [OF Cons.prems(1)])
    moreover have "set (fst (checkDraining R N t k i x)) \<union> set (fst (snd (checkDraining R N t k i x))) \<subseteq> {..<n}"
      using Cons.prems by (intro checkDraining_lists) auto
    ultimately show ?case using Cons.IH [of "checkDraining R N t k i x"] Cons.prems(3) by simp
  qed simp
  have s: "kept n (snd (snd st)) \<and> set (fst st) \<union> set (fst (snd st)) \<subseteq> {..<n}"
    unfolding st_def by (rule inv) (use k2 in auto)
  have n: "maxSlots (channels p) = n" using assms by (simp add: kept_def maxSlots_def)
  have "checkCloses R N p =
      lockedStage N 200 (closeSlot N) (fst (snd st)) (lockedStage N 100 (sendEof R N) (fst st) (snd (snd st)))"
    by (simp add: checkCloses_def Let_def n case_prod_beta p2_def st_def)
  moreover have "kept n (lockedStage N 100 (sendEof R N) (fst st) (snd (snd st)))"
    by (rule lockedStage_kept) (use s in \<open>auto intro: sendEof_kept\<close>)
  ultimately show ?thesis using lockedStage_kept [of n _ "closeSlot N"] closeSlot_kept by metis
qed

lemma pumpAll_kept: "kept n p \<Longrightarrow> n < 2 ^ 32 \<Longrightarrow> kept n (snd (pumpAll R N p))"
  by (simp add: pumpAll_def Let_def checkCloses_kept drainLocalToSsh_kept drainSshToLocal_kept pumpSshTransport_kept)

section \<open>Runs of the tunnel\<close>

text \<open>
  One step of the tunnel on its channels: a cycle of the pump, or an operation of the manager that the session
  and the tunnel call, with arbitrary answers of the outside.
\<close>

inductive tunnel_step :: "'r Ringbuf \<Rightarrow> ('r, 'w) TransportPump \<Rightarrow> ('r, 'w) TransportPump \<Rightarrow> bool" for R where
  step_pump: "slotCount p < 2 ^ 32 \<Longrightarrow> tunnel_step R p (snd (pumpAll R N p))"
| step_allocate: "tunnel_step R p (onMgr (\<lambda>m. snd (allocateSlot N m)) p)"
| step_bind: "tunnel_step R p (onMgr (\<lambda>m. snd (bindChannel N i channel mapping m)) p)"
| step_begin_close: "tunnel_step R p (onMgr (beginClose N i reason) p)"
| step_finalize: "tunnel_step R p (onMgr (\<lambda>m. snd (finalizeClose N i m)) p)"
| step_abandon: "tunnel_step R p (onMgr (abandonSlot N i) p)"
| step_init: "tunnel_step R p (onMgr (\<lambda>m. snd (initChannels N k sz allocated m)) p)"
| step_destroy: "tunnel_step R p (onMgr (destroyChannels N) p)"
| step_events: "tunnel_step R p (snd (consumeCloseEvents k p))"

lemma initChannels_ok: "channels_ok m \<Longrightarrow> channels_ok (snd (initChannels N k sz allocated m))"
  by (auto simp: initChannels_def Let_def channels_ok_def newSlot_def slot_ok_def list_all_length)

lemma destroyChannels_ok: "channels_ok (destroyChannels N m)"
  by (simp add: destroyChannels_def channels_ok_def)

lemma tunnel_step_ok: "tunnel_step R p p' \<Longrightarrow> pump_ok p \<Longrightarrow> pump_ok p'"
proof (induction rule: tunnel_step.induct)
  case (step_pump p N)
  then show ?case using pumpAll_kept [of "slotCount p" p R N] by (simp add: kept_def)
qed (simp_all add: allocateSlot_ok bindChannel_ok beginClose_ok finalizeClose_ok abandonSlot_ok initChannels_ok
    destroyChannels_ok consumeCloseEvents_def)

text \<open>
  C21.  The channel table never goes wrong: after any sequence of pump cycles, allocations, bindings, closings,
  abandonments and re-initialisations, whatever libssh2, the sockets, the clock and the heap answer, the count of
  active channels is the number of active slots, every active slot is open or draining and has both its queues,
  and every inactive slot is closed and holds neither channel nor socket nor queue.
\<close>

theorem channel_table_invariant:
  assumes "channels_ok (channels p)" and "(tunnel_step R)\<^sup>*\<^sup>* p p'"
  shows "activeCount (channels p') = int (length (filter active (slots (channels p')))) \<and>
     list_all (\<lambda>s. if active s then slotState s \<noteq> SlotClosed \<and> toLocal s \<noteq> None \<and> toRemote s \<noteq> None
       else slotState s = SlotClosed \<and> toLocal s = None \<and> toRemote s = None \<and> sshChannel s = None \<and> localSocket s < 0)
       (slots (channels p'))"
proof -
  have "channels_ok (channels p')"
    using assms(2,1) by (induction rule: rtranclp_induct) (auto intro: tunnel_step_ok)
  then show ?thesis by (simp add: channels_ok_def slot_ok_def [abs_def])
qed

end
