(* ===== verification/Tunnel_Stream.thy ===== *)
theory Tunnel_Stream
  imports Tunnel_Inv
begin

text \<open>
  What the pump does to the bytes: nothing is lost, duplicated or reordered between a queue and the socket or the
  channel of libssh2 that it is drained to, as long as the working buffer fits the buffer of returned bytes; and
  the two places where bytes are lost all the same.
\<close>

section \<open>The outside\<close>

text \<open>
  What POSIX and libssh2 document of their writes: a positive result counts the bytes that were taken from the
  front of the buffer, any other result means that none was; reading the clock touches neither.
\<close>

locale endpoints =
  fixes N :: "('r, 'w) Net" and delivered :: "'w \<Rightarrow> int \<Rightarrow> bytes" and written :: "'w \<Rightarrow> nat \<Rightarrow> bytes"
  assumes millis_silent: "delivered (snd (millis N w)) = delivered w" "written (snd (millis N w)) = written w"
    and send_takes: "n_send N fd d w = ((sent, again), w') \<Longrightarrow>
      (if 0 < sent then nat sent \<le> length d \<and> delivered w' fd = delivered w fd @ take (nat sent) d
       else delivered w' fd = delivered w fd)"
    and write_takes: "ch_write N c d w = (n, w') \<Longrightarrow>
      (if 0 < n then nat n \<le> length d \<and> written w' c = written w c @ take (nat n) d else written w' c = written w c)"

definition world :: "('r, 'w) TransportPump \<Rightarrow> 'w" where
  "world p = net (channels p)"

lemma world_simps [simp]:
  "world (onSlot i f p) = world p" "world (moved n p) = world p" "world (snd (query g p)) = snd (g (world p))"
  "fst (query g p) = fst (g (world p))"
  by (simp_all add: world_def onSlot_def onMgr_def moved_def query_def ask_def updSlot_def case_prod_beta)

text \<open>A queue of the pump that is in order: allocated, and with no more bytes put back than one read takes.\<close>

definition inOrder :: "('r \<Rightarrow> nat) \<Rightarrow> nat \<Rightarrow> 'r DataRingBuffer \<Rightarrow> bool" where
  "inOrder cap n q \<longleftrightarrow> good cap q \<and> prependPending (prepend q) \<le> n"

definition hardFailure :: "('r, 'w) Net \<Rightarrow> int \<Rightarrow> bool" where
  "hardFailure N fd \<longleftrightarrow> (\<exists>d w sent w'. n_send N fd d w = ((sent, False), w') \<and> sent < 0)"

section \<open>One pass of the loops\<close>

text \<open>One chunk of the loop towards a local socket: the socket takes some bytes, or none.\<close>

lemma drainChunks_taken:
  assumes "i < slotCount p" and "toLocal (slotOf p i) = Some q" and "\<not> ringEmpty R q"
    and "ringRead R (if ringSize R q < bufSize p then ringSize R q else bufSize p) q = (d, q1)" and "d \<noteq> []"
    and "n_send N (localSocket (slotOf p i)) d (world p) = ((sent, again), w')" and "0 < sent"
  obtains p4 where "i < slotCount p4" and "toLocal (slotOf p4 i) = Some q1" and "bufSize p4 = bufSize p"
    and "localSocket (slotOf p4 i) = localSocket (slotOf p i)" and "world p4 = snd (millis N w')"
    and "drainChunks R N i (Suc k) p =
      (if nat sent < length d then onSlot i (\<lambda>s. s\<lparr>toLocal := Some (putBack R (drop (nat sent) d) q1)\<rparr>) p4
       else drainChunks R N i k p4)"
proof -
  define p1 where "p1 = onSlot i (\<lambda>s. s\<lparr>toLocal := Some q1\<rparr>) p"
  define p2 where "p2 = snd (query (n_send N (localSocket (slotOf p i)) d) p1)"
  define p4 where "p4 = onSlot i (\<lambda>s. s\<lparr>lastActivity := fst (millis N w'), firstLocalSendEagainMs := 0\<rparr>)
      (snd (query (millis N) (moved (nat sent) p2)))"
  have s: "localSocket (slotOf p1 i) = localSocket (slotOf p i)" "world p1 = world p" "world p2 = w'"
    using assms(1,6) by (simp_all add: p1_def p2_def)
  have sl: "slots (channels p2) = (slots (channels p))[i := (slotOf p i)\<lparr>toLocal := Some q1\<rparr>]" "bufSize p2 = bufSize p"
    by (simp_all add: p1_def p2_def)
  have "drainChunks R N i (Suc k) p =
      (if nat sent < length d then onSlot i (\<lambda>s. s\<lparr>toLocal := Some (putBack R (drop (nat sent) d) q1)\<rparr>) p4
       else drainChunks R N i k p4)"
    using assms s by (simp add: Let_def p1_def [symmetric] p2_def [symmetric] p4_def case_prod_beta)
  moreover have "i < slotCount p4" "toLocal (slotOf p4 i) = Some q1" "bufSize p4 = bufSize p"
    "localSocket (slotOf p4 i) = localSocket (slotOf p i)" "world p4 = snd (millis N w')"
    using assms(1) by (simp_all add: p4_def sl s)
  ultimately show thesis using that by blast
qed

lemma drainChunks_blocked:
  assumes "i < slotCount p" and "toLocal (slotOf p i) = Some q" and "\<not> ringEmpty R q"
    and "ringRead R (if ringSize R q < bufSize p then ringSize R q else bufSize p) q = (d, q1)" and "d \<noteq> []"
    and "n_send N (localSocket (slotOf p i)) d (world p) = ((sent, again), w')" and "\<not> 0 < sent" and "\<not> (sent < 0 \<and> \<not> again)"
  shows "toLocal (slotOf (drainChunks R N i (Suc k) p) i) = Some (putBack R d q1) \<and>
     (world (drainChunks R N i (Suc k) p) = w' \<or> world (drainChunks R N i (Suc k) p) = snd (millis N w'))"
proof -
  define p1 where "p1 = onSlot i (\<lambda>s. s\<lparr>toLocal := Some q1\<rparr>) p"
  define p2 where "p2 = snd (query (n_send N (localSocket (slotOf p i)) d) p1)"
  define p3 where "p3 = onSlot i (\<lambda>s. s\<lparr>toLocal := Some (putBack R d q1)\<rparr>) p2"
  have s: "localSocket (slotOf p1 i) = localSocket (slotOf p i)" "world p1 = world p" "world p2 = w'" "i < slotCount p3"
    "toLocal (slotOf p3 i) = Some (putBack R d q1)"
    using assms(1,6) by (simp_all add: p1_def p2_def p3_def)
  have w3: "world p3 = w'" using s by (simp add: p3_def)
  have "drainChunks R N i (Suc k) p =
      (if firstLocalSendEagainMs (slotOf p3 i) = 0
       then onSlot i (\<lambda>s. s\<lparr>firstLocalSendEagainMs := fst (millis N (world p3))\<rparr>) (snd (query (millis N) p3)) else p3)"
    using assms s by (simp add: Let_def p1_def [symmetric] p2_def [symmetric] p3_def [symmetric] case_prod_beta) blast
  then show ?thesis using s w3 by (simp del: drainChunks.simps)
qed

text \<open>The same for the loop towards libssh2.\<close>

lemma channelError_queue:
  assumes "i < slotCount p"
  shows "toRemote (slotOf (channelError N i p) i) = toRemote (slotOf p i) \<and>
     (world (channelError N i p) = world p \<or> world (channelError N i p) = snd (millis N (world p)))"
proof -
  have b: "toRemote (slots (beginClose N i reason m) ! i) = toRemote (slots m ! i) \<and>
      (net (beginClose N i reason m) = net m \<or> net (beginClose N i reason m) = snd (millis N (net m)))"
    if "i < length (slots m)" for m :: "('a, 'b) ChannelManager" and reason
    using that by (auto simp: beginClose_def Let_def case_prod_beta maxSlots_def updSlot_def ask_def)
  show ?thesis using b [of "channels (onSlot i (\<lambda>s. s\<lparr>consecutiveErrors := consecutiveErrors s + 1\<rparr>) p)" ReasonError] assms
    by (auto simp: channelError_def Let_def world_def onMgr_def) (simp_all add: onSlot_def onMgr_def updSlot_def)
qed

lemma writeChunks_taken:
  assumes "i < slotCount p" and "toRemote (slotOf p i) = Some q" and "\<not> ringEmpty R q" and "budget \<noteq> 0"
    and "ringRead R (if budget < bufSize p then budget else bufSize p) q = (d, q1)" and "d \<noteq> []"
    and "ch_write N c d (world p) = (n, w')" and "0 < n"
  obtains p4 where "i < slotCount p4" and "toRemote (slotOf p4 i) = Some q1" and "bufSize p4 = bufSize p"
    and "world p4 = snd (millis N w')"
    and "writeChunks R N i c budget p =
      (if nat n < length d then onSlot i (\<lambda>s. s\<lparr>toRemote := Some (putBack R (drop (nat n) d) q1)\<rparr>) p4
       else writeChunks R N i c (budget - nat n) p4)"
proof -
  define p1 where "p1 = onSlot i (\<lambda>s. s\<lparr>toRemote := Some q1\<rparr>) p"
  define p2 where "p2 = snd (query (ch_write N c d) p1)"
  define p3 where "p3 = moved (nat n) (onSlot i (\<lambda>s. s\<lparr>totalBytesSent := totalBytesSent s + word_of_int n\<rparr>) p2)"
  define p4 where "p4 = onSlot i (\<lambda>s. s\<lparr>lastSuccessfulWrite := fst (millis N w'), lastActivity := fst (millis N w'),
      eagainCount := 0, firstEagainMs := 0, consecutiveErrors := 0\<rparr>) (snd (query (millis N) p3))"
  have s: "world p1 = world p" "world p2 = w'" "world p3 = w'" using assms(7) by (simp_all add: p1_def p2_def p3_def)
  have sl: "i < slotCount p4" "toRemote (slotOf p4 i) = Some q1" "bufSize p4 = bufSize p" "world p4 = snd (millis N w')"
    using assms(1,7) by (simp_all add: p4_def p3_def p2_def p1_def)
  have "writeChunks R N i c budget p =
      (if nat n < length d then onSlot i (\<lambda>s. s\<lparr>toRemote := Some (putBack R (drop (nat n) d) q1)\<rparr>) p4
       else writeChunks R N i c (budget - nat n) p4)"
    using assms s
    by (subst writeChunks.simps)
      (simp add: Let_def p1_def [symmetric] p2_def [symmetric] p3_def [symmetric] p4_def case_prod_beta)
  then show thesis using that sl by blast
qed

lemma writeChunks_blocked:
  assumes "i < slotCount p" and "toRemote (slotOf p i) = Some q" and "\<not> ringEmpty R q" and "budget \<noteq> 0"
    and "ringRead R (if budget < bufSize p then budget else bufSize p) q = (d, q1)" and "d \<noteq> []"
    and "ch_write N c d (world p) = (n, w')" and "\<not> 0 < n"
  shows "toRemote (slotOf (writeChunks R N i c budget p) i) = Some (putBack R d q1) \<and>
     (world (writeChunks R N i c budget p) = w' \<or> world (writeChunks R N i c budget p) = snd (millis N w'))"
proof -
  define p1 where "p1 = onSlot i (\<lambda>s. s\<lparr>toRemote := Some q1\<rparr>) p"
  define p2 where "p2 = snd (query (ch_write N c d) p1)"
  define p3 where "p3 = onSlot i (\<lambda>s. s\<lparr>toRemote := Some (putBack R d q1)\<rparr>) p2"
  define p4 where "p4 = onSlot i (\<lambda>s. s\<lparr>eagainCount := eagainCount s + 1\<rparr>) p3"
  have s: "world p1 = world p" "world p2 = w'" "world p3 = w'" "world p4 = w'"
    using assms(7) by (simp_all add: p1_def p2_def p3_def p4_def)
  have sl: "i < slotCount p3" "toRemote (slotOf p3 i) = Some (putBack R d q1)"
    "i < slotCount p4" "toRemote (slotOf p4 i) = Some (putBack R d q1)"
    using assms(1) by (simp_all add: p4_def p3_def p2_def p1_def)
  have "writeChunks R N i c budget p =
      (if n = LIBSSH2_ERROR_EAGAIN then
         (if firstEagainMs (slotOf p4 i) = 0
          then onSlot i (\<lambda>s. s\<lparr>firstEagainMs := fst (millis N (world p4))\<rparr>) (snd (query (millis N) p4)) else p4)
       else channelError N i p3)"
    using assms s
    by (subst writeChunks.simps)
      (simp add: Let_def p1_def [symmetric] p2_def [symmetric] p3_def [symmetric] p4_def [symmetric] case_prod_beta)
  then show ?thesis using sl s channelError_queue [OF sl(1), of N] by simp
qed

locale tunnel_ends = byte_ring R contents cap + endpoints N delivered written
  for R :: "'r Ringbuf" and contents :: "'r \<Rightarrow> bytes" and cap :: "'r \<Rightarrow> nat" and N :: "('r, 'w) Net"
    and delivered :: "'w \<Rightarrow> int \<Rightarrow> bytes" and written :: "'w \<Rightarrow> nat \<Rightarrow> bytes"
begin

lemma putBack_restores:
  assumes "inOrder cap n q" and "n \<noteq> 0" and "n \<le> PREPEND_CAP" and "ringRead R n q = (d, q1)" and "k < length d"
  shows "inOrder cap n (putBack R (drop k d) q1) \<and> take k d @ bytesOf contents (putBack R (drop k d) q1) = bytesOf contents q"
proof -
  obtain w q2 where f: "ringWriteToFront (drop k d) q1 = (w, q2)" by fastforce
  have r: "good cap q1 \<and> bytesOf contents q = d @ bytesOf contents q1 \<and> length d \<le> n \<and>
      prependPending (prepend q1) = prependPending (prepend q) - n"
    using queue.read_prefix [OF _ assms(2,4)] assms(1) by (simp add: inOrder_def)
  have a: "good cap q2 \<and> w = length (drop k d) \<and> bytesOf contents q2 = drop k d @ bytesOf contents q1 \<and>
      prependPending (prepend q2) = length (drop k d)"
  proof (rule queue.front_accepts [OF _ _ _ _ f])
    show "good cap q1" using r by blast
    have "prependPending (prepend q) \<le> n" using assms(1) by (simp add: inOrder_def)
    then show "prependPending (prepend q1) = 0" using r by linarith
    show "drop k d \<noteq> []" using assms(5) by simp
    have "length d \<le> n" using r by blast
    then show "length (drop k d) \<le> PREPEND_CAP" using assms(3) by simp
  qed
  then have "putBack R (drop k d) q1 = q2" using assms(5) by (simp add: putBack_def f)
  moreover have "length d \<le> n" "bytesOf contents q = d @ bytesOf contents q1" using r by blast+
  ultimately show ?thesis using a by (simp add: inOrder_def)
qed

lemma read_all_in_order:
  assumes "inOrder cap m q" and "m \<le> n" and "n \<noteq> 0" and "ringRead R n q = (d, q1)"
  shows "good cap q1 \<and> prependPending (prepend q1) = 0 \<and> bytesOf contents q = d @ bytesOf contents q1 \<and> length d \<le> n \<and>
     (bytesOf contents q \<noteq> [] \<longrightarrow> d \<noteq> [])"
proof -
  have g: "good cap q" and "prependPending (prepend q) - n = 0" using assms(1,2) by (simp_all add: inOrder_def)
  then show ?thesis using queue.read_prefix [OF g assms(3,4)] by argo
qed

text \<open>Whatever part of a chunk is taken, the rest is back in front.\<close>

lemma chunk_step:
  assumes "inOrder cap n q" and "n \<noteq> 0" and "n \<le> PREPEND_CAP" and "ringRead R n q = (d, q1)" and "k \<le> length d"
    and "q2 = (if k < length d then putBack R (drop k d) q1 else q1)"
  shows "inOrder cap n q2 \<and> take k d @ bytesOf contents q2 = bytesOf contents q"
proof (cases "k < length d")
  case True
  then show ?thesis using putBack_restores [OF assms(1-4) True] assms(6) by simp
next
  case False
  then show ?thesis using read_all_in_order [OF assms(1) order_refl assms(2,4)] assms(5,6) by (simp add: inOrder_def)
qed

lemma inOrder_mono: "inOrder cap n q \<Longrightarrow> n \<le> m \<Longrightarrow> inOrder cap m q"
  by (simp add: inOrder_def)

lemma drainChunks_order:
  assumes "i < slotCount p" and "toLocal (slotOf p i) = Some q" and "inOrder cap (bufSize p) q"
    and "bufSize p \<noteq> 0" and "bufSize p \<le> PREPEND_CAP" and "localSocket (slotOf p i) = fd" and "\<not> hardFailure N fd"
  shows "\<exists>q'. toLocal (slotOf (drainChunks R N i k p) i) = Some q' \<and> inOrder cap (bufSize p) q' \<and>
     delivered (world (drainChunks R N i k p)) fd @ bytesOf contents q' = delivered (world p) fd @ bytesOf contents q"
  using assms
proof (induction k arbitrary: p q)
  case 0
  then show ?case by simp
next
  case (Suc k)
  let ?n = "if ringSize R q < bufSize p then ringSize R q else bufSize p"
  have g: "good cap q" and pd: "prependPending (prepend q) \<le> bufSize p" using Suc.prems(3) by (simp_all add: inOrder_def)
  show ?case
  proof (cases "ringEmpty R q")
    case True
    then show ?thesis using Suc.prems by simp
  next
    case ne: False
    have sz: "ringSize R q = length (bytesOf contents q)" "ringSize R q \<noteq> 0"
      using queue.size_stream [OF g] ne by (simp_all add: ringEmpty_def)
    have n: "?n \<noteq> 0" "?n \<le> PREPEND_CAP" "?n \<le> bufSize p" and io: "inOrder cap ?n q"
      using pd sz Suc.prems(4,5) queue.pend_stream [OF g] g by (simp_all add: inOrder_def)
    obtain d q1 where rd: "ringRead R ?n q = (d, q1)" by fastforce
    have d: "d \<noteq> []" using read_all_in_order [OF io order_refl n(1) rd] sz by (metis list.size(3))
    obtain sent again w' where sd: "n_send N fd d (world p) = ((sent, again), w')" by (metis surj_pair)
    note sd' = sd [folded Suc.prems(6)] and tk = send_takes [OF sd]
    show ?thesis
    proof (cases "0 < sent")
      case pos: True
      obtain p4 where p4: "i < slotCount p4" "toLocal (slotOf p4 i) = Some q1" "bufSize p4 = bufSize p"
        "localSocket (slotOf p4 i) = localSocket (slotOf p i)" "world p4 = snd (millis N w')"
        and eq: "drainChunks R N i (Suc k) p =
          (if nat sent < length d then onSlot i (\<lambda>s. s\<lparr>toLocal := Some (putBack R (drop (nat sent) d) q1)\<rparr>) p4
           else drainChunks R N i k p4)"
        using drainChunks_taken [OF Suc.prems(1,2) ne rd d sd' pos] by metis
      have w4: "delivered (world p4) fd = delivered (world p) fd @ take (nat sent) d" and le: "nat sent \<le> length d"
        using tk pos p4(5) by (simp_all add: millis_silent)
      note c = chunk_step [OF io n(1,2) rd le refl]
      show ?thesis
      proof (cases "nat sent < length d")
        case True
        then show ?thesis using c p4(1) inOrder_mono [OF _ n(3)] by (simp add: eq w4 del: drainChunks.simps)
      next
        case False
        then have "inOrder cap (bufSize p4) q1" "d @ bytesOf contents q1 = bytesOf contents q"
          using c inOrder_mono [OF _ n(3)] p4(3) by simp_all
        then show ?thesis using Suc.IH [OF p4(1,2)] p4(3,4) Suc.prems(4-7) False eq w4 by (simp del: drainChunks.simps)
      qed
    next
      case False
      have soft: "\<not> (sent < 0 \<and> \<not> again)"
        using Suc.prems(7) sd unfolding hardFailure_def by (cases again) auto
      note b = drainChunks_blocked [OF Suc.prems(1,2) ne rd d sd' False soft, of k]
      have "inOrder cap ?n (putBack R d q1) \<and> bytesOf contents (putBack R d q1) = bytesOf contents q"
        using chunk_step [OF io n(1,2) rd, of 0] d by simp
      moreover have "delivered (world (drainChunks R N i (Suc k) p)) fd = delivered (world p) fd"
        using b tk False by (auto simp: millis_silent)
      ultimately show ?thesis using b inOrder_mono [OF _ n(3)] by (simp del: drainChunks.simps)
    qed
  qed
qed

lemma writeChunks_order:
  assumes "i < slotCount p" and "toRemote (slotOf p i) = Some q" and "inOrder cap (min budget (bufSize p)) q"
    and "bufSize p \<noteq> 0" and "bufSize p \<le> PREPEND_CAP"
  shows "\<exists>q'. toRemote (slotOf (writeChunks R N i c budget p) i) = Some q' \<and> inOrder cap (bufSize p) q' \<and>
     written (world (writeChunks R N i c budget p)) c @ bytesOf contents q' = written (world p) c @ bytesOf contents q"
  using assms
proof (induction budget arbitrary: p q rule: less_induct)
  case (less budget)
  let ?n = "if budget < bufSize p then budget else bufSize p"
  have nm: "?n = min budget (bufSize p)" by simp
  have io: "inOrder cap ?n q" using less.prems(3) by (simp add: nm)
  show ?case
  proof (cases "budget = 0 \<or> ringEmpty R q")
    case True
    then have "writeChunks R N i c budget p = p" using less.prems(2) by (subst writeChunks.simps) auto
    then show ?thesis using less.prems(2,3) inOrder_mono [of _ q "bufSize p"] by simp
  next
    case False
    then have ne: "\<not> ringEmpty R q" and b0: "budget \<noteq> 0" by auto
    have n: "?n \<noteq> 0" "?n \<le> PREPEND_CAP" "?n \<le> bufSize p" using b0 less.prems(4,5) by simp_all
    obtain d q1 where rd: "ringRead R ?n q = (d, q1)" by fastforce
    have "good cap q" using io by (simp add: inOrder_def)
    then have "bytesOf contents q \<noteq> []" using ne queue.size_stream by (metis list.size(3) ringEmpty_def)
    then have d: "d \<noteq> []" using read_all_in_order [OF io order_refl n(1) rd] by blast
    obtain m w' where wr: "ch_write N c d (world p) = (m, w')" by fastforce
    note tk = write_takes [OF wr]
    show ?thesis
    proof (cases "0 < m")
      case pos: True
      obtain p4 where p4: "i < slotCount p4" "toRemote (slotOf p4 i) = Some q1" "bufSize p4 = bufSize p"
        "world p4 = snd (millis N w')" and eq: "writeChunks R N i c budget p =
          (if nat m < length d then onSlot i (\<lambda>s. s\<lparr>toRemote := Some (putBack R (drop (nat m) d) q1)\<rparr>) p4
           else writeChunks R N i c (budget - nat m) p4)"
        using writeChunks_taken [OF less.prems(1,2) ne b0 rd d wr pos] by metis
      have w4: "written (world p4) c = written (world p) c @ take (nat m) d" and le: "nat m \<le> length d"
        using tk pos p4(4) by (simp_all add: millis_silent)
      note s = chunk_step [OF io n(1,2) rd le refl]
      show ?thesis
      proof (cases "nat m < length d")
        case True
        then show ?thesis using s p4(1) inOrder_mono [OF _ n(3)] by (simp add: eq w4)
      next
        case all: False
        have "inOrder cap (min (budget - nat m) (bufSize p4)) q1" "d @ bytesOf contents q1 = bytesOf contents q"
          using read_all_in_order [OF io order_refl n(1) rd] by (simp_all add: inOrder_def)
        moreover have "budget - nat m < budget" using pos b0 by simp
        ultimately show ?thesis using less.IH [OF _ p4(1,2)] p4(3) less.prems(4,5) all eq w4 by simp
      qed
    next
      case False
      note b = writeChunks_blocked [OF less.prems(1,2) ne b0 rd d wr False]
      have "inOrder cap ?n (putBack R d q1) \<and> bytesOf contents (putBack R d q1) = bytesOf contents q"
        using chunk_step [OF io n(1,2) rd, of 0] d by simp
      moreover have "written (world (writeChunks R N i c budget p)) c = written (world p) c"
        using b tk False by (auto simp: millis_silent)
      ultimately show ?thesis using b inOrder_mono [OF _ n(3)] by simp
    qed
  qed
qed

end

section \<open>Order and loss\<close>

text \<open>
  C10.  The pump neither loses nor reorders bytes on the way out of its queues: with a working buffer of at most
  8192 bytes, however little the local socket or libssh2 takes at each call, what was delivered to the
  socket followed by what is still queued for it is the same stream before and after draining the slot (unless
  the socket fails with an error other than \<open>EAGAIN\<close>), and the same holds for the bytes written to libssh2, even
  when its writes fail.
\<close>

theorem tunnel_keeps_order:
  assumes "tunnel_ends R contents cap N delivered written" and "i < length (slots (channels p))"
    and "toLocal (slots (channels p) ! i) = Some ql" and "toRemote (slots (channels p) ! i) = Some qr"
    and "inOrder cap (bufSize p) ql" and "inOrder cap (bufSize p) qr"
    and "bufSize p \<noteq> 0" and "bufSize p \<le> PREPEND_CAP"
    and "localSocket (slots (channels p) ! i) = fd" and "\<not> hardFailure N fd"
  shows "(\<exists>q'. toLocal (slots (channels (drainChunks R N i k p)) ! i) = Some q' \<and> inOrder cap (bufSize p) q' \<and>
       delivered (world (drainChunks R N i k p)) fd @ bytesOf contents q' = delivered (world p) fd @ bytesOf contents ql) \<and>
     (\<exists>q'. toRemote (slots (channels (writeChunks R N i c MAX_WRITE_PER_CHANNEL p)) ! i) = Some q' \<and>
       inOrder cap (bufSize p) q' \<and>
       written (world (writeChunks R N i c MAX_WRITE_PER_CHANNEL p)) c @ bytesOf contents q' =
         written (world p) c @ bytesOf contents qr)"
proof -
  have "min MAX_WRITE_PER_CHANNEL (bufSize p) = bufSize p"
    using assms(8) by (simp add: MAX_WRITE_PER_CHANNEL_def PREPEND_CAP_def)
  then show ?thesis
    using tunnel_ends.drainChunks_order [OF assms(1-3,5,7-10)] tunnel_ends.writeChunks_order [OF assms(1,2,4) _ assms(7,8)]
      assms(6) by simp
qed

text \<open>
  A larger working buffer breaks the order: a rest that does not fit the buffer of returned bytes is appended
  behind the bytes that came after it.
\<close>

lemma oversized_rest_reordered:
  assumes "byte_ring R contents cap" and "good cap q1" and "PREPEND_CAP < length rest" and "length rest \<le> ringAvailable R q1"
  shows "bytesOf contents (putBack R rest q1) = bytesOf contents q1 @ rest"
proof -
  have "ringWriteToFront rest q1 = (0, q1)"
    using prependWrite_rejects [of "prepend q1" rest] assms(2,3) by (simp add: ringWriteToFront_def good_def)
  moreover obtain w q' where w: "ringWrite R rest q1 = (w, q')" by fastforce
  ultimately show ?thesis
    using byte_ring.ringWrite_appends [OF assms(1,2) w] assms(4) by (simp add: putBack_def)
qed

text \<open>
  A full queue costs a byte of the stream with every cycle: when the only channel is paused and its queue
  towards the local side is full, the first phase still reads one byte from libssh2, to let it work, and
  drops it: the slot, its queues and counters are unchanged although the byte has left libssh2.
\<close>

theorem full_queue_drops_byte:
  assumes "slots (channels p) = [s]" and "active s" and "sshChannel s = Some c" and "\<not> remoteEof s" and "sshReadPaused s"
    and "toLocal s = Some q" and "ringAvailable R q = 0" and "rb_capacity q * BACKPRESSURE_LOW_PCT div 100 \<le> ringSize R q"
    and "s_lock N 50 (world p) = (True, w1)" and "ch_read N c 1 w1 = ((1, [b]), w2)"
  shows "slots (channels (pumpSshTransport R N p)) = [s] \<and> world (pumpSshTransport R N p) = s_unlock N w2 \<and>
     lastBytesMoved (pumpSshTransport R N p) = lastBytesMoved p"
proof -
  let ?p = "snd (query (s_lock N 50) p)"
  have sl: "slots (channels ?p) = [s]" "world ?p = w1" using assms(1,9) by simp_all
  have rot: "rotation ?p = [0]" using assms(1) by (simp add: rotation_def maxSlots_def Let_def)
  have "pumpChannel R N 0 (False, ?p) = (False, ?p)"
    using assms sl by (simp add: pumpChannel_def pumpPaused_def Let_def)
  then have "pumpSshTransport R N p = onMgr (act (s_unlock N)) (fallbackRead N ?p)"
    using assms(9) rot by (simp add: pumpSshTransport_def case_prod_beta)
  moreover have "fallbackRead N ?p = snd (readChannel N c 1 ?p)"
    using assms(2-4) sl by (simp add: fallbackRead_def Let_def)
  moreover have "lastBytesMoved (snd (readChannel N c 1 ?p)) = lastBytesMoved p"
    by (simp add: readChannel_def query_def case_prod_beta)
  moreover have "world (snd (readChannel N c 1 ?p)) = w2" using sl assms(10) by (simp add: readChannel_def)
  ultimately show ?thesis using sl by (simp add: world_def act_def onMgr_def)
qed

text \<open>
  The write side of a local socket is shut down although bytes for it are still queued: the test looks at the
  queue of the other direction.
\<close>

lemma shutdown_before_drained:
  assumes "i < slotCount p" and "slotOf p i = s" and "active s" and "slotState s = SlotOpen" and "remoteEof s" and "\<not> localEof s"
    and "consecutiveErrors s \<le> 5" and "\<not> localShutdownSent s" and "0 \<le> localSocket s"
    and "toRemote s = Some qr" and "ringEmpty R qr" and "toLocal s = Some ql" and "\<not> ringEmpty R ql"
    and "now - lastActivity s \<le> HALF_CLOSE_TIMEOUT_MS"
  shows "considerClose R N now i p =
     onSlot i (\<lambda>s. s\<lparr>localShutdownSent := True\<rparr>) (onMgr (act (n_shutdown N (localSocket s))) p)"
proof -
  have "\<not> HALF_CLOSE_TIMEOUT_MS < now - lastActivity s" "\<not> 30000 < now - lastActivity s"
    using assms(14) by (auto simp: HALF_CLOSE_TIMEOUT_MS_def word_le_nat_alt word_less_nat_alt)
  then show ?thesis using assms by (simp add: considerClose_def idleClose_def Let_def)
qed

end
