(* ===== verification/Tunnel_Close.thy ===== *)
theory Tunnel_Close
  imports Tunnel_Stream
begin

text \<open>
  A channel that cannot be closed does not keep its slot: past the hard deadline it is abandoned.  Also the
  concrete tunnel at which the hypotheses of the properties hold.
\<close>

section \<open>A phase touches only its slot\<close>

lemma beginClose_other: "j \<noteq> i \<Longrightarrow> slots (beginClose N j reason m) ! i = slots m ! i"
  by (simp add: beginClose_def Let_def case_prod_beta)

lemma abandonSlot_other: "j \<noteq> i \<Longrightarrow> slots (abandonSlot N j m) ! i = slots m ! i"
  by (simp add: abandonSlot_def closeSocket_def Let_def)

lemma closeSshChannel_other:
  assumes "j \<noteq> i"
  shows "slots (snd (closeSshChannel N j c m)) ! i = slots m ! i"
proof -
  obtain closed m2 where r1: "(if closeComplete (sshCloseProgress (slots m ! j)) then (True, m)
      else case ask (ch_close N c) m of (rc, m1) \<Rightarrow>
        (case recordCloseResult rc LIBSSH2_ERROR_EAGAIN (sshCloseProgress (slots m1 ! j)) of (ok, p) \<Rightarrow>
           (ok, updSlot j (\<lambda>s. s\<lparr>sshCloseProgress := p\<rparr>) m1))) = (closed, m2)" (is "?r1 = _") by (cases ?r1)
  obtain freed m4 where r2: "(if readyForFree (sshCloseProgress (slots m2 ! j))
      then (case ask (ch_free N c) m2 of (rc, m3) \<Rightarrow>
        (case recordFreeResult rc LIBSSH2_ERROR_EAGAIN (sshCloseProgress (slots m3 ! j)) of (ok, p) \<Rightarrow>
           (ok, updSlot j (\<lambda>s. s\<lparr>sshCloseProgress := p\<rparr>) m3)))
      else (True, m2)) = (freed, m4)" (is "?r2 = _") by (cases ?r2)
  have "slots (snd ?r1) ! i = slots m ! i" "slots (snd ?r2) ! i = slots m2 ! i" using assms by (simp_all add: case_prod_beta)
  then have "slots m4 ! i = slots m ! i" "slots m2 ! i = slots m ! i" unfolding r1 r2 by simp_all
  then show ?thesis unfolding closeSshChannel_def r1 prod.case r2 using assms by simp
qed

lemma finalizeClose_other: "j \<noteq> i \<Longrightarrow> slots (snd (finalizeClose N j m)) ! i = slots m ! i"
  by (simp add: finalizeClose_def closeSocket_def Let_def case_prod_beta closeSshChannel_other split: option.split)

lemma considerClose_other: "j \<noteq> i \<Longrightarrow> slotOf (considerClose R N now j p) i = slotOf p i"
  by (simp add: considerClose_def idleClose_def Let_def beginClose_other)

lemma considerClose_draining: "slotState (slotOf p i) = Draining \<Longrightarrow> considerClose R N now i p = p"
  by (simp add: considerClose_def)

lemma considerClose_fold:
  "slotState (slotOf p i) = Draining \<Longrightarrow> slotOf (fold (considerClose R N now) xs p) i = slotOf p i"
proof (induction xs arbitrary: p)
  case (Cons j xs)
  show ?case
  proof (cases "j = i")
    case True
    then show ?thesis using Cons by (simp add: considerClose_draining)
  next
    case False
    then show ?thesis using Cons.IH [of "considerClose R N now j p"] Cons.prems by (simp add: considerClose_other)
  qed
qed simp

lemma hardAbandon_other: "j \<noteq> i \<Longrightarrow> slotOf (hardAbandon N j p) i = slotOf p i"
  by (simp add: hardAbandon_def pushEvent_def abandonSlot_other)

lemma checkDraining_other: "j \<noteq> i \<Longrightarrow> slotOf (snd (snd (checkDraining R N now k j st))) i = slotOf (snd (snd st)) i"
  by (cases st) (simp add: checkDraining_def Let_def hardAbandon_other)

lemma flushReads_other: "j \<noteq> i \<Longrightarrow> slotOf (flushReads R N j c k p) i = slotOf p i"
  by (induction k arbitrary: p) (simp_all add: Let_def case_prod_beta split: option.split)

lemma sendEof_other: "j \<noteq> i \<Longrightarrow> slotOf (sendEof R N j p) i = slotOf p i"
  by (simp add: sendEof_def case_prod_beta flushReads_other split: option.split)

lemma closeSlot_other: "j \<noteq> i \<Longrightarrow> slotOf (closeSlot N j p) i = slotOf p i"
  by (simp add: closeSlot_def Let_def case_prod_beta pushEvent_def finalizeClose_other)

section \<open>The hard deadline\<close>

text \<open>A slot that was given up: inactive and without channel, with the session marked as degraded.\<close>

definition givenUp :: "nat \<Rightarrow> ('r, 'w) TransportPump \<Rightarrow> bool" where
  "givenUp i p \<longleftrightarrow> \<not> active (slotOf p i) \<and> sshChannel (slotOf p i) = None \<and> sessionDegraded p"

lemma hardAbandon_gives_up:
  assumes "i < slotCount p" and "active (slotOf p i)"
  shows "givenUp i (hardAbandon N i p)"
  using assms
  by (simp add: givenUp_def hardAbandon_def pushEvent_def abandonSlot_def Let_def closeSocket_def maxSlots_def resetSlot_def
      newSlot_def)

lemma degraded_simps [simp]:
  "sessionDegraded (snd (query f p)) = sessionDegraded p" "sessionDegraded (onSlot i g p) = sessionDegraded p"
  "sessionDegraded (onMgr h p) = sessionDegraded p" "sessionDegraded (pushEvent i r p) = sessionDegraded p"
  "sessionDegraded (snd (readChannel N c k p)) = sessionDegraded p"
  by (simp_all add: query_def case_prod_beta onSlot_def onMgr_def pushEvent_def readChannel_def)

lemma checkDraining_stays: "givenUp i (snd (snd st)) \<Longrightarrow> givenUp i (snd (snd (checkDraining R N now k j st)))"
proof (cases "j = i")
  case True
  then show "givenUp i (snd (snd st)) \<Longrightarrow> ?thesis" by (cases st) (simp add: givenUp_def checkDraining_def Let_def)
next
  case False
  moreover have "sessionDegraded (snd (snd st)) \<Longrightarrow> sessionDegraded (snd (snd (checkDraining R N now k j st)))"
    by (cases st) (simp add: checkDraining_def Let_def hardAbandon_def)
  ultimately show "givenUp i (snd (snd st)) \<Longrightarrow> ?thesis" by (simp add: givenUp_def checkDraining_other)
qed

lemma flushReads_degraded: "sessionDegraded (flushReads R N j c k p) = sessionDegraded p"
  by (induction k arbitrary: p) (simp_all add: Let_def case_prod_beta split: option.split)

lemma sendEof_stays: "givenUp i p \<Longrightarrow> givenUp i (sendEof R N j p)"
proof (cases "j = i")
  case False
  moreover have "sessionDegraded (sendEof R N j p) = sessionDegraded p"
    by (simp add: sendEof_def case_prod_beta flushReads_degraded split: option.split)
  ultimately show "givenUp i p \<Longrightarrow> ?thesis" by (simp add: givenUp_def sendEof_other)
qed (simp add: givenUp_def sendEof_def)

lemma closeSlot_stays: "givenUp i p \<Longrightarrow> givenUp i (closeSlot N j p)"
proof (cases "j = i")
  case True
  then show "givenUp i p \<Longrightarrow> ?thesis" by (simp add: givenUp_def closeSlot_def finalizeClose_def Let_def pushEvent_def)
next
  case False
  moreover have "sessionDegraded (closeSlot N j p) = sessionDegraded p" by (simp add: closeSlot_def Let_def case_prod_beta)
  ultimately show "givenUp i p \<Longrightarrow> ?thesis" by (simp add: givenUp_def closeSlot_other)
qed

lemma fold_stays:
  assumes "\<And>j p. givenUp i p \<Longrightarrow> givenUp i (f j p)" and "givenUp i p"
  shows "givenUp i (fold f xs p)"
  using assms(2) by (induction xs arbitrary: p) (simp_all add: assms(1))

lemma lockedStage_stays:
  assumes "\<And>j p. givenUp i p \<Longrightarrow> givenUp i (f j p)" and "givenUp i p"
  shows "givenUp i (lockedStage N wait f xs p)"
proof -
  have q: "givenUp i (snd (query g x)) = givenUp i x" "givenUp i (onMgr (act h) x) = givenUp i x" for g h and x :: "('a, 'b) TransportPump"
    by (simp_all add: givenUp_def)
  show ?thesis using fold_stays [of i f] assms by (simp add: lockedStage_def case_prod_beta q)
qed

lemma checkDraining_fold_stays:
  "givenUp i (snd (snd st)) \<Longrightarrow> givenUp i (snd (snd (fold (checkDraining R N now k) xs st)))"
  by (induction xs arbitrary: st) (simp_all add: checkDraining_stays)

lemma checkDraining_fold:
  assumes "i \<in> set xs" and "i < slotCount (snd (snd st))" and "active (slotOf (snd (snd st)) i)"
    and "slotState (slotOf (snd (snd st)) i) = Draining"
    and "HARD_ABANDON_TIMEOUT_MS < now - closeStartMs (slotOf (snd (snd st)) i)"
  shows "givenUp i (snd (snd (fold (checkDraining R N now k) xs st)))"
  using assms
proof (induction xs arbitrary: st)
  case (Cons j xs)
  let ?st = "checkDraining R N now k j st"
  show ?case
  proof (cases "j = i")
    case True
    then have "givenUp i (snd (snd ?st))"
      using Cons.prems by (cases st) (simp add: checkDraining_def Let_def hardAbandon_gives_up)
    then show ?thesis by (simp add: checkDraining_fold_stays)
  next
    case False
    have "slotCount (snd (snd ?st)) = slotCount (snd (snd st))"
      by (cases st) (simp add: checkDraining_def Let_def hardAbandon_def pushEvent_def)
    then show ?thesis using Cons.IH [of ?st] Cons.prems False by (simp add: checkDraining_other)
  qed
qed simp

text \<open>
  C34.  A channel cannot stay in draining for ever: once the clock shows more than 30 seconds since its closing
  began, the next pass of \<open>checkCloses\<close> frees the slot, whatever libssh2, the sockets and the session lock
  answer, and marks the session as degraded.
\<close>

theorem draining_is_bounded:
  assumes "i < length (slots (channels p))" and "active (slots (channels p) ! i)"
    and "slotState (slots (channels p) ! i) = Draining"
    and "\<forall>w. HARD_ABANDON_TIMEOUT_MS < fst (millis N w) - closeStartMs (slots (channels p) ! i)"
  shows "\<not> active (slots (channels (checkCloses R N p)) ! i) \<and> sessionDegraded (checkCloses R N p)"
proof -
  define n where "n = maxSlots (channels p)"
  define p2 where "p2 = fold (considerClose R N (fst (query (millis N) p))) [0..<n] (snd (query (millis N) p))"
  define st where "st = fold (checkDraining R N (fst (query (millis N) p2)) (if n < 32 then n else 32)) [0..<n]
      ([], [], snd (query (millis N) p2))"
  have s2: "slotOf p2 i = slotOf p i" unfolding p2_def by (subst considerClose_fold) (use assms(3) in simp_all)
  have len: "slotCount (fold (considerClose R N t) xs x) = slotCount x" for t xs and x :: "('a, 'b) TransportPump"
    by (induction xs arbitrary: x) (simp_all add: considerClose_def idleClose_def Let_def)
  have c2: "slotCount p2 = slotCount p" unfolding p2_def by (simp add: len)
  have "givenUp i (snd (snd st))" unfolding st_def
    by (rule checkDraining_fold) (use assms s2 c2 in \<open>simp_all add: n_def maxSlots_def\<close>)
  moreover have "checkCloses R N p =
      lockedStage N 200 (closeSlot N) (fst (snd st)) (lockedStage N 100 (sendEof R N) (fst st) (snd (snd st)))"
    by (simp add: checkCloses_def Let_def n_def case_prod_beta p2_def st_def)
  ultimately have "givenUp i (checkCloses R N p)"
    by (auto intro!: lockedStage_stays sendEof_stays closeSlot_stays)
  then show ?thesis by (simp add: givenUp_def)
qed

section \<open>A tunnel\<close>

text \<open>
  An outside that takes at most two bytes at a time: the clock, the bytes each local socket got, the bytes each
  channel got, and the byte that every read of a channel yields.
\<close>

record DemoWorld =
  dw_clock :: u32
  dw_out :: "int \<Rightarrow> bytes"
  dw_ssh :: "nat \<Rightarrow> bytes"

definition demoNet :: "(ring, DemoWorld) Net" where
  "demoNet = \<lparr>
     millis = (\<lambda>w. (dw_clock w, w)), n_socket = (\<lambda>w. (3, w)), n_inet_pton = (\<lambda>_. True), n_getfl = (\<lambda>_ w. (0, w)),
     n_setfl = (\<lambda>_ _ w. (0, w)), n_connect = (\<lambda>_ _ _ w. ((0, False), w)), n_select = (\<lambda>_ w. ((1, True), w)),
     n_sockerr = (\<lambda>_ w. ((0, 0), w)), n_optimize = (\<lambda>_ w. w), n_close = (\<lambda>_ w. w),
     n_send = (\<lambda>fd d w. ((int (min 2 (length d)), True), w\<lparr>dw_out := (dw_out w)(fd := dw_out w fd @ take 2 d)\<rparr>)),
     n_recv = (\<lambda>_ _ w. ((- 1, [], True), w)), n_shutdown = (\<lambda>_ w. w), ch_close = (\<lambda>_ w. (0, w)), ch_free = (\<lambda>_ w. (0, w)),
     ch_set_nonblocking = (\<lambda>_ w. w), ch_read = (\<lambda>_ _ w. ((1, [42]), w)),
     ch_write = (\<lambda>c d w. (int (min 2 (length d)), w\<lparr>dw_ssh := (dw_ssh w)(c := dw_ssh w c @ take 2 d)\<rparr>)),
     ch_eof = (\<lambda>_ w. (False, w)), ch_send_eof = (\<lambda>_ w. (0, w)), s_lock = (\<lambda>_ w. (True, w)), s_unlock = (\<lambda>w. w),
     h_largest_psram = (\<lambda>_. 1000000), h_largest_heap = (\<lambda>_. 1000000),
     r_create = (\<lambda>n w. ((Some (0, n, []), Some (replicate PREPEND_CAP 0)), w))\<rparr>"

interpretation demo: tunnel_ends arrayRing "\<lambda>(pos, free, xs). xs" "\<lambda>(pos, free, xs). free + length xs" demoNet dw_out dw_ssh
  by unfold_locales (auto simp: demoNet_def min_def)

definition demoQueue :: "bytes \<Rightarrow> nat \<Rightarrow> ring DataRingBuffer" where
  "demoQueue xs n = \<lparr>handle = Some (0, n - length xs, xs), rb_capacity = n,
     prepend = \<lparr>pb_buf = Some (replicate PREPEND_CAP 0), pb_cap = PREPEND_CAP, pb_len = 0, pb_off = 0\<rparr>\<rparr>"

definition demoSlot :: "nat \<Rightarrow> ring ChannelSlot" where
  "demoSlot n = newSlot\<lparr>sshChannel := Some 7, localSocket := 3, active := True, slotState := SlotOpen,
     toLocal := Some (demoQueue [1, 2, 3, 4, 5] n), toRemote := Some (demoQueue [6, 7, 8] n)\<rparr>"

definition demoPump :: "ring ChannelSlot \<Rightarrow> u32 \<Rightarrow> (ring, DemoWorld) TransportPump" where
  "demoPump s clock = \<lparr>channels = \<lparr>slots = [s], activeCount = 1, ringBufferSize = 8, breaker = newBreaker,
       net = \<lparr>dw_clock = clock, dw_out = (\<lambda>_. []), dw_ssh = (\<lambda>_. [])\<rparr>\<rparr>,
     bufSize = 4, roundRobinOffset = 0, lastBytesMoved = 0, pendingCloseEvents = [], sessionDegraded = False\<rparr>"

lemma demoQueue_inOrder: "length xs \<le> n \<Longrightarrow> inOrder (\<lambda>(pos, free, xs). free + length xs) k (demoQueue xs n)"
  by (simp add: inOrder_def good_def prepend_ok_def demoQueue_def prependPending_def)

abbreviation ringBytes :: "ring \<Rightarrow> bytes" where
  "ringBytes \<equiv> (\<lambda>(pos, free, xs). xs)"

lemma demoPump_simps:
  "slots (channels (demoPump s t)) = [s]" "bufSize (demoPump s t) = 4" "dw_out (world (demoPump s t)) fd = []"
  "dw_ssh (world (demoPump s t)) c = []" "toLocal (demoSlot n) = Some (demoQueue [1, 2, 3, 4, 5] n)"
  "toRemote (demoSlot n) = Some (demoQueue [6, 7, 8] n)" "localSocket (demoSlot n) = 3"
  "bytesOf ringBytes (demoQueue xs n) = xs"
  by (simp_all add: demoPump_def demoSlot_def world_def demoQueue_def bytesOf_def pendingBytes_def)

theorem tunnel_keeps_order_witness:
  "\<exists>q'. dw_out (world (drainChunks arrayRing demoNet 0 4 (demoPump (demoSlot 8) 5))) 3 @
     bytesOf ringBytes q' = [1, 2, 3, 4, 5]"
proof -
  let ?p = "demoPump (demoSlot 8) 5"
  have "\<not> hardFailure demoNet 3" by (simp add: hardFailure_def demoNet_def)
  then have "\<exists>q'. dw_out (world (drainChunks arrayRing demoNet 0 4 ?p)) 3 @ bytesOf ringBytes q' =
      dw_out (world ?p) 3 @ bytesOf ringBytes (demoQueue [1, 2, 3, 4, 5] 8)"
    using tunnel_keeps_order [OF demo.tunnel_ends_axioms, of 0 ?p "demoQueue [1, 2, 3, 4, 5] 8" "demoQueue [6, 7, 8] 8" 3 4 7]
    by (simp only: demoPump_simps) (auto simp: demoPump_simps demoQueue_inOrder PREPEND_CAP_def simp del: drainChunks.simps)
  then show ?thesis by (simp only: demoPump_simps append_Nil)
qed

theorem full_queue_drops_byte_witness:
  "slots (channels (pumpSshTransport arrayRing demoNet (demoPump ((demoSlot 5)\<lparr>sshReadPaused := True\<rparr>) 5))) =
     [(demoSlot 5)\<lparr>sshReadPaused := True\<rparr>]"
  using full_queue_drops_byte [of "demoPump ((demoSlot 5)\<lparr>sshReadPaused := True\<rparr>) 5" "(demoSlot 5)\<lparr>sshReadPaused := True\<rparr>" 7
      "demoQueue [1, 2, 3, 4, 5] 5" arrayRing demoNet "world (demoPump ((demoSlot 5)\<lparr>sshReadPaused := True\<rparr>) 5)" 42
      "world (demoPump ((demoSlot 5)\<lparr>sshReadPaused := True\<rparr>) 5)"]
  by (simp add: demoPump_def demoSlot_def newSlot_def demoQueue_def demoNet_def arrayRing_def ringAvailable_def ringSize_def
      BACKPRESSURE_LOW_PCT_def prependPending_def world_def)

theorem draining_is_bounded_witness:
  "\<not> active (slots (channels (checkCloses arrayRing (demoNet\<lparr>millis := \<lambda>w. (30101, w)\<rparr>)
       (demoPump ((demoSlot 8)\<lparr>slotState := Draining, closeStartMs := 100\<rparr>) 5))) ! 0)"
  using draining_is_bounded [of 0 "demoPump ((demoSlot 8)\<lparr>slotState := Draining, closeStartMs := 100\<rparr>) 5"
      "demoNet\<lparr>millis := \<lambda>w. (30101, w)\<rparr>" arrayRing]
  by (simp add: demoPump_simps HARD_ABANDON_TIMEOUT_MS_def) (simp add: demoSlot_def)

theorem channel_table_invariant_witness:
  "activeCount (channels (snd (pumpAll arrayRing demoNet (demoPump (demoSlot 8) 5)))) =
     int (length (filter active (slots (channels (snd (pumpAll arrayRing demoNet (demoPump (demoSlot 8) 5)))))))"
proof -
  let ?p = "demoPump (demoSlot 8) 5"
  have "channels_ok (channels ?p)" by (simp add: channels_ok_def slot_ok_def demoPump_def demoSlot_def newSlot_def)
  moreover have "(tunnel_step arrayRing)\<^sup>*\<^sup>* ?p (snd (pumpAll arrayRing demoNet ?p))"
    by (rule r_into_rtranclp, rule step_pump) (simp add: demoPump_def)
  ultimately show ?thesis using channel_table_invariant by blast
qed

end
