(* ===== verification/Chacha.thy ===== *)
theory Chacha
  imports Prelude
begin

text \<open>
  The stream cipher ChaCha20 of the SSH library,
  \<open>src/experimental_libs/OrangeBoxLibssh2Esp/src/chacha.c\<close>: on 32-bit words, as written.  The context is the array
  of sixteen input words.  The stack array \<open>tmp\<close> of the last, partial block is not initialised: its contents
  are an argument.
\<close>

section \<open>The code\<close>

definition ROTL32 :: "u32 \<Rightarrow> nat \<Rightarrow> u32" where
  "ROTL32 v n = push_bit n v OR drop_bit (32 - n) v"

definition U8TO32_LITTLE :: "bytes \<Rightarrow> u32" where
  "U8TO32_LITTLE p =
     ucast (p ! 0) OR push_bit 8 (ucast (p ! 1)) OR push_bit 16 (ucast (p ! 2)) OR push_bit 24 (ucast (p ! 3))"

definition U32TO8_LITTLE :: "u32 \<Rightarrow> bytes" where
  "U32TO8_LITTLE v = [ucast v, ucast (drop_bit 8 v), ucast (drop_bit 16 v), ucast (drop_bit 24 v)]"

text \<open>\<open>QUARTERROUND\<close> on four of the sixteen variables.\<close>

definition QUARTERROUND :: "nat \<Rightarrow> nat \<Rightarrow> nat \<Rightarrow> nat \<Rightarrow> u32 list \<Rightarrow> u32 list" where
  "QUARTERROUND ia ib ic ie xs =
     (let a = xs ! ia; b = xs ! ib; c = xs ! ic; d = xs ! ie;
          a = a + b; d = ROTL32 (d XOR a) 16;
          c = c + d; b = ROTL32 (b XOR c) 12;
          a = a + b; d = ROTL32 (d XOR a) 8;
          c = c + d; b = ROTL32 (b XOR c) 7
      in xs[ia := a, ib := b, ic := c, ie := d])"

definition doubleRound :: "u32 list \<Rightarrow> u32 list" where
  "doubleRound xs =
     QUARTERROUND 3 4 9 14 (QUARTERROUND 2 7 8 13 (QUARTERROUND 1 6 11 12 (QUARTERROUND 0 5 10 15
       (QUARTERROUND 3 7 11 15 (QUARTERROUND 2 6 10 14 (QUARTERROUND 1 5 9 13 (QUARTERROUND 0 4 8 12 xs)))))))"

definition sigma :: bytes where
  "sigma = map of_char ''expand 32-byte k''"

definition tau :: bytes where
  "tau = map of_char ''expand 16-byte k''"

definition chacha_keysetup :: "bytes \<Rightarrow> nat \<Rightarrow> u32 list \<Rightarrow> u32 list" where
  "chacha_keysetup k kbits x =
     (let word = (\<lambda>p i. U8TO32_LITTLE (drop i p));
          k2 = (if kbits = 256 then drop 16 k else k);
          constants = (if kbits = 256 then sigma else tau)
      in map (word constants) [0, 4, 8, 12] @ map (word k) [0, 4, 8, 12] @ map (word k2) [0, 4, 8, 12] @ drop 12 x)"

definition chacha_ivsetup :: "bytes \<Rightarrow> bytes option \<Rightarrow> u32 list \<Rightarrow> u32 list" where
  "chacha_ivsetup iv counter x =
     take 12 x @
     (case counter of None \<Rightarrow> [0, 0] | Some c \<Rightarrow> [U8TO32_LITTLE (drop 0 c), U8TO32_LITTLE (drop 4 c)]) @
     [U8TO32_LITTLE (drop 0 iv), U8TO32_LITTLE (drop 4 iv)]"

text \<open>One block of 64 bytes: twenty rounds, the feed-forward, the message words, the output bytes.\<close>

definition chacha_block :: "u32 list \<Rightarrow> bytes \<Rightarrow> bytes" where
  "chacha_block j m =
     (let x = map2 (+) ((doubleRound ^^ 10) j) j;
          x = map2 (XOR) x (map (\<lambda>i. U8TO32_LITTLE (drop (4 * i) m)) [0..<16])
      in concat (map U32TO8_LITTLE x))"

definition nextCounter :: "u32 list \<Rightarrow> u32 list" where
  "nextCounter j =
     (let j12 = j ! 12 + 1; j13 = (if j12 = 0 then j ! 13 + 1 else j ! 13)
      in j[12 := j12, 13 := j13])"

function chacha_loop :: "bytes \<Rightarrow> u32 list \<Rightarrow> bytes \<Rightarrow> bytes \<times> u32 list" where
  "chacha_loop tmp j m =
     (let m' = (if length m < 64 then m @ drop (length m) tmp else m);
          c = chacha_block j m';
          j' = nextCounter j
      in if length m \<le> 64 then (take (length m) c, j')
         else case chacha_loop tmp j' (drop 64 m) of (rest, j'') \<Rightarrow> (c @ rest, j''))"
  by auto
termination by (relation "measure (\<lambda>(tmp, j, m). length m)") auto

declare chacha_loop.simps [simp del]

text \<open>The output and the context afterwards, in which only the counter has changed.\<close>

definition chacha_encrypt_bytes :: "bytes \<Rightarrow> u32 list \<Rightarrow> bytes \<Rightarrow> bytes \<times> u32 list" where
  "chacha_encrypt_bytes tmp x m =
     (if m = [] then ([], x)
      else case chacha_loop tmp x m of (c, j) \<Rightarrow> (c, x[12 := j ! 12, 13 := j ! 13]))"

section \<open>Counter mode, the reference\<close>

text \<open>
  What the cipher is meant to be: the words 12 and 13 are one 64-bit counter, block number \<open>i\<close> of the key
  stream is the block function at the counter plus \<open>i\<close>, and the key stream is added to the message.
\<close>

definition keyBlock :: "u32 list \<Rightarrow> bytes" where
  "keyBlock j = concat (map U32TO8_LITTLE (map2 (+) ((doubleRound ^^ 10) j) j))"

definition blockCounter :: "u32 list \<Rightarrow> u64" where
  "blockCounter j = ucast (j ! 12) OR push_bit 32 (ucast (j ! 13))"

definition setCounter :: "u32 list \<Rightarrow> u64 \<Rightarrow> u32 list" where
  "setCounter j n = j[12 := ucast n, 13 := ucast (drop_bit 32 n)]"

definition keystream :: "u32 list \<Rightarrow> nat \<Rightarrow> bytes" where
  "keystream j n =
     take n (concat (map (\<lambda>i. keyBlock (setCounter j (blockCounter j + of_nat i))) [0..<(n + 63) div 64]))"

section \<open>Lengths\<close>

lemma length_QUARTERROUND [simp]: "length (QUARTERROUND a b c d xs) = length xs"
  by (simp add: QUARTERROUND_def Let_def)

lemma length_doubleRound [simp]: "length (doubleRound xs) = length xs"
  by (simp add: doubleRound_def)

lemma length_doubleRounds [simp]: "length ((doubleRound ^^ n) xs) = length xs"
  by (induction n) simp_all

lemma length_U32TO8_LITTLE [simp]: "length (U32TO8_LITTLE v) = 4"
  by (simp add: U32TO8_LITTLE_def)

lemma length_concat_U32TO8 [simp]: "length (concat (map U32TO8_LITTLE xs)) = 4 * length xs"
  by (induction xs) simp_all

lemma length_keyBlock [simp]: "length (keyBlock j) = 4 * length j"
  unfolding keyBlock_def length_concat_U32TO8 by simp

lemma length_nextCounter [simp]: "length (nextCounter j) = length j"
  by (simp add: nextCounter_def Let_def)

lemma length_setCounter [simp]: "length (setCounter j n) = length j"
  by (simp add: setCounter_def)

lemma length_chacha_ivsetup [simp]: "length x = 16 \<Longrightarrow> length (chacha_ivsetup iv counter x) = 16"
  by (simp add: chacha_ivsetup_def split: option.split)

lemma length_chacha_keysetup [simp]: "length x = 16 \<Longrightarrow> length (chacha_keysetup k kbits x) = 16"
  by (simp add: chacha_keysetup_def Let_def)

section \<open>A block is the key block added to the message\<close>

lemma U32TO8_xor:
  "U32TO8_LITTLE (x XOR U8TO32_LITTLE [a, b, c, d]) = map2 (XOR) (U32TO8_LITTLE x) [a, b, c, d]"
  unfolding U32TO8_LITTLE_def U8TO32_LITTLE_def
  by (simp add: bit_eq_iff bit_simps) (auto dest: bit_imp_le_length)

lemma drop_four: "drop (4 + k) (a # b # c # d # xs) = drop k xs"
  by (simp add: eval_nat_numeral)

lemma words_xor:
  assumes "length m = 4 * length xs"
  shows "concat (map U32TO8_LITTLE (map2 (XOR) xs (map (\<lambda>i. U8TO32_LITTLE (drop (4 * i) m)) [0..<length xs])))
       = map2 (XOR) (concat (map U32TO8_LITTLE xs)) m"
  using assms
proof (induction xs arbitrary: m)
  case Nil
  then show ?case by simp
next
  case (Cons x xs)
  from Cons.prems have "length m = Suc (Suc (Suc (Suc (4 * length xs))))" by simp
  then obtain a b c d m' where m: "m = a # b # c # d # m'"
    unfolding length_Suc_conv by blast
  with Cons.prems have "length m' = 4 * length xs" by simp
  note IH = Cons.IH [OF this]
  have indices: "[0..<length (x # xs)] = 0 # map Suc [0..<length xs]"
    by (simp add: map_Suc_upt upt_conv_Cons del: upt_Suc)
  have shift: "map (\<lambda>i. U8TO32_LITTLE (drop (4 * i) m)) [0..<length (x # xs)]
      = U8TO32_LITTLE [a, b, c, d] # map (\<lambda>i. U8TO32_LITTLE (drop (4 * i) m')) [0..<length xs]"
    unfolding indices by (simp add: m drop_four U8TO32_LITTLE_def)
  have "concat (map U32TO8_LITTLE (map2 (XOR) (x # xs)
         (map (\<lambda>i. U8TO32_LITTLE (drop (4 * i) m)) [0..<length (x # xs)])))
      = U32TO8_LITTLE (x XOR U8TO32_LITTLE [a, b, c, d]) @ map2 (XOR) (concat (map U32TO8_LITTLE xs)) m'"
    unfolding shift IH [symmetric] by simp
  also have "\<dots> = map2 (XOR) (U32TO8_LITTLE x @ concat (map U32TO8_LITTLE xs)) ([a, b, c, d] @ m')"
    unfolding U32TO8_xor by (simp add: U32TO8_LITTLE_def)
  finally show ?case by (simp add: m)
qed

lemma chacha_block_xor:
  assumes "length j = 16" "length m = 64"
  shows "chacha_block j m = map2 (XOR) (keyBlock j) m"
  using words_xor [of m "map2 (+) ((doubleRound ^^ 10) j) j"] assms
  by (simp add: chacha_block_def keyBlock_def Let_def del: map_map)

lemma chacha_block_take:
  assumes "64 \<le> length m"
  shows "chacha_block j m = chacha_block j (take 64 m)"
proof -
  have "U8TO32_LITTLE (drop (4 * i) m) = U8TO32_LITTLE (drop (4 * i) (take 64 m))" if "i < 16" for i
    using assms that by (simp add: U8TO32_LITTLE_def)
  then have "map (\<lambda>i. U8TO32_LITTLE (drop (4 * i) m)) [0..<16]
      = map (\<lambda>i. U8TO32_LITTLE (drop (4 * i) (take 64 m))) [0..<16]"
    by (intro map_cong refl) (simp del: drop_take)
  then show ?thesis unfolding chacha_block_def by presburger
qed

section \<open>The two counter words count as one\<close>

lemma unat_low_half: "unat (ucast (n :: u64) :: u32) = unat n mod 2 ^ 32"
  by (simp add: unsigned_ucast_eq take_bit_eq_mod)

lemma carry_div:
  fixes n B :: nat
  assumes "n < B * B"
  shows "Suc n mod (B * B) div B = (if Suc n mod B = 0 then Suc (n div B) mod B else n div B)"
proof -
  have pos: "0 < B" using assms by (cases B) auto
  have "n div B < B" using assms by (rule less_mult_imp_div_less)
  then show ?thesis
    using pos by (simp add: mod_mult2_eq div_Suc)
qed

lemma low_half_carry:
  "ucast (n + 1 :: u64) = (ucast n + 1 :: u32)"
  "ucast (drop_bit 32 (n + 1 :: u64)) =
     (if (ucast n + 1 :: u32) = 0 then ucast (drop_bit 32 n) + 1 else (ucast (drop_bit 32 n) :: u32))"
proof -
  have bound: "unat n < 2 ^ 64" using unsigned_less [of n] by simp
  show low: "ucast (n + 1 :: u64) = (ucast n + 1 :: u32)"
    by (simp add: word_unat_eq_iff unat_word_ariths unat_low_half mod_simps mod_mod_cancel)
  have full: "unat (n + 1) = (unat n + 1) mod 2 ^ 64"
    by (simp add: unat_word_ariths)
  have lowz: "(ucast n + 1 :: u32) = 0 \<longleftrightarrow> (unat n + 1) mod 2 ^ 32 = 0"
    by (simp add: word_unat_eq_iff unat_word_ariths unat_low_half mod_simps)
  show "ucast (drop_bit 32 (n + 1 :: u64)) =
     (if (ucast n + 1 :: u32) = 0 then ucast (drop_bit 32 n) + 1 else (ucast (drop_bit 32 n) :: u32))"
    unfolding lowz using carry_div [of "unat n" "2 ^ 32"] bound
    by (simp add: word_unat_eq_iff unat_word_ariths unat_low_half unat_drop_bit_eq drop_bit_eq_div full mod_simps)
qed

lemma nextCounter_set:
  assumes "length j = 16"
  shows "nextCounter (setCounter j n) = setCounter j (n + 1)"
  using assms by (simp add: nextCounter_def setCounter_def low_half_carry Let_def list_update_swap)

lemma setCounter_self:
  assumes "length j = 16"
  shows "setCounter j (blockCounter j) = j"
proof -
  have "ucast (blockCounter j) = j ! 12" "ucast (drop_bit 32 (blockCounter j)) = j ! 13"
    unfolding blockCounter_def by (auto simp: bit_eq_iff bit_simps dest: bit_imp_le_length)
  then show ?thesis by (simp add: setCounter_def)
qed

section \<open>The loop is counter mode\<close>

definition keystreamFrom :: "u32 list \<Rightarrow> u64 \<Rightarrow> nat \<Rightarrow> bytes" where
  "keystreamFrom j c n =
     take n (concat (map (\<lambda>i. keyBlock (setCounter j (c + of_nat i))) [0..<(n + 63) div 64]))"

lemma blocks_one: "0 < n \<Longrightarrow> n \<le> 64 \<Longrightarrow> (n + 63) div 64 = (1 :: nat)"
  by (simp add: div_nat_eqI)

lemma keystreamFrom_small:
  assumes "0 < n" "n \<le> 64"
  shows "keystreamFrom j c n = take n (keyBlock (setCounter j c))"
  by (simp add: keystreamFrom_def blocks_one assms)

lemma blocks_step: "64 < n \<Longrightarrow> (n + 63) div 64 = Suc ((n - 64 + 63) div 64)"
  by (simp add: div_if [of "n + 63"])

lemma keystreamFrom_large:
  assumes "64 < n" "length j = 16"
  shows "keystreamFrom j c n = keyBlock (setCounter j c) @ keystreamFrom j (c + 1) (n - 64)"
proof -
  have "[0..<(n + 63) div 64] = 0 # map Suc [0..<(n - 64 + 63) div 64]"
    unfolding blocks_step [OF assms(1)] by (simp add: map_Suc_upt upt_conv_Cons del: upt_Suc)
  then show ?thesis
    unfolding keystreamFrom_def using assms by (simp add: comp_def algebra_simps)
qed

lemma chacha_loop_counter_mode:
  assumes "length j = 16" "length tmp = 64" "m \<noteq> []"
  shows "chacha_loop tmp (setCounter j c) m =
     (map2 (XOR) (keystreamFrom j c (length m)) m, setCounter j (c + of_nat ((length m + 63) div 64)))"
  using assms(3)
proof (induction "length m" arbitrary: m c rule: less_induct)
  case less
  define m' where "m' = (if length m < 64 then m @ drop (length m) tmp else m)"
  have pos: "0 < length m" using less.prems by simp
  note step = chacha_loop.simps [of tmp "setCounter j c" m, folded m'_def]
  show ?case
  proof (cases "length m \<le> 64")
    case True
    then have len: "length m' = 64" by (auto simp: m'_def assms)
    have one: "(length m + 63) div 64 = 1" by (rule blocks_one [OF pos True])
    have "take (length m) (chacha_block (setCounter j c) m')
        = map2 (XOR) (take (length m) (keyBlock (setCounter j c))) m"
      using len True assms by (simp add: chacha_block_xor take_map take_zip m'_def)
    then show ?thesis
      using True pos by (simp add: step one keystreamFrom_small nextCounter_set assms Let_def)
  next
    case False
    have rest: "chacha_loop tmp (setCounter j (c + 1)) (drop 64 m) =
       (map2 (XOR) (keystreamFrom j (c + 1) (length m - 64)) (drop 64 m),
        setCounter j (c + 1 + of_nat ((length m - 64 + 63) div 64)))"
      using less.hyps [of "drop 64 m" "c + 1"] False by simp
    have block: "chacha_block (setCounter j c) m' = chacha_block (setCounter j c) (take 64 m)"
      using False chacha_block_take [of m "setCounter j c"] by (simp add: m'_def)
    have "map2 (XOR) (keyBlock (setCounter j c)) (take 64 m) @
        map2 (XOR) (keystreamFrom j (c + 1) (length m - 64)) (drop 64 m)
      = map2 (XOR) (keyBlock (setCounter j c) @ keystreamFrom j (c + 1) (length m - 64)) (take 64 m @ drop 64 m)"
      using False assms by (subst zip_append) simp_all
    then show ?thesis
      using False assms
      by (simp add: step block rest chacha_block_xor keystreamFrom_large blocks_step nextCounter_set Let_def
          add.assoc)
  qed
qed

text \<open>C29. The cipher is counter mode: on every message the output is the message plus the key stream, whose block
  \<open>i\<close> is the block function at the 64-bit counter plus \<open>i\<close>, the uninitialised buffer of the last block has no
  influence, and the context is left with the counter after the last block.\<close>

theorem chacha_counter_mode:
  assumes "length x = 16" "length tmp = 64"
  shows "chacha_encrypt_bytes tmp x m =
     (map2 (XOR) (keystream x (length m)) m,
      setCounter x (blockCounter x + of_nat ((length m + 63) div 64)))"
proof (cases "m = []")
  case True
  then show ?thesis by (simp add: chacha_encrypt_bytes_def setCounter_self assms)
next
  case False
  have ks: "keystreamFrom x (blockCounter x) (length m) = keystream x (length m)"
    by (simp add: keystreamFrom_def keystream_def)
  have "x[12 := setCounter x n ! 12, 13 := setCounter x n ! 13] = setCounter x n" for n
    using assms by (simp add: setCounter_def)
  then show ?thesis
    using chacha_loop_counter_mode [OF assms False, of "blockCounter x"] False
    by (simp add: chacha_encrypt_bytes_def setCounter_self assms ks)
qed

end
