(* ===== verification/Poly1305.thy ===== *)
theory Poly1305
  imports Prelude
begin

text \<open>
  The one-time authenticator of the SSH library,
  \<open>src/experimental_libs/OrangeBoxLibssh2Esp/src/poly1305.c\<close>, on 32-bit and 64-bit words as written: a number
  below \<open>2 ^ 130\<close> is held in five limbs of 26 bits.  Its reference is the arithmetic of the authenticator:
  \<open>mac\<close> evaluates the message as a polynomial modulo \<open>2 ^ 130 - 5\<close>.  \<open>Poly_Proof\<close> proves them equal.
\<close>

section \<open>The code\<close>

type_synonym limbs = "u32 \<times> u32 \<times> u32 \<times> u32 \<times> u32"

definition mul32x32_64 :: "u32 \<Rightarrow> u32 \<Rightarrow> u64" where
  "mul32x32_64 a b = ucast a * ucast b"

definition U8TO32_LE :: "bytes \<Rightarrow> u32" where
  "U8TO32_LE p =
     ucast (p ! 0) OR push_bit 8 (ucast (p ! 1)) OR push_bit 16 (ucast (p ! 2)) OR push_bit 24 (ucast (p ! 3))"

definition U32TO8_LE :: "u64 \<Rightarrow> bytes" where
  "U32TO8_LE v = [ucast v, ucast (drop_bit 8 v), ucast (drop_bit 16 v), ucast (drop_bit 24 v)]"

text \<open>The multiplier, its limbs clamped by the masks.\<close>

definition poly_key :: "bytes \<Rightarrow> limbs" where
  "poly_key key =
     (let t0 = U8TO32_LE (drop 0 key); t1 = U8TO32_LE (drop 4 key);
          t2 = U8TO32_LE (drop 8 key); t3 = U8TO32_LE (drop 12 key);
          r0 = t0 AND 0x3ffffff; t0 = drop_bit 26 t0; t0 = t0 OR push_bit 6 t1;
          r1 = t0 AND 0x3ffff03; t1 = drop_bit 20 t1; t1 = t1 OR push_bit 12 t2;
          r2 = t1 AND 0x3ffc0ff; t2 = drop_bit 14 t2; t2 = t2 OR push_bit 18 t3;
          r3 = t2 AND 0x3f03fff; t3 = drop_bit 8 t3;
          r4 = t3 AND 0x00fffff
      in (r0, r1, r2, r3, r4))"

text \<open>Sixteen bytes are added to the accumulator; full blocks set the bit above them.\<close>

definition poly_add :: "bool \<Rightarrow> bytes \<Rightarrow> limbs \<Rightarrow> limbs" where
  "poly_add full m = (\<lambda>(h0, h1, h2, h3, h4).
     let t0 = U8TO32_LE (drop 0 m); t1 = U8TO32_LE (drop 4 m);
         t2 = U8TO32_LE (drop 8 m); t3 = U8TO32_LE (drop 12 m);
         wide = (\<lambda>hi lo. push_bit 32 (ucast hi) OR ucast lo :: u64)
     in (h0 + (t0 AND 0x3ffffff),
         h1 + (ucast (drop_bit 26 (wide t1 t0)) AND 0x3ffffff),
         h2 + (ucast (drop_bit 20 (wide t2 t1)) AND 0x3ffffff),
         h3 + (ucast (drop_bit 14 (wide t3 t2)) AND 0x3ffffff),
         h4 + (if full then drop_bit 8 t3 OR push_bit 24 1 else drop_bit 8 t3)))"

text \<open>Multiplication by the key and the partial reduction, at the label \<open>poly1305_donna_mul\<close>.\<close>

definition poly_mul :: "limbs \<Rightarrow> limbs \<Rightarrow> limbs" where
  "poly_mul r h =
     (let (r0, r1, r2, r3, r4) = r; (h0, h1, h2, h3, h4) = h;
          s1 = r1 * 5; s2 = r2 * 5; s3 = r3 * 5; s4 = r4 * 5;
          t0 = mul32x32_64 h0 r0 + mul32x32_64 h1 s4 + mul32x32_64 h2 s3 + mul32x32_64 h3 s2 + mul32x32_64 h4 s1;
          t1 = mul32x32_64 h0 r1 + mul32x32_64 h1 r0 + mul32x32_64 h2 s4 + mul32x32_64 h3 s3 + mul32x32_64 h4 s2;
          t2 = mul32x32_64 h0 r2 + mul32x32_64 h1 r1 + mul32x32_64 h2 r0 + mul32x32_64 h3 s4 + mul32x32_64 h4 s3;
          t3 = mul32x32_64 h0 r3 + mul32x32_64 h1 r2 + mul32x32_64 h2 r1 + mul32x32_64 h3 r0 + mul32x32_64 h4 s4;
          t4 = mul32x32_64 h0 r4 + mul32x32_64 h1 r3 + mul32x32_64 h2 r2 + mul32x32_64 h3 r1 + mul32x32_64 h4 r0;
          h0 = ucast t0 AND 0x3ffffff; c = drop_bit 26 t0;
          t1 = t1 + c; h1 = ucast t1 AND 0x3ffffff; b = ucast (drop_bit 26 t1) :: u32;
          t2 = t2 + ucast b; h2 = ucast t2 AND 0x3ffffff; b = ucast (drop_bit 26 t2) :: u32;
          t3 = t3 + ucast b; h3 = ucast t3 AND 0x3ffffff; b = ucast (drop_bit 26 t3) :: u32;
          t4 = t4 + ucast b; h4 = ucast t4 AND 0x3ffffff; b = ucast (drop_bit 26 t4) :: u32
      in (h0 + b * 5, h1, h2, h3, h4))"

text \<open>The last block, shorter than sixteen bytes, ends with a byte 1 and zeros.\<close>

definition poly_pad :: "bytes \<Rightarrow> bytes" where
  "poly_pad m = m @ [1] @ replicate (15 - length m) 0"

function poly_blocks :: "limbs \<Rightarrow> limbs \<Rightarrow> bytes \<Rightarrow> limbs" where
  "poly_blocks r h m =
     (if 16 \<le> length m then poly_blocks r (poly_mul r (poly_add True m h)) (drop 16 m)
      else if m = [] then h
      else poly_mul r (poly_add False (poly_pad m) h))"
  by auto
termination by (relation "measure (\<lambda>(r, h, m). length m)") auto

declare poly_blocks.simps [simp del]

text \<open>At \<open>poly1305_donna_finish\<close>: the remaining carries, and the choice between the number and the number less
  \<open>2 ^ 130 - 5\<close>.\<close>

definition poly_carry :: "limbs \<Rightarrow> limbs" where
  "poly_carry = (\<lambda>(h0, h1, h2, h3, h4).
     let b = drop_bit 26 h0; h0 = h0 AND 0x3ffffff;
         h1 = h1 + b; b = drop_bit 26 h1; h1 = h1 AND 0x3ffffff;
         h2 = h2 + b; b = drop_bit 26 h2; h2 = h2 AND 0x3ffffff;
         h3 = h3 + b; b = drop_bit 26 h3; h3 = h3 AND 0x3ffffff;
         h4 = h4 + b; b = drop_bit 26 h4; h4 = h4 AND 0x3ffffff;
         h0 = h0 + b * 5; b = drop_bit 26 h0; h0 = h0 AND 0x3ffffff;
         h1 = h1 + b
     in (h0, h1, h2, h3, h4))"

definition poly_select :: "limbs \<Rightarrow> limbs" where
  "poly_select = (\<lambda>(h0, h1, h2, h3, h4).
     let g0 = h0 + 5; b = drop_bit 26 g0; g0 = g0 AND 0x3ffffff;
         g1 = h1 + b; b = drop_bit 26 g1; g1 = g1 AND 0x3ffffff;
         g2 = h2 + b; b = drop_bit 26 g2; g2 = g2 AND 0x3ffffff;
         g3 = h3 + b; b = drop_bit 26 g3; g3 = g3 AND 0x3ffffff;
         g4 = h4 + b - push_bit 26 1;
         b = drop_bit 31 g4 - 1; nb = NOT b
     in ((h0 AND nb) OR (g0 AND b), (h1 AND nb) OR (g1 AND b), (h2 AND nb) OR (g2 AND b),
         (h3 AND nb) OR (g3 AND b), (h4 AND nb) OR (g4 AND b)))"

text \<open>The 128 low bits plus the second half of the key, written out byte by byte.\<close>

definition poly_tag :: "bytes \<Rightarrow> limbs \<Rightarrow> bytes" where
  "poly_tag key = (\<lambda>(h0, h1, h2, h3, h4).
     let f0 = ucast (h0 OR push_bit 26 h1) + ucast (U8TO32_LE (drop 16 key)) :: u64;
         f1 = ucast (drop_bit 6 h1 OR push_bit 20 h2) + ucast (U8TO32_LE (drop 20 key)) :: u64;
         f2 = ucast (drop_bit 12 h2 OR push_bit 14 h3) + ucast (U8TO32_LE (drop 24 key)) :: u64;
         f3 = ucast (drop_bit 18 h3 OR push_bit 8 h4) + ucast (U8TO32_LE (drop 28 key)) :: u64;
         o0 = U32TO8_LE f0; f1 = f1 + drop_bit 32 f0;
         o1 = U32TO8_LE f1; f2 = f2 + drop_bit 32 f1;
         o2 = U32TO8_LE f2; f3 = f3 + drop_bit 32 f2;
         o3 = U32TO8_LE f3
     in o0 @ o1 @ o2 @ o3)"

definition poly1305_auth :: "bytes \<Rightarrow> bytes \<Rightarrow> bytes" where
  "poly1305_auth m key =
     poly_tag key (poly_select (poly_carry (poly_blocks (poly_key key) (0, 0, 0, 0, 0) m)))"

section \<open>The reference\<close>

text \<open>Little-endian numbers; the prime; the clamped multiplier; the message as a polynomial.\<close>

fun leNat :: "bytes \<Rightarrow> nat" where
  "leNat [] = 0"
| "leNat (b # bs) = unat b + 256 * leNat bs"

fun leBytes :: "nat \<Rightarrow> nat \<Rightarrow> bytes" where
  "leBytes 0 v = []"
| "leBytes (Suc n) v = word_of_nat v # leBytes n (v div 256)"

definition prime :: nat where
  "prime = 2 ^ 130 - 5"

text \<open>The top four bits of the bytes 3, 7, 11 and 15 and the low two bits of the bytes 4, 8 and 12 are cleared.\<close>

definition clampByte :: "nat \<Rightarrow> u8 \<Rightarrow> nat" where
  "clampByte i b = (if i \<in> {3, 7, 11, 15} then unat b mod 16
     else if i \<in> {4, 8, 12} then 4 * (unat b div 4) else unat b)"

definition multiplier :: "bytes \<Rightarrow> nat" where
  "multiplier key = (\<Sum>i<16. clampByte i (key ! i) * 256 ^ i)"

function polynomial :: "nat \<Rightarrow> nat \<Rightarrow> bytes \<Rightarrow> nat" where
  "polynomial r a m =
     (if m = [] then a
      else polynomial r ((a + leNat (take 16 m) + 256 ^ min 16 (length m)) * r mod prime) (drop 16 m))"
  by auto
termination by (relation "measure (\<lambda>(r, a, m). length m)") auto

declare polynomial.simps [simp del]

definition mac :: "bytes \<Rightarrow> bytes \<Rightarrow> bytes" where
  "mac m key = leBytes 16 (polynomial (multiplier key) 0 m + leNat (take 16 (drop 16 key)))"

end
