(* ===== verification/Poly_Proof.thy ===== *)
theory Poly_Proof
  imports Poly1305
begin

text \<open>
  The limb arithmetic of \<open>Poly1305\<close> equals its reference.  The value of five limbs is their sum in base
  \<open>2 ^ 26\<close>; the invariant of the accumulator keeps every 32-bit and 64-bit sum below its modulus, so that the
  words compute as natural numbers do.
\<close>

section \<open>Words as numbers\<close>

lemma or_eq_add_nat:
  fixes x y :: nat
  assumes "y < 2 ^ n"
  shows "y OR push_bit n x = y + 2 ^ n * x"
proof -
  have "take_bit n y = y" using assms by (simp add: take_bit_nat_eq_self_iff)
  moreover have "take_bit n y AND push_bit n x = 0"
    by (auto simp: bit_eq_iff bit_simps)
  ultimately have "y AND push_bit n x = 0" by simp
  then have "y + push_bit n x = y OR push_bit n x"
    by (simp add: disjunctive_add_eq_or)
  then show ?thesis by (simp add: push_bit_eq_mult mult.commute)
qed

lemma unat_or_push:
  fixes v w :: "'a::len word"
  assumes "unat v < 2 ^ n" "n \<le> LENGTH('a)"
  shows "unat (v OR push_bit n w) = unat v + 2 ^ n * (unat w mod 2 ^ (LENGTH('a) - n))"
proof -
  have "unat (push_bit n w) = push_bit n (unat w mod 2 ^ (LENGTH('a) - n))"
    using assms(2)
    by (simp add: unsigned_push_bit_eq take_bit_eq_mod [where ?'a = nat] push_bit_eq_mult [where ?'a = nat]
        mult_mod_left power_add [symmetric])
  then show ?thesis
    using assms(1) by (simp add: unsigned_or_eq or_eq_add_nat)
qed

lemma unat_and_mask26: "unat (w AND 0x3ffffff :: u32) = unat w mod 2 ^ 26"
proof -
  have "(0x3ffffff :: u32) = mask 26" by (simp add: mask_eq_exp_minus_1)
  then have "w AND 0x3ffffff = take_bit 26 w" by (simp add: take_bit_eq_mask)
  then show ?thesis by (simp add: unsigned_take_bit_eq take_bit_eq_mod [where ?'a = nat])
qed

lemma unat_drop: "unat (drop_bit n w) = unat w div 2 ^ n"
  by (simp add: unat_drop_bit_eq drop_bit_eq_div [where ?'a = nat])

lemma unat_ucast_down: "unat (ucast (w :: u64) :: u32) = unat w mod 2 ^ 32"
  by (simp add: unsigned_ucast_eq take_bit_eq_mod)

lemma unat_ucast_up: "unat (ucast (w :: u32) :: u64) = unat w"
  using unsigned_less [of w, where ?'a = nat] by (simp add: unsigned_ucast_eq take_bit_nat_eq_self_iff)

lemma unat_ucast_byte: "unat (ucast (w :: u64) :: u8) = unat w mod 256"
  by (simp add: unsigned_ucast_eq take_bit_eq_mod)

lemma unat_byte_up: "unat (ucast (w :: u8) :: u32) = unat w"
  using unsigned_less [of w, where ?'a = nat] by (simp add: unsigned_ucast_eq take_bit_nat_eq_self_iff)

lemma unat_four_bytes:
  fixes a b c d :: u8
  shows "unat ((ucast a :: u32) OR push_bit 8 (ucast b) OR push_bit 16 (ucast c) OR push_bit 24 (ucast d))
    = unat a + 2 ^ 8 * unat b + 2 ^ 16 * unat c + 2 ^ 24 * unat d"
proof -
  note lt = unat_u8_less [of a] unat_u8_less [of b] unat_u8_less [of c] unat_u8_less [of d]
  have 1: "unat ((ucast a :: u32) OR push_bit 8 (ucast b)) = unat a + 2 ^ 8 * unat b"
    using lt by (subst unat_or_push) (simp_all add: unat_byte_up)
  have 2: "unat (((ucast a :: u32) OR push_bit 8 (ucast b)) OR push_bit 16 (ucast c))
      = unat a + 2 ^ 8 * unat b + 2 ^ 16 * unat c"
    using lt by (subst unat_or_push) (simp_all add: 1 unat_byte_up)
  have "unat ((((ucast a :: u32) OR push_bit 8 (ucast b)) OR push_bit 16 (ucast c)) OR push_bit 24 (ucast d))
      = unat a + 2 ^ 8 * unat b + 2 ^ 16 * unat c + 2 ^ 24 * unat d"
    using lt by (subst unat_or_push) (simp_all add: 2 unat_byte_up)
  then show ?thesis by (simp add: or.assoc)
qed

lemma unat_U8TO32_LE:
  "unat (U8TO32_LE p) = unat (p ! 0) + 2 ^ 8 * unat (p ! 1) + 2 ^ 16 * unat (p ! 2) + 2 ^ 24 * unat (p ! 3)"
  unfolding U8TO32_LE_def by (rule unat_four_bytes)

section \<open>The value of the limbs\<close>

text \<open>Five limbs as a number; the loop invariant; what is below the modulus after a block has been added.\<close>

definition limbSum :: "nat \<Rightarrow> nat \<Rightarrow> nat \<Rightarrow> nat \<Rightarrow> nat \<Rightarrow> nat" where
  "limbSum a b c d e = a + 2 ^ 26 * b + 2 ^ 52 * c + 2 ^ 78 * d + 2 ^ 104 * e"

fun limbVal :: "limbs \<Rightarrow> nat" where
  "limbVal (h0, h1, h2, h3, h4) = limbSum (unat h0) (unat h1) (unat h2) (unat h3) (unat h4)"

fun accOk :: "limbs \<Rightarrow> bool" where
  "accOk (h0, h1, h2, h3, h4) \<longleftrightarrow>
     unat h0 < 2797200000 \<and> unat h1 < 67108864 \<and> unat h2 < 67108864 \<and> unat h3 < 67108864 \<and> unat h4 < 67108864"

fun mulOk :: "limbs \<Rightarrow> bool" where
  "mulOk (h0, h1, h2, h3, h4) \<longleftrightarrow>
     unat h0 < 2864400000 \<and> unat h1 < 134217728 \<and> unat h2 < 134217728 \<and> unat h3 < 134217728
     \<and> unat h4 < 100663296"

fun keyOk :: "limbs \<Rightarrow> bool" where
  "keyOk (r0, r1, r2, r3, r4) \<longleftrightarrow>
     unat r0 < 67108864 \<and> unat r1 < 67108864 \<and> unat r2 < 67108864 \<and> unat r3 < 66076672 \<and> unat r4 < 1048576"

section \<open>Multiplication\<close>

lemma unat_mul32:
  "unat (mul32x32_64 a b) = unat a * unat b"
proof -
  have "unat a * unat b < 4294967296 * 4294967296"
    by (rule mult_strict_mono) (simp_all add: unat_u32_less)
  then show ?thesis
    by (simp add: mul32x32_64_def unat_word_ariths unat_ucast_up)
qed

lemma unat_add_exact: "unat a + unat b < 2 ^ LENGTH('a) \<Longrightarrow> unat (a + b :: 'a::len word) = unat a + unat b"
  by (simp add: unat_word_ariths)

lemma mult_less_bound:
  fixes a b A B :: nat
  assumes "a < A" "b < B"
  shows "a * b \<le> (A - 1) * (B - 1)"
  using assms by (intro mult_le_mono) auto

text \<open>One carry: the low 26 bits stay, the rest moves up.\<close>

lemma carry_step:
  fixes t :: u64
  assumes "unat t div 2 ^ 26 < 2 ^ 32"
  shows "unat (ucast t AND 0x3ffffff :: u32) = unat t mod 2 ^ 26"
    and "unat (ucast (drop_bit 26 t) :: u32) = unat t div 2 ^ 26"
  using assms by (simp_all add: unat_and_mask26 unat_ucast_down unat_drop mod_mod_cancel)

lemma prime_value: "prime = 1361129467683753853853498429727072845819"
  by (simp add: prime_def)

lemma product_folds:
  "limbSum h0 h1 h2 h3 h4 * limbSum r0 r1 r2 r3 r4
   = limbSum (h0 * r0 + h1 * (5 * r4) + h2 * (5 * r3) + h3 * (5 * r2) + h4 * (5 * r1))
       (h0 * r1 + h1 * r0 + h2 * (5 * r4) + h3 * (5 * r3) + h4 * (5 * r2))
       (h0 * r2 + h1 * r1 + h2 * r0 + h3 * (5 * r4) + h4 * (5 * r3))
       (h0 * r3 + h1 * r2 + h2 * r1 + h3 * r0 + h4 * (5 * r4))
       (h0 * r4 + h1 * r3 + h2 * r2 + h3 * r1 + h4 * r0)
     + prime * (h1 * r4 + h2 * r3 + h3 * r2 + h4 * r1 + 2 ^ 26 * (h2 * r4 + h3 * r3 + h4 * r2)
       + 2 ^ 52 * (h3 * r4 + h4 * r3) + 2 ^ 78 * (h4 * r4))"
  by (simp add: limbSum_def prime_value algebra_simps)

lemma carries_fold:
  assumes "t0 = 2 ^ 26 * c0 + u0" "t1 + c0 = 2 ^ 26 * c1 + u1" "t2 + c1 = 2 ^ 26 * c2 + u2"
    "t3 + c2 = 2 ^ 26 * c3 + u3" "t4 + c3 = 2 ^ 26 * c4 + u4"
  shows "limbSum t0 t1 t2 t3 t4 = limbSum (u0 + 5 * c4) u1 u2 u3 u4 + prime * c4"
  using assms by (simp add: limbSum_def prime_value)

text \<open>The five sums of products, as numbers, and their bounds.\<close>

lemma five_products:
  "unat (mul32x32_64 a0 b0) + unat (mul32x32_64 a1 b1) + unat (mul32x32_64 a2 b2) + unat (mul32x32_64 a3 b3)
     + unat (mul32x32_64 a4 b4) < 2 ^ 64 \<Longrightarrow>
   unat (mul32x32_64 a0 b0 + mul32x32_64 a1 b1 + mul32x32_64 a2 b2 + mul32x32_64 a3 b3 + mul32x32_64 a4 b4)
   = unat a0 * unat b0 + unat a1 * unat b1 + unat a2 * unat b2 + unat a3 * unat b3 + unat a4 * unat b4"
  by (simp add: unat_add_exact unat_mul32)

lemma unat_times5: "unat (w :: u32) < 858993459 \<Longrightarrow> unat (w * 5) = 5 * unat w"
  by (simp add: unat_word_ariths)

lemma products_bounds:
  fixes h0 h1 h2 h3 h4 r0 r1 r2 r3 r4 :: nat
  assumes "h0 < 2864400000" "h1 < 134217728" "h2 < 134217728" "h3 < 134217728" "h4 < 100663296"
    and "r0 < 67108864" "r1 < 67108864" "r2 < 67108864" "r3 < 66076672" "r4 < 1048576"
  shows "h0 * r0 + h1 * (5 * r4) + h2 * (5 * r3) + h3 * (5 * r2) + h4 * (5 * r1) \<le> 320000000000000000"
    and "h0 * r1 + h1 * r0 + h2 * (5 * r4) + h3 * (5 * r3) + h4 * (5 * r2) \<le> 281000000000000000"
    and "h0 * r2 + h1 * r1 + h2 * r0 + h3 * (5 * r4) + h4 * (5 * r3) \<le> 246000000000000000"
    and "h0 * r3 + h1 * r2 + h2 * r1 + h3 * r0 + h4 * (5 * r4) \<le> 220000000000000000"
    and "h0 * r4 + h1 * r3 + h2 * r2 + h3 * r1 + h4 * r0 \<le> 36642000000000000"
proof -
  note b = assms(1-5) [THEN mult_less_bound]
  note p = b(1) [OF assms(6)] b(1) [OF assms(7)] b(1) [OF assms(8)] b(1) [OF assms(9)] b(1) [OF assms(10)]
    b(2) [OF assms(6)] b(2) [OF assms(7)] b(2) [OF assms(8)] b(2) [OF assms(9)] b(2) [OF assms(10)]
    b(3) [OF assms(6)] b(3) [OF assms(7)] b(3) [OF assms(8)] b(3) [OF assms(9)] b(3) [OF assms(10)]
    b(4) [OF assms(6)] b(4) [OF assms(7)] b(4) [OF assms(8)] b(4) [OF assms(9)] b(4) [OF assms(10)]
    b(5) [OF assms(6)] b(5) [OF assms(7)] b(5) [OF assms(8)] b(5) [OF assms(9)] b(5) [OF assms(10)]
  show "h0 * r0 + h1 * (5 * r4) + h2 * (5 * r3) + h3 * (5 * r2) + h4 * (5 * r1) \<le> 320000000000000000"
    using p by simp
  show "h0 * r1 + h1 * r0 + h2 * (5 * r4) + h3 * (5 * r3) + h4 * (5 * r2) \<le> 281000000000000000"
    using p by simp
  show "h0 * r2 + h1 * r1 + h2 * r0 + h3 * (5 * r4) + h4 * (5 * r3) \<le> 246000000000000000"
    using p by simp
  show "h0 * r3 + h1 * r2 + h2 * r1 + h3 * r0 + h4 * (5 * r4) \<le> 220000000000000000"
    using p by simp
  show "h0 * r4 + h1 * r3 + h2 * r2 + h3 * r1 + h4 * r0 \<le> 36642000000000000"
    using p by simp
qed

lemma div_small: "n < 2 ^ 58 \<Longrightarrow> n div 2 ^ 26 < (2 ^ 32 :: nat)"
  by (simp add: less_mult_imp_div_less)

lemma next_sum:
  fixes t s :: u64
  assumes "unat t < 2 ^ 58" "unat s < 2 ^ 58"
  shows "unat (s + ucast (ucast (drop_bit 26 t) :: u32)) = unat s + unat t div 2 ^ 26"
  using assms carry_step(2) [OF div_small [OF assms(1)]] div_small [OF assms(1)]
  by (simp add: unat_add_exact unat_ucast_up)

definition carryChain :: "u64 \<Rightarrow> u64 \<Rightarrow> u64 \<Rightarrow> u64 \<Rightarrow> u64 \<Rightarrow> limbs" where
  "carryChain t0 t1 t2 t3 t4 =
     (let h0 = ucast t0 AND 0x3ffffff; c = drop_bit 26 t0;
          t1 = t1 + c; h1 = ucast t1 AND 0x3ffffff; b = ucast (drop_bit 26 t1) :: u32;
          t2 = t2 + ucast b; h2 = ucast t2 AND 0x3ffffff; b = ucast (drop_bit 26 t2) :: u32;
          t3 = t3 + ucast b; h3 = ucast t3 AND 0x3ffffff; b = ucast (drop_bit 26 t3) :: u32;
          t4 = t4 + ucast b; h4 = ucast t4 AND 0x3ffffff; b = ucast (drop_bit 26 t4) :: u32
      in (h0 + b * 5, h1, h2, h3, h4))"

lemma carryChain_correct:
  assumes t: "unat t0 \<le> 320000000000000000" "unat t1 \<le> 281000000000000000" "unat t2 \<le> 246000000000000000"
    "unat t3 \<le> 220000000000000000" "unat t4 \<le> 36642000000000000"
  shows "accOk (carryChain t0 t1 t2 t3 t4) \<and>
    (\<exists>k. limbSum (unat t0) (unat t1) (unat t2) (unat t3) (unat t4) = limbVal (carryChain t0 t1 t2 t3 t4) + prime * k)"
proof -
  define c0 where "c0 = unat t0 div 2 ^ 26"
  define t1' where "t1' = t1 + drop_bit 26 t0"
  define c1 where "c1 = unat t1' div 2 ^ 26"
  define t2' where "t2' = t2 + ucast (ucast (drop_bit 26 t1') :: u32)"
  define c2 where "c2 = unat t2' div 2 ^ 26"
  define t3' where "t3' = t3 + ucast (ucast (drop_bit 26 t2') :: u32)"
  define c3 where "c3 = unat t3' div 2 ^ 26"
  define t4' where "t4' = t4 + ucast (ucast (drop_bit 26 t3') :: u32)"
  define c4 where "c4 = unat t4' div 2 ^ 26"
  have c0: "c0 \<le> 4768371583" using t(1) div_le_mono [OF t(1), of "2 ^ 26"] by (simp add: c0_def)
  have u1: "unat t1' = unat t1 + c0"
    using t(2) c0 unfolding t1'_def c0_def by (subst unat_add_exact) (simp_all add: unat_drop)
  have b1: "unat t1' < 2 ^ 58" using u1 c0 t(2) by simp
  have u2: "unat t2' = unat t2 + c1" using t(3) b1 unfolding t2'_def c1_def by (intro next_sum) simp_all
  have c1: "c1 < 2 ^ 32" unfolding c1_def by (rule div_small [OF b1])
  have b2: "unat t2' < 2 ^ 58" using u2 c1 t(3) by simp
  have u3: "unat t3' = unat t3 + c2" using t(4) b2 unfolding t3'_def c2_def by (intro next_sum) simp_all
  have c2: "c2 < 2 ^ 32" unfolding c2_def by (rule div_small [OF b2])
  have b3: "unat t3' < 2 ^ 58" using u3 c2 t(4) by simp
  have u4: "unat t4' = unat t4 + c3" using t(5) b3 unfolding t4'_def c3_def by (intro next_sum) simp_all
  have c3': "c3 < 2 ^ 32" unfolding c3_def by (rule div_small [OF b3])
  have "unat t3' \<le> 220000004294967296" using u3 c2 t(4) by simp
  then have c3: "c3 \<le> 3278255526" using div_le_mono [of "unat t3'" 220000004294967296 "2 ^ 26"] by (simp add: c3_def)
  have u4b: "unat t4' \<le> 36642003278255526" using u4 c3 t(5) by simp
  then have b4: "unat t4' < 2 ^ 58" by simp
  from u4b have c4: "c4 \<le> 546008397" using div_le_mono [OF u4b, of "2 ^ 26"] by (simp add: c4_def)
  have b: "unat (ucast (drop_bit 26 t4') * 5 :: u32) = 5 * c4"
    using carry_step(2) [OF div_small [OF b4]] c4 by (subst unat_times5) (simp_all add: c4_def)
  have low: "unat (ucast t0 AND 0x3ffffff :: u32) = unat t0 mod 2 ^ 26"
    by (simp add: unat_and_mask26 unat_ucast_down mod_mod_cancel)
  have "unat t0 mod 2 ^ 26 < 2 ^ 26" by simp
  then have h0: "unat ((ucast t0 AND 0x3ffffff) + ucast (drop_bit 26 t4') * 5 :: u32) = unat t0 mod 2 ^ 26 + 5 * c4"
    using c4 by (subst unat_add_exact) (simp_all add: low b)
  note mods = carry_step(1) [OF div_small [OF b1]] carry_step(1) [OF div_small [OF b2]]
    carry_step(1) [OF div_small [OF b3]] carry_step(1) [OF div_small [OF b4]]
  have chain: "carryChain t0 t1 t2 t3 t4 = ((ucast t0 AND 0x3ffffff) + ucast (drop_bit 26 t4') * 5,
      ucast t1' AND 0x3ffffff, ucast t2' AND 0x3ffffff, ucast t3' AND 0x3ffffff, ucast t4' AND 0x3ffffff)"
    by (simp add: carryChain_def Let_def t1'_def t2'_def t3'_def t4'_def)
  have "limbSum (unat t0) (unat t1) (unat t2) (unat t3) (unat t4)
      = limbSum (unat t0 mod 2 ^ 26 + 5 * c4) (unat t1' mod 2 ^ 26) (unat t2' mod 2 ^ 26) (unat t3' mod 2 ^ 26)
          (unat t4' mod 2 ^ 26) + prime * c4"
    by (rule carries_fold [of _ c0 _ _ c1 _ _ c2 _ _ c3])
      (simp_all only: u1 [symmetric, unfolded c0_def] u2 [symmetric, unfolded c1_def] u3 [symmetric, unfolded c2_def]
        u4 [symmetric, unfolded c3_def] c0_def c1_def c2_def c3_def c4_def mult_div_mod_eq)
  moreover have "accOk (carryChain t0 t1 t2 t3 t4)"
    unfolding chain accOk.simps h0 mods using c4 \<open>unat t0 mod 2 ^ 26 < 2 ^ 26\<close> by simp
  ultimately show ?thesis
    unfolding chain limbVal.simps h0 mods by blast
qed

lemma poly_mul_chain:
  "poly_mul (r0, r1, r2, r3, r4) (h0, h1, h2, h3, h4) = carryChain
     (mul32x32_64 h0 r0 + mul32x32_64 h1 (r4 * 5) + mul32x32_64 h2 (r3 * 5) + mul32x32_64 h3 (r2 * 5) + mul32x32_64 h4 (r1 * 5))
     (mul32x32_64 h0 r1 + mul32x32_64 h1 r0 + mul32x32_64 h2 (r4 * 5) + mul32x32_64 h3 (r3 * 5) + mul32x32_64 h4 (r2 * 5))
     (mul32x32_64 h0 r2 + mul32x32_64 h1 r1 + mul32x32_64 h2 r0 + mul32x32_64 h3 (r4 * 5) + mul32x32_64 h4 (r3 * 5))
     (mul32x32_64 h0 r3 + mul32x32_64 h1 r2 + mul32x32_64 h2 r1 + mul32x32_64 h3 r0 + mul32x32_64 h4 (r4 * 5))
     (mul32x32_64 h0 r4 + mul32x32_64 h1 r3 + mul32x32_64 h2 r2 + mul32x32_64 h3 r1 + mul32x32_64 h4 r0)"
  by (simp add: poly_mul_def carryChain_def Let_def)

lemma poly_mul_correct:
  assumes "keyOk r" "mulOk h"
  shows "accOk (poly_mul r h) \<and> (\<exists>k. limbVal h * limbVal r = limbVal (poly_mul r h) + prime * k)"
proof -
  obtain r0 r1 r2 r3 r4 h0 h1 h2 h3 h4 where r: "r = (r0, r1, r2, r3, r4)" and h: "h = (h0, h1, h2, h3, h4)"
    by (metis prod_cases5)
  have bounds: "unat h0 < 2864400000" "unat h1 < 134217728" "unat h2 < 134217728" "unat h3 < 134217728"
    "unat h4 < 100663296" "unat r0 < 67108864" "unat r1 < 67108864" "unat r2 < 67108864" "unat r3 < 66076672"
    "unat r4 < 1048576"
    using assms by (simp_all add: r h)
  note s = unat_times5 [of r1] unat_times5 [of r2] unat_times5 [of r3] unat_times5 [of r4]
  note p = products_bounds [OF bounds]
  note e = five_products [simplified unat_mul32]
  have t0: "unat (mul32x32_64 h0 r0 + mul32x32_64 h1 (r4 * 5) + mul32x32_64 h2 (r3 * 5) + mul32x32_64 h3 (r2 * 5)
      + mul32x32_64 h4 (r1 * 5)) = unat h0 * unat r0 + unat h1 * (5 * unat r4) + unat h2 * (5 * unat r3)
      + unat h3 * (5 * unat r2) + unat h4 * (5 * unat r1)"
    using p(1) bounds s by (subst e) simp_all
  have t1: "unat (mul32x32_64 h0 r1 + mul32x32_64 h1 r0 + mul32x32_64 h2 (r4 * 5) + mul32x32_64 h3 (r3 * 5)
      + mul32x32_64 h4 (r2 * 5)) = unat h0 * unat r1 + unat h1 * unat r0 + unat h2 * (5 * unat r4)
      + unat h3 * (5 * unat r3) + unat h4 * (5 * unat r2)"
    using p(2) bounds s by (subst e) simp_all
  have t2: "unat (mul32x32_64 h0 r2 + mul32x32_64 h1 r1 + mul32x32_64 h2 r0 + mul32x32_64 h3 (r4 * 5)
      + mul32x32_64 h4 (r3 * 5)) = unat h0 * unat r2 + unat h1 * unat r1 + unat h2 * unat r0
      + unat h3 * (5 * unat r4) + unat h4 * (5 * unat r3)"
    using p(3) bounds s by (subst e) simp_all
  have t3: "unat (mul32x32_64 h0 r3 + mul32x32_64 h1 r2 + mul32x32_64 h2 r1 + mul32x32_64 h3 r0
      + mul32x32_64 h4 (r4 * 5)) = unat h0 * unat r3 + unat h1 * unat r2 + unat h2 * unat r1
      + unat h3 * unat r0 + unat h4 * (5 * unat r4)"
    using p(4) bounds s by (subst e) simp_all
  have t4: "unat (mul32x32_64 h0 r4 + mul32x32_64 h1 r3 + mul32x32_64 h2 r2 + mul32x32_64 h3 r1 + mul32x32_64 h4 r0)
      = unat h0 * unat r4 + unat h1 * unat r3 + unat h2 * unat r2 + unat h3 * unat r1 + unat h4 * unat r0"
    using p(5) by (subst e) simp_all
  note chain = carryChain_correct [OF p(1) [folded t0] p(2) [folded t1] p(3) [folded t2] p(4) [folded t3]
      p(5) [folded t4], folded poly_mul_chain, unfolded t0 t1 t2 t3 t4]
  then obtain k where "limbVal h * limbVal r = limbVal (poly_mul r h) + prime * k + prime *
      (unat h1 * unat r4 + unat h2 * unat r3 + unat h3 * unat r2 + unat h4 * unat r1
       + 2 ^ 26 * (unat h2 * unat r4 + unat h3 * unat r3 + unat h4 * unat r2)
       + 2 ^ 52 * (unat h3 * unat r4 + unat h4 * unat r3) + 2 ^ 78 * (unat h4 * unat r4))"
    unfolding r h limbVal.simps(1) [of h0] limbVal.simps(1) [of r0] product_folds by auto
  then have "\<exists>k. limbVal h * limbVal r = limbVal (poly_mul r h) + prime * k"
    unfolding add.assoc [of "limbVal (poly_mul r h)"] distrib_left [symmetric] by blast
  then show ?thesis using chain unfolding r h by blast
qed

end
