(* ===== verification/Poly_Auth.thy ===== *)
theory Poly_Auth
  imports Poly_Proof
begin

text \<open>
  The blocks, the key and the final reduction of \<open>Poly1305\<close> as numbers, and the equality of
  \<open>poly1305_auth\<close> with its reference \<open>mac\<close>.
\<close>

section \<open>Adding a block\<close>

text \<open>The number held by four consecutive words.\<close>

definition wordSum :: "nat \<Rightarrow> nat \<Rightarrow> nat \<Rightarrow> nat \<Rightarrow> nat" where
  "wordSum a b c d = a + 2 ^ 32 * b + 2 ^ 64 * c + 2 ^ 96 * d"

lemma limb_window:
  fixes lo hi B c d :: nat
  assumes "lo < B * c" "0 < B" "0 < c"
  shows "(lo + B * c * hi) div B mod (c * d) = lo div B + c * (hi mod d)"
proof -
  have "lo div B < c" using assms by (simp add: less_mult_imp_div_less mult.commute)
  moreover have "(lo + B * c * hi) div B = lo div B + c * hi"
    using assms by (simp add: mult.assoc)
  ultimately show ?thesis
    using assms by (simp add: mod_mult2_eq)
qed

lemma unat_wide:
  fixes hi lo :: u32
  shows "unat (push_bit 32 (ucast hi) OR ucast lo :: u64) = unat lo + 2 ^ 32 * unat hi"
proof -
  have "unat (ucast lo OR push_bit 32 (ucast hi) :: u64) = unat lo + 2 ^ 32 * unat hi"
    using unat_u32_less [of lo] unat_u32_less [of hi] by (subst unat_or_push) (simp_all add: unat_ucast_up)
  then show ?thesis by (simp add: or.commute)
qed

lemma unat_window:
  fixes hi lo :: u32
  shows "unat (ucast (drop_bit n (push_bit 32 (ucast hi) OR ucast lo :: u64)) AND 0x3ffffff :: u32)
   = (unat lo + 2 ^ 32 * unat hi) div 2 ^ n mod 2 ^ 26"
  unfolding unat_and_mask26 unat_ucast_down unat_drop unat_wide by (simp add: mod_mod_cancel)

lemma block_sum:
  assumes "a = 2 ^ 26 * qa + ra" "b = 2 ^ 20 * qb + rb" "c = 2 ^ 14 * qc + rc" "d = 2 ^ 8 * qd + rd"
  shows "limbSum ra (qa + 2 ^ 6 * rb) (qb + 2 ^ 12 * rc) (qc + 2 ^ 18 * rd) qd = wordSum a b c d"
  unfolding limbSum_def wordSum_def assms by simp

lemma block_limbs:
  assumes "a < 2 ^ 32" "b < 2 ^ 32" "c < 2 ^ 32"
  shows "limbSum (a mod 2 ^ 26) ((a + 2 ^ 32 * b) div 2 ^ 26 mod 2 ^ 26) ((b + 2 ^ 32 * c) div 2 ^ 20 mod 2 ^ 26)
       ((c + 2 ^ 32 * d) div 2 ^ 14 mod 2 ^ 26) (d div 2 ^ 8) = wordSum a b c d"
proof -
  have 1: "(a + 2 ^ 32 * b) div 2 ^ 26 mod 2 ^ 26 = a div 2 ^ 26 + 2 ^ 6 * (b mod 2 ^ 20)"
    using limb_window [of a "2 ^ 26" "2 ^ 6" b "2 ^ 20"] assms by simp
  have 2: "(b + 2 ^ 32 * c) div 2 ^ 20 mod 2 ^ 26 = b div 2 ^ 20 + 2 ^ 12 * (c mod 2 ^ 14)"
    using limb_window [of b "2 ^ 20" "2 ^ 12" c "2 ^ 14"] assms by simp
  have 3: "(c + 2 ^ 32 * d) div 2 ^ 14 mod 2 ^ 26 = c div 2 ^ 14 + 2 ^ 18 * (d mod 2 ^ 8)"
    using limb_window [of c "2 ^ 14" "2 ^ 18" d "2 ^ 8"] assms by simp
  show ?thesis
    unfolding 1 2 3 by (rule block_sum) (simp_all only: mult_div_mod_eq)
qed

lemma leNat_16:
  assumes "length m = 16"
  shows "leNat m = wordSum (unat (U8TO32_LE (drop 0 m))) (unat (U8TO32_LE (drop 4 m)))
     (unat (U8TO32_LE (drop 8 m))) (unat (U8TO32_LE (drop 12 m)))"
proof -
  have "m = map ((!) m) [0, 1, 2, 3, 4, 5, 6, 7, 8, 9, 10, 11, 12, 13, 14, 15]"
    by (rule nth_equalityI) (auto simp: assms less_Suc_eq numeral_eq_Suc)
  then have "leNat m = leNat (map ((!) m) [0, 1, 2, 3, 4, 5, 6, 7, 8, 9, 10, 11, 12, 13, 14, 15])" by simp
  then show ?thesis
    using assms by (simp add: unat_U8TO32_LE wordSum_def)
qed

lemma limbSum_add:
  "limbSum (a + a') (b + b') (c + c') (d + d') (e + e') = limbSum a b c d e + limbSum a' b' c' d' e'"
  by (simp add: limbSum_def algebra_simps)

lemma poly_add_correct:
  assumes "accOk h" "16 \<le> length m"
  shows "mulOk (poly_add full m h) \<and>
    limbVal (poly_add full m h) = limbVal h + leNat (take 16 m) + (if full then 2 ^ 128 else 0)"
proof -
  obtain h0 h1 h2 h3 h4 where h: "h = (h0, h1, h2, h3, h4)" by (metis prod_cases5)
  define t0 t1 t2 t3 where t: "t0 = U8TO32_LE (drop 0 m)" "t1 = U8TO32_LE (drop 4 m)" "t2 = U8TO32_LE (drop 8 m)"
    "t3 = U8TO32_LE (drop 12 m)"
  note lt = unat_u32_less [of t0] unat_u32_less [of t1] unat_u32_less [of t2] unat_u32_less [of t3]
  have le: "leNat (take 16 m) = wordSum (unat t0) (unat t1) (unat t2) (unat t3)"
    using leNat_16 [of "take 16 m"] assms(2) by (simp add: t unat_U8TO32_LE)
  have b: "unat h0 < 2797200000" "unat h1 < 67108864" "unat h2 < 67108864" "unat h3 < 67108864" "unat h4 < 67108864"
    using assms(1) by (simp_all add: h)
  define w1 w2 w3 w4 :: u32 where
    w: "w1 = ucast (drop_bit 26 (push_bit 32 (ucast t1) OR ucast t0 :: u64)) AND 0x3ffffff"
       "w2 = ucast (drop_bit 20 (push_bit 32 (ucast t2) OR ucast t1 :: u64)) AND 0x3ffffff"
       "w3 = ucast (drop_bit 14 (push_bit 32 (ucast t3) OR ucast t2 :: u64)) AND 0x3ffffff"
       "w4 = (if full then drop_bit 8 t3 OR push_bit 24 1 else drop_bit 8 t3)"
  have add: "poly_add full m h = (h0 + (t0 AND 0x3ffffff), h1 + w1, h2 + w2, h3 + w3, h4 + w4)"
    by (simp add: poly_add_def h t w Let_def)
  have u0: "unat (t0 AND 0x3ffffff) = unat t0 mod 2 ^ 26" by (rule unat_and_mask26)
  have top: "unat t3 div 2 ^ 8 < 2 ^ 24" using lt(4) by (simp add: less_mult_imp_div_less)
  have u4: "unat w4 = unat t3 div 2 ^ 8 + (if full then 2 ^ 24 else 0)"
    using unat_or_push [of "drop_bit 8 t3" 24 1] top unfolding w by (simp add: unat_drop)
  have u4b: "unat w4 < 33554432" unfolding u4 using top by simp
  note u = u0 unat_window [of 26 t1 t0, folded w] unat_window [of 20 t2 t1, folded w] unat_window [of 14 t3 t2, folded w]
  have small: "unat (t0 AND 0x3ffffff) < 67108864" "unat w1 < 67108864" "unat w2 < 67108864" "unat w3 < 67108864"
    unfolding u by simp_all
  have s: "unat (h0 + (t0 AND 0x3ffffff)) = unat h0 + unat (t0 AND 0x3ffffff)" "unat (h1 + w1) = unat h1 + unat w1"
    "unat (h2 + w2) = unat h2 + unat w2" "unat (h3 + w3) = unat h3 + unat w3" "unat (h4 + w4) = unat h4 + unat w4"
    using b small u4b by (subst unat_add_exact, simp_all)+
  have "mulOk (poly_add full m h)"
    unfolding add mulOk.simps s using b small u4b by simp
  moreover have "limbVal (poly_add full m h) = limbVal h + leNat (take 16 m) + (if full then 2 ^ 128 else 0)"
  proof -
    have "limbSum (unat t0 mod 2 ^ 26) (unat w1) (unat w2) (unat w3) (unat t3 div 2 ^ 8) = leNat (take 16 m)"
      unfolding u le by (rule block_limbs) (use lt in simp_all)
    then have "limbSum (unat (t0 AND 0x3ffffff)) (unat w1) (unat w2) (unat w3) (unat w4)
        = leNat (take 16 m) + (if full then 2 ^ 128 else 0)"
      unfolding u0 u4 limbSum_def by auto
    then show ?thesis
      unfolding add unfolding h limbVal.simps s limbSum_add by simp
  qed
  ultimately show ?thesis by blast
qed

section \<open>The multiplier\<close>

lemma clamp_limb:
  fixes a b :: u32
  assumes "32 \<le> i + j" "p \<le> j" "q = j + 2"
  shows "(drop_bit i a OR push_bit j b) AND (mask p OR push_bit q (mask s))
    = take_bit p (drop_bit i a) OR push_bit q (take_bit s (drop_bit 2 b))"
proof (rule bit_word_eqI)
  fix n assume n: "n < LENGTH(32)"
  show "bit ((drop_bit i a OR push_bit j b) AND (mask p OR push_bit q (mask s))) n
    \<longleftrightarrow> bit (take_bit p (drop_bit i a) OR push_bit q (take_bit s (drop_bit 2 b))) n"
  proof (cases "q \<le> n")
    case True
    then have "\<not> bit a (i + n)" using assms(1,3) by (auto dest: bit_imp_le_length)
    moreover have "2 + (n - q) = n - j" "j \<le> n" "\<not> n < p" using True assms(2,3) by linarith+
    ultimately show ?thesis using True n by (auto simp: bit_simps simp del: add_2_eq_Suc)
  next
    case False
    moreover have "n < p \<Longrightarrow> \<not> j \<le> n" using assms(2) by linarith
    ultimately show ?thesis using n by (auto simp: bit_simps)
  qed
qed

text \<open>A clamped limb as a number: \<open>p\<close> bits of one word and \<open>s\<close> bits of the next.\<close>

lemma unat_clamp_limb:
  fixes a b m :: u32
  assumes "m = mask p OR push_bit (j + 2) (mask s)" "i + j = 32" "p \<le> j" "j + 2 + s \<le> 32"
  shows "unat ((drop_bit i a OR push_bit j b) AND m)
    = unat a div 2 ^ i mod 2 ^ p + 2 ^ (j + 2) * (unat b div 4 mod 2 ^ s)"
proof -
  let ?v = "take_bit p (drop_bit i a)" and ?w = "take_bit s (drop_bit 2 b)"
  have v: "unat ?v = unat a div 2 ^ i mod 2 ^ p" and w: "unat ?w = unat b div 4 mod 2 ^ s"
    by (simp_all add: unsigned_take_bit_eq take_bit_eq_mod [where ?'a = nat] unat_drop)
  have "unat ?v < 2 ^ p" unfolding v by simp
  also have "(2 :: nat) ^ p \<le> 2 ^ (j + 2)" using assms(3) by (intro power_increasing) auto
  finally have lt: "unat ?v < 2 ^ (j + 2)" .
  have "unat ?w < 2 ^ s" unfolding w by simp
  also have "(2 :: nat) ^ s \<le> 2 ^ (32 - (j + 2))" using assms(4) by (intro power_increasing) auto
  finally have "unat ?w mod 2 ^ (32 - (j + 2)) = unat ?w" by simp
  moreover have "(drop_bit i a OR push_bit j b) AND m = ?v OR push_bit (j + 2) ?w"
    unfolding assms(1) by (rule clamp_limb) (use assms(2,3) in simp_all)
  ultimately show ?thesis
    using unat_or_push [OF lt, of ?w] assms(4) unfolding v w by simp
qed

lemma clamp_masks:
  "(0x3ffff03 :: u32) = mask 2 OR push_bit (6 + 2) (mask 18)"
  "(0x3ffc0ff :: u32) = mask 8 OR push_bit (12 + 2) (mask 12)"
  "(0x3f03fff :: u32) = mask 14 OR push_bit (18 + 2) (mask 6)"
  by (simp_all add: mask_eq_exp_minus_1)

text \<open>The clamped words of the key, and their sum as the sum of the limbs.\<close>

lemma clamp_sum:
  assumes "a mod 2 ^ 28 = 2 ^ 26 * a1 + a0" "4 * (b div 4 mod 2 ^ 26) = 4 * b0 + 2 ^ 20 * b1"
    "4 * (c div 4 mod 2 ^ 26) = 4 * c0 + 2 ^ 14 * c1" "4 * (d div 4 mod 2 ^ 26) = 4 * d0 + 2 ^ 8 * d1"
  shows "limbSum a0 (a1 + 2 ^ 8 * b0) (b1 + 2 ^ 14 * c0) (c1 + 2 ^ 20 * d0) d1
    = wordSum (a mod 2 ^ 28) (4 * (b div 4 mod 2 ^ 26)) (4 * (c div 4 mod 2 ^ 26)) (4 * (d div 4 mod 2 ^ 26))"
  unfolding assms by (simp add: limbSum_def wordSum_def)

lemma clamp_split:
  fixes b :: nat
  shows "4 * (b div 4 mod (2 ^ s * 2 ^ t)) = 4 * (b div 4 mod 2 ^ s) + 2 ^ (s + 2) * (b div 2 ^ (s + 2) mod 2 ^ t)"
proof -
  have "b div 2 ^ (s + 2) = b div 4 div 2 ^ s" by (simp add: div_mult2_eq power_add)
  then show ?thesis by (simp add: mod_mult2_eq algebra_simps power_add)
qed

lemma poly_key_correct:
  defines "w \<equiv> (\<lambda>key i. unat (U8TO32_LE (drop i key)))"
  shows "keyOk (poly_key key) \<and> limbVal (poly_key key) =
     wordSum (w key 0 mod 2 ^ 28) (4 * (w key 4 div 4 mod 2 ^ 26)) (4 * (w key 8 div 4 mod 2 ^ 26))
       (4 * (w key 12 div 4 mod 2 ^ 26))"
proof -
  define t0 t1 t2 t3 where t: "t0 = U8TO32_LE (drop 0 key)" "t1 = U8TO32_LE (drop 4 key)"
    "t2 = U8TO32_LE (drop 8 key)" "t3 = U8TO32_LE (drop 12 key)"
  have "(0xfffff :: u32) = mask 20" by (simp add: mask_eq_exp_minus_1)
  then have r4: "unat (drop_bit 8 t3 AND 0xfffff) = unat t3 div 2 ^ 8 mod 2 ^ 20"
    by (simp only: take_bit_eq_mask [symmetric] unsigned_take_bit_eq take_bit_eq_mod [where ?'a = nat] unat_drop)
  have r1: "unat ((drop_bit 26 t0 OR push_bit 6 t1) AND 0x3ffff03)
      = unat t0 div 2 ^ 26 mod 2 ^ 2 + 2 ^ 8 * (unat t1 div 4 mod 2 ^ 18)"
    by (rule unat_clamp_limb [OF clamp_masks(1), THEN trans]) simp_all
  have r2: "unat ((drop_bit 20 t1 OR push_bit 12 t2) AND 0x3ffc0ff)
      = unat t1 div 2 ^ 20 mod 2 ^ 8 + 2 ^ 14 * (unat t2 div 4 mod 2 ^ 12)"
    by (rule unat_clamp_limb [OF clamp_masks(2), THEN trans]) simp_all
  have r3: "unat ((drop_bit 14 t2 OR push_bit 18 t3) AND 0x3f03fff)
      = unat t2 div 2 ^ 14 mod 2 ^ 14 + 2 ^ 20 * (unat t3 div 4 mod 2 ^ 6)"
    by (rule unat_clamp_limb [OF clamp_masks(3), THEN trans]) simp_all
  have key: "poly_key key = (t0 AND 0x3ffffff, (drop_bit 26 t0 OR push_bit 6 t1) AND 0x3ffff03,
      (drop_bit 20 t1 OR push_bit 12 t2) AND 0x3ffc0ff, (drop_bit 14 t2 OR push_bit 18 t3) AND 0x3f03fff,
      drop_bit 8 t3 AND 0xfffff)"
    by (simp add: poly_key_def t Let_def)
  have bounded: "x < 2 ^ 2 \<Longrightarrow> y < 2 ^ 18 \<Longrightarrow> x + 2 ^ 8 * y < 67108864"
    "x < 2 ^ 8 \<Longrightarrow> y < 2 ^ 12 \<Longrightarrow> x + 2 ^ 14 * y < 67108864"
    "x < 2 ^ 14 \<Longrightarrow> y < 2 ^ 6 \<Longrightarrow> x + 2 ^ 20 * y < 66076672" for x y :: nat
    by simp_all
  have "keyOk (poly_key key)"
    unfolding key keyOk.simps unat_and_mask26 r1 r2 r3 r4
    by (intro conjI bounded) simp_all
  moreover have "unat t0 mod 2 ^ 28 = 2 ^ 26 * (unat t0 div 2 ^ 26 mod 2 ^ 2) + unat t0 mod 2 ^ 26"
    using mod_mult2_eq [of "unat t0" "2 ^ 26" "2 ^ 2"] by simp
  ultimately show ?thesis
    using clamp_split [of "unat t1" 18 8] clamp_split [of "unat t2" 12 14] clamp_split [of "unat t3" 6 20]
    unfolding key limbVal.simps unat_and_mask26 r1 r2 r3 r4 w_def t [symmetric]
    by (intro conjI clamp_sum) simp_all
qed

lemma mod_top: "x < A \<Longrightarrow> (x + A * y) mod (A * B) = x + A * (y mod B)" for x y A B :: nat
  by (cases "A = 0") (simp_all add: mod_mult2_eq)

lemma clamped_word_0:
  fixes a b c d :: nat
  assumes "a < 2 ^ 8" "b < 2 ^ 8" "c < 2 ^ 8"
  shows "(a + 2 ^ 8 * b + 2 ^ 16 * c + 2 ^ 24 * d) mod 2 ^ 28 = a + 2 ^ 8 * b + 2 ^ 16 * c + 2 ^ 24 * (d mod 16)"
  using mod_top [of "a + 2 ^ 8 * b + 2 ^ 16 * c" "2 ^ 24" d 16] assms by simp

lemma clamped_word_i:
  fixes a b c d :: nat
  assumes "a < 2 ^ 8" "b < 2 ^ 8" "c < 2 ^ 8"
  shows "4 * ((a + 2 ^ 8 * b + 2 ^ 16 * c + 2 ^ 24 * d) div 4 mod 2 ^ 26)
    = 4 * (a div 4) + 2 ^ 8 * b + 2 ^ 16 * c + 2 ^ 24 * (d mod 16)"
proof -
  have "(a + 2 ^ 8 * b + 2 ^ 16 * c + 2 ^ 24 * d) div 4 = (a + 4 * (2 ^ 6 * b + 2 ^ 14 * c + 2 ^ 22 * d)) div 4"
    by simp
  also have "\<dots> = a div 4 + 2 ^ 6 * b + 2 ^ 14 * c + 2 ^ 22 * d"
    by (subst div_mult_self2) simp_all
  finally have div4: "(a + 2 ^ 8 * b + 2 ^ 16 * c + 2 ^ 24 * d) div 4 = a div 4 + 2 ^ 6 * b + 2 ^ 14 * c + 2 ^ 22 * d" .
  have "a div 4 < 2 ^ 6" using assms(1) by (simp add: less_mult_imp_div_less)
  then show ?thesis
    unfolding div4 using mod_top [of "a div 4 + 2 ^ 6 * b + 2 ^ 14 * c" "2 ^ 22" d 16] assms by simp
qed

lemma multiplier_words:
  assumes "32 \<le> length key"
  shows "limbVal (poly_key key) = multiplier key"
proof -
  have lt: "unat (b :: u8) < 2 ^ 8" for b using unat_u8_less [of b] by simp
  have idx: "[0..<16] = [0, 1, 2, 3, 4, 5, 6, 7, 8, 9, 10, 11, 12, 13, 14, 15 :: nat]"
    by code_simp
  have "multiplier key = (\<Sum>i\<leftarrow>[0..<16]. clampByte i (key ! i) * 256 ^ i)"
    unfolding multiplier_def by (simp add: interv_sum_list_conv_sum_set_nat lessThan_atLeast0)
  also have "\<dots> = wordSum
      (unat (key ! 0) + 2 ^ 8 * unat (key ! 1) + 2 ^ 16 * unat (key ! 2) + 2 ^ 24 * (unat (key ! 3) mod 16))
      (4 * (unat (key ! 4) div 4) + 2 ^ 8 * unat (key ! 5) + 2 ^ 16 * unat (key ! 6) + 2 ^ 24 * (unat (key ! 7) mod 16))
      (4 * (unat (key ! 8) div 4) + 2 ^ 8 * unat (key ! 9) + 2 ^ 16 * unat (key ! 10) + 2 ^ 24 * (unat (key ! 11) mod 16))
      (4 * (unat (key ! 12) div 4) + 2 ^ 8 * unat (key ! 13) + 2 ^ 16 * unat (key ! 14) + 2 ^ 24 * (unat (key ! 15) mod 16))"
    unfolding idx by (simp add: clampByte_def wordSum_def)
  also have "\<dots> = limbVal (poly_key key)"
    unfolding conjunct2 [OF poly_key_correct] unat_U8TO32_LE
      clamped_word_0 [OF lt lt lt] clamped_word_i [OF lt lt lt]
    using assms by simp
  finally show ?thesis by simp
qed

section \<open>The blocks\<close>

lemma leNat_append: "leNat (a @ b) = leNat a + 256 ^ length a * leNat b"
  by (induction a) (simp_all add: algebra_simps)

lemma leNat_zeros [simp]: "leNat (replicate n 0) = 0"
  by (induction n) simp_all

lemma leNat_pad: "leNat (poly_pad m) = leNat m + 256 ^ length m"
  by (simp add: poly_pad_def leNat_append)

lemma block_step:
  assumes "keyOk r" "accOk h" "16 \<le> length m"
  shows "accOk (poly_mul r (poly_add full m h)) \<and>
    limbVal (poly_mul r (poly_add full m h)) mod prime
      = (limbVal h mod prime + leNat (take 16 m) + (if full then 2 ^ 128 else 0)) * limbVal r mod prime"
proof -
  from poly_add_correct [OF assms(2,3), of full]
  have mul: "mulOk (poly_add full m h)"
    and add: "limbVal (poly_add full m h) = limbVal h + leNat (take 16 m) + (if full then 2 ^ 128 else 0)" by auto
  from poly_mul_correct [OF assms(1) mul] obtain k where "accOk (poly_mul r (poly_add full m h))"
    and k: "limbVal (poly_add full m h) * limbVal r = limbVal (poly_mul r (poly_add full m h)) + prime * k" by blast
  moreover have "limbVal (poly_mul r (poly_add full m h)) mod prime
      = (limbVal h + leNat (take 16 m) + (if full then 2 ^ 128 else 0)) * limbVal r mod prime"
    unfolding add [symmetric] k by simp
  ultimately show ?thesis
    by (metis (no_types, opaque_lifting) mod_add_left_eq mod_mult_left_eq)
qed

lemma poly_blocks_correct:
  assumes "keyOk r" "accOk h"
  shows "accOk (poly_blocks r h m) \<and>
    limbVal (poly_blocks r h m) mod prime = polynomial (limbVal r) (limbVal h mod prime) m"
  using assms
proof (induction r h m rule: poly_blocks.induct)
  case (1 r h m)
  show ?case
  proof (cases "16 \<le> length m")
    case True
    have pow: "(256 :: nat) ^ 16 = 2 ^ 128" by simp
    note step = block_step [OF 1(2,3) True, of True]
    have "min 16 (length m) = 16" "m \<noteq> []" using True by auto
    then have "polynomial (limbVal r) (limbVal h mod prime) m
        = polynomial (limbVal r) (limbVal (poly_mul r (poly_add True m h)) mod prime) (drop 16 m)"
      using step pow by (subst polynomial.simps) simp
    moreover have "poly_blocks r h m = poly_blocks r (poly_mul r (poly_add True m h)) (drop 16 m)"
      using True by (subst poly_blocks.simps) simp
    ultimately show ?thesis
      using 1(1) [OF True 1(2)] step by simp
  next
    case False
    show ?thesis
    proof (cases "m = []")
      case True
      then show ?thesis using 1(3) by (simp add: poly_blocks.simps polynomial.simps)
    next
      case nonempty: False
      have len: "length (poly_pad m) = 16" using False by (simp add: poly_pad_def)
      note step = block_step [OF 1(2,3), of "poly_pad m" False]
      have "poly_blocks r h m = poly_mul r (poly_add False (poly_pad m) h)"
        using False nonempty by (subst poly_blocks.simps) simp
      moreover have "polynomial (limbVal r) (limbVal h mod prime) m
          = (limbVal h mod prime + leNat m + 256 ^ length m) * limbVal r mod prime"
        using False nonempty by (subst polynomial.simps) (simp add: polynomial.simps [of _ _ "[]"] min_def)
      ultimately show ?thesis
        using step len by (simp add: leNat_pad add.assoc)
    qed
  qed
qed

end
