(* ===== verification/Poly_Final.thy ===== *)
theory Poly_Final
  imports Poly_Auth
begin

text \<open>
  The final reduction of \<open>Poly1305\<close> and its output bytes, and the equality of \<open>poly1305_auth\<close> with the
  reference \<open>mac\<close>.
\<close>

section \<open>The remaining carries\<close>

fun canonOk :: "limbs \<Rightarrow> bool" where
  "canonOk (h0, h1, h2, h3, h4) \<longleftrightarrow>
     unat h0 < 67108864 \<and> unat h1 < 67108864 \<and> unat h2 < 67108864 \<and> unat h3 < 67108864 \<and> unat h4 < 67108864"

lemma unat_add_small:
  fixes a b :: u32
  shows "unat a < 2147483648 \<Longrightarrow> unat b < 2147483648 \<Longrightarrow> unat (a + b) = unat a + unat b"
  by (rule unat_add_exact) simp

lemma top_bits: "unat (drop_bit 26 (w :: u32)) < 64"
  using unat_u32_less [of w] by (simp add: unat_drop less_mult_imp_div_less)

lemma carry_add:
  fixes a b :: u32
  assumes "unat a < 2 ^ 26"
  shows "unat (a + drop_bit 26 b) = unat a + unat b div 2 ^ 26"
  using unat_add_small [of a "drop_bit 26 b"] top_bits [of b] assms by (simp add: unat_drop)

text \<open>A carry out of the top limb passes on through the lowest limb only if all limbs above it overflowed, and
  then the second limb is small.\<close>

lemma last_carry_fits:
  fixes u0 u1 :: nat
  assumes "h0 = 2 ^ 26 * b0 + u0" "h1 + b0 = 2 ^ 26 * b1 + u1" "h2 + b1 = 2 ^ 26 * b2 + u2"
    "h3 + b2 = 2 ^ 26 * b3 + u3" "h4 + b3 = 2 ^ 26 * b4 + u4" "u0 + 5 * b4 = 2 ^ 26 * b5 + v0"
    and "u0 < 2 ^ 26" "u1 < 2 ^ 26" "u2 < 2 ^ 26" "u3 < 2 ^ 26" "u4 < 2 ^ 26" "v0 < 2 ^ 26"
    and "h0 < 2797200000" "h1 < 2 ^ 26" "h2 < 2 ^ 26" "h3 < 2 ^ 26" "h4 < 2 ^ 26"
  shows "u1 + b5 < 2 ^ 26 \<and> b0 \<le> 41 \<and> b1 \<le> 1 \<and> b2 \<le> 1 \<and> b3 \<le> 1 \<and> b4 \<le> 1 \<and> b5 \<le> 1"
proof -
  have b: "b0 \<le> 41" "b1 \<le> 1" "b2 \<le> 1" "b3 \<le> 1" "b4 \<le> 1" "b5 \<le> 1"
    using assms by simp_all
  have "u1 + b5 < 2 ^ 26"
  proof (cases "b5 = 0")
    case True
    then show ?thesis using assms by simp
  next
    case False
    then have "b4 = 1" using assms(6,7) b by (cases "b4 = 0") auto
    then have "b3 = 1" using assms(5,17) b by (cases "b3 = 0") auto
    then have "b2 = 1" using assms(4,16) b by (cases "b2 = 0") auto
    then have "b1 = 1" using assms(3,15) b by (cases "b1 = 0") auto
    then show ?thesis using assms(2,14) b by simp
  qed
  then show ?thesis using b by blast
qed

lemma poly_carry_correct:
  assumes "accOk h"
  shows "canonOk (poly_carry h) \<and> (\<exists>k. limbVal h = limbVal (poly_carry h) + prime * k)"
proof -
  obtain h0 h1 h2 h3 h4 where h: "h = (h0, h1, h2, h3, h4)" by (metis prod_cases5)
  have bounds: "unat h0 < 2797200000" "unat h1 < 2 ^ 26" "unat h2 < 2 ^ 26" "unat h3 < 2 ^ 26" "unat h4 < 2 ^ 26"
    using assms by (simp_all add: h)
  define k1 where "k1 = h1 + drop_bit 26 h0"
  define k2 where "k2 = h2 + drop_bit 26 k1"
  define k3 where "k3 = h3 + drop_bit 26 k2"
  define k4 where "k4 = h4 + drop_bit 26 k3"
  define k0 where "k0 = (h0 AND 0x3ffffff) + drop_bit 26 k4 * 5"
  have carry: "poly_carry h = (k0 AND 0x3ffffff, (k1 AND 0x3ffffff) + drop_bit 26 k0, k2 AND 0x3ffffff,
      k3 AND 0x3ffffff, k4 AND 0x3ffffff)"
    by (simp add: poly_carry_def h k1_def k2_def k3_def k4_def k0_def Let_def)
  note d26 = top_bits
  have s: "unat k1 = unat h1 + unat h0 div 2 ^ 26" "unat k2 = unat h2 + unat k1 div 2 ^ 26"
    "unat k3 = unat h3 + unat k2 div 2 ^ 26" "unat k4 = unat h4 + unat k3 div 2 ^ 26"
    unfolding k1_def k2_def k3_def k4_def by (simp_all only: carry_add bounds)
  have s0: "unat k0 = unat h0 mod 2 ^ 26 + 5 * (unat k4 div 2 ^ 26)"
    using d26 [of k4] unfolding k0_def
    by (subst unat_add_small) (simp_all add: unat_and_mask26 unat_times5 unat_drop order_less_trans [OF mod_less_divisor])
  have eqs: "unat h0 = 2 ^ 26 * (unat h0 div 2 ^ 26) + unat h0 mod 2 ^ 26"
    "unat h1 + unat h0 div 2 ^ 26 = 2 ^ 26 * (unat k1 div 2 ^ 26) + unat k1 mod 2 ^ 26"
    "unat h2 + unat k1 div 2 ^ 26 = 2 ^ 26 * (unat k2 div 2 ^ 26) + unat k2 mod 2 ^ 26"
    "unat h3 + unat k2 div 2 ^ 26 = 2 ^ 26 * (unat k3 div 2 ^ 26) + unat k3 mod 2 ^ 26"
    "unat h4 + unat k3 div 2 ^ 26 = 2 ^ 26 * (unat k4 div 2 ^ 26) + unat k4 mod 2 ^ 26"
    "unat h0 mod 2 ^ 26 + 5 * (unat k4 div 2 ^ 26) = 2 ^ 26 * (unat k0 div 2 ^ 26) + unat k0 mod 2 ^ 26"
    by (simp_all only: s [symmetric] s0 [symmetric] mult_div_mod_eq)
  have fits: "unat k1 mod 2 ^ 26 + unat k0 div 2 ^ 26 < 2 ^ 26"
    by (rule conjunct1 [OF last_carry_fits [OF eqs]]) (use bounds in simp_all)
  then have "unat (k1 AND 0x3ffffff) + unat (drop_bit 26 k0) < 2 ^ 26" by (simp only: unat_and_mask26 unat_drop)
  then have s5: "unat ((k1 AND 0x3ffffff) + drop_bit 26 k0) = unat k1 mod 2 ^ 26 + unat k0 div 2 ^ 26"
    by (subst unat_add_small) (simp_all only: unat_and_mask26 unat_drop, simp_all)
  have "canonOk (poly_carry h)"
    unfolding carry canonOk.simps s5 unat_and_mask26 using fits by simp
  moreover have "limbSum (unat h0) (unat h1) (unat h2) (unat h3) (unat h4)
      = limbSum (unat k0 mod 2 ^ 26) (unat k1 mod 2 ^ 26 + unat k0 div 2 ^ 26) (unat k2 mod 2 ^ 26)
          (unat k3 mod 2 ^ 26) (unat k4 mod 2 ^ 26) + prime * (unat k4 div 2 ^ 26)"
    unfolding carries_fold [OF eqs(1-5)] eqs(6) by (simp add: limbSum_def)
  ultimately show ?thesis
    unfolding h limbVal.simps carry [unfolded h] s5 unat_and_mask26 by (metis h)
qed

section \<open>The choice\<close>

lemma limbSum_bound:
  assumes "a < 2 ^ 26" "b < 2 ^ 26" "c < 2 ^ 26" "d < 2 ^ 26" "e < 2 ^ 26"
  shows "limbSum a b c d e < 2 ^ 130"
  using assms by (simp add: limbSum_def)

lemma plus5:
  assumes "h0 + 5 = 2 ^ 26 * b0 + u0" "h1 + b0 = 2 ^ 26 * b1 + u1" "h2 + b1 = 2 ^ 26 * b2 + u2"
    "h3 + b2 = 2 ^ 26 * b3 + u3"
  shows "limbSum h0 h1 h2 h3 h4 + 5 = limbSum u0 u1 u2 u3 (h4 + b3)"
  using assms by (simp add: limbSum_def)

lemma plus5_top:
  fixes h0 h1 h2 h3 h4 :: nat
  assumes "h0 + 5 = 2 ^ 26 * b0 + u0" "h1 + b0 = 2 ^ 26 * b1 + u1" "h2 + b1 = 2 ^ 26 * b2 + u2"
    "h3 + b2 = 2 ^ 26 * b3 + u3" "h0 < 2 ^ 26" "h1 < 2 ^ 26" "h2 < 2 ^ 26" "h3 < 2 ^ 26" "h4 < 2 ^ 26"
  shows "h4 + b3 \<le> 2 ^ 26"
  using assms by simp

lemma select_word:
  fixes h g :: u32
  shows "(h AND NOT (1 - 1)) OR (g AND (1 - 1)) = h" "(h AND NOT (0 - 1)) OR (g AND (0 - 1)) = g"
  by simp_all

lemma poly_select_correct:
  assumes "canonOk h"
  shows "canonOk (poly_select h) \<and> limbVal (poly_select h) = limbVal h mod prime"
proof -
  obtain h0 h1 h2 h3 h4 where h: "h = (h0, h1, h2, h3, h4)" by (metis prod_cases5)
  have bounds: "unat h0 < 2 ^ 26" "unat h1 < 2 ^ 26" "unat h2 < 2 ^ 26" "unat h3 < 2 ^ 26" "unat h4 < 2 ^ 26"
    using assms by (simp_all add: h)
  define k0 where "k0 = h0 + 5"
  define k1 where "k1 = h1 + drop_bit 26 k0"
  define k2 where "k2 = h2 + drop_bit 26 k1"
  define k3 where "k3 = h3 + drop_bit 26 k2"
  define k4 where "k4 = h4 + drop_bit 26 k3"
  define g4 where "g4 = k4 - push_bit 26 1"
  define b where "b = drop_bit 31 g4 - 1"
  have select: "poly_select h = ((h0 AND NOT b) OR ((k0 AND 0x3ffffff) AND b), (h1 AND NOT b) OR ((k1 AND 0x3ffffff) AND b),
      (h2 AND NOT b) OR ((k2 AND 0x3ffffff) AND b), (h3 AND NOT b) OR ((k3 AND 0x3ffffff) AND b), (h4 AND NOT b) OR (g4 AND b))"
    by (simp add: poly_select_def h k0_def k1_def k2_def k3_def k4_def g4_def b_def Let_def)
  have "unat k0 = unat h0 + 5"
    unfolding k0_def using bounds(1) by (subst unat_add_small) simp_all
  moreover have "unat k1 = unat h1 + unat k0 div 2 ^ 26" "unat k2 = unat h2 + unat k1 div 2 ^ 26"
    "unat k3 = unat h3 + unat k2 div 2 ^ 26" "unat k4 = unat h4 + unat k3 div 2 ^ 26"
    unfolding k1_def k2_def k3_def k4_def by (simp_all only: carry_add bounds)
  ultimately have s: "unat k0 = unat h0 + 5" "unat k1 = unat h1 + unat k0 div 2 ^ 26"
    "unat k2 = unat h2 + unat k1 div 2 ^ 26" "unat k3 = unat h3 + unat k2 div 2 ^ 26"
    "unat k4 = unat h4 + unat k3 div 2 ^ 26"
    by blast+
  have eqs: "unat h0 + 5 = 2 ^ 26 * (unat k0 div 2 ^ 26) + unat k0 mod 2 ^ 26"
    "unat h1 + unat k0 div 2 ^ 26 = 2 ^ 26 * (unat k1 div 2 ^ 26) + unat k1 mod 2 ^ 26"
    "unat h2 + unat k1 div 2 ^ 26 = 2 ^ 26 * (unat k2 div 2 ^ 26) + unat k2 mod 2 ^ 26"
    "unat h3 + unat k2 div 2 ^ 26 = 2 ^ 26 * (unat k3 div 2 ^ 26) + unat k3 mod 2 ^ 26"
    by (simp_all only: s [symmetric] mult_div_mod_eq)
  have sum: "limbVal h + 5
      = limbSum (unat k0 mod 2 ^ 26) (unat k1 mod 2 ^ 26) (unat k2 mod 2 ^ 26) (unat k3 mod 2 ^ 26) (unat k4)"
    unfolding h limbVal.simps s(5) by (rule plus5 [OF eqs])
  have top: "unat k4 \<le> 2 ^ 26" unfolding s(5) by (rule plus5_top [OF eqs]) (use bounds in simp_all)
  have V: "limbVal h < 2 ^ 130" unfolding h limbVal.simps by (rule limbSum_bound) (use bounds in simp_all)
  show ?thesis
  proof (cases "unat k4 = 2 ^ 26")
    case True
    then have "k4 = push_bit 26 1" by (simp add: word_unat_eq_iff)
    then have "g4 = 0" by (simp add: g4_def)
    then have b: "b = 0 - 1" by (simp add: b_def)
    have sel: "poly_select h = (k0 AND 0x3ffffff, k1 AND 0x3ffffff, k2 AND 0x3ffffff, k3 AND 0x3ffffff, 0)"
      unfolding select b select_word \<open>g4 = 0\<close> by simp
    have "limbVal h + 5 = limbVal (poly_select h) + 2 ^ 130"
      unfolding sum True sel limbVal.simps unat_and_mask26 by (simp add: limbSum_def)
    then have "limbVal h = limbVal (poly_select h) + prime" by (simp add: prime_def)
    moreover have "limbVal (poly_select h) < prime" using V calculation by (simp add: prime_def)
    ultimately have "limbVal (poly_select h) = limbVal h mod prime" by simp
    moreover have "canonOk (poly_select h)" unfolding sel canonOk.simps unat_and_mask26 by simp
    ultimately show ?thesis by blast
  next
    case False
    then have lt: "unat k4 < 2 ^ 26" using top by simp
    have "g4 = k4 + 4227858432"
      unfolding g4_def by (subst eq_iff_diff_eq_0) simp
    then have "unat g4 = unat k4 + 4227858432" using lt by (simp add: unat_add_exact)
    then have "unat (drop_bit 31 g4) = 1" using lt by (simp add: unat_drop)
    then have "drop_bit 31 g4 = 1" by (simp add: word_unat_eq_iff)
    then have b: "b = 1 - 1" by (simp add: b_def)
    have sel: "poly_select h = h" using select unfolding b select_word h .
    have "limbVal h + 5 < 2 ^ 130" unfolding sum by (rule limbSum_bound) (use lt in simp_all)
    then have "limbVal h < prime" by (simp add: prime_def)
    then show ?thesis using sel assms by simp
  qed
qed

section \<open>The output\<close>

lemma leBytes_4:
  "leBytes 4 x = [word_of_nat x, word_of_nat (x div 256), word_of_nat (x div 65536), word_of_nat (x div 16777216)]"
proof -
  have four: "4 = Suc (Suc (Suc (Suc 0)))" by simp
  show ?thesis unfolding four by (simp add: div_mult2_eq [symmetric])
qed

lemma byte_mod: "(word_of_nat a :: u8) = word_of_nat (a mod 256)"
  by (simp add: word_of_nat_eq_iff take_bit_eq_mod)

lemma mod_div_mod:
  fixes x a b c :: nat
  shows "x mod (a * (b * c)) div a mod b = x div a mod b"
  by (cases "a = 0") (simp_all add: mod_mult2_eq)

lemma leBytes_4_mod: "leBytes 4 (x mod 2 ^ 32) = leBytes 4 x"
proof -
  have "x mod 2 ^ 32 mod 256 = x mod 256" by (simp add: mod_mod_cancel)
  moreover have "x mod 2 ^ 32 div 256 mod 256 = x div 256 mod 256"
    using mod_div_mod [of x 256 256 65536] by simp
  moreover have "x mod 2 ^ 32 div 65536 mod 256 = x div 65536 mod 256"
    using mod_div_mod [of x 65536 256 256] by simp
  moreover have "x mod 2 ^ 32 div 16777216 mod 256 = x div 16777216 mod 256"
    using mod_div_mod [of x 16777216 256 1] by simp
  ultimately show ?thesis
    unfolding leBytes_4 by (metis byte_mod)
qed

lemma leBytes_append: "leBytes (m + n) x = leBytes m x @ leBytes n (x div 256 ^ m)"
  by (induction m arbitrary: x) (simp_all add: div_mult2_eq)

lemma U32TO8_LE_bytes: "U32TO8_LE f = leBytes 4 (unat f)"
proof -
  have byte: "(ucast (drop_bit n f) :: u8) = word_of_nat (unat f div 2 ^ n)" for n
    by (simp add: word_unat_eq_iff unat_ucast_byte unat_of_nat unat_drop)
  show ?thesis using byte [of 0] byte [of 8] byte [of 16] byte [of 24] by (simp add: U32TO8_LE_def leBytes_4)
qed

text \<open>Sixteen bytes are the bytes of four sums with their carries.\<close>

lemma leBytes_words:
  assumes "f1 = w1 + f0 div 2 ^ 32" "f2 = w2 + f1 div 2 ^ 32" "f3 = w3 + f2 div 2 ^ 32"
  shows "leBytes 16 (wordSum f0 w1 w2 w3 + 2 ^ 128 * q) = leBytes 4 f0 @ leBytes 4 f1 @ leBytes 4 f2 @ leBytes 4 f3"
proof -
  have step: "leBytes (4 + n) (f + 2 ^ 32 * x) = leBytes 4 f @ leBytes n (f div 2 ^ 32 + x)" for n f x
  proof -
    have "leBytes 4 (f + 2 ^ 32 * x) = leBytes 4 f"
      using leBytes_4_mod [of "f + 2 ^ 32 * x"] leBytes_4_mod [of f] by simp
    moreover have "(f + 2 ^ 32 * x) div 256 ^ 4 = f div 2 ^ 32 + x" by simp
    ultimately show ?thesis unfolding leBytes_append by argo
  qed
  have "leBytes (4 + (4 + (4 + (4 + 0)))) (f0 + 2 ^ 32 * (w1 + 2 ^ 32 * (w2 + 2 ^ 32 * (w3 + 2 ^ 32 * q))))
      = leBytes 4 f0 @ leBytes 4 f1 @ leBytes 4 f2 @ leBytes 4 f3"
  proof -
    have "f0 div 2 ^ 32 + (w1 + x) = f1 + x" "f1 div 2 ^ 32 + (w2 + x) = f2 + x" "f2 div 2 ^ 32 + (w3 + x) = f3 + x" for x
      unfolding assms by simp_all
    note carries = this
    show ?thesis unfolding step carries by simp
  qed
  moreover have "wordSum f0 w1 w2 w3 + 2 ^ 128 * q = f0 + 2 ^ 32 * (w1 + 2 ^ 32 * (w2 + 2 ^ 32 * (w3 + 2 ^ 32 * q)))"
    by (simp add: wordSum_def distrib_left)
  moreover have "4 + (4 + (4 + (4 + 0))) = (16 :: nat)" by simp
  ultimately show ?thesis by metis
qed

lemma unat_join:
  fixes lo hi :: u32
  assumes "unat lo < 2 ^ n" "n \<le> 32"
  shows "unat (lo OR push_bit n hi) = unat lo + 2 ^ n * (unat hi mod 2 ^ (32 - n))"
  using unat_or_push [of lo n hi] assms by simp

lemma low_words:
  fixes a b c d e :: nat
  shows "limbSum a b c d e = wordSum (a + 2 ^ 26 * (b mod 2 ^ 6)) (b div 2 ^ 6 + 2 ^ 20 * (c mod 2 ^ 12))
      (c div 2 ^ 12 + 2 ^ 14 * (d mod 2 ^ 18)) (d div 2 ^ 18 + 2 ^ 8 * (e mod 2 ^ 24)) + 2 ^ 128 * (e div 2 ^ 24)"
proof -
  have "limbSum a (2 ^ 6 * b1 + b0) (2 ^ 12 * c1 + c0) (2 ^ 18 * d1 + d0) (2 ^ 24 * e1 + e0)
    = wordSum (a + 2 ^ 26 * b0) (b1 + 2 ^ 20 * c0) (c1 + 2 ^ 14 * d0) (d1 + 2 ^ 8 * e0) + 2 ^ 128 * e1"
    for b0 b1 c0 c1 d0 d1 e0 e1
    by (simp add: limbSum_def wordSum_def)
  from this [of "b div 2 ^ 6" "b mod 2 ^ 6" "c div 2 ^ 12" "c mod 2 ^ 12" "d div 2 ^ 18" "d mod 2 ^ 18"
      "e div 2 ^ 24" "e mod 2 ^ 24"]
  show ?thesis unfolding mult_div_mod_eq .
qed

lemma poly_tag_correct:
  assumes "canonOk h" "32 \<le> length key"
  shows "poly_tag key h = leBytes 16 (limbVal h + leNat (take 16 (drop 16 key)))"
proof -
  obtain h0 h1 h2 h3 h4 where h: "h = (h0, h1, h2, h3, h4)" by (metis prod_cases5)
  have b: "unat h0 < 2 ^ 26" "unat h1 < 2 ^ 26" "unat h2 < 2 ^ 26" "unat h3 < 2 ^ 26" "unat h4 < 2 ^ 26"
    using assms by (simp_all add: h)
  define s0 s1 s2 s3 where s: "s0 = U8TO32_LE (drop 16 key)" "s1 = U8TO32_LE (drop 20 key)"
    "s2 = U8TO32_LE (drop 24 key)" "s3 = U8TO32_LE (drop 28 key)"
  define v0 v1 v2 v3 where v: "v0 = h0 OR push_bit 26 h1" "v1 = drop_bit 6 h1 OR push_bit 20 h2"
    "v2 = drop_bit 12 h2 OR push_bit 14 h3" "v3 = drop_bit 18 h3 OR push_bit 8 h4"
  define f0 f1 f2 f3 :: u64 where f: "f0 = ucast v0 + ucast s0" "f1 = ucast v1 + ucast s1 + drop_bit 32 f0"
    "f2 = ucast v2 + ucast s2 + drop_bit 32 f1" "f3 = ucast v3 + ucast s3 + drop_bit 32 f2"
  have tag: "poly_tag key h = leBytes 4 (unat f0) @ leBytes 4 (unat f1) @ leBytes 4 (unat f2) @ leBytes 4 (unat f3)"
    by (simp add: poly_tag_def h U32TO8_LE_bytes Let_def s v f)
  have vs: "unat v0 = unat h0 + 2 ^ 26 * (unat h1 mod 2 ^ 6)" "unat v1 = unat h1 div 2 ^ 6 + 2 ^ 20 * (unat h2 mod 2 ^ 12)"
    "unat v2 = unat h2 div 2 ^ 12 + 2 ^ 14 * (unat h3 mod 2 ^ 18)" "unat v3 = unat h3 div 2 ^ 18 + 2 ^ 8 * (unat h4 mod 2 ^ 24)"
    using b unfolding v by (subst unat_join, simp_all add: unat_drop less_mult_imp_div_less)+
  note lt = unat_u32_less
  have d: "unat w div 2 ^ 32 < 2 ^ 32" for w :: u64
    using unat_u64_less [of w] by (simp add: less_mult_imp_div_less)
  have fs: "unat f0 = unat v0 + unat s0" "unat f1 = unat v1 + unat s1 + unat f0 div 2 ^ 32"
    "unat f2 = unat v2 + unat s2 + unat f1 div 2 ^ 32" "unat f3 = unat v3 + unat s3 + unat f2 div 2 ^ 32"
    using lt [of v0] lt [of s0] lt [of v1] lt [of s1] lt [of v2] lt [of s2] lt [of v3] lt [of s3] d [of f0] d [of f1] d [of f2]
    unfolding f(1) f(2) [of] f(3) f(4)
    by (simp_all add: unat_add_exact unat_ucast_up unat_drop)
  have key: "leNat (take 16 (drop 16 key)) = wordSum (unat s0) (unat s1) (unat s2) (unat s3)"
    using leNat_16 [of "take 16 (drop 16 key)"] assms(2) by (simp add: s unat_U8TO32_LE)
  have "limbVal h + leNat (take 16 (drop 16 key))
      = wordSum (unat f0) (unat v1 + unat s1) (unat v2 + unat s2) (unat v3 + unat s3) + 2 ^ 128 * (unat h4 div 2 ^ 24)"
    unfolding h limbVal.simps low_words key vs [symmetric] fs(1) by (simp add: wordSum_def)
  then show ?thesis
    unfolding tag using leBytes_words [OF fs(2-4), where q = "unat h4 div 2 ^ 24"] by metis
qed

section \<open>The authenticator\<close>

text \<open>C13. The authenticator computes what it is meant to: on every message and every key of 32 bytes, the limb
  arithmetic with its delayed carries gives the tag of the reference, the polynomial modulo \<open>2 ^ 130 - 5\<close> plus the
  second half of the key, modulo \<open>2 ^ 128\<close>.\<close>

theorem poly1305_is_mac:
  assumes "length key = 32"
  shows "poly1305_auth m key = mac m key"
proof -
  have len: "32 \<le> length key" using assms by simp
  have zero: "accOk (0, 0, 0, 0, 0)" "limbVal (0, 0, 0, 0, 0) = 0" by (simp_all add: limbSum_def)
  let ?h = "poly_blocks (poly_key key) (0, 0, 0, 0, 0) m"
  from poly_blocks_correct [OF conjunct1 [OF poly_key_correct] zero(1), of key m]
  have acc: "accOk ?h" and val: "limbVal ?h mod prime = polynomial (multiplier key) 0 m"
    unfolding zero(2) multiplier_words [OF len] by simp_all
  from poly_carry_correct [OF acc] have canon: "canonOk (poly_carry ?h)"
    and "limbVal (poly_carry ?h) mod prime = limbVal ?h mod prime" by (auto simp del: poly_blocks.simps)
  then have "limbVal (poly_select (poly_carry ?h)) = polynomial (multiplier key) 0 m"
    using poly_select_correct [OF canon] val by simp
  then show ?thesis
    unfolding poly1305_auth_def mac_def
    using poly_tag_correct [OF conjunct1 [OF poly_select_correct [OF canon]] len] by simp
qed

end
