(* ===== verification/Chachapoly.thy ===== *)
theory Chachapoly
  imports Chacha Poly_Final
begin

text \<open>
  Authenticated encryption of SSH packets, \<open>chacha20-poly1305@openssh.com\<close>:
  \<open>src/experimental_libs/OrangeBoxLibssh2Esp/src/cipher-chachapoly.c\<close>, and its use in \<open>crypt.c\<close>, where the
  packet is encrypted in place.  The header key encrypts the packet length, the main key the rest; block 0 of the
  main key stream is the key of the authenticator.
\<close>

section \<open>The code\<close>

record chachapoly_ctx =
  main_ctx :: "u32 list"
  header_ctx :: "u32 list"

definition LIBSSH2_ERROR_INVAL :: int where "LIBSSH2_ERROR_INVAL = -34"
definition LIBSSH2_ERROR_DECRYPT :: int where "LIBSSH2_ERROR_DECRYPT = -12"
definition POLY1305_TAGLEN :: nat where "POLY1305_TAGLEN = 16"
definition POLY1305_KEYLEN :: nat where "POLY1305_KEYLEN = 32"

text \<open>Big-endian numbers of \<open>misc.c\<close>.\<close>

definition ntohu32 :: "bytes \<Rightarrow> u32" where
  "ntohu32 buf = push_bit 24 (ucast (buf ! 0)) OR push_bit 16 (ucast (buf ! 1)) OR push_bit 8 (ucast (buf ! 2))
     OR ucast (buf ! 3)"

definition store_u32 :: "u32 \<Rightarrow> bytes" where
  "store_u32 v = [ucast (drop_bit 24 v), ucast (drop_bit 16 v), ucast (drop_bit 8 v), ucast v]"

definition store_u64 :: "u64 \<Rightarrow> bytes" where
  "store_u64 v = [ucast (drop_bit 56 v), ucast (drop_bit 48 v), ucast (drop_bit 40 v), ucast (drop_bit 32 v),
     ucast (drop_bit 24 v), ucast (drop_bit 16 v), ucast (drop_bit 8 v), ucast v]"

definition chachapoly_timingsafe_bcmp :: "bytes \<Rightarrow> bytes \<Rightarrow> nat \<Rightarrow> int" where
  "chachapoly_timingsafe_bcmp b1 b2 n =
     (let ret = foldl (\<lambda>ret i. ret OR (b1 ! i XOR b2 ! i)) 0 [0..<n] in if ret \<noteq> 0 then 1 else 0)"

definition chachapoly_init :: "bytes \<Rightarrow> nat \<Rightarrow> chachapoly_ctx \<Rightarrow> int \<times> chachapoly_ctx" where
  "chachapoly_init key keylen ctx =
     (if keylen \<noteq> 32 + 32 then (LIBSSH2_ERROR_INVAL, ctx)
      else (0, ctx\<lparr>main_ctx := chacha_keysetup key 256 (main_ctx ctx),
                   header_ctx := chacha_keysetup (drop 32 key) 256 (header_ctx ctx)\<rparr>))"

text \<open>
  The destination is returned: on a tag that does not match it is as it was, otherwise its first bytes are the
  result.  \<open>tmp\<close> is the uninitialised stack buffer of the cipher.
\<close>

definition chachapoly_crypt ::
  "bytes \<Rightarrow> chachapoly_ctx \<Rightarrow> u32 \<Rightarrow> bytes \<Rightarrow> bytes \<Rightarrow> nat \<Rightarrow> nat \<Rightarrow> bool \<Rightarrow> int \<times> bytes \<times> chachapoly_ctx" where
  "chachapoly_crypt tmp ctx seqnr dest src len aadlen do_encrypt =
     (let seqbuf = store_u64 (ucast seqnr); one = [1, 0, 0, 0, 0, 0, 0, 0];
          (poly_key, x) = chacha_encrypt_bytes tmp (chacha_ivsetup seqbuf None (main_ctx ctx))
             (replicate POLY1305_KEYLEN 0);
          tag = take POLY1305_TAGLEN (drop (aadlen + len) src);
          expected_tag = poly1305_auth (take (aadlen + len) src) poly_key
      in if \<not> do_encrypt \<and> chachapoly_timingsafe_bcmp expected_tag tag POLY1305_TAGLEN \<noteq> 0
         then (LIBSSH2_ERROR_DECRYPT, dest, ctx\<lparr>main_ctx := x\<rparr>)
         else
           let (hdr, y) = (if aadlen \<noteq> 0
                 then chacha_encrypt_bytes tmp (chacha_ivsetup seqbuf None (header_ctx ctx)) (take aadlen src)
                 else ([], header_ctx ctx));
               (body, x) = chacha_encrypt_bytes tmp (chacha_ivsetup seqbuf (Some one) x) (take len (drop aadlen src));
               out = hdr @ body @ (if do_encrypt then poly1305_auth (hdr @ body) poly_key else [])
           in (0, out @ drop (length out) dest, ctx\<lparr>main_ctx := x, header_ctx := y\<rparr>))"

definition chachapoly_get_length :: "bytes \<Rightarrow> chachapoly_ctx \<Rightarrow> u32 \<Rightarrow> bytes \<Rightarrow> nat \<Rightarrow> (int \<times> u32 option) \<times> chachapoly_ctx" where
  "chachapoly_get_length tmp ctx seqnr cp len =
     (if len < 4 then ((-1, None), ctx)
      else case chacha_encrypt_bytes tmp (chacha_ivsetup (store_u64 (ucast seqnr)) None (header_ctx ctx)) (take 4 cp) of
        (buf, y) \<Rightarrow> ((0, Some (ntohu32 buf)), ctx\<lparr>header_ctx := y\<rparr>))"

text \<open>\<open>crypt.c\<close>: the packet in its buffer, with four bytes of length; after decryption the length is moved away.\<close>

definition crypt_encrypt_chacha20_poly_buffer ::
  "bytes \<Rightarrow> bool \<Rightarrow> chachapoly_ctx \<Rightarrow> u32 \<Rightarrow> bytes \<Rightarrow> nat \<Rightarrow> int \<times> bytes \<times> chachapoly_ctx" where
  "crypt_encrypt_chacha20_poly_buffer tmp encrypt ctx seqno buf buf_len =
     (if encrypt then
        (case chachapoly_crypt tmp ctx seqno buf buf (buf_len - 4) 4 True of
           (ret, buf, ctx) \<Rightarrow> (if ret = 0 then 0 else 1, buf, ctx))
      else
        (case chachapoly_crypt tmp ctx seqno buf buf buf_len 4 False of
           (ret, buf, ctx) \<Rightarrow>
             (if ret = 0 then 0 else 1,
              if ret = 0 then take (buf_len - 4) (drop 4 buf) @ drop (buf_len - 4) buf else buf, ctx)))"

section \<open>Comparison, contexts and key streams\<close>

lemma or_eq_0_iff: "a OR b = 0 \<longleftrightarrow> a = 0 \<and> b = 0" for a b :: u8
  by (auto simp: bit_eq_iff bit_simps)

lemma xor_eq_0_iff: "a XOR b = 0 \<longleftrightarrow> a = b" for a b :: u8
  by (auto simp: bit_eq_iff bit_simps dest: bit_imp_le_length)

lemma fold_or_0: "foldl (\<lambda>ret i. ret OR f i) r xs = 0 \<longleftrightarrow> r = 0 \<and> (\<forall>i\<in>set xs. f i = 0)" for r :: u8
  by (induction xs arbitrary: r) (auto simp: or_eq_0_iff)

lemma bcmp_eq_0: "chachapoly_timingsafe_bcmp a b n = 0 \<longleftrightarrow> (\<forall>i<n. a ! i = b ! i)"
  by (simp add: chachapoly_timingsafe_bcmp_def Let_def fold_or_0 xor_eq_0_iff) (auto simp: atLeast0LessThan)

lemma bcmp_tags:
  assumes "length a = n" "n \<le> length b"
  shows "chachapoly_timingsafe_bcmp a b n = 0 \<longleftrightarrow> a = take n b"
  using assms by (simp add: bcmp_eq_0 list_eq_iff_nth_eq)

text \<open>The key streams of a packet, which depend on the sequence number and on the first twelve words of a context
  only.\<close>

definition ctxOk :: "chachapoly_ctx \<Rightarrow> bool" where
  "ctxOk ctx \<longleftrightarrow> length (main_ctx ctx) = 16 \<and> length (header_ctx ctx) = 16"

definition sameKeys :: "chachapoly_ctx \<Rightarrow> chachapoly_ctx \<Rightarrow> bool" where
  "sameKeys a b \<longleftrightarrow> take 12 (main_ctx a) = take 12 (main_ctx b) \<and> take 12 (header_ctx a) = take 12 (header_ctx b)"

definition headerStream :: "chachapoly_ctx \<Rightarrow> u32 \<Rightarrow> nat \<Rightarrow> bytes" where
  "headerStream ctx seqnr n = keystream (chacha_ivsetup (store_u64 (ucast seqnr)) None (header_ctx ctx)) n"

definition mainStream :: "chachapoly_ctx \<Rightarrow> u32 \<Rightarrow> nat \<Rightarrow> bytes" where
  "mainStream ctx seqnr n =
     keystream (chacha_ivsetup (store_u64 (ucast seqnr)) (Some [1, 0, 0, 0, 0, 0, 0, 0]) (main_ctx ctx)) n"

definition packetKey :: "chachapoly_ctx \<Rightarrow> u32 \<Rightarrow> bytes" where
  "packetKey ctx seqnr = keystream (chacha_ivsetup (store_u64 (ucast seqnr)) None (main_ctx ctx)) 32"

lemma ivsetup_keys: "take 12 x = take 12 y \<Longrightarrow> chacha_ivsetup iv c x = chacha_ivsetup iv c y"
  by (simp add: chacha_ivsetup_def)

lemma streams_sameKeys:
  assumes "sameKeys a b"
  shows "headerStream a = headerStream b" "mainStream a = mainStream b" "packetKey a = packetKey b"
  using assms ivsetup_keys [of "main_ctx a" "main_ctx b"] ivsetup_keys [of "header_ctx a" "header_ctx b"]
  by (simp_all add: fun_eq_iff headerStream_def mainStream_def packetKey_def sameKeys_def)

lemma length_keystream [simp]:
  assumes "length j = 16"
  shows "length (keystream j n) = n"
proof -
  have "length (concat (map (\<lambda>i. keyBlock (setCounter j (blockCounter j + of_nat i))) [0..<k])) = 64 * k" for k
    by (induction k) (simp_all add: assms)
  moreover have "n \<le> 64 * ((n + 63) div 64)" by linarith
  ultimately show ?thesis by (simp add: keystream_def)
qed

lemma xor_twice: "length k = length m \<Longrightarrow> map2 (XOR) k (map2 (XOR) k m) = m" for k m :: bytes
  by (rule nth_equalityI) (simp_all add: xor.assoc [symmetric])

lemma xor_zeros: "map2 (XOR) k (replicate (length k) 0) = (k :: bytes)"
  by (rule nth_equalityI) simp_all

lemma take_12_counter: "take 12 (setCounter (chacha_ivsetup iv c x) n) = take 12 x" if "length x = 16"
  using that by (simp add: setCounter_def chacha_ivsetup_def take_update_cancel)

section \<open>What the packet functions compute\<close>

lemma length_streams [simp]:
  "ctxOk ctx \<Longrightarrow> length (headerStream ctx seqnr n) = n"
  "ctxOk ctx \<Longrightarrow> length (mainStream ctx seqnr n) = n"
  "ctxOk ctx \<Longrightarrow> length (packetKey ctx seqnr) = 32"
  by (simp_all add: headerStream_def mainStream_def packetKey_def ctxOk_def)

definition sealed :: "chachapoly_ctx \<Rightarrow> u32 \<Rightarrow> nat \<Rightarrow> bytes \<Rightarrow> bytes" where
  "sealed ctx seqnr aadlen m =
     map2 (XOR) (headerStream ctx seqnr aadlen) (take aadlen m)
     @ map2 (XOR) (mainStream ctx seqnr (length m - aadlen)) (drop aadlen m)"

lemma length_sealed [simp]: "ctxOk ctx \<Longrightarrow> aadlen \<le> length m \<Longrightarrow> length (sealed ctx seqnr aadlen m) = length m"
  by (simp add: sealed_def)

lemma sealed_twice:
  assumes "ctxOk ctx" "aadlen \<le> length m"
  shows "sealed ctx seqnr aadlen (sealed ctx seqnr aadlen m) = m"
proof -
  let ?a = "map2 (XOR) (headerStream ctx seqnr aadlen) (take aadlen m)"
  let ?b = "map2 (XOR) (mainStream ctx seqnr (length m - aadlen)) (drop aadlen m)"
  have "length ?a = aadlen" "length ?b = length m - aadlen" using assms by simp_all
  then have "take aadlen (?a @ ?b) = ?a" "drop aadlen (?a @ ?b) = ?b" "length (?a @ ?b) - aadlen = length m - aadlen"
    by simp_all
  then have "sealed ctx seqnr aadlen (?a @ ?b) = take aadlen m @ drop aadlen m"
    using assms unfolding sealed_def [of ctx seqnr aadlen "?a @ ?b"] by (simp add: xor_twice del: append_take_drop_id)
  then show ?thesis by (simp add: sealed_def)
qed

text \<open>The contexts after the authenticator's key has been taken and after the whole packet.\<close>

definition keyedCtx :: "chachapoly_ctx \<Rightarrow> u32 \<Rightarrow> chachapoly_ctx" where
  "keyedCtx ctx seqnr = (let j = chacha_ivsetup (store_u64 (ucast seqnr)) None (main_ctx ctx)
     in ctx\<lparr>main_ctx := setCounter j (blockCounter j + 1)\<rparr>)"

definition finalCtx :: "chachapoly_ctx \<Rightarrow> u32 \<Rightarrow> nat \<Rightarrow> nat \<Rightarrow> chachapoly_ctx" where
  "finalCtx ctx seqnr aadlen len =
     (let j = chacha_ivsetup (store_u64 (ucast seqnr)) (Some [1, 0, 0, 0, 0, 0, 0, 0]) (main_ctx ctx);
          k = chacha_ivsetup (store_u64 (ucast seqnr)) None (header_ctx ctx)
      in ctx\<lparr>main_ctx := setCounter j (blockCounter j + of_nat ((len + 63) div 64)),
             header_ctx := if aadlen \<noteq> 0 then setCounter k (blockCounter k + of_nat ((aadlen + 63) div 64))
                           else header_ctx ctx\<rparr>)"

lemma contexts_same_keys:
  assumes "ctxOk ctx"
  shows "sameKeys ctx (keyedCtx ctx seqnr)" "sameKeys ctx (finalCtx ctx seqnr aadlen len)"
    "ctxOk (keyedCtx ctx seqnr)" "ctxOk (finalCtx ctx seqnr aadlen len)"
  using assms by (simp_all add: sameKeys_def ctxOk_def keyedCtx_def finalCtx_def Let_def take_12_counter)

lemma poly_key_stream:
  assumes "ctxOk ctx" "length tmp = 64"
  shows "chacha_encrypt_bytes tmp (chacha_ivsetup (store_u64 (ucast seqnr)) None (main_ctx ctx)) (replicate POLY1305_KEYLEN 0)
    = (packetKey ctx seqnr, main_ctx (keyedCtx ctx seqnr))"
  using assms xor_zeros [of "packetKey ctx seqnr"]
  by (simp add: chacha_counter_mode ctxOk_def POLY1305_KEYLEN_def packetKey_def keyedCtx_def Let_def)

lemma header_stream:
  assumes "ctxOk ctx" "length tmp = 64" "aadlen \<le> length src"
  shows "(if aadlen \<noteq> 0
       then chacha_encrypt_bytes tmp (chacha_ivsetup (store_u64 (ucast seqnr)) None (header_ctx ctx)) (take aadlen src)
       else ([], header_ctx ctx))
    = (map2 (XOR) (headerStream ctx seqnr aadlen) (take aadlen src), header_ctx (finalCtx ctx seqnr aadlen len))"
  using assms by (simp add: chacha_counter_mode ctxOk_def headerStream_def finalCtx_def Let_def min_absorb2)

lemma body_stream:
  assumes "ctxOk ctx" "length tmp = 64" "length m = len"
  shows "chacha_encrypt_bytes tmp (chacha_ivsetup (store_u64 (ucast seqnr)) (Some [1, 0, 0, 0, 0, 0, 0, 0])
      (main_ctx (keyedCtx ctx seqnr))) m
    = (map2 (XOR) (mainStream ctx seqnr len) m, main_ctx (finalCtx ctx seqnr aadlen len))"
proof -
  have "chacha_ivsetup (store_u64 (ucast seqnr)) (Some [1, 0, 0, 0, 0, 0, 0, 0]) (main_ctx (keyedCtx ctx seqnr))
      = chacha_ivsetup (store_u64 (ucast seqnr)) (Some [1, 0, 0, 0, 0, 0, 0, 0]) (main_ctx ctx)"
    using contexts_same_keys(1) [OF assms(1), of seqnr] by (intro ivsetup_keys) (simp add: sameKeys_def)
  then show ?thesis
    using assms by (simp add: chacha_counter_mode ctxOk_def mainStream_def finalCtx_def Let_def)
qed

lemma length_mac [simp]: "length (mac m key) = 16"
proof -
  have "length (leBytes n v) = n" for n v by (induction n arbitrary: v) simp_all
  then show ?thesis by (simp add: mac_def)
qed

lemma chachapoly_crypt_computes:
  assumes "ctxOk ctx" "length tmp = 64" "aadlen + len \<le> length src" "do_encrypt \<or> aadlen + len + 16 \<le> length src"
  defines "m \<equiv> take (aadlen + len) src"
  shows "chachapoly_crypt tmp ctx seqnr dest src len aadlen do_encrypt =
    (if \<not> do_encrypt \<and> take 16 (drop (aadlen + len) src) \<noteq> mac m (packetKey ctx seqnr)
     then (LIBSSH2_ERROR_DECRYPT, dest, keyedCtx ctx seqnr)
     else let c = sealed ctx seqnr aadlen m;
              out = c @ (if do_encrypt then mac c (packetKey ctx seqnr) else [])
          in (0, out @ drop (length out) dest, finalCtx ctx seqnr aadlen len))"
proof -
  have len: "length m = aadlen + len" using assms by simp
  have tag: "poly1305_auth m' (packetKey ctx seqnr) = mac m' (packetKey ctx seqnr)" for m'
    by (rule poly1305_is_mac) (simp add: assms)
  have cmp: "chachapoly_timingsafe_bcmp (mac m (packetKey ctx seqnr)) (take 16 (drop (aadlen + len) src)) 16 \<noteq> 0
      \<longleftrightarrow> take 16 (drop (aadlen + len) src) \<noteq> mac m (packetKey ctx seqnr)" if "\<not> do_encrypt"
    using that assms(4) by (subst bcmp_tags) auto
  then have guard: "(\<not> do_encrypt \<and>
      chachapoly_timingsafe_bcmp (mac m (packetKey ctx seqnr)) (take 16 (drop (aadlen + len) src)) 16 \<noteq> 0)
    \<longleftrightarrow> (\<not> do_encrypt \<and> take 16 (drop (aadlen + len) src) \<noteq> mac m (packetKey ctx seqnr))"
    by blast
  have hdr: "take aadlen src = take aadlen m" by (simp add: m_def min_absorb1)
  have body: "take len (drop aadlen src) = drop aadlen m" by (simp add: m_def drop_take)
  have ctx: "ctx\<lparr>main_ctx := main_ctx (finalCtx ctx seqnr aadlen len),
      header_ctx := header_ctx (finalCtx ctx seqnr aadlen len)\<rparr> = finalCtx ctx seqnr aadlen len"
    "ctx\<lparr>main_ctx := main_ctx (keyedCtx ctx seqnr)\<rparr> = keyedCtx ctx seqnr"
    by (simp_all add: finalCtx_def keyedCtx_def Let_def)
  have hs: "(if aadlen \<noteq> 0
       then chacha_encrypt_bytes tmp (chacha_ivsetup (store_u64 (ucast seqnr)) None (header_ctx ctx)) (take aadlen m)
       else ([], header_ctx ctx))
    = (map2 (XOR) (headerStream ctx seqnr aadlen) (take aadlen m), header_ctx (finalCtx ctx seqnr aadlen len))"
    by (rule header_stream) (use assms len in simp_all)
  have bs: "chacha_encrypt_bytes tmp (chacha_ivsetup (store_u64 (ucast seqnr)) (Some [1, 0, 0, 0, 0, 0, 0, 0])
      (main_ctx (keyedCtx ctx seqnr))) (drop aadlen m)
    = (map2 (XOR) (mainStream ctx seqnr (length m - aadlen)) (drop aadlen m), main_ctx (finalCtx ctx seqnr aadlen len))"
    using body_stream [OF assms(1,2), of "drop aadlen m" len] len by simp
  show ?thesis
    unfolding chachapoly_crypt_def Let_def poly_key_stream [OF assms(1,2)] prod.case m_def [symmetric]
      POLY1305_TAGLEN_def hdr body hs bs tag guard
    by (simp add: ctx sealed_def)
qed

section \<open>The packet in its buffer\<close>

lemma store_ntoh: "ntohu32 (store_u32 v) = v"
proof (rule bit_word_eqI)
  fix n assume n: "n < LENGTH(32)"
  then consider "n < 8" | "8 \<le> n" "n < 16" | "16 \<le> n" "n < 24" | "24 \<le> n" "n < 32" by fastforce
  then show "bit (ntohu32 (store_u32 v)) n \<longleftrightarrow> bit v n"
    unfolding ntohu32_def store_u32_def by cases (auto simp: bit_simps)
qed

lemma length_store_u32 [simp]: "length (store_u32 v) = 4"
  by (simp add: store_u32_def)

text \<open>The length of an encrypted packet is read before the packet is authenticated.\<close>

lemma get_length_reads:
  assumes "ctxOk a" "ctxOk b" "sameKeys a b" "length tmp = 64"
    and "wire = sealed a seqnr 4 (store_u32 n @ body) @ tag"
  shows "fst (chachapoly_get_length tmp b seqnr wire (length wire)) = (0, Some n)"
proof -
  let ?k = "headerStream b seqnr 4"
  have "take 4 wire = map2 (XOR) ?k (store_u32 n)"
    using assms streams_sameKeys [OF assms(3)] by (simp add: sealed_def)
  moreover have "chacha_encrypt_bytes tmp (chacha_ivsetup (store_u64 (ucast seqnr)) None (header_ctx b))
      (map2 (XOR) ?k (store_u32 n)) = (store_u32 n, header_ctx (finalCtx b seqnr 4 0))"
    using assms header_stream [of b tmp 4 "map2 (XOR) ?k (store_u32 n)" seqnr 0] by (simp add: xor_twice)
  moreover have "4 \<le> length wire" using assms by simp
  ultimately show ?thesis by (simp add: chachapoly_get_length_def store_ntoh)
qed

text \<open>Moving the decrypted packet down over its length field keeps all of it but its last four bytes, which the
  transport layer fills with padding.\<close>

lemma buffer_roundtrip:
  assumes "ctxOk a" "ctxOk b" "sameKeys a b" "length tmp = 64" "length tmp' = 64"
    and "4 \<le> length body" "length tail = 16" and m_def: "m = store_u32 n @ body"
  shows "case crypt_encrypt_chacha20_poly_buffer tmp True a seqno (m @ tail) (length m) of (r, wire, a') \<Rightarrow>
     r = 0 \<and> length wire = length m + 16 \<and>
     fst (chachapoly_get_length tmp' b seqno wire (length wire)) = (0, Some n) \<and>
     (case crypt_encrypt_chacha20_poly_buffer tmp' False b seqno wire (length body) of (r', buf, b') \<Rightarrow>
        r' = 0 \<and> take (length body - 4) buf = take (length body - 4) body)"
proof -
  let ?c = "sealed a seqno 4 m"
  have m: "length m = 4 + length body" by (simp add: m_def)
  have c: "length ?c = 4 + length body" using assms m by simp
  have same: "sealed b seqno 4 ?c = m" "packetKey b = packetKey a"
    using assms(1) streams_sameKeys [OF assms(3)] sealed_twice [OF assms(1), of 4 m seqno] m
    by (simp_all add: sealed_def)
  have "crypt_encrypt_chacha20_poly_buffer tmp True a seqno (m @ tail) (length m)
      = (0, ?c @ mac ?c (packetKey a seqno), finalCtx a seqno 4 (length body))"
    unfolding crypt_encrypt_chacha20_poly_buffer_def using assms(1,4,7) c m
    by (subst chachapoly_crypt_computes) (simp_all add: Let_def)
  moreover have "fst (chachapoly_get_length tmp' b seqno (?c @ mac ?c (packetKey a seqno))
      (length (?c @ mac ?c (packetKey a seqno)))) = (0, Some n)"
    by (rule get_length_reads [OF assms(1-3,5)]) (simp add: m_def)
  moreover have "crypt_encrypt_chacha20_poly_buffer tmp' False b seqno (?c @ mac ?c (packetKey a seqno)) (length body)
      = (0, take (length body - 4) (drop 4 (m @ mac ?c (packetKey a seqno))) @ drop (length body - 4) (m @ mac ?c (packetKey a seqno)),
         finalCtx b seqno 4 (length body))"
    unfolding crypt_encrypt_chacha20_poly_buffer_def using assms(2,5) c m
    by (subst chachapoly_crypt_computes) (simp_all add: Let_def same)
  ultimately show ?thesis
    using c m by (simp add: m_def)
qed

section \<open>Properties\<close>

text \<open>C12. What one side encrypts the other side decrypts: with contexts of the same keys, whatever blocks their
  counters stand at, and the same sequence number, encryption of a packet succeeds, its tag is accepted, and
  decryption gives the packet back, header and body, for every packet and every length of the header.\<close>

theorem chachapoly_roundtrip:
  assumes "ctxOk a" "ctxOk b" "sameKeys a b" "length tmp = 64" "length tmp' = 64"
    and "length m = aadlen + len" "length dest = aadlen + len" "length buf = aadlen + len + 16"
  shows "case chachapoly_crypt tmp a seqnr buf m len aadlen True of (r, wire, a') \<Rightarrow>
    r = 0 \<and> length wire = aadlen + len + 16 \<and> sameKeys a a' \<and>
    (case chachapoly_crypt tmp' b seqnr dest wire len aadlen False of (r', plain, b') \<Rightarrow>
       r' = 0 \<and> plain = m \<and> sameKeys b b')"
proof -
  let ?c = "sealed a seqnr aadlen m" and ?t = "mac (sealed a seqnr aadlen m) (packetKey a seqnr)"
  have c: "length ?c = aadlen + len" using assms by simp
  have same: "sealed b seqnr aadlen ?c = m" "packetKey b = packetKey a"
    using assms streams_sameKeys [OF assms(3)] sealed_twice [OF assms(1), of aadlen m seqnr]
    by (simp_all add: sealed_def)
  have "chachapoly_crypt tmp a seqnr buf m len aadlen True = (0, ?c @ ?t, finalCtx a seqnr aadlen len)"
    using assms c by (subst chachapoly_crypt_computes) (simp_all add: Let_def)
  moreover have "chachapoly_crypt tmp' b seqnr dest (?c @ ?t) len aadlen False = (0, m, finalCtx b seqnr aadlen len)"
    using assms c by (subst chachapoly_crypt_computes) (simp_all add: Let_def same)
  ultimately show ?thesis
    using c contexts_same_keys(2) [OF assms(1)] contexts_same_keys(2) [OF assms(2)] by simp
qed

text \<open>C23. A packet is decrypted exactly if its last sixteen bytes are the authenticator of the bytes before them,
  the header included, under the key of its sequence number; any other packet is rejected with the decryption
  error and nothing is written to the destination.\<close>

theorem decrypts_iff_authentic:
  assumes "ctxOk ctx" "length tmp = 64" "length body = aadlen + len" "length tag = 16"
  shows "case chachapoly_crypt tmp ctx seqnr dest (body @ tag) len aadlen False of (r, out, ctx') \<Rightarrow>
    (r = 0 \<longleftrightarrow> tag = mac body (packetKey ctx seqnr)) \<and>
    out = (if r = 0 then sealed ctx seqnr aadlen body @ drop (length body) dest else dest) \<and>
    r \<in> {0, LIBSSH2_ERROR_DECRYPT} \<and> sameKeys ctx ctx'"
proof -
  have "chachapoly_crypt tmp ctx seqnr dest (body @ tag) len aadlen False =
    (if tag \<noteq> mac body (packetKey ctx seqnr) then (LIBSSH2_ERROR_DECRYPT, dest, keyedCtx ctx seqnr)
     else (0, sealed ctx seqnr aadlen body @ drop (length body) dest, finalCtx ctx seqnr aadlen len))"
    using assms by (subst chachapoly_crypt_computes) (simp_all add: Let_def)
  then show ?thesis
    using contexts_same_keys(1,2) [OF assms(1)] by (simp add: LIBSSH2_ERROR_DECRYPT_def)
qed

end
