(* ===== verification/Cipher_Witness.thy ===== *)
theory Cipher_Witness
  imports Chachapoly
begin

text \<open>Concrete inputs for the properties of the packet cipher.\<close>

definition demoCtx :: chachapoly_ctx where
  "demoCtx = \<lparr>main_ctx = replicate 16 7, header_ctx = replicate 16 9\<rparr>"

definition demoPeer :: chachapoly_ctx where
  "demoPeer = \<lparr>main_ctx = replicate 12 7 @ [1, 2, 3, 4], header_ctx = replicate 12 9 @ [0, 0, 5, 6]\<rparr>"

lemma demo_ok: "ctxOk demoCtx" "ctxOk demoPeer" "sameKeys demoCtx demoPeer"
  by (simp_all add: ctxOk_def sameKeys_def demoCtx_def demoPeer_def)

theorem chacha_counter_mode_witness:
  "chacha_encrypt_bytes (replicate 64 0) (replicate 16 3) [1, 2, 3] =
     (map2 (XOR) (keystream (replicate 16 3) 3) [1, 2, 3], setCounter (replicate 16 3) (blockCounter (replicate 16 3) + 1))"
  using chacha_counter_mode [of "replicate 16 3" "replicate 64 0" "[1, 2, 3]"] by (simp add: numeral_3_eq_3)

theorem poly1305_is_mac_witness:
  "poly1305_auth [1, 2, 3] (replicate 32 7) = mac [1, 2, 3] (replicate 32 7)"
  by (rule poly1305_is_mac) simp

theorem chachapoly_roundtrip_witness:
  "case chachapoly_crypt (replicate 64 0) demoCtx 5 (replicate 22 0) [0, 0, 0, 2, 8, 9] 2 4 True of (r, wire, a') \<Rightarrow>
     r = 0 \<and> length wire = 22 \<and> sameKeys demoCtx a' \<and>
     (case chachapoly_crypt (replicate 64 1) demoPeer 5 (replicate 6 0) wire 2 4 False of (r', plain, b') \<Rightarrow>
        r' = 0 \<and> plain = [0, 0, 0, 2, 8, 9] \<and> sameKeys demoPeer b')"
  using chachapoly_roundtrip [OF demo_ok, of "replicate 64 0" "replicate 64 1" "[0, 0, 0, 2, 8, 9]" 4 2 "replicate 6 0"
      "replicate 22 0" 5] by simp

theorem decrypts_iff_authentic_witness:
  "case chachapoly_crypt (replicate 64 0) demoCtx 5 [1, 1, 1, 1, 1, 1] ([0, 0, 0, 2, 8, 9] @ replicate 16 0) 2 4 False of
     (r, out, ctx') \<Rightarrow>
     (r = 0 \<longleftrightarrow> replicate 16 0 = mac [0, 0, 0, 2, 8, 9] (packetKey demoCtx 5)) \<and>
     out = (if r = 0 then sealed demoCtx 5 4 [0, 0, 0, 2, 8, 9] else [1, 1, 1, 1, 1, 1]) \<and>
     r \<in> {0, LIBSSH2_ERROR_DECRYPT} \<and> sameKeys demoCtx ctx'"
  using decrypts_iff_authentic [OF demo_ok(1), of "replicate 64 0" "[0, 0, 0, 2, 8, 9]" 4 2 "replicate 16 0" 5
      "[1, 1, 1, 1, 1, 1]"] by (simp cong del: if_weak_cong)

end
