(* ===== verification/Log_Params.thy ===== *)
theory Log_Params
  imports Prelude Poly1305
begin

text \<open>
  Parameters of log messages, \<open>src/include/logger.h\<close> and \<open>src/src/log_params.cpp\<close>: a tagged union and the
  owning block of type, length and value that travels with a queued message.  A value is laid out in memory as
  the ESP32 does, least significant byte first.  A \<open>double\<close> is its 64 bits.  The counters of a block are numbers:
  the guard of \<open>append\<close> keeps them below 13 and 161.
\<close>

section \<open>The code\<close>

definition LOG_MAX_PARAMS :: nat where "LOG_MAX_PARAMS = 12"
definition LOG_PARAM_DATA_MAX_LEN :: nat where "LOG_PARAM_DATA_MAX_LEN = 160"

text \<open>A text parameter may be a null pointer; a C string has no NUL of its own.\<close>

datatype LogParam =
    Signed u64
  | Unsigned u64
  | Real u64
  | Boolean bool
  | Text "string option"

record LogParamBlock =
  count :: nat
  used :: nat
  data :: bytes

definition newBlock :: LogParamBlock where
  "newBlock = \<lparr>count = 0, used = 0, data = replicate LOG_PARAM_DATA_MAX_LEN 0\<rparr>"

text \<open>\<open>std::isfinite\<close>: the exponent is not all ones.\<close>

definition isfinite :: "u64 \<Rightarrow> bool" where
  "isfinite bits \<longleftrightarrow> drop_bit 52 bits AND 0x7ff \<noteq> 0x7ff"

definition typeByte :: "LogParam \<Rightarrow> u8" where
  "typeByte p = (case p of Signed v \<Rightarrow> 0 | Unsigned v \<Rightarrow> 1 | Real v \<Rightarrow> 2 | Boolean v \<Rightarrow> 3 | Text v \<Rightarrow> 4)"

definition bytes8 :: "u64 \<Rightarrow> bytes" where
  "bytes8 v = map (\<lambda>i. ucast (drop_bit (8 * i) v)) [0..<8]"

definition word8 :: "bytes \<Rightarrow> u64" where
  "word8 b = foldr (\<lambda>c v. ucast c OR push_bit 8 v) b 0"

definition charBytes :: "string \<Rightarrow> bytes" where
  "charBytes s = map (\<lambda>c. word_of_nat (of_char c)) s"

definition byteChars :: "bytes \<Rightarrow> string" where
  "byteChars b = map (\<lambda>v. char_of (unat v)) b"

text \<open>The bytes of the value, or none where \<open>append\<close> rejects it; of a text at most 160 characters are looked at.\<close>

definition valueBytes :: "LogParam \<Rightarrow> bytes option" where
  "valueBytes p = (case p of
       Signed v \<Rightarrow> Some (bytes8 v)
     | Unsigned v \<Rightarrow> Some (bytes8 v)
     | Real v \<Rightarrow> if isfinite v then Some (bytes8 v) else None
     | Boolean v \<Rightarrow> Some [if v then 1 else 0]
     | Text None \<Rightarrow> None
     | Text (Some s) \<Rightarrow> Some (take (strnlen s LOG_PARAM_DATA_MAX_LEN + 1) (charBytes s @ [0])))"

definition append_param :: "LogParam \<Rightarrow> LogParamBlock \<Rightarrow> bool \<times> LogParamBlock" where
  "append_param p b = (case valueBytes p of
       None \<Rightarrow> (False, b)
     | Some source \<Rightarrow>
         let size = length source in
         if count b \<ge> LOG_MAX_PARAMS \<or> used b > LOG_PARAM_DATA_MAX_LEN \<or> size + 3 > LOG_PARAM_DATA_MAX_LEN - used b
         then (False, b)
         else (True, b\<lparr>data := take (used b) (data b)
                 @ [typeByte p, word_of_nat size, word_of_nat (size div 256)] @ source
                 @ drop (used b + 3 + size) (data b),
               used := used b + 3 + size, count := count b + 1\<rparr>))"

text \<open>Reading a value of a type byte back.\<close>

definition readValue :: "u8 \<Rightarrow> nat \<Rightarrow> bytes \<Rightarrow> LogParam option" where
  "readValue tag len d =
     (if tag = 0 then (if len = 8 then Some (Signed (word8 (take 8 d))) else None)
      else if tag = 1 then (if len = 8 then Some (Unsigned (word8 (take 8 d))) else None)
      else if tag = 2 then
        (if len = 8 \<and> isfinite (word8 (take 8 d)) then Some (Real (word8 (take 8 d))) else None)
      else if tag = 3 then (if len = 1 \<and> d ! 0 \<le> 1 then Some (Boolean (d ! 0 \<noteq> 0)) else None)
      else if tag = 4 then
        (if len \<noteq> 0 \<and> d ! (len - 1) = 0 then Some (Text (Some (cstr (byteChars d)))) else None)
      else None)"

text \<open>The scan over the entries: \<open>skip\<close> entries are passed over.\<close>

fun get_loop :: "nat \<Rightarrow> nat \<Rightarrow> LogParamBlock \<Rightarrow> LogParam option" where
  "get_loop skip cursor b =
     (if cursor + 3 > used b then None
      else
        let tag = data b ! cursor; len = unat (data b ! (cursor + 1)) + 256 * unat (data b ! (cursor + 2));
            cursor = cursor + 3
        in if len > used b - cursor then None
           else (case skip of 0 \<Rightarrow> readValue tag len (drop cursor (data b))
                 | Suc n \<Rightarrow> get_loop n (cursor + len) b))"

definition get_param :: "nat \<Rightarrow> LogParamBlock \<Rightarrow> LogParam option" where
  "get_param index b =
     (if index \<ge> count b \<or> count b > LOG_MAX_PARAMS \<or> used b > LOG_PARAM_DATA_MAX_LEN then None
      else get_loop index 0 b)"

declare get_loop.simps [simp del]

section \<open>Values and their bytes\<close>

lemma length_bytes8 [simp]: "length (bytes8 v) = 8"
  by (simp add: bytes8_def)

lemma word8_bytes8 [simp]: "word8 (bytes8 v) = v"
proof -
  have idx: "[0..<8] = [0, 1, 2, 3, 4, 5, 6, 7 :: nat]" by code_simp
  have split8: "ucast (ucast w :: u8) OR push_bit 8 (drop_bit 8 w) = w" for w :: u64
  proof (rule bit_word_eqI)
    fix n assume "n < LENGTH(64)"
    then show "bit (ucast (ucast w :: u8) OR push_bit 8 (drop_bit 8 w)) n \<longleftrightarrow> bit w n"
      by (cases "n < 8") (auto simp: bit_simps)
  qed
  have step: "ucast (ucast (drop_bit n v) :: u8) OR push_bit 8 (drop_bit (n + 8) v) = drop_bit n v" for n
    using split8 [of "drop_bit n v"] by (simp add: drop_bit_drop_bit add.commute)
  have "drop_bit 64 v = 0" by (auto simp: bit_eq_iff bit_simps dest: bit_imp_le_length)
  then show ?thesis
    using step [of 0] step [of 8] step [of 16] step [of 24] step [of 32] step [of 40] step [of 48] step [of 56]
    unfolding word8_def bytes8_def idx by simp
qed

lemma char_of_0: "char_of (0 :: nat) = CHR 0x00"
  by (simp add: char_of_def)

lemma unat_of_char: "unat (word_of_nat (of_char c) :: u8) = of_char c"
  by (simp add: unat_of_nat)

lemma char_of_charBytes [simp]: "byteChars (charBytes s) = s"
  by (simp add: charBytes_def byteChars_def comp_def unat_of_char)

text \<open>What a parameter is: a text is a C string, a real is finite.\<close>

fun paramOk :: "LogParam \<Rightarrow> bool" where
  "paramOk (Text (Some s)) = (CHR 0x00 \<notin> set s)"
| "paramOk _ = True"

lemma strnlen_no_nul: "CHR 0x00 \<notin> set s \<Longrightarrow> strnlen s n = min n (length s)"
  by (simp add: strnlen_def cstr_id [OF contra_subsetD [OF set_take_subset]] min.commute)

lemma readValue_valueBytes:
  assumes "valueBytes p = Some v" "paramOk p" "length v \<le> 157"
  shows "readValue (typeByte p) (length v) (v @ rest) = Some p"
proof (cases p)
  case (Text t)
  with assms(1) obtain s where t: "t = Some s" by (cases t) (auto simp: valueBytes_def)
  with Text assms have s: "CHR 0x00 \<notin> set s" by simp
  then have v: "v = take (min 160 (length s) + 1) (charBytes s @ [0])"
    using assms(1) Text t by (simp add: valueBytes_def strnlen_no_nul LOG_PARAM_DATA_MAX_LEN_def)
  have "length s < 160" using assms(3) v by (simp add: charBytes_def min_def split: if_splits)
  then have v': "v = charBytes s @ [0]" using v by (simp add: charBytes_def)
  have "cstr (byteChars (v @ rest)) = s"
    using cstr_append_NUL [OF s, of "byteChars rest"] v' by (simp add: byteChars_def charBytes_def comp_def unat_of_char char_of_0)
  then show ?thesis
    using Text t v' by (simp add: readValue_def typeByte_def nth_append charBytes_def)
qed (use assms in \<open>auto simp: valueBytes_def readValue_def typeByte_def split: if_splits\<close>)

section \<open>Blocks\<close>

text \<open>What a parameter occupies, and what a block holds after parameters have been appended to it.\<close>

definition entry :: "LogParam \<Rightarrow> bytes" where
  "entry p = (case valueBytes p of None \<Rightarrow> []
     | Some v \<Rightarrow> [typeByte p, word_of_nat (length v), word_of_nat (length v div 256)] @ v)"

definition storable :: "LogParam \<Rightarrow> bool" where
  "storable p \<longleftrightarrow> paramOk p \<and> (\<exists>v. valueBytes p = Some v \<and> length v \<le> 157)"

definition holds :: "LogParam list \<Rightarrow> LogParamBlock \<Rightarrow> bool" where
  "holds ps b \<longleftrightarrow> count b = length ps \<and> length ps \<le> LOG_MAX_PARAMS \<and> length (data b) = LOG_PARAM_DATA_MAX_LEN
     \<and> used b = length (concat (map entry ps)) \<and> used b \<le> LOG_PARAM_DATA_MAX_LEN
     \<and> take (used b) (data b) = concat (map entry ps) \<and> list_all storable ps"

lemma holds_newBlock: "holds [] newBlock"
  by (simp add: holds_def newBlock_def)

lemma holds_data:
  assumes "holds ps b"
  shows "take (used b) (data b) = concat (map entry ps)" "length (take (used b) (data b)) = used b"
  using assms unfolding holds_def by (blast, simp)

lemma append_param_holds:
  assumes "holds ps b" "paramOk p"
  shows "case append_param p b of (ok, b') \<Rightarrow> if ok then holds (ps @ [p]) b' else b' = b"
proof (cases "valueBytes p")
  case None
  then show ?thesis by (simp add: append_param_def)
next
  case (Some v)
  show ?thesis
  proof (cases "count b \<ge> LOG_MAX_PARAMS \<or> used b > LOG_PARAM_DATA_MAX_LEN \<or> length v + 3 > LOG_PARAM_DATA_MAX_LEN - used b")
    case True
    then show ?thesis by (simp add: append_param_def Some Let_def)
  next
    case False
    have e: "entry p = [typeByte p, word_of_nat (length v), word_of_nat (length v div 256)] @ v"
      by (simp add: entry_def Some)
    let ?d = "take (used b) (data b) @ entry p @ drop (used b + 3 + length v) (data b)"
    have d: "append_param p b = (True, b\<lparr>data := ?d, used := used b + 3 + length v, count := count b + 1\<rparr>)"
      using False by (simp add: append_param_def Some Let_def e)
    have len: "length (entry p) = 3 + length v" by (simp add: e)
    have "length ?d = LOG_PARAM_DATA_MAX_LEN" "length v \<le> 157"
      using assms False len by (auto simp: holds_def LOG_PARAM_DATA_MAX_LEN_def)
    moreover have "take (used b + 3 + length v) ?d = concat (map entry ps) @ entry p"
      using len holds_data [OF assms(1)] by simp
    moreover have "count b = length ps" "used b = length (concat (map entry ps))" "list_all storable ps"
      using assms(1) unfolding holds_def by blast+
    ultimately show ?thesis
      using assms(2) False Some len unfolding d holds_def storable_def by auto
  qed
qed

lemma get_loop_step:
  assumes "storable p" "data b = pre @ entry p @ rest" "length pre = c" "c + length (entry p) \<le> used b"
  shows "get_loop i c b = (case i of 0 \<Rightarrow> Some p | Suc n \<Rightarrow> get_loop n (c + length (entry p)) b)"
proof -
  from assms(1) obtain v where v: "valueBytes p = Some v" "length v \<le> 157" and ok: "paramOk p"
    by (auto simp: storable_def)
  have e: "entry p = [typeByte p, word_of_nat (length v), word_of_nat (length v div 256)] @ v"
    by (simp add: entry_def v)
  have d: "data b ! c = typeByte p" "data b ! Suc c = word_of_nat (length v)"
    "data b ! Suc (Suc c) = word_of_nat (length v div 256)" "drop (Suc (Suc (Suc c))) (data b) = v @ rest"
    using assms(3) by (simp_all add: assms(2) e nth_append)
  have len: "unat (word_of_nat (length v) :: u8) + 256 * unat (word_of_nat (length v div 256) :: u8) = length v"
    using v(2) by (simp add: unat_of_nat)
  have fits: "\<not> used b < c + 3" "\<not> used b - (c + 3) < length v"
    using assms(4) by (simp_all add: e)
  show ?thesis
    using fits by (subst get_loop.simps)
      (simp add: d len Let_def e readValue_valueBytes [OF v(1) ok v(2)] add.assoc numeral_3_eq_3 split: nat.split)
qed

lemma get_loop_entries:
  assumes "list_all storable ps" "i < length ps" "data b = pre @ concat (map entry ps) @ rest"
    and "length pre = c" "c + length (concat (map entry ps)) \<le> used b"
  shows "get_loop i c b = Some (ps ! i)"
  using assms
proof (induction ps arbitrary: i c pre)
  case Nil
  then show ?case by simp
next
  case (Cons p ps)
  have step: "get_loop i c b = (case i of 0 \<Rightarrow> Some p | Suc n \<Rightarrow> get_loop n (c + length (entry p)) b)"
    by (rule get_loop_step) (use Cons.prems in simp_all)
  show ?case
  proof (cases i)
    case 0
    then show ?thesis using step by simp
  next
    case (Suc n)
    have "get_loop n (c + length (entry p)) b = Some (ps ! n)"
      by (rule Cons.IH [of _ "pre @ entry p"]) (use Cons.prems Suc in simp_all)
    then show ?thesis using step Suc by simp
  qed
qed

lemma get_param_holds:
  assumes "holds ps b"
  shows "get_param i b = (if i < length ps then Some (ps ! i) else None)"
proof (cases "i < length ps")
  case True
  have "data b = [] @ concat (map entry ps) @ drop (used b) (data b)"
    using append_take_drop_id [of "used b" "data b"] holds_data(1) [OF assms] by simp
  then have "get_loop i 0 b = Some (ps ! i)"
    by (rule get_loop_entries [rotated 2]) (use assms True in \<open>simp_all add: holds_def\<close>)
  then show ?thesis
    using assms True by (simp add: get_param_def holds_def)
next
  case False
  then show ?thesis using assms by (simp add: get_param_def holds_def)
qed

text \<open>Appending a list of parameters, as the logger does: all of them or a failure.\<close>

fun append_params :: "LogParam list \<Rightarrow> LogParamBlock \<Rightarrow> LogParamBlock option" where
  "append_params [] b = Some b"
| "append_params (p # ps) b =
     (case append_param p b of (ok, b') \<Rightarrow> if ok then append_params ps b' else None)"

lemma append_params_holds:
  assumes "append_params ps b = Some b'" "holds qs b" "list_all paramOk ps"
  shows "holds (qs @ ps) b'"
  using assms
proof (induction ps arbitrary: b qs)
  case Nil
  then show ?case by simp
next
  case (Cons p ps)
  from Cons.prems(1) obtain b1 where 1: "append_param p b = (True, b1)" "append_params ps b1 = Some b'"
    by (auto split: prod.splits if_splits)
  then have "holds (qs @ [p]) b1" using append_param_holds [OF Cons.prems(2), of p] Cons.prems(3) by simp
  then show ?case using Cons.IH [OF 1(2), of "qs @ [p]"] Cons.prems(3) by simp
qed

text \<open>C40. A stored parameter keeps its type and its value: when the logger has stored the parameters of a message
  in a block, reading the block gives at every index below their number exactly the parameter stored there, with
  the member of the union it was stored as, and nothing at any other index.\<close>

theorem stored_params_typed:
  assumes "append_params ps newBlock = Some b" "list_all paramOk ps"
  shows "count b = length ps \<and> length ps \<le> LOG_MAX_PARAMS \<and>
    map (\<lambda>i. get_param i b) [0..<length ps] = map Some ps \<and> get_param (length ps + k) b = None"
proof -
  have h: "holds ps b" using append_params_holds [OF assms(1) holds_newBlock assms(2)] by simp
  then show ?thesis
    using get_param_holds [OF h] by (auto simp: holds_def intro: nth_equalityI)
qed

end
