(* ===== verification/Log_Queue.thy ===== *)
theory Log_Queue
  imports Log_Params Timeout "HOL-Library.Sublist"
begin

text \<open>
  The queue of log records towards the server, \<open>BufferedLogTransport\<close> of \<open>src/src/logger.cpp\<close>: a ring of 32
  records that overwrites the oldest one when it is full, sent in order while a connection lasts.  Other tasks
  log while a record is being sent, so the queue may change between the critical sections: the records they log
  then are part of the connection's behaviour, which is a parameter.
\<close>

section \<open>The code\<close>

definition LOG_QUEUE_SIZE :: nat where "LOG_QUEUE_SIZE = 32"
definition LOG_SOURCE_MAX_LEN :: nat where "LOG_SOURCE_MAX_LEN = 16"
definition LOG_RECONNECT_INTERVAL :: u32 where "LOG_RECONNECT_INTERVAL = 5000"
definition SEVERITY_ERROR :: nat where "SEVERITY_ERROR = 4"
definition LOGAREA_SYSTEM :: nat where "LOGAREA_SYSTEM = 4"
definition A_LOG_DROPPED :: nat where "A_LOG_DROPPED = 190"

record LogRecord =
  severity :: nat
  logArea :: nat
  source :: "string option"
  message :: nat
  timestamp :: u32

record LogEvent =
  event_record :: LogRecord
  event_params :: "LogParam list option"
  paramCount :: nat

record QueuedLogRecord =
  queued_severity :: nat
  queued_area :: nat
  queued_source :: string
  queued_message :: nat
  queued_timestamp :: u32
  queued_params :: LogParamBlock
  sequence_number :: u32

record LogQueue =
  queue :: "QueuedLogRecord list"
  head :: nat
  queued_count :: nat
  dropped :: u32
  nextSequence :: u32
  reconnectStartedAt :: u32
  reconnectStarted :: bool

text \<open>\<open>begin\<close> keeps the records of the array.\<close>

definition begin_log :: "LogQueue \<Rightarrow> LogQueue" where
  "begin_log q = q\<lparr>head := 0, queued_count := 0, dropped := 0, nextSequence := 0, reconnectStarted := False\<rparr>"

text \<open>The record of an event, if its source and its parameters can be stored.\<close>

definition storeEvent :: "LogEvent \<Rightarrow> QueuedLogRecord option" where
  "storeEvent e =
     (let r = event_record e; src = (case source r of None \<Rightarrow> [] | Some s \<Rightarrow> s)
      in if length src > LOG_SOURCE_MAX_LEN \<or> paramCount e > LOG_MAX_PARAMS
            \<or> (paramCount e \<noteq> 0 \<and> event_params e = None) then None
         else map_option (\<lambda>block. \<lparr>queued_severity = severity r, queued_area = logArea r, queued_source = src,
             queued_message = message r, queued_timestamp = timestamp r, queued_params = block, sequence_number = 0\<rparr>)
           (append_params (case event_params e of None \<Rightarrow> [] | Some ps \<Rightarrow> take (paramCount e) ps) newBlock))"

definition enqueueRecord :: "QueuedLogRecord \<Rightarrow> LogQueue \<Rightarrow> LogQueue" where
  "enqueueRecord r q =
     (let q = (if queued_count q = LOG_QUEUE_SIZE
               then q\<lparr>head := (head q + 1) mod LOG_QUEUE_SIZE, queued_count := queued_count q - 1,
                      dropped := dropped q + 1\<rparr>
               else q);
          r = r\<lparr>sequence_number := nextSequence q\<rparr>
      in q\<lparr>nextSequence := nextSequence q + 1,
           queue := (queue q)[(head q + queued_count q) mod LOG_QUEUE_SIZE := r],
           queued_count := queued_count q + 1\<rparr>)"

definition sendOrQueue :: "LogEvent \<Rightarrow> LogQueue \<Rightarrow> bool \<times> LogQueue" where
  "sendOrQueue e q = (case storeEvent e of None \<Rightarrow> (False, q) | Some r \<Rightarrow> (True, enqueueRecord r q))"

definition hasPendingOutput :: "LogQueue \<Rightarrow> bool" where
  "hasPendingOutput q \<longleftrightarrow> queued_count q \<noteq> 0 \<or> dropped q \<noteq> 0"

text \<open>
  The connection: its state, one attempt to send a record, one attempt to connect, the clock of the notices, and
  what other tasks log before an iteration and while a record is being sent.
\<close>

record 'w Wire =
  isConnected :: "'w \<Rightarrow> bool"
  sendNow :: "QueuedLogRecord \<Rightarrow> 'w \<Rightarrow> bool \<times> 'w"
  reconnect :: "u32 \<Rightarrow> 'w \<Rightarrow> 'w"
  unixTime :: "'w \<Rightarrow> u32"
  loggedBefore :: "'w \<Rightarrow> LogEvent list"
  loggedDuring :: "'w \<Rightarrow> LogEvent list"

text \<open>What happens, in order: a record is put into the queue, a record is sent, a notice of lost records is sent.\<close>

datatype LogAction = Queued QueuedLogRecord | Sent QueuedLogRecord | Noticed u32

text \<open>The events of other tasks, one critical section each.\<close>

fun logAll :: "LogEvent list \<Rightarrow> LogQueue \<Rightarrow> LogQueue \<times> LogAction list" where
  "logAll [] q = (q, [])"
| "logAll (e # es) q =
     (case storeEvent e of
        None \<Rightarrow> logAll es q
      | Some r \<Rightarrow> (case logAll es (enqueueRecord r q) of
            (q', tr) \<Rightarrow> (q', Queued (r\<lparr>sequence_number := nextSequence q\<rparr>) # tr)))"

definition droppedNotice :: "u32 \<Rightarrow> u32 \<Rightarrow> QueuedLogRecord option" where
  "droppedNotice lost now =
     map_option (\<lambda>block. \<lparr>queued_severity = SEVERITY_ERROR, queued_area = LOGAREA_SYSTEM, queued_source = ''logger'',
         queued_message = A_LOG_DROPPED, queued_timestamp = now, queued_params = block, sequence_number = 0\<rparr>)
       (append_params [Unsigned (ucast lost)] newBlock)"

definition sendDroppedNotice :: "'w Wire \<Rightarrow> 'w \<Rightarrow> LogQueue \<Rightarrow> bool \<times> 'w \<times> LogQueue \<times> LogAction list" where
  "sendDroppedNotice I w q =
     (let lost = dropped q
      in if lost = 0 then (True, w, q, [])
         else case droppedNotice lost (unixTime I w) of
             None \<Rightarrow> (False, w, q, [])
           | Some notice \<Rightarrow>
               let (okay, w) = sendNow I notice w; (q, tr) = logAll (loggedDuring I w) q
               in if \<not> okay then (False, w, q, tr)
                  else (True, w, q\<lparr>dropped := dropped q - lost\<rparr>, tr @ [Noticed lost]))"

definition popSent :: "QueuedLogRecord \<Rightarrow> LogQueue \<Rightarrow> LogQueue" where
  "popSent r q =
     (if queued_count q \<noteq> 0 \<and> sequence_number (queue q ! head q) = sequence_number r
      then q\<lparr>head := (head q + 1) mod LOG_QUEUE_SIZE, queued_count := queued_count q - 1\<rparr> else q)"

fun flush_loop :: "'w Wire \<Rightarrow> nat \<Rightarrow> 'w \<Rightarrow> LogQueue \<Rightarrow> 'w \<times> LogQueue \<times> LogAction list" where
  "flush_loop I 0 w q = (w, q, [])"
| "flush_loop I (Suc budget) w q =
     (if \<not> isConnected I w then (w, q, [])
      else
        let (q, tr0) = logAll (loggedBefore I w) q
        in if queued_count q = 0 then (w, q, tr0)
           else
             let r = queue q ! head q; (okay, w) = sendNow I r w; (q, tr1) = logAll (loggedDuring I w) q
             in if \<not> okay then (w, q, tr0 @ tr1)
                else case flush_loop I budget w (popSent r q) of
                    (w, q, tr) \<Rightarrow> (w, q, tr0 @ tr1 @ Sent r # tr))"

definition flushQueue :: "'w Wire \<Rightarrow> 'w \<Rightarrow> LogQueue \<Rightarrow> 'w \<times> LogQueue \<times> LogAction list" where
  "flushQueue I w q =
     (case sendDroppedNotice I w q of
        (okay, w, q, tr) \<Rightarrow>
          if \<not> okay then (w, q, tr)
          else case flush_loop I LOG_QUEUE_SIZE w q of (w, q, tr') \<Rightarrow> (w, q, tr @ tr'))"

definition update_log :: "'w Wire \<Rightarrow> u32 \<Rightarrow> 'w \<Rightarrow> LogQueue \<Rightarrow> 'w \<times> LogQueue \<times> LogAction list" where
  "update_log I now w q =
     (if \<not> hasPendingOutput q then (w, q, [])
      else
        let (w, q) = (if \<not> isConnected I w
                 \<and> (\<not> reconnectStarted q \<or> timeoutElapsed (reconnectStartedAt q) LOG_RECONNECT_INTERVAL now)
               then (reconnect I now w, q\<lparr>reconnectStartedAt := now, reconnectStarted := True\<rparr>) else (w, q))
        in if isConnected I w then flushQueue I w q else (w, q, []))"

end
