(* ===== verification/Log_Account.thy ===== *)
theory Log_Account
  imports Log_Queue
begin

text \<open>
  What the log queue guarantees over any history of logging and sending: the records sent are records that were
  queued, in their order and each at most once, and every record that is neither sent nor still queued has been
  counted as lost.
\<close>

section \<open>The queue as a list\<close>

definition contents :: "LogQueue \<Rightarrow> QueuedLogRecord list" where
  "contents q = map (\<lambda>i. queue q ! ((head q + i) mod 32)) [0..<queued_count q]"

text \<open>The ring is in bounds and the sequence numbers of its records are the last ones given out.\<close>

definition queueOk :: "LogQueue \<Rightarrow> bool" where
  "queueOk q \<longleftrightarrow> length (queue q) = 32 \<and> head q < 32 \<and> queued_count q \<le> 32 \<and>
     map sequence_number (contents q) = map (\<lambda>i. nextSequence q - of_nat (queued_count q - i)) [0..<queued_count q]"

lemma length_contents [simp]: "length (contents q) = queued_count q"
  by (simp add: contents_def)

lemma contents_nth: "i < queued_count q \<Longrightarrow> contents q ! i = queue q ! ((head q + i) mod 32)"
  by (simp add: contents_def)

lemma sequence_nth:
  assumes "queueOk q" "i < queued_count q"
  shows "sequence_number (contents q ! i) = nextSequence q - of_nat (queued_count q - i)"
proof -
  have "map sequence_number (contents q) ! i = map (\<lambda>i. nextSequence q - of_nat (queued_count q - i)) [0..<queued_count q] ! i"
    using assms by (simp add: queueOk_def)
  then show ?thesis using assms(2) by simp
qed

lemma queueOkI:
  assumes "length (queue q) = 32" "head q < 32" "queued_count q \<le> 32"
    and "\<And>i. i < queued_count q \<Longrightarrow> sequence_number (contents q ! i) = nextSequence q - of_nat (queued_count q - i)"
  shows "queueOk q"
  using assms by (auto simp: queueOk_def intro: nth_equalityI)

lemma contents_begin [simp]: "contents (begin_log q) = []" "dropped (begin_log q) = 0"
  by (simp_all add: contents_def begin_log_def)

lemma queueOk_begin: "length (queue q) = 32 \<Longrightarrow> queueOk (begin_log q)"
  by (rule queueOkI) (simp_all, simp_all add: begin_log_def)

text \<open>The oldest record leaves.\<close>

definition dropHead :: "LogQueue \<Rightarrow> LogQueue" where
  "dropHead q = q\<lparr>head := (head q + 1) mod LOG_QUEUE_SIZE, queued_count := queued_count q - 1\<rparr>"

lemma dropHead_fields [simp]:
  "queue (dropHead q) = queue q" "queued_count (dropHead q) = queued_count q - 1" "dropped (dropHead q) = dropped q"
  "nextSequence (dropHead q) = nextSequence q" "head (dropHead q) = (head q + 1) mod 32"
  by (simp_all add: dropHead_def LOG_QUEUE_SIZE_def)

lemma contents_dropHead:
  assumes "queued_count q \<noteq> 0"
  shows "contents (dropHead q) = tl (contents q)"
proof (rule nth_equalityI)
  show "length (contents (dropHead q)) = length (tl (contents q))" by (simp add: dropHead_def)
  fix i assume "i < length (contents (dropHead q))"
  then have i: "i < queued_count q - 1" by (simp add: dropHead_def)
  have "((head q + 1) mod 32 + i) mod 32 = (head q + Suc i) mod 32" by (simp add: mod_simps)
  then show "contents (dropHead q) ! i = tl (contents q) ! i"
    using i by (simp add: contents_nth nth_tl dropHead_def LOG_QUEUE_SIZE_def)
qed

lemma queueOk_dropHead:
  assumes "queueOk q" "queued_count q \<noteq> 0"
  shows "queueOk (dropHead q)"
proof (rule queueOkI)
  fix i assume i: "i < queued_count (dropHead q)"
  then have "Suc i < queued_count q" by simp
  then show "sequence_number (contents (dropHead q) ! i) = nextSequence (dropHead q) - of_nat (queued_count (dropHead q) - i)"
    using sequence_nth [OF assms(1), of "Suc i"] assms i
    by (simp add: contents_dropHead nth_tl)
next
  have "queued_count q \<le> 32" using assms(1) by (simp add: queueOk_def)
  then show "queued_count (dropHead q) \<le> 32" by simp
qed (use assms(1) in \<open>simp_all add: queueOk_def\<close>)

text \<open>A record is put behind the others.\<close>

definition putBehind :: "QueuedLogRecord \<Rightarrow> LogQueue \<Rightarrow> LogQueue" where
  "putBehind r q = q\<lparr>nextSequence := nextSequence q + 1,
     queue := (queue q)[(head q + queued_count q) mod LOG_QUEUE_SIZE := r\<lparr>sequence_number := nextSequence q\<rparr>],
     queued_count := queued_count q + 1\<rparr>"

lemma putBehind_fields [simp]:
  "length (queue (putBehind r q)) = length (queue q)" "queued_count (putBehind r q) = queued_count q + 1"
  "dropped (putBehind r q) = dropped q" "nextSequence (putBehind r q) = nextSequence q + 1"
  "head (putBehind r q) = head q"
  by (simp_all add: putBehind_def)

lemma ring_slots_differ:
  fixes h c i :: nat
  assumes "c < 32" "i < c"
  shows "(h + c) mod 32 \<noteq> (h + i) mod 32"
proof
  assume "(h + c) mod 32 = (h + i) mod 32"
  then have "(32 :: nat) dvd (h + c) - (h + i)" using mod_eq_dvd_iff_nat [of "h + i" "h + c" 32] assms by simp
  then show False using assms by (auto dest: dvd_imp_le)
qed

lemma contents_putBehind:
  assumes "length (queue q) = 32" "queued_count q < 32"
  shows "contents (putBehind r q) = contents q @ [r\<lparr>sequence_number := nextSequence q\<rparr>]"
proof (rule nth_equalityI)
  show "length (contents (putBehind r q)) = length (contents q @ [r\<lparr>sequence_number := nextSequence q\<rparr>])"
    by (simp add: putBehind_def)
  fix i assume "i < length (contents (putBehind r q))"
  then have i: "i < Suc (queued_count q)" by (simp add: putBehind_def)
  show "contents (putBehind r q) ! i = (contents q @ [r\<lparr>sequence_number := nextSequence q\<rparr>]) ! i"
  proof (cases "i = queued_count q")
    case True
    then show ?thesis
      using assms i by (simp add: contents_nth nth_append putBehind_def LOG_QUEUE_SIZE_def)
  next
    case False
    then have "i < queued_count q" using i by simp
    then show ?thesis
      using assms ring_slots_differ [OF assms(2), of i "head q"]
      by (simp add: contents_nth nth_append putBehind_def LOG_QUEUE_SIZE_def)
  qed
qed

lemma queueOk_putBehind:
  assumes "queueOk q" "queued_count q < 32"
  shows "queueOk (putBehind r q)"
proof (rule queueOkI)
  have len: "length (queue q) = 32" using assms(1) by (simp add: queueOk_def)
  fix i assume i: "i < queued_count (putBehind r q)"
  show "sequence_number (contents (putBehind r q) ! i)
      = nextSequence (putBehind r q) - of_nat (queued_count (putBehind r q) - i)"
  proof (cases "i = queued_count q")
    case True
    then show ?thesis using len assms(2) by (simp add: contents_putBehind nth_append)
  next
    case False
    then have "i < queued_count q" using i by (simp add: putBehind_def)
    then show ?thesis
      using sequence_nth [OF assms(1), of i] len assms(2)
      by (simp add: contents_putBehind nth_append Suc_diff_le)
  qed
qed (use assms in \<open>simp_all add: queueOk_def\<close>)

lemma enqueueRecord_cases:
  "enqueueRecord r q =
     (if queued_count q = LOG_QUEUE_SIZE then putBehind r ((dropHead q)\<lparr>dropped := dropped q + 1\<rparr>) else putBehind r q)"
  by (simp add: enqueueRecord_def putBehind_def dropHead_def Let_def)

lemma enqueueRecord_queues:
  assumes "queueOk q"
  shows "queueOk (enqueueRecord r q)"
    and "contents (enqueueRecord r q) =
      (if queued_count q = 32 then tl (contents q) else contents q) @ [r\<lparr>sequence_number := nextSequence q\<rparr>]"
    and "dropped (enqueueRecord r q) = dropped q + (if queued_count q = 32 then 1 else 0)"
    and "nextSequence (enqueueRecord r q) = nextSequence q + 1"
proof -
  let ?d = "(dropHead q)\<lparr>dropped := dropped q + 1\<rparr>"
  have same: "queueOk ?d = queueOk (dropHead q)" "contents ?d = contents (dropHead q)"
    by (simp_all add: queueOk_def contents_def)
  have len: "length (queue q) = 32" "queued_count q \<le> 32" using assms by (simp_all add: queueOk_def)
  show "queueOk (enqueueRecord r q)"
    unfolding enqueueRecord_cases LOG_QUEUE_SIZE_def
    using assms len queueOk_dropHead [OF assms] same by (auto intro!: queueOk_putBehind)
  show "contents (enqueueRecord r q) =
      (if queued_count q = 32 then tl (contents q) else contents q) @ [r\<lparr>sequence_number := nextSequence q\<rparr>]"
    unfolding enqueueRecord_cases LOG_QUEUE_SIZE_def
    using len by (auto simp: contents_putBehind same contents_dropHead)
  show "dropped (enqueueRecord r q) = dropped q + (if queued_count q = 32 then 1 else 0)"
    "nextSequence (enqueueRecord r q) = nextSequence q + 1"
    by (simp_all add: enqueueRecord_cases LOG_QUEUE_SIZE_def)
qed

section \<open>The account of a history\<close>

fun queuedOf :: "LogAction list \<Rightarrow> QueuedLogRecord list" where
  "queuedOf [] = []"
| "queuedOf (Queued r # tr) = r # queuedOf tr"
| "queuedOf (_ # tr) = queuedOf tr"

fun sentOf :: "LogAction list \<Rightarrow> QueuedLogRecord list" where
  "sentOf [] = []"
| "sentOf (Sent r # tr) = r # sentOf tr"
| "sentOf (_ # tr) = sentOf tr"

fun noticedOf :: "LogAction list \<Rightarrow> u32" where
  "noticedOf [] = 0"
| "noticedOf (Noticed n # tr) = n + noticedOf tr"
| "noticedOf (_ # tr) = noticedOf tr"

lemma actions_append [simp]:
  "queuedOf (a @ b) = queuedOf a @ queuedOf b" "sentOf (a @ b) = sentOf a @ sentOf b"
  "noticedOf (a @ b) = noticedOf a + noticedOf b"
proof -
  show "queuedOf (a @ b) = queuedOf a @ queuedOf b" by (induction a rule: queuedOf.induct) auto
  show "sentOf (a @ b) = sentOf a @ sentOf b" by (induction a rule: sentOf.induct) auto
  show "noticedOf (a @ b) = noticedOf a + noticedOf b" by (induction a rule: noticedOf.induct) auto
qed

text \<open>
  From one queue to another, over what happened between: with everything that was in the queue or came into it,
  the oldest records have left, the records sent are among these in their order, and every record that left
  without being sent has been counted, either in the counter or in a notice.
\<close>

definition accounts :: "LogQueue \<Rightarrow> LogAction list \<Rightarrow> LogQueue \<Rightarrow> bool" where
  "accounts q tr q' \<longleftrightarrow> queueOk q' \<and>
     (\<exists>k d. k \<le> queued_count q + length (queuedOf tr) \<and> contents q' = drop k (contents q @ queuedOf tr)
        \<and> subseq (sentOf tr) (take k (contents q @ queuedOf tr))
        \<and> k \<le> length (sentOf tr) + d \<and> d \<le> k \<and> dropped q' + noticedOf tr = dropped q + of_nat d)"

lemma accounts_refl: "queueOk q \<Longrightarrow> accounts q [] q"
  unfolding accounts_def by (intro conjI exI [of _ 0]) simp_all

lemma accounts_trans:
  assumes "accounts q tr q'" "accounts q' tr' q''"
  shows "accounts q (tr @ tr') q''"
proof -
  from assms(1) obtain k d where a: "k \<le> queued_count q + length (queuedOf tr)"
    "contents q' = drop k (contents q @ queuedOf tr)" "subseq (sentOf tr) (take k (contents q @ queuedOf tr))"
    "k \<le> length (sentOf tr) + d" "d \<le> k" "dropped q' + noticedOf tr = dropped q + of_nat d"
    unfolding accounts_def by blast
  from assms(2) obtain k' d' where b: "k' \<le> queued_count q' + length (queuedOf tr')"
    "contents q'' = drop k' (contents q' @ queuedOf tr')" "subseq (sentOf tr') (take k' (contents q' @ queuedOf tr'))"
    "k' \<le> length (sentOf tr') + d'" "d' \<le> k'" "dropped q'' + noticedOf tr' = dropped q' + of_nat d'"
    and ok: "queueOk q''"
    unfolding accounts_def by blast
  let ?all = "contents q @ queuedOf tr @ queuedOf tr'"
  have "length (contents q') = queued_count q + length (queuedOf tr) - k" unfolding a(2) by simp
  then have count: "queued_count q' = queued_count q + length (queuedOf tr) - k" by simp
  have split: "contents q' @ queuedOf tr' = drop k ?all" using a(1,2) by simp
  have "contents q'' = drop (k + k') ?all" unfolding b(2) split drop_drop by (simp only: add.commute)
  moreover have parts: "take (k + k') ?all = take k (contents q @ queuedOf tr) @ take k' (contents q' @ queuedOf tr')"
    unfolding split take_add using a(1) by simp
  have "subseq (sentOf (tr @ tr')) (take (k + k') ?all)"
    unfolding parts actions_append by (rule list_emb_append_mono [OF a(3) b(3)])
  moreover have "dropped q'' + noticedOf (tr @ tr') = dropped q + of_nat (d + d')"
    using a(6) b(6) by (simp add: algebra_simps)
  moreover have "k + k' \<le> queued_count q + length (queuedOf (tr @ tr'))" using a(1) b(1) count by simp
  moreover have "k + k' \<le> length (sentOf (tr @ tr')) + (d + d')" "d + d' \<le> k + k'" using a(4,5) b(4,5) by simp_all
  ultimately show ?thesis
    unfolding accounts_def actions_append(1) using ok by blast
qed

lemma accounts_queued:
  assumes "queueOk q"
  shows "accounts q [Queued (r\<lparr>sequence_number := nextSequence q\<rparr>)] (enqueueRecord r q)"
proof (cases "queued_count q = 32")
  case True
  then have "contents q \<noteq> []" by (metis length_contents list.size(3) zero_neq_numeral)
  then show ?thesis
    using True enqueueRecord_queues [OF assms, of r] unfolding accounts_def
    by (intro conjI exI [of _ 1]) (simp_all add: drop_Suc)
next
  case False
  then show ?thesis
    using enqueueRecord_queues [OF assms, of r] unfolding accounts_def
    by (intro conjI exI [of _ 0]) simp_all
qed

lemma accounts_logAll:
  assumes "queueOk q"
  shows "case logAll es q of (q', tr) \<Rightarrow> accounts q tr q' \<and> sentOf tr = [] \<and> noticedOf tr = 0
    \<and> length (queuedOf tr) \<le> length es \<and> queued_count q \<le> queued_count q' \<and> nextSequence q' = nextSequence q + of_nat (length (queuedOf tr))"
  using assms
proof (induction es arbitrary: q)
  case Nil
  then show ?case by (simp add: accounts_refl)
next
  case (Cons e es)
  show ?case
  proof (cases "storeEvent e")
    case None
    then show ?thesis using Cons.IH [OF Cons.prems] by (auto split: prod.splits)
  next
    case (Some r)
    obtain q' tr where step: "logAll es (enqueueRecord r q) = (q', tr)" by fastforce
    have "accounts (enqueueRecord r q) tr q'" "sentOf tr = []" "noticedOf tr = 0" "length (queuedOf tr) \<le> length es"
      "queued_count (enqueueRecord r q) \<le> queued_count q'"
      "nextSequence q' = nextSequence (enqueueRecord r q) + of_nat (length (queuedOf tr))"
      using Cons.IH [OF enqueueRecord_queues(1) [OF Cons.prems], of r] step by simp_all
    moreover have "queued_count q \<le> queued_count (enqueueRecord r q)"
      using Cons.prems by (auto simp: enqueueRecord_cases LOG_QUEUE_SIZE_def queueOk_def)
    ultimately show ?thesis
      using Some step accounts_trans [OF accounts_queued [OF Cons.prems]] enqueueRecord_queues(4) [OF Cons.prems, of r]
      by (simp add: add.assoc)
  qed
qed

lemma accounts_logged: "queueOk q \<Longrightarrow> logAll es q = (q', tr) \<Longrightarrow> accounts q tr q'"
  using accounts_logAll [of q es] by simp

lemma logAll_sends_nothing: "logAll es q = (q', tr) \<Longrightarrow> sentOf tr = []"
  by (induction es q arbitrary: q' tr rule: logAll.induct) (auto split: option.splits prod.splits)

section \<open>Sending\<close>

lemma queue_head:
  assumes "queueOk q" "queued_count q \<noteq> 0"
  shows "contents q = queue q ! head q # tl (contents q)" "sequence_number (queue q ! head q) = nextSequence q - of_nat (queued_count q)"
proof -
  have h: "contents q ! 0 = queue q ! head q" using assms by (simp add: contents_nth queueOk_def)
  have "contents q \<noteq> []" using assms(2) by (metis length_contents list.size(3))
  then show "contents q = queue q ! head q # tl (contents q)" using h by (cases "contents q") auto
  show "sequence_number (queue q ! head q) = nextSequence q - of_nat (queued_count q)"
    using sequence_nth [OF assms(1), of 0] assms(2) h by simp
qed

text \<open>A record that was at the head and has been sent, while other tasks logged: it leaves the queue, or has already
  been overwritten.\<close>

lemma accounts_sent:
  assumes "queueOk q" "queued_count q \<noteq> 0" "logAll es q = (q1, tr)" "length es < 2 ^ 32"
  shows "accounts q (tr @ [Sent (queue q ! head q)]) (popSent (queue q ! head q) q1)"
proof -
  let ?r = "queue q ! head q"
  from accounts_logAll [OF assms(1), of es] assms(3)
  have acc: "accounts q tr q1" and none: "sentOf tr = []" "noticedOf tr = 0" and len: "length (queuedOf tr) \<le> length es"
    and grows: "queued_count q \<le> queued_count q1" and seq: "nextSequence q1 = nextSequence q + of_nat (length (queuedOf tr))" by auto
  let ?all = "contents q @ queuedOf tr"
  from acc obtain k d where k: "k \<le> queued_count q + length (queuedOf tr)" "contents q1 = drop k ?all"
    "k \<le> d" "d \<le> k" "dropped q1 = dropped q + of_nat d" and ok1: "queueOk q1"
    unfolding accounts_def using none by auto
  have d: "d = k" using k by simp
  have c1: "queued_count q1 = queued_count q + length (queuedOf tr) - k" using arg_cong [OF k(2), of length] by simp
  have hd_all: "?all = ?r # tl (contents q) @ queuedOf tr" using queue_head(1) [OF assms(1,2)] by (metis append_Cons)
  have head1: "sequence_number (queue q1 ! head q1) = sequence_number ?r \<longleftrightarrow> k = 0" if "queued_count q1 \<noteq> 0"
  proof -
    have "sequence_number (queue q1 ! head q1) = nextSequence q1 - of_nat (queued_count q1)"
      by (rule queue_head(2) [OF ok1 that])
    also have "\<dots> = sequence_number ?r + of_nat k"
      unfolding queue_head(2) [OF assms(1,2)] seq c1 using k(1) by (simp add: of_nat_diff)
    finally have "sequence_number (queue q1 ! head q1) = sequence_number ?r + of_nat k" .
    moreover have "(of_nat k :: u32) = 0 \<longleftrightarrow> k = 0"
    proof -
      have "k < 2 ^ 32" using grows c1 k(1) len assms(2,4) by linarith
      then show ?thesis by (auto simp: word_of_nat_eq_0_iff dest: dvd_imp_le)
    qed
    ultimately show ?thesis by simp
  qed
  have still: "queued_count q1 \<noteq> 0" using grows assms(2) by simp
  show ?thesis
  proof (cases "k = 0")
    case True
    then have pop: "popSent ?r q1 = dropHead q1" using head1 [OF still] still by (simp add: popSent_def dropHead_def)
    have "contents (dropHead q1) = drop 1 ?all" using contents_dropHead [OF still] k(2) True by (simp only: drop_Suc drop_0 One_nat_def)
    moreover have "subseq [?r] (take 1 ?all)" unfolding hd_all by simp
    ultimately show ?thesis
      unfolding accounts_def pop using queueOk_dropHead [OF ok1 still] none k(5) d True assms(2)
      by (intro conjI exI [of _ 1] exI [of _ 0]) simp_all
  next
    case False
    then have pop: "popSent ?r q1 = q1" using head1 [OF still] by (simp add: popSent_def)
    have "subseq [?r] (take k ?all)" unfolding hd_all using False by (cases k) simp_all
    then show ?thesis
      unfolding accounts_def pop using ok1 none k d
      by (intro conjI exI [of _ k] exI [of _ k]) simp_all
  qed
qed
lemma accounts_flush_loop:
  assumes few: "\<And>w. length (loggedDuring I w) < 2 ^ 32" and ok: "queueOk q"
    and run: "flush_loop I budget w q = (w', q', tr)"
  shows "accounts q tr q'"
  using ok run
proof (induction budget arbitrary: w q w' q' tr)
  case 0
  then show ?case by (simp add: accounts_refl)
next
  case (Suc budget)
  obtain q0 tr0 where before: "logAll (loggedBefore I w) q = (q0, tr0)" by fastforce
  have acc0: "accounts q tr0 q0" by (rule accounts_logged [OF Suc.prems(1) before])
  then have ok0: "queueOk q0" by (simp add: accounts_def)
  show ?case
  proof (cases "isConnected I w \<and> queued_count q0 \<noteq> 0")
    case False
    then show ?thesis
      using Suc.prems before acc0 by (auto simp: accounts_refl split: if_splits)
  next
    case True
    obtain okay w1 where send: "sendNow I (queue q0 ! head q0) w = (okay, w1)" by fastforce
    obtain q1 tr1 where during: "logAll (loggedDuring I w1) q0 = (q1, tr1)" by fastforce
    have acc1: "accounts q0 tr1 q1" by (rule accounts_logged [OF ok0 during])
    show ?thesis
    proof (cases okay)
      case False
      then show ?thesis
        using Suc.prems(2) True before send during accounts_trans [OF acc0 acc1] by (simp add: Let_def)
    next
      case okay: True
      let ?r = "queue q0 ! head q0"
      have sent: "accounts q0 (tr1 @ [Sent ?r]) (popSent ?r q1)"
        using True during few by (intro accounts_sent [OF ok0]) simp_all
      obtain w2 q2 tr2 where rest: "flush_loop I budget w1 (popSent ?r q1) = (w2, q2, tr2)"
        by (metis prod_cases3)
      have "accounts (popSent ?r q1) tr2 q2" using sent rest by (intro Suc.IH) (simp_all add: accounts_def)
      then have "accounts q (tr0 @ (tr1 @ [Sent ?r]) @ tr2) q2"
        using accounts_trans [OF acc0 accounts_trans [OF sent]] by blast
      then show ?thesis using Suc.prems(2) True okay before send during rest by (simp add: Let_def)
    qed
  qed
qed

lemma accounts_sendDroppedNotice:
  assumes "queueOk q" "sendDroppedNotice I w q = (okay, w', q', tr)"
  shows "accounts q tr q'"
proof (cases "dropped q = 0 \<or> droppedNotice (dropped q) (unixTime I w) = None")
  case True
  then show ?thesis
    using assms by (auto simp: sendDroppedNotice_def accounts_refl Let_def split: option.splits if_splits)
next
  case False
  then obtain notice where notice: "droppedNotice (dropped q) (unixTime I w) = Some notice" by auto
  obtain fine w1 where send: "sendNow I notice w = (fine, w1)" by fastforce
  obtain q1 tr1 where during: "logAll (loggedDuring I w1) q = (q1, tr1)" by fastforce
  have acc: "accounts q tr1 q1" by (rule accounts_logged [OF assms(1) during])
  have "accounts q1 [Noticed (dropped q)] (q1\<lparr>dropped := dropped q1 - dropped q\<rparr>)"
    using acc unfolding accounts_def
    by (intro conjI exI [of _ 0]) (simp_all add: queueOk_def contents_def)
  then have "accounts q (tr1 @ [Noticed (dropped q)]) (q1\<lparr>dropped := dropped q1 - dropped q\<rparr>)"
    by (rule accounts_trans [OF acc])
  then show ?thesis
    using assms(2) False notice send during acc by (auto simp: sendDroppedNotice_def Let_def split: if_splits)
qed

lemma accounts_update:
  assumes few: "\<And>w. length (loggedDuring I w) < 2 ^ 32" and ok: "queueOk q"
    and run: "update_log I now w q = (w', q', tr)"
  shows "accounts q tr q'"
proof -
  have flush: "accounts p tr q'" if "queueOk p" "flushQueue I v p = (w', q', tr)" for v p
  proof -
    obtain okay w1 q1 tr1 where notice: "sendDroppedNotice I v p = (okay, w1, q1, tr1)" by (metis prod_cases4)
    have acc: "accounts p tr1 q1" by (rule accounts_sendDroppedNotice [OF that(1) notice])
    obtain w2 q2 tr2 where loop: "flush_loop I LOG_QUEUE_SIZE w1 q1 = (w2, q2, tr2)" by (metis prod_cases3)
    have "accounts q1 tr2 q2" using acc by (intro accounts_flush_loop [OF few _ loop]) (simp add: accounts_def)
    then show ?thesis using that(2) notice loop acc accounts_trans [OF acc] by (auto simp: flushQueue_def split: if_splits)
  qed
  let ?p = "q\<lparr>reconnectStartedAt := now, reconnectStarted := True\<rparr>"
  have same: "queueOk ?p = queueOk q" "accounts ?p tr q' = accounts q tr q'" "\<And>v. accounts q [] ?p = accounts q [] q"
    by (simp_all add: queueOk_def accounts_def contents_def)
  show ?thesis
    using run ok flush same accounts_refl [OF ok]
    by (auto simp: update_log_def Let_def split: if_splits)
qed

section \<open>Histories\<close>

text \<open>The main task logs an event or calls \<open>update\<close>.\<close>

datatype LogStep = Emit LogEvent | Update u32

fun log_history :: "'w Wire \<Rightarrow> LogStep list \<Rightarrow> 'w \<Rightarrow> LogQueue \<Rightarrow> 'w \<times> LogQueue \<times> LogAction list" where
  "log_history I [] w q = (w, q, [])"
| "log_history I (Emit e # steps) w q =
     (case sendOrQueue e q of
        (okay, q1) \<Rightarrow> (case log_history I steps w q1 of (w, q2, tr) \<Rightarrow>
           (w, q2, (case storeEvent e of None \<Rightarrow> tr | Some r \<Rightarrow> Queued (r\<lparr>sequence_number := nextSequence q\<rparr>) # tr))))"
| "log_history I (Update now # steps) w q =
     (case update_log I now w q of
        (w, q, tr0) \<Rightarrow> (case log_history I steps w q of (w, q, tr) \<Rightarrow> (w, q, tr0 @ tr)))"

lemma accounts_history:
  assumes few: "\<And>w. length (loggedDuring I w) < 2 ^ 32" and ok: "queueOk q"
    and run: "log_history I steps w q = (w', q', tr)"
  shows "accounts q tr q'"
  using ok run
proof (induction steps arbitrary: w q w' q' tr)
  case Nil
  then show ?case by (simp add: accounts_refl)
next
  case (Cons step steps)
  show ?case
  proof (cases step)
    case (Emit e)
    obtain okay q1 where log: "sendOrQueue e q = (okay, q1)" by fastforce
    obtain w2 q2 tr2 where rest: "log_history I steps w q1 = (w2, q2, tr2)" by (metis prod_cases3)
    show ?thesis
    proof (cases "storeEvent e")
      case None
      then show ?thesis using Cons Emit log rest by (auto simp: sendOrQueue_def)
    next
      case (Some r)
      then have q1: "q1 = enqueueRecord r q" using log by (simp add: sendOrQueue_def)
      have "accounts q1 tr2 q2" using Cons.IH rest q1 enqueueRecord_queues(1) [OF Cons.prems(1)] by blast
      then show ?thesis
        using accounts_trans [OF accounts_queued [OF Cons.prems(1)], of r tr2 q2] Cons.prems(2) Emit Some log rest q1
        by simp
    qed
  next
    case (Update now)
    obtain w1 q1 tr1 where up: "update_log I now w q = (w1, q1, tr1)" by (metis prod_cases3)
    obtain w2 q2 tr2 where rest: "log_history I steps w1 q1 = (w2, q2, tr2)" by (metis prod_cases3)
    have acc: "accounts q tr1 q1" by (rule accounts_update [OF few Cons.prems(1) up])
    then have "queueOk q1" by (simp add: accounts_def)
    then have "accounts q1 tr2 q2" using Cons.IH rest by blast
    then show ?thesis using accounts_trans [OF acc] Cons.prems(2) Update up rest by auto
  qed
qed

text \<open>
  C11. The log towards the server loses nothing unnoticed and keeps its order: after any history of events and
  updates from \<open>begin\<close>, with a connection that may drop, refuse records or come back, and with other tasks logging
  during every send, the queue holds the latest records that were queued; the records sent are among the earlier
  ones, in their order and each at most once; and the counter with the notices sent so far is a number of records
  that covers every earlier record that was not sent.  (It is an upper bound: a record that is overwritten while
  it is being sent is sent and counted.)
\<close>

theorem log_records_accounted:
  assumes "\<And>w. length (loggedDuring I w) < 2 ^ 32" "length (queue q0) = 32"
    and "log_history I steps w (begin_log q0) = (w', q, tr)"
  shows "\<exists>k d. k \<le> length (queuedOf tr) \<and> contents q = drop k (queuedOf tr) \<and>
     subseq (sentOf tr) (take k (queuedOf tr)) \<and> k - length (sentOf tr) \<le> d \<and> d \<le> k \<and>
     dropped q + noticedOf tr = of_nat d"
proof -
  have "accounts (begin_log q0) tr q"
    by (rule accounts_history [OF assms(1) queueOk_begin [OF assms(2)] assms(3)])
  then obtain k d where "k \<le> length (queuedOf tr)" "contents q = drop k (queuedOf tr)"
    "subseq (sentOf tr) (take k (queuedOf tr))" "k \<le> length (sentOf tr) + d" "d \<le> k" "dropped q + noticedOf tr = of_nat d"
    unfolding accounts_def contents_begin by (auto simp: begin_log_def)
  then show ?thesis by (intro exI [of _ k] exI [of _ d]) simp
qed

section \<open>Delivery\<close>

text \<open>The one parameter of a notice always fits.\<close>

lemma droppedNotice_some: "\<exists>r. droppedNotice lost now = Some r"
  by (simp add: droppedNotice_def append_param_def valueBytes_def newBlock_def Let_def LOG_MAX_PARAMS_def
      LOG_PARAM_DATA_MAX_LEN_def)

text \<open>A connection that works: it stays up, every record is sent, and no other task logs meanwhile.\<close>

definition working :: "'w Wire \<Rightarrow> bool" where
  "working I \<longleftrightarrow> (\<forall>w r. isConnected I w \<and> fst (sendNow I r w) \<and> loggedBefore I w = [] \<and> loggedDuring I w = [])"

lemma workingD:
  assumes "working I"
  shows "isConnected I w" "fst (sendNow I r w)" "loggedBefore I w = []" "loggedDuring I w = []"
  using assms by (simp_all add: working_def)

lemma flush_loop_delivers:
  assumes I: "working I" and ok: "queueOk q" and enough: "queued_count q \<le> budget"
  shows "\<exists>w' q' tr. flush_loop I budget w q = (w', q', tr) \<and> sentOf tr = contents q \<and> queued_count q' = 0
    \<and> dropped q' = dropped q \<and> noticedOf tr = 0"
  using ok enough
proof (induction budget arbitrary: w q)
  case 0
  then show ?case by (metis flush_loop.simps(1) le_zero_eq length_0_conv length_contents noticedOf.simps(1) sentOf.simps(1))
next
  case (Suc budget)
  show ?case
  proof (cases "queued_count q = 0")
    case True
    then have "contents q = []" by (metis length_0_conv length_contents)
    then show ?thesis using True workingD [OF I] by simp
  next
    case False
    let ?r = "queue q ! head q"
    have pop: "popSent ?r q = dropHead q" using False by (simp add: popSent_def dropHead_def)
    obtain w1 where send: "sendNow I ?r w = (True, w1)" using workingD(2) [OF I, of ?r w] by (cases "sendNow I ?r w") simp
    obtain w2 q2 tr2 where rest: "flush_loop I budget w1 (dropHead q) = (w2, q2, tr2)"
      and sent: "sentOf tr2 = contents (dropHead q)" "queued_count q2 = 0" "dropped q2 = dropped q" "noticedOf tr2 = 0"
      using Suc.IH [OF queueOk_dropHead [OF Suc.prems(1) False], of w1] Suc.prems(2) by fastforce
    have "flush_loop I (Suc budget) w q = (w2, q2, Sent ?r # tr2)"
      using False send rest pop workingD [OF I] by (simp add: Let_def)
    then show ?thesis
      using sent queue_head(1) [OF Suc.prems(1) False] contents_dropHead [OF False] by simp
  qed
qed

lemma flushQueue_delivers:
  assumes I: "working I" and ok: "queueOk q"
  shows "\<exists>w' q' tr. flushQueue I w q = (w', q', tr) \<and> sentOf tr = contents q \<and> queued_count q' = 0
    \<and> dropped q' = 0 \<and> noticedOf tr = dropped q"
proof -
  obtain w1 q1 tr1 where notice: "sendDroppedNotice I w q = (True, w1, q1, tr1)"
    and after: "queueOk q1" "contents q1 = contents q" "queued_count q1 = queued_count q" "dropped q1 = 0" "sentOf tr1 = []"
      "noticedOf tr1 = dropped q"
  proof (cases "dropped q = 0")
    case True
    then show ?thesis using that [of w q "[]"] ok by (simp add: sendDroppedNotice_def)
  next
    case False
    obtain r where r: "droppedNotice (dropped q) (unixTime I w) = Some r"
      using droppedNotice_some by blast
    obtain w1 where send: "sendNow I r w = (True, w1)" using workingD(2) [OF I, of r w] by (cases "sendNow I r w") simp
    have "sendDroppedNotice I w q = (True, w1, q\<lparr>dropped := 0\<rparr>, [Noticed (dropped q)])"
      using False r send workingD [OF I] by (simp add: sendDroppedNotice_def Let_def)
    then show ?thesis using that ok by (simp add: queueOk_def contents_def)
  qed
  have "queued_count q1 \<le> LOG_QUEUE_SIZE" using after(1) by (simp add: queueOk_def LOG_QUEUE_SIZE_def)
  then obtain w2 q2 tr2 where loop: "flush_loop I LOG_QUEUE_SIZE w1 q1 = (w2, q2, tr2)"
    "sentOf tr2 = contents q" "queued_count q2 = 0" "dropped q2 = 0" "noticedOf tr2 = 0"
    using flush_loop_delivers [OF I after(1), of LOG_QUEUE_SIZE w1] after by auto
  then show ?thesis using notice after by (simp add: flushQueue_def)
qed
text \<open>
  C32. Everything arrives once the connection works: in every state the log can reach, one \<open>update\<close> over a working
  connection sends every record of the queue in order, reports the number of lost records, and leaves nothing
  pending.
\<close>

theorem log_update_delivers:
  assumes "\<And>w. length (loggedDuring I w) < 2 ^ 32" "length (queue q0) = 32"
    and "log_history I steps w (begin_log q0) = (w', q, tr)" and "working J"
  shows "\<exists>w2 q2 tr2. update_log J now v q = (w2, q2, tr2) \<and> sentOf tr2 = contents q \<and> noticedOf tr2 = dropped q \<and>
     \<not> hasPendingOutput q2"
proof -
  have "accounts (begin_log q0) tr q"
    by (rule accounts_history [OF assms(1) queueOk_begin [OF assms(2)] assms(3)])
  then have ok: "queueOk q" by (simp add: accounts_def)
  show ?thesis
  proof (cases "hasPendingOutput q")
    case False
    then have "contents q = []" by (simp add: hasPendingOutput_def contents_def)
    then show ?thesis using False by (simp add: update_log_def hasPendingOutput_def)
  next
    case True
    then have "update_log J now v q = flushQueue J v q"
      using workingD [OF assms(4)] by (simp add: update_log_def)
    then show ?thesis
      using flushQueue_delivers [OF assms(4) ok, of v] by (auto simp: hasPendingOutput_def)
  qed
qed

end
