(* ===== verification/Log_Format.thy ===== *)
theory Log_Format
  imports Log_Params
begin

text \<open>
  Texts of log messages: \<open>findLogMessage\<close> and \<open>logMessageParamCount\<close> of \<open>src/src/log_messages.cpp\<close> and
  \<open>formatLogMessage\<close> of \<open>src/src/log_params.cpp\<close>.  The dictionary is sorted by identifier.  How \<open>snprintf\<close>
  prints a double with \<open>%.17g\<close> is a parameter, \<open>showReal\<close>.
\<close>

section \<open>The code\<close>

record LogMessageDefinition =
  msgId :: nat
  msgText :: string
  shortText :: "string option"

text \<open>The search for the first identifier that is not smaller.\<close>

function lower_bound :: "LogMessageDefinition list \<Rightarrow> nat \<Rightarrow> nat \<Rightarrow> nat \<Rightarrow> nat" where
  "lower_bound messages k low high =
     (if low < high then
        let mid = low + (high - low) div 2
        in if msgId (messages ! mid) < k then lower_bound messages k (mid + 1) high
           else lower_bound messages k low mid
      else low)"
  by auto
termination by (relation "measure (\<lambda>(messages, k, low, high). high - low)") auto

declare lower_bound.simps [simp del]

definition findLogMessage :: "LogMessageDefinition list \<Rightarrow> nat \<Rightarrow> LogMessageDefinition option" where
  "findLogMessage messages k =
     (let low = lower_bound messages k 0 (length messages)
      in if low < length messages \<and> msgId (messages ! low) = k then Some (messages ! low) else None)"

definition isDigitChar :: "char \<Rightarrow> bool" where
  "isDigitChar c \<longleftrightarrow> of_char CHR ''0'' \<le> (of_char c :: nat) \<and> of_char c \<le> (of_char CHR ''9'' :: nat)"

text \<open>The number of a placeholder, as far as its digits are read.\<close>

fun scanIndex :: "string \<Rightarrow> nat \<Rightarrow> nat \<times> string" where
  "scanIndex [] index = (index, [])"
| "scanIndex (c # cs) index =
     (if isDigitChar c \<and> index \<le> LOG_MAX_PARAMS
      then scanIndex cs (index * 10 + (of_char c - of_char CHR ''0''))
      else (index, c # cs))"

lemma scanIndex_length: "length (snd (scanIndex cs index)) \<le> length cs"
  by (induction cs index rule: scanIndex.induct) (auto simp: le_Suc_eq)

lemma scan_shorter: "msg \<noteq> [] \<Longrightarrow> (index, rest) = scanIndex (drop 2 msg) 0 \<Longrightarrow> length rest < length msg"
  using scanIndex_length [of "drop 2 msg" 0] by (cases msg) (auto dest: sym)

lemma skip_shorter: "length rest < n \<Longrightarrow> length (dropWhile P rest) - Suc 0 < n"
  using length_dropWhile_le [of P rest] by simp

definition closes :: "string \<Rightarrow> bool" where
  "closes s \<longleftrightarrow> s \<noteq> [] \<and> hd s = CHR ''}''"

text \<open>The largest placeholder of a text; none where the code returns 255.\<close>

function count_loop :: "string \<Rightarrow> nat \<Rightarrow> nat option" where
  "count_loop msg maximum =
     (if msg = [] then Some maximum
      else if take 2 msg = ''{p'' then
        (case scanIndex (drop 2 msg) 0 of (index, rest) \<Rightarrow>
           if \<not> closes rest \<or> index = 0 \<or> index > LOG_MAX_PARAMS then None
           else count_loop rest (if index > maximum then index else maximum))
      else count_loop (tl msg) maximum)"
  by auto
termination by (relation "measure (\<lambda>(msg, maximum). length msg)") (auto dest: scan_shorter)

declare count_loop.simps [simp del]

definition logMessageParamCount :: "LogMessageDefinition \<Rightarrow> nat" where
  "logMessageParamCount d =
     (case count_loop (msgText d) 0 of
        None \<Rightarrow> 255
      | Some m \<Rightarrow> (case shortText d of
            None \<Rightarrow> m
          | Some s \<Rightarrow> (case count_loop s m of None \<Rightarrow> 255 | Some m \<Rightarrow> m)))"

text \<open>The bounded writer: what it has written, and whether everything fitted.\<close>

record Writer =
  out :: string
  ok :: bool

definition put :: "nat \<Rightarrow> char \<Rightarrow> Writer \<Rightarrow> Writer" where
  "put capacity c w = (if length (out w) + 1 < capacity then w\<lparr>out := out w @ [c]\<rparr> else w\<lparr>ok := False\<rparr>)"

definition put_text :: "nat \<Rightarrow> string \<Rightarrow> Writer \<Rightarrow> Writer" where
  "put_text capacity s w = fold (put capacity) s w"

definition showSigned :: "u64 \<Rightarrow> string" where
  "showSigned v = (if sint v < 0 then ''-'' @ dec_digits (nat (- sint v)) else dec_digits (nat (sint v)))"

definition showParam :: "(u64 \<Rightarrow> string) \<Rightarrow> LogParam \<Rightarrow> string" where
  "showParam showReal p = (case p of
       Signed v \<Rightarrow> showSigned v
     | Unsigned v \<Rightarrow> dec_digits (unat v)
     | Real v \<Rightarrow> showReal v
     | Boolean v \<Rightarrow> if v then ''true'' else ''false''
     | Text t \<Rightarrow> (case t of Some s \<Rightarrow> s | None \<Rightarrow> []))"

text \<open>\<open>%03u\<close>.\<close>

definition pad3 :: "nat \<Rightarrow> string" where
  "pad3 n = replicate (3 - length (dec_digits n)) CHR ''0'' @ dec_digits n"

fun list_params :: "(u64 \<Rightarrow> string) \<Rightarrow> nat \<Rightarrow> LogParamBlock \<Rightarrow> nat \<Rightarrow> nat \<Rightarrow> Writer \<Rightarrow> Writer" where
  "list_params showReal capacity b i 0 w = w"
| "list_params showReal capacity b i (Suc n) w =
     (case get_param i b of
        None \<Rightarrow> w\<lparr>ok := False\<rparr>
      | Some p \<Rightarrow> list_params showReal capacity b (i + 1) n
          (put_text capacity (showParam showReal p) (put_text capacity ('' p'' @ dec_digits (i + 1) @ ''='') w)))"

function format_loop :: "(u64 \<Rightarrow> string) \<Rightarrow> nat \<Rightarrow> LogParamBlock \<Rightarrow> string \<Rightarrow> Writer \<Rightarrow> Writer" where
  "format_loop showReal capacity b msg w =
     (if msg = [] then w
      else if take 2 msg = ''{p'' then
        (case scanIndex (drop 2 msg) 0 of (index, rest) \<Rightarrow>
           if \<not> closes rest \<or> index = 0 \<or> index > LOG_MAX_PARAMS \<or> get_param (index - 1) b = None
           then format_loop showReal capacity b (drop 1 (dropWhile (\<lambda>c. c \<noteq> CHR ''}'') rest))
                  ((put_text capacity ''<missing>'' w)\<lparr>ok := False\<rparr>)
           else format_loop showReal capacity b (tl rest)
                  (put_text capacity (showParam showReal (the (get_param (index - 1) b))) w))
      else format_loop showReal capacity b (tl msg) (put capacity (hd msg) w))"
  by auto
termination
  by (relation "measure (\<lambda>(showReal, capacity, b, msg, w). length msg)")
    (auto dest: scan_shorter intro: skip_shorter)

declare format_loop.simps [simp del]

definition messageText :: "bool \<Rightarrow> LogMessageDefinition \<Rightarrow> string" where
  "messageText short d = (case (short, shortText d) of (True, Some s) \<Rightarrow> s | _ \<Rightarrow> msgText d)"

text \<open>The result and the string in the output buffer.\<close>

definition formatLogMessage ::
  "(u64 \<Rightarrow> string) \<Rightarrow> LogMessageDefinition list \<Rightarrow> nat \<Rightarrow> LogParamBlock \<Rightarrow> bool \<Rightarrow> nat \<Rightarrow> bool \<times> string" where
  "formatLogMessage showReal messages k b short capacity =
     (if capacity = 0 then (False, [])
      else
        let start = \<lparr>out = [], ok = True\<rparr>;
            w = (case findLogMessage messages k of
                None \<Rightarrow> list_params showReal capacity b 0 (count b)
                    (put_text capacity (''Unknown message A'' @ pad3 k) start)
              | Some d \<Rightarrow> format_loop showReal capacity b (messageText short d) start)
        in (ok w, out w))"

text \<open>Rules to evaluate the placeholders of a concrete text.\<close>

lemma count_loop_Nil: "count_loop [] m = Some m"
  by (simp add: count_loop.simps)

lemma count_loop_literal: "c \<noteq> CHR ''{'' \<Longrightarrow> count_loop (c # cs) m = count_loop cs m"
  by (simp add: count_loop.simps [of "_ # _"])

lemma count_loop_placeholder:
  "count_loop (CHR ''{'' # CHR ''p'' # cs) m =
     (case scanIndex cs 0 of (index, rest) \<Rightarrow>
        if \<not> closes rest \<or> index = 0 \<or> index > LOG_MAX_PARAMS then None
        else count_loop rest (if index > m then index else m))"
  by (subst count_loop.simps) simp

lemmas count_eval = count_loop_Nil count_loop_literal count_loop_placeholder isDigitChar_def closes_def
  LOG_MAX_PARAMS_def logMessageParamCount_def

section \<open>What a text means\<close>

text \<open>A text as a list of characters and placeholders, if every placeholder is well formed, and its expansion.\<close>

datatype piece = Lit char | Par nat

function pieces :: "string \<Rightarrow> piece list option" where
  "pieces msg =
     (if msg = [] then Some []
      else if take 2 msg = ''{p'' then
        (case scanIndex (drop 2 msg) 0 of (index, rest) \<Rightarrow>
           if \<not> closes rest \<or> index = 0 \<or> index > LOG_MAX_PARAMS then None
           else map_option (Cons (Par index)) (pieces (tl rest)))
      else map_option (Cons (Lit (hd msg))) (pieces (tl msg)))"
  by auto
termination
  by (relation "measure length") (auto dest: scan_shorter)

declare pieces.simps [simp del]

lemma pieces_Nil [simp]: "pieces [] = Some []"
  by (simp add: pieces.simps)

lemma pieces_literal:
  "msg \<noteq> [] \<Longrightarrow> take 2 msg \<noteq> ''{p'' \<Longrightarrow> pieces msg = map_option (Cons (Lit (hd msg))) (pieces (tl msg))"
  by (subst pieces.simps) simp

lemma pieces_placeholder:
  "msg \<noteq> [] \<Longrightarrow> take 2 msg = ''{p'' \<Longrightarrow> scanIndex (drop 2 msg) 0 = (index, rest) \<Longrightarrow>
   pieces msg = (if \<not> closes rest \<or> index = 0 \<or> index > LOG_MAX_PARAMS then None
     else map_option (Cons (Par index)) (pieces (tl rest)))"
  by (subst pieces.simps) simp

fun showPiece :: "(u64 \<Rightarrow> string) \<Rightarrow> LogParam list \<Rightarrow> piece \<Rightarrow> string" where
  "showPiece showReal ps (Lit c) = [c]"
| "showPiece showReal ps (Par i) = showParam showReal (ps ! (i - 1))"

definition expansion :: "(u64 \<Rightarrow> string) \<Rightarrow> LogParam list \<Rightarrow> piece list \<Rightarrow> string" where
  "expansion showReal ps pcs = concat (map (showPiece showReal ps) pcs)"

fun pieceMax :: "piece \<Rightarrow> nat \<Rightarrow> nat" where
  "pieceMax (Lit c) m = m"
| "pieceMax (Par i) m = max m i"

lemma count_closing: "closes rest \<Longrightarrow> count_loop rest m = count_loop (tl rest) m"
  by (cases rest) (auto simp: closes_def count_loop.simps [of "_ # _"])

lemma count_loop_pieces: "count_loop msg m = map_option (\<lambda>pcs. fold pieceMax pcs m) (pieces msg)"
proof (induction msg arbitrary: m rule: pieces.induct)
  case (1 msg)
  show ?case
  proof (cases "msg = [] \<or> take 2 msg \<noteq> ''{p''")
    case True
    then show ?thesis
      using 1(2) by (subst count_loop.simps, subst pieces.simps) (auto simp: option.map_comp comp_def)
  next
    case False
    obtain index rest where scan: "scanIndex (drop 2 msg) 0 = (index, rest)" by fastforce
    show ?thesis
    proof (cases "\<not> closes rest \<or> index = 0 \<or> index > LOG_MAX_PARAMS")
      case True
      then show ?thesis
        using False scan by (subst count_loop.simps, subst pieces.simps) auto
    next
      case bad: False
      then have "count_loop rest (max m index) = map_option (\<lambda>pcs. fold pieceMax pcs (max m index)) (pieces (tl rest))"
        using 1(1) [of index rest "max m index"] False scan [symmetric] count_closing [of rest] by auto
      moreover have "(if index > m then index else m) = max m index" by simp
      ultimately show ?thesis
        using False bad scan
        by (subst count_loop.simps, subst pieces.simps) (auto simp: option.map_comp comp_def)
    qed
  qed
qed

lemma pieceMax_bound: "fold pieceMax pcs m \<le> n \<longleftrightarrow> m \<le> n \<and> (\<forall>i. Par i \<in> set pcs \<longrightarrow> i \<le> n)"
proof (induction pcs arbitrary: m)
  case (Cons pc pcs)
  then show ?case by (cases pc) auto
qed simp

lemma pieces_positive: "pieces msg = Some pcs \<Longrightarrow> Par i \<in> set pcs \<Longrightarrow> 0 < i \<and> i \<le> LOG_MAX_PARAMS"
proof (induction msg arbitrary: pcs rule: pieces.induct)
  case (1 msg)
  consider "msg = []" | "msg \<noteq> []" "take 2 msg \<noteq> ''{p''" | "msg \<noteq> []" "take 2 msg = ''{p''" by blast
  then show ?case
  proof cases
    case 1
    then show ?thesis using "1.prems" by simp
  next
    case 2
    then obtain qs where qs: "pieces (tl msg) = Some qs" "pcs = Lit (hd msg) # qs"
      using "1.prems"(1) by (auto simp: pieces_literal)
    have "Par i \<in> set qs" using "1.prems"(2) qs(2) by simp
    then show ?thesis by (rule "1.IH"(2) [OF 2 qs(1)])
  next
    case 3
    obtain index rest where scan: "scanIndex (drop 2 msg) 0 = (index, rest)" by fastforce
    from "1.prems"(1) have good: "\<not> (\<not> closes rest \<or> index = 0 \<or> index > LOG_MAX_PARAMS)"
      unfolding pieces_placeholder [OF 3 scan] by (auto split: if_splits)
    then obtain qs where qs: "pieces (tl rest) = Some qs" "pcs = Par index # qs"
      using "1.prems"(1) unfolding pieces_placeholder [OF 3 scan] by auto
    then have "i = index \<or> Par i \<in> set qs" using "1.prems"(2) by simp
    then show ?thesis
      using "1.IH"(1) [OF 3 scan [symmetric] good qs(1)] good by (auto simp: not_less)
  qed
qed

section \<open>The writer\<close>

definition fits :: "nat \<Rightarrow> Writer \<Rightarrow> bool" where
  "fits capacity w \<longleftrightarrow> length (out w) < capacity"

lemma put_text_writes:
  assumes "length (out w) < capacity"
  shows "put_text capacity s w =
    w\<lparr>out := take (capacity - 1) (out w @ s), ok := ok w \<and> length (out w) + length s < capacity\<rparr>"
  using assms
proof (induction s arbitrary: w)
  case Nil
  then show ?case by (cases w) (simp add: put_text_def)
next
  case (Cons c s)
  have "put_text capacity (c # s) w = put_text capacity s (put capacity c w)" by (simp add: put_text_def)
  then show ?case using Cons by (auto simp: put_def take_Cons')
qed

lemma put_text_append: "put_text capacity (s @ t) w = put_text capacity t (put_text capacity s w)"
  by (simp add: put_text_def)

lemma put_is_text: "put capacity c w = put_text capacity [c] w"
  by (simp add: put_text_def)

lemma format_loop_expands:
  assumes "holds ps b"
  shows "pieces msg = Some pcs \<Longrightarrow> \<forall>i. Par i \<in> set pcs \<longrightarrow> i \<le> length ps \<Longrightarrow>
    format_loop showReal capacity b msg w = put_text capacity (expansion showReal ps pcs) w"
proof (induction msg arbitrary: pcs w rule: pieces.induct)
  case (1 msg)
  consider "msg = []" | "msg \<noteq> []" "take 2 msg \<noteq> ''{p''" | "msg \<noteq> []" "take 2 msg = ''{p''" by blast
  then show ?case
  proof cases
    case 1
    then show ?thesis using "1.prems" by (simp add: format_loop.simps expansion_def put_text_def)
  next
    case 2
    then obtain qs where qs: "pieces (tl msg) = Some qs" "pcs = Lit (hd msg) # qs"
      using "1.prems"(1) by (auto simp: pieces_literal)
    have "format_loop showReal capacity b msg w = format_loop showReal capacity b (tl msg) (put capacity (hd msg) w)"
      using 2 by (subst format_loop.simps) simp
    also have "\<dots> = put_text capacity (expansion showReal ps qs) (put capacity (hd msg) w)"
      by (rule "1.IH"(2) [OF 2 qs(1)]) (use "1.prems"(2) qs(2) in simp)
    also have "\<dots> = put_text capacity (expansion showReal ps pcs) w"
      unfolding qs(2) expansion_def list.map concat.simps put_text_append put_is_text by simp
    finally show ?thesis .
  next
    case 3
    obtain index rest where scan: "scanIndex (drop 2 msg) 0 = (index, rest)" by fastforce
    from "1.prems"(1) have good: "\<not> (\<not> closes rest \<or> index = 0 \<or> index > LOG_MAX_PARAMS)"
      unfolding pieces_placeholder [OF 3 scan] by (auto split: if_splits)
    then obtain qs where qs: "pieces (tl rest) = Some qs" "pcs = Par index # qs"
      using "1.prems"(1) unfolding pieces_placeholder [OF 3 scan] by auto
    have "index \<le> length ps" using "1.prems"(2) qs(2) by simp
    then have get: "get_param (index - 1) b = Some (ps ! (index - 1))"
      using get_param_holds [OF assms, of "index - 1"] good by (auto simp: less_eq_Suc_le)
    have "format_loop showReal capacity b msg w
        = format_loop showReal capacity b (tl rest) (put_text capacity (showParam showReal (ps ! (index - 1))) w)"
      using 3 scan good get by (subst format_loop.simps) auto
    also have "\<dots> = put_text capacity (expansion showReal ps qs) (put_text capacity (showParam showReal (ps ! (index - 1))) w)"
      by (rule "1.IH"(1) [OF 3 scan [symmetric] good qs(1)]) (use "1.prems"(2) qs(2) in simp)
    also have "\<dots> = put_text capacity (expansion showReal ps pcs) w"
      unfolding qs(2) expansion_def list.map concat.simps put_text_append by simp
    finally show ?thesis .
  qed
qed

lemma count_fits:
  assumes "logMessageParamCount d = n" "n \<le> LOG_MAX_PARAMS" "msg = msgText d \<or> shortText d = Some msg"
  shows "\<exists>pcs. pieces msg = Some pcs \<and> (\<forall>i. Par i \<in> set pcs \<longrightarrow> i \<le> n)"
proof -
  have n: "n \<noteq> 255" using assms(2) by (simp add: LOG_MAX_PARAMS_def)
  obtain m where m: "count_loop (msgText d) 0 = Some m"
    using assms(1) n unfolding logMessageParamCount_def by (cases "count_loop (msgText d) 0") auto
  then obtain pcs where pcs: "pieces (msgText d) = Some pcs" "fold pieceMax pcs 0 = m"
    unfolding count_loop_pieces by auto
  show ?thesis
  proof (cases "shortText d")
    case None
    then have "m = n" using assms(1) m by (simp add: logMessageParamCount_def)
    then show ?thesis using pcs assms(3) None pieceMax_bound [of pcs 0 m] by auto
  next
    case (Some s)
    then obtain m' where m': "count_loop s m = Some m'" "m' = n"
      using assms(1) n m unfolding logMessageParamCount_def by (cases "count_loop s m") auto
    then obtain qs where qs: "pieces s = Some qs" "fold pieceMax qs m = n"
      unfolding count_loop_pieces by auto
    have "m \<le> n" "\<forall>i. Par i \<in> set qs \<longrightarrow> i \<le> n" using qs(2) pieceMax_bound [of qs m n] by auto
    moreover have "\<forall>i. Par i \<in> set pcs \<longrightarrow> i \<le> m" using pcs(2) pieceMax_bound [of pcs 0 m] by auto
    ultimately show ?thesis using pcs qs assms(3) Some by fastforce
  qed
qed

section \<open>The search\<close>

lemma lower_bound_first:
  assumes "sorted (map msgId messages)" "low \<le> high" "high \<le> length messages"
    and "\<forall>i<low. msgId (messages ! i) < k" "\<forall>i. high \<le> i \<and> i < length messages \<longrightarrow> k \<le> msgId (messages ! i)"
  shows "lower_bound messages k low high \<le> length messages
    \<and> (\<forall>i<lower_bound messages k low high. msgId (messages ! i) < k)
    \<and> (\<forall>i. lower_bound messages k low high \<le> i \<and> i < length messages \<longrightarrow> k \<le> msgId (messages ! i))"
  using assms
proof (induction messages k low high rule: lower_bound.induct)
  case (1 messages k low high)
  note prems = "1.prems"
  show ?case
  proof (cases "low < high")
    case False
    then show ?thesis using prems by (subst lower_bound.simps) (simp add: lower_bound.simps)
  next
    case True
    define mid where "mid = low + (high - low) div 2"
    have mid: "low \<le> mid" "mid < high" using True by (auto simp: mid_def)
    have mono: "msgId (messages ! i) \<le> msgId (messages ! j)" if "i \<le> j" "j < length messages" for i j
      using sorted_nth_mono [OF prems(1), of i j] that by simp
    show ?thesis
    proof (cases "msgId (messages ! mid) < k")
      case less: True
      have below: "\<forall>i<mid + 1. msgId (messages ! i) < k"
      proof (intro allI impI)
        fix i assume "i < mid + 1"
        then have "msgId (messages ! i) \<le> msgId (messages ! mid)" using mid prems(3) by (intro mono) auto
        then show "msgId (messages ! i) < k" using less by simp
      qed
      have step: "lower_bound messages k low high = lower_bound messages k (mid + 1) high"
        using True less by (subst lower_bound.simps) (simp add: mid_def Let_def)
      show ?thesis
        unfolding step by (rule "1.IH"(1) [OF True mid_def less prems(1) _ prems(3) below prems(5)]) (use mid in simp)
    next
      case ge: False
      have above: "\<forall>i. mid \<le> i \<and> i < length messages \<longrightarrow> k \<le> msgId (messages ! i)"
        using ge mono by (metis leI le_trans)
      have step: "lower_bound messages k low high = lower_bound messages k low mid"
        using True ge by (subst lower_bound.simps) (simp add: mid_def Let_def)
      show ?thesis
        unfolding step by (rule "1.IH"(2) [OF True mid_def ge prems(1) mid(1) _ prems(4) above]) (use mid prems(3) in simp)
    qed
  qed
qed

lemma findLogMessage_spec:
  assumes "sorted (map msgId messages)"
  shows "(\<exists>d. findLogMessage messages k = Some d) \<longleftrightarrow> k \<in> msgId ` set messages"
    and "findLogMessage messages k = Some d \<Longrightarrow> d \<in> set messages \<and> msgId d = k"
proof -
  let ?l = "lower_bound messages k 0 (length messages)"
  from lower_bound_first [OF assms, of 0 "length messages" k]
  have l: "\<forall>i<?l. msgId (messages ! i) < k" "\<forall>i. ?l \<le> i \<and> i < length messages \<longrightarrow> k \<le> msgId (messages ! i)" by auto
  show "(\<exists>d. findLogMessage messages k = Some d) \<longleftrightarrow> k \<in> msgId ` set messages"
  proof
    assume "\<exists>d. findLogMessage messages k = Some d"
    then have "?l < length messages" "msgId (messages ! ?l) = k"
      by (auto simp: findLogMessage_def Let_def split: if_splits)
    then show "k \<in> msgId ` set messages" by (metis imageI nth_mem)
  next
    assume "k \<in> msgId ` set messages"
    then obtain i where i: "i < length messages" "msgId (messages ! i) = k" by (auto simp: in_set_conv_nth)
    then have "?l \<le> i" using l(1) by (metis leI less_irrefl)
    moreover have "msgId (messages ! ?l) \<le> msgId (messages ! i)"
      using sorted_nth_mono [OF assms, of ?l i] \<open>?l \<le> i\<close> i by simp
    ultimately show "\<exists>d. findLogMessage messages k = Some d"
      using l(2) i by (auto simp: findLogMessage_def Let_def le_antisym)
  qed
  assume "findLogMessage messages k = Some d"
  then have "?l < length messages" "messages ! ?l = d" "msgId d = k"
    by (auto simp: findLogMessage_def Let_def split: if_splits)
  then show "d \<in> set messages \<and> msgId d = k" by (metis nth_mem)
qed

section \<open>Accepted messages\<close>

text \<open>A message whose number of parameters is the number of its text's placeholders, which is what the logger
  checks before it accepts one, is printed without a missing parameter: both texts of its dictionary entry
  are well formed, what the buffer holds is the text with every placeholder replaced by its parameter, cut off at
  the buffer's size, and the formatter reports a failure exactly if the expansion does not fit.\<close>

theorem accepted_message_formats:
  assumes "findLogMessage messages k = Some d" "logMessageParamCount d = length ps"
    and "append_params ps newBlock = Some b" "list_all paramOk ps" "0 < capacity"
  shows "case pieces (messageText short d) of None \<Rightarrow> False | Some pcs \<Rightarrow>
    formatLogMessage showReal messages k b short capacity =
      (length (expansion showReal ps pcs) < capacity, take (capacity - 1) (expansion showReal ps pcs))"
proof -
  have h: "holds ps b" using append_params_holds [OF assms(3) holds_newBlock assms(4)] by simp
  have "messageText short d = msgText d \<or> shortText d = Some (messageText short d)"
    by (cases short; cases "shortText d") (simp_all add: messageText_def)
  then obtain pcs where pcs: "pieces (messageText short d) = Some pcs" "\<forall>i. Par i \<in> set pcs \<longrightarrow> i \<le> length ps"
    using count_fits [OF assms(2)] h by (auto simp: holds_def)
  have "formatLogMessage showReal messages k b short capacity =
    (let w = put_text capacity (expansion showReal ps pcs) \<lparr>out = [], ok = True\<rparr> in (ok w, out w))"
    using assms(1,5) format_loop_expands [OF h pcs] by (simp add: formatLogMessage_def Let_def)
  also have "\<dots> = (length (expansion showReal ps pcs) < capacity, take (capacity - 1) (expansion showReal ps pcs))"
    by (subst put_text_writes) (simp_all add: assms(5))
  finally show ?thesis using pcs(1) by simp
qed

end
