(* ===== verification/Log_Dictionary.thy ===== *)
theory Log_Dictionary
  imports Log_Format
begin

text \<open>
  The dictionary of the log messages, \<open>src/include/log_messages.def\<close>, with the identifiers of
  \<open>src/include/logger.h\<close>.
\<close>

definition messages1 :: "LogMessageDefinition list" where
  "messages1 = [
    \<lparr>msgId = 1, msgText = ''Invalid actionType idx presented'', shortText = None\<rparr>,
    \<lparr>msgId = 3, msgText = ''Invalid infoType idx presented'', shortText = None\<rparr>,
    \<lparr>msgId = 4, msgText = ''Invalid responseType idx presented'', shortText = None\<rparr>,
    \<lparr>msgId = 5, msgText = ''Initializing LCD display...'', shortText = None\<rparr>,
    \<lparr>msgId = 19, msgText = ''Diagnostics t={p1} ih=[{p2},{p3},{p4}] ps=[{p5},{p6},{p7}] stk={p8} fl=[{p9},{p10},{p11}]'', shortText = Some ''Diagnostics snapshot''\<rparr>,
    \<lparr>msgId = 20, msgText = ''Reading state for logical door number: {p1}'', shortText = None\<rparr>,
    \<lparr>msgId = 21, msgText = ''Invalid door number in lockDeactivate: {p1}'', shortText = None\<rparr>,
    \<lparr>msgId = 22, msgText = ''GPIO HAL loaded {p1} active doors:'', shortText = None\<rparr>,
    \<lparr>msgId = 23, msgText = ''Door {p1} (LogDoorNum: {p2}) - State Pin: {p3}, Last State: {p4}'', shortText = None\<rparr>,
    \<lparr>msgId = 32, msgText = ''Invalid keyboard mode:{p1}'', shortText = None\<rparr>,
    \<lparr>msgId = 44, msgText = ''Missing door number in request'', shortText = None\<rparr>,
    \<lparr>msgId = 46, msgText = ''Invalid door number: {p1}'', shortText = None\<rparr>,
    \<lparr>msgId = 47, msgText = ''Invalid door format'', shortText = None\<rparr>,
    \<lparr>msgId = 48, msgText = ''Invalid door number {p1}'', shortText = None\<rparr>,
    \<lparr>msgId = 49, msgText = ''handleGetDoors called for door number: {p1}'', shortText = None\<rparr>,
    \<lparr>msgId = 50, msgText = ''Mixed state detected for door {p1}'', shortText = None\<rparr>,
    \<lparr>msgId = 53, msgText = ''Presence code required but not provided'', shortText = None\<rparr>,
    \<lparr>msgId = 54, msgText = ''Invalid presence code'', shortText = None\<rparr>,
    \<lparr>msgId = 55, msgText = ''Door {p1} open request queued'', shortText = None\<rparr>,
    \<lparr>msgId = 56, msgText = ''VPN begin failed: {p1}'', shortText = None\<rparr>,
    \<lparr>msgId = 57, msgText = ''VPN configured: 127.0.0.1:{p1} -> {p2}:80'', shortText = None\<rparr>,
    \<lparr>msgId = 58, msgText = ''VPN connection scheduled'', shortText = None\<rparr>,
    \<lparr>msgId = 59, msgText = ''Firmware restart'', shortText = Some ''Restart''\<rparr>,
    \<lparr>msgId = 60, msgText = ''RTC OSF flag: {p1}'', shortText = None\<rparr>,
    \<lparr>msgId = 62, msgText = ''System time loaded from RTC with OSF set; waiting for NTP correction'', shortText = None\<rparr>]"

definition messages2 :: "LogMessageDefinition list" where
  "messages2 = [
    \<lparr>msgId = 63, msgText = ''System time loaded from RTC'', shortText = None\<rparr>,
    \<lparr>msgId = 64, msgText = ''RTC available, but time is not trusted yet'', shortText = None\<rparr>,
    \<lparr>msgId = 65, msgText = ''RTC not found at 0x{p1}'', shortText = None\<rparr>,
    \<lparr>msgId = 66, msgText = ''Box current time epoch: {p1}'', shortText = None\<rparr>,
    \<lparr>msgId = 68, msgText = ''Box current time: {p1}'', shortText = None\<rparr>,
    \<lparr>msgId = 70, msgText = ''Display initialized'', shortText = None\<rparr>,
    \<lparr>msgId = 71, msgText = ''BOX prototype'', shortText = None\<rparr>,
    \<lparr>msgId = 72, msgText = ''HAL initialized'', shortText = None\<rparr>,
    \<lparr>msgId = 73, msgText = ''Keyboard initialized'', shortText = None\<rparr>,
    \<lparr>msgId = 74, msgText = ''Scanner command configuration is invalid'', shortText = None\<rparr>,
    \<lparr>msgId = 75, msgText = ''State machine initialized'', shortText = None\<rparr>,
    \<lparr>msgId = 78, msgText = ''Starting WiFi'', shortText = None\<rparr>,
    \<lparr>msgId = 79, msgText = ''Waiting for WiFi'', shortText = None\<rparr>,
    \<lparr>msgId = 80, msgText = ''WiFi connected!'', shortText = None\<rparr>,
    \<lparr>msgId = 81, msgText = ''WiFi address: {p1}'', shortText = None\<rparr>,
    \<lparr>msgId = 83, msgText = ''Open this URL: http://{p1}'', shortText = None\<rparr>,
    \<lparr>msgId = 85, msgText = ''WiFi FAILED!'', shortText = None\<rparr>,
    \<lparr>msgId = 86, msgText = ''NTP synchronization scheduled'', shortText = None\<rparr>,
    \<lparr>msgId = 87, msgText = ''NTP synchronization not configured'', shortText = None\<rparr>,
    \<lparr>msgId = 88, msgText = ''Credential storage init'', shortText = None\<rparr>,
    \<lparr>msgId = 92, msgText = ''WebSocket Initialized'', shortText = None\<rparr>,
    \<lparr>msgId = 93, msgText = ''Webserver started!'', shortText = None\<rparr>,
    \<lparr>msgId = 94, msgText = ''SETUP COMPLETE!'', shortText = None\<rparr>,
    \<lparr>msgId = 95, msgText = ''Mixed state detected for door {p1} during notification'', shortText = None\<rparr>,
    \<lparr>msgId = 96, msgText = ''Invalid door number {p1} in notification'', shortText = None\<rparr>]"

definition messages3 :: "LogMessageDefinition list" where
  "messages3 = [
    \<lparr>msgId = 97, msgText = ''Lock timer payload: {p1}'', shortText = None\<rparr>,
    \<lparr>msgId = 98, msgText = ''Lock {p1} deactivated'', shortText = None\<rparr>,
    \<lparr>msgId = 99, msgText = ''Invalid lock number in timer callback: {p1}'', shortText = None\<rparr>,
    \<lparr>msgId = 100, msgText = ''Deactivating ambient light'', shortText = None\<rparr>,
    \<lparr>msgId = 101, msgText = ''Password timeout passed'', shortText = None\<rparr>,
    \<lparr>msgId = 102, msgText = ''Unknown due action called'', shortText = None\<rparr>,
    \<lparr>msgId = 103, msgText = ''WiFi lost'', shortText = None\<rparr>,
    \<lparr>msgId = 104, msgText = ''Restarting WiFi association'', shortText = None\<rparr>,
    \<lparr>msgId = 105, msgText = ''WiFi restored'', shortText = None\<rparr>,
    \<lparr>msgId = 106, msgText = ''[CredStore] updateCred: invalid credential'', shortText = None\<rparr>,
    \<lparr>msgId = 107, msgText = ''[CredStore] addCred: invalid credential'', shortText = None\<rparr>,
    \<lparr>msgId = 108, msgText = ''[CredStore] addCred: failed to write new credential'', shortText = None\<rparr>,
    \<lparr>msgId = 109, msgText = ''Credential verification at {p1}'', shortText = None\<rparr>,
    \<lparr>msgId = 110, msgText = ''Checking credential id={p1}, name={p2}, validFrom={p3}, validTo={p4}, remaining={p5}'', shortText = None\<rparr>,
    \<lparr>msgId = 111, msgText = ''[CredStore] removeCred: record with credId={p1} not found'', shortText = None\<rparr>,
    \<lparr>msgId = 112, msgText = ''[CredStore] update: credId={p1} not properly chained'', shortText = None\<rparr>,
    \<lparr>msgId = 113, msgText = ''[CredStore] removeCred: name or credential mismatch for credId={p1}'', shortText = None\<rparr>,
    \<lparr>msgId = 114, msgText = ''[CredStore] removeCred: failed to read prev record with id={p1}'', shortText = None\<rparr>,
    \<lparr>msgId = 115, msgText = ''[CredStore] removeCred: failed to read next record with id={p1}'', shortText = None\<rparr>,
    \<lparr>msgId = 116, msgText = ''[CredStore] update: record with credId={p1} not found'', shortText = None\<rparr>,
    \<lparr>msgId = 117, msgText = ''Credential name or value mismatch for id={p1}'', shortText = None\<rparr>,
    \<lparr>msgId = 118, msgText = ''[CredStore] update: write failed for credId={p1}'', shortText = None\<rparr>,
    \<lparr>msgId = 119, msgText = ''Writing credential id={p1}, name={p2}, door={p3}, validFrom={p4}, validTo={p5}, remaining={p6}'', shortText = None\<rparr>,
    \<lparr>msgId = 120, msgText = ''[CredStore] writeCred: failed to read last record'', shortText = None\<rparr>,
    \<lparr>msgId = 121, msgText = ''[CredStore] writeCred: failed to read prev record with id={p1}'', shortText = None\<rparr>]"

definition messages4 :: "LogMessageDefinition list" where
  "messages4 = [
    \<lparr>msgId = 122, msgText = ''[CredStore] update: failed to write credId={p1}'', shortText = None\<rparr>,
    \<lparr>msgId = 123, msgText = ''[CredStore] update: partial write for credId={p1}, written={p2}   (of {p3})'', shortText = None\<rparr>,
    \<lparr>msgId = 127, msgText = ''[CredStore] rebuildCache: HEAD unreadable'', shortText = None\<rparr>,
    \<lparr>msgId = 128, msgText = ''[CredStore] rebuildCache: broken link at id={p1}'', shortText = None\<rparr>,
    \<lparr>msgId = 129, msgText = ''[CredStore] Cache: {p1} active record(s), maxCredId={p2}'', shortText = None\<rparr>,
    \<lparr>msgId = 130, msgText = ''[CredStore] resetting legacy test-data pool'', shortText = None\<rparr>,
    \<lparr>msgId = 131, msgText = ''[CredStore] GC: empty credential pool, creating sentinels'', shortText = None\<rparr>,
    \<lparr>msgId = 132, msgText = ''[CredStore] GC: corrupted sentinels, resetting credential pool'', shortText = None\<rparr>,
    \<lparr>msgId = 133, msgText = ''[CredStore] GC: rolled back interrupted insert, tailPrev.nextId={p1}'', shortText = None\<rparr>,
    \<lparr>msgId = 134, msgText = ''[CredStore] GC: found interrupted insert, tailPrev.nextId={p1}'', shortText = None\<rparr>,
    \<lparr>msgId = 135, msgText = ''[CredStore] GC: tangled chain, resetting credential pool'', shortText = None\<rparr>,
    \<lparr>msgId = 136, msgText = ''[CredStore] GC: corrupted delete record credId={p1}, resetting credential pool'', shortText = None\<rparr>,
    \<lparr>msgId = 137, msgText = ''[CredStore] GC: removed interrupted delete record credId={p1}'', shortText = None\<rparr>,
    \<lparr>msgId = 138, msgText = ''[CredStore] GC: completed interrupted delete after removed credId={p1}'', shortText = None\<rparr>,
    \<lparr>msgId = 139, msgText = ''[CredStore] GC: traversing chain, current credId={p1}, nextId={p2}'', shortText = None\<rparr>,
    \<lparr>msgId = 140, msgText = ''[CredStore] GC: rolled back broken insert'', shortText = None\<rparr>,
    \<lparr>msgId = 141, msgText = ''[CredStore] GC: interrupted chain, resetting credential pool'', shortText = None\<rparr>,
    \<lparr>msgId = 142, msgText = ''[CredStore] GC: unexpected ID in chain, resetting credential pool'', shortText = None\<rparr>,
    \<lparr>msgId = 143, msgText = ''[CredStore] GC: dubious record in chain, resetting credential pool'', shortText = None\<rparr>,
    \<lparr>msgId = 144, msgText = ''[CredStore] GC: redoing unfinished insert, credId {p1}'', shortText = None\<rparr>,
    \<lparr>msgId = 146, msgText = ''[CredStore] GC: completed interrupted delete'', shortText = None\<rparr>,
    \<lparr>msgId = 147, msgText = ''[CredStore] GC: broken chain, resetting credential pool'', shortText = None\<rparr>,
    \<lparr>msgId = 148, msgText = ''[CredStore] GC: unable to traverse chain, resetting pool, last deleted credId={p1}'', shortText = None\<rparr>,
    \<lparr>msgId = 149, msgText = ''[CredStore] GC: unrecoverable chain state, resetting credential pool'', shortText = None\<rparr>,
    \<lparr>msgId = 152, msgText = ''[CredStore] GC: completed'', shortText = None\<rparr>]"

definition messages5 :: "LogMessageDefinition list" where
  "messages5 = [
    \<lparr>msgId = 153, msgText = ''door {p1} not opened'', shortText = Some ''Door {p1} timeout''\<rparr>,
    \<lparr>msgId = 154, msgText = ''>>>>Keyboard event in state: {p1}, event: {p2}'', shortText = None\<rparr>,
    \<lparr>msgId = 155, msgText = ''>>>>Sensor event in state: {p1}, event: {p2}, door: {p3}'', shortText = None\<rparr>,
    \<lparr>msgId = 156, msgText = ''door {p1} cannot be opened'', shortText = Some ''Door {p1} failed''\<rparr>,
    \<lparr>msgId = 157, msgText = ''Verified credential for door {p1} could not be consumed'', shortText = None\<rparr>,
    \<lparr>msgId = 158, msgText = ''Registering command handler for command: {p1}'', shortText = None\<rparr>,
    \<lparr>msgId = 159, msgText = ''Failed to parse JSON'', shortText = None\<rparr>,
    \<lparr>msgId = 160, msgText = ''Invalid message envelope'', shortText = None\<rparr>,
    \<lparr>msgId = 161, msgText = ''.. Received command: {p1}'', shortText = None\<rparr>,
    \<lparr>msgId = 162, msgText = ''.. Found handler for command: {p1}'', shortText = None\<rparr>,
    \<lparr>msgId = 163, msgText = ''Received message with unknown command'', shortText = None\<rparr>,
    \<lparr>msgId = 164, msgText = ''WebSocket client #{p1} connected from {p2}'', shortText = Some ''Client {p1} online''\<rparr>,
    \<lparr>msgId = 165, msgText = ''WebSocket client #{p1} disconnected'', shortText = Some ''Client {p1} offline''\<rparr>,
    \<lparr>msgId = 167, msgText = ''Invalid client index {p1} for watchdog removal'', shortText = None\<rparr>,
    \<lparr>msgId = 168, msgText = ''Removed watchdog entry for client #{p1}'', shortText = None\<rparr>,
    \<lparr>msgId = 169, msgText = ''Watchdog entry limit reached, cannot track new client'', shortText = None\<rparr>,
    \<lparr>msgId = 170, msgText = ''Client #{p1} timed out, closing connection'', shortText = None\<rparr>,
    \<lparr>msgId = 171, msgText = ''Door {p1} opened'', shortText = Some ''Door {p1} open''\<rparr>,
    \<lparr>msgId = 172, msgText = ''Door {p1} closed'', shortText = Some ''Door {p1} closed''\<rparr>,
    \<lparr>msgId = 173, msgText = ''Password entry started'', shortText = Some ''Enter password''\<rparr>,
    \<lparr>msgId = 174, msgText = ''Password entry canceled'', shortText = Some ''Password canceled''\<rparr>,
    \<lparr>msgId = 175, msgText = ''Password entered'', shortText = None\<rparr>,
    \<lparr>msgId = 176, msgText = ''Password verified for door {p1}'', shortText = Some ''PIN accepted''\<rparr>,
    \<lparr>msgId = 177, msgText = ''Password rejected'', shortText = Some ''Bad password''\<rparr>,
    \<lparr>msgId = 178, msgText = ''Code scanned'', shortText = None\<rparr>]"

definition messages6 :: "LogMessageDefinition list" where
  "messages6 = [
    \<lparr>msgId = 179, msgText = ''Code verified for door {p1}'', shortText = Some ''Code accepted''\<rparr>,
    \<lparr>msgId = 180, msgText = ''Scanned code rejected'', shortText = Some ''Unknown code''\<rparr>,
    \<lparr>msgId = 181, msgText = ''Presence confirmation started'', shortText = Some ''Presence started''\<rparr>,
    \<lparr>msgId = 182, msgText = ''Presence confirmation canceled'', shortText = Some ''Presence canceled''\<rparr>,
    \<lparr>msgId = 183, msgText = ''Open command received'', shortText = None\<rparr>,
    \<lparr>msgId = 184, msgText = ''PIN {p1}: credential {p2}'', shortText = None\<rparr>,
    \<lparr>msgId = 185, msgText = ''PIN edit rejected: {p1}'', shortText = None\<rparr>,
    \<lparr>msgId = 186, msgText = ''Code {p1}: credential {p2}'', shortText = None\<rparr>,
    \<lparr>msgId = 187, msgText = ''Code edit rejected: {p1}'', shortText = None\<rparr>,
    \<lparr>msgId = 188, msgText = ''VPN connected'', shortText = None\<rparr>,
    \<lparr>msgId = 189, msgText = ''VPN disconnected'', shortText = None\<rparr>,
    \<lparr>msgId = 190, msgText = ''Dropped {p1} log event(s) while remote logging was unavailable'', shortText = Some ''Logs dropped: {p1}''\<rparr>,
    \<lparr>msgId = 191, msgText = ''Log event A{p1} rejected: {p2}'', shortText = Some ''Invalid log event''\<rparr>,
    \<lparr>msgId = 192, msgText = ''Could not queue door {p1} open request'', shortText = None\<rparr>,
    \<lparr>msgId = 193, msgText = ''State changed from {p1} to {p2}'', shortText = None\<rparr>,
    \<lparr>msgId = 194, msgText = ''Timer event {p1}'', shortText = None\<rparr>,
    \<lparr>msgId = 195, msgText = ''Password entry timed out'', shortText = None\<rparr>,
    \<lparr>msgId = 196, msgText = ''Presence confirmation timed out'', shortText = None\<rparr>,
    \<lparr>msgId = 197, msgText = ''Code scan started'', shortText = None\<rparr>,
    \<lparr>msgId = 198, msgText = ''Code scan failed or timed out'', shortText = None\<rparr>,
    \<lparr>msgId = 199, msgText = ''State read: {p1}'', shortText = None\<rparr>,
    \<lparr>msgId = 200, msgText = ''Invalid credential type in request'', shortText = None\<rparr>,
    \<lparr>msgId = 201, msgText = ''Scanner receive buffer overflow'', shortText = None\<rparr>,
    \<lparr>msgId = 202, msgText = ''NVS {p1} failed for credential {p2}'', shortText = None\<rparr>,
    \<lparr>msgId = 203, msgText = ''Malformed stored credential {p1}'', shortText = None\<rparr>]"

definition dictionary :: "LogMessageDefinition list" where
  "dictionary = messages1 @ messages2 @ messages3 @ messages4 @ messages5 @ messages6"

lemma dictionary_sorted: "sorted (map msgId dictionary)"
  by (simp add: dictionary_def messages1_def messages2_def messages3_def messages4_def messages5_def messages6_def
      sorted2_simps del: sorted_simps(2) sorted_wrt.simps(2))

text \<open>Every text of the dictionary is well formed.\<close>

definition wellFormed :: "LogMessageDefinition \<Rightarrow> bool" where
  "wellFormed d \<longleftrightarrow> logMessageParamCount d \<le> LOG_MAX_PARAMS"

lemma messages1_well_formed: "list_all wellFormed messages1"
  by (simp add: messages1_def wellFormed_def count_eval)

lemma messages2_well_formed: "list_all wellFormed messages2"
  by (simp add: messages2_def wellFormed_def count_eval)

lemma messages3_well_formed: "list_all wellFormed messages3"
  by (simp add: messages3_def wellFormed_def count_eval)

lemma messages4_well_formed: "list_all wellFormed messages4"
  by (simp add: messages4_def wellFormed_def count_eval)

lemma messages5_well_formed: "list_all wellFormed messages5"
  by (simp add: messages5_def wellFormed_def count_eval)

lemma messages6_well_formed: "list_all wellFormed messages6"
  by (simp add: messages6_def wellFormed_def count_eval)

lemma dictionary_well_formed: "list_all wellFormed dictionary"
  by (simp add: dictionary_def messages1_well_formed messages2_well_formed messages3_well_formed
      messages4_well_formed messages5_well_formed messages6_well_formed)

text \<open>Every identifier of the dictionary is found.\<close>

lemma dictionary_found: "d \<in> set dictionary \<Longrightarrow> \<exists>e. findLogMessage dictionary (msgId d) = Some e"
  using findLogMessage_spec(1) [OF dictionary_sorted, of "msgId d"] by blast

definition noReals :: "u64 \<Rightarrow> string" where
  "noReals v = []"

lemma door_message: "findLogMessage dictionary 48
    = Some \<lparr>msgId = 48, msgText = ''Invalid door number {p1}'', shortText = None\<rparr>"
  by code_simp

definition doorBlock :: LogParamBlock where
  "doorBlock = the (append_params [Unsigned 7] newBlock)"

lemma doorBlock: "append_params [Unsigned 7] newBlock = Some doorBlock"
  by (simp add: doorBlock_def append_param_def valueBytes_def newBlock_def LOG_MAX_PARAMS_def LOG_PARAM_DATA_MAX_LEN_def Let_def)

lemma door_pieces: "pieces ''Invalid door number {p1}'' = Some (map Lit ''Invalid door number '' @ [Par 1])"
  by code_simp

theorem accepted_message_formats_witness:
  "formatLogMessage noReals dictionary 48 doorBlock False 21 = (False, ''Invalid door number '')"
  using accepted_message_formats [OF door_message _ doorBlock, where capacity = 21 and short = False and showReal = noReals]
  by (simp add: count_eval messageText_def door_pieces expansion_def showParam_def dec_digits.simps dec_digit_def)

end
