(* ===== verification/Log_Emit.thy ===== *)
theory Log_Emit
  imports Log_Account Log_Dictionary
begin

text \<open>
  \<open>Logger::emit\<close> of \<open>src/src/logger.cpp\<close>: the checks of an event, its line on the serial port and its place in the
  queue towards the server, and the report that stands in for an event that is refused.  The report goes through
  \<open>emit\<close> itself; the theory shows that this ends.  The OLED display shows the four rows the logger keeps.
\<close>

section \<open>The code\<close>

definition SEVERITY_DEBUG :: nat where "SEVERITY_DEBUG = 1"
definition SEVERITY_CRITICAL :: nat where "SEVERITY_CRITICAL = 5"
definition LOGPRINT_MIN_SEVERITY :: nat where "LOGPRINT_MIN_SEVERITY = SEVERITY_DEBUG"
definition A_LOG_REJECTED :: nat where "A_LOG_REJECTED = 191"

text \<open>The lines of the serial port are kept in order.\<close>

record Logger =
  transport :: "LogQueue option"
  localSource :: string
  rejected :: u32
  serial :: "string list"
  logRows :: "string list"

definition setRemoteTransport :: "LogQueue option \<Rightarrow> Logger \<Rightarrow> Logger" where
  "setRemoteTransport t l = l\<lparr>transport := map_option begin_log t\<rparr>"

definition begin_logger :: "LogQueue option \<Rightarrow> string option \<Rightarrow> Logger \<Rightarrow> Logger" where
  "begin_logger t src l = setRemoteTransport t
     (case src of None \<Rightarrow> l | Some s \<Rightarrow> if length s \<le> LOG_SOURCE_MAX_LEN then l\<lparr>localSource := s\<rparr> else l)"

definition shouldLog :: "nat \<Rightarrow> bool" where
  "shouldLog sev \<longleftrightarrow> sev \<ge> LOGPRINT_MIN_SEVERITY \<and> sev \<ge> SEVERITY_DEBUG \<and> sev \<le> SEVERITY_CRITICAL"

definition severityName :: "nat \<Rightarrow> string" where
  "severityName sev = (if sev = 1 then ''DEBUG'' else if sev = 2 then ''INFO'' else if sev = 3 then ''WARNING''
     else if sev = 4 then ''ERROR'' else if sev = 5 then ''CRITICAL'' else ''UNKNOWN'')"

definition writeSerial :: "(u64 \<Rightarrow> string) \<Rightarrow> LogMessageDefinition list \<Rightarrow> LogRecord \<Rightarrow> LogParamBlock \<Rightarrow> Logger \<Rightarrow> Logger" where
  "writeSerial showReal messages r b l =
     (case formatLogMessage showReal messages (message r) b False 768 of
        (complete, msg) \<Rightarrow> l\<lparr>serial := serial l @
          [''['' @ dec_digits (unat (timestamp r)) @ ''] '' @ severityName (severity r) @ '' area='' @ dec_digits (logArea r)
           @ (case source r of None \<Rightarrow> [] | Some s \<Rightarrow> if s = [] then [] else '' '' @ s)
           @ '': '' @ msg @ (if complete then [] else '' [format incomplete]'')]\<rparr>)"

definition OLEDLINECHARS :: nat where "OLEDLINECHARS = 20"

text \<open>The rows move up by one; the new one is the start of the short text.\<close>

definition writeDebug :: "(u64 \<Rightarrow> string) \<Rightarrow> LogMessageDefinition list \<Rightarrow> LogRecord \<Rightarrow> LogParamBlock \<Rightarrow> Logger \<Rightarrow> Logger" where
  "writeDebug showReal messages r b l =
     (case formatLogMessage showReal messages (message r) b True 768 of
        (complete, msg) \<Rightarrow> l\<lparr>logRows := drop 1 (logRows l) @ [take OLEDLINECHARS msg]\<rparr>)"

text \<open>The report of a refused event; \<open>now\<close> is \<open>time(nullptr)\<close>.\<close>

definition rejectionEvent :: "u32 \<Rightarrow> nat \<Rightarrow> string \<Rightarrow> LogEvent" where
  "rejectionEvent now messageId reason =
     \<lparr>event_record = \<lparr>severity = SEVERITY_ERROR, logArea = LOGAREA_SYSTEM, source = Some ''logger'',
        message = A_LOG_REJECTED, timestamp = now\<rparr>,
      event_params = Some [Unsigned (word_of_nat messageId), Text (Some reason)], paramCount = 2\<rparr>"

function emit :: "(u64 \<Rightarrow> string) \<Rightarrow> LogMessageDefinition list \<Rightarrow> u32 \<Rightarrow> LogEvent \<Rightarrow> Logger \<Rightarrow> Logger"
  and reject :: "(u64 \<Rightarrow> string) \<Rightarrow> LogMessageDefinition list \<Rightarrow> u32 \<Rightarrow> nat \<Rightarrow> string \<Rightarrow> Logger \<Rightarrow> Logger" where
  "emit showReal messages now e l =
     (let r = event_record e
      in if paramCount e > LOG_MAX_PARAMS \<or> (paramCount e \<noteq> 0 \<and> event_params e = None)
         then reject showReal messages now (message r) ''parameter count'' l
         else if (case source r of None \<Rightarrow> False | Some s \<Rightarrow> length s > LOG_SOURCE_MAX_LEN)
         then reject showReal messages now (message r) ''source length'' l
         else if (case findLogMessage messages (message r) of None \<Rightarrow> False
                | Some d \<Rightarrow> logMessageParamCount d \<noteq> paramCount e)
         then reject showReal messages now (message r) ''placeholder count'' l
         else case append_params (case event_params e of None \<Rightarrow> [] | Some ps \<Rightarrow> take (paramCount e) ps) newBlock of
             None \<Rightarrow> reject showReal messages now (message r) ''parameter block'' l
           | Some block \<Rightarrow>
               let l = writeDebug showReal messages r block (writeSerial showReal messages r block l)
               in case transport l of
                   None \<Rightarrow> l
                 | Some q \<Rightarrow>
                     let (accepted, q) = sendOrQueue e q; l = l\<lparr>transport := Some q\<rparr>
                     in if accepted then l
                        else reject showReal messages now (message r) ''transport rejected'' l)"
| "reject showReal messages now messageId reason l =
     (let l = l\<lparr>rejected := rejected l + 1\<rparr>
      in if messageId = A_LOG_REJECTED \<or> \<not> shouldLog SEVERITY_ERROR then l
         else emit showReal messages now (rejectionEvent now messageId reason) l)"
  by pat_completeness auto
termination
  by (relation "measure (\<lambda>x. case x of
       Inl (showReal, messages, now, e, l) \<Rightarrow> if message (event_record e) = A_LOG_REJECTED then 1 else 3
     | Inr (showReal, messages, now, messageId, reason, l) \<Rightarrow> if messageId = A_LOG_REJECTED then 0 else 2)")
    (auto simp: rejectionEvent_def)

declare emit.simps [simp del] reject.simps [simp del]

definition logPrintFrom :: "(u64 \<Rightarrow> string) \<Rightarrow> LogMessageDefinition list \<Rightarrow> u32 \<Rightarrow> string option \<Rightarrow> nat \<Rightarrow> nat \<Rightarrow> nat
    \<Rightarrow> LogParam list \<Rightarrow> Logger \<Rightarrow> Logger" where
  "logPrintFrom showReal messages now src messageId area sev args l =
     (if \<not> shouldLog sev then l
      else emit showReal messages now
        \<lparr>event_record = \<lparr>severity = sev, logArea = area, source = src, message = messageId, timestamp = now\<rparr>,
         event_params = Some (args @ [Unsigned 0]), paramCount = length args\<rparr> l)"

definition logPrint :: "(u64 \<Rightarrow> string) \<Rightarrow> LogMessageDefinition list \<Rightarrow> u32 \<Rightarrow> string \<Rightarrow> nat \<Rightarrow> nat \<Rightarrow> nat
    \<Rightarrow> LogParam list \<Rightarrow> Logger \<Rightarrow> Logger" where
  "logPrint showReal messages now boxHostName messageId area sev args l =
     logPrintFrom showReal messages now (Some (if localSource l \<noteq> [] then localSource l else boxHostName))
       messageId area sev args l"

section \<open>One record for every event\<close>

text \<open>The dictionary's entry for the report has its two placeholders.\<close>

lemma report_message: "findLogMessage dictionary A_LOG_REJECTED
    = Some \<lparr>msgId = 191, msgText = ''Log event A{p1} rejected: {p2}'', shortText = Some ''Invalid log event''\<rparr>"
  unfolding A_LOG_REJECTED_def by code_simp

lemma report_count:
  "logMessageParamCount \<lparr>msgId = 191, msgText = ''Log event A{p1} rejected: {p2}'', shortText = Some ''Invalid log event''\<rparr> = 2"
  by (simp add: logMessageParamCount_def count_eval)

text \<open>The number of the event's parameters is the number of its message's placeholders.\<close>

definition placeholdersMatch :: "LogMessageDefinition list \<Rightarrow> LogEvent \<Rightarrow> bool" where
  "placeholdersMatch messages e \<longleftrightarrow> (case findLogMessage messages (message (event_record e)) of
       None \<Rightarrow> True | Some d \<Rightarrow> logMessageParamCount d = paramCount e)"

text \<open>The reasons \<open>emit\<close> gives.\<close>

definition reasons :: "string list" where
  "reasons = [''parameter count'', ''source length'', ''placeholder count'', ''parameter block'']"

text \<open>Every report can be stored, and says which message was refused and why.\<close>

lemma report_block:
  assumes "reason \<in> set reasons"
  shows "\<exists>b. append_params [Unsigned k, Text (Some reason)] newBlock = Some b
     \<and> get_param 0 b = Some (Unsigned k) \<and> get_param 1 b = Some (Text (Some reason))"
proof -
  have "length reason < 160" "CHR 0x00 \<notin> set reason" using assms by (auto simp: reasons_def)
  have "\<exists>b. append_params [Unsigned k, Text (Some reason)] newBlock = Some b"
    using assms
    by (auto simp: reasons_def append_param_def valueBytes_def newBlock_def Let_def LOG_MAX_PARAMS_def LOG_PARAM_DATA_MAX_LEN_def
        strnlen_def cstr_def charBytes_def)
  then obtain b where b: "append_params [Unsigned k, Text (Some reason)] newBlock = Some b" by blast
  have "holds ([] @ [Unsigned k, Text (Some reason)]) b"
    using append_params_holds [OF b holds_newBlock] \<open>CHR 0x00 \<notin> set reason\<close> by simp
  then show ?thesis using b get_param_holds [of _ b] by fastforce
qed
text \<open>What an accepted event leaves behind.\<close>

lemma write_fields [simp]:
  "transport (writeDebug showReal messages r b (writeSerial showReal messages r b l)) = transport l"
  "rejected (writeDebug showReal messages r b (writeSerial showReal messages r b l)) = rejected l"
  "length (serial (writeDebug showReal messages r b (writeSerial showReal messages r b l))) = length (serial l) + 1"
  by (simp_all add: writeDebug_def writeSerial_def split: prod.splits)

lemma emit_accepts:
  assumes "storeEvent e = Some r" "placeholdersMatch messages e" "transport l = Some q"
  shows "transport (emit showReal messages now e l) = Some (enqueueRecord r q)"
    and "rejected (emit showReal messages now e l) = rejected l"
    and "length (serial (emit showReal messages now e l)) = length (serial l) + 1"
proof -
  let ?r = "event_record e" and ?ps = "case event_params e of None \<Rightarrow> [] | Some ps \<Rightarrow> take (paramCount e) ps"
  obtain b where b: "append_params ?ps newBlock = Some b"
    using assms(1) by (auto simp: storeEvent_def Let_def split: if_splits)
  have ok: "\<not> (paramCount e > LOG_MAX_PARAMS \<or> (paramCount e \<noteq> 0 \<and> event_params e = None))"
    "\<not> (case source ?r of None \<Rightarrow> False | Some s \<Rightarrow> length s > LOG_SOURCE_MAX_LEN)"
    using assms(1) by (auto simp: storeEvent_def Let_def split: if_splits option.splits)
  have match: "\<not> (case findLogMessage messages (message ?r) of None \<Rightarrow> False | Some d \<Rightarrow> logMessageParamCount d \<noteq> paramCount e)"
    using assms(2) by (auto simp: placeholdersMatch_def split: option.splits)
  let ?l = "writeDebug showReal messages ?r b (writeSerial showReal messages ?r b l)"
  have "emit showReal messages now e l = ?l\<lparr>transport := Some (enqueueRecord r q)\<rparr>"
    unfolding emit.simps [of _ _ _ e] Let_def if_not_P [OF ok(1)] if_not_P [OF ok(2)] if_not_P [OF match] b
    by (simp add: assms(3) sendOrQueue_def assms(1))
  then show "transport (emit showReal messages now e l) = Some (enqueueRecord r q)"
    "rejected (emit showReal messages now e l) = rejected l"
    "length (serial (emit showReal messages now e l)) = length (serial l) + 1" by simp_all
qed

text \<open>The first of the code's checks that an event fails, in the words of the report.\<close>

definition refusalReason :: "LogMessageDefinition list \<Rightarrow> LogEvent \<Rightarrow> string" where
  "refusalReason messages e =
     (if LOG_MAX_PARAMS < paramCount e \<or> (paramCount e \<noteq> 0 \<and> event_params e = None) then ''parameter count''
      else if \<exists>s. source (event_record e) = Some s \<and> LOG_SOURCE_MAX_LEN < length s then ''source length''
      else if \<not> placeholdersMatch messages e then ''placeholder count''
      else ''parameter block'')"

lemma refusalReason_listed: "refusalReason messages e \<in> set reasons"
  by (simp add: refusalReason_def reasons_def)

text \<open>A refused event goes to \<open>reject\<close> with that reason; the transport never refuses what passed.\<close>

lemma emit_refuses:
  assumes "storeEvent e = None \<or> \<not> placeholdersMatch messages e"
  shows "emit showReal messages now e l = reject showReal messages now (message (event_record e)) (refusalReason messages e) l"
proof -
  let ?r = "event_record e"
  consider (params) "paramCount e > LOG_MAX_PARAMS \<or> (paramCount e \<noteq> 0 \<and> event_params e = None)"
    | (source) "\<not> (paramCount e > LOG_MAX_PARAMS \<or> (paramCount e \<noteq> 0 \<and> event_params e = None))"
        "case source ?r of None \<Rightarrow> False | Some s \<Rightarrow> length s > LOG_SOURCE_MAX_LEN"
    | (fine) "\<not> (paramCount e > LOG_MAX_PARAMS \<or> (paramCount e \<noteq> 0 \<and> event_params e = None))"
        "\<not> (case source ?r of None \<Rightarrow> False | Some s \<Rightarrow> length s > LOG_SOURCE_MAX_LEN)" by blast
  then show ?thesis
  proof cases
    case params
    then show ?thesis by (simp add: refusalReason_def emit.simps [of _ _ _ e])
  next
    case source
    then have "refusalReason messages e = ''source length''" by (auto simp: refusalReason_def split: option.splits)
    then show ?thesis unfolding emit.simps [of _ _ _ e] Let_def if_not_P [OF source(1)] if_P [OF source(2)] by simp
  next
    case fine
    let ?ps = "case event_params e of None \<Rightarrow> [] | Some ps \<Rightarrow> take (paramCount e) ps"
    have named: "refusalReason messages e = (if \<not> placeholdersMatch messages e then ''placeholder count'' else ''parameter block'')"
      using fine by (auto simp: refusalReason_def split: option.splits)
    show ?thesis
    proof (cases "placeholdersMatch messages e")
      case False
      then have m: "case findLogMessage messages (message ?r) of None \<Rightarrow> False | Some d \<Rightarrow> logMessageParamCount d \<noteq> paramCount e"
        by (auto simp: placeholdersMatch_def split: option.splits)
      show ?thesis
        unfolding emit.simps [of _ _ _ e] Let_def if_not_P [OF fine(1)] if_not_P [OF fine(2)] if_P [OF m]
        using named False by simp
    next
      case True
      then have m: "\<not> (case findLogMessage messages (message ?r) of None \<Rightarrow> False | Some d \<Rightarrow> logMessageParamCount d \<noteq> paramCount e)"
        by (auto simp: placeholdersMatch_def split: option.splits)
      have none: "append_params ?ps newBlock = None"
        using assms True fine by (auto simp: storeEvent_def Let_def split: if_splits option.splits)
      show ?thesis
        unfolding emit.simps [of _ _ _ e] Let_def if_not_P [OF fine(1)] if_not_P [OF fine(2)] if_not_P [OF m] none
        using named True by simp
    qed
  qed
qed

text \<open>The report is accepted.\<close>

lemma report_stored:
  assumes "reason \<in> set reasons"
  shows "\<exists>r. storeEvent (rejectionEvent now k reason) = Some r \<and> queued_message r = A_LOG_REJECTED \<and>
    queued_severity r = SEVERITY_ERROR \<and> get_param 0 (queued_params r) = Some (Unsigned (word_of_nat k)) \<and>
    get_param 1 (queued_params r) = Some (Text (Some reason))"
  using report_block [OF assms, of "word_of_nat k"]
  by (auto simp: storeEvent_def rejectionEvent_def LOG_SOURCE_MAX_LEN_def LOG_MAX_PARAMS_def simp del: append_params.simps)

lemma report_matches: "placeholdersMatch dictionary (rejectionEvent now k reason)"
  unfolding placeholdersMatch_def by (simp add: rejectionEvent_def report_message report_count)

text \<open>
  C25. Every event leaves one record and one printed line, and logging about logging ends.  An event with storable
  source and parameters, whose number is that of its message's placeholders, is queued itself.  Any other event is
  counted, and a report is queued and printed in its place: it carries the message number and the reason, which is
  the first check the event fails (number of parameters, length of the source, placeholders, size of the parameter
  block).  The one exception is a refused event that is such a report itself: it is counted and leaves nothing.
\<close>

theorem emit_logs_once:
  assumes "transport l = Some q"
  shows "let l' = emit showReal dictionary now e l; m = message (event_record e)
    in case (placeholdersMatch dictionary e, storeEvent e) of
        (True, Some r) \<Rightarrow> rejected l' = rejected l \<and> transport l' = Some (enqueueRecord r q)
          \<and> length (serial l') = length (serial l) + 1
      | _ \<Rightarrow> rejected l' = rejected l + 1 \<and>
          (if m = A_LOG_REJECTED then transport l' = Some q \<and> serial l' = serial l
           else length (serial l') = length (serial l) + 1 \<and>
             (\<exists>r. transport l' = Some (enqueueRecord r q) \<and> queued_message r = A_LOG_REJECTED
               \<and> queued_severity r = SEVERITY_ERROR \<and> get_param 0 (queued_params r) = Some (Unsigned (word_of_nat m))
               \<and> get_param 1 (queued_params r) = Some (Text (Some (refusalReason dictionary e)))))"
proof (cases "placeholdersMatch dictionary e \<and> storeEvent e \<noteq> None")
  case True
  then obtain r where "storeEvent e = Some r" by auto
  then show ?thesis using True emit_accepts [of e r dictionary l q] assms by (simp add: Let_def)
next
  case False
  let ?m = "message (event_record e)" and ?l = "l\<lparr>rejected := rejected l + 1\<rparr>"
  define reason where "reason = refusalReason dictionary e"
  have reason: "reason \<in> set reasons" unfolding reason_def by (rule refusalReason_listed)
  have run: "emit showReal dictionary now e l = reject showReal dictionary now ?m reason l"
    unfolding reason_def by (rule emit_refuses) (use False in blast)
  have none: "\<not> (\<exists>r. placeholdersMatch dictionary e \<and> storeEvent e = Some r)" using False by auto
  show ?thesis
  proof (cases "?m = A_LOG_REJECTED")
    case True
    then have "emit showReal dictionary now e l = ?l" unfolding run by (simp add: reject.simps)
    then show ?thesis using True none assms by (auto simp: Let_def split: bool.splits option.splits)
  next
    case False
    have sev: "shouldLog SEVERITY_ERROR"
      by (simp add: shouldLog_def SEVERITY_ERROR_def LOGPRINT_MIN_SEVERITY_def SEVERITY_DEBUG_def SEVERITY_CRITICAL_def)
    have l': "emit showReal dictionary now e l = emit showReal dictionary now (rejectionEvent now ?m reason) ?l"
      unfolding run using False sev by (simp add: reject.simps)
    obtain r where r: "storeEvent (rejectionEvent now ?m reason) = Some r" "queued_message r = A_LOG_REJECTED"
      "queued_severity r = SEVERITY_ERROR" "get_param 0 (queued_params r) = Some (Unsigned (word_of_nat ?m))"
      "get_param 1 (queued_params r) = Some (Text (Some reason))"
      using report_stored [OF reason] by blast
    have "transport ?l = Some q" using assms by simp
    from emit_accepts [OF r(1) report_matches this, of showReal now] show ?thesis
      using False none r unfolding l' reason_def by (auto simp: Let_def split: bool.splits option.splits)
  qed
qed

end
