(* ===== verification/Log_Frame.thy ===== *)
theory Log_Frame
  imports Log_Queue
begin

text \<open>
  What a queued log record becomes on the wire: \<open>serializeLogRecord\<close> of \<open>src/src/log_serialization.cpp\<close>, which
  expands control characters in place after ArduinoJson has written the document, and the masked frame that
  \<open>sendTextFrame\<close> of \<open>src/src/websocket_log_transport.cpp\<close> builds.  ArduinoJson is a parameter: the text it
  writes for a document, and whether it ran out of memory.
\<close>

section \<open>The code\<close>

definition COMM_LOG :: string where "COMM_LOG = ''c_log''"

datatype LogJson = JNumber nat | JString string | JParam LogParam | JObject "(string \<times> LogJson) list"

fun params_loop :: "LogParamBlock \<Rightarrow> nat \<Rightarrow> nat \<Rightarrow> (string \<times> LogJson) list option" where
  "params_loop b i 0 = Some []"
| "params_loop b i (Suc n) =
     (case get_param i b of
        None \<Rightarrow> None
      | Some p \<Rightarrow> map_option (\<lambda>rest. (''p'' @ dec_digits (i + 1), JParam p) # rest) (params_loop b (i + 1) n))"

definition logDocument :: "QueuedLogRecord \<Rightarrow> LogJson option" where
  "logDocument r = map_option (\<lambda>params. JObject
      [(''_command_'', JString COMM_LOG), (''_timestamp_'', JNumber (unat (queued_timestamp r))),
       (''data'', JObject [(''source'', JString (queued_source r)), (''area'', JNumber (queued_area r)),
          (''severity'', JNumber (queued_severity r)), (''message'', JNumber (queued_message r)),
          (''timestamp'', JNumber (unat (queued_timestamp r))), (''messageparams'', JObject params)])])
     (params_loop (queued_params r) 0 (count (queued_params r)))"

definition hexDigit :: "u8 \<Rightarrow> u8" where
  "hexDigit v = (if v < 10 then 0x30 + v else 0x57 + v)"

text \<open>The expansion from the end: \<open>i\<close> bytes are still to be moved, the next goes in front of \<open>destination\<close>.\<close>

fun expand_loop :: "nat \<Rightarrow> nat \<Rightarrow> bytes \<Rightarrow> bytes" where
  "expand_loop 0 destination out = out"
| "expand_loop (Suc i) destination out =
     (let c = out ! i
      in if c < 0x20 then
           let destination = destination - 6;
               out = out[destination := 0x5c, destination + 1 := 0x75, destination + 2 := 0x30, destination + 3 := 0x30,
                 destination + 4 := hexDigit (drop_bit 4 c), destination + 5 := hexDigit (c AND 15)]
           in expand_loop i destination out
         else let destination = destination - 1 in expand_loop i destination (out[destination := c]))"

definition serializeLogRecord :: "(LogJson \<Rightarrow> bytes) \<Rightarrow> (LogJson \<Rightarrow> bool) \<Rightarrow> QueuedLogRecord \<Rightarrow> bytes \<Rightarrow> nat
    \<Rightarrow> bool \<times> bytes \<times> nat" where
  "serializeLogRecord serializeJson overflowed r out capacity =
     (if capacity = 0 \<or> count (queued_params r) > LOG_MAX_PARAMS then (False, out, 0)
      else case logDocument r of
          None \<Rightarrow> (False, out, 0)
        | Some doc \<Rightarrow>
            if overflowed doc \<or> length (serializeJson doc) \<ge> capacity then (False, out, 0)
            else
              let serializedSize = length (serializeJson doc);
                  out = serializeJson doc @ [0] @ drop (serializedSize + 1) out;
                  controls = length (filter (\<lambda>c. c < 0x20) (take serializedSize out));
                  expanded = serializedSize + controls * 5
              in if expanded \<ge> capacity then (False, out, 0)
                 else (True, expand_loop serializedSize expanded (out[expanded := 0]), expanded))"

definition LOG_WS_FRAME_MAX_LEN :: nat where "LOG_WS_FRAME_MAX_LEN = 1536"

text \<open>The frame of a text; \<open>key\<close> is the mask of four random bytes; none where the code refuses.\<close>

definition textFrame :: "bytes \<Rightarrow> bytes \<Rightarrow> bytes option" where
  "textFrame txt key =
     (let len = length txt;
          header = [0x81] @ (if len < 126 then [0x80 OR word_of_nat len]
            else [0x80 OR 126, word_of_nat (len div 256), word_of_nat len]) @ key
      in if len > 65535 \<or> length header + len > LOG_WS_FRAME_MAX_LEN then None
         else Some (header @ map (\<lambda>i. txt ! i XOR key ! (i mod 4)) [0..<len]))"

section \<open>The expansion\<close>

text \<open>Reference: every control character becomes its six characters.\<close>

definition escapeControl :: "u8 \<Rightarrow> bytes" where
  "escapeControl c = (if c < 0x20 then [0x5c, 0x75, 0x30, 0x30, hexDigit (drop_bit 4 c), hexDigit (c AND 15)] else [c])"

definition escapeControls :: "bytes \<Rightarrow> bytes" where
  "escapeControls s = concat (map escapeControl s)"

lemma escapeControls_simps [simp]:
  "escapeControls [] = []" "escapeControls (s @ t) = escapeControls s @ escapeControls t"
  "escapeControls [c] = escapeControl c"
  by (simp_all add: escapeControls_def)

lemma length_escapeControls: "length (escapeControls s) = length s + length (filter (\<lambda>c. c < 0x20) s) * 5"
  by (induction s) (simp_all add: escapeControls_def escapeControl_def)

lemma write_at:
  assumes "out = pre @ old @ rest" "length old = length new"
  shows "take (length pre) out @ new @ drop (length pre + length new) out = pre @ new @ rest"
  using assms by simp

lemma update_six:
  assumes "n + 6 \<le> length out"
  shows "out[n := a, n + 1 := b, n + 2 := c, n + 3 := d, n + 4 := e, n + 5 := f]
    = take n out @ [a, b, c, d, e, f] @ drop (n + 6) out"
  using assms by (intro nth_equalityI) (auto simp: nth_append nth_list_update nth_Cons' not_less)

text \<open>The bytes in front are still the old ones, the bytes behind are already final.\<close>

lemma expand_loop_spec:
  assumes "take (length s) out = s" "length (escapeControls s) \<le> length out"
  shows "expand_loop (length s) (length (escapeControls s)) out = escapeControls s @ drop (length (escapeControls s)) out"
  using assms
proof (induction s arbitrary: out rule: rev_induct)
  case Nil
  then show ?case by simp
next
  case (snoc c s)
  let ?n = "length (escapeControls s)" and ?m = "length (escapeControl c)"
  have le: "length s \<le> ?n" by (simp add: length_escapeControls)
  have len: "?n + ?m \<le> length out" using snoc.prems(2) by simp
  have m: "0 < ?m" by (simp add: escapeControl_def)
  have c: "out ! length s = c"
    using snoc.prems(1) nth_take [of "length s" "Suc (length s)" out] by (simp del: nth_take)
  have s: "take (length s) out = s"
    using arg_cong [OF snoc.prems(1), of "take (length s)"] by simp
  define out' where "out' = take ?n out @ escapeControl c @ drop (?n + ?m) out"
  have step: "expand_loop (length (s @ [c])) (length (escapeControls (s @ [c]))) out = expand_loop (length s) ?n out'"
  proof (cases "c < 0x20")
    case True
    then show ?thesis
      using len c update_six [of ?n out] by (simp add: Let_def out'_def escapeControl_def eval_nat_numeral)
  next
    case False
    then have "out[?n := c] = out'"
      using len by (simp add: out'_def escapeControl_def upd_conv_take_nth_drop)
    then show ?thesis using False c by (simp add: Let_def escapeControl_def)
  qed
  have "expand_loop (length s) ?n out' = escapeControls s @ drop ?n out'"
  proof (rule snoc.IH)
    show "take (length s) out' = s" using s le len m by (simp add: out'_def min_absorb2)
    show "?n \<le> length out'" using len by (simp add: out'_def)
  qed
  also have "drop ?n out' = escapeControl c @ drop (?n + ?m) out" using len by (simp add: out'_def)
  finally show ?case using step by simp
qed
text \<open>The document, its expansion and the result.\<close>

lemma serializeLogRecord_spec:
  assumes "length out = capacity" "serializeLogRecord ser overflowed r out capacity = (True, out', written)"
  shows "\<exists>doc. logDocument r = Some doc \<and> take written out' = escapeControls (ser doc) \<and> written < capacity
    \<and> out' ! written = 0 \<and> length out' = capacity"
proof -
  from assms(2) obtain doc where doc: "logDocument r = Some doc" "length (ser doc) < capacity"
    by (auto simp: serializeLogRecord_def Let_def split: if_splits option.splits)
  let ?s = "ser doc" and ?e = "escapeControls (ser doc)"
  define mid where "mid = (?s @ [0] @ drop (length ?s + 1) out)[length ?e := 0]"
  have written: "written = length ?e" "length ?e < capacity" "out' = expand_loop (length ?s) (length ?e) mid"
    using assms(2) doc
    by (auto simp: serializeLogRecord_def Let_def length_escapeControls mid_def split: if_splits option.splits)
  have len: "length mid = capacity" using assms(1) doc(2) by (simp add: mid_def)
  have "length ?s \<le> length ?e" by (simp add: length_escapeControls)
  then have keep: "take (length ?s) mid = ?s" by (simp add: mid_def)
  have at: "mid ! length ?e = 0" using len written(2) by (simp add: mid_def)
  have out': "out' = ?e @ drop (length ?e) mid"
    unfolding written(3) by (rule expand_loop_spec) (use keep len written(2) in simp_all)
  have "out' ! length ?e = 0" unfolding out' using at len written(2) by (simp add: nth_append)
  then show ?thesis using doc(1) written(1,2) out' len by simp
qed

lemma hexDigit_printable: "v < 16 \<Longrightarrow> 0x20 \<le> hexDigit v"
proof -
  assume "v < 16"
  then have "unat v < 16" by (simp add: word_less_nat_alt)
  then have "v = word_of_nat (unat v) \<and> unat v \<in> {0..<16}" by simp
  then have "v \<in> word_of_nat ` {0..<16}" by blast
  moreover have "list_all (\<lambda>v. (0x20 :: u8) \<le> hexDigit v) (map word_of_nat [0..<16])" by code_simp
  ultimately show ?thesis by (auto simp: list_all_iff)
qed

lemma escapeControls_printable: "list_all (\<lambda>c. 0x20 \<le> c) (escapeControls s)"
proof -
  have high: "drop_bit 4 c < 16" if "c < 0x20" for c :: u8
  proof -
    have "unat c div 16 \<le> unat c" by (rule div_le_dividend)
    then show ?thesis using that by (simp add: word_less_nat_alt unat_drop_bit_eq drop_bit_eq_div [where ?'a = nat])
  qed
  have low: "c AND 15 < 16" for c :: u8
    using word_and_le1 [of c 15] by (rule le_less_trans) simp
  show ?thesis
    unfolding list_all_iff escapeControls_def
    by (auto simp: escapeControl_def hexDigit_printable high low not_less split: if_splits)
qed

section \<open>The frame\<close>

text \<open>Reading a frame as RFC 6455 describes it: a final text frame, its length, its mask, its payload and what follows.\<close>

definition readFrame :: "bytes \<Rightarrow> (bytes \<times> bytes) option" where
  "readFrame f =
     (if length f < 2 \<or> f ! 0 \<noteq> 0x81 \<or> f ! 1 AND 0x80 = 0 then None
      else
        let n = unat (f ! 1 AND 0x7f); wide = (n = 126); off = (if wide then 4 else 2);
            len = (if wide then 256 * unat (f ! 2) + unat (f ! 3) else n); key = take 4 (drop off f)
        in if n = 127 \<or> length f < off + 4 + len then None
           else Some (map (\<lambda>i. f ! (off + 4 + i) XOR key ! (i mod 4)) [0..<len], drop (off + 4 + len) f))"

lemma frame_parts:
  assumes "length hdr = off" "length key = 4" "length body = len"
  shows "map (\<lambda>i. (hdr @ key @ body @ rest) ! (off + 4 + i) XOR take 4 (drop off (hdr @ key @ body @ rest)) ! (i mod 4))
       [0..<len] = map (\<lambda>i. body ! i XOR key ! (i mod 4)) [0..<len]"
    and "drop (off + 4 + len) (hdr @ key @ body @ rest) = rest"
  using assms by (auto simp: nth_append)

lemma frame_reads_back:
  assumes "textFrame txt key = Some f" "length key = 4"
  shows "readFrame (f @ rest) = Some (txt, rest)"
proof -
  let ?len = "length txt" and ?body = "map (\<lambda>i. txt ! i XOR key ! (i mod 4)) [0..<length txt]"
  have len: "?len \<le> 65535" using assms(1) by (auto simp: textFrame_def Let_def split: if_splits)
  have unmasked: "map (\<lambda>i. ?body ! i XOR key ! (i mod 4)) [0..<?len] = txt"
    by (rule nth_equalityI) (simp_all add: xor.assoc)
  show ?thesis
  proof (cases "?len < 126")
    case True
    have f: "f = [0x81, 0x80 OR word_of_nat ?len] @ key @ ?body"
      using assms(1) True by (auto simp: textFrame_def Let_def split: if_splits)
    let ?l = "word_of_nat ?len :: u8"
    have l: "unat ?l = ?len" using True by (simp add: unat_of_nat)
    have "unat (take_bit 7 ?l) = unat ?l"
      unfolding unsigned_take_bit_eq l using True by (simp add: take_bit_eq_mod)
    then have "take_bit 7 ?l = ?l" by (simp only: unsigned_word_eqI)
    moreover have "x AND 0x7f = take_bit 7 x" for x :: u8
      unfolding take_bit_eq_mask by (simp add: mask_eq_exp_minus_1)
    moreover have "take_bit 7 (0x80 :: u8) = 0" by simp
    ultimately have low: "(0x80 OR ?l) AND 0x7f = ?l" by (simp only: take_bit_or or.left_neutral)
    have "bit ((0x80 OR ?l) AND 0x80) 7" by (simp add: bit_simps)
    then have high: "(0x80 OR ?l) AND 0x80 \<noteq> 0" by (metis bit_0_eq bot_apply bot_bool_def)
    have h: "length [0x81, 0x80 OR ?l] = 2" by simp
    have body: "length ?body = ?len" by simp
    show ?thesis
      using frame_parts [OF h assms(2) body, of rest] low high l True assms(2) unmasked
      unfolding readFrame_def f by (simp add: Let_def)
  next
    case False
    have f: "f = [0x81, 0xfe, word_of_nat (?len div 256), word_of_nat ?len] @ key @ ?body"
      using assms(1) False by (auto simp: textFrame_def Let_def split: if_splits)
    have l: "256 * unat (word_of_nat (?len div 256) :: u8) + unat (word_of_nat ?len :: u8) = ?len"
      using len by (simp add: unat_of_nat)
    have bits: "(0xfe :: u8) AND 0x80 = 0x80" "(0xfe :: u8) AND 0x7f = 126" by simp_all
    have h: "length [0x81, 0xfe, word_of_nat (?len div 256), word_of_nat ?len :: u8] = 4" by simp
    have body: "length ?body = ?len" by simp
    show ?thesis
      using frame_parts [OF h assms(2) body, of rest] bits l assms(2) unmasked
      unfolding readFrame_def f by (simp add: Let_def)
  qed
qed
text \<open>
  C30. What the server reads is the record: when \<open>serializeLogRecord\<close> succeeds in the buffer \<open>sendNow\<close> gives it, the
  bytes are the document ArduinoJson wrote with every control character replaced by its escape, none is left, a
  NUL follows, and the frame built from them, whatever its mask, is read back by a WebSocket server as exactly
  these bytes, with nothing taken from what follows.
\<close>

theorem sent_frame_reads_back:
  assumes "serializeLogRecord ser overflowed r out (LOG_WS_FRAME_MAX_LEN - 8) = (True, out', written)"
    and "length out = LOG_WS_FRAME_MAX_LEN - 8" "length key = 4"
  shows "\<exists>doc f. logDocument r = Some doc \<and> take written out' = escapeControls (ser doc) \<and> out' ! written = 0 \<and>
    list_all (\<lambda>c. 0x20 \<le> c) (take written out') \<and>
    textFrame (take written out') key = Some f \<and> readFrame (f @ rest) = Some (take written out', rest)"
proof -
  obtain doc where doc: "logDocument r = Some doc" "take written out' = escapeControls (ser doc)"
    "written < LOG_WS_FRAME_MAX_LEN - 8" "out' ! written = 0" "length out' = LOG_WS_FRAME_MAX_LEN - 8"
    using serializeLogRecord_spec [OF assms(2,1)] by blast
  have "length (take written out') = written" using doc(3,5) by simp
  then obtain f where f: "textFrame (take written out') key = Some f"
    using doc(3) assms(3) by (fastforce simp: textFrame_def Let_def LOG_WS_FRAME_MAX_LEN_def split: if_splits)
  have "list_all (\<lambda>c. 0x20 \<le> c) (take written out')" unfolding doc(2) by (rule escapeControls_printable)
  then show ?thesis using doc f frame_reads_back [OF f assms(3)] by blast
qed

end
