(* ===== verification/Log_Socket.thy ===== *)
theory Log_Socket
  imports Log_Account Log_Frame
begin

text \<open>
  The connection to the log server, \<open>WebSocketLogTransport\<close> of \<open>src/src/websocket_log_transport.cpp\<close>: its state
  machine over the callbacks of \<open>AsyncClient\<close>, the handshake, the frames, and \<open>update\<close>, which runs the queue of
  \<open>BufferedLogTransport\<close> over it.  \<open>AsyncClient\<close> is an interface; it may change between any two calls.  A call of
  \<open>close\<close> that reports \<open>onDisconnect\<close> at once does to the transport what \<open>closeClient\<close> does after it.
\<close>

section \<open>The code\<close>

datatype ConnectionState = Disconnected | Connecting | Handshaking | Connected

record 'c AsyncClient =
  tcp_connected :: "'c \<Rightarrow> bool"
  tcp_connecting :: "'c \<Rightarrow> bool"
  tcp_canSend :: "'c \<Rightarrow> bool"
  tcp_space :: "'c \<Rightarrow> nat"
  tcp_connect :: "string \<Rightarrow> u16 \<Rightarrow> 'c \<Rightarrow> bool \<times> 'c"
  tcp_close :: "'c \<Rightarrow> 'c"
  tcp_write :: "bytes \<Rightarrow> 'c \<Rightarrow> nat \<times> 'c"
  millis :: "'c \<Rightarrow> u32"
  unixClock :: "'c \<Rightarrow> u32"
  esp_random :: "'c \<Rightarrow> u32 \<times> 'c"
  otherTasks :: "'c \<Rightarrow> LogEvent list"

text \<open>The addresses, the JSON library and the stack memory of the output buffer.\<close>

record WsConfig =
  wsHost :: string
  wsPort :: u16
  wsPath :: string
  serializeJson :: "LogJson \<Rightarrow> bytes"
  overflowed :: "LogJson \<Rightarrow> bool"
  outputBuffer :: bytes

text \<open>Of the response buffer the \<open>handshakeResponseLen\<close> bytes in front of its terminator.\<close>

record 'c WebSocket =
  client :: 'c
  state :: ConnectionState
  lastActivityMillis :: u32
  handshakeResponse :: string

definition LOG_HANDSHAKE_TIMEOUT :: u32 where "LOG_HANDSHAKE_TIMEOUT = 5000"
definition LOG_IDLE_DISCONNECT_DELAY :: u32 where "LOG_IDLE_DISCONNECT_DELAY = 1000"
definition LOG_HANDSHAKE_RESPONSE_MAX_LEN :: nat where "LOG_HANDSHAKE_RESPONSE_MAX_LEN = 512"

definition clearHandshakeResponse :: "'c WebSocket \<Rightarrow> 'c WebSocket" where
  "clearHandshakeResponse t = t\<lparr>handshakeResponse := []\<rparr>"

definition closeClient :: "'c AsyncClient \<Rightarrow> 'c WebSocket \<Rightarrow> 'c WebSocket" where
  "closeClient A t =
     (let t = (if tcp_connected A (client t) \<or> tcp_connecting A (client t)
           then t\<lparr>client := tcp_close A (client t)\<rparr> else t)
      in clearHandshakeResponse (t\<lparr>state := Disconnected\<rparr>))"

definition isConnectedWs :: "'c AsyncClient \<Rightarrow> 'c WebSocket \<Rightarrow> bool" where
  "isConnectedWs A t \<longleftrightarrow> state t = Connected \<and> tcp_connected A (client t)"

definition canWrite :: "'c AsyncClient \<Rightarrow> nat \<Rightarrow> 'c WebSocket \<Rightarrow> bool" where
  "canWrite A len t \<longleftrightarrow> tcp_connected A (client t) \<and> tcp_canSend A (client t) \<and> tcp_space A (client t) \<ge> len"

definition writeAll :: "'c AsyncClient \<Rightarrow> bytes \<Rightarrow> 'c WebSocket \<Rightarrow> bool \<times> 'c WebSocket" where
  "writeAll A d t =
     (if \<not> canWrite A (length d) t then (False, t)
      else case tcp_write A d (client t) of (n, c) \<Rightarrow> (n = length d, t\<lparr>client := c\<rparr>))"

definition handshakeRequest :: "WsConfig \<Rightarrow> string" where
  "handshakeRequest cfg = ''GET '' @ wsPath cfg @ '' HTTP/1.1'' @ [CHR 0x0d, CHR 0x0a] @ ''Host: '' @ wsHost cfg @ '':''
     @ dec_digits (unat (wsPort cfg)) @ [CHR 0x0d, CHR 0x0a] @ ''Upgrade: websocket'' @ [CHR 0x0d, CHR 0x0a]
     @ ''Connection: Upgrade'' @ [CHR 0x0d, CHR 0x0a] @ ''Sec-WebSocket-Key: dGhlIHNhbXBsZSBub25jZQ=='' @ [CHR 0x0d, CHR 0x0a]
     @ ''Sec-WebSocket-Version: 13'' @ [CHR 0x0d, CHR 0x0a, CHR 0x0d, CHR 0x0a]"

definition sendHandshake :: "'c AsyncClient \<Rightarrow> WsConfig \<Rightarrow> 'c WebSocket \<Rightarrow> 'c WebSocket" where
  "sendHandshake A cfg t =
     (case writeAll A (charBytes (handshakeRequest cfg)) t of (okay, t) \<Rightarrow> if \<not> okay then closeClient A t else t)"

definition handleConnect :: "'c AsyncClient \<Rightarrow> WsConfig \<Rightarrow> 'c WebSocket \<Rightarrow> 'c WebSocket" where
  "handleConnect A cfg t = sendHandshake A cfg
     (clearHandshakeResponse (t\<lparr>state := Handshaking, lastActivityMillis := millis A (client t)\<rparr>))"

definition handleDisconnect :: "'c WebSocket \<Rightarrow> 'c WebSocket" where
  "handleDisconnect t = clearHandshakeResponse (t\<lparr>state := Disconnected\<rparr>)"

definition toLower :: "char \<Rightarrow> char" where
  "toLower c = (if (of_char c :: nat) \<in> {65..90} then char_of ((of_char c :: nat) + 32) else c)"

text \<open>The test of the response: a C string, without regard to case.\<close>

definition upgradeAnswered :: "string \<Rightarrow> bool" where
  "upgradeAnswered s =
     (let response = map toLower (cstr s) in strstr response '' 101 '' \<and> strstr response ''upgrade: websocket'')"

definition handleData :: "'c AsyncClient \<Rightarrow> string \<Rightarrow> 'c WebSocket \<Rightarrow> 'c WebSocket" where
  "handleData A d t =
     (let t = t\<lparr>lastActivityMillis := millis A (client t)\<rparr>
      in if state t \<noteq> Handshaking then t
         else if length (handshakeResponse t) + length d > LOG_HANDSHAKE_RESPONSE_MAX_LEN then closeClient A t
         else
           let t = t\<lparr>handshakeResponse := handshakeResponse t @ d\<rparr>
           in if upgradeAnswered (handshakeResponse t)
              then clearHandshakeResponse (t\<lparr>state := Connected, lastActivityMillis := millis A (client t)\<rparr>)
              else if strstr (map toLower (cstr (handshakeResponse t))) [CHR 0x0d, CHR 0x0a, CHR 0x0d, CHR 0x0a]
              then closeClient A t else t)"

definition begin_ws :: "'c \<Rightarrow> 'c WebSocket" where
  "begin_ws c = \<lparr>client = c, state = Disconnected, lastActivityMillis = 0, handshakeResponse = []\<rparr>"

definition reconnectWs :: "'c AsyncClient \<Rightarrow> WsConfig \<Rightarrow> u32 \<Rightarrow> 'c WebSocket \<Rightarrow> 'c WebSocket" where
  "reconnectWs A cfg now t =
     (if state t = Connecting \<or> state t = Handshaking then t
      else if isConnectedWs A t then t
      else
        let t = closeClient A t; t = t\<lparr>state := Connecting, lastActivityMillis := millis A (client t)\<rparr>
        in case tcp_connect A (wsHost cfg) (wsPort cfg) (client t) of
            (okay, c) \<Rightarrow> let t = t\<lparr>client := c\<rparr> in if \<not> okay then t\<lparr>state := Disconnected\<rparr> else t)"

fun randomBytes :: "'c AsyncClient \<Rightarrow> nat \<Rightarrow> 'c \<Rightarrow> bytes \<times> 'c" where
  "randomBytes A 0 c = ([], c)"
| "randomBytes A (Suc n) c =
     (case esp_random A c of (r, c) \<Rightarrow> case randomBytes A n c of (rs, c) \<Rightarrow> (ucast (r AND 0xff) # rs, c))"

definition sendTextFrame :: "'c AsyncClient \<Rightarrow> bytes \<Rightarrow> 'c WebSocket \<Rightarrow> bool \<times> 'c WebSocket" where
  "sendTextFrame A txt t =
     (if length txt > 65535 then (False, t)
      else case randomBytes A 4 (client t) of
          (key, c) \<Rightarrow>
            let t = t\<lparr>client := c\<rparr>
            in case textFrame txt key of
                None \<Rightarrow> (False, t)
              | Some frame \<Rightarrow>
                  (case writeAll A frame t of
                     (okay, t) \<Rightarrow> if \<not> okay then (False, t)
                       else (True, t\<lparr>lastActivityMillis := millis A (client t)\<rparr>)))"

definition sendNowWs :: "'c AsyncClient \<Rightarrow> WsConfig \<Rightarrow> QueuedLogRecord \<Rightarrow> 'c WebSocket \<Rightarrow> bool \<times> 'c WebSocket" where
  "sendNowWs A cfg r t =
     (if \<not> isConnectedWs A t then (False, t)
      else case serializeLogRecord (serializeJson cfg) (overflowed cfg) r (outputBuffer cfg) (LOG_WS_FRAME_MAX_LEN - 8) of
          (okay, out, written) \<Rightarrow>
            if \<not> okay \<or> \<not> canWrite A (written + 8) t then (False, t) else sendTextFrame A (take written out) t)"

text \<open>The virtual functions of the queue.\<close>

definition wsWire :: "'c AsyncClient \<Rightarrow> WsConfig \<Rightarrow> 'c WebSocket Wire" where
  "wsWire A cfg = \<lparr>isConnected = isConnectedWs A, sendNow = sendNowWs A cfg, reconnect = reconnectWs A cfg,
     unixTime = (\<lambda>t. unixClock A (client t)), loggedBefore = (\<lambda>t. otherTasks A (client t)),
     loggedDuring = (\<lambda>t. otherTasks A (client t))\<rparr>"

definition updateWs :: "'c AsyncClient \<Rightarrow> WsConfig \<Rightarrow> u32 \<Rightarrow> 'c WebSocket \<Rightarrow> LogQueue \<Rightarrow> 'c WebSocket \<times> LogQueue \<times> LogAction list" where
  "updateWs A cfg now t q =
     (let t = (if state t = Handshaking \<and> timeoutElapsed (lastActivityMillis t) LOG_HANDSHAKE_TIMEOUT now
           then closeClient A t else t);
          t = (if state t = Disconnected \<and> tcp_connected A (client t) then closeClient A t else t)
      in case update_log (wsWire A cfg) now t q of
          (t, q, tr) \<Rightarrow>
            (if isConnectedWs A t \<and> \<not> hasPendingOutput q
                \<and> timeoutElapsed (lastActivityMillis t) LOG_IDLE_DISCONNECT_DELAY now
             then closeClient A t else t, q, tr))"
section \<open>The queue over any connection\<close>

text \<open>What every send and every attempt to connect keeps, an update keeps.\<close>

lemma flush_loop_keeps:
  assumes "\<And>r w. P w \<Longrightarrow> P (snd (sendNow I r w))" "P w" "flush_loop I n w q = (w', q', tr)"
  shows "P w' \<and> (sentOf tr \<noteq> [] \<longrightarrow> isConnected I w)"
  using assms(2,3)
proof (induction n arbitrary: w q w' q' tr)
  case 0
  then show ?case by simp
next
  case (Suc n)
  obtain q0 tr0 where before: "logAll (loggedBefore I w) q = (q0, tr0)" by fastforce
  have tr0: "sentOf tr0 = []" using before logAll_sends_nothing by blast
  show ?case
  proof (cases "isConnected I w \<and> queued_count q0 \<noteq> 0")
    case False
    then show ?thesis using Suc.prems before tr0 by (auto split: if_splits)
  next
    case True
    obtain okay w1 where send: "sendNow I (queue q0 ! head q0) w = (okay, w1)" by fastforce
    have w1: "P w1" using assms(1) [OF Suc.prems(1), of "queue q0 ! head q0"] send by simp
    obtain q1 tr1 where during: "logAll (loggedDuring I w1) q0 = (q1, tr1)" by fastforce
    obtain w2 q2 tr2 where rest: "flush_loop I n w1 (popSent (queue q0 ! head q0) q1) = (w2, q2, tr2)"
      by (metis prod_cases3)
    then show ?thesis
      using Suc.IH [OF w1 rest] Suc.prems(2) True before send during w1 by (auto simp: Let_def split: if_splits)
  qed
qed

lemma update_log_keeps:
  assumes send: "\<And>r w. P w \<Longrightarrow> P (snd (sendNow I r w))" and rec: "\<And>w. P w \<Longrightarrow> P (reconnect I now w)"
    and "P w" "update_log I now w q = (w', q', tr)"
  shows "P w' \<and> (sentOf tr \<noteq> [] \<longrightarrow> (\<exists>v. P v \<and> isConnected I v))"
proof -
  have flush: "P w' \<and> (sentOf tr \<noteq> [] \<longrightarrow> (\<exists>v. P v \<and> isConnected I v))" if "P v" "flushQueue I v p = (w', q', tr)" for v p
  proof -
    obtain okay w1 q1 tr1 where notice: "sendDroppedNotice I v p = (okay, w1, q1, tr1)" by (metis prod_cases4)
    have w1: "P w1"
    proof (cases "dropped p = 0 \<or> droppedNotice (dropped p) (unixTime I v) = None")
      case True
      then show ?thesis using notice that(1) by (auto simp: sendDroppedNotice_def Let_def split: option.splits if_splits)
    next
      case False
      then obtain n where n: "droppedNotice (dropped p) (unixTime I v) = Some n" by auto
      then show ?thesis
        using False notice send [OF that(1), of n]
        by (auto simp: sendDroppedNotice_def Let_def split: prod.splits if_splits)
    qed
    have tr1: "sentOf tr1 = []"
      using notice logAll_sends_nothing
      by (fastforce simp: sendDroppedNotice_def Let_def split: prod.splits if_splits option.splits)
    obtain w2 q2 tr2 where loop: "flush_loop I LOG_QUEUE_SIZE w1 q1 = (w2, q2, tr2)" by (metis prod_cases3)
    then show ?thesis
      using that(2) notice w1 tr1 flush_loop_keeps [OF send w1 loop] by (auto simp: flushQueue_def split: if_splits)
  qed
  have w: "P (if c then reconnect I now w else w)" for c using rec [OF assms(3)] assms(3) by simp
  show ?thesis
    using assms(4) flush w assms(3) rec [OF assms(3)]
    by (auto simp: update_log_def Let_def split: if_splits)
qed
section \<open>The handshake\<close>

text \<open>
  What happens to the transport: the network changes the client, a callback comes, the main task calls \<open>update\<close>
  or logs an event.
\<close>

datatype 'c WsEvent = Network "'c \<Rightarrow> 'c" | OnConnect | OnDisconnect | OnData string | UpdateAt u32 | LogEvent LogEvent

fun ws_step :: "'c AsyncClient \<Rightarrow> WsConfig \<Rightarrow> 'c WsEvent \<Rightarrow> 'c WebSocket \<times> LogQueue \<Rightarrow> 'c WebSocket \<times> LogQueue" where
  "ws_step A cfg (Network f) (t, q) = (t\<lparr>client := f (client t)\<rparr>, q)"
| "ws_step A cfg OnConnect (t, q) = (handleConnect A cfg t, q)"
| "ws_step A cfg OnDisconnect (t, q) = (handleDisconnect t, q)"
| "ws_step A cfg (OnData d) (t, q) = (handleData A d t, q)"
| "ws_step A cfg (UpdateAt now) (t, q) = (case updateWs A cfg now t q of (t, q, tr) \<Rightarrow> (t, q))"
| "ws_step A cfg (LogEvent e) (t, q) = (t, snd (sendOrQueue e q))"

text \<open>What has been received since the last connection was made.\<close>

fun received :: "string \<Rightarrow> 'c WsEvent \<Rightarrow> string" where
  "received acc OnConnect = []"
| "received acc (OnData d) = acc @ d"
| "received acc _ = acc"

definition ws_inv :: "string \<Rightarrow> 'c WebSocket \<Rightarrow> bool" where
  "ws_inv acc t \<longleftrightarrow> length (handshakeResponse t) \<le> 512 \<and>
     (if state t = Handshaking then handshakeResponse t = acc else handshakeResponse t = []) \<and>
     (state t = Connected \<longrightarrow> (\<exists>p. prefix p acc \<and> length p \<le> 512 \<and> upgradeAnswered p))"

lemma ws_inv_quiet: "state t = Disconnected \<or> state t = Connecting \<Longrightarrow> handshakeResponse t = [] \<Longrightarrow> ws_inv acc t"
  by (auto simp: ws_inv_def)

lemma ws_inv_cong: "state t' = state t \<Longrightarrow> handshakeResponse t' = handshakeResponse t \<Longrightarrow> ws_inv acc t \<Longrightarrow> ws_inv acc t'"
  by (simp add: ws_inv_def)

lemma closed_inv: "ws_inv acc (closeClient A t)"
  by (rule ws_inv_quiet) (simp_all add: closeClient_def clearHandshakeResponse_def Let_def)

lemma writeAll_keeps: "writeAll A d t = (okay, t') \<Longrightarrow> state t' = state t \<and> handshakeResponse t' = handshakeResponse t"
  by (auto simp: writeAll_def split: if_splits prod.splits)

lemma sendNowWs_keeps: "state (snd (sendNowWs A cfg r t)) = state t \<and> handshakeResponse (snd (sendNowWs A cfg r t)) = handshakeResponse t"
  by (auto simp: sendNowWs_def sendTextFrame_def Let_def dest: writeAll_keeps split: prod.split option.split)

lemma reconnectWs_keeps:
  assumes "ws_inv acc t"
  shows "ws_inv acc (reconnectWs A cfg now t)"
proof -
  have "handshakeResponse (closeClient A t) = []" by (simp add: closeClient_def clearHandshakeResponse_def Let_def)
  then show ?thesis
    using assms by (auto simp: reconnectWs_def Let_def intro: ws_inv_quiet split: prod.split)
qed

lemma updateWs_keeps:
  fixes t :: "'c WebSocket"
  assumes "ws_inv acc t" "updateWs A cfg now t q = (t', q', tr)"
  shows "ws_inv acc t' \<and> (sentOf tr \<noteq> [] \<longrightarrow> (\<exists>v :: 'c WebSocket. ws_inv acc v \<and> state v = Connected))"
proof -
  have send: "ws_inv acc (snd (sendNow (wsWire A cfg) r v))" if "ws_inv acc v" for r v
    using that sendNowWs_keeps [of A cfg r v] by (auto simp: wsWire_def intro: ws_inv_cong)
  have rec: "ws_inv acc (reconnect (wsWire A cfg) now v)" if "ws_inv acc v" for v
    using reconnectWs_keeps [OF that] by (simp add: wsWire_def)
  define t1 where "t1 = (if state t = Handshaking \<and> timeoutElapsed (lastActivityMillis t) LOG_HANDSHAKE_TIMEOUT now
      then closeClient A t else t)"
  define t2 where "t2 = (if state t1 = Disconnected \<and> tcp_connected A (client t1) then closeClient A t1 else t1)"
  have inv2: "ws_inv acc t2" using assms(1) closed_inv by (auto simp: t1_def t2_def)
  obtain t3 q3 tr3 where run: "update_log (wsWire A cfg) now t2 q = (t3, q3, tr3)" by (metis prod_cases3)
  have "ws_inv acc t3 \<and> (sentOf tr3 \<noteq> [] \<longrightarrow> (\<exists>v. ws_inv acc v \<and> isConnected (wsWire A cfg) v))"
    by (rule update_log_keeps [OF send rec inv2 run])
  then have "ws_inv acc t3" "sentOf tr3 \<noteq> [] \<longrightarrow> (\<exists>v :: 'c WebSocket. ws_inv acc v \<and> state v = Connected)"
    by (auto simp: wsWire_def isConnectedWs_def)
  moreover have "tr = tr3" "t' = t3 \<or> t' = closeClient A t3"
    using assms(2) run unfolding updateWs_def Let_def t1_def [symmetric] t2_def [symmetric] by (auto split: if_splits)
  ultimately show ?thesis using closed_inv [of acc A t3] by metis
qed

lemma handleData_keeps:
  assumes "ws_inv acc t"
  shows "ws_inv (acc @ d) (handleData A d t)"
proof (cases "state t = Handshaking")
  case False
  then have "state t = Connected \<Longrightarrow> \<exists>p. prefix p (acc @ d) \<and> length p \<le> 512 \<and> upgradeAnswered p"
    using assms by (auto simp: ws_inv_def intro: prefix_prefix)
  then show ?thesis using False assms by (simp add: handleData_def Let_def ws_inv_def)
next
  case True
  then have resp: "handshakeResponse t = acc" using assms by (simp add: ws_inv_def)
  show ?thesis
  proof (cases "length acc + length d > 512")
    case True
    then show ?thesis
      using \<open>state t = Handshaking\<close> resp closed_inv by (simp add: handleData_def Let_def LOG_HANDSHAKE_RESPONSE_MAX_LEN_def)
  next
    case False
    then have le: "length (acc @ d) \<le> 512" by simp
    show ?thesis
    proof (cases "upgradeAnswered (acc @ d)")
      case True
      then show ?thesis
        using \<open>state t = Handshaking\<close> resp False
        by (auto simp: handleData_def Let_def LOG_HANDSHAKE_RESPONSE_MAX_LEN_def ws_inv_def clearHandshakeResponse_def
            intro!: exI [of _ "acc @ d"])
    next
      case no: False
      have "handleData A d t = closeClient A (t\<lparr>lastActivityMillis := millis A (client t), handshakeResponse := acc @ d\<rparr>)
        \<or> handleData A d t = t\<lparr>lastActivityMillis := millis A (client t), handshakeResponse := acc @ d\<rparr>"
        using \<open>state t = Handshaking\<close> resp False no
        by (simp add: handleData_def Let_def LOG_HANDSHAKE_RESPONSE_MAX_LEN_def)
      moreover have "ws_inv (acc @ d) (t\<lparr>lastActivityMillis := millis A (client t), handshakeResponse := acc @ d\<rparr>)"
        using le \<open>state t = Handshaking\<close> by (simp add: ws_inv_def)
      ultimately show ?thesis using closed_inv by metis
    qed
  qed
qed

lemma ws_step_keeps:
  assumes "ws_inv acc t"
  shows "ws_inv (received acc ev) (fst (ws_step A cfg ev (t, q)))"
proof (cases ev)
  case OnConnect
  obtain okay t' where w: "writeAll A (charBytes (handshakeRequest cfg))
      (clearHandshakeResponse (t\<lparr>state := Handshaking, lastActivityMillis := millis A (client t)\<rparr>)) = (okay, t')"
    by fastforce
  then have "state t' = Handshaking" "handshakeResponse t' = []"
    using writeAll_keeps [OF w] by (simp_all add: clearHandshakeResponse_def)
  then show ?thesis
    using OnConnect w closed_inv [of "[]" A t'] ws_inv_def [of "[]" t']
    by (simp add: handleConnect_def sendHandshake_def)
next
  case (UpdateAt now)
  then show ?thesis using updateWs_keeps [OF assms, of A cfg now q] by (auto split: prod.split)
qed (use assms handleData_keeps [OF assms] in
  \<open>auto simp: handleDisconnect_def clearHandshakeResponse_def ws_inv_def\<close>)

lemma ws_run_keeps: "ws_inv acc t \<Longrightarrow> ws_inv (foldl received acc evs) (fst (foldl (\<lambda>s ev. ws_step A cfg ev s) (t, q) evs))"
proof (induction evs arbitrary: acc t q)
  case Nil
  then show ?case by simp
next
  case (Cons ev evs)
  obtain t' q' where step: "ws_step A cfg ev (t, q) = (t', q')" by fastforce
  then have "ws_inv (received acc ev) t'" using ws_step_keeps [OF Cons.prems, of ev A cfg q] by simp
  then show ?case using Cons.IH [of "received acc ev" t' q'] step by simp
qed

text \<open>
  C24. Log records leave the box only over a connection whose peer has agreed to the WebSocket upgrade: in any
  sequence of network changes, callbacks, log events and updates since \<open>begin\<close>, an update that sends a record
  happens only after the peer, since the connection was made, has answered within 512 bytes with status 101 and
  the upgrade; and the response buffer is never overrun.
\<close>

theorem logs_only_after_upgrade:
  assumes "foldl (\<lambda>s ev. ws_step A cfg ev s) (begin_ws c, begin_log q0) evs = (t, q)"
    and "updateWs A cfg now t q = (t', q', tr)" "sentOf tr \<noteq> []"
  shows "length (handshakeResponse t) \<le> LOG_HANDSHAKE_RESPONSE_MAX_LEN \<and>
    (\<exists>p. prefix p (foldl received [] evs) \<and> length p \<le> LOG_HANDSHAKE_RESPONSE_MAX_LEN \<and> upgradeAnswered p)"
proof -
  have "ws_inv [] (begin_ws c)" by (simp add: ws_inv_def begin_ws_def)
  then have inv: "ws_inv (foldl received [] evs) t"
    using ws_run_keeps [of "[]" "begin_ws c" evs A cfg "begin_log q0"] assms(1) by simp
  then show ?thesis
    using updateWs_keeps [OF inv assms(2)] assms(3) by (auto simp: ws_inv_def LOG_HANDSHAKE_RESPONSE_MAX_LEN_def)
qed

end
