(* ===== verification/Log_Witness.thy ===== *)
theory Log_Witness
  imports Log_Emit Log_Socket
begin

text \<open>The theorems on the log applied to concrete events, queues and connections.\<close>

theorem stored_params_typed_witness:
  "\<exists>b. append_params [Signed (-5), Text (Some ''door''), Boolean True] newBlock = Some b \<and>
     get_param 1 b = Some (Text (Some ''door'')) \<and> get_param 3 b = None"
proof -
  let ?ps = "[Signed (-5), Text (Some ''door''), Boolean True]"
  have "\<exists>b. append_params ?ps newBlock = Some b"
    by (simp add: append_param_def valueBytes_def newBlock_def Let_def LOG_MAX_PARAMS_def LOG_PARAM_DATA_MAX_LEN_def
        strnlen_def cstr_def charBytes_def)
  then obtain b where b: "append_params ?ps newBlock = Some b" by blast
  have "list_all paramOk ?ps" by simp
  from stored_params_typed [OF b this, of 0] have "get_param 1 b = Some (Text (Some ''door'')) \<and> get_param 3 b = None"
    by (simp add: upt_rec numeral_3_eq_3)
  then show ?thesis using b by blast
qed

section \<open>The queue\<close>

definition restartEvent :: LogEvent where
  "restartEvent = \<lparr>event_record = \<lparr>severity = 2, logArea = 4, source = None, message = 59, timestamp = 7\<rparr>,
     event_params = None, paramCount = 0\<rparr>"

definition restartRecord :: QueuedLogRecord where
  "restartRecord = \<lparr>queued_severity = 2, queued_area = 4, queued_source = [], queued_message = 59, queued_timestamp = 7,
     queued_params = newBlock, sequence_number = 0\<rparr>"

lemma restart_stored: "storeEvent restartEvent = Some restartRecord"
  by (simp add: storeEvent_def restartEvent_def restartRecord_def LOG_MAX_PARAMS_def)

definition emptyQueue :: LogQueue where
  "emptyQueue = \<lparr>queue = replicate 32 restartRecord, head = 0, queued_count = 0, dropped = 0, nextSequence = 0,
     reconnectStartedAt = 0, reconnectStarted = False\<rparr>"

text \<open>A connection that refuses its first record, while another task logs an event.\<close>

definition hesitantWire :: "nat Wire" where
  "hesitantWire = \<lparr>isConnected = (\<lambda>w. True), sendNow = (\<lambda>r w. (w \<noteq> 0, Suc w)), reconnect = (\<lambda>now w. w),
     unixTime = (\<lambda>w. 0), loggedBefore = (\<lambda>w. []), loggedDuring = (\<lambda>w. if w = 1 then [restartEvent] else [])\<rparr>"

definition steadyWire :: "unit Wire" where
  "steadyWire = \<lparr>isConnected = (\<lambda>w. True), sendNow = (\<lambda>r w. (True, w)), reconnect = (\<lambda>now w. w),
     unixTime = (\<lambda>w. 0), loggedBefore = (\<lambda>w. []), loggedDuring = (\<lambda>w. [])\<rparr>"

lemma flush_numeral: "flush_loop I (numeral k) w q =
     (if \<not> isConnected I w then (w, q, [])
      else
        let (q, tr0) = logAll (loggedBefore I w) q
        in if queued_count q = 0 then (w, q, tr0)
           else
             let r = queue q ! head q; (okay, w) = sendNow I r w; (q, tr1) = logAll (loggedDuring I w) q
             in if \<not> okay then (w, q, tr0 @ tr1)
                else case flush_loop I (pred_numeral k) w (popSent r q) of
                    (w, q, tr) \<Rightarrow> (w, q, tr0 @ tr1 @ Sent r # tr))"
  by (simp only: numeral_eq_Suc flush_loop.simps)

lemmas log_eval = update_log_def flushQueue_def sendDroppedNotice_def hasPendingOutput_def sendOrQueue_def
  enqueueRecord_def begin_log_def emptyQueue_def restart_stored popSent_def LOG_QUEUE_SIZE_def Let_def flush_numeral

text \<open>One record refused, a second one logged meanwhile, both sent by the next update.\<close>

lemma hesitant_history:
  "\<exists>w q tr. log_history hesitantWire [Emit restartEvent, Update 0, Update 1] 0 (begin_log emptyQueue) = (w, q, tr)
     \<and> map sequence_number (sentOf tr) = [0, 1] \<and> queued_count q = 0"
  by (simp add: log_eval hesitantWire_def)

theorem log_records_accounted_witness:
  "\<exists>w q tr k d. log_history hesitantWire [Emit restartEvent, Update 0, Update 1] 0 (begin_log emptyQueue) = (w, q, tr)
     \<and> map sequence_number (sentOf tr) = [0, 1] \<and> contents q = drop k (queuedOf tr)
     \<and> subseq (sentOf tr) (take k (queuedOf tr)) \<and> dropped q + noticedOf tr = of_nat d"
proof -
  obtain w q tr where run: "log_history hesitantWire [Emit restartEvent, Update 0, Update 1] 0 (begin_log emptyQueue) = (w, q, tr)"
    and sent: "map sequence_number (sentOf tr) = [0, 1]" using hesitant_history by (elim exE conjE) (rule that)
  have few: "length (loggedDuring hesitantWire v) < 2 ^ 32" for v by (simp add: hesitantWire_def)
  have slots: "length (queue emptyQueue) = 32" by (simp add: emptyQueue_def)
  from log_records_accounted [OF few slots run] obtain k d where "contents q = drop k (queuedOf tr)"
    "subseq (sentOf tr) (take k (queuedOf tr))" "dropped q + noticedOf tr = of_nat d" by (elim exE conjE) (rule that)
  then show ?thesis using run sent by (intro exI conjI)
qed

theorem log_update_delivers_witness:
  "\<exists>w q tr w2 q2 tr2. log_history hesitantWire [Emit restartEvent, Update 0] 0 (begin_log emptyQueue) = (w, q, tr)
     \<and> length (contents q) = 2 \<and> update_log steadyWire 5 () q = (w2, q2, tr2) \<and> sentOf tr2 = contents q
     \<and> \<not> hasPendingOutput q2"
proof -
  have "\<exists>w q tr. log_history hesitantWire [Emit restartEvent, Update 0] 0 (begin_log emptyQueue) = (w, q, tr)
      \<and> queued_count q = 2"
    by (simp add: log_eval hesitantWire_def)
  then obtain w q tr where run: "log_history hesitantWire [Emit restartEvent, Update 0] 0 (begin_log emptyQueue) = (w, q, tr)"
    and two: "queued_count q = 2" by blast
  have few: "length (loggedDuring hesitantWire v) < 2 ^ 32" for v by (simp add: hesitantWire_def)
  have slots: "length (queue emptyQueue) = 32" by (simp add: emptyQueue_def)
  have steady: "working steadyWire" by (simp add: working_def steadyWire_def)
  show ?thesis using log_update_delivers [OF few slots run steady, of 5 "()"] run two by auto
qed

section \<open>Emitting\<close>

text \<open>An event with a parameter too many is reported.\<close>

definition wrongEvent :: LogEvent where
  "wrongEvent = \<lparr>event_record = \<lparr>severity = 2, logArea = 4, source = None, message = 48, timestamp = 7\<rparr>,
     event_params = None, paramCount = 0\<rparr>"

definition freshLogger :: Logger where
  "freshLogger = \<lparr>transport = Some emptyQueue, localSource = [], rejected = 0, serial = [], logRows = []\<rparr>"

lemma wrong_placeholders: "\<not> placeholdersMatch dictionary wrongEvent"
  by (simp add: placeholdersMatch_def wrongEvent_def door_message logMessageParamCount_def count_eval)

theorem emit_logs_once_witness:
  "rejected (emit noReals dictionary 9 wrongEvent freshLogger) = 1 \<and>
   (\<exists>r. transport (emit noReals dictionary 9 wrongEvent freshLogger) = Some (enqueueRecord r emptyQueue)
      \<and> get_param 0 (queued_params r) = Some (Unsigned 48)
      \<and> get_param 1 (queued_params r) = Some (Text (Some ''placeholder count'')))"
proof -
  have "refusalReason dictionary wrongEvent = ''placeholder count''"
    using wrong_placeholders by (simp add: refusalReason_def wrongEvent_def)
  then show ?thesis using emit_logs_once [of freshLogger emptyQueue noReals 9 wrongEvent] wrong_placeholders
    by (auto simp: freshLogger_def Let_def wrongEvent_def A_LOG_REJECTED_def)
qed

section \<open>The connection\<close>

definition demoConfig :: WsConfig where
  "demoConfig = \<lparr>wsHost = ''log'', wsPort = 80, wsPath = ''/'', serializeJson = (\<lambda>doc. [65, 1]), overflowed = (\<lambda>doc. False),
     outputBuffer = replicate 1528 0\<rparr>"

lemma demo_serialized:
  "\<exists>out. serializeLogRecord (\<lambda>doc. [65, 1]) (\<lambda>doc. False) restartRecord (replicate 1528 0) (LOG_WS_FRAME_MAX_LEN - 8) = (True, out, 7)"
  by (simp add: serializeLogRecord_def LOG_WS_FRAME_MAX_LEN_def logDocument_def restartRecord_def newBlock_def LOG_MAX_PARAMS_def
      Let_def word_less_nat_alt)

theorem sent_frame_reads_back_witness:
  "\<exists>out f. serializeLogRecord (\<lambda>doc. [65, 1]) (\<lambda>doc. False) restartRecord (replicate 1528 0) (LOG_WS_FRAME_MAX_LEN - 8) = (True, out, 7)
     \<and> textFrame (take 7 out) [1, 2, 3, 4] = Some f
     \<and> readFrame (f @ [9]) = Some ([65, 0x5c, 0x75, 0x30, 0x30, 0x30, 0x31], [9])"
proof -
  obtain out where out: "serializeLogRecord (\<lambda>doc. [65, 1]) (\<lambda>doc. False) restartRecord (replicate 1528 0)
      (LOG_WS_FRAME_MAX_LEN - 8) = (True, out, 7)" using demo_serialized by blast
  have "length (replicate 1528 0 :: bytes) = LOG_WS_FRAME_MAX_LEN - 8" "length [1, 2, 3, 4 :: u8] = 4"
    by (simp_all add: LOG_WS_FRAME_MAX_LEN_def)
  moreover have "escapeControls [65, 1] = [65, 0x5c, 0x75, 0x30, 0x30, 0x30, 0x31]" by code_simp
  ultimately show ?thesis
    using sent_frame_reads_back [OF out, of "[1, 2, 3, 4]" "[9]"] out by auto
qed

text \<open>A client that is always ready.\<close>

definition readyClient :: "unit AsyncClient" where
  "readyClient = \<lparr>tcp_connected = (\<lambda>c. True), tcp_connecting = (\<lambda>c. False), tcp_canSend = (\<lambda>c. True), tcp_space = (\<lambda>c. 5000),
     tcp_connect = (\<lambda>h p c. (True, c)), tcp_close = (\<lambda>c. c), tcp_write = (\<lambda>d c. (length d, c)), millis = (\<lambda>c. 0),
     unixClock = (\<lambda>c. 0), esp_random = (\<lambda>c. (0, c)), otherTasks = (\<lambda>c. [])\<rparr>"

definition upgradeEvents :: "unit WsEvent list" where
  "upgradeEvents = [LogEvent restartEvent, OnConnect, OnData ''HTTP/1.1 101 Upgrade: WebSocket'']"

lemma answer_accepted: "upgradeAnswered ''HTTP/1.1 101 Upgrade: WebSocket''"
  by code_simp

lemma request_short: "length (charBytes (handshakeRequest demoConfig)) \<le> tcp_space readyClient c \<and> tcp_connected readyClient c
    \<and> tcp_canSend readyClient c"
  by (simp add: charBytes_def handshakeRequest_def demoConfig_def readyClient_def dec_digits.simps)

lemma ready_serialized:
  "\<exists>out. serializeLogRecord (\<lambda>doc. [65, 1]) (\<lambda>doc. False) restartRecord (replicate 1528 0) 1528 = (True, out, 7)"
  using demo_serialized by (simp add: LOG_WS_FRAME_MAX_LEN_def)

lemma short_frame: "length txt \<le> 7 \<Longrightarrow> length key = 4 \<Longrightarrow> \<exists>f. textFrame txt key = Some f \<and> length f \<le> 5000"
  by (simp add: textFrame_def LOG_WS_FRAME_MAX_LEN_def Let_def)

lemma ready_random: "randomBytes readyClient n c = (replicate n 0, c)"
  by (induction n) (simp_all add: readyClient_def)

lemma ready_sends: "\<exists>t'. sendNowWs readyClient demoConfig restartRecord
    \<lparr>client = (), state = Connected, lastActivityMillis = a, handshakeResponse = []\<rparr> = (True, t')"
proof -
  obtain out where out: "serializeLogRecord (\<lambda>doc. [65, 1]) (\<lambda>doc. False) restartRecord (replicate 1528 0) 1528 = (True, out, 7)"
    using ready_serialized by blast
  have short: "length (take 7 out) \<le> 7" "length (replicate 4 (0 :: u8)) = 4" by simp_all
  from short_frame [OF this] obtain f where f: "textFrame (take 7 out) (replicate 4 0) = Some f" "length f \<le> 5000" by blast
  then show ?thesis
    using out unfolding sendNowWs_def sendTextFrame_def ready_random
    by (simp add: isConnectedWs_def readyClient_def demoConfig_def LOG_WS_FRAME_MAX_LEN_def canWrite_def writeAll_def Let_def)
qed

lemma ready_update:
  assumes "state t = Connected" "handshakeResponse t = []" "dropped q = 0" "queued_count q = 1" "queue q ! head q = restartRecord"
  shows "\<exists>t' q' tr. updateWs readyClient demoConfig 0 t q = (t', q', tr) \<and> sentOf tr \<noteq> []"
proof -
  have t: "t = \<lparr>client = (), state = Connected, lastActivityMillis = lastActivityMillis t, handshakeResponse = []\<rparr>"
    using assms(1,2) by (cases t) simp
  obtain t1 where send: "sendNowWs readyClient demoConfig restartRecord t = (True, t1)"
    using ready_sends [of "lastActivityMillis t"] t by metis
  have conn: "isConnectedWs readyClient t" using assms(1) by (simp add: isConnectedWs_def readyClient_def)
  obtain t2 q2 tr2 where rest: "flush_loop (wsWire readyClient demoConfig) 31 t1 (popSent restartRecord q) = (t2, q2, tr2)"
    by (metis prod_cases3)
  have loop: "flush_loop (wsWire readyClient demoConfig) 32 t q = (t2, q2, Sent restartRecord # tr2)"
    unfolding flush_numeral using conn send rest assms
    by (simp add: wsWire_def readyClient_def Let_def)
  have run: "update_log (wsWire readyClient demoConfig) 0 t q = (t2, q2, Sent restartRecord # tr2)"
    using conn loop assms
    by (simp add: update_log_def hasPendingOutput_def flushQueue_def sendDroppedNotice_def LOG_QUEUE_SIZE_def)
      (simp add: wsWire_def)
  then show ?thesis using assms(1) by (simp add: updateWs_def Let_def)
qed

theorem logs_only_after_upgrade_witness:
  "\<exists>t q t' q' tr. foldl (\<lambda>s ev. ws_step readyClient demoConfig ev s) (begin_ws (), begin_log emptyQueue) upgradeEvents = (t, q)
     \<and> updateWs readyClient demoConfig 0 t q = (t', q', tr) \<and> sentOf tr \<noteq> []
     \<and> (\<exists>p. prefix p ''HTTP/1.1 101 Upgrade: WebSocket'' \<and> upgradeAnswered p)"
proof -
  let ?s = "foldl (\<lambda>s ev. ws_step readyClient demoConfig ev s) (begin_ws (), begin_log emptyQueue) upgradeEvents"
  have request: "handleConnect readyClient demoConfig t
      = t\<lparr>state := Handshaking, lastActivityMillis := 0, handshakeResponse := []\<rparr>" for t
    using request_short
    by (simp add: handleConnect_def sendHandshake_def clearHandshakeResponse_def writeAll_def canWrite_def)
      (simp add: readyClient_def)
  obtain t q where run: "?s = (t, q)" by fastforce
  then have q: "q = snd (sendOrQueue restartEvent (begin_log emptyQueue))"
    and t: "t = handleData readyClient ''HTTP/1.1 101 Upgrade: WebSocket'' (handleConnect readyClient demoConfig (begin_ws ()))"
    by (simp_all add: upgradeEvents_def split: prod.splits)
  have "state t = Connected" "handshakeResponse t = []"
    unfolding t request by (simp_all add: handleData_def answer_accepted LOG_HANDSHAKE_RESPONSE_MAX_LEN_def clearHandshakeResponse_def)
  moreover have "dropped q = 0" "queued_count q = 1" "queue q ! head q = restartRecord"
    unfolding q by (simp_all add: log_eval) (simp_all add: restartRecord_def)
  ultimately obtain t' q' tr where up: "updateWs readyClient demoConfig 0 t q = (t', q', tr)" "sentOf tr \<noteq> []"
    using ready_update [of t q] by blast
  have "foldl received [] upgradeEvents = ''HTTP/1.1 101 Upgrade: WebSocket''" by (simp add: upgradeEvents_def)
  then show ?thesis using logs_only_after_upgrade [OF run up] run up by auto
qed

end
