(* ===== verification/Box_Config.thy ===== *)
theory Box_Config
  imports Gpio
begin

text \<open>
  The configuration of a box, \<open>src/include/box_config.h\<close>, \<open>src/src/box_config.cpp\<close>: validation of a JSON document
  against every field's bounds, all or nothing.  JSON values belong to ArduinoJson: a value is the record of the
  answers of the accessors the code calls.  \<open>GPIO_IS_VALID_GPIO\<close> and \<open>GPIO_IS_VALID_OUTPUT_GPIO\<close> belong to ESP-IDF
  and are parameters.
\<close>

section \<open>Data\<close>

record BoxConfig =
  provisioned :: bool
  scannerTestKeepCred :: bool
  language :: int
  hostName :: string
  wifiSsid :: string
  wifiPassword :: string
  logHost :: string
  logPath :: string
  ntpServer :: string
  logPort :: u16
  gmtOffset :: int
  daylightOffset :: int
  vpnHost :: string
  vpnUser :: string
  vpnKeyType :: string
  vpnFingerprint :: string
  vpnPublicKey :: string
  vpnPrivateKey :: string
  vpnPort :: u16
  vpnRemotePort :: u16
  ambientPinNumber :: u8
  doorCount :: u8
  doors :: "DoorMapping list"

text \<open>
  What the code asks of \<open>obj[key]\<close>: the text with its embedded NUL characters, a \<open>long\<close>, a \<open>bool\<close>, and the rows of
  an array; a row that is no array is empty, an element is its \<open>int\<close>, if it is one.
\<close>

record ConfigValue =
  isUnbound :: bool
  isNullValue :: bool
  isText :: "string option"
  isLong :: "int option"
  isBoolean :: "bool option"
  asRows :: "int option list list option"

type_synonym ConfigObject = "string \<Rightarrow> ConfigValue"

record GpioPins =
  validGpio :: "u8 \<Rightarrow> bool"
  validOutputGpio :: "u8 \<Rightarrow> bool"

section \<open>Reading a field\<close>

text \<open>The value the target has afterwards, or the error; an absent field keeps the target unless all are required.\<close>

definition textField :: "bool \<Rightarrow> ConfigObject \<Rightarrow> string \<Rightarrow> nat \<Rightarrow> bool \<Rightarrow> string \<Rightarrow> string + string" where
  "textField complete obj key maxLen allowEmpty target =
     (if isUnbound (obj key) then (if complete then Inl key else Inr target)
      else case isText (obj key) of
          None \<Rightarrow> Inl key
        | Some raw \<Rightarrow>
            let len = length (cstr raw)
            in if length raw \<noteq> len \<or> len > maxLen \<or> (\<not> allowEmpty \<and> len = 0) then Inl key else Inr (cstr raw))"

definition numberField :: "bool \<Rightarrow> ConfigObject \<Rightarrow> string \<Rightarrow> int \<Rightarrow> int \<Rightarrow> int \<Rightarrow> string + int" where
  "numberField complete obj key minimum maximum result =
     (if isNullValue (obj key) then
        (if \<not> isUnbound (obj key) \<or> complete then Inl key else Inr result)
      else case isLong (obj key) of
          None \<Rightarrow> Inl key
        | Some value \<Rightarrow> if value < minimum \<or> value > maximum then Inl key else Inr value)"

definition booleanField :: "bool \<Rightarrow> ConfigObject \<Rightarrow> string \<Rightarrow> bool \<Rightarrow> string + bool" where
  "booleanField complete obj key target =
     (if isUnbound (obj key) then (if complete then Inl key else Inr target)
      else case isBoolean (obj key) of
          Some b \<Rightarrow> Inr b
        | None \<Rightarrow> map_sum id (\<lambda>v. v \<noteq> 0) (numberField complete obj key 0 1 (if target then 1 else 0)))"

text \<open>A field of the configuration that is about to become active.\<close>

definition assign :: "('a \<Rightarrow> BoxConfig \<Rightarrow> BoxConfig) \<Rightarrow> (BoxConfig \<Rightarrow> string + 'a) \<Rightarrow> BoxConfig \<Rightarrow> string + BoxConfig" where
  "assign store read c = map_sum id (\<lambda>v. store v c) (read c)"

fun readFields :: "(BoxConfig \<Rightarrow> string + BoxConfig) list \<Rightarrow> BoxConfig \<Rightarrow> string + BoxConfig" where
  "readFields [] c = Inr c"
| "readFields (f # fs) c = (case f c of Inl e \<Rightarrow> Inl e | Inr c' \<Rightarrow> readFields fs c')"

definition configFields :: "bool \<Rightarrow> ConfigObject \<Rightarrow> (BoxConfig \<Rightarrow> string + BoxConfig) list" where
  "configFields complete obj =
     [assign (\<lambda>v c. c\<lparr>provisioned := v\<rparr>) (\<lambda>c. booleanField complete obj ''BOX_PROVISIONED'' (provisioned c)),
      assign (\<lambda>v c. c\<lparr>scannerTestKeepCred := v\<rparr>)
        (\<lambda>c. booleanField complete obj ''QR_SCANNER_TEST_KEEP_CRED'' (scannerTestKeepCred c)),
      assign (\<lambda>v c. c\<lparr>language := v\<rparr>) (\<lambda>c. numberField complete obj ''DISP_LANG'' 0 1 (language c)),
      assign (\<lambda>v c. c\<lparr>hostName := v\<rparr>) (\<lambda>c. textField complete obj ''BOX_HOST_NAME'' 63 False (hostName c)),
      assign (\<lambda>v c. c\<lparr>wifiSsid := v\<rparr>) (\<lambda>c. textField complete obj ''WIFI_SSID'' 32 False (wifiSsid c)),
      assign (\<lambda>v c. c\<lparr>wifiPassword := v\<rparr>) (\<lambda>c. textField complete obj ''WIFI_PASSWD'' 63 True (wifiPassword c)),
      assign (\<lambda>v c. c\<lparr>logHost := v\<rparr>) (\<lambda>c. textField complete obj ''LOG_SERVER_IP'' 253 False (logHost c)),
      assign (\<lambda>v c. c\<lparr>logPath := v\<rparr>) (\<lambda>c. textField complete obj ''LOG_SERVER_PATH'' 256 False (logPath c)),
      assign (\<lambda>v c. c\<lparr>logPort := word_of_int v\<rparr>)
        (\<lambda>c. numberField complete obj ''LOG_SERVER_PORT'' 1 65535 (uint (logPort c))),
      assign (\<lambda>v c. c\<lparr>ntpServer := v\<rparr>) (\<lambda>c. textField complete obj ''NTP_SERVER'' 253 False (ntpServer c)),
      assign (\<lambda>v c. c\<lparr>gmtOffset := v\<rparr>) (\<lambda>c. numberField complete obj ''GMT_OFFSET_SEC'' (- 86400) 86400 (gmtOffset c)),
      assign (\<lambda>v c. c\<lparr>daylightOffset := v\<rparr>)
        (\<lambda>c. numberField complete obj ''DAYLIGHT_OFFSET_SEC'' (- 86400) 86400 (daylightOffset c)),
      assign (\<lambda>v c. c\<lparr>vpnHost := v\<rparr>) (\<lambda>c. textField complete obj ''VPN_GATEWAY_HOST'' 253 False (vpnHost c)),
      assign (\<lambda>v c. c\<lparr>vpnPort := word_of_int v\<rparr>)
        (\<lambda>c. numberField complete obj ''VPN_GATEWAY_PORT'' 1 65535 (uint (vpnPort c))),
      assign (\<lambda>v c. c\<lparr>vpnUser := v\<rparr>) (\<lambda>c. textField complete obj ''VPN_USERNAME'' 128 False (vpnUser c)),
      assign (\<lambda>v c. c\<lparr>vpnRemotePort := word_of_int v\<rparr>)
        (\<lambda>c. numberField complete obj ''VPN_REMOTE_BIND_PORT'' 1 65535 (uint (vpnRemotePort c))),
      assign (\<lambda>v c. c\<lparr>vpnKeyType := v\<rparr>) (\<lambda>c. textField complete obj ''VPN_GATEWAY_KEY_TYPE'' 64 False (vpnKeyType c)),
      assign (\<lambda>v c. c\<lparr>vpnFingerprint := v\<rparr>)
        (\<lambda>c. textField complete obj ''VPN_GATEWAY_FINGERPRINT'' 128 False (vpnFingerprint c)),
      assign (\<lambda>v c. c\<lparr>vpnPublicKey := v\<rparr>) (\<lambda>c. textField complete obj ''VPN_PUBLIC_KEY'' 4096 False (vpnPublicKey c)),
      assign (\<lambda>v c. c\<lparr>vpnPrivateKey := v\<rparr>) (\<lambda>c. textField complete obj ''VPN_PRIVATE_KEY'' 8192 False (vpnPrivateKey c)),
      assign (\<lambda>v c. c\<lparr>ambientPinNumber := word_of_int v\<rparr>)
        (\<lambda>c. numberField complete obj ''AMBIENT_PIN'' 0 255 (uint (ambientPinNumber c))),
      assign (\<lambda>v c. c\<lparr>doorCount := word_of_int v\<rparr>)
        (\<lambda>c. numberField complete obj ''ACTIVE_DOOR_NUMBERS'' 1 (int DOOR_COUNT) (uint (doorCount c)))]"

section \<open>The doors and the whole\<close>

definition rowNumber :: "int option list \<Rightarrow> nat \<Rightarrow> u8" where
  "rowNumber row c = word_of_int (the (row ! c))"

definition badValue :: "nat \<Rightarrow> int option \<Rightarrow> bool" where
  "badValue c v = (case v of None \<Rightarrow> True | Some n \<Rightarrow> n < 0 \<or> n > (if c = 4 then 1 else 255))"

definition readDoor :: "GpioPins \<Rightarrow> int option list \<Rightarrow> string + DoorMapping" where
  "readDoor pins row =
     (if length row \<noteq> 5 then Inl ''INITIAL_DOOR_MAPPING row''
      else if list_ex (\<lambda>c. badValue c (row ! c)) [0..<5] then Inl ''INITIAL_DOOR_MAPPING value''
      else
        let lock = rowNumber row 1; contact = rowNumber row 2
        in if rowNumber row 0 = DOOR_UNKNOWN \<or> rowNumber row 3 \<noteq> 0
              \<or> (lock \<noteq> INVALID_PIN \<and> \<not> validOutputGpio pins lock) \<or> (contact \<noteq> INVALID_PIN \<and> \<not> validGpio pins contact)
           then Inl ''INITIAL_DOOR_MAPPING GPIO''
           else Inr \<lparr>logDoorNum = rowNumber row 0, gpioPin = lock, statePin = contact, extenderNum = 0,
             lastState = (rowNumber row 4 \<noteq> 0)\<rparr>)"

fun readDoors :: "GpioPins \<Rightarrow> int option list list \<Rightarrow> nat \<Rightarrow> DoorMapping list \<Rightarrow> string + DoorMapping list" where
  "readDoors pins [] i ds = Inr ds"
| "readDoors pins (row # rows) i ds =
     (case readDoor pins row of Inl e \<Rightarrow> Inl e | Inr d \<Rightarrow> readDoors pins rows (i + 1) (ds[i := d]))"

text \<open>The mappings of \<open>next\<close>, with the number of doors before the update.\<close>

definition readMappings :: "GpioPins \<Rightarrow> bool \<Rightarrow> ConfigObject \<Rightarrow> u8 \<Rightarrow> BoxConfig \<Rightarrow> string + BoxConfig" where
  "readMappings pins complete obj oldCount c =
     (if \<not> isUnbound (obj ''INITIAL_DOOR_MAPPING'') then
        (case asRows (obj ''INITIAL_DOOR_MAPPING'') of
           None \<Rightarrow> Inl ''INITIAL_DOOR_MAPPING count''
         | Some rows \<Rightarrow>
             if length rows \<noteq> unat (doorCount c) then Inl ''INITIAL_DOOR_MAPPING count''
             else map_sum id (\<lambda>ds. c\<lparr>doors := ds\<rparr>) (readDoors pins rows 0 (doors c)))
      else if complete \<or> doorCount c \<noteq> oldCount then Inl ''INITIAL_DOOR_MAPPING missing'' else Inr c)"

definition checkConfig :: "GpioPins \<Rightarrow> bool \<Rightarrow> ConfigObject \<Rightarrow> BoxConfig \<Rightarrow> string + BoxConfig" where
  "checkConfig pins complete obj config =
     (case readFields (configFields complete obj) config of
        Inl e \<Rightarrow> Inl (if e = [] then ''Missing configuration field'' else e)
      | Inr c \<Rightarrow>
          if ambientPinNumber c \<noteq> INVALID_PIN \<and> \<not> validOutputGpio pins (ambientPinNumber c) then Inl ''AMBIENT_PIN''
          else case readMappings pins complete obj (doorCount config) c of
              Inl e \<Rightarrow> Inl e
            | Inr c \<Rightarrow> if complete \<and> \<not> provisioned c then Inl ''BOX_PROVISIONED must be 1'' else Inr c)"

text \<open>\<open>root\<close> is the object \<open>sandbox\<close> of the document, if there is one.\<close>

definition decode :: "GpioPins \<Rightarrow> bool \<Rightarrow> ConfigObject option \<Rightarrow> BoxConfig \<times> string \<Rightarrow> bool \<times> BoxConfig \<times> string" where
  "decode pins complete root = (\<lambda>(config, error).
     case root of
       None \<Rightarrow> (False, config, ''Missing sandbox object'')
     | Some obj \<Rightarrow>
         (case checkConfig pins complete obj config of
            Inl e \<Rightarrow> (False, config, e)
          | Inr c \<Rightarrow> (True, c, error)))"
section \<open>What an accepted configuration is\<close>

definition textOk :: "nat \<Rightarrow> bool \<Rightarrow> string \<Rightarrow> bool" where
  "textOk maxLen allowEmpty s \<longleftrightarrow> NUL \<notin> set s \<and> length s \<le> maxLen \<and> (allowEmpty \<or> s \<noteq> [])"

definition fieldsOk :: "BoxConfig \<Rightarrow> bool" where
  "fieldsOk c \<longleftrightarrow> language c \<in> {0..1} \<and>
     textOk 63 False (hostName c) \<and> textOk 32 False (wifiSsid c) \<and> textOk 63 True (wifiPassword c) \<and>
     textOk 253 False (logHost c) \<and> textOk 256 False (logPath c) \<and> logPort c \<noteq> 0 \<and> textOk 253 False (ntpServer c) \<and>
     gmtOffset c \<in> {- 86400..86400} \<and> daylightOffset c \<in> {- 86400..86400} \<and>
     textOk 253 False (vpnHost c) \<and> vpnPort c \<noteq> 0 \<and> textOk 128 False (vpnUser c) \<and> vpnRemotePort c \<noteq> 0 \<and>
     textOk 64 False (vpnKeyType c) \<and> textOk 128 False (vpnFingerprint c) \<and>
     textOk 4096 False (vpnPublicKey c) \<and> textOk 8192 False (vpnPrivateKey c) \<and>
     0 < doorCount c \<and> unat (doorCount c) \<le> DOOR_COUNT"

definition doorOk :: "GpioPins \<Rightarrow> DoorMapping \<Rightarrow> bool" where
  "doorOk pins d \<longleftrightarrow> logDoorNum d \<noteq> DOOR_UNKNOWN \<and> extenderNum d = 0 \<and>
     (gpioPin d = INVALID_PIN \<or> validOutputGpio pins (gpioPin d)) \<and> (statePin d = INVALID_PIN \<or> validGpio pins (statePin d))"

definition configOk :: "GpioPins \<Rightarrow> BoxConfig \<Rightarrow> bool" where
  "configOk pins c \<longleftrightarrow> fieldsOk c \<and> (ambientPinNumber c = INVALID_PIN \<or> validOutputGpio pins (ambientPinNumber c)) \<and>
     length (doors c) = DOOR_COUNT \<and> list_all (doorOk pins) (take (unat (doorCount c)) (doors c))"

lemma textField_ok: "textOk n e target \<Longrightarrow> textField complete obj key n e target = Inr v \<Longrightarrow> textOk n e v"
  by (auto simp: textField_def textOk_def Let_def split: if_splits option.splits)

lemma numberField_ok: "target \<in> {lo..hi} \<Longrightarrow> numberField complete obj key lo hi target = Inr v \<Longrightarrow> v \<in> {lo..hi}"
  by (auto simp: numberField_def split: if_splits option.splits)

lemma assign_Inr: "assign store read c = Inr c' \<longleftrightarrow> (\<exists>v. read c = Inr v \<and> c' = store v c)"
  by (cases "read c") (auto simp: assign_def)

lemma readFields_Cons: "readFields (f # fs) c = Inr c' \<longleftrightarrow> (\<exists>c1. f c = Inr c1 \<and> readFields fs c1 = Inr c')"
  by (cases "f c") auto

lemma readFields_keeps:
  assumes "list_all (\<lambda>f. \<forall>c c'. P c \<longrightarrow> f c = Inr c' \<longrightarrow> P c') fs" "P c" "readFields fs c = Inr c'"
  shows "P c'"
  using assms by (induction fs arbitrary: c) (auto simp del: readFields.simps(2) simp: readFields_Cons)

lemma port_nonzero:
  assumes "(v :: int) \<in> {1..65535}"
  shows "(word_of_int v :: u16) \<noteq> 0"
proof
  assume "(word_of_int v :: u16) = 0"
  then have "uint (word_of_int v :: u16) = 0" by simp
  then show False using assms by (simp add: uint_word_of_int)
qed

lemma port_range:
  assumes "(w :: u16) \<noteq> 0"
  shows "uint w \<in> {1..65535}"
proof -
  have "uint w \<noteq> 0" using assms by (simp only: uint_0_iff not_False_eq_True)
  moreover have "0 \<le> uint w" by (rule unsigned_greater_eq)
  moreover have "uint w < 65536" using unsigned_less [of w, where ?'a = int] by simp
  ultimately show ?thesis unfolding atLeastAtMost_iff by linarith
qed

lemma pin_range: "uint (w :: u8) \<in> {0..255}"
proof -
  have "0 \<le> uint w" by (rule unsigned_greater_eq)
  moreover have "uint w < 2 ^ LENGTH(8)" by (rule unsigned_less)
  ultimately show ?thesis by simp
qed

lemma int_unat_u8: "int (unat (w :: u8)) = uint w"
  by simp

lemma count_range:
  assumes "0 < (w :: u8)" "unat w \<le> DOOR_COUNT"
  shows "uint w \<in> {1..int DOOR_COUNT}"
proof -
  have "0 < uint w" using assms(1) by (simp add: word_less_def)
  moreover have "uint w \<le> int DOOR_COUNT" using assms(2) unfolding int_unat_u8 [symmetric] by (simp only: of_nat_le_iff)
  ultimately show ?thesis unfolding atLeastAtMost_iff by linarith
qed

lemma count_ok:
  assumes "(v :: int) \<in> {1..int DOOR_COUNT}"
  shows "0 < (word_of_int v :: u8) \<and> unat (word_of_int v :: u8) \<le> DOOR_COUNT"
proof -
  have v: "uint (word_of_int v :: u8) = v" using assms by (simp add: uint_word_of_int DOOR_COUNT_def)
  then have "0 < (word_of_int v :: u8)" using assms by (simp add: word_less_def)
  moreover have "int (unat (word_of_int v :: u8)) \<le> int DOOR_COUNT" unfolding int_unat_u8 v using assms by simp
  ultimately show ?thesis by (simp only: of_nat_le_iff)
qed

text \<open>One field at a time.\<close>

lemma keep_text:
  assumes get: "\<And>c. fieldsOk c \<Longrightarrow> textOk n e (get c)" and store: "\<And>c v. fieldsOk c \<Longrightarrow> textOk n e v \<Longrightarrow> fieldsOk (store v c)"
  shows "\<forall>c c'. fieldsOk c \<longrightarrow> assign store (\<lambda>c. textField complete obj key n e (get c)) c = Inr c' \<longrightarrow> fieldsOk c'"
proof (intro allI impI)
  fix c c' assume c: "fieldsOk c" "assign store (\<lambda>c. textField complete obj key n e (get c)) c = Inr c'"
  then obtain v where v: "textField complete obj key n e (get c) = Inr v" "c' = store v c" by (auto simp: assign_Inr)
  show "fieldsOk c'" unfolding v(2) by (rule store [OF c(1) textField_ok [OF get [OF c(1)] v(1)]])
qed

lemma keep_number:
  assumes get: "\<And>c. fieldsOk c \<Longrightarrow> get c \<in> {lo..hi}" and store: "\<And>c v. fieldsOk c \<Longrightarrow> v \<in> {lo..hi} \<Longrightarrow> fieldsOk (store v c)"
  shows "\<forall>c c'. fieldsOk c \<longrightarrow> assign store (\<lambda>c. numberField complete obj key lo hi (get c)) c = Inr c' \<longrightarrow> fieldsOk c'"
proof (intro allI impI)
  fix c c' assume c: "fieldsOk c" "assign store (\<lambda>c. numberField complete obj key lo hi (get c)) c = Inr c'"
  then obtain v where v: "numberField complete obj key lo hi (get c) = Inr v" "c' = store v c" by (auto simp: assign_Inr)
  show "fieldsOk c'" unfolding v(2) by (rule store [OF c(1) numberField_ok [OF get [OF c(1)] v(1)]])
qed

lemma keep_flag:
  assumes "\<And>c v. fieldsOk c \<Longrightarrow> fieldsOk (store v c)"
  shows "\<forall>c c'. fieldsOk c \<longrightarrow> assign store (\<lambda>c. booleanField complete obj key (get c)) c = Inr c' \<longrightarrow> fieldsOk c'"
  using assms by (auto simp: assign_Inr)

lemma configFields_ok: "list_all (\<lambda>f. \<forall>c c'. fieldsOk c \<longrightarrow> f c = Inr c' \<longrightarrow> fieldsOk c') (configFields complete obj)"
  unfolding configFields_def list.pred_inject
  by (intro conjI TrueI keep_text keep_number keep_flag)
    (simp_all add: fieldsOk_def port_nonzero count_ok pin_range port_range count_range del: atLeastAtMost_iff)

text \<open>The doors.\<close>

lemma readDoor_ok: "readDoor pins row = Inr d \<Longrightarrow> doorOk pins d"
  by (auto simp: readDoor_def doorOk_def Let_def split: if_splits)

lemma readDoors_spec:
  assumes "readDoors pins rows i ds = Inr ds'" "i + length rows \<le> length ds"
  shows "\<exists>ns. map (readDoor pins) rows = map Inr ns \<and> ds' = take i ds @ ns @ drop (i + length rows) ds"
  using assms
proof (induction rows arbitrary: i ds)
  case Nil
  then show ?case by simp
next
  case (Cons row rows)
  then obtain d where d: "readDoor pins row = Inr d" and rest: "readDoors pins rows (i + 1) (ds[i := d]) = Inr ds'"
    by (auto split: sum.splits)
  from Cons.IH [OF rest] Cons.prems(2) obtain ns where ns: "map (readDoor pins) rows = map Inr ns"
    "ds' = take (i + 1) (ds[i := d]) @ ns @ drop (i + 1 + length rows) (ds[i := d])" by auto
  have "take (i + 1) (ds[i := d]) = take i ds @ [d]" using Cons.prems(2) by (simp add: take_Suc_conv_app_nth)
  then have "ds' = take i ds @ (d # ns) @ drop (i + length (row # rows)) ds" using ns(2) by simp
  then show ?case using d ns(1) by (intro exI [of _ "d # ns"]) simp
qed

lemma doors_ok:
  assumes "map (readDoor pins) rows = map Inr ns"
  shows "list_all (doorOk pins) ns"
proof -
  have "Inr d \<in> readDoor pins ` set rows" if "d \<in> set ns" for d
    using that arg_cong [OF assms, of set] by force
  then show ?thesis using readDoor_ok by (fastforce simp: list_all_iff)
qed

lemma readMappings_ok:
  assumes "fieldsOk c" "length (doors c) = DOOR_COUNT" "readMappings pins complete obj old c = Inr c'"
    and "doorCount c = old \<Longrightarrow> list_all (doorOk pins) (take (unat old) (doors c))"
  shows "\<exists>ds. c' = c\<lparr>doors := ds\<rparr> \<and> length ds = DOOR_COUNT \<and> list_all (doorOk pins) (take (unat (doorCount c)) ds)"
proof (cases "isUnbound (obj ''INITIAL_DOOR_MAPPING'')")
  case True
  then have "c' = c" "doorCount c = old" using assms(3) by (auto simp: readMappings_def split: if_splits)
  then show ?thesis using assms(2,4) by (intro exI [of _ "doors c"]) simp
next
  case False
  then obtain rows ds where rows: "length rows = unat (doorCount c)" "readDoors pins rows 0 (doors c) = Inr ds"
    and c': "c' = c\<lparr>doors := ds\<rparr>"
    using assms(3) by (auto simp: readMappings_def map_sum_def split: if_splits option.splits sum.splits)
  have "unat (doorCount c) \<le> DOOR_COUNT" using assms(1) by (simp add: fieldsOk_def)
  then obtain ns where ns: "map (readDoor pins) rows = map Inr ns" "ds = ns @ drop (length rows) (doors c)"
    using readDoors_spec [OF rows(2)] rows(1) assms(2) by auto
  have "length ns = unat (doorCount c)" using arg_cong [OF ns(1), of length] rows(1) by simp
  then show ?thesis
    using c' ns doors_ok [OF ns(1)] rows(1) assms(2) \<open>unat (doorCount c) \<le> DOOR_COUNT\<close> by (intro exI [of _ ds]) simp
qed

lemma configFields_doors:
  "list_all (\<lambda>f. \<forall>c c'. doors c = ds \<longrightarrow> f c = Inr c' \<longrightarrow> doors c' = ds) (configFields complete obj)"
  unfolding configFields_def list.pred_inject by (auto simp: assign_Inr)

lemma decode_all_valid:
  assumes "configOk pins config"
  shows "case decode pins complete root (config, err) of (okay, c, e) \<Rightarrow>
    if okay then configOk pins c \<and> (complete \<longrightarrow> provisioned c) else c = config"
proof (cases root)
  case None
  then show ?thesis by (simp add: decode_def)
next
  case (Some obj)
  show ?thesis
  proof (cases "checkConfig pins complete obj config")
    case (Inl e)
    then show ?thesis using Some by (simp add: decode_def)
  next
    case (Inr c)
    then obtain n where n: "readFields (configFields complete obj) config = Inr n"
      and pin: "ambientPinNumber n = INVALID_PIN \<or> validOutputGpio pins (ambientPinNumber n)"
      and maps: "readMappings pins complete obj (doorCount config) n = Inr c" and full: "complete \<longrightarrow> provisioned c"
      by (auto simp: checkConfig_def split: sum.splits if_splits)
    have ok: "fieldsOk n" using readFields_keeps [OF configFields_ok _ n] assms by (simp add: configOk_def)
    have ds: "doors n = doors config" using readFields_keeps [OF configFields_doors _ n] by blast
    obtain ds' where "c = n\<lparr>doors := ds'\<rparr>" "length ds' = DOOR_COUNT"
      "list_all (doorOk pins) (take (unat (doorCount n)) ds')"
      using readMappings_ok [OF ok _ maps] ds assms by (auto simp: configOk_def)
    then have "configOk pins c" using ok pin by (simp add: configOk_def fieldsOk_def)
    then show ?thesis using Some Inr full by (simp add: decode_def)
  qed
qed

section \<open>What an accepted document says\<close>

text \<open>
  Reference: a field after the update, from the field before it.  An absent field is kept, which a complete document
  does not allow; otherwise the field is what the document says.
\<close>

definition textSays :: "bool \<Rightarrow> ConfigValue \<Rightarrow> string \<Rightarrow> string \<Rightarrow> bool" where
  "textSays complete v old new \<longleftrightarrow> (if isUnbound v then \<not> complete \<and> new = old else isText v = Some new)"

definition numberSays :: "bool \<Rightarrow> ConfigValue \<Rightarrow> int \<Rightarrow> int \<Rightarrow> bool" where
  "numberSays complete v old new \<longleftrightarrow>
     (if isNullValue v then isUnbound v \<and> \<not> complete \<and> new = old else isLong v = Some new)"

definition flagSays :: "bool \<Rightarrow> ConfigValue \<Rightarrow> bool \<Rightarrow> bool \<Rightarrow> bool" where
  "flagSays complete v old new \<longleftrightarrow>
     (if isUnbound v then \<not> complete \<and> new = old
      else isBoolean v = Some new \<or> isBoolean v = None \<and> \<not> isNullValue v \<and> isLong v = Some (if new then 1 else 0))"

definition rowSays :: "int option list \<Rightarrow> DoorMapping \<Rightarrow> bool" where
  "rowSays row d \<longleftrightarrow> row = map Some [uint (logDoorNum d), uint (gpioPin d), uint (statePin d), uint (extenderNum d), if lastState d then 1 else 0]"

definition doorsSay :: "bool \<Rightarrow> ConfigValue \<Rightarrow> BoxConfig \<Rightarrow> BoxConfig \<Rightarrow> bool" where
  "doorsSay complete v old new \<longleftrightarrow>
     (if isUnbound v then \<not> complete \<and> doors new = doors old \<and> doorCount new = doorCount old
      else \<exists>rows. asRows v = Some rows \<and> list_all2 rowSays rows (take (unat (doorCount new)) (doors new)) \<and>
        drop (unat (doorCount new)) (doors new) = drop (unat (doorCount new)) (doors old))"

definition valuesSay :: "bool \<Rightarrow> ConfigObject \<Rightarrow> BoxConfig \<Rightarrow> BoxConfig \<Rightarrow> bool" where
  "valuesSay complete obj old new \<longleftrightarrow>
     flagSays complete (obj ''BOX_PROVISIONED'') (provisioned old) (provisioned new) \<and>
     flagSays complete (obj ''QR_SCANNER_TEST_KEEP_CRED'') (scannerTestKeepCred old) (scannerTestKeepCred new) \<and>
     numberSays complete (obj ''DISP_LANG'') (language old) (language new) \<and>
     textSays complete (obj ''BOX_HOST_NAME'') (hostName old) (hostName new) \<and>
     textSays complete (obj ''WIFI_SSID'') (wifiSsid old) (wifiSsid new) \<and>
     textSays complete (obj ''WIFI_PASSWD'') (wifiPassword old) (wifiPassword new) \<and>
     textSays complete (obj ''LOG_SERVER_IP'') (logHost old) (logHost new) \<and>
     textSays complete (obj ''LOG_SERVER_PATH'') (logPath old) (logPath new) \<and>
     numberSays complete (obj ''LOG_SERVER_PORT'') (uint (logPort old)) (uint (logPort new)) \<and>
     textSays complete (obj ''NTP_SERVER'') (ntpServer old) (ntpServer new) \<and>
     numberSays complete (obj ''GMT_OFFSET_SEC'') (gmtOffset old) (gmtOffset new) \<and>
     numberSays complete (obj ''DAYLIGHT_OFFSET_SEC'') (daylightOffset old) (daylightOffset new) \<and>
     textSays complete (obj ''VPN_GATEWAY_HOST'') (vpnHost old) (vpnHost new) \<and>
     numberSays complete (obj ''VPN_GATEWAY_PORT'') (uint (vpnPort old)) (uint (vpnPort new)) \<and>
     textSays complete (obj ''VPN_USERNAME'') (vpnUser old) (vpnUser new) \<and>
     numberSays complete (obj ''VPN_REMOTE_BIND_PORT'') (uint (vpnRemotePort old)) (uint (vpnRemotePort new)) \<and>
     textSays complete (obj ''VPN_GATEWAY_KEY_TYPE'') (vpnKeyType old) (vpnKeyType new) \<and>
     textSays complete (obj ''VPN_GATEWAY_FINGERPRINT'') (vpnFingerprint old) (vpnFingerprint new) \<and>
     textSays complete (obj ''VPN_PUBLIC_KEY'') (vpnPublicKey old) (vpnPublicKey new) \<and>
     textSays complete (obj ''VPN_PRIVATE_KEY'') (vpnPrivateKey old) (vpnPrivateKey new) \<and>
     numberSays complete (obj ''AMBIENT_PIN'') (uint (ambientPinNumber old)) (uint (ambientPinNumber new)) \<and>
     numberSays complete (obj ''ACTIVE_DOOR_NUMBERS'') (uint (doorCount old)) (uint (doorCount new))"

definition applied :: "bool \<Rightarrow> ConfigObject \<Rightarrow> BoxConfig \<Rightarrow> BoxConfig \<Rightarrow> bool" where
  "applied complete obj old new \<longleftrightarrow> valuesSay complete obj old new \<and> doorsSay complete (obj ''INITIAL_DOOR_MAPPING'') old new"

lemma cstr_whole: "length raw = length (cstr raw) \<Longrightarrow> cstr raw = raw"
  unfolding cstr_def by (metis takeWhile_eq_take take_all_iff order_refl)

lemma textField_says: "textField complete obj key n e old = Inr v \<Longrightarrow> textSays complete (obj key) old v"
  by (auto simp: textField_def textSays_def Let_def dest: cstr_whole [symmetric] split: if_splits option.splits)

lemma numberField_says: "numberField complete obj key lo hi old = Inr v \<Longrightarrow> numberSays complete (obj key) old v"
  by (auto simp: numberField_def numberSays_def split: if_splits option.splits)

lemma booleanField_says: "booleanField complete obj key old = Inr v \<Longrightarrow> flagSays complete (obj key) old v"
  by (auto simp: booleanField_def flagSays_def numberField_def map_sum_def split: if_splits option.splits sum.splits)

lemma u16_says:
  assumes "numberField complete obj key 1 65535 (uint (old :: u16)) = Inr v"
  shows "numberSays complete (obj key) (uint old) (uint (word_of_int v :: u16))"
proof -
  have "v = uint old \<or> 1 \<le> v \<and> v \<le> 65535"
    using assms by (auto simp: numberField_def split: if_splits option.splits)
  then have "uint (word_of_int v :: u16) = v" by (elim disjE) (simp, simp add: uint_word_of_int)
  then show ?thesis using numberField_says [OF assms] by simp
qed

lemma u8_says:
  assumes "numberField complete obj key lo hi (uint (old :: u8)) = Inr v" "0 \<le> lo" "hi \<le> 255"
  shows "numberSays complete (obj key) (uint old) (uint (word_of_int v :: u8))"
proof -
  have "v = uint old \<or> 0 \<le> v \<and> v \<le> 255"
    using assms by (auto simp: numberField_def split: if_splits option.splits)
  then have "uint (word_of_int v :: u8) = v" by (elim disjE) (simp, simp add: uint_word_of_int)
  then show ?thesis using numberField_says [OF assms(1)] by simp
qed

text \<open>Exactly one of the fields is set at each step.\<close>

abbreviation keepsField :: "(BoxConfig \<Rightarrow> 'a) \<Rightarrow> (BoxConfig \<Rightarrow> string + BoxConfig) list \<Rightarrow> bool" where
  "keepsField get fs \<equiv> list_all (\<lambda>f. \<forall>c c'. f c = Inr c' \<longrightarrow> get c' = get c) fs"

lemma readFields_keepsField: "readFields fs c = Inr c' \<Longrightarrow> keepsField get fs \<Longrightarrow> get c' = get c"
  by (induction fs arbitrary: c) (auto simp del: readFields.simps(2) simp: readFields_Cons)

lemma readFields_append: "readFields (fs @ gs) c = Inr c' \<longleftrightarrow> (\<exists>c1. readFields fs c = Inr c1 \<and> readFields gs c1 = Inr c')"
  by (induction fs arbitrary: c) (auto simp del: readFields.simps(2) simp: readFields_Cons)

lemma field_said:
  assumes "readFields fs c = Inr c'" and "i < length fs" and "fs ! i = assign store read"
    and "keepsField get (take i fs)" and "keepsField get (drop (Suc i) fs)" and "\<And>v c. get (store v c) = g v"
  shows "\<exists>v c1. read c1 = Inr v \<and> get c1 = get c \<and> get c' = g v"
proof -
  have "readFields (take i fs @ assign store read # drop (Suc i) fs) c = Inr c'"
    using assms(1-3) id_take_nth_drop [of i fs] by simp
  then obtain c1 v where c1: "readFields (take i fs) c = Inr c1" "read c1 = Inr v" "readFields (drop (Suc i) fs) (store v c1) = Inr c'"
    by (auto simp del: readFields.simps(2) simp: readFields_append readFields_Cons assign_Inr)
  have "get c1 = get c" by (rule readFields_keepsField [OF c1(1) assms(4)])
  moreover have "get c' = g v" using readFields_keepsField [OF c1(3) assms(5)] assms(6) by simp
  ultimately show ?thesis using c1(2) by blast
qed

lemma said:
  assumes "readFields fs c = Inr c'"
    and "i < length fs \<and> fs ! i = assign store read \<and> keepsField get (take i fs) \<and> keepsField get (drop (Suc i) fs)"
    and "\<And>v c. get (store v c) = g v" and "\<And>c v. read c = Inr v \<Longrightarrow> says (get c) (g v)"
  shows "says (get c) (get c')"
  using field_said [OF assms(1), of i store read get g] assms(2-4) by metis

lemma assign_keeps:
  "(\<And>v c. get (store v c) = get c) \<Longrightarrow> (\<forall>c c'. assign store read c = Inr c' \<longrightarrow> get c' = get c)"
  by (auto simp: assign_Inr)

lemma readFields_say:
  assumes "readFields (configFields complete obj) old = Inr new"
  shows "valuesSay complete obj old new"
proof -
  note said = said [OF assms]
  have count: "DOOR_COUNT \<le> 255" by (simp add: DOOR_COUNT_def)
  have f0: "flagSays complete (obj ''BOX_PROVISIONED'') (provisioned old) (provisioned new)"
    by (rule said [of 0 "\<lambda>v c. c\<lparr>provisioned := v\<rparr>" "\<lambda>c. booleanField complete obj ''BOX_PROVISIONED'' (provisioned c)" "provisioned" "\<lambda>v. v" "flagSays complete (obj ''BOX_PROVISIONED'')"])
      ((simp add: configFields_def; intro conjI assign_keeps; simp), simp, (erule booleanField_says; simp add: count))
  have f1: "flagSays complete (obj ''QR_SCANNER_TEST_KEEP_CRED'') (scannerTestKeepCred old) (scannerTestKeepCred new)"
    by (rule said [of 1 "\<lambda>v c. c\<lparr>scannerTestKeepCred := v\<rparr>" "\<lambda>c. booleanField complete obj ''QR_SCANNER_TEST_KEEP_CRED'' (scannerTestKeepCred c)" "scannerTestKeepCred" "\<lambda>v. v" "flagSays complete (obj ''QR_SCANNER_TEST_KEEP_CRED'')"])
      ((simp add: configFields_def; intro conjI assign_keeps; simp), simp, (erule booleanField_says; simp add: count))
  have f2: "numberSays complete (obj ''DISP_LANG'') (language old) (language new)"
    by (rule said [of 2 "\<lambda>v c. c\<lparr>language := v\<rparr>" "\<lambda>c. numberField complete obj ''DISP_LANG'' 0 1 (language c)" "language" "\<lambda>v. v" "numberSays complete (obj ''DISP_LANG'')"])
      ((simp add: configFields_def; intro conjI assign_keeps; simp), simp, (erule numberField_says; simp add: count))
  have f3: "textSays complete (obj ''BOX_HOST_NAME'') (hostName old) (hostName new)"
    by (rule said [of 3 "\<lambda>v c. c\<lparr>hostName := v\<rparr>" "\<lambda>c. textField complete obj ''BOX_HOST_NAME'' 63 False (hostName c)" "hostName" "\<lambda>v. v" "textSays complete (obj ''BOX_HOST_NAME'')"])
      ((simp add: configFields_def; intro conjI assign_keeps; simp), simp, (erule textField_says; simp add: count))
  have f4: "textSays complete (obj ''WIFI_SSID'') (wifiSsid old) (wifiSsid new)"
    by (rule said [of 4 "\<lambda>v c. c\<lparr>wifiSsid := v\<rparr>" "\<lambda>c. textField complete obj ''WIFI_SSID'' 32 False (wifiSsid c)" "wifiSsid" "\<lambda>v. v" "textSays complete (obj ''WIFI_SSID'')"])
      ((simp add: configFields_def; intro conjI assign_keeps; simp), simp, (erule textField_says; simp add: count))
  have f5: "textSays complete (obj ''WIFI_PASSWD'') (wifiPassword old) (wifiPassword new)"
    by (rule said [of 5 "\<lambda>v c. c\<lparr>wifiPassword := v\<rparr>" "\<lambda>c. textField complete obj ''WIFI_PASSWD'' 63 True (wifiPassword c)" "wifiPassword" "\<lambda>v. v" "textSays complete (obj ''WIFI_PASSWD'')"])
      ((simp add: configFields_def; intro conjI assign_keeps; simp), simp, (erule textField_says; simp add: count))
  have f6: "textSays complete (obj ''LOG_SERVER_IP'') (logHost old) (logHost new)"
    by (rule said [of 6 "\<lambda>v c. c\<lparr>logHost := v\<rparr>" "\<lambda>c. textField complete obj ''LOG_SERVER_IP'' 253 False (logHost c)" "logHost" "\<lambda>v. v" "textSays complete (obj ''LOG_SERVER_IP'')"])
      ((simp add: configFields_def; intro conjI assign_keeps; simp), simp, (erule textField_says; simp add: count))
  have f7: "textSays complete (obj ''LOG_SERVER_PATH'') (logPath old) (logPath new)"
    by (rule said [of 7 "\<lambda>v c. c\<lparr>logPath := v\<rparr>" "\<lambda>c. textField complete obj ''LOG_SERVER_PATH'' 256 False (logPath c)" "logPath" "\<lambda>v. v" "textSays complete (obj ''LOG_SERVER_PATH'')"])
      ((simp add: configFields_def; intro conjI assign_keeps; simp), simp, (erule textField_says; simp add: count))
  have f8: "numberSays complete (obj ''LOG_SERVER_PORT'') (uint (logPort old)) (uint (logPort new))"
    by (rule said [of 8 "\<lambda>v c. c\<lparr>logPort := word_of_int v\<rparr>" "\<lambda>c. numberField complete obj ''LOG_SERVER_PORT'' 1 65535 (uint (logPort c))" "\<lambda>c. uint (logPort c)" "\<lambda>v. uint (word_of_int v :: u16)" "numberSays complete (obj ''LOG_SERVER_PORT'')"])
      ((simp add: configFields_def; intro conjI assign_keeps; simp), simp, (erule u16_says; simp add: count))
  have f9: "textSays complete (obj ''NTP_SERVER'') (ntpServer old) (ntpServer new)"
    by (rule said [of 9 "\<lambda>v c. c\<lparr>ntpServer := v\<rparr>" "\<lambda>c. textField complete obj ''NTP_SERVER'' 253 False (ntpServer c)" "ntpServer" "\<lambda>v. v" "textSays complete (obj ''NTP_SERVER'')"])
      ((simp add: configFields_def; intro conjI assign_keeps; simp), simp, (erule textField_says; simp add: count))
  have f10: "numberSays complete (obj ''GMT_OFFSET_SEC'') (gmtOffset old) (gmtOffset new)"
    by (rule said [of 10 "\<lambda>v c. c\<lparr>gmtOffset := v\<rparr>" "\<lambda>c. numberField complete obj ''GMT_OFFSET_SEC'' (- 86400) 86400 (gmtOffset c)" "gmtOffset" "\<lambda>v. v" "numberSays complete (obj ''GMT_OFFSET_SEC'')"])
      ((simp add: configFields_def; intro conjI assign_keeps; simp), simp, (erule numberField_says; simp add: count))
  have f11: "numberSays complete (obj ''DAYLIGHT_OFFSET_SEC'') (daylightOffset old) (daylightOffset new)"
    by (rule said [of 11 "\<lambda>v c. c\<lparr>daylightOffset := v\<rparr>" "\<lambda>c. numberField complete obj ''DAYLIGHT_OFFSET_SEC'' (- 86400) 86400 (daylightOffset c)" "daylightOffset" "\<lambda>v. v" "numberSays complete (obj ''DAYLIGHT_OFFSET_SEC'')"])
      ((simp add: configFields_def; intro conjI assign_keeps; simp), simp, (erule numberField_says; simp add: count))
  have f12: "textSays complete (obj ''VPN_GATEWAY_HOST'') (vpnHost old) (vpnHost new)"
    by (rule said [of 12 "\<lambda>v c. c\<lparr>vpnHost := v\<rparr>" "\<lambda>c. textField complete obj ''VPN_GATEWAY_HOST'' 253 False (vpnHost c)" "vpnHost" "\<lambda>v. v" "textSays complete (obj ''VPN_GATEWAY_HOST'')"])
      ((simp add: configFields_def; intro conjI assign_keeps; simp), simp, (erule textField_says; simp add: count))
  have f13: "numberSays complete (obj ''VPN_GATEWAY_PORT'') (uint (vpnPort old)) (uint (vpnPort new))"
    by (rule said [of 13 "\<lambda>v c. c\<lparr>vpnPort := word_of_int v\<rparr>" "\<lambda>c. numberField complete obj ''VPN_GATEWAY_PORT'' 1 65535 (uint (vpnPort c))" "\<lambda>c. uint (vpnPort c)" "\<lambda>v. uint (word_of_int v :: u16)" "numberSays complete (obj ''VPN_GATEWAY_PORT'')"])
      ((simp add: configFields_def; intro conjI assign_keeps; simp), simp, (erule u16_says; simp add: count))
  have f14: "textSays complete (obj ''VPN_USERNAME'') (vpnUser old) (vpnUser new)"
    by (rule said [of 14 "\<lambda>v c. c\<lparr>vpnUser := v\<rparr>" "\<lambda>c. textField complete obj ''VPN_USERNAME'' 128 False (vpnUser c)" "vpnUser" "\<lambda>v. v" "textSays complete (obj ''VPN_USERNAME'')"])
      ((simp add: configFields_def; intro conjI assign_keeps; simp), simp, (erule textField_says; simp add: count))
  have f15: "numberSays complete (obj ''VPN_REMOTE_BIND_PORT'') (uint (vpnRemotePort old)) (uint (vpnRemotePort new))"
    by (rule said [of 15 "\<lambda>v c. c\<lparr>vpnRemotePort := word_of_int v\<rparr>" "\<lambda>c. numberField complete obj ''VPN_REMOTE_BIND_PORT'' 1 65535 (uint (vpnRemotePort c))" "\<lambda>c. uint (vpnRemotePort c)" "\<lambda>v. uint (word_of_int v :: u16)" "numberSays complete (obj ''VPN_REMOTE_BIND_PORT'')"])
      ((simp add: configFields_def; intro conjI assign_keeps; simp), simp, (erule u16_says; simp add: count))
  have f16: "textSays complete (obj ''VPN_GATEWAY_KEY_TYPE'') (vpnKeyType old) (vpnKeyType new)"
    by (rule said [of 16 "\<lambda>v c. c\<lparr>vpnKeyType := v\<rparr>" "\<lambda>c. textField complete obj ''VPN_GATEWAY_KEY_TYPE'' 64 False (vpnKeyType c)" "vpnKeyType" "\<lambda>v. v" "textSays complete (obj ''VPN_GATEWAY_KEY_TYPE'')"])
      ((simp add: configFields_def; intro conjI assign_keeps; simp), simp, (erule textField_says; simp add: count))
  have f17: "textSays complete (obj ''VPN_GATEWAY_FINGERPRINT'') (vpnFingerprint old) (vpnFingerprint new)"
    by (rule said [of 17 "\<lambda>v c. c\<lparr>vpnFingerprint := v\<rparr>" "\<lambda>c. textField complete obj ''VPN_GATEWAY_FINGERPRINT'' 128 False (vpnFingerprint c)" "vpnFingerprint" "\<lambda>v. v" "textSays complete (obj ''VPN_GATEWAY_FINGERPRINT'')"])
      ((simp add: configFields_def; intro conjI assign_keeps; simp), simp, (erule textField_says; simp add: count))
  have f18: "textSays complete (obj ''VPN_PUBLIC_KEY'') (vpnPublicKey old) (vpnPublicKey new)"
    by (rule said [of 18 "\<lambda>v c. c\<lparr>vpnPublicKey := v\<rparr>" "\<lambda>c. textField complete obj ''VPN_PUBLIC_KEY'' 4096 False (vpnPublicKey c)" "vpnPublicKey" "\<lambda>v. v" "textSays complete (obj ''VPN_PUBLIC_KEY'')"])
      ((simp add: configFields_def; intro conjI assign_keeps; simp), simp, (erule textField_says; simp add: count))
  have f19: "textSays complete (obj ''VPN_PRIVATE_KEY'') (vpnPrivateKey old) (vpnPrivateKey new)"
    by (rule said [of 19 "\<lambda>v c. c\<lparr>vpnPrivateKey := v\<rparr>" "\<lambda>c. textField complete obj ''VPN_PRIVATE_KEY'' 8192 False (vpnPrivateKey c)" "vpnPrivateKey" "\<lambda>v. v" "textSays complete (obj ''VPN_PRIVATE_KEY'')"])
      ((simp add: configFields_def; intro conjI assign_keeps; simp), simp, (erule textField_says; simp add: count))
  have f20: "numberSays complete (obj ''AMBIENT_PIN'') (uint (ambientPinNumber old)) (uint (ambientPinNumber new))"
    by (rule said [of 20 "\<lambda>v c. c\<lparr>ambientPinNumber := word_of_int v\<rparr>" "\<lambda>c. numberField complete obj ''AMBIENT_PIN'' 0 255 (uint (ambientPinNumber c))" "\<lambda>c. uint (ambientPinNumber c)" "\<lambda>v. uint (word_of_int v :: u8)" "numberSays complete (obj ''AMBIENT_PIN'')"])
      ((simp add: configFields_def; intro conjI assign_keeps; simp), simp, (erule u8_says; simp add: count))
  have f21: "numberSays complete (obj ''ACTIVE_DOOR_NUMBERS'') (uint (doorCount old)) (uint (doorCount new))"
    by (rule said [of 21 "\<lambda>v c. c\<lparr>doorCount := word_of_int v\<rparr>" "\<lambda>c. numberField complete obj ''ACTIVE_DOOR_NUMBERS'' 1 (int DOOR_COUNT) (uint (doorCount c))" "\<lambda>c. uint (doorCount c)" "\<lambda>v. uint (word_of_int v :: u8)" "numberSays complete (obj ''ACTIVE_DOOR_NUMBERS'')"])
      ((simp add: configFields_def; intro conjI assign_keeps; simp), simp, (erule u8_says; simp add: count))
  show ?thesis unfolding valuesSay_def
    using f0 f1 f2 f3 f4 f5 f6 f7 f8 f9 f10 f11 f12 f13 f14 f15 f16 f17 f18 f19 f20 f21 by simp
qed

text \<open>The doors: each row of the document is the mapping of its door, and the doors beyond the rows are kept.\<close>

lemma five_values:
  assumes "length row = 5" "\<not> list_ex (\<lambda>c. badValue c (row ! c)) [0..<5]"
  shows "\<exists>a b c d e. row = map Some [a, b, c, d, e] \<and> a \<in> {0..255} \<and> b \<in> {0..255} \<and> c \<in> {0..255} \<and> d \<in> {0..255} \<and> e \<in> {0..1}"
proof -
  obtain r0 r1 r2 r3 r4 where row: "row = [r0, r1, r2, r3, r4]"
    using assms(1) by (auto simp: length_Suc_conv eval_nat_numeral)
  have "[0..<5] = [0, 1, 2, 3, 4 :: nat]" by (simp add: upt_rec)
  then have "\<not> badValue 0 r0 \<and> \<not> badValue 1 r1 \<and> \<not> badValue 2 r2 \<and> \<not> badValue 3 r3 \<and> \<not> badValue 4 r4"
    using assms(2) by (simp add: row)
  then show ?thesis by (auto simp: row badValue_def split: option.splits)
qed

lemma readDoor_says:
  assumes "readDoor pins row = Inr d"
  shows "rowSays row d"
proof -
  have "length row = 5" "\<not> list_ex (\<lambda>c. badValue c (row ! c)) [0..<5]"
    using assms by (auto simp: readDoor_def Let_def split: if_splits)
  from five_values [OF this] obtain v0 v1 v2 v3 v4 where row: "row = map Some [v0, v1, v2, v3, v4]"
    and v: "v0 \<in> {0..255}" "v1 \<in> {0..255}" "v2 \<in> {0..255}" "v3 \<in> {0..255}" "v4 \<in> {0..1}" by blast
  have u: "uint (word_of_int n :: u8) = n" if "n \<in> {0..255}" for n using that by (simp add: uint_word_of_int)
  have "(word_of_int v3 :: u8) = 0" "d = \<lparr>logDoorNum = word_of_int v0, gpioPin = word_of_int v1, statePin = word_of_int v2,
      extenderNum = 0, lastState = ((word_of_int v4 :: u8) \<noteq> 0)\<rparr>"
    using assms by (auto simp: readDoor_def row rowNumber_def Let_def eval_nat_numeral split: if_splits)
  moreover have "v3 = 0" using u [OF v(4)] \<open>(word_of_int v3 :: u8) = 0\<close> by simp
  moreover have "v4 = 0 \<or> v4 = 1" using v(5) by auto
  ultimately show ?thesis using u [OF v(1)] u [OF v(2)] u [OF v(3)] by (auto simp: rowSays_def row)
qed

lemma rows_say: "map (readDoor pins) rows = map Inr ns \<Longrightarrow> list_all2 rowSays rows ns"
  by (induction rows arbitrary: ns) (auto simp: Cons_eq_map_conv intro: readDoor_says)

lemma readMappings_say:
  assumes "readMappings pins complete obj (doorCount old) c = Inr new" and "doors c = doors old"
    and "unat (doorCount c) \<le> length (doors c)"
  shows "doorsSay complete (obj ''INITIAL_DOOR_MAPPING'') old new \<and> (\<exists>ds. new = c\<lparr>doors := ds\<rparr>)"
proof (cases "isUnbound (obj ''INITIAL_DOOR_MAPPING'')")
  case True
  then have "new = c" "doorCount c = doorCount old" "\<not> complete" using assms(1) by (auto simp: readMappings_def split: if_splits)
  then show ?thesis using True assms(2) by (auto simp: doorsSay_def intro: exI [of _ "doors c"])
next
  case False
  then obtain rows ds where rows: "asRows (obj ''INITIAL_DOOR_MAPPING'') = Some rows" "length rows = unat (doorCount c)"
    "readDoors pins rows 0 (doors c) = Inr ds" and new: "new = c\<lparr>doors := ds\<rparr>"
    using assms(1) by (auto simp: readMappings_def map_sum_def split: if_splits option.splits sum.splits)
  obtain ns where ns: "map (readDoor pins) rows = map Inr ns" "ds = ns @ drop (length rows) (doors c)"
    using readDoors_spec [OF rows(3)] rows(2) assms(3) by auto
  have "length ns = unat (doorCount c)" using arg_cong [OF ns(1), of length] rows(2) by simp
  then show ?thesis
    using False rows new ns rows_say [OF ns(1)] assms(2) by (auto simp: doorsSay_def)
qed

lemma decode_applies:
  assumes "configOk pins config" "decode pins complete (Some obj) (config, err) = (True, c, e)"
  shows "applied complete obj config c \<and> e = err"
proof -
  from assms(2) obtain n where n: "readFields (configFields complete obj) config = Inr n"
      and maps: "readMappings pins complete obj (doorCount config) n = Inr c" and e: "e = err"
    by (auto simp: decode_def checkConfig_def split: sum.splits if_splits)
  have ok: "fieldsOk n" using readFields_keeps [OF configFields_ok _ n] assms(1) by (simp add: configOk_def)
  have ds: "doors n = doors config" using readFields_keeps [OF configFields_doors _ n] by blast
  have "unat (doorCount n) \<le> length (doors n)" using ok ds assms(1) by (simp add: fieldsOk_def configOk_def)
  note m = readMappings_say [OF maps ds this]
  then obtain ds' where "c = n\<lparr>doors := ds'\<rparr>" by blast
  then have "valuesSay complete obj config c" using readFields_say [OF n] by (simp add: valuesSay_def)
  then show ?thesis using m e by (simp add: applied_def)
qed

text \<open>
  C19. A configuration document is applied completely or not at all.  If \<open>decode\<close> accepts it, the new configuration
  is the document's: every field has the value under its key, or the one before if the key is absent, which a
  complete document does not allow; every door has its row, and the doors beyond the rows are kept; every field is
  within its bounds, every text proper and of admissible length, every active door has usable pins and a number
  that is not the unknown one, and a complete document leaves a provisioned box.  If \<open>decode\<close> rejects it, the active
  configuration is unchanged.
\<close>

theorem decode_all_or_nothing:
  assumes "configOk pins config"
  shows "case decode pins complete root (config, err) of (okay, c, e) \<Rightarrow>
    if okay then configOk pins c \<and> (complete \<longrightarrow> provisioned c) \<and> (\<exists>obj. root = Some obj \<and> applied complete obj config c)
    else c = config"
proof -
  obtain okay c e where d: "decode pins complete root (config, err) = (okay, c, e)" by (metis prod.exhaust)
  have "\<exists>obj. root = Some obj \<and> applied complete obj config c" if "okay"
    using that d decode_applies [OF assms] by (cases root) (auto simp: decode_def)
  then show ?thesis using decode_all_valid [OF assms, of complete root err] d by auto
qed

end
