(* ===== verification/Box_Store.thy ===== *)
theory Box_Store
  imports Box_Config
begin

text \<open>
  The configuration on flash, \<open>src/src/box_config_store.cpp\<close>: mounting LittleFS without erasing anything, loading
  the configuration and taking over a downloaded one.  LittleFS, the flash partition and the JSON parser are not
  part of the repository: the files are a map from paths to contents, the parser is a parameter that gives the
  object \<open>sandbox\<close> of a document, and whether a mount, an open or a rename succeeds is an argument.
\<close>

section \<open>The code\<close>

definition Path :: string where "Path = ''/box_config.json''"
definition PendingPath :: string where "PendingPath = ''/box_config.pending''"
definition MaxBytes :: nat where "MaxBytes = 32768"

type_synonym Files = "string \<Rightarrow> bytes option"

text \<open>The document of some bytes: no JSON, or the object \<open>sandbox\<close> if there is one.\<close>

type_synonym Parser = "bytes \<Rightarrow> ConfigObject option option"

record ConfigStore =
  mounted :: bool
  files :: Files

text \<open>The flash partition: its bytes, and the offsets at which a read fails.\<close>

record Partition =
  flash :: bytes
  readFails :: "nat \<Rightarrow> bool"

function blank_loop :: "Partition \<Rightarrow> nat \<Rightarrow> bool" where
  "blank_loop p offset =
     (if offset < length (flash p) then
        let n = min 256 (length (flash p) - offset)
        in if readFails p offset then False
           else if list_ex (\<lambda>b. b \<noteq> 0xff) (take n (drop offset (flash p))) then False
           else blank_loop p (offset + 256)
      else True)"
  by auto
termination by (relation "measure (\<lambda>(p, offset). length (flash p) - offset)") auto

declare blank_loop.simps [simp del]

definition partitionIsBlank :: "Partition option \<Rightarrow> bool" where
  "partitionIsBlank part = (case part of None \<Rightarrow> False | Some p \<Rightarrow> blank_loop p 0)"

text \<open>\<open>mounts\<close> is the result of mounting without formatting, \<open>formats\<close> of formatting; formatting leaves no file.\<close>

definition begin_config :: "bool \<Rightarrow> bool \<Rightarrow> Partition option \<Rightarrow> ConfigStore \<Rightarrow> bool \<times> ConfigStore" where
  "begin_config mounts formats part s =
     (let s = s\<lparr>mounted := mounts\<rparr>;
          s = (if \<not> mounted s \<and> partitionIsBlank part then s\<lparr>mounted := formats, files := Map.empty\<rparr> else s)
      in (mounted s, s))"

definition load_config :: "GpioPins \<Rightarrow> Parser \<Rightarrow> bool \<Rightarrow> ConfigStore \<Rightarrow> BoxConfig \<times> string \<Rightarrow> bool \<times> BoxConfig \<times> string" where
  "load_config pins parse opens s = (\<lambda>(config, error).
     if \<not> mounted s then (False, config, ''LittleFS unavailable'')
     else case files s Path of
         None \<Rightarrow> (True, config, error)
       | Some content \<Rightarrow>
           if \<not> opens \<or> length content = 0 \<or> length content > MaxBytes
           then (False, config, ''Invalid configuration size'')
           else case parse content of
               None \<Rightarrow> (False, config, ''Invalid configuration JSON'')
             | Some root \<Rightarrow> decode pins False root (config, error))"

text \<open>\<open>initial\<close> is what the constructor of \<open>BoxConfig\<close> makes.\<close>

definition commitDownloaded :: "GpioPins \<Rightarrow> Parser \<Rightarrow> BoxConfig \<Rightarrow> bool \<Rightarrow> bool \<Rightarrow> ConfigStore \<Rightarrow> string
    \<Rightarrow> bool \<times> ConfigStore \<times> string" where
  "commitDownloaded pins parse initial opens renames s error =
     (if \<not> mounted s then (False, s, ''LittleFS unavailable'')
      else case (if opens then files s PendingPath else None) of
          None \<Rightarrow> (False, s, ''Invalid download size'')
        | Some content \<Rightarrow>
            if length content = 0 \<or> length content > MaxBytes then (False, s, ''Invalid download size'')
            else case parse content of
                None \<Rightarrow> (False, s, ''Invalid downloaded JSON'')
              | Some root \<Rightarrow>
                  (case decode pins True root (initial, error) of
                     (okay, candidate, error) \<Rightarrow>
                       if \<not> okay then (False, s, error)
                       else if \<not> renames then (False, s, ''Configuration rename failed'')
                       else (True, s\<lparr>files := (files s)(Path := Some content, PendingPath := None)\<rparr>, error)))"

section \<open>Mounting\<close>

lemma blank_loop_spec: "blank_loop p offset \<Longrightarrow> drop offset (flash p) = replicate (length (flash p) - offset) 0xff"
proof (induction p offset rule: blank_loop.induct)
  case (1 p offset)
  show ?case
  proof (cases "offset < length (flash p)")
    case False
    then show ?thesis by simp
  next
    case True
    let ?n = "min 256 (length (flash p) - offset)"
    have step: "\<not> list_ex (\<lambda>b. b \<noteq> 0xff) (take ?n (drop offset (flash p)))" "\<not> readFails p offset" "blank_loop p (offset + 256)"
      using 1(2) True by (subst (asm) blank_loop.simps, auto simp: Let_def split: if_splits)+
    have head: "take ?n (drop offset (flash p)) = replicate ?n 0xff"
      using step(1) by (intro replicate_eqI) (auto simp: list_ex_iff)
    have rest: "drop (offset + 256) (flash p) = replicate (length (flash p) - (offset + 256)) 0xff"
      using 1(1) True step by (simp add: Let_def)
    have "drop offset (flash p) = take ?n (drop offset (flash p)) @ drop ?n (drop offset (flash p))"
      by (rule append_take_drop_id [symmetric])
    also have "drop ?n (drop offset (flash p)) = drop (offset + 256) (flash p)"
      using True by (cases "256 \<le> length (flash p) - offset") (simp_all add: add.commute)
    finally show ?thesis
      unfolding head rest using True by (cases "256 \<le> length (flash p) - offset") (simp_all flip: replicate_add)
  qed
qed

text \<open>
  Mounting never erases anything: the files of the box change only if the file system could not be mounted
  and its partition was found and is erased flash in every byte.
\<close>

theorem begin_erases_nothing:
  assumes "begin_config mounts formats part s = (okay, s')" "files s' \<noteq> files s"
  shows "\<not> mounts \<and> (\<exists>p. part = Some p \<and> flash p = replicate (length (flash p)) 0xff)"
proof -
  have "\<not> mounts" "partitionIsBlank part"
    using assms by (auto simp: begin_config_def Let_def split: if_splits)
  then show ?thesis using blank_loop_spec [of _ 0] by (auto simp: partitionIsBlank_def split: option.splits)
qed

section \<open>A committed configuration\<close>

text \<open>A complete document does not depend on the configuration it is applied to, nor on being required complete.\<close>

lemma textField_complete: "textField True obj k n e t = Inr v \<Longrightarrow> \<forall>b t'. textField b obj k n e t' = Inr v"
  by (simp add: textField_def split: if_splits)

lemma numberField_complete: "numberField True obj k lo hi t = Inr v \<Longrightarrow> \<forall>b t'. numberField b obj k lo hi t' = Inr v"
  by (simp add: numberField_def split: if_splits)

lemma booleanField_complete: "booleanField True obj k t = Inr v \<Longrightarrow> \<forall>b t'. booleanField b obj k t' = Inr v"
  by (auto simp: booleanField_def map_sum_def dest: numberField_complete split: if_splits option.splits sum.splits)

lemma readFields_complete:
  assumes "readFields (configFields True obj) c = Inr n"
  shows "\<exists>n'. readFields (configFields b obj) c' = Inr n' \<and> n'\<lparr>doors := doors n\<rparr> = n"
  using assms unfolding configFields_def
  by (auto simp del: readFields.simps(2) simp: readFields_Cons assign_Inr
      dest!: textField_complete numberField_complete booleanField_complete)

lemma readDoors_Inr:
  assumes "map (readDoor pins) rows = map Inr ns" "i + length rows \<le> length ds"
  shows "readDoors pins rows i ds = Inr (take i ds @ ns @ drop (i + length rows) ds)"
  using assms
proof (induction rows arbitrary: i ds ns)
  case Nil
  then show ?case by simp
next
  case (Cons row rows)
  then obtain d ns' where ns: "ns = d # ns'" "readDoor pins row = Inr d" "map (readDoor pins) rows = map Inr ns'"
    by (cases ns) auto
  have "readDoors pins rows (i + 1) (ds[i := d])
      = Inr (take (i + 1) (ds[i := d]) @ ns' @ drop (i + 1 + length rows) (ds[i := d]))"
    by (rule Cons.IH [OF ns(3)]) (use Cons.prems(2) in simp)
  moreover have "take (i + 1) (ds[i := d]) = take i ds @ [d]" using Cons.prems(2) by (simp add: take_Suc_conv_app_nth)
  ultimately show ?case using ns by simp
qed

lemma doors_replaced:
  assumes "n' \<lparr>doors := doors n\<rparr> = n"
  shows "n'\<lparr>doors := ds\<rparr> = n\<lparr>doors := ds\<rparr>" "doorCount n' = doorCount n" "ambientPinNumber n' = ambientPinNumber n"
    "provisioned n' = provisioned n"
  by (subst assms [symmetric], simp)+

lemma decode_complete:
  assumes full: "decode pins True root (c1, e1) = (True, d1, f1)" and ok: "configOk pins c1" "configOk pins c2"
  shows "\<exists>d2. decode pins b root (c2, e2) = (True, d2, e2) \<and> d2\<lparr>doors := doors d1\<rparr> = d1 \<and>
    take (unat (doorCount d1)) (doors d2) = take (unat (doorCount d1)) (doors d1)"
proof -
  from full obtain obj where obj: "root = Some obj" "checkConfig pins True obj c1 = Inr d1"
    by (auto simp: decode_def split: option.splits sum.splits)
  from obj(2) obtain n1 where n1: "readFields (configFields True obj) c1 = Inr n1"
    and pin: "ambientPinNumber n1 = INVALID_PIN \<or> validOutputGpio pins (ambientPinNumber n1)"
    and maps: "readMappings pins True obj (doorCount c1) n1 = Inr d1" and prov: "provisioned d1"
    by (auto simp: checkConfig_def split: sum.splits if_splits)
  obtain n2 where n2: "readFields (configFields b obj) c2 = Inr n2" and same: "n2\<lparr>doors := doors n1\<rparr> = n1"
    using readFields_complete [OF n1] by blast
  have ds1: "doors n1 = doors c1" using readFields_keeps [OF configFields_doors _ n1] by blast
  have ds2: "doors n2 = doors c2" using readFields_keeps [OF configFields_doors _ n2] by blast
  have "fieldsOk n1" using readFields_keeps [OF configFields_ok _ n1] ok(1) by (simp add: configOk_def)
  then have le: "unat (doorCount n1) \<le> DOOR_COUNT" by (simp add: fieldsOk_def)
  have len: "length (doors c1) = DOOR_COUNT" "length (doors c2) = DOOR_COUNT" using ok by (simp_all add: configOk_def)
  from maps obtain rows ds where bound: "\<not> isUnbound (obj ''INITIAL_DOOR_MAPPING'')"
    and rows: "asRows (obj ''INITIAL_DOOR_MAPPING'') = Some rows" "length rows = unat (doorCount n1)"
      "readDoors pins rows 0 (doors n1) = Inr ds" and d1: "d1 = n1\<lparr>doors := ds\<rparr>"
    by (auto simp: readMappings_def map_sum_def split: if_splits option.splits sum.splits)
  have "0 + length rows \<le> length (doors n1)" using rows(2) le len ds1 by simp
  then obtain ns where ns: "map (readDoor pins) rows = map Inr ns" "ds = ns @ drop (length rows) (doors n1)"
    using readDoors_spec [OF rows(3)] by auto
  have nslen: "length ns = unat (doorCount n1)" using arg_cong [OF ns(1), of length] rows(2) by simp
  have "0 + length rows \<le> length (doors n2)" using rows(2) le len ds2 by simp
  from readDoors_Inr [OF ns(1) this] have rd: "readDoors pins rows 0 (doors n2) = Inr (ns @ drop (length rows) (doors n2))"
    by simp
  let ?d2 = "n2\<lparr>doors := ns @ drop (length rows) (doors n2)\<rparr>"
  have "readMappings pins b obj (doorCount c2) n2 = Inr ?d2"
    using bound rows rd doors_replaced(2) [OF same] by (simp add: readMappings_def)
  then have "checkConfig pins b obj c2 = Inr ?d2"
    using n2 pin doors_replaced(3,4) [OF same] prov d1 by (auto simp: checkConfig_def)
  then have "decode pins b root (c2, e2) = (True, ?d2, e2)" using obj(1) by (simp add: decode_def)
  moreover have "?d2\<lparr>doors := doors d1\<rparr> = d1" using d1 doors_replaced(1) [OF same, of ds] by simp
  moreover have "take (unat (doorCount d1)) (doors ?d2) = take (unat (doorCount d1)) (doors d1)"
    using d1 ns(2) nslen by simp
  ultimately show ?thesis by blast
qed

text \<open>
  C20. A download becomes the configuration only if the box can start with it: \<open>commitDownloaded\<close> either leaves
  every file as it was, or it has checked the pending document as a complete configuration, and then \<open>load\<close> at the
  next start accepts the file, whatever the built-in configuration is, and yields exactly the checked values and
  doors, all valid, on a provisioned box.
\<close>

theorem committed_config_loads:
  assumes "commitDownloaded pins parse initial opens renames s err = (okay, s', err')"
    and "configOk pins initial" "configOk pins builtin"
  shows "if okay then \<exists>content c c'. files s PendingPath = Some content \<and> files s' = (files s)(Path := Some content, PendingPath := None) \<and>
      load_config pins parse True s' (builtin, e) = (True, c', e) \<and> configOk pins c' \<and> provisioned c' \<and>
      (\<exists>root. parse content = Some root \<and> decode pins True root (initial, err) = (True, c, err')) \<and>
      c'\<lparr>doors := doors c\<rparr> = c \<and> take (unat (doorCount c)) (doors c') = take (unat (doorCount c)) (doors c)
    else s' = s"
proof (cases okay)
  case False
  then show ?thesis
    using assms(1) by (auto simp: commitDownloaded_def split: if_splits option.splits prod.splits)
next
  case True
  with assms(1) obtain content root c where content: "files s PendingPath = Some content" "length content \<noteq> 0"
    "length content \<le> MaxBytes" "parse content = Some root" and dec: "decode pins True root (initial, err) = (True, c, err')"
    and s': "s' = s\<lparr>files := (files s)(Path := Some content, PendingPath := None)\<rparr>" and m: "mounted s"
    by (auto simp: commitDownloaded_def split: if_splits option.splits prod.splits)
  obtain c' where c': "decode pins False root (builtin, e) = (True, c', e)" "c'\<lparr>doors := doors c\<rparr> = c"
    "take (unat (doorCount c)) (doors c') = take (unat (doorCount c)) (doors c)"
    using decode_complete [OF dec assms(2,3)] by blast
  have paths: "Path \<noteq> PendingPath" by (simp add: Path_def PendingPath_def)
  have load: "load_config pins parse True s' (builtin, e) = (True, c', e)"
    using content m c'(1) paths by (simp add: load_config_def s')
  have "configOk pins c'" using decode_all_valid [OF assms(3), of False root e] c'(1) by simp
  moreover have "provisioned c'" using decode_all_valid [OF assms(2), of True root err] dec doors_replaced(4) [OF c'(2)] by simp
  ultimately show ?thesis using True content dec s' load c'(2,3) by auto
qed

end
