(* ===== verification/Provisioning.thy ===== *)
theory Provisioning
  imports Box_Store
begin

text \<open>
  The QR code that provisions a box, \<open>src/src/provisioning_payload.cpp\<close>, and the address the configuration is
  downloaded from, \<open>downloadUrl\<close> of \<open>src/src/provisioning.cpp\<close>.  The parser of the JSON document and SHA-256 are
  not part of the repository and are parameters.
\<close>

section \<open>The code\<close>

record ProvisioningPayload =
  payloadId :: string
  payloadName :: string
  ssid :: string
  passphrase :: string
  host :: string
  nonce :: string
  port :: u16

text \<open>The document: the strings of its members with their embedded NUL characters, and the unsigned number \<open>PORT\<close>.\<close>

record PayloadDocument =
  stringOf :: "string \<Rightarrow> string option"
  portOf :: "nat option"

definition readText :: "PayloadDocument \<Rightarrow> string \<Rightarrow> nat \<Rightarrow> bool \<Rightarrow> string option" where
  "readText doc key maximum allowEmpty =
     (case stringOf doc key of
        None \<Rightarrow> None
      | Some str \<Rightarrow>
          if (\<not> allowEmpty \<and> length str = 0) \<or> length str > maximum \<or> length (cstr str) \<noteq> length str then None
          else Some (cstr str))"

definition hostChar :: "char \<Rightarrow> bool" where
  "hostChar c \<longleftrightarrow> (let n = of_char c :: nat in (97 \<le> n \<and> n \<le> 122) \<or> (65 \<le> n \<and> n \<le> 90) \<or> (48 \<le> n \<and> n \<le> 57)) \<or> c = CHR ''-''"

text \<open>The loop over the host: the character before, and the length of the label so far; at the end that length.\<close>

fun host_loop :: "char \<Rightarrow> nat \<Rightarrow> string \<Rightarrow> nat option" where
  "host_loop before labelLength [] = Some labelLength"
| "host_loop before labelLength (c # cs) =
     (if c = CHR ''.'' then
        (if labelLength = 0 \<or> before = CHR ''-'' then None else host_loop c 0 cs)
      else if \<not> hostChar c then None
      else if (labelLength = 0 \<and> c = CHR ''-'') \<or> labelLength + 1 > 63 then None
      else host_loop c (labelLength + 1) cs)"

definition validHost :: "string \<Rightarrow> bool" where
  "validHost s = (case host_loop NUL 0 s of None \<Rightarrow> False | Some n \<Rightarrow> \<not> (n = 0 \<or> s ! (length s - 1) = CHR ''-''))"

text \<open>\<open>json\<close> is the document, if the bytes are a JSON object without nesting beyond the limit.\<close>

definition parsePayload :: "(bytes \<Rightarrow> PayloadDocument option) \<Rightarrow> bytes \<Rightarrow> ProvisioningPayload option" where
  "parsePayload json d =
     (if length d = 0 \<or> length d > 1024 then None
      else case json d of
          None \<Rightarrow> None
        | Some doc \<Rightarrow>
            (case (readText doc ''ID'' 128 False, readText doc ''NAME'' 63 False, readText doc ''W_SSID'' 32 False,
                readText doc ''W_PASS'' 63 True, readText doc ''SRV'' 253 False, readText doc ''NONCE'' 128 False, portOf doc) of
               (Some i, Some n, Some w, Some p, Some h, Some k, Some prt) \<Rightarrow>
                 if prt = 0 \<or> prt > 65535 then None
                 else if \<not> validHost h then None
                 else if CHR ''|'' \<in> set i \<or> CHR ''|'' \<in> set n \<or> CHR ''|'' \<in> set k then None
                 else Some \<lparr>payloadId = i, payloadName = n, ssid = w, passphrase = p, host = h, nonce = k,
                   port = word_of_nat prt\<rparr>
             | _ \<Rightarrow> None))"

definition tokenInput :: "ProvisioningPayload \<Rightarrow> string" where
  "tokenInput p = nonce p @ ''|'' @ payloadId p @ ''|'' @ payloadName p"

definition hexDigitChar :: "nat \<Rightarrow> char" where
  "hexDigitChar n = (if n < 10 then char_of (48 + n) else char_of (87 + n))"

text \<open>\<open>sha256\<close> gives the digest, or nothing if it fails.\<close>

definition downloadUrl :: "(string \<Rightarrow> bytes option) \<Rightarrow> ProvisioningPayload \<Rightarrow> string" where
  "downloadUrl sha256 p = (case sha256 (tokenInput p) of
       None \<Rightarrow> ''''
     | Some digest \<Rightarrow> ''https://'' @ host p @ '':'' @ dec_digits (unat (port p)) @ ''/''
         @ concat (map (\<lambda>b. [hexDigitChar (unat b div 16), hexDigitChar (unat b mod 16)]) digest))"

section \<open>Host names\<close>

text \<open>Reference: the labels between the dots, each of 1 to 63 letters, digits and hyphens, none at its ends.\<close>

fun labels :: "string \<Rightarrow> string list" where
  "labels [] = [[]]"
| "labels (c # cs) = (if c = CHR ''.'' then [] # labels cs else (c # hd (labels cs)) # tl (labels cs))"

definition dnsLabel :: "string \<Rightarrow> bool" where
  "dnsLabel l \<longleftrightarrow> l \<noteq> [] \<and> length l \<le> 63 \<and> list_all hostChar l \<and> hd l \<noteq> CHR ''-'' \<and> last l \<noteq> CHR ''-''"

lemma labels_not_Nil [simp]: "labels s \<noteq> []"
  by (cases s) auto

lemma labels_append: "CHR ''.'' \<notin> set p \<Longrightarrow> labels (p @ s) = (p @ hd (labels s)) # tl (labels s)"
  by (induction p) auto

text \<open>The part of the current label that has been read.\<close>

definition labelPart :: "string \<Rightarrow> bool" where
  "labelPart p \<longleftrightarrow> length p \<le> 63 \<and> list_all hostChar p \<and> (p \<noteq> [] \<longrightarrow> hd p \<noteq> CHR ''-'')"

lemma hostChar_dot: "\<not> hostChar CHR ''.''"
  by (simp add: hostChar_def)

lemma labelPart_no_dot: "labelPart p \<Longrightarrow> CHR ''.'' \<notin> set p"
  using hostChar_dot by (auto simp: labelPart_def list_all_iff)

lemma host_loop_labels:
  assumes "labelPart p" "p \<noteq> [] \<Longrightarrow> before = last p"
  shows "(case host_loop before (length p) s of None \<Rightarrow> False
      | Some n \<Rightarrow> n \<noteq> 0 \<and> last (before # s) \<noteq> CHR ''-'') \<longleftrightarrow> list_all dnsLabel (labels (p @ s))"
  using assms
proof (induction s arbitrary: p before)
  case Nil
  then show ?case
    by (auto simp: labels_append [OF labelPart_no_dot, of _ "[]", simplified] labelPart_def dnsLabel_def)
next
  case (Cons c s)
  show ?case
  proof (cases "c = CHR ''.''")
    case True
    then have split: "labels (p @ c # s) = p # labels s"
      using labels_append [OF labelPart_no_dot [OF Cons.prems(1)], of "c # s"] by simp
    have ends: "last (before # c # s) = last (c # s)" by simp
    show ?thesis
    proof (cases "p = [] \<or> before = CHR ''-''")
      case True
      then have "\<not> dnsLabel p" using Cons.prems(2) by (auto simp: dnsLabel_def)
      then show ?thesis using True \<open>c = CHR ''.''\<close> unfolding split by simp
    next
      case False
      then have "dnsLabel p" using Cons.prems by (auto simp: dnsLabel_def labelPart_def)
      moreover have "labelPart []" by (simp add: labelPart_def)
      ultimately show ?thesis
        using False \<open>c = CHR ''.''\<close> Cons.IH [of "[]" c] unfolding split ends by simp
    qed
  next
    case dot: False
    have split: "labels (p @ c # s) = (p @ c # hd (labels s)) # tl (labels s)"
      using labels_append [OF labelPart_no_dot [OF Cons.prems(1)], of "c # s"] dot by simp
    show ?thesis
    proof (cases "\<not> hostChar c \<or> (p = [] \<and> c = CHR ''-'') \<or> length p + 1 > 63")
      case True
      then have "\<not> dnsLabel (p @ c # hd (labels s))" by (auto simp: dnsLabel_def)
      then show ?thesis using True dot unfolding split by auto
    next
      case False
      then have "labelPart (p @ [c])" using Cons.prems(1) by (auto simp: labelPart_def hd_append)
      then have step: "(case host_loop c (length (p @ [c])) s of None \<Rightarrow> False | Some n \<Rightarrow> n \<noteq> 0 \<and> last (c # s) \<noteq> CHR ''-'')
          \<longleftrightarrow> list_all dnsLabel (labels ((p @ [c]) @ s))" by (rule Cons.IH) simp
      have "host_loop before (length p) (c # s) = host_loop c (length (p @ [c])) s" using False dot by auto
      moreover have "last (before # c # s) = last (c # s)" by simp
      ultimately show ?thesis using step by (simp only: append_assoc append_Cons append_Nil)
    qed
  qed
qed

lemma validHost_iff: "validHost s \<longleftrightarrow> list_all dnsLabel (labels s)"
proof (cases s)
  case Nil
  then show ?thesis by (simp add: validHost_def dnsLabel_def)
next
  case (Cons c cs)
  then have "s ! (length s - 1) = last (NUL # s)" by (simp add: last_conv_nth)
  then show ?thesis
    using host_loop_labels [of "[]" NUL s] by (auto simp: validHost_def labelPart_def split: option.splits)
qed

section \<open>Accepted payloads\<close>

lemma readText_Some:
  "readText doc key n e = Some v \<longleftrightarrow> stringOf doc key = Some v \<and> NUL \<notin> set v \<and> length v \<le> n \<and> (e \<or> v \<noteq> [])"
proof -
  have "length (cstr s) = length s \<longleftrightarrow> NUL \<notin> set s" for s
    by (metis NUL_notin_cstr cstr_id cstr_def takeWhile_eq_take take_all_iff order_refl)
  then show ?thesis by (auto simp: readText_def cstr_id split: option.splits)
qed

text \<open>Between the separators, three parts without one are determined.\<close>

lemma split_at_bar:
  assumes "CHR ''|'' \<notin> set a" "CHR ''|'' \<notin> set b" "a @ ''|'' @ s = b @ ''|'' @ t"
  shows "a = b \<and> s = t"
  using assms
proof (induction a arbitrary: b)
  case Nil
  then show ?case by (cases b) auto
next
  case (Cons c a)
  then show ?case by (cases b) auto
qed

text \<open>
  Reference: the document says exactly \<open>p\<close>, and \<open>p\<close> is within the limits.  \<open>textOk\<close> is a text without NUL of at most
  the given length, empty only where that is allowed.
\<close>

definition describes :: "PayloadDocument \<Rightarrow> ProvisioningPayload \<Rightarrow> bool" where
  "describes doc p \<longleftrightarrow>
     stringOf doc ''ID'' = Some (payloadId p) \<and> textOk 128 False (payloadId p) \<and> CHR ''|'' \<notin> set (payloadId p) \<and>
     stringOf doc ''NAME'' = Some (payloadName p) \<and> textOk 63 False (payloadName p) \<and> CHR ''|'' \<notin> set (payloadName p) \<and>
     stringOf doc ''NONCE'' = Some (nonce p) \<and> textOk 128 False (nonce p) \<and> CHR ''|'' \<notin> set (nonce p) \<and>
     stringOf doc ''W_SSID'' = Some (ssid p) \<and> textOk 32 False (ssid p) \<and>
     stringOf doc ''W_PASS'' = Some (passphrase p) \<and> textOk 63 True (passphrase p) \<and>
     stringOf doc ''SRV'' = Some (host p) \<and> textOk 253 False (host p) \<and> list_all dnsLabel (labels (host p)) \<and>
     portOf doc = Some (unat (port p)) \<and> port p \<noteq> 0"

lemma readText_textOk: "readText doc key n e = Some v \<longleftrightarrow> stringOf doc key = Some v \<and> textOk n e v"
  by (auto simp: readText_Some textOk_def)

lemma port_word:
  assumes "0 < n" "n \<le> 65535"
  shows "unat (word_of_nat n :: u16) = n" and "(word_of_nat n :: u16) \<noteq> 0"
proof -
  show n: "unat (word_of_nat n :: u16) = n" using assms by (simp add: unat_of_nat)
  show "(word_of_nat n :: u16) \<noteq> 0" using n assms(1) by (metis unat_0 less_irrefl)
qed

lemma port_in_range: "(w :: u16) \<noteq> 0 \<Longrightarrow> unat w \<noteq> 0 \<and> \<not> 65535 < unat w \<and> word_of_nat (unat w) = w"
  using unsigned_less [of w, where ?'a = nat] by (simp add: unat_eq_zero)

lemma parsePayload_describes:
  "parsePayload json d = Some p \<Longrightarrow> d \<noteq> [] \<and> length d \<le> 1024 \<and> (\<exists>doc. json d = Some doc \<and> describes doc p)"
  by (auto simp: parsePayload_def describes_def readText_textOk validHost_iff port_word split: option.splits if_splits)

lemma describes_parsePayload:
  assumes "d \<noteq> []" "length d \<le> 1024" "json d = Some doc" "describes doc p"
  shows "parsePayload json d = Some p"
proof -
  have "readText doc ''ID'' 128 False = Some (payloadId p)" "readText doc ''NAME'' 63 False = Some (payloadName p)"
    "readText doc ''W_SSID'' 32 False = Some (ssid p)" "readText doc ''W_PASS'' 63 True = Some (passphrase p)"
    "readText doc ''SRV'' 253 False = Some (host p)" "readText doc ''NONCE'' 128 False = Some (nonce p)"
    using assms(4) by (simp_all add: readText_textOk describes_def)
  then show ?thesis
    using assms port_in_range [of "port p"] by (simp add: parsePayload_def describes_def validHost_iff)
qed

text \<open>
  C31. A provisioning code is accepted exactly when it is a document of at most 1024 bytes that describes the
  payload: every member is there with the text it is read into, within its limit, the port is between 1 and 65535,
  and the host is a DNS name, checked in one pass exactly as its labels demand (each of 1 to 63 letters, digits and
  hyphens, no hyphen at an end).  And two accepted codes with the same input of the download token have the same
  nonce, identifier and name.
\<close>

theorem accepted_payload_unambiguous:
  "(parsePayload json d = Some p \<longleftrightarrow> d \<noteq> [] \<and> length d \<le> 1024 \<and> (\<exists>doc. json d = Some doc \<and> describes doc p)) \<and>
   (parsePayload json d = Some p \<and> parsePayload json' d' = Some p' \<longrightarrow>
     (tokenInput p = tokenInput p') = (nonce p = nonce p' \<and> payloadId p = payloadId p' \<and> payloadName p = payloadName p'))"
proof (intro conjI impI)
  show "parsePayload json d = Some p \<longleftrightarrow> d \<noteq> [] \<and> length d \<le> 1024 \<and> (\<exists>doc. json d = Some doc \<and> describes doc p)"
    using parsePayload_describes describes_parsePayload by blast
next
  assume both: "parsePayload json d = Some p \<and> parsePayload json' d' = Some p'"
  have bars: "CHR ''|'' \<notin> set (nonce q) \<and> CHR ''|'' \<notin> set (payloadId q)" if "parsePayload json d = Some q" for json d q
    using parsePayload_describes [OF that] by (auto simp: describes_def)
  have "tokenInput p = tokenInput p' \<Longrightarrow> nonce p = nonce p' \<and> payloadId p = payloadId p' \<and> payloadName p = payloadName p'"
    using bars [OF conjunct1 [OF both]] bars [OF conjunct2 [OF both]] split_at_bar unfolding tokenInput_def by metis
  then show "(tokenInput p = tokenInput p') = (nonce p = nonce p' \<and> payloadId p = payloadId p' \<and> payloadName p = payloadName p')"
    by (auto simp: tokenInput_def)
qed

end
