(* ===== verification/Box_Rtc.thy ===== *)
theory Box_Rtc
  imports Prelude
begin

text \<open>
  The real-time clock, \<open>src/include/box_rtc.h\<close> and \<open>src/src/box_rtc.cpp\<close>: BCD registers of a DS3231 over I2C, the
  oscillator-stop flag, and when clock and system time are trusted.  The I2C device and the calendar of RTClib are
  not part of the repository: the device is an interface, a \<open>DateTime\<close> its fields, and the conversions from and to
  Unix time and the day of the week are parameters.
\<close>

section \<open>The code\<close>

definition DS3231_TIME_REGISTER :: u8 where "DS3231_TIME_REGISTER = 0"
definition DS3231_STATUS_REGISTER :: u8 where "DS3231_STATUS_REGISTER = 0x0F"
definition DS3231_OSCILLATOR_STOP_FLAG :: u8 where "DS3231_OSCILLATOR_STOP_FLAG = 0x80"

definition RTC_MIN_VALID_UNIX_TIME :: int where "RTC_MIN_VALID_UNIX_TIME = 1704067200"

text \<open>\<open>DateTime\<close> keeps the years since 2000 in a byte.\<close>

record DateTime =
  yearOffset :: u8
  month :: u8
  day :: u8
  hour :: u8
  minute :: u8
  second :: u8

text \<open>\<open>i2cWrite\<close> writes a register number and the bytes from it on; a failed read gives nothing.\<close>

record 'i RtcWorld =
  i2cBegin :: "u8 \<Rightarrow> 'i \<Rightarrow> bool \<times> 'i"
  i2cWrite :: "u8 \<Rightarrow> bytes \<Rightarrow> 'i \<Rightarrow> bool \<times> 'i"
  i2cRead :: "u8 \<Rightarrow> nat \<Rightarrow> 'i \<Rightarrow> bytes option \<times> 'i"
  unixtime :: "DateTime \<Rightarrow> int"
  fromUnixtime :: "u32 \<Rightarrow> DateTime"
  dowToDS3231 :: "DateTime \<Rightarrow> u8"
  settimeofday :: "int \<Rightarrow> 'i \<Rightarrow> bool \<times> 'i"
  timeNow :: "'i \<Rightarrow> int"
  millisNow :: "'i \<Rightarrow> u32"

record BoxRtc =
  rtcI2cAddress :: u8
  rtcDevice :: bool
  available :: bool
  validRtcTime :: bool
  lostPowerFlag :: bool
  ntpConfigured :: bool
  ntpSyncPending :: bool
  configuredSyncIntervalMs :: u32
  lastRtcSyncMillis :: u32

definition bcdToBin :: "u8 \<Rightarrow> u8" where "bcdToBin v = v - 6 * drop_bit 4 v"
definition binToBcd :: "u8 \<Rightarrow> u8" where "binToBcd v = v + 6 * (v div 10)"

text \<open>The buffer after a read: a failed one leaves it as it was.\<close>

definition readRegisters :: "'i RtcWorld \<Rightarrow> u8 \<Rightarrow> bytes \<Rightarrow> BoxRtc \<times> 'i \<Rightarrow> bool \<times> bytes \<times> 'i" where
  "readRegisters W reg buffer = (\<lambda>(r, i).
     if \<not> rtcDevice r \<or> length buffer = 0 then (False, buffer, i)
     else case i2cRead W reg (length buffer) i of
         (None, i) \<Rightarrow> (False, buffer, i)
       | (Some b, i) \<Rightarrow> (True, b, i))"

definition readRegister :: "'i RtcWorld \<Rightarrow> u8 \<Rightarrow> BoxRtc \<times> 'i \<Rightarrow> u8 \<times> 'i" where
  "readRegister W reg = (\<lambda>(r, i). case readRegisters W reg [0] (r, i) of (okay, b, i) \<Rightarrow> (hd b, i))"

definition writeRegister :: "'i RtcWorld \<Rightarrow> u8 \<Rightarrow> u8 \<Rightarrow> BoxRtc \<times> 'i \<Rightarrow> 'i" where
  "writeRegister W reg v = (\<lambda>(r, i). if \<not> rtcDevice r then i else snd (i2cWrite W reg [v] i))"

definition isEpochValid :: "'i RtcWorld \<Rightarrow> int \<Rightarrow> bool" where
  "isEpochValid W epoch \<longleftrightarrow> epoch \<ge> RTC_MIN_VALID_UNIX_TIME"

definition adjust :: "'i RtcWorld \<Rightarrow> DateTime \<Rightarrow> BoxRtc \<times> 'i \<Rightarrow> BoxRtc \<times> 'i" where
  "adjust W dt = (\<lambda>(r, i).
     if \<not> available r \<or> \<not> rtcDevice r then (r, i)
     else
       let buffer = [binToBcd (second dt), binToBcd (minute dt), binToBcd (hour dt), binToBcd (dowToDS3231 W dt),
             binToBcd (day dt), binToBcd (month dt), binToBcd (yearOffset dt)];
           i = snd (i2cWrite W DS3231_TIME_REGISTER buffer i);
           (status, i) = readRegister W DS3231_STATUS_REGISTER (r, i);
           i = writeRegister W DS3231_STATUS_REGISTER (status AND NOT DS3231_OSCILLATOR_STOP_FLAG) (r, i)
       in (r\<lparr>lostPowerFlag := False\<rparr>, i))"

definition lostPower :: "'i RtcWorld \<Rightarrow> BoxRtc \<times> 'i \<Rightarrow> bool \<times> 'i" where
  "lostPower W = (\<lambda>(r, i).
     if \<not> available r \<or> \<not> rtcDevice r then (True, i)
     else case readRegister W DS3231_STATUS_REGISTER (r, i) of
         (status, i) \<Rightarrow> (status AND DS3231_OSCILLATOR_STOP_FLAG \<noteq> 0, i))"

definition rtc_now :: "'i RtcWorld \<Rightarrow> BoxRtc \<times> 'i \<Rightarrow> DateTime \<times> 'i" where
  "rtc_now W = (\<lambda>(r, i).
     case readRegisters W DS3231_TIME_REGISTER (replicate 7 0) (r, i) of
       (okay, b, i) \<Rightarrow>
         (if \<not> okay then \<lparr>yearOffset = 0, month = 1, day = 1, hour = 0, minute = 0, second = 0\<rparr>
          else \<lparr>yearOffset = bcdToBin (b ! 6), month = bcdToBin (b ! 5 AND 0x7F), day = bcdToBin (b ! 4),
            hour = bcdToBin (b ! 2), minute = bcdToBin (b ! 1), second = bcdToBin (b ! 0 AND 0x7F)\<rparr>, i))"

text \<open>\<open>wire\<close>: whether there is an I2C bus object.\<close>

definition begin_rtc :: "'i RtcWorld \<Rightarrow> u8 \<Rightarrow> bool \<Rightarrow> BoxRtc \<times> 'i \<Rightarrow> bool \<times> BoxRtc \<times> 'i" where
  "begin_rtc W i2cAddress wire = (\<lambda>(r, i).
     let r = r\<lparr>available := False, validRtcTime := False, lostPowerFlag := False, rtcI2cAddress := i2cAddress\<rparr>
     in if \<not> wire \<or> rtcI2cAddress r > 0x7F then (False, r, i)
        else case i2cBegin W i2cAddress i of
            (okay, i) \<Rightarrow>
              if \<not> okay then (False, r, i)
              else
                let r = r\<lparr>rtcDevice := True, available := True\<rparr>;
                    (lost, i) = lostPower W (r, i); r = r\<lparr>lostPowerFlag := lost\<rparr>; (now, i) = rtc_now W (r, i)
                in (True, r\<lparr>validRtcTime := (\<not> lost \<and> isEpochValid W (unixtime W now))\<rparr>, i))"

definition setSystemClock :: "'i RtcWorld \<Rightarrow> int \<Rightarrow> 'i \<Rightarrow> bool \<times> 'i" where
  "setSystemClock W epoch i = (if \<not> isEpochValid W epoch then (False, i) else settimeofday W epoch i)"

definition setSystemTimeFromRtc :: "'i RtcWorld \<Rightarrow> BoxRtc \<times> 'i \<Rightarrow> bool \<times> BoxRtc \<times> 'i" where
  "setSystemTimeFromRtc W = (\<lambda>(r, i).
     if \<not> available r then (False, r, i)
     else
       let (lost, i) = lostPower W (r, i); r = r\<lparr>lostPowerFlag := lost\<rparr>; (now, i) = rtc_now W (r, i);
           epoch = unixtime W now
       in if \<not> isEpochValid W epoch then (False, r\<lparr>validRtcTime := False\<rparr>, i)
          else case setSystemClock W epoch i of
              (okay, i) \<Rightarrow> if \<not> okay then (False, r, i) else (True, r\<lparr>validRtcTime := \<not> lost\<rparr>, i))"

definition writeRtc :: "'i RtcWorld \<Rightarrow> int \<Rightarrow> BoxRtc \<times> 'i \<Rightarrow> bool \<times> BoxRtc \<times> 'i" where
  "writeRtc W epoch = (\<lambda>(r, i).
     if \<not> available r \<or> \<not> isEpochValid W epoch then (False, r, i)
     else case adjust W (fromUnixtime W (word_of_int epoch)) (r, i) of (r, i) \<Rightarrow> (True, r\<lparr>validRtcTime := True\<rparr>, i))"

definition syncRtcFromSystemTime :: "'i RtcWorld \<Rightarrow> BoxRtc \<times> 'i \<Rightarrow> bool \<times> BoxRtc \<times> 'i" where
  "syncRtcFromSystemTime W = (\<lambda>(r, i). writeRtc W (timeNow W i) (r, i))"

definition configureNtp :: "string option \<Rightarrow> u32 \<Rightarrow> BoxRtc \<Rightarrow> bool \<times> BoxRtc" where
  "configureNtp server syncIntervalMs r =
     (if server = None \<or> server = Some [] then (False, r)
      else (True, r\<lparr>configuredSyncIntervalMs := syncIntervalMs, ntpConfigured := True\<rparr>))"

definition onTimeSync :: "BoxRtc \<Rightarrow> BoxRtc" where
  "onTimeSync r = r\<lparr>ntpSyncPending := True\<rparr>"

definition update_rtc :: "'i RtcWorld \<Rightarrow> u32 \<Rightarrow> BoxRtc \<times> 'i \<Rightarrow> bool \<times> BoxRtc \<times> 'i" where
  "update_rtc W currentMillis = (\<lambda>(r, i).
     if \<not> ntpConfigured r \<or> \<not> ntpSyncPending r then (False, r, i)
     else
       let r = r\<lparr>ntpSyncPending := False\<rparr>; now = timeNow W i
       in if \<not> isEpochValid W now then (False, r, i)
          else case writeRtc W now (r, i) of
              (okay, r, i) \<Rightarrow>
                (True, if okay then r\<lparr>lastRtcSyncMillis := (if currentMillis = 0 then millisNow W i else currentMillis)\<rparr>
                   else r, i))"

section \<open>Binary coded decimals\<close>

lemma bcd_all: "list_all (\<lambda>v. bcdToBin (binToBcd v) = v \<and> (v < 80 \<longrightarrow> binToBcd v AND 0x7F = binToBcd v))
    (map word_of_nat [0..<100])"
  by code_simp

lemma bcd_roundtrip:
  assumes "v < 100"
  shows "bcdToBin (binToBcd v) = v" "v < 80 \<Longrightarrow> bcdToBin (binToBcd v AND 0x7F) = v"
proof -
  have "unat v < 100" using assms by (simp add: word_less_nat_alt)
  moreover have "v = word_of_nat (unat v)" by simp
  ultimately have "v \<in> set (map word_of_nat [0..<100])" unfolding set_map by (intro image_eqI) auto
  then have "bcdToBin (binToBcd v) = v \<and> (v < 80 \<longrightarrow> binToBcd v AND 0x7F = binToBcd v)"
    using bcd_all unfolding list_all_iff by blast
  then show "bcdToBin (binToBcd v) = v" "v < 80 \<Longrightarrow> bcdToBin (binToBcd v AND 0x7F) = v" by simp_all
qed

section \<open>A working clock\<close>

text \<open>
  The registers of a chip on a working bus, as its data sheet describes them: a write goes to a register and the
  ones after it, a read gives them and changes nothing.
\<close>

definition register_chip :: "'i RtcWorld \<Rightarrow> ('i \<Rightarrow> nat \<Rightarrow> u8) \<Rightarrow> bool" where
  "register_chip W regs \<longleftrightarrow>
     (\<forall>reg vs i k. fst (i2cWrite W reg vs i) \<and> regs (snd (i2cWrite W reg vs i)) k
        = (if unat reg \<le> k \<and> k < unat reg + length vs then vs ! (k - unat reg) else regs i k)) \<and>
     (\<forall>reg n i. fst (i2cRead W reg n i) = Some (map (\<lambda>k. regs i (unat reg + k)) [0..<n])
        \<and> regs (snd (i2cRead W reg n i)) = regs i)"

lemma chip_write:
  "register_chip W regs \<Longrightarrow> regs (snd (i2cWrite W reg vs i)) =
     (\<lambda>k. if unat reg \<le> k \<and> k < unat reg + length vs then vs ! (k - unat reg) else regs i k)"
  by (rule ext) (simp add: register_chip_def)

lemma chip_read:
  assumes "register_chip W regs"
  shows "i2cRead W reg n i = (Some (map (\<lambda>k. regs i (unat reg + k)) [0..<n]), snd (i2cRead W reg n i))"
    and "regs (snd (i2cRead W reg n i)) = regs i"
  using assms unfolding register_chip_def by (metis prod.collapse, metis)

lemma chip_register:
  assumes "register_chip W regs" "rtcDevice r"
  shows "\<exists>i'. readRegister W reg (r, i) = (regs i (unat reg), i') \<and> regs i' = regs i"
  using chip_read [OF assms(1), of reg 1 i] assms(2)
  by (auto simp: readRegister_def readRegisters_def split: prod.split)

definition dateOk :: "DateTime \<Rightarrow> bool" where
  "dateOk dt \<longleftrightarrow> yearOffset dt < 100 \<and> month dt < 80 \<and> day dt < 100 \<and> hour dt < 100 \<and> minute dt < 100 \<and> second dt < 80"

lemma adjust_registers:
  assumes chip: "register_chip W regs" and dev: "available r" "rtcDevice r"
  shows "\<exists>i'. adjust W dt (r, i) = (r\<lparr>lostPowerFlag := False\<rparr>, i') \<and>
    regs i' = (\<lambda>k. if k < 7 then [binToBcd (second dt), binToBcd (minute dt), binToBcd (hour dt), binToBcd (dowToDS3231 W dt),
        binToBcd (day dt), binToBcd (month dt), binToBcd (yearOffset dt)] ! k
      else if k = 15 then regs i 15 AND NOT 0x80 else regs i k)"
proof -
  let ?b = "[binToBcd (second dt), binToBcd (minute dt), binToBcd (hour dt), binToBcd (dowToDS3231 W dt),
        binToBcd (day dt), binToBcd (month dt), binToBcd (yearOffset dt)]"
  let ?i1 = "snd (i2cWrite W DS3231_TIME_REGISTER ?b i)"
  obtain i2 where i2: "readRegister W DS3231_STATUS_REGISTER (r, ?i1) = (regs ?i1 15, i2)" "regs i2 = regs ?i1"
    using chip_register [OF chip dev(2), of DS3231_STATUS_REGISTER ?i1] by (auto simp: DS3231_STATUS_REGISTER_def)
  let ?i3 = "writeRegister W DS3231_STATUS_REGISTER (regs ?i1 15 AND NOT DS3231_OSCILLATOR_STOP_FLAG) (r, i2)"
  have run: "adjust W dt (r, i) = (r\<lparr>lostPowerFlag := False\<rparr>, ?i3)"
    using dev i2 by (simp add: adjust_def Let_def)
  have i1: "regs ?i1 = (\<lambda>k. if k < 7 then ?b ! k else regs i k)"
    by (rule ext) (simp add: chip_write [OF chip] DS3231_TIME_REGISTER_def)
  have "regs ?i3 = (\<lambda>k. if k = 15 then regs ?i1 15 AND NOT 0x80 else regs i2 k)"
    using dev by (auto simp: writeRegister_def chip_write [OF chip] DS3231_STATUS_REGISTER_def DS3231_OSCILLATOR_STOP_FLAG_def)
  then show ?thesis using run i1 i2(2) by (intro exI [of _ ?i3]) auto
qed

lemma now_reads:
  assumes chip: "register_chip W regs" and dev: "rtcDevice r"
  shows "fst (rtc_now W (r, i)) = \<lparr>yearOffset = bcdToBin (regs i 6), month = bcdToBin (regs i 5 AND 0x7F), day = bcdToBin (regs i 4),
    hour = bcdToBin (regs i 2), minute = bcdToBin (regs i 1), second = bcdToBin (regs i 0 AND 0x7F)\<rparr>"
proof -
  obtain i2 where "i2cRead W 0 7 i = (Some (map (regs i) [0..<7]), i2)"
    using chip_read(1) [OF chip, of 0 7 i] by (cases "i2cRead W 0 7 i") simp
  then have "readRegisters W 0 (replicate 7 0) (r, i) = (True, map (regs i) [0..<7], i2)"
    using dev by (simp add: readRegisters_def)
  then show ?thesis by (simp add: rtc_now_def DS3231_TIME_REGISTER_def numeral_2_eq_2)
qed

text \<open>
  The clock gives back the time it was set to: on a chip whose bus works, after \<open>adjust\<close> with a date of the
  years 2000 to 2099 the registers read back through BCD are exactly that date, the oscillator-stop flag is cleared
  in chip and object, and no other bit of the status register changes.
\<close>

theorem rtc_roundtrip:
  assumes "register_chip W regs" "available r" "rtcDevice r" "dateOk dt"
    and "adjust W dt (r, i) = (r', i')"
  shows "fst (rtc_now W (r', i')) = dt \<and> \<not> fst (lostPower W (r', i')) \<and> \<not> lostPowerFlag r' \<and>
    regs i' 15 = regs i 15 AND NOT 0x80"
proof -
  from adjust_registers [OF assms(1-3), of dt i] assms(5)
  have r': "r' = r\<lparr>lostPowerFlag := False\<rparr>" and regs: "regs i' = (\<lambda>k. if k < 7 then [binToBcd (second dt),
        binToBcd (minute dt), binToBcd (hour dt), binToBcd (dowToDS3231 W dt), binToBcd (day dt), binToBcd (month dt),
        binToBcd (yearOffset dt)] ! k else if k = 15 then regs i 15 AND NOT 0x80 else regs i k)" by auto
  have dev: "rtcDevice r'" "available r'" using assms(2,3) r' by simp_all
  have small: "month dt < 100" "second dt < 100"
    using assms(4) by (auto simp: dateOk_def intro: order_less_trans)
  have "fst (rtc_now W (r', i')) = dt"
    unfolding now_reads [OF assms(1) dev(1)] regs using assms(4) small by (simp add: dateOk_def bcd_roundtrip)
  moreover obtain i2 where "readRegister W DS3231_STATUS_REGISTER (r', i') = (regs i' 15, i2)"
    using chip_register [OF assms(1) dev(1), of DS3231_STATUS_REGISTER i'] by (auto simp: DS3231_STATUS_REGISTER_def)
  then have "\<not> fst (lostPower W (r', i'))"
    using dev regs by (simp add: lostPower_def DS3231_OSCILLATOR_STOP_FLAG_def and.assoc)
  ultimately show ?thesis using r' regs by simp
qed

text \<open>A failing bus is not noticed: \<open>writeRtc\<close> ignores the results of its writes and trusts the clock.\<close>

lemma failed_write_trusted:
  assumes "available r" "rtcDevice r" "isEpochValid W epoch" "\<And>reg vs i. i2cWrite W reg vs i = (False, i)"
    and "\<And>reg n i. i2cRead W reg n i = (None, i)"
  shows "\<exists>r'. writeRtc W epoch (r, i) = (True, r', i) \<and> validRtcTime r' \<and> \<not> lostPowerFlag r'"
  using assms by (simp add: writeRtc_def adjust_def readRegister_def readRegisters_def writeRegister_def Let_def)

end
