(* ===== verification/Config_Witness.thy ===== *)
theory Config_Witness
  imports Provisioning Box_Rtc
begin

text \<open>The theorems on configuration, provisioning and clock applied to concrete documents and a concrete chip.\<close>

section \<open>A configuration document\<close>

definition textItem :: "string \<Rightarrow> ConfigValue" where
  "textItem s = \<lparr>isUnbound = False, isNullValue = False, isText = Some s, isLong = None, isBoolean = None, asRows = None\<rparr>"

definition numberValue :: "int \<Rightarrow> ConfigValue" where
  "numberValue n = \<lparr>isUnbound = False, isNullValue = False, isText = None, isLong = Some n, isBoolean = None, asRows = None\<rparr>"

definition rowsValue :: "int list list \<Rightarrow> ConfigValue" where
  "rowsValue rows = \<lparr>isUnbound = False, isNullValue = False, isText = None, isLong = None, isBoolean = None,
     asRows = Some (map (map Some) rows)\<rparr>"

text \<open>Every text is \<open>x\<close>; one door on pin 1 with its contact on pin 39.\<close>

definition demoObject :: ConfigObject where
  "demoObject key =
     (if key = ''BOX_PROVISIONED'' then numberValue 1
      else if key = ''QR_SCANNER_TEST_KEEP_CRED'' then numberValue 0
      else if key = ''DISP_LANG'' then numberValue 1
      else if key = ''LOG_SERVER_PORT'' then numberValue 8080
      else if key = ''GMT_OFFSET_SEC'' then numberValue 3600
      else if key = ''DAYLIGHT_OFFSET_SEC'' then numberValue 3600
      else if key = ''VPN_GATEWAY_PORT'' then numberValue 22
      else if key = ''VPN_REMOTE_BIND_PORT'' then numberValue 8001
      else if key = ''AMBIENT_PIN'' then numberValue 255
      else if key = ''ACTIVE_DOOR_NUMBERS'' then numberValue 1
      else if key = ''INITIAL_DOOR_MAPPING'' then rowsValue [[0, 1, 39, 0, 0]]
      else textItem ''x'')"

definition espPins :: GpioPins where
  "espPins = \<lparr>validGpio = (\<lambda>p. p < 40), validOutputGpio = (\<lambda>p. p < 34)\<rparr>"

definition builtinConfig :: BoxConfig where
  "builtinConfig = \<lparr>provisioned = False, scannerTestKeepCred = False, language = 0, hostName = ''box'', wifiSsid = ''w'',
     wifiPassword = [], logHost = ''l'', logPath = ''/'', ntpServer = ''n'', logPort = 80, gmtOffset = 0, daylightOffset = 0,
     vpnHost = ''h'', vpnUser = ''u'', vpnKeyType = ''t'', vpnFingerprint = ''f'', vpnPublicKey = ''p'', vpnPrivateKey = ''s'',
     vpnPort = 22, vpnRemotePort = 8000, ambientPinNumber = 255, doorCount = 1,
     doors = (replicate 20 zeroMapping)[0 := \<lparr>logDoorNum = 0, gpioPin = 1, statePin = 39, extenderNum = 0, lastState = False\<rparr>]\<rparr>"

lemma first_door: "take (Suc 0) ((replicate 20 zeroMapping)[0 := d]) = [d]"
  by (simp add: take_Suc_conv_app_nth)

lemma builtin_ok: "configOk espPins builtinConfig"
  using first_door
  by (simp add: configOk_def fieldsOk_def textOk_def builtinConfig_def doorOk_def espPins_def INVALID_PIN_def DOOR_UNKNOWN_def
      DOOR_COUNT_def)

lemma demo_accepted:
  "\<exists>c. decode espPins True (Some demoObject) (builtinConfig, []) = (True, c, []) \<and> logPort c = 8080 \<and> hostName c = ''x''"
  by (simp add: decode_def checkConfig_def configFields_def assign_def booleanField_def numberField_def textField_def
      demoObject_def numberValue_def textItem_def rowsValue_def cstr_def builtinConfig_def DOOR_COUNT_def INVALID_PIN_def
      readMappings_def readDoor_def badValue_def upt_rec rowNumber_def espPins_def DOOR_UNKNOWN_def word_less_nat_alt)


theorem decode_all_or_nothing_witness:
  "\<exists>c. decode espPins True (Some demoObject) (builtinConfig, []) = (True, c, []) \<and> logPort c = 8080 \<and> configOk espPins c
     \<and> provisioned c"
  using demo_accepted decode_all_or_nothing [OF builtin_ok, of True "Some demoObject" "[]"] by auto

section \<open>The store\<close>

definition demoStore :: ConfigStore where
  "demoStore = \<lparr>mounted = True, files = (\<lambda>path. if path = PendingPath then Some [1] else None)\<rparr>"

definition demoParser :: Parser where
  "demoParser content = (if content = [1] then Some (Some demoObject) else None)"

theorem committed_config_loads_witness:
  "\<exists>s c. commitDownloaded espPins demoParser builtinConfig True True demoStore [] = (True, s, []) \<and>
     load_config espPins demoParser True s (builtinConfig, []) = (True, c, []) \<and> provisioned c \<and> configOk espPins c"
proof -
  have "\<exists>s. commitDownloaded espPins demoParser builtinConfig True True demoStore [] = (True, s, [])"
    using demo_accepted by (auto simp: commitDownloaded_def demoStore_def demoParser_def MaxBytes_def)
  then obtain s where s: "commitDownloaded espPins demoParser builtinConfig True True demoStore [] = (True, s, [])" by blast
  show ?thesis using committed_config_loads [OF s builtin_ok builtin_ok, of "[]"] s by auto
qed

theorem begin_erases_nothing_witness:
  "files (snd (begin_config False True (Some \<lparr>flash = [0xff, 0xff], readFails = (\<lambda>n. False)\<rparr>) demoStore)) \<noteq> files demoStore
     \<and> flash \<lparr>flash = [0xff, 0xff], readFails = (\<lambda>n. False)\<rparr> = replicate 2 0xff"
proof -
  let ?p = "\<lparr>flash = [0xff, 0xff], readFails = (\<lambda>n. False)\<rparr>"
  let ?run = "begin_config False True (Some ?p) demoStore"
  have blank: "partitionIsBlank (Some ?p)"
    by (simp add: partitionIsBlank_def blank_loop.simps)
  then have changed: "files (snd ?run) \<noteq> files demoStore"
    by (auto simp: begin_config_def demoStore_def Let_def fun_eq_iff)
  moreover have "flash ?p = replicate (length (flash ?p)) 0xff"
    using begin_erases_nothing [OF prod.collapse [symmetric] changed] by auto
  ultimately show ?thesis by (simp add: numeral_2_eq_2)
qed

section \<open>A provisioning code\<close>

definition demoPayload :: PayloadDocument where
  "demoPayload = \<lparr>stringOf = (\<lambda>key. if key = ''SRV'' then Some ''cfg.box-1.eu'' else Some ''x''), portOf = Some 443\<rparr>"

definition parsedPayload :: ProvisioningPayload where
  "parsedPayload = \<lparr>payloadId = ''x'', payloadName = ''x'', ssid = ''x'', passphrase = ''x'', host = ''cfg.box-1.eu'',
     nonce = ''x'', port = 443\<rparr>"

lemma demo_parsed: "parsePayload (\<lambda>d. Some demoPayload) [1] = Some parsedPayload"
  by (simp add: parsePayload_def demoPayload_def parsedPayload_def readText_def cstr_def validHost_def hostChar_def)

theorem accepted_payload_unambiguous_witness:
  "describes demoPayload parsedPayload \<and> list_all dnsLabel [''cfg'', ''box-1'', ''eu'']"
proof -
  have "describes demoPayload parsedPayload"
    using accepted_payload_unambiguous [of "\<lambda>d. Some demoPayload" "[1]" parsedPayload "\<lambda>d. Some demoPayload" "[1]" parsedPayload] demo_parsed
    by blast
  then show ?thesis by (simp add: describes_def parsedPayload_def)
qed

section \<open>A chip\<close>

text \<open>A chip of which the registers are the state.\<close>

definition demoChip :: "(nat \<Rightarrow> u8) RtcWorld" where
  "demoChip = \<lparr>i2cBegin = (\<lambda>a i. (True, i)),
     i2cWrite = (\<lambda>reg vs i. (True, \<lambda>k. if unat reg \<le> k \<and> k < unat reg + length vs then vs ! (k - unat reg) else i k)),
     i2cRead = (\<lambda>reg n i. (Some (map (\<lambda>k. i (unat reg + k)) [0..<n]), i)),
     unixtime = (\<lambda>d. 0), fromUnixtime = (\<lambda>n. \<lparr>yearOffset = 26, month = 12, day = 31, hour = 23, minute = 59, second = 58\<rparr>),
     dowToDS3231 = (\<lambda>d. 4), settimeofday = (\<lambda>n i. (True, i)), timeNow = (\<lambda>i. 0), millisNow = (\<lambda>i. 0)\<rparr>"

definition demoRtc :: BoxRtc where
  "demoRtc = \<lparr>rtcI2cAddress = 0x68, rtcDevice = True, available = True, validRtcTime = False, lostPowerFlag = True,
     ntpConfigured = False, ntpSyncPending = False, configuredSyncIntervalMs = 0, lastRtcSyncMillis = 0\<rparr>"

definition newYearsEve :: DateTime where
  "newYearsEve = \<lparr>yearOffset = 26, month = 12, day = 31, hour = 23, minute = 59, second = 58\<rparr>"

theorem rtc_roundtrip_witness:
  "fst (rtc_now demoChip (adjust demoChip newYearsEve (demoRtc, \<lambda>k. 0x88))) = newYearsEve \<and>
   snd (adjust demoChip newYearsEve (demoRtc, \<lambda>k. 0x88)) 15 = 8"
proof -
  have chip: "register_chip demoChip (\<lambda>i. i)" by (simp add: register_chip_def demoChip_def)
  have ready: "available demoRtc" "rtcDevice demoRtc" by (simp_all add: demoRtc_def)
  have date: "dateOk newYearsEve" by (simp add: dateOk_def newYearsEve_def)
  show ?thesis
    using rtc_roundtrip [OF chip ready date prod.collapse [symmetric], of "\<lambda>k. 0x88"] by simp
qed

end
