(* ===== verification/Tunnel_HostKey.thy ===== *)
theory Tunnel_HostKey
  imports Tunnel_Channels
begin

text \<open>
  The check of the server's key, \<open>ssh_session.cpp\<close> under \<open>src/experimental_libs/OrangeBoxSshTunnel/src\<close>: the two
  printed forms of a fingerprint, the tidying of the configured one and \<open>verifyHostKey\<close>.  The methods of the Arduino
  class \<open>String\<close> it uses are functions on character lists.  Log calls are left out; the callback for a mismatch is
  the second result.
\<close>

section \<open>Strings\<close>

definition isSpaceChar :: "char \<Rightarrow> bool" where
  "isSpaceChar c \<longleftrightarrow> of_char c = (32 :: nat) \<or> (9 \<le> (of_char c :: nat) \<and> of_char c \<le> (13 :: nat))"

definition isxdigit :: "char \<Rightarrow> bool" where
  "isxdigit c \<longleftrightarrow> c \<in> set ''0123456789abcdefABCDEF''"

definition lowerChar :: "char \<Rightarrow> char" where
  "lowerChar c = (if 65 \<le> (of_char c :: nat) \<and> of_char c \<le> (90 :: nat) then char_of (of_char c + 32 :: nat) else c)"

definition toLowerCase :: "string \<Rightarrow> string" where
  "toLowerCase s = map lowerChar s"

definition trim :: "string \<Rightarrow> string" where
  "trim s = rev (dropWhile isSpaceChar (rev (dropWhile isSpaceChar s)))"

text \<open>\<open>replace\<close> of a single character by the empty string.\<close>

definition removeChar :: "char \<Rightarrow> string \<Rightarrow> string" where
  "removeChar c s = filter (\<lambda>d. d \<noteq> c) s"

definition startsWith :: "string \<Rightarrow> string \<Rightarrow> bool" where
  "startsWith s p \<longleftrightarrow> take (length p) s = p"

text \<open>The text after the first colon: \<open>substring (indexOf ':' + 1)\<close>.\<close>

definition afterColon :: "string \<Rightarrow> string" where
  "afterColon s = (if CHR '':'' \<in> set s then drop 1 (dropWhile (\<lambda>c. c \<noteq> CHR '':'') s) else s)"

section \<open>Printed fingerprints\<close>

definition kHexDigits :: string where
  "kHexDigits = ''0123456789abcdef''"

fun encodeFingerprintHex :: "bytes \<Rightarrow> string" where
  "encodeFingerprintHex [] = []"
| "encodeFingerprintHex (value # data) =
     kHexDigits ! unat (drop_bit 4 value AND 0x0F) # kHexDigits ! unat (value AND 0x0F) # encodeFingerprintHex data"

definition kBase64Table :: string where
  "kBase64Table = ''ABCDEFGHIJKLMNOPQRSTUVWXYZabcdefghijklmnopqrstuvwxyz0123456789+/''"

text \<open>The characters for up to three bytes; a missing one counts as 0 and its character is the padding.\<close>

definition base64Group :: "u8 \<Rightarrow> u8 option \<Rightarrow> u8 option \<Rightarrow> string" where
  "base64Group a b c =
     (let octet_a = ucast a :: u32; octet_b = (case b of None \<Rightarrow> 0 | Some v \<Rightarrow> ucast v); octet_c = (case c of None \<Rightarrow> 0 | Some v \<Rightarrow> ucast v);
          triple = push_bit 16 octet_a OR push_bit 8 octet_b OR octet_c in
      [kBase64Table ! unat (drop_bit 18 triple AND 0x3F), kBase64Table ! unat (drop_bit 12 triple AND 0x3F),
       if b \<noteq> None then kBase64Table ! unat (drop_bit 6 triple AND 0x3F) else CHR ''='',
       if c \<noteq> None then kBase64Table ! unat (triple AND 0x3F) else CHR ''=''])"

fun base64_loop :: "bytes \<Rightarrow> string" where
  "base64_loop [] = []"
| "base64_loop [a] = base64Group a None None"
| "base64_loop [a, b] = base64Group a (Some b) None"
| "base64_loop (a # b # c # data) = base64Group a (Some b) (Some c) @ base64_loop data"

definition encodeFingerprintBase64 :: "bytes \<Rightarrow> string" where
  "encodeFingerprintBase64 data = rev (dropWhile (\<lambda>c. c = CHR ''='') (rev (base64_loop data)))"

definition isValidHexFingerprint :: "string \<Rightarrow> bool" where
  "isValidHexFingerprint value \<longleftrightarrow> length value = 64 \<and> list_all isxdigit value"

section \<open>The check\<close>

record SSHServerConfig =
  sc_host :: string
  sc_port :: int
  username :: string
  password :: string
  useSSHKey :: bool
  privateKeyPath :: string
  privateKeyData :: string
  publicKeyData :: string
  verifyHostKeyOn :: bool
  expectedHostKeyFingerprint :: string
  hostKeyType :: string
  onHostKeyMismatch :: bool

text \<open>What libssh2 tells about the server's key: its length, its type and the SHA-256 digest.\<close>

record HostKey =
  host_key_len :: nat
  host_key_type :: int
  fingerprint_raw :: "bytes option"

definition keyTypeStr :: "int \<Rightarrow> string" where
  "keyTypeStr t =
     (if t = 1 then ''ssh-rsa'' else if t = 2 then ''ssh-dss'' else if t = 3 then ''ecdsa-sha2-nistp256''
      else if t = 4 then ''ecdsa-sha2-nistp384'' else if t = 5 then ''ecdsa-sha2-nistp521''
      else if t = 6 then ''ssh-ed25519'' else ''unknown'')"

text \<open>The configured fingerprint as it is compared, and whether it is taken for base64.\<close>

definition tidyBase64 :: "string \<Rightarrow> string" where
  "tidyBase64 s0 =
     (let s1 = trim s0; s2 = (if startsWith s1 ''SHA256:'' \<or> startsWith s1 ''sha256:'' then drop 7 s1 else s1) in
      removeChar (CHR ''='') (removeChar (CHR 0x0A) (removeChar (CHR 0x0D) (removeChar (CHR '' '') s2))))"

definition expectedComparable :: "string \<Rightarrow> bool \<times> string" where
  "expectedComparable fingerprint =
     (let expectedRaw = removeChar (CHR 0x0A) (removeChar (CHR 0x0D) (trim fingerprint)) in
      if startsWith (toLowerCase expectedRaw) ''sha256:'' then (True, tidyBase64 (afterColon expectedRaw))
      else
        let candidateLower = toLowerCase (removeChar (CHR '':'') (removeChar (CHR '' '') expectedRaw)) in
        if isValidHexFingerprint candidateLower
        then (False, removeChar (CHR '':'') (removeChar (CHR '' '') (toLowerCase candidateLower)))
        else (True, tidyBase64 expectedRaw))"

definition verifyHostKey ::
  "SSHServerConfig \<Rightarrow> bool \<Rightarrow> HostKey option \<Rightarrow> bool \<times> (string \<times> string \<times> string) option" where
  "verifyHostKey cfg locked host_key =
     (if \<not> verifyHostKeyOn cfg then (True, None)
      else if \<not> locked then (False, None)
      else case host_key of None \<Rightarrow> (False, None)
        | Some key \<Rightarrow>
          if host_key_len key = 0 then (False, None)
          else case fingerprint_raw key of None \<Rightarrow> (False, None)
            | Some raw \<Rightarrow>
              let fingerprintHex = encodeFingerprintHex (take 32 raw);
                  fingerprintBase64 = encodeFingerprintBase64 (take 32 raw);
                  fingerprintOpenSSH = ''SHA256:'' @ fingerprintBase64;
                  keyType = keyTypeStr (host_key_type key) in
              if hostKeyType cfg \<noteq> [] \<and> hostKeyType cfg \<noteq> keyType then (False, None)
              else if expectedHostKeyFingerprint cfg = [] then (True, None)
              else
                let expectedRaw = removeChar (CHR 0x0A) (removeChar (CHR 0x0D) (trim (expectedHostKeyFingerprint cfg)));
                    (expectedIsBase64, comparable) = expectedComparable (expectedHostKeyFingerprint cfg) in
                if comparable = (if expectedIsBase64 then fingerprintBase64 else fingerprintHex) then (True, None)
                else (False, if onHostKeyMismatch cfg
                             then Some (expectedRaw, if expectedIsBase64 then fingerprintOpenSSH else fingerprintHex, keyType)
                             else None))"

end
