(* ===== verification/Tunnel_Config.thy ===== *)
theory Tunnel_Config
  imports Tunnel_HostKey
begin

text \<open>
  The configuration of the tunnel, \<open>ssh_config.h\<close>, \<open>ssh_config.cpp\<close> and \<open>ssh_config_validators.h\<close> under
  \<open>src/experimental_libs/OrangeBoxSshTunnel/src\<close>: class \<open>SSHConfiguration\<close>, whose setters do nothing when the mutex
  could not be created, and its validation.  A file of LittleFS is the text it holds, or \<open>None\<close> when it cannot be
  opened.  Log calls and the printing of the configuration are left out.
\<close>

record ConnectionConfig =
  keepAliveIntervalSec :: int
  reconnectDelayMs :: int
  maxReconnectAttempts :: int
  connectionTimeoutSec :: int
  bufferSize :: int
  maxChannels :: int
  libssh2KeepAliveEnabled :: bool
  libssh2KeepAliveIntervalSec :: int
  tunnelRingBufferSize :: nat
  maxReverseListeners :: int

datatype LogLevel = LOG_ERROR | LOG_WARN | LOG_INFO | LOG_DEBUG

record DebugConfig =
  debugEnabled :: bool
  serialBaudRate :: int
  minLogLevel :: LogLevel

record SSHConfiguration =
  sshConfig :: SSHServerConfig
  tunnelMappings :: "TunnelConfig list"
  connectionConfig :: ConnectionConfig
  debugConfig :: DebugConfig
  configMutex :: bool

section \<open>Defaults\<close>

definition defaultServer :: SSHServerConfig where
  "defaultServer = \<lparr>sc_host = ''your-remote-server.com'', sc_port = 22, username = ''your_username'',
     password = ''your_password'', useSSHKey = False, privateKeyPath = ''/ssh_key'', privateKeyData = [],
     publicKeyData = [], verifyHostKeyOn = False, expectedHostKeyFingerprint = [], hostKeyType = [],
     onHostKeyMismatch = False\<rparr>"

definition defaultMapping :: TunnelConfig where
  "defaultMapping = \<lparr>remoteBindHost = ''127.0.0.1'', remoteBindPort = 8080, tc_localHost = ''192.168.1.100'', tc_localPort = 80\<rparr>"

definition defaultConnection :: ConnectionConfig where
  "defaultConnection = \<lparr>keepAliveIntervalSec = 10, reconnectDelayMs = 5000, maxReconnectAttempts = 5,
     connectionTimeoutSec = 30, bufferSize = 8192, maxChannels = 10, libssh2KeepAliveEnabled = True,
     libssh2KeepAliveIntervalSec = 30, tunnelRingBufferSize = 64 * 1024, maxReverseListeners = 1\<rparr>"

definition defaultDebug :: DebugConfig where
  "defaultDebug = \<lparr>debugEnabled = True, serialBaudRate = 115200, minLogLevel = LOG_INFO\<rparr>"

definition newConfiguration :: "bool \<Rightarrow> SSHConfiguration" where
  "newConfiguration mutexCreated =
     \<lparr>sshConfig = defaultServer, tunnelMappings = [defaultMapping], connectionConfig = defaultConnection,
      debugConfig = defaultDebug, configMutex = mutexCreated\<rparr>"

section \<open>Setters\<close>

text \<open>A setter runs between \<open>lockConfig\<close>, which waits without limit, and \<open>unlockConfig\<close>.\<close>

definition underLock :: "(SSHConfiguration \<Rightarrow> SSHConfiguration) \<Rightarrow> SSHConfiguration \<Rightarrow> SSHConfiguration" where
  "underLock f c = (if configMutex c then f c else c)"

abbreviation onServer :: "(SSHServerConfig \<Rightarrow> SSHServerConfig) \<Rightarrow> SSHConfiguration \<Rightarrow> SSHConfiguration" where
  "onServer f c \<equiv> c\<lparr>sshConfig := f (sshConfig c)\<rparr>"

abbreviation onConnection :: "(ConnectionConfig \<Rightarrow> ConnectionConfig) \<Rightarrow> SSHConfiguration \<Rightarrow> SSHConfiguration" where
  "onConnection f c \<equiv> c\<lparr>connectionConfig := f (connectionConfig c)\<rparr>"

definition setSSHServer :: "string \<Rightarrow> int \<Rightarrow> string \<Rightarrow> string \<Rightarrow> SSHConfiguration \<Rightarrow> SSHConfiguration" where
  "setSSHServer host port user pass =
     underLock (onServer (\<lambda>s. s\<lparr>sc_host := host, sc_port := port, username := user, password := pass, useSSHKey := False\<rparr>))"

text \<open>\<open>loadSSHKeysFromLittleFS\<close>: the private key stays loaded when the public one is missing.\<close>

definition loadSSHKeysFromLittleFS ::
  "(string \<Rightarrow> string option) \<Rightarrow> string \<Rightarrow> SSHConfiguration \<Rightarrow> bool \<times> SSHConfiguration" where
  "loadSSHKeysFromLittleFS fs path c =
     (case fs path of None \<Rightarrow> (False, c)
      | Some priv \<Rightarrow>
          let c1 = onServer (\<lambda>s. s\<lparr>privateKeyData := priv\<rparr>) c in
          if priv = [] then (False, c1)
          else case fs (path @ ''.pub'') of None \<Rightarrow> (False, c1)
            | Some pub \<Rightarrow> (pub \<noteq> [], onServer (\<lambda>s. s\<lparr>publicKeyData := pub\<rparr>) c1))"

definition setSSHKeyAuth ::
  "(string \<Rightarrow> string option) \<Rightarrow> string \<Rightarrow> int \<Rightarrow> string \<Rightarrow> string \<Rightarrow> string \<Rightarrow> SSHConfiguration \<Rightarrow> SSHConfiguration" where
  "setSSHKeyAuth fs host port user path passphrase =
     underLock (\<lambda>c. snd (loadSSHKeysFromLittleFS fs path
       (onServer (\<lambda>s. s\<lparr>sc_host := host, sc_port := port, username := user, privateKeyPath := path, password := passphrase,
          useSSHKey := True\<rparr>) c)))"

definition setSSHKeyAuthFromMemory ::
  "string \<Rightarrow> int \<Rightarrow> string \<Rightarrow> string \<Rightarrow> string \<Rightarrow> string \<Rightarrow> SSHConfiguration \<Rightarrow> SSHConfiguration" where
  "setSSHKeyAuthFromMemory host port user priv pub passphrase =
     underLock (onServer (\<lambda>s. s\<lparr>sc_host := host, sc_port := port, username := user, privateKeyData := priv,
        publicKeyData := pub, password := passphrase, useSSHKey := True\<rparr>))"

text \<open>\<open>replace ("\r\n", "\n")\<close>.\<close>

fun unixLines :: "string \<Rightarrow> string" where
  "unixLines (a # b # s) = (if a = CHR 0x0D \<and> b = CHR 0x0A then CHR 0x0A # unixLines s else a # unixLines (b # s))"
| "unixLines s = s"

definition withNewline :: "string \<Rightarrow> string" where
  "withNewline s = (if s \<noteq> [] \<and> List.last s = CHR 0x0A then s else s @ [CHR 0x0A])"

definition setSSHKeysInMemory :: "string \<Rightarrow> string \<Rightarrow> SSHConfiguration \<Rightarrow> SSHConfiguration" where
  "setSSHKeysInMemory priv pub =
     underLock (onServer (\<lambda>s. s\<lparr>privateKeyData := unixLines (withNewline priv), publicKeyData := unixLines (withNewline pub)\<rparr>))"

definition setHostKeyVerification :: "bool \<Rightarrow> SSHConfiguration \<Rightarrow> SSHConfiguration" where
  "setHostKeyVerification enable = underLock (onServer (\<lambda>s. s\<lparr>verifyHostKeyOn := enable\<rparr>))"

definition setExpectedHostKey :: "string \<Rightarrow> string \<Rightarrow> SSHConfiguration \<Rightarrow> SSHConfiguration" where
  "setExpectedHostKey fingerprint keyType =
     underLock (onServer (\<lambda>s. s\<lparr>expectedHostKeyFingerprint := fingerprint, hostKeyType := keyType\<rparr>))"

definition setHostKeyPinned :: "string \<Rightarrow> string \<Rightarrow> bool \<Rightarrow> SSHConfiguration \<Rightarrow> SSHConfiguration" where
  "setHostKeyPinned fingerprint keyType enable =
     underLock (onServer (\<lambda>s. s\<lparr>verifyHostKeyOn := enable, expectedHostKeyFingerprint := fingerprint, hostKeyType := keyType\<rparr>))"

definition setHostKeyMismatchCallback :: "bool \<Rightarrow> SSHConfiguration \<Rightarrow> SSHConfiguration" where
  "setHostKeyMismatchCallback callback = underLock (onServer (\<lambda>s. s\<lparr>onHostKeyMismatch := callback\<rparr>))"

definition setTunnelConfig :: "TunnelConfig \<Rightarrow> SSHConfiguration \<Rightarrow> SSHConfiguration" where
  "setTunnelConfig mapping = underLock (\<lambda>c. c\<lparr>tunnelMappings := [mapping]\<rparr>)"

definition addTunnelMapping :: "TunnelConfig \<Rightarrow> SSHConfiguration \<Rightarrow> SSHConfiguration" where
  "addTunnelMapping mapping = underLock (\<lambda>c. c\<lparr>tunnelMappings := tunnelMappings c @ [mapping]\<rparr>)"

definition removeTunnelMapping :: "nat \<Rightarrow> SSHConfiguration \<Rightarrow> bool \<times> SSHConfiguration" where
  "removeTunnelMapping index c =
     (if configMutex c \<and> index < length (tunnelMappings c)
      then (True, c\<lparr>tunnelMappings := take index (tunnelMappings c) @ drop (index + 1) (tunnelMappings c)\<rparr>)
      else (False, c))"

definition clearTunnelMappings :: "SSHConfiguration \<Rightarrow> SSHConfiguration" where
  "clearTunnelMappings = underLock (\<lambda>c. c\<lparr>tunnelMappings := []\<rparr>)"

definition setConnectionConfig :: "int \<Rightarrow> int \<Rightarrow> int \<Rightarrow> int \<Rightarrow> SSHConfiguration \<Rightarrow> SSHConfiguration" where
  "setConnectionConfig keepAlive delay attempts timeout =
     underLock (onConnection (\<lambda>k. k\<lparr>keepAliveIntervalSec := keepAlive, libssh2KeepAliveIntervalSec := keepAlive,
        reconnectDelayMs := delay, maxReconnectAttempts := attempts, connectionTimeoutSec := timeout\<rparr>))"

definition setBufferConfig :: "int \<Rightarrow> int \<Rightarrow> nat \<Rightarrow> SSHConfiguration \<Rightarrow> SSHConfiguration" where
  "setBufferConfig buffer channelLimit ring =
     underLock (onConnection (\<lambda>k. k\<lparr>bufferSize := buffer, maxChannels := channelLimit, tunnelRingBufferSize := ring\<rparr>))"

definition setMaxReverseListeners :: "int \<Rightarrow> SSHConfiguration \<Rightarrow> SSHConfiguration" where
  "setMaxReverseListeners n c =
     (if n \<le> 0 then c else underLock (onConnection (\<lambda>k. k\<lparr>maxReverseListeners := n\<rparr>)) c)"

definition setKeepAliveOptions :: "bool \<Rightarrow> int \<Rightarrow> SSHConfiguration \<Rightarrow> SSHConfiguration" where
  "setKeepAliveOptions enable seconds c =
     (let interval = (if seconds \<le> 0 then keepAliveIntervalSec (connectionConfig c) else seconds) in
      underLock (onConnection (\<lambda>k. k\<lparr>libssh2KeepAliveEnabled := enable, libssh2KeepAliveIntervalSec := interval\<rparr>)) c)"

definition setDebugConfig :: "bool \<Rightarrow> int \<Rightarrow> SSHConfiguration \<Rightarrow> SSHConfiguration" where
  "setDebugConfig enabled baud =
     underLock (\<lambda>c. c\<lparr>debugConfig := \<lparr>debugEnabled = enabled, serialBaudRate = baud,
        minLogLevel = if enabled then LOG_DEBUG else LOG_WARN\<rparr>\<rparr>)"

definition setLogLevel :: "LogLevel \<Rightarrow> SSHConfiguration \<Rightarrow> SSHConfiguration" where
  "setLogLevel level = underLock (\<lambda>c. c\<lparr>debugConfig := (debugConfig c)\<lparr>minLogLevel := level\<rparr>\<rparr>)"

definition getTunnelConfig :: "nat \<Rightarrow> SSHConfiguration \<Rightarrow> TunnelConfig" where
  "getTunnelConfig index c =
     (case tunnelMappings c of [] \<Rightarrow> defaultMapping
      | m # ms \<Rightarrow> if length (m # ms) \<le> index then m else (m # ms) ! index)"

section \<open>Validation\<close>

definition isValidPort :: "int \<Rightarrow> bool" where
  "isValidPort port \<longleftrightarrow> 1 \<le> port \<and> port \<le> 65535"

definition isValidHostname :: "string \<Rightarrow> bool" where
  "isValidHostname host \<longleftrightarrow> cstr host \<noteq> []"

abbreviation positive :: "int \<Rightarrow> bool" where
  "positive n \<equiv> 0 < n"

definition validateSSHConfig :: "SSHConfiguration \<Rightarrow> bool" where
  "validateSSHConfig c =
     (let s = sshConfig c in
      if \<not> isValidHostname (sc_host s) then False
      else if \<not> isValidPort (sc_port s) then False
      else if \<not> isValidHostname (username s) then False
      else if \<not> useSSHKey s \<and> password s = [] then False
      else if useSSHKey s
      then (if privateKeyData s \<noteq> [] \<and> publicKeyData s \<noteq> [] then True else privateKeyPath s \<noteq> [])
      else True)"

definition validMapping :: "TunnelConfig \<Rightarrow> bool" where
  "validMapping m \<longleftrightarrow>
     isValidHostname (remoteBindHost m) \<and> isValidPort (remoteBindPort m) \<and>
     isValidHostname (tc_localHost m) \<and> isValidPort (tc_localPort m)"

definition validateTunnelConfig :: "SSHConfiguration \<Rightarrow> bool" where
  "validateTunnelConfig c \<longleftrightarrow> tunnelMappings c \<noteq> [] \<and> list_all validMapping (tunnelMappings c)"

definition validateConnectionConfig :: "SSHConfiguration \<Rightarrow> bool" where
  "validateConnectionConfig c =
     (let k = connectionConfig c in
      positive (keepAliveIntervalSec k) \<and> positive (reconnectDelayMs k) \<and> positive (maxReconnectAttempts k) \<and>
      positive (connectionTimeoutSec k) \<and> positive (bufferSize k) \<and> positive (maxChannels k) \<and>
      \<not> (libssh2KeepAliveEnabled k \<and> libssh2KeepAliveIntervalSec k \<le> 0) \<and> tunnelRingBufferSize k \<noteq> 0 \<and>
      positive (maxReverseListeners k))"

definition validateConfiguration :: "SSHConfiguration \<Rightarrow> bool" where
  "validateConfiguration c \<longleftrightarrow> validateSSHConfig c \<and> validateTunnelConfig c \<and> validateConnectionConfig c"

text \<open>\<open>validateSSHKeys\<close>: marker texts in the keys.\<close>

definition validateSSHKeys :: "SSHConfiguration \<Rightarrow> bool" where
  "validateSSHKeys c =
     (configMutex c \<and>
      (let s = sshConfig c in
       privateKeyData s \<noteq> [] \<and> strstr (privateKeyData s) ''-----BEGIN'' \<and> strstr (privateKeyData s) ''-----END'' \<and>
       publicKeyData s \<noteq> [] \<and> (startsWith (publicKeyData s) ''ssh-'' \<or> startsWith (publicKeyData s) ''ecdsa-'')))"

end
