(* ===== verification/Tunnel_Session.thy ===== *)
theory Tunnel_Session
  imports Tunnel_Config
begin

text \<open>
  The session of the tunnel, \<open>ssh_session.h\<close>, \<open>ssh_session.cpp\<close> and \<open>forward_accept_error.h\<close> under
  \<open>src/experimental_libs/OrangeBoxSshTunnel/src\<close>: class \<open>SSHSession\<close>, from the TCP connection through the handshake, the
  check of the server's key and the authentication to the listeners, and the calls of its main loop.  Sockets and
  libssh2 are the fields of the records \<open>Net\<close> and \<open>Ssh\<close> over an unknown state; sessions, listeners and channels of
  libssh2 are known by numbers.  Diagnostics that are compiled out and log calls are left out, with the reads of
  error texts they print.
\<close>

section \<open>The outside\<close>

record 'w Ssh =
  o_optimize :: "int \<Rightarrow> 'w \<Rightarrow> 'w"
  o_inet_pton :: "string \<Rightarrow> nat option"
  o_getaddrinfo :: "string \<Rightarrow> 'w \<Rightarrow> nat option \<times> 'w"
  o_connect :: "int \<Rightarrow> nat \<Rightarrow> int \<Rightarrow> 'w \<Rightarrow> int \<times> 'w"
  o_delay :: "nat \<Rightarrow> 'w \<Rightarrow> 'w"
  x_init :: "'w \<Rightarrow> nat option \<times> 'w"
  x_handshake :: "nat \<Rightarrow> int \<Rightarrow> 'w \<Rightarrow> int \<times> 'w"
  x_disconnect :: "nat \<Rightarrow> 'w \<Rightarrow> 'w"
  x_free :: "nat \<Rightarrow> 'w \<Rightarrow> 'w"
  x_set_nonblocking :: "nat \<Rightarrow> 'w \<Rightarrow> 'w"
  x_keepalive_config :: "nat \<Rightarrow> int \<Rightarrow> 'w \<Rightarrow> 'w"
  x_keepalive_send :: "nat \<Rightarrow> 'w \<Rightarrow> int \<times> 'w"
  x_hostkey :: "nat \<Rightarrow> 'w \<Rightarrow> HostKey option \<times> 'w"
  x_userauth_list :: "nat \<Rightarrow> string \<Rightarrow> 'w \<Rightarrow> string option \<times> 'w"
  x_userauth_password :: "nat \<Rightarrow> string \<Rightarrow> string \<Rightarrow> 'w \<Rightarrow> int \<times> 'w"
  x_userauth_frommemory :: "nat \<Rightarrow> string \<Rightarrow> string \<Rightarrow> string \<Rightarrow> string option \<Rightarrow> 'w \<Rightarrow> int \<times> 'w"
  x_userauth_fromfile :: "nat \<Rightarrow> string \<Rightarrow> string \<Rightarrow> string \<Rightarrow> string \<Rightarrow> 'w \<Rightarrow> int \<times> 'w"
  x_forward_listen :: "nat \<Rightarrow> string \<Rightarrow> int \<Rightarrow> int \<Rightarrow> 'w \<Rightarrow> (nat \<times> int) option \<times> 'w"
  x_forward_cancel :: "nat \<Rightarrow> 'w \<Rightarrow> 'w"
  x_forward_accept :: "nat \<Rightarrow> 'w \<Rightarrow> nat option \<times> 'w"
  x_direct_tcpip :: "nat \<Rightarrow> string \<Rightarrow> int \<Rightarrow> string \<Rightarrow> int \<Rightarrow> 'w \<Rightarrow> nat option \<times> 'w"
  x_last_errno :: "nat \<Rightarrow> 'w \<Rightarrow> int"
  o_stats_lock :: "'w \<Rightarrow> bool \<times> 'w"

definition LIBSSH2_ERROR_SOCKET_SEND :: int where "LIBSSH2_ERROR_SOCKET_SEND = -7"
definition LIBSSH2_ERROR_SOCKET_DISCONNECT :: int where "LIBSSH2_ERROR_SOCKET_DISCONNECT = -13"
definition LIBSSH2_ERROR_CHANNEL_UNKNOWN :: int where "LIBSSH2_ERROR_CHANNEL_UNKNOWN = -23"
definition LIBSSH2_ERROR_CHANNEL_CLOSED :: int where "LIBSSH2_ERROR_CHANNEL_CLOSED = -26"

section \<open>Errors of accepting\<close>

definition isBenignNoChannel :: "int \<Rightarrow> int \<Rightarrow> bool" where
  "isBenignNoChannel err eagainCode \<longleftrightarrow> err = 0 \<or> err = eagainCode"

definition isFatal :: "int \<Rightarrow> int \<Rightarrow> int \<Rightarrow> int \<Rightarrow> int \<Rightarrow> int \<Rightarrow> bool" where
  "isFatal err eagainCode channelUnknownCode channelClosedCode socketSendCode socketDisconnectCode =
     (if isBenignNoChannel err eagainCode then False
      else err = channelUnknownCode \<or> err = channelClosedCode \<or> err = socketSendCode \<or> err = socketDisconnectCode)"

definition shouldReconnectAfterConsecutiveErrors :: "int \<Rightarrow> int \<Rightarrow> int \<Rightarrow> int \<Rightarrow> int \<Rightarrow> int \<Rightarrow> int \<Rightarrow> bool" where
  "shouldReconnectAfterConsecutiveErrors consecutive err eagainCode channelUnknownCode channelClosedCode socketSendCode
      socketDisconnectCode \<longleftrightarrow>
     3 \<le> consecutive \<and> isFatal err eagainCode channelUnknownCode channelClosedCode socketSendCode socketDisconnectCode"

section \<open>State\<close>

datatype ConnectFailure = FailureNone | FailureTcp | FailureHandshake | FailureHostKey | FailureAuth | FailureReverseListener

record ListenerEntry =
  listener :: "nat option"
  mapping :: TunnelConfig
  entryBoundPort :: int

record SSHSession =
  session :: "nat option"
  socketfd :: int
  sessionMutex :: bool
  listeners :: "ListenerEntry list"
  boundPort :: int
  lastConnectFailure :: ConnectFailure
  keepAliveFailures :: int
  sessionConnectedMs :: u32
  lastKeepaliveOkMs :: u32
  lastKeepaliveAttemptMs :: u32
  lastChannelUnknownLogMs :: u32
  channelUnknownTotal :: u32
  lastAcceptError :: int
  consecutiveFatalAcceptErrors :: int
  lastAcceptMs :: u32
  totalAccepts :: u32
  libssh2Initialized :: bool

definition newSession :: SSHSession where
  "newSession = \<lparr>session = None, socketfd = - 1, sessionMutex = False, listeners = [], boundPort = - 1,
     lastConnectFailure = FailureNone, keepAliveFailures = 0, sessionConnectedMs = 0, lastKeepaliveOkMs = 0,
     lastKeepaliveAttemptMs = 0, lastChannelUnknownLogMs = 0, channelUnknownTotal = 0, lastAcceptError = 0,
     consecutiveFatalAcceptErrors = 0, lastAcceptMs = 0, totalAccepts = 0, libssh2Initialized = False\<rparr>"

text \<open>\<open>init\<close>: whether the mutex can be created and whether the library starts are arguments.\<close>

definition initSession :: "bool \<Rightarrow> bool \<Rightarrow> SSHSession \<Rightarrow> bool \<times> SSHSession" where
  "initSession created started s =
     (if \<not> sessionMutex s \<and> \<not> created then (False, s)
      else
        let s1 = s\<lparr>sessionMutex := True\<rparr> in
        if \<not> libssh2Initialized s1 \<and> \<not> started then (False, s1) else (True, s1\<lparr>libssh2Initialized := True\<rparr>))"

definition isConnectedSession :: "SSHSession \<Rightarrow> bool" where
  "isConnectedSession s \<longleftrightarrow> session s \<noteq> None \<and> 0 \<le> socketfd s"

definition getActiveListenerCount :: "SSHSession \<Rightarrow> nat" where
  "getActiveListenerCount s = length (filter (\<lambda>e. listener e \<noteq> None) (listeners s))"

definition lastConnectFailureWasReverseListener :: "SSHSession \<Rightarrow> bool" where
  "lastConnectFailureWasReverseListener s \<longleftrightarrow> lastConnectFailure s = FailureReverseListener"

definition resetAcceptState :: "SSHSession \<Rightarrow> SSHSession" where
  "resetAcceptState s = s\<lparr>lastAcceptError := 0, consecutiveFatalAcceptErrors := 0, lastAcceptMs := 0, totalAccepts := 0\<rparr>"

section \<open>Tearing down\<close>

definition cancelListener :: "('r, 'w) Net \<Rightarrow> 'w Ssh \<Rightarrow> ListenerEntry \<Rightarrow> 'w \<Rightarrow> ListenerEntry \<times> 'w" where
  "cancelListener N S e w =
     (case listener e of None \<Rightarrow> (e, w)
      | Some l \<Rightarrow>
          case s_lock N 500 w of (locked, w1) \<Rightarrow>
            (e\<lparr>listener := None\<rparr>, if locked then s_unlock N (x_forward_cancel S l w1) else w1))"

definition cancelAllListeners :: "('r, 'w) Net \<Rightarrow> 'w Ssh \<Rightarrow> SSHSession \<times> 'w \<Rightarrow> SSHSession \<times> 'w" where
  "cancelAllListeners N S = (\<lambda>(s, w).
     (s\<lparr>listeners := [], boundPort := - 1\<rparr>, fold (\<lambda>e w. snd (cancelListener N S e w)) (listeners s) w))"

definition freeSession :: "('r, 'w) Net \<Rightarrow> 'w Ssh \<Rightarrow> nat \<Rightarrow> 'w \<Rightarrow> 'w" where
  "freeSession N S x w =
     (case s_lock N 2000 w of (locked, w1) \<Rightarrow>
        let w2 = x_free S x (x_disconnect S x w1) in if locked then s_unlock N w2 else w2)"

definition cleanupSession :: "('r, 'w) Net \<Rightarrow> 'w Ssh \<Rightarrow> SSHSession \<times> 'w \<Rightarrow> SSHSession \<times> 'w" where
  "cleanupSession N S sw =
     (case cancelAllListeners N S sw of (s1, w1) \<Rightarrow>
        let w2 = (case session s1 of None \<Rightarrow> w1 | Some x \<Rightarrow> freeSession N S x w1);
            w3 = (if 0 \<le> socketfd s1 then n_close N (socketfd s1) w2 else w2) in
        (resetAcceptState (s1\<lparr>session := None, socketfd := (if 0 \<le> socketfd s1 then - 1 else socketfd s1),
           keepAliveFailures := 0, sessionConnectedMs := 0, lastKeepaliveOkMs := 0, lastKeepaliveAttemptMs := 0,
           lastChannelUnknownLogMs := 0, channelUnknownTotal := 0\<rparr>), w3))"

definition disconnectSession :: "('r, 'w) Net \<Rightarrow> 'w Ssh \<Rightarrow> SSHSession \<times> 'w \<Rightarrow> SSHSession \<times> 'w" where
  "disconnectSession N S sw = cleanupSession N S (cancelAllListeners N S sw)"

section \<open>Connecting\<close>

text \<open>\<open>tcpConnect\<close>: a name that is no address is resolved.\<close>

definition closeAndFail :: "('r, 'w) Net \<Rightarrow> int \<Rightarrow> SSHSession \<Rightarrow> 'w \<Rightarrow> bool \<times> SSHSession \<times> 'w" where
  "closeAndFail N fd s w = (False, s\<lparr>socketfd := - 1\<rparr>, n_close N fd w)"

definition tcpConnect ::
  "('r, 'w) Net \<Rightarrow> 'w Ssh \<Rightarrow> SSHServerConfig \<Rightarrow> SSHSession \<times> 'w \<Rightarrow> bool \<times> SSHSession \<times> 'w" where
  "tcpConnect N S cfg = (\<lambda>(s, w).
     case n_socket N w of (fd, w1) \<Rightarrow>
       let s1 = s\<lparr>socketfd := fd\<rparr> in
       if fd = - 1 then (False, s1, w1)
       else
         let w2 = o_optimize S fd w1 in
         case (case o_inet_pton S (sc_host cfg) of Some a \<Rightarrow> (Some a, w2) | None \<Rightarrow> o_getaddrinfo S (sc_host cfg) w2) of
           (None, w3) \<Rightarrow> closeAndFail N fd s1 w3
         | (Some a, w3) \<Rightarrow>
             (case o_connect S fd a (sc_port cfg) w3 of (rc, w4) \<Rightarrow>
                if rc \<noteq> 0 then closeAndFail N fd s1 w4 else (True, s1, w4)))"

definition handshake :: "('r, 'w) Net \<Rightarrow> 'w Ssh \<Rightarrow> SSHSession \<times> 'w \<Rightarrow> bool \<times> SSHSession \<times> 'w" where
  "handshake N S = (\<lambda>(s, w).
     case x_init S w of
       (None, w1) \<Rightarrow> (False, s\<lparr>session := None\<rparr>, w1)
     | (Some x, w1) \<Rightarrow>
         (case s_lock N 5000 w1 of (locked, w2) \<Rightarrow>
            if \<not> locked then (False, s\<lparr>session := None\<rparr>, x_free S x w2)
            else case x_handshake S x (socketfd s) w2 of (rc, w3) \<Rightarrow>
              if rc \<noteq> 0 then (False, s\<lparr>session := None\<rparr>, s_unlock N (x_free S x w3))
              else (True, s\<lparr>session := Some x\<rparr>, s_unlock N w3)))"

definition configureKeepalive :: "('r, 'w) Net \<Rightarrow> 'w Ssh \<Rightarrow> ConnectionConfig \<Rightarrow> nat \<Rightarrow> 'w \<Rightarrow> 'w" where
  "configureKeepalive N S conn x w =
     (if \<not> libssh2KeepAliveEnabled conn then w
      else case s_lock N 200 w of (locked, w1) \<Rightarrow>
        if locked then s_unlock N (x_keepalive_config S x (libssh2KeepAliveIntervalSec conn) w1) else w1)"

text \<open>The reading of the key and the check.\<close>

definition checkHostKey :: "('r, 'w) Net \<Rightarrow> 'w Ssh \<Rightarrow> SSHServerConfig \<Rightarrow> nat \<Rightarrow> 'w \<Rightarrow> bool \<times> 'w" where
  "checkHostKey N S cfg x w =
     (if \<not> verifyHostKeyOn cfg then (fst (verifyHostKey cfg True None), w)
      else case s_lock N 200 w of (locked, w1) \<Rightarrow>
        if \<not> locked then (fst (verifyHostKey cfg False None), w1)
        else case x_hostkey S x w1 of (key, w2) \<Rightarrow> (fst (verifyHostKey cfg True key), s_unlock N w2))"

text \<open>The attempts with a key in memory: the configured passphrase, the empty one and none.\<close>

fun publickey_loop ::
  "('r, 'w) Net \<Rightarrow> 'w Ssh \<Rightarrow> SSHServerConfig \<Rightarrow> nat \<Rightarrow> string option list \<Rightarrow> 'w \<Rightarrow> bool \<times> 'w" where
  "publickey_loop N S cfg x [] w = (False, w)"
| "publickey_loop N S cfg x (p # ps) w =
     (case s_lock N 1000 w of (locked, w1) \<Rightarrow>
        if \<not> locked then (False, w1)
        else case x_userauth_frommemory S x (username cfg) (publicKeyData cfg) (privateKeyData cfg) p w1 of (rc, w2) \<Rightarrow>
          if rc = 0 then (True, s_unlock N w2) else publickey_loop N S cfg x ps (s_unlock N w2))"

definition passphrases :: "SSHServerConfig \<Rightarrow> string option list" where
  "passphrases cfg = [if password cfg \<noteq> [] then Some (password cfg) else None, Some [], None]"

definition authenticateKey ::
  "('r, 'w) Net \<Rightarrow> 'w Ssh \<Rightarrow> SSHConfiguration \<Rightarrow> nat \<Rightarrow> 'w \<Rightarrow> bool \<times> 'w" where
  "authenticateKey N S c x w =
     (let cfg = sshConfig c in
      if privateKeyData cfg \<noteq> [] \<and> publicKeyData cfg \<noteq> [] then
        (if \<not> validateSSHKeys c then (False, w) else publickey_loop N S cfg x (passphrases cfg) w)
      else case s_lock N 1000 w of (locked, w1) \<Rightarrow>
        if \<not> locked then (False, w1)
        else case x_userauth_fromfile S x (username cfg) (privateKeyPath cfg @ ''.pub'') (privateKeyPath cfg) (password cfg) w1 of
          (rc, w2) \<Rightarrow> (rc = 0, s_unlock N w2))"

text \<open>The message of the last error, for the log, is read under the lock.\<close>

definition readErrorDetail :: "('r, 'w) Net \<Rightarrow> nat \<Rightarrow> 'w \<Rightarrow> 'w" where
  "readErrorDetail N ticks w = (case s_lock N ticks w of (locked, w1) \<Rightarrow> if locked then s_unlock N w1 else w1)"

definition authenticate ::
  "('r, 'w) Net \<Rightarrow> 'w Ssh \<Rightarrow> SSHConfiguration \<Rightarrow> nat \<Rightarrow> 'w \<Rightarrow> bool \<times> 'w" where
  "authenticate N S c x w =
     (case s_lock N 500 w of (locked, w1) \<Rightarrow>
        if \<not> locked then (False, w1)
        else case x_userauth_list S x (username (sshConfig c)) w1 of (methods, w2) \<Rightarrow>
          let w3 = s_unlock N w2 in
          if methods = None then (False, readErrorDetail N 200 w3)
          else if \<not> useSSHKey (sshConfig c) then
            (case s_lock N 1000 w3 of (locked2, w4) \<Rightarrow>
               if \<not> locked2 then (False, w4)
               else case x_userauth_password S x (username (sshConfig c)) (password (sshConfig c)) w4 of
                 (rc, w5) \<Rightarrow> (rc = 0, s_unlock N w5))
          else authenticateKey N S c x w3)"

section \<open>Listeners\<close>

text \<open>At most \<open>n\<close> attempts to bind, with a pause after each failure.\<close>

fun listen_loop ::
  "('r, 'w) Net \<Rightarrow> 'w Ssh \<Rightarrow> nat \<Rightarrow> TunnelConfig \<Rightarrow> int \<Rightarrow> nat \<Rightarrow> 'w \<Rightarrow> (nat \<times> int) option \<times> 'w" where
  "listen_loop N S x m maxlisten 0 w = (None, w)"
| "listen_loop N S x m maxlisten (Suc n) w =
     (case s_lock N 500 w of (locked, w1) \<Rightarrow>
        if \<not> locked then listen_loop N S x m maxlisten n (o_delay S 10 w1)
        else case x_forward_listen S x (remoteBindHost m) (remoteBindPort m) maxlisten w1 of (r, w2) \<Rightarrow>
          let w3 = s_unlock N w2 in
          (case r of Some h \<Rightarrow> (Some h, w3) | None \<Rightarrow> listen_loop N S x m maxlisten n (o_delay S 10 w3)))"

definition createListenerForMapping ::
  "('r, 'w) Net \<Rightarrow> 'w Ssh \<Rightarrow> SSHConfiguration \<Rightarrow> nat \<Rightarrow> TunnelConfig \<Rightarrow> SSHSession \<times> 'w \<Rightarrow> ListenerEntry option \<times> SSHSession \<times> 'w" where
  "createListenerForMapping N S c x m = (\<lambda>(s, w).
     case listen_loop N S x m (max 1 (maxChannels (connectionConfig c))) 50 w of
       (None, w1) \<Rightarrow> (None, s, readErrorDetail N 100 w1)
     | (Some (h, bound), w1) \<Rightarrow>
         let e = \<lparr>listener = Some h, mapping = m, entryBoundPort = bound\<rparr> in
         if lastAcceptMs s = 0 then (case millis N w1 of (now, w2) \<Rightarrow> (Some e, s\<lparr>lastAcceptMs := now\<rparr>, w2))
         else (Some e, s, w1))"

fun listeners_loop ::
  "('r, 'w) Net \<Rightarrow> 'w Ssh \<Rightarrow> SSHConfiguration \<Rightarrow> nat \<Rightarrow> TunnelConfig list \<Rightarrow> SSHSession \<times> 'w \<Rightarrow> bool \<times> SSHSession \<times> 'w" where
  "listeners_loop N S c x [] sw = (True, sw)"
| "listeners_loop N S c x (m # ms) sw =
     (case createListenerForMapping N S c x m sw of
        (None, sw1) \<Rightarrow> (False, cancelAllListeners N S sw1)
      | (Some e, (s1, w1)) \<Rightarrow>
          listeners_loop N S c x ms
            (s1\<lparr>listeners := listeners s1 @ [e], boundPort := if boundPort s1 < 0 then entryBoundPort e else boundPort s1\<rparr>, w1))"

definition createListeners ::
  "('r, 'w) Net \<Rightarrow> 'w Ssh \<Rightarrow> SSHConfiguration \<Rightarrow> nat \<Rightarrow> SSHSession \<times> 'w \<Rightarrow> bool \<times> SSHSession \<times> 'w" where
  "createListeners N S c x sw =
     (let sw1 = cancelAllListeners N S sw; ms = tunnelMappings c;
          desired = min (maxReverseListeners (connectionConfig c)) (int (length ms)) in
      if ms = [] then (False, sw1)
      else if desired \<le> 0 then (False, sw1)
      else case listeners_loop N S c x (take (nat desired) ms) sw1 of (ok, (s2, w2)) \<Rightarrow> (ok \<and> listeners s2 \<noteq> [], s2, w2))"

section \<open>The whole connection\<close>

definition connectFailed ::
  "('r, 'w) Net \<Rightarrow> 'w Ssh \<Rightarrow> ConnectFailure \<Rightarrow> SSHSession \<times> 'w \<Rightarrow> bool \<times> SSHSession \<times> 'w" where
  "connectFailed N S f = (\<lambda>(s, w). (False, cleanupSession N S (s\<lparr>lastConnectFailure := f\<rparr>, w)))"

definition connectSession ::
  "('r, 'w) Net \<Rightarrow> 'w Ssh \<Rightarrow> SSHConfiguration \<Rightarrow> SSHSession \<times> 'w \<Rightarrow> bool \<times> SSHSession \<times> 'w" where
  "connectSession N S c = (\<lambda>(s, w).
     let s0 = (resetAcceptState s)\<lparr>lastConnectFailure := FailureNone\<rparr>;
         sw0 = (if session s0 \<noteq> None then cleanupSession N S (s0, w) else (s0, w)) in
     case tcpConnect N S (sshConfig c) sw0 of (ok, (s1, w1)) \<Rightarrow>
       if \<not> ok then (False, s1\<lparr>lastConnectFailure := FailureTcp\<rparr>, w1)
       else case handshake N S (s1, w1) of (ok, (s2, w2)) \<Rightarrow>
         if \<not> ok then connectFailed N S FailureHandshake (s2, w2)
         else
           let x = the (session s2); w3 = configureKeepalive N S (connectionConfig c) x w2 in
           case checkHostKey N S (sshConfig c) x w3 of (ok, w4) \<Rightarrow>
             if \<not> ok then connectFailed N S FailureHostKey (s2, w4)
             else case authenticate N S c x w4 of (ok, w5) \<Rightarrow>
               if \<not> ok then connectFailed N S FailureAuth (s2, w5)
               else case createListeners N S c x (s2, w5) of (ok, (s6, w6)) \<Rightarrow>
                 if \<not> ok then connectFailed N S FailureReverseListener (s6, w6)
                 else case millis N (x_set_nonblocking S x w6) of (now, w7) \<Rightarrow>
                   (True, s6\<lparr>sessionConnectedMs := now, lastKeepaliveOkMs := now, lastKeepaliveAttemptMs := 0,
                            lastChannelUnknownLogMs := 0, channelUnknownTotal := 0\<rparr>, w7))"

section \<open>A live session\<close>

definition sendKeepalive :: "('r, 'w) Net \<Rightarrow> 'w Ssh \<Rightarrow> SSHSession \<times> 'w \<Rightarrow> bool \<times> SSHSession \<times> 'w" where
  "sendKeepalive N S = (\<lambda>(s, w).
     case session s of None \<Rightarrow> (False, s, w)
     | Some x \<Rightarrow>
         (case millis N w of (now, w1) \<Rightarrow>
            let s1 = s\<lparr>lastKeepaliveAttemptMs := now\<rparr> in
            case s_lock N 200 w1 of (locked, w2) \<Rightarrow>
              if \<not> locked then (True, s1, w2)
              else case x_keepalive_send S x w2 of (rc, w3) \<Rightarrow>
                let w4 = s_unlock N w3 in
                if rc = 0 then (True, s1\<lparr>keepAliveFailures := 0, lastKeepaliveOkMs := now\<rparr>, w4)
                else if rc = LIBSSH2_ERROR_SOCKET_SEND then
                  (let n = keepAliveFailures s1 + 1 in
                   if 3 \<le> n then (False, s1\<lparr>keepAliveFailures := 0\<rparr>, w4) else (True, s1\<lparr>keepAliveFailures := n\<rparr>, w4))
                else if rc \<noteq> LIBSSH2_ERROR_EAGAIN then (True, s1\<lparr>keepAliveFailures := 0\<rparr>, w4)
                else (True, s1, w4)))"

definition checkConnection :: "('r, 'w) Net \<Rightarrow> SSHSession \<times> 'w \<Rightarrow> bool \<times> 'w" where
  "checkConnection N = (\<lambda>(s, w).
     if session s = None \<or> socketfd s < 0 then (False, w)
     else case n_sockerr N (socketfd s) w of ((rc, err), w1) \<Rightarrow> (rc = 0 \<and> err = 0, w1))"

definition isFatalAcceptError :: "int \<Rightarrow> bool" where
  "isFatalAcceptError err =
     isFatal err LIBSSH2_ERROR_EAGAIN LIBSSH2_ERROR_CHANNEL_UNKNOWN LIBSSH2_ERROR_CHANNEL_CLOSED LIBSSH2_ERROR_SOCKET_SEND
       LIBSSH2_ERROR_SOCKET_DISCONNECT"

definition hasFatalAcceptFailure :: "SSHSession \<Rightarrow> bool" where
  "hasFatalAcceptFailure s =
     shouldReconnectAfterConsecutiveErrors (consecutiveFatalAcceptErrors s) (lastAcceptError s) LIBSSH2_ERROR_EAGAIN
       LIBSSH2_ERROR_CHANNEL_UNKNOWN LIBSSH2_ERROR_CHANNEL_CLOSED LIBSSH2_ERROR_SOCKET_SEND LIBSSH2_ERROR_SOCKET_DISCONNECT"

definition recordAcceptSuccess :: "u32 \<Rightarrow> SSHSession \<Rightarrow> SSHSession" where
  "recordAcceptSuccess now s =
     s\<lparr>lastAcceptError := 0, consecutiveFatalAcceptErrors := 0, lastAcceptMs := now, totalAccepts := totalAccepts s + 1\<rparr>"

definition recordAcceptNoChannel :: "int \<Rightarrow> SSHSession \<Rightarrow> SSHSession" where
  "recordAcceptNoChannel err s =
     s\<lparr>lastAcceptError := err,
       consecutiveFatalAcceptErrors := if isFatalAcceptError err then consecutiveFatalAcceptErrors s + 1 else 0\<rparr>"

text \<open>The diagnostic of an unknown channel, once a second.\<close>

definition noteUnknownChannel :: "('r, 'w) Net \<Rightarrow> SSHSession \<times> 'w \<Rightarrow> SSHSession \<times> 'w" where
  "noteUnknownChannel N = (\<lambda>(s, w).
     case millis N w of (now, w1) \<Rightarrow>
       (s\<lparr>channelUnknownTotal := channelUnknownTotal s + 1,
         lastChannelUnknownLogMs := if 1000 \<le> now - lastChannelUnknownLogMs s then now else lastChannelUnknownLogMs s\<rparr>, w1))"

fun accept_loop ::
  "('r, 'w) Net \<Rightarrow> 'w Ssh \<Rightarrow> nat \<Rightarrow> ListenerEntry list \<Rightarrow> SSHSession \<times> 'w \<Rightarrow> (nat \<times> TunnelConfig) option \<times> SSHSession \<times> 'w" where
  "accept_loop N S x [] sw = (None, sw)"
| "accept_loop N S x (e # es) (s, w) =
     (case listener e of None \<Rightarrow> accept_loop N S x es (s, w)
      | Some l \<Rightarrow>
          (case s_lock N 50 w of (locked, w1) \<Rightarrow>
             if \<not> locked then accept_loop N S x es (s, w1)
             else case x_forward_accept S l w1 of (ch, w2) \<Rightarrow>
               let err = (if ch \<noteq> None then 0 else x_last_errno S x w2); w3 = s_unlock N w2 in
               (case ch of
                  Some h \<Rightarrow> (case millis N w3 of (now, w4) \<Rightarrow> (Some (h, mapping e), recordAcceptSuccess now s, w4))
                | None \<Rightarrow>
                    let s1 = recordAcceptNoChannel err s in
                    accept_loop N S x es
                      (if err = LIBSSH2_ERROR_CHANNEL_UNKNOWN then noteUnknownChannel N (s1, w3) else (s1, w3)))))"

definition acceptChannel :: "('r, 'w) Net \<Rightarrow> 'w Ssh \<Rightarrow> SSHSession \<times> 'w \<Rightarrow> (nat \<times> TunnelConfig) option \<times> SSHSession \<times> 'w" where
  "acceptChannel N S = (\<lambda>(s, w).
     case session s of None \<Rightarrow> (None, s, w)
     | Some x \<Rightarrow> if listeners s = [] then (None, s, w) else accept_loop N S x (listeners s) (s, w))"

text \<open>The watchdog over idle listeners.\<close>

fun relisten_loop ::
  "('r, 'w) Net \<Rightarrow> 'w Ssh \<Rightarrow> SSHConfiguration \<Rightarrow> nat \<Rightarrow> ListenerEntry list \<Rightarrow> SSHSession \<times> 'w \<Rightarrow> bool \<times> ListenerEntry list \<times> SSHSession \<times> 'w" where
  "relisten_loop N S c x [] sw = (False, [], sw)"
| "relisten_loop N S c x (e # es) (s, w) =
     (case listener e of None \<Rightarrow> (case relisten_loop N S c x es (s, w) of (any, es', sw') \<Rightarrow> (any, e # es', sw'))
      | Some _ \<Rightarrow>
          (case cancelListener N S e w of (e1, w1) \<Rightarrow>
             case createListenerForMapping N S c x (mapping e) (s, w1) of (r, sw2) \<Rightarrow>
               case relisten_loop N S c x es sw2 of (any, es', sw') \<Rightarrow>
                 (r \<noteq> None \<or> any, (case r of Some e2 \<Rightarrow> e2 | None \<Rightarrow> e1) # es', sw')))"

definition relistenStuckListeners ::
  "('r, 'w) Net \<Rightarrow> 'w Ssh \<Rightarrow> SSHConfiguration \<Rightarrow> u32 \<Rightarrow> u32 \<Rightarrow> SSHSession \<times> 'w \<Rightarrow> bool \<times> SSHSession \<times> 'w" where
  "relistenStuckListeners N S c nowMs thresholdMs = (\<lambda>(s, w).
     if session s = None \<or> socketfd s < 0 \<or> listeners s = [] then (False, s, w)
     else if thresholdMs = 0 \<or> lastAcceptMs s = 0 \<or> totalAccepts s = 0 then (False, s, w)
     else if nowMs - lastAcceptMs s < thresholdMs then (False, s, w)
     else case relisten_loop N S c (the (session s)) (listeners s) (s, w) of (any, es, (s1, w1)) \<Rightarrow>
       (any, s1\<lparr>listeners := es, lastAcceptMs := nowMs, lastAcceptError := 0, consecutiveFatalAcceptErrors := 0\<rparr>, w1))"

text \<open>
  \<open>openDirectTcpip\<close>: the loop runs until a channel is opened, libssh2 fails or the time is over, and for ever when
  the time is 0; \<open>None\<close> is a loop that used up its fuel.
\<close>

fun direct_loop ::
  "('r, 'w) Net \<Rightarrow> 'w Ssh \<Rightarrow> nat \<Rightarrow> nat \<Rightarrow> string \<Rightarrow> int \<Rightarrow> string \<Rightarrow> int \<Rightarrow> u32 \<Rightarrow> u32 \<Rightarrow> 'w \<Rightarrow> (nat option \<times> 'w) option" where
  "direct_loop N S 0 x host port origin originPort timeoutMs deadline w = None"
| "direct_loop N S (Suc fuel) x host port origin originPort timeoutMs deadline w =
     (case (if timeoutMs = 0 then (True, w) else case millis N w of (now, w') \<Rightarrow> (sint (now - deadline) < 0, w')) of
        (go, w0) \<Rightarrow>
          if \<not> go then Some (None, w0)
          else case s_lock N 100 w0 of (locked, w1) \<Rightarrow>
            if \<not> locked then direct_loop N S fuel x host port origin originPort timeoutMs deadline (o_delay S 5 w1)
            else case x_direct_tcpip S x host port origin originPort w1 of (r, w2) \<Rightarrow>
              (case r of
                 Some ch \<Rightarrow> Some (Some ch, s_unlock N (ch_set_nonblocking N ch w2))
               | None \<Rightarrow>
                   if x_last_errno S x w2 \<noteq> LIBSSH2_ERROR_EAGAIN then Some (None, s_unlock N w2)
                   else direct_loop N S fuel x host port origin originPort timeoutMs deadline (o_delay S 10 (s_unlock N w2))))"

definition openDirectSession ::
  "('r, 'w) Net \<Rightarrow> 'w Ssh \<Rightarrow> nat \<Rightarrow> string \<Rightarrow> int \<Rightarrow> string \<Rightarrow> int \<Rightarrow> u32 \<Rightarrow> SSHSession \<Rightarrow> 'w \<Rightarrow> (nat option \<times> 'w) option" where
  "openDirectSession N S fuel host port sourceHost sourcePort timeoutMs s w =
     (case session s of None \<Rightarrow> Some (None, w)
      | Some x \<Rightarrow>
          if socketfd s < 0 \<or> cstr host = [] \<or> port \<le> 0 \<or> 65535 < port then Some (None, w)
          else
            let origin = (if cstr sourceHost \<noteq> [] then sourceHost else ''127.0.0.1'') in
            case millis N w of (start, w1) \<Rightarrow>
              direct_loop N S fuel x host port origin sourcePort timeoutMs (start + timeoutMs) w1)"

end
