(* ===== verification/Tunnel_Fingerprint.thy ===== *)
theory Tunnel_Fingerprint
  imports Tunnel_HostKey
begin

text \<open>
  What the check of the server's key guarantees.  The printed forms of a digest are injective, every usual way to
  write a digest down is recognised, so a configured fingerprint accepts one key and no other.
\<close>

section \<open>Base64 is injective\<close>

text \<open>The 24 bits a group of bytes is printed from.\<close>

definition tripleOf :: "u8 \<Rightarrow> u8 option \<Rightarrow> u8 option \<Rightarrow> u32" where
  "tripleOf a b c = push_bit 16 (ucast a) OR push_bit 8 (case b of None \<Rightarrow> 0 | Some v \<Rightarrow> ucast v) OR
     (case c of None \<Rightarrow> 0 | Some v \<Rightarrow> ucast v)"

lemma sextet_nth:
  assumes "kBase64Table ! unat (x AND 0x3F) = kBase64Table ! unat (y AND 0x3F)"
  shows "x AND 0x3F = y AND (0x3F :: u32)"
proof -
  have d: "distinct kBase64Table" unfolding kBase64Table_def by code_simp
  have l: "unat (w AND 0x3F) < length kBase64Table" for w :: u32
  proof -
    have "w AND 0x3F \<le> (0x3F :: u32)" by (rule word_and_le1)
    then have "unat (w AND 0x3F) \<le> 63" by (simp add: word_le_nat_alt)
    moreover have "length kBase64Table = 64" by (simp add: kBase64Table_def)
    ultimately show ?thesis by simp
  qed
  show ?thesis using assms nth_eq_iff_index_eq [OF d l l] by (simp add: word_unat_eq_iff)
qed

lemma mask6: "bit (63 :: u32) n \<longleftrightarrow> n < 6"
proof -
  have "(63 :: u32) = mask 6" by (simp add: mask_eq_exp_minus_1)
  then show ?thesis by (simp only: bit_mask_iff) auto
qed

lemma sextets_inj:
  fixes x y :: u32
  assumes "drop_bit 18 x AND 0x3F = drop_bit 18 y AND 0x3F" "drop_bit 12 x AND 0x3F = drop_bit 12 y AND 0x3F"
    "drop_bit 6 x AND 0x3F = drop_bit 6 y AND 0x3F" "x AND 0x3F = y AND 0x3F" and "n < 24"
  shows "bit x n = bit y n"
proof -
  have e: "bit (drop_bit k x AND 0x3F) i = bit (drop_bit k y AND 0x3F) i" if "drop_bit k x AND 0x3F = drop_bit k y AND 0x3F" for k i
    using that by simp
  have "bit x (k + i) = bit y (k + i)" if "drop_bit k x AND 0x3F = drop_bit k y AND 0x3F" "i < 6" for k i
    using e [OF that(1), of i] that(2) by (simp only: bit_and_iff mask6 bit_drop_bit_eq o_def simp_thms add.commute)
  from this [of 18 "n - 18"] this [of 12 "n - 12"] this [of 6 "n - 6"] this [of 0 n] assms
  show ?thesis by (cases "n < 6"; cases "n < 12"; cases "n < 18") auto
qed

lemma tripleOf_bits:
  "i < 8 \<Longrightarrow> bit (tripleOf a b c) (16 + i) = bit a i"
  "i < 8 \<Longrightarrow> bit (tripleOf a b c) (8 + i) = (case b of None \<Rightarrow> False | Some v \<Rightarrow> bit v i)"
  "i < 8 \<Longrightarrow> bit (tripleOf a b c) i = (case c of None \<Rightarrow> False | Some v \<Rightarrow> bit v i)"
  by (auto simp: tripleOf_def bit_simps bit_push_bit_iff bit_or_iff dest: bit_imp_le_length split: option.split)

lemma tripleOf_inj:
  assumes "\<And>n. n < 24 \<Longrightarrow> bit (tripleOf a b c) n = bit (tripleOf a' b' c') n"
    and "(b = None) = (b' = None)" and "(c = None) = (c' = None)"
  shows "a = a' \<and> b = b' \<and> c = c'"
proof (intro conjI)
  show "a = a'"
  proof (rule bit_word_eqI)
    fix i assume "i < LENGTH(8)"
    then show "bit a i = bit a' i" using assms(1) [of "16 + i"] tripleOf_bits(1) [of i a b c] tripleOf_bits(1) [of i a' b' c'] by simp
  qed
  show "b = b'"
  proof (cases b)
    case (Some v)
    then obtain v' where v': "b' = Some v'" using assms(2) by auto
    have "v = v'"
    proof (rule bit_word_eqI)
      fix i assume "i < LENGTH(8)"
      then show "bit v i = bit v' i"
        using assms(1) [of "8 + i"] tripleOf_bits(2) [of i a b c] tripleOf_bits(2) [of i a' b' c'] Some v' by simp
    qed
    then show ?thesis using Some v' by simp
  qed (use assms(2) in simp)
  show "c = c'"
  proof (cases c)
    case (Some v)
    then obtain v' where v': "c' = Some v'" using assms(3) by auto
    have "v = v'"
    proof (rule bit_word_eqI)
      fix i assume "i < LENGTH(8)"
      then show "bit v i = bit v' i"
        using assms(1) [of i] tripleOf_bits(3) [of i a b c] tripleOf_bits(3) [of i a' b' c'] Some v' by simp
    qed
    then show ?thesis using Some v' by simp
  qed (use assms(3) in simp)
qed

lemma base64Group_triple:
  "base64Group a b c =
     [kBase64Table ! unat (drop_bit 18 (tripleOf a b c) AND 0x3F), kBase64Table ! unat (drop_bit 12 (tripleOf a b c) AND 0x3F),
      if b \<noteq> None then kBase64Table ! unat (drop_bit 6 (tripleOf a b c) AND 0x3F) else CHR ''='',
      if c \<noteq> None then kBase64Table ! unat (tripleOf a b c AND 0x3F) else CHR ''='']"
  by (simp add: base64Group_def tripleOf_def Let_def)

text \<open>A missing byte counts as 0, so the sextets that are not printed are known.\<close>

lemma missing_sextet:
  assumes "b = None" and "c = None"
  shows "drop_bit 6 (tripleOf a b c) AND 0x3F = 0"
proof (rule bit_word_eqI)
  fix i :: nat
  have "\<not> bit (tripleOf a b c) (6 + i)" if "i < 6"
    using that tripleOf_bits(2) [of "i - 2" a b c] tripleOf_bits(3) [of "6 + i" a b c] assms by (cases "i < 2") auto
  then show "bit (drop_bit 6 (tripleOf a b c) AND 0x3F) i = bit (0 :: u32) i"
    by (auto simp only: bit_and_iff mask6 bit_drop_bit_eq o_def bit_0_eq bot_fun_def bot_bool_def)
qed

lemma missing_last:
  assumes "c = None"
  shows "tripleOf a b c AND 0x3F = 0"
proof (rule bit_word_eqI)
  fix i :: nat
  have "\<not> bit (tripleOf a b c) i" if "i < 6" using that tripleOf_bits(3) [of i a b c] assms by auto
  then show "bit (tripleOf a b c AND 0x3F) i = bit (0 :: u32) i"
    by (auto simp only: bit_and_iff mask6 bit_0_eq bot_fun_def bot_bool_def)
qed

lemma base64Group_inj:
  assumes "base64Group a b c = base64Group a' b' c'" and "(b = None) = (b' = None)" and "(c = None) = (c' = None)"
    and "c \<noteq> None \<Longrightarrow> b \<noteq> None"
  shows "a = a' \<and> b = b' \<and> c = c'"
proof -
  have s: "drop_bit 18 (tripleOf a b c) AND 0x3F = drop_bit 18 (tripleOf a' b' c') AND 0x3F"
    "drop_bit 12 (tripleOf a b c) AND 0x3F = drop_bit 12 (tripleOf a' b' c') AND 0x3F"
    "b \<noteq> None \<Longrightarrow> drop_bit 6 (tripleOf a b c) AND 0x3F = drop_bit 6 (tripleOf a' b' c') AND 0x3F"
    "c \<noteq> None \<Longrightarrow> tripleOf a b c AND 0x3F = tripleOf a' b' c' AND 0x3F"
    by (rule sextet_nth; use assms(1-3) in \<open>simp only: base64Group_triple list.inject simp_thms if_True\<close>)+
  have m: "drop_bit 6 (tripleOf a b c) AND 0x3F = drop_bit 6 (tripleOf a' b' c') AND 0x3F"
    using s(3) missing_sextet assms(2-4) by metis
  have l: "tripleOf a b c AND 0x3F = tripleOf a' b' c' AND 0x3F" using s(4) missing_last assms(3) by metis
  show ?thesis by (rule tripleOf_inj [OF sextets_inj [OF s(1,2) m l] assms(2,3)])
qed

lemma length_base64Group [simp]: "length (base64Group a b c) = 4"
  by (simp add: base64Group_triple)

lemma base64_loop_inj: "length x = length y \<Longrightarrow> base64_loop x = base64_loop y \<Longrightarrow> x = y"
proof (induction x arbitrary: y rule: base64_loop.induct)
  case (2 a)
  then obtain a' where "y = [a']" by (cases y) auto
  with 2 show ?case using base64Group_inj [of a None None a' None None] by simp
next
  case (3 a b)
  then obtain a' b' where "y = [a', b']" by (cases y rule: base64_loop.cases) simp_all
  with 3 show ?case using base64Group_inj [of a "Some b" None a' "Some b'" None] by simp
next
  case (4 a b c data)
  then obtain a' b' c' data' where y: "y = a' # b' # c' # data'"
    by (cases y; cases "drop 1 y"; cases "drop 2 y") auto
  with 4 have "base64Group a (Some b) (Some c) = base64Group a' (Some b') (Some c')" "base64_loop data = base64_loop data'"
    by simp_all
  then show ?case using base64Group_inj [of a "Some b" "Some c" a' "Some b'" "Some c'"] "4.IH" [of data'] "4.prems" y by simp
qed simp

section \<open>Characters\<close>

lemma hex_chars: "set (encodeFingerprintHex d) \<subseteq> set kHexDigits"
proof (induction d rule: encodeFingerprintHex.induct)
  case (2 v d)
  have "unat (w AND 0x0F) < length kHexDigits" for w :: u8
  proof -
    have "w AND 0x0F \<le> (0x0F :: u8)" by (rule word_and_le1)
    then show ?thesis by (simp add: word_le_nat_alt kHexDigits_def)
  qed
  then show ?case using 2 by (auto simp only: encodeFingerprintHex.simps list.set nth_mem intro!: insert_subsetI)
qed simp

lemma length_encodeFingerprintHex [simp]: "length (encodeFingerprintHex d) = 2 * length d"
  by (induction d rule: encodeFingerprintHex.induct) simp_all

lemma base64_chars: "set (base64_loop d) \<subseteq> insert (CHR ''='') (set kBase64Table)"
proof -
  have t: "kBase64Table ! unat (w AND 0x3F) \<in> set kBase64Table" for w :: u32
  proof (rule nth_mem)
    have "w AND 0x3F \<le> (0x3F :: u32)" by (rule word_and_le1)
    then have "unat (w AND 0x3F) \<le> 63" by (simp add: word_le_nat_alt)
    moreover have "length kBase64Table = 64" by (simp add: kBase64Table_def)
    ultimately show "unat (w AND 0x3F) < length kBase64Table" by simp
  qed
  have g: "set (base64Group a b c) \<subseteq> insert (CHR ''='') (set kBase64Table)" for a b c
    using t unfolding base64Group_triple by (auto simp del: nth_mem)
  show ?thesis by (induction d rule: base64_loop.induct) (use g in \<open>simp_all, blast?\<close>)
qed

text \<open>Padding stands at the end only, and its length depends on the number of bytes.\<close>

definition padding :: "nat \<Rightarrow> nat" where
  "padding n = (3 - n mod 3) mod 3"

lemma group_chars:
  "CHR ''='' \<notin> set (base64Group a (Some b) (Some c))"
  "\<exists>s. base64Group a (Some b) None = s @ ''='' \<and> CHR ''='' \<notin> set s"
  "\<exists>s. base64Group a None None = s @ ''=='' \<and> CHR ''='' \<notin> set s"
proof -
  have n: "CHR ''='' \<notin> set kBase64Table" unfolding kBase64Table_def by simp
  have t: "kBase64Table ! unat (w AND 0x3F) \<noteq> CHR ''=''" for w :: u32
  proof -
    have "w AND 0x3F \<le> (0x3F :: u32)" by (rule word_and_le1)
    then have "unat (w AND 0x3F) \<le> 63" by (simp add: word_le_nat_alt)
    moreover have "length kBase64Table = 64" by (simp add: kBase64Table_def)
    ultimately have "kBase64Table ! unat (w AND 0x3F) \<in> set kBase64Table" by (intro nth_mem) simp
    then show ?thesis using n by metis
  qed
  show "CHR ''='' \<notin> set (base64Group a (Some b) (Some c))"
    using t [symmetric] by (simp add: base64Group_triple)
  show "\<exists>s. base64Group a (Some b) None = s @ ''='' \<and> CHR ''='' \<notin> set s"
    by (rule exI [of _ "take 3 (base64Group a (Some b) None)"]) (use t [symmetric] in \<open>simp add: base64Group_triple\<close>)
  show "\<exists>s. base64Group a None None = s @ ''=='' \<and> CHR ''='' \<notin> set s"
    by (rule exI [of _ "take 2 (base64Group a None None)"]) (use t [symmetric] in \<open>simp add: base64Group_triple\<close>)
qed

lemma replicate_two: "replicate 2 c = [c, c]"
  by (simp add: numeral_2_eq_2)

lemma base64_padded:
  "\<exists>s. base64_loop d = s @ replicate (padding (length d)) (CHR ''='') \<and> CHR ''='' \<notin> set s"
proof (induction d rule: base64_loop.induct)
  case (2 a)
  show ?case using group_chars(3) [of a] by (simp add: padding_def replicate_two)
next
  case (3 a b)
  show ?case using group_chars(2) [of a b] by (simp add: padding_def)
next
  case (4 a b c d)
  then obtain s where s: "base64_loop d = s @ replicate (padding (length d)) (CHR ''='')" "CHR ''='' \<notin> set s" by blast
  have "padding (length (a # b # c # d)) = padding (length d)" by (simp add: padding_def)
  then show ?case using s group_chars(1) [of a b c]
    by (intro exI [of _ "base64Group a (Some b) (Some c) @ s"]) simp
qed (simp add: padding_def)

lemma base64_stripped:
  "base64_loop d = encodeFingerprintBase64 d @ replicate (padding (length d)) (CHR ''='')"
  "CHR ''='' \<notin> set (encodeFingerprintBase64 d)"
proof -
  obtain s where s: "base64_loop d = s @ replicate (padding (length d)) (CHR ''='')" "CHR ''='' \<notin> set s"
    using base64_padded by blast
  have "dropWhile (\<lambda>c. c = CHR ''='') (replicate k (CHR ''='') @ rev s) = rev s" for k
  proof (induction k)
    case 0
    have "hd (rev s) \<noteq> CHR ''=''" if "rev s \<noteq> []" using s(2) hd_in_set [OF that] by (auto simp only: set_rev)
    then show ?case by (simp only: replicate_0 append_Nil dropWhile_eq_self_iff) blast
  qed simp
  then have "encodeFingerprintBase64 d = s" using s(1) by (simp add: encodeFingerprintBase64_def)
  then show "base64_loop d = encodeFingerprintBase64 d @ replicate (padding (length d)) (CHR ''='')"
    "CHR ''='' \<notin> set (encodeFingerprintBase64 d)" using s by simp_all
qed

lemma encodeFingerprintBase64_inj:
  "length x = length y \<Longrightarrow> encodeFingerprintBase64 x = encodeFingerprintBase64 y \<Longrightarrow> x = y"
  using base64_stripped(1) [of x] base64_stripped(1) [of y] base64_loop_inj [of x y] by simp

lemma encodeFingerprintBase64_chars: "set (encodeFingerprintBase64 d) \<subseteq> set kBase64Table"
  using base64_chars [of d] base64_stripped [of d] by auto

lemma encodeFingerprintHex_inj: "encodeFingerprintHex x = encodeFingerprintHex y \<Longrightarrow> x = y"
proof (induction x arbitrary: y rule: encodeFingerprintHex.induct)
  case (2 v x)
  then obtain w y' where y: "y = w # y'" by (cases y) auto
  have d: "distinct kHexDigits" unfolding kHexDigits_def by simp
  have l: "unat (w AND 0x0F) < length kHexDigits" for w :: u8
  proof -
    have "w AND 0x0F \<le> (0x0F :: u8)" by (rule word_and_le1)
    then show ?thesis by (simp add: word_le_nat_alt kHexDigits_def)
  qed
  have h: "drop_bit 4 v AND 0x0F = drop_bit 4 w AND 0x0F" "v AND 0x0F = w AND 0x0F"
    using "2.prems" y nth_eq_iff_index_eq [OF d l l] by (simp_all add: word_unat_eq_iff)
  have m: "(0x0F :: u8) = mask 4" by (simp add: mask_eq_exp_minus_1)
  have "v = w"
  proof (rule bit_word_eqI)
    fix i assume i: "i < LENGTH(8)"
    have b: "bit (drop_bit 4 v AND mask 4) (i - 4) = bit (drop_bit 4 w AND mask 4) (i - 4)"
      "bit (v AND mask 4) i = bit (w AND mask 4) i" using h by (simp_all only: m)
    have le: "\<not> i < 4 \<Longrightarrow> i - 4 < 4 \<and> i - 4 < 8" using i by auto
    show "bit v i = bit w i"
      using b i le by (cases "i < 4") (simp_all add: bit_and_iff bit_mask_iff bit_drop_bit_eq)
  qed
  then show ?case using "2.IH" [of y'] "2.prems" y by simp
next
  case 1
  then show ?case by (cases y) auto
qed

section \<open>The notations of a fingerprint\<close>

definition upperChar :: "char \<Rightarrow> char" where
  "upperChar c = (if 97 \<le> (of_char c :: nat) \<and> of_char c \<le> (122 :: nat) then char_of (of_char c - 32 :: nat) else c)"

fun withColons :: "string \<Rightarrow> string" where
  "withColons (a # b # c # s) = a # b # CHR '':'' # withColons (c # s)"
| "withColons s = s"

definition notations :: "bytes \<Rightarrow> string list" where
  "notations e =
     [encodeFingerprintBase64 e, ''SHA256:'' @ encodeFingerprintBase64 e, ''sha256:'' @ encodeFingerprintBase64 e,
      base64_loop e, ''SHA256:'' @ base64_loop e,
      encodeFingerprintHex e, map upperChar (encodeFingerprintHex e), withColons (encodeFingerprintHex e),
      withColons (map upperChar (encodeFingerprintHex e))]"

definition accepts :: "SSHServerConfig \<Rightarrow> string \<Rightarrow> int \<Rightarrow> bytes \<Rightarrow> bool" where
  "accepts cfg fingerprint t d =
     fst (verifyHostKey (cfg\<lparr>expectedHostKeyFingerprint := fingerprint\<rparr>) True
       (Some \<lparr>host_key_len = 1, host_key_type = t, fingerprint_raw = Some d\<rparr>))"

lemma trim_spaces:
  assumes "list_all isSpaceChar u" and "list_all isSpaceChar v" and "list_all (\<lambda>c. \<not> isSpaceChar c) s" and "s \<noteq> []"
  shows "trim (u @ s @ v) = s"
proof -
  have d: "dropWhile isSpaceChar (w @ x) = x"
    if "list_all isSpaceChar w" "x \<noteq> [] \<Longrightarrow> \<not> isSpaceChar (hd x)" for w x
    using that by (induction w) (auto simp: dropWhile_eq_self_iff)
  have "\<not> isSpaceChar (hd s)" "\<not> isSpaceChar (hd (rev s))"
    using assms(3,4) by (auto simp: list_all_iff hd_rev)
  then show ?thesis
    using d [of u "s @ v"] d [of "rev v" "rev s"] assms by (simp add: trim_def)
qed

lemma removeChar_id [simp]: "c \<notin> set s \<Longrightarrow> removeChar c s = s"
  by (auto simp: removeChar_def intro: filter_True)

lemma removeChar_append [simp]: "removeChar c (s @ t) = removeChar c s @ removeChar c t"
  by (simp add: removeChar_def)

lemma lowerChar_colon: "lowerChar c = CHR '':'' \<longleftrightarrow> c = CHR '':''"
proof
  assume l: "lowerChar c = CHR '':''"
  show "c = CHR '':''"
  proof (cases "65 \<le> (of_char c :: nat) \<and> of_char c \<le> (90 :: nat)")
    case True
    then have "of_char (lowerChar c) = (of_char c + 32 :: nat)" by (simp add: lowerChar_def)
    then show ?thesis using l True by simp
  next
    case False
    then show ?thesis using l by (auto simp: lowerChar_def split: if_splits)
  qed
qed (simp add: lowerChar_def)

lemma startsWith_set: "startsWith s p \<Longrightarrow> set p \<subseteq> set s"
  by (metis startsWith_def set_take_subset)

lemma startsWith_needs: "c \<notin> set s \<Longrightarrow> c \<in> set p \<Longrightarrow> \<not> startsWith s p"
  using startsWith_set by blast

lemma sha256_needs_colon:
  assumes "CHR '':'' \<notin> set s"
  shows "\<not> startsWith (toLowerCase s) ''sha256:''" "\<not> startsWith s ''SHA256:''" "\<not> startsWith s ''sha256:''"
proof -
  have l: "CHR '':'' \<notin> set (toLowerCase s)"
  proof
    assume "CHR '':'' \<in> set (toLowerCase s)"
    then obtain c where "c \<in> set s" "CHR '':'' = lowerChar c" by (auto simp only: toLowerCase_def set_map)
    then show False using lowerChar_colon assms by metis
  qed
  show "\<not> startsWith (toLowerCase s) ''sha256:''" by (rule startsWith_needs [OF l]) simp
  show "\<not> startsWith s ''SHA256:''" by (rule startsWith_needs [OF assms]) simp
  show "\<not> startsWith s ''sha256:''" by (rule startsWith_needs [OF assms]) simp
qed

lemma table_clean:
  "c \<in> set kBase64Table \<Longrightarrow> \<not> isSpaceChar c \<and> c \<noteq> CHR '':'' \<and> c \<noteq> CHR ''='' \<and> c \<noteq> CHR '' '' \<and> c \<noteq> CHR 0x0A \<and> c \<noteq> CHR 0x0D"
proof -
  have "list_all (\<lambda>c. \<not> isSpaceChar c \<and> c \<noteq> CHR '':'' \<and> c \<noteq> CHR ''='' \<and> c \<noteq> CHR '' '' \<and> c \<noteq> CHR 0x0A \<and> c \<noteq> CHR 0x0D) kBase64Table"
    unfolding kBase64Table_def isSpaceChar_def by simp
  then show "c \<in> set kBase64Table \<Longrightarrow> ?thesis" by (simp add: list_all_iff)
qed


lemma length_base64_loop: "length (base64_loop d) = 4 * ((length d + 2) div 3)"
proof (induction d rule: base64_loop.induct)
  case (4 a b c d)
  have "(length (a # b # c # d) + 2) div 3 = (length d + 2) div 3 + 1" by simp
  then show ?case using 4 by simp
qed simp_all

lemma base64_nonempty: "d \<noteq> [] \<Longrightarrow> encodeFingerprintBase64 d \<noteq> []"
proof
  assume d: "d \<noteq> []" and e: "encodeFingerprintBase64 d = []"
  have "length (base64_loop d) = padding (length d)" using base64_stripped(1) [of d] e by simp
  moreover have "padding (length d) < 3" by (simp add: padding_def)
  moreover have "4 \<le> length (base64_loop d)" using d by (cases d) (simp_all add: length_base64_loop)
  ultimately show False by simp
qed

lemma encodeFingerprintBase64_clean:
  "list_all (\<lambda>c. \<not> isSpaceChar c) (encodeFingerprintBase64 d)"
  "CHR '':'' \<notin> set (encodeFingerprintBase64 d)" "CHR '' '' \<notin> set (encodeFingerprintBase64 d)"
  "CHR 0x0A \<notin> set (encodeFingerprintBase64 d)" "CHR 0x0D \<notin> set (encodeFingerprintBase64 d)"
  using encodeFingerprintBase64_chars [of d] table_clean unfolding list_all_iff by blast+

lemma tidyBase64_encoded:
  assumes q: "q = [] \<or> q = ''=''" and "d \<noteq> []"
  shows "tidyBase64 (encodeFingerprintBase64 d @ q) = encodeFingerprintBase64 d"
proof -
  let ?b = "encodeFingerprintBase64 d"
  have c: "CHR '':'' \<notin> set (?b @ q)" using encodeFingerprintBase64_clean(2) [of d] q by auto
  have "list_all (\<lambda>c. \<not> isSpaceChar c) (?b @ q)"
    using encodeFingerprintBase64_clean(1) [of d] q by (auto simp: isSpaceChar_def)
  then have "trim (?b @ q) = ?b @ q" using trim_spaces [of "[]" "[]" "?b @ q"] base64_nonempty [OF assms(2)] by simp
  moreover have "removeChar (CHR 0x0A) (removeChar (CHR 0x0D) (removeChar (CHR '' '') (?b @ q))) = ?b @ q"
    using q by (elim disjE) (simp_all add: encodeFingerprintBase64_clean)
  moreover have "removeChar (CHR ''='') (?b @ q) = ?b"
    using q by (elim disjE) (simp_all add: base64_stripped(2), simp add: removeChar_def)
  ultimately show ?thesis using sha256_needs_colon(2,3) [OF c] by (simp add: tidyBase64_def Let_def)
qed

section \<open>Reading a notation\<close>

lemma cleanRaw:
  assumes "list_all isSpaceChar u" "list_all isSpaceChar v" "list_all (\<lambda>c. \<not> isSpaceChar c) s" "s \<noteq> []"
  shows "removeChar (CHR 0x0A) (removeChar (CHR 0x0D) (trim (u @ s @ v))) = s"
proof -
  have "CHR 0x0D \<notin> set s" "CHR 0x0A \<notin> set s" using assms(3) by (auto simp: list_all_iff isSpaceChar_def)
  then show ?thesis using trim_spaces [OF assms] by simp
qed

lemma expected_hex:
  assumes "list_all isSpaceChar u" "list_all isSpaceChar v" "list_all (\<lambda>c. \<not> isSpaceChar c) s"
    and h: "toLowerCase (removeChar (CHR '':'') s) = encodeFingerprintHex e" and "length e = 32"
    and n: "\<not> startsWith (toLowerCase s) ''sha256:''"
  shows "expectedComparable (u @ s @ v) = (False, encodeFingerprintHex e)"
proof -
  have "length (toLowerCase (removeChar (CHR '':'') s)) = 64" unfolding h using assms(5) by simp
  then have ne: "s \<noteq> []" by (auto simp: removeChar_def toLowerCase_def)
  have sp: "CHR '' '' \<notin> set s" using assms(3) by (auto simp: list_all_iff isSpaceChar_def)
  have k: "\<forall>c \<in> set kHexDigits. isxdigit c \<and> c \<noteq> CHR '':'' \<and> c \<noteq> CHR '' '' \<and> lowerChar c = c"
    unfolding kHexDigits_def isxdigit_def lowerChar_def by simp
  have x: "list_all isxdigit (encodeFingerprintHex e)" "CHR '':'' \<notin> set (encodeFingerprintHex e)"
    "CHR '' '' \<notin> set (encodeFingerprintHex e)" "toLowerCase (encodeFingerprintHex e) = encodeFingerprintHex e"
    using k hex_chars [of e] by (auto simp: list_all_iff toLowerCase_def intro: map_idI)
  show ?thesis
    using cleanRaw [OF assms(1-3) ne] n sp h x assms(5)
    by (simp add: expectedComparable_def Let_def isValidHexFingerprint_def)
qed

lemma expected_base64:
  assumes "list_all isSpaceChar u" "list_all isSpaceChar v" and q: "q = [] \<or> q = ''=''" and "length e = 32"
    and p: "p = [] \<or> p = ''SHA256:'' \<or> p = ''sha256:''"
  shows "expectedComparable (u @ (p @ encodeFingerprintBase64 e @ q) @ v) = (True, encodeFingerprintBase64 e)"
proof -
  let ?b = "encodeFingerprintBase64 e" let ?s = "p @ ?b @ q"
  have e: "e \<noteq> []" using assms(4) by auto
  have "length (base64_loop e) = length ?b + 1" using base64_stripped(1) [of e] assms(4) by (simp add: padding_def)
  then have len: "length ?b = 43" using length_base64_loop [of e] assms(4) by simp
  have clean: "list_all (\<lambda>c. \<not> isSpaceChar c) ?s"
    using encodeFingerprintBase64_clean(1) [of e] p q by (auto simp: isSpaceChar_def)
  have ne: "?s \<noteq> []" using base64_nonempty [OF e] by simp
  note raw = cleanRaw [OF assms(1,2) clean ne]
  have c: "CHR '':'' \<notin> set (?b @ q)" "CHR '' '' \<notin> set (?b @ q)" using encodeFingerprintBase64_clean(2,3) [of e] q by auto
  show ?thesis
  proof (cases "p = []")
    case True
    have "length (toLowerCase (removeChar (CHR '':'') (removeChar (CHR '' '') (?b @ q)))) \<noteq> 64"
      using q len c by (auto simp: toLowerCase_def)
    then show ?thesis
      using raw True sha256_needs_colon(1) [OF c(1)] tidyBase64_encoded [OF q e]
      by (simp add: expectedComparable_def Let_def isValidHexFingerprint_def)
  next
    case False
    then have "startsWith (toLowerCase ?s) ''sha256:''" "afterColon ?s = ?b @ q"
      using p by (auto simp: startsWith_def toLowerCase_def lowerChar_def afterColon_def char_of_def bit_Suc_0_iff)
    then show ?thesis using raw tidyBase64_encoded [OF q e] by (simp add: expectedComparable_def Let_def)
  qed
qed

lemma hex_case:
  "c \<in> set kHexDigits \<Longrightarrow> lowerChar c = c \<and> lowerChar (upperChar c) = c \<and> \<not> isSpaceChar c \<and> \<not> isSpaceChar (upperChar c)
     \<and> upperChar c \<noteq> CHR '':'' \<and> c \<noteq> CHR '':'' \<and> c \<noteq> CHR ''s''"
proof -
  have "list_all (\<lambda>c. lowerChar c = c \<and> lowerChar (upperChar c) = c \<and> \<not> isSpaceChar c \<and> \<not> isSpaceChar (upperChar c)
     \<and> upperChar c \<noteq> CHR '':'' \<and> c \<noteq> CHR '':'' \<and> c \<noteq> CHR ''s'') kHexDigits"
    unfolding kHexDigits_def lowerChar_def upperChar_def isSpaceChar_def
    by (simp add: char_of_def bit_Suc_0_iff)
  then show "c \<in> set kHexDigits \<Longrightarrow> ?thesis" by (simp add: list_all_iff)
qed

lemma withColons_set: "set (withColons s) \<subseteq> insert (CHR '':'') (set s)"
  by (induction s rule: withColons.induct) auto

lemma withColons_removed: "CHR '':'' \<notin> set s \<Longrightarrow> removeChar (CHR '':'') (withColons s) = s"
proof (induction s rule: withColons.induct)
  case (1 a b c s)
  then show ?case by (auto simp: removeChar_def)
qed simp_all

lemma expected_hex_notation:
  assumes "list_all isSpaceChar u" "list_all isSpaceChar v" "length e = 32"
    and s: "s = encodeFingerprintHex e \<or> s = map upperChar (encodeFingerprintHex e)"
    and w: "w = s \<or> w = withColons s"
  shows "expectedComparable (u @ w @ v) = (False, encodeFingerprintHex e)"
proof (rule expected_hex [OF assms(1,2) _ _ assms(3)])
  have h: "\<forall>c \<in> set (encodeFingerprintHex e). c \<in> set kHexDigits" using hex_chars [of e] by blast
  have low: "map lowerChar (encodeFingerprintHex e) = encodeFingerprintHex e"
    "map lowerChar (map upperChar (encodeFingerprintHex e)) = encodeFingerprintHex e"
    unfolding map_map by (rule map_idI; use h hex_case in \<open>simp only: o_apply\<close>)+
  then have l: "toLowerCase s = encodeFingerprintHex e" using s unfolding toLowerCase_def by (elim disjE) (simp_all only:)
  have x: "x \<noteq> CHR '':'' \<and> \<not> isSpaceChar x" if "x \<in> set s" for x
    using s
  proof
    assume "s = encodeFingerprintHex e"
    then have "x \<in> set kHexDigits" using that h by blast
    then show ?thesis using hex_case by blast
  next
    assume "s = map upperChar (encodeFingerprintHex e)"
    then have "x \<in> upperChar ` set (encodeFingerprintHex e)" using that by (simp only: set_map)
    then obtain y where y: "x = upperChar y" "y \<in> set (encodeFingerprintHex e)" by (rule imageE)
    show ?thesis using hex_case [OF bspec [OF h y(2)]] unfolding y(1) by simp
  qed
  have c: "CHR '':'' \<notin> set s" using x by blast
  have cw: "c \<in> set w \<Longrightarrow> c = CHR '':'' \<or> c \<in> set s" for c using w withColons_set [of s] by auto
  show "list_all (\<lambda>c. \<not> isSpaceChar c) w"
    unfolding list_all_iff
  proof
    fix c assume "c \<in> set w"
    then consider "c = CHR '':''" | "c \<in> set s" using cw by blast
    then show "\<not> isSpaceChar c" by cases (simp add: isSpaceChar_def, use x in blast)
  qed
  show "toLowerCase (removeChar (CHR '':'') w) = encodeFingerprintHex e"
    using w l removeChar_id [OF c] withColons_removed [OF c] by (elim disjE) (simp_all only:)
  show "\<not> startsWith (toLowerCase w) ''sha256:''"
  proof (rule startsWith_needs [of "CHR ''s''"])
    show "CHR ''s'' \<notin> set (toLowerCase w)"
    proof
      assume "CHR ''s'' \<in> set (toLowerCase w)"
      then obtain d where d: "d \<in> set w" "CHR ''s'' = lowerChar d" by (auto simp only: toLowerCase_def set_map)
      have "lowerChar (CHR '':'') = CHR '':''" by (simp add: lowerChar_def)
      then have "d \<in> set s" using cw [OF d(1)] d(2) by auto
      then have "lowerChar d \<in> set (toLowerCase s)" unfolding toLowerCase_def set_map by (rule imageI)
      then have "CHR ''s'' \<in> set (encodeFingerprintHex e)" unfolding l d(2) [symmetric] .
      then show False using h hex_case by blast
    qed
  qed simp
qed

lemma accepts_iff:
  assumes "verifyHostKeyOn cfg" "f \<noteq> []" "length d = 32"
  shows "accepts cfg f t d \<longleftrightarrow> (hostKeyType cfg = [] \<or> hostKeyType cfg = keyTypeStr t) \<and>
     snd (expectedComparable f) = (if fst (expectedComparable f) then encodeFingerprintBase64 d else encodeFingerprintHex d)"
  using assms by (simp add: accepts_def verifyHostKey_def Let_def case_prod_beta)

lemma notation_expected:
  assumes "list_all isSpaceChar u" "list_all isSpaceChar v" "length e = 32" "s \<in> set (notations e)"
  shows "u @ s @ v \<noteq> []"
    and "expectedComparable (u @ s @ v) = (True, encodeFingerprintBase64 e) \<or>
      expectedComparable (u @ s @ v) = (False, encodeFingerprintHex e)"
proof -
  have b: "base64_loop e = encodeFingerprintBase64 e @ ''=''" using base64_stripped(1) [of e] assms(3) by (simp add: padding_def)
  let ?b = "encodeFingerprintBase64 e" let ?h = "encodeFingerprintHex e" let ?H = "map upperChar (encodeFingerprintHex e)"
  consider p q where "p = [] \<or> p = ''SHA256:'' \<or> p = ''sha256:''" "q = [] \<or> q = ''=''" "s = p @ ?b @ q"
    | h where "h = ?h \<or> h = ?H" "s = h \<or> s = withColons h"
  proof -
    have "s \<in> {?b, ''SHA256:'' @ ?b, ''sha256:'' @ ?b, ?b @ ''='', ''SHA256:'' @ ?b @ ''='', ?h, ?H, withColons ?h, withColons ?H}"
      using assms(4) unfolding notations_def b by (simp only: list.set)
    then show ?thesis using that(1) [of "[]" "[]"] that(1) [of "''SHA256:''" "[]"] that(1) [of "''sha256:''" "[]"]
        that(1) [of "[]" "''=''"] that(1) [of "''SHA256:''" "''=''"] that(2) [of ?h] that(2) [of ?H]
      by (elim insertE emptyE) (simp_all only: append_Nil append_Nil2 simp_thms)
  qed
  then show "expectedComparable (u @ s @ v) = (True, encodeFingerprintBase64 e) \<or>
      expectedComparable (u @ s @ v) = (False, encodeFingerprintHex e)"
  proof cases
    case (1 p q)
    show ?thesis unfolding 1(3) by (rule disjI1) (rule expected_base64 [OF assms(1,2) 1(2) assms(3) 1(1)])
  next
    case (2 h)
    show ?thesis by (rule disjI2) (rule expected_hex_notation [OF assms(1-3) 2])
  qed
  then show "u @ s @ v \<noteq> []"
  proof (rule disjE)
    have e: "expectedComparable [] = (True, [])"
      by (simp add: expectedComparable_def Let_def trim_def removeChar_def startsWith_def toLowerCase_def
          isValidHexFingerprint_def tidyBase64_def)
    show "u @ s @ v \<noteq> []" if "expectedComparable (u @ s @ v) = (True, ?b)"
    proof
      assume "u @ s @ v = []"
      then have "expectedComparable [] = (True, ?b)" using that by (simp only:)
      moreover have "?b \<noteq> []" by (rule base64_nonempty) (use assms(3) in auto)
      ultimately show False using e by simp
    qed
    show "u @ s @ v \<noteq> []" if "expectedComparable (u @ s @ v) = (False, ?h)"
    proof
      assume "u @ s @ v = []"
      then have "expectedComparable [] = (False, ?h)" using that by (simp only:)
      then show False using e by simp
    qed
  qed
qed

text \<open>
  C18.  A configured fingerprint pins one server key.  With the check switched on, and a SHA-256 digest written in
  any of the usual notations -- base64 with or without its prefix and padding, hexadecimal in either case with or
  without colons, surrounded by white space or a line end -- a server is accepted exactly when its key has that
  digest and, where one is configured, that type; and whatever non-empty text is configured, no two digests are
  accepted for it.
\<close>

theorem fingerprint_pins_key:
  assumes on: "verifyHostKeyOn cfg" and len: "length e = 32" "length d = 32" and s: "s \<in> set (notations e)"
    and space: "list_all isSpaceChar u" "list_all isSpaceChar v"
  shows "(accepts cfg (u @ s @ v) t d \<longleftrightarrow> d = e \<and> (hostKeyType cfg = [] \<or> hostKeyType cfg = keyTypeStr t)) \<and>
    (\<forall>f t' d'. f \<noteq> [] \<and> length d' = 32 \<and> accepts cfg f t d \<and> accepts cfg f t' d' \<longrightarrow> d = d')"
proof (intro conjI allI impI)
  note n = notation_expected [OF space len(1) s]
  show "accepts cfg (u @ s @ v) t d \<longleftrightarrow> d = e \<and> (hostKeyType cfg = [] \<or> hostKeyType cfg = keyTypeStr t)"
    unfolding accepts_iff [OF on n(1) len(2)]
    using n(2) encodeFingerprintBase64_inj [of e d] encodeFingerprintHex_inj [of e d] len by auto
next
  fix f t' d'
  assume f: "f \<noteq> [] \<and> length d' = 32 \<and> accepts cfg f t d \<and> accepts cfg f t' d'"
  then have f': "f \<noteq> []" "length d' = 32" "accepts cfg f t d" "accepts cfg f t' d'" by auto
  show "d = d'"
    using f'(3,4) encodeFingerprintBase64_inj [of d d'] encodeFingerprintHex_inj [of d d'] len(2) f'(2)
    unfolding accepts_iff [OF on f'(1) len(2)] accepts_iff [OF on f'(1,2)]
    by (cases "fst (expectedComparable f)") simp_all
qed

end
