(* ===== verification/Tunnel_Connect.thy ===== *)
theory Tunnel_Connect
  imports Tunnel_Session Tunnel_Fingerprint
begin

text \<open>
  What connecting guarantees: a failed connection leaves nothing behind, a good one has a checked server and all
  its listeners, and a server with another key is sent no credentials.
\<close>

section \<open>Nothing is left behind\<close>

text \<open>A session without a connection holds no socket and no listener; a connected one holds a socket.\<close>

definition session_ok :: "SSHSession \<Rightarrow> bool" where
  "session_ok s \<longleftrightarrow>
     (case session s of None \<Rightarrow> socketfd s = - 1 \<and> listeners s = [] \<and> boundPort s = - 1 | Some _ \<Rightarrow> 0 \<le> socketfd s)"

definition idle :: "SSHSession \<Rightarrow> bool" where
  "idle s \<longleftrightarrow> session s = None \<and> socketfd s = - 1 \<and> listeners s = [] \<and> boundPort s = - 1"

lemma idle_ok: "idle s \<Longrightarrow> session_ok s"
  by (simp add: idle_def session_ok_def)

lemma cancelAll_fields [simp]:
  "listeners (fst (cancelAllListeners N S sw)) = []" "boundPort (fst (cancelAllListeners N S sw)) = - 1"
  "session (fst (cancelAllListeners N S sw)) = session (fst sw)" "socketfd (fst (cancelAllListeners N S sw)) = socketfd (fst sw)"
  "lastConnectFailure (fst (cancelAllListeners N S sw)) = lastConnectFailure (fst sw)"
  by (simp_all add: cancelAllListeners_def case_prod_beta)

lemma cleanup_idle: "- 1 \<le> socketfd (fst sw) \<Longrightarrow> idle (fst (cleanupSession N S sw))"
  by (simp add: cleanupSession_def idle_def resetAcceptState_def Let_def case_prod_beta)

lemma cleanup_failure [simp]: "lastConnectFailure (fst (cleanupSession N S sw)) = lastConnectFailure (fst sw)"
  by (simp add: cleanupSession_def resetAcceptState_def Let_def case_prod_beta)

lemma disconnect_idle: "session_ok (fst sw) \<Longrightarrow> idle (fst (disconnectSession N S sw))"
  by (auto simp: disconnectSession_def session_ok_def intro!: cleanup_idle split: option.splits)

definition sockets_numbered :: "('r, 'w) Net \<Rightarrow> bool" where
  "sockets_numbered N \<longleftrightarrow> (\<forall>w. fst (n_socket N w) = - 1 \<or> 0 \<le> fst (n_socket N w))"

lemma tcpConnect_socket:
  assumes "sockets_numbered N" and "tcpConnect N S cfg sw = (ok, s, w)"
  shows "session s = session (fst sw) \<and> listeners s = listeners (fst sw) \<and> boundPort s = boundPort (fst sw) \<and>
     (if ok then 0 \<le> socketfd s else socketfd s = - 1)"
  using assms unfolding tcpConnect_def closeAndFail_def sockets_numbered_def Let_def case_prod_beta
  by (auto split: option.splits if_splits prod.splits) metis?

lemma handshake_session:
  assumes "handshake N S sw = (ok, s, w)"
  shows "socketfd s = socketfd (fst sw) \<and> listeners s = listeners (fst sw) \<and> boundPort s = boundPort (fst sw) \<and>
     (ok \<longleftrightarrow> session s \<noteq> None)"
  using assms unfolding handshake_def Let_def case_prod_beta by (auto split: option.splits if_splits prod.splits)

text \<open>The listeners of a successful connection: one for each of the first mappings, in their order.\<close>

definition listening :: "TunnelConfig list \<Rightarrow> ListenerEntry list \<Rightarrow> bool" where
  "listening ms es \<longleftrightarrow> map mapping es = ms \<and> list_all (\<lambda>e. listener e \<noteq> None) es"

lemma createListener_fields:
  assumes "createListenerForMapping N S c x m sw = (r, s, w)"
  shows "session s = session (fst sw) \<and> socketfd s = socketfd (fst sw) \<and> lastConnectFailure s = lastConnectFailure (fst sw) \<and>
     listeners s = listeners (fst sw) \<and> boundPort s = boundPort (fst sw) \<and> (case r of None \<Rightarrow> True | Some e \<Rightarrow> mapping e = m \<and> listener e \<noteq> None)"
  using assms unfolding createListenerForMapping_def Let_def case_prod_beta
  by (auto split: option.splits if_splits prod.splits)

lemma listeners_loop_fields:
  assumes "listeners_loop N S c x ms sw = (ok, s, w)"
  shows "session s = session (fst sw) \<and> socketfd s = socketfd (fst sw) \<and> lastConnectFailure s = lastConnectFailure (fst sw) \<and>
     (if ok then \<exists>es. listeners s = listeners (fst sw) @ es \<and> listening ms es else listeners s = [] \<and> boundPort s = - 1)"
  using assms
proof (induction ms arbitrary: sw)
  case Nil
  then show ?case by (auto simp: listening_def)
next
  case (Cons m ms)
  obtain r s1 w1 where c: "createListenerForMapping N S c x m sw = (r, s1, w1)" by (metis prod.exhaust)
  note f = createListener_fields [OF c]
  show ?case
  proof (cases r)
    case None
    then have "cancelAllListeners N S (s1, w1) = (s, w)" "\<not> ok" using Cons.prems c by auto
    then have "s = fst (cancelAllListeners N S (s1, w1))" by simp
    then show ?thesis using f \<open>\<not> ok\<close> by simp
  next
    case (Some e)
    let ?s = "s1\<lparr>listeners := listeners s1 @ [e], boundPort := if boundPort s1 < 0 then entryBoundPort e else boundPort s1\<rparr>"
    have "listeners_loop N S c x ms (?s, w1) = (ok, s, w)" using Cons.prems c Some by simp
    note ih = Cons.IH [OF this]
    show ?thesis
    proof (cases ok)
      case True
      then obtain es where "listeners s = listeners s1 @ [e] @ es" "listening ms es" using ih by auto
      then have "listeners s = listeners (fst sw) @ (e # es)" "listening (m # ms) (e # es)"
        using f Some by (auto simp: listening_def)
      then show ?thesis using ih f True by auto
    qed (use ih f in simp)
  qed
qed

lemma createListeners_fields:
  assumes "createListeners N S c x sw = (ok, s, w)"
  shows "session s = session (fst sw) \<and> socketfd s = socketfd (fst sw) \<and> lastConnectFailure s = lastConnectFailure (fst sw) \<and>
     (ok \<longrightarrow> tunnelMappings c \<noteq> [] \<and> 0 < maxReverseListeners (connectionConfig c) \<and>
        listening (take (nat (min (maxReverseListeners (connectionConfig c)) (int (length (tunnelMappings c))))) (tunnelMappings c)) (listeners s))"
proof -
  let ?n = "nat (min (maxReverseListeners (connectionConfig c)) (int (length (tunnelMappings c))))"
  let ?sw = "cancelAllListeners N S sw"
  show ?thesis
  proof (cases "tunnelMappings c = [] \<or> min (maxReverseListeners (connectionConfig c)) (int (length (tunnelMappings c))) \<le> 0")
    case True
    then have "(ok, s, w) = (False, ?sw)"
      using assms [symmetric] unfolding createListeners_def Let_def by (auto simp only: if_True if_False split: if_split)
    then have "ok = False" "s = fst ?sw" by (simp, metis fst_conv prod.inject)
    then show ?thesis by simp
  next
    case False
    obtain ok' s' w' where l: "listeners_loop N S c x (take ?n (tunnelMappings c)) ?sw = (ok', s', w')" by (metis prod.exhaust)
    then have r: "ok = (ok' \<and> listeners s' \<noteq> [])" "s = s'" using assms False by (auto simp: createListeners_def Let_def)
    show ?thesis using listeners_loop_fields [OF l] r False by auto
  qed
qed

lemma connectFailed_idle:
  assumes "connectFailed N S f sw = (ok, s, w)" and "- 1 \<le> socketfd (fst sw)"
  shows "\<not> ok \<and> idle s \<and> lastConnectFailure s = f"
proof -
  have "ok = False" "s = fst (cleanupSession N S ((fst sw)\<lparr>lastConnectFailure := f\<rparr>, snd sw))"
    using assms(1) by (auto simp: connectFailed_def case_prod_beta)
  then show ?thesis using cleanup_idle [of "((fst sw)\<lparr>lastConnectFailure := f\<rparr>, snd sw)" N S] assms(2) by simp
qed

text \<open>
  Reference: the stages of a connection in their order, each with the failure that stands for it and whether it
  succeeds, run one after the other from what is left once an old connection is cleared away.
\<close>

definition connectStages ::
  "('r, 'w) Net \<Rightarrow> 'w Ssh \<Rightarrow> SSHConfiguration \<Rightarrow> SSHSession \<times> 'w \<Rightarrow> (ConnectFailure \<times> bool) list" where
  "connectStages N S c sw =
     (let s0 = (resetAcceptState (fst sw))\<lparr>lastConnectFailure := FailureNone\<rparr>;
          tcp = tcpConnect N S (sshConfig c) (if session s0 \<noteq> None then cleanupSession N S (s0, snd sw) else (s0, snd sw));
          shake = handshake N S (snd tcp);
          (s2, w2) = snd shake; x = the (session s2);
          key = checkHostKey N S (sshConfig c) x (configureKeepalive N S (connectionConfig c) x w2);
          auth = authenticate N S c x (snd key);
          bind = createListeners N S c x (s2, snd auth)
      in [(FailureTcp, fst tcp), (FailureHandshake, fst shake), (FailureHostKey, fst key), (FailureAuth, fst auth),
          (FailureReverseListener, fst bind)])"

definition firstFailure :: "(ConnectFailure \<times> bool) list \<Rightarrow> ConnectFailure" where
  "firstFailure stages = (case filter (\<lambda>st. \<not> snd st) stages of [] \<Rightarrow> FailureNone | st # _ \<Rightarrow> fst st)"

text \<open>
  C17.  Connecting is all or nothing, and a failure names its stage.  The outcome recorded is the first of the stages
  -- resolving and TCP, handshake, server key, authentication, listeners -- that fails, and no failure exactly when
  none does; the call succeeds exactly then.  If it succeeds, session and socket are there and every mapping up to
  the configured number has a bound listener, in order; if it fails, no session, socket or listener is left,
  whatever was left over before.
\<close>

theorem connect_all_or_nothing:
  assumes "sockets_numbered N" and "session_ok s" and "connectSession N S c (s, w) = (ok, s', w')"
  shows "lastConnectFailure s' = firstFailure (connectStages N S c (s, w)) \<and> (ok \<longleftrightarrow> lastConnectFailure s' = FailureNone) \<and>
    (if ok then session s' \<noteq> None \<and> 0 \<le> socketfd s' \<and> listeners s' \<noteq> [] \<and>
       map mapping (listeners s') = take (nat (maxReverseListeners (connectionConfig c))) (tunnelMappings c) \<and>
       list_all (\<lambda>e. listener e \<noteq> None) (listeners s')
     else session s' = None \<and> socketfd s' = - 1 \<and> listeners s' = [] \<and> boundPort s' = - 1)"
proof -
  let ?s0 = "(resetAcceptState s)\<lparr>lastConnectFailure := FailureNone\<rparr>"
  let ?sw0 = "if session ?s0 \<noteq> None then cleanupSession N S (?s0, w) else (?s0, w)"
  have i0: "idle (fst ?sw0)" "lastConnectFailure (fst ?sw0) = FailureNone"
    using assms(2) cleanup_idle [of "(?s0, w)" N S]
    by (auto simp: session_ok_def idle_def resetAcceptState_def split: option.splits)
  obtain ok1 s1 w1 where t: "tcpConnect N S (sshConfig c) ?sw0 = (ok1, s1, w1)" by (metis prod.exhaust)
  note ts = tcpConnect_socket [OF assms(1) t]
  have f1: "lastConnectFailure s1 = FailureNone"
    using t i0(2) unfolding tcpConnect_def closeAndFail_def Let_def case_prod_beta
    by (auto split: option.splits if_splits prod.splits)
  have c: "connectSession N S c (s, w) = (ok, s', w')" by (rule assms(3))
  obtain ok2 s2 w2 where h: "handshake N S (s1, w1) = (ok2, s2, w2)" by (metis prod.exhaust)
  define x where "x = the (session s2)"
  obtain ok3 w4 where k: "checkHostKey N S (sshConfig c) x (configureKeepalive N S (connectionConfig c) x w2) = (ok3, w4)"
    by (metis prod.exhaust)
  obtain ok4 w5 where a: "authenticate N S c x w4 = (ok4, w5)" by (metis prod.exhaust)
  obtain ok5 s6 w6 where l: "createListeners N S c x (s2, w5) = (ok5, s6, w6)" by (metis prod.exhaust)
  have stages: "connectStages N S c (s, w) = [(FailureTcp, ok1), (FailureHandshake, ok2), (FailureHostKey, ok3),
      (FailureAuth, ok4), (FailureReverseListener, ok5)]"
    unfolding connectStages_def Let_def fst_conv snd_conv t h prod.case x_def [symmetric] k a l by (rule refl)
  show ?thesis
  proof (cases ok1)
    case False
    then have "ok = False" "s' = s1\<lparr>lastConnectFailure := FailureTcp\<rparr>" using c t by (simp_all add: connectSession_def Let_def)
    moreover have "firstFailure (connectStages N S c (s, w)) = FailureTcp"
      using False by (simp add: stages firstFailure_def)
    ultimately show ?thesis using ts i0 False by (simp add: idle_def)
  next
    case True
    note hs = handshake_session [OF h]
    have f2: "lastConnectFailure s2 = FailureNone"
      using h f1 unfolding handshake_def Let_def case_prod_beta by (auto split: option.splits if_splits prod.splits)
    have failed: ?thesis if "connectFailed N S f (sx, wx) = (ok, s', w')" "- 1 \<le> socketfd sx" "f \<noteq> FailureNone"
      "f = firstFailure (connectStages N S c (s, w))" for f sx wx
      using connectFailed_idle [OF that(1)] that(2-4) by (simp add: idle_def)
    show ?thesis
    proof (cases ok2)
      case False
      then have "firstFailure (connectStages N S c (s, w)) = FailureHandshake"
        using True by (simp add: stages firstFailure_def)
      with False show ?thesis
        using failed [of FailureHandshake s2 w2] c t h True hs ts by (simp add: connectSession_def Let_def)
    next
      case t2: True
      note ls = createListeners_fields [OF l]
      have eq: "(ok, s', w') =
         (if \<not> ok3 then connectFailed N S FailureHostKey (s2, w4)
          else if \<not> ok4 then connectFailed N S FailureAuth (s2, w5)
          else if \<not> ok5 then connectFailed N S FailureReverseListener (s6, w6)
          else case millis N (x_set_nonblocking S x w6) of (now, w7) \<Rightarrow>
                   (True, s6\<lparr>sessionConnectedMs := now, lastKeepaliveOkMs := now, lastKeepaliveAttemptMs := 0,
                            lastChannelUnknownLogMs := 0, channelUnknownTotal := 0\<rparr>, w7))"
        using c [symmetric] t h k a l True t2 by (simp add: connectSession_def Let_def x_def)
      have sock: "0 \<le> socketfd s2" "socketfd s6 = socketfd s2" "session s6 = session s2" "session s2 \<noteq> None"
        using hs ts True t2 ls by auto
      show ?thesis
      proof (cases "ok3 \<and> ok4 \<and> ok5")
        case False
        then obtain f sx wx where "connectFailed N S f (sx, wx) = (ok, s', w')" "socketfd sx = socketfd s2" "f \<noteq> FailureNone"
          "f = firstFailure (connectStages N S c (s, w))"
          using eq sock(2) True t2 unfolding stages by (auto simp: firstFailure_def split: if_splits)
        then show ?thesis using failed [of f sx wx] sock(1) by linarith
      next
        case all: True
        have take_eq: "take (nat (min k (int (length ms)))) ms = take (nat k) ms" for k and ms :: "TunnelConfig list"
          by (cases "k \<le> int (length ms)") (simp_all add: min_def)
        have "ok" "session s' = session s6" "socketfd s' = socketfd s6" "lastConnectFailure s' = lastConnectFailure s6"
          "listeners s' = listeners s6"
          using eq all by (auto simp: case_prod_beta)
        moreover have li: "listening (take (nat (maxReverseListeners (connectionConfig c))) (tunnelMappings c)) (listeners s6)"
          using ls all unfolding take_eq by simp
        moreover have "take (nat (maxReverseListeners (connectionConfig c))) (tunnelMappings c) \<noteq> []" using ls all by auto
        ultimately have "listeners s6 \<noteq> []" unfolding listening_def by (metis list.map_disc_iff)
        then show ?thesis
          using \<open>ok\<close> \<open>session s' = session s6\<close> \<open>socketfd s' = socketfd s6\<close> \<open>lastConnectFailure s' = lastConnectFailure s6\<close>
            \<open>listeners s' = listeners s6\<close> li ls f2 sock all True t2 by (simp add: listening_def stages firstFailure_def)
      qed
    qed
  qed
qed

section \<open>A server with another key\<close>

text \<open>The calls of libssh2 that send credentials, replaced by others.\<close>

definition withAuth ::
  "(nat \<Rightarrow> string \<Rightarrow> 'w \<Rightarrow> string option \<times> 'w) \<Rightarrow> (nat \<Rightarrow> string \<Rightarrow> string \<Rightarrow> 'w \<Rightarrow> int \<times> 'w) \<Rightarrow>
   (nat \<Rightarrow> string \<Rightarrow> string \<Rightarrow> string \<Rightarrow> string option \<Rightarrow> 'w \<Rightarrow> int \<times> 'w) \<Rightarrow>
   (nat \<Rightarrow> string \<Rightarrow> string \<Rightarrow> string \<Rightarrow> string \<Rightarrow> 'w \<Rightarrow> int \<times> 'w) \<Rightarrow> 'w Ssh \<Rightarrow> 'w Ssh" where
  "withAuth ul pw fm ff S =
     S\<lparr>x_userauth_list := ul, x_userauth_password := pw, x_userauth_frommemory := fm, x_userauth_fromfile := ff\<rparr>"

text \<open>Every key the server shows, if any, has a digest other than \<open>e\<close>.\<close>

definition impostor :: "bytes \<Rightarrow> 'w Ssh \<Rightarrow> bool" where
  "impostor e S \<longleftrightarrow>
     (\<forall>x w. case fst (x_hostkey S x w) of None \<Rightarrow> True
        | Some k \<Rightarrow> (case fingerprint_raw k of None \<Rightarrow> True | Some d \<Rightarrow> length d = 32 \<and> d \<noteq> e))"

lemma withAuth_fields:
  "o_optimize (withAuth ul pw fm ff S) = o_optimize S"
  "o_inet_pton (withAuth ul pw fm ff S) = o_inet_pton S"
  "o_getaddrinfo (withAuth ul pw fm ff S) = o_getaddrinfo S"
  "o_connect (withAuth ul pw fm ff S) = o_connect S"
  "o_delay (withAuth ul pw fm ff S) = o_delay S"
  "x_init (withAuth ul pw fm ff S) = x_init S"
  "x_handshake (withAuth ul pw fm ff S) = x_handshake S"
  "x_disconnect (withAuth ul pw fm ff S) = x_disconnect S"
  "x_free (withAuth ul pw fm ff S) = x_free S"
  "x_set_nonblocking (withAuth ul pw fm ff S) = x_set_nonblocking S"
  "x_keepalive_config (withAuth ul pw fm ff S) = x_keepalive_config S"
  "x_hostkey (withAuth ul pw fm ff S) = x_hostkey S"
  "x_forward_cancel (withAuth ul pw fm ff S) = x_forward_cancel S"
  by (simp_all add: withAuth_def)

lemma withAuth_steps [simp]:
  "tcpConnect N (withAuth ul pw fm ff S) cfg sw = tcpConnect N S cfg sw"
  "handshake N (withAuth ul pw fm ff S) sw = handshake N S sw"
  "configureKeepalive N (withAuth ul pw fm ff S) conn x w = configureKeepalive N S conn x w"
  "checkHostKey N (withAuth ul pw fm ff S) cfg x w = checkHostKey N S cfg x w"
  "cleanupSession N (withAuth ul pw fm ff S) sw = cleanupSession N S sw"
  "connectFailed N (withAuth ul pw fm ff S) f sw = connectFailed N S f sw"
  unfolding tcpConnect_def handshake_def configureKeepalive_def checkHostKey_def connectFailed_def cleanupSession_def
    cancelAllListeners_def cancelListener_def freeSession_def withAuth_fields
  by (rule refl)+

lemma accepted_digest:
  assumes "verifyHostKeyOn cfg" and "expectedHostKeyFingerprint cfg \<noteq> []" and "fst (verifyHostKey cfg True key)"
  shows "\<exists>k d. key = Some k \<and> fingerprint_raw k = Some d \<and>
     snd (expectedComparable (expectedHostKeyFingerprint cfg)) =
       (if fst (expectedComparable (expectedHostKeyFingerprint cfg)) then encodeFingerprintBase64 (take 32 d) else encodeFingerprintHex (take 32 d))"
proof -
  obtain k where k: "key = Some k" using assms(1,3) by (cases key) (simp_all add: verifyHostKey_def)
  obtain d where d: "fingerprint_raw k = Some d"
    using assms(1,3) k by (cases "fingerprint_raw k") (simp_all add: verifyHostKey_def split: if_splits)
  show ?thesis
    using assms k d
    by (auto simp: verifyHostKey_def Let_def case_prod_beta simp del: not_None_eq split: if_splits)
qed

lemma impostor_rejected:
  assumes "verifyHostKeyOn cfg" "length e = 32" "s \<in> set (notations e)" "list_all isSpaceChar u" "list_all isSpaceChar v"
    "expectedHostKeyFingerprint cfg = u @ s @ v" and i: "impostor e S"
  shows "fst (checkHostKey N S cfg x w) = False"
proof -
  note n = notation_expected [OF assms(4,5,2,3)]
  have r: "fst (verifyHostKey cfg True (fst (x_hostkey S x w1))) = False" for w1
  proof (rule ccontr)
    assume "\<not> ?thesis"
    then obtain k d where k: "fst (x_hostkey S x w1) = Some k" "fingerprint_raw k = Some d"
      and eq: "snd (expectedComparable (u @ s @ v)) =
        (if fst (expectedComparable (u @ s @ v)) then encodeFingerprintBase64 (take 32 d) else encodeFingerprintHex (take 32 d))"
      using accepted_digest [of cfg "fst (x_hostkey S x w1)"] assms(1,6) n(1) by auto
    have "case fst (x_hostkey S x w1) of None \<Rightarrow> True
        | Some k \<Rightarrow> (case fingerprint_raw k of None \<Rightarrow> True | Some d \<Rightarrow> length d = 32 \<and> d \<noteq> e)"
      using i unfolding impostor_def by blast
    then have d: "length d = 32" "d \<noteq> e" using k by simp_all
    then show False
      using eq n(2) encodeFingerprintBase64_inj [of e d] encodeFingerprintHex_inj [of e d] assms(2) by auto
  qed
  have "fst (verifyHostKey cfg False None) = False" using assms(1) by (simp add: verifyHostKey_def)
  then show ?thesis using assms(1) r by (simp add: checkHostKey_def case_prod_beta)
qed

lemma impostor_fails:
  assumes "verifyHostKeyOn (sshConfig c)" "length e = 32" "s0 \<in> set (notations e)" "list_all isSpaceChar u" "list_all isSpaceChar v"
    "expectedHostKeyFingerprint (sshConfig c) = u @ s0 @ v" and "impostor e S"
  shows "\<not> fst (connectSession N S c (s, w))"
    and "connectSession N (withAuth ul pw fm ff S) c (s, w) = connectSession N S c (s, w)"
proof -
  note r = impostor_rejected [OF assms, of N]
  have r': "checkHostKey N S (sshConfig c) x w' = (False, snd (checkHostKey N S (sshConfig c) x w'))" for x w'
    using r [of x w'] by (metis prod.collapse)
  show "\<not> fst (connectSession N S c (s, w))"
    and "connectSession N (withAuth ul pw fm ff S) c (s, w) = connectSession N S c (s, w)"
    unfolding connectSession_def Let_def case_prod_beta
    by (simp_all add: r connectFailed_def case_prod_beta)
qed

text \<open>
  C6.  An impostor gets no credentials.  If the check is on and a digest is configured, in any notation, and the
  server answering can only show keys with other digests, the connection fails, and neither its result nor anything
  done to the outside depends on what the authentication calls of libssh2 would do: none of them, and so no user
  name, password or signature, is used.
\<close>

theorem impostor_gets_no_credentials:
  assumes "verifyHostKeyOn (sshConfig c)" "length e = 32" "s0 \<in> set (notations e)" "list_all isSpaceChar u" "list_all isSpaceChar v"
    "expectedHostKeyFingerprint (sshConfig c) = u @ s0 @ v" and "impostor e S"
  shows "\<not> fst (connectSession N S c (s, w)) \<and>
    connectSession N (withAuth ul pw fm ff S) c (s, w) = connectSession N S c (s, w)"
  using impostor_fails [OF assms] by (rule conjI)

section \<open>Dead connections\<close>

lemma recordAccept_fields:
  "consecutiveFatalAcceptErrors (recordAcceptNoChannel err t) = (if isFatalAcceptError err then consecutiveFatalAcceptErrors t + 1 else 0)"
  "lastAcceptError (recordAcceptNoChannel err t) = err"
  "consecutiveFatalAcceptErrors (recordAcceptSuccess now t) = 0" "lastAcceptError (recordAcceptSuccess now t) = 0"
  by (simp_all add: recordAcceptNoChannel_def recordAcceptSuccess_def)

lemma fatal_count:
  "consecutiveFatalAcceptErrors (fold recordAcceptNoChannel errs (recordAcceptSuccess now s)) =
     int (length (takeWhile isFatalAcceptError (rev errs)))"
  "lastAcceptError (fold recordAcceptNoChannel errs (recordAcceptSuccess now s)) = (if errs = [] then 0 else List.last errs)"
  by (induction errs rule: rev_induct) (simp_all add: recordAccept_fields)

lemma takeWhile_at_least: "n \<le> length (takeWhile P xs) \<longleftrightarrow> n \<le> length xs \<and> list_all P (take n xs)"
  proof (induction xs arbitrary: n)
  case (Cons x xs)
  show ?case by (cases n) (simp_all add: Cons.IH)
qed simp

text \<open>
  The polling of listeners gives a connection up exactly when the last three polls, or more, all met a fatal
  error: an empty poll, a benign error or an accepted channel in between starts the count again.
\<close>

theorem reconnect_after_three_fatal:
  "hasFatalAcceptFailure (fold recordAcceptNoChannel errs (recordAcceptSuccess now s)) \<longleftrightarrow>
     3 \<le> length errs \<and> list_all isFatalAcceptError (drop (length errs - 3) errs)"
proof -
  have l: "isFatalAcceptError (List.last errs)" if "3 \<le> length errs" "list_all isFatalAcceptError (drop (length errs - 3) errs)"
  proof -
    have "List.last errs = List.last (drop (length errs - 3) errs)" "drop (length errs - 3) errs \<noteq> []" using that(1) by auto
    then show ?thesis using that(2) by (metis last_in_set list_all_iff)
  qed
  let ?t = "fold recordAcceptNoChannel errs (recordAcceptSuccess now s)"
  have "hasFatalAcceptFailure ?t \<longleftrightarrow> 3 \<le> consecutiveFatalAcceptErrors ?t \<and> isFatalAcceptError (lastAcceptError ?t)"
    by (simp only: hasFatalAcceptFailure_def shouldReconnectAfterConsecutiveErrors_def isFatalAcceptError_def)
  moreover have c: "3 \<le> consecutiveFatalAcceptErrors ?t \<longleftrightarrow> 3 \<le> length errs \<and> list_all isFatalAcceptError (drop (length errs - 3) errs)"
    using takeWhile_at_least [of 3 isFatalAcceptError "rev errs"] unfolding fatal_count(1) by (simp add: take_rev)
  moreover have "lastAcceptError ?t = List.last errs" if "3 \<le> length errs"
  proof -
    have "errs \<noteq> []" using that by auto
    then show ?thesis unfolding fatal_count(2) by (rule if_not_P)
  qed
  ultimately show ?thesis using l by auto
qed

end
