(* ===== verification/Tunnel_Facade.thy ===== *)
theory Tunnel_Facade
  imports Tunnel_Session Tunnel_Pump
begin

text \<open>
  The tunnel as the box uses it, \<open>ssh_tunnel.h\<close> and \<open>ssh_tunnel.cpp\<close> under
  \<open>src/experimental_libs/OrangeBoxSshTunnel/src\<close>: class \<open>SSHTunnel\<close>, which owns a session, the channels and the pump,
  accepts channels into slots or into the two waiting queues, and reconnects.  The two arrays with their counts are
  lists; an entry of theirs within the count always holds a channel.  The state of the outside is the one of the
  channel manager.  Events are recorded as outputs.
\<close>

datatype TunnelState = TUNNEL_DISCONNECTED | TUNNEL_CONNECTING | TUNNEL_CONNECTED | TUNNEL_ERROR

datatype PendingAction = ActionBind | ActionClose

record PendingChannel =
  pc_channel :: nat
  pc_mapping :: TunnelConfig
  queuedAtMs :: u32
  pc_action :: PendingAction

datatype TunnelEvent =
    SessionConnected | SessionDisconnected | ChannelOpened nat | ChannelClosed nat ChannelCloseReason | ErrorEvent int string

record ('r, 'w) SSHTunnel =
  sshSession :: SSHSession
  transport :: "('r, 'w) TransportPump"
  tunnelState :: TunnelState
  lastKeepAlive :: u32
  lastConnectionAttempt :: u32
  reconnectAttempts :: int
  socketHealthFailures :: int
  bytesReceived :: u32
  bytesSent :: u32
  pendingQueue :: "PendingChannel list"
  deferredCloseQueue :: "PendingChannel list"
  events :: "TunnelEvent list"

definition MAX_PENDING :: nat where "MAX_PENDING = 8"
definition MAX_DEFERRED_CLOSE :: nat where "MAX_DEFERRED_CLOSE = 4"
definition PENDING_TIMEOUT_MS :: u32 where "PENDING_TIMEOUT_MS = 5000"
definition CLOSE_RETRY_TIMEOUT_MS :: u32 where "CLOSE_RETRY_TIMEOUT_MS = 5000"

section \<open>Access to the parts\<close>

abbreviation mgr :: "('r, 'w) SSHTunnel \<Rightarrow> ('r, 'w) ChannelManager" where
  "mgr t \<equiv> channels (transport t)"

definition onPump :: "(('r, 'w) TransportPump \<Rightarrow> ('r, 'w) TransportPump) \<Rightarrow> ('r, 'w) SSHTunnel \<Rightarrow> ('r, 'w) SSHTunnel" where
  "onPump f t = t\<lparr>transport := f (transport t)\<rparr>"

definition onManager :: "(('r, 'w) ChannelManager \<Rightarrow> ('r, 'w) ChannelManager) \<Rightarrow> ('r, 'w) SSHTunnel \<Rightarrow> ('r, 'w) SSHTunnel" where
  "onManager f = onPump (onMgr f)"

definition fromManager ::
  "(('r, 'w) ChannelManager \<Rightarrow> 'a \<times> ('r, 'w) ChannelManager) \<Rightarrow> ('r, 'w) SSHTunnel \<Rightarrow> 'a \<times> ('r, 'w) SSHTunnel" where
  "fromManager f t = (case f (mgr t) of (a, m) \<Rightarrow> (a, onManager (\<lambda>_. m) t))"

text \<open>A call to the outside, and an operation of the session.\<close>

definition call :: "('w \<Rightarrow> 'a \<times> 'w) \<Rightarrow> ('r, 'w) SSHTunnel \<Rightarrow> 'a \<times> ('r, 'w) SSHTunnel" where
  "call f = fromManager (ask f)"

definition run :: "('w \<Rightarrow> 'w) \<Rightarrow> ('r, 'w) SSHTunnel \<Rightarrow> ('r, 'w) SSHTunnel" where
  "run f = onManager (act f)"

definition onSession :: "(SSHSession \<times> 'w \<Rightarrow> SSHSession \<times> 'w) \<Rightarrow> ('r, 'w) SSHTunnel \<Rightarrow> ('r, 'w) SSHTunnel" where
  "onSession f t = (case f (sshSession t, net (mgr t)) of (s, w) \<Rightarrow> run (\<lambda>_. w) (t\<lparr>sshSession := s\<rparr>))"

definition fromSession :: "(SSHSession \<times> 'w \<Rightarrow> 'a \<times> SSHSession \<times> 'w) \<Rightarrow> ('r, 'w) SSHTunnel \<Rightarrow> 'a \<times> ('r, 'w) SSHTunnel" where
  "fromSession f t = (case f (sshSession t, net (mgr t)) of (a, s, w) \<Rightarrow> (a, run (\<lambda>_. w) (t\<lparr>sshSession := s\<rparr>)))"

definition emitEvent :: "TunnelEvent \<Rightarrow> ('r, 'w) SSHTunnel \<Rightarrow> ('r, 'w) SSHTunnel" where
  "emitEvent e t = t\<lparr>events := events t @ [e]\<rparr>"

section \<open>Closing accepted channels\<close>

text \<open>The results of closing and freeing are ignored.\<close>

definition closeAndFree :: "('r, 'w) Net \<Rightarrow> nat \<Rightarrow> 'w \<Rightarrow> 'w" where
  "closeAndFree N ch w = snd (ch_free N ch (snd (ch_close N ch w)))"

definition closeAcceptedChannel :: "('r, 'w) Net \<Rightarrow> nat \<Rightarrow> nat \<Rightarrow> ('r, 'w) SSHTunnel \<Rightarrow> bool \<times> ('r, 'w) SSHTunnel" where
  "closeAcceptedChannel N ch ticks t =
     (case call (s_lock N ticks) t of (locked, t1) \<Rightarrow>
        if locked then (True, run (s_unlock N) (run (closeAndFree N ch) t1)) else (False, t1))"

datatype BindResult = Bound | BindFailed | LockUnavailable

definition bindAcceptedChannel ::
  "('r, 'w) Net \<Rightarrow> nat \<Rightarrow> nat \<Rightarrow> TunnelConfig \<Rightarrow> nat \<Rightarrow> ('r, 'w) SSHTunnel \<Rightarrow> BindResult \<times> ('r, 'w) SSHTunnel" where
  "bindAcceptedChannel N slot ch m ticks t =
     (case call (s_lock N ticks) t of (locked, t1) \<Rightarrow>
        if \<not> locked then (LockUnavailable, t1)
        else case fromManager (bindChannel N slot ch m) t1 of (bound, t2) \<Rightarrow>
          (if bound then Bound else BindFailed, run (s_unlock N) t2))"

definition enqueueDeferredClose :: "('r, 'w) Net \<Rightarrow> nat \<Rightarrow> TunnelConfig \<Rightarrow> ('r, 'w) SSHTunnel \<Rightarrow> bool \<times> ('r, 'w) SSHTunnel" where
  "enqueueDeferredClose N ch m t =
     (case closeAcceptedChannel N ch 200 t of (closed, t1) \<Rightarrow>
        if closed then (True, t1)
        else if MAX_DEFERRED_CLOSE \<le> length (deferredCloseQueue t1) then (False, t1)
        else case call (millis N) t1 of (now, t2) \<Rightarrow>
          (True, t2\<lparr>deferredCloseQueue := deferredCloseQueue t2 @
             [\<lparr>pc_channel = ch, pc_mapping = m, queuedAtMs = now, pc_action = ActionClose\<rparr>]\<rparr>))"

definition queueForBinding :: "('r, 'w) Net \<Rightarrow> nat \<Rightarrow> TunnelConfig \<Rightarrow> ('r, 'w) SSHTunnel \<Rightarrow> ('r, 'w) SSHTunnel" where
  "queueForBinding N ch m t =
     (case call (millis N) t of (now, t1) \<Rightarrow>
        t1\<lparr>pendingQueue := pendingQueue t1 @
          [\<lparr>pc_channel = ch, pc_mapping = m, queuedAtMs = now, pc_action = ActionBind\<rparr>]\<rparr>)"

text \<open>\<open>clearPendingQueue\<close> and \<open>clearDeferredCloseQueue\<close>.\<close>

definition closeAll :: "('r, 'w) Net \<Rightarrow> PendingChannel list \<Rightarrow> 'w \<Rightarrow> 'w" where
  "closeAll N ps w = fold (\<lambda>e w. closeAndFree N (pc_channel e) w) ps w"

definition clearPendingQueue :: "('r, 'w) Net \<Rightarrow> ('r, 'w) SSHTunnel \<Rightarrow> ('r, 'w) SSHTunnel" where
  "clearPendingQueue N t =
     (if pendingQueue t = [] then t
      else case call (s_lock N 500) t of (locked, t1) \<Rightarrow>
        if \<not> locked then t1
        else (run (s_unlock N) (run (closeAll N (pendingQueue t1)) t1))\<lparr>pendingQueue := []\<rparr>)"

definition clearDeferredCloseQueue :: "('r, 'w) Net \<Rightarrow> ('r, 'w) SSHTunnel \<Rightarrow> ('r, 'w) SSHTunnel" where
  "clearDeferredCloseQueue N t =
     (if deferredCloseQueue t = [] then t
      else case call (s_lock N 500) t of (locked, t1) \<Rightarrow>
        if \<not> locked then t1
        else (run (s_unlock N) (run (closeAll N (deferredCloseQueue t1)) t1))\<lparr>deferredCloseQueue := []\<rparr>)"

section \<open>Tearing down\<close>

text \<open>The slots that are left when the session is gone are abandoned, and the queues forgotten.\<close>

definition abandonAll :: "('r, 'w) Net \<Rightarrow> ('r, 'w) SSHTunnel \<Rightarrow> ('r, 'w) SSHTunnel" where
  "abandonAll N t = fold (\<lambda>i. onManager (abandonSlot N i)) [0..<maxSlots (mgr t)] t"

definition forgetQueues :: "('r, 'w) SSHTunnel \<Rightarrow> ('r, 'w) SSHTunnel" where
  "forgetQueues t = t\<lparr>pendingQueue := [], deferredCloseQueue := []\<rparr>"

definition dropSession :: "('r, 'w) Net \<Rightarrow> 'w Ssh \<Rightarrow> ('r, 'w) SSHTunnel \<Rightarrow> ('r, 'w) SSHTunnel" where
  "dropSession N S t = forgetQueues (abandonAll N (onSession (disconnectSession N S) t))"

text \<open>Closing one active slot, and telling it, while the session is locked or not.\<close>

definition closeOneSlot ::
  "('r, 'w) Net \<Rightarrow> bool \<Rightarrow> (ChannelCloseReason \<Rightarrow> ChannelCloseReason) \<Rightarrow> nat \<Rightarrow> ('r, 'w) SSHTunnel \<Rightarrow> ('r, 'w) SSHTunnel" where
  "closeOneSlot N locked reason i t =
     (let slot = slots (mgr t) ! i in
      if \<not> active slot then t
      else emitEvent (ChannelClosed i (reason (closeReason slot)))
        (if locked then onManager (\<lambda>m. snd (finalizeClose N i m)) t else onManager (abandonSlot N i) t))"

definition closeAllSlots ::
  "('r, 'w) Net \<Rightarrow> bool \<Rightarrow> (ChannelCloseReason \<Rightarrow> ChannelCloseReason) \<Rightarrow> ('r, 'w) SSHTunnel \<Rightarrow> ('r, 'w) SSHTunnel" where
  "closeAllSlots N locked reason t =
     (let t1 = fold (closeOneSlot N locked reason) [0..<maxSlots (mgr t)] t in if locked then run (s_unlock N) t1 else t1)"

definition disconnectTunnel :: "('r, 'w) Net \<Rightarrow> 'w Ssh \<Rightarrow> ('r, 'w) SSHTunnel \<Rightarrow> ('r, 'w) SSHTunnel" where
  "disconnectTunnel N S t =
     (let t1 = clearDeferredCloseQueue N (clearPendingQueue N t) in
      case (if isConnectedSession (sshSession t1) then call (s_lock N 2000) t1 else (False, t1)) of (locked, t2) \<Rightarrow>
        let t3 = dropSession N S (closeAllSlots N locked (\<lambda>_. Manual) t2);
            t4 = (if tunnelState t3 = TUNNEL_CONNECTED then emitEvent SessionDisconnected t3 else t3)
        in t4\<lparr>socketHealthFailures := 0, tunnelState := TUNNEL_DISCONNECTED\<rparr>)"

definition enterErrorState :: "('r, 'w) Net \<Rightarrow> 'w Ssh \<Rightarrow> ('r, 'w) SSHTunnel \<Rightarrow> ('r, 'w) SSHTunnel" where
  "enterErrorState N S t =
     (let t1 = clearDeferredCloseQueue N (clearPendingQueue N t) in
      case call (s_lock N 500) t1 of (locked, t2) \<Rightarrow>
        let t3 = dropSession N S (closeAllSlots N locked (\<lambda>r. if r = ReasonUnknown then ReasonError else r) t2) in
        case call (millis N) (t3\<lparr>tunnelState := TUNNEL_ERROR, socketHealthFailures := 0\<rparr>) of (now, t4) \<Rightarrow>
          emitEvent SessionDisconnected (t4\<lparr>lastConnectionAttempt := now\<rparr>))"

section \<open>Connecting\<close>

text \<open>\<open>init\<close>: the mutexes, the library and the memory are arguments.\<close>

definition initTunnel ::
  "('r, 'w) Net \<Rightarrow> SSHConfiguration \<Rightarrow> bool \<Rightarrow> bool \<Rightarrow> bool \<Rightarrow> bool \<Rightarrow> bool \<Rightarrow> ('r, 'w) SSHTunnel \<Rightarrow> bool \<times> ('r, 'w) SSHTunnel" where
  "initTunnel N c statsCreated sessionCreated started slotsAllocated buffersAllocated t =
     (let conn = connectionConfig c in
      if \<not> statsCreated then (False, t)
      else case initSession sessionCreated started (sshSession t) of (ok, s) \<Rightarrow>
        let t1 = t\<lparr>sshSession := s\<rparr> in
        if \<not> ok then (False, t1)
        else case fromManager (initChannels N (nat (maxChannels conn)) (max 8192 (tunnelRingBufferSize conn)) slotsAllocated) t1 of
          (ok2, t2) \<Rightarrow>
            if \<not> ok2 then (False, t2)
            else
              let t3 = onPump (\<lambda>p. p\<lparr>bufSize := if 0 < bufferSize conn then nat (bufferSize conn) else 4096\<rparr>) t2 in
              if \<not> buffersAllocated then (False, t3) else (True, t3\<lparr>tunnelState := TUNNEL_DISCONNECTED\<rparr>))"

definition connectSSH :: "('r, 'w) Net \<Rightarrow> 'w Ssh \<Rightarrow> SSHConfiguration \<Rightarrow> ('r, 'w) SSHTunnel \<Rightarrow> bool \<times> ('r, 'w) SSHTunnel" where
  "connectSSH N S c t =
     (if tunnelState t = TUNNEL_CONNECTED then (True, t)
      else case call (millis N) (t\<lparr>tunnelState := TUNNEL_CONNECTING\<rparr>) of (now, t1) \<Rightarrow>
        case fromSession (connectSession N S c) (t1\<lparr>lastConnectionAttempt := now\<rparr>) of (ok, t2) \<Rightarrow>
          if \<not> ok then (False, emitEvent (ErrorEvent (- 1) ''SSH connection failed'') (t2\<lparr>tunnelState := TUNNEL_ERROR\<rparr>))
          else case call (millis N) (t2\<lparr>tunnelState := TUNNEL_CONNECTED, reconnectAttempts := 0, socketHealthFailures := 0\<rparr>) of
            (now2, t3) \<Rightarrow> (True, emitEvent SessionConnected (t3\<lparr>lastKeepAlive := now2\<rparr>)))"

definition isConnectedTunnel :: "('r, 'w) SSHTunnel \<Rightarrow> bool" where
  "isConnectedTunnel t \<longleftrightarrow> tunnelState t = TUNNEL_CONNECTED \<and> isConnectedSession (sshSession t)"

text \<open>The delay before the next attempt: doubled with every failed one, at most a minute.\<close>

fun double_loop :: "nat \<Rightarrow> u32 \<Rightarrow> u32" where
  "double_loop 0 d = d"
| "double_loop (Suc n) d = (if d < 60000 then double_loop n (d * 2) else d)"

definition reconnectDelay :: "int \<Rightarrow> int \<Rightarrow> u32" where
  "reconnectDelay baseDelay attempts =
     (let d = double_loop (nat attempts) (word_of_int baseDelay) in if 60000 < d then 60000 else d)"

definition handleReconnection :: "('r, 'w) Net \<Rightarrow> 'w Ssh \<Rightarrow> SSHConfiguration \<Rightarrow> ('r, 'w) SSHTunnel \<Rightarrow> ('r, 'w) SSHTunnel" where
  "handleReconnection N S c t =
     (let maxAttempts = maxReconnectAttempts (connectionConfig c) in
      case (if maxAttempts \<le> reconnectAttempts t
            then (case call (millis N) t of (now, t1) \<Rightarrow>
              if now - lastConnectionAttempt t1 < 60000 then (False, t1) else (True, t1\<lparr>reconnectAttempts := 0\<rparr>))
            else (True, t)) of
        (go, t2) \<Rightarrow>
          if \<not> go then t2
          else case call (millis N) t2 of (now, t3) \<Rightarrow>
            if now - lastConnectionAttempt t3 < reconnectDelay (reconnectDelayMs (connectionConfig c)) (reconnectAttempts t3) then t3
            else
              let t4 = dropSession N S (clearDeferredCloseQueue N (clearPendingQueue N t3)) in
              case connectSSH N S c (t4\<lparr>reconnectAttempts := reconnectAttempts t4 + 1\<rparr>) of (ok, t5) \<Rightarrow>
                if ok then t5\<lparr>reconnectAttempts := 0\<rparr> else t5)"

section \<open>Accepting\<close>

text \<open>The last resort for a channel no queue has room for: close it under a longer wait, or leave it to the session's end.\<close>

definition forceClose :: "('r, 'w) Net \<Rightarrow> nat \<Rightarrow> ('r, 'w) SSHTunnel \<Rightarrow> ('r, 'w) SSHTunnel" where
  "forceClose N ch t =
     (case call (s_lock N 1000) t of (locked, t1) \<Rightarrow> if locked then run (s_unlock N) (run (closeAndFree N ch) t1) else t1)"

definition rejectChannel :: "('r, 'w) Net \<Rightarrow> nat \<Rightarrow> nat \<Rightarrow> TunnelConfig \<Rightarrow> ('r, 'w) SSHTunnel \<Rightarrow> bool \<times> ('r, 'w) SSHTunnel" where
  "rejectChannel N ticks ch m t =
     (case closeAcceptedChannel N ch ticks t of (closed, t1) \<Rightarrow>
        if closed then (True, t1) else enqueueDeferredClose N ch m t1)"

text \<open>An accepted channel; the result tells whether it was bound.\<close>

definition placeChannel :: "('r, 'w) Net \<Rightarrow> nat \<Rightarrow> TunnelConfig \<Rightarrow> ('r, 'w) SSHTunnel \<Rightarrow> bool \<times> ('r, 'w) SSHTunnel" where
  "placeChannel N ch m t =
     (case fromManager (allocateSlot N) t of
        (Some slot, t1) \<Rightarrow>
          (case bindAcceptedChannel N slot ch m 200 t1 of
             (Bound, t2) \<Rightarrow> (True, emitEvent (ChannelOpened slot) t2)
           | (LockUnavailable, t2) \<Rightarrow>
               (False, if length (pendingQueue t2) < MAX_PENDING then queueForBinding N ch m t2
                       else snd (enqueueDeferredClose N ch m t2))
           | (BindFailed, t2) \<Rightarrow> (False, snd (enqueueDeferredClose N ch m t2)))
      | (None, t1) \<Rightarrow>
          if length (pendingQueue t1) < MAX_PENDING then (False, queueForBinding N ch m t1)
          else case rejectChannel N 500 ch m t1 of (taken, t2) \<Rightarrow> (False, if taken then t2 else forceClose N ch t2))"

definition handleNewConnection :: "('r, 'w) Net \<Rightarrow> 'w Ssh \<Rightarrow> ('r, 'w) SSHTunnel \<Rightarrow> bool \<times> ('r, 'w) SSHTunnel" where
  "handleNewConnection N S t =
     (case fromSession (acceptChannel N S) t of
        (None, t1) \<Rightarrow> (False, if hasFatalAcceptFailure (sshSession t1) then enterErrorState N S t1 else t1)
      | (Some (ch, m), t1) \<Rightarrow>
          (case call (millis N) t1 of (now, t2) \<Rightarrow>
             if isMappingBackedOff (remoteBindPort m) now (mgr t2) then (False, snd (rejectChannel N 200 ch m t2))
             else placeChannel N ch m t2))"

text \<open>The loop that accepts until nothing was bound; each turn binds a slot, so the number of slots bounds it.\<close>

fun accept_all :: "('r, 'w) Net \<Rightarrow> 'w Ssh \<Rightarrow> nat \<Rightarrow> ('r, 'w) SSHTunnel \<Rightarrow> ('r, 'w) SSHTunnel" where
  "accept_all N S 0 t = t"
| "accept_all N S (Suc fuel) t =
     (case handleNewConnection N S t of (again, t1) \<Rightarrow> if again then accept_all N S fuel t1 else t1)"

section \<open>The queues\<close>

text \<open>
  One entry of a queue: what is left of it, if it stays, and the tunnel.  An entry past its time is freed when the
  session can be locked and kept otherwise.
\<close>

definition retryClose ::
  "('r, 'w) Net \<Rightarrow> u32 \<Rightarrow> PendingChannel \<Rightarrow> ('r, 'w) SSHTunnel \<Rightarrow> PendingChannel option \<times> ('r, 'w) SSHTunnel" where
  "retryClose N now e t =
     (if CLOSE_RETRY_TIMEOUT_MS < now - queuedAtMs e
      then (case call (s_lock N 100) t of (locked, t1) \<Rightarrow>
        if locked then (None, run (s_unlock N) (run (closeAndFree N (pc_channel e)) t1)) else (Some e, t1))
      else (case closeAcceptedChannel N (pc_channel e) 200 t of (closed, t1) \<Rightarrow> (if closed then None else Some e, t1)))"

definition dropPending :: "('r, 'w) Net \<Rightarrow> PendingChannel \<Rightarrow> ('r, 'w) SSHTunnel \<Rightarrow> PendingChannel option \<times> ('r, 'w) SSHTunnel" where
  "dropPending N e t =
     (case closeAcceptedChannel N (pc_channel e) 200 t of (closed, t1) \<Rightarrow>
        (if closed then None else Some (e\<lparr>pc_action := ActionClose\<rparr>), t1))"

definition drainPending ::
  "('r, 'w) Net \<Rightarrow> u32 \<Rightarrow> PendingChannel \<Rightarrow> ('r, 'w) SSHTunnel \<Rightarrow> PendingChannel option \<times> ('r, 'w) SSHTunnel" where
  "drainPending N now e t =
     (if pc_action e = ActionClose then retryClose N now e t
      else if PENDING_TIMEOUT_MS < now - queuedAtMs e then dropPending N e t
      else case fromManager (allocateSlot N) t of
        (Some slot, t1) \<Rightarrow>
          (case bindAcceptedChannel N slot (pc_channel e) (pc_mapping e) 200 t1 of
             (Bound, t2) \<Rightarrow> (None, emitEvent (ChannelOpened slot) t2)
           | (LockUnavailable, t2) \<Rightarrow> (Some e, t2)
           | (BindFailed, t2) \<Rightarrow> dropPending N e t2)
      | (None, t1) \<Rightarrow> (Some e, t1))"

definition expirePending ::
  "('r, 'w) Net \<Rightarrow> u32 \<Rightarrow> PendingChannel \<Rightarrow> ('r, 'w) SSHTunnel \<Rightarrow> PendingChannel option \<times> ('r, 'w) SSHTunnel" where
  "expirePending N now e t =
     (if pc_action e = ActionBind \<and> PENDING_TIMEOUT_MS < now - queuedAtMs e then dropPending N e t else (Some e, t))"

text \<open>The pass over a queue that keeps, in order, the entries that stay.\<close>

fun compact ::
  "(PendingChannel \<Rightarrow> ('r, 'w) SSHTunnel \<Rightarrow> PendingChannel option \<times> ('r, 'w) SSHTunnel) \<Rightarrow> PendingChannel list \<Rightarrow>
     ('r, 'w) SSHTunnel \<Rightarrow> PendingChannel list \<times> ('r, 'w) SSHTunnel" where
  "compact f [] t = ([], t)"
| "compact f (e # es) t =
     (case f e t of (r, t1) \<Rightarrow> (case compact f es t1 of (kept, t2) \<Rightarrow>
        (case r of Some e' \<Rightarrow> e' # kept | None \<Rightarrow> kept, t2)))"

definition overPending ::
  "(u32 \<Rightarrow> PendingChannel \<Rightarrow> ('r, 'w) SSHTunnel \<Rightarrow> PendingChannel option \<times> ('r, 'w) SSHTunnel) \<Rightarrow> ('r, 'w) Net \<Rightarrow>
     ('r, 'w) SSHTunnel \<Rightarrow> ('r, 'w) SSHTunnel" where
  "overPending f N t =
     (case call (millis N) t of (now, t1) \<Rightarrow>
        case compact (f now) (pendingQueue t1) t1 of (kept, t2) \<Rightarrow> t2\<lparr>pendingQueue := kept\<rparr>)"

definition drainPendingQueue :: "('r, 'w) Net \<Rightarrow> ('r, 'w) SSHTunnel \<Rightarrow> ('r, 'w) SSHTunnel" where
  "drainPendingQueue N = overPending (drainPending N) N"

definition cleanExpiredPending :: "('r, 'w) Net \<Rightarrow> ('r, 'w) SSHTunnel \<Rightarrow> ('r, 'w) SSHTunnel" where
  "cleanExpiredPending N = overPending (expirePending N) N"

definition drainDeferredCloseQueue :: "('r, 'w) Net \<Rightarrow> ('r, 'w) SSHTunnel \<Rightarrow> ('r, 'w) SSHTunnel" where
  "drainDeferredCloseQueue N t =
     (case call (millis N) t of (now, t1) \<Rightarrow>
        case compact (retryClose N now) (deferredCloseQueue t1) t1 of (kept, t2) \<Rightarrow> t2\<lparr>deferredCloseQueue := kept\<rparr>)"

section \<open>The main loop\<close>

text \<open>The checks of the connection; the flag tells whether the cycle goes on.\<close>

definition checkHealth :: "('r, 'w) Net \<Rightarrow> 'w Ssh \<Rightarrow> ('r, 'w) SSHTunnel \<Rightarrow> bool \<times> ('r, 'w) SSHTunnel" where
  "checkHealth N S t =
     (if \<not> isConnectedSession (sshSession t) then (False, enterErrorState N S t)
      else case call (\<lambda>w. checkConnection N (sshSession t, w)) t of (healthy, t1) \<Rightarrow>
        if healthy then (True, t1\<lparr>socketHealthFailures := 0\<rparr>)
        else
          let t2 = t1\<lparr>socketHealthFailures := socketHealthFailures t1 + 1\<rparr> in
          if 3 \<le> socketHealthFailures t2 then (False, enterErrorState N S t2) else (True, t2))"

definition keepAlive :: "('r, 'w) Net \<Rightarrow> 'w Ssh \<Rightarrow> SSHConfiguration \<Rightarrow> ('r, 'w) SSHTunnel \<Rightarrow> bool \<times> ('r, 'w) SSHTunnel" where
  "keepAlive N S c t =
     (case call (millis N) t of (now, t1) \<Rightarrow>
        let interval = keepAliveIntervalSec (connectionConfig c) * 1000 in
        if 0 < interval \<and> word_of_int interval \<le> now - lastKeepAlive t1 then
          (case fromSession (sendKeepalive N S) t1 of (alive, t2) \<Rightarrow>
             if \<not> alive then (False, enterErrorState N S t2) else (True, t2\<lparr>lastKeepAlive := now\<rparr>))
        else (True, t1))"

definition drainDeferredIfAny :: "('r, 'w) Net \<Rightarrow> ('r, 'w) SSHTunnel \<Rightarrow> ('r, 'w) SSHTunnel" where
  "drainDeferredIfAny N t = (if deferredCloseQueue t \<noteq> [] then drainDeferredCloseQueue N t else t)"

definition emitCloses :: "('r, 'w) SSHTunnel \<Rightarrow> ('r, 'w) SSHTunnel" where
  "emitCloses t =
     (case consumeCloseEvents MAX_CLOSE_EVENTS (transport t) of (es, p) \<Rightarrow>
        fold (\<lambda>(i, reason). emitEvent (ChannelClosed i reason)) es (t\<lparr>transport := p\<rparr>))"

definition afterPump :: "('r, 'w) Net \<Rightarrow> 'w Ssh \<Rightarrow> ('r, 'w) SSHTunnel \<Rightarrow> ('r, 'w) SSHTunnel" where
  "afterPump N S t =
     (if sessionDegraded (transport t) then enterErrorState N S (onPump (\<lambda>p. p\<lparr>sessionDegraded := False\<rparr>) t)
      else
        let t1 = (if pendingQueue t \<noteq> [] then drainPendingQueue N (cleanExpiredPending N t) else t);
            t2 = drainDeferredIfAny N t1 in
        case call (o_stats_lock S) t2 of (locked, t3) \<Rightarrow>
          if locked then t3\<lparr>bytesReceived := getTotalBytesReceived (mgr t3), bytesSent := getTotalBytesSent (mgr t3)\<rparr> else t3)"

definition loopTunnel ::
  "'r Ringbuf \<Rightarrow> ('r, 'w) Net \<Rightarrow> 'w Ssh \<Rightarrow> SSHConfiguration \<Rightarrow> ('r, 'w) SSHTunnel \<Rightarrow> ('r, 'w) SSHTunnel" where
  "loopTunnel R N S c t =
     (if tunnelState t = TUNNEL_ERROR then handleReconnection N S c t
      else if tunnelState t = TUNNEL_DISCONNECTED then t
      else case checkHealth N S t of (go, t1) \<Rightarrow>
        if \<not> go then t1
        else case keepAlive N S c t1 of (go2, t2) \<Rightarrow>
          if \<not> go2 then t2
          else
            let t3 = drainDeferredIfAny N t2; t4 = accept_all N S (Suc (maxSlots (mgr t3))) t3 in
            afterPump N S (emitCloses (onPump (\<lambda>p. snd (pumpAll R N p)) t4)))"

section \<open>Settings and state\<close>

definition getStateString :: "TunnelState \<Rightarrow> string" where
  "getStateString st =
     (case st of TUNNEL_DISCONNECTED \<Rightarrow> ''Disconnected'' | TUNNEL_CONNECTING \<Rightarrow> ''Connecting''
      | TUNNEL_CONNECTED \<Rightarrow> ''Connected'' | TUNNEL_ERROR \<Rightarrow> ''Error'')"

fun indexOfMapping :: "string \<Rightarrow> int \<Rightarrow> TunnelConfig list \<Rightarrow> nat option" where
  "indexOfMapping host port [] = None"
| "indexOfMapping host port (m # ms) =
     (if remoteBindHost m = host \<and> remoteBindPort m = port then Some 0 else map_option Suc (indexOfMapping host port ms))"

definition removeReverseTunnel :: "string \<Rightarrow> int \<Rightarrow> SSHConfiguration \<Rightarrow> bool \<times> SSHConfiguration" where
  "removeReverseTunnel host port c =
     (case indexOfMapping host port (tunnelMappings c) of None \<Rightarrow> (False, c)
      | Some i \<Rightarrow> (True, snd (removeTunnelMapping i c)))"

end
