(* ===== verification/Tunnel_Handles.thy ===== *)
theory Tunnel_Handles
  imports Tunnel_Inv
begin

text \<open>
  The handles of libssh2 that the slots hold.  libssh2 keeps a set of allocated channels; a call on a channel
  outside it is a use after free, and what happens then is unknown.  The pump and the manager call libssh2 on
  allocated channels only, and forget a channel when they free it.
\<close>

section \<open>The heap of libssh2\<close>

text \<open>
  \<open>heap\<close> gives the set of allocated channels in a state of the outside, or \<open>None\<close> once memory may be corrupt.  The laws
  are those of libssh2's documentation: a call on an allocated channel allocates and frees nothing, but for
  \<open>libssh2_channel_free\<close>, which frees its channel unless it answers \<open>EAGAIN\<close>.
\<close>

definition net_heap :: "('r, 'w) Net \<Rightarrow> ('w \<Rightarrow> nat set option) \<Rightarrow> bool" where
  "net_heap N heap \<longleftrightarrow>
     (\<forall>w. heap (snd (millis N w)) = heap w \<and> heap (snd (n_socket N w)) = heap w \<and> heap (s_unlock N w) = heap w) \<and>
     (\<forall>fd w. heap (snd (n_getfl N fd w)) = heap w \<and> heap (snd (n_select N fd w)) = heap w \<and> heap (snd (n_sockerr N fd w)) = heap w \<and>
        heap (n_optimize N fd w) = heap w \<and> heap (n_close N fd w) = heap w \<and> heap (n_shutdown N fd w) = heap w) \<and>
     (\<forall>fd fl w. heap (snd (n_setfl N fd fl w)) = heap w) \<and>
     (\<forall>fd a port w. heap (snd (n_connect N fd a port w)) = heap w) \<and>
     (\<forall>fd d w. heap (snd (n_send N fd d w)) = heap w) \<and> (\<forall>fd k w. heap (snd (n_recv N fd k w)) = heap w) \<and>
     (\<forall>k w. heap (snd (s_lock N k w)) = heap w \<and> heap (snd (r_create N k w)) = heap w) \<and>
     (\<forall>c w L. heap w = Some L \<longrightarrow> c \<in> L \<longrightarrow>
        heap (ch_set_nonblocking N c w) = Some L \<and> heap (snd (ch_close N c w)) = Some L \<and> heap (snd (ch_eof N c w)) = Some L \<and>
        heap (snd (ch_send_eof N c w)) = Some L \<and> (\<forall>k. heap (snd (ch_read N c k w)) = Some L) \<and>
        (\<forall>d. heap (snd (ch_write N c d w)) = Some L) \<and>
        heap (snd (ch_free N c w)) = Some (if fst (ch_free N c w) = LIBSSH2_ERROR_EAGAIN then L else L - {c}))"

lemma heap_neutral:
  assumes "net_heap N heap"
  shows "heap (snd (millis N w)) = heap w" "heap (snd (n_socket N w)) = heap w" "heap (s_unlock N w) = heap w"
    "heap (snd (n_getfl N fd w)) = heap w" "heap (snd (n_select N fd w)) = heap w" "heap (snd (n_sockerr N fd w)) = heap w"
    "heap (n_optimize N fd w) = heap w" "heap (n_close N fd w) = heap w" "heap (n_shutdown N fd w) = heap w"
    "heap (snd (n_setfl N fd fl w)) = heap w" "heap (snd (n_connect N fd a port w)) = heap w"
    "heap (snd (n_send N fd d w)) = heap w" "heap (snd (n_recv N fd k w)) = heap w" "heap (snd (s_lock N k w)) = heap w"
    "heap (snd (r_create N k w)) = heap w"
  using assms unfolding net_heap_def by simp_all

lemma heap_channel:
  assumes "net_heap N heap" and "heap w = Some L" and "c \<in> L"
  shows "heap (ch_set_nonblocking N c w) = Some L" "heap (snd (ch_close N c w)) = Some L" "heap (snd (ch_eof N c w)) = Some L"
    "heap (snd (ch_send_eof N c w)) = Some L" "heap (snd (ch_read N c k w)) = Some L" "heap (snd (ch_write N c d w)) = Some L"
    "heap (snd (ch_free N c w)) = Some (if fst (ch_free N c w) = LIBSSH2_ERROR_EAGAIN then L else L - {c})"
  using assms unfolding net_heap_def by simp_all

section \<open>Operations that free nothing\<close>

text \<open>A manager whose slots hold the channels \<open>H\<close> while \<open>L\<close> is allocated.\<close>

definition mcalm :: "('w \<Rightarrow> nat set option) \<Rightarrow> nat option list \<Rightarrow> nat set \<Rightarrow> ('r, 'w) ChannelManager \<Rightarrow> bool" where
  "mcalm heap H L m \<longleftrightarrow> map sshChannel (slots m) = H \<and> heap (net m) = Some L"

lemma mcalm_ask: "heap (snd (f (net m))) = heap (net m) \<Longrightarrow> mcalm heap H L (snd (ask f m)) = mcalm heap H L m"
  by (simp add: mcalm_def ask_def case_prod_beta)

lemma mcalm_act: "heap (f (net m)) = heap (net m) \<Longrightarrow> mcalm heap H L (act f m) = mcalm heap H L m"
  by (simp add: mcalm_def act_def)

lemma mcalm_upd:
  assumes "\<And>s. sshChannel (f s) = sshChannel s"
  shows "mcalm heap H L (updSlot i f m) = mcalm heap H L m"
proof -
  have "(map sshChannel (slots m))[i := sshChannel (slots m ! i)] = map sshChannel (slots m)"
    by (metis list_update_id map_update)
  then show ?thesis by (simp add: mcalm_def updSlot_def map_update assms)
qed

lemma mcalm_fields [simp]:
  "mcalm heap H L (m\<lparr>activeCount := k\<rparr>) = mcalm heap H L m" "mcalm heap H L (m\<lparr>breaker := b\<rparr>) = mcalm heap H L m"
  "mcalm heap H L (m\<lparr>ringBufferSize := sz\<rparr>) = mcalm heap H L m"
  by (simp_all add: mcalm_def)

lemma mcalm_length: "mcalm heap H L m \<Longrightarrow> length (slots m) = length H"
  by (auto simp: mcalm_def)

lemma mcalm_nth: "mcalm heap H L m \<Longrightarrow> i < length H \<Longrightarrow> sshChannel (slots m ! i) = H ! i"
  by (auto simp: mcalm_def)

lemmas mcalm_rules = mcalm_ask mcalm_act mcalm_upd heap_neutral

lemma beginClose_calm: "net_heap N heap \<Longrightarrow> mcalm heap H L (beginClose N i r m) = mcalm heap H L m"
  by (simp add: beginClose_def Let_def case_prod_beta mcalm_rules)

lemma allocateSlot_calm: "net_heap N heap \<Longrightarrow> mcalm heap H L (snd (allocateSlot N m)) = mcalm heap H L m"
  by (simp add: allocateSlot_def Let_def case_prod_beta mcalm_rules beginClose_calm split: option.split)

lemma connect_calm: "net_heap N heap \<Longrightarrow> mcalm heap H L (snd (connectToLocalEndpoint N mp m)) = mcalm heap H L m"
  by (simp add: connectToLocalEndpoint_def awaitConnect_def refuse_def Let_def case_prod_beta mcalm_rules)

lemma createRing_calm: "net_heap N heap \<Longrightarrow> mcalm heap H L (snd (createRing N m)) = mcalm heap H L m"
  by (simp add: createRing_def case_prod_beta mcalm_rules)

lemma closeSocket_calm: "net_heap N heap \<Longrightarrow> mcalm heap H L (closeSocket N i m) = mcalm heap H L m"
  by (simp add: closeSocket_def Let_def mcalm_rules)

text \<open>Binding stores the channel in its slot, or leaves everything.\<close>

lemma mcalm_store:
  assumes "mcalm heap H L m" and "\<And>s. sshChannel (f s) = v"
  shows "mcalm heap (H[i := v]) L (updSlot i f m)"
  using assms by (cases "i < length (slots m)") (auto simp: mcalm_def updSlot_def map_update list_update_beyond)

lemma bindChannel_calm:
  assumes "net_heap N heap" and "mcalm heap H L m" and "c \<in> L"
  shows "mcalm heap (if fst (bindChannel N i c mp m) then H[i := Some c] else H) L (snd (bindChannel N i c mp m))"
proof -
  have stored: "mcalm heap (H[i := Some c]) L (act (ch_set_nonblocking N c) (updSlot i f m'))"
    if "mcalm heap H L m'" "\<And>s. sshChannel (f s) = Some c" for f and m' :: "('a, 'b) ChannelManager"
  proof -
    have "mcalm heap (H[i := Some c]) L (updSlot i f m')" by (rule mcalm_store [OF that])
    moreover from this have "heap (ch_set_nonblocking N c (net (updSlot i f m'))) = Some L"
      using heap_channel(1) [OF assms(1) _ assms(3)] by (simp add: mcalm_def)
    ultimately show ?thesis by (simp add: mcalm_def act_def)
  qed
  show ?thesis
    using assms(2) unfolding bindChannel_def Let_def case_prod_beta
    by (simp add: mcalm_rules connect_calm createRing_calm assms(1) stored)
qed

section \<open>Closing a channel\<close>

text \<open>What is held and allocated when slot \<open>i\<close> has given up its channel.\<close>

definition released :: "nat \<Rightarrow> nat option list \<Rightarrow> nat set \<Rightarrow> nat option list \<Rightarrow> nat set \<Rightarrow> bool" where
  "released i H L H' L' \<longleftrightarrow> i < length H \<and> H' = H[i := None] \<and> L' = L - set_option (H ! i)"

lemma closeSshChannel_calm:
  assumes n: "net_heap N heap" and m: "mcalm heap H L m" and i: "i < length H" and c: "c \<in> L"
  shows "if fst (closeSshChannel N i c m) then mcalm heap (H[i := None]) (L - {c}) (snd (closeSshChannel N i c m))
     else mcalm heap H L (snd (closeSshChannel N i c m))"
proof -
  have prog: "mcalm heap H L (updSlot i (\<lambda>s. s\<lparr>sshCloseProgress := pr\<rparr>) x) = mcalm heap H L x"
    for pr L and x :: "('a, 'b) ChannelManager"
    by (rule mcalm_upd) simp
  define r1 where "r1 = (if closeComplete (sshCloseProgress (slots m ! i)) then (True, m)
            else case ask (ch_close N c) m of (rc, m1) \<Rightarrow>
              (case recordCloseResult rc LIBSSH2_ERROR_EAGAIN (sshCloseProgress (slots m1 ! i)) of (ok, p) \<Rightarrow>
                 (ok, updSlot i (\<lambda>s. s\<lparr>sshCloseProgress := p\<rparr>) m1)))"
  have cl: "mcalm heap H L (snd (ask (ch_close N c) m))"
    using m heap_channel(2) [OF n _ c] by (simp add: mcalm_def ask_def case_prod_beta)
  have k1: "mcalm heap H L (snd r1)" using m cl by (simp add: r1_def case_prod_beta prog)
  have c1: "closeComplete (sshCloseProgress (slots (snd r1) ! i))" if "fst r1"
    using that i mcalm_length [OF m] by (auto simp: r1_def recordCloseResult_def case_prod_beta split: if_splits)
  obtain closed m2 where r1: "r1 = (closed, m2)" by (cases r1)
  let ?f = "ask (ch_free N c) m2"
  let ?p = "recordFreeResult (fst ?f) LIBSSH2_ERROR_EAGAIN (sshCloseProgress (slots (snd ?f) ! i))"
  let ?m4 = "updSlot i (\<lambda>s. s\<lparr>sshCloseProgress := snd ?p\<rparr>) (snd ?f)"
  have eq: "closeSshChannel N i c m =
     (if \<not> closed then (False, m2) else if \<not> fst ?p then (False, ?m4)
      else if \<not> readyForFinalize (sshCloseProgress (slots ?m4 ! i)) then (False, ?m4)
      else (True, updSlot i (\<lambda>s. s\<lparr>sshChannel := None\<rparr>) ?m4))"
    unfolding closeSshChannel_def r1_def [symmetric] r1 using c1 r1 by (simp add: readyForFree_def case_prod_beta)
  have f: "mcalm heap H (if fst ?f = LIBSSH2_ERROR_EAGAIN then L else L - {c}) (snd ?f)"
    using k1 r1 heap_channel(7) [OF n _ c] by (simp add: mcalm_def ask_def case_prod_beta)
  have p: "fst ?p \<longleftrightarrow> fst ?f \<noteq> LIBSSH2_ERROR_EAGAIN" by (simp add: recordFreeResult_def)
  show ?thesis
  proof (cases "closed \<and> fst ?p")
    case False
    then show ?thesis using eq k1 r1 f p by (auto simp: prog)
  next
    case True
    have len: "i < length (slots (snd ?f))" using i k1 r1 mcalm_length [of heap H L m2] by simp
    have "sshCloseProgress (slots (snd ?f) ! i) = sshCloseProgress (slots m2 ! i)" by simp
    then have "readyForFinalize (snd ?p)" using True c1 r1 p by (simp add: recordFreeResult_def readyForFinalize_def)
    then have "readyForFinalize (sshCloseProgress (slots ?m4 ! i))" using len by simp
    then have e: "closeSshChannel N i c m = (True, updSlot i (\<lambda>s. s\<lparr>sshChannel := None\<rparr>) ?m4)" using eq True by simp
    have "mcalm heap H (L - {c}) ?m4" using f True p by (simp add: prog)
    then show ?thesis unfolding e by (simp add: mcalm_store)
  qed
qed

lemma finalizeClose_calm:
  assumes n: "net_heap N heap" and m: "mcalm heap H L m" and o: "\<And>c. i < length H \<Longrightarrow> H ! i = Some c \<Longrightarrow> c \<in> L"
  shows "\<exists>H' L'. mcalm heap H' L' (snd (finalizeClose N i m)) \<and> (H' = H \<and> L' = L \<or> released i H L H' L')"
proof (cases "maxSlots m \<le> i \<or> \<not> active (slots m ! i)")
  case True
  then show ?thesis using m by (auto simp: finalizeClose_def)
next
  case False
  then have i: "i < length H" using mcalm_length [OF m] by (simp add: maxSlots_def)
  define r where "r = (case sshChannel (slots m ! i) of None \<Rightarrow> (True, m) | Some channel \<Rightarrow> closeSshChannel N i channel m)"
  have k: "if fst r then mcalm heap (H[i := None]) (L - set_option (H ! i)) (snd r) else mcalm heap H L (snd r)"
  proof (cases "sshChannel (slots m ! i)")
    case None
    then have "H ! i = None" using mcalm_nth [OF m i] by simp
    moreover from this have "H[i := None] = H" using list_update_id [of H i] by simp
    ultimately show ?thesis using None m by (simp add: r_def)
  next
    case (Some c)
    then have "H ! i = Some c" using mcalm_nth [OF m i] by simp
    then show ?thesis using Some closeSshChannel_calm [OF n m i o] by (simp add: r_def i)
  qed
  obtain closed m1 where r: "r = (closed, m1)" by (cases r)
  let ?m3 = "updSlot i (\<lambda>s. s\<lparr>toLocal := None, toRemote := None, active := False, slotState := SlotClosed\<rparr>) (closeSocket N i m1)"
  have eq: "finalizeClose N i m =
     (if \<not> closed then (False, m1)
      else (True, (updSlot i (\<lambda>s. s\<lparr>lastFinalizeMs := fst (ask (millis N) ?m3)\<rparr>) (snd (ask (millis N) ?m3)))
              \<lparr>activeCount := activeCount (snd (ask (millis N) ?m3)) - 1\<rparr>))"
    using False r unfolding finalizeClose_def r_def [symmetric] by (simp add: Let_def case_prod_beta)
  show ?thesis
  proof (cases closed)
    case True
    then have "mcalm heap (H[i := None]) (L - set_option (H ! i)) (snd (finalizeClose N i m))"
      using k r eq by (simp add: mcalm_rules n closeSocket_calm)
    then show ?thesis using i by (auto simp: released_def)
  qed (use k r eq in auto)
qed

lemma abandonSlot_calm:
  assumes n: "net_heap N heap" and m: "mcalm heap H L m"
  shows "mcalm heap (if i < length H \<and> active (slots m ! i) then H[i := None] else H) L (abandonSlot N i m)"
proof -
  have r: "sshChannel (resetSlot s) = None" for s :: "'a ChannelSlot" by (simp add: resetSlot_def newSlot_def)
  have "mcalm heap (H[i := None]) L (updSlot i resetSlot ((closeSocket N i m)\<lparr>activeCount := k\<rparr>))" for k
    by (rule mcalm_store) (use m n r in \<open>simp_all add: closeSocket_calm\<close>)
  then show ?thesis using m mcalm_length [OF m] by (auto simp: abandonSlot_def Let_def maxSlots_def)
qed

section \<open>The pump\<close>

abbreviation calm :: "('w \<Rightarrow> nat set option) \<Rightarrow> nat option list \<Rightarrow> nat set \<Rightarrow> ('r, 'w) TransportPump \<Rightarrow> bool" where
  "calm heap H L p \<equiv> mcalm heap H L (channels p)"

lemma calm_query: "heap (snd (f (net (channels p)))) = heap (net (channels p)) \<Longrightarrow> calm heap H L (snd (query f p)) = calm heap H L p"
  by (simp add: query_def case_prod_beta mcalm_ask)

lemma calm_onSlot: "(\<And>s. sshChannel (f s) = sshChannel s) \<Longrightarrow> calm heap H L (onSlot i f p) = calm heap H L p"
  by (simp add: onSlot_def mcalm_upd)

lemma calm_fields [simp]:
  "calm heap H L (moved k p) = calm heap H L p" "calm heap H L (pushEvent i r p) = calm heap H L p"
  by (simp_all add: moved_def pushEvent_def)

lemma calm_channel:
  assumes "\<And>w. heap w = Some L \<Longrightarrow> heap (snd (f w)) = Some L" and "calm heap H L p"
  shows "calm heap H L (snd (query f p))"
proof -
  have "heap (snd (f (net (channels p)))) = heap (net (channels p))" using assms by (simp add: mcalm_def)
  then show ?thesis using assms(2) by (simp add: calm_query)
qed

lemmas calm_rules = calm_query mcalm_act calm_onSlot beginClose_calm heap_neutral

text \<open>Calls on an allocated channel.\<close>

lemma calm_read: "net_heap N heap \<Longrightarrow> c \<in> L \<Longrightarrow> calm heap H L p \<Longrightarrow> calm heap H L (snd (readChannel N c k p))"
  unfolding readChannel_def by (rule calm_channel) (simp_all add: heap_channel)

lemma calm_write: "net_heap N heap \<Longrightarrow> c \<in> L \<Longrightarrow> calm heap H L p \<Longrightarrow> calm heap H L (snd (query (ch_write N c d) p))"
  by (rule calm_channel) (simp_all add: heap_channel)

lemma calm_eof: "net_heap N heap \<Longrightarrow> c \<in> L \<Longrightarrow> calm heap H L p \<Longrightarrow> calm heap H L (snd (query (ch_eof N c) p))"
  by (rule calm_channel) (simp_all add: heap_channel)

lemma calm_send_eof: "net_heap N heap \<Longrightarrow> c \<in> L \<Longrightarrow> calm heap H L p \<Longrightarrow> calm heap H L (snd (query (ch_send_eof N c) p))"
  by (rule calm_channel) (simp_all add: heap_channel)

lemma channelError_calm: "net_heap N heap \<Longrightarrow> calm heap H L (channelError N i p) = calm heap H L p"
  by (simp add: channelError_def Let_def calm_rules)

lemma storeReceived_calm: "net_heap N heap \<Longrightarrow> calm heap H L (storeReceived R N i d p) = calm heap H L p"
  by (simp add: storeReceived_def case_prod_beta calm_rules split: option.split)

lemma pumpPaused_calm: "net_heap N heap \<Longrightarrow> c \<in> L \<Longrightarrow> calm heap H L p \<Longrightarrow> calm heap H L (snd (pumpPaused R N i c p))"
  by (simp add: pumpPaused_def Let_def case_prod_beta storeReceived_calm channelError_calm calm_rules calm_read split: option.split)

lemma pumpChunks_calm: "net_heap N heap \<Longrightarrow> c \<in> L \<Longrightarrow> calm heap H L p \<Longrightarrow> calm heap H L (snd (pumpChunks R N i c k rd p))"
  by (induction k arbitrary: rd p)
    (simp_all add: Let_def case_prod_beta storeReceived_calm channelError_calm calm_rules calm_read split: option.split)

lemma checkEofFlag_calm: "net_heap N heap \<Longrightarrow> c \<in> L \<Longrightarrow> calm heap H L p \<Longrightarrow> calm heap H L (checkEofFlag N i c p)"
  by (simp add: checkEofFlag_def case_prod_beta calm_rules calm_eof)

lemma drainChunks_calm: "net_heap N heap \<Longrightarrow> calm heap H L p \<Longrightarrow> calm heap H L (drainChunks R N i k p)"
  by (induction k arbitrary: p) (simp_all add: Let_def case_prod_beta calm_rules split: option.split)

lemma checkLocalStall_calm: "net_heap N heap \<Longrightarrow> calm heap H L p \<Longrightarrow> calm heap H L (checkLocalStall R N i p)"
  by (simp add: checkLocalStall_def Let_def case_prod_beta calm_rules split: option.split)

lemma writeChunks_calm: "net_heap N heap \<Longrightarrow> c \<in> L \<Longrightarrow> calm heap H L p \<Longrightarrow> calm heap H L (writeChunks R N i c budget p)"
proof (induction budget arbitrary: p rule: less_induct)
  case (less budget)
  note IH = less.IH
  show ?case using less.prems
    by (subst writeChunks.simps)
      (simp add: Let_def case_prod_beta calm_rules calm_write channelError_calm IH split: option.split)
qed

lemma checkWriteStall_calm: "net_heap N heap \<Longrightarrow> calm heap H L p \<Longrightarrow> calm heap H L (checkWriteStall N i p)"
  by (simp add: checkWriteStall_def Let_def case_prod_beta calm_rules)

lemma writeQueue_calm: "net_heap N heap \<Longrightarrow> c \<in> L \<Longrightarrow> calm heap H L p \<Longrightarrow> calm heap H L (writeQueue R N i c p)"
  by (simp add: writeQueue_def case_prod_beta writeChunks_calm checkWriteStall_calm calm_rules split: option.split)

lemma remoteBackpressure_calm: "calm heap H L p \<Longrightarrow> calm heap H L (remoteBackpressure R i p)"
  by (simp add: remoteBackpressure_def Let_def calm_onSlot split: option.split)

lemma recvChunks_calm: "net_heap N heap \<Longrightarrow> calm heap H L p \<Longrightarrow> calm heap H L (recvChunks R N i k p)"
  by (induction k arbitrary: p) (simp_all add: Let_def case_prod_beta calm_rules split: option.split)

lemma flushReads_calm: "net_heap N heap \<Longrightarrow> c \<in> L \<Longrightarrow> calm heap H L p \<Longrightarrow> calm heap H L (flushReads R N i c k p)"
  by (induction k arbitrary: p) (simp_all add: Let_def case_prod_beta calm_rules calm_read split: option.split)

section \<open>Phases\<close>

text \<open>Every channel a slot holds is allocated.\<close>

definition backed :: "nat option list \<Rightarrow> nat set \<Rightarrow> bool" where
  "backed H L \<longleftrightarrow> (\<forall>i c. i < length H \<longrightarrow> H ! i = Some c \<longrightarrow> c \<in> L)"

lemma calm_slot: "calm heap H L p \<Longrightarrow> i < length H \<Longrightarrow> sshChannel (slotOf p i) = H ! i"
  by (rule mcalm_nth)

lemma calm_held: "calm heap H L p \<Longrightarrow> backed H L \<Longrightarrow> i < length H \<Longrightarrow> sshChannel (slotOf p i) = Some c \<Longrightarrow> c \<in> L"
  by (auto simp: backed_def dest: calm_slot)

lemma pumpChannel_calm:
  assumes n: "net_heap N heap" and b: "backed H L" and i: "i < length H" and c: "calm heap H L (snd st)"
  shows "calm heap H L (snd (pumpChannel R N i st))"
proof -
  obtain a p where st: "st = (a, p)" by (cases st)
  show ?thesis
  proof (cases "sshChannel (slotOf p i)")
    case (Some ch)
    then have "ch \<in> L" using calm_held [OF _ b i] c st by simp
    then show ?thesis using c Some n st
      by (auto simp: pumpChannel_def Let_def case_prod_beta calm_onSlot calm_read pumpPaused_calm pumpChunks_calm checkEofFlag_calm
          split: option.split bool.split)
  qed (use c st in \<open>simp add: pumpChannel_def split: bool.split\<close>)
qed

lemma fold_calm:
  assumes "\<And>i p. calm heap H L p \<Longrightarrow> i \<in> set xs \<Longrightarrow> calm heap H L (f i p)" and "calm heap H L p"
  shows "calm heap H L (fold f xs p)"
  using assms by (induction xs arbitrary: p) simp_all

lemma fold_snd_calm:
  assumes "\<And>i st. calm heap H L (snd st) \<Longrightarrow> i \<in> set xs \<Longrightarrow> calm heap H L (snd (f i st))" and "calm heap H L (snd st)"
  shows "calm heap H L (snd (fold f xs st))"
  using assms by (induction xs arbitrary: st) simp_all

lemma fallbackRead_calm:
  assumes n: "net_heap N heap" and b: "backed H L" and c: "calm heap H L p"
  shows "calm heap H L (fallbackRead N p)"
proof -
  have h: "the (sshChannel s) \<in> L" if f: "find P (slots (channels p)) = Some s" and ne: "P s \<Longrightarrow> sshChannel s \<noteq> None" for P s
  proof -
    obtain i where "i < length (slots (channels p))" "s = slotOf p i" "P s" using f by (auto simp: find_Some_iff)
    then show ?thesis using calm_held [OF c b, of i] mcalm_length [OF c] ne by auto
  qed
  show ?thesis
    unfolding fallbackRead_def Let_def
    by (auto split: option.split intro!: calm_read [OF n _ c] h c)
qed

lemma rotation_in: "calm heap H L p \<Longrightarrow> kept n p \<Longrightarrow> n < 2 ^ 32 \<Longrightarrow> i \<in> set (rotation p) \<Longrightarrow> i < length H"
  using rotation_bound [of n p i] mcalm_length [of heap H L "channels p"] by (simp add: kept_def)

lemma pumpSshTransport_calm:
  assumes n: "net_heap N heap" and b: "backed H L" and c: "calm heap H L p" and k: "kept m p" "m < 2 ^ 32"
  shows "calm heap H L (pumpSshTransport R N p)"
proof -
  let ?p = "snd (query (s_lock N 50) p)"
  have cp: "calm heap H L ?p" "kept m ?p" using c k n by (simp_all add: calm_rules)
  have "calm heap H L (snd (fold (pumpChannel R N) (rotation ?p) (False, ?p)))"
    by (rule fold_snd_calm) (use cp rotation_in [OF cp k(2)] in \<open>auto intro: pumpChannel_calm [OF n b]\<close>)
  then show ?thesis using cp n
    by (auto simp: pumpSshTransport_def case_prod_beta mcalm_act heap_neutral intro: fallbackRead_calm [OF n b])
qed

lemma drainSshToLocal_calm: "net_heap N heap \<Longrightarrow> calm heap H L p \<Longrightarrow> calm heap H L (drainSshToLocal R N p)"
  by (auto simp: drainSshToLocal_def drainSlot_def Let_def intro!: fold_calm checkLocalStall_calm drainChunks_calm)

lemma serveLocal_calm:
  assumes n: "net_heap N heap" and b: "backed H L" and i: "i < length H" and c: "calm heap H L p"
  shows "calm heap H L (serveLocal R N i p)"
proof (cases "sshChannel (slotOf p i)")
  case (Some ch)
  then have "ch \<in> L" using calm_held [OF c b i] by simp
  then show ?thesis using c Some n
    by (auto simp: serveLocal_def Let_def split: bool.split intro!: recvChunks_calm remoteBackpressure_calm writeQueue_calm)
qed (use c in \<open>simp add: serveLocal_def split: bool.split\<close>)

lemma drainLocalToSsh_calm:
  assumes n: "net_heap N heap" and b: "backed H L" and c: "calm heap H L p" and k: "kept m p" "m < 2 ^ 32"
  shows "calm heap H L (drainLocalToSsh R N p)"
proof -
  have "calm heap H L (fold (serveLocal R N) (rotation p) p)"
    by (rule fold_calm) (use c rotation_in [OF c k] in \<open>auto intro: serveLocal_calm [OF n b]\<close>)
  then show ?thesis using c by (simp add: drainLocalToSsh_def Let_def)
qed

lemma considerClose_calm: "net_heap N heap \<Longrightarrow> calm heap H L p \<Longrightarrow> calm heap H L (considerClose R N now i p)"
  by (auto simp: considerClose_def idleClose_def Let_def calm_rules mcalm_act)

lemma sendEof_calm:
  assumes n: "net_heap N heap" and b: "backed H L" and i: "i < length H" and c: "calm heap H L p"
  shows "calm heap H L (sendEof R N i p)"
proof (cases "sshChannel (slotOf p i)")
  case (Some ch)
  then have "ch \<in> L" using calm_held [OF c b i] by simp
  then show ?thesis using c Some n
    by (simp add: sendEof_def case_prod_beta calm_rules calm_send_eof flushReads_calm)
qed (use c in \<open>simp add: sendEof_def\<close>)

section \<open>One owner\<close>

text \<open>
  Every channel that is held, by a slot or among the others \<open>E\<close>, is allocated and has one holder; the slots hold
  channels of \<open>F\<close> only.
\<close>

definition owned :: "nat set \<Rightarrow> nat set \<Rightarrow> nat option list \<Rightarrow> nat set \<Rightarrow> bool" where
  "owned E F H L \<longleftrightarrow> E \<subseteq> L \<and> (\<forall>i c. i < length H \<longrightarrow> H ! i = Some c \<longrightarrow> c \<in> L \<and> c \<notin> E \<and> c \<in> F) \<and>
     (\<forall>i j c. i < length H \<longrightarrow> j < length H \<longrightarrow> H ! i = Some c \<longrightarrow> H ! j = Some c \<longrightarrow> i = j)"

definition holds :: "('w \<Rightarrow> nat set option) \<Rightarrow> nat set \<Rightarrow> nat set \<Rightarrow> ('r, 'w) ChannelManager \<Rightarrow> bool" where
  "holds heap E F m \<longleftrightarrow> (\<exists>H L. mcalm heap H L m \<and> owned E F H L)"

lemma owned_backed: "owned E F H L \<Longrightarrow> backed H L"
  by (auto simp: owned_def backed_def)

lemma owned_none: "owned E F H L \<Longrightarrow> owned E F (H[i := None]) L"
proof -
  have "i' = i \<Longrightarrow> i' < length H \<Longrightarrow> H[i := None] ! i' = None" "i' \<noteq> i \<Longrightarrow> H[i := None] ! i' = H ! i'" for i' by simp_all
  then show "owned E F H L \<Longrightarrow> ?thesis" unfolding owned_def length_list_update by (metis option.distinct(1))
qed

lemma owned_released:
  assumes "owned E F H L" and "released i H L H' L'"
  shows "owned E F H' L'"
proof (cases "H ! i")
  case None
  then show ?thesis using assms owned_none [of E F H L i] by (simp add: released_def)
next
  case (Some c)
  then have c: "H' = H[i := None]" "L' = L - {c}" "i < length H" using assms(2) by (simp_all add: released_def)
  show ?thesis
    unfolding c using assms(1) Some c(3) by (auto simp: owned_def nth_list_update split: if_splits)
qed

lemma holdsI: "mcalm heap H L m \<Longrightarrow> owned E F H L \<Longrightarrow> holds heap E F m"
  by (auto simp: holds_def)

lemma holds_transfer:
  assumes "holds heap E F m" and "\<And>H L. mcalm heap H L m \<Longrightarrow> owned E F H L \<Longrightarrow> mcalm heap H L m'"
  shows "holds heap E F m'"
  using assms by (auto simp: holds_def)

lemma holds_same: "(\<And>H L. mcalm heap H L m' = mcalm heap H L m) \<Longrightarrow> holds heap E F m' = holds heap E F m"
  by (simp add: holds_def)

lemma holds_query: "(\<And>w. heap (snd (f w)) = heap w) \<Longrightarrow> holds heap E F (channels (snd (query f p))) = holds heap E F (channels p)"
  by (rule holds_same) (simp add: calm_query)

lemma holds_act: "(\<And>w. heap (g w) = heap w) \<Longrightarrow> holds heap E F (act g m) = holds heap E F m"
  by (rule holds_same) (simp add: mcalm_act)

lemma finalizeClose_holds: "net_heap N heap \<Longrightarrow> holds heap E F m \<Longrightarrow> holds heap E F (snd (finalizeClose N i m))"
proof -
  assume n: "net_heap N heap" and "holds heap E F m"
  then obtain H L where m: "mcalm heap H L m" and o: "owned E F H L" by (auto simp: holds_def)
  have "\<And>c. i < length H \<Longrightarrow> H ! i = Some c \<Longrightarrow> c \<in> L" using o by (auto simp: owned_def)
  from finalizeClose_calm [OF n m this] obtain H' L' where
    r: "mcalm heap H' L' (snd (finalizeClose N i m))" "H' = H \<and> L' = L \<or> released i H L H' L'" by blast
  then have "owned E F H' L'" using o owned_released by blast
  with r(1) show ?thesis by (rule holdsI)
qed

lemma abandonSlot_holds: "net_heap N heap \<Longrightarrow> holds heap E F m \<Longrightarrow> holds heap E F (abandonSlot N i m)"
proof -
  assume n: "net_heap N heap" and "holds heap E F m"
  then obtain H L where m: "mcalm heap H L m" and o: "owned E F H L" by (auto simp: holds_def)
  show ?thesis by (rule holdsI [OF abandonSlot_calm [OF n m]]) (use o owned_none in auto)
qed

section \<open>A cycle of the pump\<close>

lemma hardAbandon_holds: "net_heap N heap \<Longrightarrow> holds heap E F (channels p) \<Longrightarrow> holds heap E F (channels (hardAbandon N i p))"
  by (simp add: hardAbandon_def pushEvent_def abandonSlot_holds)

lemma closeSlot_holds: "net_heap N heap \<Longrightarrow> holds heap E F (channels p) \<Longrightarrow> holds heap E F (channels (closeSlot N i p))"
  using finalizeClose_holds [of N heap E F "channels p" i] by (simp add: closeSlot_def Let_def case_prod_beta pushEvent_def)

lemma sendEof_holds:
  assumes "net_heap N heap" "holds heap E F (channels p)" "i < slotCount p"
  shows "holds heap E F (channels (sendEof R N i p))"
  by (rule holds_transfer [OF assms(2)]) (use assms sendEof_calm owned_backed mcalm_length in metis)

lemma checkDraining_holds:
  assumes "net_heap N heap" "holds heap E F (channels (snd (snd st)))"
  shows "holds heap E F (channels (snd (snd (checkDraining R N now k i st))))"
  using assms by (cases st) (simp add: checkDraining_def Let_def hardAbandon_holds)

lemma lockedStage_holds:
  assumes "net_heap N heap" "kept n p" "holds heap E F (channels p)"
    "\<And>i p. kept n p \<Longrightarrow> holds heap E F (channels p) \<Longrightarrow> i \<in> set xs \<Longrightarrow> kept n (f i p) \<and> holds heap E F (channels (f i p))"
  shows "kept n (lockedStage N wait f xs p) \<and> holds heap E F (channels (lockedStage N wait f xs p))"
proof -
  have "kept n (fold f xs q) \<and> holds heap E F (channels (fold f xs q))" if "kept n q" "holds heap E F (channels q)" for q
    using that assms(4) by (induction xs arbitrary: q) auto
  then show ?thesis using assms(1-3)
    by (simp add: lockedStage_def case_prod_beta holds_query heap_neutral holds_act)
qed

lemma checkCloses_holds:
  assumes n: "net_heap N heap" and k: "kept n p" and o: "holds heap E F (channels p)"
  shows "holds heap E F (channels (checkCloses R N p))"
proof -
  define p2 where "p2 = fold (considerClose R N (fst (query (millis N) p))) [0..<n] (snd (query (millis N) p))"
  have k2: "kept n p2" unfolding p2_def by (rule fold_kept) (use k considerClose_kept in auto)
  have o2: "holds heap E F (channels p2)"
  proof (rule holds_transfer [OF o])
    fix H L assume "calm heap H L p"
    then have "calm heap H L (snd (query (millis N) p))" using n by (simp add: calm_rules)
    then show "calm heap H L p2" unfolding p2_def by (rule fold_calm [rotated]) (rule considerClose_calm [OF n])
  qed
  define st where "st = fold (checkDraining R N (fst (query (millis N) p2)) (if n < 32 then n else 32)) [0..<n]
      ([], [], snd (query (millis N) p2))"
  have inv: "kept n (snd (snd (fold (checkDraining R N t k) xs x))) \<and> holds heap E F (channels (snd (snd (fold (checkDraining R N t k) xs x)))) \<and>
      set (fst (fold (checkDraining R N t k) xs x)) \<subseteq> {..<n}"
    if "kept n (snd (snd x))" "holds heap E F (channels (snd (snd x)))" "set (fst x) \<union> set (fst (snd x)) \<subseteq> {..<n}" "set xs \<subseteq> {..<n}" for t k xs x
    using that
  proof (induction xs arbitrary: x)
    case (Cons i xs)
    have "set (fst (checkDraining R N t k i x)) \<union> set (fst (snd (checkDraining R N t k i x))) \<subseteq> {..<n}"
      using Cons.prems by (intro checkDraining_lists) auto
    moreover have "kept n (snd (snd (checkDraining R N t k i x)))" by (rule checkDraining_kept [OF Cons.prems(1)])
    moreover have "holds heap E F (channels (snd (snd (checkDraining R N t k i x))))"
      by (rule checkDraining_holds [OF n Cons.prems(2)])
    ultimately show ?case using Cons.IH [of "checkDraining R N t k i x"] Cons.prems(4) by simp
  qed simp
  have s: "kept n (snd (snd st)) \<and> holds heap E F (channels (snd (snd st))) \<and> set (fst st) \<subseteq> {..<n}"
    unfolding st_def by (rule inv) (use k2 o2 n in \<open>auto simp: holds_query heap_neutral\<close>)
  have m: "maxSlots (channels p) = n" using k by (simp add: kept_def maxSlots_def)
  let ?p5 = "lockedStage N 100 (sendEof R N) (fst st) (snd (snd st))"
  have e: "checkCloses R N p = lockedStage N 200 (closeSlot N) (fst (snd st)) ?p5"
    by (simp add: checkCloses_def Let_def m case_prod_beta p2_def st_def)
  have "kept n ?p5 \<and> holds heap E F (channels ?p5)"
  proof (rule lockedStage_holds [OF n])
    show "kept n (sendEof R N i q) \<and> holds heap E F (channels (sendEof R N i q))"
      if "kept n q" "holds heap E F (channels q)" "i \<in> set (fst st)" for i q
    proof -
      have "i < n" using that(3) s by auto
      moreover from this have "i < slotCount q" using that(1) by (simp add: kept_def)
      ultimately show ?thesis using sendEof_kept [OF that(1)] sendEof_holds [OF n that(2)] by blast
    qed
  qed (use s in auto)
  then have "kept n (checkCloses R N p) \<and> holds heap E F (channels (checkCloses R N p))"
    unfolding e by (intro lockedStage_holds [OF n]) (auto intro: closeSlot_kept closeSlot_holds [OF n])
  then show ?thesis by blast
qed

lemma pumpAll_holds:
  assumes n: "net_heap N heap" and k: "kept n p" "n < 2 ^ 32" and o: "holds heap E F (channels p)"
  shows "holds heap E F (channels (snd (pumpAll R N p)))"
proof -
  let ?p0 = "p\<lparr>lastBytesMoved := 0\<rparr>"
  let ?p1 = "pumpSshTransport R N ?p0"
  let ?p2 = "drainSshToLocal R N ?p1"
  let ?p3 = "drainLocalToSsh R N ?p2"
  have k1: "kept n ?p1" by (rule pumpSshTransport_kept) (use k in simp_all)
  have k2: "kept n ?p2" by (rule drainSshToLocal_kept [OF k1 k(2)])
  have k3: "kept n ?p3" by (rule drainLocalToSsh_kept [OF k2 k(2)])
  have o3: "holds heap E F (channels ?p3)"
  proof (rule holds_transfer [OF o])
    fix H L assume c: "calm heap H L p" and w: "owned E F H L"
    have b: "backed H L" by (rule owned_backed [OF w])
    have "calm heap H L ?p1" by (rule pumpSshTransport_calm [OF n b _ _ k(2)]) (use c k in simp_all)
    then have "calm heap H L ?p2" by (rule drainSshToLocal_calm [OF n])
    then show "calm heap H L ?p3" by (rule drainLocalToSsh_calm [OF n b _ k2 k(2)])
  qed
  show ?thesis using checkCloses_holds [OF n k3 o3] by (simp add: pumpAll_def Let_def)
qed

end
