(* ===== verification/Tunnel_Memory.thy ===== *)
theory Tunnel_Memory
  imports Tunnel_Facade Tunnel_Handles
begin

text \<open>
  Memory safety of the tunnel.  However connections come and go, the session can or cannot be locked, and libssh2
  answers, the tunnel never calls libssh2 on a channel that has been freed: each channel is held by one slot or one
  entry of one queue, and forgotten when it is freed.
\<close>

section \<open>The heap and the session\<close>

text \<open>
  Freeing a session frees its channels; accepting returns a newly allocated one; no other call on the session
  changes the set.
\<close>

definition ssh_heap :: "'w Ssh \<Rightarrow> ('w \<Rightarrow> nat set option) \<Rightarrow> bool" where
  "ssh_heap S heap \<longleftrightarrow>
     (\<forall>fd w. heap (o_optimize S fd w) = heap w) \<and> (\<forall>h w. heap (snd (o_getaddrinfo S h w)) = heap w) \<and>
     (\<forall>fd a port w. heap (snd (o_connect S fd a port w)) = heap w) \<and> (\<forall>k w. heap (o_delay S k w) = heap w) \<and>
     (\<forall>w. heap (snd (x_init S w)) = heap w \<and> heap (snd (o_stats_lock S w)) = heap w) \<and>
     (\<forall>x fd w. heap (snd (x_handshake S x fd w)) = heap w) \<and>
     (\<forall>x w. heap (x_disconnect S x w) = heap w \<and> heap (x_set_nonblocking S x w) = heap w \<and>
        heap (snd (x_keepalive_send S x w)) = heap w \<and> heap (snd (x_hostkey S x w)) = heap w \<and> heap (x_forward_cancel S x w) = heap w) \<and>
     (\<forall>x k w. heap (x_keepalive_config S x k w) = heap w) \<and>
     (\<forall>x u w. heap (snd (x_userauth_list S x u w)) = heap w) \<and>
     (\<forall>x u pw w. heap (snd (x_userauth_password S x u pw w)) = heap w) \<and>
     (\<forall>x u pub priv ph w. heap (snd (x_userauth_frommemory S x u pub priv ph w)) = heap w) \<and>
     (\<forall>x u f1 f2 pw w. heap (snd (x_userauth_fromfile S x u f1 f2 pw w)) = heap w) \<and>
     (\<forall>x h port k w. heap (snd (x_forward_listen S x h port k w)) = heap w) \<and>
     (\<forall>x w L. heap w = Some L \<longrightarrow> heap (x_free S x w) = Some {}) \<and>
     (\<forall>l w L. heap w = Some L \<longrightarrow>
        (case fst (x_forward_accept S l w) of None \<Rightarrow> heap (snd (x_forward_accept S l w)) = Some L
         | Some c \<Rightarrow> c \<notin> L \<and> heap (snd (x_forward_accept S l w)) = Some (insert c L)))"

lemma ssh_neutral:
  assumes "ssh_heap S heap"
  shows "heap (o_optimize S fd w) = heap w" "heap (snd (o_getaddrinfo S h w)) = heap w" "heap (snd (o_connect S fd a port w)) = heap w"
    "heap (o_delay S k w) = heap w" "heap (snd (x_init S w)) = heap w" "heap (snd (o_stats_lock S w)) = heap w"
    "heap (snd (x_handshake S x fd w)) = heap w" "heap (x_disconnect S x w) = heap w" "heap (x_set_nonblocking S x w) = heap w"
    "heap (snd (x_keepalive_send S x w)) = heap w" "heap (snd (x_hostkey S x w)) = heap w" "heap (x_forward_cancel S x w) = heap w"
    "heap (x_keepalive_config S x i w) = heap w" "heap (snd (x_userauth_list S x u w)) = heap w"
    "heap (snd (x_userauth_password S x u pw w)) = heap w" "heap (snd (x_userauth_frommemory S x u pub priv ph w)) = heap w"
    "heap (snd (x_userauth_fromfile S x u f1 f2 pw w)) = heap w" "heap (snd (x_forward_listen S x h i i2 w)) = heap w"
  using assms unfolding ssh_heap_def by simp_all

lemma ssh_free: "ssh_heap S heap \<Longrightarrow> heap w = Some L \<Longrightarrow> heap (x_free S x w) = Some {}"
  by (simp add: ssh_heap_def)

lemma ssh_accept:
  assumes "ssh_heap S heap" and "heap w = Some L"
  shows "x_forward_accept S l w = (None, w') \<Longrightarrow> heap w' = Some L"
    and "x_forward_accept S l w = (Some c, w') \<Longrightarrow> c \<notin> L \<and> heap w' = Some (insert c L)"
proof -
  have "case fst (x_forward_accept S l w) of None \<Rightarrow> heap (snd (x_forward_accept S l w)) = Some L
         | Some c \<Rightarrow> c \<notin> L \<and> heap (snd (x_forward_accept S l w)) = Some (insert c L)"
    using assms unfolding ssh_heap_def by blast
  then show "x_forward_accept S l w = (None, w') \<Longrightarrow> heap w' = Some L"
    and "x_forward_accept S l w = (Some c, w') \<Longrightarrow> c \<notin> L \<and> heap w' = Some (insert c L)" by auto
qed

text \<open>Memory is intact.\<close>

definition alive :: "('w \<Rightarrow> nat set option) \<Rightarrow> 'w \<Rightarrow> bool" where
  "alive heap w \<longleftrightarrow> (\<exists>L. heap w = Some L)"

lemma alive_net:
  assumes "net_heap N heap"
  shows "alive heap (snd (millis N w)) = alive heap w"
    "alive heap (s_unlock N w) = alive heap w"
    "alive heap (n_close N fd w) = alive heap w"
    "alive heap (snd (s_lock N k w)) = alive heap w"
    "alive heap (snd (n_socket N w)) = alive heap w"
    "alive heap (snd (n_sockerr N fd w)) = alive heap w"
  by (simp_all add: alive_def heap_neutral [OF assms])

lemma alive_ssh:
  assumes "ssh_heap S heap"
  shows "alive heap (o_optimize S fd w) = alive heap w"
    "alive heap (snd (o_getaddrinfo S h w)) = alive heap w"
    "alive heap (snd (o_connect S fd a port w)) = alive heap w"
    "alive heap (o_delay S k w) = alive heap w"
    "alive heap (snd (x_init S w)) = alive heap w"
    "alive heap (snd (o_stats_lock S w)) = alive heap w"
    "alive heap (snd (x_handshake S x fd w)) = alive heap w"
    "alive heap (x_disconnect S x w) = alive heap w"
    "alive heap (x_set_nonblocking S x w) = alive heap w"
    "alive heap (snd (x_keepalive_send S x w)) = alive heap w"
    "alive heap (snd (x_hostkey S x w)) = alive heap w"
    "alive heap (x_forward_cancel S x w) = alive heap w"
    "alive heap (x_keepalive_config S x i w) = alive heap w"
    "alive heap (snd (x_userauth_list S x u w)) = alive heap w"
    "alive heap (snd (x_userauth_password S x u pw w)) = alive heap w"
    "alive heap (snd (x_userauth_frommemory S x u pub priv ph w)) = alive heap w"
    "alive heap (snd (x_userauth_fromfile S x u f1 f2 pw w)) = alive heap w"
    "alive heap (snd (x_forward_listen S x h i i2 w)) = alive heap w"
  by (simp_all add: alive_def ssh_neutral [OF assms])

lemma alive_free: "ssh_heap S heap \<Longrightarrow> alive heap w \<Longrightarrow> alive heap (x_free S x w)"
  by (auto simp: alive_def dest: ssh_free)

lemmas alive_rules = alive_net alive_ssh alive_free

text \<open>The operations of the session.\<close>

lemma cancelListener_alive:
  "net_heap N heap \<Longrightarrow> ssh_heap S heap \<Longrightarrow> alive heap (snd (cancelListener N S e w)) = alive heap w"
  by (simp add: cancelListener_def case_prod_beta alive_rules split: option.split)

lemma cancelAll_alive:
  assumes "net_heap N heap" "ssh_heap S heap"
  shows "alive heap (snd (cancelAllListeners N S sw)) = alive heap (snd sw)"
proof -
  have "alive heap (fold (\<lambda>e w. snd (cancelListener N S e w)) es w) = alive heap w" for es w
    using assms by (induction es arbitrary: w) (simp_all add: cancelListener_alive)
  then show ?thesis by (simp add: cancelAllListeners_def case_prod_beta)
qed

lemma cleanup_alive:
  assumes "net_heap N heap" "ssh_heap S heap" "alive heap (snd sw)"
  shows "alive heap (snd (cleanupSession N S sw))"
  using assms cancelAll_alive [OF assms(1,2), of sw]
  by (simp add: cleanupSession_def freeSession_def Let_def case_prod_beta alive_rules split: option.split)

lemma disconnect_alive:
  assumes "net_heap N heap" "ssh_heap S heap" "alive heap (snd sw)"
  shows "alive heap (snd (disconnectSession N S sw))"
  unfolding disconnectSession_def
  by (rule cleanup_alive [OF assms(1,2)]) (simp add: assms cancelAll_alive)

lemma tcpConnect_alive:
  "net_heap N heap \<Longrightarrow> ssh_heap S heap \<Longrightarrow> alive heap (snd sw) \<Longrightarrow> alive heap (snd (snd (tcpConnect N S cfg sw)))"
  by (simp add: tcpConnect_def closeAndFail_def Let_def case_prod_beta alive_rules split: option.split)

lemma handshake_alive:
  "net_heap N heap \<Longrightarrow> ssh_heap S heap \<Longrightarrow> alive heap (snd sw) \<Longrightarrow> alive heap (snd (snd (handshake N S sw)))"
  by (simp add: handshake_def case_prod_beta alive_rules split: option.split)

lemma checkHostKey_alive:
  "net_heap N heap \<Longrightarrow> ssh_heap S heap \<Longrightarrow> alive heap (snd (checkHostKey N S cfg x w)) = alive heap w"
  by (simp add: checkHostKey_def case_prod_beta alive_rules)

lemma configureKeepalive_alive:
  "net_heap N heap \<Longrightarrow> ssh_heap S heap \<Longrightarrow> alive heap (configureKeepalive N S conn x w) = alive heap w"
  by (simp add: configureKeepalive_def case_prod_beta alive_rules)

lemma publickey_alive:
  "net_heap N heap \<Longrightarrow> ssh_heap S heap \<Longrightarrow> alive heap (snd (publickey_loop N S cfg x ps w)) = alive heap w"
  by (induction ps arbitrary: w) (simp_all add: case_prod_beta alive_rules)

lemma readErrorDetail_alive: "net_heap N heap \<Longrightarrow> alive heap (readErrorDetail N k w) = alive heap w"
  by (simp add: readErrorDetail_def case_prod_beta alive_rules)

lemma authenticate_alive:
  "net_heap N heap \<Longrightarrow> ssh_heap S heap \<Longrightarrow> alive heap (snd (authenticate N S c x w)) = alive heap w"
  by (simp add: authenticate_def authenticateKey_def Let_def case_prod_beta alive_rules publickey_alive readErrorDetail_alive)

lemma listen_alive:
  "net_heap N heap \<Longrightarrow> ssh_heap S heap \<Longrightarrow> alive heap (snd (listen_loop N S x m k n w)) = alive heap w"
  by (induction n arbitrary: w) (simp_all add: Let_def case_prod_beta alive_rules split: option.split)

lemma createListener_alive:
  "net_heap N heap \<Longrightarrow> ssh_heap S heap \<Longrightarrow> alive heap (snd (snd (createListenerForMapping N S c x m sw))) = alive heap (snd sw)"
  using listen_alive [of N heap S x m "max 1 (maxChannels (connectionConfig c))" 50 "snd sw"]
  by (simp add: createListenerForMapping_def Let_def case_prod_beta alive_rules readErrorDetail_alive split: option.split prod.split)

lemma listeners_alive:
  "net_heap N heap \<Longrightarrow> ssh_heap S heap \<Longrightarrow> alive heap (snd (snd (listeners_loop N S c x ms sw))) = alive heap (snd sw)"
proof (induction ms arbitrary: sw)
  case (Cons m ms)
  then show ?case
    using createListener_alive [OF Cons.prems, of c x m sw] cancelAll_alive [OF Cons.prems]
    by (simp add: case_prod_beta split: option.split)
qed simp

lemma createListeners_alive:
  "net_heap N heap \<Longrightarrow> ssh_heap S heap \<Longrightarrow> alive heap (snd (snd (createListeners N S c x sw))) = alive heap (snd sw)"
  by (simp add: createListeners_def Let_def case_prod_beta listeners_alive cancelAll_alive)

lemma connectFailed_alive:
  "net_heap N heap \<Longrightarrow> ssh_heap S heap \<Longrightarrow> alive heap (snd sw) \<Longrightarrow> alive heap (snd (snd (connectFailed N S f sw)))"
  by (simp add: connectFailed_def case_prod_beta cleanup_alive)

lemma connect_alive:
  assumes "net_heap N heap" "ssh_heap S heap" "alive heap (snd sw)"
  shows "alive heap (snd (snd (connectSession N S c sw)))"
  using assms
  by (simp add: connectSession_def Let_def case_prod_beta tcpConnect_alive handshake_alive checkHostKey_alive
      configureKeepalive_alive authenticate_alive createListeners_alive connectFailed_alive cleanup_alive alive_rules)

lemma sendKeepalive_heap:
  "net_heap N heap \<Longrightarrow> ssh_heap S heap \<Longrightarrow> heap (snd (snd (sendKeepalive N S sw))) = heap (snd sw)"
  by (simp add: sendKeepalive_def Let_def case_prod_beta heap_neutral ssh_neutral split: option.split)

lemma checkConnection_heap: "net_heap N heap \<Longrightarrow> heap (snd (checkConnection N sw)) = heap (snd sw)"
  by (simp add: checkConnection_def case_prod_beta heap_neutral)

text \<open>Accepting allocates the channel it returns, and nothing else.\<close>

definition accepted :: "('w \<Rightarrow> nat set option) \<Rightarrow> nat set \<Rightarrow> (nat \<times> TunnelConfig) option \<Rightarrow> 'w \<Rightarrow> bool" where
  "accepted heap L r w \<longleftrightarrow> (case r of None \<Rightarrow> heap w = Some L | Some (c, m) \<Rightarrow> c \<notin> L \<and> heap w = Some (insert c L))"

lemma accept_loop_heap:
  assumes n: "net_heap N heap" and s: "ssh_heap S heap"
  shows "heap (snd sw) = Some L \<Longrightarrow>
    accepted heap L (fst (accept_loop N S x es sw)) (snd (snd (accept_loop N S x es sw)))"
proof (induction es arbitrary: sw)
  case Nil
  then show ?case by (simp add: accepted_def)
next
  case (Cons e es)
  obtain t w where sw: "sw = (t, w)" by (cases sw)
  show ?case
  proof (cases "listener e")
    case None
    then show ?thesis using Cons.IH [of "(t, w)"] Cons.prems sw by simp
  next
    case (Some l)
    obtain locked w1 where w1: "s_lock N 50 w = (locked, w1)" by (cases "s_lock N 50 w")
    then have h1: "heap w1 = Some L" using heap_neutral(14) [OF n, of 50 w] Cons.prems sw by simp
    obtain ch w2 where w2: "x_forward_accept S l w1 = (ch, w2)" by (cases "x_forward_accept S l w1")
    note acc = ssh_accept [OF s h1]
    show ?thesis
    proof (cases "locked \<and> ch \<noteq> None")
      case True
      then obtain c where c: "ch = Some c" by auto
      have "c \<notin> L \<and> heap w2 = Some (insert c L)" by (rule acc(2)) (use w2 c in simp)
      then show ?thesis using True c w1 w2 sw Some
        by (simp add: accepted_def case_prod_beta Let_def heap_neutral [OF n])
    next
      case False
      have "locked \<Longrightarrow> heap (s_unlock N w2) = Some L" using acc(1) False w2 by (simp add: heap_neutral [OF n])
      moreover have "heap (snd (noteUnknownChannel N (t', w'))) = heap w'" for t' w'
        by (simp add: noteUnknownChannel_def case_prod_beta heap_neutral [OF n])
      ultimately show ?thesis using False Cons.IH w1 w2 sw Some h1 by (auto simp: Let_def)
    qed
  qed
qed

lemma acceptChannel_heap:
  assumes "net_heap N heap" "ssh_heap S heap" "heap (snd sw) = Some L"
  shows "accepted heap L (fst (acceptChannel N S sw)) (snd (snd (acceptChannel N S sw)))"
proof (cases "session (fst sw) = None \<or> listeners (fst sw) = []")
  case True
  then show ?thesis using assms(3) by (auto simp: acceptChannel_def case_prod_beta accepted_def split: option.split)
next
  case False
  then obtain x where "session (fst sw) = Some x" by auto
  then have "acceptChannel N S sw = accept_loop N S x (listeners (fst sw)) sw"
    using False by (simp add: acceptChannel_def case_prod_beta)
  then show ?thesis using accept_loop_heap [OF assms] by simp
qed

section \<open>The tunnel\<close>

text \<open>
  A tunnel with \<open>n\<close> slots: the table is in order, and the channels of the slots and the channels \<open>Q\<close> are allocated
  and have one holder each.  The slots hold channels of \<open>F\<close> only.
\<close>

definition sound :: "('w \<Rightarrow> nat set option) \<Rightarrow> nat \<Rightarrow> nat set \<Rightarrow> nat list \<Rightarrow> ('r, 'w) SSHTunnel \<Rightarrow> bool" where
  "sound heap n F Q t \<longleftrightarrow> kept n (transport t) \<and> distinct Q \<and> holds heap (set Q) F (mgr t)"

definition queued :: "('r, 'w) SSHTunnel \<Rightarrow> nat list" where
  "queued t = map pc_channel (pendingQueue t) @ map pc_channel (deferredCloseQueue t)"

lemma sound_fields [simp]:
  "sound heap n F Q (t\<lparr>sshSession := s\<rparr>) = sound heap n F Q t" "sound heap n F Q (t\<lparr>tunnelState := st\<rparr>) = sound heap n F Q t"
  "sound heap n F Q (t\<lparr>lastKeepAlive := k\<rparr>) = sound heap n F Q t"
  "sound heap n F Q (t\<lparr>lastConnectionAttempt := k\<rparr>) = sound heap n F Q t"
  "sound heap n F Q (t\<lparr>reconnectAttempts := i\<rparr>) = sound heap n F Q t"
  "sound heap n F Q (t\<lparr>socketHealthFailures := i\<rparr>) = sound heap n F Q t"
  "sound heap n F Q (t\<lparr>bytesReceived := k\<rparr>) = sound heap n F Q t" "sound heap n F Q (t\<lparr>bytesSent := k\<rparr>) = sound heap n F Q t"
  "sound heap n F Q (t\<lparr>pendingQueue := ps\<rparr>) = sound heap n F Q t"
  "sound heap n F Q (t\<lparr>deferredCloseQueue := ps\<rparr>) = sound heap n F Q t"
  "sound heap n F Q (emitEvent e t) = sound heap n F Q t"
  by (simp_all add: sound_def emitEvent_def)

lemma mgr_simps [simp]:
  "mgr (run g t) = act g (mgr t)" "mgr (snd (call f t)) = snd (ask f (mgr t))" "mgr (onManager h t) = h (mgr t)"
  "mgr (snd (fromManager q t)) = snd (q (mgr t))" "fst (fromManager q t) = fst (q (mgr t))"
  by (simp_all add: run_def call_def fromManager_def onManager_def onPump_def onMgr_def case_prod_beta)

lemma kept_manager: "kept n (transport (onManager h t)) \<longleftrightarrow> channels_ok (h (mgr t)) \<and> length (slots (h (mgr t))) = n"
  by (simp add: onManager_def onPump_def kept_def)

lemma kept_from: "kept n (transport (snd (fromManager q t))) \<longleftrightarrow> channels_ok (snd (q (mgr t))) \<and> length (slots (snd (q (mgr t)))) = n"
  by (simp add: fromManager_def case_prod_beta kept_manager)

lemma kept_outside [simp]:
  "kept n (transport (run g t)) = kept n (transport t)" "kept n (transport (snd (call f t))) = kept n (transport t)"
  by (simp_all add: run_def call_def kept_manager kept_from) (simp_all add: kept_def act_def ask_def case_prod_beta)

lemma sound_run: "(\<And>w. heap (g w) = heap w) \<Longrightarrow> sound heap n F Q (run g t) = sound heap n F Q t"
  by (simp add: sound_def holds_act)

lemma holds_ask: "(\<And>w. heap (snd (f w)) = heap w) \<Longrightarrow> holds heap E F (snd (ask f m)) = holds heap E F m"
  by (rule holds_same) (simp add: mcalm_ask)

lemma sound_call: "(\<And>w. heap (snd (f w)) = heap w) \<Longrightarrow> sound heap n F Q (snd (call f t)) = sound heap n F Q t"
  by (simp add: sound_def holds_ask)

text \<open>A channel may be forgotten, and the order of the others does not matter.\<close>

lemma holds_mono: "holds heap E F m \<Longrightarrow> E' \<subseteq> E \<Longrightarrow> F \<subseteq> F' \<Longrightarrow> holds heap E' F' m"
proof -
  have "owned E F H L \<Longrightarrow> E' \<subseteq> E \<Longrightarrow> F \<subseteq> F' \<Longrightarrow> owned E' F' H L" for H L unfolding owned_def by blast
  then show "holds heap E F m \<Longrightarrow> E' \<subseteq> E \<Longrightarrow> F \<subseteq> F' \<Longrightarrow> ?thesis" unfolding holds_def by blast
qed

lemma sound_sub: "sound heap n F Q t \<Longrightarrow> distinct Q' \<Longrightarrow> set Q' \<subseteq> set Q \<Longrightarrow> sound heap n F Q' t"
  unfolding sound_def using holds_mono [of heap "set Q" F "mgr t" "set Q'" F] by simp

lemma sound_all: "sound heap n F Q t \<Longrightarrow> sound heap n UNIV Q t"
  unfolding sound_def using holds_mono [of heap "set Q" F "mgr t" "set Q" UNIV] by simp

lemma sound_drop: "sound heap n F (c # Q) t \<Longrightarrow> sound heap n F Q t"
  by (rule sound_sub [of heap n F "c # Q"]) (auto simp: sound_def)

lemma sound_alive: "sound heap n F Q t \<Longrightarrow> alive heap (net (mgr t))"
  by (auto simp: sound_def holds_def mcalm_def alive_def)

lemma sound_kept: "sound heap n F Q t \<Longrightarrow> kept n (transport t)"
  by (simp add: sound_def)

text \<open>What the operations on single channels leave alone.\<close>

definition same :: "('r, 'w) SSHTunnel \<Rightarrow> ('r, 'w) SSHTunnel \<Rightarrow> bool" where
  "same t t' \<longleftrightarrow> pendingQueue t' = pendingQueue t \<and> deferredCloseQueue t' = deferredCloseQueue t \<and> tunnelState t' = tunnelState t"

lemma same_refl [simp]: "same t t"
  by (simp add: same_def)

lemma outside_fields [simp]:
  "pendingQueue (run g t) = pendingQueue t" "deferredCloseQueue (run g t) = deferredCloseQueue t"
  "tunnelState (run g t) = tunnelState t" "sshSession (run g t) = sshSession t"
  "pendingQueue (onManager h t) = pendingQueue t" "deferredCloseQueue (onManager h t) = deferredCloseQueue t"
  "tunnelState (onManager h t) = tunnelState t" "sshSession (onManager h t) = sshSession t"
  "pendingQueue (snd (call f t)) = pendingQueue t" "deferredCloseQueue (snd (call f t)) = deferredCloseQueue t"
  "tunnelState (snd (call f t)) = tunnelState t" "sshSession (snd (call f t)) = sshSession t"
  "pendingQueue (snd (fromManager q t)) = pendingQueue t" "deferredCloseQueue (snd (fromManager q t)) = deferredCloseQueue t"
  "tunnelState (snd (fromManager q t)) = tunnelState t" "sshSession (snd (fromManager q t)) = sshSession t"
  "pendingQueue (emitEvent e t) = pendingQueue t" "deferredCloseQueue (emitEvent e t) = deferredCloseQueue t"
  "tunnelState (emitEvent e t) = tunnelState t" "sshSession (emitEvent e t) = sshSession t"
  by (simp_all add: run_def call_def fromManager_def onManager_def onPump_def case_prod_beta emitEvent_def)

section \<open>Operations on one channel\<close>

lemma close_sound:
  assumes n: "net_heap N heap" and s: "sound heap n F (c # Q) t"
  shows "sound heap n F Q (run (closeAndFree N c) t)"
proof -
  obtain H L where m: "mcalm heap H L (mgr t)" and o: "owned (insert c (set Q)) F H L"
    using s by (auto simp: sound_def holds_def)
  have c: "c \<in> L" "c \<notin> set Q" using o s by (auto simp: owned_def sound_def)
  let ?w = "snd (ch_close N c (net (mgr t)))"
  let ?L = "if fst (ch_free N c ?w) = LIBSSH2_ERROR_EAGAIN then L else L - {c}"
  have "heap ?w = Some L" using m heap_channel(2) [OF n _ c(1)] by (simp add: mcalm_def)
  then have "heap (closeAndFree N c (net (mgr t))) = Some ?L"
    using heap_channel(7) [OF n _ c(1)] by (simp add: closeAndFree_def)
  then have "mcalm heap H ?L (mgr (run (closeAndFree N c) t))" using m by (simp add: mcalm_def act_def)
  moreover have "owned (set Q) F H ?L" using o c(2) by (auto simp: owned_def)
  ultimately show ?thesis using s by (auto simp: sound_def holds_def)
qed

lemma locked_close_sound:
  assumes "net_heap N heap" "sound heap n F (c # Q) t"
  shows "sound heap n F Q (run (s_unlock N) (run (closeAndFree N c) (snd (call (s_lock N k) t))))"
  using assms by (simp add: sound_run heap_neutral close_sound sound_call)

lemma closeAccepted_sound:
  assumes "net_heap N heap" "sound heap n F (c # Q) t"
  shows "sound heap n F (if fst (closeAcceptedChannel N c k t) then Q else c # Q) (snd (closeAcceptedChannel N c k t))"
    and "same t (snd (closeAcceptedChannel N c k t))"
  using locked_close_sound [OF assms, of k] assms
  by (simp_all add: closeAcceptedChannel_def case_prod_beta same_def sound_call heap_neutral)

lemma owned_store: "owned (insert c E) UNIV H L \<Longrightarrow> c \<notin> E \<Longrightarrow> owned E UNIV (H[i := Some c]) L"
  by (cases "i < length H") (auto simp: owned_def nth_list_update list_update_beyond split: if_splits)

lemma bindAccepted_sound:
  assumes n: "net_heap N heap" and s: "sound heap n UNIV (c # Q) t"
  shows "sound heap n UNIV (if fst (bindAcceptedChannel N i c m k t) = Bound then Q else c # Q) (snd (bindAcceptedChannel N i c m k t))"
    and "same t (snd (bindAcceptedChannel N i c m k t))"
proof -
  let ?t = "snd (call (s_lock N k) t)"
  let ?b = "bindChannel N i c m (mgr ?t)"
  have s1: "sound heap n UNIV (c # Q) ?t" using s n by (simp add: sound_call heap_neutral)
  then obtain H L where h: "mcalm heap H L (mgr ?t)" and o: "owned (insert c (set Q)) UNIV H L"
    by (auto simp: sound_def holds_def simp del: mgr_simps)
  have c: "c \<in> L" using o by (auto simp: owned_def)
  have b: "mcalm heap (if fst ?b then H[i := Some c] else H) L (snd ?b)" by (rule bindChannel_calm [OF n h c])
  have "owned (set Q) UNIV (H[i := Some c]) L" by (rule owned_store [OF o]) (use s1 in \<open>simp add: sound_def\<close>)
  then have "holds heap (set (if fst ?b then Q else c # Q)) UNIV (snd ?b)"
    using b o by (cases "fst ?b") (auto simp: holds_def simp del: mgr_simps)
  moreover have "kept n (transport (snd (fromManager (bindChannel N i c m) ?t)))"
    unfolding kept_from using s1 bindChannel_ok [of "mgr ?t" N i c m] mcalm_length [OF b] mcalm_length [OF h]
    by (auto simp: sound_def kept_def simp del: mgr_simps split: if_splits)
  moreover have "distinct (if fst ?b then Q else c # Q)" using s1 by (auto simp: sound_def)
  ultimately have "sound heap n UNIV (if fst ?b then Q else c # Q) (snd (fromManager (bindChannel N i c m) ?t))"
    by (simp add: sound_def)
  then show "sound heap n UNIV (if fst (bindAcceptedChannel N i c m k t) = Bound then Q else c # Q) (snd (bindAcceptedChannel N i c m k t))"
    using s1 by (simp add: bindAcceptedChannel_def case_prod_beta sound_run heap_neutral [OF n] split: if_splits)
  show "same t (snd (bindAcceptedChannel N i c m k t))" by (simp add: bindAcceptedChannel_def case_prod_beta same_def)
qed

lemma allocateSlot_length: "length (slots (snd (allocateSlot N m))) = length (slots m)"
  by (auto simp: allocateSlot_def beginClose_def Let_def case_prod_beta split: option.split)

lemma allocate_sound:
  assumes n: "net_heap N heap" and s: "sound heap n F Q t"
  shows "sound heap n F Q (snd (fromManager (allocateSlot N) t))"
proof -
  have "holds heap (set Q) F (snd (allocateSlot N (mgr t)))"
    using s holds_same [of heap "snd (allocateSlot N (mgr t))" "mgr t"] allocateSlot_calm [OF n] by (auto simp: sound_def)
  moreover have "length (slots (snd (allocateSlot N (mgr t)))) = n"
    using s by (simp add: sound_def kept_def allocateSlot_length)
  ultimately show ?thesis using s allocateSlot_ok [of "mgr t" N] by (simp add: sound_def kept_from kept_def)
qed

lemma accept_sound:
  assumes n: "net_heap N heap" "ssh_heap S heap" and s: "sound heap n F Q t"
  shows "sound heap n F ((case fst (fromSession (acceptChannel N S) t) of None \<Rightarrow> [] | Some (c, _) \<Rightarrow> [c]) @ Q)
     (snd (fromSession (acceptChannel N S) t))"
proof -
  obtain H L where m: "mcalm heap H L (mgr t)" and o: "owned (set Q) F H L" using s by (auto simp: sound_def holds_def)
  obtain r s' w' where e: "acceptChannel N S (sshSession t, net (mgr t)) = (r, s', w')"
    by (cases "acceptChannel N S (sshSession t, net (mgr t))") auto
  have a: "accepted heap L r w'" using acceptChannel_heap [OF n, of "(sshSession t, net (mgr t))" L] m e by (simp add: mcalm_def)
  have f: "fromSession (acceptChannel N S) t = (r, run (\<lambda>_. w') (t\<lparr>sshSession := s'\<rparr>))" by (simp add: fromSession_def e)
  have h: "map sshChannel (slots (act (\<lambda>_. w') (mgr t))) = H" "net (act (\<lambda>_. w') (mgr t)) = w'" using m by (simp_all add: mcalm_def act_def)
  show ?thesis
  proof (cases r)
    case None
    then have "mcalm heap H L (act (\<lambda>_. w') (mgr t))" using a h by (simp add: accepted_def mcalm_def)
    then show ?thesis using s o None f by (auto simp: sound_def holds_def)
  next
    case (Some cm)
    then obtain c mp where r: "r = Some (c, mp)" by (cases cm) auto
    then have L: "c \<notin> L" and "mcalm heap H (insert c L) (act (\<lambda>_. w') (mgr t))" using a h by (simp_all add: accepted_def mcalm_def)
    moreover from L o have "owned (insert c (set Q)) F H (insert c L)" "c \<notin> set Q" by (auto simp: owned_def)
    ultimately show ?thesis using s r f by (auto simp: sound_def holds_def)
  qed
qed

end
