(* ===== verification/Tunnel_Owners.thy ===== *)
theory Tunnel_Owners
  imports Tunnel_Lifetime
begin

text \<open>
  The end of a session, the main loop of the tunnel, and the property that no run of the tunnel uses a channel that
  was freed.
\<close>

section \<open>The end of a session\<close>

lemma abandonSlot_slots:
  "slots (abandonSlot N i m) = (if i < length (slots m) \<and> active (slots m ! i) then (slots m)[i := resetSlot (slots m ! i)] else slots m)"
  by (auto simp: abandonSlot_def closeSocket_def resetSlot_def maxSlots_def updSlot_def act_def Let_def)

lemma abandonAll_manager: "mgr (fold (\<lambda>i. onManager (abandonSlot N i)) xs t) = fold (abandonSlot N) xs (mgr t)"
  by (induction xs arbitrary: t) simp_all

lemma abandon_inactive:
  "j < length (slots m) \<Longrightarrow> j \<in> set xs \<or> \<not> active (slots m ! j) \<Longrightarrow>
    length (slots (fold (abandonSlot N) xs m)) = length (slots m) \<and> \<not> active (slots (fold (abandonSlot N) xs m) ! j)"
proof (induction xs arbitrary: m)
  case (Cons i xs)
  have "j \<in> set xs \<or> \<not> active (slots (abandonSlot N i m) ! j)"
    using Cons.prems by (auto simp: abandonSlot_slots nth_list_update resetSlot_def newSlot_def)
  then show ?case using Cons.IH [of "abandonSlot N i m"] Cons.prems(1) by simp
qed simp

lemma abandon_heap: "net_heap N heap \<Longrightarrow> heap (net (abandonSlot N i m)) = heap (net m)"
  by (simp add: abandonSlot_def closeSocket_def updSlot_def act_def Let_def heap_neutral)

lemma abandonAll_bare:
  assumes n: "net_heap N heap" and k: "kept n (transport t)" and a: "alive heap (net (mgr t))"
  shows "sound heap n {} [] (abandonAll N t)"
proof -
  let ?m = "mgr (abandonAll N t)"
  have m: "?m = fold (abandonSlot N) [0..<maxSlots (mgr t)] (mgr t)" by (simp add: abandonAll_def abandonAll_manager)
  have fo: "channels_ok (fold (abandonSlot N) xs x) \<and> heap (net (fold (abandonSlot N) xs x)) = heap (net x)
      \<and> length (slots (fold (abandonSlot N) xs x)) = length (slots x)" if "channels_ok x" for xs x
    using that by (induction xs arbitrary: x) (simp_all add: abandonSlot_ok abandon_heap [OF n])
  have o: "channels_ok ?m" "heap (net ?m) = heap (net (mgr t))" "length (slots ?m) = n"
    using fo [of "mgr t" "[0..<maxSlots (mgr t)]"] k by (simp_all add: m kept_def)
  have none: "sshChannel (slots ?m ! j) = None" if "j < n" for j
  proof -
    have "slot_ok (slots ?m ! j)" using o that by (simp add: channels_ok_def list_all_length)
    moreover have "\<not> active (slots ?m ! j)"
      using abandon_inactive [of j "mgr t" "[0..<maxSlots (mgr t)]" N] k that by (simp add: m kept_def maxSlots_def)
    ultimately show ?thesis by (simp add: slot_ok_def)
  qed
  obtain L where "heap (net ?m) = Some L" using a o(2) by (auto simp: alive_def)
  then have "mcalm heap (map sshChannel (slots ?m)) L ?m" by (simp add: mcalm_def)
  moreover have "owned {} {} (map sshChannel (slots ?m)) L" using none o(3) by (simp add: owned_def)
  ultimately have "holds heap {} {} ?m" by (rule holdsI)
  then show ?thesis using o by (simp add: sound_def kept_def)
qed

lemma onSession_simps [simp]:
  "mgr (onSession f t) = act (\<lambda>_. snd (f (sshSession t, net (mgr t)))) (mgr t)"
  "kept n (transport (onSession f t)) = kept n (transport t)" "tunnelState (onSession f t) = tunnelState t"
  by (simp_all add: onSession_def case_prod_beta)

lemma dropSession_bare:
  assumes "net_heap N heap" "ssh_heap S heap" "kept n (transport t)" "alive heap (net (mgr t))"
  shows "bare heap n (dropSession N S t)"
proof -
  have "alive heap (snd (disconnectSession N S (sshSession t, net (mgr t))))" by (rule disconnect_alive) (use assms in simp_all)
  then have "sound heap n {} [] (abandonAll N (onSession (disconnectSession N S) t))"
    using assms by (intro abandonAll_bare) (simp_all add: act_def)
  then show ?thesis by (simp add: dropSession_def bare_def forgetQueues_def queued_def)
qed

lemma dropSession_tidy:
  "net_heap N heap \<Longrightarrow> ssh_heap S heap \<Longrightarrow> tidy heap n t \<Longrightarrow> bare heap n (dropSession N S t)"
  unfolding tidy_def by (intro dropSession_bare) (auto intro: sound_kept sound_alive)

text \<open>Closing the slots while the session still lives.\<close>

lemma closeOneSlot_sound:
  assumes n: "net_heap N heap" and s: "sound heap n F Q t"
  shows "sound heap n F Q (closeOneSlot N locked r i t)"
proof -
  have k: "channels_ok (mgr t)" "length (slots (mgr t)) = n" "holds heap (set Q) F (mgr t)" "distinct Q"
    using s by (simp_all add: sound_def kept_def)
  then show ?thesis using s
    by (simp add: closeOneSlot_def Let_def)
      (simp add: sound_def kept_manager finalizeClose_ok abandonSlot_ok finalizeClose_holds [OF n] abandonSlot_holds [OF n])
qed

lemma closeOneSlot_queued: "queued (closeOneSlot N locked r i t) = queued t"
  by (simp add: closeOneSlot_def Let_def)

lemma closeAllSlots_tidy:
  assumes n: "net_heap N heap" and t: "tidy heap n t"
  shows "tidy heap n (closeAllSlots N locked r t)"
proof -
  have "tidy heap n (fold (closeOneSlot N locked r) xs u)" if "tidy heap n u" for xs u
    using that by (induction xs arbitrary: u) (simp_all add: tidy_def closeOneSlot_sound [OF n] closeOneSlot_queued)
  then show ?thesis using t by (cases locked) (simp_all add: closeAllSlots_def Let_def tidy_outside heap_neutral [OF n])
qed

lemma disconnect_bare:
  assumes n: "net_heap N heap" "ssh_heap S heap" and t: "tidy heap n t"
  shows "bare heap n (disconnectTunnel N S t)"
proof -
  let ?t = "clearDeferredCloseQueue N (clearPendingQueue N t)"
  have "tidy heap n ?t" by (intro clearDeferred_tidy clearPending_tidy n t)
  then have "tidy heap n (snd (if isConnectedSession (sshSession ?t) then call (s_lock N 2000) ?t else (False, ?t)))"
    using n by (simp add: tidy_outside heap_neutral)
  then show ?thesis unfolding disconnectTunnel_def Let_def case_prod_beta
    by (simp add: dropSession_tidy [OF n] closeAllSlots_tidy [OF n(1)])
qed

lemma enterError_bare:
  assumes n: "net_heap N heap" "ssh_heap S heap" and t: "tidy heap n t"
  shows "bare heap n (enterErrorState N S t)"
proof -
  let ?t = "clearDeferredCloseQueue N (clearPendingQueue N t)"
  have "tidy heap n ?t" by (intro clearDeferred_tidy clearPending_tidy n t)
  then have "tidy heap n (snd (call (s_lock N 500) ?t))" using n by (simp add: tidy_outside heap_neutral)
  then show ?thesis unfolding enterErrorState_def Let_def case_prod_beta
    by (simp add: bare_outside heap_neutral [OF n(1)] dropSession_tidy [OF n] closeAllSlots_tidy [OF n(1)])
qed

section \<open>The main loop\<close>

text \<open>A tunnel that is not connected holds nothing; \<open>CONNECTING\<close> is left before \<open>connectSSH\<close> returns.\<close>

definition safe :: "('w \<Rightarrow> nat set option) \<Rightarrow> nat \<Rightarrow> ('r, 'w) SSHTunnel \<Rightarrow> bool" where
  "safe heap n t \<longleftrightarrow> tunnelState t \<noteq> TUNNEL_CONNECTING \<and>
     (if tunnelState t = TUNNEL_CONNECTED then tidy heap n t else bare heap n t)"

lemma safe_bare: "bare heap n t \<Longrightarrow> tunnelState t \<noteq> TUNNEL_CONNECTING \<Longrightarrow> safe heap n t"
  by (simp add: safe_def bare_tidy)

lemma enterError_state [simp]: "tunnelState (enterErrorState N S t) = TUNNEL_ERROR"
  by (simp add: enterErrorState_def Let_def case_prod_beta)

lemma enterError_safe: "net_heap N heap \<Longrightarrow> ssh_heap S heap \<Longrightarrow> tidy heap n t \<Longrightarrow> safe heap n (enterErrorState N S t)"
  by (rule safe_bare [OF enterError_bare]) simp_all

lemma dropSession_state [simp]: "tunnelState (dropSession N S t) = tunnelState t"
proof -
  have "tunnelState (fold (\<lambda>i. onManager (abandonSlot N i)) xs u) = tunnelState u" for xs u
    by (induction xs arbitrary: u) simp_all
  then show ?thesis by (simp add: dropSession_def forgetQueues_def abandonAll_def)
qed

lemma clear_state [simp]:
  "tunnelState (clearPendingQueue N t) = tunnelState t" "tunnelState (clearDeferredCloseQueue N t) = tunnelState t"
  by (simp_all add: clearPendingQueue_def clearDeferredCloseQueue_def case_prod_beta)

lemma safe_tidy: "safe heap n t \<Longrightarrow> tidy heap n t"
  by (simp add: safe_def bare_tidy split: if_splits)

lemma safe_same: "tunnelState t = TUNNEL_CONNECTED \<Longrightarrow> tidy heap n t \<Longrightarrow> safe heap n t"
  by (simp add: safe_def)

lemma fromSession_bare:
  assumes "bare heap n t" "alive heap (snd (snd (f (sshSession t, net (mgr t)))))"
  shows "bare heap n (snd (fromSession f t))"
proof -
  let ?w = "snd (snd (f (sshSession t, net (mgr t))))"
  obtain H L where m: "mcalm heap H L (mgr t)" and o: "owned {} {} H L" using assms(1) by (auto simp: bare_def sound_def holds_def)
  obtain L' where l: "heap ?w = Some L'" using assms(2) by (auto simp: alive_def)
  have "mcalm heap H L' (act (\<lambda>_. ?w) (mgr t))" using m l by (simp add: mcalm_def act_def)
  moreover have "owned {} {} H L'" using o by (simp add: owned_def)
  ultimately have "holds heap {} {} (act (\<lambda>_. ?w) (mgr t))" by (rule holdsI)
  then show ?thesis using assms(1) by (simp add: fromSession_def case_prod_beta bare_def sound_def)
qed

lemma bare_alive: "bare heap n t \<Longrightarrow> alive heap (net (mgr t))"
  unfolding bare_def by (blast intro: sound_alive)

lemma connectSSH_bare:
  assumes n: "net_heap N heap" "ssh_heap S heap" and b: "bare heap n t" and st: "tunnelState t \<noteq> TUNNEL_CONNECTED"
  shows "safe heap n (snd (connectSSH N S c t))"
proof -
  let ?t = "(snd (call (millis N) (t\<lparr>tunnelState := TUNNEL_CONNECTING\<rparr>)))
     \<lparr>lastConnectionAttempt := fst (call (millis N) (t\<lparr>tunnelState := TUNNEL_CONNECTING\<rparr>))\<rparr>"
  have b1: "bare heap n ?t" using b n by (simp add: bare_outside heap_neutral)
  then have "bare heap n (snd (fromSession (connectSession N S c) ?t))"
    by (rule fromSession_bare) (intro connect_alive n, simp add: bare_alive [OF b1, simplified])
  then have "bare heap n (snd (connectSSH N S c t))" using st n
    by (simp add: connectSSH_def case_prod_beta bare_outside heap_neutral)
  then show ?thesis by (rule safe_bare) (simp add: connectSSH_def case_prod_beta st)
qed

lemma connectSSH_safe:
  "net_heap N heap \<Longrightarrow> ssh_heap S heap \<Longrightarrow> safe heap n t \<Longrightarrow> safe heap n (snd (connectSSH N S c t))"
  using connectSSH_bare [of N heap S n t c]
  by (cases "tunnelState t = TUNNEL_CONNECTED") (simp_all add: connectSSH_def, simp add: safe_def)

lemma handleReconnection_safe:
  assumes n: "net_heap N heap" "ssh_heap S heap" and t: "safe heap n t" and st: "tunnelState t = TUNNEL_ERROR"
  shows "safe heap n (handleReconnection N S c t)"
proof -
  let ?ok = "\<lambda>u. bare heap n u \<and> tunnelState u = TUNNEL_ERROR"
  have b: "?ok t" using t st by (simp add: safe_def)
  have call: "?ok (snd (call (millis N) u))" if "?ok u" for u using that n by (simp add: bare_outside heap_neutral)
  have safe: "safe heap n u" if "?ok u" for u using that by (simp add: safe_bare)
  have retry: "safe heap n (case connectSSH N S c ((dropSession N S (clearDeferredCloseQueue N (clearPendingQueue N u)))
      \<lparr>reconnectAttempts := k\<rparr>) of (ok, t5) \<Rightarrow> if ok then t5\<lparr>reconnectAttempts := 0\<rparr> else t5)" if "?ok u" for u k
  proof -
    have "bare heap n (dropSession N S (clearDeferredCloseQueue N (clearPendingQueue N u)))"
      by (rule dropSession_tidy [OF n]) (intro clearDeferred_tidy clearPending_tidy n bare_tidy conjunct1 [OF that])
    then have "safe heap n (snd (connectSSH N S c
        ((dropSession N S (clearDeferredCloseQueue N (clearPendingQueue N u)))\<lparr>reconnectAttempts := k\<rparr>)))"
      using that by (intro connectSSH_bare n) simp_all
    then show ?thesis by (simp add: case_prod_beta safe_def)
  qed
  have rest: "safe heap n (case call (millis N) u of (now, t3) \<Rightarrow>
      if now - lastConnectionAttempt t3 < reconnectDelay d (reconnectAttempts t3) then t3
      else let t4 = dropSession N S (clearDeferredCloseQueue N (clearPendingQueue N t3)) in
        case connectSSH N S c (t4\<lparr>reconnectAttempts := reconnectAttempts t4 + 1\<rparr>) of (ok, t5) \<Rightarrow>
          if ok then t5\<lparr>reconnectAttempts := 0\<rparr> else t5)" if "?ok u" for u d
    using retry [OF call [OF that]] safe [OF call [OF that]] by (simp add: case_prod_beta Let_def)
  show ?thesis
    unfolding handleReconnection_def Let_def [of "maxReconnectAttempts _"] using rest b call [OF b]
    by (simp add: case_prod_beta safe_bare)
qed

lemma handleNew_safe:
  assumes n: "net_heap N heap" "ssh_heap S heap" and t: "tidy heap n t" and st: "tunnelState t = TUNNEL_CONNECTED"
  shows "safe heap n (snd (handleNewConnection N S t)) \<and>
     (fst (handleNewConnection N S t) \<longrightarrow> tunnelState (snd (handleNewConnection N S t)) = TUNNEL_CONNECTED)"
proof -
  let ?r = "fromSession (acceptChannel N S) t"
  have r: "sound heap n UNIV ((case fst ?r of None \<Rightarrow> [] | Some (c, _) \<Rightarrow> [c]) @ queued t) (snd ?r)"
    by (rule accept_sound [OF n]) (use t in \<open>simp add: tidy_def\<close>)
  have q: "queued (snd ?r) = queued t" "tunnelState (snd ?r) = TUNNEL_CONNECTED"
    using st by (simp_all add: fromSession_def case_prod_beta)
  show ?thesis
  proof (cases "fst ?r")
    case None
    then have u: "tidy heap n (snd ?r)" using r q by (simp add: tidy_def)
    have "handleNewConnection N S t = (False, if hasFatalAcceptFailure (sshSession (snd ?r)) then enterErrorState N S (snd ?r) else snd ?r)"
      using None by (simp add: handleNewConnection_def case_prod_beta)
    then show ?thesis using enterError_safe [OF n u] safe_same [OF q(2) u] by simp
  next
    case (Some cm)
    then obtain c m where cm: "fst ?r = Some (c, m)" by (cases cm) auto
    let ?t = "snd (call (millis N) (snd ?r))"
    have u: "sound heap n UNIV (c # queued ?t) ?t" using r q cm n by (simp add: sound_call heap_neutral)
    have "handleNewConnection N S t =
        (if isMappingBackedOff (remoteBindPort m) (fst (call (millis N) (snd ?r))) (mgr ?t)
         then (False, snd (rejectChannel N 200 c m ?t)) else placeChannel N c m ?t)"
      using cm by (simp add: handleNewConnection_def case_prod_beta)
    then show ?thesis
      using reject_end [OF n(1) u, of 200 m] reject_tidy(2) [OF n(1) u, of 200 m] placeChannel_tidy [OF n(1) u, of m] q(2)
      by (simp add: safe_same)
  qed
qed

lemma acceptAll_safe:
  assumes n: "net_heap N heap" "ssh_heap S heap"
  shows "safe heap n t \<Longrightarrow> tunnelState t = TUNNEL_CONNECTED \<Longrightarrow> safe heap n (accept_all N S k t)"
proof (induction k arbitrary: t)
  case (Suc k)
  have "safe heap n (snd (handleNewConnection N S t)) \<and>
     (fst (handleNewConnection N S t) \<longrightarrow> tunnelState (snd (handleNewConnection N S t)) = TUNNEL_CONNECTED)"
    by (rule handleNew_safe [OF n safe_tidy [OF Suc.prems(1)] Suc.prems(2)])
  then show ?case using Suc.IH [of "snd (handleNewConnection N S t)"] by (simp add: case_prod_beta)
qed simp

lemma keeps_session:
  assumes "tidy heap n t" "heap (snd (snd (f (sshSession t, net (mgr t))))) = heap (net (mgr t))"
  shows "tidy heap n (snd (fromSession f t))"
proof -
  have "mcalm heap H L (act (\<lambda>_. snd (snd (f (sshSession t, net (mgr t))))) (mgr t)) = mcalm heap H L (mgr t)" for H L
    using assms(2) by (simp add: mcalm_def act_def)
  then have "holds heap E F (act (\<lambda>_. snd (snd (f (sshSession t, net (mgr t))))) (mgr t)) = holds heap E F (mgr t)" for E F
    by (rule holds_same)
  then show ?thesis using assms(1) by (simp add: fromSession_def case_prod_beta tidy_def sound_def)
qed

lemma checkHealth_safe:
  assumes n: "net_heap N heap" "ssh_heap S heap" and t: "safe heap n t" and st: "tunnelState t = TUNNEL_CONNECTED"
  shows "safe heap n (snd (checkHealth N S t)) \<and> (fst (checkHealth N S t) \<longrightarrow> tunnelState (snd (checkHealth N S t)) = TUNNEL_CONNECTED)"
proof -
  let ?t = "snd (call (\<lambda>w. checkConnection N (sshSession t, w)) t)"
  have "tidy heap n ?t" using safe_tidy [OF t] by (simp add: tidy_outside checkConnection_heap [OF n(1)])
  then show ?thesis using st
    by (simp add: checkHealth_def case_prod_beta Let_def safe_same enterError_safe [OF n] safe_tidy [OF t])
qed

lemma keepAlive_safe:
  assumes n: "net_heap N heap" "ssh_heap S heap" and t: "safe heap n t" and st: "tunnelState t = TUNNEL_CONNECTED"
  shows "safe heap n (snd (keepAlive N S c t)) \<and> (fst (keepAlive N S c t) \<longrightarrow> tunnelState (snd (keepAlive N S c t)) = TUNNEL_CONNECTED)"
proof -
  let ?t = "snd (call (millis N) t)"
  let ?r = "snd (fromSession (sendKeepalive N S) ?t)"
  have u: "tidy heap n ?t" using safe_tidy [OF t] n by (simp add: tidy_outside heap_neutral)
  have "tidy heap n ?r" by (rule keeps_session [OF u]) (use sendKeepalive_heap [OF n] in simp)
  moreover have "tunnelState ?r = TUNNEL_CONNECTED" using st by (simp add: fromSession_def case_prod_beta)
  ultimately show ?thesis using st u
    by (simp add: keepAlive_def case_prod_beta Let_def safe_same enterError_safe [OF n])
qed

lemma pump_sound:
  assumes n: "net_heap N heap" and s: "sound heap n F Q t" and b: "n < 2 ^ 32"
  shows "sound heap n F Q (onPump (\<lambda>p. snd (pumpAll R N p)) t)"
  using s pumpAll_kept [OF _ b, of "transport t" R N] pumpAll_holds [OF n _ b, of "transport t" "set Q" F R]
  by (simp add: sound_def onPump_def)

lemma pump_safe:
  assumes "net_heap N heap" "safe heap n t" "n < 2 ^ 32"
  shows "safe heap n (onPump (\<lambda>p. snd (pumpAll R N p)) t)"
proof -
  have "tunnelState (onPump h t) = tunnelState t" "queued (onPump h t) = queued t" for h
    by (simp_all add: onPump_def)
  then show ?thesis using assms(2) pump_sound [OF assms(1) _ assms(3)]
    by (simp add: safe_def tidy_def bare_def split: if_splits)
qed

lemma emitCloses_safe: "safe heap n t \<Longrightarrow> safe heap n (emitCloses t)"
proof -
  have f: "safe heap n (fold (\<lambda>(i, r). emitEvent (ChannelClosed i r)) es u) = safe heap n u" for es u
    by (induction es arbitrary: u) (simp_all add: safe_def case_prod_beta)
  have c: "kept n (snd (consumeCloseEvents k p)) = kept n p" "channels (snd (consumeCloseEvents k p)) = channels p" for k p
    by (simp_all add: consumeCloseEvents_def Let_def)
  show "safe heap n t \<Longrightarrow> ?thesis"
    unfolding emitCloses_def case_prod_beta f by (simp add: safe_def tidy_def bare_def sound_def c split: if_splits)
qed

lemma drainDeferredIfAny_safe:
  assumes "net_heap N heap" "safe heap n t"
  shows "safe heap n (drainDeferredIfAny N t)" "tunnelState (drainDeferredIfAny N t) = tunnelState t"
proof -
  have "tunnelState t = TUNNEL_CONNECTED" if "deferredCloseQueue t \<noteq> []"
    using assms(2) that by (simp add: safe_def bare_def queued_def split: if_splits)
  then show "safe heap n (drainDeferredIfAny N t)" "tunnelState (drainDeferredIfAny N t) = tunnelState t"
    using drainDeferred_tidy [OF assms(1) safe_tidy [OF assms(2)]] assms(2)
    by (simp_all add: drainDeferredIfAny_def safe_same)
qed

lemma drainIfAny_safe:
  assumes "net_heap N heap" "safe heap n t"
  shows "safe heap n (if pendingQueue t \<noteq> [] then drainPendingQueue N (cleanExpiredPending N t) else t)"
proof -
  have c: "tunnelState t = TUNNEL_CONNECTED" if "pendingQueue t \<noteq> []"
    using assms(2) that by (simp add: safe_def bare_def queued_def split: if_splits)
  have e: "tidy heap n (cleanExpiredPending N t)" "tunnelState (cleanExpiredPending N t) = tunnelState t"
    by (rule cleanExpired_tidy [OF assms(1) assms(1) _ safe_tidy [OF assms(2)]], assumption)+
  have "tidy heap n (drainPendingQueue N (cleanExpiredPending N t))"
    "tunnelState (drainPendingQueue N (cleanExpiredPending N t)) = tunnelState (cleanExpiredPending N t)"
    by (rule drainPendingQueue_tidy [OF assms(1) assms(1) _ e(1)], assumption)+
  then show ?thesis using c e(2) assms(2) by (simp add: safe_same)
qed

lemma safe_bytes: "safe heap n (t\<lparr>bytesReceived := x, bytesSent := y\<rparr>) = safe heap n t"
  by (simp add: safe_def bare_def)

lemma afterPump_safe:
  assumes n: "net_heap N heap" "ssh_heap S heap" and t: "safe heap n t"
  shows "safe heap n (afterPump N S t)"
proof -
  let ?e = "onPump (\<lambda>p. p\<lparr>sessionDegraded := False\<rparr>) t"
  have "tidy heap n ?e" using safe_tidy [OF t] by (simp add: tidy_def onPump_def sound_def)
  then have e: "safe heap n (enterErrorState N S ?e)" by (rule enterError_safe [OF n])
  define u where "u = drainDeferredIfAny N (if pendingQueue t \<noteq> [] then drainPendingQueue N (cleanExpiredPending N t) else t)"
  have "safe heap n u" unfolding u_def by (intro drainDeferredIfAny_safe(1) drainIfAny_safe n t)
  then have "safe heap n (snd (call (o_stats_lock S) u))"
    by (simp add: safe_def tidy_outside bare_outside ssh_neutral [OF n(2)])
  then show ?thesis using e unfolding afterPump_def Let_def u_def [symmetric] by (simp add: case_prod_beta safe_bytes)
qed

lemma loopTunnel_safe:
  assumes n: "net_heap N heap" "ssh_heap S heap" and t: "safe heap n t" and b: "n < 2 ^ 32"
  shows "safe heap n (loopTunnel R N S c t)"
proof (cases "tunnelState t")
  case TUNNEL_CONNECTED
  let ?h = "checkHealth N S t"
  let ?k = "keepAlive N S c (snd ?h)"
  let ?d = "drainDeferredIfAny N (snd ?k)"
  have h: "safe heap n (snd ?h)" "fst ?h \<Longrightarrow> tunnelState (snd ?h) = TUNNEL_CONNECTED"
    using checkHealth_safe [OF n t TUNNEL_CONNECTED] by blast+
  have k: "safe heap n (snd ?k)" "fst ?k \<Longrightarrow> tunnelState (snd ?k) = TUNNEL_CONNECTED" if "fst ?h"
    using keepAlive_safe [OF n h(1) h(2) [OF that]] by blast+
  have d: "safe heap n (accept_all N S m ?d)" if "fst ?h" "fst ?k" for m
    using drainDeferredIfAny_safe [OF n(1) k(1) [OF that(1)]] k(2) [OF that] by (intro acceptAll_safe [OF n]) simp_all
  have "loopTunnel R N S c t = (if \<not> fst ?h then snd ?h else if \<not> fst ?k then snd ?k else
      afterPump N S (emitCloses (onPump (\<lambda>p. snd (pumpAll R N p)) (accept_all N S (Suc (maxSlots (mgr ?d))) ?d))))"
    using TUNNEL_CONNECTED by (simp add: loopTunnel_def case_prod_beta Let_def del: accept_all.simps)
  then show ?thesis using h(1) k(1) d
    by (simp add: afterPump_safe [OF n] emitCloses_safe pump_safe [OF n(1) _ b] del: accept_all.simps)
next
  case TUNNEL_CONNECTING
  then show ?thesis using t by (simp add: safe_def)
next
  case TUNNEL_ERROR
  then show ?thesis using handleReconnection_safe [OF n t] by (simp add: loopTunnel_def)
qed (use t in \<open>simp add: loopTunnel_def\<close>)

lemma disconnect_safe:
  assumes "net_heap N heap" "ssh_heap S heap" "safe heap n t"
  shows "safe heap n (disconnectTunnel N S t)"
  by (rule safe_bare [OF disconnect_bare [OF assms(1,2) safe_tidy [OF assms(3)]]])
    (simp add: disconnectTunnel_def Let_def case_prod_beta)

section \<open>No use after free\<close>

text \<open>A tunnel before \<open>init\<close>; a step of the tunnel under any configuration; and the channels it holds.\<close>

definition untouched :: "('w \<Rightarrow> nat set option) \<Rightarrow> ('r, 'w) SSHTunnel \<Rightarrow> bool" where
  "untouched heap t \<longleftrightarrow> tunnelState t = TUNNEL_DISCONNECTED \<and> pendingQueue t = [] \<and> deferredCloseQueue t = [] \<and>
     slots (mgr t) = [] \<and> activeCount (mgr t) = 0 \<and> heap (net (mgr t)) \<noteq> None"

inductive facade_step ::
  "'r Ringbuf \<Rightarrow> ('r, 'w) Net \<Rightarrow> 'w Ssh \<Rightarrow> ('r, 'w) SSHTunnel \<Rightarrow> ('r, 'w) SSHTunnel \<Rightarrow> bool"
  for R :: "'r Ringbuf" and N :: "('r, 'w) Net" and S :: "'w Ssh" where
  facade_connect: "facade_step R N S t (snd (connectSSH N S c t))"
| facade_loop: "facade_step R N S t (loopTunnel R N S c t)"
| facade_disconnect: "facade_step R N S t (disconnectTunnel N S t)"

definition held :: "('r, 'w) SSHTunnel \<Rightarrow> nat list" where
  "held t = List.map_filter sshChannel (slots (mgr t)) @ queued t"

lemma held_owned:
  "owned (set Q) F H L \<Longrightarrow> distinct Q \<Longrightarrow> set (List.map_filter (\<lambda>h. h) H @ Q) \<subseteq> L \<and> distinct (List.map_filter (\<lambda>h. h) H @ Q)"
proof (induction H)
  case Nil
  then show ?case by (simp add: owned_def List.map_filter_def)
next
  case (Cons h H)
  have o: "owned (set Q) F H L"
    unfolding owned_def
  proof (intro conjI allI impI)
    fix i c assume "i < length H" "H ! i = Some c"
    then show "c \<in> L" "c \<notin> set Q" "c \<in> F" using Cons.prems(1) unfolding owned_def by (auto dest: spec [of _ "Suc i"])
  next
    fix i j c assume "i < length H" "j < length H" "H ! i = Some c" "H ! j = Some c"
    then have "Suc i = Suc j" using Cons.prems(1) unfolding owned_def by (metis Suc_less_eq length_Cons nth_Cons_Suc)
    then show "i = j" by simp
  qed (use Cons.prems(1) in \<open>simp add: owned_def\<close>)
  have f: "c \<in> L \<and> c \<notin> set Q \<and> c \<notin> set (List.map_filter (\<lambda>h. h) H)" if "h = Some c" for c
  proof -
    have "c \<in> L \<and> c \<notin> set Q" using Cons.prems(1) that unfolding owned_def by (auto dest: spec [of _ 0])
    moreover have "H ! i \<noteq> Some c" if "i < length H" for i
      using Cons.prems(1) that \<open>h = Some c\<close> unfolding owned_def by (metis Suc_less_eq length_Cons nat.distinct(1) nth_Cons_0 nth_Cons_Suc zero_less_Suc)
    then have "c \<notin> set (List.map_filter (\<lambda>h. h) H)" by (auto simp: List.map_filter_def in_set_conv_nth)
    ultimately show ?thesis by blast
  qed
  show ?case using Cons.IH [OF o Cons.prems(2)] f by (cases h) (auto simp: List.map_filter_simps)
qed

lemma held_sound: "sound heap n F (queued t) t \<Longrightarrow> \<exists>L. heap (net (mgr t)) = Some L \<and> set (held t) \<subseteq> L \<and> distinct (held t)"
proof -
  assume "sound heap n F (queued t) t"
  then obtain H L where m: "mcalm heap H L (mgr t)" and o: "owned (set (queued t)) F H L" and d: "distinct (queued t)"
    by (auto simp: sound_def holds_def)
  have "List.map_filter sshChannel ss = List.map_filter (\<lambda>h. h) (map sshChannel ss)" for ss :: "'b ChannelSlot list"
    by (simp add: List.map_filter_def filter_map comp_def)
  then have "held t = List.map_filter (\<lambda>h. h) H @ queued t" using m by (simp add: held_def mcalm_def)
  then show ?thesis using held_owned [OF o d] m by (auto simp: mcalm_def)
qed

lemma facade_step_safe:
  assumes "facade_step R N S t t'" "net_heap N heap" "ssh_heap S heap" "n < 2 ^ 32" "safe heap n t"
  shows "safe heap n t'"
  using assms by (cases rule: facade_step.cases) (simp_all add: connectSSH_safe loopTunnel_safe disconnect_safe)

lemma init_bare:
  assumes "untouched heap t"
  shows "\<exists>n. (n = 0 \<or> n = nat (maxChannels (connectionConfig c))) \<and> safe heap n (snd (initTunnel N c b1 b2 b3 b4 b5 t))"
proof -
  obtain L where L: "heap (net (mgr t)) = Some L" using assms by (auto simp: untouched_def)
  have bare: "safe heap k t'"
    if "tunnelState t' = TUNNEL_DISCONNECTED" "pendingQueue t' = []" "deferredCloseQueue t' = []"
      "slots (mgr t') = replicate k newSlot" "activeCount (mgr t') = 0" "heap (net (mgr t')) = Some L" for k t'
  proof -
    have "mcalm heap (replicate k None) L (mgr t')" using that by (simp add: mcalm_def newSlot_def)
    moreover have "owned {} {} (replicate k None) L" by (simp add: owned_def)
    ultimately have "holds heap {} {} (mgr t')" by (rule holdsI)
    moreover have "channels_ok (mgr t')" using that by (simp add: channels_ok_def slot_ok_def newSlot_def list_all_iff)
    ultimately show ?thesis using that by (intro safe_bare) (simp_all add: bare_def queued_def sound_def kept_def)
  qed
  show ?thesis
  proof (cases "b1 \<and> fst (initSession b2 b3 (sshSession t)) \<and> b4")
    case True
    then have "safe heap (nat (maxChannels (connectionConfig c))) (snd (initTunnel N c b1 b2 b3 b4 b5 t))"
      using assms L by (intro bare) (auto simp: untouched_def initTunnel_def initChannels_def Let_def case_prod_beta onPump_def fromManager_def onManager_def onMgr_def)
    then show ?thesis by blast
  next
    case False
    then have "safe heap 0 (snd (initTunnel N c b1 b2 b3 b4 b5 t))"
      using assms L by (intro bare) (auto simp: untouched_def initTunnel_def initChannels_def Let_def case_prod_beta onPump_def fromManager_def onManager_def onMgr_def)
    then show ?thesis by blast
  qed
qed

text \<open>
  No use after free: from a tunnel that \<open>init\<close> has set up, successfully or not, however often it connects, runs
  its loop and disconnects, under any configurations, clocks, locks and answers of libssh2 and the network, libssh2
  is never called on a channel that was freed (memory is intact), every channel held by a slot or a queue is still
  allocated, and none is held twice.
\<close>

theorem no_use_after_free:
  assumes "net_heap N heap" and "ssh_heap S heap" and "untouched heap t" and "maxChannels (connectionConfig c) < 2 ^ 32"
    and "(facade_step R N S)\<^sup>*\<^sup>* (snd (initTunnel N c mutex created started table buffers t)) t'"
  shows "\<exists>L. heap (net (mgr t')) = Some L \<and> set (held t') \<subseteq> L \<and> distinct (held t')"
proof -
  obtain n where i: "(n = 0 \<or> n = nat (maxChannels (connectionConfig c))) \<and>
      safe heap n (snd (initTunnel N c mutex created started table buffers t))"
    using init_bare [OF assms(3), of c N mutex created started table buffers] by (rule exE)
  then have n: "n = 0 \<or> n = nat (maxChannels (connectionConfig c))"
    and s: "safe heap n (snd (initTunnel N c mutex created started table buffers t))" by (rule conjunct1, rule conjunct2)
  have b: "n < 2 ^ 32" using n assms(4) by auto
  from assms(5) have "safe heap n t'"
  proof (induction rule: rtranclp_induct)
    case (step u v)
    show ?case by (rule facade_step_safe [OF step.hyps(2) assms(1,2) b step.IH])
  qed (rule s)
  then have "tidy heap n t'" by (rule safe_tidy)
  then show ?thesis unfolding tidy_def by (rule held_sound)
qed

end
