(* ===== verification/Session_Witness.thy ===== *)
theory Session_Witness
  imports Tunnel_Connect Tunnel_Owners Tunnel_Close
begin

text \<open>
  The theorems about the SSH session and the tunnel at a concrete outside: a network on which every call succeeds, a
  server that accepts the password, and a libssh2 that keeps the list of its channels and gives up once a channel
  outside the list is used.
\<close>

section \<open>The outside\<close>

definition onChannel :: "nat \<Rightarrow> nat list option \<Rightarrow> nat list option" where
  "onChannel c w = (case w of None \<Rightarrow> None | Some L \<Rightarrow> if c \<in> set L then Some L else None)"

definition freeChannel :: "nat \<Rightarrow> nat list option \<Rightarrow> nat list option" where
  "freeChannel c w = (case w of None \<Rightarrow> None | Some L \<Rightarrow> if c \<in> set L then Some (removeAll c L) else None)"

definition newChannel :: "nat list option \<Rightarrow> nat option \<times> nat list option" where
  "newChannel w = (case w of None \<Rightarrow> (None, None) | Some L \<Rightarrow>
     (let c = Suc (foldr max L 0) in (Some c, Some (c # L))))"

definition libNet :: "(ring, nat list option) Net" where
  "libNet = \<lparr>
     millis = \<lambda>w. (1000, w), n_socket = \<lambda>w. (3, w), n_inet_pton = \<lambda>h. True, n_getfl = \<lambda>fd w. (0, w), n_setfl = \<lambda>fd fl w. (0, w),
     n_connect = \<lambda>fd a p w. ((0, False), w), n_select = \<lambda>fd w. ((1, True), w), n_sockerr = \<lambda>fd w. ((0, 0), w),
     n_optimize = \<lambda>fd w. w, n_close = \<lambda>fd w. w, n_send = \<lambda>fd xs w. ((int (length xs), False), w),
     n_recv = \<lambda>fd k w. ((0, [], False), w), n_shutdown = \<lambda>fd w. w,
     ch_close = \<lambda>c w. (0, onChannel c w), ch_free = \<lambda>c w. (0, freeChannel c w), ch_set_nonblocking = onChannel,
     ch_read = \<lambda>c k w. ((LIBSSH2_ERROR_EAGAIN, []), onChannel c w), ch_write = \<lambda>c xs w. (int (length xs), onChannel c w),
     ch_eof = \<lambda>c w. (False, onChannel c w), ch_send_eof = \<lambda>c w. (0, onChannel c w),
     s_lock = \<lambda>k w. (True, w), s_unlock = \<lambda>w. w, h_largest_psram = \<lambda>w. 1000000, h_largest_heap = \<lambda>w. 1000000,
     r_create = \<lambda>n w. ((Some (0, n, []), None), w)\<rparr>"

definition libSsh :: "nat list option Ssh" where
  "libSsh = \<lparr>
     o_optimize = \<lambda>fd w. w, o_inet_pton = \<lambda>h. Some 7, o_getaddrinfo = \<lambda>h w. (None, w), o_connect = \<lambda>fd a p w. (0, w),
     o_delay = \<lambda>k w. w, x_init = \<lambda>w. (Some 1, w), x_handshake = \<lambda>x fd w. (0, w), x_disconnect = \<lambda>x w. w,
     x_free = \<lambda>x w. map_option (\<lambda>_. []) w, x_set_nonblocking = \<lambda>x w. w, x_keepalive_config = \<lambda>x k w. w,
     x_keepalive_send = \<lambda>x w. (0, w),
     x_hostkey = \<lambda>x w. (Some \<lparr>host_key_len = 51, host_key_type = 6, fingerprint_raw = Some (replicate 32 1)\<rparr>, w),
     x_userauth_list = \<lambda>x u w. (Some ''password'', w), x_userauth_password = \<lambda>x u p w. (0, w),
     x_userauth_frommemory = \<lambda>x u pub priv ph w. (0, w), x_userauth_fromfile = \<lambda>x u f g p w. (0, w),
     x_forward_listen = \<lambda>x h p k w. (Some (9, p), w), x_forward_cancel = \<lambda>l w. w, x_forward_accept = \<lambda>l. newChannel,
     x_direct_tcpip = \<lambda>x h p h2 p2. newChannel, x_last_errno = \<lambda>x w. 0, o_stats_lock = \<lambda>w. (True, w)\<rparr>"

abbreviation libHeap :: "nat list option \<Rightarrow> nat set option" where
  "libHeap \<equiv> map_option set"

lemma foldr_max_bound: "x \<in> set L \<Longrightarrow> x \<le> foldr max L (0::nat)"
  by (induction L) auto

lemma onChannel_heap: "libHeap w = Some L \<Longrightarrow> c \<in> L \<Longrightarrow> libHeap (onChannel c w) = Some L"
  by (auto simp: onChannel_def)

lemma libNet_heap: "net_heap libNet libHeap"
  unfolding net_heap_def libNet_def
  by (auto simp: onChannel_def freeChannel_def LIBSSH2_ERROR_EAGAIN_def)

lemma newChannel_heap:
  assumes "libHeap w = Some L"
  shows "case fst (newChannel w) of None \<Rightarrow> libHeap (snd (newChannel w)) = Some L
    | Some c \<Rightarrow> c \<notin> L \<and> libHeap (snd (newChannel w)) = Some (insert c L)"
proof -
  obtain xs where "w = Some xs" "L = set xs" using assms by auto
  moreover have "Suc (foldr max xs 0) \<notin> set xs" using foldr_max_bound [of "Suc (foldr max xs 0)" xs] by auto
  ultimately show ?thesis by (simp add: newChannel_def Let_def)
qed

lemma libSsh_heap: "ssh_heap libSsh libHeap"
proof -
  have a: "x_forward_accept libSsh l = newChannel" for l by (simp add: libSsh_def)
  show ?thesis unfolding ssh_heap_def a
    by (intro conjI allI impI) ((rule newChannel_heap, assumption) | (clarsimp simp: libSsh_def))+
qed

section \<open>The theorems\<close>

definition strictServer :: SSHServerConfig where
  "strictServer = defaultServer\<lparr>verifyHostKeyOn := True, expectedHostKeyFingerprint := encodeFingerprintHex (replicate 32 0)\<rparr>"

theorem fingerprint_pins_key_witness:
  "accepts strictServer ([CHR 0x20] @ encodeFingerprintHex (replicate 32 0) @ [CHR 0x0A]) 6 (replicate 32 0) \<and>
   \<not> accepts strictServer ([CHR 0x20] @ encodeFingerprintHex (replicate 32 0) @ [CHR 0x0A]) 6 (replicate 32 1)"
proof -
  have s: "encodeFingerprintHex e \<in> set (notations e)" for e by (simp add: notations_def)
  have h: "hostKeyType strictServer = []" "verifyHostKeyOn strictServer" by (simp_all add: strictServer_def defaultServer_def)
  have ne: "replicate 32 (1::8 word) \<noteq> replicate 32 0" by simp
  note p = fingerprint_pins_key [OF h(2), of "replicate 32 0" _ "encodeFingerprintHex (replicate 32 0)" "[CHR 0x20]" "[CHR 0x0A]" 6]
  show ?thesis using p [of "replicate 32 0"] p [of "replicate 32 1"] h(1) ne
    by (simp add: s isSpaceChar_def)
qed

definition demoConfiguration :: SSHConfiguration where
  "demoConfiguration = newConfiguration True"

text \<open>From a session without a connection it connects, and the list of channels is unchanged.\<close>

lemma demo_connection:
  assumes "session s = None" "listeners s = []"
  shows "\<exists>s'. connectSession libNet libSsh demoConfiguration (s, w) = (True, s', w) \<and> isConnectedSession s'"
proof -
  have t: "tcpConnect libNet libSsh d (s, w) = (True, s\<lparr>socketfd := 3\<rparr>, w)" for d s w
    by (simp add: tcpConnect_def libNet_def libSsh_def)
  have h: "handshake libNet libSsh (s, w) = (True, s\<lparr>session := Some 1\<rparr>, w)" for s w
    by (simp add: handshake_def libNet_def libSsh_def)
  have k: "configureKeepalive libNet libSsh conn x w = w" for conn x w
    by (simp add: configureKeepalive_def libNet_def libSsh_def)
  have v: "checkHostKey libNet libSsh defaultServer x w = (True, w)" for x w
    by (simp add: checkHostKey_def verifyHostKey_def defaultServer_def)
  have a: "authenticate libNet libSsh demoConfiguration x w = (True, w)" for x w
    by (simp add: authenticate_def libNet_def libSsh_def demoConfiguration_def newConfiguration_def defaultServer_def)
  have e: "listen_loop libNet libSsh x m k (Suc n) w = (Some (9, remoteBindPort m), w)" for x m k n w
    by (simp add: libNet_def libSsh_def)
  have l: "listen_loop libNet libSsh x m k 50 w = (Some (9, remoteBindPort m), w)" for x m k w
    using e [of x m k 49 w] by simp
  have d: "sshConfig demoConfiguration = defaultServer" "tunnelMappings demoConfiguration = [defaultMapping]"
    "maxReverseListeners (connectionConfig demoConfiguration) = 1"
    by (simp_all add: demoConfiguration_def newConfiguration_def defaultConnection_def)
  have m: "millis libNet w = (1000, w)" "x_set_nonblocking libSsh x w = w" for x w by (simp_all add: libNet_def libSsh_def)
  have c: "createListeners libNet libSsh demoConfiguration x (s, w) =
      (True, (if lastAcceptMs s = 0 then s\<lparr>lastAcceptMs := 1000\<rparr> else s)\<lparr>listeners := [\<lparr>listener = Some 9, mapping = defaultMapping, entryBoundPort = remoteBindPort defaultMapping\<rparr>],
         boundPort := remoteBindPort defaultMapping\<rparr>, w)" if "listeners s = []" for x s w
    using that by (simp add: createListeners_def cancelAllListeners_def createListenerForMapping_def l d m case_prod_beta Let_def)
  show ?thesis
    using assms
    by (simp add: connectSession_def resetAcceptState_def t h k v a d c m case_prod_beta Let_def isConnectedSession_def)
qed

lemma demo_connects: "fst (connectSession libNet libSsh demoConfiguration (newSession, Some []))"
  using demo_connection [of newSession "Some []"] by (auto simp: newSession_def)

theorem connect_all_or_nothing_witness:
  "map mapping (listeners (fst (snd (connectSession libNet libSsh demoConfiguration (newSession, Some []))))) = [defaultMapping]"
proof -
  let ?r = "connectSession libNet libSsh demoConfiguration (newSession, Some [])"
  have n: "sockets_numbered libNet" by (simp add: sockets_numbered_def libNet_def)
  have o: "session_ok newSession" by (simp add: session_ok_def newSession_def)
  have r: "?r = (True, fst (snd ?r), snd (snd ?r))" using demo_connects by (metis prod.collapse)
  show ?thesis using connect_all_or_nothing [OF n o r]
    by (simp add: demoConfiguration_def newConfiguration_def defaultConnection_def)
qed

theorem impostor_gets_no_credentials_witness:
  "\<not> fst (connectSession libNet libSsh (demoConfiguration\<lparr>sshConfig := strictServer\<rparr>) (newSession, Some []))"
proof -
  have s: "encodeFingerprintHex (replicate 32 0) \<in> set (notations (replicate 32 0))" by (simp add: notations_def)
  have i: "impostor (replicate 32 0) libSsh" by (simp add: impostor_def libSsh_def)
  show ?thesis
    using impostor_gets_no_credentials [OF _ _ s _ _ _ i, where c = "demoConfiguration\<lparr>sshConfig := strictServer\<rparr>" and u = "[]" and v = "[]" and
        N = libNet and s = newSession and w = "Some []"]
    by (simp add: strictServer_def)
qed

definition emptyTunnel :: "(ring, nat list option) SSHTunnel" where
  "emptyTunnel = \<lparr>sshSession = newSession,
     transport = \<lparr>channels = \<lparr>slots = [], activeCount = 0, ringBufferSize = 0, breaker = newBreaker, net = Some []\<rparr>,
       bufSize = 0, roundRobinOffset = 0, lastBytesMoved = 0, pendingCloseEvents = [], sessionDegraded = False\<rparr>,
     tunnelState = TUNNEL_DISCONNECTED, lastKeepAlive = 0, lastConnectionAttempt = 0, reconnectAttempts = 0,
     socketHealthFailures = 0, bytesReceived = 0, bytesSent = 0, pendingQueue = [], deferredCloseQueue = [], events = []\<rparr>"

text \<open>The tunnel connects, runs its loop, which accepts channels, and disconnects.\<close>

theorem no_use_after_free_witness:
  "net (mgr (disconnectTunnel libNet libSsh (loopTunnel arrayRing libNet libSsh demoConfiguration
     (snd (connectSSH libNet libSsh demoConfiguration
       (snd (initTunnel libNet demoConfiguration True True True True True emptyTunnel))))))) \<noteq> None"
proof -
  let ?t0 = "snd (initTunnel libNet demoConfiguration True True True True True emptyTunnel)"
  let ?t1 = "snd (connectSSH libNet libSsh demoConfiguration ?t0)"
  let ?t2 = "loopTunnel arrayRing libNet libSsh demoConfiguration ?t1"
  have "facade_step arrayRing libNet libSsh ?t0 ?t1" "facade_step arrayRing libNet libSsh ?t1 ?t2"
    "facade_step arrayRing libNet libSsh ?t2 (disconnectTunnel libNet libSsh ?t2)"
    by (rule facade_connect facade_loop facade_disconnect)+
  then have "(facade_step arrayRing libNet libSsh)\<^sup>*\<^sup>* ?t0 (disconnectTunnel libNet libSsh ?t2)" by simp
  moreover have "untouched libHeap emptyTunnel" by (simp add: untouched_def emptyTunnel_def)
  moreover have "maxChannels (connectionConfig demoConfiguration) < 2 ^ 32"
    by (simp add: demoConfiguration_def newConfiguration_def defaultConnection_def)
  ultimately have "\<exists>L. libHeap (net (mgr (disconnectTunnel libNet libSsh ?t2))) = Some L \<and>
      set (held (disconnectTunnel libNet libSsh ?t2)) \<subseteq> L \<and> distinct (held (disconnectTunnel libNet libSsh ?t2))"
    by (intro no_use_after_free [OF libNet_heap libSsh_heap])
  then show ?thesis by auto
qed

end
