(* ===== verification/Vpn_Safety.thy ===== *)
theory Vpn_Safety
  imports Vpn_Manager Tunnel_Owners Tunnel_Connect
begin

text \<open>
  Giving the manager of the tunnel a configuration: what the library is set to, which configurations it takes, and
  that it takes every configuration the box can hold.
\<close>

section \<open>Applying a configuration\<close>

lemma setters_mutex [simp]:
  "configMutex (applyServer v c) = configMutex c" "configMutex (applyHostKey v c) = configMutex c"
  "configMutex (applyConnection v c) = configMutex c" "configMutex (snd (applyConfig v c)) = configMutex c"
  by (simp_all add: applyServer_def applyHostKey_def applyConnection_def applyConfig_def Let_def setSSHServer_def
      setSSHKeyAuthFromMemory_def setHostKeyPinned_def setHostKeyVerification_def clearTunnelMappings_def
      setMaxReverseListeners_def setTunnelConfig_def setConnectionConfig_def setBufferConfig_def setDebugConfig_def underLock_def)

lemmas setter_defs = setSSHServer_def setSSHKeyAuthFromMemory_def setHostKeyPinned_def setHostKeyVerification_def
  clearTunnelMappings_def setMaxReverseListeners_def setTunnelConfig_def setConnectionConfig_def setBufferConfig_def
  setDebugConfig_def underLock_def

lemma applyConnection_server [simp]: "sshConfig (applyConnection v c) = sshConfig c"
  by (simp add: applyConnection_def Let_def setter_defs)

lemma applied_server:
  assumes "configMutex c"
  shows "verifyHostKeyOn (sshConfig (snd (applyConfig v c))) = vc_verifyHostKey v"
    "vc_verifyHostKey v \<Longrightarrow> expectedHostKeyFingerprint (sshConfig (snd (applyConfig v c))) = textOrEmpty (vc_hostKeyFingerprint v)"
    "vc_verifyHostKey v \<Longrightarrow> hostKeyType (sshConfig (snd (applyConfig v c))) = textOrEmpty (vc_hostKeyType v)"
    "sc_host (sshConfig (snd (applyConfig v c))) = textOrEmpty (vc_sshHost v)"
    "username (sshConfig (snd (applyConfig v c))) = textOrEmpty (vc_username v)"
  using assms by (simp_all add: applyConfig_def Let_def applyServer_def applyHostKey_def setter_defs)

lemma applied_mappings:
  "configMutex c \<Longrightarrow> tunnelMappings (snd (applyConfig v c)) =
     [\<lparr>remoteBindHost = textOrEmpty (vt_remoteBindHost (vc_tunnel v)), remoteBindPort = uint (vt_remoteBindPort (vc_tunnel v)),
       tc_localHost = textOrEmpty (vt_localHost (vc_tunnel v)), tc_localPort = uint (vt_localPort (vc_tunnel v))\<rparr>]"
  by (simp add: applyConfig_def Let_def applyConnection_def setter_defs)

lemma applied_channels:
  "maxChannels (connectionConfig (snd (applyConfig v c))) = (if configMutex c then uint (vc_maxChannels v) else maxChannels (connectionConfig c))"
  by (simp add: applyConfig_def Let_def applyConnection_def applyServer_def applyHostKey_def setter_defs)

lemma isTextSet_iff: "isTextSet v \<longleftrightarrow> textOrEmpty v \<noteq> []"
  by (simp add: isTextSet_def textOrEmpty_def split: option.split)

lemma cstr_textOrEmpty [simp]: "cstr (textOrEmpty v) = textOrEmpty v"
  by (simp add: textOrEmpty_def split: option.split)

lemma word_positive: "(w :: 'a :: len word) \<noteq> 0 \<Longrightarrow> 0 < uint w"
  using uint_0_iff [of w] uint_ge_0 [of w] by linarith

lemma valid_port: "p \<noteq> 0 \<Longrightarrow> isValidPort (uint (p :: u16))"
  using uint_lt2p [of p] word_positive [of p] unfolding isValidPort_def by (simp add: int_one_le_iff_zero_less)

lemma sint_positive_iff: "0 < sint (w :: u32) \<longleftrightarrow> w \<noteq> 0 \<and> w < 2 ^ 31"
proof -
  have u: "0 \<le> uint w" "uint w < 2 ^ 32" using uint_ge_0 [of w] uint_lt2p [of w] by simp_all
  have s: "sint w = (uint w + 2 ^ 31) mod 2 ^ 32 - 2 ^ 31"
    by (simp add: sint_uint signed_take_bit_eq_take_bit_shift take_bit_eq_mod)
  have l: "w < 2 ^ 31 \<longleftrightarrow> uint w < 2 ^ 31" by (simp add: word_less_def)
  have z: "w \<noteq> 0 \<longleftrightarrow> 0 < uint w" using uint_0_iff [of w] u(1) by linarith
  show ?thesis
  proof (cases "uint w < 2 ^ 31")
    case True
    then have "(uint w + 2 ^ 31) mod 2 ^ 32 = uint w + 2 ^ 31" using u by (intro mod_pos_pos_trivial) simp_all
    then show ?thesis unfolding l z s using True by simp
  next
    case False
    have "(uint w + 2 ^ 31) mod 2 ^ 32 = (uint w + 2 ^ 31 - 2 ^ 32) mod 2 ^ 32" by (rule minus_mod_self2 [symmetric])
    also have "\<dots> = uint w + 2 ^ 31 - 2 ^ 32" using u False by (intro mod_pos_pos_trivial) simp_all
    finally show ?thesis unfolding l z s using u False by simp
  qed
qed

text \<open>
  A configuration that \<open>begin\<close> accepts passes the validation of the library exactly when its delay fits an \<open>int\<close>.
\<close>

lemma applied_valid:
  assumes m: "configMutex c" and v: "isConfigValid v"
  shows "fst (applyConfig v c) \<longleftrightarrow> vc_reconnectDelayMs v < 2 ^ 31"
proof -
  let ?c = "snd (applyConfig v c)"
  have server: "validateSSHConfig ?c"
    using m v
    by (auto simp: validateSSHConfig_def applyConfig_def Let_def applyServer_def applyHostKey_def setter_defs isConfigValid_def
        isTextSet_iff isPortSet_def isValidHostname_def valid_port split: if_splits)
  have mappings: "validateTunnelConfig ?c"
    using v by (simp add: validateTunnelConfig_def applied_mappings [OF m] validMapping_def isValidHostname_def isConfigValid_def
        isTextSet_iff isPortSet_def valid_port split: if_splits)
  have "validateConnectionConfig ?c \<longleftrightarrow> vc_reconnectDelayMs v < 2 ^ 31"
    using m v
    by (auto simp: validateConnectionConfig_def applyConfig_def Let_def applyConnection_def setter_defs isConfigValid_def
        word_positive sint_positive_iff uint_0_iff split: if_splits)
  then show ?thesis using server mappings by (simp add: applyConfig_def Let_def validateConfiguration_def)
qed

section \<open>Starting from the box\<close>

lemma textOk_set: "textOk n False s \<Longrightarrow> textOrEmpty (Some s) = s \<and> s \<noteq> []"
  by (simp add: textOk_def textOrEmpty_def cstr_id)

lemma box_config_valid:
  assumes "configOk pins box" and "cstr localIp \<noteq> []"
  shows "isConfigValid (boxVpnConfig box localIp)"
  using assms
  by (auto simp: isConfigValid_def boxVpnConfig_def newVPNConfig_def isTextSet_iff isPortSet_def configOk_def fieldsOk_def textOk_set
      VPN_CLIENT_KEEPALIVE_INTERVAL_SEC_def VPN_STALE_REMOTE_LISTENER_COOLDOWN_MS_def textOrEmpty_def [of "Some localIp"]
      textOrEmpty_def [of "Some ''127.0.0.1''"] cstr_def)

text \<open>
  C16.  A box with a stored configuration starts its tunnel, to the configured gateway and no other.  With WiFi up and
  the worker task started, \<open>startVpn\<close> succeeds for every configuration that decoding accepts; the worker then finds the
  tunnel's configuration valid, and it names the configured host, port and user, has the check of the host key on with
  the configured fingerprint and type, and forwards the configured port to the box's own web server.
\<close>

theorem valid_box_config_starts_vpn:
  assumes "configOk pins box" and "cstr localIp = localIp" and "localIp \<noteq> []" and "configMutex (globalSSHConfig m)"
  shows "fst (startVpn True True True box localIp m) \<and>
    (case workerCommand N S (snd (startVpn True True True box localIp m)) of m' \<Rightarrow>
       configured m' \<and> vpnState m' = VpnDisconnected \<and> validateConfiguration (globalSSHConfig m') \<and>
       (case sshConfig (globalSSHConfig m') of s \<Rightarrow>
          sc_host s = vpnHost box \<and> sc_port s = uint (vpnPort box) \<and> username s = vpnUser box \<and> verifyHostKeyOn s \<and>
          expectedHostKeyFingerprint s = vpnFingerprint box \<and> hostKeyType s = vpnKeyType box) \<and>
       tunnelMappings (globalSSHConfig m') =
         [\<lparr>remoteBindHost = ''127.0.0.1'', remoteBindPort = uint (vpnRemotePort box), tc_localHost = localIp, tc_localPort = 80\<rparr>])"
proof -
  let ?v = "boxVpnConfig box localIp"
  let ?m = "snd (startVpn True True True box localIp m)"
  have v: "isConfigValid ?v" by (rule box_config_valid [OF assms(1)]) (simp add: assms)
  have s: "fst (startVpn True True True box localIp m)" "commandQueue ?m = Some (Some (Configure ?v))"
    "globalSSHConfig ?m = globalSSHConfig m"
    using v by (simp_all add: startVpn_def beginVpn_def startWorker_def)
  let ?g = "globalSSHConfig m"
  have a: "fst (applyConfig ?v ?g)"
    unfolding applied_valid [OF assms(4) v] by (simp add: boxVpnConfig_def newVPNConfig_def)
  have w: "configured (workerCommand N S ?m)" "vpnState (workerCommand N S ?m) = VpnDisconnected"
    "globalSSHConfig (workerCommand N S ?m) = snd (applyConfig ?v ?g)"
    using a by (simp_all add: workerCommand_def s handleCommand_def disconnectInternal_def onTunnel_def Let_def case_prod_beta)
  have c: "validateConfiguration (snd (applyConfig ?v ?g))" using a by (simp add: applyConfig_def Let_def)
  have p: "sc_port (sshConfig (snd (applyConfig ?v ?g))) = uint (vpnPort box)"
    using assms(4) by (simp add: applyConfig_def Let_def applyServer_def applyHostKey_def setter_defs boxVpnConfig_def newVPNConfig_def)
  have t: "textOrEmpty (Some (vpnHost box)) = vpnHost box" "textOrEmpty (Some (vpnUser box)) = vpnUser box"
    "textOrEmpty (Some (vpnFingerprint box)) = vpnFingerprint box" "textOrEmpty (Some (vpnKeyType box)) = vpnKeyType box"
    using assms(1) textOk_set by (auto simp: configOk_def fieldsOk_def)
  have l: "textOrEmpty (Some localIp) = localIp" "textOrEmpty (Some ''127.0.0.1'') = ''127.0.0.1''"
    using assms(2) by (simp_all add: textOrEmpty_def cstr_def)
  have f: "vc_verifyHostKey ?v" "vc_sshHost ?v = Some (vpnHost box)" "vc_username ?v = Some (vpnUser box)"
    "vc_hostKeyFingerprint ?v = Some (vpnFingerprint box)" "vc_hostKeyType ?v = Some (vpnKeyType box)"
    "vc_tunnel ?v = \<lparr>vt_remoteBindHost = Some ''127.0.0.1'', vt_remoteBindPort = vpnRemotePort box, vt_localHost = Some localIp, vt_localPort = 80\<rparr>"
    by (simp_all add: boxVpnConfig_def newVPNConfig_def)
  show ?thesis
    using s(1) w c p applied_server [OF assms(4), of ?v] applied_mappings [OF assms(4), of ?v]
    by (simp add: f t l)
qed

end
