(* ===== verification/Vpn_Runs.thy ===== *)
theory Vpn_Runs
  imports Vpn_Safety
begin

text \<open>
  Runs of the manager of the tunnel, with the main loop posting commands between the steps of the worker: a gateway
  with another key never becomes connected, and no run uses a freed channel.
\<close>

section \<open>The parts of a step\<close>

text \<open>The manager as its constructor leaves it, and the fields that the operations of the main loop do not touch.\<close>

definition freshVpn :: "('r, 'w) VPNManager \<Rightarrow> bool" where
  "freshVpn m \<longleftrightarrow> \<not> configured m \<and> \<not> initialized m \<and> vpnState m = VpnUnconfigured \<and> commandQueue m = None \<and>
     \<not> workerTask m \<and> tunnelState (sshTunnelClient m) = TUNNEL_DISCONNECTED"

lemma begin_fields [simp]:
  "sshTunnelClient (snd (beginVpn q k v m)) = sshTunnelClient m" "globalSSHConfig (snd (beginVpn q k v m)) = globalSSHConfig m"
  "configured (snd (beginVpn q k v m)) = configured m" "initialized (snd (beginVpn q k v m)) = initialized m"
  by (simp_all add: beginVpn_def startWorker_def)

lemma begin_queue:
  "commandQueue (snd (beginVpn q k v m)) \<in> {commandQueue m, None, Some (Some (Configure v))}"
  "vpnState (snd (beginVpn q k v m)) \<in> {VpnConfigInvalid, VpnError, VpnDisconnected}"
  by (simp_all add: beginVpn_def startWorker_def)

lemma disconnect_fields [simp]:
  "sshTunnelClient (snd (disconnectVpn m)) = sshTunnelClient m" "globalSSHConfig (snd (disconnectVpn m)) = globalSSHConfig m"
  "configured (snd (disconnectVpn m)) = configured m" "initialized (snd (disconnectVpn m)) = initialized m"
  by (simp_all add: disconnectVpn_def split: option.splits)

lemma disconnect_queue:
  "commandQueue (snd (disconnectVpn m)) \<in> {None, Some (Some Disconnect)}"
  "vpnState (snd (disconnectVpn m)) \<in> {VpnUnconfigured, VpnDisconnected}"
  by (simp_all add: disconnectVpn_def split: option.splits)

lemma disconnected_state [simp]: "tunnelState (disconnectTunnel N S t) = TUNNEL_DISCONNECTED"
  by (simp add: disconnectTunnel_def Let_def case_prod_beta)

lemma onTunnel_fields [simp]:
  "sshTunnelClient (onTunnel f m) = f (sshTunnelClient m)" "globalSSHConfig (onTunnel f m) = globalSSHConfig m"
  "configured (onTunnel f m) = configured m" "initialized (onTunnel f m) = initialized m"
  "vpnState (onTunnel f m) = vpnState m" "commandQueue (onTunnel f m) = commandQueue m"
  by (simp_all add: onTunnel_def)

lemma fromTunnel_fields [simp]:
  "fst (fromTunnel f m) = fst (f (sshTunnelClient m))"
  "sshTunnelClient (snd (fromTunnel f m)) = snd (f (sshTunnelClient m))"
  "globalSSHConfig (snd (fromTunnel f m)) = globalSSHConfig m" "configured (snd (fromTunnel f m)) = configured m"
  "initialized (snd (fromTunnel f m)) = initialized m" "vpnState (snd (fromTunnel f m)) = vpnState m"
  "commandQueue (snd (fromTunnel f m)) = commandQueue m"
  by (simp_all add: fromTunnel_def case_prod_beta)

lemma schedule_fields [simp]:
  "sshTunnelClient (scheduleReconnect N st d m) = snd (call (millis N) (sshTunnelClient m))"
  "globalSSHConfig (scheduleReconnect N st d m) = globalSSHConfig m" "configured (scheduleReconnect N st d m) = configured m"
  "initialized (scheduleReconnect N st d m) = initialized m" "vpnState (scheduleReconnect N st d m) = st"
  "commandQueue (scheduleReconnect N st d m) = commandQueue m"
  by (simp_all add: scheduleReconnect_def case_prod_beta)

lemma afterFailure_fields [simp]:
  "sshTunnelClient (scheduleAfterFailure N m) = snd (call (millis N) (sshTunnelClient m))"
  "globalSSHConfig (scheduleAfterFailure N m) = globalSSHConfig m" "configured (scheduleAfterFailure N m) = configured m"
  "initialized (scheduleAfterFailure N m) = initialized m" "vpnState (scheduleAfterFailure N m) \<in> {VpnStaleRemoteListener, VpnError}"
  "commandQueue (scheduleAfterFailure N m) = commandQueue m"
  by (simp_all add: scheduleAfterFailure_def)

lemma afterFailure_apart [simp]: "vpnState (scheduleAfterFailure N m) \<noteq> VpnConnected"
  by (simp add: scheduleAfterFailure_def)

lemma nowConnected_fields [simp]:
  "sshTunnelClient (nowConnected m) = sshTunnelClient m" "globalSSHConfig (nowConnected m) = globalSSHConfig m"
  "configured (nowConnected m) = configured m" "initialized (nowConnected m) = initialized m"
  "commandQueue (nowConnected m) = commandQueue m"
  by (simp_all add: nowConnected_def)

lemma initTunnel_state:
  "tunnelState (snd (initTunnel N c b1 b2 b3 b4 b5 t)) \<in> {tunnelState t, TUNNEL_DISCONNECTED}"
  by (simp add: initTunnel_def Let_def case_prod_beta fromManager_def onManager_def onPump_def)

section \<open>A gateway with another key\<close>

text \<open>A configuration that pins the digest \<open>e\<close>: it has the check on and writes \<open>e\<close> in one of the accepted notations.\<close>

definition spelled :: "bytes \<Rightarrow> string \<Rightarrow> bool" where
  "spelled e text \<longleftrightarrow> (\<exists>u s v. s \<in> set (notations e) \<and> list_all isSpaceChar u \<and> list_all isSpaceChar v \<and> text = u @ s @ v)"

definition pins :: "bytes \<Rightarrow> VPNConfig \<Rightarrow> bool" where
  "pins e v \<longleftrightarrow> vc_verifyHostKey v \<and> spelled e (textOrEmpty (vc_hostKeyFingerprint v))"

definition pinned :: "bytes \<Rightarrow> SSHConfiguration \<Rightarrow> bool" where
  "pinned e c \<longleftrightarrow> verifyHostKeyOn (sshConfig c) \<and> spelled e (expectedHostKeyFingerprint (sshConfig c))"

lemma applied_pinned: "configMutex c \<Longrightarrow> pins e v \<Longrightarrow> pinned e (snd (applyConfig v c))"
  using applied_server(1,2) [of c v] by (simp add: pins_def pinned_def)

lemma pinned_fails:
  assumes "pinned e c" "length e = 32" "impostor e S"
  shows "\<not> fst (connectSession N S c sw)"
    and "connectSession N (withAuth ul pw fm ff S) c sw = connectSession N S c sw"
proof -
  obtain u s v where "verifyHostKeyOn (sshConfig c)" "s \<in> set (notations e)" "list_all isSpaceChar u" "list_all isSpaceChar v"
    "expectedHostKeyFingerprint (sshConfig c) = u @ s @ v"
    using assms(1) unfolding pinned_def spelled_def by blast
  note f = impostor_fails [OF this(1) assms(2) this(2-5) assms(3)]
  show "\<not> fst (connectSession N S c sw)" using f(1) [of N "fst sw" "snd sw"] by simp
  show "connectSession N (withAuth ul pw fm ff S) c sw = connectSession N S c sw"
    using f(2) [of N ul pw fm ff "fst sw" "snd sw"] by simp
qed

text \<open>The invariant: not connected, and configured, now or by a waiting command, for the digest \<open>e\<close> only.\<close>

definition kept_out :: "bytes \<Rightarrow> ('r, 'w) VPNManager \<Rightarrow> bool" where
  "kept_out e m \<longleftrightarrow> configMutex (globalSSHConfig m) \<and> (configured m \<longrightarrow> pinned e (globalSSHConfig m)) \<and>
     (\<forall>v. commandQueue m = Some (Some (Configure v)) \<longrightarrow> pins e v) \<and>
     tunnelState (sshTunnelClient m) \<noteq> TUNNEL_CONNECTED \<and> vpnState m \<noteq> VpnConnected"

lemma connectSSH_fails:
  assumes "pinned e c" "length e = 32" "impostor e S" "tunnelState t \<noteq> TUNNEL_CONNECTED"
  shows "fst (connectSSH N S c t) = False" "tunnelState (snd (connectSSH N S c t)) = TUNNEL_ERROR"
    "connectSSH N (withAuth ul pw fm ff S) c t = connectSSH N S c t"
  using pinned_fails [OF assms(1-3), of N] assms(4)
  by (simp_all add: connectSSH_def case_prod_beta fromSession_def emitEvent_def)

lemma withAuth_disconnectTunnel [simp]: "disconnectTunnel N (withAuth ul pw fm ff S) = disconnectTunnel N S"
proof -
  have "disconnectSession N (withAuth ul pw fm ff S) = disconnectSession N S"
    unfolding disconnectSession_def withAuth_steps cancelAllListeners_def cancelListener_def withAuth_fields by (rule refl)
  then have "dropSession N (withAuth ul pw fm ff S) = dropSession N S" by (intro ext) (simp add: dropSession_def)
  then show ?thesis by (intro ext) (simp add: disconnectTunnel_def Let_def)
qed

lemma connectInternal_kept_out:
  assumes k: "kept_out e m" "configured m" and i: "length e = 32" "impostor e S"
  shows "kept_out e (snd (connectInternal N S rs m))"
    and "connectInternal N (withAuth ul pw fm ff S) rs m = connectInternal N S rs m"
proof -
  let ?m1 = "snd (fromTunnel (call (millis N)) m)"
  define r where "r = (if initialized ?m1 then (True, ?m1)
    else (fst (initClient N rs ?m1), (snd (initClient N rs ?m1))\<lparr>initialized := fst (initClient N rs ?m1)\<rparr>))"
  have k1: "kept_out e ?m1" "configured ?m1" using k by (simp_all add: kept_out_def)
  then have apart: "\<not> isConnectedTunnel (sshTunnelClient ?m1)" by (simp add: kept_out_def isConnectedTunnel_def)
  have kr: "kept_out e (snd r)" "configured (snd r)"
    using k1 initTunnel_state [of N "globalSSHConfig ?m1" "rs_stats rs" "rs_session rs" "rs_library rs" "rs_slots rs" "rs_buffers rs"
        "sshTunnelClient ?m1"]
    by (auto simp: r_def kept_out_def initClient_def case_prod_beta)
  then have p: "pinned e (globalSSHConfig (snd r))" "tunnelState (sshTunnelClient (snd r)) \<noteq> TUNNEL_CONNECTED"
    by (simp_all add: kept_out_def)
  note f = connectSSH_fails [OF p(1) i p(2)]
  have eq: "connectInternal N S' rs m =
      (if \<not> canAttemptConnect (fst (fromTunnel (call (millis N)) m)) ?m1 then (False, ?m1)
       else if \<not> fst r then (False, scheduleReconnect N VpnError (vc_reconnectDelayMs (vpnConfig (snd r))) (snd r))
       else case fromTunnel (connectSSH N S' (globalSSHConfig (snd r))) ((snd r)\<lparr>vpnState := VpnConnecting\<rparr>) of (ok, m3) \<Rightarrow>
         if ok then (True, nowConnected m3) else (False, scheduleAfterFailure N m3))" for S'
    using apart unfolding connectInternal_def case_prod_beta r_def [symmetric] by (simp only: if_False)
  have failed: "kept_out e (scheduleAfterFailure N (snd (fromTunnel (connectSSH N S (globalSSHConfig (snd r)))
      ((snd r)\<lparr>vpnState := VpnConnecting\<rparr>))))"
    using kr f(2) by (simp add: kept_out_def)
  show "kept_out e (snd (connectInternal N S rs m))"
    using k1 kr failed f(1) by (auto simp: eq case_prod_beta kept_out_def)
  show "connectInternal N (withAuth ul pw fm ff S) rs m = connectInternal N S rs m"
    by (simp add: eq fromTunnel_def f(3))
qed

lemma updateInternal_kept_out:
  assumes k: "kept_out e m" "configured m" and i: "length e = 32" "impostor e S"
  shows "kept_out e (updateInternal R N S rs m)"
    and "updateInternal R N (withAuth ul pw fm ff S) rs m = updateInternal R N S rs m"
proof -
  let ?m1 = "snd (fromTunnel (call (millis N)) m)"
  have k1: "kept_out e ?m1" "configured ?m1" using k by (simp_all add: kept_out_def)
  note c = connectInternal_kept_out [OF k1 i, of N]
  have eq: "updateInternal R N S' rs m =
      (if (\<not> initialized m \<or> vpnState m \<in> {VpnDisconnected, VpnError, VpnStaleRemoteListener}) \<and>
          canAttemptConnect (fst (fromTunnel (call (millis N)) m)) ?m1 then snd (connectInternal N S' rs ?m1) else ?m1)" for S'
    using k(1,2) by (simp add: updateInternal_def case_prod_beta kept_out_def isConnectedTunnel_def)
  show "kept_out e (updateInternal R N S rs m)" unfolding eq using c(1) k1(1) by simp
  show "updateInternal R N (withAuth ul pw fm ff S) rs m = updateInternal R N S rs m" unfolding eq c(2) by (rule refl)
qed

lemma away_step:
  assumes "vpn_step R N S V m m'" "kept_out e m" "\<And>v. v \<in> V \<Longrightarrow> pins e v" "length e = 32" "impostor e S"
  shows "kept_out e m' \<and> vpn_step R N (withAuth ul pw fm ff S) V m m'"
  using assms(1)
proof (cases rule: vpn_step.cases)
  case (vpn_begin v q k)
  then show ?thesis
    using assms(2,3) begin_queue [of q k v m] vpn_step.vpn_begin [of v V R N "withAuth ul pw fm ff S" m q k] by (auto simp: kept_out_def)
next
  case vpn_disconnect
  then show ?thesis
    using assms(2) disconnect_queue [of m] vpn_step.vpn_disconnect [of R N "withAuth ul pw fm ff S" V m] by (auto simp: kept_out_def)
next
  case vpn_command
  have "kept_out e (workerCommand N S m)"
    using assms(2)
    by (auto simp: kept_out_def workerCommand_def handleCommand_def disconnectInternal_def Let_def case_prod_beta applied_pinned
        split: option.splits Command.splits)
  moreover have "workerCommand N (withAuth ul pw fm ff S) m = workerCommand N S m"
    unfolding workerCommand_def handleCommand_def disconnectInternal_def withAuth_disconnectTunnel by (rule refl)
  ultimately show ?thesis using vpn_command vpn_step.vpn_command [of m R N "withAuth ul pw fm ff S" V] by simp
next
  case (vpn_update rs)
  have "kept_out e (workerUpdate R N S rs m) \<and> workerUpdate R N (withAuth ul pw fm ff S) rs m = workerUpdate R N S rs m"
  proof (cases "configured m")
    case True
    note u = updateInternal_kept_out [OF assms(2) True assms(4,5), of R N]
    have "vpnState (updateInternal R N S rs m) \<noteq> VpnConnected" using u(1) by (simp add: kept_out_def)
    then have w: "workerUpdate R N S' rs m = onTunnel (run (o_delay S' 10)) (updateInternal R N S rs m)"
      if "updateInternal R N S' rs m = updateInternal R N S rs m" for S'
      using that True by (simp add: workerUpdate_def)
    have "kept_out e (onTunnel (run f) (updateInternal R N S rs m))" for f
      using u(1) by (simp add: kept_out_def)
    then show ?thesis by (simp add: w u(2) withAuth_fields)
  next
    case False
    then show ?thesis using assms(2) by (simp add: workerUpdate_def kept_out_def withAuth_fields)
  qed
  then show ?thesis using vpn_update vpn_step.vpn_update [of m R N "withAuth ul pw fm ff S" V rs] by simp
qed

text \<open>
  C5.  The box never connects to an impostor.  If every configuration ever given to the manager has the check on and
  pins the digest \<open>e\<close>, in any notation, and whoever answers can only show keys with other digests, then in no run,
  whatever commands are posted at whatever moment, does the manager or its tunnel become connected; and the same run
  happens whatever the authentication calls of libssh2 would do, so that no user name, password or signature is sent.
\<close>

theorem vpn_impostor_never_connects:
  assumes "freshVpn m" "configMutex (globalSSHConfig m)" "(vpn_step R N S V)\<^sup>*\<^sup>* m m'"
    and "\<And>v. v \<in> V \<Longrightarrow> pins e v" "length e = 32" "impostor e S"
  shows "\<not> isConnectedVpn m' \<and> \<not> isConnectedTunnel (sshTunnelClient m') \<and> (vpn_step R N (withAuth ul pw fm ff S) V)\<^sup>*\<^sup>* m m'"
proof -
  from assms(3) have "kept_out e m' \<and> (vpn_step R N (withAuth ul pw fm ff S) V)\<^sup>*\<^sup>* m m'"
  proof (induction rule: rtranclp_induct)
    case base
    show ?case using assms(1,2) by (simp add: kept_out_def freshVpn_def)
  next
    case (step u v)
    then show ?case
      using away_step [OF step.hyps(2) conjunct1 [OF step.IH] assms(4-6), of ul pw fm ff] by (auto intro: rtranclp.rtrancl_into_rtrancl)
  qed
  then show ?thesis by (simp add: kept_out_def isConnectedVpn_def isConnectedTunnel_def)
qed

section \<open>Reconnecting\<close>

definition switchedOff :: "('r, 'w) VPNManager \<Rightarrow> bool" where
  "switchedOff m \<longleftrightarrow> \<not> configured m \<and> vpnState m = VpnUnconfigured \<and> tunnelState (sshTunnelClient m) = TUNNEL_DISCONNECTED"

lemma update_switchedOff: "switchedOff m \<Longrightarrow> switchedOff (fold (workerUpdate R N S) turns m)"
  by (induction turns arbitrary: m) (simp_all add: switchedOff_def workerUpdate_def)

text \<open>
  \<open>reconnect\<close> reports success, but it only posts the command to disconnect, which forgets that the manager was
  configured: once the worker has taken the command, no number of turns brings the tunnel back.
\<close>

theorem reconnect_stays_disconnected:
  assumes "commandQueue m \<noteq> None"
  shows "fst (reconnectVpn m) \<and>
    (case fold (workerUpdate R N S) turns (workerCommand N S (snd (reconnectVpn m))) of m' \<Rightarrow>
       vpnState m' = VpnUnconfigured \<and> tunnelState (sshTunnelClient m') = TUNNEL_DISCONNECTED \<and> \<not> connectVpn m')"
proof -
  obtain c where c: "commandQueue m = Some c" using assms by auto
  have "switchedOff (workerCommand N S (snd (reconnectVpn m)))"
    by (simp add: switchedOff_def reconnectVpn_def disconnectVpn_def c workerCommand_def handleCommand_def disconnectInternal_def)
  then have "switchedOff (fold (workerUpdate R N S) turns (workerCommand N S (snd (reconnectVpn m))))"
    by (rule update_switchedOff)
  then show ?thesis by (simp add: switchedOff_def connectVpn_def) (simp add: reconnectVpn_def disconnectVpn_def connectVpn_def c)
qed

end
