(* ===== verification/Vpn_Memory.thy ===== *)
theory Vpn_Memory
  imports Vpn_Runs
begin

text \<open>
  No run of the manager of the tunnel uses a freed channel, although every new configuration has the tunnel set up
  again over what the last one left.
\<close>

section \<open>Setting the tunnel up again\<close>

lemma initChannels_heap:
  assumes "net_heap N heap"
  shows "heap (net (snd (initChannels N k sz ok (m :: ('r, 'w) ChannelManager)))) = heap (net m)"
proof -
  have "heap (fold (\<lambda>s w. if ChannelSlot.active s \<and> 0 \<le> localSocket s then n_close N (localSocket s) w else w) ss w) = heap w"
    for ss :: "'r ChannelSlot list" and w
    by (induction ss arbitrary: w) (simp_all add: heap_neutral [OF assms])
  then show ?thesis by (simp add: initChannels_def destroyChannels_def Let_def)
qed

lemma bare_new:
  assumes "queued t = []" "slots (mgr t) = replicate k newSlot" "activeCount (mgr t) = 0" "heap (net (mgr t)) = Some L"
  shows "bare heap k t"
proof -
  have "mcalm heap (replicate k None) L (mgr t)" using assms by (simp add: mcalm_def newSlot_def)
  moreover have "owned {} {} (replicate k None) L" by (simp add: owned_def)
  ultimately have "holds heap {} {} (mgr t)" by (rule holdsI)
  moreover have "channels_ok (mgr t)" using assms by (simp add: channels_ok_def slot_ok_def newSlot_def list_all_iff)
  ultimately show ?thesis using assms by (simp add: bare_def sound_def kept_def)
qed

lemma again_bare:
  assumes n: "net_heap N heap" and b: "bare heap n t"
  shows "\<exists>k. k \<in> {n, 0, nat (maxChannels (connectionConfig c))} \<and> bare heap k (snd (initTunnel N c b1 b2 b3 b4 b5 t))"
proof -
  obtain L where L: "heap (net (mgr t)) = Some L" using bare_alive [OF b] by (auto simp: alive_def)
  have q: "queued t = []" using b by (simp add: bare_def)
  let ?k = "nat (maxChannels (connectionConfig c))"
  let ?sz = "max 8192 (tunnelRingBufferSize (connectionConfig c))"
  let ?s = "initSession b2 b3 (sshSession t)"
  show ?thesis
  proof (cases "b1 \<and> fst ?s")
    case True
    have new: "bare heap (if b4 then ?k else 0) (snd (initTunnel N c b1 b2 b3 b4 b5 t))"
      using True q L initChannels_heap [OF n, of ?k ?sz b4 "mgr t"]
      by (intro bare_new [where L = L])
        (auto simp: initTunnel_def initChannels_def Let_def case_prod_beta onPump_def fromManager_def onManager_def onMgr_def queued_def)
    then show ?thesis by (cases b4) auto
  next
    case False
    then have "snd (initTunnel N c b1 b2 b3 b4 b5 t) = t \<or> snd (initTunnel N c b1 b2 b3 b4 b5 t) = t\<lparr>sshSession := snd ?s\<rparr>"
      by (auto simp: initTunnel_def Let_def case_prod_beta)
    then have "bare heap n (snd (initTunnel N c b1 b2 b3 b4 b5 t))" using b by (auto simp: bare_def queued_def)
    then show ?thesis by blast
  qed
qed

section \<open>The invariant\<close>

text \<open>A manager whose tunnel is not set up has a tunnel that is not connected.\<close>

definition vpn_safe :: "('w \<Rightarrow> nat set option) \<Rightarrow> ('r, 'w) VPNManager \<Rightarrow> bool" where
  "vpn_safe heap m \<longleftrightarrow> (\<exists>n < 2 ^ 32. safe heap n (sshTunnelClient m)) \<and>
     maxChannels (connectionConfig (globalSSHConfig m)) < 2 ^ 32 \<and>
     (\<not> initialized m \<longrightarrow> tunnelState (sshTunnelClient m) \<noteq> TUNNEL_CONNECTED)"

lemma safe_outside:
  assumes "safe heap n t" and "\<And>w. heap (snd (f w)) = heap w"
  shows "safe heap n (snd (call f t))"
  using assms by (simp add: safe_def bare_outside tidy_outside)

lemma vpn_safe_fields [simp]:
  "vpn_safe heap (m\<lparr>vpnState := st\<rparr>) = vpn_safe heap m" "vpn_safe heap (m\<lparr>vpnBoundPort := p\<rparr>) = vpn_safe heap m"
  "vpn_safe heap (nowConnected m) = vpn_safe heap m"
  by (simp_all add: vpn_safe_def nowConnected_def)

lemma vpn_safeI:
  "safe heap n (sshTunnelClient m) \<Longrightarrow> n < 2 ^ 32 \<Longrightarrow> maxChannels (connectionConfig (globalSSHConfig m)) < 2 ^ 32 \<Longrightarrow>
    initialized m \<or> tunnelState (sshTunnelClient m) \<noteq> TUNNEL_CONNECTED \<Longrightarrow> vpn_safe heap m"
  by (auto simp: vpn_safe_def)

lemma millis_vpn_safe:
  assumes "net_heap N heap" "vpn_safe heap m"
  shows "vpn_safe heap (snd (fromTunnel (call (millis N)) m))"
  using assms safe_outside [of heap _ "sshTunnelClient m" "millis N"] by (auto simp: vpn_safe_def heap_neutral)

lemma schedule_vpn_safe:
  assumes "net_heap N heap" "vpn_safe heap m"
  shows "vpn_safe heap (scheduleReconnect N st d m)" and "vpn_safe heap (scheduleAfterFailure N m)"
  using assms safe_outside [of heap _ "sshTunnelClient m" "millis N"] by (auto simp: vpn_safe_def heap_neutral)

lemma initClient_vpn_safe:
  assumes n: "net_heap N heap" and m: "vpn_safe heap m" and i: "\<not> initialized m"
  shows "vpn_safe heap ((snd (initClient N rs m))\<lparr>initialized := b\<rparr>)"
proof -
  let ?c = "globalSSHConfig m"
  let ?t = "snd (initTunnel N ?c (rs_stats rs) (rs_session rs) (rs_library rs) (rs_slots rs) (rs_buffers rs) (sshTunnelClient m))"
  obtain j where j: "j < 2 ^ 32" "safe heap j (sshTunnelClient m)" using m by (auto simp: vpn_safe_def)
  have st: "tunnelState (sshTunnelClient m) \<noteq> TUNNEL_CONNECTED" using m i by (simp add: vpn_safe_def)
  then have b: "bare heap j (sshTunnelClient m)" "tunnelState (sshTunnelClient m) \<noteq> TUNNEL_CONNECTING" using j(2) by (simp_all add: safe_def)
  have "\<exists>k. k \<in> {j, 0, nat (maxChannels (connectionConfig ?c))} \<and> bare heap k ?t" by (rule again_bare [OF n b(1)])
  then obtain k where "k \<in> {j, 0, nat (maxChannels (connectionConfig ?c))} \<and> bare heap k ?t" by (rule exE)
  then have k: "k \<in> {j, 0, nat (maxChannels (connectionConfig ?c))}" "bare heap k ?t" by (rule conjunct1, rule conjunct2)
  have "tunnelState ?t = tunnelState (sshTunnelClient m) \<or> tunnelState ?t = TUNNEL_DISCONNECTED"
    using initTunnel_state [of N ?c "rs_stats rs" "rs_session rs" "rs_library rs" "rs_slots rs" "rs_buffers rs" "sshTunnelClient m"] by simp
  then have t: "tunnelState ?t \<noteq> TUNNEL_CONNECTED" "tunnelState ?t \<noteq> TUNNEL_CONNECTING"
    using st b(2) by auto
  have "k < 2 ^ 32" using k(1) j(1) m by (auto simp: vpn_safe_def)
  then show ?thesis
    using safe_bare [OF k(2) t(2)] t(1) m by (intro vpn_safeI [of heap k]) (simp_all add: initClient_def vpn_safe_def)
qed

lemma connectClient_vpn_safe:
  assumes n: "net_heap N heap" "ssh_heap S heap" and m: "vpn_safe heap m" and i: "initialized m"
  shows "vpn_safe heap (snd (fromTunnel (connectSSH N S c) m))"
  using m i connectSSH_safe [OF n, of _ "sshTunnelClient m" c] by (auto simp: vpn_safe_def)

lemma connectInternal_vpn_safe:
  assumes n: "net_heap N heap" "ssh_heap S heap" and m: "vpn_safe heap m"
  shows "vpn_safe heap (snd (connectInternal N S rs m))"
proof -
  let ?m1 = "snd (fromTunnel (call (millis N)) m)"
  define r where "r = (if initialized ?m1 then (True, ?m1)
    else (fst (initClient N rs ?m1), (snd (initClient N rs ?m1))\<lparr>initialized := fst (initClient N rs ?m1)\<rparr>))"
  have m1: "vpn_safe heap ?m1" by (rule millis_vpn_safe [OF n(1) m])
  then have r: "vpn_safe heap (snd r)" "fst r \<longrightarrow> initialized (snd r)"
    using initClient_vpn_safe [OF n(1) m1] by (simp_all add: r_def)
  show ?thesis unfolding connectInternal_def case_prod_beta r_def [symmetric]
    using m1 r connectClient_vpn_safe [OF n, of "(snd r)\<lparr>vpnState := VpnConnecting\<rparr>"]
    by (simp add: schedule_vpn_safe [OF n(1)])
qed

lemma updateInternal_vpn_safe:
  assumes n: "net_heap N heap" "ssh_heap S heap" and m: "vpn_safe heap m"
  shows "vpn_safe heap (updateInternal R N S rs m)"
proof -
  let ?m1 = "snd (fromTunnel (call (millis N)) m)"
  let ?m2 = "onTunnel (loopTunnel R N S (globalSSHConfig ?m1)) ?m1"
  have m1: "vpn_safe heap ?m1" by (rule millis_vpn_safe [OF n(1) m])
  have m2: "vpn_safe heap ?m2" if "initialized ?m1"
    using m1 that loopTunnel_safe [OF n, of _ "sshTunnelClient ?m1"] by (auto simp: vpn_safe_def)
  show ?thesis unfolding updateInternal_def case_prod_beta Let_def
    using m m1 m2 connectInternal_vpn_safe [OF n m1] by (simp add: schedule_vpn_safe [OF n(1)])
qed

lemma run_delay_safe: "ssh_heap S heap \<Longrightarrow> safe heap n t \<Longrightarrow> safe heap n (run (o_delay S k) t)"
  by (simp add: safe_def bare_outside tidy_outside ssh_neutral)

lemma disconnectInternal_vpn_safe:
  assumes "net_heap N heap" "ssh_heap S heap" "vpn_safe heap m"
  shows "vpn_safe heap (disconnectInternal N S m)"
  using assms(3) disconnect_safe [OF assms(1,2), of _ "sshTunnelClient m"] by (auto simp: vpn_safe_def disconnectInternal_def)

lemma workerCommand_vpn_safe:
  assumes "net_heap N heap" "ssh_heap S heap" "vpn_safe heap m"
  shows "vpn_safe heap (workerCommand N S m)"
proof (cases "\<exists>cmd. commandQueue m = Some (Some cmd)")
  case True
  then obtain cmd where c: "commandQueue m = Some (Some cmd)" by (rule exE)
  let ?m = "disconnectInternal N S (m\<lparr>commandQueue := Some None\<rparr>)"
  have d: "vpn_safe heap ?m" "tunnelState (sshTunnelClient ?m) = TUNNEL_DISCONNECTED"
    using disconnectInternal_vpn_safe [OF assms(1,2), of "m\<lparr>commandQueue := Some None\<rparr>"] assms(3)
    by (simp_all add: vpn_safe_def) (simp add: disconnectInternal_def)
  show ?thesis
  proof (cases cmd)
    case (Configure v)
    have "uint (vc_maxChannels v) < 2 ^ 32" using uint_lt2p [of "vc_maxChannels v"] by simp
    then show ?thesis using d applied_channels [of v "globalSSHConfig ?m"]
      by (simp add: workerCommand_def c handleCommand_def Configure Let_def case_prod_beta vpn_safe_def)
  next
    case Disconnect
    then show ?thesis using d by (simp add: workerCommand_def c handleCommand_def vpn_safe_def)
  qed
next
  case False
  then have "workerCommand N S m = m" by (auto simp: workerCommand_def split: option.splits)
  then show ?thesis using assms(3) by simp
qed

lemma vpn_step_safe:
  assumes "vpn_step R N S V m m'" "net_heap N heap" "ssh_heap S heap" "vpn_safe heap m"
  shows "vpn_safe heap m'"
  using assms(1)
proof (cases rule: vpn_step.cases)
  case (vpn_update rs)
  have u: "vpn_safe heap (updateInternal R N S rs m)" by (rule updateInternal_vpn_safe [OF assms(2-4)])
  have d: "vpn_safe heap (onTunnel (run (o_delay S 10)) u)" if "vpn_safe heap u" for u :: "('a, 'b) VPNManager"
    using that run_delay_safe [OF assms(3), of _ "sshTunnelClient u"] by (auto simp: vpn_safe_def)
  show ?thesis using vpn_update u assms(4) by (auto simp: workerUpdate_def Let_def intro!: d)
qed (use assms workerCommand_vpn_safe [OF assms(2-4)] in \<open>simp_all add: vpn_safe_def\<close>)

text \<open>
  C7.  The box uses no freed channel.  From its constructor on, and whatever configurations and disconnections the
  main loop posts between the steps of the worker, including the setting up of the tunnel again after every new
  configuration, or after a failed one, over the slots left by the last: libssh2 is never called on a channel that
  was freed, every channel held is still allocated, and none is held twice.
\<close>

theorem vpn_no_use_after_free:
  assumes "net_heap N heap" "ssh_heap S heap" "freshVpn m" "untouched heap (sshTunnelClient m)"
    and "maxChannels (connectionConfig (globalSSHConfig m)) < 2 ^ 32" "(vpn_step R N S V)\<^sup>*\<^sup>* m m'"
  shows "\<exists>L. heap (net (mgr (sshTunnelClient m'))) = Some L \<and> set (held (sshTunnelClient m')) \<subseteq> L \<and>
    distinct (held (sshTunnelClient m'))"
proof -
  have u: "queued (sshTunnelClient m) = []" "slots (mgr (sshTunnelClient m)) = []" "activeCount (mgr (sshTunnelClient m)) = 0"
    "tunnelState (sshTunnelClient m) = TUNNEL_DISCONNECTED" using assms(4) by (simp_all add: untouched_def queued_def)
  obtain L where "heap (net (mgr (sshTunnelClient m))) = Some L" using assms(4) by (auto simp: untouched_def)
  then have "bare heap 0 (sshTunnelClient m)" using u by (intro bare_new) simp_all
  then have "safe heap 0 (sshTunnelClient m)" by (rule safe_bare) (simp add: u(4))
  then have "vpn_safe heap m" using u(4) assms(5) by (auto intro!: vpn_safeI)
  with assms(6) have "vpn_safe heap m'"
    by (induction rule: rtranclp_induct) (auto intro: vpn_step_safe [OF _ assms(1,2)])
  then obtain n where "safe heap n (sshTunnelClient m')" by (auto simp: vpn_safe_def)
  then have "tidy heap n (sshTunnelClient m')" by (rule safe_tidy)
  then show ?thesis unfolding tidy_def by (rule held_sound)
qed

end
