(* ===== verification/Vpn_Witness.thy ===== *)
theory Vpn_Witness
  imports Vpn_Memory Session_Witness Config_Witness
begin

text \<open>The theorems about the manager of the tunnel, at a concrete box and the outside of the session's witnesses.\<close>

definition demoVpn :: "(ring, nat list option) VPNManager" where
  "demoVpn = \<lparr>vpnConfig = newVPNConfig, configured = False, initialized = False, vpnState = VpnUnconfigured,
     reconnectStartedAt = 0, vpnReconnectDelayMs = 0, vpnBoundPort = 0, commandQueue = None, workerTask = False,
     sshTunnelClient = emptyTunnel, globalSSHConfig = demoConfiguration\<rparr>"

definition allThere :: Resources where
  "allThere = \<lparr>rs_stats = True, rs_session = True, rs_library = True, rs_slots = True, rs_buffers = True\<rparr>"

text \<open>The box pins a server that \<open>libSsh\<close> is not.\<close>

definition strictVpn :: VPNConfig where
  "strictVpn = boxVpnConfig (builtinConfig\<lparr>vpnFingerprint := encodeFingerprintHex (replicate 32 0)\<rparr>) ''10.0.0.2''"

lemma demo_fresh: "freshVpn demoVpn" "configMutex (globalSSHConfig demoVpn)"
  by (simp_all add: freshVpn_def demoVpn_def emptyTunnel_def demoConfiguration_def newConfiguration_def)

lemma hex_text: "cstr (encodeFingerprintHex e) = encodeFingerprintHex e"
proof -
  have "NUL \<notin> set kHexDigits" by (simp add: kHexDigits_def)
  then show ?thesis using hex_chars [of e] by (auto simp: cstr_def takeWhile_eq_all_conv)
qed

lemma hex_nonempty: "encodeFingerprintHex (replicate 32 0) \<noteq> []"
  using length_encodeFingerprintHex [of "replicate 32 0"] by (metis length_0_conv length_replicate mult_eq_0_iff zero_neq_numeral)

lemma strict_fields:
  "vc_hostKeyFingerprint strictVpn = Some (encodeFingerprintHex (replicate 32 0))" "vc_verifyHostKey strictVpn"
  by (simp_all only: strictVpn_def boxVpnConfig_def VPNConfig.select_convs VPNConfig.update_convs newVPNConfig_def BoxConfig.select_convs
      BoxConfig.update_convs builtinConfig_def)

lemma strict_valid: "isConfigValid strictVpn"
proof -
  have "isTextSet (vc_hostKeyFingerprint strictVpn)"
    by (simp add: strict_fields isTextSet_def hex_text hex_nonempty)
  then show ?thesis unfolding isConfigValid_def
    by (simp add: strictVpn_def boxVpnConfig_def newVPNConfig_def builtinConfig_def isTextSet_def isPortSet_def cstr_def
        VPN_CLIENT_KEEPALIVE_INTERVAL_SEC_def VPN_STALE_REMOTE_LISTENER_COOLDOWN_MS_def)
qed

lemma strict_pins: "pins (replicate 32 0) strictVpn"
proof -
  have "encodeFingerprintHex (replicate 32 0) \<in> set (notations (replicate 32 0))" by (simp add: notations_def)
  then have "spelled (replicate 32 0) (encodeFingerprintHex (replicate 32 0))"
    unfolding spelled_def by (intro exI [of _ "[]"] exI [of _ "encodeFingerprintHex (replicate 32 0)"]) simp
  then show ?thesis by (simp add: pins_def strict_fields textOrEmpty_def hex_text)
qed

text \<open>The main loop starts the tunnel, the worker takes the command and turns.\<close>

abbreviation postedVpn :: "(ring, nat list option) VPNManager" where
  "postedVpn \<equiv> snd (beginVpn True True strictVpn demoVpn)"

abbreviation turnedVpn :: "(ring, nat list option) VPNManager" where
  "turnedVpn \<equiv> workerUpdate arrayRing libNet libSsh allThere (workerCommand libNet libSsh postedVpn)"

lemma demo_run: "(vpn_step arrayRing libNet libSsh {strictVpn})\<^sup>*\<^sup>* demoVpn turnedVpn"
proof -
  have p: "workerTask postedVpn" "commandQueue postedVpn = Some (Some (Configure strictVpn))"
    using strict_valid by (simp_all add: beginVpn_def startWorker_def demoVpn_def)
  have q: "workerTask (workerCommand libNet libSsh postedVpn)"
    using p by (simp_all add: workerCommand_def handleCommand_def disconnectInternal_def onTunnel_def Let_def case_prod_beta)
  have "vpn_step arrayRing libNet libSsh {strictVpn} demoVpn postedVpn" by (rule vpn_begin) simp
  moreover have "vpn_step arrayRing libNet libSsh {strictVpn} postedVpn (workerCommand libNet libSsh postedVpn)"
    by (rule vpn_command [OF p(1)])
  moreover have "vpn_step arrayRing libNet libSsh {strictVpn} (workerCommand libNet libSsh postedVpn) turnedVpn"
    by (rule vpn_update [OF q])
  ultimately show ?thesis by (meson converse_rtranclp_into_rtranclp rtranclp.rtrancl_refl)
qed

theorem vpn_impostor_never_connects_witness: "fst (beginVpn True True strictVpn demoVpn) \<and> \<not> isConnectedVpn turnedVpn"
proof -
  have "impostor (replicate 32 0) libSsh" by (simp add: impostor_def libSsh_def)
  from vpn_impostor_never_connects [OF demo_fresh demo_run _ _ this] show ?thesis
    using strict_pins strict_valid by (simp add: beginVpn_def startWorker_def demoVpn_def)
qed

theorem vpn_no_use_after_free_witness: "net (mgr (sshTunnelClient turnedVpn)) \<noteq> None"
proof -
  have u: "untouched libHeap (sshTunnelClient demoVpn)" by (simp add: untouched_def demoVpn_def emptyTunnel_def)
  have c: "maxChannels (connectionConfig (globalSSHConfig demoVpn)) < 2 ^ 32"
    by (simp add: demoVpn_def demoConfiguration_def newConfiguration_def defaultConnection_def)
  have "\<exists>L. libHeap (net (mgr (sshTunnelClient turnedVpn))) = Some L \<and> set (held (sshTunnelClient turnedVpn)) \<subseteq> L \<and>
      distinct (held (sshTunnelClient turnedVpn))"
    by (rule vpn_no_use_after_free [OF libNet_heap libSsh_heap demo_fresh(1) u c demo_run])
  then show ?thesis by auto
qed

theorem valid_box_config_starts_vpn_witness:
  "vpnState (workerCommand libNet libSsh (snd (startVpn True True True builtinConfig ''10.0.0.2'' demoVpn))) = VpnDisconnected"
proof -
  have "cstr ''10.0.0.2'' = ''10.0.0.2''" by (simp add: cstr_def)
  from valid_box_config_starts_vpn [OF builtin_ok this _ demo_fresh(2)] show ?thesis by simp
qed

theorem reconnect_stays_disconnected_witness:
  "fst (reconnectVpn postedVpn) \<and> vpnState (workerCommand libNet libSsh (snd (reconnectVpn postedVpn))) = VpnUnconfigured"
proof -
  have q: "commandQueue postedVpn \<noteq> None" using strict_valid by (simp add: beginVpn_def startWorker_def demoVpn_def)
  show ?thesis using reconnect_stays_disconnected [OF q, of arrayRing libNet libSsh "[]"] by simp
qed

end
