(* ===== verification/Direct_Client.thy ===== *)
theory Direct_Client
  imports Vpn_Manager
begin

text \<open>
  Channels that the box opens through the tunnel to a host behind the gateway: class \<open>SSHDirectClient\<close> in
  \<open>ssh_direct_client.cpp\<close> under \<open>src/experimental_libs/OrangeBoxSshTunnel/src\<close>, \<open>openDirectTcpip\<close> of \<open>ssh_tunnel.cpp\<close>, and class
  \<open>VPNDirectClient\<close> with \<open>openDirectTcpip\<close> of \<open>src/src/vpn_manager.cpp\<close>.  A client that is attached points to the one session of the
  tunnel, whose current state is an argument of its operations.  A timeout of 0 waits for ever, so the loops take fuel.
\<close>

record SSHDirectClient =
  dc_session :: bool
  dc_channel :: "nat option"
  dc_eof :: bool
  dc_lastError :: int
  dc_stopCloseEagain :: u16
  dc_stopFreeEagain :: u16
  dc_stopDuration :: u32
  dc_stopCloseResult :: int
  dc_stopFreeResult :: int

definition newDirectClient :: SSHDirectClient where
  "newDirectClient = \<lparr>dc_session = False, dc_channel = None, dc_eof = False, dc_lastError = 0, dc_stopCloseEagain = 0,
     dc_stopFreeEagain = 0, dc_stopDuration = 0, dc_stopCloseResult = 0, dc_stopFreeResult = 0\<rparr>"

section \<open>Loops with a deadline\<close>

text \<open>
  The loops of the class: while there is more to do and the deadline has not passed, another turn, which goes on
  with \<open>Inl\<close> or ends with \<open>Inr\<close>.  The result at the deadline is \<open>expired\<close>.
\<close>

fun deadline_loop ::
  "('r, 'w) Net \<Rightarrow> nat \<Rightarrow> u32 \<Rightarrow> u32 \<Rightarrow> ('a \<Rightarrow> bool) \<Rightarrow> ('a \<Rightarrow> 'b) \<Rightarrow> ('a \<Rightarrow> 'w \<Rightarrow> (('a + 'b) \<times> 'w) option) \<Rightarrow> 'a \<Rightarrow> 'w \<Rightarrow>
     ('b \<times> 'w) option" where
  "deadline_loop N 0 timeoutMs deadline goOn expired turn a w = None"
| "deadline_loop N (Suc fuel) timeoutMs deadline goOn expired turn a w =
     (if \<not> goOn a then Some (expired a, w)
      else case (if timeoutMs = 0 then (True, w) else case millis N w of (now, w') \<Rightarrow> (sint (now - deadline) < 0, w')) of
        (go, w0) \<Rightarrow>
          if \<not> go then Some (expired a, w0)
          else case turn a w0 of
            None \<Rightarrow> None
          | Some (Inl a', w1) \<Rightarrow> deadline_loop N fuel timeoutMs deadline goOn expired turn a' w1
          | Some (Inr b, w1) \<Rightarrow> Some (b, w1))"

section \<open>Stopping and attaching\<close>

definition clearClient :: "SSHDirectClient \<Rightarrow> SSHDirectClient" where
  "clearClient d = d\<lparr>dc_session := False, dc_channel := None, dc_eof := True\<rparr>"

definition stopTurn ::
  "('r, 'w) Net \<Rightarrow> 'w Ssh \<Rightarrow> nat \<Rightarrow> bool \<times> SSHDirectClient \<Rightarrow> 'w \<Rightarrow>
     ((bool \<times> SSHDirectClient + bool \<times> SSHDirectClient) \<times> 'w) option" where
  "stopTurn N S c = (\<lambda>(closed, d) w.
     case s_lock N 100 w of (locked, w1) \<Rightarrow>
       if \<not> locked then Some (Inl (closed, d), o_delay S 5 w1)
       else case (if closed then ((True, d), w1)
                  else case ch_close N c w1 of (rc, w2) \<Rightarrow>
                    let d1 = d\<lparr>dc_stopCloseResult := rc\<rparr> in
                    if rc = LIBSSH2_ERROR_EAGAIN then ((False, d1\<lparr>dc_stopCloseEagain := dc_stopCloseEagain d1 + 1\<rparr>), w2)
                    else ((True, if rc \<noteq> 0 then d1\<lparr>dc_lastError := rc\<rparr> else d1), w2)) of
         ((closed1, d1), w2) \<Rightarrow>
           if \<not> closed1 then Some (Inl (False, d1), o_delay S 5 (s_unlock N w2))
           else case ch_free N c w2 of (rc, w3) \<Rightarrow>
             let d2 = d1\<lparr>dc_stopFreeResult := rc\<rparr> in
             if rc = LIBSSH2_ERROR_EAGAIN
             then Some (Inl (True, d2\<lparr>dc_stopFreeEagain := dc_stopFreeEagain d2 + 1\<rparr>), o_delay S 5 (s_unlock N w3))
             else Some (Inr (True, if rc \<noteq> 0 then d2\<lparr>dc_lastError := rc\<rparr> else d2), s_unlock N w3))"

definition stopClient ::
  "('r, 'w) Net \<Rightarrow> 'w Ssh \<Rightarrow> nat \<Rightarrow> SSHSession \<Rightarrow> u32 \<Rightarrow> SSHDirectClient \<Rightarrow> 'w \<Rightarrow> (bool \<times> SSHDirectClient \<times> 'w) option" where
  "stopClient N S fuel s timeoutMs d w =
     (let d0 = d\<lparr>dc_stopCloseEagain := 0, dc_stopFreeEagain := 0, dc_stopDuration := 0, dc_stopCloseResult := 0,
                 dc_stopFreeResult := 0\<rparr> in
      case (if dc_session d0 then dc_channel d0 else None) of
        None \<Rightarrow> Some (True, clearClient d0, w)
      | Some c \<Rightarrow>
          if \<not> isConnectedSession s then Some (True, clearClient d0, w)
          else case millis N w of (start, w1) \<Rightarrow>
            case deadline_loop N fuel timeoutMs (start + timeoutMs) (\<lambda>_. True) (\<lambda>(_, d). (False, d)) (stopTurn N S c)
                   (False, d0) w1 of
              None \<Rightarrow> None
            | Some ((freed, d1), w2) \<Rightarrow>
                case millis N w2 of (now, w3) \<Rightarrow>
                  if \<not> freed
                  then Some (False, d1\<lparr>dc_lastError := LIBSSH2_ERROR_EAGAIN, dc_stopDuration := now - start\<rparr>, w3)
                  else Some (True, (clearClient d1)\<lparr>dc_stopDuration := now - start\<rparr>, w3))"

definition attachClient ::
  "('r, 'w) Net \<Rightarrow> 'w Ssh \<Rightarrow> nat \<Rightarrow> SSHSession \<Rightarrow> nat option \<Rightarrow> SSHDirectClient \<Rightarrow> 'w \<Rightarrow> (bool \<times> SSHDirectClient \<times> 'w) option" where
  "attachClient N S fuel s channel d w =
     (case stopClient N S fuel s 5000 d w of
        None \<Rightarrow> None
      | Some (_, d1, w1) \<Rightarrow>
          (case channel of None \<Rightarrow> Some (False, d1, w1)
           | Some c \<Rightarrow> Some (True, d1\<lparr>dc_session := True, dc_channel := Some c, dc_eof := False, dc_lastError := 0\<rparr>, w1)))"

definition connectedClient ::
  "('r, 'w) Net \<Rightarrow> SSHSession \<Rightarrow> SSHDirectClient \<Rightarrow> 'w \<Rightarrow> bool \<times> SSHDirectClient \<times> 'w" where
  "connectedClient N s d w =
     (case (if dc_session d then dc_channel d else None) of
        None \<Rightarrow> (False, d, w)
      | Some c \<Rightarrow>
          if dc_eof d \<or> \<not> isConnectedSession s then (False, d, w)
          else case s_lock N 50 w of (locked, w1) \<Rightarrow>
            if \<not> locked then (True, d, w1)
            else case ch_eof N c w1 of (ended, w2) \<Rightarrow>
              let d1 = (if ended then d\<lparr>dc_eof := True\<rparr> else d) in (\<not> dc_eof d1, d1, s_unlock N w2))"

section \<open>Writing and reading\<close>

definition writeTurn ::
  "('r, 'w) Net \<Rightarrow> 'w Ssh \<Rightarrow> nat \<Rightarrow> bytes \<times> nat \<times> SSHDirectClient \<Rightarrow> 'w \<Rightarrow>
     ((bytes \<times> nat \<times> SSHDirectClient + nat \<times> SSHDirectClient) \<times> 'w) option" where
  "writeTurn N S c = (\<lambda>(rest, total, d) w.
     case s_lock N 50 w of (locked, w1) \<Rightarrow>
       if \<not> locked then Some (Inl (rest, total, d), o_delay S 2 w1)
       else case ch_write N c rest w1 of (rc, w2) \<Rightarrow>
         if 0 < rc then Some (Inl (drop (nat rc) rest, total + nat rc, d\<lparr>dc_lastError := 0\<rparr>), s_unlock N w2)
         else if rc = LIBSSH2_ERROR_EAGAIN then Some (Inl (rest, total, d), o_delay S 5 (s_unlock N w2))
         else Some (Inr (total, d\<lparr>dc_lastError := rc\<rparr>), s_unlock N w2))"

definition writeClient ::
  "('r, 'w) Net \<Rightarrow> 'w Ssh \<Rightarrow> nat \<Rightarrow> bytes option \<Rightarrow> u32 \<Rightarrow> SSHDirectClient \<Rightarrow> 'w \<Rightarrow> (nat \<times> SSHDirectClient \<times> 'w) option" where
  "writeClient N S fuel buffer timeoutMs d w =
     (case (if dc_session d then dc_channel d else None) of
        None \<Rightarrow> Some (0, d, w)
      | Some c \<Rightarrow>
          (case buffer of
             None \<Rightarrow> Some (0, d, w)
           | Some bs \<Rightarrow>
               if bs = [] then Some (0, d, w)
               else case millis N w of (start, w1) \<Rightarrow>
                 map_option (\<lambda>((total, d1), w2). (total, d1, w2))
                   (deadline_loop N fuel timeoutMs (start + timeoutMs) (\<lambda>(rest, _). rest \<noteq> []) (\<lambda>(_, total, d). (total, d))
                      (writeTurn N S c) (bs, 0, d) w1)))"

definition writeText ::
  "('r, 'w) Net \<Rightarrow> 'w Ssh \<Rightarrow> nat \<Rightarrow> string option \<Rightarrow> u32 \<Rightarrow> SSHDirectClient \<Rightarrow> 'w \<Rightarrow> (nat \<times> SSHDirectClient \<times> 'w) option" where
  "writeText N S fuel text_arg timeoutMs d w =
     (case text_arg of None \<Rightarrow> Some (0, d, w)
      | Some t \<Rightarrow> writeClient N S fuel (Some (map of_char (cstr t))) timeoutMs d w)"

definition readTurn ::
  "('r, 'w) Net \<Rightarrow> 'w Ssh \<Rightarrow> nat \<Rightarrow> nat \<Rightarrow> u32 \<Rightarrow> SSHDirectClient \<Rightarrow> 'w \<Rightarrow>
     ((SSHDirectClient + (int \<times> bytes) \<times> SSHDirectClient) \<times> 'w) option" where
  "readTurn N S c len timeoutMs d w =
     (case s_lock N 50 w of (locked, w1) \<Rightarrow>
        if \<not> locked then Some (Inl d, o_delay S 2 w1)
        else case ch_read N c len w1 of ((rc, bs), w2) \<Rightarrow>
          let w3 = s_unlock N w2 in
          if 0 < rc then Some (Inr ((rc, bs), d\<lparr>dc_lastError := 0\<rparr>), w3)
          else if rc = 0 then Some (Inr ((0, []), d\<lparr>dc_eof := True\<rparr>), w3)
          else if rc = LIBSSH2_ERROR_EAGAIN then
            (if timeoutMs = 0 then Some (Inr ((0, []), d), w3) else Some (Inl d, o_delay S 5 w3))
          else Some (Inr ((- 1, []), d\<lparr>dc_lastError := rc, dc_eof := True\<rparr>), w3))"

text \<open>The buffer is not null; its length is an argument, and the bytes put into it are part of the result.\<close>

definition readClient ::
  "('r, 'w) Net \<Rightarrow> 'w Ssh \<Rightarrow> nat \<Rightarrow> nat \<Rightarrow> u32 \<Rightarrow> SSHDirectClient \<Rightarrow> 'w \<Rightarrow> ((int \<times> bytes) \<times> SSHDirectClient \<times> 'w) option" where
  "readClient N S fuel len timeoutMs d w =
     (case (if dc_session d then dc_channel d else None) of
        None \<Rightarrow> Some ((- 1, []), d, w)
      | Some c \<Rightarrow>
          if len = 0 then Some ((- 1, []), d, w)
          else case millis N w of (now, w1) \<Rightarrow>
            map_option (\<lambda>((r, d1), w2). (r, d1, w2))
              (deadline_loop N fuel timeoutMs (now + timeoutMs) (\<lambda>_. True) (\<lambda>d. ((0, []), d)) (readTurn N S c len timeoutMs) d w1))"

definition readByte ::
  "('r, 'w) Net \<Rightarrow> 'w Ssh \<Rightarrow> nat \<Rightarrow> u32 \<Rightarrow> SSHDirectClient \<Rightarrow> 'w \<Rightarrow> (int \<times> SSHDirectClient \<times> 'w) option" where
  "readByte N S fuel timeoutMs d w =
     map_option (\<lambda>((rc, bs), d1, w1). (if rc = 1 then (case bs of [] \<Rightarrow> 0 | b # _ \<Rightarrow> uint b) else rc, d1, w1))
       (readClient N S fuel 1 timeoutMs d w)"

definition lineTurn ::
  "('r, 'w) Net \<Rightarrow> 'w Ssh \<Rightarrow> nat \<Rightarrow> string \<times> SSHDirectClient \<Rightarrow> 'w \<Rightarrow>
     ((string \<times> SSHDirectClient + bool \<times> string \<times> SSHDirectClient) \<times> 'w) option" where
  "lineTurn N S fuel = (\<lambda>(out, d) w.
     case readByte N S fuel 50 d w of
       None \<Rightarrow> None
     | Some (c, d1, w1) \<Rightarrow>
         if 0 < c then
           (if c = 10 then Some (Inr (True, out, d1), w1)
            else Some (Inl (if c = 13 then out else out @ [char_of (nat c)], d1), o_delay S 1 w1))
         else if c < 0 \<or> dc_eof d1 then Some (Inr (out \<noteq> [], out, d1), w1)
         else Some (Inl (out, d1), o_delay S 1 w1))"

definition readLine ::
  "('r, 'w) Net \<Rightarrow> 'w Ssh \<Rightarrow> nat \<Rightarrow> u32 \<Rightarrow> SSHDirectClient \<Rightarrow> 'w \<Rightarrow> (bool \<times> string \<times> SSHDirectClient \<times> 'w) option" where
  "readLine N S fuel timeoutMs d w =
     (case millis N w of (now, w1) \<Rightarrow>
        map_option (\<lambda>((ok, out, d1), w2). (ok, out, d1, w2))
          (deadline_loop N fuel timeoutMs (now + timeoutMs) (\<lambda>_. True) (\<lambda>(out, d). (out \<noteq> [], out, d)) (lineTurn N S fuel)
             ([], d) w1))"

section \<open>Opening\<close>

text \<open>\<open>SSHTunnel::openDirectTcpip\<close>.\<close>

definition openDirectTunnel ::
  "('r, 'w) Net \<Rightarrow> 'w Ssh \<Rightarrow> nat \<Rightarrow> SSHDirectClient \<Rightarrow> string \<Rightarrow> int \<Rightarrow> string \<Rightarrow> int \<Rightarrow> u32 \<Rightarrow> ('r, 'w) SSHTunnel \<Rightarrow>
     (bool \<times> SSHDirectClient \<times> ('r, 'w) SSHTunnel) option" where
  "openDirectTunnel N S fuel d host port sourceHost sourcePort timeoutMs t =
     (if \<not> isConnectedTunnel t then Some (False, d, t)
      else case openDirectSession N S fuel host port sourceHost sourcePort timeoutMs (sshSession t) (net (mgr t)) of
        None \<Rightarrow> None
      | Some (None, w) \<Rightarrow> Some (False, d, run (\<lambda>_. w) t)
      | Some (Some c, w) \<Rightarrow>
          map_option (\<lambda>(ok, d1, w1). (ok, d1, run (\<lambda>_. w1) t)) (attachClient N S fuel (sshSession t) (Some c) d w))"

text \<open>
  A \<open>VPNDirectClient\<close> is its \<open>backend\<close>, null or a client that it owns.  Deleting a client runs its destructor, which
  stops it once goOn and ignores the result.
\<close>

definition connectedDirect ::
  "('r, 'w) Net \<Rightarrow> SSHSession \<Rightarrow> SSHDirectClient option \<Rightarrow> 'w \<Rightarrow> bool \<times> SSHDirectClient option \<times> 'w" where
  "connectedDirect N s backend w =
     (case backend of None \<Rightarrow> (False, None, w)
      | Some d \<Rightarrow> (case connectedClient N s d w of (ok, d1, w1) \<Rightarrow> (ok, Some d1, w1)))"

definition eofDirect :: "SSHDirectClient option \<Rightarrow> bool" where
  "eofDirect backend = (case backend of None \<Rightarrow> True | Some d \<Rightarrow> dc_eof d)"

definition writeDirect ::
  "('r, 'w) Net \<Rightarrow> 'w Ssh \<Rightarrow> nat \<Rightarrow> bytes option \<Rightarrow> u32 \<Rightarrow> SSHDirectClient option \<Rightarrow> 'w \<Rightarrow>
     (nat \<times> SSHDirectClient option \<times> 'w) option" where
  "writeDirect N S fuel buffer timeoutMs backend w =
     (case backend of None \<Rightarrow> Some (0, None, w)
      | Some d \<Rightarrow> map_option (\<lambda>(n, d1, w1). (n, Some d1, w1)) (writeClient N S fuel buffer timeoutMs d w))"

definition readDirect ::
  "('r, 'w) Net \<Rightarrow> 'w Ssh \<Rightarrow> nat \<Rightarrow> nat \<Rightarrow> u32 \<Rightarrow> SSHDirectClient option \<Rightarrow> 'w \<Rightarrow>
     ((int \<times> bytes) \<times> SSHDirectClient option \<times> 'w) option" where
  "readDirect N S fuel len timeoutMs backend w =
     (case backend of None \<Rightarrow> Some ((- 1, []), None, w)
      | Some d \<Rightarrow> map_option (\<lambda>(r, d1, w1). (r, Some d1, w1)) (readClient N S fuel len timeoutMs d w))"

definition readLineDirect ::
  "('r, 'w) Net \<Rightarrow> 'w Ssh \<Rightarrow> nat \<Rightarrow> u32 \<Rightarrow> SSHDirectClient option \<Rightarrow> 'w \<Rightarrow>
     (bool \<times> string \<times> SSHDirectClient option \<times> 'w) option" where
  "readLineDirect N S fuel timeoutMs backend w =
     (case backend of None \<Rightarrow> Some (False, [], None, w)
      | Some d \<Rightarrow> map_option (\<lambda>(ok, out, d1, w1). (ok, out, Some d1, w1)) (readLine N S fuel timeoutMs d w))"

definition stopDirect ::
  "('r, 'w) Net \<Rightarrow> 'w Ssh \<Rightarrow> nat \<Rightarrow> SSHSession \<Rightarrow> u32 \<Rightarrow> SSHDirectClient option \<Rightarrow> 'w \<Rightarrow>
     (bool \<times> SSHDirectClient option \<times> 'w) option" where
  "stopDirect N S fuel s timeoutMs backend w =
     (case backend of None \<Rightarrow> Some (True, None, w)
      | Some d \<Rightarrow>
          (case stopClient N S fuel s timeoutMs d w of
             None \<Rightarrow> None
           | Some (stopped, d1, w1) \<Rightarrow>
               (case stopClient N S fuel s 5000 d1 w1 of None \<Rightarrow> None | Some (_, _, w2) \<Rightarrow> Some (stopped, None, w2))))"

text \<open>\<open>VPNManager::openDirectTcpip\<close>; a client that could not be opened is deleted.\<close>

definition openDirectVpn ::
  "('r, 'w) Net \<Rightarrow> 'w Ssh \<Rightarrow> nat \<Rightarrow> SSHDirectClient option \<Rightarrow> string option \<Rightarrow> u16 \<Rightarrow> string option \<Rightarrow> u16 \<Rightarrow> u32 \<Rightarrow>
     ('r, 'w) VPNManager \<Rightarrow> (bool \<times> SSHDirectClient option \<times> ('r, 'w) VPNManager) option" where
  "openDirectVpn N S fuel backend host port sourceHost sourcePort timeoutMs m =
     (let t = sshTunnelClient m in
      if \<not> isConnectedVpn m \<or> \<not> isTextSet host \<or> port = 0 then Some (False, backend, m)
      else if \<not> isConnectedTunnel t then Some (False, backend, m)
      else case stopDirect N S fuel (sshSession t) 5000 backend (net (mgr t)) of
        None \<Rightarrow> None
      | Some (_, _, w) \<Rightarrow>
          (case openDirectTunnel N S fuel newDirectClient (textOrEmpty host) (uint port) (textOrEmpty sourceHost)
                  (uint sourcePort) timeoutMs (run (\<lambda>_. w) t) of
             None \<Rightarrow> None
           | Some (True, d, t1) \<Rightarrow> Some (True, Some d, onTunnel (\<lambda>_. t1) m)
           | Some (False, d, t1) \<Rightarrow>
               (case stopClient N S fuel (sshSession t1) 5000 d (net (mgr t1)) of
                  None \<Rightarrow> None
                | Some (_, _, w1) \<Rightarrow> Some (False, None, onTunnel (\<lambda>_. run (\<lambda>_. w1) t1) m))))"

end
