(* ===== verification/Direct_Safety.thy ===== *)
theory Direct_Safety
  imports Direct_Client Tunnel_Memory
begin

text \<open>
  What the channels to a host guarantee: the bytes written are the bytes the channel takes, stopping frees the channel
  once or keeps it, and every call with a timeout returns.
\<close>

section \<open>Loops with a deadline\<close>

text \<open>An invariant of the turns holds of the result.\<close>

lemma deadline_loop_inv:
  assumes "deadline_loop N fuel timeoutMs deadline goOn expired turn a w = Some (b, w')" and "I a w"
    and millis: "\<And>a w. I a w \<Longrightarrow> I a (snd (millis N w))"
    and goes: "\<And>a w a' w'. I a w \<Longrightarrow> turn a w = Some (Inl a', w') \<Longrightarrow> I a' w'"
    and ends: "\<And>a w b w'. I a w \<Longrightarrow> turn a w = Some (Inr b, w') \<Longrightarrow> Q b w'"
    and expires: "\<And>a w. I a w \<Longrightarrow> Q (expired a) w"
  shows "Q b w'"
  using assms(1,2)
proof (induction fuel arbitrary: a w)
  case (Suc fuel)
  let ?t = "if timeoutMs = 0 then (True, w) else case millis N w of (now, w') \<Rightarrow> (sint (now - deadline) < 0, w')"
  obtain go w0 where t: "?t = (go, w0)" by (metis prod.exhaust)
  have i0: "I a w0" using t Suc.prems(2) millis [OF Suc.prems(2)] by (auto simp: case_prod_beta split: if_splits)
  show ?case
  proof (cases "goOn a \<and> go")
    case False
    then show ?thesis using Suc.prems i0 expires by (auto simp: t split: if_splits)
  next
    case True
    then obtain r w1 where r: "turn a w0 = Some (r, w1)" using Suc.prems(1) by (auto simp: t split: option.splits)
    show ?thesis
    proof (cases r)
      case (Inl a')
      have "deadline_loop N fuel timeoutMs deadline goOn expired turn a' w1 = Some (b, w')"
        using Suc.prems(1) True r Inl by (simp add: t)
      then show ?thesis using goes [OF i0] r Inl Suc.IH by blast
    next
      case (Inr b')
      then have "b = b'" "w' = w1" using Suc.prems(1) True r by (simp_all add: t)
      then show ?thesis using ends [OF i0] r Inr by blast
    qed
  qed
qed simp

section \<open>Writing\<close>

text \<open>
  What libssh2 documents of a write, as for the pump: a positive result counts the bytes taken from the front of the
  buffer, any other result means that none was; the clock, the lock and waiting write nothing.
\<close>

definition honest_writes :: "('r, 'w) Net \<Rightarrow> 'w Ssh \<Rightarrow> ('w \<Rightarrow> nat \<Rightarrow> bytes) \<Rightarrow> bool" where
  "honest_writes N S written \<longleftrightarrow>
     (\<forall>w. written (snd (millis N w)) = written w \<and> written (s_unlock N w) = written w) \<and>
     (\<forall>k w. written (snd (s_lock N k w)) = written w \<and> written (o_delay S k w) = written w) \<and>
     (\<forall>c d w. case ch_write N c d w of (n, w') \<Rightarrow>
        if 0 < n then nat n \<le> length d \<and> written w' c = written w c @ take (nat n) d else written w' c = written w c)"

lemma honest_simps:
  assumes "honest_writes N S written"
  shows "written (snd (millis N w)) = written w" "written (s_unlock N w) = written w"
    "written (snd (s_lock N k w)) = written w" "written (o_delay S k w) = written w"
  using assms by (simp_all add: honest_writes_def)

lemma honest_write:
  assumes "honest_writes N S written" "ch_write N c d w = (n, w')"
  shows "if 0 < n then nat n \<le> length d \<and> written w' c = written w c @ take (nat n) d else written w' c = written w c"
  using assms unfolding honest_writes_def by (metis (mono_tags, lifting) case_prod_conv)

text \<open>Between two turns: what was taken is a prefix of the data, of the length that is counted, and the rest is left.\<close>

definition part_written ::
  "('w \<Rightarrow> nat \<Rightarrow> bytes) \<Rightarrow> nat \<Rightarrow> bytes \<Rightarrow> bytes \<Rightarrow> bytes \<times> nat \<times> SSHDirectClient \<Rightarrow> 'w \<Rightarrow> bool" where
  "part_written written c before bs = (\<lambda>(rest, sent, d) w.
     sent \<le> length bs \<and> rest = drop sent bs \<and> written w c = before @ take sent bs)"

lemma writeTurn_part:
  assumes h: "honest_writes N S written" and p: "part_written written c before bs (rest, sent, d) w"
  shows "writeTurn N S c (rest, sent, d) w = Some (Inl a', w') \<Longrightarrow> part_written written c before bs a' w'"
    and "writeTurn N S c (rest, sent, d) w = Some (Inr (n, d'), w') \<Longrightarrow>
      n \<le> length bs \<and> written w' c = before @ take n bs"
proof -
  obtain locked w1 where l: "s_lock N 50 w = (locked, w1)" by (metis prod.exhaust)
  obtain rc w2 where r: "ch_write N c rest w1 = (rc, w2)" by (metis prod.exhaust)
  have w1: "written w1 = written w" using honest_simps(3) [OF h, of 50 w] l by simp
  note t = honest_write [OF h r]
  have mr: "take (sent + nat rc) bs = take sent bs @ take (nat rc) rest" "drop (nat rc) rest = drop (sent + nat rc) bs"
    using p by (simp_all add: part_written_def take_add add.commute)
  have len: "0 < rc \<Longrightarrow> sent + nat rc \<le> length bs" using t p by (auto simp: part_written_def split: if_splits)
  have e: "writeTurn N S c (rest, sent, d) w =
      (if \<not> locked then Some (Inl (rest, sent, d), o_delay S 2 w1)
       else if 0 < rc then Some (Inl (drop (nat rc) rest, sent + nat rc, d\<lparr>dc_lastError := 0\<rparr>), s_unlock N w2)
       else if rc = LIBSSH2_ERROR_EAGAIN then Some (Inl (rest, sent, d), o_delay S 5 (s_unlock N w2))
       else Some (Inr (sent, d\<lparr>dc_lastError := rc\<rparr>), s_unlock N w2))"
    by (simp add: writeTurn_def l r)
  show "part_written written c before bs a' w'" if "writeTurn N S c (rest, sent, d) w = Some (Inl a', w')"
    using that p t w1 mr len unfolding e by (auto simp: part_written_def honest_simps [OF h] split: if_splits)
  show "n \<le> length bs \<and> written w' c = before @ take n bs" if "writeTurn N S c (rest, sent, d) w = Some (Inr (n, d'), w')"
    using that p t w1 unfolding e by (auto simp: part_written_def honest_simps [OF h] split: if_splits)
qed

text \<open>
  Writing to a channel of the box's own writes a prefix: whatever partial writes, refused locks and errors happen
  on the way, the channel has taken exactly as many bytes as the call returns, and they are the first ones of the
  buffer, each once and in order.
\<close>

theorem direct_write_is_prefix:
  assumes "honest_writes N S written" "dc_session d" "dc_channel d = Some c"
    and "writeClient N S fuel (Some bs) timeoutMs d w = Some (n, d', w')"
  shows "n \<le> length bs \<and> written w' c = written w c @ take n bs \<and> dc_channel d' = Some c"
proof (cases "bs = []")
  case True
  then show ?thesis using assms(2-4) by (simp add: writeClient_def)
next
  case False
  obtain start w1 where m: "millis N w = (start, w1)" by (metis prod.exhaust)
  have l: "deadline_loop N fuel timeoutMs (start + timeoutMs) (\<lambda>(rest, _). rest \<noteq> []) (\<lambda>(_, sent, d). (sent, d))
      (writeTurn N S c) (bs, 0, d) w1 = Some ((n, d'), w')"
    using assms(2-4) False by (auto simp: writeClient_def m)
  have i: "part_written written c (written w c) bs (bs, 0, d) w1"
    using honest_simps(1) [OF assms(1), of w] by (simp add: part_written_def m)
  let ?I = "\<lambda>a w'. part_written written c (written w c) bs a w' \<and> dc_channel (snd (snd a)) = Some c"
  let ?Q = "\<lambda>r w'. fst r \<le> length bs \<and> written w' c = written w c @ take (fst r) bs \<and> dc_channel (snd r) = Some c"
  have keeps: "dc_channel d2 = dc_channel d1"
    if "writeTurn N S c (rest, sent, d1) u = Some (Inl (rest', sent', d2), u') \<or>
      writeTurn N S c (rest, sent, d1) u = Some (Inr (sent', d2), u')" for rest sent d1 u rest' sent' d2 u'
    using that by (auto simp: writeTurn_def Let_def split: prod.splits if_splits)
  have "?Q (n, d') w'"
  proof (rule deadline_loop_inv [OF l, where I = ?I and Q = ?Q])
    show "?I (bs, 0, d) w1" using i assms(3) by simp
  next
    fix a :: "bytes \<times> nat \<times> SSHDirectClient" and u
    assume "?I a u"
    then show "?I a (snd (millis N u))" by (cases a) (simp add: part_written_def honest_simps [OF assms(1)])
  next
    fix a :: "bytes \<times> nat \<times> SSHDirectClient" and u a' u'
    assume "?I a u" "writeTurn N S c a u = Some (Inl a', u')"
    then show "?I a' u'" using writeTurn_part(1) [OF assms(1)] keeps by (cases a; cases a') force
  next
    fix a :: "bytes \<times> nat \<times> SSHDirectClient" and u b u'
    assume "?I a u" "writeTurn N S c a u = Some (Inr b, u')"
    then show "?Q b u'" using writeTurn_part(2) [OF assms(1)] keeps by (cases a; cases b) force
  next
    fix a :: "bytes \<times> nat \<times> SSHDirectClient" and u
    assume "?I a u"
    then show "?Q (case a of (_, sent, d) \<Rightarrow> (sent, d)) u" by (cases a) (simp add: part_written_def)
  qed
  then show ?thesis by simp
qed

section \<open>Stopping\<close>

lemma stopTurn_heap:
  assumes n: "net_heap N heap" "ssh_heap S heap" and a: "heap w = Some L" "c \<in> L"
  shows "stopTurn N S c a w = Some (Inl a', w') \<Longrightarrow> heap w' = Some L \<and> dc_channel (snd a') = dc_channel (snd a) \<and> dc_session (snd a') = dc_session (snd a)"
    and "stopTurn N S c a w = Some (Inr b, w') \<Longrightarrow> heap w' = Some (L - {c}) \<and> fst b"
proof -
  obtain closed d where ad: "a = (closed, d)" by (rule prod.exhaust)
  obtain locked w1 where l: "s_lock N 100 w = (locked, w1)" by (metis prod.exhaust)
  have h1: "heap w1 = Some L" using heap_neutral(14) [OF n(1), of 100 w] l a(1) by simp
  obtain rc w2 where r: "ch_close N c w1 = (rc, w2)" by (metis prod.exhaust)
  have h2: "heap w2 = Some L" using heap_channel(2) [OF n(1) h1 a(2)] r by simp
  have f: "heap (snd (ch_free N c u)) = Some (if fst (ch_free N c u) = LIBSSH2_ERROR_EAGAIN then L else L - {c})"
    if "heap u = Some L" for u by (rule heap_channel(7) [OF n(1) that a(2)])
  note s = heap_neutral(3) [OF n(1)] ssh_neutral(4) [OF n(2)]
  show "heap w' = Some L \<and> dc_channel (snd a') = dc_channel (snd a) \<and> dc_session (snd a') = dc_session (snd a)"
    if "stopTurn N S c a w = Some (Inl a', w')"
    using that h1 h2 f [OF h1] f [OF h2]
    by (auto simp: ad stopTurn_def l r s Let_def case_prod_beta split: if_splits)
  show "heap w' = Some (L - {c}) \<and> fst b" if "stopTurn N S c a w = Some (Inr b, w')"
    using that h1 h2 f [OF h1] f [OF h2]
    by (auto simp: ad stopTurn_def l r s Let_def case_prod_beta split: if_splits)
qed

text \<open>
  Stopping a client of a live session frees its channel exactly once.  If it succeeds, the channel and no other is
  freed and the client has forgotten it; if the time is up, the channel is still allocated and still the client's,
  whatever answers libssh2 gave, so that a later stop can go on.
\<close>

theorem direct_stop_frees_once:
  assumes "net_heap N heap" "ssh_heap S heap" "heap w = Some L" "c \<in> L" "dc_session d" "dc_channel d = Some c"
    and "isConnectedSession s" "stopClient N S fuel s timeoutMs d w = Some (ok, d', w')"
  shows "if ok then heap w' = Some (L - {c}) \<and> dc_channel d' = None
    else heap w' = Some L \<and> dc_session d' \<and> dc_channel d' = Some c \<and> dc_lastError d' = LIBSSH2_ERROR_EAGAIN"
proof -
  let ?d = "d\<lparr>dc_stopCloseEagain := 0, dc_stopFreeEagain := 0, dc_stopDuration := 0, dc_stopCloseResult := 0, dc_stopFreeResult := 0\<rparr>"
  obtain start w1 where m: "millis N w = (start, w1)" by (metis prod.exhaust)
  have h1: "heap w1 = Some L" using heap_neutral(1) [OF assms(1), of w] m assms(3) by simp
  let ?loop = "deadline_loop N fuel timeoutMs (start + timeoutMs) (\<lambda>_. True) (\<lambda>(_, d). (False, d)) (stopTurn N S c) (False, ?d) w1"
  obtain freed d1 w2 where l: "?loop = Some ((freed, d1), w2)"
    using assms(5-8) by (auto simp: stopClient_def m Let_def split: option.splits)
  let ?I = "\<lambda>a u. heap u = Some L \<and> dc_channel (snd a) = Some c \<and> dc_session (snd a)"
  let ?Q = "\<lambda>r u. if fst r then heap u = Some (L - {c}) else heap u = Some L \<and> dc_channel (snd r) = Some c \<and> dc_session (snd r)"
  have q: "?Q (freed, d1) w2"
  proof (rule deadline_loop_inv [OF l, where I = ?I and Q = ?Q])
    show "?I (False, ?d) w1" using h1 assms(5,6) by simp
  next
    fix a :: "bool \<times> SSHDirectClient" and u assume "?I a u"
    then show "?I a (snd (millis N u))" by (simp add: heap_neutral [OF assms(1)])
  next
    fix a :: "bool \<times> SSHDirectClient" and u a' u' assume "?I a u" "stopTurn N S c a u = Some (Inl a', u')"
    then show "?I a' u'" using stopTurn_heap(1) [OF assms(1,2) _ assms(4), of u a a' u'] by auto
  next
    fix a :: "bool \<times> SSHDirectClient" and u b u' assume "?I a u" "stopTurn N S c a u = Some (Inr b, u')"
    then show "?Q b u'" using stopTurn_heap(2) [OF assms(1,2) _ assms(4), of u a b u'] by auto
  next
    fix a :: "bool \<times> SSHDirectClient" and u assume "?I a u"
    then show "?Q (case a of (_, d) \<Rightarrow> (False, d)) u" by (cases a) simp
  qed
  have w: "heap (snd (millis N w2)) = heap w2" by (rule heap_neutral(1) [OF assms(1)])
  show ?thesis
    using assms(5-8) q w by (auto simp: stopClient_def m l Let_def case_prod_beta clearClient_def split: if_splits)
qed

section \<open>Returning\<close>

text \<open>
  A clock of milliseconds: no call turns it back or takes longer than \<open>2 ^ 24\<close> of them, more than four hours, and
  a \<open>delay\<close> of up to a second waits at least as long as it says.
\<close>

definition passes :: "('w \<Rightarrow> nat) \<Rightarrow> 'w \<Rightarrow> 'w \<Rightarrow> bool" where
  "passes clk w w' \<longleftrightarrow> clk w \<le> clk w' \<and> clk w' \<le> clk w + 2 ^ 24"

definition clocked :: "('r, 'w) Net \<Rightarrow> 'w Ssh \<Rightarrow> ('w \<Rightarrow> nat) \<Rightarrow> bool" where
  "clocked N S clk \<longleftrightarrow>
     (\<forall>w. fst (millis N w) = of_nat (clk w) \<and> passes clk w (snd (millis N w)) \<and> passes clk w (s_unlock N w)) \<and>
     (\<forall>k w. passes clk w (snd (s_lock N k w)) \<and>
        (k \<le> 1000 \<longrightarrow> passes clk w (o_delay S k w) \<and> clk w + k \<le> clk (o_delay S k w))) \<and>
     (\<forall>c w. passes clk w (snd (ch_close N c w)) \<and> passes clk w (snd (ch_free N c w)) \<and>
        (\<forall>k. passes clk w (snd (ch_read N c k w))) \<and> (\<forall>d. passes clk w (snd (ch_write N c d w))))"

lemma clocked_pass:
  assumes "clocked N S clk"
  shows "fst (millis N w) = of_nat (clk w)" "passes clk w (snd (millis N w))" "passes clk w (s_unlock N w)"
    "passes clk w (snd (s_lock N k w))" "k \<le> 1000 \<Longrightarrow> passes clk w (o_delay S k w)"
    "k \<le> 1000 \<Longrightarrow> clk w + k \<le> clk (o_delay S k w)"
    "passes clk w (snd (ch_close N c w))" "passes clk w (snd (ch_free N c w))" "passes clk w (snd (ch_read N c k w))"
    "passes clk w (snd (ch_write N c d w))"
  using assms by (simp_all add: clocked_def)

lemma before_deadline:
  assumes "x < D + 2 ^ 31" "D \<le> x + 2 ^ 31"
  shows "sint (of_nat x - of_nat D :: u32) < 0 \<longleftrightarrow> x < D"
proof -
  have w: "of_nat x - of_nat D = (word_of_int (int x - int D) :: u32)" by simp
  have "sint (word_of_int (int x - int D) :: u32) = int x - int D"
    unfolding sint_sbintrunc' using assms by (intro signed_take_bit_int_eq_self) simp_all
  then show ?thesis unfolding w by simp
qed

text \<open>A turn that goes on has waited, or has less left to do, and has not taken too long.\<close>

definition timely ::
  "('w \<Rightarrow> nat) \<Rightarrow> nat \<Rightarrow> ('a \<Rightarrow> bool) \<Rightarrow> ('a \<Rightarrow> nat) \<Rightarrow> ('a \<Rightarrow> 'w \<Rightarrow> (('a + 'b) \<times> 'w) option) \<Rightarrow> bool" where
  "timely clk B goOn left turn \<longleftrightarrow>
     (\<forall>a w. goOn a \<longrightarrow> (case turn a w of None \<Rightarrow> False
        | Some (r, w') \<Rightarrow> clk w \<le> clk w' \<and> clk w' \<le> clk w + B \<and>
            (case r of Inl a' \<Rightarrow> left a' \<le> left a \<and> (clk w < clk w' \<or> left a' < left a) | Inr b \<Rightarrow> True)))"

lemma deadline_loop_returns:
  assumes c: "clocked N S clk" and t: "timely clk B goOn left turn" and B: "B \<le> 2 ^ 30" and T: "timeoutMs \<noteq> 0"
    and "clk w \<le> D + 2 ^ 24 + B" "D \<le> clk w + 2 ^ 31" "D - clk w + left a < fuel"
  shows "\<exists>b w'. deadline_loop N fuel timeoutMs (of_nat D) goOn expired turn a w = Some (b, w') \<and> clk w \<le> clk w' \<and>
    clk w' \<le> D + 2 ^ 25 + B"
  using assms(5-7)
proof (induction fuel arbitrary: a w)
  case (Suc fuel)
  obtain now w0 where m: "millis N w = (now, w0)" by (metis prod.exhaust)
  have now: "now = of_nat (clk w)" "clk w \<le> clk w0" "clk w0 \<le> clk w + 2 ^ 24"
    using clocked_pass(1,2) [OF c, of w] by (simp_all add: m passes_def)
  have go: "sint (now - of_nat D) < 0 \<longleftrightarrow> clk w < D"
    unfolding now(1) using Suc.prems(1,2) B by (intro before_deadline) simp_all
  show ?case
  proof (cases "goOn a \<and> clk w < D")
    case False
    then show ?thesis using T m go now Suc.prems(1) B by auto
  next
    case True
    then have "case turn a w0 of None \<Rightarrow> False
        | Some (r, w') \<Rightarrow> clk w0 \<le> clk w' \<and> clk w' \<le> clk w0 + B \<and>
            (case r of Inl a' \<Rightarrow> left a' \<le> left a \<and> (clk w0 < clk w' \<or> left a' < left a) | Inr b \<Rightarrow> True)"
      using t unfolding timely_def by blast
    then obtain r w1 where r: "turn a w0 = Some (r, w1)" "clk w0 \<le> clk w1" "clk w1 \<le> clk w0 + B"
      "case r of Inl a' \<Rightarrow> left a' \<le> left a \<and> (clk w0 < clk w1 \<or> left a' < left a) | Inr b \<Rightarrow> True"
      by (cases "turn a w0") auto
    show ?thesis
    proof (cases r)
      case (Inr b)
      then have "deadline_loop N (Suc fuel) timeoutMs (of_nat D) goOn expired turn a w = Some (b, w1)"
        using True T m go r(1) by simp
      then show ?thesis using r(2,3) now True by auto
    next
      case (Inl a')
      then have "deadline_loop N (Suc fuel) timeoutMs (of_nat D) goOn expired turn a w =
          deadline_loop N fuel timeoutMs (of_nat D) goOn expired turn a' w1"
        using True T m go r(1) by simp
      moreover have "D - clk w1 + left a' < fuel" using Inl r(2,4) now(2) True Suc.prems(3) by auto
      ultimately show ?thesis using Suc.IH [of w1 a'] r(2,3) now(2,3) True Suc.prems(2) by fastforce
    qed
  qed
qed simp

lemma stopTurn_timely:
  assumes c: "clocked N S clk"
  shows "timely clk (5 * 2 ^ 24) (\<lambda>_. True) (\<lambda>_. 0) (stopTurn N S ch)"
proof -
  note p = clocked_pass [OF c, unfolded passes_def]
  show ?thesis unfolding timely_def
  proof (intro allI impI)
    fix a :: "bool \<times> SSHDirectClient" and w
    obtain closed d where a: "a = (closed, d)" by (rule prod.exhaust)
    obtain locked w1 where l: "s_lock N 100 w = (locked, w1)" by (metis prod.exhaust)
    obtain rc w2 where r: "ch_close N ch w1 = (rc, w2)" by (metis prod.exhaust)
    note q = p(4) [of w 100, unfolded l] p(7) [of w1 ch, unfolded r] p(5,6) [where k = 5 and w = w1]
      p(3) [of w2] p(5,6) [where k = 5 and w = "s_unlock N w2"]
    obtain rf w3 where f: "ch_free N ch (if closed then w1 else w2) = (rf, w3)" by (metis prod.exhaust)
    note f' = p(8) [of "if closed then w1 else w2" ch, unfolded f] p(3) [of w3] p(5,6) [where k = 5 and w = "s_unlock N w3"]
    show "case stopTurn N S ch a w of None \<Rightarrow> False
      | Some (r, w') \<Rightarrow> clk w \<le> clk w' \<and> clk w' \<le> clk w + 5 * 2 ^ 24 \<and>
          (case r of Inl _ \<Rightarrow> (0 :: nat) \<le> 0 \<and> (clk w < clk w' \<or> (0 :: nat) < 0) | Inr _ \<Rightarrow> True)"
      using q f f' by (cases closed) (auto simp: a stopTurn_def l r Let_def)
  qed
qed

lemma writeTurn_timely:
  assumes c: "clocked N S clk"
  shows "timely clk (4 * 2 ^ 24) (\<lambda>(rest, _). rest \<noteq> []) (\<lambda>(rest, _). length rest) (writeTurn N S ch)"
proof -
  note p = clocked_pass [OF c, unfolded passes_def]
  show ?thesis unfolding timely_def
  proof (intro allI impI)
    fix a :: "bytes \<times> nat \<times> SSHDirectClient" and w
    obtain rest sent d where a: "a = (rest, sent, d)" by (rule prod_cases3)
    assume "case a of (rest, _) \<Rightarrow> rest \<noteq> []"
    then have ne: "rest \<noteq> []" by (simp add: a)
    obtain locked w1 where l: "s_lock N 50 w = (locked, w1)" by (metis prod.exhaust)
    obtain rc w2 where r: "ch_write N ch rest w1 = (rc, w2)" by (metis prod.exhaust)
    note q = p(4) [of w 50, unfolded l] p(10) [of w1 ch rest, unfolded r] p(5,6) [where k = 2 and w = w1]
      p(3) [of w2] p(5,6) [where k = 5 and w = "s_unlock N w2"]
    show "case writeTurn N S ch a w of None \<Rightarrow> False
      | Some (r, w') \<Rightarrow> clk w \<le> clk w' \<and> clk w' \<le> clk w + 4 * 2 ^ 24 \<and>
          (case r of Inl a' \<Rightarrow> (case a' of (rest, _) \<Rightarrow> length rest) \<le> (case a of (rest, _) \<Rightarrow> length rest) \<and>
             (clk w < clk w' \<or> (case a' of (rest, _) \<Rightarrow> length rest) < (case a of (rest, _) \<Rightarrow> length rest)) | Inr b \<Rightarrow> True)"
      using q ne by (auto simp: a writeTurn_def l r)
  qed
qed

lemma readTurn_timely:
  assumes c: "clocked N S clk"
  shows "timely clk (4 * 2 ^ 24) (\<lambda>_. True) (\<lambda>_. 0) (readTurn N S ch len timeoutMs)"
proof -
  note p = clocked_pass [OF c, unfolded passes_def]
  show ?thesis unfolding timely_def
  proof (intro allI impI)
    fix d w
    obtain locked w1 where l: "s_lock N 50 w = (locked, w1)" by (metis prod.exhaust)
    obtain rc bs w2 where r: "ch_read N ch len w1 = ((rc, bs), w2)" by (metis prod.exhaust)
    note q = p(4) [of w 50, unfolded l] p(9) [of w1 ch len, unfolded r] p(5,6) [where k = 2 and w = w1]
      p(3) [of w2] p(5,6) [where k = 5 and w = "s_unlock N w2"]
    show "case readTurn N S ch len timeoutMs d w of None \<Rightarrow> False
      | Some (r, w') \<Rightarrow> clk w \<le> clk w' \<and> clk w' \<le> clk w + 4 * 2 ^ 24 \<and>
          (case r of Inl _ \<Rightarrow> (0 :: nat) \<le> 0 \<and> (clk w < clk w' \<or> (0 :: nat) < 0) | Inr _ \<Rightarrow> True)"
      using q by (auto simp: readTurn_def l r Let_def)
  qed
qed

text \<open>A loop that starts now.\<close>

lemma started_loop_returns:
  assumes c: "clocked N S clk" and t: "timely clk B goOn left turn" and B: "B \<le> 2 ^ 30"
    and T: "timeoutMs \<noteq> 0" "timeoutMs \<le> 2 ^ 31" and "unat timeoutMs + left a < fuel" and m: "millis N w = (now, w1)"
  shows "\<exists>b w'. deadline_loop N fuel timeoutMs (now + timeoutMs) goOn expired turn a w1 = Some (b, w') \<and> clk w \<le> clk w' \<and>
    clk w' \<le> clk w + unat timeoutMs + 2 ^ 25 + B"
proof -
  have p: "now = of_nat (clk w)" "clk w \<le> clk w1" "clk w1 \<le> clk w + 2 ^ 24"
    using clocked_pass(1,2) [OF c, of w] by (simp_all add: m passes_def)
  have u: "unat timeoutMs \<le> 2 ^ 31" using T(2) by (simp add: word_le_nat_alt)
  let ?D = "clk w + unat timeoutMs"
  have d: "now + timeoutMs = of_nat ?D" by (simp add: p(1))
  have "\<exists>b w'. deadline_loop N fuel timeoutMs (of_nat ?D) goOn expired turn a w1 = Some (b, w') \<and> clk w1 \<le> clk w' \<and>
      clk w' \<le> ?D + 2 ^ 25 + B"
    using p u assms(6) by (intro deadline_loop_returns [OF c t B T(1)]) simp_all
  then show ?thesis unfolding d using p(2) by fastforce
qed

lemma readByte_returns:
  assumes c: "clocked N S clk" and "50 < fuel"
  shows "\<exists>r d' w'. readByte N S fuel 50 d w = Some (r, d', w') \<and> clk w \<le> clk w' \<and> clk w' \<le> clk w + 2 ^ 28"
proof (cases "if dc_session d then dc_channel d else None")
  case None
  then show ?thesis by (simp add: readByte_def readClient_def)
next
  case (Some ch)
  obtain now w1 where m: "millis N w = (now, w1)" by (metis prod.exhaust)
  obtain b w' where "deadline_loop N fuel 50 (now + 50) (\<lambda>_. True) (\<lambda>d. ((0, []), d)) (readTurn N S ch 1 50) d w1 = Some (b, w')"
    "clk w \<le> clk w'" "clk w' \<le> clk w + unat (50 :: u32) + 2 ^ 25 + 4 * 2 ^ 24"
    using started_loop_returns [OF c readTurn_timely [OF c, of ch 1 50] _ _ _ _ m, where timeoutMs = 50 and a = d and fuel = fuel and
        expired = "\<lambda>d. ((0, []), d)"] assms(2)
    by fastforce
  then show ?thesis using Some by (cases b) (auto simp: readByte_def readClient_def m)
qed

lemma lineTurn_timely:
  assumes c: "clocked N S clk" and "50 < fuel"
  shows "timely clk (2 ^ 29) (\<lambda>_. True) (\<lambda>_. 0) (lineTurn N S fuel)"
proof -
  show ?thesis unfolding timely_def
  proof (intro allI impI)
    fix a :: "string \<times> SSHDirectClient" and w
    obtain out d where a: "a = (out, d)" by (rule prod.exhaust)
    obtain r d' w' where b: "readByte N S fuel 50 d w = Some (r, d', w')" "clk w \<le> clk w'" "clk w' \<le> clk w + 2 ^ 28"
      using readByte_returns [OF assms] by blast
    note q = clocked_pass(5,6) [OF c, unfolded passes_def, where k = 1 and w = w']
    show "case lineTurn N S fuel a w of None \<Rightarrow> False
      | Some (r, w') \<Rightarrow> clk w \<le> clk w' \<and> clk w' \<le> clk w + 2 ^ 29 \<and>
          (case r of Inl _ \<Rightarrow> (0 :: nat) \<le> 0 \<and> (clk w < clk w' \<or> (0 :: nat) < 0) | Inr _ \<Rightarrow> True)"
      using b q by (auto simp: a lineTurn_def)
  qed
qed

text \<open>
  C35.  Every call on such a channel returns.  If the clock runs and no single call takes more than four hours, then
  writing, reading, reading a line and stopping with a timeout end, after at most one turn per millisecond and per
  byte to write, however often the lock is refused or libssh2 asks to try again; the wrap-around of the clock during
  the call does no harm.
\<close>

theorem direct_calls_return:
  assumes "clocked N S clk" "timeoutMs \<noteq> 0" "timeoutMs \<le> 2 ^ 31" "unat timeoutMs + length bs + 50 < fuel"
  shows "writeClient N S fuel (Some bs) timeoutMs d w \<noteq> None \<and> readClient N S fuel len timeoutMs d w \<noteq> None \<and>
    readLine N S fuel timeoutMs d w \<noteq> None \<and> stopClient N S fuel s timeoutMs d w \<noteq> None"
proof -
  obtain now w1 where m: "millis N w = (now, w1)" by (metis prod.exhaust)
  note r = started_loop_returns [OF assms(1) _ _ assms(2,3) _ m]
  have l: "deadline_loop N fuel timeoutMs (now + timeoutMs) goOn expired turn a w1 \<noteq> None"
    if "timely clk B goOn left turn" "B \<le> 2 ^ 30" "left a \<le> length bs"
    for B goOn left and expired :: "'c \<Rightarrow> 'd" and turn a
    using r [OF that(1,2), of a fuel expired] that(3) assms(4) by auto
  have wr: "writeClient N S fuel (Some bs) timeoutMs d w \<noteq> None"
    by (auto simp: writeClient_def m l [OF writeTurn_timely [OF assms(1)]] simp del: not_None_eq split: option.split)
  have rd: "readClient N S fuel len timeoutMs d w \<noteq> None"
    by (auto simp: readClient_def m l [OF readTurn_timely [OF assms(1)]] simp del: not_None_eq split: option.split)
  have "50 < fuel" using assms(4) by simp
  then have ln: "readLine N S fuel timeoutMs d w \<noteq> None"
    by (auto simp: readLine_def m l [OF lineTurn_timely [OF assms(1) _]] simp del: not_None_eq)
  have st: "stopClient N S fuel s timeoutMs d w \<noteq> None"
    by (auto simp: stopClient_def m Let_def l [OF stopTurn_timely [OF assms(1)]] simp del: not_None_eq split: option.split prod.split)
  show ?thesis using wr rd ln st by simp
qed

end
