(* ===== verification/Direct_Witness.thy ===== *)
theory Direct_Witness
  imports Direct_Safety Session_Witness
begin

text \<open>
  The theorems about the channels to a host at concrete outsides, and what happens to such a channel when the tunnel
  connects again.
\<close>

section \<open>A desk: a clock and what was written\<close>

definition deskNet :: "(ring, nat \<times> bytes) Net" where
  "deskNet = \<lparr>
     millis = \<lambda>w. (of_nat (fst w), w), n_socket = \<lambda>w. (3, w), n_inet_pton = \<lambda>h. True, n_getfl = \<lambda>fd w. (0, w),
     n_setfl = \<lambda>fd fl w. (0, w), n_connect = \<lambda>fd a p w. ((0, False), w), n_select = \<lambda>fd w. ((1, True), w),
     n_sockerr = \<lambda>fd w. ((0, 0), w), n_optimize = \<lambda>fd w. w, n_close = \<lambda>fd w. w,
     n_send = \<lambda>fd xs w. ((int (length xs), False), w), n_recv = \<lambda>fd k w. ((0, [], False), w), n_shutdown = \<lambda>fd w. w,
     ch_close = \<lambda>c w. (LIBSSH2_ERROR_EAGAIN, w), ch_free = \<lambda>c w. (0, w), ch_set_nonblocking = \<lambda>c w. w,
     ch_read = \<lambda>c k w. ((LIBSSH2_ERROR_EAGAIN, []), w),
     ch_write = \<lambda>c xs (t, ys). (int (length (take 2 xs)), (t, ys @ take 2 xs)),
     ch_eof = \<lambda>c w. (False, w), ch_send_eof = \<lambda>c w. (0, w), s_lock = \<lambda>k w. (True, w), s_unlock = \<lambda>w. w,
     h_largest_psram = \<lambda>w. 0, h_largest_heap = \<lambda>w. 0, r_create = \<lambda>n w. ((None, None), w)\<rparr>"

definition deskSsh :: "(nat \<times> bytes) Ssh" where
  "deskSsh = \<lparr>
     o_optimize = \<lambda>fd w. w, o_inet_pton = \<lambda>h. None, o_getaddrinfo = \<lambda>h w. (None, w), o_connect = \<lambda>fd a p w. (0, w),
     o_delay = \<lambda>k (t, ys). (t + min k 1000, ys), x_init = \<lambda>w. (None, w), x_handshake = \<lambda>x fd w. (0, w), x_disconnect = \<lambda>x w. w,
     x_free = \<lambda>x w. w, x_set_nonblocking = \<lambda>x w. w, x_keepalive_config = \<lambda>x k w. w, x_keepalive_send = \<lambda>x w. (0, w),
     x_hostkey = \<lambda>x w. (None, w), x_userauth_list = \<lambda>x u w. (None, w), x_userauth_password = \<lambda>x u p w. (0, w),
     x_userauth_frommemory = \<lambda>x u pub priv ph w. (0, w), x_userauth_fromfile = \<lambda>x u f g p w. (0, w),
     x_forward_listen = \<lambda>x h p k w. (None, w), x_forward_cancel = \<lambda>l w. w, x_forward_accept = \<lambda>l w. (None, w),
     x_direct_tcpip = \<lambda>x h p h2 p2 w. (None, w), x_last_errno = \<lambda>x w. 0, o_stats_lock = \<lambda>w. (True, w)\<rparr>"

definition attached :: "nat \<Rightarrow> SSHDirectClient" where
  "attached c = newDirectClient\<lparr>dc_session := True, dc_channel := Some c\<rparr>"

lemma desk_calls:
  "millis deskNet w = (of_nat (fst w), w)" "s_lock deskNet k w = (True, w)" "s_unlock deskNet w = w"
  "ch_write deskNet c xs (t, ys) = (int (length (take 2 xs)), (t, ys @ take 2 xs))"
  by (simp_all add: deskNet_def)

lemma desk_honest: "honest_writes deskNet deskSsh (\<lambda>w c. snd w)"
  by (auto simp: honest_writes_def deskNet_def deskSsh_def min_def)

lemma desk_clocked: "clocked deskNet deskSsh fst"
  by (auto simp: clocked_def passes_def deskNet_def deskSsh_def)

theorem direct_write_is_prefix_witness:
  "\<exists>d'. writeClient deskNet deskSsh (Suc (Suc (Suc 0))) (Some [1, 2, 3]) 5000 (attached 7) (0, []) = Some (3, d', (0, [1, 2, 3])) \<and>
     dc_channel d' = Some 7"
proof -
  have a: "dc_session (attached 7)" "dc_channel (attached 7) = Some 7" by (simp_all add: attached_def)
  have "\<exists>d' ys. writeClient deskNet deskSsh (Suc (Suc (Suc 0))) (Some [1, 2, 3]) 5000 (attached 7) (0, []) = Some (3, d', (0, ys))"
    by (simp add: writeClient_def a desk_calls writeTurn_def)
  then obtain d' ys where r: "writeClient deskNet deskSsh (Suc (Suc (Suc 0))) (Some [1, 2, 3]) 5000 (attached 7) (0, []) = Some (3, d', (0, ys))"
    by blast
  show ?thesis using direct_write_is_prefix [OF desk_honest a r] r by simp
qed

theorem direct_stop_frees_once_witness:
  "\<exists>d'. stopClient libNet libSsh (Suc 0) (newSession\<lparr>session := Some 2, socketfd := 3\<rparr>) 5000 (attached 7) (Some [7, 8]) =
     Some (True, d', Some [8]) \<and> dc_channel d' = None"
proof -
  let ?s = "newSession\<lparr>session := Some 2, socketfd := 3\<rparr>"
  have a: "dc_session (attached 7)" "dc_channel (attached 7) = Some 7" by (simp_all add: attached_def)
  have s: "isConnectedSession ?s" by (simp add: isConnectedSession_def)
  have h: "libHeap (Some [7, 8]) = Some {7, 8}" by simp
  have "\<exists>d'. stopClient libNet libSsh (Suc 0) ?s 5000 (attached 7) (Some [7, 8]) = Some (True, d', Some [8])"
    by (simp add: stopClient_def a s libNet_def libSsh_def stopTurn_def onChannel_def freeChannel_def LIBSSH2_ERROR_EAGAIN_def Let_def
        clearClient_def)
  then obtain d' where r: "stopClient libNet libSsh (Suc 0) ?s 5000 (attached 7) (Some [7, 8]) = Some (True, d', Some [8])" by blast
  show ?thesis using direct_stop_frees_once [OF libNet_heap libSsh_heap h _ a s r] r by auto
qed

theorem direct_calls_return_witness:
  "readLine deskNet deskSsh 200 100 (attached 7) (0, []) \<noteq> None \<and>
   stopClient deskNet deskSsh 200 (newSession\<lparr>session := Some 2, socketfd := 3\<rparr>) 100 (attached 7) (0, []) \<noteq> None"
  using direct_calls_return [OF desk_clocked, of 100 "[1, 2, 3]" 200 "attached 7" "(0, [])" 1 "newSession\<lparr>session := Some 2, socketfd := 3\<rparr>"]
  by (simp add: word_le_nat_alt)

section \<open>A channel that outlives its session\<close>

text \<open>
  The tunnel set up and connected, with a client attached to a new channel; then disconnected, which frees every
  channel of the session, and connected again.
\<close>

abbreviation upTunnel :: "(ring, nat list option) SSHTunnel" where
  "upTunnel \<equiv> snd (connectSSH libNet libSsh demoConfiguration
     (snd (initTunnel libNet demoConfiguration True True True True True emptyTunnel)))"

lemma lib_calls:
  "millis libNet w = (1000, w)" "s_lock libNet k w = (True, w)" "s_unlock libNet w = w" "n_close libNet fd w = w"
  "x_direct_tcpip libSsh x h p h2 p2 w = newChannel w" "ch_set_nonblocking libNet = onChannel" "x_disconnect libSsh x w = w"
  "x_free libSsh x w = map_option (\<lambda>_. []) w"
  by (simp_all add: libNet_def libSsh_def)

lemma up_connects:
  assumes "session (sshSession t) = None" "listeners (sshSession t) = []" "tunnelState t \<noteq> TUNNEL_CONNECTED"
  shows "isConnectedTunnel (snd (connectSSH libNet libSsh demoConfiguration t))"
    and "net (mgr (snd (connectSSH libNet libSsh demoConfiguration t))) = net (mgr t)"
proof -
  obtain s' where "connectSession libNet libSsh demoConfiguration (sshSession t, net (mgr t)) = (True, s', net (mgr t))"
    "isConnectedSession s'" using demo_connection [OF assms(1,2)] by blast
  then show "isConnectedTunnel (snd (connectSSH libNet libSsh demoConfiguration t))"
    and "net (mgr (snd (connectSSH libNet libSsh demoConfiguration t))) = net (mgr t)"
    using assms(3) by (simp_all add: connectSSH_def fromSession_def call_def fromManager_def ask_def lib_calls isConnectedTunnel_def
        emitEvent_def run_def onManager_def onPump_def onMgr_def act_def)
qed

text \<open>A tunnel without channels of its own, when it disconnects.\<close>

lemma fold_idle: "(\<And>i. i \<in> set xs \<Longrightarrow> f i t = t) \<Longrightarrow> fold f xs t = t"
  by (induction xs) simp_all

lemma closeAllSlots_unused:
  assumes "slots (mgr t) = replicate k newSlot"
  shows "closeAllSlots libNet locked reason (t :: (ring, nat list option) SSHTunnel) = (if locked then run (s_unlock libNet) t else t)"
    and "abandonAll libNet t = t"
proof -
  have "closeOneSlot libNet locked reason i t = t" "onManager (abandonSlot libNet i) t = t" if "i < k" for i
    using assms that by (simp_all add: closeOneSlot_def onManager_def onPump_def onMgr_def abandonSlot_def newSlot_def)
  then have "fold (closeOneSlot libNet locked reason) [0..<k] t = t" "fold (\<lambda>i. onManager (abandonSlot libNet i)) [0..<k] t = t"
    by (auto intro!: fold_idle)
  then show "closeAllSlots libNet locked reason t = (if locked then run (s_unlock libNet) t else t)" "abandonAll libNet t = t"
    using assms by (simp_all add: closeAllSlots_def abandonAll_def maxSlots_def)
qed

lemma disconnectSession_frees:
  assumes "session s = Some x"
  shows "\<exists>s'. disconnectSession libNet libSsh (s, Some L) = (s', Some []) \<and> session s' = None \<and> listeners s' = []"
proof -
  have "fold (\<lambda>e w. snd (cancelListener libNet libSsh e w)) es w = w" for es w
    by (rule fold_idle) (simp add: cancelListener_def libNet_def libSsh_def split: option.split)
  then have c: "cancelAllListeners libNet libSsh (s, w) = (s\<lparr>listeners := [], boundPort := - 1\<rparr>, w)" for s w
    by (simp add: cancelAllListeners_def)
  show ?thesis using assms
    by (simp add: disconnectSession_def cleanupSession_def c freeSession_def lib_calls resetAcceptState_def Let_def)
qed

lemma disconnect_unused:
  fixes t :: "(ring, nat list option) SSHTunnel"
  assumes "slots (mgr t) = replicate k newSlot" "pendingQueue t = []" "deferredCloseQueue t = []" "isConnectedSession (sshSession t)"
    and "net (mgr t) = Some L"
  shows "session (sshSession (disconnectTunnel libNet libSsh t)) = None \<and> listeners (sshSession (disconnectTunnel libNet libSsh t)) = [] \<and>
    tunnelState (disconnectTunnel libNet libSsh t) = TUNNEL_DISCONNECTED \<and> net (mgr (disconnectTunnel libNet libSsh t)) = Some []"
proof -
  obtain x where "session (sshSession t) = Some x" using assms(4) by (auto simp: isConnectedSession_def)
  then obtain s' where s': "disconnectSession libNet libSsh (sshSession t, Some L) = (s', Some [])" "session s' = None" "listeners s' = []"
    using disconnectSession_frees by blast
  have l: "call (s_lock libNet k) u = (True, u)" "run (s_unlock libNet) u = u" for k u
    by (simp_all add: call_def fromManager_def ask_def run_def onManager_def onPump_def onMgr_def act_def lib_calls)
  have os: "onSession (disconnectSession libNet libSsh) t = run (\<lambda>_. Some []) (t\<lparr>sshSession := s'\<rparr>)"
    using s'(1) assms(5) by (simp add: onSession_def)
  have a: "abandonAll libNet (run (\<lambda>_. Some []) (t\<lparr>sshSession := s'\<rparr>)) = run (\<lambda>_. Some []) (t\<lparr>sshSession := s'\<rparr>)"
    by (rule closeAllSlots_unused(2) [of _ k]) (simp add: assms(1) run_def onManager_def onPump_def onMgr_def act_def)
  have "disconnectTunnel libNet libSsh t =
      (let t3 = forgetQueues (run (\<lambda>_. Some []) (t\<lparr>sshSession := s'\<rparr>));
           t4 = (if tunnelState t3 = TUNNEL_CONNECTED then emitEvent SessionDisconnected t3 else t3)
       in t4\<lparr>socketHealthFailures := 0, tunnelState := TUNNEL_DISCONNECTED\<rparr>)"
    using assms(2-4) by (simp add: disconnectTunnel_def clearPendingQueue_def clearDeferredCloseQueue_def l
        closeAllSlots_unused(1) [OF assms(1)] dropSession_def os a)
  then show ?thesis
    using s' by (simp add: Let_def forgetQueues_def emitEvent_def run_def onManager_def onPump_def onMgr_def act_def)
qed

lemma init_unused:
  "slots (mgr (snd (initTunnel libNet demoConfiguration True True True True True emptyTunnel))) = replicate 10 newSlot"
  by (simp add: initTunnel_def initChannels_def emptyTunnel_def demoConfiguration_def newConfiguration_def defaultConnection_def
      initSession_def newSession_def fromManager_def onManager_def onPump_def onMgr_def)

text \<open>
  A direct channel outlives its session.  The client is not told when the tunnel disconnects, and asks only whether the
  session object is connected; once the tunnel is connected again it takes the old channel for a live one, and its next
  read passes a freed channel to libssh2.
\<close>

theorem direct_client_outlives_session:
  "case openDirectTunnel libNet libSsh (Suc 0) newDirectClient ''host'' 22 [] 0 5000 upTunnel of
     None \<Rightarrow> False
   | Some (ok, d, t) \<Rightarrow> ok \<and>
       (case snd (connectSSH libNet libSsh demoConfiguration (disconnectTunnel libNet libSsh t)) of t' \<Rightarrow>
          isConnectedTunnel t' \<and> net (mgr t') = Some [] \<and>
          (\<exists>r d'. readClient libNet libSsh (Suc 0) 1 0 d (net (mgr t')) = Some (r, d', None)))"
proof -
  let ?t0 = "snd (initTunnel libNet demoConfiguration True True True True True emptyTunnel)"
  have t0: "session (sshSession ?t0) = None" "listeners (sshSession ?t0) = []" "tunnelState ?t0 \<noteq> TUNNEL_CONNECTED"
    "net (mgr ?t0) = Some []" "pendingQueue ?t0 = []" "deferredCloseQueue ?t0 = []"
    by (simp_all add: initTunnel_def initChannels_def emptyTunnel_def demoConfiguration_def newConfiguration_def
        defaultConnection_def initSession_def newSession_def fromManager_def onManager_def onPump_def onMgr_def)
  note up = up_connects [OF t0(1-3)]
  have same: "slots (mgr upTunnel) = slots (mgr ?t0)" "pendingQueue upTunnel = []" "deferredCloseQueue upTunnel = []"
    using t0(5,6) by (simp_all add: connectSSH_def case_prod_beta fromSession_def call_def fromManager_def ask_def emitEvent_def run_def
        onManager_def onPump_def onMgr_def act_def)
  obtain x where x: "session (sshSession upTunnel) = Some x" "\<not> socketfd (sshSession upTunnel) < 0"
    using up(1) by (auto simp: isConnectedTunnel_def isConnectedSession_def)
  define d where "d = (clearClient newDirectClient)\<lparr>dc_session := True, dc_channel := Some 1, dc_eof := False, dc_lastError := 0\<rparr>"
  have o: "openDirectSession libNet libSsh (Suc 0) ''host'' 22 [] 0 5000 (sshSession upTunnel) (Some []) = Some (Some 1, Some [1])"
    using x by (simp add: openDirectSession_def cstr_def lib_calls newChannel_def onChannel_def)
  have at: "attachClient libNet libSsh (Suc 0) s (Some 1) newDirectClient w = Some (True, d, w)" for s w
    by (simp add: attachClient_def stopClient_def newDirectClient_def d_def clearClient_def)
  let ?t = "run (\<lambda>_. Some [1]) upTunnel"
  have op: "openDirectTunnel libNet libSsh (Suc 0) newDirectClient ''host'' 22 [] 0 5000 upTunnel = Some (True, d, ?t)"
    using up t0(4) by (simp add: openDirectTunnel_def o at [unfolded One_nat_def])
  let ?u = "disconnectTunnel libNet libSsh ?t"
  have t: "slots (mgr ?t) = replicate 10 newSlot" "pendingQueue ?t = []" "deferredCloseQueue ?t = []" "net (mgr ?t) = Some [1]"
    "sshSession ?t = sshSession upTunnel"
    using same init_unused by (simp_all add: run_def onManager_def onPump_def onMgr_def act_def)
  have "isConnectedSession (sshSession ?t)" using up(1) t(5) by (simp add: isConnectedTunnel_def)
  then have u: "session (sshSession ?u) = None" "listeners (sshSession ?u) = []" "tunnelState ?u \<noteq> TUNNEL_CONNECTED" "net (mgr ?u) = Some []"
    using disconnect_unused [OF t(1-3) _ t(4)] by simp_all
  have rd: "\<exists>r d'. readClient libNet libSsh (Suc 0) 1 0 d (Some []) = Some (r, d', None)"
    by (simp add: readClient_def d_def readTurn_def libNet_def onChannel_def Let_def LIBSSH2_ERROR_EAGAIN_def)
  show ?thesis using up_connects [OF u(1-3)] u(4) rd by (simp add: op)
qed

end
