(* ===== verification/Loop_Safety.thy ===== *)
theory Loop_Safety
  imports Lock_Pulse
begin

text \<open>
  What the passes of \<open>loop\<close> guarantee as they are written: which input of a pass can open a door, how
  long a lock stays up over any number of passes, and that a queued web request is carried out.
\<close>

section \<open>What every stage of a pass keeps\<close>

text \<open>
  The wiring of the doors, and the timer in slot \<open>i\<close> while it is active: no stage cancels a timer or
  takes its slot.
\<close>

definition steady :: "nat \<Rightarrow> 'n Firmware \<Rightarrow> 'n Firmware \<Rightarrow> bool" where
  "steady i b b' \<longleftrightarrow> length (timers b') = length (timers b) \<and> (active (timers b ! i) \<longrightarrow> timers b' ! i = timers b ! i) \<and>
     doorPins (gpio b') = doorPins (gpio b) \<and> ambientPin (gpio b') = ambientPin (gpio b) \<and>
     (switchUnused (others b) \<longrightarrow> switchUnused (others b'))"

lemma steady_refl: "steady i b b"
  by (simp add: steady_def)

lemma steady_trans: "steady i a b \<Longrightarrow> steady i b c \<Longrightarrow> steady i a c"
  by (simp add: steady_def)

lemma sameDoors_doorPins: "sameDoors g g' \<Longrightarrow> doorPins g' = doorPins g"
  by (simp add: fun_eq_iff sameDoors_pins)

lemma sameDoors_ambient: "sameDoors g g' \<Longrightarrow> ambientPin g' = ambientPin g"
  by (simp add: sameDoors_def)

lemma steady_only: "onlyPeripherals b b' \<Longrightarrow> steady i b b'"
  by (simp add: steady_def onlyPeripherals_def)

lemma steady_tame: "tame b b' \<Longrightarrow> steady i b b'"
  using sameDoors_ambient by (auto simp: steady_def tame_def sameDoors_doorPins)

lemma scheduleOnce_keeps:
  "length (snd (scheduleOnce tm t d act a)) = length tm"
  "active (tm ! i) \<Longrightarrow> snd (scheduleOnce tm t d act a) ! i = tm ! i"
  using findFreeSlot_Some [of tm] by (auto simp: scheduleOnce_def nth_list_update split: option.split)

lemma onEnter_timers:
  "timers (onEnter p e now b) =
     (if state (ctx b) = Opening \<and> doorToOpen (ctx b) \<noteq> DOOR_UNKNOWN \<and> doorPins (gpio b) (doorToOpen (ctx b)) \<noteq> {}
      then snd (scheduleOnce (timers b) (scheduleMillis e) DOOR_DELAY LOCK_DEACTIVATE (Some (dec_digits (unat (doorToOpen (ctx b))))))
      else timers b)"
  by (auto simp: onEnter_def box_defs onEnterOpening_def onEnterOpen_def openDoor_eq split: BoxState.split prod.split)

lemma moveTo_timers_eq:
  "timers (moveTo p e new now b) =
     (if new = Opening \<and> doorToOpen (ctx b) \<noteq> DOOR_UNKNOWN \<and> doorPins (gpio b) (doorToOpen (ctx b)) \<noteq> {}
      then snd (scheduleOnce (timers b) (scheduleMillis e) DOOR_DELAY LOCK_DEACTIVATE (Some (dec_digits (unat (doorToOpen (ctx b))))))
      else timers b)"
  by (simp add: moveTo_def scheduleNextDisplayRefresh_def onEnter_timers sameDoors_pins [OF onExit_doors])

lemma moveTo_steady: "steady i b (moveTo p e new now b)"
  using moveTo_doors [of b p e new now]
  by (auto simp: steady_def moveTo_timers_eq scheduleOnce_keeps sameDoors_doorPins moveTo_sel dest: sameDoors_ambient)

lemma performs_steady:
  fixes b :: "'n Firmware"
  assumes "performs p (stateCallback p) e now t b b'" and "switchUnused (others b)"
  shows "steady i b b'"
proof (cases "no_move t b b'")
  case True
  then show ?thesis by (auto simp: no_move.simps sameWorld_def steady_def)
next
  case False
  then obtain s b1 where tb: "table e now t b s b1" and b': "b' = transitionTo p (stateCallback p) e s now b1"
    using assms(1) by (auto simp: performs_def)
  have w: "steady i b b1" using table_world [OF tb] by (simp add: sameWorld_def steady_def)
  show ?thesis
  proof (cases "s = state (ctx b)")
    case True
    then show ?thesis using box.same_state_move [OF tb] w b' by simp
  next
    case ne: False
    have "steady i (moveTo p e s now b1) b'"
      using box.quiet_move [OF tb assms(2) ne, of p] box.performs_ok [OF assms]
      by (auto simp: b' steady_def quiet_def sameDoors_doorPins dest: sameDoors_ambient)
    then show ?thesis by (rule steady_trans [OF steady_trans [OF w moveTo_steady]])
  qed
qed

lemma processEvent_steady: "switchUnused (others b) \<Longrightarrow> steady i b (processEvent p (stateCallback p) e ev b)"
  by (rule performs_steady [OF processEvent_performs])

lemma updateMachine_steady:
  assumes "switchUnused (others b)"
  shows "steady i b (updateMachine p (stateCallback p) e now b)"
proof -
  have "steady i b (updateFlags now b)" using updateFlags_world(1) [of b now] by (simp add: sameWorld_def steady_def)
  then show ?thesis
    by (rule steady_trans [OF _ performs_steady [OF box.updateMachine_performs box.updateFlags_ok [OF assms]]])
qed

text \<open>The contacts: polling them changes neither the wiring nor a pin.\<close>

lemma updateDoor_pins:
  "doorPins (fst (updateDoor now k s)) = doorPins (fst s) \<and> ambientPin (fst (updateDoor now k s)) = ambientPin (fst s) \<and>
     pinLevel (fst (updateDoor now k s)) = pinLevel (fst s)"
proof -
  let ?wire = "\<lambda>m. (logDoorNum m, gpioPin m)"
  have wired: "map ?wire (ms[k := (ms ! k)\<lparr>lastState := l\<rparr>]) = map ?wire ms" for ms l
    by (cases "k < length ms") (simp_all add: map_update list_update_same_conv list_update_beyond)
  have pins: "gpioPin ` {m \<in> set (take n ms). hasLock d m} = snd ` {w \<in> set (take n (map ?wire ms)). fst w = d \<and> snd w \<noteq> INVALID_PIN}" for n ms d
    by (force simp: hasLock_def take_map)
  show ?thesis
    by (auto simp: updateDoor_def doorPins_def pins wired Let_def fun_eq_iff split: prod.split)
qed

lemma updateDoorStates_pins:
  "doorPins (fst (updateDoorStates now g)) = doorPins g \<and> ambientPin (fst (updateDoorStates now g)) = ambientPin g \<and>
     pinLevel (fst (updateDoorStates now g)) = pinLevel g"
proof -
  have "doorPins (fst (fold (updateDoor now) ks s)) = doorPins (fst s) \<and>
      ambientPin (fst (fold (updateDoor now) ks s)) = ambientPin (fst s) \<and> pinLevel (fst (fold (updateDoor now) ks s)) = pinLevel (fst s)" for ks s
    by (induction ks rule: rev_induct) (simp_all add: updateDoor_pins)
  from this [of "[0..<activeDoorNum g]" "(g, \<lambda>_. False)"] show ?thesis by (simp add: updateDoorStates_def split_beta)
qed

section \<open>The stages one by one\<close>

text \<open>No pin rises: what polling the contacts, the due timers and the other outputs do.\<close>

definition lowers :: "'n Firmware \<Rightarrow> 'n Firmware \<Rightarrow> bool" where
  "lowers b b' \<longleftrightarrow> (\<forall>pin. pinLevel (gpio b') pin \<longrightarrow> pinLevel (gpio b) pin)"

lemma lowers_trans: "lowers a b \<Longrightarrow> lowers b c \<Longrightarrow> lowers a c"
  by (simp add: lowers_def)

lemma takeRequest_steady:
  assumes "switchUnused (others b)"
  shows "steady i b (takeRequest p e b)"
proof -
  have "steady i b (processEvent p (stateCallback p) e ev (updOthers (\<lambda>x. x\<lparr>webOpenRequests := qs\<rparr>) b))" for ev qs
  proof -
    have o: "onlyPeripherals b (updOthers (\<lambda>x. x\<lparr>webOpenRequests := qs\<rparr>) b)"
      by (simp add: onlyPeripherals_def switchUnused_def)
    have "switchUnused (others (updOthers (\<lambda>x. x\<lparr>webOpenRequests := qs\<rparr>) b))" using o assms by (simp add: onlyPeripherals_def)
    from processEvent_steady [OF this] show ?thesis by (rule steady_trans [OF steady_only [OF o]])
  qed
  then show ?thesis by (simp add: takeRequest_def steady_refl split: option.split list.split)
qed

lemma handleDue_stage:
  assumes "switchUnused (others b)"
  shows "steady i b (handleDueActions p e act a b) \<and> lowers b (handleDueActions p e act a b)"
  using handleDueActions_tame [OF assms, of p e act a] steady_tame by (auto simp: tame_def lowers_def)

lemma pollContacts_stage:
  assumes "switchUnused (others b)"
  shows "steady i b (pollContacts p now env b) \<and> lowers b (pollContacts p now env b)"
proof -
  obtain g ds where u: "updateDoorStates now (gpio b) = (g, ds)" by (cases "updateDoorStates now (gpio b)")
  define due_door where "due_door = (\<lambda>d. handleDueActions p (env d) NOTIFY_DOOR_CHANGE (dec_digits (unat d)))"
  have g: "doorPins g = doorPins (gpio b)" "ambientPin g = ambientPin (gpio b)" "pinLevel g = pinLevel (gpio b)"
    using updateDoorStates_pins [of now "gpio b"] u by simp_all
  have first: "steady i b (b\<lparr>gpio := g\<rparr>) \<and> lowers b (b\<lparr>gpio := g\<rparr>)" using g by (simp add: steady_def lowers_def)
  have "steady i b (fold due_door ds c) \<and> lowers b (fold due_door ds c)"
    if "steady i b c \<and> lowers b c" for c
    using that
  proof (induction ds rule: rev_induct)
    case (snoc d ds)
    let ?c = "fold due_door ds c"
    have IH: "steady i b ?c \<and> lowers b ?c" using snoc by simp
    then have "switchUnused (others ?c)" using assms by (simp add: steady_def)
    from handleDue_stage [OF this] have "steady i ?c (due_door d ?c) \<and> lowers ?c (due_door d ?c)" by (simp add: due_door_def)
    then show ?case using IH steady_trans [of i b ?c] lowers_trans [of b ?c] by simp
  qed simp
  from this [OF first] show ?thesis by (simp add: pollContacts_def u due_door_def)
qed

text \<open>The timers: a slot that is not due stays as it is, and a release that is due lowers its door.\<close>

lemma slot_not_due: "\<not> due now (tm ! k) \<Longrightarrow> update_slot h now k (tm, c) = (tm, c)"
  by (auto simp: update_slot_def due_def Let_def)

lemma slots_steady:
  assumes "switchUnused (others b)" and "active (timers b ! i) \<longrightarrow> \<not> due now (timers b ! i)"
    and "fold (update_slot (Some (timerHandler p env)) now) [0..<k] (timers b, b) = (tm, c)"
  shows "keeps b c \<and> length tm = length (timers b) \<and> (active (timers b ! i) \<longrightarrow> tm ! i = timers b ! i)"
  using assms(3)
proof (induction k arbitrary: tm c)
  case 0
  then show ?case using assms(1) by (auto simp: keeps_def)
next
  case (Suc k)
  obtain tm1 c1 where f: "fold (update_slot (Some (timerHandler p env)) now) [0..<k] (timers b, b) = (tm1, c1)"
    by (cases "fold (update_slot (Some (timerHandler p env)) now) [0..<k] (timers b, b)")
  note IH = Suc.IH [OF f]
  have u: "update_slot (Some (timerHandler p env)) now k (tm1, c1) = (tm, c)" using Suc.prems f by simp
  note e = slot_effect [OF conjunct1 [OF IH] u]
  have "tm ! i = timers b ! i" if a: "active (timers b ! i)"
  proof (cases "i = k")
    case True
    then have "\<not> due now (tm1 ! k)" using IH a assms(2) by simp
    then show ?thesis using slot_not_due u IH a by (metis Pair_inject)
  qed (use e IH a in auto)
  then show ?case using e IH by auto
qed

lemma runTimers_stage:
  assumes "switchUnused (others b)" and "active (timers b ! i) \<longrightarrow> \<not> due now (timers b ! i)"
  shows "steady i b (runTimers p env now b) \<and> lowers b (runTimers p env now b)"
proof -
  obtain tm c where f: "fold (update_slot (Some (timerHandler p env)) now) [0..<MAX_TIMERS] (timers b, b) = (tm, c)"
    by (cases "fold (update_slot (Some (timerHandler p env)) now) [0..<MAX_TIMERS] (timers b, b)")
  have "runTimers p env now b = c\<lparr>timers := tm\<rparr>" using f by (simp add: runTimers_handler update_timers_def)
  then show ?thesis using slots_steady [OF assms f]
    by (auto simp: keeps_def steady_def lowers_def sameDoors_doorPins dest: sameDoors_ambient)
qed

lemma runTimers_lowers:
  assumes "switchUnused (others b)"
  shows "lowers b (runTimers p env now b)" and "switchUnused (others (runTimers p env now b))"
    and "doorPins (gpio (runTimers p env now b)) = doorPins (gpio b)" and "ambientPin (gpio (runTimers p env now b)) = ambientPin (gpio b)"
proof -
  have keep: "keeps b c" if "fold (update_slot (Some (timerHandler p env)) now) [0..<k] (timers b, b) = (tm, c)" for k tm c
    using that
  proof (induction k arbitrary: tm c)
    case (Suc k)
    obtain tm1 c1 where f: "fold (update_slot (Some (timerHandler p env)) now) [0..<k] (timers b, b) = (tm1, c1)"
      by (cases "fold (update_slot (Some (timerHandler p env)) now) [0..<k] (timers b, b)")
    have u: "update_slot (Some (timerHandler p env)) now k (tm1, c1) = (tm, c)" using Suc.prems f by simp
    show ?case using slot_effect [OF Suc.IH [OF f] u] by simp
  qed (use assms in \<open>simp add: keeps_def\<close>)
  obtain tm c where f: "fold (update_slot (Some (timerHandler p env)) now) [0..<MAX_TIMERS] (timers b, b) = (tm, c)"
    by (cases "fold (update_slot (Some (timerHandler p env)) now) [0..<MAX_TIMERS] (timers b, b)")
  have r: "runTimers p env now b = c\<lparr>timers := tm\<rparr>" using f by (simp add: runTimers_handler update_timers_def)
  show "lowers b (runTimers p env now b)" and "switchUnused (others (runTimers p env now b))"
    and "doorPins (gpio (runTimers p env now b)) = doorPins (gpio b)" and "ambientPin (gpio (runTimers p env now b)) = ambientPin (gpio b)"
    using keep [OF f] unfolding r by (auto simp: keeps_def lowers_def sameDoors_doorPins dest: sameDoors_ambient)
qed

section \<open>The inputs of a pass\<close>

lemma update_never_raises:
  fixes b :: "'n Firmware"
  assumes "switchUnused (others b)" and "\<not> pinLevel (gpio b) pin" and "pin \<noteq> ambientPin (gpio b)"
  shows "\<not> pinLevel (gpio (updateMachine p (stateCallback p) e now b)) pin"
proof
  assume r: "pinLevel (gpio (updateMachine p (stateCallback p) e now b)) pin"
  have g: "gpio (updateFlags now b) = gpio b" using updateFlags_world(1) [of b now] by (simp add: sameWorld_def)
  have "\<exists>door. pin \<in> doorPins (gpio (updateFlags now b)) door \<and> authorised e TimePassed (updateFlags now b) door"
    by (rule box.raise_authorised [OF box.updateMachine_performs box.updateFlags_ok [OF assms(1)] r])
      (simp_all add: g assms(2,3))
  then show False by (simp add: authorised_def)
qed

text \<open>
  The door at the head of the web queue, the PIN that the keypad completes while a PIN is asked for, and
  the code that the scanner delivers in time while a code is asked for.
\<close>

definition requestedDoor :: "'n Firmware \<Rightarrow> u8 option" where
  "requestedDoor b = (case webOpenRequests (others b) of Some (door # _) \<Rightarrow> Some door | _ \<Rightarrow> None)"

definition enteredPin :: "bytes \<Rightarrow> 'n Firmware \<Rightarrow> string option" where
  "enteredPin wire b =
     (let b0 = updKeys (\<lambda>ks. ks\<lparr>keyboardMode := (if state (ctx b) = Password then KEYBOARD_MODE_PASSWORD else KEYBOARD_MODE_COMMAND)\<rparr>) b;
          (polled, b1) = pollKeys wire b0; ks = keyStatus (others b1)
      in if state (ctx b) = Password \<and> polled \<and> passwordComplete ks then Some (take 32 (cstr (currentPassword ks))) else None)"

definition scannedCode :: "u32 \<Rightarrow> 'n Firmware \<Rightarrow> string option" where
  "scannedCode now b =
     (if ready (boxScanner (others b)) \<and> state (ctx b) = Scan \<and>
         \<not> timeoutElapsed (scanStartedAt (ctx b)) QR_SCANNER_SCAN_TIMEOUT_MS now
      then case fst (withScanner (updateScanner now) b) of (ty, bs) \<Rightarrow>
        if ty \<in> {CodeReceived, ActivationResponse} \<and> PACKET_NUMBER_MIN \<le> length bs \<and> length bs \<le> PACKET_SCAN_MAX \<and> isText bs
        then Some (map (\<lambda>v. char_of (unat v)) bs) else None
      else None)"

text \<open>A stage raises a pin only for a door that its input opens.\<close>

definition keypadOpens :: "Env \<Rightarrow> bytes \<Rightarrow> 'n Firmware \<Rightarrow> u8 \<Rightarrow> bool" where
  "keypadOpens e wire b door \<longleftrightarrow> door \<noteq> DOOR_UNKNOWN \<and>
     (\<exists>pin. enteredPin wire b = Some pin \<and> fst (verifyCred (credStore b) (Some pin) CredType_Password (verifyTime e)) = door)"

definition scannerOpens :: "Env \<Rightarrow> u32 \<Rightarrow> 'n Firmware \<Rightarrow> u8 \<Rightarrow> bool" where
  "scannerOpens e now b door \<longleftrightarrow> door \<noteq> DOOR_UNKNOWN \<and>
     (\<exists>code. scannedCode now b = Some code \<and> fst (verifyCred (credStore b) (Some code) CredType_PacketNumber (verifyTime e)) = door)"

lemma event_raises:
  fixes b :: "'n Firmware"
  assumes "switchUnused (others b)" and "onlyPeripherals b b1"
    and "pinLevel (gpio (processEvent p (stateCallback p) e ev b1)) pin" and "\<not> pinLevel (gpio b) pin" and "pin \<noteq> ambientPin (gpio b)"
  shows "\<exists>door. pin \<in> doorPins (gpio b) door \<and> authorised e (Event ev) b1 door"
proof -
  have b1: "gpio b1 = gpio b" "switchUnused (others b1)" using assms(1,2) by (simp_all add: onlyPeripherals_def)
  show ?thesis using box.raise_authorised [OF processEvent_performs b1(2) assms(3)] assms(4,5) by (simp add: b1(1))
qed

lemma takeRequest_raises:
  fixes b :: "'n Firmware"
  assumes "switchUnused (others b)" and "pinLevel (gpio (takeRequest p e b)) pin" and "\<not> pinLevel (gpio b) pin"
    and "pin \<noteq> ambientPin (gpio b)"
  shows "\<exists>door. pin \<in> doorPins (gpio b) door \<and> door \<noteq> DOOR_UNKNOWN \<and> requestedDoor b = Some door"
proof -
  obtain d qs where q: "webOpenRequests (others b) = Some (d # qs)"
    using assms(2,3) by (auto simp: takeRequest_def split: option.splits list.splits)
  let ?b1 = "updOthers (\<lambda>x. x\<lparr>webOpenRequests := Some qs\<rparr>) b" and ?ev = "(eventOf WebOpenBox)\<lparr>evDoorNum := d\<rparr>"
  have o: "onlyPeripherals b ?b1" by (simp add: onlyPeripherals_def switchUnused_def)
  have "pinLevel (gpio (processEvent p (stateCallback p) e ?ev ?b1)) pin" using assms(2) q by (simp add: takeRequest_def)
  from event_raises [OF assms(1) o this assms(3,4)] show ?thesis
    using q by (auto simp: authorised_def requestedDoor_def eventOf_def)
qed

lemma handleKeyboard_raises:
  fixes b :: "'n Firmware"
  assumes "switchUnused (others b)" and "pinLevel (gpio (handleKeyboard p e wire b)) pin" and "\<not> pinLevel (gpio b) pin"
    and "pin \<noteq> ambientPin (gpio b)"
  shows "\<exists>door. pin \<in> doorPins (gpio b) door \<and> keypadOpens e wire b door"
proof -
  define b0 where "b0 = updKeys (\<lambda>ks. ks\<lparr>keyboardMode :=
      (if state (ctx b) = Password then KEYBOARD_MODE_PASSWORD else KEYBOARD_MODE_COMMAND)\<rparr>) b"
  define b1 where "b1 = snd (pollKeys wire b0)"
  have o: "onlyPeripherals b b1" unfolding b1_def b0_def by (rule onlyPeripherals_trans [OF updKeys_only pollKeys_only])
  note ev = event_raises [OF assms(1) o _ assms(3,4), of p e]
  have g: "gpio b1 = gpio b" "ctx b1 = ctx b" "credStore b1 = credStore b" using o by (simp_all add: onlyPeripherals_def)
  have other: "\<not> pinLevel (gpio (keyEvent p e (eventOf ty) b1)) pin" if "ty \<in> {KeyboardKey1, KeyboardKey2, KeyboardKey3, KeyboardCancel}" for ty
    using ev [of "eventOf ty"] that by (auto simp: keyEvent_def authorised_def eventOf_def)
  define ks where "ks = keyStatus (others b1)"
  have hk: "handleKeyboard p e wire b =
      (if \<not> fst (pollKeys wire b0) then b1
       else if state (ctx b) = Home \<and> keyboardMode ks = KEYBOARD_MODE_COMMAND \<and> currentKey ks = KEYBOARD_KEY_1
       then updKeys (\<lambda>k. k\<lparr>currentKey := 32\<rparr>) (keyEvent p e (eventOf KeyboardKey1) b1)
       else if state (ctx b) = Home \<and> keyboardMode ks = KEYBOARD_MODE_COMMAND \<and> currentKey ks = KEYBOARD_KEY_2
       then updKeys (\<lambda>k. k\<lparr>currentKey := 32\<rparr>) (keyEvent p e (eventOf KeyboardKey2) b1)
       else if state (ctx b) = Home \<and> keyboardMode ks = KEYBOARD_MODE_COMMAND \<and> currentKey ks = KEYBOARD_KEY_3
       then updKeys (\<lambda>k. k\<lparr>currentKey := 32\<rparr>) (keyEvent p e (eventOf KeyboardKey3) b1)
       else if state (ctx b) = Password \<and> passwordComplete ks
       then updKeys (\<lambda>k. clearPassword (k\<lparr>passwordComplete := False, currentPasswordLen := 0, cancelPressed := False\<rparr>))
              (keyEvent p e (enterEvent ks) b1)
       else if state (ctx b) = Password \<and> cancelPressed ks
       then updKeys (\<lambda>k. k\<lparr>cancelPressed := False\<rparr>) (keyEvent p e (eventOf KeyboardCancel) b1)
       else if state (ctx b) \<in> {BadPass, Presence, Scan} \<and> (currentKey ks = KEYBOARD_KEY_CANCEL \<or> cancelPressed ks)
       then updKeys (\<lambda>k. k\<lparr>currentKey := 32, cancelPressed := False\<rparr>) (keyEvent p e (eventOf KeyboardCancel) b1)
       else b1)"
    unfolding handleKeyboard_def Let_def b0_def [symmetric] case_prod_beta b1_def [symmetric] ks_def by (rule refl)
  have u: "gpio (updKeys f c) = gpio c" for f and c :: "'n Firmware" by (simp add: updKeys_def)
  have "pinLevel (gpio (processEvent p (stateCallback p) e (enterEvent ks) b1)) pin \<and>
      state (ctx b) = Password \<and> fst (pollKeys wire b0) \<and> passwordComplete ks"
    using assms(2,3) other [of KeyboardKey1] other [of KeyboardKey2] other [of KeyboardKey3] other [of KeyboardCancel]
    unfolding hk by (simp add: u g keyEvent_def split: if_splits)
  moreover have "enteredPin wire b = Some (keyboardPassword (enterEvent ks))"
    if "state (ctx b) = Password \<and> fst (pollKeys wire b0) \<and> passwordComplete ks"
    using that unfolding enteredPin_def Let_def b0_def [symmetric] case_prod_beta b1_def [symmetric] ks_def [symmetric]
    by (simp add: enterEvent_def)
  ultimately show ?thesis using ev [of "enterEvent ks"] g
    by (auto simp: authorised_def keypadOpens_def enterEvent_def eventOf_def)
qed

lemma updateScanner_gpio:
  assumes "switchPin (config q) = QR_SCANNER_PIN_UNUSED"
  shows "snd (snd (updateScanner now (q, g))) = g"
proof -
  have d: "snd (deactivateAfterTerminalEvent (q, g)) = g" if "switchPin (config q) = QR_SCANNER_PIN_UNUSED" for q g
    using deactivate_switch(1) that by (simp add: deactivateAfterTerminalEvent_def split_beta)
  have f: "snd (snd (finalizeFrame (q, g))) = g" if "switchPin (config q) = QR_SCANNER_PIN_UNUSED" for q g
    using that d by (auto simp: finalizeFrame_def makeFrameEvent_def Let_def split: QrScannerState.split)
  have b: "snd (snd (processByte v now (q, g))) = g" if "switchPin (config q) = QR_SCANNER_PIN_UNUSED" for q g v
    using that f by (simp add: processByte_def Let_def)
  have c: "switchPin (config (fst (snd (processByte v now (q, g))))) = QR_SCANNER_PIN_UNUSED"
    if "switchPin (config q) = QR_SCANNER_PIN_UNUSED" for q g v
    using that deactivate_switch(2) 
    by (auto simp: processByte_def finalizeFrame_def makeFrameEvent_def deactivateAfterTerminalEvent_def Let_def split_beta split: QrScannerState.split)
  have r: "snd (snd (snd (receive vs now (q, g)))) = g \<and> switchPin (config (fst (snd (snd (receive vs now (q, g)))))) = QR_SCANNER_PIN_UNUSED"
    if "switchPin (config q) = QR_SCANNER_PIN_UNUSED" for vs q g
    using that
  proof (induction vs arbitrary: q g)
    case (Cons v vs)
    obtain ev q1 g1 where p: "processByte v now (q, g) = (ev, q1, g1)" by (metis prod.exhaust)
    then have "switchPin (config q1) = QR_SCANNER_PIN_UNUSED" "g1 = g" using c [OF Cons.prems, of v g] b [OF Cons.prems, of v g] by simp_all
    then show ?case using Cons.IH [of q1 g1] p by simp
  qed simp
  show ?thesis
    using assms r [OF assms] d f by (auto simp: updateScanner_def Let_def split_beta split: option.split)
qed

lemma scanner_only: "switchUnused (others b) \<Longrightarrow> onlyPeripherals b (snd (withScanner (updateScanner now) b))"
  by (rule withScanner_only) (simp_all add: updateScanner_gpio updateScanner_switch)

lemma updateBoxScanner_raises:
  fixes b :: "'n Firmware"
  assumes "switchUnused (others b)" and "pinLevel (gpio (updateBoxScanner p e now b)) pin" and "\<not> pinLevel (gpio b) pin"
    and "pin \<noteq> ambientPin (gpio b)"
  shows "\<exists>door. pin \<in> doorPins (gpio b) door \<and> scannerOpens e now b door"
proof -
  define ty where "ty = fst (fst (withScanner (updateScanner now) b))"
  define bs where "bs = snd (fst (withScanner (updateScanner now) b))"
  define b1 where "b1 = snd (withScanner (updateScanner now) b)"
  have w: "withScanner (updateScanner now) b = ((ty, bs), b1)" by (simp add: ty_def bs_def b1_def)
  have o: "onlyPeripherals b b1" unfolding b1_def by (rule scanner_only [OF assms(1)])
  have g: "gpio b1 = gpio b" "ctx b1 = ctx b" "credStore b1 = credStore b" using o by (simp_all add: onlyPeripherals_def)
  have other: False if "pinLevel (gpio (processEvent p (stateCallback p) e (eventOf t) c)) pin"
    "t \<in> {ScanTimeout, ScannerInvalidCode}" "onlyPeripherals b c" for t c
    using event_raises [OF assms(1) that(3,1) assms(3,4)] that(2) by (auto simp: authorised_def eventOf_def)
  have "pinLevel (gpio (processEvent p (stateCallback p) e (codeEvent bs) b1)) pin \<and> scannedCode now b = Some (scannerCred (codeEvent bs))"
    using assms(2,3) other [OF _ _ onlyPeripherals_refl] other [OF _ _ o] other [OF _ _ onlyPeripherals_trans [OF o emit_only]]
    unfolding updateBoxScanner_def Let_def w prod.case scannedCode_def fst_conv
    by (auto simp: g codeEvent_def split: if_splits)
  then show ?thesis using event_raises [OF assms(1) o _ assms(3,4), of p e "codeEvent bs"] g
    by (auto simp: authorised_def scannerOpens_def codeEvent_def eventOf_def)
qed

text \<open>The stages that involve the keypad, the scanner and the machine keep the wiring and the running timers, too.\<close>

lemma event_steady:
  assumes "switchUnused (others b)" and "onlyPeripherals b b1"
  shows "steady i b (processEvent p (stateCallback p) e ev b1)"
proof -
  have "switchUnused (others b1)" using assms by (simp add: onlyPeripherals_def)
  from processEvent_steady [OF this] show ?thesis by (rule steady_trans [OF steady_only [OF assms(2)]])
qed

lemma handleKeyboard_steady:
  assumes "switchUnused (others b)"
  shows "steady i b (handleKeyboard p e wire b)"
proof -
  define b0 where "b0 = updKeys (\<lambda>ks. ks\<lparr>keyboardMode :=
      (if state (ctx b) = Password then KEYBOARD_MODE_PASSWORD else KEYBOARD_MODE_COMMAND)\<rparr>) b"
  have o: "onlyPeripherals b (snd (pollKeys wire b0))"
    unfolding b0_def by (rule onlyPeripherals_trans [OF updKeys_only pollKeys_only])
  have k: "steady i b (updKeys f (keyEvent p e ev (snd (pollKeys wire b0))))" for f ev
    unfolding keyEvent_def by (rule steady_trans [OF event_steady [OF assms o] steady_only [OF updKeys_only]])
  show ?thesis unfolding handleKeyboard_def Let_def b0_def [symmetric]
    using k steady_only [OF o] by (simp add: split_beta)
qed

lemma updateBoxScanner_steady:
  assumes "switchUnused (others b)"
  shows "steady i b (updateBoxScanner p e now b)"
proof -
  note o = scanner_only [OF assms, of now]
  note e = event_steady [OF assms o] event_steady [OF assms onlyPeripherals_trans [OF o emit_only]] event_steady [OF assms onlyPeripherals_refl]
  show ?thesis unfolding updateBoxScanner_def Let_def
    using e steady_only [OF o] by (simp add: split_beta steady_refl)
qed

section \<open>A pass opens a door only on an input for it\<close>

text \<open>The stages of \<open>loop\<close>, up to the timers and up to the scanner.\<close>

definition refreshed :: "'n Preferences \<Rightarrow> LoopEnv \<Rightarrow> 'n Firmware \<Rightarrow> 'n Firmware option" where
  "refreshed p le b =
     (if rtcSynced le then map_option (\<lambda>(ok, st). b\<lparr>credStore := st\<rparr>) (refreshCache p (credStore b) (refreshTime le)) else Some b)"

definition afterTimers :: "'n Preferences \<Rightarrow> LoopEnv \<Rightarrow> 'n Firmware \<Rightarrow> 'n Firmware" where
  "afterTimers p le b = runTimers p (timerEnv le) (timerMillis le)
     (pollContacts p (contactMillis le) (contactEnv le) (takeRequest p (webEnv le) b))"

definition afterUpdate :: "'n Preferences \<Rightarrow> LoopEnv \<Rightarrow> 'n Firmware \<Rightarrow> 'n Firmware" where
  "afterUpdate p le b = updateMachine p (stateCallback p) (machineEnv le) (machineMillis le)
     (handleKeyboard p (keyEnv le) (keyWire le) (afterTimers p le b))"

lemma loop_stages:
  "loop p le (la, b) = Some (la', b') \<longleftrightarrow> (\<exists>b1. refreshed p le b = Some b1 \<and>
     notifyAmbientChange la (updateBoxScanner p (scannerEnv le) (scannerMillis le) (afterUpdate p le b1)) = (la', b'))"
  by (auto simp: loop_def refreshed_def afterTimers_def afterUpdate_def Let_def)

lemma refreshed_same: "refreshed p le b = Some b1 \<Longrightarrow> \<exists>st. b1 = b\<lparr>credStore := st\<rparr>"
  by (auto simp: refreshed_def split: if_splits) (intro exI [of _ "credStore b1"], simp)

lemma notify_only: "onlyPeripherals b (snd (notifyAmbientChange la b))"
  by (simp add: notifyAmbientChange_def Let_def sendWeb_only onlyPeripherals_refl)

lemma afterTimers_frame:
  assumes "switchUnused (others b)"
  shows "switchUnused (others (afterTimers p le b))" and "doorPins (gpio (afterTimers p le b)) = doorPins (gpio b)"
    and "ambientPin (gpio (afterTimers p le b)) = ambientPin (gpio b)" and "lowers (takeRequest p (webEnv le) b) (afterTimers p le b)"
proof -
  let ?r = "takeRequest p (webEnv le) b" and ?c = "pollContacts p (contactMillis le) (contactEnv le) (takeRequest p (webEnv le) b)"
  have r: "steady 0 b ?r" by (rule takeRequest_steady [OF assms])
  then have ur: "switchUnused (others ?r)" using assms by (simp add: steady_def)
  note c = pollContacts_stage [OF ur, of 0 p "contactMillis le" "contactEnv le"]
  then have uc: "switchUnused (others ?c)" using ur by (simp add: steady_def)
  note t = runTimers_lowers [OF uc, of p "timerEnv le" "timerMillis le"]
  show "switchUnused (others (afterTimers p le b))" and "doorPins (gpio (afterTimers p le b)) = doorPins (gpio b)"
    and "ambientPin (gpio (afterTimers p le b)) = ambientPin (gpio b)" and "lowers ?r (afterTimers p le b)"
    using r c t lowers_trans [OF conjunct2 [OF c] t(1)] unfolding afterTimers_def steady_def by simp_all
qed

lemma afterUpdate_frame:
  assumes "switchUnused (others b)"
  shows "switchUnused (others (afterUpdate p le b))" and "doorPins (gpio (afterUpdate p le b)) = doorPins (gpio b)"
    and "ambientPin (gpio (afterUpdate p le b)) = ambientPin (gpio b)"
    and "\<not> pinLevel (gpio (handleKeyboard p (keyEnv le) (keyWire le) (afterTimers p le b))) pin \<Longrightarrow> pin \<noteq> ambientPin (gpio b) \<Longrightarrow>
      \<not> pinLevel (gpio (afterUpdate p le b)) pin"
proof -
  note t = afterTimers_frame [OF assms, of p le]
  let ?k = "handleKeyboard p (keyEnv le) (keyWire le) (afterTimers p le b)"
  have k: "steady 0 (afterTimers p le b) ?k" by (rule handleKeyboard_steady [OF t(1)])
  then have uk: "switchUnused (others ?k)" using t(1) by (simp add: steady_def)
  have u: "steady 0 ?k (afterUpdate p le b)" unfolding afterUpdate_def by (rule updateMachine_steady [OF uk])
  show "switchUnused (others (afterUpdate p le b))" and "doorPins (gpio (afterUpdate p le b)) = doorPins (gpio b)"
    and "ambientPin (gpio (afterUpdate p le b)) = ambientPin (gpio b)"
    using k u uk t by (simp_all add: steady_def)
  assume low: "\<not> pinLevel (gpio ?k) pin" "pin \<noteq> ambientPin (gpio b)"
  then have "pin \<noteq> ambientPin (gpio ?k)" using k t by (simp add: steady_def)
  from update_never_raises [OF uk low(1) this] show "\<not> pinLevel (gpio (afterUpdate p le b)) pin"
    by (simp add: afterUpdate_def)
qed

text \<open>From the timers on, only the keypad and the scanner raise a pin.\<close>

lemma rest_raises:
  fixes b1 :: "'n Firmware"
  assumes "switchUnused (others b1)" and "\<not> pinLevel (gpio (afterTimers p le b1)) pin" and "pin \<noteq> ambientPin (gpio b1)"
    and "pinLevel (gpio (updateBoxScanner p (scannerEnv le) (scannerMillis le) (afterUpdate p le b1))) pin"
  shows "\<exists>door. pin \<in> doorPins (gpio b1) door \<and>
     (keypadOpens (keyEnv le) (keyWire le) (afterTimers p le b1) door \<or> scannerOpens (scannerEnv le) (scannerMillis le) (afterUpdate p le b1) door)"
proof (cases "pinLevel (gpio (handleKeyboard p (keyEnv le) (keyWire le) (afterTimers p le b1))) pin")
  case True
  note t = afterTimers_frame [OF assms(1), of p le]
  from handleKeyboard_raises [OF t(1) True assms(2)] show ?thesis using assms(3) t by auto
next
  case False
  note u = afterUpdate_frame [OF assms(1), of p le]
  from updateBoxScanner_raises [OF u(1) assms(4) u(4) [OF False assms(3)]] show ?thesis using assms(3) u by auto
qed

text \<open>
  C8.  A pass of the main loop opens a door only on an input for it.  If a lock pin is low before a pass of \<open>loop\<close>
  and high after it, then in that pass the head of the web queue named a door with this pin, or the
  keypad completed a PIN while the machine asked for one, or the scanner delivered a code in time
  while the machine asked for one, and the credential store, as it was at that stage of the pass,
  verified it for a door with this pin.  Contacts, timers, the periodic update, the refresh of the
  credential cache and every other key open nothing, whatever they do in the same pass.
\<close>

theorem loop_opens_only_on_input:
  fixes b :: "'n Firmware"
  assumes "loop p le (la, b) = Some (la', b')" and "switchUnused (others b)"
    and "\<not> pinLevel (gpio b) pin" and "pin \<noteq> ambientPin (gpio b)"
  shows "pinLevel (gpio b') pin \<longrightarrow> (\<exists>b1 door. refreshed p le b = Some b1 \<and> pin \<in> doorPins (gpio b) door \<and>
     (requestedDoor b = Some door \<and> door \<noteq> DOOR_UNKNOWN
      \<or> keypadOpens (keyEnv le) (keyWire le) (afterTimers p le b1) door
      \<or> scannerOpens (scannerEnv le) (scannerMillis le) (afterUpdate p le b1) door))"
proof
  assume up: "pinLevel (gpio b') pin"
  obtain b1 where r: "refreshed p le b = Some b1"
    and n: "notifyAmbientChange la (updateBoxScanner p (scannerEnv le) (scannerMillis le) (afterUpdate p le b1)) = (la', b')"
    using assms(1) by (auto simp: loop_stages)
  obtain st where "b1 = b\<lparr>credStore := st\<rparr>" using refreshed_same [OF r] by blast
  then have b1: "gpio b1 = gpio b" "others b1 = others b" "requestedDoor b1 = requestedDoor b" by (simp_all add: requestedDoor_def)
  have u: "switchUnused (others b1)" using assms(2) b1 by simp
  have high: "pinLevel (gpio (updateBoxScanner p (scannerEnv le) (scannerMillis le) (afterUpdate p le b1))) pin"
    using notify_only [of "updateBoxScanner p (scannerEnv le) (scannerMillis le) (afterUpdate p le b1)" la] n up
    by (simp add: onlyPeripherals_def)
  show "\<exists>b1 door. refreshed p le b = Some b1 \<and> pin \<in> doorPins (gpio b) door \<and>
     (requestedDoor b = Some door \<and> door \<noteq> DOOR_UNKNOWN
      \<or> keypadOpens (keyEnv le) (keyWire le) (afterTimers p le b1) door
      \<or> scannerOpens (scannerEnv le) (scannerMillis le) (afterUpdate p le b1) door)"
  proof (cases "pinLevel (gpio (afterTimers p le b1)) pin")
    case True
    then have "pinLevel (gpio (takeRequest p (webEnv le) b1)) pin" using afterTimers_frame(4) [OF u] by (simp add: lowers_def)
    from takeRequest_raises [OF u this] show ?thesis using assms(3,4) b1 r by auto
  next
    case False
    from rest_raises [OF u False _ high] show ?thesis using assms(4) b1 r by auto
  qed
qed

section \<open>A lock pulse ends\<close>

text \<open>An event that raises a lock schedules its release.\<close>

lemma raise_schedules:
  fixes b :: "'n Firmware"
  assumes "performs p (stateCallback p) e now t b b'" and "switchUnused (others b)"
    and "pinLevel (gpio b') pin" and "\<not> pinLevel (gpio b) pin" and "pin \<noteq> ambientPin (gpio b)"
  shows "\<exists>door. pin \<in> doorPins (gpio b) door \<and>
     timers b' = snd (scheduleOnce (timers b) (scheduleMillis e) DOOR_DELAY LOCK_DEACTIVATE (Some (dec_digits (unat door))))"
proof -
  from assms(1,3,4) obtain s b1 where tb: "table e now t b s b1" and b': "b' = transitionTo p (stateCallback p) e s now b1"
    by (auto simp: performs_def no_move.simps sameWorld_def)
  have w: "gpio b1 = gpio b" "timers b1 = timers b" using table_world [OF tb] by (simp_all add: sameWorld_def)
  have ne: "s \<noteq> state (ctx b)" using box.same_state_move [OF tb] assms(3,4) b' w by auto
  note q = box.quiet_move [OF tb assms(2) ne, of p]
  have "pinLevel (gpio (moveTo p e s now b1)) pin" using q assms(3) by (simp add: quiet_def b')
  from moveTo_pins [OF this] assms(4,5) w
  have o: "s = Opening" "doorToOpen (ctx b1) \<noteq> DOOR_UNKNOWN" "pin \<in> doorPins (gpio b) (doorToOpen (ctx b1))" by simp_all
  have "timers b' = timers (moveTo p e s now b1)" using q by (simp add: quiet_def b')
  then show ?thesis using o w by (auto simp: moveTo_timers_eq)
qed

text \<open>
  What the firmware does while a release that was scheduled at \<open>t0\<close> waits: the stages of \<open>loop\<close>, in any
  order and number, with any inputs and at any times, but for the timers, whose clock has not yet
  reached the release; requests that the web server's task queues and changes it makes to the
  credentials.
\<close>

inductive waiting :: "'n Preferences \<Rightarrow> u32 \<Rightarrow> 'n Firmware \<Rightarrow> 'n Firmware \<Rightarrow> bool" for p :: "'n Preferences" and t0 :: u32 and a :: "'n Firmware" where
  now: "waiting p t0 a a"
| credentials: "waiting p t0 a b \<Longrightarrow> waiting p t0 a (b\<lparr>credStore := st\<rparr>)"
| queued: "waiting p t0 a b \<Longrightarrow> waiting p t0 a (handleOpenBox t door code check b)"
| request: "waiting p t0 a b \<Longrightarrow> waiting p t0 a (takeRequest p e b)"
| contacts: "waiting p t0 a b \<Longrightarrow> waiting p t0 a (pollContacts p t ce b)"
| early: "waiting p t0 a b \<Longrightarrow> \<not> timeoutElapsed t0 DOOR_DELAY t \<Longrightarrow> waiting p t0 a (runTimers p te t b)"
| keypad: "waiting p t0 a b \<Longrightarrow> waiting p t0 a (handleKeyboard p e wire b)"
| update: "waiting p t0 a b \<Longrightarrow> waiting p t0 a (updateMachine p (stateCallback p) e t b)"
| scan: "waiting p t0 a b \<Longrightarrow> waiting p t0 a (updateBoxScanner p e t b)"
| ambient: "waiting p t0 a b \<Longrightarrow> waiting p t0 a (snd (notifyAmbientChange la b))"

text \<open>A pass of \<open>loop\<close> whose timers come too early is such a waiting.\<close>

lemma loop_waits:
  assumes "waiting p t0 a b" and "loop p le (la, b) = Some (la', b')" and "\<not> timeoutElapsed t0 DOOR_DELAY (timerMillis le)"
  shows "waiting p t0 a b'"
proof -
  obtain b1 where r: "refreshed p le b = Some b1"
    and n: "notifyAmbientChange la (updateBoxScanner p (scannerEnv le) (scannerMillis le) (afterUpdate p le b1)) = (la', b')"
    using assms(2) by (auto simp: loop_stages)
  obtain st where "b1 = b\<lparr>credStore := st\<rparr>" using refreshed_same [OF r] by blast
  then have "waiting p t0 a b1" using credentials [OF assms(1)] by simp
  then have "waiting p t0 a (snd (notifyAmbientChange la (updateBoxScanner p (scannerEnv le) (scannerMillis le) (afterUpdate p le b1))))"
    unfolding afterUpdate_def afterTimers_def
    by (intro waiting.ambient waiting.scan waiting.update waiting.keypad waiting.early waiting.contacts waiting.request assms(3))
  then show ?thesis by (simp add: n)
qed

text \<open>The release in slot \<open>i\<close>.\<close>

definition releases :: "u32 \<Rightarrow> u8 \<Rightarrow> Timer \<Rightarrow> bool" where
  "releases t0 door t \<longleftrightarrow> active t \<and> startedAt t = t0 \<and> interval t = DOOR_DELAY \<and> action t = LOCK_DEACTIVATE \<and>
     cstr (arg t) = dec_digits (unat door)"

lemma handleOpenBox_only: "onlyPeripherals b (handleOpenBox t door code check b)"
  by (simp add: handleOpenBox_def onlyPeripherals_def Let_def switchUnused_def sendWeb_def split: option.split)

lemma waiting_steady:
  assumes "waiting p t0 a b" and "switchUnused (others a)" and "releases t0 door (timers a ! i)"
  shows "steady i a b"
  using assms(1)
proof induction
  case now
  show ?case by (rule steady_refl)
next
  case (credentials b st)
  then show ?case by (simp add: steady_def)
next
  case (queued b t d c k)
  then show ?case using steady_trans [OF _ steady_only [OF handleOpenBox_only]] by blast
next
  case (early b t te)
  have "switchUnused (others b)" "active (timers b ! i) \<longrightarrow> \<not> due t (timers b ! i)"
    using early assms(2,3) by (simp_all add: steady_def releases_def due_def)
  from runTimers_stage [OF this] early.IH show ?case using steady_trans by blast
next
  case (ambient b la)
  then show ?case using steady_trans [OF _ steady_only [OF notify_only]] by blast
next
  case (request b e)
  then have "switchUnused (others b)" using assms(2) by (simp add: steady_def)
  then show ?case using steady_trans [OF request.IH takeRequest_steady] by blast
next
  case (contacts b t ce)
  then have "switchUnused (others b)" using assms(2) by (simp add: steady_def)
  then show ?case using steady_trans [OF contacts.IH conjunct1 [OF pollContacts_stage]] by blast
next
  case (keypad b e wire)
  then have "switchUnused (others b)" using assms(2) by (simp add: steady_def)
  then show ?case using steady_trans [OF keypad.IH handleKeyboard_steady] by blast
next
  case (update b e t)
  then have "switchUnused (others b)" using assms(2) by (simp add: steady_def)
  then show ?case using steady_trans [OF update.IH updateMachine_steady] by blast
next
  case (scan b e t)
  then have "switchUnused (others b)" using assms(2) by (simp add: steady_def)
  then show ?case using steady_trans [OF scan.IH updateBoxScanner_steady] by blast
qed

text \<open>The timers of the pass at which the release is due lower the door.\<close>

lemma due_release_lowers:
  fixes b :: "'n Firmware"
  assumes "switchUnused (others b)" and "length (timers b) = MAX_TIMERS" and "i < MAX_TIMERS" and "releases t0 door (timers b ! i)"
    and "timeoutElapsed t0 DOOR_DELAY now" and "pin \<in> doorPins (gpio b) door"
  shows "\<not> pinLevel (gpio (runTimers p env now b)) pin"
proof -
  obtain tm c where f: "fold (update_slot (Some (timerHandler p env)) now) [0..<MAX_TIMERS] (timers b, b) = (tm, c)"
    by (cases "fold (update_slot (Some (timerHandler p env)) now) [0..<MAX_TIMERS] (timers b, b)")
  have d: "due now (timers b ! i)" "action (timers b ! i) = LOCK_DEACTIVATE" "cstr (arg (timers b ! i)) = dec_digits (unat door)"
    using assms(4,5) by (auto simp: releases_def due_def)
  have "runTimers p env now b = c\<lparr>timers := tm\<rparr>" using f by (simp add: runTimers_handler update_timers_def)
  then show ?thesis using slots_lower [OF assms(1,2) d f] assms(3,6) by simp
qed

text \<open>
  C15.  A lock pulse ends.  If an event raises a lock while a timer slot is free, then whatever the firmware does
  until half a second has elapsed -- any number of passes, in which the timers may run but find the
  release not yet due, other doors opening, requests and codes coming in -- the first pass of \<open>loop\<close>
  whose timers find the half second elapsed ends with the lock low, unless the keypad or the scanner
  has delivered, after the timers of that very pass, a verified credential for a door with this
  lock.
\<close>

theorem lock_pulse_ends:
  fixes b :: "'n Firmware"
  assumes "switchUnused (others b)" and "length (timers b) = MAX_TIMERS" and "\<exists>t \<in> set (timers b). \<not> active t"
    and "\<forall>t \<in> set (timers b). length (arg t) = MAX_TIMER_PARAMETERS"
    and "\<not> pinLevel (gpio b) pin" and "pin \<noteq> ambientPin (gpio b)"
    and "pinLevel (gpio (processEvent p (stateCallback p) e ev b)) pin"
    and "waiting p (scheduleMillis e) (processEvent p (stateCallback p) e ev b) b2"
    and "loop p le (la, b2) = Some (la', b3)" and "timeoutElapsed (scheduleMillis e) DOOR_DELAY (timerMillis le)"
  shows "pinLevel (gpio b3) pin \<longrightarrow> (\<exists>c door. refreshed p le b2 = Some c \<and> pin \<in> doorPins (gpio b) door \<and>
     (keypadOpens (keyEnv le) (keyWire le) (afterTimers p le c) door \<or> scannerOpens (scannerEnv le) (scannerMillis le) (afterUpdate p le c) door))"
proof
  assume up: "pinLevel (gpio b3) pin"
  let ?b1 = "processEvent p (stateCallback p) e ev b" and ?t0 = "scheduleMillis e"
  obtain d where d: "pin \<in> doorPins (gpio b) d"
    "timers ?b1 = snd (scheduleOnce (timers b) ?t0 DOOR_DELAY LOCK_DEACTIVATE (Some (dec_digits (unat d))))"
    using raise_schedules [OF processEvent_performs assms(1,7,5,6)] by blast
  obtain i where i: "findFreeSlot (timers b) = Some i" using findFreeSlot_None [of "timers b"] assms(3) by auto
  note free = findFreeSlot_Some [OF i]
  have "releases ?t0 d (timers ?b1 ! i)"
    using d(2) i free(1) assms(4) by (simp add: scheduleOnce_def setArg_def LOCK_DEACTIVATE_def releases_def cstr_strcpy_door)
  note rel = this
  have s1: "steady i b ?b1" by (rule processEvent_steady [OF assms(1)])
  then have u1: "switchUnused (others ?b1)" using assms(1) by (simp add: steady_def)
  note s2 = waiting_steady [OF assms(8) u1 rel]
  obtain c where r: "refreshed p le b2 = Some c"
    and n: "notifyAmbientChange la (updateBoxScanner p (scannerEnv le) (scannerMillis le) (afterUpdate p le c)) = (la', b3)"
    using assms(9) by (auto simp: loop_stages)
  obtain st where c: "c = b2\<lparr>credStore := st\<rparr>" using refreshed_same [OF r] by blast
  have s3: "steady i ?b1 c" using s2 by (simp add: c steady_def)
  then have uc: "switchUnused (others c)" using u1 by (simp add: steady_def)
  let ?q = "takeRequest p (webEnv le) c"
  let ?k = "pollContacts p (contactMillis le) (contactEnv le) ?q"
  have s4: "steady i ?b1 ?q" by (rule steady_trans [OF s3 takeRequest_steady [OF uc]])
  then have uq: "switchUnused (others ?q)" using u1 by (simp add: steady_def)
  have s5: "steady i ?b1 ?k" by (rule steady_trans [OF s4 conjunct1 [OF pollContacts_stage [OF uq]]])
  have k: "switchUnused (others ?k)" "length (timers ?k) = MAX_TIMERS" "i < MAX_TIMERS" "releases ?t0 d (timers ?k ! i)"
    "pin \<in> doorPins (gpio ?k) d"
    using s1 s5 u1 rel free(1) assms(2) d(1) by (simp_all add: steady_def releases_def)
  have low: "\<not> pinLevel (gpio (afterTimers p le c)) pin"
    unfolding afterTimers_def by (rule due_release_lowers [OF k(1-4) assms(10) k(5)])
  have high: "pinLevel (gpio (updateBoxScanner p (scannerEnv le) (scannerMillis le) (afterUpdate p le c))) pin"
    using notify_only [of "updateBoxScanner p (scannerEnv le) (scannerMillis le) (afterUpdate p le c)" la] n up
    by (simp add: onlyPeripherals_def)
  have "pin \<noteq> ambientPin (gpio c)" "doorPins (gpio c) = doorPins (gpio b)" using s1 s3 assms(6) by (simp_all add: steady_def)
  then show "\<exists>c door. refreshed p le b2 = Some c \<and> pin \<in> doorPins (gpio b) door \<and>
     (keypadOpens (keyEnv le) (keyWire le) (afterTimers p le c) door \<or> scannerOpens (scannerEnv le) (scannerMillis le) (afterUpdate p le c) door)"
    using rest_raises [OF uc low _ high] r by auto
qed

section \<open>A queued request is carried out\<close>

text \<open>
  Only \<open>takeRequest\<close> takes from the queue, and no stage makes a scanner ready: the state-change callback and
  the other stages leave both alone.
\<close>

definition standing :: "Peripherals \<Rightarrow> u8 list option \<times> bool" where
  "standing x = (webOpenRequests x, ready (boxScanner x))"

lemma standing_update [simp]:
  "standing (x\<lparr>keyStatus := k\<rparr>) = standing x" "standing (x\<lparr>padMode := m\<rparr>) = standing x" "standing (x\<lparr>webMessages := ws\<rparr>) = standing x"
  by (simp_all add: standing_def)

lemma processEvent_others:
  assumes "\<And>e old new t b. R (others b) \<Longrightarrow> R (others (runCallback cb e old new t b))" and "R (others b)"
  shows "R (others (processEvent p cb e ev b))"
  using processEvent_performs [of p cb e ev b] assms table_world
  by (fastforce simp: performs_def no_move.simps sameWorld_def transitionTo_eq moveTo_sel)

lemma updateMachine_others:
  assumes "\<And>e old new t b. R (others b) \<Longrightarrow> R (others (runCallback cb e old new t b))" and "R (others b)"
  shows "R (others (updateMachine p cb e now b))"
  using updateState_performs [of p cb e now "updateFlags now b"] assms table_world updateFlags_world(1) [of b now]
  by (fastforce simp: updateMachine_def performs_def no_move.simps sameWorld_def transitionTo_eq moveTo_sel)

lemma withScanner_standing: "standing (others (snd (withScanner f b))) = standing (others b)"
  by (simp add: withScanner_def split_beta standing_def)

lemma onStateChanged_standing: "standing (others (onStateChanged n p e old new t b)) = standing (others b)"
proof (induction n arbitrary: e old new t b)
  case (Suc n)
  have send: "standing (others (processEvent p (Some (onStateChanged n p)) e' ev c)) = standing (others c)" for e' ev c
    using processEvent_others [of "\<lambda>x. standing x = standing (others c)" "Some (onStateChanged n p)" c] Suc
    by (simp add: runCallback_def)
  show ?case
    by (simp add: scannerStateChanged_def Let_def case_prod_beta send withScanner_standing keysStateChanged_def updKeys_def)
qed simp

lemma queue_callback:
  "standing (others (runCallback (stateCallback p) e old new t b)) = standing (others b)"
  by (simp add: stateCallback_def runCallback_def onStateChanged_standing del: onStateChanged.simps)

lemma processEvent_standing: "standing (others (processEvent p (stateCallback p) e ev b)) = standing (others b)"
  using processEvent_others [of "\<lambda>x. standing x = standing (others b)" "stateCallback p" b] by (simp add: queue_callback)

lemma updateMachine_standing: "standing (others (updateMachine p (stateCallback p) e t b)) = standing (others b)"
  using updateMachine_others [of "\<lambda>x. standing x = standing (others b)" "stateCallback p" b] by (simp add: queue_callback)

lemma handleDueActions_standing: "standing (others (handleDueActions p e act a b)) = standing (others b)"
  by (simp add: handleDueActions_def Let_def processEvent_standing sendDoorState_def sendWeb_def logDoorNotice_def split_beta)

lemma pollContacts_standing: "standing (others (pollContacts p t env b)) = standing (others b)"
proof -
  have "standing (others (fold (\<lambda>d. handleDueActions p (env d) NOTIFY_DOOR_CHANGE (dec_digits (unat d))) ds c)) =
      standing (others c)" for ds c
    by (induction ds rule: rev_induct) (simp_all add: handleDueActions_standing)
  then show ?thesis by (simp add: pollContacts_def split_beta)
qed

lemma runTimers_standing: "standing (others (runTimers p env now b)) = standing (others b)"
proof -
  have slot: "standing (others (snd (update_slot (Some (timerHandler p env)) now k s))) = standing (others (snd s))" for k s
    by (simp add: update_slot_def Let_def timerHandler_def case_prod_beta handleDueActions_standing)
  have "standing (others (snd (fold (update_slot (Some (timerHandler p env)) now) ks s))) = standing (others (snd s))" for ks s
    by (induction ks rule: rev_induct) (simp_all add: slot)
  then show ?thesis by (simp add: runTimers_handler update_timers_def case_prod_beta)
qed

lemma pollKeys_standing: "standing (others (snd (pollKeys wire b))) = standing (others b)"
  by (simp add: pollKeys_def split_beta)

lemma handleKeyboard_standing: "standing (others (handleKeyboard p e wire b)) = standing (others b)"
  by (simp add: handleKeyboard_def Let_def case_prod_beta keyEvent_def processEvent_standing updKeys_def pollKeys_standing)

lemma updateBoxScanner_standing: "standing (others (updateBoxScanner p e now b)) = standing (others b)"
  by (simp add: updateBoxScanner_def Let_def case_prod_beta processEvent_standing withScanner_standing)

lemma afterTakeRequest_standing:
  "standing (others (snd (notifyAmbientChange la (updateBoxScanner p (scannerEnv le) (scannerMillis le) (afterUpdate p le b))))) =
   standing (others (takeRequest p (webEnv le) b))"
  by (simp add: notifyAmbientChange_def Let_def sendWeb_def updateBoxScanner_standing afterUpdate_def updateMachine_standing
      handleKeyboard_standing afterTimers_def runTimers_standing pollContacts_standing)

text \<open>The request itself.\<close>

lemma moveTo_Opening_pins:
  assumes "doorToOpen (ctx b) \<noteq> DOOR_UNKNOWN" and "pin \<in> doorPins (gpio b) (doorToOpen (ctx b))"
  shows "pinLevel (gpio (moveTo p e Opening now b)) pin"
proof -
  have d: "doorPins (gpio (onExit b)) (doorToOpen (ctx b)) = doorPins (gpio b) (doorToOpen (ctx b))"
    by (rule sameDoors_pins [OF onExit_doors])
  have ne: "doorPins (gpio b) (doorToOpen (ctx b)) \<noteq> {}" using assms(2) by auto
  show ?thesis
    using assms ne by (auto simp: moveTo_def onEnter_def onEnterOpening_def openDoor_eq box_defs d ambientOn_def)
qed

lemma takeRequest_opens:
  fixes b :: "'n Firmware"
  assumes "switchUnused (others b)" and "webOpenRequests (others b) = Some (d # qs)" and "state (ctx b) \<noteq> Opening"
    and "d \<noteq> DOOR_UNKNOWN" and "doorPins (gpio b) d \<noteq> {}"
  shows "\<forall>pin \<in> doorPins (gpio b) d. pinLevel (gpio (takeRequest p e b)) pin"
    and "timers (takeRequest p e b) = snd (scheduleOnce (timers b) (scheduleMillis e) DOOR_DELAY LOCK_DEACTIVATE (Some (dec_digits (unat d))))"
    and "webOpenRequests (others (takeRequest p e b)) = Some qs"
proof -
  let ?b1 = "updOthers (\<lambda>x. x\<lparr>webOpenRequests := Some qs\<rparr>) b" and ?ev = "(eventOf WebOpenBox)\<lparr>evDoorNum := d\<rparr>"
  define c where "c = updCtx (\<lambda>c. c\<lparr>doorToOpen := d, credVerified := False, scannedCredVerified := False\<rparr>) ?b1"
  have r: "takeRequest p e b = processEvent p (stateCallback p) e ?ev ?b1" using assms(2) by (simp add: takeRequest_def)
  have t: "processEvent p (stateCallback p) e ?ev ?b1 = transitionTo p (stateCallback p) e Opening (eventMillis e) c"
    by (simp add: processEvent_def handleWebEvent_def eventOf_def c_def)
  have cs: "switchUnused (others c)" "gpio c = gpio b" "timers c = timers b" "doorToOpen (ctx c) = d" "state (ctx c) \<noteq> Opening"
    using assms(1,3) by (simp_all add: c_def switchUnused_def)
  let ?m = "moveTo p e Opening (eventMillis e) c"
  have "switchUnused (others ?m)" using cs(1) by (simp add: moveTo_sel)
  from onStateChanged_not_Scan [OF this, of Opening 2 p e "state (ctx c)" "eventMillis e"]
  have o: "onlyPeripherals ?m (takeRequest p e b)"
    using cs(5) unfolding r t by (simp add: transitionTo_eq stateCallback_def runCallback_def del: onStateChanged.simps)
  show "\<forall>pin \<in> doorPins (gpio b) d. pinLevel (gpio (takeRequest p e b)) pin"
    using moveTo_Opening_pins [of c _ p e "eventMillis e"] o cs assms(4) by (simp add: onlyPeripherals_def)
  show "timers (takeRequest p e b) = snd (scheduleOnce (timers b) (scheduleMillis e) DOOR_DELAY LOCK_DEACTIVATE (Some (dec_digits (unat d))))"
    using o cs assms(4,5) by (simp add: onlyPeripherals_def moveTo_timers_eq)
  show "webOpenRequests (others (takeRequest p e b)) = Some qs" unfolding r using processEvent_standing [of p e ?ev ?b1] by (simp add: standing_def)
qed


end
