(* ===== verification/Loop_Witness.thy ===== *)
theory Loop_Witness
  imports Loop_Safety
begin

text \<open>
  The properties of the main loop at concrete passes: a box with one lock and an empty credential store is
  asked to open its door from the web, keeps the lock up, and lowers it half a second later.
\<close>

section \<open>A box with one lock\<close>

definition lockOnly :: GpioHAL where
  "lockOnly = newGpioHAL\<lparr>activeDoorNum := 1,
     doorMappings := [\<lparr>logDoorNum = 0, gpioPin = 1, statePin = INVALID_PIN, extenderNum = 0, lastState = False\<rparr>], ambientPin := 3\<rparr>"

definition boxWith :: "u8 list \<Rightarrow> unit Firmware" where
  "boxWith requests = newBox lockOnly newTimerManager emptyCredStorage (demoPeripherals\<lparr>webOpenRequests := Some requests\<rparr>)"

text \<open>A pass at the time \<open>t\<close>, with nothing on the keypad's bus.\<close>

definition passAt :: "u32 \<Rightarrow> LoopEnv" where
  "passAt t = \<lparr>rtcSynced = False, refreshTime = 0, webEnv = demoEnv, contactMillis = t, contactEnv = (\<lambda>_. demoEnv), timerMillis = t,
     timerEnv = (\<lambda>_ _. demoEnv), keyWire = [], keyEnv = demoEnv, machineMillis = t, machineEnv = demoEnv, scannerMillis = t,
     scannerEnv = demoEnv\<rparr>"

lemma passAt_sel: "webEnv (passAt t) = demoEnv" "keyWire (passAt t) = []"
  by (simp_all add: passAt_def)

definition passed :: "u32 \<Rightarrow> unit Firmware \<Rightarrow> unit Firmware" where
  "passed t b = snd (the (loop nullPreferences (passAt t) (0, b)))"

lemma refreshed_passAt: "refreshed p (passAt t) b = Some b"
  by (simp add: refreshed_def passAt_def)

lemma passed_loop: "\<exists>la. loop nullPreferences (passAt t) (0, b) = Some (la, passed t b)"
proof -
  obtain r where "loop nullPreferences (passAt t) (0, b) = Some r" by (simp add: loop_def passAt_def)
  then show ?thesis by (cases r) (simp add: passed_def)
qed

lemma lockOnly_pins: "doorPins lockOnly 0 = {1}" "ambientPin lockOnly = 3" "\<not> pinLevel lockOnly 1"
proof -
  let ?m = "\<lparr>logDoorNum = 0, gpioPin = 1, statePin = INVALID_PIN, extenderNum = 0, lastState = False\<rparr>"
  have "hasLock 0 ?m" by (simp add: hasLock_def INVALID_PIN_def)
  then have "{m \<in> set [?m]. hasLock 0 m} = {?m}" by auto
  moreover have "take (activeDoorNum lockOnly) (doorMappings lockOnly) = [?m]" by (simp add: lockOnly_def)
  ultimately show "doorPins lockOnly 0 = {1}" unfolding doorPins_def by simp
  show "ambientPin lockOnly = 3" "\<not> pinLevel lockOnly 1" by (simp_all add: lockOnly_def newGpioHAL_def)
qed

lemma boxWith_switch: "switchUnused (others (boxWith qs))"
  by (simp add: boxWith_def newBox_def demoPeripherals_def switchUnused_def newQrScanner_def defaultConfig_def)

lemma boxWith_timers:
  "length (timers (boxWith qs)) = MAX_TIMERS" "\<exists>t \<in> set (timers (boxWith qs)). \<not> active t"
  "\<forall>t \<in> set (timers (boxWith qs)). length (arg t) = MAX_TIMER_PARAMETERS"
  by (simp_all add: boxWith_def newBox_def newTimerManager_def emptyTimer_def MAX_TIMERS_def)

lemma boxWith_sel:
  "gpio (boxWith qs) = lockOnly" "webOpenRequests (others (boxWith qs)) = Some qs" "state (ctx (boxWith qs)) = Home"
  "ready (boxScanner (others (boxWith qs))) = False" "timers (boxWith qs) = newTimerManager"
  by (simp_all add: boxWith_def newBox_def demoPeripherals_def zeroContext_def newQrScanner_def)

text \<open>Such a pass has no input but the web request.\<close>

lemma no_pin: "\<not> keypadOpens e [] b door"
  by (simp add: keypadOpens_def enteredPin_def pollKeys_def pollKeyboard_def pollKeypad_def Let_def case_prod_beta)

lemma no_code:
  assumes "\<not> ready (boxScanner (others b))"
  shows "\<not> scannerOpens e t (afterUpdate p le b) door"
proof -
  have "standing (others (afterUpdate p le b)) = standing (others (takeRequest p (webEnv le) b))"
    by (simp add: afterUpdate_def updateMachine_standing handleKeyboard_standing afterTimers_def runTimers_standing pollContacts_standing)
  moreover have "ready (boxScanner (others (takeRequest p (webEnv le) b))) = ready (boxScanner (others b))"
    using processEvent_standing [of p "webEnv le"] by (auto simp: takeRequest_def standing_def split: option.split list.split)
  ultimately show ?thesis using assms by (simp add: scannerOpens_def scannedCode_def standing_def)
qed


theorem loop_opens_only_on_input_witness: "\<not> pinLevel (gpio (passed 8 (boxWith []))) 1"
proof -
  obtain la where l: "loop nullPreferences (passAt 8) (0, boxWith []) = Some (la, passed 8 (boxWith []))"
    using passed_loop by blast
  have "\<not> pinLevel (gpio (boxWith [])) 1" "1 \<noteq> ambientPin (gpio (boxWith []))" by (simp_all add: boxWith_sel lockOnly_pins)
  from loop_opens_only_on_input [OF l boxWith_switch this] show ?thesis
    using no_pin no_code [of "boxWith []"] by (auto simp: refreshed_passAt requestedDoor_def boxWith_sel passAt_sel)
qed

section \<open>The pulse\<close>

definition opened :: "unit Firmware" where
  "opened = processEvent nullPreferences (stateCallback nullPreferences) demoEnv ((eventOf WebOpenBox)\<lparr>evDoorNum := 0\<rparr>) (boxWith [])"

lemma opened_high: "pinLevel (gpio opened) 1"
proof -
  have eq: "opened = takeRequest nullPreferences demoEnv (updOthers (\<lambda>x. x\<lparr>webOpenRequests := Some [0]\<rparr>) (boxWith []))"
    by (simp add: opened_def takeRequest_def updOthers_def boxWith_def newBox_def demoPeripherals_def)
  let ?b = "updOthers (\<lambda>x. x\<lparr>webOpenRequests := Some [0]\<rparr>) (boxWith [])"
  have "switchUnused (others ?b)" "webOpenRequests (others ?b) = Some [0]" "state (ctx ?b) \<noteq> Opening" "(0 :: u8) \<noteq> DOOR_UNKNOWN"
    "doorPins (gpio ?b) 0 \<noteq> {}"
    using boxWith_switch by (simp_all add: boxWith_sel lockOnly_pins DOOR_UNKNOWN_def switchUnused_def)
  from takeRequest_opens(1) [OF this] show ?thesis by (simp add: eq boxWith_sel lockOnly_pins)
qed

lemma opened_ready: "ready (boxScanner (others opened)) = False"
  using processEvent_standing [of nullPreferences demoEnv "(eventOf WebOpenBox)\<lparr>evDoorNum := 0\<rparr>" "boxWith []"]
  by (simp add: opened_def standing_def boxWith_sel)

theorem lock_pulse_ends_witness:
  "pinLevel (gpio opened) 1 \<and> \<not> pinLevel (gpio (passed 600 (passed 300 (passed 8 opened)))) 1"
proof -
  let ?b = "boxWith []" and ?late = "passed 300 (passed 8 opened)"
  have times: "\<not> timeoutElapsed (scheduleMillis demoEnv) DOOR_DELAY (timerMillis (passAt 8))"
    "\<not> timeoutElapsed (scheduleMillis demoEnv) DOOR_DELAY (timerMillis (passAt 300))"
    "timeoutElapsed (scheduleMillis demoEnv) DOOR_DELAY (timerMillis (passAt 600))"
    by (simp_all add: timeoutElapsed_def passAt_def demoEnv_def DOOR_DELAY_def word_le_nat_alt)
  obtain la1 la2 la3 where l: "loop nullPreferences (passAt 8) (0, opened) = Some (la1, passed 8 opened)"
    "loop nullPreferences (passAt 300) (0, passed 8 opened) = Some (la2, ?late)"
    "loop nullPreferences (passAt 600) (0, ?late) = Some (la3, passed 600 ?late)"
    using passed_loop by blast
  have w: "waiting nullPreferences (scheduleMillis demoEnv) opened ?late"
    by (rule loop_waits [OF loop_waits [OF waiting.now l(1) times(1)] l(2) times(2)])
  have ready: "ready (boxScanner (others (passed t b))) = ready (boxScanner (others b))" for t b
  proof -
    obtain la where "loop nullPreferences (passAt t) (0, b) = Some (la, passed t b)" using passed_loop by blast
    then have "passed t b = snd (notifyAmbientChange 0 (updateBoxScanner nullPreferences (scannerEnv (passAt t)) (scannerMillis (passAt t))
        (afterUpdate nullPreferences (passAt t) b)))"
      by (auto simp: loop_stages refreshed_passAt dest: arg_cong [of _ _ snd])
    then have "standing (others (passed t b)) = standing (others (takeRequest nullPreferences (webEnv (passAt t)) b))"
      using afterTakeRequest_standing by metis
    then show ?thesis using processEvent_standing [of nullPreferences "webEnv (passAt t)"]
      by (auto simp: takeRequest_def standing_def split: option.splits list.splits)
  qed
  have low: "\<not> pinLevel (gpio ?b) 1" "1 \<noteq> ambientPin (gpio ?b)" by (simp_all add: boxWith_sel lockOnly_pins)
  note r = lock_pulse_ends [OF boxWith_switch boxWith_timers low opened_high [unfolded opened_def] w [unfolded opened_def]
      l(3) [unfolded opened_def] times(3), folded opened_def]
  have "\<not> ready (boxScanner (others ?late))" using ready opened_ready by simp
  note nc = no_code [OF this]
  show ?thesis using r no_pin nc opened_high by (auto simp: refreshed_passAt passAt_sel)
qed

end
