(* ===== verification/Link_Watchdog.thy ===== *)
theory Link_Watchdog
  imports Vpn_Runs
begin

text \<open>
  The watchdog of the WiFi link, \<open>checkLinkStatus\<close> of \<open>src/src/main.cpp\<close>: it restarts a stuck association, and stops and
  starts the tunnel as the link goes and comes.  The link's status and the local address are arguments; the calls to
  the WiFi library and to the display are outputs.
\<close>

definition WIFI_RECOVERY_RESET_INTERVAL_MS :: u32 where "WIFI_RECOVERY_RESET_INTERVAL_MS = 15000"
definition LINK_CHECK_INTERVAL :: u32 where "LINK_CHECK_INTERVAL = 3000"

datatype LinkAction = WifiReconnect | WifiRestart | ShowOffline | ShowOnline

record LinkState =
  wifiState :: bool
  wifiRecoveryActive :: bool
  wifiRecoveryResetMillis :: u32
  linkStatusMillis :: u32
  linkStatusStarted :: bool

text \<open>What \<open>setup\<close> leaves when it found the link up or gave up waiting for it.\<close>

definition setupLink :: "bool \<Rightarrow> LinkState" where
  "setupLink up = \<lparr>wifiState = up, wifiRecoveryActive = False, wifiRecoveryResetMillis = 0, linkStatusMillis = 0,
     linkStatusStarted = False\<rparr>"

definition linkDown :: "u32 \<Rightarrow> LinkState \<Rightarrow> LinkAction list \<times> LinkState" where
  "linkDown now s =
     (let s1 = (if wifiState s then s\<lparr>wifiRecoveryResetMillis := now, wifiRecoveryActive := True\<rparr> else s) in
      if \<not> wifiRecoveryActive s1
      then ([WifiReconnect, ShowOffline], s1\<lparr>wifiRecoveryResetMillis := now, wifiRecoveryActive := True, wifiState := False\<rparr>)
      else if timeoutElapsed (wifiRecoveryResetMillis s1) WIFI_RECOVERY_RESET_INTERVAL_MS now
      then ([WifiRestart, ShowOffline], s1\<lparr>wifiRecoveryResetMillis := now, wifiRecoveryActive := True, wifiState := False\<rparr>)
      else ([ShowOffline], s1\<lparr>wifiState := False\<rparr>))"

text \<open>The status is read once here and once more in \<open>startVpn\<close>.\<close>

definition checkLinkStatus ::
  "bool \<Rightarrow> bool \<Rightarrow> bool \<Rightarrow> bool \<Rightarrow> BoxConfig \<Rightarrow> string \<Rightarrow> u32 \<Rightarrow> LinkState \<Rightarrow> ('r, 'w) VPNManager \<Rightarrow>
     LinkAction list \<times> LinkState \<times> ('r, 'w) VPNManager" where
  "checkLinkStatus up stillUp queueCreated taskCreated box localIp now s m =
     (case (if \<not> up
            then (case linkDown now s of (acts, s1) \<Rightarrow> (acts, s1, if wifiState s then snd (disconnectVpn m) else m))
            else ([ShowOnline], s\<lparr>wifiState := True, wifiRecoveryActive := False\<rparr>,
                  if \<not> wifiState s then snd (startVpn stillUp queueCreated taskCreated box localIp m) else m)) of
        (acts, s1, m1) \<Rightarrow> (acts, s1\<lparr>linkStatusMillis := now, linkStatusStarted := True\<rparr>, m1))"

text \<open>The part of \<open>loop\<close> that calls it.\<close>

definition linkDue :: "u32 \<Rightarrow> LinkState \<Rightarrow> bool" where
  "linkDue now s \<longleftrightarrow> \<not> linkStatusStarted s \<or> timeoutElapsed (linkStatusMillis s) LINK_CHECK_INTERVAL now"

section \<open>The tunnel follows the link\<close>

text \<open>
  A run: the main loop checks the link now and then, with an address while it is up, the queue and the task can be
  created, and the worker of the tunnel takes commands and turns in between.
\<close>

inductive link_step ::
  "'r Ringbuf \<Rightarrow> ('r, 'w) Net \<Rightarrow> 'w Ssh \<Rightarrow> BoxConfig \<Rightarrow> LinkState \<times> ('r, 'w) VPNManager \<Rightarrow> LinkState \<times> ('r, 'w) VPNManager \<Rightarrow> bool"
  for R :: "'r Ringbuf" and N :: "('r, 'w) Net" and S :: "'w Ssh" and box :: BoxConfig where
  link_check: "linkDue now s \<Longrightarrow> cstr localIp = localIp \<Longrightarrow> localIp \<noteq> [] \<Longrightarrow>
    link_step R N S box (s, m) (snd (checkLinkStatus up up True True box localIp now s m))"
| link_command: "workerTask m \<Longrightarrow> link_step R N S box (s, m) (s, workerCommand N S m)"
| link_turn: "workerTask m \<Longrightarrow> link_step R N S box (s, m) (s, workerUpdate R N S rs m)"

text \<open>What the manager is going to be once the worker has taken the waiting command.\<close>

definition intended :: "('r, 'w) VPNManager \<Rightarrow> bool" where
  "intended m = (case commandQueue m of Some (Some (Configure v)) \<Rightarrow> True | Some (Some Disconnect) \<Rightarrow> False | _ \<Rightarrow> configured m)"

definition follows :: "BoxConfig \<Rightarrow> LinkState \<times> ('r, 'w) VPNManager \<Rightarrow> bool" where
  "follows box = (\<lambda>(s, m). configMutex (globalSSHConfig m) \<and> intended m = wifiState s \<and>
     (\<forall>v. commandQueue m = Some (Some (Configure v)) \<longrightarrow>
        (\<exists>localIp. cstr localIp = localIp \<and> localIp \<noteq> [] \<and> v = boxVpnConfig box localIp)) \<and>
     (commandQueue m = None \<longrightarrow> \<not> workerTask m \<and> \<not> configured m) \<and>
     (\<not> configured m \<longrightarrow> tunnelState (sshTunnelClient m) = TUNNEL_DISCONNECTED))"

lemma linkDown_state [simp]: "wifiState (snd (linkDown now s)) = False"
  by (simp add: linkDown_def Let_def)

lemma check_follows:
  assumes ok: "configOk gpio box" and f: "follows box (s, m)" and ip: "cstr localIp = localIp" "localIp \<noteq> []"
  shows "follows box (snd (checkLinkStatus up up True True box localIp now s m))"
proof (cases up)
  case False
  have "follows box (s1, snd (disconnectVpn m))" if "\<not> wifiState s1" "wifiState s" for s1
    using f that by (auto simp: follows_def disconnectVpn_def intended_def split: option.splits)
  moreover have "follows box (s1, m)" if "\<not> wifiState s1" "\<not> wifiState s" for s1
    using f that by (simp add: follows_def)
  moreover have "snd (checkLinkStatus up up True True box localIp now s m) =
      ((snd (linkDown now s))\<lparr>linkStatusMillis := now, linkStatusStarted := True\<rparr>, if wifiState s then snd (disconnectVpn m) else m)"
    using False by (simp add: checkLinkStatus_def case_prod_beta)
  ultimately show ?thesis by (cases "wifiState s") simp_all
next
  case True
  have v: "isConfigValid (boxVpnConfig box localIp)" by (rule box_config_valid [OF ok]) (simp add: ip)
  then have b: "snd (startVpn True True True box localIp m) =
      (snd (startWorker True True m))\<lparr>commandQueue := Some (Some (Configure (boxVpnConfig box localIp))), vpnState := VpnDisconnected\<rparr>"
    by (simp add: startVpn_def beginVpn_def startWorker_def)
  have "follows box (s1, snd (startVpn True True True box localIp m))" if "wifiState s1" for s1
    using f that ip by (auto simp: b follows_def intended_def startWorker_def)
  moreover have "follows box (s1, m)" if "wifiState s1" "wifiState s" for s1
    using f that by (simp add: follows_def)
  moreover have "snd (checkLinkStatus up up True True box localIp now s m) =
      (s\<lparr>wifiState := True, wifiRecoveryActive := False, linkStatusMillis := now, linkStatusStarted := True\<rparr>,
       if wifiState s then m else snd (startVpn True True True box localIp m))"
    using True by (simp add: checkLinkStatus_def)
  ultimately show ?thesis by (cases "wifiState s") simp_all
qed

lemma connectInternal_fields [simp]:
  "configured (snd (connectInternal N S rs m)) = configured m" "commandQueue (snd (connectInternal N S rs m)) = commandQueue m"
  "globalSSHConfig (snd (connectInternal N S rs m)) = globalSSHConfig m"
  by (simp_all add: connectInternal_def initClient_def case_prod_beta)

lemma update_fields [simp]:
  "configured (workerUpdate R N S rs m) = configured m" "commandQueue (workerUpdate R N S rs m) = commandQueue m"
  "globalSSHConfig (workerUpdate R N S rs m) = globalSSHConfig m"
  by (simp_all add: workerUpdate_def updateInternal_def case_prod_beta Let_def)

lemma update_unconfigured:
  "\<not> configured m \<Longrightarrow> tunnelState (sshTunnelClient (workerUpdate R N S rs m)) = tunnelState (sshTunnelClient m)"
  by (simp add: workerUpdate_def)

lemma update_intended [simp]: "intended (workerUpdate R N S rs m) = intended m"
  by (auto simp: intended_def split: option.splits Command.splits)

lemma turn_follows:
  assumes "follows box (s, m)" "workerTask m"
  shows "follows box (s, workerUpdate R N S rs m)"
  using assms by (auto simp: follows_def update_unconfigured)

lemma command_follows:
  assumes ok: "configOk gpio box" and f: "follows box (s, m)"
  shows "follows box (s, workerCommand N S m)"
proof (cases "commandQueue m")
  case (Some c)
  show ?thesis
  proof (cases c)
    case None
    then show ?thesis using f Some by (simp add: workerCommand_def)
  next
    case cmd: (Some cmd)
    let ?m = "disconnectInternal N S (m\<lparr>commandQueue := Some None\<rparr>)"
    have g: "globalSSHConfig ?m = globalSSHConfig m" "commandQueue ?m = Some None"
      "tunnelState (sshTunnelClient ?m) = TUNNEL_DISCONNECTED" by (simp_all add: disconnectInternal_def)
    show ?thesis
    proof (cases cmd)
      case Disconnect
      then show ?thesis using f g by (simp add: workerCommand_def handleCommand_def Some cmd follows_def intended_def)
    next
      case (Configure v)
      then obtain localIp where v: "v = boxVpnConfig box localIp" "cstr localIp = localIp" "localIp \<noteq> []"
        using f by (auto simp: follows_def Some cmd)
      have valid: "isConfigValid v" unfolding v(1) by (rule box_config_valid [OF ok]) (simp add: v)
      have m: "configMutex (globalSSHConfig m)" using f by (simp add: follows_def)
      have "fst (applyConfig v (globalSSHConfig m))"
        unfolding applied_valid [OF m valid] by (simp add: v(1) boxVpnConfig_def newVPNConfig_def)
      then show ?thesis using f g m
        by (simp add: workerCommand_def handleCommand_def Some cmd Configure Let_def case_prod_beta follows_def intended_def)
    qed
  qed
qed (use f in \<open>simp add: workerCommand_def\<close>)

text \<open>
  The tunnel follows the WiFi link.  From the start of the box on, whenever the worker has no command waiting, it
  is configured exactly if the last check found the link up, however checks, commands and turns of the worker fell
  together; and with the link down its tunnel is disconnected, so that no turn uses a dead network.
\<close>

theorem tunnel_follows_link:
  assumes ok: "configOk gpio box" and "freshVpn m\<^sub>0" "configMutex (globalSSHConfig m\<^sub>0)" "cstr localIp = localIp" "localIp \<noteq> []"
    and "(link_step R N S box)\<^sup>*\<^sup>* (setupLink up, snd (startVpn up True True box localIp m\<^sub>0)) (s, m)"
    and "commandQueue m \<in> {None, Some None}"
  shows "(configured m \<longleftrightarrow> wifiState s) \<and> (\<not> wifiState s \<longrightarrow> tunnelState (sshTunnelClient m) = TUNNEL_DISCONNECTED)"
proof -
  have v: "isConfigValid (boxVpnConfig box localIp)" by (rule box_config_valid [OF ok]) (simp add: assms)
  have start: "follows box (setupLink up, snd (startVpn up True True box localIp m\<^sub>0))"
    using assms(2-5) v by (auto simp: follows_def intended_def freshVpn_def setupLink_def startVpn_def beginVpn_def startWorker_def)
  from assms(6) have "follows box (s, m)"
  proof (induction "(s, m)" arbitrary: s m rule: rtranclp_induct)
    case base
    then show ?case using start by simp
  next
    case (step y)
    obtain s1 m1 where y: "y = (s1, m1)" by (rule prod.exhaust)
    have f: "follows box (s1, m1)" by (rule step.hyps(3) [OF y])
    from step.hyps(2) [unfolded y] show ?case
      by (cases rule: link_step.cases) (use check_follows [OF ok f] command_follows [OF ok f] turn_follows [OF f] in \<open>auto\<close>)
  qed
  then show ?thesis using assms(7) by (auto simp: follows_def intended_def)
qed

text \<open>
  The link counts as restored before the tunnel is started, and the result of the start is ignored: if it fails, no
  later check tries again while the link stays up.
\<close>

theorem failed_start_not_retried:
  assumes "\<not> wifiState s" "\<not> fst (startVpn stillUp queueCreated taskCreated box localIp m)"
    and "checkLinkStatus True stillUp queueCreated taskCreated box localIp now s m = (acts, s1, m1)"
  shows "checkLinkStatus True stillUp2 queueCreated2 taskCreated2 box localIp2 now2 s1 m1 =
    ([ShowOnline], s1\<lparr>linkStatusMillis := now2\<rparr>, m1)"
  using assms by (auto simp: checkLinkStatus_def)

end
