(* ===== verification/Link_Witness.thy ===== *)
theory Link_Witness
  imports Link_Watchdog Vpn_Witness
begin

text \<open>The theorems about the watchdog of the link, at a concrete box: the link comes, goes, and the worker keeps up.\<close>

abbreviation bootedVpn :: "(ring, nat list option) VPNManager" where
  "bootedVpn \<equiv> snd (startVpn True True True builtinConfig ''10.0.0.2'' demoVpn)"

abbreviation lostVpn :: "(ring, nat list option) VPNManager" where
  "lostVpn \<equiv> snd (disconnectVpn (workerCommand libNet libSsh bootedVpn))"

lemma booted: "workerTask bootedVpn" "commandQueue bootedVpn = Some (Some (Configure (boxVpnConfig builtinConfig ''10.0.0.2'')))"
proof -
  have "isConfigValid (boxVpnConfig builtinConfig ''10.0.0.2'')" by (rule box_config_valid [OF builtin_ok]) (simp add: cstr_def)
  then show "workerTask bootedVpn" "commandQueue bootedVpn = Some (Some (Configure (boxVpnConfig builtinConfig ''10.0.0.2'')))"
    by (simp_all add: startVpn_def beginVpn_def startWorker_def demoVpn_def)
qed

lemma kept_task: "workerTask (workerCommand N S m) = workerTask m" "workerTask (snd (disconnectVpn m)) = workerTask m"
  by (simp_all add: workerCommand_def handleCommand_def disconnectInternal_def onTunnel_def disconnectVpn_def Let_def case_prod_beta
      split: option.splits Command.splits)

lemma lost_run:
  "(link_step arrayRing libNet libSsh builtinConfig)\<^sup>*\<^sup>* (setupLink True, bootedVpn)
     (snd (linkDown 5000 (setupLink True))\<lparr>linkStatusMillis := 5000, linkStatusStarted := True\<rparr>, workerCommand libNet libSsh lostVpn)"
proof -
  let ?s = "snd (linkDown 5000 (setupLink True))\<lparr>linkStatusMillis := 5000, linkStatusStarted := True\<rparr>"
  have 1: "link_step arrayRing libNet libSsh builtinConfig (setupLink True, bootedVpn) (setupLink True, workerCommand libNet libSsh bootedVpn)"
    by (rule link_command [OF booted(1)])
  have d: "snd (checkLinkStatus False False True True builtinConfig ''10.0.0.2'' 5000 (setupLink True) (workerCommand libNet libSsh bootedVpn)) =
      (?s, lostVpn)"
    by (simp add: checkLinkStatus_def case_prod_beta setupLink_def)
  have "link_step arrayRing libNet libSsh builtinConfig (setupLink True, workerCommand libNet libSsh bootedVpn)
      (snd (checkLinkStatus False False True True builtinConfig ''10.0.0.2'' 5000 (setupLink True) (workerCommand libNet libSsh bootedVpn)))"
    by (rule link_check) (simp_all add: linkDue_def setupLink_def cstr_def)
  then have 2: "link_step arrayRing libNet libSsh builtinConfig (setupLink True, workerCommand libNet libSsh bootedVpn) (?s, lostVpn)"
    unfolding d .
  have 3: "link_step arrayRing libNet libSsh builtinConfig (?s, lostVpn) (?s, workerCommand libNet libSsh lostVpn)"
    by (rule link_command) (simp add: kept_task booted)
  show ?thesis using 1 2 3 by (meson converse_rtranclp_into_rtranclp rtranclp.rtrancl_refl)
qed

theorem tunnel_follows_link_witness:
  "\<not> configured (workerCommand libNet libSsh lostVpn) \<and>
   tunnelState (sshTunnelClient (workerCommand libNet libSsh lostVpn)) = TUNNEL_DISCONNECTED"
proof -
  have ip: "cstr ''10.0.0.2'' = ''10.0.0.2''" "''10.0.0.2'' \<noteq> []" by (simp_all add: cstr_def)
  have q: "commandQueue (workerCommand libNet libSsh lostVpn) \<in> {None, Some None}"
    by (simp add: workerCommand_def handleCommand_def disconnectInternal_def Let_def case_prod_beta split: option.split Command.split)
  show ?thesis
    using tunnel_follows_link [OF builtin_ok demo_fresh ip lost_run q] by simp
qed

theorem failed_start_not_retried_witness:
  "snd (snd (checkLinkStatus True True True True builtinConfig ''10.0.0.2'' 6000
     (fst (snd (checkLinkStatus True True True False builtinConfig ''10.0.0.2'' 3000 (setupLink False) demoVpn)))
     (snd (snd (checkLinkStatus True True True False builtinConfig ''10.0.0.2'' 3000 (setupLink False) demoVpn))))) =
   snd (snd (checkLinkStatus True True True False builtinConfig ''10.0.0.2'' 3000 (setupLink False) demoVpn))"
proof -
  let ?c = "checkLinkStatus True True True False builtinConfig ''10.0.0.2'' 3000 (setupLink False) demoVpn"
  have f: "\<not> fst (startVpn True True False builtinConfig ''10.0.0.2'' demoVpn)" "\<not> wifiState (setupLink False)"
    by (simp_all add: startVpn_def beginVpn_def startWorker_def demoVpn_def setupLink_def)
  have "?c = (fst ?c, fst (snd ?c), snd (snd ?c))" by simp
  from failed_start_not_retried [OF f(2,1) this] show ?thesis by simp
qed

end
