(* ===== verification/Web_Socket.thy ===== *)
theory Web_Socket
  imports Timeout "HOL-Library.Multiset"
begin

text \<open>
  The browsers connected to the box, \<open>src/include/websocket.h\<close> and \<open>src/src/websocket.cpp\<close>: the table of
  command handlers, and the table of clients that the watchdog pings and closes.  A client is the
  address of its object, which ESPAsyncWebServer allocates; messages and closings are outputs, in order.
\<close>

definition CMD_COUNT :: nat where "CMD_COUNT = 16"
definition DEFAULT_MAX_WS_CLIENTS :: nat where "DEFAULT_MAX_WS_CLIENTS = 15"
definition WATCHDOG_INTERVAL :: u32 where "WATCHDOG_INTERVAL = 10000"
definition COMM_WATCHDOG_PING :: string where "COMM_WATCHDOG_PING = ''_ping_''"
definition COMM_WATCHDOG_PONG :: string where "COMM_WATCHDOG_PONG = ''_pong_''"

section \<open>Commands\<close>

text \<open>A handler is named by a value of type \<open>'h\<close>; \<open>None\<close> is an empty entry.\<close>

record 'h Commands =
  commandEntries :: "(string \<times> 'h option) list"
  cmdIndex :: nat

definition registerMessageHandler :: "string \<Rightarrow> 'h option \<Rightarrow> 'h Commands \<Rightarrow> int \<times> 'h Commands" where
  "registerMessageHandler command handler c =
     (if cmdIndex c < CMD_COUNT
      then (0, c\<lparr>commandEntries := (commandEntries c)[cmdIndex c := (command, handler)], cmdIndex := cmdIndex c + 1\<rparr>)
      else (- 1, c))"

text \<open>\<open>initializeWebSocket\<close> empties the table, but not the index, and registers the answer to the ping.\<close>

definition initializeWebSocket :: "'h \<Rightarrow> 'h Commands \<Rightarrow> 'h Commands" where
  "initializeWebSocket pong c =
     snd (registerMessageHandler COMM_WATCHDOG_PONG (Some pong) (c\<lparr>commandEntries := replicate CMD_COUNT ([], None)\<rparr>))"

text \<open>The request is what ArduinoJson finds: nothing, or the text of the command and whether \<open>data\<close> is an object.\<close>

definition handleWebSocketMessage :: "nat \<Rightarrow> (string option \<times> bool) option \<Rightarrow> 'h Commands \<Rightarrow> 'h option" where
  "handleWebSocketMessage len request c =
     (if len = 0 then None
      else case request of
          Some (Some command, True) \<Rightarrow>
            if cstr command = [] then None
            else (case find (\<lambda>(n, h). h \<noteq> None \<and> cstr command = cstr n) (take CMD_COUNT (commandEntries c)) of
                None \<Rightarrow> None | Some (n, h) \<Rightarrow> h)
        | _ \<Rightarrow> None)"

text \<open>
  A registered command reaches its handler: after \<open>initializeWebSocket\<close> and the registration of up to fifteen further
  commands with different names, a message with one of these names is handled by its handler and a message with
  any other by none; a seventeenth registration is refused.
\<close>

definition registerAll :: "(string \<times> 'h) list \<Rightarrow> 'h Commands \<Rightarrow> 'h Commands" where
  "registerAll cs c = fold (\<lambda>(n, h) c. snd (registerMessageHandler n (Some h) c)) cs c"

lemma registered_entries:
  assumes "cmdIndex c + length cs \<le> CMD_COUNT" and "commandEntries c = es @ replicate (CMD_COUNT - length es) ([], None)" and "cmdIndex c = length es"
  shows "commandEntries (registerAll cs c) = es @ map (map_prod id Some) cs @ replicate (CMD_COUNT - length es - length cs) ([], None)
    \<and> cmdIndex (registerAll cs c) = length es + length cs"
  using assms
proof (induction cs arbitrary: c es)
  case Nil
  then show ?case by (simp add: registerAll_def)
next
  case (Cons x cs)
  obtain n h where x: "x = (n, h)" by (cases x)
  let ?c = "snd (registerMessageHandler n (Some h) c)"
  have lt: "length es < CMD_COUNT" using Cons.prems by simp
  have r: "replicate (CMD_COUNT - length es) ([], None) = ([], None) # replicate (CMD_COUNT - Suc (length es)) ([], None)"
    by (simp only: Suc_diff_Suc [OF lt, symmetric] replicate_Suc)
  have en: "commandEntries c = es @ ([], None) # replicate (CMD_COUNT - Suc (length es)) ([], None)"
    using Cons.prems(2) unfolding r .
  have e: "commandEntries ?c = (es @ [(n, Some h)]) @ replicate (CMD_COUNT - length (es @ [(n, Some h)])) ([], None)"
    "cmdIndex ?c = length (es @ [(n, Some h)])"
    using Cons.prems(3) en lt by (simp_all add: registerMessageHandler_def)
  have "cmdIndex ?c + length cs \<le> CMD_COUNT" using Cons.prems e(2) by simp
  from Cons.IH [OF this e] show ?case by (simp add: registerAll_def x)
qed

theorem registered_command_is_handled:
  fixes cs :: "(string \<times> 'h) list"
  assumes "cmdIndex c = 0" and "length cs < CMD_COUNT" and "distinct (COMM_WATCHDOG_PONG # map fst cs)" and "\<forall>n \<in> fst ` set cs. cstr n = n"
  shows "(let t = registerAll cs (initializeWebSocket pong c) in
      \<forall>len command. 0 < len \<and> cstr command = command \<and> command \<noteq> [] \<longrightarrow>
        handleWebSocketMessage len (Some (Some command, True)) t = map_of ((COMM_WATCHDOG_PONG, pong) # cs) command)
    \<and> (length cs = CMD_COUNT - 1 \<longrightarrow> fst (registerMessageHandler n h (registerAll cs (initializeWebSocket pong c))) = - 1)"
proof -
  let ?i = "initializeWebSocket pong c" and ?es = "[(COMM_WATCHDOG_PONG, Some pong)]"
  have i: "commandEntries ?i = ?es @ replicate (CMD_COUNT - length ?es) ([], None)" "cmdIndex ?i = length ?es"
    using assms(1) by (simp_all add: initializeWebSocket_def registerMessageHandler_def CMD_COUNT_def numeral_eq_Suc)
  have "cmdIndex ?i + length cs \<le> CMD_COUNT" using i(2) assms(2) by simp
  note r = registered_entries [OF this i]
  have f: "(case find (\<lambda>(n, h). h \<noteq> None \<and> command = cstr n) (map (map_prod id Some) xs @ replicate k ([], None)) of
      None \<Rightarrow> None | Some (n, h) \<Rightarrow> h) = map_of xs command" if "\<forall>n \<in> fst ` set xs. cstr n = n" for xs :: "(string \<times> 'h) list" and k command
    using that
  proof (induction xs)
    case Nil
    have "find (\<lambda>(n, h). h \<noteq> None \<and> command = cstr n) (replicate k ([], None :: 'h option)) = None"
      by (auto simp: find_None_iff in_set_replicate)
    then show ?case by simp
  qed (auto split: prod.split)
  have pong: "cstr COMM_WATCHDOG_PONG = COMM_WATCHDOG_PONG" by (simp add: COMM_WATCHDOG_PONG_def cstr_def)
  have all: "\<forall>n \<in> fst ` set ((COMM_WATCHDOG_PONG, pong) # cs). cstr n = n" using assms(4) pong by simp
  have "take CMD_COUNT (commandEntries (registerAll cs ?i)) =
      map (map_prod id Some) ((COMM_WATCHDOG_PONG, pong) # cs) @ replicate (CMD_COUNT - length ?es - length cs) ([], None)"
    using r assms(2) by simp
  then have "handleWebSocketMessage len (Some (Some command, True)) (registerAll cs ?i) = map_of ((COMM_WATCHDOG_PONG, pong) # cs) command"
    if "0 < len" "cstr command = command" "command \<noteq> []" for len command
    using that f [OF all, of command] by (simp add: handleWebSocketMessage_def)
  moreover have "fst (registerMessageHandler n h (registerAll cs ?i)) = - 1" if "length cs = CMD_COUNT - 1"
    using r that assms(2) by (simp add: registerMessageHandler_def)
  ultimately show ?thesis by (simp add: Let_def)
qed

section \<open>The watchdog\<close>

record WatchDogEntry =
  entryActive :: bool
  clientId :: nat
  lastPongTime :: u32

record WebSocketManager =
  watchDogEntries :: "WatchDogEntry list"
  freeWatchdogEntry :: nat
  watchdogFeedStartedAt :: u32
  watchdogFeedStarted :: bool

datatype WsOutput = NotifyClients string | CloseClient nat | LogWatchdogLimit | LogInvalidIndex

definition newWebSocketManager :: WebSocketManager where
  "newWebSocketManager = \<lparr>watchDogEntries = replicate DEFAULT_MAX_WS_CLIENTS \<lparr>entryActive = False, clientId = 0, lastPongTime = 0\<rparr>,
     freeWatchdogEntry = 0, watchdogFeedStartedAt = 0, watchdogFeedStarted = False\<rparr>"

text \<open>The entries behind move up by one.\<close>

definition watchdogRemoveEntryIdx :: "nat \<Rightarrow> WebSocketManager \<Rightarrow> WebSocketManager" where
  "watchdogRemoveEntryIdx clientIdx m =
     (if freeWatchdogEntry m \<le> clientIdx then m
      else
        let es = watchDogEntries m;
            es1 = (if entryActive (es ! clientIdx) then es[clientIdx := (es ! clientIdx)\<lparr>entryActive := False\<rparr>] else es);
            es2 = fold (\<lambda>fidx es. es[fidx := es ! (fidx + 1)]) [clientIdx..<freeWatchdogEntry m - 1] es1
        in m\<lparr>watchDogEntries := es2, freeWatchdogEntry := freeWatchdogEntry m - 1\<rparr>)"

definition watches :: "nat \<Rightarrow> WatchDogEntry \<Rightarrow> bool" where
  "watches client e \<longleftrightarrow> entryActive e \<and> clientId e = client"

function remove_loop :: "nat \<Rightarrow> nat \<Rightarrow> WebSocketManager \<Rightarrow> WebSocketManager" where
  "remove_loop client cidx m =
     (if cidx < freeWatchdogEntry m
      then remove_loop client (cidx + 1) (if watches client (watchDogEntries m ! cidx) then watchdogRemoveEntryIdx cidx m else m)
      else m)"
  by pat_completeness auto
termination
  by (relation "measure (\<lambda>(client, cidx, m). freeWatchdogEntry m - cidx)")
    (auto simp: watchdogRemoveEntryIdx_def Let_def)

declare remove_loop.simps [simp del]

definition watchdogRemoveEntry :: "nat \<Rightarrow> WebSocketManager \<Rightarrow> WebSocketManager" where
  "watchdogRemoveEntry client m = remove_loop client 0 m"

definition handleWatchdogResponse :: "nat \<Rightarrow> u32 \<Rightarrow> WebSocketManager \<Rightarrow> WsOutput list \<times> WebSocketManager" where
  "handleWatchdogResponse client millis m =
     (case find (\<lambda>cidx. watches client (watchDogEntries m ! cidx)) [0..<freeWatchdogEntry m] of
        Some cidx \<Rightarrow> ([], m\<lparr>watchDogEntries := (watchDogEntries m)[cidx := (watchDogEntries m ! cidx)\<lparr>lastPongTime := millis\<rparr>]\<rparr>)
      | None \<Rightarrow>
          if freeWatchdogEntry m < DEFAULT_MAX_WS_CLIENTS
          then ([], m\<lparr>watchDogEntries := (watchDogEntries m)[freeWatchdogEntry m := \<lparr>entryActive = True, clientId = client, lastPongTime = millis\<rparr>],
                     freeWatchdogEntry := freeWatchdogEntry m + 1\<rparr>)
          else ([LogWatchdogLimit], m))"

definition silent :: "u32 \<Rightarrow> WatchDogEntry \<Rightarrow> bool" where
  "silent now e \<longleftrightarrow> timeoutElapsed (lastPongTime e) WATCHDOG_INTERVAL now"

function cleanup_loop :: "u32 \<Rightarrow> nat \<Rightarrow> WebSocketManager \<Rightarrow> WsOutput list \<times> WebSocketManager" where
  "cleanup_loop now i m =
     (if i < freeWatchdogEntry m then
        let e = watchDogEntries m ! i in
        if entryActive e \<and> silent now e
        then (case cleanup_loop now (i + 1) (watchdogRemoveEntryIdx i m) of (out, m') \<Rightarrow> (CloseClient (clientId e) # out, m'))
        else cleanup_loop now (i + 1) m
      else ([], m))"
  by pat_completeness auto
termination
  by (relation "measure (\<lambda>(now, i, m). freeWatchdogEntry m - i)")
    (auto simp: watchdogRemoveEntryIdx_def Let_def)

declare cleanup_loop.simps [simp del]

text \<open>\<open>update\<close> of the main loop; the time of the cleaning is read again.\<close>

definition updateWebSocket :: "u32 \<Rightarrow> u32 \<Rightarrow> WebSocketManager \<Rightarrow> WsOutput list \<times> WebSocketManager" where
  "updateWebSocket currentMillis millis m =
     (if \<not> watchdogFeedStarted m \<or> timeoutElapsed (watchdogFeedStartedAt m) WATCHDOG_INTERVAL currentMillis
      then case cleanup_loop millis 0 (m\<lparr>watchdogFeedStartedAt := currentMillis, watchdogFeedStarted := True\<rparr>) of
          (out, m') \<Rightarrow> (NotifyClients COMM_WATCHDOG_PING # out, m')
      else ([], m))"

text \<open>What AsyncTCP and the main loop call, in any order.  The pong of a browser is the command \<open>_pong_\<close>.\<close>

datatype WatchdogEvent = WsConnect nat u32 | WsDisconnect nat | WsPong nat u32 | WsUpdate u32 u32

fun onEvent :: "WatchdogEvent \<Rightarrow> WebSocketManager \<Rightarrow> WsOutput list \<times> WebSocketManager" where
  "onEvent (WsConnect client millis) m = handleWatchdogResponse client millis m"
| "onEvent (WsDisconnect client) m = ([], watchdogRemoveEntry client m)"
| "onEvent (WsPong client millis) m = handleWatchdogResponse client millis m"
| "onEvent (WsUpdate currentMillis millis) m = updateWebSocket currentMillis millis m"

section \<open>The watched clients\<close>

text \<open>The part of the table in use; a well-formed table is dense and names no client twice.\<close>

definition rows :: "WebSocketManager \<Rightarrow> WatchDogEntry list" where
  "rows m = take (freeWatchdogEntry m) (watchDogEntries m)"

definition watchdog_inv :: "WebSocketManager \<Rightarrow> bool" where
  "watchdog_inv m \<longleftrightarrow> length (watchDogEntries m) = DEFAULT_MAX_WS_CLIENTS \<and> freeWatchdogEntry m \<le> DEFAULT_MAX_WS_CLIENTS
     \<and> (\<forall>e \<in> set (rows m). entryActive e) \<and> distinct (map clientId (rows m))"

lemma length_rows: "watchdog_inv m \<Longrightarrow> length (rows m) = freeWatchdogEntry m"
  by (simp add: watchdog_inv_def rows_def)

lemma rows_nth: "i < freeWatchdogEntry m \<Longrightarrow> rows m ! i = watchDogEntries m ! i"
  by (simp add: rows_def)

lemma shift_down:
  "i \<le> n \<Longrightarrow> n < length es \<Longrightarrow> length (fold (\<lambda>f es. es[f := es ! (f + 1)]) [i..<n] es) = length es
    \<and> (\<forall>j < length es. fold (\<lambda>f es. es[f := es ! (f + 1)]) [i..<n] es ! j = (if i \<le> j \<and> j < n then es ! (j + 1) else es ! j))"
proof (induction n)
  case (Suc n)
  show ?case
  proof (cases "i \<le> n")
    case True
    then show ?thesis using Suc by (auto simp: nth_list_update less_Suc_eq)
  next
    case False
    then show ?thesis using Suc.prems by auto
  qed
qed simp

lemma rows_remove:
  assumes "length (watchDogEntries m) = DEFAULT_MAX_WS_CLIENTS" and "freeWatchdogEntry m \<le> DEFAULT_MAX_WS_CLIENTS"
    and i: "i < freeWatchdogEntry m"
  shows "rows (watchdogRemoveEntryIdx i m) = take i (rows m) @ drop (Suc i) (rows m)"
    and "length (watchDogEntries (watchdogRemoveEntryIdx i m)) = length (watchDogEntries m)"
    and "freeWatchdogEntry (watchdogRemoveEntryIdx i m) = freeWatchdogEntry m - 1"
proof -
  let ?es = "if entryActive (watchDogEntries m ! i) then (watchDogEntries m)[i := (watchDogEntries m ! i)\<lparr>entryActive := False\<rparr>] else watchDogEntries m"
  have len: "length ?es = length (watchDogEntries m)" by simp
  have "freeWatchdogEntry m - 1 < length ?es" and "i \<le> freeWatchdogEntry m - 1" using assms by (auto simp: DEFAULT_MAX_WS_CLIENTS_def)
  note sh = shift_down [OF this(2,1)]
  have w: "watchDogEntries (watchdogRemoveEntryIdx i m) = fold (\<lambda>f es. es[f := es ! (f + 1)]) [i..<freeWatchdogEntry m - 1] ?es"
    and f: "freeWatchdogEntry (watchdogRemoveEntryIdx i m) = freeWatchdogEntry m - 1"
    using i by (simp_all add: watchdogRemoveEntryIdx_def Let_def)
  show "length (watchDogEntries (watchdogRemoveEntryIdx i m)) = length (watchDogEntries m)" using sh w len by metis
  then have l: "length (rows (watchdogRemoveEntryIdx i m)) = freeWatchdogEntry m - 1"
    using assms f by (simp add: rows_def)
  show "rows (watchdogRemoveEntryIdx i m) = take i (rows m) @ drop (Suc i) (rows m)"
  proof (rule nth_equalityI)
    show "length (rows (watchdogRemoveEntryIdx i m)) = length (take i (rows m) @ drop (Suc i) (rows m))"
      using l assms by (simp add: rows_def)
  next
    fix j assume "j < length (rows (watchdogRemoveEntryIdx i m))"
    then have j: "j < freeWatchdogEntry m - 1" using l by simp
    then have "rows (watchdogRemoveEntryIdx i m) ! j = (if i \<le> j then ?es ! (j + 1) else ?es ! j)"
      using sh w f assms by (simp add: rows_def)
    also have "\<dots> = (take i (rows m) @ drop (Suc i) (rows m)) ! j"
      using j assms by (auto simp: rows_def nth_append min_def)
    finally show "rows (watchdogRemoveEntryIdx i m) ! j = (take i (rows m) @ drop (Suc i) (rows m)) ! j" .
  qed
qed (use i in \<open>simp add: watchdogRemoveEntryIdx_def Let_def\<close>)

lemma remove_row_inv:
  assumes "watchdog_inv m" and "i < freeWatchdogEntry m"
  shows "watchdog_inv (watchdogRemoveEntryIdx i m)"
proof -
  have r: "length (watchDogEntries m) = DEFAULT_MAX_WS_CLIENTS" "freeWatchdogEntry m \<le> DEFAULT_MAX_WS_CLIENTS"
    using assms(1) by (simp_all add: watchdog_inv_def)
  note r = rows_remove [OF this assms(2)]
  have "rows m = take i (rows m) @ rows m ! i # drop (Suc i) (rows m)"
    using assms length_rows [OF assms(1)] by (intro id_take_nth_drop) simp
  then obtain xs x ys where s: "rows m = xs @ x # ys" and t: "take i (rows m) @ drop (Suc i) (rows m) = xs @ ys"
    by metis
  then show ?thesis using r assms(1) by (auto simp: watchdog_inv_def)
qed

lemma new_watchdog_inv: "watchdog_inv newWebSocketManager"
  by (simp add: watchdog_inv_def newWebSocketManager_def rows_def)

lemma remove_loop_rows:
  "watchdog_inv m \<Longrightarrow> \<forall>e \<in> set (take cidx (rows m)). clientId e \<noteq> client \<Longrightarrow>
    watchdog_inv (remove_loop client cidx m) \<and> rows (remove_loop client cidx m) = filter (\<lambda>e. clientId e \<noteq> client) (rows m)"
proof (induction client cidx m rule: remove_loop.induct)
  case (1 client cidx m)
  show ?case
  proof (cases "cidx < freeWatchdogEntry m")
    case False
    then have "\<forall>e \<in> set (rows m). clientId e \<noteq> client" using 1(3) length_rows [OF 1(2)] by simp
    then show ?thesis using 1(2) False by (simp add: remove_loop.simps)
  next
    case True
    have "rows m = take cidx (rows m) @ rows m ! cidx # drop (Suc cidx) (rows m)"
      using True length_rows [OF 1(2)] by (intro id_take_nth_drop) simp
    then obtain xs x ys where s: "rows m = xs @ x # ys" "take cidx (rows m) = xs" "drop (Suc cidx) (rows m) = ys" "rows m ! cidx = x"
      by metis
    have lx: "length xs = cidx" using s(2) True length_rows [OF 1(2)] by auto
    have act: "entryActive x" using 1(2) s(1) by (simp add: watchdog_inv_def)
    have xs: "\<forall>e \<in> set xs. clientId e \<noteq> client" using 1(3) unfolding s(2) .
    show ?thesis
    proof (cases "clientId x = client")
      case False
      then have "\<forall>e \<in> set (take (cidx + 1) (rows m)). clientId e \<noteq> client" using s(1) lx xs by simp
      moreover have "\<not> watches client (watchDogEntries m ! cidx)" using False s(4) rows_nth [OF True] by (simp add: watches_def)
      ultimately show ?thesis using 1(1) [OF True] 1(2) True by (simp add: remove_loop.simps [of client cidx m])
    next
      case eq: True
      let ?m = "watchdogRemoveEntryIdx cidx m"
      have w: "watches client (watchDogEntries m ! cidx)" using eq act s(4) rows_nth [OF True] by (simp add: watches_def)
      have r: "rows ?m = xs @ ys" using rows_remove(1) [OF _ _ True] 1(2) s by (simp add: watchdog_inv_def)
      have ys: "\<forall>e \<in> set ys. clientId e \<noteq> client" using 1(2) s(1) eq by (auto simp: watchdog_inv_def) (metis image_eqI)
      then have none: "\<forall>e \<in> set (rows ?m). clientId e \<noteq> client" using xs r by auto
      then have "\<forall>e \<in> set (take (cidx + 1) (rows ?m)). clientId e \<noteq> client" by (auto dest: in_set_takeD)
      then have "watchdog_inv (remove_loop client (cidx + 1) ?m) \<and> rows (remove_loop client (cidx + 1) ?m) = filter (\<lambda>e. clientId e \<noteq> client) (rows ?m)"
        using 1(1) [OF True] w remove_row_inv [OF 1(2) True] by simp
      moreover have "filter (\<lambda>e. clientId e \<noteq> client) (rows ?m) = filter (\<lambda>e. clientId e \<noteq> client) (rows m)"
        using r s(1) eq by simp
      ultimately show ?thesis using True w by (simp add: remove_loop.simps [of client cidx m])
    qed
  qed
qed

text \<open>One pass over the table: a closed client is taken out, and the one that moves into its place is passed over.\<close>

fun sweep :: "('a \<Rightarrow> bool) \<Rightarrow> 'a list \<Rightarrow> 'a list \<times> 'a list" where
  "sweep P [] = ([], [])"
| "sweep P [x] = (if P x then ([x], []) else ([], [x]))"
| "sweep P (x # y # ys) = (if P x then map_prod ((#) x) ((#) y) (sweep P ys) else apsnd ((#) x) (sweep P (y # ys)))"

lemma sweep_facts:
  "mset xs = mset (fst (sweep P xs)) + mset (snd (sweep P xs)) \<and> list_all P (fst (sweep P xs))
    \<and> length (filter P (snd (sweep P xs))) \<le> length (fst (sweep P xs))
    \<and> (filter P xs \<noteq> [] \<longrightarrow> fst (sweep P xs) \<noteq> [])"
  by (induction P xs rule: sweep.induct) (auto simp: map_prod_def apsnd_def split: prod.split)

lemma cleanup_loop_sweep:
  "watchdog_inv m \<Longrightarrow> (case cleanup_loop now i m of (out, m') \<Rightarrow>
     watchdog_inv m' \<and> out = map (CloseClient \<circ> clientId) (fst (sweep (silent now) (drop i (rows m))))
     \<and> rows m' = take i (rows m) @ snd (sweep (silent now) (drop i (rows m))))"
proof (induction now i m rule: cleanup_loop.induct)
  case (1 now i m)
  show ?case
  proof (cases "i < freeWatchdogEntry m")
    case False
    then show ?thesis using 1(3) length_rows [OF 1(3)] by (simp add: cleanup_loop.simps)
  next
    case True
    let ?x = "rows m ! i"
    have d: "drop i (rows m) = ?x # drop (Suc i) (rows m)" and tk: "take (Suc i) (rows m) = take i (rows m) @ [?x]"
      using True length_rows [OF 1(3)] by (simp_all add: Cons_nth_drop_Suc take_Suc_conv_app_nth)
    have e: "watchDogEntries m ! i = ?x" using rows_nth [OF True] by simp
    have "?x \<in> set (rows m)" using True length_rows [OF 1(3)] by simp
    then have act: "entryActive ?x" using 1(3) by (simp add: watchdog_inv_def)
    show ?thesis
    proof (cases "silent now ?x")
      case False
      have "sweep (silent now) (?x # ys) = apsnd ((#) ?x) (sweep (silent now) ys)" for ys
        using False by (cases ys) simp_all
      then show ?thesis using 1(2) [OF True refl] 1(3) False True e d tk
        by (simp add: cleanup_loop.simps [of now i m] Let_def)
    next
      case sil: True
      let ?m = "watchdogRemoveEntryIdx i m" and ?ys = "drop (Suc i) (rows m)"
      have r: "rows ?m = take i (rows m) @ ?ys" using rows_remove(1) [OF _ _ True] 1(3) by (simp add: watchdog_inv_def)
      have l: "length (take i (rows m)) = i" using True length_rows [OF 1(3)] by simp
      have sw: "sweep (silent now) (?x # ?ys) = map_prod ((#) ?x) (\<lambda>k. take 1 ?ys @ k) (sweep (silent now) (drop 1 ?ys))"
        using sil by (cases ?ys) simp_all
      have rows': "take (i + 1) (rows ?m) = take i (rows m) @ take 1 ?ys" "drop (i + 1) (rows ?m) = drop 1 ?ys"
        using r l by simp_all
      note ih = 1(1) [OF True refl _ remove_row_inv [OF 1(3) True]]
      obtain out m' where c: "cleanup_loop now (i + 1) ?m = (out, m')" by fastforce
      have "watchdog_inv m' \<and> out = map (CloseClient \<circ> clientId) (fst (sweep (silent now) (drop 1 ?ys)))
        \<and> rows m' = take i (rows m) @ take 1 ?ys @ snd (sweep (silent now) (drop 1 ?ys))"
        using ih act sil e c rows' by simp
      moreover have "cleanup_loop now i m = (CloseClient (clientId ?x) # out, m')"
        using True act sil e c by (simp add: cleanup_loop.simps [of now i m] Let_def)
      ultimately show ?thesis unfolding d sw by (simp add: fst_map_prod snd_map_prod)
    qed
  qed
qed

lemma response_rows:
  assumes "watchdog_inv m"
  shows "watchdog_inv (snd (handleWatchdogResponse client t m))
    \<and> set (map clientId (rows (snd (handleWatchdogResponse client t m)))) =
        (if freeWatchdogEntry m < DEFAULT_MAX_WS_CLIENTS then insert client (set (map clientId (rows m))) else set (map clientId (rows m)))"
proof (cases "find (\<lambda>cidx. watches client (watchDogEntries m ! cidx)) [0..<freeWatchdogEntry m]")
  case None
  have old: "client \<notin> set (map clientId (rows m))"
  proof
    assume "client \<in> set (map clientId (rows m))"
    then obtain e where e: "e \<in> set (rows m)" "clientId e = client" by auto
    then obtain i where i: "i < freeWatchdogEntry m" "rows m ! i = e" using length_rows [OF assms] by (metis in_set_conv_nth)
    have "watches client (watchDogEntries m ! i)" using e i rows_nth [OF i(1)] assms by (simp add: watches_def watchdog_inv_def)
    then show False using None i(1) by (simp add: find_None_iff)
  qed
  show ?thesis
  proof (cases "freeWatchdogEntry m < DEFAULT_MAX_WS_CLIENTS")
    case True
    let ?m = "snd (handleWatchdogResponse client t m)"
    have "rows ?m = rows m @ [\<lparr>entryActive = True, clientId = client, lastPongTime = t\<rparr>]"
      using None True assms by (simp add: handleWatchdogResponse_def rows_def watchdog_inv_def take_Suc_conv_app_nth)
    then show ?thesis using None True assms old by (auto simp: watchdog_inv_def handleWatchdogResponse_def)
  qed (use None assms in \<open>simp add: handleWatchdogResponse_def\<close>)
next
  case (Some i)
  then have i: "i < freeWatchdogEntry m" and w: "watches client (watchDogEntries m ! i)" by (auto simp: find_Some_iff)
  let ?m = "snd (handleWatchdogResponse client t m)"
  have r: "rows ?m = (rows m)[i := (rows m ! i)\<lparr>lastPongTime := t\<rparr>]"
    using Some i by (simp add: handleWatchdogResponse_def rows_def take_update_swap)
  have mem: "rows m ! i \<in> set (rows m)" using i length_rows [OF assms] by simp
  have c: "map clientId (rows ?m) = map clientId (rows m)"
    using r by (simp add: map_update) (metis list_update_id map_update)
  have "\<forall>e \<in> set (rows ?m). entryActive e"
    using r mem assms set_update_subset_insert by (fastforce simp: watchdog_inv_def)
  then have "watchdog_inv ?m" using c Some assms by (simp add: watchdog_inv_def handleWatchdogResponse_def)
  moreover have "client \<in> set (map clientId (rows m))" using mem w rows_nth [OF i] by (auto simp: watches_def)
  ultimately show ?thesis using c by (auto simp del: set_map)
qed

lemma update_rows:
  assumes "watchdog_inv m" and "updateWebSocket now t m = (out, m')"
  shows "watchdog_inv m'"
    and "\<exists>closed. mset (rows m) = mset closed + mset (rows m') \<and> list_all (silent t) closed
        \<and> out = (if out = [] then [] else NotifyClients COMM_WATCHDOG_PING # map (CloseClient \<circ> clientId) closed)
        \<and> (out \<noteq> [] \<longrightarrow> length (filter (silent t) (rows m')) \<le> length closed \<and> (filter (silent t) (rows m) \<noteq> [] \<longrightarrow> closed \<noteq> []))"
proof -
  let ?m = "m\<lparr>watchdogFeedStartedAt := now, watchdogFeedStarted := True\<rparr>"
  have "rows ?m = rows m" "watchdog_inv ?m" using assms(1) by (simp_all add: rows_def watchdog_inv_def)
  note c = cleanup_loop_sweep [OF this(2), of t 0, unfolded this(1)]
  show "watchdog_inv m'" using assms c by (auto simp: updateWebSocket_def split: if_splits prod.splits)
  show "\<exists>closed. mset (rows m) = mset closed + mset (rows m') \<and> list_all (silent t) closed
        \<and> out = (if out = [] then [] else NotifyClients COMM_WATCHDOG_PING # map (CloseClient \<circ> clientId) closed)
        \<and> (out \<noteq> [] \<longrightarrow> length (filter (silent t) (rows m')) \<le> length closed \<and> (filter (silent t) (rows m) \<noteq> [] \<longrightarrow> closed \<noteq> []))"
  proof (cases "out = []")
    case True
    then have "m' = m" using assms(2) by (auto simp: updateWebSocket_def split: if_splits prod.splits)
    then show ?thesis using True by (intro exI [of _ "[]"]) simp
  next
    case False
    then have "out = NotifyClients COMM_WATCHDOG_PING # map (CloseClient \<circ> clientId) (fst (sweep (silent t) (rows m)))"
      "rows m' = snd (sweep (silent t) (rows m))"
      using assms(2) c by (auto simp: updateWebSocket_def split: if_splits prod.splits)
    then show ?thesis using sweep_facts [of "rows m" "silent t"] by (intro exI [of _ "fst (sweep (silent t) (rows m))"]) simp
  qed
qed

definition watchdogRun :: "WatchdogEvent list \<Rightarrow> WebSocketManager \<Rightarrow> WebSocketManager" where
  "watchdogRun es m = fold (\<lambda>e m. snd (onEvent e m)) es m"

lemma on_event_inv: "watchdog_inv m \<Longrightarrow> watchdog_inv (snd (onEvent e m))"
  using update_rows(1) [of m _ _ "fst (onEvent e m)" "snd (onEvent e m)"]
  by (cases e) (simp_all add: response_rows remove_loop_rows watchdogRemoveEntry_def)

text \<open>
  Whatever browsers connect, answer and leave, in any order with the passes of the main loop, the table never holds more
  than fifteen clients, none twice and no inactive entry; a client whose disconnection was reported is not in it any more, so
  that the watchdog never touches an object that ESPAsyncWebServer has freed; and a pass closes and takes out exactly the clients it
  closes, each of them silent for at least ten seconds.
\<close>

theorem watchdog_table_sound:
  "let m = watchdogRun es newWebSocketManager in
     length (rows m) \<le> 15 \<and> distinct (map clientId (rows m)) \<and> (\<forall>e \<in> set (rows m). entryActive e)
     \<and> rows (snd (onEvent (WsDisconnect client) m)) = filter (\<lambda>e. clientId e \<noteq> client) (rows m)
     \<and> (case onEvent (WsUpdate now t) m of (out, m') \<Rightarrow>
          \<exists>closed. mset (rows m) = mset closed + mset (rows m') \<and> list_all (\<lambda>e. timeoutElapsed (lastPongTime e) 10000 t) closed
            \<and> (out = [] \<or> out = NotifyClients COMM_WATCHDOG_PING # map (CloseClient \<circ> clientId) closed)
            \<and> (out \<noteq> [] \<longrightarrow> length (filter (silent t) (rows m')) \<le> length closed))"
proof -
  let ?m = "watchdogRun es newWebSocketManager"
  have "watchdog_inv m \<Longrightarrow> watchdog_inv (watchdogRun es m)" for m
    by (induction es arbitrary: m) (simp_all add: watchdogRun_def on_event_inv)
  then have inv: "watchdog_inv ?m" using new_watchdog_inv by blast
  obtain out m' where u: "updateWebSocket now t ?m = (out, m')" by fastforce
  have P: "silent t = (\<lambda>e. timeoutElapsed (lastPongTime e) 10000 t)" by (simp add: silent_def fun_eq_iff WATCHDOG_INTERVAL_def)
  have "rows (snd (onEvent (WsDisconnect client) ?m)) = filter (\<lambda>e. clientId e \<noteq> client) (rows ?m)"
    using remove_loop_rows [OF inv, of 0 client] by (simp add: watchdogRemoveEntry_def)
  moreover have "length (rows ?m) \<le> 15" "distinct (map clientId (rows ?m))" "\<forall>e \<in> set (rows ?m). entryActive e"
    using inv length_rows [OF inv] by (auto simp: watchdog_inv_def DEFAULT_MAX_WS_CLIENTS_def)
  moreover have "\<exists>closed. mset (rows ?m) = mset closed + mset (rows m') \<and> list_all (silent t) closed
            \<and> (out = [] \<or> out = NotifyClients COMM_WATCHDOG_PING # map (CloseClient \<circ> clientId) closed)
            \<and> (out \<noteq> [] \<longrightarrow> length (filter (silent t) (rows m')) \<le> length closed)"
    using update_rows(2) [OF inv u] by metis
  ultimately show ?thesis using u unfolding P by (simp add: Let_def)
qed

text \<open>
  Two neighbours that fell silent together: the first pass closes one only, because the entry that moves up is passed over;
  and it does so after ten seconds, while the header file speaks of thirty.
\<close>

theorem silent_neighbour_is_skipped:
  "let m = watchdogRun [WsConnect 7 0, WsConnect 8 0] newWebSocketManager in
     fst (onEvent (WsUpdate 10000 10000) m) = [NotifyClients COMM_WATCHDOG_PING, CloseClient 7]
     \<and> map clientId (rows (snd (onEvent (WsUpdate 10000 10000) m))) = [8]
     \<and> fst (onEvent (WsUpdate 20000 20000) (snd (onEvent (WsUpdate 10000 10000) m))) = [NotifyClients COMM_WATCHDOG_PING, CloseClient 8]"
  by code_simp

end
