(* ===== verification/Spec2Isabelle.thy ===== *)
theory Spec2Isabelle
  imports Lock_Pulse Pass_Witness Cred_Witness Tunnel_Close Cipher_Witness Log_Witness Config_Witness Session_Witness Vpn_Witness
    Direct_Witness Loop_Witness Link_Witness Web_Socket
begin

text \<open>
  The OrangeBox firmware: a parcel box on an ESP32.  A courier shows a barcode to the scanner or types a code on the
  keypad; the box checks it against a store of credentials in flash, releases the lock of a door for a moment, and
  reports what happened to a log server.  A reverse SSH tunnel lets a gateway reach the web server of the box.

  \<^bold>\<open>The program and the theories that model it.\<close>  Paths are relative to \<open>src/\<close>; \<open>SSH\<close> stands for
  \<open>experimental_libs/OrangeBoxSshTunnel/src\<close> and \<open>LIB\<close> for \<open>experimental_libs/OrangeBoxLibssh2Esp/src\<close>.  A definition
  has the name of the function it models, with a suffix or a prefix where that name is taken.

  The box itself:
    \<^item> \<open>Prelude\<close>: machine words, C strings as character lists that end at the first NUL, byte and list lemmas.
    \<^item> \<open>Timeout\<close>, \<open>Timer\<close> (\<open>include/timeout.h\<close>, \<open>src/timer.cpp\<close>): wrap-around timeouts on the 32-bit millisecond clock
      and the table of ten timers.  The handler of a due timer is an argument that may change the table.
    \<^item> \<open>Gpio\<close> (\<open>src/gpio_hal.cpp\<close>): doors, contacts with their debouncing, locks and the light, over the levels of pins.
    \<^item> \<open>Keyboard\<close>, \<open>Qr_Payload\<close>, \<open>Qr_Scanner\<close> (\<open>src/keyboard.cpp\<close>, \<open>include/qr_payload.h\<close>, \<open>src/qr_scanner.cpp\<close>,
      \<open>src/box_scanner.cpp\<close>): the bytes of a keypad poll become keys, PINs and commands; the bytes of the serial line become
      scanner events.
    \<^item> \<open>Pass_Record\<close>, \<open>Pass_Store\<close> (\<open>src/pass_store.cpp\<close>): the credential records, a doubly linked list in the flash
      library Preferences with a cache in RAM.  \<open>Pass_Chain\<close>, \<open>Pass_Invariant\<close>, \<open>Pass_Recovery\<close> and \<open>Pass_Faults\<close> hold the
      invariant of flash and cache, what a power cut between any two writes leaves and how the start-up repairs it,
      and what failing writes do; \<open>Pass_Witness\<close> instantiates the storage with the in-memory Preferences of
      \<open>test/stubs/Preferences.h\<close>.
    \<^item> \<open>Cred_Dates\<close>, \<open>Cred_Protocol\<close> (\<open>src/cred_protocol.cpp\<close>): the requests that list and change credentials, with their
      decimal numbers and dates.
    \<^item> \<open>State_Machine\<close> (\<open>src/state_machine.cpp\<close>) and \<open>State_Table\<close>, its transition table as a relation, which it refines;
      \<open>State_Props\<close> and \<open>State_Safety\<close> prove the laws of the machine once, inside locales that fix the firmware's callback.
    \<^item> \<open>Firmware\<close>, \<open>Main_Loop\<close>, \<open>Box_Safety\<close>, \<open>Lock_Pulse\<close>, \<open>Loop_Safety\<close> (\<open>src/main.cpp\<close>): the callback, one pass of
      \<open>loop\<close> in the order of the code, and the properties of the whole box.  The invariant and the penalty are proved over
      \<open>firmware_run\<close>, which leaves everything but the state machine free and so holds for any code around it; what
      the passes themselves do -- which input opens a door, when a lock goes down, that a request is served -- is
      proved over \<open>loop\<close> in \<open>Loop_Safety\<close>.
    \<^item> \<open>Box_Config\<close>, \<open>Box_Store\<close>, \<open>Provisioning\<close>, \<open>Box_Rtc\<close> (\<open>src/box_config.cpp\<close>, \<open>src/box_config_store.cpp\<close>,
      \<open>src/provisioning_payload.cpp\<close>, \<open>src/provisioning.cpp\<close>, \<open>src/box_rtc.cpp\<close>): the configuration document and its two
      files, the provisioning code, the clock chip.
    \<^item> \<open>Web_Socket\<close> (\<open>src/websocket.cpp\<close>): the table of command handlers, and the table of connected browsers, which
      the watchdog closes when they fall silent.

  The log:
    \<^item> \<open>Log_Params\<close>, \<open>Log_Format\<close>, \<open>Log_Dictionary\<close> (\<open>src/log_params.cpp\<close>, \<open>src/log_messages.cpp\<close>,
      \<open>include/log_messages.def\<close>): parameter blocks, the dictionary, and the formatting of a message.
    \<^item> \<open>Log_Emit\<close>, \<open>Log_Queue\<close>, \<open>Log_Account\<close> (\<open>src/logger.cpp\<close>): the two outputs of an event, the ring of records that
      overwrites the oldest, and the account of every record.  Other tasks may log while a record is sent.
    \<^item> \<open>Log_Socket\<close>, \<open>Log_Frame\<close> (\<open>src/websocket_log_transport.cpp\<close>, \<open>src/log_serialization.cpp\<close>): the state machine of the
      WebSocket and its frames.

  The tunnel:
    \<^item> \<open>Tunnel_Ring\<close>, \<open>Tunnel_Breaker\<close>, \<open>Tunnel_Channels\<close>, \<open>Tunnel_Pump\<close> (\<open>ring_buffer.h\<close>, \<open>prepend_buffer.h\<close>,
      \<open>circuit_breaker.h\<close>, \<open>ssh_channel.cpp\<close>, \<open>ssh_transport.cpp\<close> in \<open>SSH\<close>): the queues of a channel, the table of slots, and
      the four phases that move the bytes.  \<open>Tunnel_Inv\<close>, \<open>Tunnel_Stream\<close> and \<open>Tunnel_Close\<close> prove the invariant of the
      table, the order of the bytes and the bound on closing.
    \<^item> \<open>Tunnel_HostKey\<close>, \<open>Tunnel_Fingerprint\<close>, \<open>Tunnel_Config\<close>, \<open>Tunnel_Session\<close>, \<open>Tunnel_Connect\<close> (\<open>ssh_config.cpp\<close>,
      \<open>ssh_session.cpp\<close>): the check of the server's key, the configuration, and the session with its stages.
    \<^item> \<open>Tunnel_Facade\<close> (\<open>ssh_tunnel.cpp\<close>): accepting into slots and two waiting queues, reconnecting, tearing down.
      \<open>Tunnel_Handles\<close>, \<open>Tunnel_Memory\<close>, \<open>Tunnel_Lifetime\<close> and \<open>Tunnel_Owners\<close> prove that no channel is used after it
      was freed.
    \<^item> \<open>Vpn_Manager\<close> (\<open>src/vpn_manager.cpp\<close> and \<open>startVpn\<close> of \<open>src/main.cpp\<close>): the worker task that configures and drives
      the tunnel; \<open>Vpn_Safety\<close>, \<open>Vpn_Runs\<close> and \<open>Vpn_Memory\<close> carry the tunnel's properties over to its runs.
    \<^item> \<open>Link_Watchdog\<close> (\<open>checkLinkStatus\<close> of \<open>src/main.cpp\<close>): the watchdog of the WiFi link, which stops and starts the
      tunnel.
    \<^item> \<open>Direct_Client\<close>, \<open>Direct_Safety\<close> (\<open>ssh_direct_client.cpp\<close>, and \<open>openDirectTcpip\<close> of \<open>ssh_tunnel.cpp\<close> and
      \<open>src/vpn_manager.cpp\<close>): channels that the box opens to a host behind the gateway.
    \<^item> \<open>Chacha\<close>, \<open>Poly1305\<close>, \<open>Chachapoly\<close> (\<open>chacha.c\<close>, \<open>poly1305.c\<close>, \<open>cipher-chachapoly.c\<close> in \<open>LIB\<close>): the packet cipher;
      \<open>Poly_Proof\<close>, \<open>Poly_Auth\<close> and \<open>Poly_Final\<close> show that the 26-bit limbs compute the polynomial modulo \<open>2^130 - 5\<close>.
    \<^item> The theories ending in \<open>Witness\<close> apply the properties to concrete inputs.

  \<^bold>\<open>How state and effects are modelled.\<close>  A class is a record of its members and a method a function from the old state
  to its result and the new one.  Code outside the repository -- Preferences, ArduinoJson, LittleFS, RTClib, AsyncTCP,
  FreeRTOS, lwIP, libssh2 -- is a record of functions, an argument of every definition that uses it; what the theorems
  need of its documented behaviour is a named hypothesis such as \<open>register_chip\<close>, \<open>net_heap\<close> or \<open>ssh_heap\<close>, and the
  witnesses give an instance.  The interfaces inside the repository are locales, interpreted at the model: the storage
  below the credential store, the callback of the state machine, the ring below the queues, and the ends between which
  the pump moves bytes.  Tasks that run at the same time are interleaved at their critical sections: the log queue against other
  loggers, and the main loop against the worker of the tunnel (\<open>vpn_step\<close>, where a command may be posted before any
  step of the worker; opening a direct channel is not one of its steps, since the firmware never does).  Integers keep their width, so clocks,
  counters and sizes wrap as they do on the chip.

  \<^bold>\<open>What the lemmas show.\<close>  Safety of the box: a lock is raised only for a door that a verified credential or a request
  authorises, in the machine and in each pass of the main loop, the penalty after bad codes is kept, the store changes
  exactly when a verification or an opening says so, a queued request is carried out, and the lock pulse and every
  timed state end.  The credential store: its invariant over all its operations, first match, use counting, and
  recovery from a power cut at any write.  The log: each event leaves its record or the report with the reason, each
  record is sent once and in order, or counted as lost, and only after the upgrade of the connection.  The tunnel: bytes keep their order, the channel table is consistent, closing
  ends, connecting is all or nothing and names the stage that failed, a pinned key admits no other server and reveals no credential to it, and no freed
  channel is used, in any run of the manager.  The cipher: it is the ChaCha20 key stream, the authenticator the Poly1305
  polynomial, decryption inverts encryption and accepts nothing else.  The configuration: a document is taken over
  field by field as a whole or not at all, survives the restart, and starts the tunnel it describes.

  \<^bold>\<open>Bounds and fuel.\<close>  Loops over a structure are structural recursion.  Repairing the credential
  list and collecting its garbage have the bound of the code, 4096 records, and running out of it is the code's own exit; the
  loop of \<open>rebuildCache\<close> has no bound, so it is a partial function that is shown to return on every list that the
  operations, or a power cut in one, leave.  \<open>flushQueue\<close> has the code's budget of 32 records.  \<open>accept_all\<close> gets one more turn than
  there are slots, since a turn that goes on has bound a slot.  \<open>listen_loop\<close> has the code's bound of 50 tries.  The loops
  of the code that only the clock or the peer ends (\<open>direct_loop\<close>, \<open>deadline_loop\<close>) take fuel and return \<open>None\<close> when it is
  used up; for the calls on an open channel, with a timeout of \<open>t\<close> milliseconds and \<open>n\<close> bytes to write, \<open>t + n + 51\<close> turns are
  shown to be enough, and with a timeout of 0 the code may wait for ever.

  \<^bold>\<open>Not modelled.\<close>  The web server and its routes: replies are
  built by libraries, and what a request changes in the box is modelled where it is changed.  The display, the camera
  and the diagnostics only draw, stream and print.  The dialogue and the download of the provisioning are calls into
  WiFi, TLS and HTTP libraries.  The set-up of \<open>src/main.cpp\<close> configures peripherals.  Of \<open>LIB\<close>, a
  vendored libssh2, only the ChaCha20-Poly1305 cipher is modelled; the rest is the interface \<open>Ssh\<close>.  Log calls, and code
  that is compiled out, are left out.
\<close>

end
